(* ===== verification/Prelude.thy ===== *)
theory Prelude
  imports Complex_Main "HOL-Library.AList" "HOL-Library.List_Lexorder" "HOL-Library.Char_ord"
    "HOL-Library.Product_Lexorder"
begin

text \<open>
  What the components share: the error type and the error-passing combinators (a Python
  exception is an \<^term>\<open>Inl\<close>), tables as lists of rows with the three ways the code
  touches them (look a row up, add a row, change the rows that match), and generic lemmas.
  Strings are compared as Python compares them, by code point from the left: that is the
  order of \<^theory_text>\<open>List_Lexorder\<close> over \<^theory_text>\<open>Char_ord\<close>.
\<close>

named_theorems row_simps \<open>looking rows up after a table was changed\<close>
named_theorems frame_simps \<open>which tables an operation leaves alone\<close>
named_theorems inv_intros \<open>operations keep an invariant\<close>

section \<open>Errors\<close>

text \<open>
  \<open>HTTPException\<close> carries the status and the \<open>code\<close> of its detail, \<open>PolicyError\<close> the
  fixed part of its message, \<open>PyError\<close> the class of any other Python exception (a missing
  key, a wrong type), \<open>IntegrityError\<close> the table whose uniqueness constraint refuses the row.
\<close>

datatype err =
    HTTPException nat string
  | PolicyError string
  | PyError string
  | IntegrityError string

type_synonym 'a res = "err + 'a"

definition bind_res :: "'a res \<Rightarrow> ('a \<Rightarrow> 'b res) \<Rightarrow> 'b res" where
  "bind_res m f = (case m of Inl e \<Rightarrow> Inl e | Inr x \<Rightarrow> f x)"

definition guard_res :: "bool \<Rightarrow> err \<Rightarrow> unit res" where
  "guard_res c e = (if c then Inr () else Inl e)"

definition from_option :: "err \<Rightarrow> 'a option \<Rightarrow> 'a res" where
  "from_option e x = (case x of None \<Rightarrow> Inl e | Some y \<Rightarrow> Inr y)"

fun map_res :: "('a \<Rightarrow> 'b res) \<Rightarrow> 'a list \<Rightarrow> 'b list res" where
  "map_res f [] = Inr []"
| "map_res f (x # xs) = bind_res (f x) (\<lambda>y. bind_res (map_res f xs) (\<lambda>ys. Inr (y # ys)))"

fun fold_res :: "('a \<Rightarrow> 's \<Rightarrow> 's res) \<Rightarrow> 'a list \<Rightarrow> 's \<Rightarrow> 's res" where
  "fold_res f [] s = Inr s"
| "fold_res f (x # xs) s = bind_res (f x s) (fold_res f xs)"

lemma bind_res_simps [simp]:
  "bind_res (Inl e) f = Inl e" "bind_res (Inr x) f = f x"
  by (simp_all add: bind_res_def)

lemma bind_res_Inr: "bind_res m f = Inr y \<longleftrightarrow> (\<exists>x. m = Inr x \<and> f x = Inr y)"
  by (cases m) auto

lemma bind_res_Inl: "bind_res m f = Inl e \<longleftrightarrow> m = Inl e \<or> (\<exists>x. m = Inr x \<and> f x = Inl e)"
  by (cases m) auto

lemma bind_res_cong [fundef_cong]:
  "m = m' \<Longrightarrow> (\<And>x. m' = Inr x \<Longrightarrow> f x = f' x) \<Longrightarrow> bind_res m f = bind_res m' f'"
  by (cases m') auto

lemma guard_res_simps [simp]:
  "guard_res True e = Inr ()" "guard_res False e = Inl e"
  by (simp_all add: guard_res_def)

lemma guard_res_Inr: "guard_res c e = Inr u \<longleftrightarrow> c"
  by (simp add: guard_res_def)

lemma guard_res_Inl: "guard_res c e = Inl e' \<longleftrightarrow> \<not> c \<and> e = e'"
  by (auto simp: guard_res_def)

lemma from_option_simps [simp]:
  "from_option e None = Inl e" "from_option e (Some x) = Inr x"
  by (simp_all add: from_option_def)

lemma from_option_Inr: "from_option e m = Inr x \<longleftrightarrow> m = Some x"
  by (simp add: from_option_def split: option.splits)

lemmas res_elim = bind_res_Inr guard_res_Inr from_option_Inr

lemma map_res_length: "map_res f xs = Inr ys \<Longrightarrow> length ys = length xs"
  by (induction xs arbitrary: ys) (auto simp: res_elim)

lemma map_res_Inr_iff: "map_res f xs = Inr ys \<longleftrightarrow> list_all2 (\<lambda>x y. f x = Inr y) xs ys"
  by (induction xs arbitrary: ys) (auto simp: res_elim list_all2_Cons1)

lemma map_res_mem: "map_res f xs = Inr ys \<Longrightarrow> y \<in> set ys \<Longrightarrow> \<exists>x \<in> set xs. f x = Inr y"
  by (induction xs arbitrary: ys) (auto simp: res_elim)

lemma map_res_mem': "map_res f xs = Inr ys \<Longrightarrow> x \<in> set xs \<Longrightarrow> \<exists>y \<in> set ys. f x = Inr y"
  by (induction xs arbitrary: ys) (auto simp: res_elim)

lemma map_res_total: "(\<And>x. x \<in> set xs \<Longrightarrow> \<exists>y. f x = Inr y) \<Longrightarrow> \<exists>ys. map_res f xs = Inr ys"
proof (induction xs)
  case Nil
  then show ?case by simp
next
  case (Cons x xs)
  then obtain y ys where "f x = Inr y" "map_res f xs = Inr ys" by (metis list.set_intros)
  then show ?case by simp
qed

lemma map_res_cong [fundef_cong]:
  "xs = ys \<Longrightarrow> (\<And>x. x \<in> set ys \<Longrightarrow> f x = g x) \<Longrightarrow> map_res f xs = map_res g ys"
  by (induction ys arbitrary: xs) (auto intro: bind_res_cong)

lemma map_res_pure: "(\<And>x. x \<in> set xs \<Longrightarrow> f x = Inr (g x)) \<Longrightarrow> map_res f xs = Inr (map g xs)"
  by (induction xs) auto

text \<open>An invariant of the state that every step keeps is kept by the whole loop.\<close>

lemma fold_res_invariant:
  assumes "fold_res f xs s = Inr t" "P s"
    and "\<And>x s t. x \<in> set xs \<Longrightarrow> P s \<Longrightarrow> f x s = Inr t \<Longrightarrow> P t"
  shows "P t"
  using assms
proof (induction xs arbitrary: s)
  case Nil
  then show ?case by simp
next
  case (Cons x xs)
  from Cons.prems(1) obtain u where "f x s = Inr u" "fold_res f xs u = Inr t"
    by (auto simp: res_elim)
  with Cons.prems(2,3) Cons.IH show ?case by (meson list.set_intros)
qed

lemma fold_res_append:
  "fold_res f (xs @ ys) s = bind_res (fold_res f xs s) (fold_res f ys)"
proof (induction xs arbitrary: s)
  case Nil
  then show ?case by simp
next
  case (Cons x xs)
  then show ?case by (cases "f x s") auto
qed

section \<open>Tables\<close>

text \<open>
  A table is the list of its rows in insertion order. \<open>update_rows\<close> is an assignment to the
  loaded objects that satisfy the condition (or an UPDATE statement); a query without ORDER
  BY returns rows in table order, which the database leaves open.
\<close>

definition update_rows :: "('r \<Rightarrow> bool) \<Rightarrow> ('r \<Rightarrow> 'r) \<Rightarrow> 'r list \<Rightarrow> 'r list" where
  "update_rows P f rows = map (\<lambda>r. if P r then f r else r) rows"

lemma update_rows_Nil [simp]: "update_rows P f [] = []"
  by (simp add: update_rows_def)

lemma update_rows_Cons [simp]:
  "update_rows P f (r # rs) = (if P r then f r else r) # update_rows P f rs"
  by (simp add: update_rows_def)

lemma update_rows_append [simp]:
  "update_rows P f (xs @ ys) = update_rows P f xs @ update_rows P f ys"
  by (simp add: update_rows_def)

lemma length_update_rows [simp]: "length (update_rows P f xs) = length xs"
  by (simp add: update_rows_def)

lemma set_update_rows: "set (update_rows P f xs) = (\<lambda>r. if P r then f r else r) ` set xs"
  by (simp add: update_rows_def)

lemma update_rows_key [row_simps]:
  "(\<And>r. k (f r) = k r) \<Longrightarrow> map k (update_rows P f xs) = map k xs"
  by (induction xs) auto

lemma update_rows_none: "(\<And>r. r \<in> set xs \<Longrightarrow> \<not> P r) \<Longrightarrow> update_rows P f xs = xs"
  by (induction xs) auto

lemma filter_update_rows_disjoint [row_simps]:
  "(\<And>r. P r \<Longrightarrow> Q (f r) = Q r) \<Longrightarrow> (\<And>r. P r \<Longrightarrow> \<not> Q r) \<Longrightarrow>
   filter Q (update_rows P f xs) = filter Q xs"
  by (induction xs) auto

lemma find_update_rows [row_simps]:
  "(\<And>r. Q (f r) = Q r) \<Longrightarrow>
   find Q (update_rows P f xs) = map_option (\<lambda>r. if P r then f r else r) (find Q xs)"
  by (induction xs) auto

lemma find_append [row_simps]:
  "find P (xs @ ys) = (case find P xs of None \<Rightarrow> find P ys | Some x \<Rightarrow> Some x)"
  by (induction xs) auto

lemma find_SomeD: "find P xs = Some x \<Longrightarrow> x \<in> set xs \<and> P x"
  by (induction xs) (auto split: if_splits)

lemma find_NoneD: "find P xs = None \<Longrightarrow> x \<in> set xs \<Longrightarrow> \<not> P x"
  by (induction xs) (auto split: if_splits)

lemma find_None_filter: "find P xs = None \<longleftrightarrow> filter P xs = []"
  by (induction xs) auto

text \<open>With distinct keys a lookup by key finds the row that is there.\<close>

lemma find_distinct:
  "distinct (map k xs) \<Longrightarrow> x \<in> set xs \<Longrightarrow> find (\<lambda>r. k r = k x) xs = Some x"
  by (induction xs) (auto simp: image_iff)

lemma find_key:
  "distinct (map k xs) \<Longrightarrow> x \<in> set xs \<Longrightarrow> k x = i \<Longrightarrow> find (\<lambda>r. k r = i) xs = Some x"
  using find_distinct by metis

lemma find_key_unique:
  "distinct (map k xs) \<Longrightarrow> x \<in> set xs \<Longrightarrow> y \<in> set xs \<Longrightarrow> k x = k y \<Longrightarrow> x = y"
  by (induction xs) (auto simp: image_iff)

lemma last_dropWhile: "dropWhile P xs \<noteq> [] \<Longrightarrow> last (dropWhile P xs) = last xs"
  by (induction xs) auto

text \<open>\<open>ORDER BY t DESC LIMIT 1\<close>, and \<open>max(rows, key=t)\<close>: the first row with the greatest key.\<close>

fun latest :: "('r \<Rightarrow> 'k::linorder) \<Rightarrow> 'r list \<Rightarrow> 'r option" where
  "latest t [] = None"
| "latest t (r # rs) =
     (case latest t rs of None \<Rightarrow> Some r | Some q \<Rightarrow> if t r < t q then Some q else Some r)"

lemma latest_mem: "latest t xs = Some x \<Longrightarrow> x \<in> set xs"
  by (induction xs arbitrary: x) (auto split: option.splits if_splits)

lemma latest_None [simp]: "latest t xs = None \<longleftrightarrow> xs = []"
  by (induction xs) (auto split: option.splits)

lemma latest_max: "latest t xs = Some x \<Longrightarrow> y \<in> set xs \<Longrightarrow> t y \<le> t x"
  by (induction xs arbitrary: x y) (fastforce split: option.splits if_splits)+

lemma latest_last:
  "sorted_wrt (\<lambda>x y. t x < t y) xs \<Longrightarrow> xs \<noteq> [] \<Longrightarrow> latest t xs = Some (last xs)"
  by (induction xs) (auto dest: latest_mem split: option.splits)

section \<open>Sorted sets of strings\<close>

text \<open>\<open>sorted(set(xs))\<close>\<close>

definition sorted_set :: "'a::linorder list \<Rightarrow> 'a list" where
  "sorted_set xs = sort (remdups xs)"

lemma set_sorted_set [simp]: "set (sorted_set xs) = set xs"
  by (simp add: sorted_set_def)

lemma sorted_sorted_set [simp]: "sorted (sorted_set xs)"
  by (simp add: sorted_set_def)

lemma distinct_sorted_set [simp]: "distinct (sorted_set xs)"
  by (simp add: sorted_set_def)

lemma sorted_set_idem [simp]: "sorted_set (sorted_set xs) = sorted_set xs"
  by (simp add: sorted_set_def sort_key_id_if_sorted distinct_remdups_id)

lemma sorted_set_eq: "sorted_set xs = sorted_list_of_set (set xs)"
  by (simp add: sorted_set_def sorted_list_of_set_sort_remdups)

lemma sorted_set_cong: "set xs = set ys \<Longrightarrow> sorted_set xs = sorted_set ys"
  by (simp add: sorted_set_eq)

text \<open>\<open>a, b = sorted((left, right))\<close>\<close>

definition sorted_pair :: "'a::linorder \<Rightarrow> 'a \<Rightarrow> 'a \<times> 'a" where
  "sorted_pair a b = (if a \<le> b then (a, b) else (b, a))"

lemma sorted_pair_commute: "sorted_pair a b = sorted_pair b a"
  by (auto simp: sorted_pair_def)

lemma sorted_pair_inject:
  "sorted_pair a b = sorted_pair c d \<longleftrightarrow> (a = c \<and> b = d) \<or> (a = d \<and> b = c)"
  by (auto simp: sorted_pair_def)

end
