(* ===== verification/PyValue.thy ===== *)
theory PyValue
  imports Prelude "HOL-Library.Multiset"
begin

text \<open>
  Python values as the code passes them around: what \<open>json.loads\<close> can return, the dict
  operations the source uses, truthiness, \<open>==\<close>, \<open>in\<close>, \<open>str\<close>, \<open>float\<close> and \<open>round\<close>, and the
  services of the Python runtime that stay parameters (\<open>runtime\<close>).
\<close>

section \<open>Values\<close>

datatype json =
    JNull
  | JBool bool
  | JInt int
  | JFloat real
  | JStr string
  | JList "json list"
  | JObj "(string \<times> json) list"

type_synonym dict = "(string \<times> json) list"

text \<open>
  The services of the runtime that the model leaves open: the Unicode tables
  (\<open>unicodedata.normalize("NFKC", _)\<close>, \<open>casefold\<close>, \<open>upper\<close>, \<open>lower\<close>, \<open>capitalize\<close>), the regular
  expression engine (\<open>re.fullmatch\<close>, None for a pattern it refuses), \<open>str(Decimal(s).normalize())\<close>,
  \<open>float(s)\<close> and \<open>int(s)\<close> of a string (None for ValueError), \<open>str\<close> of a float,
  list or dict, SHA-256 of the compact JSON encoding, the clock (\<open>datetime.now\<close>, in
  microseconds, at its n-th reading) and \<open>uuid4\<close> (the n-th identifier drawn).
\<close>

text \<open>
  \<open>str(Decimal(text).normalize())\<close>: the text of the number, an \<open>InvalidOperation\<close>, or the \<open>Overflow\<close> of a
  number whose exponent is beyond the context of \<open>normalize\<close>.
\<close>

datatype decimal = DecimalText string | NotDecimal | DecimalOverflow

record runtime =
  nfkc :: "string \<Rightarrow> string"
  casefold :: "string \<Rightarrow> string"
  upper :: "string \<Rightarrow> string"
  lower :: "string \<Rightarrow> string"
  capitalize :: "string \<Rightarrow> string"
  fullmatch :: "string \<Rightarrow> string \<Rightarrow> bool option"
  decimal_normalize :: "string \<Rightarrow> decimal"
  parse_float :: "string \<Rightarrow> real option"
  parse_int :: "string \<Rightarrow> int option"
  repr :: "json \<Rightarrow> string"
  digest :: "json \<Rightarrow> string"
  isoformat :: "int \<Rightarrow> string"
  datetime_str :: "int \<Rightarrow> string"
  clock :: "nat \<Rightarrow> int"
  uuid :: "nat \<Rightarrow> string"

section \<open>Dictionaries\<close>

text \<open>
  A dict is an association list in insertion order. \<open>d.get(k)\<close> is \<^term>\<open>map_of d k\<close>,
  \<open>d[k] = v\<close> is \<^const>\<open>AList.update\<close> (it keeps the place of an existing key), \<open>d | e\<close> and
  \<open>d.update(e)\<close> are \<open>dict_merge\<close>.
\<close>

definition dget :: "dict \<Rightarrow> string \<Rightarrow> json" where
  "dget d k = (case map_of d k of None \<Rightarrow> JNull | Some v \<Rightarrow> v)"

definition dget_or :: "dict \<Rightarrow> string \<Rightarrow> json \<Rightarrow> json" where
  "dget_or d k v = (case map_of d k of None \<Rightarrow> v | Some w \<Rightarrow> w)"

definition dkeys :: "dict \<Rightarrow> string list" where
  "dkeys d = map fst d"

definition dict_merge :: "dict \<Rightarrow> dict \<Rightarrow> dict" where
  "dict_merge d e = fold (\<lambda>(k, v). AList.update k v) e d"

lemma map_of_dict_merge: "map_of (dict_merge d e) = map_of d ++ map_of (rev e)"
  unfolding dict_merge_def
proof (induction e arbitrary: d)
  case Nil
  then show ?case by simp
next
  case (Cons p e)
  then show ?case
    by (cases p) (auto simp: update_conv' map_add_def fun_eq_iff split: option.splits)
qed

lemma distinct_dict_merge: "distinct (map fst d) \<Longrightarrow> distinct (map fst (dict_merge d e))"
  unfolding dict_merge_def
  by (induction e arbitrary: d) (auto simp: distinct_update)

text \<open>A dict with JSON keys looked up by a JSON value: only a string can be a key.\<close>

definition jget :: "dict \<Rightarrow> json \<Rightarrow> json" where
  "jget d k = (case k of JStr s \<Rightarrow> dget d s | _ \<Rightarrow> JNull)"

section \<open>Equality, truth, membership\<close>

text \<open>\<open>True == 1 == 1.0\<close>: booleans, ints and floats compare as numbers.\<close>

fun num_of :: "json \<Rightarrow> real option" where
  "num_of (JBool b) = Some (if b then 1 else 0)"
| "num_of (JInt i) = Some (real_of_int i)"
| "num_of (JFloat x) = Some x"
| "num_of _ = None"

function py_eq :: "json \<Rightarrow> json \<Rightarrow> bool" where
  "py_eq JNull b = (b = JNull)"
| "py_eq (JBool x) b = (num_of b = Some (if x then 1 else 0))"
| "py_eq (JInt i) b = (num_of b = Some (real_of_int i))"
| "py_eq (JFloat x) b = (num_of b = Some x)"
| "py_eq (JStr s) b = (b = JStr s)"
| "py_eq (JList xs) b = (case b of JList ys \<Rightarrow> list_all2 py_eq xs ys | _ \<Rightarrow> False)"
| "py_eq (JObj d) b =
     (case b of
        JObj e \<Rightarrow> length d = length e \<and>
          list_all (\<lambda>p. case map_of e (fst p) of None \<Rightarrow> False | Some w \<Rightarrow> py_eq (snd p) w) d
      | _ \<Rightarrow> False)"
  by pat_completeness auto
termination
proof (relation "measure (\<lambda>(a, b). size a)", goal_cases)
  case 1
  then show ?case by simp
next
  case (2 xs b ys z z')
  then have "z \<in> set xs" by (auto dest: set_zip_leftD)
  then show ?case by (simp add: size_list_estimation' less_Suc_eq_le)
next
  case (3 d b e p w)
  then have "p \<in> set d" by simp
  moreover have "size (snd p) \<le> size_prod (\<lambda>_. 0) size p" by (cases p) simp
  ultimately have "size (snd p) \<le> size_list (size_prod (\<lambda>_. 0) size) d"
    by (rule size_list_estimation')
  then show ?case by simp
qed

text \<open>A value as Python has it: every key of a dict once.\<close>

fun wf_json :: "json \<Rightarrow> bool" where
  "wf_json (JList xs) = list_all wf_json xs"
| "wf_json (JObj d) = (distinct (map fst d) \<and> list_all (\<lambda>(k, v). wf_json v) d)"
| "wf_json v = True"

lemma py_eq_refl: "wf_json v \<Longrightarrow> py_eq v v"
proof (induction v rule: wf_json.induct)
  case (1 xs)
  then show ?case by (auto simp: list_all_iff list_all2_same)
next
  case (2 d)
  have "py_eq v v \<and> map_of d k = Some v" if "(k, v) \<in> set d" for k v
    using 2 that by (fastforce simp: list_all_iff)
  then show ?case by (auto simp: list_all_iff)
qed auto

lemma py_eq_JStr [simp]: "py_eq a (JStr s) \<longleftrightarrow> a = JStr s"
  by (cases a) auto

lemma py_eq_JNull [simp]: "py_eq a JNull \<longleftrightarrow> a = JNull"
  by (cases a) auto

text \<open>\<open>value in (None, "")\<close> and \<open>not value\<close>\<close>

definition is_missing :: "json \<Rightarrow> bool" where
  "is_missing v \<longleftrightarrow> v = JNull \<or> v = JStr []"

fun truthy :: "json \<Rightarrow> bool" where
  "truthy JNull = False"
| "truthy (JBool b) = b"
| "truthy (JInt i) = (i \<noteq> 0)"
| "truthy (JFloat x) = (x \<noteq> 0)"
| "truthy (JStr s) = (s \<noteq> [])"
| "truthy (JList xs) = (xs \<noteq> [])"
| "truthy (JObj d) = (d \<noteq> [])"

text \<open>\<open>needle in t\<close> for strings, then \<open>v in c\<close> for any container.\<close>

fun prefix_of :: "string \<Rightarrow> string \<Rightarrow> bool" where
  "prefix_of [] t = True"
| "prefix_of (c # s) [] = False"
| "prefix_of (c # s) (d # t) = (c = d \<and> prefix_of s t)"

fun substring :: "string \<Rightarrow> string \<Rightarrow> bool" where
  "substring s [] = (s = [])"
| "substring s (c # t) = (prefix_of s (c # t) \<or> substring s t)"

definition py_in :: "json \<Rightarrow> json \<Rightarrow> bool res" where
  "py_in v c =
    (case c of
       JList xs \<Rightarrow> Inr (\<exists>x \<in> set xs. py_eq v x)
     | JObj d \<Rightarrow> (case v of JList _ \<Rightarrow> Inl (PyError ''TypeError'')
                          | JObj _ \<Rightarrow> Inl (PyError ''TypeError'')
                          | JStr s \<Rightarrow> Inr (s \<in> set (dkeys d))
                          | _ \<Rightarrow> Inr False)
     | JStr t \<Rightarrow> (case v of JStr s \<Rightarrow> Inr (substring s t) | _ \<Rightarrow> Inl (PyError ''TypeError''))
     | _ \<Rightarrow> Inl (PyError ''TypeError''))"

section \<open>Conversions\<close>

text \<open>\<open>for x in v\<close>: the elements of a list, the keys of a dict, the characters of a string.\<close>

definition py_iter :: "json \<Rightarrow> json list res" where
  "py_iter v =
    (case v of
       JList xs \<Rightarrow> Inr xs
     | JObj d \<Rightarrow> Inr (map JStr (dkeys d))
     | JStr s \<Rightarrow> Inr (map (\<lambda>c. JStr [c]) s)
     | _ \<Rightarrow> Inl (PyError ''TypeError''))"

definition as_dict :: "json \<Rightarrow> dict res" where
  "as_dict v = (case v of JObj d \<Rightarrow> Inr d | _ \<Rightarrow> Inl (PyError ''AttributeError''))"

definition as_str :: "json \<Rightarrow> string res" where
  "as_str v = (case v of JStr s \<Rightarrow> Inr s | _ \<Rightarrow> Inl (PyError ''AttributeError''))"

definition is_str :: "json \<Rightarrow> bool" where
  "is_str v = (case v of JStr _ \<Rightarrow> True | _ \<Rightarrow> False)"

text \<open>\<open>d[k]\<close>\<close>

definition dindex :: "dict \<Rightarrow> string \<Rightarrow> json res" where
  "dindex d k = from_option (PyError ''KeyError'') (map_of d k)"

text \<open>\<open>float(v)\<close>\<close>

definition py_float :: "runtime \<Rightarrow> json \<Rightarrow> real res" where
  "py_float R v =
    (case v of
       JStr s \<Rightarrow> from_option (PyError ''ValueError'') (parse_float R s)
     | _ \<Rightarrow> from_option (PyError ''TypeError'') (num_of v))"

text \<open>\<open>int(v)\<close>\<close>

definition py_int :: "runtime \<Rightarrow> json \<Rightarrow> int res" where
  "py_int R v =
    (case v of
       JBool b \<Rightarrow> Inr (if b then 1 else 0)
     | JInt i \<Rightarrow> Inr i
     | JFloat x \<Rightarrow> Inr (if x < 0 then \<lceil>x\<rceil> else \<lfloor>x\<rfloor>)
     | JStr s \<Rightarrow> from_option (PyError ''ValueError'') (parse_int R s)
     | _ \<Rightarrow> Inl (PyError ''TypeError''))"

text \<open>The number an arithmetic operator sees: strings and containers are a TypeError.\<close>

definition py_num :: "json \<Rightarrow> real res" where
  "py_num v = from_option (PyError ''TypeError'') (num_of v)"

fun digits_of :: "nat \<Rightarrow> string" where
  "digits_of n =
    (if n < 10 then [char_of (48 + n)] else digits_of (n div 10) @ [char_of (48 + n mod 10)])"

declare digits_of.simps [simp del]

definition show_int :: "int \<Rightarrow> string" where
  "show_int i = (if i < 0 then CHR ''-'' # digits_of (nat (- i)) else digits_of (nat i))"

text \<open>\<open>str(v)\<close>\<close>

definition py_str :: "runtime \<Rightarrow> json \<Rightarrow> string" where
  "py_str R v =
    (case v of
       JNull \<Rightarrow> ''None''
     | JBool b \<Rightarrow> (if b then ''True'' else ''False'')
     | JInt i \<Rightarrow> show_int i
     | JStr s \<Rightarrow> s
     | _ \<Rightarrow> repr R v)"

section \<open>Rounding\<close>

text \<open>
  \<open>round(x, n)\<close>: to the nearest multiple of \<open>10^-n\<close>, a tie to the even one. Floats are
  modelled as exact reals, so the binary rounding of the IEEE operations is not part of the model.
\<close>

definition half_even :: "real \<Rightarrow> int" where
  "half_even y =
    (let f = \<lfloor>y\<rfloor>; d = y - of_int f
     in if d < 1/2 then f else if d > 1/2 then f + 1 else if even f then f else f + 1)"

definition py_round :: "nat \<Rightarrow> real \<Rightarrow> real" where
  "py_round n x = of_int (half_even (x * 10 ^ n)) / 10 ^ n"

lemma half_even_of_int [simp]: "half_even (of_int i) = i"
  by (simp add: half_even_def)

lemma half_even_mono: "x \<le> y \<Longrightarrow> half_even x \<le> half_even y"
proof -
  assume xy: "x \<le> y"
  then have f: "\<lfloor>x\<rfloor> \<le> \<lfloor>y\<rfloor>" by (rule floor_mono)
  show ?thesis
  proof (cases "\<lfloor>x\<rfloor> = \<lfloor>y\<rfloor>")
    case True
    with xy show ?thesis by (auto simp: half_even_def Let_def)
  next
    case False
    with f have "\<lfloor>x\<rfloor> + 1 \<le> \<lfloor>y\<rfloor>" by simp
    moreover have "half_even x \<le> \<lfloor>x\<rfloor> + 1" by (simp add: half_even_def Let_def)
    moreover have "\<lfloor>y\<rfloor> \<le> half_even y" by (simp add: half_even_def Let_def)
    ultimately show ?thesis by simp
  qed
qed

lemma half_even_error: "\<bar>of_int (half_even y) - y\<bar> \<le> 1/2"
  unfolding half_even_def Let_def by (auto simp: abs_if) linarith+

lemma py_round_mono: "x \<le> y \<Longrightarrow> py_round n x \<le> py_round n y"
  by (simp add: py_round_def divide_right_mono half_even_mono mult_right_mono)

lemma py_round_grid [simp]: "py_round n (of_int i / 10 ^ n) = of_int i / 10 ^ n"
  by (simp add: py_round_def)

lemma py_round_of_int [simp]: "py_round n (of_int i) = of_int i"
proof -
  have "(of_int i :: real) = of_int (i * 10 ^ n) / 10 ^ n" by simp
  then show ?thesis by (metis py_round_grid)
qed

lemma py_round_0 [simp]: "py_round n 0 = 0"
  using py_round_of_int [of n 0] by simp

lemma py_round_1 [simp]: "py_round n 1 = 1"
  using py_round_of_int [of n 1] by simp

lemma py_round_bounds: "0 \<le> x \<Longrightarrow> x \<le> 1 \<Longrightarrow> 0 \<le> py_round n x \<and> py_round n x \<le> 1"
  using py_round_mono [of 0 x n] py_round_mono [of x 1 n] by simp

lemma py_round_error: "\<bar>py_round n x - x\<bar> \<le> 1 / (2 * 10 ^ n)"
proof -
  have "\<bar>of_int (half_even (x * 10 ^ n)) - x * 10 ^ n\<bar> \<le> 1/2" by (rule half_even_error)
  then have "\<bar>of_int (half_even (x * 10 ^ n)) - x * 10 ^ n\<bar> / 10 ^ n \<le> (1/2) / 10 ^ n"
    by (rule divide_right_mono) simp
  moreover have "py_round n x - x = (of_int (half_even (x * 10 ^ n)) - x * 10 ^ n) / 10 ^ n"
    by (simp add: py_round_def diff_divide_distrib)
  then have "\<bar>py_round n x - x\<bar> = \<bar>of_int (half_even (x * 10 ^ n)) - x * 10 ^ n\<bar> / 10 ^ n"
    by (simp only: abs_divide) simp
  ultimately show ?thesis by simp
qed

section \<open>Canonical JSON\<close>

text \<open>
  \<open>json.dumps(v, sort_keys=True, separators=(",", ":"))\<close> depends on a value only up to the
  order of dict keys: \<open>canon\<close> sorts them at every level, and the digest of the runtime is
  taken of the sorted value.
\<close>

fun canon :: "json \<Rightarrow> json" where
  "canon (JList xs) = JList (map canon xs)"
| "canon (JObj d) = JObj (sort_key fst (map (\<lambda>(k, v). (k, canon v)) d))"
| "canon v = v"

definition canonical_hash :: "runtime \<Rightarrow> json \<Rightarrow> string" where
  "canonical_hash R v = digest R (canon v)"

lemma sort_key_mset_cong:
  assumes "mset xs = mset ys" "distinct (map f xs)"
  shows "sort_key f xs = sort_key f ys"
  by (rule sort_key_inj_key_eq) (use assms in \<open>simp_all add: distinct_map\<close>)

text \<open>The key order of a dict does not show in its hash.\<close>

lemma canonical_hash_permuted:
  assumes "mset d = mset e" "distinct (map fst d)"
  shows "canonical_hash R (JObj d) = canonical_hash R (JObj e)"
proof -
  have "mset (map (\<lambda>(k, v). (k, canon v)) d) = mset (map (\<lambda>(k, v). (k, canon v)) e)"
    using assms(1) by (metis mset_map)
  moreover have "distinct (map fst (map (\<lambda>(k, v). (k, canon v)) d))"
    using assms(2) by (simp add: comp_def case_prod_beta)
  ultimately have "sort_key fst (map (\<lambda>(k, v). (k, canon v)) d)
      = sort_key fst (map (\<lambda>(k, v). (k, canon v)) e)"
    by (rule sort_key_mset_cong)
  then show ?thesis by (simp add: canonical_hash_def)
qed

end
