(* ===== verification/Difflib.thy ===== *)
theory Difflib
  imports PyValue
begin

text \<open>
  \<open>difflib.SequenceMatcher(None, a, b).ratio()\<close>, the string similarity behind the
  \<open>sequence_ratio\<close> comparator of the matching policies: the standard library's longest
  matching block (with its popularity heuristic for long second strings), the recursion to
  the left and right of it, and \<open>2 * M / T\<close>.
\<close>

text \<open>\<open>autojunk\<close>: in a second string of 200 characters or more, a character that makes up more than 1%.\<close>

definition popular :: "string \<Rightarrow> char \<Rightarrow> bool" where
  "popular b c \<longleftrightarrow> 200 \<le> length b \<and> length b div 100 + 1 < count_list b c"

text \<open>The length of the run of equal, indexed characters that two strings start with.\<close>

fun run_len :: "(char \<Rightarrow> bool) \<Rightarrow> string \<Rightarrow> string \<Rightarrow> nat" where
  "run_len p (x # xs) (y # ys) = (if x = y \<and> \<not> p y then Suc (run_len p xs ys) else 0)"
| "run_len p _ _ = 0"

text \<open>
  \<open>find_longest_match\<close> on two slices: the scan visits every pair of positions \<open>(i, j)\<close>, \<open>i\<close>
  first, with \<open>k\<close> the run that ends there (\<open>newj2len[j]\<close>), and keeps the first longest block.
\<close>

definition scan_step ::
    "(char \<Rightarrow> bool) \<Rightarrow> string \<Rightarrow> string \<Rightarrow> nat \<times> nat \<Rightarrow> nat \<times> nat \<times> nat \<Rightarrow> nat \<times> nat \<times> nat" where
  "scan_step p a b = (\<lambda>(i, j) (bi, bj, bk).
     let k = run_len p (rev (take (Suc i) a)) (rev (take (Suc j) b))
     in if k > bk then (Suc i - k, Suc j - k, k) else (bi, bj, bk))"

definition scan :: "(char \<Rightarrow> bool) \<Rightarrow> string \<Rightarrow> string \<Rightarrow> nat \<times> nat \<times> nat" where
  "scan p a b =
     fold (scan_step p a b) (List.product [0..<length a] [0..<length b]) (0, 0, 0)"

text \<open>The block is then extended over equal neighbours, indexed or not.\<close>

definition find_longest_match :: "(char \<Rightarrow> bool) \<Rightarrow> string \<Rightarrow> string \<Rightarrow> nat \<times> nat \<times> nat" where
  "find_longest_match p a b =
     (let (i, j, k) = scan p a b;
          l = run_len (\<lambda>_. False) (rev (take i a)) (rev (take j b));
          r = run_len (\<lambda>_. False) (drop (i + k) a) (drop (j + k) b)
      in (i - l, j - l, l + k + r))"

lemma run_le: "run_len p xs ys \<le> length xs" "run_len p xs ys \<le> length ys"
  by (induction p xs ys rule: run_len.induct) auto

lemma run_take: "take (run_len p xs ys) xs = take (run_len p xs ys) ys"
  by (induction p xs ys rule: run_len.induct) auto

lemma run_same: "run_len (\<lambda>_. False) xs xs = length xs"
  by (induction xs) auto

definition block_in :: "string \<Rightarrow> string \<Rightarrow> nat \<times> nat \<times> nat \<Rightarrow> bool" where
  "block_in a b = (\<lambda>(i, j, k). i + k \<le> length a \<and> j + k \<le> length b)"

lemma scan_step_block:
  assumes "i < length a" "j < length b" "block_in a b m"
  shows "block_in a b (scan_step p a b (i, j) m)"
proof -
  let ?k = "run_len p (rev (take (Suc i) a)) (rev (take (Suc j) b))"
  have "?k \<le> Suc i" "?k \<le> Suc j"
    using run_le [of p "rev (take (Suc i) a)" "rev (take (Suc j) b)"] by simp_all
  with assms show ?thesis
    by (cases m) (auto simp: scan_step_def block_in_def Let_def)
qed

lemma scan_block: "block_in a b (scan p a b)"
proof -
  have "block_in a b (fold (scan_step p a b) ps m)"
    if "\<forall>(i, j) \<in> set ps. i < length a \<and> j < length b" "block_in a b m" for ps m
    using that
  proof (induction ps arbitrary: m)
    case Nil
    then show ?case by simp
  next
    case (Cons q ps)
    then show ?case by (cases q) (simp add: scan_step_block)
  qed
  then show ?thesis
    unfolding scan_def by (auto simp: block_in_def)
qed

lemma find_longest_match_block:
  assumes "find_longest_match p a b = (i, j, k)"
  shows "i + k \<le> length a" "j + k \<le> length b"
proof -
  obtain i0 j0 k0 where s: "scan p a b = (i0, j0, k0)" by (cases "scan p a b") auto
  have b: "i0 + k0 \<le> length a" "j0 + k0 \<le> length b"
    using scan_block [of a b p] by (simp_all add: s block_in_def)
  let ?l = "run_len (\<lambda>_. False) (rev (take i0 a)) (rev (take j0 b))"
  let ?r = "run_len (\<lambda>_. False) (drop (i0 + k0) a) (drop (j0 + k0) b)"
  have "?l \<le> i0" "?l \<le> j0" "?r \<le> length a - (i0 + k0)" "?r \<le> length b - (j0 + k0)"
    using run_le [of "\<lambda>_. False" "rev (take i0 a)" "rev (take j0 b)"]
      run_le [of "\<lambda>_. False" "drop (i0 + k0) a" "drop (j0 + k0) b"] b by simp_all
  with assms b show "i + k \<le> length a" "j + k \<le> length b"
    by (auto simp: find_longest_match_def s Let_def)
qed

text \<open>The sum of the block sizes of \<open>get_matching_blocks\<close>.\<close>

function matches :: "(char \<Rightarrow> bool) \<Rightarrow> string \<Rightarrow> string \<Rightarrow> nat" where
  "matches p a b =
     (case find_longest_match p a b of
        (i, j, k) \<Rightarrow>
          if k = 0 then 0
          else k + matches p (take i a) (take j b) + matches p (drop (i + k) a) (drop (j + k) b))"
  by pat_completeness auto
termination
proof (relation "measure (\<lambda>(p, a, b). length a)", goal_cases)
  case 1
  then show ?case by simp
next
  case (2 p a b i jk j k)
  then show ?case using find_longest_match_block(1) [of p a b i j k] by auto
next
  case (3 p a b i jk j k)
  then show ?case using find_longest_match_block(1) [of p a b i j k] by auto
qed

declare matches.simps [simp del]

definition sequence_ratio :: "string \<Rightarrow> string \<Rightarrow> real" where
  "sequence_ratio a b =
     (let t = length a + length b
      in if t = 0 then 1 else 2 * real (matches (popular b) a b) / real t)"

lemma matches_le: "matches p a b \<le> length a \<and> matches p a b \<le> length b"
proof (induction p a b rule: matches.induct)
  case (1 p a b)
  obtain i j k where m: "find_longest_match p a b = (i, j, k)"
    by (cases "find_longest_match p a b") auto
  note le = find_longest_match_block [OF m]
  show ?case
  proof (cases "k = 0")
    case True
    then show ?thesis by (simp add: matches.simps [of p a b] m)
  next
    case False
    with m "1.IH" have
      "matches p (take i a) (take j b) \<le> i" "matches p (take i a) (take j b) \<le> j"
      "matches p (drop (i + k) a) (drop (j + k) b) \<le> length a - (i + k)"
      "matches p (drop (i + k) a) (drop (j + k) b) \<le> length b - (j + k)"
      using le by fastforce+
    with le have "k + matches p (take i a) (take j b) + matches p (drop (i + k) a) (drop (j + k) b)
        \<le> length a"
      "k + matches p (take i a) (take j b) + matches p (drop (i + k) a) (drop (j + k) b) \<le> length b"
      by linarith+
    with False show ?thesis by (simp add: matches.simps [of p a b] m)
  qed
qed

lemma sequence_ratio_bounds: "0 \<le> sequence_ratio a b \<and> sequence_ratio a b \<le> 1"
proof -
  have "2 * matches (popular b) a b \<le> length a + length b"
    using matches_le [of "popular b" a b] by linarith
  then have "2 * real (matches (popular b) a b) \<le> real (length a + length b)"
    by (metis of_nat_le_iff of_nat_mult of_nat_numeral)
  then show ?thesis by (auto simp: sequence_ratio_def Let_def divide_le_eq)
qed

text \<open>A string without popular characters matches itself completely.\<close>

lemma fold_scan_ge:
  "(i, j) \<in> set ps \<Longrightarrow>
   run_len p (rev (take (Suc i) a)) (rev (take (Suc j) b)) \<le> snd (snd (fold (scan_step p a b) ps m))"
proof -
  have mono: "snd (snd m) \<le> snd (snd (fold (scan_step p a b) ps m))" for ps m
  proof (induction ps arbitrary: m)
    case Nil
    then show ?case by simp
  next
    case (Cons q ps)
    have "snd (snd m) \<le> snd (snd (scan_step p a b q m))"
      by (cases q; cases m) (simp add: scan_step_def Let_def)
    also have "\<dots> \<le> snd (snd (fold (scan_step p a b) (q # ps) m))"
      using Cons.IH [of "scan_step p a b q m"] by simp
    finally show ?case .
  qed
  show "(i, j) \<in> set ps \<Longrightarrow>
   run_len p (rev (take (Suc i) a)) (rev (take (Suc j) b)) \<le> snd (snd (fold (scan_step p a b) ps m))"
  proof (induction ps arbitrary: m)
    case Nil
    then show ?case by simp
  next
    case (Cons q ps)
    show ?case
    proof (cases "q = (i, j)")
      case True
      have "run_len p (rev (take (Suc i) a)) (rev (take (Suc j) b)) \<le> snd (snd (scan_step p a b q m))"
        by (cases m) (simp add: True scan_step_def Let_def)
      also have "\<dots> \<le> snd (snd (fold (scan_step p a b) (q # ps) m))"
        using mono [of "scan_step p a b q m" ps] by simp
      finally show ?thesis .
    next
      case False
      with Cons show ?thesis by simp
    qed
  qed
qed

lemma run_not_popular: "(\<And>c. c \<in> set xs \<Longrightarrow> \<not> p c) \<Longrightarrow> run_len p xs xs = length xs"
  by (induction xs) auto

lemma sequence_ratio_same:
  assumes "length a < 200"
  shows "sequence_ratio a a = 1"
proof (cases "a = []")
  case True
  then show ?thesis by (simp add: sequence_ratio_def)
next
  case False
  let ?n = "length a" and ?p = "popular a"
  have np: "\<not> ?p c" for c using assms by (simp add: popular_def)
  obtain i j k where s: "scan ?p a a = (i, j, k)" by (cases "scan ?p a a") auto
  have "run_len ?p (rev (take (Suc (?n - 1)) a)) (rev (take (Suc (?n - 1)) a)) \<le> k"
    using fold_scan_ge [of "?n - 1" "?n - 1" "List.product [0..<?n] [0..<?n]" ?p a a "(0, 0, 0)"]
      False s unfolding scan_def by simp
  with False np have "?n \<le> k" by (simp add: run_not_popular)
  moreover have "i + k \<le> ?n" "j + k \<le> ?n"
    using scan_block [of a a ?p] by (simp_all add: s block_in_def)
  ultimately have "i = 0" "j = 0" "k = ?n" by auto
  then have m: "find_longest_match ?p a a = (0, 0, ?n)"
    by (simp add: find_longest_match_def s Let_def)
  have "find_longest_match ?p [] [] = (0, 0, 0)"
    by (simp add: find_longest_match_def scan_def)
  then have "matches ?p [] [] = 0" by (simp add: matches.simps [of ?p "[]" "[]"])
  with m False have "matches ?p a a = ?n" by (simp add: matches.simps [of ?p a a])
  with False show ?thesis by (simp add: sequence_ratio_def Let_def)
qed

end
