(* ===== verification/Samples.thy ===== *)
theory Samples
  imports PyValue
begin

text \<open>
  Concrete inputs for the witnesses: a runtime on ASCII text, and the supplier domain that
  the loopback demo seeds (demo.py), as a JSON document.
\<close>

definition ascii_lower_char :: "char \<Rightarrow> char" where
  "ascii_lower_char c =
     (let n = (of_char c :: nat) in if 65 \<le> n \<and> n \<le> 90 then char_of (n + 32) else c)"

definition ascii_upper_char :: "char \<Rightarrow> char" where
  "ascii_upper_char c =
     (let n = (of_char c :: nat) in if 97 \<le> n \<and> n \<le> 122 then char_of (n - 32) else c)"

fun ascii_capitalize :: "string \<Rightarrow> string" where
  "ascii_capitalize [] = []"
| "ascii_capitalize (c # s) = ascii_upper_char c # map ascii_lower_char s"

text \<open>
  A pattern matches here when it is the value itself; a decimal keeps its text; the digest of
  a value is its text, so that different documents keep different digests.
\<close>

fun show_json :: "json \<Rightarrow> string" where
  "show_json JNull = ''null''"
| "show_json (JBool b) = (if b then ''true'' else ''false'')"
| "show_json (JInt i) = show_int i"
| "show_json (JFloat x) = ''f'' @ show_int \<lfloor>x * 1000000\<rfloor>"
| "show_json (JStr s) = ''\"'' @ s @ ''\"''"
| "show_json (JList xs) = ''['' @ concat (map (\<lambda>x. show_json x @ '','') xs) @ '']''"
| "show_json (JObj d) =
     ''{'' @ concat (map (\<lambda>(k, v). k @ '':'' @ show_json v @ '','') d) @ ''}''"

definition ascii_runtime :: runtime where
  "ascii_runtime =
     \<lparr>nfkc = id, casefold = map ascii_lower_char, upper = map ascii_upper_char,
      lower = map ascii_lower_char, capitalize = ascii_capitalize,
      fullmatch = (\<lambda>pat s. Some (pat = s)), decimal_normalize = DecimalText,
      parse_float = (\<lambda>_. None), parse_int = (\<lambda>_. None), repr = show_json,
      digest = show_json, isoformat = show_int, datetime_str = show_int,
      clock = (\<lambda>n. 1000000 * int n), uuid = (\<lambda>n. ''u'' @ digits_of n)\<rparr>"

text \<open>Its identifiers are pairwise different and its clock only moves on.\<close>

definition digit_value :: "nat \<Rightarrow> char \<Rightarrow> nat" where
  "digit_value n c = 10 * n + (of_char c - 48)"

lemma digits_of_value: "foldl digit_value 0 (digits_of n) = n"
proof (induction n rule: digits_of.induct)
  case (1 n)
  have step: "digit_value a (char_of (48 + d)) = 10 * a + d" if "d < 10" for a d
    using that by (simp add: digit_value_def)
  show ?case
  proof (cases "n < 10")
    case True
    with step [of n 0] show ?thesis by (subst digits_of.simps) simp
  next
    case False
    with 1 step [of "n mod 10"] show ?thesis by (subst digits_of.simps) simp
  qed
qed

lemma ascii_uuid: "inj (uuid ascii_runtime)"
proof -
  have "inj digits_of" by (metis digits_of_value injI)
  then show ?thesis by (simp add: ascii_runtime_def inj_def)
qed

lemma ascii_clock: "strict_mono (clock ascii_runtime)"
  by (simp add: strict_mono_def ascii_runtime_def)

definition text_attribute :: "string \<Rightarrow> string \<Rightarrow> string \<Rightarrow> dict \<Rightarrow> json" where
  "text_attribute key name kind rest =
     JObj ([(''key'', JStr key), (''name'', JStr name), (''type'', JStr kind)] @ rest)"

definition supplier_definition :: dict where
  "supplier_definition =
     [(''entity'', JStr ''supplier''),
      (''attributes'', JList
        [text_attribute ''name'' ''Legal name'' ''string''
           [(''required'', JBool True), (''normalizer'', JStr ''unicode_casefold'')],
         text_attribute ''tax_id'' ''Tax identifier'' ''identifier''
           [(''pattern'', JStr ''[A-Z]{2}[0-9]{3,12}''), (''normalizer'', JStr ''uppercase_trim''),
            (''read_roles'', JList [JStr ''administrator'', JStr ''steward'', JStr ''approver'',
               JStr ''auditor'']),
            (''write_roles'', JList [JStr ''administrator'', JStr ''integration_operator'',
               JStr ''steward''])],
         text_attribute ''email'' ''Contact email'' ''string''
           [(''normalizer'', JStr ''unicode_casefold'')],
         text_attribute ''country'' ''Country'' ''string''
           [(''allowed_values'', JList [JStr ''US'', JStr ''ES'', JStr ''AE'']),
            (''normalizer'', JStr ''uppercase_trim'')],
         text_attribute ''status'' ''Status'' ''enum''
           [(''allowed_values'', JList [JStr ''active'', JStr ''review'', JStr ''inactive''])]]),
      (''identifiers'', JList [JObj [(''field'', JStr ''tax_id''),
         (''namespace'', JStr ''jurisdiction''), (''hard_conflict'', JBool True)]]),
      (''matching'', JObj
        [(''blocking'', JList
           [JObj [(''fields'', JList [JStr ''country'']),
                  (''prefix'', JObj [(''field'', JStr ''name''), (''length'', JInt 5)])],
            JObj [(''fields'', JList [JStr ''tax_id''])]]),
         (''comparisons'', JList
           [JObj [(''field'', JStr ''name''), (''comparator'', JStr ''sequence_ratio''),
                  (''weight'', JFloat (65/100))],
            JObj [(''field'', JStr ''email''), (''comparator'', JStr ''exact''),
                  (''weight'', JFloat (20/100))],
            JObj [(''field'', JStr ''country''), (''comparator'', JStr ''exact''),
                  (''weight'', JFloat (15/100))]]),
         (''thresholds'', JObj [(''auto_link'', JFloat (84/100)), (''review'', JFloat (58/100))]),
         (''hard_conflicts'', JList [JStr ''tax_id''])]),
      (''survivorship'', JObj
        [(''default'', JStr ''verified_then_source_priority_then_observation_time''),
         (''tax_id'', JObj
           [(''strategy'', JStr ''verified_then_source_priority_then_observation_time''),
            (''source_precedence'', JList [JStr ''erp-postgres'', JStr ''vendor-http''])])])]"

end
