(* ===== verification/Policy.thy ===== *)
theory Policy
  imports Difflib Samples
begin

text \<open>
  The methods of \<open>CompiledPolicy\<close> (policy.py): text normalisation, validation, blocking
  keys and the comparison of two records. The policy's document is a record of its
  compiled parts; attributes, blocking strategies and comparison rules stay the dicts they
  are in the code, read with \<open>get\<close> and \<open>[]\<close>.
\<close>

section \<open>The compiled policy\<close>

record policy_identifier =
  id_field :: json
  id_namespace :: json
  hard_conflict :: bool

record compiled_policy =
  pol_entity :: json
  pol_mode :: json
  attributes :: "dict list"
  identifiers :: "policy_identifier list"
  pol_relationships :: json
  algorithm :: string
  prior_match_probability :: real
  blocking :: "dict list"
  comparisons :: "dict list"
  review_threshold :: real
  auto_link_threshold :: real
  survivorship :: dict
  pol_version :: string
  checksum :: string

section \<open>Text normalisation\<close>

text \<open>White space for \<open>str.strip\<close> and for the pattern \<open>\s\<close>, among the code points a \<open>char\<close> has.\<close>

definition is_space :: "char \<Rightarrow> bool" where
  "is_space c = (let n = (of_char c :: nat) in
     (9 \<le> n \<and> n \<le> 13) \<or> (28 \<le> n \<and> n \<le> 32) \<or> n = 133 \<or> n = 160)"

definition strip :: "string \<Rightarrow> string" where
  "strip s = rev (dropWhile is_space (rev (dropWhile is_space s)))"

text \<open>\<open>re.sub(r"\s+", " ", s)\<close>\<close>

function collapse :: "string \<Rightarrow> string" where
  "collapse [] = []"
| "collapse (c # s) =
     (if is_space c then CHR '' '' # collapse (dropWhile is_space s) else c # collapse s)"
  by pat_completeness auto
termination
  by (relation "measure length") (auto simp: le_imp_less_Suc length_dropWhile_le)

definition squeeze :: "string \<Rightarrow> string" where
  "squeeze s = collapse (strip s)"

definition text_norm :: "runtime \<Rightarrow> string \<Rightarrow> json \<Rightarrow> string res" where
  "text_norm R value mode =
     (let cleaned = squeeze (nfkc R value) in
      if mode = JStr ''preserve'' then Inr cleaned
      else if mode = JStr ''uppercase_trim'' then Inr (upper R cleaned)
      else if mode = JStr ''unicode_casefold'' then Inr (casefold R cleaned)
      else Inl (PolicyError ''unsupported normalizer''))"

text \<open>\<open>{item["key"]: item for item in self.attributes}.get(key)\<close>: the last one with the key.\<close>

definition attribute_of :: "compiled_policy \<Rightarrow> string \<Rightarrow> dict option" where
  "attribute_of p k = find (\<lambda>a. map_of a ''key'' = Some (JStr k)) (rev (attributes p))"

definition normalize_value :: "runtime \<Rightarrow> dict \<Rightarrow> json \<Rightarrow> json res" where
  "normalize_value R attr value =
     (let kind = dget_or attr ''type'' (JStr ''string'') in
      if kind = JStr ''decimal'' then
        (case decimal_normalize R (py_str R value) of
           DecimalText s \<Rightarrow> Inr (JStr s)
         | NotDecimal \<Rightarrow> Inr value
         | DecimalOverflow \<Rightarrow> Inl (PyError ''Overflow''))
      else
        (case value of
           JStr s \<Rightarrow>
             (let mode = dget_or attr ''normalizer''
                (JStr (if kind = JStr ''string'' \<or> kind = JStr ''reference''
                       then ''unicode_casefold'' else ''preserve''))
              in bind_res (text_norm R s mode) (\<lambda>t. Inr (JStr t)))
         | JList xs \<Rightarrow>
             (let mode = dget_or attr ''normalizer'' (JStr ''unicode_casefold'') in
              bind_res
                (map_res (\<lambda>x. case x of
                     JStr s \<Rightarrow> bind_res (text_norm R s mode) (\<lambda>t. Inr (JStr t))
                   | _ \<Rightarrow> Inr x) xs)
                (\<lambda>ys. Inr (JList ys)))
         | _ \<Rightarrow> Inr value))"

definition normalize :: "runtime \<Rightarrow> compiled_policy \<Rightarrow> dict \<Rightarrow> dict res" where
  "normalize R p values =
     map_res
       (\<lambda>(key, value).
          case attribute_of p key of
            None \<Rightarrow> Inr (key, value)
          | Some attr \<Rightarrow>
              if value = JNull then Inr (key, value)
              else bind_res (normalize_value R attr value) (\<lambda>v. Inr (key, v)))
       values"

section \<open>Validation\<close>

record quality_error =
  qe_attribute :: string
  qe_code :: string
  qe_message :: string

definition replace_char :: "char \<Rightarrow> char \<Rightarrow> string \<Rightarrow> string" where
  "replace_char a b s = map (\<lambda>c. if c = a then b else c) s"

definition py_len :: "json \<Rightarrow> nat res" where
  "py_len v = (case v of
     JStr s \<Rightarrow> Inr (length s) | JList xs \<Rightarrow> Inr (length xs) | JObj d \<Rightarrow> Inr (length d)
   | _ \<Rightarrow> Inl (PyError ''TypeError''))"

text \<open>\<open>isinstance(value, expected)\<close> for the Python type that belongs to an attribute type, if any.\<close>

definition has_type :: "json \<Rightarrow> json \<Rightarrow> bool" where
  "has_type kind value =
     (if kind \<in> {JStr ''string'', JStr ''reference'', JStr ''identifier'', JStr ''enum''}
        then is_str value
      else if kind = JStr ''integer''
        then (case value of JInt _ \<Rightarrow> True | JBool _ \<Rightarrow> True | _ \<Rightarrow> False)
      else if kind = JStr ''boolean'' then (case value of JBool _ \<Rightarrow> True | _ \<Rightarrow> False)
      else True)"

text \<open>The three checks of a present value, each with the error it reports.\<close>

definition check_allowed :: "json \<Rightarrow> json \<Rightarrow> bool res" where
  "check_allowed allowed value =
     (if value \<noteq> JNull \<and> allowed \<noteq> JNull then py_in value allowed else Inr True)"

definition check_pattern :: "runtime \<Rightarrow> json \<Rightarrow> json \<Rightarrow> bool res" where
  "check_pattern R pattern value =
     (if \<not> truthy pattern then Inr True
      else bind_res (py_len pattern) (\<lambda>n.
        bind_res (guard_res (n \<le> 256) (PolicyError ''pattern exceeds 256 characters'')) (\<lambda>_.
        if value = JNull then Inr True
        else (case value of
            JStr v \<Rightarrow> (case pattern of
                JStr pat \<Rightarrow> from_option (PyError ''re.error'') (fullmatch R pat v)
              | _ \<Rightarrow> Inl (PyError ''TypeError''))
          | _ \<Rightarrow> Inr False))))"

definition validate_attribute ::
    "runtime \<Rightarrow> dict \<Rightarrow> dict \<Rightarrow> quality_error list res" where
  "validate_attribute R attr values =
     bind_res (bind_res (dindex attr ''key'') as_str) (\<lambda>key.
     let value = dget values key;
         name = py_str R (dget_or attr ''name'' (JStr (replace_char CHR ''_'' CHR '' '' key)));
         kind = dget_or attr ''type'' (JStr ''string'')
     in if truthy (dget attr ''required'') \<and> is_missing value
        then Inr [\<lparr>qe_attribute = key, qe_code = ''required'',
                   qe_message = name @ '' is required''\<rparr>]
        else
          bind_res (check_allowed (dget attr ''allowed_values'') value) (\<lambda>allowed.
          bind_res (check_pattern R (dget attr ''pattern'') value) (\<lambda>matched.
          Inr ((if allowed then []
                else [\<lparr>qe_attribute = key, qe_code = ''allowed_values'',
                       qe_message = name @ '' is not an allowed value''\<rparr>]) @
               (if matched then []
                else [\<lparr>qe_attribute = key, qe_code = ''pattern'',
                       qe_message = name @ '' has an invalid format''\<rparr>]) @
               (if value = JNull \<or> has_type kind value then []
                else [\<lparr>qe_attribute = key, qe_code = ''type'',
                       qe_message = name @ '' must be '' @ py_str R kind\<rparr>])))))"

definition validate :: "runtime \<Rightarrow> compiled_policy \<Rightarrow> dict \<Rightarrow> quality_error list res" where
  "validate R p values =
     bind_res (map_res (\<lambda>attr. validate_attribute R attr values) (attributes p))
       (\<lambda>errors. Inr (concat errors))"

section \<open>Blocking keys\<close>

text \<open>
  The parts of the \<open>fields\<close> loop: a missing value empties the list and leaves the loop. The
  prefix is appended to whatever the loop left, and an empty prefix value empties the list.
\<close>

definition field_parts :: "runtime \<Rightarrow> dict \<Rightarrow> json list \<Rightarrow> string list" where
  "field_parts R normalized fs =
     (if \<exists>f \<in> set fs. is_missing (jget normalized f) then []
      else map (\<lambda>f. py_str R f @ ''='' @ py_str R (jget normalized f)) fs)"

definition slice_to :: "string \<Rightarrow> json \<Rightarrow> string res" where
  "slice_to s n =
     (case n of
        JInt i \<Rightarrow> Inr (if 0 \<le> i then take (nat i) s else take (length s - nat (- i)) s)
      | JBool b \<Rightarrow> Inr (take (if b then 1 else 0) s)
      | JNull \<Rightarrow> Inr s
      | _ \<Rightarrow> Inl (PyError ''TypeError''))"

definition prefix_value :: "runtime \<Rightarrow> dict \<Rightarrow> json \<Rightarrow> string" where
  "prefix_value R normalized field =
     (case field of
        JStr f \<Rightarrow> py_str R (dget_or normalized f (JStr []))
      | _ \<Rightarrow> [])"

definition strategy_parts :: "runtime \<Rightarrow> dict \<Rightarrow> dict \<Rightarrow> string list res" where
  "strategy_parts R strategy normalized =
     bind_res (py_iter (dget_or strategy ''fields'' (JList []))) (\<lambda>fs.
     let parts = field_parts R normalized fs;
         prefix = dget strategy ''prefix''
     in if \<not> truthy prefix then Inr parts
        else bind_res (as_dict prefix) (\<lambda>pre.
          bind_res (dindex pre ''field'') (\<lambda>field.
          let value = prefix_value R normalized field
          in if value = [] then Inr []
             else bind_res (dindex pre ''length'') (\<lambda>n.
               bind_res (slice_to value n) (\<lambda>v.
               Inr (parts @ [py_str R field @ ''^='' @ v]))))))"

fun join_bar :: "string list \<Rightarrow> string" where
  "join_bar [] = []"
| "join_bar [s] = s"
| "join_bar (s # t # ss) = s @ ''|'' @ join_bar (t # ss)"

fun blocking_from :: "runtime \<Rightarrow> nat \<Rightarrow> dict list \<Rightarrow> dict \<Rightarrow> string list res" where
  "blocking_from R index [] normalized = Inr []"
| "blocking_from R index (strategy # rest) normalized =
     bind_res (strategy_parts R strategy normalized) (\<lambda>parts.
     bind_res (blocking_from R (Suc index) rest normalized) (\<lambda>keys.
     Inr (if parts = [] then keys
          else (''p'' @ digits_of index @ ''|'' @ join_bar parts) # keys)))"

definition blocking_keys :: "runtime \<Rightarrow> compiled_policy \<Rightarrow> dict \<Rightarrow> string list res" where
  "blocking_keys R p normalized = blocking_from R 0 (blocking p) normalized"

section \<open>Comparison\<close>

datatype decision = AutoLink | Review | NoLink | KeepSeparate

record contradiction =
  con_field :: json
  con_namespace :: json
  con_left :: json
  con_right :: json

record evidence_item =
  ev_field :: json
  ev_comparator :: json
  ev_score :: real
  ev_weight :: real
  ev_log_likelihood_ratio :: "real option"

record match_result =
  score :: real
  score_kind :: string
  match_decision :: decision
  match_evidence :: "evidence_item list"
  contradictions :: "contradiction list"

text \<open>The hard identifier conflicts of a pair, in the order of the policy's identifiers.\<close>

definition conflicting :: "dict \<Rightarrow> dict \<Rightarrow> policy_identifier \<Rightarrow> bool" where
  "conflicting left right i =
     (let a = jget left (id_field i); b = jget right (id_field i)
      in \<not> is_missing a \<and> \<not> is_missing b \<and> \<not> py_eq a b \<and> hard_conflict i)"

definition find_contradictions ::
    "compiled_policy \<Rightarrow> dict \<Rightarrow> dict \<Rightarrow> contradiction list" where
  "find_contradictions p left right =
     map (\<lambda>i. \<lparr>con_field = id_field i, con_namespace = id_namespace i,
               con_left = jget left (id_field i), con_right = jget right (id_field i)\<rparr>)
       (filter (conflicting left right) (identifiers p))"

text \<open>One round of the loop over the comparison rules, before rounding.\<close>

record rule_score =
  rs_field :: json
  rs_comparator :: json
  component :: real
  weight :: real
  contribution :: "real option"

definition rule_component :: "runtime \<Rightarrow> dict \<Rightarrow> json \<Rightarrow> json \<Rightarrow> real res" where
  "rule_component R rule a b =
     (if is_missing a \<or> is_missing b then
        py_float R (dget_or rule ''missing_score'' (JFloat 0))
      else if dget rule ''comparator'' = JStr ''exact'' then Inr (if py_eq a b then 1 else 0)
      else if dget rule ''comparator'' = JStr ''sequence_ratio'' then
        Inr (sequence_ratio (py_str R a) (py_str R b))
      else Inl (PolicyError ''unsupported comparator''))"

definition rule_contribution :: "dict \<Rightarrow> real \<Rightarrow> real res" where
  "rule_contribution rule c =
     bind_res (bind_res (dindex rule ''m_probability'') py_num) (\<lambda>m.
     bind_res (bind_res (dindex rule ''u_probability'') py_num) (\<lambda>u.
     let agreement = ln (m / u);
         disagreement = ln ((1 - m) / (1 - u))
     in Inr (disagreement + c * (agreement - disagreement))))"

definition score_rule ::
    "runtime \<Rightarrow> string \<Rightarrow> dict \<Rightarrow> dict \<Rightarrow> dict \<Rightarrow> rule_score res" where
  "score_rule R alg left right rule =
     bind_res (dindex rule ''field'') (\<lambda>field.
     bind_res (dindex rule ''comparator'') (\<lambda>comparator.
     bind_res (rule_component R rule (jget left field) (jget right field)) (\<lambda>c.
     bind_res (bind_res (dindex rule ''weight'') (py_float R)) (\<lambda>w.
     bind_res (if alg = ''fellegi_sunter''
               then bind_res (rule_contribution rule c) (\<lambda>x. Inr (Some x))
               else Inr None) (\<lambda>l.
     Inr \<lparr>rs_field = field, rs_comparator = comparator, component = c, weight = w,
          contribution = l\<rparr>)))))"

definition evidence_of :: "rule_score \<Rightarrow> evidence_item" where
  "evidence_of r =
     \<lparr>ev_field = rs_field r, ev_comparator = rs_comparator r,
      ev_score = py_round 4 (component r), ev_weight = weight r,
      ev_log_likelihood_ratio = map_option (py_round 4) (contribution r)\<rparr>"

definition weighted_score :: "rule_score list \<Rightarrow> real" where
  "weighted_score rs =
     (let total = sum_list (map weight rs) in
      if total = 0 then 0
      else py_round 4 (sum_list (map (\<lambda>r. component r * weight r) rs) / total))"

definition posterior_score :: "real \<Rightarrow> rule_score list \<Rightarrow> real" where
  "posterior_score prior rs =
     (let log_likelihood = sum_list (map (\<lambda>r. case contribution r of Some l \<Rightarrow> l | None \<Rightarrow> 0) rs);
          posterior_log_odds = ln (prior / (1 - prior)) + log_likelihood
      in py_round 6 (1 / (1 + exp (- posterior_log_odds))))"

definition decide :: "compiled_policy \<Rightarrow> contradiction list \<Rightarrow> real \<Rightarrow> decision" where
  "decide p cs s =
     (if cs \<noteq> [] then KeepSeparate
      else if s \<ge> auto_link_threshold p then AutoLink
      else if s \<ge> review_threshold p then Review
      else NoLink)"

definition overall_score :: "compiled_policy \<Rightarrow> rule_score list \<Rightarrow> real" where
  "overall_score p rs =
     (if algorithm p = ''fellegi_sunter'' then posterior_score (prior_match_probability p) rs
      else weighted_score rs)"

definition match_of :: "compiled_policy \<Rightarrow> contradiction list \<Rightarrow> rule_score list \<Rightarrow> match_result" where
  "match_of p cs rs =
     \<lparr>score = overall_score p rs,
      score_kind = (if algorithm p = ''fellegi_sunter'' then ''estimated_match_probability''
                    else ''weighted_similarity''),
      match_decision = decide p cs (overall_score p rs),
      match_evidence = map evidence_of rs,
      contradictions = cs\<rparr>"

definition compare_records ::
    "runtime \<Rightarrow> compiled_policy \<Rightarrow> dict \<Rightarrow> dict \<Rightarrow> match_result res" where
  "compare_records R p left right =
     bind_res (map_res (score_rule R (algorithm p) left right) (comparisons p))
       (\<lambda>rs. Inr (match_of p (find_contradictions p left right) rs))"

section \<open>Squeezed text\<close>

fun tidy :: "string \<Rightarrow> bool" where
  "tidy [] = True"
| "tidy (c # s) =
     ((is_space c \<longrightarrow> c = CHR '' '' \<and> (s = [] \<or> \<not> is_space (hd s))) \<and> tidy s)"

lemma is_space_blank [simp]: "is_space CHR '' ''"
  by (simp add: is_space_def)

lemma dropWhile_space_tl: "\<not> is_space (hd s) \<Longrightarrow> dropWhile is_space s = s"
  by (cases s) auto

lemma collapse_hd:
  "s \<noteq> [] \<Longrightarrow> \<not> is_space (hd s) \<Longrightarrow> collapse s \<noteq> [] \<and> hd (collapse s) = hd s"
  by (cases s) auto

lemma collapse_last:
  "s \<noteq> [] \<Longrightarrow> \<not> is_space (last s) \<Longrightarrow> collapse s \<noteq> [] \<and> last (collapse s) = last s"
proof (induction s rule: collapse.induct)
  case 1
  then show ?case by simp
next
  case (2 c s)
  show ?case
  proof (cases "is_space c")
    case True
    with "2.prems" have ne: "s \<noteq> []" and l: "\<not> is_space (last s)" by (auto split: if_splits)
    then have d: "dropWhile is_space s \<noteq> []" by (simp add: dropWhile_eq_Nil_conv) (metis last_in_set)
    then have "last (dropWhile is_space s) = last s" by (rule last_dropWhile)
    with "2.IH"(1) True d l ne show ?thesis by simp
  next
    case False
    with 2 show ?thesis by (cases "s = []") auto
  qed
qed

lemma tidy_collapse: "tidy (collapse s)"
proof (induction s rule: collapse.induct)
  case 1
  then show ?case by simp
next
  case (2 c s)
  show ?case
  proof (cases "is_space c")
    case True
    have "collapse (dropWhile is_space s) = [] \<or>
        \<not> is_space (hd (collapse (dropWhile is_space s)))"
    proof (cases "dropWhile is_space s = []")
      case True
      then have "collapse (dropWhile is_space s) = collapse []" by (rule arg_cong)
      then show ?thesis by (metis collapse.simps(1))
    next
      case False
      then show ?thesis using collapse_hd hd_dropWhile by metis
    qed
    with 2 True show ?thesis by simp
  next
    case False
    with 2 show ?thesis by simp
  qed
qed

lemma collapse_tidy: "tidy s \<Longrightarrow> collapse s = s"
proof (induction s)
  case Nil
  then show ?case by simp
next
  case (Cons c s)
  then have "is_space c \<Longrightarrow> dropWhile is_space s = s" by (cases s) auto
  with Cons show ?case by auto
qed

lemma strip_id: "s = [] \<or> \<not> is_space (hd s) \<and> \<not> is_space (last s) \<Longrightarrow> strip s = s"
proof (cases "s = []")
  case True
  then show ?thesis by (simp add: strip_def)
next
  case False
  assume "s = [] \<or> \<not> is_space (hd s) \<and> \<not> is_space (last s)"
  with False have "dropWhile is_space s = s" "dropWhile is_space (rev s) = rev s"
    by (cases s, auto) (cases "rev s", auto simp: last_rev [symmetric] hd_rev)
  then show ?thesis by (simp add: strip_def)
qed

lemma strip_ends:
  assumes "strip s \<noteq> []"
  shows "\<not> is_space (hd (strip s)) \<and> \<not> is_space (last (strip s))"
proof -
  let ?d = "dropWhile is_space s"
  have ne: "dropWhile is_space (rev ?d) \<noteq> []" using assms by (simp add: strip_def)
  then have "\<not> is_space (hd (dropWhile is_space (rev ?d)))" by (rule hd_dropWhile)
  then have l: "\<not> is_space (last (strip s))" using ne by (simp add: strip_def last_rev)
  have "?d \<noteq> []" using ne by (metis dropWhile.simps(1) rev.simps(1))
  then have "\<not> is_space (hd ?d)" by (rule hd_dropWhile)
  moreover have "hd (strip s) = hd ?d"
    using last_dropWhile [OF ne] \<open>?d \<noteq> []\<close> ne by (simp add: strip_def hd_rev last_rev)
  ultimately show ?thesis using l by simp
qed

lemma squeeze_ends:
  "squeeze s = [] \<or> \<not> is_space (hd (squeeze s)) \<and> \<not> is_space (last (squeeze s))"
  unfolding squeeze_def
  by (metis collapse.simps(1) collapse_hd collapse_last strip_ends)

lemma squeeze_idem [simp]: "squeeze (squeeze s) = squeeze s"
proof -
  have "strip (squeeze s) = squeeze s" by (rule strip_id) (rule squeeze_ends)
  then show ?thesis
    by (simp add: squeeze_def [of "squeeze s"] collapse_tidy) (simp add: squeeze_def tidy_collapse collapse_tidy)
qed

text \<open>
  What the idempotence of normalisation asks of the Unicode services, for a case mapping \<open>f\<close>
  (\<open>casefold\<close>, \<open>upper\<close> or the identity): NFKC is idempotent and squeezing blanks keeps it,
  \<open>f\<close> is idempotent, keeps NFKC and commutes with squeezing.
\<close>

definition unicode_laws :: "runtime \<Rightarrow> (string \<Rightarrow> string) \<Rightarrow> bool" where
  "unicode_laws R f \<longleftrightarrow>
     (\<forall>t. nfkc R (nfkc R t) = nfkc R t) \<and>
     (\<forall>t. nfkc R t = t \<longrightarrow> nfkc R (squeeze t) = squeeze t \<and> nfkc R (f t) = f t) \<and>
     (\<forall>t. f (f t) = f t \<and> squeeze (f t) = f (squeeze t))"

definition case_map :: "runtime \<Rightarrow> json \<Rightarrow> string \<Rightarrow> string" where
  "case_map R mode =
     (if mode = JStr ''uppercase_trim'' then upper R
      else if mode = JStr ''unicode_casefold'' then casefold R else id)"

lemma text_norm_eq:
  "text_norm R s mode = Inr t \<Longrightarrow> t = case_map R mode (squeeze (nfkc R s))"
  by (auto simp: text_norm_def case_map_def Let_def split: if_splits)

lemma text_norm_idem:
  assumes "unicode_laws R (case_map R mode)" "text_norm R s mode = Inr t"
  shows "text_norm R t mode = Inr t"
proof -
  let ?f = "case_map R mode" and ?q = "squeeze (nfkc R s)"
  have t: "t = ?f ?q" using assms(2) by (rule text_norm_eq)
  have "nfkc R ?q = ?q" "squeeze ?q = ?q"
    using assms(1) by (simp_all add: unicode_laws_def)
  then have "nfkc R t = t" "squeeze t = t" "?f t = t"
    using assms(1) unfolding t unicode_laws_def by metis+
  then show ?thesis using assms(2)
    by (auto simp: text_norm_def case_map_def Let_def split: if_splits)
qed

text \<open>\<open>normalize\<close> keeps the keys of a record, in order.\<close>

lemma normalize_keys: "normalize R p values = Inr out \<Longrightarrow> map fst out = map fst values"
  unfolding normalize_def
  by (induction "values" arbitrary: out)
    (auto simp: res_elim split: option.splits if_splits)

section \<open>Scores\<close>

lemma sum_list_weighted_bounds:
  assumes "\<And>r. r \<in> set rs \<Longrightarrow> 0 \<le> component r \<and> component r \<le> 1 \<and> 0 < weight r"
  shows "0 \<le> sum_list (map (\<lambda>r. component r * weight r) rs)"
    and "sum_list (map (\<lambda>r. component r * weight r) rs) \<le> sum_list (map weight rs)"
proof -
  have "0 \<le> sum_list (map (\<lambda>r. component r * weight r) rs) \<and>
    sum_list (map (\<lambda>r. component r * weight r) rs) \<le> sum_list (map weight rs)"
    using assms
  proof (induction rs)
    case Nil
    then show ?case by simp
  next
    case (Cons r rs)
    then have r: "0 \<le> component r" "component r \<le> 1" "0 < weight r" by simp_all
    then have "0 \<le> component r * weight r" "component r * weight r \<le> weight r"
      by (simp_all add: mult_left_le_one_le)
    moreover have "0 \<le> sum_list (map (\<lambda>r. component r * weight r) rs) \<and>
      sum_list (map (\<lambda>r. component r * weight r) rs) \<le> sum_list (map weight rs)"
      by (rule Cons.IH) (simp add: Cons.prems)
    ultimately show ?case by simp
  qed
  then show "0 \<le> sum_list (map (\<lambda>r. component r * weight r) rs)"
    "sum_list (map (\<lambda>r. component r * weight r) rs) \<le> sum_list (map weight rs)" by auto
qed

lemma weighted_score_bounds:
  assumes "\<And>r. r \<in> set rs \<Longrightarrow> 0 \<le> component r \<and> component r \<le> 1 \<and> 0 < weight r"
  shows "0 \<le> weighted_score rs \<and> weighted_score rs \<le> 1"
proof -
  let ?n = "sum_list (map (\<lambda>r. component r * weight r) rs)" and ?t = "sum_list (map weight rs)"
  note b = sum_list_weighted_bounds [of rs, OF assms]
  show ?thesis
  proof (cases "?t = 0")
    case True
    then show ?thesis by (simp add: weighted_score_def Let_def)
  next
    case False
    with b have "0 < ?t" by simp
    with b have "0 \<le> ?n / ?t" "?n / ?t \<le> 1" by simp_all
    with False show ?thesis by (simp add: weighted_score_def Let_def py_round_bounds)
  qed
qed

lemma posterior_score_bounds: "0 \<le> posterior_score q rs \<and> posterior_score q rs \<le> 1"
proof -
  have "0 \<le> 1 / (1 + exp x) \<and> 1 / (1 + exp x) \<le> 1" for x :: real
    by (simp add: add_pos_pos divide_le_eq less_imp_le)
  then show ?thesis by (simp add: posterior_score_def Let_def py_round_bounds)
qed

text \<open>The rules of a compiled policy: positive weights, and a missing score between 0 and 1.\<close>

definition rule_ok :: "runtime \<Rightarrow> dict \<Rightarrow> bool" where
  "rule_ok R rule \<longleftrightarrow>
     (\<exists>w. bind_res (dindex rule ''weight'') (py_float R) = Inr w \<and> 0 < w) \<and>
     (\<exists>m. py_float R (dget_or rule ''missing_score'' (JFloat 0)) = Inr m \<and> 0 \<le> m \<and> m \<le> 1)"

lemma score_rule_bounds:
  assumes "score_rule R alg left right rule = Inr r" "rule_ok R rule"
  shows "0 \<le> component r \<and> component r \<le> 1 \<and> 0 < weight r"
proof -
  from assms(1) obtain field c w where
    c: "rule_component R rule (jget left field) (jget right field) = Inr c" "component r = c" and
    w: "bind_res (dindex rule ''weight'') (py_float R) = Inr w" "weight r = w"
    by (auto simp: score_rule_def bind_res_Inr)
  from c(1) assms(2) have "0 \<le> c \<and> c \<le> 1"
    using sequence_ratio_bounds
    by (auto simp: rule_component_def rule_ok_def split: if_splits)
  with c w assms(2) show ?thesis by (auto simp: rule_ok_def)
qed

lemma compare_records_Inr:
  "compare_records R p left right = Inr r \<longleftrightarrow>
   (\<exists>rs. map_res (score_rule R (algorithm p) left right) (comparisons p) = Inr rs \<and>
         r = match_of p (find_contradictions p left right) rs)"
  by (auto simp only: compare_records_def bind_res_Inr sum.inject)

lemma match_of_simps [simp]:
  "score (match_of p cs rs) = overall_score p rs" "contradictions (match_of p cs rs) = cs"
  "match_decision (match_of p cs rs) = decide p cs (overall_score p rs)"
  "match_evidence (match_of p cs rs) = map evidence_of rs"
  by (simp_all add: match_of_def)

lemma compare_contradictions:
  "compare_records R p left right = Inr r \<Longrightarrow> contradictions r = find_contradictions p left right"
  by (auto simp: compare_records_Inr)

lemma compare_decide:
  "compare_records R p left right = Inr r \<Longrightarrow>
   match_decision r = decide p (contradictions r) (score r)"
  by (auto simp: compare_records_Inr)

lemma compare_score_bounds:
  assumes "compare_records R p left right = Inr r" "\<And>rule. rule \<in> set (comparisons p) \<Longrightarrow> rule_ok R rule"
  shows "0 \<le> score r \<and> score r \<le> 1"
proof -
  from assms(1) obtain rs where
    rs: "map_res (score_rule R (algorithm p) left right) (comparisons p) = Inr rs" and
    s: "score r = overall_score p rs"
    unfolding compare_records_Inr by (elim exE conjE) simp
  have "0 \<le> component x \<and> component x \<le> 1 \<and> 0 < weight x" if "x \<in> set rs" for x
  proof -
    from map_res_mem [OF rs that] obtain rule where
      mem: "rule \<in> set (comparisons p)" and sc: "score_rule R (algorithm p) left right rule = Inr x"
      by (elim bexE)
    show ?thesis by (rule score_rule_bounds [OF sc assms(2) [OF mem]])
  qed
  then have "0 \<le> weighted_score rs \<and> weighted_score rs \<le> 1" by (rule weighted_score_bounds)
  then have "0 \<le> overall_score p rs \<and> overall_score p rs \<le> 1"
    using posterior_score_bounds [of "prior_match_probability p" rs]
    unfolding overall_score_def by presburger
  then show ?thesis by (simp only: s)
qed

lemma decide_simps:
  "decide p cs s = KeepSeparate \<longleftrightarrow> cs \<noteq> []"
  "decide p cs s = AutoLink \<longleftrightarrow> cs = [] \<and> auto_link_threshold p \<le> s"
  "review_threshold p \<le> auto_link_threshold p \<Longrightarrow>
   decide p cs s \<in> {AutoLink, Review} \<longleftrightarrow> cs = [] \<and> review_threshold p \<le> s"
  by (auto simp: decide_def)

lemma find_contradictions_Nil:
  "find_contradictions p left right = [] \<longleftrightarrow>
   (\<forall>i \<in> set (identifiers p). \<not> conflicting left right i)"
  by (simp add: find_contradictions_def filter_empty_conv)

text \<open>ASCII lower case satisfies the laws.\<close>

lemma ascii_lower_space [simp]:
  "is_space (ascii_lower_char c) = is_space c" "ascii_lower_char CHR '' '' = CHR '' ''"
  "ascii_lower_char (ascii_lower_char c) = ascii_lower_char c"
proof -
  have n: "(of_char c :: nat) < 256" by simp
  show "ascii_lower_char CHR '' '' = CHR '' ''" by (simp add: ascii_lower_char_def)
  show "is_space (ascii_lower_char c) = is_space c"
    by (auto simp: is_space_def ascii_lower_char_def Let_def)
  show "ascii_lower_char (ascii_lower_char c) = ascii_lower_char c"
    by (auto simp: ascii_lower_char_def Let_def)
qed

lemma dropWhile_map_space:
  "(\<And>c. is_space (f c) = is_space c) \<Longrightarrow>
   dropWhile is_space (map f s) = map f (dropWhile is_space s)"
  by (induction s) auto

lemma collapse_map:
  "(\<And>c. is_space (f c) = is_space c) \<Longrightarrow> f CHR '' '' = CHR '' '' \<Longrightarrow>
   collapse (map f s) = map f (collapse s)"
  by (induction s rule: collapse.induct) (auto simp: dropWhile_map_space)

lemma squeeze_ascii_lower:
  "squeeze (map ascii_lower_char s) = map ascii_lower_char (squeeze s)"
  by (simp add: squeeze_def strip_def rev_map dropWhile_map_space collapse_map flip: map_map)

text \<open>A policy for the witnesses: one hard identifier, one compared field.\<close>

definition tax_policy :: compiled_policy where
  "tax_policy =
     \<lparr>pol_entity = JStr ''supplier'', pol_mode = JStr ''coexistence'',
      attributes =
        [[(''key'', JStr ''name''), (''required'', JBool True)],
         [(''key'', JStr ''tax_id''), (''type'', JStr ''identifier'')]],
      identifiers = [\<lparr>id_field = JStr ''tax_id'', id_namespace = JStr ''tax'', hard_conflict = True\<rparr>],
      pol_relationships = JList [], algorithm = ''weighted_score'', prior_match_probability = 1/100,
      blocking = [[(''fields'', JList [JStr ''tax_id''])]],
      comparisons = [[(''field'', JStr ''name''), (''comparator'', JStr ''exact''), (''weight'', JInt 1)]],
      review_threshold = 1/2, auto_link_threshold = 9/10,
      survivorship = [(''default'', JStr ''source_priority_then_observation_time'')],
      pol_version = ''runtime-1'', checksum = []\<rparr>"

lemma tax_policy_fields [simp]:
  "identifiers tax_policy =
     [\<lparr>id_field = JStr ''tax_id'', id_namespace = JStr ''tax'', hard_conflict = True\<rparr>]"
  "algorithm tax_policy = ''weighted_score''"
  "comparisons tax_policy =
     [[(''field'', JStr ''name''), (''comparator'', JStr ''exact''), (''weight'', JInt 1)]]"
  "review_threshold tax_policy = 1/2" "auto_link_threshold tax_policy = 9/10"
  "blocking tax_policy = [[(''fields'', JList [JStr ''tax_id''])]]"
  "attributes tax_policy =
     [[(''key'', JStr ''name''), (''required'', JBool True)],
      [(''key'', JStr ''tax_id''), (''type'', JStr ''identifier'')]]"
  by (simp_all add: tax_policy_def)

definition named :: "string \<Rightarrow> string \<Rightarrow> dict" where
  "named n t = [(''name'', JStr n), (''tax_id'', JStr t)]"

lemma tax_policy_compare:
  "compare_records ascii_runtime tax_policy (named ''a'' ''1'') (named ''a'' ''2'') =
   Inr (match_of tax_policy
     [\<lparr>con_field = JStr ''tax_id'', con_namespace = JStr ''tax'', con_left = JStr ''1'',
       con_right = JStr ''2''\<rparr>]
     [\<lparr>rs_field = JStr ''name'', rs_comparator = JStr ''exact'', component = 1, weight = 1,
       contribution = None\<rparr>])"
  "compare_records ascii_runtime tax_policy (named ''a'' ''1'') (named ''a'' ''1'') =
   Inr (match_of tax_policy []
     [\<lparr>rs_field = JStr ''name'', rs_comparator = JStr ''exact'', component = 1, weight = 1,
       contribution = None\<rparr>])"
  by (simp_all add: compare_records_def named_def score_rule_def dindex_def dget_def
      jget_def rule_component_def is_missing_def find_contradictions_def conflicting_def py_float_def)

section \<open>Properties\<close>

text \<open>
  C34. A pair of records is kept separate exactly when a hard identifier of the policy has two
  different present values in them; no similarity score, however high, links such a pair.
\<close>

theorem keep_separate_iff_hard_conflict:
  assumes "compare_records R p left right = Inr m"
  shows "match_decision m = KeepSeparate \<longleftrightarrow>
    (\<exists>i \<in> set (identifiers p). hard_conflict i \<and>
       \<not> is_missing (jget left (id_field i)) \<and> \<not> is_missing (jget right (id_field i)) \<and>
       \<not> py_eq (jget left (id_field i)) (jget right (id_field i)))"
  using compare_decide [OF assms] compare_contradictions [OF assms]
    find_contradictions_Nil [of p left right]
  by (auto simp: decide_simps conflicting_def Let_def)

theorem keep_separate_iff_hard_conflict_witness:
  "\<exists>m. compare_records ascii_runtime tax_policy (named ''a'' ''1'') (named ''a'' ''2'') = Inr m \<and>
       score m = 1 \<and> match_decision m = KeepSeparate"
proof -
  obtain m where m: "compare_records ascii_runtime tax_policy (named ''a'' ''1'') (named ''a'' ''2'') = Inr m"
    and s: "score m = 1"
    by (simp add: tax_policy_compare overall_score_def weighted_score_def)
  have "match_decision m = KeepSeparate"
    unfolding keep_separate_iff_hard_conflict [OF m]
    by (simp add: named_def jget_def dget_def is_missing_def)
  with m s show ?thesis by blast
qed

text \<open>
  For a policy whose weights are positive and whose missing scores lie between 0 and 1,
  the score of every comparison lies between 0 and 1, by either algorithm.
\<close>

theorem score_between_0_and_1:
  assumes "compare_records R p left right = Inr m"
    and "\<And>rule. rule \<in> set (comparisons p) \<Longrightarrow> rule_ok R rule"
  shows "0 \<le> score m \<and> score m \<le> 1"
  using assms by (rule compare_score_bounds)

theorem score_between_0_and_1_witness:
  "\<exists>m. compare_records ascii_runtime tax_policy (named ''a'' ''1'') (named ''a'' ''1'') = Inr m \<and>
       0 \<le> score m \<and> score m \<le> 1"
proof -
  have ok: "rule_ok ascii_runtime rule" if "rule \<in> set (comparisons tax_policy)" for rule
    using that by (simp add: rule_ok_def dindex_def dget_or_def py_float_def)
  show ?thesis
    unfolding tax_policy_compare
    using score_between_0_and_1 [OF tax_policy_compare(2) ok] by blast
qed

text \<open>
  Normalising a text a second time changes nothing, for every mode of an attribute, given
  the laws of the Unicode services.
\<close>

theorem text_norm_idempotent:
  assumes "unicode_laws R (case_map R mode)" "text_norm R s mode = Inr t"
  shows "text_norm R t mode = Inr t"
  using assms by (rule text_norm_idem)

theorem text_norm_idempotent_witness:
  "text_norm ascii_runtime '' A  b'' (JStr ''unicode_casefold'') = Inr ''a b'' \<and>
   text_norm ascii_runtime ''a b'' (JStr ''unicode_casefold'') = Inr ''a b''"
proof -
  have laws: "unicode_laws ascii_runtime (case_map ascii_runtime (JStr ''unicode_casefold''))"
    using squeeze_ascii_lower by (simp add: unicode_laws_def case_map_def ascii_runtime_def)
  have t: "text_norm ascii_runtime '' A  b'' (JStr ''unicode_casefold'') = Inr ''a b''"
    by code_simp
  from text_norm_idempotent [OF laws t] t show ?thesis by simp
qed

section \<open>Equal records\<close>

text \<open>A compared field holds the same short text on both sides.\<close>

definition text_rule :: "runtime \<Rightarrow> dict \<Rightarrow> dict \<Rightarrow> bool" where
  "text_rule R rec rule \<longleftrightarrow> rule_ok R rule \<and>
     dget rule ''comparator'' \<in> {JStr ''exact'', JStr ''sequence_ratio''} \<and>
     (\<exists>f s. map_of rule ''field'' = Some (JStr f) \<and> dget rec f = JStr s \<and>
        s \<noteq> [] \<and> length s < 200)"

lemma score_rule_same:
  assumes "text_rule R rec rule" "alg \<noteq> ''fellegi_sunter''"
  shows "\<exists>r. score_rule R alg rec rec rule = Inr r \<and> component r = 1 \<and> 0 < weight r"
proof -
  from assms(1) obtain f s w where
    f: "map_of rule ''field'' = Some (JStr f)" "dget rec f = JStr s" "s \<noteq> []" "length s < 200" and
    w: "bind_res (dindex rule ''weight'') (py_float R) = Inr w" "0 < w" and
    c: "dget rule ''comparator'' \<in> {JStr ''exact'', JStr ''sequence_ratio''}"
    by (auto simp: text_rule_def rule_ok_def)
  from c have "\<exists>v. map_of rule ''comparator'' = Some v" by (auto simp: dget_def split: option.splits)
  then obtain v where v: "map_of rule ''comparator'' = Some v" by blast
  have "rule_component R rule (JStr s) (JStr s) = Inr 1"
    using c f by (auto simp: rule_component_def is_missing_def py_str_def sequence_ratio_same)
  with f w v assms(2) show ?thesis
    by (simp add: score_rule_def dindex_def jget_def)
qed

lemma weighted_score_all_1:
  assumes "rs \<noteq> []" "\<And>r. r \<in> set rs \<Longrightarrow> component r = 1 \<and> 0 < weight r"
  shows "weighted_score rs = 1"
proof -
  have "sum_list (map (\<lambda>r. component r * weight r) rs) = sum_list (map weight rs)"
    using assms(2) by (intro arg_cong [where f = sum_list] map_cong) auto
  moreover have "0 < sum_list (map weight rs)"
  proof (cases rs)
    case Nil
    with assms(1) show ?thesis by simp
  next
    case (Cons r rs')
    with assms(2) have "0 < weight r" "\<And>x. x \<in> set rs' \<Longrightarrow> 0 \<le> weight x"
      by (auto intro: less_imp_le)
    then have "0 < weight r" "0 \<le> sum_list (map weight rs')"
      using sum_list_nonneg [of "map weight rs'"] by auto
    with Cons show ?thesis by simp
  qed
  ultimately show ?thesis by (simp add: weighted_score_def Let_def)
qed

text \<open>
  A record compared with itself under a weighted policy scores 1 and is linked: every
  compared field present with a text shorter than the 200 characters at which difflib starts
  to drop popular characters, every identifier a text, and a link threshold of at most 1.
\<close>

theorem equal_records_link:
  assumes "algorithm p \<noteq> ''fellegi_sunter''" "comparisons p \<noteq> []"
    and "\<And>rule. rule \<in> set (comparisons p) \<Longrightarrow> text_rule R rec rule"
    and "\<And>i. i \<in> set (identifiers p) \<Longrightarrow> is_str (jget rec (id_field i)) \<or> jget rec (id_field i) = JNull"
    and "auto_link_threshold p \<le> 1"
  shows "\<exists>m. compare_records R p rec rec = Inr m \<and> score m = 1 \<and> match_decision m = AutoLink"
proof -
  have each: "\<exists>r. score_rule R (algorithm p) rec rec rule = Inr r \<and> component r = 1 \<and> 0 < weight r"
    if "rule \<in> set (comparisons p)" for rule
    using score_rule_same [OF assms(3) [OF that] assms(1)] .
  obtain rs where rs: "map_res (score_rule R (algorithm p) rec rec) (comparisons p) = Inr rs"
    using map_res_total each by metis
  have all1: "component r = 1 \<and> 0 < weight r" if "r \<in> set rs" for r
    using map_res_mem [OF rs that] each by fastforce
  have "rs \<noteq> []" using map_res_length [OF rs] assms(2) by auto
  then have s: "weighted_score rs = 1" using all1 by (rule weighted_score_all_1)
  have "\<not> conflicting rec rec i" if "i \<in> set (identifiers p)" for i
    using assms(4) [OF that] by (auto simp: conflicting_def is_missing_def is_str_def split: json.splits)
  then have c: "find_contradictions p rec rec = []" by (simp add: find_contradictions_Nil)
  let ?m = "match_of p [] rs"
  have "compare_records R p rec rec = Inr ?m"
    by (simp add: compare_records_def rs c)
  moreover have "overall_score p rs = 1" using assms(1) s by (simp add: overall_score_def)
  ultimately show ?thesis using assms(5) by (simp add: decide_simps)
qed

theorem equal_records_link_witness:
  "\<exists>m. compare_records ascii_runtime tax_policy (named ''a'' ''1'') (named ''a'' ''1'') = Inr m \<and>
       score m = 1 \<and> match_decision m = AutoLink"
  by (rule equal_records_link)
    (auto simp: text_rule_def rule_ok_def dindex_def dget_def dget_or_def py_float_def named_def
       jget_def is_str_def)

section \<open>Validation\<close>

text \<open>What a record must satisfy for an attribute whose constraints have the shapes the packs use.\<close>

definition shaped_attribute :: "dict \<Rightarrow> bool" where
  "shaped_attribute attr \<longleftrightarrow>
     (\<exists>k. map_of attr ''key'' = Some (JStr k)) \<and>
     (dget attr ''allowed_values'' = JNull \<or> (\<exists>xs. dget attr ''allowed_values'' = JList xs)) \<and>
     (dget attr ''pattern'' = JNull \<or> (\<exists>s. dget attr ''pattern'' = JStr s \<and> length s \<le> 256))"

definition satisfies :: "runtime \<Rightarrow> dict \<Rightarrow> json \<Rightarrow> bool" where
  "satisfies R attr v \<longleftrightarrow>
     (truthy (dget attr ''required'') \<longrightarrow> \<not> is_missing v) \<and>
     (v \<noteq> JNull \<longrightarrow>
        (\<forall>xs. dget attr ''allowed_values'' = JList xs \<longrightarrow> (\<exists>x \<in> set xs. py_eq v x)) \<and>
        (\<forall>pat. dget attr ''pattern'' = JStr pat \<and> pat \<noteq> [] \<longrightarrow>
           (\<exists>s. v = JStr s \<and> fullmatch R pat s = Some True)) \<and>
        has_type (dget_or attr ''type'' (JStr ''string'')) v)"

lemma check_allowed_Inr:
  "dget attr ''allowed_values'' = JNull \<or> (\<exists>xs. dget attr ''allowed_values'' = JList xs) \<Longrightarrow>
   check_allowed (dget attr ''allowed_values'') v = Inr b \<longleftrightarrow>
   b = (v = JNull \<or> (\<forall>xs. dget attr ''allowed_values'' = JList xs \<longrightarrow> (\<exists>x \<in> set xs. py_eq v x)))"
  by (auto simp: check_allowed_def py_in_def)

lemma check_pattern_Inr:
  "dget attr ''pattern'' = JNull \<or> (\<exists>s. dget attr ''pattern'' = JStr s \<and> length s \<le> 256) \<Longrightarrow>
   check_pattern R (dget attr ''pattern'') v = Inr True \<longleftrightarrow>
   (v = JNull \<or> (\<forall>pat. dget attr ''pattern'' = JStr pat \<and> pat \<noteq> [] \<longrightarrow>
           (\<exists>s. v = JStr s \<and> fullmatch R pat s = Some True)))"
  by (auto simp: check_pattern_def py_len_def res_elim split: json.splits)

lemma validate_attribute_Nil:
  assumes "map_of attr ''key'' = Some (JStr k)" "shaped_attribute attr"
  shows "validate_attribute R attr rec = Inr [] \<longleftrightarrow> satisfies R attr (dget rec k)"
proof -
  let ?v = "dget rec k"
  have a: "\<exists>b. check_allowed (dget attr ''allowed_values'') ?v = Inr b"
    using assms(2) check_allowed_Inr [of attr ?v] by (auto simp: shaped_attribute_def)
  then obtain b where b: "check_allowed (dget attr ''allowed_values'') ?v = Inr b" by blast
  have bv: "b = (?v = JNull \<or> (\<forall>xs. dget attr ''allowed_values'' = JList xs \<longrightarrow> (\<exists>x \<in> set xs. py_eq ?v x)))"
    using assms(2) check_allowed_Inr [of attr ?v b] b by (simp add: shaped_attribute_def)
  have pv: "check_pattern R (dget attr ''pattern'') ?v = Inr True \<longleftrightarrow>
     (?v = JNull \<or> (\<forall>pat. dget attr ''pattern'' = JStr pat \<and> pat \<noteq> [] \<longrightarrow>
           (\<exists>s. ?v = JStr s \<and> fullmatch R pat s = Some True)))"
    using assms(2) by (intro check_pattern_Inr) (simp add: shaped_attribute_def)
  have "validate_attribute R attr rec = Inr [] \<longleftrightarrow>
      \<not> (truthy (dget attr ''required'') \<and> is_missing ?v) \<and> b \<and>
      check_pattern R (dget attr ''pattern'') ?v = Inr True \<and>
      (?v = JNull \<or> has_type (dget_or attr ''type'' (JStr ''string'')) ?v)"
    using assms(1) b
    by (auto simp: validate_attribute_def dindex_def as_str_def Let_def bind_res_Inr split: if_splits)
  then show ?thesis unfolding bv pv satisfies_def by blast
qed

text \<open>
  A record validates without errors exactly when every attribute of the policy is
  satisfied: required values present, and every value that is not null among the allowed
  ones, matched by the pattern and of the attribute's Python type.
\<close>

theorem validate_iff_satisfies:
  assumes "\<And>attr. attr \<in> set (attributes p) \<Longrightarrow> shaped_attribute attr"
  shows "validate R p rec = Inr [] \<longleftrightarrow>
    (\<forall>attr \<in> set (attributes p). \<forall>k. map_of attr ''key'' = Some (JStr k) \<longrightarrow>
       satisfies R attr (dget rec k))"
proof -
  have "validate R p rec = Inr [] \<longleftrightarrow>
      (\<forall>attr \<in> set (attributes p). validate_attribute R attr rec = Inr [])"
  proof
    assume "validate R p rec = Inr []"
    then obtain es where m: "map_res (\<lambda>a. validate_attribute R a rec) (attributes p) = Inr es"
      and "concat es = []"
      by (auto simp: validate_def bind_res_Inr)
    then show "\<forall>attr \<in> set (attributes p). validate_attribute R attr rec = Inr []"
      using map_res_mem' [OF m] by fastforce
  next
    assume "\<forall>attr \<in> set (attributes p). validate_attribute R attr rec = Inr []"
    then have "map_res (\<lambda>a. validate_attribute R a rec) (attributes p)
        = Inr (map (\<lambda>_. []) (attributes p))"
      by (intro map_res_pure) simp
    then show "validate R p rec = Inr []" by (simp add: validate_def)
  qed
  also have "\<dots> \<longleftrightarrow> (\<forall>attr \<in> set (attributes p). \<forall>k. map_of attr ''key'' = Some (JStr k) \<longrightarrow>
       satisfies R attr (dget rec k))"
    using validate_attribute_Nil assms by (metis shaped_attribute_def)
  finally show ?thesis .
qed

theorem validate_iff_satisfies_witness:
  "validate ascii_runtime tax_policy (named ''a'' ''1'') = Inr [] \<and>
   validate ascii_runtime tax_policy [(''tax_id'', JStr ''1'')] \<noteq> Inr []"
proof -
  have shaped: "shaped_attribute attr" if "attr \<in> set (attributes tax_policy)" for attr
    using that by (auto simp: shaped_attribute_def dget_def)
  have "validate ascii_runtime tax_policy rec = Inr [] \<longleftrightarrow>
      (\<forall>attr \<in> set (attributes tax_policy). \<forall>k. map_of attr ''key'' = Some (JStr k) \<longrightarrow>
         satisfies ascii_runtime attr (dget rec k))" for rec
    by (rule validate_iff_satisfies) (rule shaped)
  then show ?thesis
    by (auto simp: satisfies_def named_def dget_def dget_or_def is_missing_def has_type_def is_str_def)
qed

section \<open>Blocking\<close>

lemma digits_of_inj: "digits_of m = digits_of n \<Longrightarrow> m = n"
proof (induction m arbitrary: n rule: digits_of.induct)
  case (1 m)
  show ?case
  proof (cases "m < 10 \<or> n < 10")
    case True
    have "length (digits_of k) = 1 \<longleftrightarrow> k < 10" for k
      using digits_of.simps [of "k div 10"] by (subst digits_of.simps) auto
    with True "1.prems" have "m < 10" "n < 10" by metis+
    with "1.prems" show ?thesis by (simp add: digits_of.simps [of m] digits_of.simps [of n])
  next
    case False
    with "1.prems" have e: "digits_of (m div 10) = digits_of (n div 10)"
      "(char_of (48 + m mod 10) :: char) = char_of (48 + n mod 10)"
      by (simp_all add: digits_of.simps [of m] digits_of.simps [of n])
    from e(2) have "(48 + m mod 10) mod 256 = (48 + n mod 10) mod (256 :: nat)"
      by (metis of_char_of)
    then have "m mod 10 = n mod 10" by simp
    with "1.IH" False e(1) show ?thesis by (metis div_mult_mod_eq)
  qed
qed

lemma digits_of_no_bar: "CHR ''|'' \<notin> set (digits_of n)"
proof (induction n rule: digits_of.induct)
  case (1 n)
  have "CHR ''|'' \<noteq> (char_of (48 + k) :: char)" if "k < 10" for k :: nat
  proof
    assume "CHR ''|'' = (char_of (48 + k) :: char)"
    then have "(of_char CHR ''|'' :: nat) = (48 + k) mod 256" by (metis of_char_of)
    with that show False by simp
  qed
  with 1 show ?case by (subst digits_of.simps) auto
qed

lemma append_bar_inject:
  "CHR ''|'' \<notin> set a \<Longrightarrow> CHR ''|'' \<notin> set b \<Longrightarrow> a @ ''|'' @ x = b @ ''|'' @ y \<Longrightarrow> a = b \<and> x = y"
proof (induction a arbitrary: b)
  case Nil
  then show ?case by (cases b) auto
next
  case (Cons c a)
  then show ?case by (cases b) auto
qed

lemma blocking_from_index:
  "blocking_from R index strategies rec = Inr keys \<Longrightarrow> k \<in> set keys \<Longrightarrow>
   \<exists>i parts. index \<le> i \<and> i < index + length strategies \<and>
     strategy_parts R (strategies ! (i - index)) rec = Inr parts \<and> parts \<noteq> [] \<and>
     k = ''p'' @ digits_of i @ ''|'' @ join_bar parts"
proof (induction R index strategies rec arbitrary: keys rule: blocking_from.induct)
  case (1 R index rec)
  then show ?case by simp
next
  case (2 R index s rest rec)
  from "2.prems"(1) obtain parts ks where
    p: "strategy_parts R s rec = Inr parts" and ks: "blocking_from R (Suc index) rest rec = Inr ks" and
    keys: "keys = (if parts = [] then ks else (''p'' @ digits_of index @ ''|'' @ join_bar parts) # ks)"
    by (auto simp: bind_res_Inr)
  show ?case
  proof (cases "k \<in> set ks")
    case True
    from "2.IH" [OF p ks True] obtain i ps where
      i: "Suc index \<le> i" "i < Suc index + length rest"
      "strategy_parts R (rest ! (i - Suc index)) rec = Inr ps" "ps \<noteq> []"
      "k = ''p'' @ digits_of i @ ''|'' @ join_bar ps" by blast
    then have "(s # rest) ! (i - index) = rest ! (i - Suc index)"
      by (simp add: nth_Cons split: nat.splits) (metis Suc_diff_Suc Suc_le_lessD diff_Suc_Suc nat.inject)
    with i show ?thesis by (intro exI [of _ i] exI [of _ ps]) simp
  next
    case False
    with "2.prems"(2) keys have "parts \<noteq> []" "k = ''p'' @ digits_of index @ ''|'' @ join_bar parts"
      by (auto split: if_splits)
    with p show ?thesis by (intro exI [of _ index] exI [of _ parts]) simp
  qed
qed

lemma blocking_from_distinct:
  "blocking_from R index strategies rec = Inr keys \<Longrightarrow> distinct keys"
proof (induction R index strategies rec arbitrary: keys rule: blocking_from.induct)
  case (1 R index rec)
  then show ?case by simp
next
  case (2 R index s rest rec)
  from "2.prems" obtain parts ks where
    p: "strategy_parts R s rec = Inr parts" and ks: "blocking_from R (Suc index) rest rec = Inr ks" and
    keys: "keys = (if parts = [] then ks else (''p'' @ digits_of index @ ''|'' @ join_bar parts) # ks)"
    by (auto simp: bind_res_Inr)
  have "''p'' @ digits_of index @ ''|'' @ join_bar parts \<notin> set ks"
  proof
    assume "''p'' @ digits_of index @ ''|'' @ join_bar parts \<in> set ks"
    from blocking_from_index [OF ks this] obtain i ps where "Suc index \<le> i"
      "digits_of index @ ''|'' @ join_bar parts = digits_of i @ ''|'' @ join_bar ps"
      by auto
    then have "digits_of index = digits_of i"
      using append_bar_inject digits_of_no_bar by blast
    then show False using digits_of_inj \<open>Suc index \<le> i\<close> by fastforce
  qed
  with "2.IH" [OF p ks] keys show ?case by simp
qed

text \<open>
  The blocking keys of a record are pairwise different (each carries the number of its
  strategy), so the insert of one candidate block per key never meets the uniqueness
  constraint of record and key.
\<close>

theorem blocking_keys_distinct:
  assumes "blocking_keys R p rec = Inr keys"
  shows "distinct keys"
  using assms unfolding blocking_keys_def by (rule blocking_from_distinct)

theorem blocking_keys_distinct_witness:
  "blocking_keys ascii_runtime tax_policy (named ''a'' ''1'') = Inr [''p0|tax_id=1''] \<and>
   distinct [''p0|tax_id=1'']"
proof -
  have z: "digits_of 0 = ''0''" by code_simp
  have k: "blocking_keys ascii_runtime tax_policy (named ''a'' ''1'') = Inr [''p0|tax_id=1'']"
    by (simp add: blocking_keys_def strategy_parts_def dget_def dget_or_def py_iter_def named_def
        field_parts_def jget_def is_missing_def py_str_def z)
  from blocking_keys_distinct [OF k] k show ?thesis by simp
qed

end
