(* ===== verification/PolicyCompile.thy ===== *)
theory PolicyCompile
  imports Policy
begin

text \<open>
  \<open>compile_policy\<close> (policy.py): from an untrusted JSON definition (a bare policy or a
  DomainPack) to a compiled policy or the error it raises. One definition per section of the
  function, in its order; the checks are the code's, and what the code does not check is
  not checked here. A document of the wrong shape ends in a \<^const>\<open>PyError\<close>.
\<close>

section \<open>The envelope\<close>

text \<open>\<open>dict(v)\<close>: of a dict, or of an empty sequence; a sequence of pairs is refused here.\<close>

definition to_dict :: "json \<Rightarrow> dict res" where
  "to_dict v = (case v of
     JObj d \<Rightarrow> Inr d | JList [] \<Rightarrow> Inr [] | JStr [] \<Rightarrow> Inr [] | _ \<Rightarrow> Inl (PyError ''TypeError''))"

definition allowed_root :: "string list" where
  "allowed_root = [''entity'', ''mode'', ''attributes'', ''identifiers'', ''identifierNamespaces'',
     ''matching'', ''survivorship'', ''relationships'', ''validation'', ''policy_version'',
     ''schema_version'']"

definition only_keys :: "dict \<Rightarrow> string list \<Rightarrow> string \<Rightarrow> unit res" where
  "only_keys d allowed message =
     guard_res (\<forall>k \<in> set (dkeys d). k \<in> set allowed) (PolicyError message)"

definition open_definition :: "runtime \<Rightarrow> dict \<Rightarrow> (dict \<times> string) res" where
  "open_definition R definition =
     (if dget definition ''kind'' = JStr ''DomainPack'' then
        bind_res (guard_res (dget definition ''apiVersion'' = JStr ''recordlane.io/v1alpha1'')
                    (PolicyError ''unsupported domain-pack apiVersion'')) (\<lambda>_.
        bind_res (to_dict (dget_or definition ''spec'' (JObj []))) (\<lambda>raw.
        bind_res (as_dict (dget_or definition ''metadata'' (JObj []))) (\<lambda>metadata.
        Inr (raw, py_str R (dget_or metadata ''version'' (JStr ''unversioned''))))))
      else Inr (definition, py_str R (dget_or definition ''policy_version''
                  (dget_or definition ''schema_version'' (JStr ''runtime-1'')))))"

section \<open>Attributes\<close>

text \<open>The allowed values that \<open>validation\<close> rules give to attributes, last rule first.\<close>

definition validation_rule :: "json \<Rightarrow> (string \<times> json) list \<Rightarrow> (string \<times> json) list res" where
  "validation_rule j acc =
     bind_res (as_dict j) (\<lambda>rule.
     bind_res (only_keys rule [''attribute'', ''allowedValues''] ''unsupported validation settings'')
       (\<lambda>_.
     case dget rule ''attribute'' of
       JStr f \<Rightarrow> Inr (if f = [] then acc else (f, dget rule ''allowedValues'') # acc)
     | JList xs \<Rightarrow> (if xs = [] then Inr acc else Inl (PyError ''TypeError''))
     | JObj d \<Rightarrow> (if d = [] then Inr acc else Inl (PyError ''TypeError''))
     | _ \<Rightarrow> Inr acc))"

definition validation_by_field :: "dict \<Rightarrow> (string \<times> json) list res" where
  "validation_by_field raw =
     bind_res (py_iter (dget_or raw ''validation'' (JList []))) (\<lambda>rules.
     fold_res validation_rule rules [])"

definition attribute_types :: "string list" where
  "attribute_types = [''string'', ''reference'', ''integer'', ''decimal'', ''boolean'', ''date'',
     ''datetime'', ''identifier'', ''enum'']"

definition normalizers :: "string list" where
  "normalizers = [''preserve'', ''uppercase_trim'', ''unicode_casefold'']"

definition allowed_attribute :: "string list" where
  "allowed_attribute = [''key'', ''name'', ''type'', ''required'', ''allowed_values'',
     ''allowedValues'', ''pattern'', ''normalizer'', ''read_roles'', ''write_roles'']"

text \<open>\<open>v in {...}\<close> for a set of strings: an unhashable value is a TypeError.\<close>

definition in_names :: "json \<Rightarrow> string list \<Rightarrow> bool res" where
  "in_names v names = (case v of
     JStr s \<Rightarrow> Inr (s \<in> set names)
   | JList _ \<Rightarrow> Inl (PyError ''TypeError'') | JObj _ \<Rightarrow> Inl (PyError ''TypeError'')
   | _ \<Rightarrow> Inr False)"

definition role_names :: "json \<Rightarrow> string list option" where
  "role_names v = (case v of
     JList xs \<Rightarrow> (if \<forall>x \<in> set xs. is_str x \<and> truthy x
                  then Some (map (\<lambda>x. case x of JStr s \<Rightarrow> s | _ \<Rightarrow> []) xs) else None)
   | _ \<Rightarrow> None)"

definition compile_access :: "string \<Rightarrow> dict \<Rightarrow> dict res" where
  "compile_access access_key attribute =
     (case map_of attribute access_key of
        None \<Rightarrow> Inr attribute
      | Some v \<Rightarrow>
          bind_res (from_option (PolicyError ''access key must be roles'') (role_names v)) (\<lambda>roles.
          Inr (AList.update access_key (JList (map JStr (sorted_set roles))) attribute)))"

definition compile_name :: "runtime \<Rightarrow> dict \<Rightarrow> dict res" where
  "compile_name R attribute =
     bind_res (bind_res (dindex attribute ''key'') as_str) (\<lambda>key.
     Inr (AList.update ''name''
            (dget_or attribute ''name''
               (JStr (capitalize R (replace_char CHR ''_'' CHR '' '' key)))) attribute))"

definition compile_allowed :: "(string \<times> json) list \<Rightarrow> dict \<Rightarrow> dict" where
  "compile_allowed inherited attribute =
     (let a = (case map_of attribute ''allowedValues'' of
                 None \<Rightarrow> attribute
               | Some v \<Rightarrow>
                   AList.update ''allowed_values'' v (AList.delete ''allowedValues'' attribute))
      in case (dget a ''key'') of
           JStr key \<Rightarrow>
             (case map_of inherited key of
                Some v \<Rightarrow> (if v \<noteq> JNull \<and> ''allowed_values'' \<notin> set (dkeys a)
                           then AList.update ''allowed_values'' v a else a)
              | None \<Rightarrow> a)
         | _ \<Rightarrow> a)"

definition compile_attribute ::
    "runtime \<Rightarrow> (string \<times> json) list \<Rightarrow> json \<Rightarrow> dict res" where
  "compile_attribute R inherited j =
     bind_res (as_dict j) (\<lambda>item.
     bind_res (only_keys item allowed_attribute ''unsupported attribute settings'') (\<lambda>_.
     bind_res (compile_access ''read_roles'' item) (\<lambda>a1.
     bind_res (compile_access ''write_roles'' a1) (\<lambda>a2.
     bind_res (in_names (dget_or a2 ''type'' (JStr ''string'')) attribute_types) (\<lambda>type_ok.
     bind_res (guard_res type_ok (PolicyError ''unsupported attribute type'')) (\<lambda>_.
     bind_res (in_names (dget_or a2 ''normalizer'' (JStr ''preserve'')) normalizers) (\<lambda>norm_ok.
     bind_res (guard_res norm_ok (PolicyError ''unsupported normalizer'')) (\<lambda>_.
     bind_res (compile_name R a2) (\<lambda>a3.
     Inr (compile_allowed inherited a3))))))))))"

definition compile_attributes :: "runtime \<Rightarrow> dict \<Rightarrow> dict list res" where
  "compile_attributes R raw =
     bind_res (validation_by_field raw) (\<lambda>inherited.
     bind_res (py_iter (dget_or raw ''attributes'' (JList []))) (\<lambda>items.
     map_res (compile_attribute R inherited) items))"

section \<open>Identifiers\<close>

definition raw_identifiers :: "dict \<Rightarrow> json list res" where
  "raw_identifiers raw =
     (case dget raw ''identifiers'' of
        JNull \<Rightarrow>
          bind_res (py_iter (dget_or raw ''identifierNamespaces'' (JList []))) (\<lambda>fs.
          Inr (map (\<lambda>f. JObj [(''field'', f), (''namespace'', f)]) fs))
      | v \<Rightarrow> py_iter v)"

definition compile_identifier :: "dict \<Rightarrow> dict \<Rightarrow> policy_identifier res" where
  "compile_identifier raw item =
     (let field = dget_or item ''field'' (dget item ''key'') in
      bind_res (as_dict (dget_or raw ''matching'' (JObj []))) (\<lambda>matching.
      bind_res (py_in field (dget_or matching ''hard_conflicts'' (JList []))) (\<lambda>hard.
      Inr \<lparr>id_field = field,
           id_namespace = dget_or item ''namespace'' field,
           hard_conflict = truthy (dget_or item ''hard_conflict'' (JBool hard))\<rparr>)))"

definition compile_identifiers :: "dict \<Rightarrow> policy_identifier list res" where
  "compile_identifiers raw =
     bind_res (raw_identifiers raw) (\<lambda>js.
     bind_res (map_res (\<lambda>j. bind_res (as_dict j) (\<lambda>item.
         bind_res (only_keys item [''field'', ''key'', ''namespace'', ''hard_conflict'']
                     ''unsupported identifier settings'') (\<lambda>_. Inr item))) js) (\<lambda>items.
     map_res (compile_identifier raw) items))"

section \<open>Matching\<close>

definition allowed_matching :: "string list" where
  "allowed_matching = [''blocking'', ''comparisons'', ''thresholds'', ''auto_link'', ''review'',
     ''hard_conflicts'', ''algorithm'', ''prior_match_probability'']"

text \<open>The shorthand: a sequence of field names is one strategy, \<open>name_prefix\<close> its prefix.\<close>

definition expand_blocking :: "json \<Rightarrow> json list res" where
  "expand_blocking b =
     bind_res (py_iter b) (\<lambda>items.
     if truthy b \<and> (\<forall>i \<in> set items. is_str i) then
       bind_res (py_in (JStr ''name_prefix'') b) (\<lambda>has_prefix.
       Inr [JObj ((''fields'', JList (filter (\<lambda>i. i \<noteq> JStr ''name_prefix'') items)) #
                  (if has_prefix
                   then [(''prefix'', JObj [(''field'', JStr ''name''), (''length'', JInt 5)])]
                   else []))])
     else Inr items)"

definition check_prefix :: "runtime \<Rightarrow> json \<Rightarrow> unit res" where
  "check_prefix R prefix =
     (if \<not> truthy prefix then Inr ()
      else bind_res (py_iter prefix) (\<lambda>ks.
        bind_res (guard_res (set ks = {JStr ''field'', JStr ''length''})
                    (PolicyError ''blocking prefix requires only field and length'')) (\<lambda>_.
        bind_res (as_dict prefix) (\<lambda>pre.
        bind_res (bind_res (dindex pre ''length'') (py_int R)) (\<lambda>n.
        guard_res (1 \<le> n \<and> n \<le> 64)
          (PolicyError ''blocking prefix length must be between 1 and 64''))))))"

definition compile_strategy :: "runtime \<Rightarrow> json \<Rightarrow> dict res" where
  "compile_strategy R j =
     (case j of
        JObj strategy \<Rightarrow>
          bind_res (only_keys strategy [''fields'', ''prefix'']
                      ''unsupported blocking strategy settings'') (\<lambda>_.
          bind_res (check_prefix R (dget strategy ''prefix'')) (\<lambda>_. Inr strategy))
      | _ \<Rightarrow> Inl (PolicyError ''unsupported blocking strategy settings''))"

definition compile_comparison :: "runtime \<Rightarrow> json \<Rightarrow> dict res" where
  "compile_comparison R j =
     bind_res (as_dict j) (\<lambda>rule.
     bind_res (only_keys rule [''field'', ''comparator'', ''weight'', ''missing_score'',
                 ''m_probability'', ''u_probability''] ''unsupported comparison settings'') (\<lambda>_.
     bind_res (in_names (dget rule ''comparator'') [''exact'', ''sequence_ratio'']) (\<lambda>known.
     bind_res (guard_res known (PolicyError ''unsupported comparator'')) (\<lambda>_.
     bind_res (py_float R (dget_or rule ''weight'' (JInt 0))) (\<lambda>w.
     bind_res (guard_res (0 < w) (PolicyError ''comparison weight must be positive'')) (\<lambda>_.
     Inr rule))))))"

definition check_probabilities :: "runtime \<Rightarrow> dict \<Rightarrow> unit res" where
  "check_probabilities R rule =
     bind_res (py_float R (dget_or rule ''m_probability'' (JInt 0))) (\<lambda>m.
     bind_res (py_float R (dget_or rule ''u_probability'' (JInt 0))) (\<lambda>u.
     guard_res (0 < u \<and> u < m \<and> m < 1)
       (PolicyError ''Fellegi-Sunter comparisons require 0 < u_probability < m_probability < 1'')))"

definition compile_algorithm :: "runtime \<Rightarrow> dict \<Rightarrow> dict list \<Rightarrow> (string \<times> real) res" where
  "compile_algorithm R matching rules =
     (let alg = dget_or matching ''algorithm'' (JStr ''weighted_score'') in
      bind_res (in_names alg [''weighted_score'', ''fellegi_sunter'']) (\<lambda>known.
      bind_res (guard_res known (PolicyError ''unsupported matching algorithm'')) (\<lambda>_.
      bind_res (py_float R (dget_or matching ''prior_match_probability'' (JFloat (1/100)))) (\<lambda>prior.
      if alg = JStr ''fellegi_sunter'' then
        bind_res (guard_res (0 < prior \<and> prior < 1)
           (PolicyError ''Fellegi-Sunter prior_match_probability must be between zero and one'')) (\<lambda>_.
        bind_res (map_res (check_probabilities R) rules) (\<lambda>_.
        Inr (''fellegi_sunter'', prior)))
      else Inr (''weighted_score'', prior)))))"

text \<open>The default of \<open>get("thresholds", ...)\<close> is built, and may raise, before the lookup.\<close>

definition compile_thresholds :: "runtime \<Rightarrow> dict \<Rightarrow> (real \<times> real) res" where
  "compile_thresholds R matching =
     bind_res (py_float R (dget_or matching ''auto_link'' (JFloat (101/100)))) (\<lambda>auto_default.
     bind_res (py_float R (dget_or matching ''review'' (JFloat (101/100)))) (\<lambda>review_default.
     bind_res (as_dict (dget_or matching ''thresholds''
        (JObj [(''auto_link'', JFloat auto_default), (''review'', JFloat review_default)]))) (\<lambda>thresholds.
     bind_res (bind_res (dindex thresholds ''review'') (py_float R)) (\<lambda>review.
     bind_res (guard_res (0 \<le> review)
        (PolicyError ''matching thresholds must satisfy 0 <= review <= auto_link <= 1.01'')) (\<lambda>_.
     bind_res (bind_res (dindex thresholds ''auto_link'') (py_float R)) (\<lambda>auto_link.
     bind_res (guard_res (review \<le> auto_link \<and> auto_link \<le> 101/100)
        (PolicyError ''matching thresholds must satisfy 0 <= review <= auto_link <= 1.01'')) (\<lambda>_.
     Inr (review, auto_link))))))))"

section \<open>Survivorship\<close>

definition survivorship_strategies :: "string list" where
  "survivorship_strategies = [''source_priority_then_observation_time'',
     ''verified_then_source_priority_then_observation_time'']"

definition check_survivorship_rule :: "json \<Rightarrow> unit res" where
  "check_survivorship_rule rule =
     bind_res (case rule of
         JStr s \<Rightarrow> Inr rule
       | JObj d \<Rightarrow>
           bind_res (only_keys d [''strategy'', ''source_precedence'']
                       ''unsupported survivorship settings'') (\<lambda>_. Inr (dget d ''strategy''))
       | _ \<Rightarrow> Inl (PolicyError ''unsupported survivorship settings'')) (\<lambda>strategy.
     bind_res (in_names strategy survivorship_strategies) (\<lambda>known.
     guard_res known (PolicyError ''unsupported survivorship strategy'')))"

definition attribute_keys :: "dict list \<Rightarrow> json list" where
  "attribute_keys attrs = map (\<lambda>a. dget a ''key'') attrs"

definition compile_survivorship :: "dict \<Rightarrow> dict list \<Rightarrow> dict res" where
  "compile_survivorship raw attrs =
     bind_res (as_dict (dget_or raw ''survivorship''
        (JObj [(''default'', JStr ''verified_then_source_priority_then_observation_time'')]))) (\<lambda>s.
     bind_res (guard_res (\<forall>k \<in> set (dkeys s). JStr k \<in> set (attribute_keys attrs) \<or> k = ''default'')
        (PolicyError ''survivorship contains an unknown attribute'')) (\<lambda>_.
     bind_res (map_res (\<lambda>(k, rule). check_survivorship_rule rule) s) (\<lambda>_.
     Inr s)))"

section \<open>The whole compiler\<close>

definition identifier_json :: "policy_identifier \<Rightarrow> json" where
  "identifier_json i =
     JObj [(''field'', id_field i), (''namespace'', id_namespace i),
           (''hard_conflict'', JBool (hard_conflict i))]"

definition policy_document :: "compiled_policy \<Rightarrow> json" where
  "policy_document p =
     JObj [(''entity'', pol_entity p), (''mode'', pol_mode p),
           (''attributes'', JList (map JObj (attributes p))),
           (''identifiers'', JList (map identifier_json (identifiers p))),
           (''relationships'', pol_relationships p),
           (''matching'', JObj
             [(''algorithm'', JStr (algorithm p)),
              (''prior_match_probability'', JFloat (prior_match_probability p)),
              (''blocking'', JList (map JObj (blocking p))),
              (''comparisons'', JList (map JObj (comparisons p))),
              (''thresholds'', JObj [(''review'', JFloat (review_threshold p)),
                                     (''auto_link'', JFloat (auto_link_threshold p))])]),
           (''survivorship'', JObj (survivorship p))]"

text \<open>\<open>json.loads(json.dumps(document, sort_keys=True))\<close>\<close>

definition canonical_document :: "compiled_policy \<Rightarrow> json" where
  "canonical_document p = canon (policy_document p)"

definition compile_matching ::
    "runtime \<Rightarrow> dict \<Rightarrow> (dict list \<times> dict list \<times> string \<times> real \<times> real \<times> real) res" where
  "compile_matching R raw =
     bind_res (to_dict (dget_or raw ''matching'' (JObj []))) (\<lambda>matching.
     bind_res (only_keys matching allowed_matching ''unsupported matching settings'') (\<lambda>_.
     bind_res (expand_blocking (dget_or matching ''blocking'' (JList []))) (\<lambda>bs.
     bind_res (map_res (compile_strategy R) bs) (\<lambda>strategies.
     bind_res (py_iter (dget_or matching ''comparisons'' (JList []))) (\<lambda>cs.
     bind_res (map_res (compile_comparison R) cs) (\<lambda>rules.
     bind_res (compile_algorithm R matching rules) (\<lambda>(alg, prior).
     bind_res (compile_thresholds R matching) (\<lambda>(review, auto_link).
     Inr (strategies, rules, alg, prior, review, auto_link)))))))))"

definition compile_document :: "runtime \<Rightarrow> dict \<Rightarrow> compiled_policy res" where
  "compile_document R definition =
     bind_res (open_definition R definition) (\<lambda>(raw, version).
     bind_res (only_keys raw allowed_root ''unsupported policy settings'') (\<lambda>_.
     bind_res (compile_attributes R raw) (\<lambda>attrs.
     bind_res (compile_identifiers raw) (\<lambda>ids.
     bind_res (compile_matching R raw) (\<lambda>(strategies, rules, alg, prior, review, auto_link).
     bind_res (compile_survivorship raw attrs) (\<lambda>surv.
     Inr \<lparr>pol_entity = dget_or raw ''entity'' (JStr ''Entity''),
          pol_mode = dget_or raw ''mode'' (JStr ''coexistence''),
          attributes = attrs, identifiers = ids,
          pol_relationships = dget_or raw ''relationships'' (JList []),
          algorithm = alg, prior_match_probability = prior, blocking = strategies,
          comparisons = rules, review_threshold = review, auto_link_threshold = auto_link,
          survivorship = surv, pol_version = version, checksum = []\<rparr>))))))"

text \<open>The checksum is the digest of the canonical document.\<close>

definition compile_policy :: "runtime \<Rightarrow> dict \<Rightarrow> compiled_policy res" where
  "compile_policy R definition =
     bind_res (compile_document R definition) (\<lambda>p.
     Inr (p\<lparr>checksum := canonical_hash R (policy_document p)\<rparr>))"

section \<open>What compilation guarantees\<close>

definition roles_ok :: "json option \<Rightarrow> bool" where
  "roles_ok v \<longleftrightarrow> v = None \<or> (\<exists>rs. v = Some (JList (map JStr rs)) \<and> [] \<notin> set rs \<and> sorted rs \<and> distinct rs)"

definition attribute_ok :: "dict \<Rightarrow> bool" where
  "attribute_ok a \<longleftrightarrow>
     set (dkeys a) \<subseteq> set allowed_attribute - {''allowedValues''} \<and>
     roles_ok (map_of a ''read_roles'') \<and> roles_ok (map_of a ''write_roles'') \<and>
     (\<exists>k. map_of a ''key'' = Some (JStr k)) \<and>
     (\<exists>t \<in> set attribute_types. dget_or a ''type'' (JStr ''string'') = JStr t) \<and>
     (\<exists>n \<in> set normalizers. dget_or a ''normalizer'' (JStr ''preserve'') = JStr n)"

definition comparison_ok :: "runtime \<Rightarrow> dict \<Rightarrow> bool" where
  "comparison_ok R rule \<longleftrightarrow>
     set (dkeys rule) \<subseteq> {''field'', ''comparator'', ''weight'', ''missing_score'', ''m_probability'', ''u_probability''} \<and>
     dget rule ''comparator'' \<in> {JStr ''exact'', JStr ''sequence_ratio''} \<and>
     (\<exists>w. bind_res (dindex rule ''weight'') (py_float R) = Inr w \<and> 0 < w)"

definition probabilities_ok :: "runtime \<Rightarrow> dict \<Rightarrow> bool" where
  "probabilities_ok R rule \<longleftrightarrow>
     (\<exists>m u. bind_res (dindex rule ''m_probability'') (py_float R) = Inr m \<and>
            bind_res (dindex rule ''u_probability'') (py_float R) = Inr u \<and>
            0 < u \<and> u < m \<and> m < 1)"

definition strategy_ok :: "runtime \<Rightarrow> dict \<Rightarrow> bool" where
  "strategy_ok R strategy \<longleftrightarrow>
     set (dkeys strategy) \<subseteq> {''fields'', ''prefix''} \<and>
     (truthy (dget strategy ''prefix'') \<longrightarrow>
       (\<exists>pre n. dget strategy ''prefix'' = JObj pre \<and> set (dkeys pre) = {''field'', ''length''} \<and>
          py_int R (dget pre ''length'') = Inr n \<and> 1 \<le> n \<and> n \<le> 64))"

definition survivorship_rule_ok :: "json \<Rightarrow> bool" where
  "survivorship_rule_ok rule \<longleftrightarrow>
     (\<exists>s \<in> set survivorship_strategies. rule = JStr s \<or>
        (\<exists>d. rule = JObj d \<and> set (dkeys d) \<subseteq> {''strategy'', ''source_precedence''} \<and> dget d ''strategy'' = JStr s))"

definition policy_ok :: "runtime \<Rightarrow> compiled_policy \<Rightarrow> bool" where
  "policy_ok R p \<longleftrightarrow>
     (\<forall>a \<in> set (attributes p). attribute_ok a) \<and>
     (\<forall>strategy \<in> set (blocking p). strategy_ok R strategy) \<and>
     (\<forall>rule \<in> set (comparisons p). comparison_ok R rule) \<and>
     0 \<le> review_threshold p \<and> review_threshold p \<le> auto_link_threshold p \<and>
     auto_link_threshold p \<le> 101/100 \<and>
     algorithm p \<in> {''weighted_score'', ''fellegi_sunter''} \<and>
     (algorithm p = ''fellegi_sunter'' \<longrightarrow>
        0 < prior_match_probability p \<and> prior_match_probability p < 1 \<and>
        (\<forall>rule \<in> set (comparisons p). probabilities_ok R rule)) \<and>
     (\<forall>(k, rule) \<in> set (survivorship p).
        (k = ''default'' \<or> JStr k \<in> set (attribute_keys (attributes p))) \<and> survivorship_rule_ok rule)"

lemma in_names_True: "in_names v names = Inr True \<longleftrightarrow> (\<exists>s \<in> set names. v = JStr s)"
  by (auto simp: in_names_def split: json.splits)

lemma dget_or_update_other:
  "k \<noteq> k' \<Longrightarrow> dget_or (AList.update k v d) k' w = dget_or d k' w"
  by (simp add: dget_or_def update_conv')

lemma dget_or_delete_other: "k \<noteq> k' \<Longrightarrow> dget_or (AList.delete k d) k' w = dget_or d k' w"
  by (simp add: dget_or_def delete_conv' del: AList.delete_eq)

lemma map_of_update_other: "k \<noteq> k' \<Longrightarrow> map_of (AList.update k v d) k' = map_of d k'"
  by (simp add: update_conv')

lemma map_of_delete_other: "k \<noteq> k' \<Longrightarrow> map_of (AList.delete k d) k' = map_of d k'"
  by (simp add: delete_conv' del: AList.delete_eq)

lemmas dict_other =
  dget_or_update_other dget_or_delete_other map_of_update_other map_of_delete_other

lemma compile_access_other:
  "compile_access ak a = Inr b \<Longrightarrow> k \<noteq> ak \<Longrightarrow> map_of b k = map_of a k"
  by (auto simp: compile_access_def res_elim dict_other split: option.splits)

lemma compile_allowed_other:
  assumes "k \<noteq> ''allowedValues''" "k \<noteq> ''allowed_values''"
  shows "map_of (compile_allowed inh a) k = map_of a k"
proof -
  define b where "b = (case map_of a ''allowedValues'' of None \<Rightarrow> a
    | Some v \<Rightarrow> AList.update ''allowed_values'' v (AList.delete ''allowedValues'' a))"
  have b: "map_of b k = map_of a k"
    using assms by (cases "map_of a ''allowedValues''") (simp_all only: b_def option.case dict_other)
  have u: "map_of (AList.update ''allowed_values'' v b) k = map_of b k" for v
    using assms by (simp only: dict_other)
  show ?thesis
  proof (cases "dget b ''key''")
    case (JStr key)
    then show ?thesis
      using b u unfolding compile_allowed_def b_def [symmetric] Let_def
      by (cases "map_of inh key") simp_all
  qed (use b in \<open>simp_all add: compile_allowed_def b_def [symmetric] Let_def\<close>)
qed

lemma string_entry: "bind_res (dindex a k) as_str = Inr s \<longleftrightarrow> map_of a k = Some (JStr s)"
proof (cases "map_of a k")
  case (Some v)
  then show ?thesis by (cases v) (simp_all add: dindex_def as_str_def)
qed (simp add: dindex_def)

lemma compile_name_steps:
  assumes "compile_name R a = Inr b"
  shows "\<exists>key v. map_of a ''key'' = Some (JStr key) \<and> b = AList.update ''name'' v a"
proof -
  from assms obtain key where "bind_res (dindex a ''key'') as_str = Inr key"
    and "\<exists>v. b = AList.update ''name'' v a"
    unfolding compile_name_def bind_res_Inr [where f = "\<lambda>key. Inr (AList.update _ (_ key) _)"]
    by blast
  then show ?thesis by (auto simp: string_entry)
qed

text \<open>The keys of an attribute, and its role lists, through the steps of its compilation.\<close>

lemma dkeys_update: "set (dkeys (AList.update k v d)) = insert k (set (dkeys d))"
  by (simp add: dkeys_def dom_map_of_conv_image_fst [symmetric] update_conv' insert_commute)

lemma dkeys_delete: "set (dkeys (AList.delete k d)) = set (dkeys d) - {k}"
  unfolding dkeys_def by (induction d) auto

lemma compile_access_keys:
  assumes "compile_access ak a = Inr b"
  shows "set (dkeys b) = set (dkeys a) \<and> roles_ok (map_of b ak)"
proof (cases "map_of a ak")
  case None
  with assms show ?thesis by (simp add: compile_access_def roles_ok_def)
next
  case (Some v)
  then obtain rs where rs: "role_names v = Some rs" "b = AList.update ak (JList (map JStr (sorted_set rs))) a"
    using assms by (auto simp: compile_access_def res_elim)
  from rs(1) obtain xs where xs: "v = JList xs" "\<forall>x \<in> set xs. is_str x \<and> truthy x"
    "rs = map (\<lambda>x. case x of JStr s \<Rightarrow> s | _ \<Rightarrow> []) xs"
    by (cases v) (simp_all add: role_names_def split: if_splits)
  have "(case x of JStr s \<Rightarrow> s | _ \<Rightarrow> []) \<noteq> []" if "x \<in> set xs" for x
    using xs(2) that by (cases x) (auto simp: is_str_def)
  then have "[] \<notin> set rs" unfolding xs(3) set_map by (metis (no_types, lifting) imageE)
  then have "roles_ok (map_of b ak)"
    unfolding rs(2) roles_ok_def by (intro disjI2 exI [of _ "sorted_set rs"]) (simp add: update_conv')
  moreover have "map_of a ak \<noteq> None" using Some by simp
  then have "ak \<in> set (dkeys a)" unfolding dkeys_def map_of_eq_None_iff by simp
  then have "set (dkeys b) = set (dkeys a)" unfolding rs(2) dkeys_update by (rule insert_absorb)
  ultimately show ?thesis by blast
qed

lemma compile_allowed_keys:
  "set (dkeys (compile_allowed inh a)) \<subseteq> insert ''allowed_values'' (set (dkeys a) - {''allowedValues''})"
proof -
  define b where "b = (case map_of a ''allowedValues'' of None \<Rightarrow> a
    | Some v \<Rightarrow> AList.update ''allowed_values'' v (AList.delete ''allowedValues'' a))"
  have b: "set (dkeys b) \<subseteq> insert ''allowed_values'' (set (dkeys a) - {''allowedValues''})"
  proof (cases "map_of a ''allowedValues''")
    case None
    then have "''allowedValues'' \<notin> set (dkeys a)" by (simp add: dkeys_def map_of_eq_None_iff)
    with None show ?thesis by (auto simp: b_def)
  next
    case (Some v)
    then show ?thesis by (auto simp: b_def dkeys_update dkeys_delete)
  qed
  have "compile_allowed inh a = b \<or> (\<exists>v. compile_allowed inh a = AList.update ''allowed_values'' v b)"
    unfolding compile_allowed_def b_def [symmetric] Let_def by (auto split: json.split option.split)
  with b show ?thesis by (auto simp: dkeys_update)
qed

lemma compile_attribute_access:
  assumes "compile_attribute R inherited j = Inr a"
  shows "set (dkeys a) \<subseteq> set allowed_attribute - {''allowedValues''} \<and>
    roles_ok (map_of a ''read_roles'') \<and> roles_ok (map_of a ''write_roles'')"
proof -
  from assms obtain item a1 a2 a3 where
    i: "\<forall>k \<in> set (dkeys item). k \<in> set allowed_attribute"
    and a1: "compile_access ''read_roles'' item = Inr a1" and a2: "compile_access ''write_roles'' a1 = Inr a2"
    and a3: "compile_name R a2 = Inr a3" and a: "a = compile_allowed inherited a3"
    unfolding compile_attribute_def only_keys_def bind_res_Inr guard_res_Inr
    apply (elim exE conjE)
    apply (drule Inr_inject)
    by (rule that, assumption, assumption, assumption, assumption) (erule sym)
  from a3 obtain v where v: "a3 = AList.update ''name'' v a2"
    using compile_name_steps by blast
  have n: "''name'' \<in> set allowed_attribute" "''allowed_values'' \<in> set allowed_attribute"
    by (simp_all add: allowed_attribute_def)
  have "set (dkeys a2) \<subseteq> set allowed_attribute"
    using i compile_access_keys [OF a1] compile_access_keys [OF a2] by blast
  then have "set (dkeys a3) \<subseteq> set allowed_attribute" unfolding v dkeys_update using n(1) by blast
  moreover have "''allowed_values'' \<noteq> ''allowedValues''" by simp
  ultimately have "set (dkeys a) \<subseteq> set allowed_attribute - {''allowedValues''}"
    using compile_allowed_keys [of inherited a3] n(2) unfolding a by blast
  moreover have same: "map_of a k = map_of a2 k" if "k \<noteq> ''name''" "k \<noteq> ''allowedValues''" "k \<noteq> ''allowed_values''" for k
    unfolding a v compile_allowed_other [OF that(2,3)] by (rule map_of_update_other [OF not_sym [OF that(1)]])
  have "map_of a ''read_roles'' = map_of a2 ''read_roles''" "map_of a ''write_roles'' = map_of a2 ''write_roles''"
    by (rule same; simp)+
  moreover have "map_of a2 ''read_roles'' = map_of a1 ''read_roles''" by (rule compile_access_other [OF a2]) simp
  ultimately show ?thesis using compile_access_keys [OF a1] compile_access_keys [OF a2] by simp
qed

lemma compile_attribute_steps:
  assumes "compile_attribute R inherited j = Inr a"
  shows "\<exists>a2 a3. in_names (dget_or a2 ''type'' (JStr ''string'')) attribute_types = Inr True \<and>
    in_names (dget_or a2 ''normalizer'' (JStr ''preserve'')) normalizers = Inr True \<and>
    compile_name R a2 = Inr a3 \<and> a = compile_allowed inherited a3"
  using assms unfolding compile_attribute_def bind_res_Inr guard_res_Inr
  by (elim exE conjE) (simp, blast)

lemma compile_attribute_ok:
  assumes "compile_attribute R inherited j = Inr a"
  shows "attribute_ok a"
proof -
  from compile_attribute_steps [OF assms] obtain a2 a3 where
    t: "in_names (dget_or a2 ''type'' (JStr ''string'')) attribute_types = Inr True" and
    n: "in_names (dget_or a2 ''normalizer'' (JStr ''preserve'')) normalizers = Inr True" and
    name: "compile_name R a2 = Inr a3" and a: "a = compile_allowed inherited a3" by blast
  from compile_name_steps [OF name] obtain key v where
    key: "map_of a2 ''key'' = Some (JStr key)" and a3: "a3 = AList.update ''name'' v a2" by blast
  have same: "map_of a k = map_of a2 k"
    if "k \<noteq> ''name''" "k \<noteq> ''allowedValues''" "k \<noteq> ''allowed_values''" for k
    unfolding a a3 compile_allowed_other [OF that(2,3)]
    by (rule map_of_update_other [OF not_sym [OF that(1)]])
  have "map_of a ''key'' = Some (JStr key)"
    "dget_or a ''type'' (JStr ''string'') = dget_or a2 ''type'' (JStr ''string'')"
    "dget_or a ''normalizer'' (JStr ''preserve'') = dget_or a2 ''normalizer'' (JStr ''preserve'')"
    using key same by (simp_all add: dget_or_def)
  with t n compile_attribute_access [OF assms] show ?thesis by (auto simp: attribute_ok_def in_names_True)
qed

lemma compile_strategy_ok:
  assumes "compile_strategy R j = Inr strategy"
  shows "strategy_ok R strategy"
proof -
  from assms have j: "j = JObj strategy" "set (dkeys strategy) \<subseteq> {''fields'', ''prefix''}"
    "check_prefix R (dget strategy ''prefix'') = Inr ()"
    by (auto simp: compile_strategy_def only_keys_def res_elim split: json.splits)
  have "\<exists>pre n. dget strategy ''prefix'' = JObj pre \<and> set (dkeys pre) = {''field'', ''length''} \<and>
      py_int R (dget pre ''length'') = Inr n \<and> 1 \<le> n \<and> n \<le> 64" if t: "truthy (dget strategy ''prefix'')"
  proof -
    from j(3) t obtain ks pre v n where p: "py_iter (dget strategy ''prefix'') = Inr ks" "set ks = {JStr ''field'', JStr ''length''}"
      "as_dict (dget strategy ''prefix'') = Inr pre" "dindex pre ''length'' = Inr v" "py_int R v = Inr n" "1 \<le> n" "n \<le> 64"
      by (auto simp: check_prefix_def res_elim)
    from p(3) have d: "dget strategy ''prefix'' = JObj pre" by (auto simp: as_dict_def split: json.splits)
    with p(1) have "set ks = JStr ` set (dkeys pre)" by (auto simp: py_iter_def)
    with p(2) have "JStr ` set (dkeys pre) = JStr ` {''field'', ''length''}" by simp
    then have "set (dkeys pre) = {''field'', ''length''}" by (subst (asm) inj_image_eq_iff) (auto simp: inj_def)
    moreover have "dget pre ''length'' = v" using p(4) by (auto simp: dindex_def dget_def res_elim)
    ultimately show ?thesis using d p(5-7) by blast
  qed
  with j(2) show ?thesis by (simp add: strategy_ok_def)
qed

lemma compile_comparison_ok:
  assumes "compile_comparison R j = Inr rule"
  shows "comparison_ok R rule"
proof -
  from assms obtain w where
    c: "in_names (dget rule ''comparator'') [''exact'', ''sequence_ratio''] = Inr True" and
    w: "py_float R (dget_or rule ''weight'' (JInt 0)) = Inr w" "0 < w"
    by (auto simp: compile_comparison_def res_elim)
  have "bind_res (dindex rule ''weight'') (py_float R) = Inr w"
    using w by (auto simp: dget_or_def dindex_def py_float_def split: option.splits)
  moreover have "set (dkeys rule) \<subseteq> {''field'', ''comparator'', ''weight'', ''missing_score'', ''m_probability'', ''u_probability''}"
    using assms unfolding compile_comparison_def only_keys_def res_elim by (elim exE conjE) (simp add: subset_iff)
  ultimately show ?thesis using c w(2) by (auto simp: comparison_ok_def in_names_True)
qed

lemma check_probabilities_ok: "check_probabilities R rule = Inr u \<Longrightarrow> probabilities_ok R rule"
  by (auto simp: check_probabilities_def probabilities_ok_def res_elim dget_or_def dindex_def
      py_float_def split: option.splits)

lemma compile_algorithm_ok:
  assumes "compile_algorithm R matching rules = Inr (alg, prior)"
  shows "alg \<in> {''weighted_score'', ''fellegi_sunter''} \<and>
    (alg = ''fellegi_sunter'' \<longrightarrow>
       0 < prior \<and> prior < 1 \<and> (\<forall>rule \<in> set rules. probabilities_ok R rule))"
proof (cases "alg = ''fellegi_sunter''")
  case True
  with assms obtain us where "0 < prior" "prior < 1"
    and us: "map_res (check_probabilities R) rules = Inr us"
    by (auto simp: compile_algorithm_def Let_def res_elim split: if_splits)
  then show ?thesis using True map_res_mem' [OF us] check_probabilities_ok by blast
next
  case False
  with assms show ?thesis
    by (auto simp: compile_algorithm_def Let_def res_elim split: if_splits)
qed

lemma compile_thresholds_ok:
  "compile_thresholds R matching = Inr (review, auto_link) \<Longrightarrow>
   0 \<le> review \<and> review \<le> auto_link \<and> auto_link \<le> 101/100"
  by (auto simp: compile_thresholds_def res_elim)

lemma check_survivorship_rule_ok:
  assumes "check_survivorship_rule rule = Inr ()"
  shows "survivorship_rule_ok rule"
proof (cases rule)
  case (JStr s)
  with assms show ?thesis by (simp add: check_survivorship_rule_def survivorship_rule_ok_def res_elim in_names_def)
next
  case (JObj d)
  with assms have "set (dkeys d) \<subseteq> {''strategy'', ''source_precedence''}" "\<exists>s \<in> set survivorship_strategies. dget d ''strategy'' = JStr s"
    by (simp_all add: check_survivorship_rule_def only_keys_def res_elim subset_iff) (auto simp: in_names_def split: json.splits)
  with JObj show ?thesis unfolding survivorship_rule_ok_def by blast
qed (use assms in \<open>simp_all add: check_survivorship_rule_def res_elim\<close>)

lemma compile_survivorship_ok:
  assumes "compile_survivorship raw attrs = Inr s"
  shows "\<forall>(k, rule) \<in> set s. (k = ''default'' \<or> JStr k \<in> set (attribute_keys attrs)) \<and>
    check_survivorship_rule rule = Inr ()"
proof -
  from assms obtain us where
    k: "\<forall>k \<in> set (dkeys s). JStr k \<in> set (attribute_keys attrs) \<or> k = ''default''" and
    us: "map_res (\<lambda>(k, rule). check_survivorship_rule rule) s = Inr us"
    by (auto simp: compile_survivorship_def res_elim)
  show ?thesis
    using k map_res_mem' [OF us] by (fastforce simp: dkeys_def)
qed

lemma compile_matching_ok:
  assumes "compile_matching R raw = Inr (strategies, rules, alg, prior, review, auto_link)"
  shows "\<forall>rule \<in> set rules. comparison_ok R rule"
    and "\<forall>strategy \<in> set strategies. strategy_ok R strategy"
    and "\<exists>matching. compile_algorithm R matching rules = Inr (alg, prior)"
    and "\<exists>matching. compile_thresholds R matching = Inr (review, auto_link)"
proof -
  from assms obtain matching bs cs where
    bs: "map_res (compile_strategy R) bs = Inr strategies" and
    cs: "map_res (compile_comparison R) cs = Inr rules" and
    "compile_algorithm R matching rules = Inr (alg, prior)"
    "compile_thresholds R matching = Inr (review, auto_link)"
    by (auto simp: compile_matching_def res_elim)
  then show "\<exists>matching. compile_algorithm R matching rules = Inr (alg, prior)"
    "\<exists>matching. compile_thresholds R matching = Inr (review, auto_link)" by blast+
  show "\<forall>rule \<in> set rules. comparison_ok R rule"
    using map_res_mem [OF cs] compile_comparison_ok by blast
  show "\<forall>strategy \<in> set strategies. strategy_ok R strategy"
    using map_res_mem [OF bs] compile_strategy_ok by blast
qed

lemma compile_document_parts:
  assumes "compile_document R d = Inr p"
  shows "\<exists>raw. compile_attributes R raw = Inr (attributes p) \<and>
    compile_identifiers raw = Inr (identifiers p) \<and>
    compile_matching R raw = Inr (blocking p, comparisons p, algorithm p,
      prior_match_probability p, review_threshold p, auto_link_threshold p) \<and>
    compile_survivorship raw (attributes p) = Inr (survivorship p)"
proof -
  from assms obtain raw attrs ids m surv where
    a: "compile_attributes R raw = Inr attrs" and i: "compile_identifiers raw = Inr ids" and
    m: "compile_matching R raw = Inr m" and s: "compile_survivorship raw attrs = Inr surv" and
    p: "attributes p = attrs" "identifiers p = ids" "survivorship p = surv"
      "(blocking p, comparisons p, algorithm p, prior_match_probability p, review_threshold p,
        auto_link_threshold p) = m"
    unfolding compile_document_def bind_res_Inr split_beta
    apply (elim exE conjE)
    apply (drule Inr_inject)
    by (rule that, assumption, assumption, assumption, assumption) (erule subst [where t = p], simp)+
  with a i m s show ?thesis by blast
qed

lemma compile_document_ok:
  assumes "compile_document R d = Inr p"
  shows "policy_ok R p"
proof -
  from compile_document_parts [OF assms] obtain raw where
    a: "compile_attributes R raw = Inr (attributes p)" and
    m: "compile_matching R raw = Inr (blocking p, comparisons p, algorithm p,
      prior_match_probability p, review_threshold p, auto_link_threshold p)" and
    s: "compile_survivorship raw (attributes p) = Inr (survivorship p)" by blast
  from a obtain inh items where i: "map_res (compile_attribute R inh) items = Inr (attributes p)"
    by (auto simp: compile_attributes_def res_elim)
  have "\<forall>a \<in> set (attributes p). attribute_ok a"
    using map_res_mem [OF i] compile_attribute_ok by blast
  then show ?thesis
    unfolding policy_ok_def
    using compile_matching_ok [OF m] compile_algorithm_ok compile_thresholds_ok
      compile_survivorship_ok [OF s] check_survivorship_rule_ok by blast
qed

lemma policy_ok_checksum: "policy_ok R (p\<lparr>checksum := c\<rparr>) = policy_ok R p"
  by (simp add: policy_ok_def)

lemma compile_policy_ok:
  assumes "compile_policy R d = Inr p"
  shows "policy_ok R p"
  using assms by (auto simp: compile_policy_def res_elim policy_ok_checksum dest: compile_document_ok)

text \<open>A compiled policy names a known case mapping for every text it normalises.\<close>

lemma text_norm_total:
  "mode \<in> JStr ` set normalizers \<Longrightarrow> \<exists>t. text_norm R s mode = Inr t"
  by (auto simp: text_norm_def normalizers_def Let_def)

lemma attribute_ok_mode:
  assumes "attribute_ok a" "k \<in> set normalizers"
  shows "dget_or a ''normalizer'' (JStr k) \<in> JStr ` set normalizers"
proof (cases "map_of a ''normalizer''")
  case None
  with assms(2) show ?thesis by (simp only: dget_or_def option.case) (rule imageI)
next
  case (Some m)
  with assms(1) show ?thesis unfolding attribute_ok_def dget_or_def by auto
qed

lemma normalize_strings_total:
  assumes "mode \<in> JStr ` set normalizers"
  shows "\<exists>ys. map_res (\<lambda>x. case x of
      JStr s \<Rightarrow> bind_res (text_norm R s mode) (\<lambda>t. Inr (JStr t)) | _ \<Rightarrow> Inr x) xs = Inr ys"
proof (rule map_res_total)
  fix x
  show "\<exists>y. (case x of
      JStr s \<Rightarrow> bind_res (text_norm R s mode) (\<lambda>t. Inr (JStr t)) | _ \<Rightarrow> Inr x) = Inr y"
    using text_norm_total [OF assms, of R] by (cases x) (simp_all add: bind_res_Inr)
qed

text \<open>The one value that cannot be normalised: a decimal beyond the exponents of the context.\<close>

definition overflows :: "runtime \<Rightarrow> dict \<Rightarrow> json \<Rightarrow> bool" where
  "overflows R a v \<longleftrightarrow> dget_or a ''type'' (JStr ''string'') = JStr ''decimal'' \<and> decimal_normalize R (py_str R v) = DecimalOverflow"

lemma normalize_value_overflow: "overflows R a v \<Longrightarrow> normalize_value R a v = Inl (PyError ''Overflow'')"
  by (simp add: overflows_def normalize_value_def)

lemma normalize_value_total:
  assumes "attribute_ok a" "\<not> overflows R a v"
  shows "\<exists>w. normalize_value R a v = Inr w"
proof -
  have n: "''unicode_casefold'' \<in> set normalizers" "''preserve'' \<in> set normalizers"
    by (simp_all add: normalizers_def)
  show ?thesis
  proof (cases "dget_or a ''type'' (JStr ''string'') = JStr ''decimal''")
    case True
    with assms(2) show ?thesis by (simp add: normalize_value_def overflows_def split: decimal.split)
  next
    case False
    show ?thesis
    proof (cases v)
      case (JStr s)
      define k where "k = (if dget_or a ''type'' (JStr ''string'') = JStr ''string'' \<or>
        dget_or a ''type'' (JStr ''string'') = JStr ''reference'' then ''unicode_casefold'' else ''preserve'')"
      have "k \<in> set normalizers" using n by (simp only: k_def split: if_split) blast
      then obtain t where "text_norm R s (dget_or a ''normalizer'' (JStr k)) = Inr t"
        using text_norm_total [OF attribute_ok_mode [OF assms(1)]] by blast
      with False JStr show ?thesis
        unfolding normalize_value_def Let_def k_def [symmetric] by simp
    next
      case (JList xs)
      obtain ys where "map_res (\<lambda>x. case x of JStr s \<Rightarrow> bind_res (text_norm R s
            (dget_or a ''normalizer'' (JStr ''unicode_casefold''))) (\<lambda>t. Inr (JStr t)) | _ \<Rightarrow> Inr x) xs = Inr ys"
        using normalize_strings_total [OF attribute_ok_mode [OF assms(1) n(1)]] by blast
      with False JList show ?thesis
        unfolding normalize_value_def Let_def by simp
    qed (use False in \<open>simp_all add: normalize_value_def\<close>)
  qed
qed

lemma attribute_of_mem: "attribute_of p k = Some a \<Longrightarrow> a \<in> set (attributes p)"
  by (auto simp: attribute_of_def dest: find_SomeD)

definition overflowing :: "runtime \<Rightarrow> compiled_policy \<Rightarrow> string \<times> json \<Rightarrow> bool" where
  "overflowing R p kv \<longleftrightarrow> (case kv of (k, v) \<Rightarrow> v \<noteq> JNull \<and> (\<exists>a. attribute_of p k = Some a \<and> overflows R a v))"

lemma normalize_total:
  assumes "\<forall>a \<in> set (attributes p). attribute_ok a" "\<forall>kv \<in> set rec. \<not> overflowing R p kv"
  shows "\<exists>out. normalize R p rec = Inr out"
  unfolding normalize_def
proof (rule map_res_total)
  fix kv assume kv: "kv \<in> set rec"
  show "\<exists>y. (case kv of (key, value) \<Rightarrow>
      case attribute_of p key of None \<Rightarrow> Inr (key, value)
      | Some attr \<Rightarrow> if value = JNull then Inr (key, value)
          else bind_res (normalize_value R attr value) (\<lambda>v. Inr (key, v))) = Inr y"
  proof (cases kv)
    case (Pair key v)
    show ?thesis
    proof (cases "attribute_of p key")
      case None
      with Pair show ?thesis by simp
    next
      case (Some attr)
      show ?thesis
      proof (cases "v = JNull")
        case False
        have "attribute_ok attr" using Some attribute_of_mem assms(1) by blast
        moreover have "\<not> overflows R attr v" using assms(2) kv Pair Some False by (force simp: overflowing_def)
        ultimately obtain w where "normalize_value R attr v = Inr w" using normalize_value_total by blast
        with Pair Some show ?thesis by simp
      qed (simp add: Pair Some)
    qed
  qed
qed

text \<open>And the only exception is the overflow of a decimal in the record.\<close>

lemma map_res_error: "map_res f xs = Inl e \<Longrightarrow> \<exists>x \<in> set xs. f x = Inl e"
  by (induction xs) (auto simp: bind_res_def split: sum.splits)

lemma normalize_error:
  assumes "\<forall>a \<in> set (attributes p). attribute_ok a" "normalize R p rec = Inl e"
  shows "e = PyError ''Overflow'' \<and> (\<exists>kv \<in> set rec. overflowing R p kv)"
proof -
  from map_res_error [OF assms(2) [unfolded normalize_def]] obtain k v where kv: "(k, v) \<in> set rec"
    "(case attribute_of p k of None \<Rightarrow> Inr (k, v) | Some attr \<Rightarrow> if v = JNull then Inr (k, v)
      else bind_res (normalize_value R attr v) (\<lambda>w. Inr (k, w))) = Inl e" by auto
  then obtain a where a: "attribute_of p k = Some a" "v \<noteq> JNull" "normalize_value R a v = Inl e"
    by (auto simp: bind_res_def split: option.splits if_splits sum.splits)
  then have "overflows R a v" using normalize_value_total assms(1) attribute_of_mem by (metis Inl_Inr_False)
  with a kv(1) normalize_value_overflow [OF this] show ?thesis by (auto simp: overflowing_def)
qed

section \<open>Properties\<close>

text \<open>A small supplier policy, as the document a client submits.\<close>

definition tax_definition :: dict where
  "tax_definition =
     [(''entity'', JStr ''supplier''),
      (''attributes'', JList
         [JObj [(''key'', JStr ''name''), (''required'', JBool True)],
          JObj [(''key'', JStr ''tax_id''), (''type'', JStr ''identifier'')]]),
      (''identifiers'', JList
         [JObj [(''field'', JStr ''tax_id''), (''namespace'', JStr ''tax''),
                (''hard_conflict'', JBool True)]]),
      (''matching'', JObj
         [(''blocking'', JList [JObj [(''fields'', JList [JStr ''tax_id''])]]),
          (''comparisons'', JList
             [JObj [(''field'', JStr ''name''), (''comparator'', JStr ''exact''),
                    (''weight'', JInt 1)]]),
          (''thresholds'', JObj [(''review'', JInt 0), (''auto_link'', JInt 1)])])]"

lemma tax_definition_compiles: "\<exists>p. compile_policy ascii_runtime tax_definition = Inr p"
proof -
  have "\<not> (case compile_document ascii_runtime tax_definition of Inr _ \<Rightarrow> False | Inl _ \<Rightarrow> True)"
    by code_simp
  then obtain p where "compile_document ascii_runtime tax_definition = Inr p"
    by (cases "compile_document ascii_runtime tax_definition") auto
  then show ?thesis by (simp add: compile_policy_def)
qed

text \<open>
  C35. A definition that compiles gives a policy of the checked form: attributes with known settings, types
  and normalizers and sorted role lists; blocking strategies with known settings and prefixes of 1 to
  64; comparisons with known settings, comparators and positive weights; a known algorithm, thresholds
  in order within 0 and 1.01, Fellegi-Sunter probabilities strictly ordered; and known survivorship
  rules for declared attributes only. Under such a policy a record is normalised, or a decimal of the
  record is beyond the exponents of Python's decimals and the exception of that leaves.
\<close>

theorem compiled_policies_are_sound:
  assumes "compile_policy R definition = Inr p"
  shows "policy_ok R p \<and> (\<forall>rec. (\<exists>out. normalize R p rec = Inr out) \<or>
    normalize R p rec = Inl (PyError ''Overflow'') \<and> (\<exists>kv \<in> set rec. overflowing R p kv))"
proof -
  have ok: "policy_ok R p" by (rule compile_policy_ok [OF assms])
  then have "\<forall>a \<in> set (attributes p). attribute_ok a" by (simp add: policy_ok_def)
  from normalize_error [OF this] have "(\<exists>out. normalize R p rec = Inr out) \<or>
    normalize R p rec = Inl (PyError ''Overflow'') \<and> (\<exists>kv \<in> set rec. overflowing R p kv)" for rec
    by (cases "normalize R p rec") auto
  with ok show ?thesis by blast
qed

text \<open>A decimal beyond those exponents is not refused as invalid: its exception leaves the normalisation.\<close>

lemma huge_decimals_raise:
  assumes "attribute_of p k = Some a" "dget_or a ''type'' (JStr ''string'') = JStr ''decimal''"
    and "decimal_normalize R s = DecimalOverflow"
  shows "normalize R p [(k, JStr s)] = Inl (PyError ''Overflow'')"
  using assms by (simp add: normalize_def normalize_value_def py_str_def bind_res_def)

lemma compiled_policies_are_sound_witness:
  "\<exists>p. compile_policy ascii_runtime tax_definition = Inr p \<and> policy_ok ascii_runtime p \<and>
    (\<exists>out. normalize ascii_runtime p (named ''a'' ''1'') = Inr out)"
proof -
  obtain p where p: "compile_policy ascii_runtime tax_definition = Inr p"
    using tax_definition_compiles by blast
  have "decimal_normalize ascii_runtime s \<noteq> DecimalOverflow" for s by (simp add: ascii_runtime_def)
  then have "\<not> overflowing ascii_runtime p kv" for kv by (auto simp: overflowing_def overflows_def)
  with p compiled_policies_are_sound [OF p] show ?thesis by blast
qed

text \<open>
  An unknown setting anywhere at the top level of a policy is refused: a definition that
  is not a domain pack and has a key outside the documented ones does not compile.
\<close>

theorem unknown_settings_are_refused:
  assumes "k \<in> set (dkeys definition)" "k \<notin> set allowed_root"
    and "dget definition ''kind'' \<noteq> JStr ''DomainPack''"
  shows "compile_policy R definition = Inl (PolicyError ''unsupported policy settings'')"
  using assms
  by (auto simp: compile_policy_def compile_document_def open_definition_def only_keys_def
      bind_res_Inl guard_res_Inl)

lemma unknown_settings_are_refused_witness:
  "compile_policy ascii_runtime [(''entities'', JStr ''supplier'')] =
     Inl (PolicyError ''unsupported policy settings'')"
  by (rule unknown_settings_are_refused [of "''entities''"])
    (simp_all add: dkeys_def allowed_root_def dget_def dget_or_def)

end
