(* ===== verification/Tables.thy ===== *)
theory Tables
  imports PolicyCompile
begin

text \<open>
  The mastering tables of models/tables.py: one record per class with the class's columns
  (short prefixes keep the selectors apart), closed sets of strings as datatypes, and the
  database as one record of tables. \<open>updated_at\<close>/\<open>received_at\<close> columns that nothing reads are
  left out. Identifiers and times are drawn from the runtime's \<^const>\<open>uuid\<close> and
  \<^const>\<open>clock\<close> at the draw number \<open>ticks\<close>: a row draws its id and its creation time
  together. A \<open>datetime\<close> is a number of microseconds.
\<close>

type_synonym ident = string
type_synonym time = int

section \<open>Rows\<close>

record workspace =
  ws_id :: ident
  ws_slug :: string
  ws_name :: string

record domain_row =
  dm_id :: ident
  dm_ws :: ident
  dm_key :: string
  dm_name :: string
  dm_mode :: string
  dm_schema_version :: int
  dm_definition :: dict
  dm_status :: string

record source_row =
  sc_id :: ident
  sc_ws :: ident
  sc_key :: string
  sc_name :: string
  sc_kind :: string
  sc_priority :: int
  sc_capabilities :: dict
  sc_config :: dict
  sc_checkpoint :: dict
  sc_status :: string
  sc_last_ingested :: "time option"

datatype record_state = Valid | Quarantine | Superseded | Deleted

record source_record =
  sr_id :: ident
  sr_ws :: ident
  sr_source :: ident
  sr_domain :: string
  sr_local :: string
  sr_version :: string
  sr_original :: dict
  sr_normalized :: dict
  sr_block :: string
  sr_verification :: dict
  sr_state :: record_state
  sr_errors :: "quality_error list"
  sr_observed :: time
  sr_effective :: "time option"
  sr_entity :: "ident option"

datatype entity_status = Candidate | ApprovedEntity | MergedEntity

record entity =
  en_id :: ident
  en_ws :: ident
  en_domain :: string
  en_stable_key :: string
  en_status :: entity_status
  en_version :: int

record source_object =
  ob_id :: ident
  ob_ws :: ident
  ob_source :: ident
  ob_domain :: string
  ob_local :: string
  ob_entity :: "ident option"
  ob_current :: "ident option"
  ob_latest :: "ident option"
  ob_sequence :: "int option"
  ob_effective :: "time option"
  ob_retired :: bool

datatype update_mode = FullUpdate | PartialUpdate
datatype extraction_mode = FullExtraction | DeltaExtraction

record observation_meta =
  om_record :: ident
  om_object :: ident
  om_hash :: string
  om_sequence :: "int option"
  om_mode :: update_mode

datatype run_status = RunRunning | RunComplete

text \<open>The run's \<open>checkpoint\<close> document is kept as its three entries.\<close>

record ingestion_run =
  ir_id :: ident
  ir_ws :: ident
  ir_source :: ident
  ir_domain :: string
  ir_external :: string
  ir_mode :: extraction_mode
  ir_status :: run_status
  ir_position :: "string option"
  ir_handoff :: "string option"
  ir_processed :: "string list"
  ir_page :: "string option"
  ir_next :: "string option"
  ir_seen :: "string list"
  ir_records :: int
  ir_complete :: bool
  ir_completed :: "time option"

record candidate_block =
  cb_id :: ident
  cb_ws :: ident
  cb_domain :: string
  cb_object :: ident
  cb_record :: ident
  cb_key :: string

record membership =
  mh_id :: ident
  mh_ws :: ident
  mh_object :: ident
  mh_entity :: ident
  mh_from :: time
  mh_to :: "time option"
  mh_reason :: string
  mh_by :: string

datatype master_status = DraftMaster | ApprovedMaster

record master_version =
  mv_id :: ident
  mv_ws :: ident
  mv_entity :: ident
  mv_version :: int
  mv_status :: master_status
  mv_values :: dict
  mv_provenance :: dict
  mv_reason :: "string option"
  mv_approved_by :: "string option"

datatype task_kind = DuplicateMatch | MasterApproval | ConfigurationApproval | MergeApproval
  | SplitApproval | DownstreamRepair
datatype task_status = OpenTask | StaleTask | ApprovedTask | RejectedTask

text \<open>
  The payload documents of the review tasks, one constructor per kind with the keys that the
  kind's code writes and reads. The object ids of a match are absent from tasks of earlier
  releases; the match result is kept as the document \<open>as_dict()\<close> makes of it.
\<close>

record match_payload =
  mp_left_record :: ident
  mp_right_record :: ident
  mp_left_object :: "ident option"
  mp_right_object :: "ident option"
  mp_target :: ident
  mp_bound_target :: int
  mp_evidence :: dict

record config_payload =
  cp_config :: ident
  cp_version :: int
  cp_checksum :: string
  cp_simulation :: ident
  cp_checkpoint :: int
  cp_impact :: dict

record merge_payload =
  gp_primary :: ident
  gp_merged :: "ident list"
  gp_bound :: "(ident \<times> int) list"
  gp_contributions :: int
  gp_relationships :: int
  gp_corrections :: int
  gp_dry_run :: bool
  gp_reason :: string

record split_payload =
  lp_records :: "ident list"
  lp_objects :: "ident list"
  lp_reason :: string

datatype payload =
    MatchPayload match_payload
  | MasterPayload int dict dict
  | ConfigPayload config_payload
  | MergePayload merge_payload
  | SplitPayload split_payload
  | RepairPayload ident ident

record review_task =
  rt_id :: ident
  rt_ws :: ident
  rt_kind :: task_kind
  rt_entity :: "ident option"
  rt_status :: task_status
  rt_priority :: string
  rt_assignee :: "string option"
  rt_proposed_by :: string
  rt_payload :: payload
  rt_bound :: "int option"
  rt_sensitive :: bool
  rt_reason :: "string option"
  rt_decided_by :: "string option"
  rt_due :: "time option"

text \<open>\<open>CannotLink\<close> and \<open>SourceObjectCannotLink\<close> have the same columns.\<close>

record link_ban =
  lb_id :: ident
  lb_ws :: ident
  lb_left :: ident
  lb_right :: ident
  lb_reason :: string
  lb_by :: string

record relationship =
  rl_id :: ident
  rl_ws :: ident
  rl_from :: ident
  rl_to :: ident
  rl_type :: string
  rl_effective_from :: "time option"
  rl_effective_to :: "time option"
  rl_provenance :: dict

datatype config_status = DraftConfig | ActiveConfig | RetiredConfig

record configuration =
  cv_id :: ident
  cv_ws :: ident
  cv_version :: int
  cv_status :: config_status
  cv_checksum :: string
  cv_document :: dict
  cv_by :: string

record simulation =
  sm_id :: ident
  sm_ws :: ident
  sm_config :: ident
  sm_checkpoint :: int
  sm_result :: dict
  sm_sample :: bool
  sm_created :: time

datatype event_status = EventPending | EventReconcile | EventRetry | EventDelivered | EventDead

record outbox_event =
  ev_id :: ident
  ev_ws :: ident
  ev_entity :: "ident option"
  ev_version :: "int option"
  ev_type :: string
  ev_schema :: string
  ev_payload :: dict
  ev_status :: event_status
  ev_attempts :: int
  ev_error :: "string option"
  ev_occurred :: time

datatype delivery_status = DeliverySending | DeliveryAccepted | DeliveryAmbiguous | DeliveryRejected
  | DeliveryFailed

record delivery =
  dv_id :: ident
  dv_ws :: ident
  dv_event :: ident
  dv_consumer :: string
  dv_attempt :: int
  dv_status :: delivery_status
  dv_code :: "nat option"
  dv_error :: "string option"
  dv_started :: time
  dv_completed :: "time option"

record receipt =
  rc_id :: ident
  rc_ws :: ident
  rc_event :: ident
  rc_consumer :: string
  rc_version :: "int option"
  rc_outcome :: string
  rc_verified :: time

datatype job_status = JobQueued | JobRunning | JobRetry | JobComplete | JobFailed | JobCancelled

record job =
  jb_id :: ident
  jb_ws :: ident
  jb_kind :: string
  jb_payload :: dict
  jb_status :: job_status
  jb_attempts :: int
  jb_owner :: "string option"
  jb_lease :: int
  jb_expires :: "time option"
  jb_cancel :: bool
  jb_error :: "string option"
  jb_created :: time

record audit_entry =
  au_id :: ident
  au_ws :: ident
  au_actor :: string
  au_action :: string
  au_type :: string
  au_object :: string
  au_detail :: json
  au_previous :: "string option"
  au_hash :: string
  au_created :: time

section \<open>The database\<close>

record db =
  workspaces :: "workspace list"
  domains :: "domain_row list"
  sources :: "source_row list"
  records :: "source_record list"
  metas :: "observation_meta list"
  entities :: "entity list"
  objects :: "source_object list"
  runs :: "ingestion_run list"
  blocks :: "candidate_block list"
  history :: "membership list"
  masters :: "master_version list"
  tasks :: "review_task list"
  record_bans :: "link_ban list"
  object_bans :: "link_ban list"
  relationships :: "relationship list"
  configurations :: "configuration list"
  simulations :: "simulation list"
  events :: "outbox_event list"
  deliveries :: "delivery list"
  receipts :: "receipt list"
  jobs :: "job list"
  audits :: "audit_entry list"
  ticks :: nat

text \<open>The service object: its workspace and the principal it acts for.\<close>

record service =
  wid :: ident
  subject :: string
  roles :: "string list"

definition next_id :: "runtime \<Rightarrow> db \<Rightarrow> ident" where
  "next_id R s = uuid R (ticks s)"

definition next_time :: "runtime \<Rightarrow> db \<Rightarrow> time" where
  "next_time R s = clock R (ticks s)"

text \<open>
  An operation returns its value with the new database, or the exception it raises; the
  session then rolls back, so a failed operation leaves the database as it was.
\<close>

type_synonym 'a op = "db \<Rightarrow> ('a \<times> db) res"

definition commit_op :: "'a op \<Rightarrow> db \<Rightarrow> 'a res \<times> db" where
  "commit_op m s = (case m s of Inl e \<Rightarrow> (Inl e, s) | Inr (a, t) \<Rightarrow> (Inr a, t))"

lemma commit_op_Inr: "commit_op m s = (Inr a, t) \<longleftrightarrow> m s = Inr (a, t)"
  by (auto simp: commit_op_def split: sum.splits)

lemma commit_op_Inl: "commit_op m s = (Inl e, t) \<longleftrightarrow> m s = Inl e \<and> t = s"
  by (auto simp: commit_op_def split: sum.splits)

section \<open>Rows by id\<close>

text \<open>
  What the code relies on when it keeps a row by its primary key: \<open>get\<close> after \<open>add\<close> and after
  an assignment to one row. The tables with a primary key of their own provide it below.
\<close>

locale row_store =
  fixes key :: "'r \<Rightarrow> ident"
    and get :: "ident \<Rightarrow> 't \<Rightarrow> 'r option"
    and add :: "'r \<Rightarrow> 't \<Rightarrow> 't"
    and modify :: "ident \<Rightarrow> ('r \<Rightarrow> 'r) \<Rightarrow> 't \<Rightarrow> 't"
    and keys :: "'t \<Rightarrow> ident list"
  assumes get_None: "get i t = None \<longleftrightarrow> i \<notin> set (keys t)"
    and get_key: "get i t = Some r \<Longrightarrow> key r = i"
    and get_add: "key r \<notin> set (keys t) \<Longrightarrow> get i (add r t) = (if i = key r then Some r else get i t)"
    and keys_add: "keys (add r t) = keys t @ [key r]"
    and get_modify: "(\<And>r. key (f r) = key r) \<Longrightarrow>
      get j (modify i f t) = (if i = j then map_option f (get j t) else get j t)"
    and keys_modify: "(\<And>r. key (f r) = key r) \<Longrightarrow> keys (modify i f t) = keys t"
begin

lemma get_add_new: "key r \<notin> set (keys t) \<Longrightarrow> get (key r) (add r t) = Some r"
  by (simp add: get_add)

lemma get_add_old: "key r \<notin> set (keys t) \<Longrightarrow> get i t = Some q \<Longrightarrow> get i (add r t) = Some q"
  using get_None [of i t] by (auto simp: get_add)

lemma get_modify_same:
  "(\<And>r. key (f r) = key r) \<Longrightarrow> get i t = Some r \<Longrightarrow> get i (modify i f t) = Some (f r)"
  by (simp add: get_modify)

lemma get_modify_other:
  "(\<And>r. key (f r) = key r) \<Longrightarrow> i \<noteq> j \<Longrightarrow> get j (modify i f t) = get j t"
  by (simp add: get_modify)

lemma distinct_add: "distinct (keys t) \<Longrightarrow> key r \<notin> set (keys t) \<Longrightarrow> distinct (keys (add r t))"
  by (simp add: keys_add)

text \<open>A number that every change of a row keeps or raises only grows, whichever row changes.\<close>

lemma modify_mono:
  fixes v :: "'r \<Rightarrow> int"
  assumes "\<And>r. key (f r) = key r" "\<And>r. v r \<le> v (f r)" "get j t = Some r"
  shows "\<exists>r'. get j (modify i f t) = Some r' \<and> v r \<le> v r'"
  using assms by (auto simp: get_modify)

end

definition row_get :: "('r \<Rightarrow> ident) \<Rightarrow> ident \<Rightarrow> 'r list \<Rightarrow> 'r option" where
  "row_get key i rows = find (\<lambda>r. key r = i) rows"

definition row_add :: "'r \<Rightarrow> 'r list \<Rightarrow> 'r list" where
  "row_add r rows = rows @ [r]"

definition row_modify :: "('r \<Rightarrow> ident) \<Rightarrow> ident \<Rightarrow> ('r \<Rightarrow> 'r) \<Rightarrow> 'r list \<Rightarrow> 'r list" where
  "row_modify key i f rows = update_rows (\<lambda>r. key r = i) f rows"

lemma row_get_None: "row_get key i rows = None \<longleftrightarrow> i \<notin> set (map key rows)"
  by (auto simp: row_get_def find_None_iff)

lemma row_get_key: "row_get key i rows = Some r \<Longrightarrow> key r = i"
  by (auto simp: row_get_def dest: find_SomeD)

lemma row_get_mem: "row_get key i rows = Some r \<Longrightarrow> r \<in> set rows"
  by (auto simp: row_get_def dest: find_SomeD)

lemma row_get_distinct:
  "distinct (map key rows) \<Longrightarrow> r \<in> set rows \<Longrightarrow> row_get key (key r) rows = Some r"
  by (simp add: row_get_def find_distinct)

lemma row_get_add:
  "key r \<notin> set (map key rows) \<Longrightarrow>
   row_get key i (row_add r rows) = (if i = key r then Some r else row_get key i rows)"
  by (induction rows) (auto simp: row_get_def row_add_def)

lemma row_get_modify:
  "(\<And>r. key (f r) = key r) \<Longrightarrow>
   row_get key j (row_modify key i f rows) =
     (if i = j then map_option f (row_get key j rows) else row_get key j rows)"
  by (induction rows) (auto simp: row_get_def row_modify_def)

lemma row_keys_modify:
  "(\<And>r. key (f r) = key r) \<Longrightarrow> map key (row_modify key i f rows) = map key rows"
  by (simp add: row_modify_def update_rows_key)

lemma set_row_modify:
  "set (row_modify key i f rows) = (\<lambda>r. if key r = i then f r else r) ` set rows"
  by (simp add: row_modify_def set_update_rows)

lemma set_row_add [simp]: "set (row_add r rows) = insert r (set rows)"
  by (simp add: row_add_def)

lemma row_store_lists:
  "row_store key (row_get key) row_add (row_modify key) (map key)"
proof unfold_locales
  show "map key (row_add r t) = map key t @ [key r]" for r t by (simp add: row_add_def)
qed (simp_all add: row_get_None row_get_key row_get_add row_get_modify row_keys_modify)

text \<open>The keyed tables of the database.\<close>

interpretation entity_rows:
  row_store en_id "row_get en_id" row_add "row_modify en_id" "map en_id"
  by (rule row_store_lists)

interpretation object_rows:
  row_store ob_id "row_get ob_id" row_add "row_modify ob_id" "map ob_id"
  by (rule row_store_lists)

interpretation record_rows:
  row_store sr_id "row_get sr_id" row_add "row_modify sr_id" "map sr_id"
  by (rule row_store_lists)

interpretation task_rows:
  row_store rt_id "row_get rt_id" row_add "row_modify rt_id" "map rt_id"
  by (rule row_store_lists)

interpretation event_rows:
  row_store ev_id "row_get ev_id" row_add "row_modify ev_id" "map ev_id"
  by (rule row_store_lists)

interpretation job_rows:
  row_store jb_id "row_get jb_id" row_add "row_modify jb_id" "map jb_id"
  by (rule row_store_lists)

end
