(* ===== verification/AuditTrail.thy ===== *)
theory AuditTrail
  imports Tables
begin

text \<open>
  The audit trail (\<open>MasteringService.audit\<close>): every entry carries the hash of the entry before
  it in its workspace and the hash of its own document, which contains that hash. The prior
  entry is the one with the greatest creation time.
\<close>

section \<open>Writing an entry\<close>

definition optional :: "string option \<Rightarrow> json" where
  "optional x = (case x of None \<Rightarrow> JNull | Some s \<Rightarrow> JStr s)"

definition audit_document ::
    "ident \<Rightarrow> string \<Rightarrow> string \<Rightarrow> string \<Rightarrow> string \<Rightarrow> json \<Rightarrow> string option \<Rightarrow> json" where
  "audit_document ws actor action object_type object_id detail previous =
     JObj [(''workspace'', JStr ws), (''actor'', JStr actor), (''action'', JStr action),
           (''object_type'', JStr object_type), (''object_id'', JStr object_id),
           (''detail'', detail), (''previous_hash'', optional previous)]"

definition audit :: "runtime \<Rightarrow> service \<Rightarrow> string \<Rightarrow> string \<Rightarrow> string \<Rightarrow> json \<Rightarrow> db \<Rightarrow> db" where
  "audit R sv action object_type object_id detail s =
     (let prior = latest au_created (filter (\<lambda>e. au_ws e = wid sv) (audits s));
          previous = map_option au_hash prior
      in s\<lparr>audits := audits s @
             [\<lparr>au_id = next_id R s, au_ws = wid sv, au_actor = subject sv, au_action = action,
               au_type = object_type, au_object = object_id, au_detail = detail,
               au_previous = previous,
               au_hash = canonical_hash R
                 (audit_document (wid sv) (subject sv) action object_type object_id detail previous),
               au_created = next_time R s\<rparr>],
           ticks := Suc (ticks s)\<rparr>)"

lemma audit_frame [frame_simps]:
  "workspaces (audit R sv a ty i d s) = workspaces s" "domains (audit R sv a ty i d s) = domains s"
  "sources (audit R sv a ty i d s) = sources s" "records (audit R sv a ty i d s) = records s"
  "metas (audit R sv a ty i d s) = metas s" "entities (audit R sv a ty i d s) = entities s"
  "objects (audit R sv a ty i d s) = objects s" "runs (audit R sv a ty i d s) = runs s"
  "blocks (audit R sv a ty i d s) = blocks s" "history (audit R sv a ty i d s) = history s"
  "masters (audit R sv a ty i d s) = masters s" "tasks (audit R sv a ty i d s) = tasks s"
  "record_bans (audit R sv a ty i d s) = record_bans s"
  "object_bans (audit R sv a ty i d s) = object_bans s"
  "relationships (audit R sv a ty i d s) = relationships s"
  "configurations (audit R sv a ty i d s) = configurations s"
  "simulations (audit R sv a ty i d s) = simulations s"
  "events (audit R sv a ty i d s) = events s" "jobs (audit R sv a ty i d s) = jobs s"
  "ticks (audit R sv a ty i d s) = Suc (ticks s)"
  by (simp_all add: audit_def Let_def)

section \<open>Hash chains\<close>

text \<open>
  A chain of entries, each hashed with the hash before it. The only law an implementation
  promises is that the hashed document determines the previous hash and the content.
\<close>

locale hash_chain =
  fixes document :: "string option \<Rightarrow> 'c \<Rightarrow> json"
    and hash :: "json \<Rightarrow> string"
  assumes document_inject: "document p c = document q d \<Longrightarrow> p = q \<and> c = d"
begin

fun chained :: "string option \<Rightarrow> ('c \<times> string) list \<Rightarrow> bool" where
  "chained p [] \<longleftrightarrow> True"
| "chained p ((c, h) # es) \<longleftrightarrow> h = hash (document p c) \<and> chained (Some h) es"

text \<open>The documents that were hashed.\<close>

fun documents :: "string option \<Rightarrow> ('c \<times> string) list \<Rightarrow> json list" where
  "documents p [] = []"
| "documents p ((c, h) # es) = document p c # documents (Some h) es"

definition collide :: "('c \<times> string) list \<Rightarrow> ('c \<times> string) list \<Rightarrow> bool" where
  "collide xs ys \<longleftrightarrow> (\<exists>x \<in> set (documents None xs). \<exists>y \<in> set (documents None ys). x \<noteq> y \<and> hash x = hash y)"

lemma chained_snoc:
  "chained p (es @ [(c, h)]) \<longleftrightarrow>
   chained p es \<and> h = hash (document (if es = [] then p else Some (snd (last es))) c)"
  by (induction p es rule: chained.induct) auto

lemma documents_snoc:
  "documents p (es @ [(c, h)]) = documents p es @ [document (if es = [] then p else Some (snd (last es))) c]"
  by (induction p es rule: documents.induct) auto

text \<open>
  Two chains from the start that end in the same hash are the same, or two different documents of
  theirs, one of each, have one hash.
\<close>

lemma same_end:
  assumes "chained None xs" "chained None ys" "xs \<noteq> []" "ys \<noteq> []" "snd (last xs) = snd (last ys)"
  shows "xs = ys \<or> collide xs ys"
  using assms
proof (induction xs arbitrary: ys rule: rev_induct)
  case Nil
  then show ?case by simp
next
  case (snoc x xs)
  from snoc.prems(4) obtain zs y where ys: "ys = zs @ [y]" by (cases ys rule: rev_cases) auto
  obtain c h d k where x: "x = (c, h)" and y: "y = (d, k)" by (metis prod.exhaust)
  let ?p = "\<lambda>es. if es = [] then None else Some (snd (last es))"
  from snoc.prems ys x y have hs: "hash (document (?p xs) c) = hash (document (?p zs) d)" "h = k"
    and ch: "chained None xs" "chained None zs"
    by (auto simp: chained_snoc)
  show ?case
  proof (cases "document (?p xs) c = document (?p zs) d")
    case False
    with hs show ?thesis by (auto simp: collide_def documents_snoc x y ys)
  next
    case True
    with document_inject have same: "?p xs = ?p zs" "c = d" by blast+
    then have ends: "xs = [] \<longleftrightarrow> zs = []" by (auto split: if_splits)
    show ?thesis
    proof (cases "xs = []")
      case True
      with ends same(2) hs(2) x y ys show ?thesis by simp
    next
      case False
      with ends have "zs \<noteq> []" by auto
      with same(1) False have "snd (last xs) = snd (last zs)" by simp
      with snoc.IH [OF ch False \<open>zs \<noteq> []\<close>] have "xs = zs \<or> collide xs zs" by blast
      then show ?thesis
      proof
        assume "collide xs zs"
        then show ?thesis by (force simp: collide_def documents_snoc x y ys)
      qed (use same(2) hs(2) x y ys in simp)
    qed
  qed
qed

end

section \<open>The trail of a workspace\<close>

text \<open>What the hash of an entry covers: the columns, with the detail in canonical form.\<close>

type_synonym content = "ident \<times> string \<times> string \<times> string \<times> string \<times> json"

definition content :: "audit_entry \<Rightarrow> content" where
  "content e = (au_ws e, au_actor e, au_action e, au_type e, au_object e, canon (au_detail e))"

fun canonical_entry :: "string option \<Rightarrow> content \<Rightarrow> json" where
  "canonical_entry p (ws, actor, action, ty, ob, d) =
     JObj [(''action'', JStr action), (''actor'', JStr actor), (''detail'', d),
           (''object_id'', JStr ob), (''object_type'', JStr ty), (''previous_hash'', optional p),
           (''workspace'', JStr ws)]"

lemma canon_audit_document:
  "canon (audit_document ws actor action ty ob d p) =
   canonical_entry p (ws, actor, action, ty, ob, canon d)"
  by (cases p) (simp_all add: audit_document_def optional_def)

lemma optional_inject: "optional p = optional q \<longleftrightarrow> p = q"
  by (auto simp: optional_def split: option.splits)

interpretation audit_chain: hash_chain canonical_entry "digest R" for R :: runtime
proof
  show "p = q \<and> c = d" if "canonical_entry p c = canonical_entry q d" for p q c d
    using that by (cases c; cases d) (auto simp: optional_inject)
qed

definition entry_hashed :: "runtime \<Rightarrow> audit_entry \<Rightarrow> bool" where
  "entry_hashed R e \<longleftrightarrow> au_hash e = canonical_hash R
     (audit_document (au_ws e) (au_actor e) (au_action e) (au_type e) (au_object e) (au_detail e)
        (au_previous e))"

fun trail_ok :: "runtime \<Rightarrow> string option \<Rightarrow> audit_entry list \<Rightarrow> bool" where
  "trail_ok R p [] \<longleftrightarrow> True"
| "trail_ok R p (e # es) \<longleftrightarrow>
     au_previous e = p \<and> entry_hashed R e \<and> trail_ok R (Some (au_hash e)) es"

definition trail :: "ident \<Rightarrow> db \<Rightarrow> audit_entry list" where
  "trail ws s = filter (\<lambda>e. au_ws e = ws) (audits s)"

lemma trail_ok_snoc:
  "trail_ok R p (es @ [e]) \<longleftrightarrow> trail_ok R p es \<and> entry_hashed R e \<and>
     au_previous e = (if es = [] then p else Some (au_hash (last es)))"
  by (induction R p es rule: trail_ok.induct) auto

text \<open>The document an entry's hash is the digest of.\<close>

definition hashed_document :: "audit_entry \<Rightarrow> json" where
  "hashed_document e =
     canon (audit_document (au_ws e) (au_actor e) (au_action e) (au_type e) (au_object e) (au_detail e) (au_previous e))"

lemma trail_documents:
  "trail_ok R p es \<Longrightarrow> audit_chain.documents p (map (\<lambda>e. (content e, au_hash e)) es) = map hashed_document es"
  by (induction R p es rule: trail_ok.induct) (auto simp: hashed_document_def canon_audit_document content_def)

lemma trail_chained:
  "trail_ok R p es \<Longrightarrow> audit_chain.chained R p (map (\<lambda>e. (content e, au_hash e)) es)"
  by (induction R p es rule: trail_ok.induct)
    (auto simp: entry_hashed_def canonical_hash_def canon_audit_document content_def)

definition audit_ok :: "runtime \<Rightarrow> db \<Rightarrow> bool" where
  "audit_ok R s \<longleftrightarrow>
     (\<forall>ws. trail_ok R None (trail ws s)) \<and>
     sorted_wrt (\<lambda>x y. au_created x < au_created y) (audits s) \<and>
     (\<forall>e \<in> set (audits s). \<exists>k < ticks s. au_created e = clock R k)"

lemma audit_trail:
  "trail ws (audit R sv a ty i d s) =
     trail ws s @ filter (\<lambda>e. au_ws e = ws) [last (audits (audit R sv a ty i d s))]"
  by (simp add: trail_def audit_def Let_def)

lemma audit_ok_audit [inv_intros]:
  assumes "strict_mono (clock R)" "audit_ok R s"
  shows "audit_ok R (audit R sv a ty i d s)"
proof -
  let ?t = "audit R sv a ty i d s"
  define e where "e = last (audits ?t)"
  from assms(2) have trails: "trail_ok R None (trail ws s)"
    and sorted: "sorted_wrt (\<lambda>x y. au_created x < au_created y) (audits s)"
    and past: "x \<in> set (audits s) \<Longrightarrow> \<exists>k < ticks s. au_created x = clock R k" for ws x
    by (auto simp: audit_ok_def)
  have t: "audits ?t = audits s @ [e]" and ws: "au_ws e = wid sv"
    and time: "au_created e = clock R (ticks s)" and hashed: "entry_hashed R e"
    and prev: "au_previous e = map_option au_hash (latest au_created (trail (wid sv) s))"
    by (simp_all add: e_def audit_def Let_def trail_def entry_hashed_def next_time_def)
  have "sorted_wrt (\<lambda>x y. au_created x < au_created y) (trail (wid sv) s)"
    unfolding trail_def by (rule sorted_wrt_filter [OF sorted])
  then have "au_previous e =
      (if trail (wid sv) s = [] then None else Some (au_hash (last (trail (wid sv) s))))"
    using prev by (auto simp: latest_last)
  then have "trail_ok R None (trail w ?t)" for w
    using trails hashed ws by (simp add: audit_trail e_def [symmetric] trail_ok_snoc)
  moreover have "au_created x < au_created e" if "x \<in> set (audits s)" for x
    using past [OF that] time strict_monoD [OF assms(1)] by auto
  then have "sorted_wrt (\<lambda>x y. au_created x < au_created y) (audits ?t)"
    using sorted by (simp add: t sorted_wrt_append)
  moreover have "\<forall>x \<in> set (audits ?t). \<exists>k < ticks ?t. au_created x = clock R k"
    using past time by (auto simp: t frame_simps less_Suc_eq)
  ultimately show ?thesis by (simp add: audit_ok_def)
qed

text \<open>Operations that leave the trail alone and only move the clock on keep it intact.\<close>

lemma audit_ok_frame:
  assumes "audit_ok R s" "audits t = audits s" "ticks s \<le> ticks t"
  shows "audit_ok R t"
proof -
  have "\<exists>k < ticks t. au_created e = clock R k" if "e \<in> set (audits s)" for e
    using assms(1,3) that unfolding audit_ok_def by (meson order_less_le_trans)
  then show ?thesis using assms(1,2) by (simp add: audit_ok_def trail_def)
qed

section \<open>Properties\<close>

definition demo_service :: service where
  "demo_service = \<lparr>wid = ''w1'', subject = ''ana'', roles = [''steward'']\<rparr>"

definition empty_db :: db where
  "empty_db = \<lparr>workspaces = [], domains = [], sources = [], records = [], metas = [],
     entities = [], objects = [], runs = [], blocks = [], history = [], masters = [], tasks = [],
     record_bans = [], object_bans = [], relationships = [], configurations = [],
     simulations = [], events = [], deliveries = [], receipts = [], jobs = [], audits = [], ticks = 0\<rparr>"

lemma audit_ok_empty: "audit_ok R empty_db"
  by (simp add: audit_ok_def trail_def empty_db_def)

text \<open>
  Under a strictly increasing clock, writing an audit entry keeps every workspace's trail a
  hash chain: each entry names the hash of the entry before it and is hashed over its own
  document, the previous hash included.
\<close>

theorem audit_keeps_the_chain:
  assumes "strict_mono (clock R)" "audit_ok R s"
  shows "audit_ok R (audit R sv action object_type object_id detail s) \<and>
    trail_ok R None (trail ws (audit R sv action object_type object_id detail s))"
  using audit_ok_audit [OF assms] by (simp add: audit_ok_def)

theorem audit_keeps_the_chain_witness:
  "trail_ok ascii_runtime None (trail ''w1''
     (audit ascii_runtime demo_service ''a'' ''t'' ''i'' (JObj []) empty_db))"
  using audit_keeps_the_chain [OF ascii_clock audit_ok_empty] by blast

text \<open>
  C33. The trail is tamper evident: two trails that both verify and end in the same hash, whatever their
  lengths, agree in every audited column, or an entry of the one and an entry of the other have different
  documents with the same SHA-256 digest. Whoever rewrites history under a kept last hash has such a pair
  among the entries he wrote.
\<close>

theorem audit_tampering_needs_a_collision:
  assumes "trail_ok R None xs" "trail_ok R None ys" "xs \<noteq> []" "ys \<noteq> []" "au_hash (last xs) = au_hash (last ys)"
  shows "map content xs = map content ys \<or>
    (\<exists>x \<in> set xs. \<exists>y \<in> set ys. hashed_document x \<noteq> hashed_document y \<and>
       digest R (hashed_document x) = digest R (hashed_document y))"
proof -
  let ?l = "map (\<lambda>e. (content e, au_hash e))"
  have "?l xs = ?l ys \<or> audit_chain.collide R (?l xs) (?l ys)"
    using assms by (intro audit_chain.same_end) (simp_all add: trail_chained last_map)
  then show ?thesis
  proof
    assume "?l xs = ?l ys"
    then have "map fst (?l xs) = map fst (?l ys)" by (rule arg_cong)
    then show ?thesis by (simp add: comp_def)
  qed (auto simp: audit_chain.collide_def trail_documents [OF assms(1)] trail_documents [OF assms(2)])
qed

text \<open>Under a digest that maps everything to one text a rewritten trail of another length passes, and the pair shows.\<close>

definition flat_runtime :: runtime where
  "flat_runtime = ascii_runtime\<lparr>digest := \<lambda>_. ''h''\<rparr>"

definition one_entry :: "string \<Rightarrow> db \<Rightarrow> db" where
  "one_entry what = audit flat_runtime demo_service what ''t'' ''i'' (JObj [])"

lemma one_entry_ok: "audit_ok flat_runtime s \<Longrightarrow> audit_ok flat_runtime (one_entry what s)"
  using audit_ok_audit [of flat_runtime s] ascii_clock by (simp add: one_entry_def flat_runtime_def)

theorem audit_tampering_needs_a_collision_witness:
  "\<exists>xs ys. xs = trail ''w1'' (one_entry ''approved'' empty_db) \<and>
     ys = trail ''w1'' (one_entry ''rejected'' (one_entry ''opened'' empty_db)) \<and> au_hash (last xs) = au_hash (last ys) \<and>
     map content xs \<noteq> map content ys \<and>
     (\<exists>x \<in> set xs. \<exists>y \<in> set ys. hashed_document x \<noteq> hashed_document y)"
proof -
  let ?xs = "trail ''w1'' (one_entry ''approved'' empty_db)"
  let ?ys = "trail ''w1'' (one_entry ''rejected'' (one_entry ''opened'' empty_db))"
  have empty: "audit_ok flat_runtime empty_db" by (simp add: audit_ok_def trail_def empty_db_def)
  have ok: "trail_ok flat_runtime None ?xs" "trail_ok flat_runtime None ?ys"
    using one_entry_ok [OF empty] one_entry_ok [OF one_entry_ok [OF empty]] by (simp_all add: audit_ok_def)
  have len: "length ?xs = 1" "length ?ys = 2"
    by (simp_all add: trail_def one_entry_def audit_def Let_def demo_service_def empty_db_def)
  then have ne: "?xs \<noteq> []" "?ys \<noteq> []" "map content ?xs \<noteq> map content ?ys" by (auto dest: arg_cong [of _ _ length])
  have last: "au_hash (last ?xs) = au_hash (last ?ys)"
    by (simp add: trail_def one_entry_def audit_def Let_def demo_service_def empty_db_def canonical_hash_def flat_runtime_def)
  from audit_tampering_needs_a_collision [OF ok ne(1,2) last] ne(3)
  show ?thesis by (intro exI [of _ ?xs] exI [of _ ?ys]) (use last in blast)
qed

text \<open>
  A clock that stands still for two writes forks the chain: the third entry links to the first
  one, whose creation time equals the second's.
\<close>

lemma audit_chain_forks_on_equal_times:
  defines "R \<equiv> ascii_runtime\<lparr>clock := \<lambda>_. 0\<rparr>"
  defines "w \<equiv> \<lambda>i. audit R demo_service ''a'' ''t'' i (JObj [])"
  shows "map au_previous (audits (w ''3'' (w ''2'' (w ''1'' empty_db)))) =
    (let h = au_hash (hd (audits (w ''1'' empty_db))) in [None, Some h, Some h])"
  by (simp add: R_def w_def audit_def Let_def demo_service_def empty_db_def next_time_def)

end
