(* ===== verification/Membership.thy ===== *)
theory Membership
  imports AuditTrail
begin

text \<open>
  Source objects and their membership in entities (\<open>_get_or_create_source_object\<close>,
  \<open>_observation_is_current\<close>, \<open>_set_membership\<close>, \<open>_current_records\<close>, \<open>_is_cannot_link\<close>). A loaded
  row is named by its id, and an assignment to it changes the row of its table.
\<close>

section \<open>Observations\<close>

record incoming =
  in_local :: string
  in_version :: string
  in_values :: dict
  in_verification :: dict
  in_effective :: "time option"
  in_sequence :: "int option"
  in_mode :: update_mode
  in_deleted :: bool

definition observation_is_current :: "source_object \<Rightarrow> incoming \<Rightarrow> bool" where
  "observation_is_current ob item =
     (case (in_sequence item, ob_sequence ob) of
        (Some n, Some m) \<Rightarrow> m < n
      | (Some n, None) \<Rightarrow> True
      | (None, _) \<Rightarrow>
          (case (in_effective item, ob_effective ob) of
             (Some t, Some u) \<Rightarrow> u < t
           | _ \<Rightarrow> True))"

section \<open>Source objects\<close>

definition find_object :: "service \<Rightarrow> ident \<Rightarrow> string \<Rightarrow> string \<Rightarrow> db \<Rightarrow> source_object option" where
  "find_object sv source domain local s =
     find (\<lambda>b. ob_ws b = wid sv \<and> ob_source b = source \<and> ob_domain b = domain \<and> ob_local b = local)
       (objects s)"

definition legacy_record ::
    "service \<Rightarrow> ident \<Rightarrow> string \<Rightarrow> string \<Rightarrow> db \<Rightarrow> source_record option" where
  "legacy_record sv source domain local s =
     latest (\<lambda>r. (sr_observed r, sr_id r))
       (filter (\<lambda>r. sr_ws r = wid sv \<and> sr_source r = source \<and> sr_domain r = domain \<and>
                    sr_local r = local) (records s))"

definition new_object ::
    "runtime \<Rightarrow> service \<Rightarrow> ident \<Rightarrow> string \<Rightarrow> string \<Rightarrow> db \<Rightarrow> source_object" where
  "new_object R sv source domain local s =
     (let legacy = legacy_record sv source domain local s in
      \<lparr>ob_id = next_id R s, ob_ws = wid sv, ob_source = source, ob_domain = domain,
       ob_local = local,
       ob_entity = Option.bind legacy sr_entity,
       ob_current = Option.bind legacy (\<lambda>r. if sr_state r = Valid then Some (sr_id r) else None),
       ob_latest = map_option sr_id legacy,
       ob_sequence = None, ob_effective = None,
       ob_retired = (case legacy of None \<Rightarrow> False | Some r \<Rightarrow> sr_state r = Deleted)\<rparr>)"

definition open_membership ::
    "runtime \<Rightarrow> ident \<Rightarrow> ident \<Rightarrow> ident \<Rightarrow> string \<Rightarrow> string \<Rightarrow> db \<Rightarrow> db" where
  "open_membership R ws ob en reason by s =
     s\<lparr>history := row_add
         \<lparr>mh_id = next_id R s, mh_ws = ws, mh_object = ob, mh_entity = en, mh_from = next_time R s,
          mh_to = None, mh_reason = reason, mh_by = by\<rparr> (history s),
       ticks := Suc (ticks s)\<rparr>"

definition get_or_create_object ::
    "runtime \<Rightarrow> service \<Rightarrow> ident \<Rightarrow> string \<Rightarrow> string \<Rightarrow> db \<Rightarrow> source_object \<times> db" where
  "get_or_create_object R sv source domain local s =
     (case find_object sv source domain local s of
        Some b \<Rightarrow> (b, s)
      | None \<Rightarrow>
          (let b = new_object R sv source domain local s;
               s1 = s\<lparr>objects := row_add b (objects s), ticks := Suc (ticks s)\<rparr>
           in (b, case ob_entity b of
                    None \<Rightarrow> s1
                  | Some e \<Rightarrow>
                      open_membership R (wid sv) (ob_id b) e ''legacy_backfill''
                        ''recordlane-migration'' s1)))"

section \<open>Changing the membership\<close>

definition open_rows :: "ident \<Rightarrow> ident \<Rightarrow> db \<Rightarrow> membership list" where
  "open_rows ws ob s = filter (\<lambda>h. mh_ws h = ws \<and> mh_object h = ob \<and> mh_to h = None) (history s)"

definition close_membership :: "runtime \<Rightarrow> ident \<Rightarrow> db \<Rightarrow> db" where
  "close_membership R i s =
     s\<lparr>history := row_modify mh_id i (\<lambda>h. h\<lparr>mh_to := Some (next_time R s)\<rparr>) (history s),
       ticks := Suc (ticks s)\<rparr>"

definition modify_object :: "ident \<Rightarrow> (source_object \<Rightarrow> source_object) \<Rightarrow> db \<Rightarrow> db" where
  "modify_object i f s = s\<lparr>objects := row_modify ob_id i f (objects s)\<rparr>"

definition set_membership ::
    "runtime \<Rightarrow> service \<Rightarrow> ident \<Rightarrow> ident \<Rightarrow> string \<Rightarrow> db \<Rightarrow> db" where
  "set_membership R sv ob en reason s =
     (if Option.bind (row_get ob_id ob (objects s)) ob_entity = Some en then s
      else
        let s1 = (case latest mh_from (open_rows (wid sv) ob s) of
                    None \<Rightarrow> s
                  | Some h \<Rightarrow> close_membership R (mh_id h) s);
            s2 = modify_object ob (\<lambda>b. b\<lparr>ob_entity := Some en\<rparr>) s1
        in open_membership R (wid sv) ob en reason (subject sv) s2)"

section \<open>Queries\<close>

definition current_records :: "service \<Rightarrow> ident \<Rightarrow> db \<Rightarrow> source_record list" where
  "current_records sv en s =
     concat (map (\<lambda>r. map (\<lambda>_. r)
       (filter (\<lambda>b. ob_current b = Some (sr_id r) \<and> sr_ws r = wid sv \<and> sr_state r = Valid \<and>
                    \<not> ob_retired b \<and> ob_entity b = Some en) (objects s))) (records s))"

definition is_cannot_link :: "service \<Rightarrow> ident \<Rightarrow> ident \<Rightarrow> db \<Rightarrow> bool" where
  "is_cannot_link sv left right s =
     (let (a, b) = sorted_pair left right in
      \<exists>l \<in> set (object_bans s). lb_ws l = wid sv \<and> lb_left l = a \<and> lb_right l = b)"

lemma is_cannot_link_commute: "is_cannot_link sv a b s = is_cannot_link sv b a s"
  by (simp add: is_cannot_link_def sorted_pair_commute)

lemma current_records_mem:
  "r \<in> set (current_records sv en s) \<longleftrightarrow>
   r \<in> set (records s) \<and> sr_ws r = wid sv \<and> sr_state r = Valid \<and>
   (\<exists>b \<in> set (objects s). ob_current b = Some (sr_id r) \<and> \<not> ob_retired b \<and> ob_entity b = Some en)"
  by (auto simp: current_records_def)

section \<open>The membership invariant\<close>

text \<open>
  Ids are drawn from the past, every object's open history rows are exactly its entity, and
  every history row belongs to an object of the same workspace.
\<close>

definition drawn :: "runtime \<Rightarrow> db \<Rightarrow> ident \<Rightarrow> bool" where
  "drawn R s i \<longleftrightarrow> (\<exists>k < ticks s. i = uuid R k)"

definition as_list :: "'a option \<Rightarrow> 'a list" where
  "as_list x = (case x of None \<Rightarrow> [] | Some y \<Rightarrow> [y])"

definition members :: "db \<Rightarrow> (ident \<times> ident \<times> ident option) list" where
  "members s = map (\<lambda>b. (ob_id b, ob_ws b, ob_entity b)) (objects s)"

definition open_entities :: "ident \<Rightarrow> db \<Rightarrow> ident list" where
  "open_entities i s = map mh_entity (filter (\<lambda>h. mh_object h = i \<and> mh_to h = None) (history s))"

definition membership_ok :: "runtime \<Rightarrow> db \<Rightarrow> bool" where
  "membership_ok R s \<longleftrightarrow>
     distinct (map fst (members s)) \<and> distinct (map mh_id (history s)) \<and>
     (\<forall>(i, w, e) \<in> set (members s). drawn R s i \<and> open_entities i s = as_list e) \<and>
     (\<forall>h \<in> set (history s). drawn R s (mh_id h) \<and>
        (\<exists>e. (mh_object h, mh_ws h, e) \<in> set (members s)))"

lemma drawn_mono: "drawn R s i \<Longrightarrow> ticks s \<le> ticks t \<Longrightarrow> drawn R t i"
  unfolding drawn_def by (metis order_less_le_trans)

lemma drawn_next: "ticks s < ticks t \<Longrightarrow> drawn R t (next_id R s)"
  by (auto simp: drawn_def next_id_def)

lemma next_not_drawn: "inj (uuid R) \<Longrightarrow> drawn R s i \<Longrightarrow> i \<noteq> next_id R s"
  by (auto simp: drawn_def next_id_def inj_eq)

text \<open>Changes of other columns, and of other tables, do not matter.\<close>

lemma membership_ok_frame:
  assumes "membership_ok R s" "history t = history s" "ticks s \<le> ticks t" "members t = members s"
  shows "membership_ok R t"
  using assms(1) drawn_mono [OF _ assms(3)]
  unfolding membership_ok_def open_entities_def assms(2,4) by fast

lemma members_modify_object:
  "(\<And>b. ob_id (f b) = ob_id b \<and> ob_ws (f b) = ob_ws b \<and> ob_entity (f b) = ob_entity b) \<Longrightarrow>
   members (modify_object i f s) = members s"
  by (simp add: members_def modify_object_def row_modify_def update_rows_def)

lemma members_set_entity:
  "members (modify_object i (\<lambda>b. b\<lparr>ob_entity := Some e\<rparr>) s) =
   map (\<lambda>(j, w, e'). (j, w, if j = i then Some e else e')) (members s)"
  by (simp add: members_def modify_object_def row_modify_def update_rows_def)

lemma member_entity:
  assumes "membership_ok R s" "(i, w, e) \<in> set (members s)"
  shows "Option.bind (row_get ob_id i (objects s)) ob_entity = e"
proof -
  from assms(2) obtain b where b: "b \<in> set (objects s)" "ob_id b = i" "ob_entity b = e"
    by (auto simp: members_def)
  from assms(1) have "distinct (map ob_id (objects s))"
    by (simp add: membership_ok_def members_def comp_def)
  with b show ?thesis using row_get_distinct by force
qed

section \<open>Every operation keeps the invariant\<close>

lemma open_entities_frame: "history t = history s \<Longrightarrow> open_entities i t = open_entities i s"
  by (simp add: open_entities_def)

lemma open_entities_open:
  "open_entities i (open_membership R w j e reason by s) =
   open_entities i s @ (if i = j then [e] else [])"
  by (simp add: open_entities_def open_membership_def row_add_def)

text \<open>An object whose rows are all closed takes a new open row.\<close>

lemma membership_ok_open:
  assumes inj: "inj (uuid R)" and ids: "distinct (map fst (members s))"
    and hids: "distinct (map mh_id (history s))"
    and opn: "\<forall>(i, w, e') \<in> set (members s). drawn R s i \<and>
      open_entities i s = (if i = j then [] else as_list e') \<and> (i = j \<longrightarrow> w = ws \<and> e' = Some e)"
    and rows: "\<forall>h \<in> set (history s). drawn R s (mh_id h) \<and>
        (\<exists>e. (mh_object h, mh_ws h, e) \<in> set (members s))"
    and mem: "j \<in> fst ` set (members s)"
  shows "membership_ok R (open_membership R ws j e reason by s)"
proof -
  let ?t = "open_membership R ws j e reason by s"
  have t: "members ?t = members s" "ticks s < ticks ?t"
    "history ?t = row_add \<lparr>mh_id = next_id R s, mh_ws = ws, mh_object = j, mh_entity = e,
       mh_from = next_time R s, mh_to = None, mh_reason = reason, mh_by = by\<rparr> (history s)"
    by (simp_all add: members_def open_membership_def)
  have old: "drawn R s i \<Longrightarrow> drawn R ?t i" for i using t(2) by (auto intro: drawn_mono)
  have hid: "next_id R s \<notin> mh_id ` set (history s)" using rows next_not_drawn [OF inj] by fastforce
  have own: "\<exists>e. (j, ws, e) \<in> set (members s)" using mem opn by fastforce
  show ?thesis
    unfolding membership_ok_def t(1)
  proof (intro conjI)
    show "distinct (map mh_id (history ?t))" using hids hid by (simp add: t(3) row_add_def)
    show "\<forall>(i, w, e) \<in> set (members s). drawn R ?t i \<and> open_entities i ?t = as_list e"
    proof clarify
      fix i w e' assume m: "(i, w, e') \<in> set (members s)"
      with opn have "drawn R s i" "open_entities i s = (if i = j then [] else as_list e')"
        "i = j \<longrightarrow> w = ws \<and> e' = Some e" by auto
      then show "drawn R ?t i \<and> open_entities i ?t = as_list e'"
        using old by (auto simp: open_entities_open as_list_def)
    qed
    show "\<forall>h \<in> set (history ?t). drawn R ?t (mh_id h) \<and>
        (\<exists>e. (mh_object h, mh_ws h, e) \<in> set (members s))"
      using rows old own drawn_next [OF t(2)] by (auto simp: t(3))
  qed (rule ids)
qed


lemma close_one:
  assumes "distinct (map mh_id hs)" "filter (\<lambda>h. mh_object h = i \<and> mh_to h = None) hs = [h]"
  shows "filter (\<lambda>r. mh_object r = j \<and> mh_to r = None)
      (row_modify mh_id (mh_id h) (\<lambda>r. r\<lparr>mh_to := Some t\<rparr>) hs) =
    (if j = i then [] else filter (\<lambda>r. mh_object r = j \<and> mh_to r = None) hs)"
proof -
  have h: "h \<in> set hs" "mh_object h = i" using arg_cong [OF assms(2), of set] by auto
  have only: "r = h" if "r \<in> set hs" "mh_id r = mh_id h" for r
    using find_key_unique [OF assms(1) that(1) h(1) that(2)] .
  have rest: "r = h" if "r \<in> set hs" "mh_object r = i" "mh_to r = None" for r
    using arg_cong [OF assms(2), of set] that by auto
  show ?thesis
  proof (cases "j = i")
    case True
    then show ?thesis using rest by (auto simp: filter_empty_conv set_row_modify)
  next
    case False
    have "filter (\<lambda>r. mh_object r = j \<and> mh_to r = None) (row_modify mh_id (mh_id h) f rs) =
        filter (\<lambda>r. mh_object r = j \<and> mh_to r = None) rs"
      if "set rs \<subseteq> set hs" "\<And>r. mh_object (f r) = mh_object r" for rs f
      using that(1)
    proof (induction rs)
      case Nil
      then show ?case by (simp add: row_modify_def)
    next
      case (Cons r rs)
      have "mh_id r = mh_id h \<Longrightarrow> mh_object r = i" using only Cons.prems h(2) by auto
      with Cons False that(2) show ?case by (simp add: row_modify_def)
    qed
    with False show ?thesis by simp
  qed
qed

lemma open_rows_eq:
  assumes "membership_ok R s" "(i, w, e) \<in> set (members s)"
  shows "open_rows w i s = filter (\<lambda>h. mh_object h = i \<and> mh_to h = None) (history s)"
  unfolding open_rows_def
proof (rule filter_cong)
  fix h assume "h \<in> set (history s)"
  with assms(1) obtain e' where "(mh_object h, mh_ws h, e') \<in> set (members s)"
    by (auto simp: membership_ok_def)
  with assms have "mh_object h = i \<Longrightarrow> mh_ws h = w"
    unfolding membership_ok_def by (metis eq_key_imp_eq_value Pair_inject)
  then show "(mh_ws h = w \<and> mh_object h = i \<and> mh_to h = None) = (mh_object h = i \<and> mh_to h = None)"
    by blast
qed simp

lemma close_membership_frame:
  "objects (close_membership R i s) = objects s" "ticks (close_membership R i s) = Suc (ticks s)"
  "map mh_id (history (close_membership R i s)) = map mh_id (history s)"
  "history (close_membership R i s) =
     map (\<lambda>h. if mh_id h = i then h\<lparr>mh_to := Some (next_time R s)\<rparr> else h) (history s)"
  by (simp_all add: close_membership_def row_keys_modify) (simp add: row_modify_def update_rows_def)

lemma close_membership_all:
  assumes "\<And>h t. P (h\<lparr>mh_to := t\<rparr>) = P h"
  shows "(\<forall>h \<in> set (history (close_membership R i s)). P h) \<longleftrightarrow> (\<forall>h \<in> set (history s). P h)"
proof -
  have "P (if c then h\<lparr>mh_to := t\<rparr> else h) = P h" for c h t using assms by simp
  then show ?thesis
    unfolding close_membership_frame(4) by (simp only: set_map ball_simps)
qed

text \<open>\<open>_set_membership\<close> keeps the invariant and moves exactly the one object.\<close>

lemma set_membership_ok [inv_intros]:
  assumes inj: "inj (uuid R)" and ok: "membership_ok R s" and mem: "(i, wid sv, e) \<in> set (members s)"
  shows "membership_ok R (set_membership R sv i en reason s)"
proof (cases "e = Some en")
  case True
  then have "set_membership R sv i en reason s = s"
    by (simp add: set_membership_def member_entity [OF ok mem])
  with ok show ?thesis by simp
next
  case False
  from ok have ids: "distinct (map fst (members s))" and hids: "distinct (map mh_id (history s))"
    and each: "(j, w, e') \<in> set (members s) \<Longrightarrow> drawn R s j \<and> open_entities j s = as_list e'"
    and hist: "h \<in> set (history s) \<Longrightarrow> drawn R s (mh_id h) \<and>
      (\<exists>e. (mh_object h, mh_ws h, e) \<in> set (members s))" for j w e' h
    by (auto simp: membership_ok_def)
  let ?open = "\<lambda>s j. filter (\<lambda>h. mh_object h = j \<and> mh_to h = None) (history s)"
  have rows: "open_rows (wid sv) i s = ?open s i" by (rule open_rows_eq [OF ok mem])
  define s1 where "s1 = (case latest mh_from (open_rows (wid sv) i s) of
      None \<Rightarrow> s | Some h \<Rightarrow> close_membership R (mh_id h) s)"
  define s2 where "s2 = modify_object i (\<lambda>b. b\<lparr>ob_entity := Some en\<rparr>) s1"
  have result: "set_membership R sv i en reason s = open_membership R (wid sv) i en reason (subject sv) s2"
    using False by (simp add: set_membership_def member_entity [OF ok mem] s1_def s2_def)
  have or: "s1 = s \<or> (\<exists>h. s1 = close_membership R h s)"
    unfolding s1_def by (cases "latest mh_from (open_rows (wid sv) i s)") auto
  then have s1: "objects s1 = objects s" "ticks s \<le> ticks s1"
    "map mh_id (history s1) = map mh_id (history s)"
    by (auto simp only: close_membership_frame(1,2,3))
  have keep: "(\<forall>h \<in> set (history s1). P h) \<longleftrightarrow> (\<forall>h \<in> set (history s). P h)"
    if "\<And>h t. P (h\<lparr>mh_to := t\<rparr>) = P h" for P
    using or close_membership_all [of P, OF that] by auto
  have opened: "?open s1 j = (if j = i then [] else ?open s j)" for j
  proof (cases "?open s i")
    case Nil
    then show ?thesis by (simp add: s1_def rows)
  next
    case (Cons h hs)
    have "length (?open s i) \<le> 1"
      using each [OF mem] arg_cong [of "open_entities i s" _ length]
      by (auto simp: open_entities_def as_list_def split: option.splits)
    with Cons have one: "?open s i = [h]" by simp
    then show ?thesis
      using close_one [OF hids one] by (simp add: s1_def rows close_membership_def)
  qed
  have m2: "members s2 = map (\<lambda>(j, w, e'). (j, w, if j = i then Some en else e')) (members s)"
    using s1(1) unfolding s2_def members_set_entity by (simp add: members_def)
  have h2: "history s2 = history s1" and t2: "ticks s2 = ticks s1"
    by (simp_all add: s2_def modify_object_def)
  have fst2: "map fst (members s2) = map fst (members s)" by (auto simp: m2)
  have only: "w = wid sv" if "(i, w, e') \<in> set (members s)" for w e'
    using eq_key_imp_eq_value [OF ids that mem] by simp
  show ?thesis
    unfolding result
  proof (rule membership_ok_open [OF inj])
    show "distinct (map fst (members s2))" using ids by (simp only: fst2)
    show "distinct (map mh_id (history s2))" using hids by (simp only: h2 s1(3))
    show "\<forall>(j, w, e') \<in> set (members s2). drawn R s2 j \<and>
        open_entities j s2 = (if j = i then [] else as_list e') \<and> (j = i \<longrightarrow> w = wid sv \<and> e' = Some en)"
    proof clarify
      fix j w e' assume "(j, w, e') \<in> set (members s2)"
      then obtain e0 where m: "(j, w, e0) \<in> set (members s)" and e': "e' = (if j = i then Some en else e0)"
        by (auto simp: m2)
      from each [OF m] have d: "drawn R s2 j" and o: "open_entities j s = as_list e0"
        using drawn_mono [of R s j s2] s1(2) t2 by auto
      have "open_entities j s2 = (if j = i then [] else open_entities j s)"
        unfolding open_entities_def h2 opened by simp
      with d o e' m only show "drawn R s2 j \<and>
          open_entities j s2 = (if j = i then [] else as_list e') \<and> (j = i \<longrightarrow> w = wid sv \<and> e' = Some en)"
        by simp blast
    qed
    have "\<forall>h \<in> set (history s1). drawn R s2 (mh_id h) \<and>
        (\<exists>e. (mh_object h, mh_ws h, e) \<in> set (members s2))"
    proof (subst keep)
      show "\<forall>h \<in> set (history s). drawn R s2 (mh_id h) \<and>
          (\<exists>e. (mh_object h, mh_ws h, e) \<in> set (members s2))"
      proof
        fix h assume "h \<in> set (history s)"
        from hist [OF this] obtain e0 where "drawn R s (mh_id h)"
          "(mh_object h, mh_ws h, e0) \<in> set (members s)" by blast
        then show "drawn R s2 (mh_id h) \<and> (\<exists>e. (mh_object h, mh_ws h, e) \<in> set (members s2))"
          using drawn_mono [of R s _ s2] s1(2) t2 by (force simp: m2)
      qed
    qed simp
    then show "\<forall>h \<in> set (history s2). drawn R s2 (mh_id h) \<and>
        (\<exists>e. (mh_object h, mh_ws h, e) \<in> set (members s2))" by (simp only: h2)
    show "i \<in> fst ` set (members s2)"
      using mem arg_cong [OF fst2, of set] by (force simp: image_iff)
  qed
qed


lemma members_open_membership [simp]: "members (open_membership R w j e reason by s) = members s"
  by (simp add: members_def open_membership_def)

lemma members_close_membership [simp]: "members (close_membership R i s) = members s"
  by (simp add: members_def close_membership_def)

lemma set_membership_members:
  assumes "membership_ok R s" "(i, w, e) \<in> set (members s)"
  shows "members (set_membership R sv i en reason s) =
    map (\<lambda>(j, w, e'). (j, w, if j = i then Some en else e')) (members s)"
proof (cases "e = Some en")
  case True
  have "(\<lambda>(j, w, e'). (j, w, if j = i then Some en else e')) m = m" if "m \<in> set (members s)" for m
  proof -
    obtain j v e' where m: "m = (j, v, e')" by (cases m)
    have "j = i \<Longrightarrow> (v, e') = (w, e)"
      using assms that unfolding m membership_ok_def by (metis eq_key_imp_eq_value)
    with True show ?thesis by (simp add: m)
  qed
  then have "map (\<lambda>(j, w, e'). (j, w, if j = i then Some en else e')) (members s) = members s"
    by (simp add: map_idI)
  with True show ?thesis by (simp add: set_membership_def member_entity [OF assms])
next
  case False
  define s1 where "s1 = (case latest mh_from (open_rows (wid sv) i s) of
      None \<Rightarrow> s | Some h \<Rightarrow> close_membership R (mh_id h) s)"
  have "members s1 = members s" by (simp add: s1_def split: option.split)
  moreover have "set_membership R sv i en reason s = open_membership R (wid sv) i en reason (subject sv)
      (modify_object i (\<lambda>b. b\<lparr>ob_entity := Some en\<rparr>) s1)"
    using False by (simp add: set_membership_def member_entity [OF assms] s1_def)
  ultimately show ?thesis by (simp add: members_set_entity)
qed

text \<open>Rows that are closed stay as they are: the past of a membership is never rewritten.\<close>

lemma set_membership_keeps_closed:
  assumes ok: "membership_ok R s" and h: "h \<in> set (history s)" "mh_to h = Some t"
  shows "h \<in> set (history (set_membership R sv i en reason s))"
proof -
  define s1 where "s1 = (case latest mh_from (open_rows (wid sv) i s) of
      None \<Rightarrow> s | Some h \<Rightarrow> close_membership R (mh_id h) s)"
  have "h \<in> set (history s1)"
  proof (cases "latest mh_from (open_rows (wid sv) i s)")
    case None
    with h show ?thesis by (simp add: s1_def)
  next
    case (Some g)
    then have g: "g \<in> set (history s)" "mh_to g = None"
      by (auto dest!: latest_mem simp: open_rows_def)
    then have "mh_id h \<noteq> mh_id g"
      using find_key_unique [of mh_id "history s" h g] ok h by (auto simp: membership_ok_def)
    with h Some show ?thesis by (force simp: s1_def close_membership_frame)
  qed
  then show ?thesis using h(1)
    by (auto simp: set_membership_def s1_def [symmetric] Let_def open_membership_def modify_object_def)
qed

lemma set_membership_frame [frame_simps]:
  "workspaces (set_membership R sv i e r s) = workspaces s"
  "domains (set_membership R sv i e r s) = domains s"
  "sources (set_membership R sv i e r s) = sources s"
  "records (set_membership R sv i e r s) = records s"
  "metas (set_membership R sv i e r s) = metas s"
  "entities (set_membership R sv i e r s) = entities s"
  "runs (set_membership R sv i e r s) = runs s"
  "blocks (set_membership R sv i e r s) = blocks s"
  "masters (set_membership R sv i e r s) = masters s"
  "tasks (set_membership R sv i e r s) = tasks s"
  "record_bans (set_membership R sv i e r s) = record_bans s"
  "object_bans (set_membership R sv i e r s) = object_bans s"
  "relationships (set_membership R sv i e r s) = relationships s"
  "configurations (set_membership R sv i e r s) = configurations s"
  "simulations (set_membership R sv i e r s) = simulations s"
  "events (set_membership R sv i e r s) = events s"
  "jobs (set_membership R sv i e r s) = jobs s"
  "audits (set_membership R sv i e r s) = audits s"
  by (simp_all add: set_membership_def Let_def close_membership_def modify_object_def
      open_membership_def split: option.split)

lemma set_membership_ticks: "ticks s \<le> ticks (set_membership R sv i e r s)"
  by (simp add: set_membership_def Let_def close_membership_def modify_object_def
      open_membership_def split: option.split)

text \<open>Finding or creating the object of a source key.\<close>

lemma membership_ok_new_object:
  assumes inj: "inj (uuid R)" and ok: "membership_ok R s"
    and b: "ob_id b = next_id R s" "ob_ws b = wid sv"
    and t: "t = s\<lparr>objects := row_add b (objects s), ticks := Suc (ticks s)\<rparr>"
  shows "membership_ok R (case ob_entity b of None \<Rightarrow> t
    | Some e \<Rightarrow> open_membership R (wid sv) (ob_id b) e reason by t)"
proof -
  from ok have ids: "distinct (map fst (members s))" and hids: "distinct (map mh_id (history s))"
    and each: "(j, w, e') \<in> set (members s) \<Longrightarrow> drawn R s j \<and> open_entities j s = as_list e'"
    and hist: "h \<in> set (history s) \<Longrightarrow> drawn R s (mh_id h) \<and>
      (\<exists>e. (mh_object h, mh_ws h, e) \<in> set (members s))" for j w e' h
    by (auto simp: membership_ok_def)
  have mem: "members t = members s @ [(ob_id b, wid sv, ob_entity b)]" and h: "history t = history s"
    and tk: "ticks s < ticks t"
    using b by (simp_all add: t members_def row_add_def)
  have old: "drawn R s i \<Longrightarrow> drawn R t i" for i using tk by (auto intro: drawn_mono)
  have new: "j \<noteq> ob_id b" if "(j, w, e') \<in> set (members s)" for j w e'
    using each [OF that] next_not_drawn [OF inj] b(1) by auto
  have none: "open_entities (ob_id b) s = []"
    using hist new unfolding open_entities_def filter_empty_conv map_is_Nil_conv by metis
  have ids': "distinct (map fst (members t))"
  proof -
    have "ob_id b \<notin> fst ` set (members s)" using new by force
    then show ?thesis using ids by (simp add: mem)
  qed
  have rows: "\<forall>h \<in> set (history t). drawn R t (mh_id h) \<and>
      (\<exists>e. (mh_object h, mh_ws h, e) \<in> set (members t))"
    using hist old by (fastforce simp: mem h)
  show ?thesis
  proof (cases "ob_entity b")
    case None
    have "\<forall>(j, w, e') \<in> set (members t). drawn R t j \<and> open_entities j t = as_list e'"
      using each old none drawn_next [OF tk] b(1) None
      by (auto simp: mem as_list_def open_entities_frame [OF h])
    then show ?thesis using None ids' rows hids by (simp add: membership_ok_def h)
  next
    case (Some e)
    have "\<forall>(j, w, e') \<in> set (members t). drawn R t j \<and>
        open_entities j t = (if j = ob_id b then [] else as_list e') \<and>
        (j = ob_id b \<longrightarrow> w = wid sv \<and> e' = Some e)"
    proof clarify
      fix j w e' assume "(j, w, e') \<in> set (members t)"
      then consider "(j, w, e') \<in> set (members s)" | "j = ob_id b" "w = wid sv" "e' = Some e"
        using Some by (auto simp: mem)
      then show "drawn R t j \<and> open_entities j t = (if j = ob_id b then [] else as_list e') \<and>
          (j = ob_id b \<longrightarrow> w = wid sv \<and> e' = Some e)"
      proof cases
        case 1
        with each [OF 1] old new show ?thesis by (auto simp: open_entities_frame [OF h])
      next
        case 2
        with none drawn_next [OF tk] b(1) show ?thesis by (simp add: open_entities_frame [OF h])
      qed
    qed
    then have "membership_ok R (open_membership R (wid sv) (ob_id b) e reason by t)"
      by (intro membership_ok_open [OF inj ids' _ _ rows]) (use hids in \<open>auto simp: h mem\<close>)
    with Some show ?thesis by simp
  qed
qed

lemma get_or_create_object_ok [inv_intros]:
  assumes "inj (uuid R)" "membership_ok R s" "get_or_create_object R sv src dk loc s = (b, t)"
  shows "membership_ok R t"
proof (cases "find_object sv src dk loc s")
  case (Some c)
  with assms show ?thesis by (simp add: get_or_create_object_def)
next
  case None
  let ?b = "new_object R sv src dk loc s"
  have "ob_id ?b = next_id R s" "ob_ws ?b = wid sv" by (simp_all add: new_object_def Let_def)
  note keep = membership_ok_new_object [OF assms(1,2) this refl]
  have t: "t = (let s1 = s\<lparr>objects := row_add ?b (objects s), ticks := Suc (ticks s)\<rparr> in
      case ob_entity ?b of None \<Rightarrow> s1 | Some e \<Rightarrow>
        open_membership R (wid sv) (ob_id ?b) e ''legacy_backfill'' ''recordlane-migration'' s1)"
    using assms(3) None unfolding get_or_create_object_def Let_def by auto
  show ?thesis unfolding t Let_def by (rule keep)
qed

lemma get_or_create_object_finds:
  assumes "get_or_create_object R sv src dk loc s = (b, t)"
  shows "find_object sv src dk loc t = Some b"
proof (cases "find_object sv src dk loc s")
  case (Some c)
  with assms show ?thesis by (simp add: get_or_create_object_def)
next
  case None
  let ?b = "new_object R sv src dk loc s"
  have b: "b = ?b" and obs: "objects t = objects s @ [?b]"
    using assms None
    by (auto simp: get_or_create_object_def Let_def open_membership_def row_add_def split: option.splits)
  have "find_object sv src dk loc t = Some ?b"
    using None by (simp add: find_object_def obs find_append) (simp add: new_object_def Let_def)
  then show ?thesis by (simp add: b)
qed

lemma get_or_create_object_key:
  assumes "get_or_create_object R sv src dk loc s = (b, t)"
  shows "ob_ws b = wid sv \<and> ob_source b = src \<and> ob_domain b = dk \<and> ob_local b = loc \<and>
    b \<in> set (objects t)"
  using find_SomeD [OF get_or_create_object_finds [OF assms, unfolded find_object_def]] by blast

lemma get_or_create_object_frame:
  assumes "get_or_create_object R sv src dk loc s = (b, t)"
  shows "records t = records s" "entities t = entities s" "tasks t = tasks s"
    "masters t = masters s" "blocks t = blocks s" "metas t = metas s" "domains t = domains s"
    "sources t = sources s" "audits t = audits s" "object_bans t = object_bans s"
    "runs t = runs s" "events t = events s" "ticks s \<le> ticks t"
    "set (objects s) \<subseteq> set (objects t)" "configurations t = configurations s" "record_bans t = record_bans s"
  using assms
  by (auto simp: get_or_create_object_def Let_def open_membership_def split: option.splits)


section \<open>Properties\<close>

text \<open>
  Setting a membership moves exactly the one object and keeps the temporal history sound:
  every object still has exactly one open row, naming its entity (none when it has no entity),
  and every row that was closed before stays as it was.
\<close>

theorem set_membership_moves_one_object:
  assumes "inj (uuid R)" "membership_ok R s" "(i, wid sv, e) \<in> set (members s)"
  shows "membership_ok R (set_membership R sv i en reason s) \<and>
    members (set_membership R sv i en reason s) =
      map (\<lambda>(j, w, e'). (j, w, if j = i then Some en else e')) (members s) \<and>
    open_entities i (set_membership R sv i en reason s) = [en] \<and>
    {h \<in> set (history s). mh_to h \<noteq> None} \<subseteq> set (history (set_membership R sv i en reason s))"
proof -
  let ?t = "set_membership R sv i en reason s"
  have ok: "membership_ok R ?t" by (rule set_membership_ok [OF assms])
  have m: "members ?t = map (\<lambda>(j, w, e'). (j, w, if j = i then Some en else e')) (members s)"
    by (rule set_membership_members [OF assms(2,3)])
  then have "(i, wid sv, Some en) \<in> set (members ?t)" using assms(3) by force
  then have "open_entities i ?t = [en]" using ok by (auto simp: membership_ok_def as_list_def)
  with ok m show ?thesis using set_membership_keeps_closed [OF assms(2)] by auto
qed

definition one_object_db :: db where
  "one_object_db = snd (get_or_create_object ascii_runtime demo_service ''s1'' ''supplier'' ''A'' empty_db)"

lemma membership_ok_empty: "membership_ok R empty_db"
  by (simp add: membership_ok_def members_def empty_db_def)

lemma one_object_ok: "membership_ok ascii_runtime one_object_db"
  using get_or_create_object_ok [OF ascii_uuid membership_ok_empty]
  by (metis one_object_db_def prod.collapse)

lemma digits_zero: "digits_of 0 = ''0''"
  by code_simp

lemma one_object_member: "(''u0'', ''w1'', None) \<in> set (members one_object_db)"
  by (simp add: one_object_db_def get_or_create_object_def find_object_def new_object_def
      legacy_record_def empty_db_def members_def Let_def next_id_def ascii_runtime_def
      demo_service_def digits_zero row_add_def)

theorem set_membership_moves_one_object_witness:
  "open_entities ''u0'' (set_membership ascii_runtime demo_service ''u0'' ''e1'' ''first'' one_object_db) =
     [''e1''] \<and>
   open_entities ''u0'' one_object_db = []"
proof -
  have m: "(''u0'', wid demo_service, None) \<in> set (members one_object_db)"
    using one_object_member by (simp add: demo_service_def)
  then have "open_entities ''u0'' one_object_db = []"
    using one_object_ok by (auto simp: membership_ok_def as_list_def)
  then show ?thesis
    using set_membership_moves_one_object [OF ascii_uuid one_object_ok m] by blast
qed

definition numbered :: "int option \<Rightarrow> incoming" where
  "numbered n = \<lparr>in_local = ''A'', in_version = ''1'', in_values = [], in_verification = [],
     in_effective = None, in_sequence = n, in_mode = FullUpdate, in_deleted = False\<rparr>"

text \<open>
  Accepting an observation without a number forgets the last number: afterwards an older
  numbered observation counts as current again.
\<close>

lemma unnumbered_observation_reopens_the_past:
  assumes "ob_sequence b = Some m" "n \<le> m" "in_sequence item = Some n"
  shows "\<not> observation_is_current b item \<and>
    observation_is_current (b\<lparr>ob_sequence := in_sequence (numbered None)\<rparr>) item"
  using assms by (simp add: observation_is_current_def numbered_def)

end
