(* ===== verification/Mastering.thy ===== *)
theory Mastering
  imports Membership
begin

text \<open>
  Mastered values and drafts (\<open>_master_values\<close>, \<open>_draft_master\<close>): for every field the
  contribution with the greatest rank among the current records of an entity, and a new draft
  version with its approval task.
\<close>

section \<open>Ranks\<close>

text \<open>
  The key of \<open>max(options, ...)\<close>: verified, precedence, observation time, record id, compared
  from the left.
\<close>

datatype rank = Rank (rank_verified: int) (rank_precedence: int) (rank_observed: time)
  (rank_record: ident)

definition rank_key :: "rank \<Rightarrow> int \<times> int \<times> time \<times> ident" where
  "rank_key r = (rank_verified r, rank_precedence r, rank_observed r, rank_record r)"

lemma rank_key_inject: "rank_key x = rank_key y \<longleftrightarrow> x = y"
  by (cases x; cases y) (simp add: rank_key_def)

instantiation rank :: linorder
begin

definition less_eq_rank :: "rank \<Rightarrow> rank \<Rightarrow> bool" where
  "less_eq_rank x y \<longleftrightarrow> rank_key x \<le> rank_key y"

definition less_rank :: "rank \<Rightarrow> rank \<Rightarrow> bool" where
  "less_rank x y \<longleftrightarrow> rank_key x < rank_key y"

instance
  by standard (auto simp: less_eq_rank_def less_rank_def rank_key_inject [symmetric])

end

lemma rank_le_verified: "x \<le> y \<Longrightarrow> rank_verified x \<le> rank_verified y"
  by (auto simp: less_eq_rank_def rank_key_def less_eq_prod_def less_prod_def)

section \<open>Survivorship of one field\<close>

definition rule_name :: "compiled_policy \<Rightarrow> string \<Rightarrow> json" where
  "rule_name p field =
     (let configured = dget_or (survivorship p) field
        (dget_or (survivorship p) ''default'' (JStr ''source_priority_then_observation_time''))
      in case configured of
           JObj d \<Rightarrow> dget_or d ''strategy'' (JStr ''source_priority_then_observation_time'')
         | v \<Rightarrow> v)"

definition field_rule :: "compiled_policy \<Rightarrow> string \<Rightarrow> dict res" where
  "field_rule p field =
     (case dget_or (survivorship p) field (JObj []) of
        JStr s \<Rightarrow> Inr [(''strategy'', JStr s)]
      | v \<Rightarrow> as_dict v)"

text \<open>\<open>xs.index(k)\<close> of a list that contains the string, or of a string that contains it.\<close>

fun index_of :: "string \<Rightarrow> json list \<Rightarrow> int" where
  "index_of k [] = 0"
| "index_of k (x # xs) = (if x = JStr k then 0 else 1 + index_of k xs)"

fun substring_at :: "string \<Rightarrow> string \<Rightarrow> int" where
  "substring_at k [] = 0"
| "substring_at k (c # s) = (if prefix_of k (c # s) then 0 else 1 + substring_at k s)"

definition precedence_rank :: "json \<Rightarrow> source_row \<Rightarrow> int res" where
  "precedence_rank precedence source =
     bind_res (py_in (JStr (sc_key source)) precedence) (\<lambda>listed.
     case precedence of
       JList xs \<Rightarrow> Inr (if listed then - index_of (sc_key source) xs
                     else - int (length xs) - sc_priority source)
     | JStr s \<Rightarrow> Inr (if listed then - substring_at (sc_key source) s
                   else - int (length s) - sc_priority source)
     | JObj d \<Rightarrow> (if listed then Inl (PyError ''AttributeError'')
                 else Inr (- int (length d) - sc_priority source))
     | _ \<Rightarrow> Inl (PyError ''TypeError''))"

definition is_verified :: "source_record \<Rightarrow> string \<Rightarrow> bool" where
  "is_verified r field \<longleftrightarrow> truthy (dget (sr_verification r) field)"

definition verified_rank :: "compiled_policy \<Rightarrow> dict \<Rightarrow> bool \<Rightarrow> int res" where
  "verified_rank p rule verified =
     (if verified then
        case dget_or rule ''strategy'' (dget_or (survivorship p) ''default'' (JStr [])) of
          JStr s \<Rightarrow> Inr (if prefix_of ''verified'' s then 1 else 0)
        | _ \<Rightarrow> Inl (PyError ''AttributeError'')
      else Inr 0)"

type_synonym option_row = "rank \<times> source_record \<times> source_row"

definition option_of ::
    "compiled_policy \<Rightarrow> source_row list \<Rightarrow> string \<Rightarrow> source_record \<Rightarrow> option_row res" where
  "option_of p srcs field r =
     bind_res (from_option (PyError ''KeyError'') (row_get sc_id (sr_source r) srcs)) (\<lambda>source.
     bind_res (field_rule p field) (\<lambda>rule.
     bind_res (precedence_rank (dget_or rule ''source_precedence'' (JList [])) source) (\<lambda>pr.
     bind_res (verified_rank p rule (is_verified r field)) (\<lambda>vr.
     Inr (Rank vr pr (sr_observed r) (sr_id r), r, source)))))"

definition contributes :: "string \<Rightarrow> source_record \<Rightarrow> bool" where
  "contributes field r \<longleftrightarrow> dget (sr_original r) field \<noteq> JNull"

definition options_of ::
    "compiled_policy \<Rightarrow> source_row list \<Rightarrow> source_record list \<Rightarrow> string \<Rightarrow> option_row list res" where
  "options_of p srcs rs field = map_res (option_of p srcs field) (filter (contributes field) rs)"

definition provenance_of ::
    "runtime \<Rightarrow> compiled_policy \<Rightarrow> string \<Rightarrow> nat \<Rightarrow> source_record \<Rightarrow> source_row \<Rightarrow> json" where
  "provenance_of R p field n winner source =
     JObj [(''source'', JStr (sc_name source)), (''source_key'', JStr (sc_key source)),
           (''source_record_id'', JStr (sr_id winner)),
           (''source_version'', JStr (sr_version winner)),
           (''verification'', JStr (if is_verified winner field then ''verified'' else ''unverified'')),
           (''rule'', rule_name p field),
           (''rule_version'', JStr (''policy:'' @ pol_version p @ '':'' @ take 12 (checksum p))),
           (''observed_at'', JStr (isoformat R (sr_observed winner))),
           (''alternatives'', JInt (int n - 1))]"

definition winning ::
    "runtime \<Rightarrow> compiled_policy \<Rightarrow> string \<Rightarrow> option_row list \<Rightarrow> (string \<times> json \<times> json) option" where
  "winning R p field options =
     (case latest fst options of
        None \<Rightarrow> None
      | Some (_, winner, source) \<Rightarrow>
          Some (field, dget (sr_original winner) field,
                provenance_of R p field (length options) winner source))"

definition surviving ::
    "runtime \<Rightarrow> compiled_policy \<Rightarrow> source_row list \<Rightarrow> source_record list \<Rightarrow> string \<Rightarrow>
     (string \<times> json \<times> json) option res" where
  "surviving R p srcs rs field =
     bind_res (options_of p srcs rs field) (\<lambda>options. Inr (winning R p field options))"

section \<open>The mastered record\<close>

definition record_fields :: "source_record list \<Rightarrow> string list" where
  "record_fields rs = sorted_set (concat (map (\<lambda>r. dkeys (sr_original r)) rs))"

definition master_values ::
    "runtime \<Rightarrow> service \<Rightarrow> ident \<Rightarrow> compiled_policy \<Rightarrow> db \<Rightarrow> (dict \<times> dict) res" where
  "master_values R sv en p s =
     (let rs = current_records sv en s in
      bind_res (map_res (surviving R p (sources s) rs) (record_fields rs)) (\<lambda>outcomes.
      let kept = List.map_filter id outcomes
      in Inr (map (\<lambda>(field, v, _). (field, v)) kept, map (\<lambda>(field, _, pr). (field, pr)) kept)))"

definition find_domain :: "service \<Rightarrow> string \<Rightarrow> db \<Rightarrow> domain_row option" where
  "find_domain sv key s = find (\<lambda>d. dm_ws d = wid sv \<and> dm_key d = key) (domains s)"

definition latest_version :: "ident \<Rightarrow> db \<Rightarrow> int" where
  "latest_version en s =
     (case latest mv_version (filter (\<lambda>m. mv_entity m = en) (masters s)) of
        None \<Rightarrow> 0 | Some m \<Rightarrow> mv_version m)"

definition open_master_task :: "service \<Rightarrow> ident \<Rightarrow> db \<Rightarrow> review_task option" where
  "open_master_task sv en s =
     find (\<lambda>t. rt_ws t = wid sv \<and> rt_entity t = Some en \<and> rt_kind t = MasterApproval \<and>
               rt_status t = OpenTask) (tasks s)"

definition mark_stale :: "string \<Rightarrow> review_task option \<Rightarrow> db \<Rightarrow> db" where
  "mark_stale reason task s =
     (case task of
        None \<Rightarrow> s
      | Some t \<Rightarrow> s\<lparr>tasks := row_modify rt_id (rt_id t)
          (\<lambda>t. t\<lparr>rt_status := StaleTask, rt_reason := Some reason\<rparr>) (tasks s)\<rparr>)"

definition two_days :: time where
  "two_days = 2 * 24 * 60 * 60 * 1000000"

definition add_draft :: "runtime \<Rightarrow> service \<Rightarrow> ident \<Rightarrow> dict \<Rightarrow> dict \<Rightarrow> db \<Rightarrow> master_version \<times> db" where
  "add_draft R sv en vals prov s =
     (let draft = \<lparr>mv_id = next_id R s, mv_ws = wid sv, mv_entity = en,
        mv_version = latest_version en s + 1, mv_status = DraftMaster, mv_values = vals,
        mv_provenance = prov, mv_reason = None, mv_approved_by = None\<rparr>
      in (draft, s\<lparr>masters := row_add draft (masters s), ticks := Suc (ticks s)\<rparr>))"

definition master_task :: "runtime \<Rightarrow> service \<Rightarrow> entity \<Rightarrow> master_version \<Rightarrow> db \<Rightarrow> review_task" where
  "master_task R sv en draft s =
     \<lparr>rt_id = next_id R s, rt_ws = wid sv, rt_kind = MasterApproval, rt_entity = Some (en_id en),
      rt_status = OpenTask,
      rt_priority = (if ''tax_id'' \<in> set (dkeys (mv_values draft)) then ''high'' else ''normal''),
      rt_assignee = None, rt_proposed_by = ''mastering-engine'',
      rt_payload = MasterPayload (mv_version draft) (mv_values draft) (mv_provenance draft),
      rt_bound = Some (en_version en),
      rt_sensitive = (''tax_id'' \<in> set (dkeys (mv_values draft)) \<or>
                      ''bank_account'' \<in> set (dkeys (mv_values draft))),
      rt_reason = None, rt_decided_by = None, rt_due = Some (next_time R s + two_days)\<rparr>"

definition add_task :: "review_task \<Rightarrow> db \<Rightarrow> db" where
  "add_task t s = s\<lparr>tasks := row_add t (tasks s), ticks := Suc (ticks s)\<rparr>"

definition draft_master :: "runtime \<Rightarrow> service \<Rightarrow> entity \<Rightarrow> master_version op" where
  "draft_master R sv en s =
     bind_res (from_option (HTTPException 409 ''entity_domain_missing'')
                 (find_domain sv (en_domain en) s)) (\<lambda>domain.
     bind_res (compile_policy R (dm_definition domain)) (\<lambda>policy.
     bind_res (master_values R sv (en_id en) policy s) (\<lambda>(vals, prov).
     let (draft, s1) = add_draft R sv (en_id en) vals prov s;
         s2 = mark_stale ''A new source contribution changed the bound entity version''
                (open_master_task sv (en_id en) s1) s1
     in Inr (draft, add_task (master_task R sv en draft s2) s2))))"


section \<open>The winner\<close>

lemma map_res_projr:
  "map_res f xs = Inr ys \<Longrightarrow> ys = map (\<lambda>x. projr (f x)) xs \<and> (\<forall>x \<in> set xs. \<exists>y. f x = Inr y)"
  by (induction xs arbitrary: ys) (auto simp: res_elim)

lemma map_res_permuted:
  assumes "map_res f xs = Inr ys" "mset xs = mset xs'"
  shows "\<exists>ys'. map_res f xs' = Inr ys' \<and> mset ys' = mset ys"
proof -
  from map_res_projr [OF assms(1)] have ys: "ys = map (\<lambda>x. projr (f x)) xs"
    and total: "\<forall>x \<in> set xs. \<exists>y. f x = Inr y" by auto
  have "set xs' = set xs" using assms(2) by (metis set_mset_mset)
  with total have "map_res f xs' = Inr (map (\<lambda>x. projr (f x)) xs')"
    by (intro map_res_pure) fastforce
  with ys assms(2) show ?thesis by (metis mset_map)
qed

lemma latest_permuted:
  assumes "mset xs = mset ys" "inj_on t (set xs)"
  shows "latest t xs = latest t ys"
proof (cases "latest t xs")
  case None
  with assms(1) have "ys = []" by (metis latest_None mset_zero_iff)
  with None show ?thesis by simp
next
  case (Some x)
  have set: "set ys = set xs" using assms(1) by (metis set_mset_mset)
  from Some have "xs \<noteq> []" by auto
  with set have "ys \<noteq> []" by auto
  then obtain y where y: "latest t ys = Some y" by (cases "latest t ys") auto
  have mem: "x \<in> set xs" "y \<in> set xs" using latest_mem [OF Some] latest_mem [OF y] set by auto
  then have "t x = t y"
    using latest_max [OF Some, of y] latest_max [OF y, of x] set by (auto intro: antisym)
  with assms(2) mem Some y show ?thesis by (auto dest: inj_onD)
qed

lemma option_of_row: "option_of p srcs field r = Inr o' \<Longrightarrow>
  fst (snd o') = r \<and> rank_record (fst o') = sr_id r \<and>
  row_get sc_id (sr_source r) srcs = Some (snd (snd o'))"
  by (auto simp: option_of_def res_elim)

lemma options_of_mem:
  assumes "options_of p srcs rs field = Inr os" "o' \<in> set os"
  shows "option_of p srcs field (fst (snd o')) = Inr o' \<and> fst (snd o') \<in> set rs \<and>
    contributes field (fst (snd o'))"
proof -
  from map_res_mem [OF assms(1) [unfolded options_of_def] assms(2)] obtain r
    where r: "r \<in> set rs" "contributes field r" "option_of p srcs field r = Inr o'" by auto
  from option_of_row [OF r(3)] have "fst (snd o') = r" by blast
  with r show ?thesis by simp
qed

lemma options_of_inj:
  assumes "options_of p srcs rs field = Inr os"
    and "\<And>a b. a \<in> set rs \<Longrightarrow> b \<in> set rs \<Longrightarrow> sr_id a = sr_id b \<Longrightarrow> a = b"
  shows "inj_on fst (set os)"
proof (rule inj_onI)
  fix a b assume a: "a \<in> set os" and b: "b \<in> set os" and eq: "fst a = fst b"
  note ma = options_of_mem [OF assms(1) a] and mb = options_of_mem [OF assms(1) b]
  have "rank_record (fst a) = sr_id (fst (snd a))" "rank_record (fst b) = sr_id (fst (snd b))"
    using option_of_row ma mb by blast+
  with eq have "sr_id (fst (snd a)) = sr_id (fst (snd b))" by simp
  then have same: "fst (snd a) = fst (snd b)"
    by (intro assms(2)) (simp_all only: ma [THEN conjunct2, THEN conjunct1] mb [THEN conjunct2, THEN conjunct1])
  have "Inr a = option_of p srcs field (fst (snd b))"
    unfolding same [symmetric] by (rule sym) (rule ma [THEN conjunct1])
  also have "\<dots> = Inr b" by (rule mb [THEN conjunct1])
  finally show "a = b" by (rule Inr_inject)
qed

lemma surviving_Inr:
  "surviving R p srcs rs field = Inr x \<longleftrightarrow>
   (\<exists>os. options_of p srcs rs field = Inr os \<and> winning R p field os = x)"
  unfolding surviving_def bind_res_Inr sum.inject ..

lemma winning_None: "winning R p field os = None \<longleftrightarrow> os = []"
  by (cases "latest fst os") (auto simp: winning_def)

lemma winning_Some:
  assumes "winning R p field os = Some (k, v, pr)"
  shows "\<exists>rank r src. latest fst os = Some (rank, r, src) \<and> k = field \<and> v = dget (sr_original r) field"
proof (cases "latest fst os")
  case (Some t)
  with assms show ?thesis by (cases t) (auto simp: winning_def)
qed (use assms in \<open>simp add: winning_def\<close>)

text \<open>
  The surviving value is that of a record that contributes to the field, and no contribution
  has a greater rank.
\<close>

lemma surviving_winner:
  assumes "surviving R p srcs rs field = Inr (Some (k, v, pr))"
  shows "\<exists>r \<in> set rs. \<exists>src rank. contributes field r \<and> k = field \<and> v = dget (sr_original r) field \<and>
    option_of p srcs field r = Inr (rank, r, src) \<and>
    (\<forall>r' \<in> set rs. contributes field r' \<longrightarrow>
       (\<exists>rank' src'. option_of p srcs field r' = Inr (rank', r', src') \<and> rank' \<le> rank))"
proof -
  from assms obtain os rank r src where os: "options_of p srcs rs field = Inr os"
    and l: "latest fst os = Some (rank, r, src)" and kv: "k = field" "v = dget (sr_original r) field"
    unfolding surviving_Inr using winning_Some by blast
  from options_of_mem [OF os latest_mem [OF l]] have r: "option_of p srcs field r = Inr (rank, r, src)"
    "r \<in> set rs" "contributes field r" by auto
  have "\<exists>rank' src'. option_of p srcs field r' = Inr (rank', r', src') \<and> rank' \<le> rank"
    if "r' \<in> set rs" "contributes field r'" for r'
  proof -
    from map_res_mem' [OF os [unfolded options_of_def], of r'] that obtain o'
      where o': "o' \<in> set os" "option_of p srcs field r' = Inr o'" by auto
    obtain rank' r0 src' where t: "o' = (rank', r0, src')" by (cases o')
    from option_of_row [OF o'(2)] have "r0 = r'" by (simp add: t)
    moreover from latest_max [OF l o'(1)] have "rank' \<le> rank" by (simp add: t)
    ultimately show ?thesis using o'(2) t by blast
  qed
  with r kv show ?thesis by blast
qed

lemma surviving_None:
  assumes "surviving R p srcs rs field = Inr None" "r \<in> set rs"
  shows "\<not> contributes field r"
proof -
  from assms(1) obtain os where os: "options_of p srcs rs field = Inr os" "os = []"
    unfolding surviving_Inr winning_None by blast
  from map_res_length [OF os(1) [unfolded options_of_def]] os(2)
  have "filter (contributes field) rs = []" by simp
  with assms(2) show ?thesis by (auto simp: filter_empty_conv)
qed

text \<open>The order in which the database returns the rows plays no part.\<close>

lemma surviving_permuted:
  assumes "surviving R p srcs rs field = Inr x" "mset rs = mset rs'"
    and "\<And>a b. a \<in> set rs \<Longrightarrow> b \<in> set rs \<Longrightarrow> sr_id a = sr_id b \<Longrightarrow> a = b"
  shows "surviving R p srcs rs' field = Inr x"
proof -
  from assms(1) obtain os where os: "options_of p srcs rs field = Inr os"
    unfolding surviving_Inr by blast
  have "mset (filter (contributes field) rs) = mset (filter (contributes field) rs')"
    using assms(2) by (metis mset_filter)
  from map_res_permuted [OF os [unfolded options_of_def] this] obtain os'
    where os': "options_of p srcs rs' field = Inr os'" "mset os' = mset os"
    by (auto simp: options_of_def)
  have "latest fst os = latest fst os'"
    by (rule latest_permuted [OF os'(2) [symmetric] options_of_inj [OF os assms(3)]])
  moreover have "length os = length os'" using os'(2) by (metis size_mset)
  ultimately have "winning R p field os' = winning R p field os"
    unfolding winning_def by (auto split: option.split)
  then show ?thesis using assms(1) os os'(1) unfolding surviving_Inr by auto
qed

lemma mset_concat_map: "mset (concat (map f xs)) = (\<Sum>x\<in>#mset xs. mset (f x))"
  by (induction xs) auto

lemma current_records_permuted:
  assumes "mset (records s) = mset (records t)" "mset (objects s) = mset (objects t)"
  shows "mset (current_records sv en s) = mset (current_records sv en t)"
proof -
  have "mset (map (\<lambda>_. r) (filter P (objects s))) = mset (map (\<lambda>_. r) (filter P (objects t)))"
    for r :: source_record and P
    using assms(2) by (metis mset_filter mset_map)
  then show ?thesis
    unfolding current_records_def mset_concat_map assms(1) by presburger
qed

lemma map_res_ext:
  assumes "map_res f xs = Inr ys" "\<And>x y. x \<in> set xs \<Longrightarrow> f x = Inr y \<Longrightarrow> g x = Inr y"
  shows "map_res g xs = Inr ys"
  using assms by (induction xs arbitrary: ys) (auto simp: res_elim)

lemma master_values_permuted:
  assumes "master_values R sv en p s = Inr out"
    and "mset (records s) = mset (records t)" "mset (objects s) = mset (objects t)"
    and "sources s = sources t" "distinct (map sr_id (records s))"
  shows "master_values R sv en p t = Inr out"
proof -
  let ?rs = "current_records sv en s" and ?rt = "current_records sv en t"
  have m: "mset ?rs = mset ?rt" by (rule current_records_permuted [OF assms(2,3)])
  have same: "a = b" if "a \<in> set ?rs" "b \<in> set ?rs" "sr_id a = sr_id b" for a b
    using find_key_unique [OF assms(5), of a b] that by (simp add: current_records_mem)
  have "set ?rs = set ?rt" using m by (metis set_mset_mset)
  then have fields: "record_fields ?rs = record_fields ?rt"
    unfolding record_fields_def by (intro sorted_set_cong) auto
  from assms(1) obtain xs where xs: "map_res (surviving R p (sources s) ?rs) (record_fields ?rs) = Inr xs"
    unfolding master_values_def Let_def bind_res_Inr by blast
  have "map_res (surviving R p (sources s) ?rt) (record_fields ?rs) = Inr xs"
    by (rule map_res_ext [OF xs]) (rule surviving_permuted [OF _ m same])
  then have "map_res (surviving R p (sources t) ?rt) (record_fields ?rt) = Inr xs"
    by (simp only: fields assms(4))
  with assms(1) xs show ?thesis unfolding master_values_def Let_def by simp
qed


section \<open>Drafts\<close>

lemma draft_master_Inr:
  assumes "draft_master R sv en s = Inr (d, t)"
  shows "\<exists>domain p vals prov s1 s2. find_domain sv (en_domain en) s = Some domain \<and>
    compile_policy R (dm_definition domain) = Inr p \<and>
    master_values R sv (en_id en) p s = Inr (vals, prov) \<and>
    (d, s1) = add_draft R sv (en_id en) vals prov s \<and>
    s2 = mark_stale ''A new source contribution changed the bound entity version''
           (open_master_task sv (en_id en) s1) s1 \<and>
    t = add_task (master_task R sv en d s2) s2"
  using assms unfolding draft_master_def bind_res_Inr from_option_Inr Let_def split_beta
  by (elim exE conjE) (simp only: sum.inject prod.inject, metis prod.collapse)

lemma mark_stale_frame:
  "workspaces (mark_stale m x s) = workspaces s" "domains (mark_stale m x s) = domains s"
  "sources (mark_stale m x s) = sources s" "records (mark_stale m x s) = records s"
  "metas (mark_stale m x s) = metas s" "entities (mark_stale m x s) = entities s"
  "objects (mark_stale m x s) = objects s" "runs (mark_stale m x s) = runs s"
  "blocks (mark_stale m x s) = blocks s" "history (mark_stale m x s) = history s"
  "masters (mark_stale m x s) = masters s" "record_bans (mark_stale m x s) = record_bans s"
  "object_bans (mark_stale m x s) = object_bans s"
  "relationships (mark_stale m x s) = relationships s"
  "configurations (mark_stale m x s) = configurations s"
  "simulations (mark_stale m x s) = simulations s" "events (mark_stale m x s) = events s"
  "jobs (mark_stale m x s) = jobs s" "audits (mark_stale m x s) = audits s"
  "ticks (mark_stale m x s) = ticks s"
  by (simp_all add: mark_stale_def split: option.split)

text \<open>The two tables a draft changes, and the ones it leaves alone.\<close>

lemma draft_master_frame:
  assumes "draft_master R sv en s = Inr (d, t)"
  shows "workspaces t = workspaces s" "domains t = domains s" "sources t = sources s"
    "records t = records s" "metas t = metas s" "entities t = entities s" "objects t = objects s"
    "runs t = runs s" "blocks t = blocks s" "history t = history s"
    "record_bans t = record_bans s" "object_bans t = object_bans s"
    "relationships t = relationships s" "configurations t = configurations s"
    "simulations t = simulations s" "events t = events s" "jobs t = jobs s"
    "audits t = audits s" "ticks t = Suc (Suc (ticks s))"
  using draft_master_Inr [OF assms]
  by (auto simp: add_draft_def add_task_def mark_stale_frame Let_def)

definition is_open_master :: "ident \<Rightarrow> ident \<Rightarrow> review_task \<Rightarrow> bool" where
  "is_open_master ws en t \<longleftrightarrow>
     rt_ws t = ws \<and> rt_entity t = Some en \<and> rt_kind t = MasterApproval \<and> rt_status t = OpenTask"

definition open_masters :: "ident \<Rightarrow> ident \<Rightarrow> db \<Rightarrow> review_task list" where
  "open_masters ws en s = filter (is_open_master ws en) (tasks s)"

definition tasks_ok :: "runtime \<Rightarrow> db \<Rightarrow> bool" where
  "tasks_ok R s \<longleftrightarrow> distinct (map rt_id (tasks s)) \<and> (\<forall>t \<in> set (tasks s). drawn R s (rt_id t)) \<and>
     (\<forall>ws en. length (open_masters ws en s) \<le> 1)"

definition versions_ok :: "runtime \<Rightarrow> db \<Rightarrow> bool" where
  "versions_ok R s \<longleftrightarrow> distinct (map (\<lambda>m. (mv_entity m, mv_version m)) (masters s)) \<and>
     distinct (map mv_id (masters s)) \<and> (\<forall>m \<in> set (masters s). drawn R s (mv_id m))"

lemma latest_version_ge: "m \<in> set (masters s) \<Longrightarrow> mv_version m \<le> latest_version (mv_entity m) s"
  using latest_max [of mv_version "filter (\<lambda>q. mv_entity q = mv_entity m) (masters s)"]
  by (auto simp: latest_version_def filter_empty_conv split: option.split)

lemma draft_master_masters:
  assumes "draft_master R sv en s = Inr (d, t)"
  shows "masters t = masters s @ [d]" "mv_version d = latest_version (en_id en) s + 1"
    "mv_entity d = en_id en" "mv_ws d = wid sv" "mv_status d = DraftMaster" "mv_id d = next_id R s"
  using draft_master_Inr [OF assms]
  by (auto simp: add_draft_def add_task_def mark_stale_frame row_add_def Let_def)

lemma versions_ok_draft:
  assumes "inj (uuid R)" "versions_ok R s" "draft_master R sv en s = Inr (d, t)"
  shows "versions_ok R t"
proof -
  note m = draft_master_masters [OF assms(3)]
  have tk: "ticks s < ticks t" using draft_master_frame(19) [OF assms(3)] by simp
  have "(mv_entity d, mv_version d) \<notin> (\<lambda>m. (mv_entity m, mv_version m)) ` set (masters s)"
    using latest_version_ge [of _ s] m(2,3) by fastforce
  moreover have "next_id R s \<notin> mv_id ` set (masters s)"
    using assms(1,2) next_not_drawn by (fastforce simp: versions_ok_def)
  moreover have "drawn R t (mv_id q)" if "q \<in> set (masters s)" for q
    using assms(2) that drawn_mono [of R s _ t] tk by (auto simp: versions_ok_def)
  ultimately show ?thesis
    using assms(2) drawn_next [OF tk] by (auto simp: versions_ok_def m(1,6))
qed

text \<open>Marking the found task stale leaves no open approval of the entity.\<close>

lemma mark_stale_open:
  assumes "tasks_ok R s"
  shows "open_masters ws en (mark_stale m (open_master_task sv e s) s) =
    (if ws = wid sv \<and> en = e then [] else open_masters ws en s)"
proof (cases "open_master_task sv e s")
  case None
  then have "open_masters (wid sv) e s = []"
    by (auto simp: open_master_task_def open_masters_def is_open_master_def filter_empty_conv
        dest: find_NoneD)
  with None show ?thesis by (simp add: mark_stale_def)
next
  case (Some q)
  then have q: "q \<in> set (tasks s)" "is_open_master (wid sv) e q"
    by (auto simp: open_master_task_def is_open_master_def dest!: find_SomeD)
  have ids: "distinct (map rt_id (tasks s))" and one: "length (open_masters (wid sv) e s) \<le> 1"
    using assms by (auto simp: tasks_ok_def)
  have only: "r = q" if "r \<in> set (tasks s)" "rt_id r = rt_id q" for r
    using find_key_unique [OF ids that(1) q(1) that(2)] .
  have alone: "r = q" if "r \<in> set (tasks s)" "is_open_master (wid sv) e r" for r
  proof (rule ccontr)
    assume "r \<noteq> q"
    moreover have "{r, q} \<subseteq> set (open_masters (wid sv) e s)"
      using that q by (simp add: open_masters_def)
    then have "card {r, q} \<le> 1"
      using one card_length card_mono by (metis List.finite_set le_trans)
    ultimately show False by simp
  qed
  let ?f = "\<lambda>t. t\<lparr>rt_status := StaleTask, rt_reason := Some m\<rparr>"
  have closed: "\<not> is_open_master ws en (?f r)" for r by (simp add: is_open_master_def)
  have "filter (is_open_master ws en) (row_modify rt_id (rt_id q) ?f ts) =
      filter (\<lambda>r. is_open_master ws en r \<and> r \<noteq> q) ts" if "set ts \<subseteq> set (tasks s)" for ts
    using that
  proof (induction ts)
    case Nil
    then show ?case by (simp add: row_modify_def)
  next
    case (Cons r ts)
    then have "rt_id r = rt_id q \<longleftrightarrow> r = q" using only by auto
    with Cons closed show ?case by (simp add: row_modify_def)
  qed
  then have "open_masters ws en (mark_stale m (Some q) s) =
      filter (\<lambda>r. is_open_master ws en r \<and> r \<noteq> q) (tasks s)"
    by (simp add: open_masters_def mark_stale_def)
  moreover have "ws = wid sv \<and> en = e \<Longrightarrow> filter (\<lambda>r. is_open_master ws en r \<and> r \<noteq> q) (tasks s) = []"
    using alone by (auto simp: filter_empty_conv)
  moreover have "\<not> (ws = wid sv \<and> en = e) \<Longrightarrow>
      filter (\<lambda>r. is_open_master ws en r \<and> r \<noteq> q) (tasks s) = open_masters ws en s"
    unfolding open_masters_def using q(2) by (intro filter_cong) (auto simp: is_open_master_def)
  ultimately show ?thesis by (simp add: Some)
qed

lemma draft_master_tasks:
  assumes "draft_master R sv en s = Inr (d, t)" "tasks_ok R s"
  shows "open_masters ws e t =
    (if ws = wid sv \<and> e = en_id en then [last (tasks t)] else open_masters ws e s)"
    and "rt_bound (last (tasks t)) = Some (en_version en)"
    and "rt_payload (last (tasks t)) = MasterPayload (mv_version d) (mv_values d) (mv_provenance d)"
    and "map rt_id (tasks t) = map rt_id (tasks s) @ [uuid R (Suc (ticks s))]"
proof -
  from draft_master_Inr [OF assms(1)] obtain vals prov s1 s2 where
    s1: "(d, s1) = add_draft R sv (en_id en) vals prov s" and
    s2: "s2 = mark_stale ''A new source contribution changed the bound entity version''
           (open_master_task sv (en_id en) s1) s1" and
    t: "t = add_task (master_task R sv en d s2) s2" by blast
  have t1: "tasks s1 = tasks s" "ticks s1 = Suc (ticks s)"
    using s1 by (auto simp: add_draft_def Let_def)
  have ok1: "tasks_ok R s1"
    using assms(2) drawn_mono [of R s _ s1] by (simp add: tasks_ok_def t1 open_masters_def)
  have new: "is_open_master ws e (master_task R sv en d s2) \<longleftrightarrow> ws = wid sv \<and> e = en_id en"
    by (auto simp: is_open_master_def master_task_def)
  have l: "last (tasks t) = master_task R sv en d s2" and tt: "tasks t = tasks s2 @ [master_task R sv en d s2]"
    by (simp_all add: t add_task_def row_add_def)
  show "open_masters ws e t =
      (if ws = wid sv \<and> e = en_id en then [last (tasks t)] else open_masters ws e s)"
  proof -
    have "open_masters ws e t = open_masters ws e s2 @
        (if ws = wid sv \<and> e = en_id en then [last (tasks t)] else [])"
      using new by (simp add: open_masters_def tt l)
    moreover have "open_masters ws e s2 = (if ws = wid sv \<and> e = en_id en then [] else open_masters ws e s1)"
      unfolding s2 by (rule mark_stale_open [OF ok1])
    moreover have "open_masters ws e s1 = open_masters ws e s" by (simp add: open_masters_def t1)
    ultimately show ?thesis by simp
  qed
  show "rt_bound (last (tasks t)) = Some (en_version en)"
    "rt_payload (last (tasks t)) = MasterPayload (mv_version d) (mv_values d) (mv_provenance d)"
    by (simp_all add: l master_task_def)
  have "map rt_id (tasks s2) = map rt_id (tasks s)"
    by (simp add: s2 mark_stale_def t1 row_keys_modify split: option.split)
  moreover have "rt_id (last (tasks t)) = uuid R (Suc (ticks s))"
    by (simp add: l master_task_def next_id_def s2 mark_stale_frame t1)
  ultimately show "map rt_id (tasks t) = map rt_id (tasks s) @ [uuid R (Suc (ticks s))]"
    by (simp add: tt l)
qed

lemma tasks_ok_draft:
  assumes "inj (uuid R)" "tasks_ok R s" "draft_master R sv en s = Inr (d, t)"
  shows "tasks_ok R t"
proof -
  note ids = draft_master_tasks(4) [OF assms(3,2)]
  have tk: "ticks t = Suc (Suc (ticks s))" by (rule draft_master_frame(19) [OF assms(3)])
  have past: "drawn R s i" if "i \<in> rt_id ` set (tasks s)" for i
    using assms(2) that by (auto simp: tasks_ok_def)
  have "uuid R (Suc (ticks s)) \<notin> rt_id ` set (tasks s)"
    using past assms(1) by (fastforce simp: drawn_def inj_eq)
  then have "distinct (map rt_id (tasks t))" using assms(2) by (simp add: ids tasks_ok_def)
  moreover have "drawn R t i" if "i \<in> set (map rt_id (tasks t))" for i
    using that past drawn_mono [of R s i t] tk by (auto simp: ids drawn_def)
  moreover have "length (open_masters ws e t) \<le> 1" for ws e
    using assms(2) by (simp add: draft_master_tasks(1) [OF assms(3,2)] tasks_ok_def)
  ultimately show ?thesis by (simp add: tasks_ok_def)
qed


section \<open>Properties\<close>

text \<open>
  C31. A mastered value is never invented and never second best: each value is the original value
  of a valid current record of the entity in this workspace, and no current record that has a
  value for the field ranks higher (verified first, then source precedence or priority, then
  observation time, then record id). A field that some current record fills is not lost.
\<close>

theorem mastered_values_are_the_best_current_ones:
  assumes "master_values R sv en p s = Inr (vals, prov)"
  shows "((field, v) \<in> set vals \<longrightarrow>
      (\<exists>r \<in> set (current_records sv en s). \<exists>rank src.
         v = dget (sr_original r) field \<and> v \<noteq> JNull \<and>
         option_of p (sources s) field r = Inr (rank, r, src) \<and>
         (\<forall>r' \<in> set (current_records sv en s). contributes field r' \<longrightarrow>
            (\<exists>rank' src'. option_of p (sources s) field r' = Inr (rank', r', src') \<and> rank' \<le> rank)))) \<and>
    ((\<exists>r \<in> set (current_records sv en s). contributes field r) \<longrightarrow> field \<in> set (dkeys vals)) \<and>
    dkeys prov = dkeys vals"
proof -
  let ?rs = "current_records sv en s"
  from assms obtain outs where outs: "map_res (surviving R p (sources s) ?rs) (record_fields ?rs) = Inr outs"
    and vals: "vals = map (\<lambda>(f, v, _). (f, v)) (List.map_filter id outs)"
    and prov: "prov = map (\<lambda>(f, _, pr). (f, pr)) (List.map_filter id outs)"
    unfolding master_values_def Let_def bind_res_Inr by auto
  have kept: "x \<in> set (List.map_filter id outs) \<longleftrightarrow> Some x \<in> set outs" for x
    by (induction outs) (auto simp: map_filter_simps split: option.splits)
  show ?thesis
  proof (intro conjI impI)
    assume "(field, v) \<in> set vals"
    then obtain pr where "Some (field, v, pr) \<in> set outs" by (auto simp: vals kept)
    from map_res_mem [OF outs this] obtain f
      where f: "surviving R p (sources s) ?rs f = Inr (Some (field, v, pr))" by blast
    from surviving_winner [OF f]
    show "\<exists>r \<in> set ?rs. \<exists>rank src. v = dget (sr_original r) field \<and> v \<noteq> JNull \<and>
        option_of p (sources s) field r = Inr (rank, r, src) \<and>
        (\<forall>r' \<in> set ?rs. contributes field r' \<longrightarrow>
          (\<exists>rank' src'. option_of p (sources s) field r' = Inr (rank', r', src') \<and> rank' \<le> rank))"
      unfolding contributes_def by blast
  next
    assume "\<exists>r \<in> set ?rs. contributes field r"
    then obtain r where r: "r \<in> set ?rs" "contributes field r" by blast
    then have "field \<in> set (dkeys (sr_original r))"
      unfolding dkeys_def
      by (cases "map_of (sr_original r) field")
        (auto simp: contributes_def dget_def dest!: map_of_SomeD intro: rev_image_eqI)
    with r(1) have "field \<in> set (record_fields ?rs)" by (auto simp: record_fields_def)
    from map_res_mem' [OF outs this] obtain x
      where x: "x \<in> set outs" "surviving R p (sources s) ?rs field = Inr x" by blast
    from x(2) r surviving_None obtain k v pr where "x = Some (k, v, pr)"
      by (cases x) (fastforce, auto)
    moreover with x(2) surviving_winner have "k = field" by blast
    ultimately show "field \<in> set (dkeys vals)"
      using x(1) kept [of "(field, v, pr)"] by (force simp: vals dkeys_def)
  qed (auto simp: vals prov dkeys_def comp_def case_prod_beta)
qed

text \<open>
  The order in which the database returns rows plays no part in mastering: permuting the
  record and object tables changes neither the values nor their provenance.
\<close>

theorem mastering_ignores_row_order:
  assumes "master_values R sv en p s = Inr out"
    and "mset (records s) = mset (records t)" "mset (objects s) = mset (objects t)"
    and "sources s = sources t" "distinct (map sr_id (records s))"
  shows "master_values R sv en p t = Inr out"
  using assms by (rule master_values_permuted)

text \<open>
  A new draft supersedes the earlier ones: its version is greater than every version of the
  entity so far, the (entity, version) pairs stay unique, and the entity is left with exactly
  one open approval task, bound to the entity version and the draft just made.
\<close>

theorem draft_supersedes_earlier_ones:
  assumes "inj (uuid R)" "tasks_ok R s" "versions_ok R s" "draft_master R sv en s = Inr (d, t)"
  shows "tasks_ok R t \<and> versions_ok R t \<and>
    (\<forall>m \<in> set (masters s). mv_entity m = en_id en \<longrightarrow> mv_version m < mv_version d) \<and>
    (\<exists>task. open_masters (wid sv) (en_id en) t = [task] \<and> rt_bound task = Some (en_version en) \<and>
       rt_payload task = MasterPayload (mv_version d) (mv_values d) (mv_provenance d)) \<and>
    (\<forall>e. e \<noteq> en_id en \<longrightarrow> open_masters (wid sv) e t = open_masters (wid sv) e s)"
proof -
  have "mv_version m < mv_version d" if "m \<in> set (masters s)" "mv_entity m = en_id en" for m
    using latest_version_ge [OF that(1)] that(2) draft_master_masters(2) [OF assms(4)] by simp
  with tasks_ok_draft [OF assms(1,2,4)] versions_ok_draft [OF assms(1,3,4)]
    draft_master_tasks [OF assms(4,2)]
  show ?thesis by auto
qed

section \<open>Witnesses\<close>

definition demo_source :: "ident \<Rightarrow> string \<Rightarrow> int \<Rightarrow> source_row" where
  "demo_source i key priority =
     \<lparr>sc_id = i, sc_ws = ''w1'', sc_key = key, sc_name = key, sc_kind = ''csv'',
      sc_priority = priority, sc_capabilities = [], sc_config = [], sc_checkpoint = [],
      sc_status = ''healthy'', sc_last_ingested = None\<rparr>"

definition demo_record :: "ident \<Rightarrow> ident \<Rightarrow> string \<Rightarrow> time \<Rightarrow> source_record" where
  "demo_record i source name t =
     \<lparr>sr_id = i, sr_ws = ''w1'', sr_source = source, sr_domain = ''supplier'', sr_local = i,
      sr_version = ''1'', sr_original = [(''name'', JStr name)],
      sr_normalized = [(''name'', JStr name)], sr_block = [], sr_verification = [],
      sr_state = Valid, sr_errors = [], sr_observed = t, sr_effective = None,
      sr_entity = Some ''e1''\<rparr>"

definition demo_object :: "ident \<Rightarrow> ident \<Rightarrow> ident \<Rightarrow> source_object" where
  "demo_object i record source =
     \<lparr>ob_id = i, ob_ws = ''w1'', ob_source = source, ob_domain = ''supplier'', ob_local = record,
      ob_entity = Some ''e1'', ob_current = Some record, ob_latest = Some record,
      ob_sequence = None, ob_effective = None, ob_retired = False\<rparr>"

definition demo_entity :: "ident \<Rightarrow> entity" where
  "demo_entity i = \<lparr>en_id = i, en_ws = ''w1'', en_domain = ''supplier'', en_stable_key = i,
     en_status = Candidate, en_version = 1\<rparr>"

definition demo_domain :: domain_row where
  "demo_domain = \<lparr>dm_id = ''d1'', dm_ws = ''w1'', dm_key = ''supplier'', dm_name = ''Supplier'',
     dm_mode = ''coexistence'', dm_schema_version = 1, dm_definition = tax_definition,
     dm_status = ''published''\<rparr>"

definition demo_db :: db where
  "demo_db = empty_db\<lparr>domains := [demo_domain],
     sources := [demo_source ''s1'' ''crm'' 10, demo_source ''s2'' ''erp'' 20],
     records := [demo_record ''r1'' ''s2'' ''Old'' 5, demo_record ''r2'' ''s1'' ''New'' 3],
     objects := [demo_object ''o1'' ''r1'' ''s2'', demo_object ''o2'' ''r2'' ''s1''],
     entities := [demo_entity ''e1'']\<rparr>"

definition demo_swapped :: db where
  "demo_swapped = demo_db\<lparr>records := rev (records demo_db), objects := rev (objects demo_db)\<rparr>"

text \<open>The source of priority 10 wins over the later observation of the source of priority 20.\<close>

lemma demo_values:
  "\<exists>prov. master_values ascii_runtime demo_service ''e1'' tax_policy demo_db =
     Inr ([(''name'', JStr ''New'')], prov)"
proof -
  let ?m = "master_values ascii_runtime demo_service ''e1'' tax_policy demo_db"
  have "map_option fst (case ?m of Inr x \<Rightarrow> Some x | Inl _ \<Rightarrow> None) = Some [(''name'', JStr ''New'')]"
    by code_simp
  then show ?thesis by (cases ?m) auto
qed

lemma demo_swap:
  "mset (records demo_db) = mset (records demo_swapped)"
  "mset (objects demo_db) = mset (objects demo_swapped)"
  "sources demo_db = sources demo_swapped" "distinct (map sr_id (records demo_db))"
  by (simp_all add: demo_swapped_def) (simp add: demo_db_def demo_record_def)

theorem mastered_values_are_the_best_current_ones_witness:
  "\<exists>r \<in> set (current_records demo_service ''e1'' demo_db). \<exists>rank src.
     dget (sr_original r) ''name'' = JStr ''New'' \<and>
     option_of tax_policy (sources demo_db) ''name'' r = Inr (rank, r, src)"
proof -
  from demo_values obtain prov where
    "master_values ascii_runtime demo_service ''e1'' tax_policy demo_db =
       Inr ([(''name'', JStr ''New'')], prov)" by blast
  from mastered_values_are_the_best_current_ones [OF this, of "''name''" "JStr ''New''"]
  show ?thesis by fastforce
qed

theorem mastering_ignores_row_order_witness:
  "\<exists>prov. master_values ascii_runtime demo_service ''e1'' tax_policy demo_swapped =
     Inr ([(''name'', JStr ''New'')], prov)"
  using demo_values mastering_ignores_row_order [OF _ demo_swap] by blast

text \<open>An entity without records gets an empty draft.\<close>

lemma demo_draft: "\<exists>d t. draft_master ascii_runtime demo_service (demo_entity ''e2'') demo_db = Inr (d, t)"
proof -
  obtain p where p: "compile_policy ascii_runtime tax_definition = Inr p"
    using tax_definition_compiles by blast
  have "current_records demo_service ''e2'' demo_db = []"
    by (simp add: current_records_def demo_db_def empty_db_def demo_object_def)
  then have "master_values ascii_runtime demo_service ''e2'' p demo_db = Inr ([], [])"
    by (simp add: master_values_def record_fields_def sorted_set_def map_filter_simps)
  moreover have "find_domain demo_service (en_domain (demo_entity ''e2'')) demo_db = Some demo_domain"
    by (simp add: find_domain_def demo_db_def demo_service_def demo_domain_def demo_entity_def)
  ultimately show ?thesis
    using p by (simp add: draft_master_def demo_domain_def demo_entity_def Let_def split: prod.splits)
qed

lemma demo_tasks: "tasks_ok ascii_runtime demo_db" "versions_ok ascii_runtime demo_db"
  by (simp_all add: tasks_ok_def versions_ok_def open_masters_def demo_db_def empty_db_def)

theorem draft_supersedes_earlier_ones_witness:
  "\<exists>d t. draft_master ascii_runtime demo_service (demo_entity ''e2'') demo_db = Inr (d, t) \<and>
     versions_ok ascii_runtime t \<and> (\<exists>task. open_masters (wid demo_service) ''e2'' t = [task] \<and> rt_bound task = Some 1)"
proof -
  from demo_draft obtain d t where
    d: "draft_master ascii_runtime demo_service (demo_entity ''e2'') demo_db = Inr (d, t)" by blast
  from draft_supersedes_earlier_ones [OF ascii_uuid demo_tasks d] d show ?thesis
    by (auto simp: demo_entity_def)
qed

text \<open>
  A default survivorship rule given with settings compiles, but mastering a verified value with
  it raises: the code asks the settings document itself whether it starts with \<open>verified\<close>.
\<close>

lemma default_rule_with_settings_breaks_mastering:
  fixes rule
  defines "rule \<equiv> JObj [(''strategy'', JStr ''verified_then_source_priority_then_observation_time'')]"
  shows "check_survivorship_rule rule = Inr () \<and>
    verified_rank (tax_policy\<lparr>survivorship := [(''default'', rule)]\<rparr>) [] True =
      Inl (PyError ''AttributeError'')"
  by (simp add: rule_def check_survivorship_rule_def only_keys_def in_names_def dget_def dget_or_def
      survivorship_strategies_def verified_rank_def dkeys_def)

end
