(* ===== verification/Resolve.thy ===== *)
theory Resolve
  imports Mastering
begin

text \<open>
  Entity resolution of a new current record (\<open>_resolve\<close>): candidates by blocking key, pairwise
  comparison, cannot-link and cluster checks, and the link, the review task or the new entity.
  \<open>matching.compare\<close> wraps \<^const>\<open>compare_records\<close> with the policy's name.
\<close>

section \<open>The matching interface\<close>

text \<open>
  What resolution relies on in a matcher: a link is also a candidate, a candidate has no hard
  conflict, and for one left record a pair that scores at least as much as a linked pair and has
  no conflict is linked too.
\<close>

locale pair_matcher =
  fixes cmp :: "'r \<Rightarrow> 'r \<Rightarrow> 'm res"
    and linked :: "'m \<Rightarrow> bool"
    and candidate :: "'m \<Rightarrow> bool"
    and conflict :: "'m \<Rightarrow> bool"
    and points :: "'m \<Rightarrow> real"
  assumes linked_candidate: "linked m \<Longrightarrow> candidate m"
    and candidate_no_conflict: "cmp l r = Inr m \<Longrightarrow> candidate m \<Longrightarrow> \<not> conflict m"
    and linked_mono: "cmp l r = Inr m \<Longrightarrow> cmp l r' = Inr m' \<Longrightarrow> linked m \<Longrightarrow> \<not> conflict m' \<Longrightarrow>
      points m \<le> points m' \<Longrightarrow> linked m'"
begin

lemma linked_no_conflict: "cmp l r = Inr m \<Longrightarrow> linked m \<Longrightarrow> \<not> conflict m"
  using linked_candidate candidate_no_conflict by blast

text \<open>If any candidate would be linked, the one with the most points is.\<close>

lemma best_is_linked:
  assumes "cmp l r = Inr m" "cmp l r' = Inr m'" "linked m" "candidate m'" "points m \<le> points m'"
  shows "linked m'"
  using linked_mono [OF assms(1,2,3)] candidate_no_conflict [OF assms(2,4)] assms(5) by blast

end

definition is_candidate :: "match_result \<Rightarrow> bool" where
  "is_candidate m \<longleftrightarrow> match_decision m = AutoLink \<or> match_decision m = Review"

definition has_conflict :: "match_result \<Rightarrow> bool" where
  "has_conflict m \<longleftrightarrow> contradictions m \<noteq> []"

lemma decide_AutoLink:
  "decide p cs x = AutoLink \<longleftrightarrow> cs = [] \<and> auto_link_threshold p \<le> x"
  by (simp add: decide_def)

lemma decide_candidate:
  "decide p cs x = AutoLink \<or> decide p cs x = Review \<Longrightarrow> cs = []"
  by (auto simp: decide_def split: if_splits)

interpretation policy_matcher:
  pair_matcher "\<lambda>(l :: source_record) (r :: source_record). compare_records R p (sr_normalized l) (sr_normalized r)"
    "\<lambda>m. match_decision m = AutoLink" is_candidate has_conflict score
  for R :: runtime and p :: compiled_policy
proof
  show "is_candidate m" if "match_decision m = AutoLink" for m
    using that by (simp add: is_candidate_def)
  show "\<not> has_conflict m"
    if "compare_records R p (sr_normalized l) (sr_normalized r) = Inr m" "is_candidate m"
    for l r :: source_record and m
    using compare_decide [OF that(1)] that(2) decide_candidate
    by (auto simp: is_candidate_def has_conflict_def)
  show "match_decision m' = AutoLink"
    if "compare_records R p (sr_normalized l) (sr_normalized r) = Inr m"
      "compare_records R p (sr_normalized l) (sr_normalized r') = Inr m'"
      "match_decision m = AutoLink" "\<not> has_conflict m'" "score m \<le> score m'"
    for l r r' :: source_record and m m'
  proof -
    have "decide p (contradictions m) (score m) = AutoLink"
      using compare_decide [OF that(1)] that(3) by simp
    then have "auto_link_threshold p \<le> score m'" using that(5) by (simp add: decide_AutoLink)
    with that(4) show ?thesis
      using compare_decide [OF that(2)] by (simp add: decide_AutoLink has_conflict_def)
  qed
qed

section \<open>Candidates\<close>

definition candidate_rows ::
    "service \<Rightarrow> source_record \<Rightarrow> string list \<Rightarrow> db \<Rightarrow> (source_record \<times> source_object) list" where
  "candidate_rows sv rec keys s =
     concat (map (\<lambda>r. concat (map (\<lambda>b. map (\<lambda>_. (r, b))
       (filter (\<lambda>k. cb_record k = sr_id r \<and> cb_key k \<in> set keys \<and>
                    ob_current b = Some (sr_id r) \<and> sr_ws r = wid sv \<and>
                    sr_domain r = sr_domain rec \<and> sr_id r \<noteq> sr_id rec \<and> sr_state r = Valid \<and>
                    ob_entity b \<noteq> None \<and> \<not> ob_retired b) (blocks s))) (objects s))) (records s))"

definition candidates ::
    "service \<Rightarrow> source_record \<Rightarrow> string list \<Rightarrow> db \<Rightarrow> (source_record \<times> source_object) list res" where
  "candidates sv rec keys s =
     (if keys = [] then Inr []
      else let rows = take 201 (candidate_rows sv rec keys s) in
        bind_res (guard_res (length rows \<le> 200) (HTTPException 409 ''candidate_block_overflow''))
          (\<lambda>_. Inr rows))"

text \<open>\<open>any(...)\<close>: members after the first conflict are not compared.\<close>

fun cluster_conflict ::
    "runtime \<Rightarrow> compiled_policy \<Rightarrow> dict \<Rightarrow> source_record list \<Rightarrow> bool res" where
  "cluster_conflict R p left [] = Inr False"
| "cluster_conflict R p left (r # rs) =
     bind_res (compare_records R p left (sr_normalized r)) (\<lambda>m.
     if has_conflict m then Inr True else cluster_conflict R p left rs)"

type_synonym scored = "match_result \<times> source_record \<times> source_object"

definition better :: "match_result \<Rightarrow> scored option \<Rightarrow> bool" where
  "better m best = (case best of None \<Rightarrow> True | Some (m', _) \<Rightarrow> score m' < score m)"

definition consider_row ::
    "runtime \<Rightarrow> service \<Rightarrow> compiled_policy \<Rightarrow> db \<Rightarrow> ident \<Rightarrow> source_record \<Rightarrow>
     source_record \<times> source_object \<Rightarrow> ident list \<times> scored option \<Rightarrow>
     (ident list \<times> scored option) res" where
  "consider_row R sv p s ob rec row st =
     (case (row, st) of ((cand, cob), (seen, best)) \<Rightarrow>
        if ob_id cob \<in> set seen then Inr (seen, best)
        else
          bind_res (compare_records R p (sr_normalized rec) (sr_normalized cand)) (\<lambda>m.
          let seen' = ob_id cob # seen in
          if is_cannot_link sv ob (ob_id cob) s then Inr (seen', best)
          else case (is_candidate m, ob_entity cob) of
            (True, Some e) \<Rightarrow>
              bind_res (cluster_conflict R p (sr_normalized rec) (current_records sv e s)) (\<lambda>conflict.
              Inr (seen', if \<not> conflict \<and> better m best then Some (m, cand, cob) else best))
          | _ \<Rightarrow> Inr (seen', best)))"

definition best_candidate ::
    "runtime \<Rightarrow> service \<Rightarrow> compiled_policy \<Rightarrow> db \<Rightarrow> ident \<Rightarrow> source_record \<Rightarrow>
     (source_record \<times> source_object) list \<Rightarrow> scored option res" where
  "best_candidate R sv p s ob rec rows =
     bind_res (fold_res (consider_row R sv p s ob rec) rows ([], None)) (\<lambda>(_, best). Inr best)"

section \<open>The outcome\<close>

datatype outcome = Linked | NeedsReview | Created

definition decision_name :: "decision \<Rightarrow> string" where
  "decision_name d = (case d of AutoLink \<Rightarrow> ''auto_link'' | Review \<Rightarrow> ''review''
     | NoLink \<Rightarrow> ''no_link'' | KeepSeparate \<Rightarrow> ''keep_separate'')"

definition evidence_json :: "evidence_item \<Rightarrow> json" where
  "evidence_json e = JObj
     ([(''field'', ev_field e), (''comparator'', ev_comparator e), (''score'', JFloat (ev_score e)),
       (''weight'', JFloat (ev_weight e))] @
      (case ev_log_likelihood_ratio e of None \<Rightarrow> []
       | Some x \<Rightarrow> [(''log_likelihood_ratio'', JFloat x)]))"

definition contradiction_json :: "contradiction \<Rightarrow> json" where
  "contradiction_json c = JObj
     [(''field'', con_field c), (''namespace'', con_namespace c), (''left'', con_left c),
      (''right'', con_right c), (''rule'', JStr ''hard_identifier_conflict'')]"

definition match_document :: "compiled_policy \<Rightarrow> match_result \<Rightarrow> dict" where
  "match_document p m =
     [(''score'', JFloat (score m)), (''decision'', JStr (decision_name (match_decision m))),
      (''evidence'', JList (map evidence_json (match_evidence m))),
      (''contradictions'', JList (map contradiction_json (contradictions m))),
      (''score_kind'', JStr (score_kind m)),
      (''policy_version'', JStr (''policy:'' @ pol_version p @ '':'' @ take 12 (checksum p)))]"

definition modify_entity :: "ident \<Rightarrow> (entity \<Rightarrow> entity) \<Rightarrow> db \<Rightarrow> db" where
  "modify_entity i f s = s\<lparr>entities := row_modify en_id i f (entities s)\<rparr>"

definition bump :: "entity \<Rightarrow> entity" where
  "bump e = e\<lparr>en_version := en_version e + 1\<rparr>"

definition stable_key :: "runtime \<Rightarrow> json list \<Rightarrow> string" where
  "stable_key R parts = ''rl_'' @ take 20 (canonical_hash R (JList parts))"

text \<open>A new entity row; \<open>stable_key\<close> is unique.\<close>

definition add_entity :: "runtime \<Rightarrow> service \<Rightarrow> string \<Rightarrow> string \<Rightarrow> entity op" where
  "add_entity R sv domain key s =
     (let e = \<lparr>en_id = next_id R s, en_ws = wid sv, en_domain = domain, en_stable_key = key,
               en_status = Candidate, en_version = 1\<rparr>
      in bind_res (guard_res (key \<notin> en_stable_key ` set (entities s)) (IntegrityError ''entities''))
           (\<lambda>_. Inr (e, s\<lparr>entities := row_add e (entities s), ticks := Suc (ticks s)\<rparr>)))"

definition match_task ::
    "runtime \<Rightarrow> service \<Rightarrow> compiled_policy \<Rightarrow> entity \<Rightarrow> source_record \<Rightarrow> ident \<Rightarrow> scored \<Rightarrow>
     ident \<Rightarrow> int \<Rightarrow> db \<Rightarrow> review_task" where
  "match_task R sv p en rec ob best target bound s =
     (case best of (m, cand, cob) \<Rightarrow>
        \<lparr>rt_id = next_id R s, rt_ws = wid sv, rt_kind = DuplicateMatch, rt_entity = Some (en_id en),
         rt_status = OpenTask, rt_priority = ''normal'', rt_assignee = None,
         rt_proposed_by = ''matching-engine'',
         rt_payload = MatchPayload
           \<lparr>mp_left_record = sr_id rec, mp_right_record = sr_id cand, mp_left_object = Some ob,
            mp_right_object = Some (ob_id cob), mp_target = target, mp_bound_target = bound,
            mp_evidence = match_document p m\<rparr>,
         rt_bound = Some (en_version en), rt_sensitive = False, rt_reason = None,
         rt_decided_by = None, rt_due = None\<rparr>)"

definition create_entity ::
    "runtime \<Rightarrow> service \<Rightarrow> compiled_policy \<Rightarrow> source_record \<Rightarrow> ident \<Rightarrow> scored option \<Rightarrow>
     (ident \<times> outcome) op" where
  "create_entity R sv p rec ob best s =
     bind_res (add_entity R sv (sr_domain rec) (stable_key R [JStr (wid sv), JStr (sr_id rec)]) s)
       (\<lambda>(en, s1).
     case best of
       None \<Rightarrow> Inr ((en_id en, Created), s1)
     | Some (m, cand, cob) \<Rightarrow>
         bind_res (from_option (PyError ''AttributeError'')
             (Option.bind (ob_entity cob) (\<lambda>e. row_get en_id e (entities s1)))) (\<lambda>target.
         Inr ((en_id en, NeedsReview),
              add_task (match_task R sv p en rec ob (m, cand, cob) (en_id target)
                          (en_version target) s1) s1)))"

definition link_target :: "scored option \<Rightarrow> db \<Rightarrow> entity option" where
  "link_target best s =
     (case best of
        Some (m, _, cob) \<Rightarrow>
          if match_decision m = AutoLink
          then Option.bind (ob_entity cob) (\<lambda>e. row_get en_id e (entities s)) else None
      | None \<Rightarrow> None)"

definition resolve ::
    "runtime \<Rightarrow> service \<Rightarrow> compiled_policy \<Rightarrow> source_record \<Rightarrow> ident \<Rightarrow> string list \<Rightarrow>
     (ident \<times> outcome) op" where
  "resolve R sv p rec ob keys s =
     bind_res (candidates sv rec keys s) (\<lambda>rows.
     bind_res (best_candidate R sv p s ob rec rows) (\<lambda>best.
     case link_target best s of
       Some en \<Rightarrow> Inr ((en_id en, Linked), modify_entity (en_id en) bump s)
     | None \<Rightarrow> create_entity R sv p rec ob best s))"


section \<open>The best candidate\<close>

text \<open>A row that resolution may choose: a candidate pair, not forbidden, no conflict in the cluster.\<close>

definition eligible ::
    "runtime \<Rightarrow> service \<Rightarrow> compiled_policy \<Rightarrow> db \<Rightarrow> ident \<Rightarrow> source_record \<Rightarrow> scored \<Rightarrow> bool" where
  "eligible R sv p s ob rec x \<longleftrightarrow>
     (case x of (m, cand, cob) \<Rightarrow>
        compare_records R p (sr_normalized rec) (sr_normalized cand) = Inr m \<and> is_candidate m \<and>
        \<not> is_cannot_link sv ob (ob_id cob) s \<and>
        (\<exists>e. ob_entity cob = Some e \<and>
           cluster_conflict R p (sr_normalized rec) (current_records sv e s) = Inr False))"

lemma cluster_conflict_False:
  "cluster_conflict R p left rs = Inr False \<longleftrightarrow>
   (\<forall>r \<in> set rs. \<exists>m. compare_records R p left (sr_normalized r) = Inr m \<and> contradictions m = [])"
  by (induction rs) (auto simp: res_elim has_conflict_def split: if_splits)

definition scan_inv ::
    "runtime \<Rightarrow> service \<Rightarrow> compiled_policy \<Rightarrow> db \<Rightarrow> ident \<Rightarrow> source_record \<Rightarrow>
     (source_record \<times> source_object) list \<Rightarrow> ident list \<times> scored option \<Rightarrow> bool" where
  "scan_inv R sv p s ob rec rows st \<longleftrightarrow>
     (\<forall>x. snd st = Some x \<longrightarrow> eligible R sv p s ob rec x \<and> snd x \<in> set rows) \<and>
     set (fst st) = ob_id ` snd ` set rows \<and>
     (\<forall>i \<in> set (fst st). \<exists>cand cob. (cand, cob) \<in> set rows \<and> ob_id cob = i \<and>
        (\<forall>m. eligible R sv p s ob rec (m, cand, cob) \<longrightarrow>
           (\<exists>x. snd st = Some x \<and> score m \<le> score (fst x))))"

lemma better_keeps:
  "(\<exists>x. best = Some x \<and> y \<le> score (fst x)) \<Longrightarrow>
   \<exists>x. (if better m best then Some (m, cand, cob) else best) = Some x \<and> y \<le> score (fst x)"
  by (auto simp: better_def)

lemma consider_row_seen:
  "ob_id cob \<in> set seen \<Longrightarrow> consider_row R sv p s ob rec (cand, cob) (seen, best) = Inr (seen, best)"
  by (simp add: consider_row_def)

lemma consider_row_new:
  assumes "consider_row R sv p s ob rec (cand, cob) (seen, best) = Inr (seen', best')"
    and "ob_id cob \<notin> set seen"
  shows "seen' = ob_id cob # seen \<and>
    (best' = best \<and> (\<forall>m. \<not> eligible R sv p s ob rec (m, cand, cob)) \<or>
     (\<exists>m. eligible R sv p s ob rec (m, cand, cob) \<and>
        best' = (if better m best then Some (m, cand, cob) else best)))"
proof -
  from assms obtain m where m: "compare_records R p (sr_normalized rec) (sr_normalized cand) = Inr m"
    by (cases "compare_records R p (sr_normalized rec) (sr_normalized cand)")
      (simp_all add: consider_row_def)
  show ?thesis
  proof (cases "is_cannot_link sv ob (ob_id cob) s")
    case True
    with assms m show ?thesis by (simp add: consider_row_def eligible_def)
  next
    case banned: False
    show ?thesis
    proof (cases "is_candidate m")
      case False
      with assms m banned show ?thesis by (simp add: consider_row_def eligible_def)
    next
      case cand: True
      show ?thesis
      proof (cases "ob_entity cob")
        case None
        with assms m banned cand show ?thesis by (simp add: consider_row_def eligible_def)
      next
        case (Some e)
        with assms m banned cand obtain c
          where c: "cluster_conflict R p (sr_normalized rec) (current_records sv e s) = Inr c"
          by (cases "cluster_conflict R p (sr_normalized rec) (current_records sv e s)")
            (simp_all add: consider_row_def)
        with assms m banned cand Some show ?thesis
          by (cases c) (auto simp: consider_row_def eligible_def)
      qed
    qed
  qed
qed

lemma scan_inv_step:
  assumes inv: "scan_inv R sv p s ob rec past st"
    and step: "consider_row R sv p s ob rec row st = Inr st'"
  shows "scan_inv R sv p s ob rec (past @ [row]) st'"
proof -
  obtain cand cob seen best seen' best' where row: "row = (cand, cob)" and st: "st = (seen, best)"
    and st': "st' = (seen', best')" by (metis prod.exhaust)
  have old: "\<forall>x. best = Some x \<longrightarrow> eligible R sv p s ob rec x \<and> snd x \<in> set past"
    and seen: "set seen = ob_id ` snd ` set past"
    and top: "\<And>i. i \<in> set seen \<Longrightarrow> \<exists>c b. (c, b) \<in> set past \<and> ob_id b = i \<and>
      (\<forall>m. eligible R sv p s ob rec (m, c, b) \<longrightarrow> (\<exists>x. best = Some x \<and> score m \<le> score (fst x)))"
    using inv by (auto simp: scan_inv_def st)
  show ?thesis
  proof (cases "ob_id cob \<in> set seen")
    case True
    with step have same: "seen' = seen" "best' = best"
      by (simp_all add: row st st' consider_row_seen)
    have all: "set seen = ob_id ` snd ` set (past @ [row])" using seen True by (simp add: row insert_absorb)
    have "\<forall>i \<in> set seen. \<exists>c b. (c, b) \<in> set (past @ [row]) \<and> ob_id b = i \<and>
        (\<forall>m. eligible R sv p s ob rec (m, c, b) \<longrightarrow> (\<exists>x. best = Some x \<and> score m \<le> score (fst x)))"
      using top by (metis UnCI set_append)
    with all old show ?thesis by (simp add: scan_inv_def st' same)
  next
    case False
    from consider_row_new [OF step [unfolded row st st'] False]
    have s': "seen' = ob_id cob # seen" and
      b': "best' = best \<and> (\<forall>m. \<not> eligible R sv p s ob rec (m, cand, cob)) \<or>
       (\<exists>m. eligible R sv p s ob rec (m, cand, cob) \<and>
          best' = (if better m best then Some (m, cand, cob) else best))" by blast+
    have keep: "\<exists>x. best = Some x \<and> y \<le> score (fst x) \<Longrightarrow> \<exists>x. best' = Some x \<and> y \<le> score (fst x)" for y
      using b' better_keeps by metis
    have new: "\<exists>x. best' = Some x \<and> score m \<le> score (fst x)" if e: "eligible R sv p s ob rec (m, cand, cob)" for m
    proof -
      from b' e obtain m' where m': "eligible R sv p s ob rec (m', cand, cob)"
        "best' = (if better m' best then Some (m', cand, cob) else best)" by blast
      with e have "m' = m" by (simp add: eligible_def)
      with m'(2) show ?thesis by (auto simp: better_def split: option.splits if_splits)
    qed
    have "\<forall>x. best' = Some x \<longrightarrow> eligible R sv p s ob rec x \<and> snd x \<in> set (past @ [row])"
      using b' old by (auto simp: row split: if_splits)
    moreover have "set seen' = ob_id ` snd ` set (past @ [row])" using seen by (simp add: s' row)
    moreover have "\<exists>c b. (c, b) \<in> set (past @ [row]) \<and> ob_id b = i \<and>
        (\<forall>m. eligible R sv p s ob rec (m, c, b) \<longrightarrow> (\<exists>x. best' = Some x \<and> score m \<le> score (fst x)))"
      if "i \<in> set seen'" for i
    proof (cases "i = ob_id cob")
      case True
      with new show ?thesis by (auto simp: row)
    next
      case False
      with that have "i \<in> set seen" by (simp add: s')
      from top [OF this] keep show ?thesis by (metis UnCI set_append)
    qed
    ultimately show ?thesis by (simp add: scan_inv_def st')
  qed
qed

lemma fold_scan_inv:
  "scan_inv R sv p s ob rec past st \<Longrightarrow> fold_res (consider_row R sv p s ob rec) rows st = Inr st' \<Longrightarrow>
   scan_inv R sv p s ob rec (past @ rows) st'"
proof (induction rows arbitrary: past st)
  case Nil
  then show ?case by simp
next
  case (Cons row rows)
  from Cons.prems(2) obtain u where "consider_row R sv p s ob rec row st = Inr u"
    "fold_res (consider_row R sv p s ob rec) rows u = Inr st'" by (auto simp: res_elim)
  with Cons.IH [of "past @ [row]" u] scan_inv_step [OF Cons.prems(1)] show ?case by simp
qed

lemma best_candidate_inv:
  assumes "best_candidate R sv p s ob rec rows = Inr best"
  shows "\<exists>seen. scan_inv R sv p s ob rec rows (seen, best)"
proof -
  from assms obtain seen where
    "fold_res (consider_row R sv p s ob rec) rows ([], None) = Inr (seen, best)"
    by (auto simp: best_candidate_def res_elim)
  moreover have "scan_inv R sv p s ob rec [] ([], None)" by (simp add: scan_inv_def)
  ultimately show ?thesis using fold_scan_inv by fastforce
qed


lemma candidate_rows_mem:
  "(r, b) \<in> set (candidate_rows sv rec keys s) \<longleftrightarrow>
   r \<in> set (records s) \<and> b \<in> set (objects s) \<and>
   (\<exists>k \<in> set (blocks s). cb_record k = sr_id r \<and> cb_key k \<in> set keys) \<and>
   ob_current b = Some (sr_id r) \<and> sr_ws r = wid sv \<and> sr_domain r = sr_domain rec \<and>
   sr_id r \<noteq> sr_id rec \<and> sr_state r = Valid \<and> ob_entity b \<noteq> None \<and> \<not> ob_retired b"
  by (auto simp: candidate_rows_def)

text \<open>Candidates are all of the candidate rows, or the call fails: nothing is cut off silently.\<close>

lemma candidates_complete:
  assumes "candidates sv rec keys s = Inr rows"
  shows "rows = candidate_rows sv rec keys s"
proof (cases "keys = []")
  case True
  with assms show ?thesis by (auto simp: candidates_def candidate_rows_def)
next
  case False
  with assms have "rows = take 201 (candidate_rows sv rec keys s)"
    "length (take 201 (candidate_rows sv rec keys s)) \<le> 200"
    by (auto simp: candidates_def Let_def res_elim)
  then show ?thesis by (auto simp: min_def split: if_splits)
qed

text \<open>What the scan returns: an eligible candidate row, and none of them scores more.\<close>

definition best_of ::
    "runtime \<Rightarrow> service \<Rightarrow> compiled_policy \<Rightarrow> db \<Rightarrow> ident \<Rightarrow> source_record \<Rightarrow> string list \<Rightarrow>
     scored option \<Rightarrow> bool" where
  "best_of R sv p s ob rec keys best \<longleftrightarrow>
     (\<forall>x. best = Some x \<longrightarrow> eligible R sv p s ob rec x \<and> snd x \<in> set (candidate_rows sv rec keys s)) \<and>
     (\<forall>x. eligible R sv p s ob rec x \<longrightarrow> snd x \<in> set (candidate_rows sv rec keys s) \<longrightarrow>
       (\<exists>y. best = Some y \<and> score (fst x) \<le> score (fst y)))"

lemma best_of_eligible:
  "best_of R sv p s ob rec keys (Some x) \<Longrightarrow>
   eligible R sv p s ob rec x \<and> snd x \<in> set (candidate_rows sv rec keys s)"
  by (simp add: best_of_def)

lemma best_of_top:
  "best_of R sv p s ob rec keys best \<Longrightarrow> eligible R sv p s ob rec x \<Longrightarrow>
   snd x \<in> set (candidate_rows sv rec keys s) \<Longrightarrow>
   \<exists>y. best = Some y \<and> score (fst x) \<le> score (fst y)"
  unfolding best_of_def by blast

lemma resolve_best:
  assumes "resolve R sv p rec ob keys s = Inr (out, t)"
    and "distinct (map ob_id (objects s))" "distinct (map sr_id (records s))"
  shows "\<exists>best. best_of R sv p s ob rec keys best \<and>
    (case link_target best s of
       Some en \<Rightarrow> out = (en_id en, Linked) \<and> t = modify_entity (en_id en) bump s
     | None \<Rightarrow> create_entity R sv p rec ob best s = Inr (out, t))"
proof -
  from assms(1) obtain rows best where rows: "candidates sv rec keys s = Inr rows"
    and best: "best_candidate R sv p s ob rec rows = Inr best"
    and out: "(case link_target best s of
       Some en \<Rightarrow> Inr ((en_id en, Linked), modify_entity (en_id en) bump s)
     | None \<Rightarrow> create_entity R sv p rec ob best s) = Inr (out, t)"
    unfolding resolve_def bind_res_Inr by blast
  note all = candidates_complete [OF rows]
  from best_candidate_inv [OF best] obtain seen where inv: "scan_inv R sv p s ob rec rows (seen, best)" ..
  have "\<exists>y. best = Some y \<and> score (fst x) \<le> score (fst y)"
    if x: "eligible R sv p s ob rec x" "snd x \<in> set rows" for x
  proof -
    obtain m cand cob where xs: "x = (m, cand, cob)" by (cases x)
    have "ob_id cob \<in> ob_id ` snd ` set rows" using x(2) by (force simp: xs)
    then have "ob_id cob \<in> set seen" using inv by (simp add: scan_inv_def)
    with inv obtain c b where cb: "(c, b) \<in> set rows" "ob_id b = ob_id cob"
      "\<And>m. eligible R sv p s ob rec (m, c, b) \<Longrightarrow> \<exists>x. best = Some x \<and> score m \<le> score (fst x)"
      unfolding scan_inv_def by (metis fst_conv snd_conv)
    have mem: "c \<in> set (records s)" "cand \<in> set (records s)" "b \<in> set (objects s)"
      "cob \<in> set (objects s)" "ob_current b = Some (sr_id c)" "ob_current cob = Some (sr_id cand)"
      using cb(1) x(2) by (simp_all add: all xs candidate_rows_mem)
    have "b = cob" using find_key_unique [OF assms(2) mem(3,4) cb(2)] .
    moreover from this have "c = cand"
      using find_key_unique [OF assms(3) mem(1,2)] mem(5,6) by simp
    ultimately show ?thesis using cb(3) x(1) by (simp add: xs)
  qed
  moreover have "\<forall>x. best = Some x \<longrightarrow> eligible R sv p s ob rec x \<and> snd x \<in> set rows"
    using inv by (simp add: scan_inv_def)
  ultimately have "best_of R sv p s ob rec keys best" by (simp add: best_of_def all)
  moreover have "case link_target best s of
       Some en \<Rightarrow> out = (en_id en, Linked) \<and> t = modify_entity (en_id en) bump s
     | None \<Rightarrow> create_entity R sv p rec ob best s = Inr (out, t)"
    using out by (cases "link_target best s") auto
  ultimately show ?thesis by blast
qed

section \<open>What resolution changes\<close>

lemma modify_entity_frame [frame_simps]:
  "workspaces (modify_entity i f s) = workspaces s" "domains (modify_entity i f s) = domains s"
  "sources (modify_entity i f s) = sources s" "records (modify_entity i f s) = records s"
  "metas (modify_entity i f s) = metas s" "objects (modify_entity i f s) = objects s"
  "runs (modify_entity i f s) = runs s" "blocks (modify_entity i f s) = blocks s"
  "history (modify_entity i f s) = history s" "masters (modify_entity i f s) = masters s"
  "tasks (modify_entity i f s) = tasks s" "record_bans (modify_entity i f s) = record_bans s"
  "object_bans (modify_entity i f s) = object_bans s"
  "relationships (modify_entity i f s) = relationships s"
  "configurations (modify_entity i f s) = configurations s"
  "simulations (modify_entity i f s) = simulations s" "events (modify_entity i f s) = events s"
  "jobs (modify_entity i f s) = jobs s" "audits (modify_entity i f s) = audits s"
  "ticks (modify_entity i f s) = ticks s"
  "entities (modify_entity i f s) = row_modify en_id i f (entities s)"
  by (simp_all add: modify_entity_def)

lemma create_entity_cases:
  assumes "create_entity R sv p rec ob best s = Inr ((i, oc), t)"
  shows "\<exists>e. i = en_id e \<and> en_id e = next_id R s \<and> en_ws e = wid sv \<and> en_domain e = sr_domain rec \<and>
    en_version e = 1 \<and>
    (oc = Created \<and> best = None \<and> t = s\<lparr>entities := row_add e (entities s), ticks := Suc (ticks s)\<rparr> \<or>
     oc = NeedsReview \<and> best \<noteq> None \<and> (\<exists>task. rt_kind task = DuplicateMatch \<and>
       rt_id task = uuid R (Suc (ticks s)) \<and> rt_entity task = Some i \<and> rt_status task = OpenTask \<and>
       t = add_task task (s\<lparr>entities := row_add e (entities s), ticks := Suc (ticks s)\<rparr>)))"
proof -
  from assms obtain e s1 where e: "add_entity R sv (sr_domain rec)
      (stable_key R [JStr (wid sv), JStr (sr_id rec)]) s = Inr (e, s1)"
    and rest: "(case best of None \<Rightarrow> Inr ((en_id e, Created), s1)
      | Some (m, cand, cob) \<Rightarrow>
         bind_res (from_option (PyError ''AttributeError'')
             (Option.bind (ob_entity cob) (\<lambda>e. row_get en_id e (entities s1)))) (\<lambda>target.
         Inr ((en_id e, NeedsReview),
              add_task (match_task R sv p e rec ob (m, cand, cob) (en_id target)
                          (en_version target) s1) s1))) = Inr ((i, oc), t)"
    unfolding create_entity_def bind_res_Inr by auto
  have s1: "s1 = s\<lparr>entities := row_add e (entities s), ticks := Suc (ticks s)\<rparr>"
    and f: "en_id e = next_id R s" "en_ws e = wid sv" "en_domain e = sr_domain rec" "en_version e = 1"
    using e by (auto simp: add_entity_def Let_def res_elim)
  show ?thesis
  proof (cases best)
    case None
    with rest s1 f show ?thesis by auto
  next
    case (Some x)
    obtain m cand cob where x: "x = (m, cand, cob)" by (cases x)
    from rest obtain target :: entity where
      "en_id e = i \<and> NeedsReview = oc"
      "add_task (match_task R sv p e rec ob (m, cand, cob) (en_id target) (en_version target) s1) s1 = t"
      unfolding Some x by (simp only: option.case prod.case bind_res_Inr sum.inject prod.inject) blast
    moreover define task where
      "task = match_task R sv p e rec ob (m, cand, cob) (en_id target) (en_version target) s1"
    moreover have "rt_kind task = DuplicateMatch" "rt_id task = uuid R (Suc (ticks s))"
      "rt_entity task = Some (en_id e)" "rt_status task = OpenTask"
      by (simp_all add: task_def match_task_def next_id_def s1)
    ultimately show ?thesis using f Some s1 by blast
  qed
qed

lemma resolve_cases:
  assumes "resolve R sv p rec ob keys s = Inr ((i, oc), t)"
  shows "(oc = Linked \<and> i \<in> en_id ` set (entities s) \<and> t = modify_entity i bump s) \<or>
    (\<exists>best. create_entity R sv p rec ob best s = Inr ((i, oc), t))"
proof -
  from assms obtain best where
    out: "(case link_target best s of
       Some en \<Rightarrow> Inr ((en_id en, Linked), modify_entity (en_id en) bump s)
     | None \<Rightarrow> create_entity R sv p rec ob best s) = Inr ((i, oc), t)"
    unfolding resolve_def bind_res_Inr by blast
  show ?thesis
  proof (cases "link_target best s")
    case None
    with out show ?thesis by auto
  next
    case (Some en)
    then have "en \<in> set (entities s)"
      by (auto simp: link_target_def bind_eq_Some_conv split: option.splits if_splits dest: row_get_mem)
    with out Some show ?thesis by auto
  qed
qed

lemma resolve_frame:
  assumes "resolve R sv p rec ob keys s = Inr (out, t)"
  shows "domains t = domains s" "sources t = sources s" "records t = records s" "metas t = metas s"
    "objects t = objects s" "blocks t = blocks s" "history t = history s" "masters t = masters s"
    "audits t = audits s" "object_bans t = object_bans s" "ticks s \<le> ticks t" "runs t = runs s"
    "events t = events s" "configurations t = configurations s" "record_bans t = record_bans s"
proof -
  obtain i oc where "out = (i, oc)" by (cases out)
  from resolve_cases [OF assms [unfolded this]]
  show "domains t = domains s" "sources t = sources s" "records t = records s" "metas t = metas s"
    "objects t = objects s" "blocks t = blocks s" "history t = history s" "masters t = masters s"
    "audits t = audits s" "object_bans t = object_bans s" "ticks s \<le> ticks t" "runs t = runs s"
    "events t = events s" "configurations t = configurations s" "record_bans t = record_bans s"
    by (auto simp: frame_simps add_task_def dest!: create_entity_cases)
qed

lemma resolve_entity:
  assumes "resolve R sv p rec ob keys s = Inr ((i, oc), t)"
  shows "i \<in> en_id ` set (entities t)"
proof -
  have "en_id ` set (entities (modify_entity i bump s)) = en_id ` set (entities s)"
    using arg_cong [OF row_keys_modify [of en_id bump i "entities s"], of set]
    by (simp add: frame_simps bump_def)
  then show ?thesis
    using resolve_cases [OF assms] by (auto simp: add_task_def dest!: create_entity_cases)
qed

section \<open>Properties\<close>

text \<open>
  C30. A new record is linked automatically only through a candidate of its own workspace and domain
  that shares a blocking key and decides \<open>auto_link\<close>, with no cannot-link constraint between the two
  source objects and no hard identifier conflict with any current record of the entity; and no
  eligible candidate scores higher. The constraint is checked for the candidate alone: the other
  members of the entity may be banned (\<open>links_may_join_banned_members\<close> below).
\<close>

theorem automatic_links_meet_the_policy:
  assumes "resolve R sv p rec ob keys s = Inr ((e, Linked), t)"
    and "distinct (map ob_id (objects s))" "distinct (map sr_id (records s))"
  shows "\<exists>m cand cob. (cand, cob) \<in> set (candidate_rows sv rec keys s) \<and> ob_entity cob = Some e \<and>
    compare_records R p (sr_normalized rec) (sr_normalized cand) = Inr m \<and>
    match_decision m = AutoLink \<and> \<not> is_cannot_link sv ob (ob_id cob) s \<and>
    (\<forall>r \<in> set (current_records sv e s).
       find_contradictions p (sr_normalized rec) (sr_normalized r) = []) \<and>
    (\<forall>x. eligible R sv p s ob rec x \<longrightarrow> snd x \<in> set (candidate_rows sv rec keys s) \<longrightarrow>
       score (fst x) \<le> score m) \<and>
    t = modify_entity e bump s"
proof -
  from resolve_best [OF assms] obtain best where
    b: "best_of R sv p s ob rec keys best" and out: "case link_target best s of
       Some en \<Rightarrow> (e, Linked) = (en_id en, Linked) \<and> t = modify_entity (en_id en) bump s
     | None \<Rightarrow> create_entity R sv p rec ob best s = Inr ((e, Linked), t)" by blast
  have "link_target best s \<noteq> None"
  proof
    assume "link_target best s = None"
    with out have "create_entity R sv p rec ob best s = Inr ((e, Linked), t)" by simp
    from create_entity_cases [OF this] show False by auto
  qed
  then obtain en where en: "link_target best s = Some en" by blast
  with out have e: "e = en_id en" "t = modify_entity e bump s" by auto
  from en obtain m cand cob e' where best: "best = Some (m, cand, cob)" "match_decision m = AutoLink"
    and e': "ob_entity cob = Some e'" "row_get en_id e' (entities s) = Some en"
    by (auto simp: link_target_def bind_eq_Some_conv split: option.splits if_splits)
  from row_get_key [OF e'(2)] e(1) e'(1) have ent: "ob_entity cob = Some e" by simp
  from best_of_eligible [of R sv p s ob rec keys "(m, cand, cob)"] b best(1) have el: "eligible R sv p s ob rec (m, cand, cob)"
    and row: "(cand, cob) \<in> set (candidate_rows sv rec keys s)" by auto
  have "find_contradictions p (sr_normalized rec) (sr_normalized r) = []"
    if "r \<in> set (current_records sv e s)" for r
    using el ent that compare_contradictions by (fastforce simp: eligible_def cluster_conflict_False)
  moreover have "score (fst x) \<le> score m"
    if "eligible R sv p s ob rec x" "snd x \<in> set (candidate_rows sv rec keys s)" for x
    using best_of_top [OF b that] best(1) by simp
  moreover from el have "compare_records R p (sr_normalized rec) (sr_normalized cand) = Inr m"
    "\<not> is_cannot_link sv ob (ob_id cob) s" by (simp_all add: eligible_def)
  ultimately show ?thesis using row ent best(2) e(2) by blast
qed

text \<open>
  Resolution does not miss a link: if some eligible candidate decides \<open>auto_link\<close> and the
  entities of the candidates exist, the outcome is a link, and a best candidate that only
  suggests a review opens a review task.
\<close>

theorem eligible_links_are_taken:
  assumes "resolve R sv p rec ob keys s = Inr ((e, oc), t)"
    and "distinct (map ob_id (objects s))" "distinct (map sr_id (records s))"
    and "\<And>b i. b \<in> set (objects s) \<Longrightarrow> ob_entity b = Some i \<Longrightarrow> i \<in> en_id ` set (entities s)"
    and "eligible R sv p s ob rec x" "snd x \<in> set (candidate_rows sv rec keys s)"
  shows "if match_decision (fst x) = AutoLink then oc = Linked else oc \<noteq> Created"
proof -
  from resolve_best [OF assms(1,2,3)] obtain best where
    b: "best_of R sv p s ob rec keys best" and out: "case link_target best s of
       Some en \<Rightarrow> (e, oc) = (en_id en, Linked) \<and> t = modify_entity (en_id en) bump s
     | None \<Rightarrow> create_entity R sv p rec ob best s = Inr ((e, oc), t)" by blast
  from best_of_top [OF b assms(5,6)] obtain m cand cob where best: "best = Some (m, cand, cob)"
    and le: "score (fst x) \<le> score m" by (metis prod.exhaust fst_conv)
  have el: "eligible R sv p s ob rec (m, cand, cob)"
    and row: "(cand, cob) \<in> set (candidate_rows sv rec keys s)" 
    using best_of_eligible b unfolding best by fastforce+
  show ?thesis
  proof (cases "match_decision (fst x) = AutoLink")
    case True
    have "match_decision m = AutoLink"
      using policy_matcher.best_is_linked [of R p rec "fst (snd x)" "fst x" cand m] assms(5) el le True
      by (simp add: eligible_def split_beta)
    moreover obtain i where i: "ob_entity cob = Some i" using el by (auto simp: eligible_def)
    moreover have "cob \<in> set (objects s)" using row by (simp add: candidate_rows_mem)
    with assms(4) i have "row_get en_id i (entities s) \<noteq> None" by (auto simp: row_get_None)
    ultimately have "link_target best s \<noteq> None" by (simp add: link_target_def best)
    with out True show ?thesis by (auto split: option.splits)
  next
    case False
    show ?thesis
    proof (cases "link_target best s")
      case None
      with out have "create_entity R sv p rec ob best s = Inr ((e, oc), t)" by simp
      from create_entity_cases [OF this] best False show ?thesis by auto
    next
      case (Some en)
      with out False show ?thesis by simp
    qed
  qed
qed


section \<open>Witnesses\<close>

text \<open>A supplier already known under a tax number, and a second record of it.\<close>

definition tax_record :: "ident \<Rightarrow> source_record" where
  "tax_record i =
     \<lparr>sr_id = i, sr_ws = ''w1'', sr_source = ''s1'', sr_domain = ''supplier'', sr_local = i,
      sr_version = ''1'', sr_original = named ''a'' ''1'', sr_normalized = named ''a'' ''1'',
      sr_block = ''p0|tax_id=1'', sr_verification = [], sr_state = Valid, sr_errors = [],
      sr_observed = 0, sr_effective = None, sr_entity = None\<rparr>"

definition match_db :: db where
  "match_db = empty_db\<lparr>records := [tax_record ''r1'', tax_record ''r2''],
     objects := [demo_object ''o1'' ''r1'' ''s1'',
                 (demo_object ''o2'' ''r2'' ''s1'')\<lparr>ob_entity := None\<rparr>],
     entities := [demo_entity ''e1''],
     blocks := [\<lparr>cb_id = ''b1'', cb_ws = ''w1'', cb_domain = ''supplier'', cb_object = ''o1'',
                 cb_record = ''r1'', cb_key = ''p0|tax_id=1''\<rparr>]\<rparr>"

lemma match_db_candidates:
  "candidate_rows demo_service (tax_record ''r2'') [''p0|tax_id=1''] match_db =
     [(tax_record ''r1'', demo_object ''o1'' ''r1'' ''s1'')]"
  by (simp add: candidate_rows_def match_db_def tax_record_def demo_object_def demo_service_def)

lemma tax_twin:
  "\<exists>m. compare_records ascii_runtime tax_policy (named ''a'' ''1'') (named ''a'' ''1'') = Inr m \<and>
    match_decision m = AutoLink \<and> contradictions m = []"
  unfolding tax_policy_compare
  by (simp add: match_of_def overall_score_def weighted_score_def decide_def)

lemma match_db_resolves:
  "\<exists>t. resolve ascii_runtime demo_service tax_policy (tax_record ''r2'') ''o2'' [''p0|tax_id=1''] match_db =
     Inr ((''e1'', Linked), t)"
proof -
  obtain m where m: "compare_records ascii_runtime tax_policy (named ''a'' ''1'') (named ''a'' ''1'') = Inr m"
    "match_decision m = AutoLink" "contradictions m = []"
    using tax_twin by blast
  have members: "current_records demo_service ''e1'' match_db = [tax_record ''r1'']"
    by (simp add: current_records_def match_db_def demo_object_def demo_service_def tax_record_def)
  have norm: "sr_normalized (tax_record i) = named ''a'' ''1''" for i by (simp add: tax_record_def)
  have cob: "ob_id (demo_object ''o1'' ''r1'' ''s1'') = ''o1''"
    "ob_entity (demo_object ''o1'' ''r1'' ''s1'') = Some ''e1''" by (simp_all add: demo_object_def)
  have bans: "\<not> is_cannot_link demo_service ''o2'' ''o1'' match_db"
    by (simp add: is_cannot_link_def match_db_def empty_db_def split: prod.split)
  have "consider_row ascii_runtime demo_service tax_policy match_db ''o2'' (tax_record ''r2'')
      (tax_record ''r1'', demo_object ''o1'' ''r1'' ''s1'') ([], None) =
    Inr ([''o1''], Some (m, tax_record ''r1'', demo_object ''o1'' ''r1'' ''s1''))"
    using m bans by (simp add: consider_row_def cob norm members has_conflict_def is_candidate_def better_def)
  then have "best_candidate ascii_runtime demo_service tax_policy match_db ''o2'' (tax_record ''r2'')
      [(tax_record ''r1'', demo_object ''o1'' ''r1'' ''s1'')] =
    Inr (Some (m, tax_record ''r1'', demo_object ''o1'' ''r1'' ''s1''))"
    by (simp add: best_candidate_def)
  moreover have "row_get en_id ''e1'' (entities match_db) = Some (demo_entity ''e1'')"
    by (simp add: row_get_def match_db_def demo_entity_def)
  ultimately show ?thesis
    using m by (simp add: resolve_def candidates_def match_db_candidates link_target_def cob demo_entity_def)
qed

text \<open>
  The same with a third object in the entity, which a reviewer separated from the new one: it is no
  candidate, but the object links to the entity through the other member, and stands in one cluster
  with the object it was separated from. The specification asks for constraints across the whole
  cluster.
\<close>

definition banned_db :: db where
  "banned_db = match_db\<lparr>records := [tax_record ''r1'', tax_record ''r2'', tax_record ''r3''],
     objects := [demo_object ''o1'' ''r1'' ''s1'',
                 (demo_object ''o2'' ''r2'' ''s1'')\<lparr>ob_entity := None\<rparr>, demo_object ''o3'' ''r3'' ''s1''],
     blocks := blocks match_db @ [\<lparr>cb_id = ''b3'', cb_ws = ''w1'', cb_domain = ''supplier'', cb_object = ''o3'',
                 cb_record = ''r3'', cb_key = ''p0|tax_id=1''\<rparr>],
     object_bans := [\<lparr>lb_id = ''l1'', lb_ws = ''w1'', lb_left = ''o2'', lb_right = ''o3'', lb_reason = [], lb_by = []\<rparr>]\<rparr>"

lemma links_may_join_banned_members:
  "\<exists>t. resolve ascii_runtime demo_service tax_policy (tax_record ''r2'') ''o2'' [''p0|tax_id=1''] banned_db =
     Inr ((''e1'', Linked), t) \<and> is_cannot_link demo_service ''o2'' ''o3'' t \<and>
     (\<exists>b \<in> set (objects t). ob_id b = ''o3'' \<and> ob_entity b = Some ''e1'')"
proof -
  let ?o1 = "demo_object ''o1'' ''r1'' ''s1''" and ?o3 = "demo_object ''o3'' ''r3'' ''s1''" and ?key = "''p0|tax_id=1''"
  obtain m where m: "compare_records ascii_runtime tax_policy (named ''a'' ''1'') (named ''a'' ''1'') = Inr m"
    "match_decision m = AutoLink" "contradictions m = []"
    using tax_twin by blast
  have rows: "candidate_rows demo_service (tax_record ''r2'') [?key] banned_db =
      [(tax_record ''r1'', ?o1), (tax_record ''r3'', ?o3)]"
    by (simp add: candidate_rows_def banned_db_def match_db_def tax_record_def demo_object_def demo_service_def)
  have members: "current_records demo_service ''e1'' banned_db = [tax_record ''r1'', tax_record ''r3'']"
    by (simp add: current_records_def banned_db_def match_db_def demo_object_def demo_service_def tax_record_def)
  have norm: "sr_normalized (tax_record i) = named ''a'' ''1''" for i by (simp add: tax_record_def)
  have cob: "ob_id (demo_object i r k) = i" "ob_entity (demo_object i r k) = Some ''e1''" for i r k
    by (simp_all add: demo_object_def)
  have pair: "sorted_pair ''o2'' ''o1'' = (''o1'', ''o2'')" "sorted_pair ''o2'' ''o3'' = (''o2'', ''o3'')"
    by code_simp+
  have bans: "\<not> is_cannot_link demo_service ''o2'' ''o1'' banned_db" "is_cannot_link demo_service ''o2'' ''o3'' banned_db"
    by (simp_all add: is_cannot_link_def pair banned_db_def demo_service_def)
  have "best_candidate ascii_runtime demo_service tax_policy banned_db ''o2'' (tax_record ''r2'')
      [(tax_record ''r1'', ?o1), (tax_record ''r3'', ?o3)] = Inr (Some (m, tax_record ''r1'', ?o1))"
    using m bans by (simp add: best_candidate_def consider_row_def cob norm members has_conflict_def is_candidate_def better_def)
  moreover have "row_get en_id ''e1'' (entities banned_db) = Some (demo_entity ''e1'')"
    by (simp add: row_get_def banned_db_def match_db_def demo_entity_def)
  ultimately have link: "resolve ascii_runtime demo_service tax_policy (tax_record ''r2'') ''o2'' [?key] banned_db =
      Inr ((''e1'', Linked), modify_entity ''e1'' bump banned_db)"
    using m by (simp add: resolve_def candidates_def rows link_target_def cob demo_entity_def)
  moreover have "is_cannot_link demo_service ''o2'' ''o3'' (modify_entity ''e1'' bump banned_db)"
    using bans(2) by (simp add: is_cannot_link_def frame_simps)
  moreover have "?o3 \<in> set (objects (modify_entity ''e1'' bump banned_db))" by (simp add: frame_simps banned_db_def)
  ultimately show ?thesis using cob by blast
qed

lemma match_db_keys:
  "distinct (map ob_id (objects match_db))" "distinct (map sr_id (records match_db))"
  "b \<in> set (objects match_db) \<Longrightarrow> ob_entity b = Some i \<Longrightarrow> i \<in> en_id ` set (entities match_db)"
  by (auto simp: match_db_def demo_object_def tax_record_def demo_entity_def)

theorem automatic_links_meet_the_policy_witness:
  "\<exists>m cand cob. (cand, cob) \<in> set (candidate_rows demo_service (tax_record ''r2'') [''p0|tax_id=1''] match_db) \<and>
     ob_entity cob = Some ''e1'' \<and>
     compare_records ascii_runtime tax_policy (named ''a'' ''1'') (sr_normalized cand) = Inr m \<and>
     match_decision m = AutoLink \<and> \<not> is_cannot_link demo_service ''o2'' (ob_id cob) match_db"
proof -
  from match_db_resolves obtain t where
    "resolve ascii_runtime demo_service tax_policy (tax_record ''r2'') ''o2'' [''p0|tax_id=1''] match_db =
       Inr ((''e1'', Linked), t)" by blast
  moreover have "sr_normalized (tax_record ''r2'') = named ''a'' ''1''" by (simp add: tax_record_def)
  ultimately show ?thesis
    using automatic_links_meet_the_policy [OF _ match_db_keys(1,2)] by metis
qed

lemma match_db_eligible:
  "\<exists>m. eligible ascii_runtime demo_service tax_policy match_db ''o2'' (tax_record ''r2'')
      (m, tax_record ''r1'', demo_object ''o1'' ''r1'' ''s1'') \<and> match_decision m = AutoLink"
proof -
  from match_db_resolves obtain t where
    r: "resolve ascii_runtime demo_service tax_policy (tax_record ''r2'') ''o2'' [''p0|tax_id=1''] match_db =
       Inr ((''e1'', Linked), t)" by blast
  from resolve_best [OF this match_db_keys(1,2)] obtain best where
    b: "best_of ascii_runtime demo_service tax_policy match_db ''o2'' (tax_record ''r2'') [''p0|tax_id=1''] best"
    and out: "case link_target best match_db of
       Some en \<Rightarrow> (''e1'', Linked) = (en_id en, Linked) \<and> t = modify_entity (en_id en) bump match_db
     | None \<Rightarrow> create_entity ascii_runtime demo_service tax_policy (tax_record ''r2'') ''o2'' best match_db
         = Inr ((''e1'', Linked), t)" by blast
  have "link_target best match_db \<noteq> None"
    using out create_entity_cases by (fastforce split: option.splits)
  then obtain m cand cob where best: "best = Some (m, cand, cob)" "match_decision m = AutoLink"
    unfolding link_target_def by (cases best) (auto split: if_splits)
  from best_of_eligible [OF b [unfolded best(1)]] match_db_candidates best(2)
  show ?thesis by auto
qed

theorem eligible_links_are_taken_witness:
  "\<exists>e t. resolve ascii_runtime demo_service tax_policy (tax_record ''r2'') ''o2'' [''p0|tax_id=1''] match_db =
     Inr ((e, Linked), t)"
proof -
  from match_db_resolves obtain t where
    r: "resolve ascii_runtime demo_service tax_policy (tax_record ''r2'') ''o2'' [''p0|tax_id=1''] match_db =
       Inr ((''e1'', Linked), t)" by blast
  from match_db_eligible obtain m where
    e: "eligible ascii_runtime demo_service tax_policy match_db ''o2'' (tax_record ''r2'')
      (m, tax_record ''r1'', demo_object ''o1'' ''r1'' ''s1'')" and m: "match_decision m = AutoLink" by blast
  from eligible_links_are_taken [OF r match_db_keys e] m r match_db_candidates show ?thesis by auto
qed

end
