(* ===== verification/Guarantees.thy ===== *)
theory Guarantees
  imports Resolve
begin

text \<open>
  What no operation of the service undoes: the audit trail and the outbox only grow, a closed task,
  an approved master version, a closed membership row and a ban stay as they are, entity versions
  do not decrease, and the observed content of a source record is immutable. The relation \<open>keeps\<close>
  is a preorder; each primitive change of the database is shown to satisfy it once, and the
  operations compose.
\<close>

definition observed_content ::
    "source_record \<Rightarrow> ident \<times> ident \<times> ident \<times> string \<times> string \<times> string \<times> dict \<times> dict \<times> time \<times> time option" where
  "observed_content r = (sr_id r, sr_ws r, sr_source r, sr_domain r, sr_local r, sr_version r,
     sr_original r, sr_verification r, sr_observed r, sr_effective r)"

definition closed_tasks :: "db \<Rightarrow> review_task set" where
  "closed_tasks s = {q \<in> set (tasks s). rt_status q \<noteq> OpenTask}"

definition approved_masters :: "db \<Rightarrow> master_version set" where
  "approved_masters s = {m \<in> set (masters s). mv_status m = ApprovedMaster}"

definition past_memberships :: "db \<Rightarrow> membership set" where
  "past_memberships s = {h \<in> set (history s). mh_to h \<noteq> None}"

definition observed :: "db \<Rightarrow> (ident \<times> ident \<times> ident \<times> string \<times> string \<times> string \<times> dict \<times> dict \<times> time \<times> time option) set" where
  "observed s = observed_content ` set (records s)"

text \<open>The entity is still there, in its domain and with its key, at the same or a later version.\<close>

definition succeeds :: "entity \<Rightarrow> entity \<Rightarrow> bool" where
  "succeeds e e' \<longleftrightarrow> en_id e' = en_id e \<and> en_ws e' = en_ws e \<and> en_domain e' = en_domain e \<and>
     en_stable_key e' = en_stable_key e \<and> en_version e \<le> en_version e'"

definition entities_advance :: "entity list \<Rightarrow> entity list \<Rightarrow> bool" where
  "entities_advance es es' \<longleftrightarrow> (\<forall>e \<in> set es. \<exists>e' \<in> set es'. succeeds e e')"

definition keeps :: "db \<Rightarrow> db \<Rightarrow> bool" where
  "keeps s t \<longleftrightarrow> ticks s \<le> ticks t \<and> (\<exists>es. audits t = audits s @ es) \<and> (\<exists>es. events t = events s @ es) \<and>
     closed_tasks s \<subseteq> closed_tasks t \<and> approved_masters s \<subseteq> approved_masters t \<and>
     past_memberships s \<subseteq> past_memberships t \<and> observed s \<subseteq> observed t \<and>
     entities_advance (entities s) (entities t) \<and> set (object_bans s) \<subseteq> set (object_bans t) \<and>
     set (record_bans s) \<subseteq> set (record_bans t)"

lemma succeeds_refl [simp]: "succeeds e e"
  by (simp add: succeeds_def)

lemma succeeds_trans: "succeeds a b \<Longrightarrow> succeeds b c \<Longrightarrow> succeeds a c"
  by (simp add: succeeds_def)

lemma entities_advance_refl [simp]: "entities_advance es es"
  unfolding entities_advance_def using succeeds_refl by blast

lemma entities_advance_trans: "entities_advance a b \<Longrightarrow> entities_advance b c \<Longrightarrow> entities_advance a c"
  unfolding entities_advance_def using succeeds_trans by meson

lemma keeps_refl [simp]: "keeps s s"
  by (simp add: keeps_def)

lemma keeps_trans: "keeps s t \<Longrightarrow> keeps t u \<Longrightarrow> keeps s u"
  unfolding keeps_def using entities_advance_trans order_trans by fastforce

text \<open>Steps that leave these tables alone.\<close>

lemma keeps_frame:
  assumes "audits t = audits s" "events t = events s" "tasks t = tasks s" "masters t = masters s"
    and "history t = history s" "observed s \<subseteq> observed t" "entities t = entities s"
    and "set (object_bans s) \<subseteq> set (object_bans t)" "set (record_bans s) \<subseteq> set (record_bans t)" "ticks s \<le> ticks t"
  shows "keeps s t"
  using assms by (simp add: keeps_def closed_tasks_def approved_masters_def past_memberships_def)

lemma observed_eq: "map observed_content (records t) = map observed_content (records s) \<Longrightarrow> observed t = observed s"
  unfolding observed_def set_map [symmetric] by simp

section \<open>Primitive changes\<close>

lemma keeps_modify_object: "keeps s (modify_object i f s)"
  by (rule keeps_frame) (simp_all add: modify_object_def observed_def)

lemma keeps_modify_entity:
  assumes "\<And>e. succeeds e (f e)"
  shows "keeps s (modify_entity i f s)"
proof -
  have "entities_advance (entities s) (entities (modify_entity i f s))"
    unfolding entities_advance_def
  proof
    fix e assume "e \<in> set (entities s)"
    then have "(if en_id e = i then f e else e) \<in> set (entities (modify_entity i f s))"
      by (simp add: frame_simps set_row_modify)
    then show "\<exists>e' \<in> set (entities (modify_entity i f s)). succeeds e e'"
      by (rule bexI [rotated]) (simp add: assms)
  qed
  then show ?thesis
    by (simp add: keeps_def frame_simps closed_tasks_def approved_masters_def past_memberships_def observed_def)
qed

lemma succeeds_bump: "succeeds e (bump e)"
  by (simp add: succeeds_def bump_def)

lemma keeps_add_entity:
  "keeps s (s\<lparr>entities := row_add e (entities s), ticks := Suc (ticks s)\<rparr>)"
  by (auto simp: keeps_def closed_tasks_def approved_masters_def past_memberships_def observed_def
      entities_advance_def intro: succeeds_refl)

lemma keeps_add_task: "keeps s (add_task q s)"
  by (auto simp: keeps_def add_task_def closed_tasks_def approved_masters_def past_memberships_def observed_def)

lemma keeps_audit: "keeps s (audit R sv a ty i d s)"
  by (auto simp: keeps_def audit_def Let_def closed_tasks_def approved_masters_def past_memberships_def
      observed_def)

lemma keeps_modify_task:
  assumes "\<And>q. q \<in> set (tasks s) \<Longrightarrow> rt_id q = i \<Longrightarrow> rt_status q = OpenTask"
  shows "keeps s (s\<lparr>tasks := row_modify rt_id i f (tasks s)\<rparr>)"
proof -
  have "closed_tasks s \<subseteq> closed_tasks (s\<lparr>tasks := row_modify rt_id i f (tasks s)\<rparr>)"
    using assms by (force simp: closed_tasks_def set_row_modify)
  then show ?thesis by (simp add: keeps_def approved_masters_def past_memberships_def observed_def)
qed

lemma keeps_mark_stale:
  assumes "distinct (map rt_id (tasks s))"
    and "\<And>q. x = Some q \<Longrightarrow> q \<in> set (tasks s) \<and> rt_status q = OpenTask"
  shows "keeps s (mark_stale m x s)"
proof (cases x)
  case None
  then show ?thesis by (simp add: mark_stale_def)
next
  case (Some q)
  with assms(2) have q: "q \<in> set (tasks s)" "rt_status q = OpenTask" by auto
  have "rt_status r = OpenTask" if "r \<in> set (tasks s)" "rt_id r = rt_id q" for r
    using find_key_unique [OF assms(1) that(1) q(1) that(2)] q(2) by simp
  then show ?thesis unfolding Some mark_stale_def option.case by (rule keeps_modify_task)
qed

lemma open_master_task_open:
  "open_master_task sv e s = Some q \<Longrightarrow> q \<in> set (tasks s) \<and> rt_status q = OpenTask"
  by (auto simp: open_master_task_def dest!: find_SomeD)

lemma keeps_draft:
  assumes "tasks_ok R s" "draft_master R sv en s = Inr (d, t)"
  shows "keeps s t"
proof -
  from draft_master_Inr [OF assms(2)] obtain vals prov s1 s2 where
    s1: "(d, s1) = add_draft R sv (en_id en) vals prov s" and
    s2: "s2 = mark_stale ''A new source contribution changed the bound entity version''
           (open_master_task sv (en_id en) s1) s1" and
    t: "t = add_task (master_task R sv en d s2) s2" by blast
  have "keeps s s1"
    using s1 by (auto simp: add_draft_def Let_def keeps_def closed_tasks_def approved_masters_def
        past_memberships_def observed_def)
  moreover have "tasks s1 = tasks s" using s1 by (auto simp: add_draft_def Let_def)
  then have "keeps s1 s2"
    unfolding s2 using assms(1) open_master_task_open [of sv "en_id en" s1]
    by (intro keeps_mark_stale) (auto simp: tasks_ok_def)
  ultimately show ?thesis using keeps_trans keeps_add_task unfolding t by blast
qed

lemma keeps_set_membership:
  assumes "membership_ok R s"
  shows "keeps s (set_membership R sv i en reason s)"
proof -
  have "past_memberships s \<subseteq> past_memberships (set_membership R sv i en reason s)"
    using set_membership_keeps_closed [OF assms] by (auto simp: past_memberships_def)
  then show ?thesis
    using set_membership_ticks [of s R sv i en reason]
    by (simp add: keeps_def frame_simps closed_tasks_def approved_masters_def observed_def)
qed

lemma keeps_resolve:
  assumes "resolve R sv p rec ob keys s = Inr (x, t)"
  shows "keeps s t"
proof -
  obtain i oc where x: "x = (i, oc)" by (cases x)
  from resolve_cases [OF assms [unfolded x]] show ?thesis
  proof (elim disjE conjE exE)
    assume "t = modify_entity i bump s"
    then show ?thesis by (simp add: keeps_modify_entity succeeds_bump)
  next
    fix best assume "create_entity R sv p rec ob best s = Inr ((i, oc), t)"
    from create_entity_cases [OF this] show ?thesis
      using keeps_add_entity keeps_add_task keeps_trans by blast
  qed
qed

lemma keeps_get_or_create:
  assumes "get_or_create_object R sv src dk loc s = (b, t)"
  shows "keeps s t"
proof -
  note f = get_or_create_object_frame [OF assms]
  have "past_memberships s \<subseteq> past_memberships t"
    using assms by (auto simp: get_or_create_object_def Let_def open_membership_def past_memberships_def
        split: option.splits)
  then show ?thesis
    using f by (simp add: keeps_def closed_tasks_def approved_masters_def observed_def)
qed

section \<open>Steps that leave the configuration alone\<close>

text \<open>They also leave every task alone that is not an approval of a mastered record.\<close>

definition proposals :: "db \<Rightarrow> review_task set" where
  "proposals s = {q \<in> set (tasks s). rt_kind q \<noteq> MasterApproval}"

definition steady :: "db \<Rightarrow> db \<Rightarrow> bool" where
  "steady s t \<longleftrightarrow> keeps s t \<and> configurations t = configurations s \<and> domains t = domains s \<and>
     proposals s \<subseteq> proposals t"

lemma proposals_draft:
  assumes "tasks_ok R s" "draft_master R sv en s = Inr (d, t)"
  shows "proposals s \<subseteq> proposals t"
proof
  fix q assume q: "q \<in> proposals s"
  from draft_master_Inr [OF assms(2)] obtain vals prov s1 s2 where
    s1: "(d, s1) = add_draft R sv (en_id en) vals prov s" and
    s2: "s2 = mark_stale ''A new source contribution changed the bound entity version''
           (open_master_task sv (en_id en) s1) s1" and
    t: "t = add_task (master_task R sv en d s2) s2" by blast
  have t1: "tasks s1 = tasks s" using s1 by (auto simp: add_draft_def Let_def)
  have "rt_id q \<noteq> rt_id m" if "open_master_task sv (en_id en) s1 = Some m" for m
  proof
    assume same: "rt_id q = rt_id m"
    from that have m: "m \<in> set (tasks s)" "rt_kind m = MasterApproval"
      by (auto simp: open_master_task_def t1 dest!: find_SomeD)
    have "q = m"
      using find_key_unique [OF _ _ m(1) same] assms(1) q by (simp add: tasks_ok_def proposals_def)
    with m(2) q show False by (simp add: proposals_def)
  qed
  then have "q \<in> set (tasks s2)"
    using q by (auto simp: s2 mark_stale_def t1 proposals_def set_row_modify image_iff split: option.split)
  then show "q \<in> proposals t" using q by (simp add: t add_task_def proposals_def)
qed

lemma steady_refl [simp]: "steady s s"
  by (simp add: steady_def)

lemma steady_trans: "steady s t \<Longrightarrow> steady t u \<Longrightarrow> steady s u"
  using keeps_trans [of s t u] by (auto simp: steady_def)

lemma steady_entity: "(\<And>e. succeeds e (f e)) \<Longrightarrow> steady s (modify_entity i f s)"
  by (simp add: steady_def keeps_modify_entity frame_simps proposals_def)

lemma steady_add_entity: "steady s (s\<lparr>entities := row_add e (entities s), ticks := Suc (ticks s)\<rparr>)"
  by (simp add: steady_def keeps_add_entity proposals_def)

lemma steady_add_task: "steady s (add_task q s)"
  by (simp add: steady_def keeps_add_task) (auto simp: add_task_def proposals_def)

lemma steady_audit: "steady s (audit R sv a ty i d s)"
  by (simp add: steady_def keeps_audit frame_simps proposals_def)

lemma steady_draft: "tasks_ok R s \<Longrightarrow> draft_master R sv en s = Inr (d, t) \<Longrightarrow> steady s t"
  using draft_master_frame [of R sv en s d t] keeps_draft proposals_draft by (simp add: steady_def)

lemma steady_set_membership: "membership_ok R s \<Longrightarrow> steady s (set_membership R sv i en reason s)"
  using keeps_set_membership by (simp add: steady_def frame_simps proposals_def)

end
