(* ===== verification/Ingestion.thy ===== *)
theory Ingestion
  imports Guarantees
begin

text \<open>
  Ingestion (\<open>MasteringService.ingest\<close>): the gate of a resumable run, the write check, the
  deletions a complete snapshot implies, the loop over the work records with every branch, and
  the checkpoint. The page of an extraction is one call; an exception rolls the call back.
\<close>

section \<open>Requests and counts\<close>

record ingest_request =
  rq_source :: string
  rq_domain :: string
  rq_records :: "incoming list"
  rq_complete_snapshot :: bool
  rq_run :: "string option"
  rq_mode :: extraction_mode
  rq_page :: "string option"
  rq_next :: "string option"
  rq_position :: "string option"
  rq_handoff :: "string option"
  rq_source_complete :: bool
  rq_fault_after :: "nat option"

record counts =
  n_accepted :: int
  n_duplicate :: int
  n_quarantined :: int
  n_out_of_order :: int
  n_updated :: int
  n_retired :: int
  n_linked :: int
  n_review :: int
  n_created :: int

definition no_counts :: counts where
  "no_counts = \<lparr>n_accepted = 0, n_duplicate = 0, n_quarantined = 0, n_out_of_order = 0,
     n_updated = 0, n_retired = 0, n_linked = 0, n_review = 0, n_created = 0\<rparr>"

definition counts_json :: "counts \<Rightarrow> (string \<times> json) list" where
  "counts_json c =
     [(''accepted'', JInt (n_accepted c)), (''duplicate'', JInt (n_duplicate c)),
      (''quarantined'', JInt (n_quarantined c)), (''out_of_order'', JInt (n_out_of_order c)),
      (''updated'', JInt (n_updated c)), (''retired'', JInt (n_retired c)),
      (''linked'', JInt (n_linked c)), (''review'', JInt (n_review c)),
      (''created'', JInt (n_created c))]"

definition truthy_str :: "string option \<Rightarrow> bool" where
  "truthy_str x \<longleftrightarrow> x \<noteq> None \<and> x \<noteq> Some []"

section \<open>The run gate\<close>

definition find_source :: "service \<Rightarrow> string \<Rightarrow> db \<Rightarrow> source_row option" where
  "find_source sv key s = find (\<lambda>c. sc_ws c = wid sv \<and> sc_key c = key) (sources s)"

definition find_run :: "service \<Rightarrow> ident \<Rightarrow> string \<Rightarrow> string \<Rightarrow> db \<Rightarrow> ingestion_run option" where
  "find_run sv source domain external s =
     find (\<lambda>r. ir_ws r = wid sv \<and> ir_source r = source \<and> ir_domain r = domain \<and>
               ir_external r = external) (runs s)"

definition page_key :: "ingest_request \<Rightarrow> string" where
  "page_key rq = (if truthy_str (rq_page rq) then the (rq_page rq) else ''__start__'')"

text \<open>The run a call works in, with its processed cursors and the local ids seen so far.\<close>

datatype gate = DuplicatePage ingestion_run | Proceed "ingestion_run option"

definition new_run :: "runtime \<Rightarrow> service \<Rightarrow> ident \<Rightarrow> ingest_request \<Rightarrow> string \<Rightarrow> db \<Rightarrow> ingestion_run" where
  "new_run R sv source rq external s =
     \<lparr>ir_id = next_id R s, ir_ws = wid sv, ir_source = source, ir_domain = rq_domain rq,
      ir_external = external, ir_mode = rq_mode rq, ir_status = RunRunning,
      ir_position = rq_position rq, ir_handoff = rq_handoff rq, ir_processed = [],
      ir_page = None, ir_next = None, ir_seen = [], ir_records = 0, ir_complete = False,
      ir_completed = None\<rparr>"

definition open_run :: "runtime \<Rightarrow> service \<Rightarrow> ident \<Rightarrow> ingest_request \<Rightarrow> string \<Rightarrow> gate op" where
  "open_run R sv source rq external s =
     (case find_run sv source (rq_domain rq) external s of
        Some run \<Rightarrow>
          bind_res (guard_res (ir_mode run = rq_mode rq)
                      (HTTPException 409 ''ingestion_run_mode_mismatch'')) (\<lambda>_.
          if page_key rq \<in> set (ir_processed run) then Inr (DuplicatePage run, s)
          else bind_res (guard_res (ir_processed run = [] \<or> rq_page rq = ir_next run)
                 (HTTPException 409 ''ingestion_cursor_mismatch'')) (\<lambda>_.
               Inr (Proceed (Some run), s)))
      | None \<Rightarrow>
          bind_res (guard_res (rq_page rq \<in> {None, Some [], Some ''0''})
                      (HTTPException 409 ''ingestion_run_not_started'')) (\<lambda>_.
          let run = new_run R sv source rq external s in
          Inr (Proceed (Some run), s\<lparr>runs := row_add run (runs s), ticks := Suc (ticks s)\<rparr>)))"

definition snapshot_parent :: "service \<Rightarrow> ident \<Rightarrow> string \<Rightarrow> string \<Rightarrow> db \<Rightarrow> ingestion_run option" where
  "snapshot_parent sv source domain external s =
     find (\<lambda>r. ir_ws r = wid sv \<and> ir_source r = source \<and> ir_domain r = domain \<and>
               ir_external r = external \<and> ir_mode r = FullExtraction \<and>
               ir_status r = RunComplete \<and> ir_complete r) (runs s)"

definition modify_run :: "ident \<Rightarrow> (ingestion_run \<Rightarrow> ingestion_run) \<Rightarrow> db \<Rightarrow> db" where
  "modify_run i f s = s\<lparr>runs := row_modify ir_id i f (runs s)\<rparr>"

definition check_handoff :: "service \<Rightarrow> ident \<Rightarrow> ingest_request \<Rightarrow> ingestion_run \<Rightarrow> db \<Rightarrow> db res" where
  "check_handoff sv source rq run s =
     (if truthy_str (rq_handoff rq) then
        (case rq_mode rq of
           FullExtraction \<Rightarrow> Inl (HTTPException 422 ''full_run_cannot_have_handoff'')
         | DeltaExtraction \<Rightarrow>
             bind_res (from_option (HTTPException 409 ''snapshot_handoff_not_ready'')
               (snapshot_parent sv source (rq_domain rq) (the (rq_handoff rq)) s)) (\<lambda>parent.
             Inr (modify_run (ir_id run) (\<lambda>r. r\<lparr>ir_position := ir_position parent\<rparr>) s)))
      else Inr s)"

definition run_gate :: "runtime \<Rightarrow> service \<Rightarrow> ident \<Rightarrow> ingest_request \<Rightarrow> gate op" where
  "run_gate R sv source rq s =
     bind_res
       (if truthy_str (rq_run rq) then
          bind_res (open_run R sv source rq (the (rq_run rq)) s) (\<lambda>(g, s1).
          case g of
            Proceed (Some run) \<Rightarrow>
              bind_res (check_handoff sv source rq run s1) (\<lambda>s2. Inr (g, s2))
          | _ \<Rightarrow> Inr (g, s1))
        else bind_res (guard_res (\<not> rq_source_complete rq)
               (HTTPException 422 ''completeness_requires_run_id'')) (\<lambda>_. Inr (Proceed None, s)))
       (\<lambda>(g, s1).
     case g of
       DuplicatePage run \<Rightarrow> Inr (g, s1)
     | Proceed run \<Rightarrow>
         let final = rq_complete_snapshot rq \<and> truthy_str (rq_run rq) in
         bind_res (guard_res (\<not> (final \<and> rq_mode rq \<noteq> FullExtraction))
           (HTTPException 422 ''snapshot_completion_requires_full_mode'')) (\<lambda>_.
         bind_res (guard_res (\<not> (final \<and> \<not> rq_source_complete rq))
           (HTTPException 422 ''source_completeness_evidence_required'')) (\<lambda>_.
         Inr (g, s1))))"

section \<open>The write check\<close>

definition write_roles :: "compiled_policy \<Rightarrow> string \<Rightarrow> string list" where
  "write_roles p field =
     (case attribute_of p field of
        None \<Rightarrow> []
      | Some a \<Rightarrow> (case role_names (dget a ''write_roles'') of None \<Rightarrow> [] | Some rs \<Rightarrow> rs))"

definition forbidden_fields :: "service \<Rightarrow> compiled_policy \<Rightarrow> incoming list \<Rightarrow> string list" where
  "forbidden_fields sv p items =
     (if ''administrator'' \<in> set (roles sv) then []
      else sorted_set (filter (\<lambda>f. write_roles p f \<noteq> [] \<and> set (write_roles p f) \<inter> set (roles sv) = {})
             (concat (map (\<lambda>item. dkeys (in_values item)) items))))"

section \<open>The work records\<close>

definition seen_ids :: "ingestion_run option \<Rightarrow> incoming list \<Rightarrow> string list" where
  "seen_ids run items =
     (case run of None \<Rightarrow> [] | Some r \<Rightarrow> ir_seen r) @
     map in_local (filter (\<lambda>i. \<not> in_deleted i) items)"

definition snapshot_delete :: "string \<Rightarrow> string \<Rightarrow> incoming" where
  "snapshot_delete external local =
     \<lparr>in_local = local, in_version = ''snapshot-delete:'' @ external, in_values = [],
      in_verification = [], in_effective = None, in_sequence = None, in_mode = PartialUpdate,
      in_deleted = True\<rparr>"

text \<open>\<open>IncomingRecord\<close> refuses a version of more than 80 characters.\<close>

definition make_delete :: "string \<Rightarrow> string \<Rightarrow> incoming res" where
  "make_delete external local =
     bind_res (guard_res (length (in_version (snapshot_delete external local)) \<le> 80)
                 (PyError ''ValidationError'')) (\<lambda>_. Inr (snapshot_delete external local))"

definition unseen_objects ::
    "service \<Rightarrow> ident \<Rightarrow> string \<Rightarrow> string list \<Rightarrow> db \<Rightarrow> source_object list" where
  "unseen_objects sv source domain seen s =
     filter (\<lambda>b. ob_ws b = wid sv \<and> ob_source b = source \<and> ob_domain b = domain \<and>
                 \<not> ob_retired b \<and> ob_local b \<notin> set seen) (objects s)"

definition work_records ::
    "service \<Rightarrow> ident \<Rightarrow> ingest_request \<Rightarrow> ingestion_run option \<Rightarrow> db \<Rightarrow> incoming list res" where
  "work_records sv source rq run s =
     (if run \<noteq> None \<and> rq_mode rq = FullExtraction \<and> rq_complete_snapshot rq then
        bind_res (map_res (\<lambda>b. make_delete (the (rq_run rq)) (ob_local b))
          (unseen_objects sv source (rq_domain rq) (seen_ids run (rq_records rq)) s)) (\<lambda>deletes.
        Inr (rq_records rq @ deletes))
      else Inr (rq_records rq))"

section \<open>One observation\<close>

definition mode_name :: "update_mode \<Rightarrow> string" where
  "mode_name m = (case m of FullUpdate \<Rightarrow> ''full'' | PartialUpdate \<Rightarrow> ''partial'')"

definition payload_document :: "runtime \<Rightarrow> incoming \<Rightarrow> json" where
  "payload_document R item =
     JObj [(''values'', JObj (in_values item)), (''verification'', JObj (in_verification item)),
           (''effective_from'', (case in_effective item of None \<Rightarrow> JNull
              | Some t \<Rightarrow> JStr (datetime_str R t))),
           (''sequence'', (case in_sequence item of None \<Rightarrow> JNull | Some n \<Rightarrow> JInt n)),
           (''update_mode'', JStr (mode_name (in_mode item))),
           (''deleted'', JBool (in_deleted item))]"

definition payload_hash :: "runtime \<Rightarrow> incoming \<Rightarrow> string" where
  "payload_hash R item = canonical_hash R (payload_document R item)"

definition find_observation ::
    "service \<Rightarrow> ident \<Rightarrow> string \<Rightarrow> incoming \<Rightarrow> db \<Rightarrow> source_record option" where
  "find_observation sv source domain item s =
     find (\<lambda>r. sr_ws r = wid sv \<and> sr_source r = source \<and> sr_domain r = domain \<and>
               sr_local r = in_local item \<and> sr_version r = in_version item) (records s)"

text \<open>A repeated source version must carry the payload it carried before.\<close>

definition same_payload :: "runtime \<Rightarrow> incoming \<Rightarrow> source_record \<Rightarrow> db \<Rightarrow> bool" where
  "same_payload R item r s \<longleftrightarrow>
     (case row_get om_record (sr_id r) (metas s) of
        Some meta \<Rightarrow> om_hash meta = payload_hash R item
      | None \<Rightarrow>
          in_mode item = FullUpdate \<and> py_eq (JObj (sr_original r)) (JObj (in_values item)) \<and>
          py_eq (JObj (sr_verification r)) (JObj (in_verification item)) \<and>
          sr_effective r = in_effective item \<and> (sr_state r = Deleted) = in_deleted item)"

definition observed_values :: "source_object \<Rightarrow> incoming \<Rightarrow> db \<Rightarrow> dict" where
  "observed_values b item s =
     dict_merge
       (case (in_mode item, Option.bind (ob_current b) (\<lambda>i. row_get sr_id i (records s))) of
          (PartialUpdate, Some r) \<Rightarrow> sr_original r
        | _ \<Rightarrow> []) (in_values item)"

record observation =
  obs_values :: dict
  obs_normalized :: dict
  obs_errors :: "quality_error list"
  obs_keys :: "string list"

definition observe :: "runtime \<Rightarrow> compiled_policy \<Rightarrow> source_object \<Rightarrow> incoming \<Rightarrow> db \<Rightarrow> observation res" where
  "observe R p b item s =
     (let vals = observed_values b item s in
      bind_res (normalize R p vals) (\<lambda>norm.
      bind_res (if in_deleted item then Inr [] else validate R p vals) (\<lambda>errors.
      bind_res (blocking_keys R p norm) (\<lambda>keys.
      Inr \<lparr>obs_values = vals, obs_normalized = norm, obs_errors = errors, obs_keys = keys\<rparr>))))"

definition observation_state :: "source_object \<Rightarrow> incoming \<Rightarrow> quality_error list \<Rightarrow> record_state" where
  "observation_state b item errors =
     (if in_deleted item then Deleted
      else if errors \<noteq> [] then Quarantine
      else if observation_is_current b item then Valid else Superseded)"

definition observation_record ::
    "runtime \<Rightarrow> service \<Rightarrow> ident \<Rightarrow> string \<Rightarrow> source_object \<Rightarrow> incoming \<Rightarrow> observation \<Rightarrow> db \<Rightarrow> source_record" where
  "observation_record R sv source domain b item o' s =
     \<lparr>sr_id = next_id R s, sr_ws = wid sv, sr_source = source, sr_domain = domain,
      sr_local = in_local item, sr_version = in_version item, sr_original = obs_values o',
      sr_normalized = obs_normalized o',
      sr_block = (case obs_keys o' of [] \<Rightarrow> [] | k # _ \<Rightarrow> k),
      sr_verification = in_verification item,
      sr_state = observation_state b item (obs_errors o'), sr_errors = obs_errors o',
      sr_observed = next_time R s, sr_effective = in_effective item, sr_entity = None\<rparr>"

fun add_blocks :: "runtime \<Rightarrow> service \<Rightarrow> string \<Rightarrow> ident \<Rightarrow> ident \<Rightarrow> string list \<Rightarrow> db \<Rightarrow> db" where
  "add_blocks R sv domain ob rec [] s = s"
| "add_blocks R sv domain ob rec (k # ks) s =
     add_blocks R sv domain ob rec ks
       (s\<lparr>blocks := row_add \<lparr>cb_id = next_id R s, cb_ws = wid sv, cb_domain = domain, cb_object = ob,
                             cb_record = rec, cb_key = k\<rparr> (blocks s),
          ticks := Suc (ticks s)\<rparr>)"

definition store_observation ::
    "runtime \<Rightarrow> service \<Rightarrow> ident \<Rightarrow> string \<Rightarrow> source_object \<Rightarrow> incoming \<Rightarrow> observation \<Rightarrow> db \<Rightarrow>
     source_record \<times> db" where
  "store_observation R sv source domain b item o' s =
     (let rec = observation_record R sv source domain b item o' s;
          meta = \<lparr>om_record = sr_id rec, om_object = ob_id b, om_hash = payload_hash R item,
                  om_sequence = in_sequence item, om_mode = in_mode item\<rparr>;
          s1 = s\<lparr>records := row_add rec (records s), metas := row_add meta (metas s),
                 ticks := Suc (ticks s)\<rparr>;
          s2 = add_blocks R sv domain (ob_id b) (sr_id rec) (obs_keys o') s1
      in (rec, modify_object (ob_id b) (\<lambda>b. b\<lparr>ob_latest := Some (sr_id rec)\<rparr>) s2))"

definition set_record_entity :: "ident \<Rightarrow> ident option \<Rightarrow> db \<Rightarrow> db" where
  "set_record_entity i e s = s\<lparr>records := row_modify sr_id i (\<lambda>r. r\<lparr>sr_entity := e\<rparr>) (records s)\<rparr>"

definition draft_entity :: "runtime \<Rightarrow> service \<Rightarrow> ident \<Rightarrow> db \<Rightarrow> db res" where
  "draft_entity R sv e s =
     bind_res (from_option (PyError ''AttributeError'') (row_get en_id e (entities s))) (\<lambda>en.
     bind_res (draft_master R sv en s) (\<lambda>(_, t). Inr t))"

text \<open>Version up and a new draft, for an entity whose contributions changed.\<close>

definition touch_entity :: "runtime \<Rightarrow> service \<Rightarrow> ident \<Rightarrow> db \<Rightarrow> db res" where
  "touch_entity R sv e s = draft_entity R sv e (modify_entity e bump s)"

definition count_outcome :: "outcome \<Rightarrow> counts \<Rightarrow> counts" where
  "count_outcome oc c =
     (case oc of Linked \<Rightarrow> c\<lparr>n_linked := n_linked c + 1\<rparr>
      | NeedsReview \<Rightarrow> c\<lparr>n_review := n_review c + 1\<rparr>
      | Created \<Rightarrow> c\<lparr>n_created := n_created c + 1\<rparr>)"

definition accept :: "counts \<Rightarrow> counts" where
  "accept c = c\<lparr>n_accepted := n_accepted c + 1\<rparr>"

text \<open>The branches after an observation is stored.\<close>

definition retire_object ::
    "runtime \<Rightarrow> service \<Rightarrow> source_object \<Rightarrow> source_record \<Rightarrow> db \<Rightarrow> db res" where
  "retire_object R sv b rec s =
     (let s1 = modify_object (ob_id b) (\<lambda>b. b\<lparr>ob_current := None, ob_retired := True\<rparr>)
                 (set_record_entity (sr_id rec) (ob_entity b) s)
      in case ob_entity b of
           None \<Rightarrow> Inr s1
         | Some e \<Rightarrow> (if row_get en_id e (entities s1) = None then Inr s1 else touch_entity R sv e s1))"

definition admit_record ::
    "runtime \<Rightarrow> service \<Rightarrow> compiled_policy \<Rightarrow> source_object \<Rightarrow> source_record \<Rightarrow> string list \<Rightarrow>
     counts \<Rightarrow> counts op" where
  "admit_record R sv p b rec keys c s =
     (let s1 = modify_object (ob_id b) (\<lambda>b. b\<lparr>ob_current := Some (sr_id rec), ob_retired := False\<rparr>) s
      in case ob_entity b of
           Some e \<Rightarrow>
             bind_res (guard_res (row_get en_id e (entities s1) \<noteq> None)
               (HTTPException 409 ''source_membership_entity_missing'')) (\<lambda>_.
             bind_res (touch_entity R sv e (set_record_entity (sr_id rec) (Some e) s1)) (\<lambda>s2.
             Inr (accept (c\<lparr>n_updated := n_updated c + 1\<rparr>), s2)))
         | None \<Rightarrow>
             bind_res (resolve R sv p rec (ob_id b) keys s1) (\<lambda>((e, oc), s2).
             let s3 = set_record_entity (sr_id rec) (Some e)
                        (set_membership R sv (ob_id b) e ''initial_resolution'' s2)
             in bind_res (draft_entity R sv e s3) (\<lambda>s4. Inr (accept (count_outcome oc c), s4))))"

definition apply_observation ::
    "runtime \<Rightarrow> service \<Rightarrow> compiled_policy \<Rightarrow> nat option \<Rightarrow> nat \<Rightarrow> source_object \<Rightarrow> incoming \<Rightarrow>
     source_record \<Rightarrow> observation \<Rightarrow> counts \<Rightarrow> counts op" where
  "apply_observation R sv p fault index b item rec o' c s =
     (if obs_errors o' \<noteq> [] then Inr (accept (c\<lparr>n_quarantined := n_quarantined c + 1\<rparr>), s)
      else if \<not> observation_is_current b item then
        Inr (accept (c\<lparr>n_out_of_order := n_out_of_order c + 1\<rparr>),
             set_record_entity (sr_id rec) (ob_entity b) s)
      else
        let s1 = modify_object (ob_id b)
              (\<lambda>b. b\<lparr>ob_sequence := in_sequence item, ob_effective := in_effective item\<rparr>) s
        in if in_deleted item then
             bind_res (retire_object R sv b rec s1) (\<lambda>s2.
             Inr (accept (c\<lparr>n_retired := n_retired c + 1\<rparr>), s2))
           else
             bind_res (admit_record R sv p b rec (obs_keys o') c s1) (\<lambda>(c', s2).
             bind_res (guard_res (fault \<noteq> Some index) (PyError ''RuntimeError'')) (\<lambda>_.
             Inr (c', s2))))"

definition process_item ::
    "runtime \<Rightarrow> service \<Rightarrow> compiled_policy \<Rightarrow> source_row \<Rightarrow> string \<Rightarrow> nat option \<Rightarrow>
     nat \<times> incoming \<Rightarrow> counts \<times> db \<Rightarrow> (counts \<times> db) res" where
  "process_item R sv p source domain fault x st =
     (case (x, st) of ((index, item), (c, s)) \<Rightarrow>
        let (b, s1) = get_or_create_object R sv (sc_id source) domain (in_local item) s in
        case find_observation sv (sc_id source) domain item s1 of
          Some dup \<Rightarrow>
            bind_res (guard_res (same_payload R item dup s1)
              (HTTPException 409 ''source_version_conflict'')) (\<lambda>_.
            Inr (c\<lparr>n_duplicate := n_duplicate c + 1\<rparr>, s1))
        | None \<Rightarrow>
            bind_res (observe R p b item s1) (\<lambda>o'.
            let (rec, s2) = store_observation R sv (sc_id source) domain b item o' s1
            in apply_observation R sv p fault index b item rec o' c s2))"

section \<open>The call\<close>

definition source_checkpoint :: "ingest_request \<Rightarrow> int \<Rightarrow> dict" where
  "source_checkpoint rq n =
     [(''records'', JInt n), (''complete_snapshot'', JBool (rq_complete_snapshot rq)),
      (''run_id'', optional (rq_run rq)), (''next_cursor'', optional (rq_next rq)),
      (''snapshot_position'', optional (rq_position rq))]"

definition modify_source :: "ident \<Rightarrow> (source_row \<Rightarrow> source_row) \<Rightarrow> db \<Rightarrow> db" where
  "modify_source i f s = s\<lparr>sources := row_modify sc_id i f (sources s)\<rparr>"

definition finish_source ::
    "runtime \<Rightarrow> source_row \<Rightarrow> ingest_request \<Rightarrow> counts \<Rightarrow> db \<Rightarrow> db res" where
  "finish_source R source rq c s =
     bind_res (py_int R (dget_or (sc_checkpoint source) ''records'' (JInt 0))) (\<lambda>n.
     Inr (modify_source (sc_id source)
            (\<lambda>x. x\<lparr>sc_last_ingested := Some (next_time R s),
                   sc_checkpoint := source_checkpoint rq (n + n_accepted c)\<rparr>)
            (s\<lparr>ticks := Suc (ticks s)\<rparr>)))"

definition run_is_complete :: "ingest_request \<Rightarrow> bool" where
  "run_is_complete rq \<longleftrightarrow>
     rq_complete_snapshot rq \<or> (rq_mode rq = DeltaExtraction \<and> rq_next rq = None)"

definition finish_run ::
    "runtime \<Rightarrow> ingestion_run option \<Rightarrow> ingest_request \<Rightarrow> counts \<Rightarrow> db \<Rightarrow> db" where
  "finish_run R run rq c s =
     (case run of
        None \<Rightarrow> s
      | Some r \<Rightarrow>
          modify_run (ir_id r) (\<lambda>x.
            let x1 = x\<lparr>ir_seen := sorted_set (seen_ids run (rq_records rq)),
                       ir_records := ir_records x + n_accepted c,
                       ir_processed := ir_processed r @ [page_key rq],
                       ir_page := rq_page rq, ir_next := rq_next rq,
                       ir_complete := rq_complete_snapshot rq \<and> rq_source_complete rq\<rparr>
            in if run_is_complete rq
               then x1\<lparr>ir_status := RunComplete, ir_completed := Some (next_time R s)\<rparr> else x1)
          (s\<lparr>ticks := Suc (ticks s)\<rparr>))"

datatype ingest_response =
    DuplicatePageResponse string "string option" "string list"
  | Ingested counts string "string option" dict

definition index_from :: "nat \<Rightarrow> 'a list \<Rightarrow> (nat \<times> 'a) list" where
  "index_from n xs = zip [n..<n + length xs] xs"

definition ingest_records ::
    "runtime \<Rightarrow> service \<Rightarrow> source_row \<Rightarrow> domain_row \<Rightarrow> ingest_request \<Rightarrow> ingestion_run option \<Rightarrow>
     counts op" where
  "ingest_records R sv source domain rq run s =
     bind_res (case compile_policy R (dm_definition domain) of
         Inl (PolicyError m) \<Rightarrow> Inl (HTTPException 422 ''invalid_domain_policy'')
       | r \<Rightarrow> r) (\<lambda>p.
     bind_res (guard_res (forbidden_fields sv p (rq_records rq) = [])
        (HTTPException 403 ''field_write_forbidden'')) (\<lambda>_.
     bind_res (work_records sv (sc_id source) rq run s) (\<lambda>items.
     fold_res (process_item R sv p source (rq_domain rq) (rq_fault_after rq))
       (index_from 1 items) (no_counts, s))))"

definition ingest_audit :: "ingest_request \<Rightarrow> counts \<Rightarrow> json" where
  "ingest_audit rq c =
     JObj [(''counts'', JObj (counts_json c)), (''complete_snapshot'', JBool (rq_complete_snapshot rq)),
           (''run_id'', optional (rq_run rq)), (''source_complete'', JBool (rq_source_complete rq)),
           (''handoff_from'', optional (rq_handoff rq))]"

definition ingest :: "runtime \<Rightarrow> service \<Rightarrow> ingest_request \<Rightarrow> ingest_response op" where
  "ingest R sv rq s =
     (case (find_source sv (rq_source rq) s, find_domain sv (rq_domain rq) s) of
        (Some source, Some domain) \<Rightarrow>
          bind_res (run_gate R sv (sc_id source) rq s) (\<lambda>(g, s1).
          case g of
            DuplicatePage run \<Rightarrow>
              Inr (DuplicatePageResponse (sc_key source) (rq_run rq) (ir_processed run), s1)
          | Proceed run \<Rightarrow>
              bind_res (ingest_records R sv source domain rq run s1) (\<lambda>(c, s2).
              bind_res (finish_source R source rq c s2) (\<lambda>s3.
              let s4 = finish_run R run rq c s3;
                  s5 = audit R sv ''source.ingested'' ''source'' (sc_id source) (ingest_audit rq c) s4;
                  checkpoint = (case row_get sc_id (sc_id source) (sources s5) of
                                  Some x \<Rightarrow> sc_checkpoint x | None \<Rightarrow> [])
              in Inr (Ingested c (sc_key source) (rq_run rq) checkpoint, s5))))
      | _ \<Rightarrow> Inl (HTTPException 404 ''source_or_domain_not_found''))"


section \<open>The store's invariant\<close>

text \<open>
  Ids of every table are unique and drawn in the past, memberships match their history, each
  entity has at most one open approval and unique versions, and entity references resolve.
\<close>

definition records_ok :: "runtime \<Rightarrow> db \<Rightarrow> bool" where
  "records_ok R s \<longleftrightarrow> distinct (map sr_id (records s)) \<and> (\<forall>i \<in> sr_id ` set (records s). drawn R s i) \<and>
     (\<forall>i \<in> om_record ` set (metas s). drawn R s i)"

definition entities_ok :: "runtime \<Rightarrow> db \<Rightarrow> bool" where
  "entities_ok R s \<longleftrightarrow> distinct (map en_id (entities s)) \<and> (\<forall>i \<in> en_id ` set (entities s). drawn R s i)"

definition references_ok :: "db \<Rightarrow> bool" where
  "references_ok s \<longleftrightarrow>
     (\<forall>i w x. (i, w, Some x) \<in> set (members s) \<longrightarrow> x \<in> en_id ` set (entities s)) \<and>
     (\<forall>r \<in> set (records s). \<forall>x. sr_entity r = Some x \<longrightarrow> x \<in> en_id ` set (entities s))"

definition store_ok :: "runtime \<Rightarrow> db \<Rightarrow> bool" where
  "store_ok R s \<longleftrightarrow> membership_ok R s \<and> tasks_ok R s \<and> versions_ok R s \<and> records_ok R s \<and>
     entities_ok R s \<and> references_ok s"

lemma tasks_ok_frame: "tasks_ok R s \<Longrightarrow> tasks t = tasks s \<Longrightarrow> ticks s \<le> ticks t \<Longrightarrow> tasks_ok R t"
  using drawn_mono by (fastforce simp: tasks_ok_def open_masters_def)

lemma versions_ok_frame:
  "versions_ok R s \<Longrightarrow> masters t = masters s \<Longrightarrow> ticks s \<le> ticks t \<Longrightarrow> versions_ok R t"
  using drawn_mono by (fastforce simp: versions_ok_def)

lemma records_ok_frame:
  "records_ok R s \<Longrightarrow> map sr_id (records t) = map sr_id (records s) \<Longrightarrow> metas t = metas s \<Longrightarrow>
   ticks s \<le> ticks t \<Longrightarrow> records_ok R t"
  unfolding records_ok_def set_map [symmetric] using drawn_mono by metis

lemma entities_ok_frame:
  "entities_ok R s \<Longrightarrow> map en_id (entities t) = map en_id (entities s) \<Longrightarrow> ticks s \<le> ticks t \<Longrightarrow>
   entities_ok R t"
  unfolding entities_ok_def set_map [symmetric] using drawn_mono by metis

lemma references_ok_frame:
  assumes "references_ok s" "members t = members s"
    and "sr_entity ` set (records t) \<subseteq> sr_entity ` set (records s)"
    and "en_id ` set (entities s) \<subseteq> en_id ` set (entities t)"
  shows "references_ok t"
proof -
  have "x \<in> en_id ` set (entities t)" if "r \<in> set (records t)" "sr_entity r = Some x" for r x
  proof -
    from that assms(3) obtain r' where "r' \<in> set (records s)" "sr_entity r' = Some x"
      by (metis (no_types, opaque_lifting) imageE image_eqI subsetD)
    with assms(1,4) show ?thesis by (auto simp: references_ok_def)
  qed
  moreover have "x \<in> en_id ` set (entities t)" if "(i, w, Some x) \<in> set (members t)" for i w x
    using assms(1,2,4) that by (auto simp: references_ok_def)
  ultimately show ?thesis by (auto simp: references_ok_def)
qed

text \<open>Steps that leave ids, memberships and references alone.\<close>

lemma store_ok_frame:
  assumes "store_ok R s" "history t = history s" "members t = members s" "tasks t = tasks s"
    and "masters t = masters s" "map sr_id (records t) = map sr_id (records s)" "metas t = metas s"
    and "map en_id (entities t) = map en_id (entities s)"
    and "sr_entity ` set (records t) \<subseteq> sr_entity ` set (records s)" "ticks s \<le> ticks t"
  shows "store_ok R t"
proof -
  have "en_id ` set (entities t) = en_id ` set (entities s)" using arg_cong [OF assms(8), of set] by simp
  then have "references_ok t"
    using references_ok_frame [of s t] assms(1,3,9) by (simp add: store_ok_def)
  with assms show ?thesis
    using membership_ok_frame [of R s t] tasks_ok_frame [of R s t] versions_ok_frame [of R s t]
      records_ok_frame [of R s t] entities_ok_frame [of R s t]
    by (simp add: store_ok_def)
qed

lemma modify_object_frame [frame_simps]:
  "workspaces (modify_object i f s) = workspaces s" "domains (modify_object i f s) = domains s"
  "sources (modify_object i f s) = sources s" "records (modify_object i f s) = records s"
  "metas (modify_object i f s) = metas s" "entities (modify_object i f s) = entities s"
  "runs (modify_object i f s) = runs s" "blocks (modify_object i f s) = blocks s"
  "history (modify_object i f s) = history s" "masters (modify_object i f s) = masters s"
  "tasks (modify_object i f s) = tasks s" "object_bans (modify_object i f s) = object_bans s"
  "record_bans (modify_object i f s) = record_bans s"
  "relationships (modify_object i f s) = relationships s"
  "configurations (modify_object i f s) = configurations s"
  "simulations (modify_object i f s) = simulations s"
  "events (modify_object i f s) = events s" "jobs (modify_object i f s) = jobs s"
  "audits (modify_object i f s) = audits s" "ticks (modify_object i f s) = ticks s"
  by (simp_all add: modify_object_def)

lemma store_ok_modify_object:
  assumes "store_ok R s"
    and "\<And>b. ob_id (f b) = ob_id b \<and> ob_ws (f b) = ob_ws b \<and> ob_entity (f b) = ob_entity b"
  shows "store_ok R (modify_object i f s)"
  by (rule store_ok_frame [OF assms(1)])
    (simp_all add: frame_simps members_modify_object [OF assms(2)])

lemma set_record_entity_frame [frame_simps]:
  "workspaces (set_record_entity i e s) = workspaces s" "domains (set_record_entity i e s) = domains s"
  "sources (set_record_entity i e s) = sources s" "metas (set_record_entity i e s) = metas s"
  "entities (set_record_entity i e s) = entities s" "objects (set_record_entity i e s) = objects s"
  "runs (set_record_entity i e s) = runs s" "blocks (set_record_entity i e s) = blocks s"
  "history (set_record_entity i e s) = history s" "masters (set_record_entity i e s) = masters s"
  "tasks (set_record_entity i e s) = tasks s" "object_bans (set_record_entity i e s) = object_bans s"
  "record_bans (set_record_entity i e s) = record_bans s"
  "events (set_record_entity i e s) = events s" "jobs (set_record_entity i e s) = jobs s"
  "audits (set_record_entity i e s) = audits s" "ticks (set_record_entity i e s) = ticks s"
  "members (set_record_entity i e s) = members s"
  "map sr_id (records (set_record_entity i e s)) = map sr_id (records s)"
  by (simp_all add: set_record_entity_def members_def row_keys_modify)

lemma store_ok_set_record_entity:
  assumes "store_ok R s" "\<And>x. e = Some x \<Longrightarrow> x \<in> en_id ` set (entities s)"
  shows "store_ok R (set_record_entity i e s)"
proof -
  let ?t = "set_record_entity i e s"
  have "references_ok s" using assms(1) by (simp add: store_ok_def)
  moreover have "sr_entity r = e \<or> r \<in> set (records s)" if "r \<in> set (records ?t)" for r
    using that by (auto simp: set_record_entity_def set_row_modify split: if_splits)
  ultimately have "references_ok ?t"
    unfolding references_ok_def frame_simps using assms(2) by metis
  then show ?thesis
    using assms(1) membership_ok_frame [of R s ?t] tasks_ok_frame [of R s ?t]
      versions_ok_frame [of R s ?t] records_ok_frame [of R s ?t] entities_ok_frame [of R s ?t]
    by (simp add: store_ok_def frame_simps)
qed

lemma store_ok_draft:
  assumes "inj (uuid R)" "store_ok R s" "draft_master R sv en s = Inr (d, t)"
  shows "store_ok R t"
proof -
  note f = draft_master_frame [OF assms(3)]
  have "members t = members s" by (simp add: members_def f)
  with assms f show ?thesis
    using tasks_ok_draft [OF assms(1) _ assms(3)] versions_ok_draft [OF assms(1) _ assms(3)]
      membership_ok_frame [of R s t] records_ok_frame [of R s t] entities_ok_frame [of R s t]
      references_ok_frame [of s t]
    by (simp add: store_ok_def)
qed

lemma draft_entity_Inr:
  "draft_entity R sv e s = Inr t \<longleftrightarrow>
   (\<exists>en d. row_get en_id e (entities s) = Some en \<and> draft_master R sv en s = Inr (d, t))"
  by (auto simp: draft_entity_def res_elim)

lemma map_en_id_bump: "map en_id (entities (modify_entity e bump s)) = map en_id (entities s)"
  by (simp add: frame_simps row_keys_modify bump_def)

lemma store_ok_touch:
  assumes "inj (uuid R)" "store_ok R s" "touch_entity R sv e s = Inr t"
  shows "store_ok R t"
proof -
  from assms(3) obtain en d where d: "draft_master R sv en (modify_entity e bump s) = Inr (d, t)"
    by (auto simp: touch_entity_def draft_entity_Inr)
  have "store_ok R (modify_entity e bump s)"
    by (rule store_ok_frame [OF assms(2)]) (simp_all add: map_en_id_bump, simp_all add: frame_simps members_def)
  from store_ok_draft [OF assms(1) this d] show ?thesis .
qed


section \<open>Storing an observation\<close>

lemma add_blocks_frame [frame_simps]:
  "domains (add_blocks R sv dk ob rec ks s) = domains s"
  "sources (add_blocks R sv dk ob rec ks s) = sources s"
  "records (add_blocks R sv dk ob rec ks s) = records s"
  "metas (add_blocks R sv dk ob rec ks s) = metas s"
  "entities (add_blocks R sv dk ob rec ks s) = entities s"
  "objects (add_blocks R sv dk ob rec ks s) = objects s"
  "history (add_blocks R sv dk ob rec ks s) = history s"
  "masters (add_blocks R sv dk ob rec ks s) = masters s"
  "tasks (add_blocks R sv dk ob rec ks s) = tasks s"
  "runs (add_blocks R sv dk ob rec ks s) = runs s"
  "audits (add_blocks R sv dk ob rec ks s) = audits s"
  "events (add_blocks R sv dk ob rec ks s) = events s"
  "object_bans (add_blocks R sv dk ob rec ks s) = object_bans s"
  "record_bans (add_blocks R sv dk ob rec ks s) = record_bans s"
  "configurations (add_blocks R sv dk ob rec ks s) = configurations s"
  "ticks (add_blocks R sv dk ob rec ks s) = ticks s + length ks"
  by (induction R sv dk ob rec ks s rule: add_blocks.induct) auto

text \<open>The columns of an object that an observation without effect leaves alone.\<close>

definition standing :: "db \<Rightarrow> (ident \<times> ident \<times> ident option \<times> ident option \<times> int option \<times> time option \<times> bool) list" where
  "standing s = map (\<lambda>b. (ob_id b, ob_ws b, ob_entity b, ob_current b, ob_sequence b, ob_effective b,
     ob_retired b)) (objects s)"

lemma standing_latest: "standing (modify_object i (\<lambda>b. b\<lparr>ob_latest := x\<rparr>) s) = standing s"
  by (simp add: standing_def modify_object_def row_modify_def update_rows_def)

lemma members_standing: "standing t = standing s \<Longrightarrow> members t = members s"
proof -
  have "members u = map (\<lambda>(i, w, e, _). (i, w, e)) (standing u)" for u
    by (simp add: standing_def members_def)
  then show "standing t = standing s \<Longrightarrow> members t = members s" by simp
qed

lemma store_observation_frame:
  assumes "store_observation R sv src dk b item o' s = (rec, t)"
  shows "domains t = domains s" "sources t = sources s" "entities t = entities s"
    "history t = history s" "masters t = masters s" "tasks t = tasks s" "audits t = audits s"
    "runs t = runs s" "standing t = standing s" "ticks s < ticks t"
    "rec = observation_record R sv src dk b item o' s" "records t = records s @ [rec]"
    "metas t = metas s @ [\<lparr>om_record = sr_id rec, om_object = ob_id b, om_hash = payload_hash R item,
       om_sequence = in_sequence item, om_mode = in_mode item\<rparr>]"
    "events t = events s" "object_bans t = object_bans s" "configurations t = configurations s" "record_bans t = record_bans s"
  using assms
  by (auto simp: store_observation_def Let_def frame_simps standing_latest row_add_def)
    (simp_all add: standing_def frame_simps)

lemma observation_record_simps [simp]:
  "sr_id (observation_record R sv src dk b item o' s) = next_id R s"
  "sr_ws (observation_record R sv src dk b item o' s) = wid sv"
  "sr_source (observation_record R sv src dk b item o' s) = src"
  "sr_domain (observation_record R sv src dk b item o' s) = dk"
  "sr_local (observation_record R sv src dk b item o' s) = in_local item"
  "sr_version (observation_record R sv src dk b item o' s) = in_version item"
  "sr_entity (observation_record R sv src dk b item o' s) = None"
  "sr_errors (observation_record R sv src dk b item o' s) = obs_errors o'"
  "sr_state (observation_record R sv src dk b item o' s) = observation_state b item (obs_errors o')"
  by (simp_all add: observation_record_def)

lemma records_ok_store:
  assumes "inj (uuid R)" "records_ok R s" "store_observation R sv src dk b item o' s = (rec, t)"
  shows "records_ok R t"
proof -
  note f = store_observation_frame [OF assms(3)]
  have old: "drawn R s i \<Longrightarrow> drawn R t i" for i using f(10) by (auto intro: drawn_mono)
  have new: "sr_id rec = next_id R s" "drawn R t (next_id R s)"
    using f(10,11) by (simp_all add: drawn_next)
  have "next_id R s \<notin> sr_id ` set (records s)"
    using assms(1,2) next_not_drawn by (fastforce simp: records_ok_def)
  with assms(2) old new show ?thesis by (auto simp: records_ok_def f(12,13))
qed

lemma store_ok_observation:
  assumes "inj (uuid R)" "store_ok R s" "store_observation R sv src dk b item o' s = (rec, t)"
  shows "store_ok R t"
proof -
  note f = store_observation_frame [OF assms(3)]
  have le: "ticks s \<le> ticks t" using f(10) by simp
  have m: "members t = members s" by (rule members_standing [OF f(9)])
  have "references_ok t"
    using assms(2) by (auto simp: store_ok_def references_ok_def m f(3,11,12))
  with assms(2) f m le show ?thesis
    using membership_ok_frame [of R s t] tasks_ok_frame [of R s t] versions_ok_frame [of R s t]
      records_ok_store [OF assms(1) _ assms(3)] entities_ok_frame [of R s t]
    by (simp add: store_ok_def)
qed

section \<open>Objects and entities\<close>

lemma store_ok_object:
  assumes "inj (uuid R)" "store_ok R s" "get_or_create_object R sv src dk loc s = (b, t)"
  shows "store_ok R t"
proof -
  note f = get_or_create_object_frame [OF assms(3)]
  have "references_ok t"
  proof (cases "find_object sv src dk loc s")
    case (Some c)
    with assms(2,3) show ?thesis by (simp add: get_or_create_object_def store_ok_def)
  next
    case None
    let ?b = "new_object R sv src dk loc s"
    have ob: "objects t = objects s @ [?b]"
      using assms(3) None
      by (auto simp: get_or_create_object_def Let_def open_membership_def row_add_def split: option.splits)
    have "x \<in> en_id ` set (entities s)" if "ob_entity ?b = Some x" for x
    proof -
      from that obtain r where "legacy_record sv src dk loc s = Some r" "sr_entity r = Some x"
        by (auto simp: new_object_def Let_def bind_eq_Some_conv)
      then have "r \<in> set (records s)" by (auto simp: legacy_record_def dest: latest_mem)
      with \<open>sr_entity r = Some x\<close> assms(2) show ?thesis by (auto simp: store_ok_def references_ok_def)
    qed
    with assms(2) show ?thesis
      by (auto simp: store_ok_def references_ok_def members_def ob f)
  qed
  with assms f show ?thesis
    using get_or_create_object_ok [OF assms(1) _ assms(3)] tasks_ok_frame [of R s t]
      versions_ok_frame [of R s t] records_ok_frame [of R s t] entities_ok_frame [of R s t]
    by (simp add: store_ok_def)
qed

lemma store_ok_set_membership:
  assumes "inj (uuid R)" "store_ok R s" "(i, wid sv, e) \<in> set (members s)"
    and "x \<in> en_id ` set (entities s)"
  shows "store_ok R (set_membership R sv i x reason s)"
proof -
  let ?t = "set_membership R sv i x reason s"
  have ok: "membership_ok R s" using assms(2) by (simp add: store_ok_def)
  have "references_ok ?t"
    using assms(2,4)
    by (auto simp: store_ok_def references_ok_def frame_simps set_membership_members [OF ok assms(3)]
        split: if_splits)
  then show ?thesis
    using assms(2) set_membership_ok [OF assms(1) ok assms(3)] tasks_ok_frame [of R s ?t]
      versions_ok_frame [of R s ?t] records_ok_frame [of R s ?t] entities_ok_frame [of R s ?t]
      set_membership_ticks
    by (simp add: store_ok_def frame_simps)
qed

lemma open_masters_other:
  "rt_kind task \<noteq> MasterApproval \<Longrightarrow> open_masters ws e (add_task task s) = open_masters ws e s"
  by (simp add: open_masters_def add_task_def row_add_def is_open_master_def)

lemma tasks_ok_add:
  assumes "inj (uuid R)" "tasks_ok R s" "rt_kind task \<noteq> MasterApproval" "rt_id task = next_id R s"
  shows "tasks_ok R (add_task task s)"
proof -
  have "next_id R s \<notin> rt_id ` set (tasks s)"
    using assms(1,2) next_not_drawn by (fastforce simp: tasks_ok_def)
  moreover have "drawn R s i \<Longrightarrow> drawn R (add_task task s) i" for i
    by (rule drawn_mono) (auto simp: add_task_def)
  moreover have "drawn R (add_task task s) (next_id R s)" by (rule drawn_next) (simp add: add_task_def)
  ultimately show ?thesis
    using assms(2,3,4) by (auto simp: tasks_ok_def open_masters_other) (auto simp: add_task_def row_add_def)
qed

lemma store_ok_add_entity:
  assumes "inj (uuid R)" "store_ok R s" "en_id e = next_id R s"
  shows "store_ok R (s\<lparr>entities := row_add e (entities s), ticks := Suc (ticks s)\<rparr>)"
proof -
  let ?t = "s\<lparr>entities := row_add e (entities s), ticks := Suc (ticks s)\<rparr>"
  have m: "members ?t = members s" by (simp add: members_def)
  have "next_id R s \<notin> en_id ` set (entities s)"
    using assms(1,2) next_not_drawn by (fastforce simp: store_ok_def entities_ok_def)
  moreover have "drawn R s i \<Longrightarrow> drawn R ?t i" for i by (rule drawn_mono) auto
  moreover have "drawn R ?t (next_id R s)" by (rule drawn_next) simp
  ultimately have "entities_ok R ?t"
    using assms(2,3) by (auto simp: store_ok_def entities_ok_def row_add_def)
  moreover have "references_ok ?t"
    by (rule references_ok_frame [of s]) (use assms(2) in \<open>auto simp: m store_ok_def\<close>)
  ultimately show ?thesis
    using assms(2) membership_ok_frame [of R s ?t] tasks_ok_frame [of R s ?t]
      versions_ok_frame [of R s ?t] records_ok_frame [of R s ?t]
    by (simp add: store_ok_def m)
qed

lemma store_ok_add_task:
  assumes "inj (uuid R)" "store_ok R s" "rt_kind task \<noteq> MasterApproval" "rt_id task = next_id R s"
  shows "store_ok R (add_task task s)"
proof -
  define t where "t = add_task task s"
  have f: "members t = members s" "history t = history s" "masters t = masters s"
    "records t = records s" "metas t = metas s" "entities t = entities s" "ticks s \<le> ticks t"
    by (simp_all add: members_def t_def add_task_def)
  have "references_ok t" "tasks_ok R t"
    using references_ok_frame [of s t] tasks_ok_add [OF assms(1) _ assms(3,4)] assms(2) f
    by (simp_all add: store_ok_def t_def [symmetric])
  then show ?thesis
    using assms(2) membership_ok_frame [of R s t] versions_ok_frame [of R s t]
      records_ok_frame [of R s t] entities_ok_frame [of R s t] f
    by (simp add: store_ok_def t_def [symmetric])
qed

lemma store_ok_resolve:
  assumes "inj (uuid R)" "store_ok R s" "resolve R sv p rec ob keys s = Inr ((i, oc), t)"
  shows "store_ok R t"
  using resolve_cases [OF assms(3)]
proof (elim disjE conjE exE)
  assume t: "t = modify_entity i bump s"
  show ?thesis
    unfolding t by (rule store_ok_frame [OF assms(2)])
      (simp_all add: map_en_id_bump, simp_all add: frame_simps members_def)
next
  fix best assume "create_entity R sv p rec ob best s = Inr ((i, oc), t)"
  from create_entity_cases [OF this] obtain e where id: "en_id e = next_id R s" and
    t: "t = s\<lparr>entities := row_add e (entities s), ticks := Suc (ticks s)\<rparr> \<or>
      (\<exists>task. rt_kind task = DuplicateMatch \<and> rt_id task = uuid R (Suc (ticks s)) \<and>
         t = add_task task (s\<lparr>entities := row_add e (entities s), ticks := Suc (ticks s)\<rparr>))"
    by blast
  note s1 = store_ok_add_entity [OF assms(1,2) id]
  from t show ?thesis
  proof (elim disjE exE conjE)
    fix task assume "rt_kind task = DuplicateMatch" "rt_id task = uuid R (Suc (ticks s))"
      "t = add_task task (s\<lparr>entities := row_add e (entities s), ticks := Suc (ticks s)\<rparr>)"
    then show ?thesis
      using store_ok_add_task [OF assms(1) s1, of task] by (simp add: next_id_def)
  qed (simp add: s1)
qed


section \<open>Every branch of the loop body\<close>

lemma process_item_cases:
  assumes "process_item R sv p source dk fault (n, item) (c, s) = Inr (c', t)"
  shows "\<exists>b s1. get_or_create_object R sv (sc_id source) dk (in_local item) s = (b, s1) \<and>
    ((\<exists>dup. find_observation sv (sc_id source) dk item s1 = Some dup \<and> same_payload R item dup s1 \<and>
        c' = c\<lparr>n_duplicate := n_duplicate c + 1\<rparr> \<and> t = s1) \<or>
     (find_observation sv (sc_id source) dk item s1 = None \<and>
      (\<exists>o' rec s2. observe R p b item s1 = Inr o' \<and>
         store_observation R sv (sc_id source) dk b item o' s1 = (rec, s2) \<and>
         apply_observation R sv p fault n b item rec o' c s2 = Inr (c', t))))"
proof -
  obtain b s1 where b: "get_or_create_object R sv (sc_id source) dk (in_local item) s = (b, s1)"
    by fastforce
  show ?thesis
  proof (cases "find_observation sv (sc_id source) dk item s1")
    case (Some dup)
    with assms b show ?thesis by (auto simp: process_item_def res_elim)
  next
    case None
    obtain o' where o': "observe R p b item s1 = Inr o'"
      using assms b None by (cases "observe R p b item s1") (auto simp: process_item_def)
    obtain rec s2 where "store_observation R sv (sc_id source) dk b item o' s1 = (rec, s2)"
      by fastforce
    with assms b None o' show ?thesis by (auto simp: process_item_def)
  qed
qed

lemma apply_observation_cases:
  assumes "apply_observation R sv p fault n b item rec o' c s = Inr (c', t)"
  shows "(obs_errors o' \<noteq> [] \<and> c' = accept (c\<lparr>n_quarantined := n_quarantined c + 1\<rparr>) \<and> t = s) \<or>
    (obs_errors o' = [] \<and> \<not> observation_is_current b item \<and>
     c' = accept (c\<lparr>n_out_of_order := n_out_of_order c + 1\<rparr>) \<and>
     t = set_record_entity (sr_id rec) (ob_entity b) s) \<or>
    (obs_errors o' = [] \<and> observation_is_current b item \<and> in_deleted item \<and>
     c' = accept (c\<lparr>n_retired := n_retired c + 1\<rparr>) \<and>
     retire_object R sv b rec (modify_object (ob_id b)
       (\<lambda>b. b\<lparr>ob_sequence := in_sequence item, ob_effective := in_effective item\<rparr>) s) = Inr t) \<or>
    (obs_errors o' = [] \<and> observation_is_current b item \<and> \<not> in_deleted item \<and> fault \<noteq> Some n \<and>
     admit_record R sv p b rec (obs_keys o') c (modify_object (ob_id b)
       (\<lambda>b. b\<lparr>ob_sequence := in_sequence item, ob_effective := in_effective item\<rparr>) s) = Inr (c', t))"
  using assms by (auto simp: apply_observation_def Let_def res_elim split: if_splits)

lemma admit_record_cases:
  assumes "admit_record R sv p b rec keys c s = Inr (c', t)"
  shows "\<exists>s1. s1 = modify_object (ob_id b) (\<lambda>b. b\<lparr>ob_current := Some (sr_id rec), ob_retired := False\<rparr>) s \<and>
    ((\<exists>e. ob_entity b = Some e \<and> row_get en_id e (entities s1) \<noteq> None \<and>
        touch_entity R sv e (set_record_entity (sr_id rec) (Some e) s1) = Inr t \<and>
        c' = accept (c\<lparr>n_updated := n_updated c + 1\<rparr>)) \<or>
     (ob_entity b = None \<and> (\<exists>e oc s2. resolve R sv p rec (ob_id b) keys s1 = Inr ((e, oc), s2) \<and>
        draft_entity R sv e (set_record_entity (sr_id rec) (Some e)
          (set_membership R sv (ob_id b) e ''initial_resolution'' s2)) = Inr t \<and>
        c' = accept (count_outcome oc c))))"
  using assms by (auto simp: admit_record_def Let_def res_elim split: option.splits)

text \<open>The tables ingestion of a record never touches, and the clock.\<close>

definition quiet :: "db \<Rightarrow> db \<Rightarrow> bool" where
  "quiet s t \<longleftrightarrow> audits t = audits s \<and> domains t = domains s \<and> sources t = sources s \<and>
     runs t = runs s \<and> configurations t = configurations s \<and> keeps s t"

lemma quiet_ticks: "quiet s t \<Longrightarrow> ticks s \<le> ticks t"
  by (simp add: quiet_def keeps_def)

lemma quiet_refl [simp]: "quiet s s"
  by (simp add: quiet_def)

lemma quiet_trans: "quiet s t \<Longrightarrow> quiet t u \<Longrightarrow> quiet s u"
  using keeps_trans by (simp add: quiet_def) blast

lemma quiet_modify_object: "quiet s u \<Longrightarrow> quiet s (modify_object i f u)"
  by (erule quiet_trans) (simp add: quiet_def keeps_modify_object, simp add: modify_object_def)

lemma quiet_record_entity: "quiet s u \<Longrightarrow> quiet s (set_record_entity i e u)"
proof (erule quiet_trans)
  have "observed (set_record_entity i e u) = observed u"
    by (rule observed_eq) (simp add: set_record_entity_def row_modify_def update_rows_def observed_content_def)
  then have "keeps u (set_record_entity i e u)"
    by (intro keeps_frame) (simp_all add: frame_simps)
  then show "quiet u (set_record_entity i e u)"
    by (simp add: quiet_def frame_simps) (simp add: set_record_entity_def)
qed

lemma quiet_bump: "quiet s u \<Longrightarrow> quiet s (modify_entity i bump u)"
  by (erule quiet_trans) (simp add: quiet_def frame_simps keeps_modify_entity succeeds_bump)

lemma quiet_set_membership:
  "store_ok R u \<Longrightarrow> quiet s u \<Longrightarrow> quiet s (set_membership R sv i e r u)"
  by (erule quiet_trans) (simp add: quiet_def frame_simps keeps_set_membership [of R] store_ok_def)

lemma quiet_draft:
  assumes "store_ok R u" "draft_entity R sv e u = Inr t" "quiet s u"
  shows "quiet s t"
proof -
  from assms(2) obtain en d where d: "draft_master R sv en u = Inr (d, t)" by (auto simp: draft_entity_Inr)
  have "keeps u t" by (rule keeps_draft [OF _ d]) (use assms(1) in \<open>simp add: store_ok_def\<close>)
  then have "quiet u t" using draft_master_frame [OF d] by (simp add: quiet_def)
  with assms(3) show ?thesis by (rule quiet_trans)
qed

lemma quiet_touch:
  assumes "store_ok R u" "touch_entity R sv e u = Inr t" "quiet s u"
  shows "quiet s t"
proof (rule quiet_draft)
  show "store_ok R (modify_entity e bump u)"
    by (rule store_ok_frame [OF assms(1)]) (simp_all add: map_en_id_bump, simp_all add: frame_simps members_def)
qed (use assms in \<open>simp_all add: touch_entity_def quiet_bump\<close>)

lemma quiet_resolve: "resolve R sv p rec ob keys u = Inr (x, t) \<Longrightarrow> quiet s u \<Longrightarrow> quiet s t"
  using resolve_frame [of R sv p rec ob keys u x t] keeps_resolve [of R sv p rec ob keys u x t]
  by (auto simp: quiet_def intro: keeps_trans)

lemma quiet_store_observation:
  assumes "store_observation R sv src dk b item o' s = (rec, t)"
  shows "quiet s t"
proof -
  note f = store_observation_frame [OF assms]
  have "keeps s t" by (rule keeps_frame) (use f in \<open>auto simp: observed_def\<close>)
  then show ?thesis by (simp add: quiet_def f)
qed

lemma apply_observation_ok:
  assumes inj: "inj (uuid R)" and ok: "store_ok R s"
    and mem: "(ob_id b, wid sv, ob_entity b) \<in> set (members s)"
    and step: "apply_observation R sv p fault n b item rec o' c s = Inr (c', t)"
  shows "store_ok R t \<and> quiet s t"
proof -
  have ent: "x \<in> en_id ` set (entities s)" if "ob_entity b = Some x" for x
    using ok mem that by (auto simp: store_ok_def references_ok_def)
  define s1 where "s1 = modify_object (ob_id b)
      (\<lambda>b. b\<lparr>ob_sequence := in_sequence item, ob_effective := in_effective item\<rparr>) s"
  have ok1: "store_ok R s1" unfolding s1_def by (rule store_ok_modify_object [OF ok]) simp
  have q1: "quiet s s1" by (simp add: s1_def quiet_modify_object)
  have m1: "members s1 = members s" unfolding s1_def by (rule members_modify_object) simp
  have e1: "entities s1 = entities s" by (simp add: s1_def frame_simps)
  from apply_observation_cases [OF step, folded s1_def] show ?thesis
  proof (elim disjE conjE)
    assume "t = s" then show ?thesis using ok by simp
  next
    assume t: "t = set_record_entity (sr_id rec) (ob_entity b) s"
    show ?thesis using store_ok_set_record_entity [OF ok ent] by (simp add: t quiet_record_entity)
  next
    assume r: "retire_object R sv b rec s1 = Inr t"
    define s2 where "s2 = modify_object (ob_id b) (\<lambda>b. b\<lparr>ob_current := None, ob_retired := True\<rparr>)
                 (set_record_entity (sr_id rec) (ob_entity b) s1)"
    have "store_ok R (set_record_entity (sr_id rec) (ob_entity b) s1)"
      by (rule store_ok_set_record_entity [OF ok1]) (simp add: e1 ent)
    then have ok2: "store_ok R s2" unfolding s2_def by (rule store_ok_modify_object) simp
    have q2: "quiet s s2" using q1 by (simp add: s2_def quiet_modify_object quiet_record_entity)
    from r have "t = s2 \<or> (\<exists>e. touch_entity R sv e s2 = Inr t)"
      by (auto simp: retire_object_def s2_def [symmetric] split: option.splits if_splits)
    then show ?thesis using ok2 q2 store_ok_touch [OF inj ok2] quiet_touch [OF ok2] by blast
  next
    assume a: "admit_record R sv p b rec (obs_keys o') c s1 = Inr (c', t)"
    define s2 where "s2 = modify_object (ob_id b)
      (\<lambda>b. b\<lparr>ob_current := Some (sr_id rec), ob_retired := False\<rparr>) s1"
    have ok2: "store_ok R s2" unfolding s2_def by (rule store_ok_modify_object [OF ok1]) simp
    have q2: "quiet s s2" using q1 by (simp add: s2_def quiet_modify_object)
    have "members s2 = members s1" unfolding s2_def by (rule members_modify_object) simp
    then have m2: "(ob_id b, wid sv, ob_entity b) \<in> set (members s2)" using mem m1 by simp
    have e2: "entities s2 = entities s" by (simp add: s2_def e1 frame_simps)
    from admit_record_cases [OF a, folded s2_def] show ?thesis
    proof (elim exE conjE disjE)
      fix u e assume u: "u = s2" "ob_entity b = Some e"
        and touch: "touch_entity R sv e (set_record_entity (sr_id rec) (Some e) u) = Inr t"
      have "store_ok R (set_record_entity (sr_id rec) (Some e) s2)"
        by (rule store_ok_set_record_entity [OF ok2]) (simp add: e2 ent u(2))
      from store_ok_touch [OF inj this] touch quiet_touch [OF this] quiet_record_entity [OF q2]
      show ?thesis by (simp add: u(1))
    next
      fix u e oc s3 assume u: "u = s2"
        and r: "resolve R sv p rec (ob_id b) (obs_keys o') u = Inr ((e, oc), s3)"
        and d: "draft_entity R sv e (set_record_entity (sr_id rec) (Some e)
          (set_membership R sv (ob_id b) e ''initial_resolution'' s3)) = Inr t"
      let ?s4 = "set_membership R sv (ob_id b) e ''initial_resolution'' s3"
      note r = r [unfolded u]
      have ok3: "store_ok R s3" by (rule store_ok_resolve [OF inj ok2 r])
      have e: "e \<in> en_id ` set (entities s3)" by (rule resolve_entity [OF r])
      have "members s3 = members s2" using resolve_frame(5) [OF r] by (simp add: members_def)
      with m2 have "store_ok R ?s4"
        by (intro store_ok_set_membership [OF inj ok3 _ e]) simp
      then have ok5: "store_ok R (set_record_entity (sr_id rec) (Some e) ?s4)"
        by (rule store_ok_set_record_entity) (use e in \<open>simp add: frame_simps\<close>)
      from d obtain en dm where dm: "draft_master R sv en
          (set_record_entity (sr_id rec) (Some e) ?s4) = Inr (dm, t)" by (auto simp: draft_entity_Inr)
      have "quiet s (set_record_entity (sr_id rec) (Some e) ?s4)"
        by (intro quiet_record_entity quiet_set_membership [OF ok3] quiet_resolve [OF r q2])
      with store_ok_draft [OF inj ok5 dm] quiet_draft [OF ok5 d] show ?thesis by blast
    qed
  qed
qed

lemma process_item_ok:
  assumes inj: "inj (uuid R)" and ok: "store_ok R s"
    and step: "process_item R sv p source dk fault x (c, s) = Inr (c', t)"
  shows "store_ok R t \<and> quiet s t"
proof -
  obtain n item where x: "x = (n, item)" by (cases x)
  from process_item_cases [OF step [unfolded x]] obtain b s1 where
    b: "get_or_create_object R sv (sc_id source) dk (in_local item) s = (b, s1)" and
    rest: "t = s1 \<or> (\<exists>o' rec s2. store_observation R sv (sc_id source) dk b item o' s1 = (rec, s2) \<and>
      apply_observation R sv p fault n b item rec o' c s2 = Inr (c', t))" by blast
  have ok1: "store_ok R s1" by (rule store_ok_object [OF inj ok b])
  note f = get_or_create_object_frame [OF b]
  have q1: "quiet s s1" using f keeps_get_or_create [OF b] by (simp add: quiet_def)
  from rest show ?thesis
  proof (elim disjE exE conjE)
    fix o' rec s2 assume s2: "store_observation R sv (sc_id source) dk b item o' s1 = (rec, s2)"
      and a: "apply_observation R sv p fault n b item rec o' c s2 = Inr (c', t)"
    note g = store_observation_frame [OF s2]
    have "b \<in> set (objects s1)" "ob_ws b = wid sv" using get_or_create_object_key [OF b] by auto
    then have "(ob_id b, wid sv, ob_entity b) \<in> set (members s1)" by (force simp: members_def)
    then have "(ob_id b, wid sv, ob_entity b) \<in> set (members s2)"
      by (simp only: members_standing [OF g(9)])
    from apply_observation_ok [OF inj store_ok_observation [OF inj ok1 s2] this a]
    have "store_ok R t" "quiet s2 t" by auto
    moreover have "quiet s1 s2" by (rule quiet_store_observation [OF s2])
    ultimately show ?thesis using q1 quiet_trans by blast
  qed (use ok1 q1 in simp)
qed


section \<open>Counting\<close>

definition parts :: "counts \<Rightarrow> int" where
  "parts c = n_quarantined c + n_out_of_order c + n_updated c + n_retired c + n_linked c +
     n_review c + n_created c"

definition balanced :: "int \<Rightarrow> counts \<Rightarrow> bool" where
  "balanced n c \<longleftrightarrow> n_accepted c = parts c \<and> n_accepted c + n_duplicate c = n"

lemma balanced_apply:
  assumes "apply_observation R sv p fault n b item rec o' c s = Inr (c', t)" "balanced k c"
  shows "balanced (k + 1) c'"
  using apply_observation_cases [OF assms(1)] assms(2)
proof (elim disjE conjE)
  assume "admit_record R sv p b rec (obs_keys o') c (modify_object (ob_id b)
       (\<lambda>b. b\<lparr>ob_sequence := in_sequence item, ob_effective := in_effective item\<rparr>) s) = Inr (c', t)"
  from admit_record_cases [OF this] have "c' = accept (c\<lparr>n_updated := n_updated c + 1\<rparr>) \<or>
      (\<exists>oc. c' = accept (count_outcome oc c))" by blast
  then show ?thesis
  proof (elim disjE exE)
    fix oc assume "c' = accept (count_outcome oc c)"
    then show ?thesis
      using assms(2) by (cases oc) (simp_all add: balanced_def parts_def accept_def count_outcome_def)
  qed (use assms(2) in \<open>simp add: balanced_def parts_def accept_def\<close>)
qed (simp_all add: balanced_def parts_def accept_def)

lemma balanced_item:
  assumes "process_item R sv p source dk fault x (c, s) = Inr (c', t)" "balanced k c"
  shows "balanced (k + 1) c'"
proof -
  obtain n item where x: "x = (n, item)" by (cases x)
  from process_item_cases [OF assms(1) [unfolded x]]
  have "c' = c\<lparr>n_duplicate := n_duplicate c + 1\<rparr> \<or>
      (\<exists>b rec o' s2. apply_observation R sv p fault n b item rec o' c s2 = Inr (c', t))" by blast
  then show ?thesis
  proof (elim disjE exE)
    fix b rec o' s2 assume "apply_observation R sv p fault n b item rec o' c s2 = Inr (c', t)"
    from balanced_apply [OF this assms(2)] show ?thesis .
  qed (use assms(2) in \<open>simp add: balanced_def parts_def\<close>)
qed

lemma process_items_ok:
  assumes "inj (uuid R)" "store_ok R s"
    and "fold_res (process_item R sv p source dk fault) xs (c, s) = Inr (c', t)"
  shows "store_ok R t \<and> quiet s t"
  using assms(2,3)
proof (induction xs arbitrary: c s)
  case Nil
  then show ?case by simp
next
  case (Cons x xs)
  from Cons.prems(2) obtain c1 s1 where "process_item R sv p source dk fault x (c, s) = Inr (c1, s1)"
    "fold_res (process_item R sv p source dk fault) xs (c1, s1) = Inr (c', t)"
    by (auto simp: res_elim)
  with process_item_ok [OF assms(1) Cons.prems(1)] Cons.IH quiet_trans show ?case by blast
qed

lemma process_items_balanced:
  "fold_res (process_item R sv p source dk fault) xs (c, s) = Inr (c', t) \<Longrightarrow> balanced k c \<Longrightarrow>
   balanced (k + int (length xs)) c'"
proof (induction xs arbitrary: c s k)
  case Nil
  then show ?case by simp
next
  case (Cons x xs)
  from Cons.prems(1) obtain c1 s1 where "process_item R sv p source dk fault x (c, s) = Inr (c1, s1)"
    "fold_res (process_item R sv p source dk fault) xs (c1, s1) = Inr (c', t)"
    by (auto simp: res_elim)
  with balanced_item [OF _ Cons.prems(2)] Cons.IH [of c1 s1 "k + 1"] show ?case by (simp add: add_ac)
qed

section \<open>The whole call\<close>

lemma run_gate_frame:
  assumes "run_gate R sv source rq s = Inr (g, t)"
  shows "audits t = audits s \<and> domains t = domains s \<and> sources t = sources s \<and> history t = history s \<and>
    objects t = objects s \<and> records t = records s \<and> metas t = metas s \<and> entities t = entities s \<and>
    tasks t = tasks s \<and> masters t = masters s \<and> ticks s \<le> ticks t \<and> events t = events s \<and>
    object_bans t = object_bans s \<and> configurations t = configurations s \<and> record_bans t = record_bans s"
  using assms
  by (auto simp: run_gate_def open_run_def check_handoff_def modify_run_def res_elim Let_def
      split: if_splits option.splits gate.splits extraction_mode.splits)

lemma ingest_records_Inr:
  assumes "ingest_records R sv source domain rq run s = Inr (c, t)"
  shows "\<exists>p items. compile_policy R (dm_definition domain) = Inr p \<and>
    forbidden_fields sv p (rq_records rq) = [] \<and>
    work_records sv (sc_id source) rq run s = Inr items \<and>
    fold_res (process_item R sv p source (rq_domain rq) (rq_fault_after rq))
      (index_from 1 items) (no_counts, s) = Inr (c, t)"
proof (cases "compile_policy R (dm_definition domain)")
  case (Inl e)
  with assms show ?thesis by (cases e) (simp_all add: ingest_records_def)
next
  case (Inr p)
  with assms show ?thesis by (auto simp: ingest_records_def res_elim)
qed

lemma ingest_cases:
  assumes "ingest R sv rq s = Inr (Ingested c k ri cp, t)"
  shows "\<exists>source domain run s1 s2 s3. find_source sv (rq_source rq) s = Some source \<and>
    find_domain sv (rq_domain rq) s = Some domain \<and>
    run_gate R sv (sc_id source) rq s = Inr (Proceed run, s1) \<and>
    ingest_records R sv source domain rq run s1 = Inr (c, s2) \<and>
    finish_source R source rq c s2 = Inr s3 \<and>
    t = audit R sv ''source.ingested'' ''source'' (sc_id source) (ingest_audit rq c)
          (finish_run R run rq c s3)"
proof (cases "find_source sv (rq_source rq) s")
  case None
  with assms show ?thesis by (simp add: ingest_def)
next
  case source: (Some source)
  show ?thesis
  proof (cases "find_domain sv (rq_domain rq) s")
    case None
    with assms source show ?thesis by (simp add: ingest_def)
  next
    case domain: (Some domain)
    obtain g s1 where g: "run_gate R sv (sc_id source) rq s = Inr (g, s1)"
      using assms source domain
      by (cases "run_gate R sv (sc_id source) rq s") (auto simp: ingest_def)
    show ?thesis
    proof (cases g)
      case (DuplicatePage r)
      with assms source domain g show ?thesis by (simp add: ingest_def)
    next
      case (Proceed run)
      with assms source domain g obtain c' s2 s3 where
        r: "ingest_records R sv source domain rq run s1 = Inr (c', s2)" and
        f: "finish_source R source rq c' s2 = Inr s3"
        unfolding ingest_def by (simp only: option.case prod.case gate.case bind_res_simps) (auto simp: bind_res_Inr)
      with assms source domain g Proceed show ?thesis by (simp add: ingest_def Let_def) blast
    qed
  qed
qed

lemma finish_frame:
  "finish_source R source rq c s = Inr t \<Longrightarrow>
   audits t = audits s \<and> history t = history s \<and> objects t = objects s \<and> records t = records s \<and>
   metas t = metas s \<and> entities t = entities s \<and> tasks t = tasks s \<and> masters t = masters s \<and>
   ticks t = Suc (ticks s) \<and> domains t = domains s \<and> events t = events s \<and>
   object_bans t = object_bans s \<and> configurations t = configurations s \<and> record_bans t = record_bans s"
  by (auto simp: finish_source_def modify_source_def res_elim)

lemma finish_run_frame:
  "audits (finish_run R run rq c s) = audits s" "history (finish_run R run rq c s) = history s"
  "objects (finish_run R run rq c s) = objects s" "records (finish_run R run rq c s) = records s"
  "metas (finish_run R run rq c s) = metas s" "entities (finish_run R run rq c s) = entities s"
  "tasks (finish_run R run rq c s) = tasks s" "masters (finish_run R run rq c s) = masters s"
  "ticks s \<le> ticks (finish_run R run rq c s)" "domains (finish_run R run rq c s) = domains s"
  "events (finish_run R run rq c s) = events s" "object_bans (finish_run R run rq c s) = object_bans s"
  "configurations (finish_run R run rq c s) = configurations s" "record_bans (finish_run R run rq c s) = record_bans s"
  by (simp_all add: finish_run_def modify_run_def split: option.split)

lemma length_index_from [simp]: "length (index_from n xs) = length xs"
  by (simp add: index_from_def)

lemma ingest_ok:
  assumes inj: "inj (uuid R)" and clock: "strict_mono (clock R)"
    and ok: "store_ok R s" and trail: "audit_ok R s"
    and call: "ingest R sv rq s = Inr (Ingested c k ri cp, t)"
  shows "store_ok R t \<and> audit_ok R t \<and> keeps s t \<and> configurations t = configurations s \<and>
    domains t = domains s"
proof -
  from ingest_cases [OF call] obtain source domain run s1 s2 s3 where
    gate: "run_gate R sv (sc_id source) rq s = Inr (Proceed run, s1)" and
    recs: "ingest_records R sv source domain rq run s1 = Inr (c, s2)" and
    fin: "finish_source R source rq c s2 = Inr s3" and
    t: "t = audit R sv ''source.ingested'' ''source'' (sc_id source) (ingest_audit rq c)
          (finish_run R run rq c s3)" by blast
  note g = run_gate_frame [OF gate] and f = finish_frame [OF fin]
    and r = finish_run_frame(9) [of s3 R run rq c]
  let ?s4 = "finish_run R run rq c s3"
  have ok1: "store_ok R s1"
    by (rule store_ok_frame [OF ok]) (use g in \<open>simp_all add: members_def\<close>)
  from ingest_records_Inr [OF recs] obtain p items where
    "fold_res (process_item R sv p source (rq_domain rq) (rq_fault_after rq))
      (index_from 1 items) (no_counts, s1) = Inr (c, s2)" by blast
  from process_items_ok [OF inj ok1 this] have ok2: "store_ok R s2" and q: "quiet s1 s2" by auto
  have "store_ok R t"
    by (rule store_ok_frame [OF ok2])
      (use f r in \<open>simp_all add: t frame_simps finish_run_frame members_def\<close>)
  moreover have "audit_ok R ?s4"
    by (rule audit_ok_frame [OF trail])
      (use g q quiet_ticks [OF q] f r in \<open>simp_all add: finish_run_frame quiet_def\<close>)
  then have "audit_ok R t" unfolding t by (rule audit_ok_audit [OF clock])
  moreover have "keeps s s1" by (rule keeps_frame) (use g in \<open>simp_all add: observed_def\<close>)
  then have "keeps s s2" using q keeps_trans by (auto simp: quiet_def)
  moreover have "keeps s2 ?s4"
    by (rule keeps_frame) (use f r in \<open>simp_all add: finish_run_frame observed_def\<close>)
  ultimately show ?thesis
    using g q f keeps_trans keeps_audit unfolding t
    by (simp add: frame_simps finish_run_frame quiet_def)
qed

text \<open>Any outcome of the call, a page seen before included.\<close>

lemma ingest_duplicate_page:
  assumes "ingest R sv rq s = Inr (DuplicatePageResponse k ri ps, t)"
  shows "\<exists>i run. run_gate R sv i rq s = Inr (DuplicatePage run, t)"
proof (cases "find_source sv (rq_source rq) s")
  case None
  with assms show ?thesis by (simp add: ingest_def)
next
  case source: (Some source)
  show ?thesis
  proof (cases "find_domain sv (rq_domain rq) s")
    case None
    with assms source show ?thesis by (simp add: ingest_def)
  next
    case domain: (Some domain)
    obtain g s1 where g: "run_gate R sv (sc_id source) rq s = Inr (g, s1)"
      using assms source domain
      by (cases "run_gate R sv (sc_id source) rq s") (auto simp: ingest_def)
    show ?thesis
    proof (cases g)
      case (DuplicatePage r)
      with assms source domain g show ?thesis by (auto simp: ingest_def)
    next
      case (Proceed run)
      with assms source domain g show ?thesis by (simp add: ingest_def Let_def res_elim split_beta)
    qed
  qed
qed

lemma ingest_step:
  assumes "inj (uuid R)" "strict_mono (clock R)" "store_ok R s" "audit_ok R s"
    and "ingest R sv rq s = Inr (out, t)"
  shows "store_ok R t \<and> audit_ok R t \<and> keeps s t \<and> configurations t = configurations s \<and>
    domains t = domains s"
proof (cases out)
  case (Ingested c k ri cp)
  with ingest_ok [OF assms(1-4)] assms(5) show ?thesis by blast
next
  case (DuplicatePageResponse k ri ps)
  from ingest_duplicate_page [OF assms(5) [unfolded this]] obtain i run where
    "run_gate R sv i rq s = Inr (DuplicatePage run, t)" by blast
  note g = run_gate_frame [OF this]
  have "keeps s t" by (rule keeps_frame) (use g in \<open>simp_all add: observed_def\<close>)
  moreover have "store_ok R t"
    by (rule store_ok_frame [OF assms(3)]) (use g in \<open>simp_all add: members_def\<close>)
  moreover have "audit_ok R t" by (rule audit_ok_frame [OF assms(4)]) (use g in simp_all)
  ultimately show ?thesis using g by simp
qed

section \<open>Replaying an observation\<close>

definition record_key :: "source_record \<Rightarrow> ident \<times> ident \<times> ident \<times> string \<times> string \<times> string" where
  "record_key r = (sr_id r, sr_ws r, sr_source r, sr_domain r, sr_local r, sr_version r)"

definition object_key :: "source_object \<Rightarrow> ident \<times> ident \<times> ident \<times> string \<times> string" where
  "object_key b = (ob_id b, ob_ws b, ob_source b, ob_domain b, ob_local b)"

definition same_keys :: "db \<Rightarrow> db \<Rightarrow> bool" where
  "same_keys s t \<longleftrightarrow> map record_key (records t) = map record_key (records s) \<and> metas t = metas s \<and>
     map object_key (objects t) = map object_key (objects s)"

lemma same_keys_modify_object:
  "(\<And>b. object_key (f b) = object_key b) \<Longrightarrow> same_keys s (modify_object i f u) = same_keys s u"
  by (simp add: same_keys_def modify_object_def row_modify_def update_rows_key)

lemma same_keys_simps [simp]:
  "same_keys s (set_record_entity i e u) = same_keys s u" "same_keys s (modify_entity i g u) = same_keys s u"
  by (simp_all add: same_keys_def frame_simps set_record_entity_def row_modify_def update_rows_key
      record_key_def modify_entity_def)

lemma same_keys_set_membership: "same_keys s u \<Longrightarrow> same_keys s (set_membership R sv i e r u)"
proof -
  have "map object_key (objects (set_membership R sv i e r u)) = map object_key (objects u)"
    by (simp add: set_membership_def Let_def open_membership_def modify_object_def row_modify_def
        close_membership_def update_rows_key object_key_def split: option.split)
  then show "same_keys s u \<Longrightarrow> same_keys s (set_membership R sv i e r u)"
    by (simp add: same_keys_def frame_simps)
qed

lemma same_keys_draft: "draft_entity R sv e u = Inr t \<Longrightarrow> same_keys s u \<Longrightarrow> same_keys s t"
  unfolding draft_entity_Inr same_keys_def using draft_master_frame by fastforce

lemma same_keys_touch: "touch_entity R sv e u = Inr t \<Longrightarrow> same_keys s u \<Longrightarrow> same_keys s t"
  using same_keys_draft by (force simp: touch_entity_def)

lemma same_keys_resolve: "resolve R sv p rec ob keys u = Inr (x, t) \<Longrightarrow> same_keys s u \<Longrightarrow> same_keys s t"
  using resolve_frame [of R sv p rec ob keys u x t] by (simp add: same_keys_def)

lemma same_keys_apply:
  assumes "apply_observation R sv p fault n b item rec o' c s = Inr (c', t)"
  shows "same_keys s t"
proof -
  define s1 where "s1 = modify_object (ob_id b)
      (\<lambda>b. b\<lparr>ob_sequence := in_sequence item, ob_effective := in_effective item\<rparr>) s"
  have k1: "same_keys s s1" unfolding s1_def by (subst same_keys_modify_object) (simp_all add: object_key_def same_keys_def)
  from apply_observation_cases [OF assms, folded s1_def] show ?thesis
  proof (elim disjE conjE)
    assume "retire_object R sv b rec s1 = Inr t"
    moreover define s2 where "s2 = modify_object (ob_id b) (\<lambda>b. b\<lparr>ob_current := None, ob_retired := True\<rparr>)
                 (set_record_entity (sr_id rec) (ob_entity b) s1)"
    ultimately have "t = s2 \<or> (\<exists>e. touch_entity R sv e s2 = Inr t)"
      by (auto simp: retire_object_def Let_def split: option.splits if_splits)
    moreover have "same_keys s s2"
      unfolding s2_def by (subst same_keys_modify_object) (simp_all add: object_key_def k1)
    ultimately show ?thesis using same_keys_touch by blast
  next
    assume a: "admit_record R sv p b rec (obs_keys o') c s1 = Inr (c', t)"
    define s2 where "s2 = modify_object (ob_id b)
      (\<lambda>b. b\<lparr>ob_current := Some (sr_id rec), ob_retired := False\<rparr>) s1"
    have k2: "same_keys s s2"
      unfolding s2_def by (subst same_keys_modify_object) (simp_all add: object_key_def k1)
    from admit_record_cases [OF a, folded s2_def] show ?thesis
      using k2 same_keys_touch [of R sv _ _ t s] same_keys_draft [of R sv _ _ t s]
        same_keys_set_membership [OF same_keys_resolve [OF _ k2]] by (elim exE conjE disjE) auto
  qed (simp_all add: same_keys_def [of s s] )
qed

lemma find_map_key: "find P (map f xs) = map_option f (find (\<lambda>x. P (f x)) xs)"
  by (induction xs) auto

lemma find_observation_key:
  "map_option record_key (find_observation sv src dk item s) =
   find (\<lambda>(i, w, c, d, l, v). w = wid sv \<and> c = src \<and> d = dk \<and> l = in_local item \<and> v = in_version item)
     (map record_key (records s))"
  by (simp add: find_observation_def find_map_key record_key_def)

lemma find_object_key:
  "map_option object_key (find_object sv src dk loc s) =
   find (\<lambda>(i, w, c, d, l). w = wid sv \<and> c = src \<and> d = dk \<and> l = loc) (map object_key (objects s))"
  by (simp add: find_object_def find_map_key object_key_def)

lemma replay_is_duplicate:
  assumes "find_object sv (sc_id source) dk (in_local item) s = Some b"
    and "find_observation sv (sc_id source) dk item s = Some dup" "same_payload R item dup s"
  shows "process_item R sv p source dk fault (n, item) (c, s) =
    Inr (c\<lparr>n_duplicate := n_duplicate c + 1\<rparr>, s)"
  using assms by (simp add: process_item_def get_or_create_object_def)

lemma processed_object:
  assumes "process_item R sv p source dk fault (n, item) (c, s) = Inr (c', t)"
  shows "\<exists>b. find_object sv (sc_id source) dk (in_local item) t = Some b"
proof -
  from process_item_cases [OF assms] obtain b s1 where
    b: "get_or_create_object R sv (sc_id source) dk (in_local item) s = (b, s1)" and
    rest: "t = s1 \<or> (\<exists>o' rec s2. store_observation R sv (sc_id source) dk b item o' s1 = (rec, s2) \<and>
      apply_observation R sv p fault n b item rec o' c s2 = Inr (c', t))" by blast
  have "map object_key (objects t) = map object_key (objects s1)"
    using rest
  proof (elim disjE exE conjE)
    fix o' rec s2 assume s2: "store_observation R sv (sc_id source) dk b item o' s1 = (rec, s2)"
      and a: "apply_observation R sv p fault n b item rec o' c s2 = Inr (c', t)"
    have "objects s2 = objects (modify_object (ob_id b) (\<lambda>b. b\<lparr>ob_latest := Some (sr_id rec)\<rparr>) s1)"
      using s2 by (auto simp: store_observation_def Let_def modify_object_def frame_simps)
    with same_keys_apply [OF a] show ?thesis
      by (simp add: same_keys_def modify_object_def row_modify_def update_rows_key object_key_def)
  qed simp
  then have "map_option object_key (find_object sv (sc_id source) dk (in_local item) t) =
      map_option object_key (find_object sv (sc_id source) dk (in_local item) s1)"
    by (simp only: find_object_key)
  with get_or_create_object_finds [OF b] show ?thesis by auto
qed

lemma replay_item:
  assumes inj: "inj (uuid R)" and ok: "store_ok R s"
    and step: "process_item R sv p source dk fault (n, item) (c, s) = Inr (c', t)"
  shows "process_item R sv p source dk fault (m, item) (d, t) =
    Inr (d\<lparr>n_duplicate := n_duplicate d + 1\<rparr>, t)"
proof -
  from process_item_cases [OF step] obtain b s1 where
    b: "get_or_create_object R sv (sc_id source) dk (in_local item) s = (b, s1)" and
    rest: "(\<exists>dup. find_observation sv (sc_id source) dk item s1 = Some dup \<and> same_payload R item dup s1 \<and>
        c' = c\<lparr>n_duplicate := n_duplicate c + 1\<rparr> \<and> t = s1) \<or>
     (find_observation sv (sc_id source) dk item s1 = None \<and>
      (\<exists>o' rec s2. observe R p b item s1 = Inr o' \<and>
         store_observation R sv (sc_id source) dk b item o' s1 = (rec, s2) \<and>
         apply_observation R sv p fault n b item rec o' c s2 = Inr (c', t)))" by blast
  note fb = get_or_create_object_finds [OF b]
  from rest show ?thesis
  proof (elim disjE exE conjE)
    fix dup assume "find_observation sv (sc_id source) dk item s1 = Some dup"
      "same_payload R item dup s1" "t = s1"
    then show ?thesis using replay_is_duplicate fb by blast
  next
    fix o' rec s2
    assume none: "find_observation sv (sc_id source) dk item s1 = None"
      and s2: "store_observation R sv (sc_id source) dk b item o' s1 = (rec, s2)"
      and a: "apply_observation R sv p fault n b item rec o' c s2 = Inr (c', t)"
    note f = store_observation_frame [OF s2] and k = same_keys_apply [OF a]
    have recs: "map record_key (records t) = map record_key (records s1) @ [record_key rec]"
      using k by (simp add: same_keys_def f(12))
    let ?Q = "\<lambda>(i, w, c, d, l, v). w = wid sv \<and> c = sc_id source \<and> d = dk \<and> l = in_local item \<and>
      v = in_version item"
    have "find ?Q (map record_key (records s1)) = None"
      using none find_observation_key [of sv "sc_id source" dk item s1] by simp
    then have "find ?Q (map record_key (records t)) = Some (record_key rec)"
      unfolding recs find_append using f(11) by (simp add: record_key_def)
    then obtain dup where dup: "find_observation sv (sc_id source) dk item t = Some dup"
      and "record_key dup = record_key rec"
      using find_observation_key [of sv "sc_id source" dk item t] by (auto simp: map_option_case split: option.splits)
    then have id: "sr_id dup = next_id R s1" using f(11) by (simp add: record_key_def)
    have "next_id R s1 \<notin> om_record ` set (metas s1)"
      using store_ok_object [OF inj ok b] next_not_drawn [OF inj]
      by (fastforce simp: store_ok_def records_ok_def)
    then have "row_get om_record (sr_id dup) (metas t) = Some (last (metas s2))"
      using k f(11,13) by (simp add: same_keys_def id row_get_add [unfolded row_add_def])
    then have same: "same_payload R item dup t" using f(13) by (simp add: same_payload_def)
    obtain b' where "find_object sv (sc_id source) dk (in_local item) t = Some b'"
      using processed_object [OF step] by blast
    from replay_is_duplicate [OF this dup same] show ?thesis .
  qed
qed


section \<open>Observations without effect\<close>

text \<open>Everything mastering looks at: objects' standing, entities, masters, tasks, history.\<close>

definition mastered_state ::
    "db \<Rightarrow> (ident \<times> ident \<times> ident option \<times> ident option \<times> int option \<times> time option \<times> bool) list \<times>
      entity list \<times> master_version list \<times> review_task list \<times> membership list" where
  "mastered_state s = (standing s, entities s, masters s, tasks s, history s)"

lemma without_effect:
  assumes "process_item R sv p source dk fault (n, item) (c, s) = Inr (c', t)"
    and "find_object sv (sc_id source) dk (in_local item) s = Some b"
    and "n_quarantined c' = n_quarantined c + 1 \<or> n_out_of_order c' = n_out_of_order c + 1 \<or>
      n_duplicate c' = n_duplicate c + 1"
  shows "mastered_state t = mastered_state s"
proof -
  have g: "get_or_create_object R sv (sc_id source) dk (in_local item) s = (b, s)"
    using assms(2) by (simp add: get_or_create_object_def)
  from process_item_cases [OF assms(1)] g
  consider "t = s" | o' rec s2 where "store_observation R sv (sc_id source) dk b item o' s = (rec, s2)"
    "apply_observation R sv p fault n b item rec o' c s2 = Inr (c', t)" by auto
  then show ?thesis
  proof cases
    case 1
    then show ?thesis by simp
  next
    case 2
    note f = store_observation_frame [OF 2(1)]
    have s2: "mastered_state s2 = mastered_state s" by (simp add: mastered_state_def f)
    from apply_observation_cases [OF 2(2)] show ?thesis
    proof (elim disjE conjE)
      assume "t = set_record_entity (sr_id rec) (ob_entity b) s2"
      then show ?thesis using s2 by (simp add: mastered_state_def frame_simps standing_def)
    next
      assume "c' = accept (c\<lparr>n_retired := n_retired c + 1\<rparr>)"
      then show ?thesis using assms(3) by (simp add: accept_def)
    next
      assume "admit_record R sv p b rec (obs_keys o') c (modify_object (ob_id b)
         (\<lambda>b. b\<lparr>ob_sequence := in_sequence item, ob_effective := in_effective item\<rparr>) s2) = Inr (c', t)"
      from admit_record_cases [OF this] have "c' = accept (c\<lparr>n_updated := n_updated c + 1\<rparr>) \<or>
        (\<exists>oc. c' = accept (count_outcome oc c))" by blast
      then have "n_quarantined c' = n_quarantined c \<and> n_out_of_order c' = n_out_of_order c \<and>
          n_duplicate c' = n_duplicate c"
      proof (elim disjE exE)
        fix oc assume "c' = accept (count_outcome oc c)"
        then show ?thesis by (cases oc) (simp_all add: accept_def count_outcome_def)
      qed (simp add: accept_def)
      with assms(3) show ?thesis by simp
    qed (use s2 in simp)
  qed
qed

section \<open>Properties\<close>

text \<open>
  A successful ingestion call keeps the store sound: ids stay unique, every object still has
  exactly one open membership row that names its entity, every entity at most one open approval
  task and unique master versions, entity references resolve, and the audit trails remain hash
  chains.
\<close>

theorem ingestion_keeps_the_store_sound:
  assumes "inj (uuid R)" "strict_mono (clock R)" "store_ok R s" "audit_ok R s"
    and "ingest R sv rq s = Inr (Ingested c k ri cp, t)"
  shows "store_ok R t \<and> audit_ok R t"
  using ingest_ok [OF assms] by blast

text \<open>
  The counts of an ingestion add up: every work record (those of the request and the implied
  deletions) is accepted or a duplicate, and every accepted one is exactly one of quarantined,
  out of order, updated, retired, linked, in review or created.
\<close>

theorem ingestion_counts_add_up:
  assumes "ingest_records R sv source domain rq run s = Inr (c, t)"
  shows "\<exists>items. work_records sv (sc_id source) rq run s = Inr items \<and>
    n_accepted c + n_duplicate c = int (length items) \<and>
    n_accepted c = n_quarantined c + n_out_of_order c + n_updated c + n_retired c + n_linked c +
      n_review c + n_created c"
proof -
  from ingest_records_Inr [OF assms] obtain p items where
    i: "work_records sv (sc_id source) rq run s = Inr items" and
    f: "fold_res (process_item R sv p source (rq_domain rq) (rq_fault_after rq))
      (index_from 1 items) (no_counts, s) = Inr (c, t)" by blast
  have "balanced 0 no_counts" by (simp add: balanced_def parts_def no_counts_def)
  from process_items_balanced [OF f this] i show ?thesis by (auto simp: balanced_def parts_def)
qed

text \<open>
  Replaying an observation is idempotent: once a work record was processed, processing it
  again counts one duplicate and changes nothing at all.
\<close>

theorem replayed_observation_changes_nothing:
  assumes "inj (uuid R)" "store_ok R s"
    and "process_item R sv p source dk fault (n, item) (c, s) = Inr (c', t)"
  shows "process_item R sv p source dk fault (m, item) (d, t) =
    Inr (d\<lparr>n_duplicate := n_duplicate d + 1\<rparr>, t)"
  using assms by (rule replay_item)

text \<open>
  Observations that are quarantined, late or repeated are kept but have no effect: the
  current record, entity, sequence and retirement of every source object, the entities, the
  master versions, the review tasks and the membership history all stay as they were.
\<close>

theorem ineffective_observations_change_no_master:
  assumes "process_item R sv p source dk fault (n, item) (c, s) = Inr (c', t)"
    and "find_object sv (sc_id source) dk (in_local item) s = Some b"
    and "n_quarantined c' = n_quarantined c + 1 \<or> n_out_of_order c' = n_out_of_order c + 1 \<or>
      n_duplicate c' = n_duplicate c + 1"
  shows "standing t = standing s \<and> entities t = entities s \<and> masters t = masters s \<and>
    tasks t = tasks s \<and> history t = history s"
  using without_effect [OF assms] by (simp add: mastered_state_def)

text \<open>
  A completed full run implies one deletion for every active source object of this workspace, source
  and domain whose local id is in no non-deleted record of the run; other calls imply none.
\<close>

lemma implied_deletions:
  assumes "work_records sv source rq run s = Inr items"
  shows "items = rq_records rq @
    (if run \<noteq> None \<and> rq_mode rq = FullExtraction \<and> rq_complete_snapshot rq
     then map (\<lambda>b. snapshot_delete (the (rq_run rq)) (ob_local b))
       (filter (\<lambda>b. ob_ws b = wid sv \<and> ob_source b = source \<and> ob_domain b = rq_domain rq \<and>
          \<not> ob_retired b \<and> ob_local b \<notin> set (seen_ids run (rq_records rq))) (objects s))
     else [])"
proof (cases "run \<noteq> None \<and> rq_mode rq = FullExtraction \<and> rq_complete_snapshot rq")
  case True
  with assms obtain ds where ds: "map_res (\<lambda>b. make_delete (the (rq_run rq)) (ob_local b))
      (unseen_objects sv source (rq_domain rq) (seen_ids run (rq_records rq)) s) = Inr ds"
    and "items = rq_records rq @ ds"
    by (auto simp: work_records_def res_elim)
  moreover have "ds = map (\<lambda>b. snapshot_delete (the (rq_run rq)) (ob_local b)) bs"
    if "map_res (\<lambda>b. make_delete (the (rq_run rq)) (ob_local b)) bs = Inr ds" for bs ds
    using that by (induction bs arbitrary: ds) (auto simp: make_delete_def res_elim)
  ultimately show ?thesis using True by (simp add: unseen_objects_def)
next
  case False
  then have "\<not> (run \<noteq> None \<and> rq_mode rq = FullExtraction \<and> rq_complete_snapshot rq)" .
  with assms show ?thesis by (auto simp: work_records_def)
qed

text \<open>
  A run id longer than 64 characters, which the API accepts up to 120, cannot complete a
  snapshot that has to retire something: the version of the implied deletion is too long.
\<close>

lemma long_run_ids_cannot_finish_a_snapshot:
  assumes "64 < length external"
  shows "make_delete external local = Inl (PyError ''ValidationError'')"
  using assms by (simp add: make_delete_def snapshot_delete_def guard_res_def)


section \<open>Witnesses\<close>

definition plain_db :: db where
  "plain_db = empty_db\<lparr>domains := [demo_domain], sources := [demo_source ''s1'' ''crm'' 10]\<rparr>"

definition empty_page :: ingest_request where
  "empty_page = \<lparr>rq_source = ''crm'', rq_domain = ''supplier'', rq_records = [],
     rq_complete_snapshot = False, rq_run = None, rq_mode = DeltaExtraction, rq_page = None,
     rq_next = None, rq_position = None, rq_handoff = None, rq_source_complete = False,
     rq_fault_after = None\<rparr>"

lemma plain_db_ok: "store_ok R plain_db" "audit_ok R plain_db"
  by (simp_all add: store_ok_def membership_ok_def members_def tasks_ok_def open_masters_def
      versions_ok_def records_ok_def entities_ok_def references_ok_def plain_db_def empty_db_def
      audit_ok_def trail_def)

lemma empty_page_records:
  "\<exists>c. ingest_records ascii_runtime demo_service (demo_source ''s1'' ''crm'' 10) demo_domain empty_page
     None plain_db = Inr (c, plain_db)"
proof -
  obtain p where "compile_policy ascii_runtime tax_definition = Inr p"
    using tax_definition_compiles by blast
  then show ?thesis
    by (simp add: ingest_records_def demo_domain_def forbidden_fields_def empty_page_def
        work_records_def index_from_def sorted_set_def)
qed

lemma empty_page_ingested:
  "\<exists>c k ri cp t. ingest ascii_runtime demo_service empty_page plain_db = Inr (Ingested c k ri cp, t)"
proof -
  obtain c where c: "ingest_records ascii_runtime demo_service (demo_source ''s1'' ''crm'' 10) demo_domain
      empty_page None plain_db = Inr (c, plain_db)"
    using empty_page_records by blast
  have src: "find_source demo_service (rq_source empty_page) plain_db = Some (demo_source ''s1'' ''crm'' 10)"
    "find_domain demo_service (rq_domain empty_page) plain_db = Some demo_domain"
    by (simp_all add: find_source_def find_domain_def plain_db_def demo_service_def empty_page_def
        demo_source_def demo_domain_def)
  have gate: "run_gate ascii_runtime demo_service i empty_page plain_db = Inr (Proceed None, plain_db)" for i
    by (simp add: run_gate_def empty_page_def truthy_str_def)
  obtain s3 where "finish_source ascii_runtime (demo_source ''s1'' ''crm'' 10) empty_page c plain_db = Inr s3"
    by (simp add: finish_source_def demo_source_def dget_or_def py_int_def)
  with c src gate show ?thesis by (simp add: ingest_def Let_def)
qed

theorem ingestion_keeps_the_store_sound_witness:
  "\<exists>c k ri cp t. ingest ascii_runtime demo_service empty_page plain_db = Inr (Ingested c k ri cp, t) \<and>
     store_ok ascii_runtime t \<and> audit_ok ascii_runtime t"
  using empty_page_ingested ingestion_keeps_the_store_sound [OF ascii_uuid ascii_clock plain_db_ok]
  by blast

text \<open>An observation without the required name.\<close>

definition nameless :: incoming where
  "nameless = \<lparr>in_local = ''A'', in_version = ''1'', in_values = [(''tax_id'', JStr ''1'')],
     in_verification = [], in_effective = None, in_sequence = None, in_mode = FullUpdate,
     in_deleted = False\<rparr>"

lemma nameless_observed:
  "\<exists>o'. observe ascii_runtime tax_policy b nameless s = Inr o' \<and> obs_errors o' \<noteq> []"
proof -
  have v: "observed_values b nameless s = [(''tax_id'', JStr ''1'')]"
    by (simp add: observed_values_def nameless_def dict_merge_def)
  have n: "\<not> (case normalize ascii_runtime tax_policy [(''tax_id'', JStr ''1'')] of Inl _ \<Rightarrow> True
      | Inr x \<Rightarrow> (case blocking_keys ascii_runtime tax_policy x of Inl _ \<Rightarrow> True | Inr _ \<Rightarrow> False))"
    by code_simp
  have e: "\<not> (case validate ascii_runtime tax_policy [(''tax_id'', JStr ''1'')] of Inl _ \<Rightarrow> True
      | Inr x \<Rightarrow> x = [])"
    by code_simp
  obtain x where x: "normalize ascii_runtime tax_policy [(''tax_id'', JStr ''1'')] = Inr x"
    using n by (cases "normalize ascii_runtime tax_policy [(''tax_id'', JStr ''1'')]") auto
  moreover obtain ks where "blocking_keys ascii_runtime tax_policy x = Inr ks"
    using n x by (cases "blocking_keys ascii_runtime tax_policy x") auto
  moreover obtain es where "validate ascii_runtime tax_policy [(''tax_id'', JStr ''1'')] = Inr es" "es \<noteq> []"
    using e by (cases "validate ascii_runtime tax_policy [(''tax_id'', JStr ''1'')]") auto
  ultimately show ?thesis by (simp add: observe_def v) (simp add: nameless_def)
qed

lemma nameless_local: "in_local nameless = ''A''"
  by (simp add: nameless_def)

lemma no_quarantined: "n_quarantined no_counts = 0" "n_duplicate no_counts = 0"
  by (simp_all add: no_counts_def)

lemma nameless_processed:
  "\<exists>t. process_item ascii_runtime demo_service tax_policy (demo_source ''s1'' ''crm'' 10) ''supplier''
     None (1, nameless) (no_counts, plain_db) =
     Inr (accept (no_counts\<lparr>n_quarantined := 1\<rparr>), t)"
proof -
  obtain b s1 where b: "get_or_create_object ascii_runtime demo_service ''s1'' ''supplier'' ''A'' plain_db = (b, s1)"
    by fastforce
  have "records s1 = []" using get_or_create_object_frame(1) [OF b] by (simp add: plain_db_def empty_db_def)
  then have "find_observation demo_service ''s1'' ''supplier'' nameless s1 = None"
    by (simp add: find_observation_def)
  moreover obtain o' where "observe ascii_runtime tax_policy b nameless s1 = Inr o'" "obs_errors o' \<noteq> []"
    using nameless_observed by blast
  moreover obtain rec s2 where
    "store_observation ascii_runtime demo_service ''s1'' ''supplier'' b nameless o' s1 = (rec, s2)"
    by fastforce
  ultimately show ?thesis
    using b by (simp add: process_item_def demo_source_def apply_observation_def nameless_local
        no_quarantined)
qed

theorem ingestion_counts_add_up_witness:
  "\<exists>c. ingest_records ascii_runtime demo_service (demo_source ''s1'' ''crm'' 10) demo_domain empty_page
     None plain_db = Inr (c, plain_db) \<and> n_accepted c + n_duplicate c = 0"
proof -
  obtain c where c: "ingest_records ascii_runtime demo_service (demo_source ''s1'' ''crm'' 10) demo_domain
      empty_page None plain_db = Inr (c, plain_db)"
    using empty_page_records by blast
  from ingestion_counts_add_up [OF this] c show ?thesis
    by (auto simp: work_records_def empty_page_def)
qed

lemma nameless_replayed:
  assumes "process_item ascii_runtime demo_service tax_policy (demo_source ''s1'' ''crm'' 10) ''supplier''
    None (1, nameless) (no_counts, plain_db) = Inr (c, t)"
  shows "process_item ascii_runtime demo_service tax_policy (demo_source ''s1'' ''crm'' 10) ''supplier''
    None (1, nameless) (no_counts, t) = Inr (no_counts\<lparr>n_duplicate := 1\<rparr>, t)"
  using replay_item [OF ascii_uuid plain_db_ok(1) assms] by (simp add: no_quarantined)

theorem replayed_observation_changes_nothing_witness:
  "\<exists>c t. process_item ascii_runtime demo_service tax_policy (demo_source ''s1'' ''crm'' 10) ''supplier''
     None (1, nameless) (no_counts, plain_db) = Inr (c, t) \<and>
   process_item ascii_runtime demo_service tax_policy (demo_source ''s1'' ''crm'' 10) ''supplier''
     None (7, nameless) (no_counts, t) = Inr (no_counts\<lparr>n_duplicate := 1\<rparr>, t)"
proof -
  from nameless_processed obtain c t where
    t: "process_item ascii_runtime demo_service tax_policy (demo_source ''s1'' ''crm'' 10) ''supplier''
      None (1, nameless) (no_counts, plain_db) = Inr (c, t)" by blast
  from replayed_observation_changes_nothing [OF ascii_uuid plain_db_ok(1) t, of 7 no_counts] t
  show ?thesis by (auto simp: no_quarantined)
qed

theorem ineffective_observations_change_no_master_witness:
  "\<exists>s t c. process_item ascii_runtime demo_service tax_policy (demo_source ''s1'' ''crm'' 10) ''supplier''
     None (1, nameless) (no_counts, s) = Inr (c, t) \<and> n_duplicate c = 1 \<and>
     standing t = standing s \<and> masters t = masters s"
proof -
  from nameless_processed obtain c s where
    s: "process_item ascii_runtime demo_service tax_policy (demo_source ''s1'' ''crm'' 10) ''supplier''
      None (1, nameless) (no_counts, plain_db) = Inr (c, s)" by blast
  obtain b where "find_object demo_service (sc_id (demo_source ''s1'' ''crm'' 10)) ''supplier''
      (in_local nameless) s = Some b"
    using processed_object [OF s] by blast
  from ineffective_observations_change_no_master [OF nameless_replayed [OF s] this]
    nameless_replayed [OF s]
  show ?thesis
    by (intro exI [of _ s] exI [of _ "no_counts\<lparr>n_duplicate := 1\<rparr>"]) (simp add: no_quarantined)
qed

end
