(* ===== verification/Identity.thy ===== *)
theory Identity
  imports Ingestion
begin

text \<open>
  Who acts: the identity tables (models/tables.py), roles and permissions and the principal of a
  request (auth/principal.py), and the workspace service it opens. A request reads the clock once
  (\<open>now\<close>); random values, the hash functions and the identity provider are parameters.
\<close>

section \<open>Tables\<close>

record identity_user =
  iu_id :: ident
  iu_issuer :: string
  iu_subject :: string
  iu_external :: "string option"
  iu_name :: string
  iu_display :: "string option"
  iu_active :: bool
  iu_roles :: "string list"
  iu_workspaces :: "string list"
  iu_version :: int
  iu_updated :: time

record identity_group =
  ig_id :: ident
  ig_issuer :: string
  ig_external :: string
  ig_name :: string
  ig_roles :: "string list"
  ig_workspaces :: "string list"
  ig_version :: int
  ig_updated :: time

record group_member =
  gm_group :: ident
  gm_user :: ident

record browser_session =
  bs_id :: ident
  bs_token :: string
  bs_user :: ident
  bs_issuer :: string
  bs_ws :: string
  bs_roles :: "string list"
  bs_hint :: "string option"
  bs_expires :: time
  bs_revoked :: "time option"
  bs_seen :: time

record oidc_login =
  ol_state :: string
  ol_verifier :: string
  ol_nonce :: string
  ol_return :: string
  ol_created :: time
  ol_consumed :: "time option"

record service_account =
  sa_id :: ident
  sa_ws :: ident
  sa_name :: string
  sa_prefix :: string
  sa_verifier :: string
  sa_salt :: string
  sa_version :: int
  sa_roles :: "string list"
  sa_scopes :: "string list"
  sa_expires :: time
  sa_revoked :: "time option"
  sa_by :: string
  sa_used :: "time option"

text \<open>The identity tables beside the tables of the workspaces; both draw ids from \<open>ticks\<close>.\<close>

record site =
  core :: db
  users :: "identity_user list"
  groups :: "identity_group list"
  group_members :: "group_member list"
  sessions :: "browser_session list"
  logins :: "oidc_login list"
  accounts :: "service_account list"

section \<open>What is not part of the repository\<close>

text \<open>
  The hashes and the symmetric cipher: \<open>sha256\<close> of a string in hex, \<open>scrypt\<close> of a secret and a
  salt in hex, \<open>unseal key\<close> the Fernet decryption with a key derived from a secret (None for
  \<open>InvalidToken\<close>). A salt is kept as its hex digits; \<open>bytes.fromhex\<close> of them is taken as known to
  succeed, which it is for the salts the code writes.
\<close>

record crypto =
  sha256 :: "string \<Rightarrow> string"
  scrypt :: "string \<Rightarrow> string \<Rightarrow> string"
  seal :: "string \<Rightarrow> string \<Rightarrow> string"
  unseal :: "string \<Rightarrow> string \<Rightarrow> string option"

text \<open>The claims of a token that passed \<open>jwt.decode\<close>; \<open>recordlane_workspace\<close> is a string or a list.\<close>

datatype workspace_claim = NoClaim | OneWorkspace string | Workspaces "string list"

record claims =
  cl_iss :: string
  cl_sub :: string
  cl_exp :: int
  cl_nonce :: string
  cl_workspace :: workspace_claim
  cl_roles :: "string list"
  cl_client_roles :: "string \<Rightarrow> string list"
  cl_user_name :: "string option"
  cl_display :: "string option"

text \<open>
  The identity provider as the backend sees it: the discovery document (None for a failed request
  or no JSON), the decoding of an access token (audience \<open>oidc_audience\<close>) and of an id token (audience
  \<open>oidc_client_id\<close>) with the keys of the metadata (None for any exception), and the answer to a code
  exchange with its code, verifier and client secret (None for a failed one).
\<close>

record provider =
  discovery :: "json option"
  decode_access :: "dict \<Rightarrow> json \<Rightarrow> claims option"
  decode_id :: "dict \<Rightarrow> json \<Rightarrow> claims option"
  exchange :: "string \<Rightarrow> string \<Rightarrow> string option \<Rightarrow> json option"

text \<open>The settings (settings.py) that matter here; a secret file is given by its contents.\<close>

record settings =
  oidc_issuer :: "string option"
  oidc_audience :: "string option"
  oidc_client_id :: "string option"
  client_secret_file :: "string option"
  client_secret :: "string option"
  authorization_url :: "string option"
  token_url :: "string option"
  jwks_url :: "string option"
  end_session_url :: "string option"
  auto_provision :: bool
  session_secret :: "string option"
  session_ttl :: int
  demo_mode :: bool
  demo_reverse_proxy :: bool
  postgresql :: bool
  scim_token_file :: "string option"
  scim_token :: "string option"

section \<open>Permissions\<close>

definition role_permissions :: "(string \<times> string list) list" where
  "role_permissions =
     [(''administrator'', [''*'']),
      (''modeler'', [''read'', ''model:write'', ''config:simulate'', ''config:publish'']),
      (''integration_operator'', [''read'', ''source:write'', ''ingest'', ''publish:operate'']),
      (''steward'', [''read'', ''review:decide'', ''record:propose'', ''merge:propose'']),
      (''approver'', [''read'', ''approval:decide'']),
      (''auditor'', [''read'', ''audit:read'']),
      (''read_only'', [''read''])]"

definition permissions_of :: "string list \<Rightarrow> string set" where
  "permissions_of rs = (\<Union>r \<in> set rs. case map_of role_permissions r of None \<Rightarrow> {} | Some ps \<Rightarrow> set ps)"

record principal =
  pr_subject :: string
  pr_issuer :: string
  pr_ws :: string
  pr_roles :: "string list"
  pr_scopes :: "string list option"

definition allows :: "principal \<Rightarrow> string \<Rightarrow> bool" where
  "allows p permission \<longleftrightarrow>
     (''*'' \<in> permissions_of (pr_roles p) \<or> permission \<in> permissions_of (pr_roles p)) \<and>
     (case pr_scopes p of None \<Rightarrow> True | Some ss \<Rightarrow> ''*'' \<in> set ss \<or> permission \<in> set ss)"

text \<open>\<open>service\<close> of api/routes.py: the permission, then the workspace by its id or its slug.\<close>

definition open_service :: "principal \<Rightarrow> string \<Rightarrow> db \<Rightarrow> service res" where
  "open_service p permission s =
     bind_res (guard_res (allows p permission) (HTTPException 403 ''forbidden'')) (\<lambda>_.
     bind_res (from_option (HTTPException 403 ''workspace_not_found'')
       (find (\<lambda>w. ws_id w = pr_ws p \<or> ws_slug w = pr_ws p) (workspaces s))) (\<lambda>w.
     Inr \<lparr>wid = ws_id w, subject = pr_subject p, roles = pr_roles p\<rparr>))"

section \<open>Strings\<close>

text \<open>\<open>s.partition(c)\<close> and \<open>s.rpartition(c)\<close>: None when the separator does not occur.\<close>

fun cut :: "char \<Rightarrow> string \<Rightarrow> (string \<times> string) option" where
  "cut c [] = None"
| "cut c (x # xs) = (if x = c then Some ([], xs) else map_option (\<lambda>(a, b). (x # a, b)) (cut c xs))"

definition cut_last :: "char \<Rightarrow> string \<Rightarrow> (string \<times> string) option" where
  "cut_last c s = map_option (\<lambda>(a, b). (rev b, rev a)) (cut c (rev s))"

fun split_on :: "char \<Rightarrow> string \<Rightarrow> string list" where
  "split_on c [] = [[]]"
| "split_on c (x # xs) =
     (if x = c then [] # split_on c xs
      else case split_on c xs of [] \<Rightarrow> [[x]] | w # ws \<Rightarrow> (x # w) # ws)"

definition strip_prefix :: "string \<Rightarrow> string \<Rightarrow> string" where
  "strip_prefix p s = (if prefix_of p s then drop (length p) s else s)"

definition or_default :: "string option \<Rightarrow> string \<Rightarrow> string" where
  "or_default x d = (if truthy_str x then the x else d)"

lemma cut_append: "c \<notin> set a \<Longrightarrow> cut c (a @ c # b) = Some (a, b)"
  by (induction a) auto

lemma cut_last_append: "c \<notin> set b \<Longrightarrow> cut_last c (a @ c # b) = Some (a, b)"
  using cut_append [of c "rev b" "rev a"] by (simp add: cut_last_def)

lemma cut_Some: "cut c s = Some (a, b) \<Longrightarrow> s = a @ c # b \<and> c \<notin> set a"
  by (induction s arbitrary: a b) (auto split: if_splits)

lemma prefix_of_append [simp]: "prefix_of p (p @ s)"
  by (induction p) auto

lemma strip_prefix_append [simp]: "strip_prefix p (p @ s) = s"
  by (simp add: strip_prefix_def)

section \<open>Service credentials\<close>

text \<open>
  The rows a query sees under the row-level security of operations/migrate.py: in PostgreSQL the
  workspaces whose id or slug is the session's \<open>recordlane.workspace_id\<close> and the service accounts whose
  workspace id is.
\<close>

definition sees_workspace :: "settings \<Rightarrow> string \<Rightarrow> workspace \<Rightarrow> bool" where
  "sees_workspace cfg setting w \<longleftrightarrow> postgresql cfg \<longrightarrow> ws_id w = setting \<or> ws_slug w = setting"

definition sees_account :: "settings \<Rightarrow> string \<Rightarrow> service_account \<Rightarrow> bool" where
  "sees_account cfg setting a \<longleftrightarrow> postgresql cfg \<longrightarrow> sa_ws a = setting"

definition account_key :: string where
  "account_key = ''rl_sa_''"

text \<open>The workspace slug, the prefix and the secret of a raw credential.\<close>

definition parse_credential :: "string \<Rightarrow> (string \<times> string \<times> string) option" where
  "parse_credential raw =
     (case cut CHR ''.'' raw of
        None \<Rightarrow> None
      | Some (identifier, secret) \<Rightarrow>
          if \<not> prefix_of account_key identifier \<or> length secret < 32 then None
          else (case cut_last CHR ''_'' (strip_prefix account_key identifier) of
              None \<Rightarrow> None
            | Some (slug, prefix) \<Rightarrow> if slug = [] \<or> prefix = [] then None else Some (slug, prefix, secret)))"

definition live_account :: "time \<Rightarrow> service_account \<Rightarrow> bool" where
  "live_account now a \<longleftrightarrow> sa_revoked a = None \<and> now < sa_expires a"

definition account_principal :: "service_account \<Rightarrow> ident \<Rightarrow> principal" where
  "account_principal a ws =
     \<lparr>pr_subject = ''service-account:'' @ sa_id a, pr_issuer = ''recordlane:service-account'',
      pr_ws = ws, pr_roles = sa_roles a, pr_scopes = Some (sa_scopes a)\<rparr>"

definition modify_account :: "ident \<Rightarrow> (service_account \<Rightarrow> service_account) \<Rightarrow> site \<Rightarrow> site" where
  "modify_account i f s = s\<lparr>accounts := row_modify sa_id i f (accounts s)\<rparr>"

definition service_principal ::
    "crypto \<Rightarrow> settings \<Rightarrow> time \<Rightarrow> string \<Rightarrow> site \<Rightarrow> principal option \<times> site" where
  "service_principal C cfg now raw s =
     (case parse_credential raw of
        None \<Rightarrow> (None, s)
      | Some (slug, prefix, secret) \<Rightarrow>
          (case find (\<lambda>w. sees_workspace cfg slug w \<and> ws_slug w = slug) (workspaces (core s)) of
             None \<Rightarrow> (None, s)
           | Some w \<Rightarrow>
               (case find (\<lambda>a. sees_account cfg slug a \<and> sa_ws a = ws_id w \<and> sa_prefix a = prefix) (accounts s) of
                  None \<Rightarrow> (None, s)
                | Some a \<Rightarrow>
                    if \<not> live_account now a then (None, s)
                    else if scrypt C secret (sa_salt a) \<noteq> sa_verifier a then (None, s)
                    else (Some (account_principal a (ws_id w)),
                          modify_account (sa_id a) (\<lambda>a. a\<lparr>sa_used := Some now\<rparr>) s))))"

section \<open>Browser sessions\<close>

definition modify_session :: "ident \<Rightarrow> (browser_session \<Rightarrow> browser_session) \<Rightarrow> site \<Rightarrow> site" where
  "modify_session i f s = s\<lparr>sessions := row_modify bs_id i f (sessions s)\<rparr>"

definition revoke_at :: "time \<Rightarrow> browser_session \<Rightarrow> browser_session" where
  "revoke_at now b = b\<lparr>bs_revoked := Some now\<rparr>"

definition find_session :: "crypto \<Rightarrow> string \<Rightarrow> site \<Rightarrow> browser_session option" where
  "find_session C raw s = find (\<lambda>b. bs_token b = sha256 C raw) (sessions s)"

definition session_principal :: "crypto \<Rightarrow> time \<Rightarrow> string \<Rightarrow> site \<Rightarrow> principal option \<times> site" where
  "session_principal C now raw s =
     (case find_session C raw s of
        None \<Rightarrow> (None, s)
      | Some b \<Rightarrow>
          if bs_revoked b \<noteq> None \<or> bs_expires b \<le> now then (None, s)
          else (case row_get iu_id (bs_user b) (users s) of
              Some u \<Rightarrow>
                if iu_active u
                then (Some \<lparr>pr_subject = iu_subject u, pr_issuer = bs_issuer b, pr_ws = bs_ws b,
                        pr_roles = bs_roles b, pr_scopes = None\<rparr>,
                      modify_session (bs_id b) (\<lambda>b. b\<lparr>bs_seen := now\<rparr>) s)
                else (None, modify_session (bs_id b) (revoke_at now) s)
            | None \<Rightarrow> (None, modify_session (bs_id b) (revoke_at now) s)))"

definition revoke_sessions :: "time \<Rightarrow> ident \<Rightarrow> site \<Rightarrow> site" where
  "revoke_sessions now i s =
     s\<lparr>sessions := update_rows (\<lambda>b. bs_user b = i \<and> bs_revoked b = None) (revoke_at now) (sessions s)\<rparr>"

definition entitlements :: "identity_user \<Rightarrow> site \<Rightarrow> string set \<times> string set" where
  "entitlements u s =
     (let gs = filter (\<lambda>g. \<exists>m \<in> set (group_members s). gm_group m = ig_id g \<and> gm_user m = iu_id u) (groups s)
      in (set (iu_roles u) \<union> (\<Union>g \<in> set gs. set (ig_roles g)),
          set (iu_workspaces u) \<union> (\<Union>g \<in> set gs. set (ig_workspaces g))))"

section \<open>The identity provider's metadata\<close>

definition override_key :: "string option \<Rightarrow> string \<Rightarrow> dict \<Rightarrow> dict" where
  "override_key x k d = (if truthy_str x then AList.update k (JStr (the x)) d else d)"

definition metadata :: "settings \<Rightarrow> provider \<Rightarrow> dict res" where
  "metadata cfg P =
     bind_res (guard_res (truthy_str (oidc_issuer cfg)) (HTTPException 503 ''identity_not_configured'')) (\<lambda>_.
     bind_res (from_option (HTTPException 503 ''identity_provider_unavailable'') (discovery P)) (\<lambda>j.
     bind_res (as_dict j) (\<lambda>d.
     bind_res (guard_res (dget d ''issuer'' = JStr (the (oidc_issuer cfg)))
       (HTTPException 503 ''identity_issuer_mismatch'')) (\<lambda>_.
     let d' = override_key (end_session_url cfg) ''end_session_endpoint''
                (override_key (jwks_url cfg) ''jwks_uri'' (override_key (token_url cfg) ''token_endpoint'' d))
     in bind_res (guard_res ({''authorization_endpoint'', ''token_endpoint'', ''jwks_uri''} \<subseteq> set (dkeys d'))
          (HTTPException 503 ''identity_metadata_incomplete'')) (\<lambda>_. Inr d')))))"

section \<open>The principal of a request\<close>

record request =
  rq_authorization :: "string option"
  rq_cookie :: "string option"
  rq_host :: "string option"
  rq_user :: "string option"
  rq_role :: "string option"
  rq_workspace :: "string option"

text \<open>\<open>workspace[0] if workspace else None\<close>, then \<open>if not workspace\<close>.\<close>

definition claimed_workspace :: "claims \<Rightarrow> string option" where
  "claimed_workspace c =
     (let w = (case cl_workspace c of NoClaim \<Rightarrow> None | OneWorkspace w \<Rightarrow> Some w
                | Workspaces [] \<Rightarrow> None | Workspaces (w # _) \<Rightarrow> Some w)
      in if truthy_str w then w else None)"

definition find_identity :: "string \<Rightarrow> string \<Rightarrow> site \<Rightarrow> identity_user option" where
  "find_identity issuer sub s = find (\<lambda>u. iu_issuer u = issuer \<and> iu_subject u = sub) (users s)"

text \<open>The roles of a token, cut down to those of the identity when there is one.\<close>

definition bearer_roles :: "claims \<Rightarrow> string \<Rightarrow> site \<Rightarrow> string list res" where
  "bearer_roles c w s =
     (case find_identity (cl_iss c) (cl_sub c) s of
        None \<Rightarrow> Inr (cl_roles c)
      | Some u \<Rightarrow>
          bind_res (guard_res (iu_active u) (HTTPException 403 ''identity_deprovisioned'')) (\<lambda>_.
          bind_res (guard_res (w \<in> set (iu_workspaces u)) (HTTPException 403 ''workspace_not_provisioned'')) (\<lambda>_.
          Inr (sorted_set (filter (\<lambda>r. r \<in> set (iu_roles u)) (cl_roles c))))))"

definition bearer_principal :: "settings \<Rightarrow> provider \<Rightarrow> string \<Rightarrow> site \<Rightarrow> principal res" where
  "bearer_principal cfg P token s =
     bind_res (guard_res (truthy_str (oidc_issuer cfg) \<and> truthy_str (oidc_audience cfg))
       (HTTPException 503 ''identity_not_configured'')) (\<lambda>_.
     bind_res (case metadata cfg P of
         Inl (HTTPException c m) \<Rightarrow> Inl (HTTPException c m)
       | Inl _ \<Rightarrow> Inl (HTTPException 401 ''invalid_token'')
       | Inr d \<Rightarrow> from_option (HTTPException 401 ''invalid_token'') (decode_access P d (JStr token))) (\<lambda>c.
     bind_res (from_option (HTTPException 403 ''workspace_claim_required'') (claimed_workspace c)) (\<lambda>w.
     bind_res (bearer_roles c w s) (\<lambda>rs.
     Inr \<lparr>pr_subject = cl_sub c, pr_issuer = cl_iss c, pr_ws = w, pr_roles = rs, pr_scopes = None\<rparr>))))"

definition loopback_hosts :: "string list" where
  "loopback_hosts = [''127.0.0.1'', ''::1'', ''testclient'']"

definition demo_principal :: "settings \<Rightarrow> request \<Rightarrow> principal res" where
  "demo_principal cfg rq =
     bind_res (guard_res (demo_mode cfg) (HTTPException 401 ''authentication_required'')) (\<lambda>_.
     bind_res (guard_res ((case rq_host rq of None \<Rightarrow> [] | Some h \<Rightarrow> h) \<in> set loopback_hosts \<or> demo_reverse_proxy cfg)
       (HTTPException 403 ''demo_remote_forbidden'')) (\<lambda>_.
     Inr \<lparr>pr_subject = or_default (rq_user rq) ''demo.steward'', pr_issuer = ''recordlane:loopback-demo'',
          pr_ws = or_default (rq_workspace rq) ''demo'',
          pr_roles = split_on CHR '','' (or_default (rq_role rq) ''administrator''), pr_scopes = None\<rparr>))"

definition current_principal ::
    "crypto \<Rightarrow> settings \<Rightarrow> provider \<Rightarrow> time \<Rightarrow> request \<Rightarrow> site \<Rightarrow> principal res \<times> site" where
  "current_principal C cfg P now rq s =
     (let auth = (case rq_authorization rq of None \<Rightarrow> [] | Some a \<Rightarrow> a) in
      if prefix_of ''RecordlaneKey '' auth then
        (case service_principal C cfg now (strip_prefix ''RecordlaneKey '' auth) s of
           (Some p, t) \<Rightarrow> (Inr p, t)
         | (None, t) \<Rightarrow> (Inl (HTTPException 401 ''invalid_service_credential''), t))
      else if prefix_of ''Bearer '' auth then (bearer_principal cfg P (strip_prefix ''Bearer '' auth) s, s)
      else if truthy_str (rq_cookie rq) then
        (case session_principal C now (the (rq_cookie rq)) s of
           (Some p, t) \<Rightarrow> (Inr p, t)
         | (None, t) \<Rightarrow> (Inl (HTTPException 401 ''invalid_session''), t))
      else (demo_principal cfg rq, s))"

end
