(* ===== verification/Login.thy ===== *)
theory Login
  imports Identity
begin

text \<open>
  Signing in and out (auth/session.py) and the machine identities of a workspace (the service
  account and workspace routes of api/routes.py). The random state, verifier, nonce, session token,
  prefix, secret and salt are arguments.
\<close>

section \<open>Starting a login\<close>

definition minutes :: "int \<Rightarrow> time" where
  "minutes n = n * 60 * 1000000"

definition fernet :: "settings \<Rightarrow> string res" where
  "fernet cfg = bind_res (guard_res (truthy_str (session_secret cfg))
     (HTTPException 503 ''browser_sessions_not_configured'')) (\<lambda>_. Inr (the (session_secret cfg)))"

definition local_path :: "string \<Rightarrow> bool" where
  "local_path p \<longleftrightarrow> prefix_of ''/'' p \<and> \<not> prefix_of ''//'' p"

text \<open>The address of the redirect and the parameters of its query that the later steps depend on.\<close>

record login_redirect =
  lr_endpoint :: json
  lr_state :: string
  lr_nonce :: string

definition login ::
    "crypto \<Rightarrow> settings \<Rightarrow> provider \<Rightarrow> time \<Rightarrow> string \<Rightarrow> string \<Rightarrow> string \<Rightarrow> string \<Rightarrow> site \<Rightarrow>
     (login_redirect \<times> site) res" where
  "login C cfg P now state verifier nonce return_to s =
     bind_res (guard_res (truthy_str (oidc_client_id cfg)) (HTTPException 503 ''browser_identity_not_configured'')) (\<lambda>_.
     bind_res (guard_res (local_path return_to) (HTTPException 422 ''invalid_return_to'')) (\<lambda>_.
     bind_res (metadata cfg P) (\<lambda>d.
     bind_res (fernet cfg) (\<lambda>k.
     bind_res (guard_res (sha256 C state \<notin> ol_state ` set (logins s)) (IntegrityError ''oidc_logins'')) (\<lambda>_.
     Inr (\<lparr>lr_endpoint = (if truthy_str (authorization_url cfg) then JStr (the (authorization_url cfg))
                          else dget d ''authorization_endpoint''), lr_state = state, lr_nonce = nonce\<rparr>,
          s\<lparr>logins := row_add \<lparr>ol_state = sha256 C state, ol_verifier = seal C k verifier, ol_nonce = nonce,
              ol_return = return_to, ol_created = now, ol_consumed = None\<rparr> (logins s)\<rparr>))))))"

section \<open>The callback\<close>

definition token_roles :: "claims \<Rightarrow> string \<Rightarrow> string list" where
  "token_roles c client = sorted_set (cl_roles c @ cl_client_roles c client)"

definition id_claims :: "provider \<Rightarrow> dict \<Rightarrow> json \<Rightarrow> string \<Rightarrow> claims res" where
  "id_claims P d token nonce =
     bind_res (from_option (HTTPException 401 ''invalid_id_token'') (decode_id P d token)) (\<lambda>c.
     bind_res (guard_res (cl_nonce c = nonce) (HTTPException 401 ''invalid_oidc_nonce'')) (\<lambda>_. Inr c))"

definition access_claims :: "provider \<Rightarrow> dict \<Rightarrow> json \<Rightarrow> claims res" where
  "access_claims P d token = from_option (HTTPException 401 ''invalid_access_token'') (decode_access P d token)"

text \<open>A pending login: \<open>db.get\<close>, not consumed, at most ten minutes old.\<close>

definition pending_login :: "crypto \<Rightarrow> time \<Rightarrow> string \<Rightarrow> site \<Rightarrow> oidc_login res" where
  "pending_login C now state s =
     bind_res (from_option (HTTPException 401 ''invalid_oidc_state'') (row_get ol_state (sha256 C state) (logins s))) (\<lambda>l.
     bind_res (guard_res (ol_consumed l = None \<and> \<not> ol_created l < now - minutes 10)
       (HTTPException 401 ''invalid_oidc_state'')) (\<lambda>_. Inr l))"

definition consume :: "time \<Rightarrow> string \<Rightarrow> site \<Rightarrow> site" where
  "consume now h s = s\<lparr>logins := row_modify ol_state h (\<lambda>l. l\<lparr>ol_consumed := Some now\<rparr>) (logins s)\<rparr>"

definition new_identity :: "runtime \<Rightarrow> settings \<Rightarrow> time \<Rightarrow> claims \<Rightarrow> string list \<Rightarrow> string \<Rightarrow> site \<Rightarrow> identity_user" where
  "new_identity R cfg now c rs w s =
     \<lparr>iu_id = next_id R (core s), iu_issuer = the (oidc_issuer cfg), iu_subject = cl_sub c, iu_external = None,
      iu_name = or_default (cl_user_name c) (cl_sub c), iu_display = cl_display c, iu_active = True,
      iu_roles = rs, iu_workspaces = [w], iu_version = 1, iu_updated = now\<rparr>"

definition tick :: "site \<Rightarrow> site" where
  "tick s = s\<lparr>core := (core s)\<lparr>ticks := Suc (ticks (core s))\<rparr>\<rparr>"

text \<open>The identity that signs in, and the roles its session gets.\<close>

definition admit_identity ::
    "runtime \<Rightarrow> settings \<Rightarrow> time \<Rightarrow> claims \<Rightarrow> string list \<Rightarrow> string \<Rightarrow> site \<Rightarrow> (ident \<times> string list \<times> site) res" where
  "admit_identity R cfg now c rs w s =
     (case find_identity (the (oidc_issuer cfg)) (cl_sub c) s of
        Some u \<Rightarrow>
          bind_res (guard_res (iu_active u) (HTTPException 403 ''identity_deprovisioned'')) (\<lambda>_.
          let (granted, workspaces) = entitlements u s in
          bind_res (guard_res (w \<in> workspaces) (HTTPException 403 ''workspace_not_provisioned'')) (\<lambda>_.
          Inr (iu_id u, if granted \<noteq> {} then sorted_set (filter (\<lambda>r. r \<in> granted) rs) else rs, s)))
      | None \<Rightarrow>
          bind_res (guard_res (auto_provision cfg) (HTTPException 403 ''identity_not_provisioned'')) (\<lambda>_.
          let u = new_identity R cfg now c rs w s
          in Inr (iu_id u, rs, tick (s\<lparr>users := row_add u (users s)\<rparr>))))"

definition session_expiry :: "settings \<Rightarrow> time \<Rightarrow> claims \<Rightarrow> time" where
  "session_expiry cfg now c = min (cl_exp c * 1000000) (now + session_ttl cfg * 1000000)"

definition new_session ::
    "runtime \<Rightarrow> crypto \<Rightarrow> settings \<Rightarrow> time \<Rightarrow> string \<Rightarrow> ident \<Rightarrow> string \<Rightarrow> string list \<Rightarrow> json \<Rightarrow> claims \<Rightarrow> site \<Rightarrow>
     browser_session" where
  "new_session R C cfg now raw i w rs hint c s =
     \<lparr>bs_id = next_id R (core s), bs_token = sha256 C raw, bs_user = i, bs_issuer = the (oidc_issuer cfg),
      bs_ws = w, bs_roles = rs, bs_hint = (case hint of JStr h \<Rightarrow> Some h | _ \<Rightarrow> None),
      bs_expires = session_expiry cfg now c, bs_revoked = None, bs_seen = now\<rparr>"

text \<open>
  From the tokens on: the claims, the identity and the session, in the open transaction \<open>s\<close>. The
  result is where the browser is sent and the cookie's age in seconds.
\<close>

definition open_session ::
    "runtime \<Rightarrow> crypto \<Rightarrow> settings \<Rightarrow> provider \<Rightarrow> time \<Rightarrow> string \<Rightarrow> dict \<Rightarrow> oidc_login \<Rightarrow> dict \<Rightarrow> site \<Rightarrow>
     ((string \<times> int) \<times> site) res" where
  "open_session R C cfg P now raw d l tokens s =
     bind_res (id_claims P d (dget_or tokens ''id_token'' (JStr [])) (ol_nonce l)) (\<lambda>c.
     bind_res (access_claims P d (dget_or tokens ''access_token'' (JStr []))) (\<lambda>a.
     bind_res (guard_res (cl_sub a = cl_sub c) (HTTPException 401 ''oidc_subject_mismatch'')) (\<lambda>_.
     bind_res (from_option (HTTPException 403 ''workspace_claim_required'') (claimed_workspace c)) (\<lambda>w.
     bind_res (admit_identity R cfg now c (token_roles a (or_default (oidc_client_id cfg) [])) w s) (\<lambda>(i, rs, t).
     let b = new_session R C cfg now raw i w rs (dget tokens ''id_token'') c t in
     bind_res (guard_res (bs_token b \<notin> bs_token ` set (sessions t)) (IntegrityError ''browser_sessions'')) (\<lambda>_.
     Inr ((ol_return l, max 0 ((bs_expires b - now) div 1000000)), tick (t\<lparr>sessions := row_add b (sessions t)\<rparr>))))))))"

definition client_form :: "settings \<Rightarrow> string option res" where
  "client_form cfg =
     (if truthy_str (client_secret_file cfg)
      then bind_res (from_option (PyError ''OSError'') (client_secret cfg)) (\<lambda>x. Inr (Some x)) else Inr None)"

text \<open>
  A failed exchange commits the consumed state. Every other exception leaves the transaction, and
  with it the state, as they were.
\<close>

definition callback ::
    "runtime \<Rightarrow> crypto \<Rightarrow> settings \<Rightarrow> provider \<Rightarrow> time \<Rightarrow> string \<Rightarrow> string \<Rightarrow> string \<Rightarrow> site \<Rightarrow>
     (string \<times> int) res \<times> site" where
  "callback R C cfg P now code state raw s =
     (case bind_res (metadata cfg P) (\<lambda>d.
           bind_res (pending_login C now state s) (\<lambda>l.
           bind_res (fernet cfg) (\<lambda>k.
           bind_res (from_option (HTTPException 401 ''oidc_transaction_key_rotated'') (unseal C k (ol_verifier l))) (\<lambda>v.
           bind_res (client_form cfg) (\<lambda>secret. Inr (d, l, v, secret)))))) of
        Inl e \<Rightarrow> (Inl e, s)
      | Inr (d, l, v, secret) \<Rightarrow>
          let s1 = consume now (ol_state l) s in
          (case exchange P code v secret of
             None \<Rightarrow> (Inl (HTTPException 502 ''oidc_code_exchange_failed''), s1)
           | Some j \<Rightarrow>
               (case bind_res (as_dict j) (\<lambda>tokens. open_session R C cfg P now raw d l tokens s1) of
                  Inl e \<Rightarrow> (Inl e, s)
                | Inr (r, t) \<Rightarrow> (Inr r, t))))"

section \<open>Signing out\<close>

text \<open>The destination when the provider has an end-session endpoint, a hint and readable metadata.\<close>

definition logout ::
    "crypto \<Rightarrow> settings \<Rightarrow> provider \<Rightarrow> time \<Rightarrow> string option \<Rightarrow> site \<Rightarrow> (json \<times> string) option res \<times> site" where
  "logout C cfg P now cookie s =
     (let found = (if truthy_str cookie then find_session C (the cookie) s else None);
          hint = Option.bind found bs_hint;
          t = (case found of None \<Rightarrow> s | Some b \<Rightarrow> modify_session (bs_id b) (revoke_at now) s)
      in (case metadata cfg P of
            Inl (HTTPException _ _) \<Rightarrow> Inr None
          | Inl e \<Rightarrow> Inl e
          | Inr d \<Rightarrow> Inr (if truthy (dget d ''end_session_endpoint'') \<and> truthy_str hint
                     then Some (dget d ''end_session_endpoint'', the hint) else None), t))"

section \<open>Workspaces\<close>

definition create_workspace :: "runtime \<Rightarrow> time \<Rightarrow> principal \<Rightarrow> string \<Rightarrow> string \<Rightarrow> site \<Rightarrow> (workspace \<times> site) res" where
  "create_workspace R now p slug name s =
     bind_res (open_service p ''read'' (core s)) (\<lambda>_.
     bind_res (guard_res (allows p ''*'') (HTTPException 403 ''administrator_required'')) (\<lambda>_.
     bind_res (guard_res (slug \<notin> ws_slug ` set (workspaces (core s))) (HTTPException 409 ''workspace_exists'')) (\<lambda>_.
     let w = \<lparr>ws_id = next_id R (core s), ws_slug = slug, ws_name = name\<rparr>;
         c = (core s)\<lparr>workspaces := row_add w (workspaces (core s)), ticks := Suc (ticks (core s))\<rparr>;
         us = (case find_identity (pr_issuer p) (pr_subject p) s of
                 None \<Rightarrow> users s
               | Some u \<Rightarrow>
                   if slug \<in> set (iu_workspaces u) then users s
                   else row_modify iu_id (iu_id u)
                     (\<lambda>u. u\<lparr>iu_workspaces := sorted_set (slug # iu_workspaces u), iu_version := iu_version u + 1,
                            iu_updated := now\<rparr>) (users s))
     in Inr (w, s\<lparr>core := c, users := us\<rparr>))))"

section \<open>Service accounts\<close>

text \<open>The issued prefix, secret and salt, and the credential shown once.\<close>

definition issue :: "crypto \<Rightarrow> string \<Rightarrow> string \<Rightarrow> string \<Rightarrow> service_account \<Rightarrow> service_account" where
  "issue C prefix secret salt a = a\<lparr>sa_prefix := prefix, sa_salt := salt, sa_verifier := scrypt C secret salt\<rparr>"

definition credential :: "string \<Rightarrow> string \<Rightarrow> string \<Rightarrow> string" where
  "credential slug prefix secret = account_key @ slug @ [CHR ''_''] @ prefix @ [CHR ''.''] @ secret"

definition administer :: "principal \<Rightarrow> db \<Rightarrow> service res" where
  "administer p s =
     bind_res (open_service p ''model:write'' s) (\<lambda>sv.
     bind_res (guard_res (''administrator'' \<in> set (pr_roles p)) (HTTPException 403 ''administrator_required'')) (\<lambda>_.
     Inr sv))"

definition slug_of :: "service \<Rightarrow> db \<Rightarrow> string" where
  "slug_of sv s = (case row_get ws_id (wid sv) (workspaces s) of None \<Rightarrow> [] | Some w \<Rightarrow> ws_slug w)"

definition known_permissions :: "string set" where
  "known_permissions = \<Union> (set ` set (map snd role_permissions))"

definition days :: "int \<Rightarrow> time" where
  "days n = n * 24 * 60 * 60 * 1000000"

definition create_account ::
    "runtime \<Rightarrow> crypto \<Rightarrow> time \<Rightarrow> principal \<Rightarrow> string \<Rightarrow> string list \<Rightarrow> string list \<Rightarrow> int \<Rightarrow>
     string \<Rightarrow> string \<Rightarrow> string \<Rightarrow> site \<Rightarrow> ((service_account \<times> string) \<times> site) res" where
  "create_account R C now p name rs scopes expires prefix secret salt s =
     bind_res (administer p (core s)) (\<lambda>sv.
     bind_res (guard_res (''*'' \<in> permissions_of rs \<or> set scopes \<subseteq> permissions_of rs)
       (HTTPException 422 ''scope_exceeds_role_permissions'')) (\<lambda>_.
     bind_res (guard_res (set scopes \<subseteq> known_permissions) (HTTPException 422 ''unknown_service_scope'')) (\<lambda>_.
     bind_res (guard_res (\<not> (\<exists>a \<in> set (accounts s). sa_ws a = wid sv \<and> sa_name a = name))
       (HTTPException 409 ''service_account_exists'')) (\<lambda>_.
     let a = issue C prefix secret salt
           \<lparr>sa_id = next_id R (core s), sa_ws = wid sv, sa_name = name, sa_prefix = ''pending'',
            sa_verifier = ''pending'', sa_salt = ''pending'', sa_version = 1, sa_roles = sorted_set rs,
            sa_scopes = sorted_set scopes, sa_expires = now + days expires, sa_revoked = None,
            sa_by = pr_subject p, sa_used = None\<rparr>
     in bind_res (guard_res (prefix \<notin> sa_prefix ` set (accounts s)) (IntegrityError ''service_accounts'')) (\<lambda>_.
        let t = tick s in
        Inr ((a, credential (slug_of sv (core s)) prefix secret),
          t\<lparr>accounts := row_add a (accounts s),
            core := audit R sv ''service_account.created'' ''service_account'' (sa_id a)
              (JObj [(''roles'', JList (map JStr (sa_roles a))), (''scopes'', JList (map JStr (sa_scopes a))),
                     (''expires_at'', JStr (isoformat R (sa_expires a)))]) (core t)\<rparr>))))))"

definition find_account :: "service \<Rightarrow> ident \<Rightarrow> site \<Rightarrow> service_account res" where
  "find_account sv i s =
     from_option (HTTPException 404 ''service_account_not_found'')
       (find (\<lambda>a. sa_id a = i \<and> sa_ws a = wid sv) (accounts s))"

definition rotate_account ::
    "runtime \<Rightarrow> crypto \<Rightarrow> principal \<Rightarrow> ident \<Rightarrow> string \<Rightarrow> string \<Rightarrow> string \<Rightarrow> site \<Rightarrow> ((service_account \<times> string) \<times> site) res" where
  "rotate_account R C p i prefix secret salt s =
     bind_res (administer p (core s)) (\<lambda>sv.
     bind_res (find_account sv i s) (\<lambda>a.
     let f = (\<lambda>a. (issue C prefix secret salt a)\<lparr>sa_version := sa_version a + 1, sa_revoked := None\<rparr>) in
     bind_res (guard_res (\<forall>q \<in> set (accounts s). sa_prefix q = prefix \<longrightarrow> sa_id q = i) (IntegrityError ''service_accounts'')) (\<lambda>_.
     let t = modify_account i f s in
     Inr ((f a, credential (slug_of sv (core s)) prefix secret),
       t\<lparr>core := audit R sv ''service_account.rotated'' ''service_account'' i
            (JObj [(''credential_version'', JInt (sa_version a + 1))]) (core s)\<rparr>))))"

definition revoke_account :: "runtime \<Rightarrow> time \<Rightarrow> principal \<Rightarrow> ident \<Rightarrow> site \<Rightarrow> (service_account \<times> site) res" where
  "revoke_account R now p i s =
     bind_res (administer p (core s)) (\<lambda>sv.
     bind_res (find_account sv i s) (\<lambda>a.
     let f = (\<lambda>a. a\<lparr>sa_revoked := Some now\<rparr>); t = modify_account i f s in
     Inr (f a, t\<lparr>core := audit R sv ''service_account.revoked'' ''service_account'' i (JObj []) (core s)\<rparr>)))"

end
