(* ===== verification/Provisioning.thy ===== *)
theory Provisioning
  imports Login
begin

text \<open>
  The SCIM lifecycle of users and groups (auth/scim.py): the requests it accepts, the rows it
  changes and the sessions it revokes. \<open>revoke_identity_sessions\<close> runs in a transaction of its own
  after the change is committed; the two are taken together here, and what a crash between them leaves
  is \<open>interrupted_deactivation_spares_sessions\<close>. A role object whose value is no
  string, which the schema of a user forbids and a patch does not check, is a \<open>TypeError\<close> here.
\<close>

section \<open>Requests\<close>

definition require_scim :: "settings \<Rightarrow> string option \<Rightarrow> unit res" where
  "require_scim cfg authorization =
     bind_res (guard_res (truthy_str (scim_token_file cfg)) (HTTPException 503 ''scim_not_configured'')) (\<lambda>_.
     bind_res (from_option (HTTPException 503 ''scim_secret_unavailable'') (scim_token cfg)) (\<lambda>expected.
     let supplied = (case authorization of None \<Rightarrow> [] | Some a \<Rightarrow> strip_prefix ''Bearer '' a) in
     guard_res (supplied \<noteq> [] \<and> supplied = expected) (HTTPException 401 ''invalid_scim_token'')))"

text \<open>The roles of a payload are objects of strings; \<open>sr_values\<close> are their \<open>value\<close>s.\<close>

record scim_user =
  su_external :: string
  su_name :: string
  su_display :: "string option"
  su_active :: bool
  su_roles :: "string option list"
  su_workspaces :: "string list"

record scim_group =
  sg_external :: string
  sg_name :: string
  sg_members :: "ident list"
  sg_roles :: "string option list"
  sg_workspaces :: "string list"

datatype patch_op = PatchAdd | PatchReplace | PatchRemove

datatype user_path = PathActive | PathUserName | PathDisplayName | PathRoles | PathWorkspaces

datatype group_path = GroupDisplayName | GroupMembers | GroupRoles | GroupWorkspaces

definition given_roles :: "string option list \<Rightarrow> string list" where
  "given_roles rs = sorted_set (map the (filter truthy_str rs))"

text \<open>\<open>[] if op == "remove" else value\<close>, iterated.\<close>

definition patch_items :: "patch_op \<Rightarrow> json \<Rightarrow> json list res" where
  "patch_items op v = (if op = PatchRemove then Inr [] else py_iter v)"

definition role_of :: "runtime \<Rightarrow> json \<Rightarrow> string option res" where
  "role_of R v =
     (case v of
        JObj d \<Rightarrow> if truthy (dget d ''value'')
          then (case dget d ''value'' of JStr r \<Rightarrow> Inr (Some r) | _ \<Rightarrow> Inl (PyError ''TypeError'')) else Inr None
      | _ \<Rightarrow> Inr (if truthy v then Some (py_str R v) else None))"

definition patched_roles :: "runtime \<Rightarrow> patch_op \<Rightarrow> json \<Rightarrow> string list res" where
  "patched_roles R op v =
     bind_res (patch_items op v) (\<lambda>xs. bind_res (map_res (role_of R) xs) (\<lambda>rs.
     Inr (sorted_set (List.map_filter id rs))))"

definition patched_workspaces :: "runtime \<Rightarrow> patch_op \<Rightarrow> json \<Rightarrow> string list res" where
  "patched_workspaces R op v = bind_res (patch_items op v) (\<lambda>xs. Inr (sorted_set (map (py_str R) xs)))"

section \<open>Listing\<close>

definition page :: "'a list \<Rightarrow> nat \<Rightarrow> nat \<Rightarrow> 'a list" where
  "page rows start n = take n (drop (start - 1) rows)"

definition scim_filter :: "string option \<Rightarrow> string \<Rightarrow> string option res" where
  "scim_filter expression field =
     (if \<not> truthy_str expression then Inr None
      else
        let e = the expression; p = field @ '' eq '' @ [CHR 0x22] in
        if prefix_of p e \<and> prefix_of [CHR 0x22] (rev e)
        then Inr (Some (butlast (drop (length p) e)))
        else Inl (HTTPException 400 ''unsupported_scim_filter''))"

definition list_users :: "string option \<Rightarrow> nat \<Rightarrow> nat \<Rightarrow> site \<Rightarrow> (nat \<times> identity_user list) res" where
  "list_users expression start n s =
     bind_res (scim_filter expression ''userName'') (\<lambda>f.
     let rows = filter (\<lambda>u. case f of None \<Rightarrow> True | Some x \<Rightarrow> iu_name u = x) (sort_key iu_name (users s))
     in Inr (length rows, page rows start n))"

definition list_groups :: "string option \<Rightarrow> nat \<Rightarrow> nat \<Rightarrow> site \<Rightarrow> (nat \<times> identity_group list) res" where
  "list_groups expression start n s =
     bind_res (scim_filter expression ''displayName'') (\<lambda>f.
     let rows = filter (\<lambda>g. case f of None \<Rightarrow> True | Some x \<Rightarrow> ig_name g = x) (sort_key ig_name (groups s))
     in Inr (length rows, page rows start n))"

section \<open>Users\<close>

definition get_user :: "ident \<Rightarrow> site \<Rightarrow> identity_user res" where
  "get_user i s = from_option (HTTPException 404 ''scim_user_not_found'') (row_get iu_id i (users s))"

text \<open>The unique keys of a user row; a missing external id is not compared.\<close>

definition user_clash :: "identity_user \<Rightarrow> identity_user \<Rightarrow> bool" where
  "user_clash u v \<longleftrightarrow> iu_issuer u = iu_issuer v \<and>
     (iu_subject u = iu_subject v \<or> (iu_external u \<noteq> None \<and> iu_external u = iu_external v))"

definition user_fits :: "identity_user \<Rightarrow> site \<Rightarrow> bool" where
  "user_fits u s \<longleftrightarrow> (\<forall>v \<in> set (users s). iu_id v \<noteq> iu_id u \<longrightarrow> \<not> user_clash u v)"

definition create_user :: "runtime \<Rightarrow> settings \<Rightarrow> time \<Rightarrow> scim_user \<Rightarrow> site \<Rightarrow> (identity_user \<times> site) res" where
  "create_user R cfg now p s =
     bind_res (guard_res (truthy_str (oidc_issuer cfg)) (HTTPException 503 ''identity_not_configured'')) (\<lambda>_.
     let issuer = the (oidc_issuer cfg) in
     bind_res (guard_res (\<not> (\<exists>u \<in> set (users s). iu_issuer u = issuer \<and> iu_external u = Some (su_external p)))
       (HTTPException 409 ''scim_user_exists'')) (\<lambda>_.
     let u = \<lparr>iu_id = next_id R (core s), iu_issuer = issuer, iu_subject = su_external p,
              iu_external = Some (su_external p), iu_name = su_name p, iu_display = su_display p,
              iu_active = su_active p, iu_roles = given_roles (su_roles p),
              iu_workspaces = sorted_set (su_workspaces p), iu_version = 1, iu_updated = now\<rparr>
     in bind_res (guard_res (user_fits u s) (IntegrityError ''identity_users'')) (\<lambda>_.
        Inr (u, tick (s\<lparr>users := row_add u (users s)\<rparr>)))))"

text \<open>The end of every change of a user: the row is stored and, when it was deactivated, its sessions end.\<close>

definition store_user :: "time \<Rightarrow> identity_user \<Rightarrow> identity_user \<Rightarrow> site \<Rightarrow> (identity_user \<times> site) res" where
  "store_user now old u s =
     (let u' = u\<lparr>iu_version := iu_version old + 1, iu_updated := now\<rparr> in
      bind_res (guard_res (user_fits u' s) (IntegrityError ''identity_users'')) (\<lambda>_.
      let t = s\<lparr>users := row_modify iu_id (iu_id old) (\<lambda>_. u') (users s)\<rparr>
      in Inr (u', if iu_active old \<and> \<not> iu_active u' then revoke_sessions now (iu_id old) t else t)))"

definition replaced_user :: "scim_user \<Rightarrow> identity_user \<Rightarrow> identity_user" where
  "replaced_user p u =
     u\<lparr>iu_external := Some (su_external p), iu_subject := su_external p, iu_name := su_name p,
       iu_display := su_display p, iu_active := su_active p, iu_roles := given_roles (su_roles p),
       iu_workspaces := sorted_set (su_workspaces p)\<rparr>"

definition replace_user :: "time \<Rightarrow> ident \<Rightarrow> scim_user \<Rightarrow> site \<Rightarrow> (identity_user \<times> site) res" where
  "replace_user now i p s = bind_res (get_user i s) (\<lambda>u. store_user now u (replaced_user p u) s)"

definition patch_user_row :: "runtime \<Rightarrow> patch_op \<times> user_path \<times> json \<Rightarrow> identity_user \<Rightarrow> identity_user res" where
  "patch_user_row R x u =
     (case x of (op, path, v) \<Rightarrow>
        (case path of
           PathActive \<Rightarrow> Inr (u\<lparr>iu_active := op \<noteq> PatchRemove \<and> truthy v\<rparr>)
         | PathUserName \<Rightarrow>
             bind_res (guard_res (op \<noteq> PatchRemove \<and> truthy v) (HTTPException 422 ''scim_username_required'')) (\<lambda>_.
             Inr (u\<lparr>iu_name := py_str R v\<rparr>))
         | PathDisplayName \<Rightarrow> Inr (u\<lparr>iu_display := (if op = PatchRemove then None else Some (py_str R v))\<rparr>)
         | PathRoles \<Rightarrow> bind_res (patched_roles R op v) (\<lambda>rs. Inr (u\<lparr>iu_roles := rs\<rparr>))
         | PathWorkspaces \<Rightarrow> bind_res (patched_workspaces R op v) (\<lambda>ws. Inr (u\<lparr>iu_workspaces := ws\<rparr>))))"

definition patch_user ::
    "runtime \<Rightarrow> time \<Rightarrow> ident \<Rightarrow> (patch_op \<times> user_path \<times> json) list \<Rightarrow> site \<Rightarrow> (identity_user \<times> site) res" where
  "patch_user R now i ops s =
     bind_res (get_user i s) (\<lambda>u. bind_res (fold_res (patch_user_row R) ops u) (\<lambda>u'. store_user now u u' s))"

definition delete_user :: "time \<Rightarrow> ident \<Rightarrow> site \<Rightarrow> site res" where
  "delete_user now i s =
     bind_res (get_user i s) (\<lambda>u.
     Inr (revoke_sessions now i (s\<lparr>users := row_modify iu_id i
       (\<lambda>u. u\<lparr>iu_active := False, iu_version := iu_version u + 1, iu_updated := now\<rparr>) (users s)\<rparr>)))"

section \<open>Groups\<close>

definition get_group :: "ident \<Rightarrow> site \<Rightarrow> identity_group res" where
  "get_group i s = from_option (HTTPException 404 ''scim_group_not_found'') (row_get ig_id i (groups s))"

definition members_of :: "ident \<Rightarrow> site \<Rightarrow> ident set" where
  "members_of g s = gm_user ` {m \<in> set (group_members s). gm_group m = g}"

text \<open>The affected users and the new rows, or the requested users that do not exist.\<close>

definition replace_members :: "ident \<Rightarrow> ident list \<Rightarrow> site \<Rightarrow> (ident set \<times> site) res" where
  "replace_members g requested s =
     bind_res (guard_res (set requested \<subseteq> iu_id ` set (users s)) (HTTPException 422 ''scim_member_not_found'')) (\<lambda>_.
     Inr (members_of g s \<union> set requested,
          s\<lparr>group_members := filter (\<lambda>m. gm_group m \<noteq> g) (group_members s) @
              map (\<lambda>i. \<lparr>gm_group = g, gm_user = i\<rparr>) (remdups requested)\<rparr>))"

definition revoke_all :: "time \<Rightarrow> ident set \<Rightarrow> site \<Rightarrow> site" where
  "revoke_all now is s =
     s\<lparr>sessions := update_rows (\<lambda>b. bs_user b \<in> is \<and> bs_revoked b = None) (revoke_at now) (sessions s)\<rparr>"

definition group_fits :: "identity_group \<Rightarrow> site \<Rightarrow> bool" where
  "group_fits g s \<longleftrightarrow> (\<forall>q \<in> set (groups s). ig_id q \<noteq> ig_id g \<longrightarrow>
     ig_issuer q \<noteq> ig_issuer g \<or> ig_external q \<noteq> ig_external g)"

definition create_group :: "runtime \<Rightarrow> settings \<Rightarrow> time \<Rightarrow> scim_group \<Rightarrow> site \<Rightarrow> (identity_group \<times> site) res" where
  "create_group R cfg now p s =
     bind_res (guard_res (truthy_str (oidc_issuer cfg)) (HTTPException 503 ''identity_not_configured'')) (\<lambda>_.
     let issuer = the (oidc_issuer cfg) in
     bind_res (guard_res (\<not> (\<exists>g \<in> set (groups s). ig_issuer g = issuer \<and> ig_external g = sg_external p))
       (HTTPException 409 ''scim_group_exists'')) (\<lambda>_.
     let g = \<lparr>ig_id = next_id R (core s), ig_issuer = issuer, ig_external = sg_external p, ig_name = sg_name p,
              ig_roles = given_roles (sg_roles p), ig_workspaces = sorted_set (sg_workspaces p),
              ig_version = 1, ig_updated = now\<rparr>
     in bind_res (replace_members (ig_id g) (sg_members p) (tick (s\<lparr>groups := row_add g (groups s)\<rparr>))) (\<lambda>(is, t).
        Inr (g, revoke_all now is t))))"

definition replaced_group :: "time \<Rightarrow> scim_group \<Rightarrow> identity_group \<Rightarrow> identity_group" where
  "replaced_group now p g =
     g\<lparr>ig_external := sg_external p, ig_name := sg_name p, ig_roles := given_roles (sg_roles p),
       ig_workspaces := sorted_set (sg_workspaces p), ig_version := ig_version g + 1, ig_updated := now\<rparr>"

definition replace_group :: "time \<Rightarrow> ident \<Rightarrow> scim_group \<Rightarrow> site \<Rightarrow> (identity_group \<times> site) res" where
  "replace_group now i p s =
     bind_res (get_group i s) (\<lambda>g.
     let g' = replaced_group now p g in
     bind_res (guard_res (group_fits g' s) (IntegrityError ''identity_groups'')) (\<lambda>_.
     bind_res (replace_members i (sg_members p) (s\<lparr>groups := row_modify ig_id i (\<lambda>_. g') (groups s)\<rparr>)) (\<lambda>(is, t).
     Inr (g', revoke_all now is t))))"

text \<open>\<open>ScimMember(**item)\<close>: \<open>value\<close> has 1 to 36 characters, \<open>display\<close>, when given, at most 320.\<close>

definition member_of :: "json \<Rightarrow> ident res" where
  "member_of v =
     (case v of
        JObj d \<Rightarrow> (case map_of d ''value'' of
            Some (JStr i) \<Rightarrow>
              bind_res (guard_res (i \<noteq> [] \<and> length i \<le> 36 \<and>
                  (case dget d ''display'' of JNull \<Rightarrow> True | JStr x \<Rightarrow> length x \<le> 320 | _ \<Rightarrow> False))
                (PyError ''ValidationError'')) (\<lambda>_. Inr i)
          | _ \<Rightarrow> Inl (PyError ''ValidationError''))
      | _ \<Rightarrow> Inl (PyError ''TypeError''))"

text \<open>One operation of a patch, on the row, the affected users so far and the members table.\<close>

definition patch_group_row ::
    "runtime \<Rightarrow> patch_op \<times> group_path \<times> json \<Rightarrow> identity_group \<times> ident set \<times> site \<Rightarrow>
     (identity_group \<times> ident set \<times> site) res" where
  "patch_group_row R x st =
     (case (x, st) of ((op, path, v), (g, affected, s)) \<Rightarrow>
        (case path of
           GroupDisplayName \<Rightarrow>
             bind_res (guard_res (op \<noteq> PatchRemove \<and> truthy v) (HTTPException 422 ''scim_group_name_required'')) (\<lambda>_.
             Inr (g\<lparr>ig_name := py_str R v\<rparr>, affected, s))
         | GroupRoles \<Rightarrow> bind_res (patched_roles R op v) (\<lambda>rs. Inr (g\<lparr>ig_roles := rs\<rparr>, affected, s))
         | GroupWorkspaces \<Rightarrow> bind_res (patched_workspaces R op v) (\<lambda>ws. Inr (g\<lparr>ig_workspaces := ws\<rparr>, affected, s))
         | GroupMembers \<Rightarrow>
             bind_res (patch_items op v) (\<lambda>xs.
             bind_res (map_res member_of xs) (\<lambda>ms.
             bind_res (replace_members (ig_id g)
               (if op = PatchAdd then sorted_list_of_set affected @ ms else ms) s) (\<lambda>(is, t).
             Inr (g, affected \<union> is, t))))))"

definition patch_group ::
    "runtime \<Rightarrow> time \<Rightarrow> ident \<Rightarrow> (patch_op \<times> group_path \<times> json) list \<Rightarrow> site \<Rightarrow> (identity_group \<times> site) res" where
  "patch_group R now i ops s =
     bind_res (get_group i s) (\<lambda>g.
     bind_res (fold_res (patch_group_row R) ops (g, members_of i s, s)) (\<lambda>(g', affected, t).
     let g'' = g'\<lparr>ig_version := ig_version g + 1, ig_updated := now\<rparr>
     in Inr (g'', revoke_all now affected (t\<lparr>groups := row_modify ig_id i (\<lambda>_. g'') (groups t)\<rparr>))))"

definition delete_group :: "time \<Rightarrow> ident \<Rightarrow> site \<Rightarrow> site res" where
  "delete_group now i s =
     bind_res (get_group i s) (\<lambda>g.
     Inr (revoke_all now (members_of i s)
       (s\<lparr>group_members := filter (\<lambda>m. gm_group m \<noteq> i) (group_members s),
          groups := filter (\<lambda>g. ig_id g \<noteq> i) (groups s)\<rparr>)))"

section \<open>A crash between the commits\<close>

definition set_active :: "ident \<Rightarrow> bool \<Rightarrow> site \<Rightarrow> site" where
  "set_active i on s = s\<lparr>users := row_modify iu_id i (\<lambda>u. u\<lparr>iu_active := on\<rparr>) (users s)\<rparr>"

text \<open>
  A deactivation whose second transaction does not run leaves the sessions unrevoked. No request is
  served while the identity is inactive, but a session not used in between acts again once the identity
  is activated.
\<close>

lemma interrupted_deactivation_spares_sessions:
  assumes "find_session C raw s = Some b" "bs_revoked b = None" "now < bs_expires b"
    and "row_get iu_id (bs_user b) (users s) = Some u"
  shows "fst (session_principal C now raw (set_active (bs_user b) False s)) = None \<and>
    (\<exists>p. fst (session_principal C now raw (set_active (bs_user b) True (set_active (bs_user b) False s))) = Some p)"
proof -
  have same: "find_session C raw (set_active (bs_user b) on t) = find_session C raw t" for on t
    by (simp add: find_session_def set_active_def)
  have row: "row_get iu_id (bs_user b) (users (set_active (bs_user b) on t)) =
      map_option (\<lambda>u. u\<lparr>iu_active := on\<rparr>) (row_get iu_id (bs_user b) (users t))" for on t
    by (simp add: set_active_def row_get_modify)
  show ?thesis using assms by (simp add: session_principal_def same row)
qed

end
