(* ===== verification/Correction.thy ===== *)
theory Correction
  imports Ingestion
begin

text \<open>
  Corrections of identity: the approved link of a match (\<open>_link_match\<close>), merges
  (\<open>propose_merge\<close>, \<open>_apply_merge\<close>) and splits (\<open>propose_split\<close>, \<open>_apply_split\<close>), with the events
  they publish.
\<close>

section \<open>Moving members\<close>

definition move_members ::
    "runtime \<Rightarrow> service \<Rightarrow> ident list \<Rightarrow> ident \<Rightarrow> string \<Rightarrow> db \<Rightarrow> db" where
  "move_members R sv obs target reason s =
     fold (\<lambda>ob s. set_membership R sv ob target reason s) obs s"

definition entity_members :: "service \<Rightarrow> ident \<Rightarrow> db \<Rightarrow> ident list" where
  "entity_members sv en s =
     map ob_id (filter (\<lambda>b. ob_ws b = wid sv \<and> ob_entity b = Some en) (objects s))"

definition set_status :: "entity_status \<Rightarrow> entity \<Rightarrow> entity" where
  "set_status st e = e\<lparr>en_status := st\<rparr>"

definition find_entity :: "service \<Rightarrow> ident \<Rightarrow> db \<Rightarrow> entity option" where
  "find_entity sv i s =
     find (\<lambda>e. en_id e = i \<and> en_ws e = wid sv \<and> en_status e \<noteq> MergedEntity) (entities s)"

text \<open>An outbox event; its payload names the event's own id and time.\<close>

definition add_event ::
    "runtime \<Rightarrow> service \<Rightarrow> ident \<Rightarrow> int \<Rightarrow> string \<Rightarrow> (ident \<Rightarrow> time \<Rightarrow> dict) \<Rightarrow> db \<Rightarrow> outbox_event \<times> db" where
  "add_event R sv en version ty pay s =
     (let e = \<lparr>ev_id = next_id R s, ev_ws = wid sv, ev_entity = Some en, ev_version = Some version,
               ev_type = ty, ev_schema = ''1.0'', ev_payload = pay (next_id R s) (next_time R s),
               ev_status = EventPending, ev_attempts = 0, ev_error = None,
               ev_occurred = next_time R s\<rparr>
      in (e, s\<lparr>events := row_add e (events s), ticks := Suc (ticks s)\<rparr>))"

section \<open>Linking a match\<close>

definition check_link ::
    "runtime \<Rightarrow> service \<Rightarrow> entity \<Rightarrow> entity \<Rightarrow> match_payload \<Rightarrow> db \<Rightarrow> unit res" where
  "check_link R sv source target mp s =
     bind_res (guard_res (en_domain source = en_domain target)
       (HTTPException 409 ''cross_domain_merge_forbidden'')) (\<lambda>_.
     bind_res (guard_res (en_version target = mp_bound_target mp)
       (HTTPException 409 ''stale_target_entity'')) (\<lambda>_.
     bind_res (from_option (PyError ''KeyError'') (mp_left_object mp)) (\<lambda>left_object.
     bind_res (from_option (PyError ''KeyError'') (mp_right_object mp)) (\<lambda>right_object.
     bind_res (guard_res (\<not> is_cannot_link sv left_object right_object s)
       (HTTPException 409 ''cannot_link_constraint'')) (\<lambda>_.
     case (row_get sr_id (mp_left_record mp) (records s), row_get sr_id (mp_right_record mp) (records s),
           find_domain sv (en_domain source) s) of
       (Some left, Some right, Some domain) \<Rightarrow>
         bind_res (compile_policy R (dm_definition domain)) (\<lambda>p.
         bind_res (compare_records R p (sr_normalized left) (sr_normalized right)) (\<lambda>m.
         guard_res (contradictions m = []) (HTTPException 409 ''match_contradiction'')))
     | _ \<Rightarrow> Inl (HTTPException 409 ''match_evidence_unavailable''))))))"

definition link_match :: "runtime \<Rightarrow> service \<Rightarrow> ident option \<Rightarrow> match_payload \<Rightarrow> db \<Rightarrow> db res" where
  "link_match R sv en mp s =
     (case (Option.bind en (\<lambda>i. row_get en_id i (entities s)), row_get en_id (mp_target mp) (entities s)) of
        (Some source, Some target) \<Rightarrow>
          bind_res (check_link R sv source target mp s) (\<lambda>_.
          let s1 = move_members R sv (entity_members sv (en_id source) s) (en_id target) ''approved_match'' s;
              s2 = modify_entity (en_id source) (set_status MergedEntity) s1
          in touch_entity R sv (en_id target) s2)
      | _ \<Rightarrow> Inl (HTTPException 409 ''entity_unavailable''))"

section \<open>Merging\<close>

definition merge_domains :: "entity list \<Rightarrow> string list" where
  "merge_domains es = remdups (map en_domain es)"

text \<open>The impact a proposal shows; the merged ids are the rest of the request's list.\<close>

definition merge_impact ::
    "service \<Rightarrow> ident list \<Rightarrow> string \<Rightarrow> bool \<Rightarrow> db \<Rightarrow> (entity \<times> merge_payload) res" where
  "merge_impact sv ids reason dry s =
     (let es = filter (\<lambda>e. en_ws e = wid sv \<and> en_id e \<in> set ids \<and> en_status e \<noteq> MergedEntity) (entities s) in
      bind_res (guard_res (length es = card (set ids)) (HTTPException 404 ''entity_not_found'')) (\<lambda>_.
      bind_res (guard_res (length (merge_domains es) = 1)
        (HTTPException 409 ''cross_domain_merge_forbidden'')) (\<lambda>_.
      bind_res (from_option (PyError ''StopIteration'') (find (\<lambda>e. ids \<noteq> [] \<and> en_id e = hd ids) es)) (\<lambda>primary.
      Inr (primary,
        \<lparr>gp_primary = hd ids, gp_merged = tl ids,
         gp_bound = map (\<lambda>e. (en_id e, en_version e)) es,
         gp_contributions = int (length (filter (\<lambda>b. ob_ws b = wid sv \<and> \<not> ob_retired b \<and>
            (\<exists>e. ob_entity b = Some e \<and> e \<in> set ids)) (objects s))),
         gp_relationships = int (length (filter (\<lambda>r. rl_ws r = wid sv \<and>
            (rl_from r \<in> set ids \<or> rl_to r \<in> set ids)) (relationships s))),
         gp_corrections = int (length ids) - 1,
         gp_dry_run = dry, gp_reason = reason\<rparr>)))))"

definition impact_json :: "merge_payload \<Rightarrow> json" where
  "impact_json g = JObj
     [(''primary_entity_id'', JStr (gp_primary g)),
      (''merged_entity_ids'', JList (map JStr (gp_merged g))),
      (''bound_entity_versions'', JObj (map (\<lambda>(i, v). (i, JInt v)) (gp_bound g))),
      (''source_contributions'', JInt (gp_contributions g)),
      (''relationships'', JInt (gp_relationships g)),
      (''consumer_corrections'', JInt (gp_corrections g)), (''dry_run'', JBool (gp_dry_run g))]"

definition approval_task ::
    "runtime \<Rightarrow> service \<Rightarrow> task_kind \<Rightarrow> ident option \<Rightarrow> int option \<Rightarrow> payload \<Rightarrow> db \<Rightarrow> review_task" where
  "approval_task R sv kind en bound pay s =
     \<lparr>rt_id = next_id R s, rt_ws = wid sv, rt_kind = kind, rt_entity = en, rt_status = OpenTask,
      rt_priority = ''high'', rt_assignee = None, rt_proposed_by = subject sv, rt_payload = pay,
      rt_bound = bound, rt_sensitive = True, rt_reason = None, rt_decided_by = None, rt_due = None\<rparr>"

definition propose_merge ::
    "runtime \<Rightarrow> service \<Rightarrow> ident list \<Rightarrow> string \<Rightarrow> bool \<Rightarrow> (merge_payload \<times> ident option) op" where
  "propose_merge R sv ids reason dry s =
     bind_res (merge_impact sv ids reason dry s) (\<lambda>(primary, g).
     if dry then Inr ((g, None), s)
     else
       let task = approval_task R sv MergeApproval (Some (hd ids)) (Some (en_version primary))
             (MergePayload g) s
       in Inr ((g, Some (rt_id task)),
               audit R sv ''merge.proposed'' ''review_task'' (rt_id task) (impact_json g)
                 (add_task task s)))"

definition repoint :: "service \<Rightarrow> ident \<Rightarrow> ident \<Rightarrow> db \<Rightarrow> db" where
  "repoint sv old new s =
     s\<lparr>relationships :=
        update_rows (\<lambda>r. rl_ws r = wid sv \<and> rl_to r = old) (\<lambda>r. r\<lparr>rl_to := new\<rparr>)
          (update_rows (\<lambda>r. rl_ws r = wid sv \<and> rl_from r = old) (\<lambda>r. r\<lparr>rl_from := new\<rparr>)
            (relationships s))\<rparr>"

definition merge_one ::
    "runtime \<Rightarrow> service \<Rightarrow> ident \<Rightarrow> (ident \<times> int) list \<Rightarrow> ident \<Rightarrow> db \<Rightarrow> db res" where
  "merge_one R sv primary bound i s =
     bind_res (from_option (HTTPException 409 ''merge_entity_changed'') (find_entity sv i s)) (\<lambda>merged.
     bind_res (guard_res (map_of bound i = Some (en_version merged))
       (HTTPException 409 ''merge_entity_changed'')) (\<lambda>_.
     let s1 = move_members R sv (entity_members sv i s) primary ''approved_merge'' s;
         s2 = repoint sv i primary s1
     in Inr (modify_entity i (set_status MergedEntity) s2)))"

definition apply_merge :: "runtime \<Rightarrow> service \<Rightarrow> merge_payload \<Rightarrow> string \<Rightarrow> db \<Rightarrow> db res" where
  "apply_merge R sv g reason s =
     bind_res (from_option (HTTPException 409 ''primary_entity_missing'')
       (row_get en_id (gp_primary g) (entities s))) (\<lambda>primary.
     bind_res (guard_res (map_of (gp_bound g) (en_id primary) = Some (en_version primary))
       (HTTPException 409 ''merge_entity_changed'')) (\<lambda>_.
     bind_res (fold_res (merge_one R sv (en_id primary) (gp_bound g)) (gp_merged g) s) (\<lambda>s1.
     let s2 = modify_entity (en_id primary) bump s1 in
     bind_res (from_option (PyError ''AttributeError'') (row_get en_id (en_id primary) (entities s2))) (\<lambda>p2.
     bind_res (draft_master R sv p2 s2) (\<lambda>(draft, s3).
     Inr (snd (add_event R sv (en_id primary) (mv_version draft) ''identity.merged''
       (\<lambda>i t. [(''event_id'', JStr i), (''workspace_id'', JStr (wid sv)),
               (''entity_id'', JStr (en_id primary)),
               (''merged_entity_ids'', JList (map JStr (gp_merged g))),
               (''entity_version'', JInt (mv_version draft)), (''reason'', JStr reason),
               (''schema_version'', JStr ''1.0''), (''occurred_at'', JStr (isoformat R t))]) s3)))))))"

section \<open>Splitting\<close>

definition propose_split ::
    "runtime \<Rightarrow> service \<Rightarrow> ident \<Rightarrow> ident list \<Rightarrow> string \<Rightarrow> review_task op" where
  "propose_split R sv en record_ids reason s =
     bind_res (from_option (HTTPException 404 ''entity_not_found'') (find_entity sv en s)) (\<lambda>e.
     let ms = filter (\<lambda>b. ob_ws b = wid sv \<and> ob_entity b = Some (en_id e) \<and>
                (\<exists>r. ob_current b = Some r \<and> r \<in> set record_ids)) (objects s) in
     bind_res (guard_res (length ms = card (set record_ids))
       (HTTPException 409 ''source_record_not_in_entity'')) (\<lambda>_.
     let task = approval_task R sv SplitApproval (Some (en_id e)) (Some (en_version e))
           (SplitPayload \<lparr>lp_records = record_ids, lp_objects = map ob_id ms, lp_reason = reason\<rparr>) s
     in Inr (task, audit R sv ''split.proposed'' ''review_task'' (rt_id task)
          (JObj [(''source_record_count'', JInt (int (length record_ids)))]) (add_task task s))))"

definition repair_task ::
    "runtime \<Rightarrow> service \<Rightarrow> ident \<Rightarrow> int \<Rightarrow> ident \<Rightarrow> ident \<Rightarrow> db \<Rightarrow> review_task" where
  "repair_task R sv en version event split s =
     \<lparr>rt_id = next_id R s, rt_ws = wid sv, rt_kind = DownstreamRepair, rt_entity = Some en,
      rt_status = OpenTask, rt_priority = ''high'', rt_assignee = None,
      rt_proposed_by = ''correction-engine'', rt_payload = RepairPayload event split,
      rt_bound = Some version, rt_sensitive = False, rt_reason = None, rt_decided_by = None,
      rt_due = None\<rparr>"

definition split_members :: "service \<Rightarrow> ident \<Rightarrow> ident list \<Rightarrow> db \<Rightarrow> ident list" where
  "split_members sv en obs s = filter (\<lambda>i. i \<in> set obs) (entity_members sv en s)"

definition apply_split ::
    "runtime \<Rightarrow> service \<Rightarrow> ident \<Rightarrow> ident option \<Rightarrow> split_payload \<Rightarrow> string \<Rightarrow> db \<Rightarrow> db res" where
  "apply_split R sv task_id en lp reason s =
     bind_res (from_option (HTTPException 409 ''entity_missing'')
       (Option.bind en (\<lambda>i. row_get en_id i (entities s)))) (\<lambda>original.
     bind_res (add_entity R sv (en_domain original)
       (stable_key R [JStr (wid sv), JStr task_id, JStr ''split'']) s) (\<lambda>(split, s1).
     let ms = split_members sv (en_id original) (lp_objects lp) s1 in
     bind_res (guard_res (length ms = length (lp_objects lp))
       (HTTPException 409 ''split_membership_changed'')) (\<lambda>_.
     let s2 = modify_entity (en_id original) bump
                (move_members R sv ms (en_id split) ''approved_split'' s1) in
     bind_res (from_option (PyError ''AttributeError'') (row_get en_id (en_id original) (entities s2))) (\<lambda>orig.
     bind_res (draft_master R sv orig s2) (\<lambda>(_, s3).
     bind_res (draft_master R sv split s3) (\<lambda>(draft, s4).
     let (ev, s5) = add_event R sv (en_id original) (en_version orig) ''identity.split''
       (\<lambda>i t. [(''event_id'', JStr i), (''workspace_id'', JStr (wid sv)),
               (''original_entity_id'', JStr (en_id original)),
               (''split_entity_id'', JStr (en_id split)),
               (''moved_source_record_ids'', JList (map JStr (lp_records lp))),
               (''new_entity_version'', JInt (mv_version draft)), (''reason'', JStr reason),
               (''schema_version'', JStr ''1.0''), (''occurred_at'', JStr (isoformat R t))]) s4
     in Inr (add_task (repair_task R sv (en_id original) (en_version orig) (ev_id ev)
               (en_id split) s5) s5)))))))"

section \<open>Members after a correction\<close>

definition redirect :: "ident list \<Rightarrow> ident \<Rightarrow> ident \<times> ident \<times> ident option \<Rightarrow> ident \<times> ident \<times> ident option" where
  "redirect obs target m = (case m of (i, w, e) \<Rightarrow> (i, w, if i \<in> set obs then Some target else e))"

definition repointed ::
    "ident \<Rightarrow> ident list \<Rightarrow> ident \<Rightarrow> ident \<times> ident \<times> ident option \<Rightarrow> ident \<times> ident \<times> ident option" where
  "repointed ws froms target m =
     (case m of (i, w, e) \<Rightarrow> (i, w, if w = ws \<and> e \<in> Some ` set froms then Some target else e))"

lemma move_members_Cons:
  "move_members R sv (i # obs) x r s = move_members R sv obs x r (set_membership R sv i x r s)"
  by (simp add: move_members_def)

lemma move_members_Nil [simp]: "move_members R sv [] x r s = s"
  by (simp add: move_members_def)

lemma move_members_frame [frame_simps]:
  "domains (move_members R sv obs x r s) = domains s" "sources (move_members R sv obs x r s) = sources s"
  "records (move_members R sv obs x r s) = records s" "metas (move_members R sv obs x r s) = metas s"
  "entities (move_members R sv obs x r s) = entities s"
  "masters (move_members R sv obs x r s) = masters s" "tasks (move_members R sv obs x r s) = tasks s"
  "events (move_members R sv obs x r s) = events s" "audits (move_members R sv obs x r s) = audits s"
  "object_bans (move_members R sv obs x r s) = object_bans s" "record_bans (move_members R sv obs x r s) = record_bans s"
  "relationships (move_members R sv obs x r s) = relationships s"
  "configurations (move_members R sv obs x r s) = configurations s"
  "simulations (move_members R sv obs x r s) = simulations s"
  "jobs (move_members R sv obs x r s) = jobs s"
  by (induction obs arbitrary: s) (simp_all add: move_members_Cons frame_simps)

lemma move_members_ticks: "ticks s \<le> ticks (move_members R sv obs x r s)"
  by (induction obs arbitrary: s) (auto simp: move_members_Cons intro: order_trans [OF set_membership_ticks])

text \<open>Moving members of the workspace moves exactly those, and keeps the store sound.\<close>

lemma move_members_ok:
  assumes "inj (uuid R)" "store_ok R s" "x \<in> en_id ` set (entities s)"
    and "\<And>i. i \<in> set obs \<Longrightarrow> \<exists>e. (i, wid sv, e) \<in> set (members s)"
  shows "store_ok R (move_members R sv obs x r s) \<and> steady s (move_members R sv obs x r s) \<and>
    members (move_members R sv obs x r s) = map (redirect obs x) (members s)"
  using assms(2,3,4)
proof (induction obs arbitrary: s)
  case Nil
  then show ?case by (simp add: redirect_def case_prod_beta)
next
  case (Cons i obs)
  let ?t = "set_membership R sv i x r s"
  from Cons.prems(3) obtain e where e: "(i, wid sv, e) \<in> set (members s)" by auto
  have ok: "store_ok R ?t" by (rule store_ok_set_membership [OF assms(1) Cons.prems(1) e Cons.prems(2)])
  have m: "members ?t = map (\<lambda>(j, w, e'). (j, w, if j = i then Some x else e')) (members s)"
    using Cons.prems(1) by (intro set_membership_members [OF _ e]) (simp add: store_ok_def)
  have rest: "\<exists>e. (j, wid sv, e) \<in> set (members ?t)" if "j \<in> set obs" for j
  proof -
    from Cons.prems(3) that obtain e' where "(j, wid sv, e') \<in> set (members s)" by fastforce
    then show ?thesis unfolding m by force
  qed
  have step: "steady s ?t"
    by (rule steady_set_membership [of R]) (use Cons.prems(1) in \<open>simp add: store_ok_def\<close>)
  have target: "x \<in> en_id ` set (entities ?t)" using Cons.prems(2) by (simp add: frame_simps)
  have ih: "store_ok R (move_members R sv obs x r ?t)" "steady ?t (move_members R sv obs x r ?t)"
    "members (move_members R sv obs x r ?t) = map (redirect obs x) (members ?t)"
    using Cons.IH [OF ok target rest] by blast+
  have "map (redirect obs x) (members ?t) = map (redirect (i # obs) x) (members s)"
    by (auto simp: m redirect_def)
  with ih steady_trans [OF step ih(2)] show ?case by (simp add: move_members_Cons)
qed

lemma entity_members_mem:
  "i \<in> set (entity_members sv en s) \<longleftrightarrow> (i, wid sv, Some en) \<in> set (members s)"
  by (force simp: entity_members_def members_def)

lemma entity_members_only:
  assumes "membership_ok R s" "(i, w, e) \<in> set (members s)"
  shows "i \<in> set (entity_members sv en s) \<longleftrightarrow> w = wid sv \<and> e = Some en"
  using assms unfolding entity_members_mem membership_ok_def
  by (metis Pair_inject eq_key_imp_eq_value)

text \<open>All members of one entity move to another.\<close>

lemma move_all_members:
  assumes "inj (uuid R)" "store_ok R s" "x \<in> en_id ` set (entities s)"
  shows "store_ok R (move_members R sv (entity_members sv en s) x r s) \<and>
    steady s (move_members R sv (entity_members sv en s) x r s) \<and>
    members (move_members R sv (entity_members sv en s) x r s) =
      map (repointed (wid sv) [en] x) (members s)"
proof -
  have ok: "membership_ok R s" using assms(2) by (simp add: store_ok_def)
  have "redirect (entity_members sv en s) x m = repointed (wid sv) [en] x m"
    if "m \<in> set (members s)" for m
  proof -
    obtain i w e where m: "m = (i, w, e)" by (cases m)
    show ?thesis
      using entity_members_only [OF ok that [unfolded m], of sv en]
      by (auto simp: m redirect_def repointed_def)
  qed
  then have "map (redirect (entity_members sv en s) x) (members s) =
      map (repointed (wid sv) [en] x) (members s)" by (rule map_cong [OF refl])
  moreover have "\<exists>e. (i, wid sv, e) \<in> set (members s)" if "i \<in> set (entity_members sv en s)" for i
    using that by (auto simp: entity_members_mem)
  ultimately show ?thesis using move_members_ok [OF assms, of "entity_members sv en s" sv] by metis
qed

lemma succeeds_status: "succeeds e (set_status st e)"
  by (simp add: succeeds_def set_status_def)

lemma steady_status: "steady s (modify_entity i (set_status st) s)"
  by (rule steady_entity [OF succeeds_status])

lemma steady_bump: "steady s (modify_entity i bump s)"
  by (rule steady_entity [OF succeeds_bump])

lemma map_en_id_status: "map en_id (entities (modify_entity i (set_status st) s)) = map en_id (entities s)"
  by (simp add: frame_simps row_keys_modify set_status_def)

lemma members_modify_entity [simp]: "members (modify_entity i f s) = members s"
  by (simp add: members_def frame_simps)

lemma store_ok_status:
  "store_ok R s \<Longrightarrow> store_ok R (modify_entity i (set_status st) s)"
  by (rule store_ok_frame [of R s]) (simp_all add: map_en_id_status, simp_all add: frame_simps)

lemma store_ok_bump:
  "store_ok R s \<Longrightarrow> store_ok R (modify_entity i bump s)"
  by (rule store_ok_frame [of R s]) (simp_all add: map_en_id_bump, simp_all add: frame_simps)

lemma store_ok_event:
  assumes "store_ok R s" "add_event R sv en v ty pay s = (e, t)"
  shows "store_ok R t \<and> members t = members s \<and> entities t = entities s \<and> tasks t = tasks s \<and>
    relationships t = relationships s \<and> audits t = audits s \<and> ticks s \<le> ticks t \<and>
    events t = events s @ [e] \<and> masters t = masters s \<and> steady s t"
proof -
  have t: "t = s\<lparr>events := row_add e (events s), ticks := Suc (ticks s)\<rparr>"
    using assms(2) by (auto simp: add_event_def Let_def)
  have "store_ok R t" by (rule store_ok_frame [OF assms(1)]) (simp_all add: t members_def)
  moreover have "steady s t"
    by (auto simp: t row_add_def steady_def proposals_def keeps_def closed_tasks_def approved_masters_def
        past_memberships_def observed_def)
  ultimately show ?thesis by (simp add: t members_def row_add_def)
qed

section \<open>Merges\<close>

lemma repoint_frame [frame_simps]:
  "domains (repoint sv i x s) = domains s" "sources (repoint sv i x s) = sources s"
  "records (repoint sv i x s) = records s" "metas (repoint sv i x s) = metas s"
  "entities (repoint sv i x s) = entities s" "objects (repoint sv i x s) = objects s"
  "history (repoint sv i x s) = history s" "masters (repoint sv i x s) = masters s"
  "tasks (repoint sv i x s) = tasks s" "events (repoint sv i x s) = events s"
  "audits (repoint sv i x s) = audits s" "ticks (repoint sv i x s) = ticks s"
  "configurations (repoint sv i x s) = configurations s"
  "object_bans (repoint sv i x s) = object_bans s" "record_bans (repoint sv i x s) = record_bans s"
  "simulations (repoint sv i x s) = simulations s"
  by (simp_all add: repoint_def)

lemma members_repoint [simp]: "members (repoint sv i x s) = members s"
  by (simp add: members_def frame_simps)

definition retire_all :: "ident list \<Rightarrow> entity list \<Rightarrow> entity list" where
  "retire_all is es = update_rows (\<lambda>e. en_id e \<in> set is) (set_status MergedEntity) es"

lemma retire_all_id: "map en_id (retire_all is es) = map en_id es"
  by (simp add: retire_all_def update_rows_key set_status_def)

lemma retire_all_Cons: "retire_all is (row_modify en_id i (set_status MergedEntity) es) = retire_all (i # is) es"
  by (auto simp: retire_all_def row_modify_def update_rows_def set_status_def)

lemma repointed_Cons:
  "map (repointed ws is x) (map (repointed ws [i] x) ms) = map (repointed ws (i # is) x) ms"
  by (auto simp: repointed_def)

lemma merge_one_ok:
  assumes "inj (uuid R)" "store_ok R s" "primary \<in> en_id ` set (entities s)"
    and "merge_one R sv primary bound i s = Inr t"
  shows "store_ok R t" "members t = map (repointed (wid sv) [i] primary) (members s)"
    "entities t = row_modify en_id i (set_status MergedEntity) (entities s)"
    "\<exists>e \<in> set (entities s). en_id e = i \<and> en_status e \<noteq> MergedEntity \<and>
      map_of bound i = Some (en_version e)"
    "tasks t = tasks s" "events t = events s" "masters t = masters s" "audits t = audits s"
    "steady s t"
proof -
  define s1 where "s1 = move_members R sv (entity_members sv i s) primary ''approved_merge'' s"
  from assms(4) obtain e where e: "find_entity sv i s = Some e"
    "map_of bound i = Some (en_version e)"
    and t: "t = modify_entity i (set_status MergedEntity) (repoint sv i primary s1)"
    by (auto simp: merge_one_def res_elim s1_def Let_def)
  from e show "\<exists>e \<in> set (entities s). en_id e = i \<and> en_status e \<noteq> MergedEntity \<and>
      map_of bound i = Some (en_version e)"
    by (auto simp: find_entity_def dest!: find_SomeD)
  note moved = move_all_members [OF assms(1-3), of sv i "''approved_merge''", folded s1_def]
  have "steady s1 (repoint sv i primary s1)"
    unfolding steady_def by (intro conjI keeps_frame) (simp_all add: frame_simps observed_def proposals_def)
  then have "steady s (repoint sv i primary s1)" using moved steady_trans by blast
  then show "steady s t" unfolding t using steady_status by (rule steady_trans)
  have "store_ok R (repoint sv i primary s1)"
    by (rule store_ok_frame [of R s1]) (use moved in \<open>simp_all add: frame_simps\<close>)
  then show "store_ok R t" unfolding t by (rule store_ok_status)
  show "members t = map (repointed (wid sv) [i] primary) (members s)" using moved by (simp add: t)
  show "entities t = row_modify en_id i (set_status MergedEntity) (entities s)"
    by (simp add: t modify_entity_def frame_simps s1_def)
  show "tasks t = tasks s" "events t = events s" "masters t = masters s" "audits t = audits s"
    by (simp_all add: t frame_simps s1_def)
qed

text \<open>The loop over the merged ids; an id that comes twice finds its entity gone.\<close>

lemma merge_all_ok:
  assumes "inj (uuid R)" "store_ok R s" "primary \<in> en_id ` set (entities s)"
    and "fold_res (merge_one R sv primary bound) is s = Inr t"
  shows "store_ok R t \<and> members t = map (repointed (wid sv) is primary) (members s) \<and>
    entities t = retire_all is (entities s) \<and> distinct is \<and>
    (\<forall>i \<in> set is. \<exists>e \<in> set (entities s). en_id e = i \<and> en_status e \<noteq> MergedEntity \<and>
      map_of bound i = Some (en_version e)) \<and>
    tasks t = tasks s \<and> events t = events s \<and> masters t = masters s \<and> audits t = audits s \<and>
    steady s t"
  using assms(2,3,4)
proof (induction "is" arbitrary: s)
  case Nil
  have "repointed w [] x m = m" for w x m by (cases m) (simp add: repointed_def)
  with Nil show ?case by (simp add: retire_all_def update_rows_none map_idI)
next
  case (Cons i "is")
  from Cons.prems(3) obtain u where u: "merge_one R sv primary bound i s = Inr u"
    "fold_res (merge_one R sv primary bound) is u = Inr t" by (auto simp: res_elim)
  note one = merge_one_ok [OF assms(1) Cons.prems(1,2) u(1)]
  have ids: "map en_id (entities u) = map en_id (entities s)"
    by (simp add: one(3) row_keys_modify set_status_def)
  have "primary \<in> en_id ` set (entities u)"
    using Cons.prems(2) unfolding set_map [symmetric] ids .
  from Cons.IH [OF one(1) this u(2)] have ih: "store_ok R t"
    "members t = map (repointed (wid sv) is primary) (members u)"
    "entities t = retire_all is (entities u)" "distinct is"
    "\<And>j. j \<in> set is \<Longrightarrow> \<exists>e \<in> set (entities u). en_id e = j \<and> en_status e \<noteq> MergedEntity \<and>
      map_of bound j = Some (en_version e)"
    "tasks t = tasks u" "events t = events u"
    "masters t = masters u" "audits t = audits u" "steady u t" by auto
  have before: "j \<noteq> i \<and> (\<exists>e \<in> set (entities s). en_id e = j \<and> en_status e \<noteq> MergedEntity \<and>
      map_of bound j = Some (en_version e))"
    if j: "j \<in> set is" for j
  proof -
    from ih(5) [OF j] obtain e :: entity where
      e: "e \<in> set (entities u)" "en_id e = j" "en_status e \<noteq> MergedEntity"
      "map_of bound j = Some (en_version e)" by blast
    from e(1,3) have "e \<in> set (entities s) \<and> en_id e \<noteq> i"
      by (auto simp: one(3) set_row_modify set_status_def split: if_splits)
    with e show ?thesis by blast
  qed
  have "members t = map (repointed (wid sv) (i # is) primary) (members s)"
    unfolding ih(2) one(2) by (rule repointed_Cons)
  moreover have "entities t = retire_all (i # is) (entities s)"
    unfolding ih(3) one(3) by (rule retire_all_Cons)
  moreover have "distinct (i # is)" using ih(4) before by auto
  moreover have "\<forall>j \<in> set (i # is). \<exists>e \<in> set (entities s). en_id e = j \<and> en_status e \<noteq> MergedEntity \<and>
      map_of bound j = Some (en_version e)"
    using one(4) before by simp
  ultimately show ?case using ih one steady_trans [of s u t] by simp
qed

lemma apply_merge_ok:
  assumes "inj (uuid R)" "store_ok R s" "apply_merge R sv g reason s = Inr t"
  shows "store_ok R t"
    "members t = map (repointed (wid sv) (gp_merged g) (gp_primary g)) (members s)"
    "entities t = row_modify en_id (gp_primary g) bump (retire_all (gp_merged g) (entities s))"
    "distinct (gp_merged g)"
    "\<forall>i \<in> set (gp_merged g). \<exists>e \<in> set (entities s). en_id e = i \<and>
       en_status e \<noteq> MergedEntity \<and> map_of (gp_bound g) i = Some (en_version e)"
    "\<exists>e. row_get en_id (gp_primary g) (entities s) = Some e \<and>
       map_of (gp_bound g) (gp_primary g) = Some (en_version e)"
    "\<exists>ev d. events t = events s @ [ev] \<and> ev_type ev = ''identity.merged'' \<and>
       ev_entity ev = Some (gp_primary g) \<and> masters t = masters s @ [d] \<and>
       ev_version ev = Some (mv_version d) \<and> mv_entity d = gp_primary g"
    "audits t = audits s" "steady s t"
proof -
  from assms(3) obtain primary s1 p2 d s3 ev where
    p: "row_get en_id (gp_primary g) (entities s) = Some primary"
      "map_of (gp_bound g) (en_id primary) = Some (en_version primary)" and
    s1: "fold_res (merge_one R sv (en_id primary) (gp_bound g)) (gp_merged g) s = Inr s1" and
    p2: "row_get en_id (en_id primary) (entities (modify_entity (en_id primary) bump s1)) = Some p2" and
    d: "draft_master R sv p2 (modify_entity (en_id primary) bump s1) = Inr (d, s3)" and
    ev: "\<exists>pay. add_event R sv (en_id primary) (mv_version d) ''identity.merged'' pay s3 = (ev, t)"
    unfolding apply_merge_def by (auto simp: res_elim Let_def) (metis prod.collapse)
  have id: "en_id primary = gp_primary g" by (rule row_get_key [OF p(1)])
  have mem: "en_id primary \<in> en_id ` set (entities s)" using row_get_mem [OF p(1)] by simp
  note all = merge_all_ok [OF assms(1,2) mem s1]
  let ?s2 = "modify_entity (en_id primary) bump s1"
  have ok2: "store_ok R ?s2" using all by (intro store_ok_bump) simp
  have ok3: "store_ok R s3" by (rule store_ok_draft [OF assms(1) ok2 d])
  from ev obtain pay where add: "add_event R sv (en_id primary) (mv_version d) ''identity.merged'' pay s3 = (ev, t)" ..
  note e = store_ok_event [OF ok3 add] and f = draft_master_frame [OF d]
  show "store_ok R t" using e by simp
  show "members t = map (repointed (wid sv) (gp_merged g) (gp_primary g)) (members s)"
    using e all f by (simp add: id members_def [of s3]) (simp add: members_def frame_simps)
  show "entities t = row_modify en_id (gp_primary g) bump (retire_all (gp_merged g) (entities s))"
    using e all f by (simp add: id modify_entity_def)
  show "distinct (gp_merged g)"
    "\<forall>i \<in> set (gp_merged g). \<exists>e \<in> set (entities s). en_id e = i \<and>
       en_status e \<noteq> MergedEntity \<and> map_of (gp_bound g) i = Some (en_version e)"
    using all by simp_all
  show "\<exists>e. row_get en_id (gp_primary g) (entities s) = Some e \<and>
       map_of (gp_bound g) (gp_primary g) = Some (en_version e)" using p id by simp
  have "ev_type ev = ''identity.merged'' \<and> ev_entity ev = Some (gp_primary g) \<and>
      ev_version ev = Some (mv_version d)" using add by (auto simp: add_event_def Let_def id)
  moreover have "masters s3 = masters s @ [d]" "mv_entity d = gp_primary g"
    using draft_master_masters [OF d] all row_get_key [OF p2] by (simp_all add: frame_simps id)
  ultimately show "\<exists>ev d. events t = events s @ [ev] \<and> ev_type ev = ''identity.merged'' \<and>
       ev_entity ev = Some (gp_primary g) \<and> masters t = masters s @ [d] \<and>
       ev_version ev = Some (mv_version d) \<and> mv_entity d = gp_primary g"
    using e all f by (simp add: frame_simps)
  show "audits t = audits s" using e all f by (simp add: frame_simps)
  have "steady ?s2 s3" by (rule steady_draft [OF _ d]) (use ok2 in \<open>simp add: store_ok_def\<close>)
  with steady_bump have "steady s1 s3" by (rule steady_trans)
  moreover have "steady s s1" "steady s3 t" using all e by simp_all
  ultimately show "steady s t" by (metis steady_trans)
qed

section \<open>Splits\<close>

lemma split_members_all:
  assumes "membership_ok R s" "length (split_members sv en obs s) = length obs"
  shows "distinct obs \<and> set (split_members sv en obs s) = set obs \<and>
    (\<forall>i \<in> set obs. (i, wid sv, Some en) \<in> set (members s))"
proof -
  let ?ms = "split_members sv en obs s"
  have "distinct (map fst (members s))" using assms(1) by (simp add: membership_ok_def)
  then have "distinct (map ob_id (objects s))" by (simp add: members_def comp_def)
  then have d: "distinct ?ms"
    by (simp add: split_members_def entity_members_def distinct_map inj_on_def)
  have sub: "set ?ms \<subseteq> set obs" by (auto simp: split_members_def)
  have "card (set ?ms) = length obs" using distinct_card [OF d] assms(2) by simp
  moreover have "card (set ?ms) \<le> card (set obs)" by (rule card_mono [OF _ sub]) simp
  ultimately have "card (set obs) = length obs" "card (set ?ms) = card (set obs)"
    using card_length [of obs] by simp_all
  then have "distinct obs" "set ?ms = set obs"
    using card_distinct card_subset_eq [OF _ sub] by auto
  then show ?thesis by (auto simp: split_members_def entity_members_mem)
qed

lemma redirect_cong: "set xs = set ys \<Longrightarrow> redirect xs x = redirect ys x"
  by (simp add: redirect_def fun_eq_iff)

text \<open>The new entity and the members it takes over.\<close>

lemma split_off_ok:
  assumes "inj (uuid R)" "store_ok R s" "add_entity R sv dk key s = Inr (x, s1)"
    and "ms = split_members sv en obs s1" "length ms = length obs"
  shows "store_ok R (move_members R sv ms (en_id x) r s1)"
    "members (move_members R sv ms (en_id x) r s1) = map (redirect obs (en_id x)) (members s)"
    "en_id x \<notin> en_id ` set (entities s)" "entities s1 = entities s @ [x]"
    "\<forall>i \<in> set obs. (i, wid sv, Some en) \<in> set (members s)"
    "tasks s1 = tasks s" "events s1 = events s" "audits s1 = audits s"
    "steady s (move_members R sv ms (en_id x) r s1)"
proof -
  have x: "en_id x = next_id R s"
    and s1: "s1 = s\<lparr>entities := row_add x (entities s), ticks := Suc (ticks s)\<rparr>"
    using assms(3) by (auto simp: add_entity_def res_elim Let_def)
  have ok1: "store_ok R s1" unfolding s1 by (rule store_ok_add_entity [OF assms(1,2) x])
  have m1: "members s1 = members s" by (simp add: s1 members_def)
  from ok1 have "membership_ok R s1" by (simp add: store_ok_def)
  from split_members_all [OF this assms(5) [unfolded assms(4)]]
  have ms: "set ms = set obs" "\<forall>i \<in> set obs. (i, wid sv, Some en) \<in> set (members s)"
    by (simp_all add: assms(4) m1)
  have "en_id x \<in> en_id ` set (entities s1)" by (simp add: s1)
  from move_members_ok [OF assms(1) ok1 this, of ms sv r] ms
  show "store_ok R (move_members R sv ms (en_id x) r s1)"
    "members (move_members R sv ms (en_id x) r s1) = map (redirect obs (en_id x)) (members s)"
    using redirect_cong [OF ms(1)] by (auto simp: m1)
  show "steady s (move_members R sv ms (en_id x) r s1)"
    using move_members_ok [OF assms(1) ok1 \<open>en_id x \<in> _\<close>, of ms sv r] ms steady_add_entity [of s x]
    by (auto simp: m1 s1 [symmetric] intro: steady_trans)
  show "en_id x \<notin> en_id ` set (entities s)"
    using assms(1,2) next_not_drawn unfolding x by (fastforce simp: store_ok_def entities_ok_def)
  show "\<forall>i \<in> set obs. (i, wid sv, Some en) \<in> set (members s)" by (rule ms(2))
qed (use assms(3) in \<open>auto simp: add_entity_def res_elim Let_def row_add_def\<close>)

lemma apply_split_ok:
  assumes "inj (uuid R)" "store_ok R s" "apply_split R sv tid en lp reason s = Inr t"
  shows "store_ok R t" "audits t = audits s" "steady s t"
    "\<exists>x origin ev. x \<notin> en_id ` set (entities s) \<and> x \<in> en_id ` set (entities t) \<and> en = Some origin \<and>
       members t = map (redirect (lp_objects lp) x) (members s) \<and>
       (\<forall>i \<in> set (lp_objects lp). (i, wid sv, Some origin) \<in> set (members s)) \<and>
       events t = events s @ [ev] \<and> ev_type ev = ''identity.split'' \<and>
       rt_kind (last (tasks t)) = DownstreamRepair \<and> rt_status (last (tasks t)) = OpenTask \<and>
       rt_payload (last (tasks t)) = RepairPayload (ev_id ev) x"
proof -
  from assms(3) obtain i origin x s1 where i: "en = Some i" "row_get en_id i (entities s) = Some origin"
    and x: "add_entity R sv (en_domain origin) (stable_key R [JStr (wid sv), JStr tid, JStr ''split'']) s
      = Inr (x, s1)"
    and len: "length (split_members sv (en_id origin) (lp_objects lp) s1) = length (lp_objects lp)"
    unfolding apply_split_def by (auto simp: res_elim Let_def bind_eq_Some_conv)
  define ms where "ms = split_members sv (en_id origin) (lp_objects lp) s1"
  define s2 where "s2 = modify_entity (en_id origin) bump (move_members R sv ms (en_id x) ''approved_split'' s1)"
  from assms(3) i x len obtain o2 d s3 d' s4 pay ev s5 where
    d: "draft_master R sv o2 s2 = Inr (d, s3)" and d': "draft_master R sv x s3 = Inr (d', s4)" and
    ev: "add_event R sv (en_id origin) (en_version o2) ''identity.split'' pay s4 = (ev, s5)" and
    t: "t = add_task (repair_task R sv (en_id origin) (en_version o2) (ev_id ev) (en_id x) s5) s5"
    unfolding apply_split_def s2_def ms_def
    by (auto simp: res_elim Let_def split: prod.splits) (metis surj_pair)
  note off = split_off_ok [OF assms(1,2) x ms_def len [folded ms_def]]
  have ok2: "store_ok R s2" unfolding s2_def by (rule store_ok_bump [OF off(1)])
  have ok3: "store_ok R s3" by (rule store_ok_draft [OF assms(1) ok2 d])
  have ok4: "store_ok R s4" by (rule store_ok_draft [OF assms(1) ok3 d'])
  note e = store_ok_event [OF ok4 ev] and f = draft_master_frame [OF d] and f' = draft_master_frame [OF d']
  show "store_ok R t"
    unfolding t using e by (intro store_ok_add_task [OF assms(1)]) (simp_all add: repair_task_def)
  have "members t = members s2"
    using e f f' by (simp add: t add_task_def members_def)
  then have m: "members t = map (redirect (lp_objects lp) (en_id x)) (members s)"
    using off(2) by (simp add: s2_def)
  have ents: "entities t = row_modify en_id (en_id origin) bump (entities s @ [x])"
    using e f f' off(4) by (simp add: t add_task_def s2_def modify_entity_def frame_simps)
  show "audits t = audits s"
    using e f f' off(8) by (simp add: t add_task_def s2_def frame_simps)
  have "steady s s2" unfolding s2_def by (rule steady_trans [OF off(9) steady_bump])
  moreover have "steady s2 s3" by (rule steady_draft [OF _ d]) (use ok2 in \<open>simp add: store_ok_def\<close>)
  moreover have "steady s3 s4" by (rule steady_draft [OF _ d']) (use ok3 in \<open>simp add: store_ok_def\<close>)
  moreover have "steady s4 s5" using e by simp
  ultimately have "steady s s5" by (metis steady_trans)
  then show "steady s t" unfolding t using steady_add_task by (rule steady_trans)
  have "en_id x \<in> set (map en_id (entities t))"
    unfolding ents by (subst row_keys_modify) (simp_all add: bump_def)
  then have "en_id x \<in> en_id ` set (entities t)" by simp
  moreover have "events t = events s @ [ev]" "ev_type ev = ''identity.split''"
    using e f f' off(7) ev by (auto simp: t add_task_def s2_def frame_simps add_event_def Let_def)
  moreover have "last (tasks t) = repair_task R sv (en_id origin) (en_version o2) (ev_id ev) (en_id x) s5"
    by (simp add: t add_task_def row_add_def)
  ultimately show "\<exists>x origin ev. x \<notin> en_id ` set (entities s) \<and> x \<in> en_id ` set (entities t) \<and>
       en = Some origin \<and> members t = map (redirect (lp_objects lp) x) (members s) \<and>
       (\<forall>i \<in> set (lp_objects lp). (i, wid sv, Some origin) \<in> set (members s)) \<and>
       events t = events s @ [ev] \<and> ev_type ev = ''identity.split'' \<and>
       rt_kind (last (tasks t)) = DownstreamRepair \<and> rt_status (last (tasks t)) = OpenTask \<and>
       rt_payload (last (tasks t)) = RepairPayload (ev_id ev) x"
    using m i off(3,5) row_get_key [OF i(2)] by (simp add: repair_task_def)
qed

section \<open>Links\<close>

lemma link_match_ok:
  assumes "inj (uuid R)" "store_ok R s" "link_match R sv en mp s = Inr t"
  shows "store_ok R t" "audits t = audits s" "steady s t" "events t = events s"
    "\<exists>source target. en = Some (en_id source) \<and>
       row_get en_id (en_id source) (entities s) = Some source \<and>
       row_get en_id (mp_target mp) (entities s) = Some target \<and>
       check_link R sv source target mp s = Inr () \<and>
       members t = map (repointed (wid sv) [en_id source] (mp_target mp)) (members s) \<and>
       entities t = row_modify en_id (mp_target mp) bump
         (row_modify en_id (en_id source) (set_status MergedEntity) (entities s))"
proof -
  from assms(3) obtain i source target where i: "en = Some i"
    and src: "row_get en_id i (entities s) = Some source"
    and tgt: "row_get en_id (mp_target mp) (entities s) = Some target"
    and chk: "check_link R sv source target mp s = Inr ()"
    and t: "touch_entity R sv (en_id target) (modify_entity (en_id source) (set_status MergedEntity)
      (move_members R sv (entity_members sv (en_id source) s) (en_id target) ''approved_match'' s)) = Inr t"
    unfolding link_match_def
    by (auto simp: res_elim Let_def bind_eq_Some_conv split: option.splits)
  note ids = row_get_key [OF src] row_get_key [OF tgt]
  have mem: "en_id target \<in> en_id ` set (entities s)" using row_get_mem [OF tgt] by simp
  define s1 where "s1 = move_members R sv (entity_members sv (en_id source) s) (en_id target) ''approved_match'' s"
  define s2 where "s2 = modify_entity (en_id source) (set_status MergedEntity) s1"
  note moved = move_all_members [OF assms(1,2) mem, of sv "en_id source" "''approved_match''", folded s1_def]
  have ok2: "store_ok R s2" unfolding s2_def by (rule store_ok_status) (use moved in simp)
  have touch: "touch_entity R sv (en_id target) s2 = Inr t" using t by (simp add: s2_def s1_def)
  then obtain o2 d where d: "draft_master R sv o2 (modify_entity (en_id target) bump s2) = Inr (d, t)"
    by (auto simp: touch_entity_def draft_entity_Inr)
  note f = draft_master_frame [OF d]
  show "store_ok R t" by (rule store_ok_touch [OF assms(1) ok2 touch])
  show "audits t = audits s" "events t = events s"
    using f by (simp_all add: s2_def s1_def frame_simps)
  have "store_ok R (modify_entity (en_id target) bump s2)" by (rule store_ok_bump [OF ok2])
  then have drafted: "steady (modify_entity (en_id target) bump s2) t"
    by (intro steady_draft [OF _ d]) (simp add: store_ok_def)
  have "steady s s2" unfolding s2_def using moved steady_trans [OF _ steady_status] by blast
  from steady_trans [OF this steady_trans [OF steady_bump drafted]] show "steady s t" .
  have "members t = members s2" using f by (simp add: members_def frame_simps)
  then have "members t = map (repointed (wid sv) [en_id source] (mp_target mp)) (members s)"
    using moved ids by (simp add: s2_def)
  moreover have "entities t = row_modify en_id (mp_target mp) bump
      (row_modify en_id (en_id source) (set_status MergedEntity) (entities s))"
    using f ids by (simp add: modify_entity_def s2_def s1_def frame_simps)
  ultimately show "\<exists>source target. en = Some (en_id source) \<and>
       row_get en_id (en_id source) (entities s) = Some source \<and>
       row_get en_id (mp_target mp) (entities s) = Some target \<and>
       check_link R sv source target mp s = Inr () \<and>
       members t = map (repointed (wid sv) [en_id source] (mp_target mp)) (members s) \<and>
       entities t = row_modify en_id (mp_target mp) bump
         (row_modify en_id (en_id source) (set_status MergedEntity) (entities s))"
    using i src tgt chk ids by blast
qed

lemma check_link_Inr:
  assumes "check_link R sv source target mp s = Inr ()"
  shows "en_domain source = en_domain target \<and> en_version target = mp_bound_target mp \<and>
    (\<exists>a b. mp_left_object mp = Some a \<and> mp_right_object mp = Some b \<and> \<not> is_cannot_link sv a b s) \<and>
    (\<exists>left right p m. row_get sr_id (mp_left_record mp) (records s) = Some left \<and>
       row_get sr_id (mp_right_record mp) (records s) = Some right \<and>
       compare_records R p (sr_normalized left) (sr_normalized right) = Inr m \<and>
       contradictions m = [])"
  using assms unfolding check_link_def by (auto simp: res_elim split: option.splits)

section \<open>Proposals\<close>

lemma add_task_frame [frame_simps]:
  "audits (add_task q s) = audits s" "ticks (add_task q s) = Suc (ticks s)"
  "members (add_task q s) = members s" "tasks (add_task q s) = tasks s @ [q]"
  "entities (add_task q s) = entities s"
  by (simp_all add: add_task_def members_def row_add_def)

lemma store_ok_audit: "store_ok R s \<Longrightarrow> store_ok R (audit R sv a ty i d s)"
  by (rule store_ok_frame [of R s]) (simp_all add: frame_simps members_def)

lemma propose_ok:
  assumes "inj (uuid R)" "strict_mono (clock R)" "store_ok R s" "audit_ok R s" "kind \<noteq> MasterApproval"
    and "task = approval_task R sv kind en bound pay s"
  shows "store_ok R (audit R sv a ty i d (add_task task s)) \<and>
    audit_ok R (audit R sv a ty i d (add_task task s)) \<and>
    tasks (audit R sv a ty i d (add_task task s)) = tasks s @ [task] \<and>
    steady s (audit R sv a ty i d (add_task task s))"
proof -
  have "store_ok R (add_task task s)"
    by (rule store_ok_add_task [OF assms(1,3)]) (simp_all add: assms(5,6) approval_task_def)
  moreover have "audit_ok R (add_task task s)"
    by (rule audit_ok_frame [OF assms(4)]) (simp_all add: frame_simps)
  ultimately show ?thesis
    using store_ok_audit audit_ok_audit [OF assms(2)] steady_trans [OF steady_add_task steady_audit]
    by (simp add: frame_simps)
qed

lemma propose_merge_ok:
  assumes "inj (uuid R)" "strict_mono (clock R)" "store_ok R s" "audit_ok R s"
    and "propose_merge R sv ids reason dry s = Inr (out, t)"
  shows "store_ok R t \<and> audit_ok R t \<and> steady s t \<and> (dry \<longrightarrow> t = s)"
  using assms(3,4,5) propose_ok [OF assms(1-4) _ refl]
  by (auto simp: propose_merge_def res_elim Let_def split: if_splits)

lemma propose_split_ok:
  assumes "inj (uuid R)" "strict_mono (clock R)" "store_ok R s" "audit_ok R s"
    and "propose_split R sv en rids reason s = Inr (task, t)"
  shows "store_ok R t \<and> audit_ok R t \<and> steady s t \<and> tasks t = tasks s @ [task] \<and> rt_bound task \<noteq> None"
  using assms(5) propose_ok [OF assms(1-4) _ refl]
  by (auto simp: propose_split_def res_elim Let_def approval_task_def)

section \<open>Properties\<close>

definition no_members :: "service \<Rightarrow> ident \<Rightarrow> db \<Rightarrow> bool" where
  "no_members sv en s \<longleftrightarrow> entity_members sv en s = []"

lemma repointed_leaves_none:
  assumes "members t = map (repointed (wid sv) froms x) (members s)" "i \<in> set froms" "i \<noteq> x"
  shows "no_members sv i t"
proof -
  have "(j, wid sv, Some i) \<notin> set (members t)" for j
    using assms(2,3) by (auto simp: assms(1) repointed_def split: prod.splits if_splits)
  then have "j \<notin> set (entity_members sv i t)" for j unfolding entity_members_mem .
  then show ?thesis unfolding no_members_def by (cases "entity_members sv i t") auto
qed

text \<open>
  C29. An approved merge keeps the store sound and loses nothing: every source object of a merged
  entity now belongs to the primary, every other object keeps its entity, the merged entities
  (all of them open and at the approved version, none listed twice) are retired and have no
  members left, and one \<open>identity.merged\<close> event with the primary's new draft version is queued.
\<close>

theorem approved_merge_conserves_members:
  assumes "inj (uuid R)" "store_ok R s" "apply_merge R sv g reason s = Inr t"
  shows "store_ok R t \<and>
    members t = map (repointed (wid sv) (gp_merged g) (gp_primary g)) (members s) \<and>
    distinct (gp_merged g) \<and>
    (\<forall>i \<in> set (gp_merged g).
       (\<exists>e \<in> set (entities s). en_id e = i \<and> en_status e \<noteq> MergedEntity \<and>
          map_of (gp_bound g) i = Some (en_version e)) \<and>
       (\<forall>e \<in> set (entities t). en_id e = i \<longrightarrow> en_status e = MergedEntity) \<and>
       (i \<noteq> gp_primary g \<longrightarrow> no_members sv i t)) \<and>
    (\<exists>ev d. events t = events s @ [ev] \<and> ev_type ev = ''identity.merged'' \<and>
       ev_entity ev = Some (gp_primary g) \<and> masters t = masters s @ [d] \<and>
       ev_version ev = Some (mv_version d))"
proof -
  note ok = apply_merge_ok [OF assms]
  have "en_status e = MergedEntity" if "i \<in> set (gp_merged g)" "e \<in> set (entities t)" "en_id e = i"
    for i and e :: entity
    using that by (auto simp: ok(3) set_row_modify retire_all_def set_update_rows bump_def
        set_status_def split: if_splits)
  moreover have "no_members sv i t" if "i \<in> set (gp_merged g)" "i \<noteq> gp_primary g" for i
    by (rule repointed_leaves_none [OF ok(2) that])
  ultimately show ?thesis using ok(1,2,4,5,7) by blast
qed

text \<open>
  An approved split keeps the store sound and moves exactly the chosen source objects, all of
  which were members of the split entity, to one new entity; every other object keeps its entity.
  It queues one \<open>identity.split\<close> event and leaves an open repair task that names it.
\<close>

theorem approved_split_moves_exactly_the_chosen:
  assumes "inj (uuid R)" "store_ok R s" "apply_split R sv task_id en lp reason s = Inr t"
  shows "store_ok R t \<and>
    (\<exists>x origin ev. x \<notin> en_id ` set (entities s) \<and> x \<in> en_id ` set (entities t) \<and> en = Some origin \<and>
       members t = map (redirect (lp_objects lp) x) (members s) \<and>
       (\<forall>i \<in> set (lp_objects lp). (i, wid sv, Some origin) \<in> set (members s)) \<and>
       events t = events s @ [ev] \<and> ev_type ev = ''identity.split'' \<and>
       rt_kind (last (tasks t)) = DownstreamRepair \<and> rt_status (last (tasks t)) = OpenTask \<and>
       rt_payload (last (tasks t)) = RepairPayload (ev_id ev) x)"
  using apply_split_ok [OF assms] by blast

text \<open>
  An approved link is made only between entities of one domain, to a target still at the
  version shown to the reviewer, when no ban separates the two objects and the records do not
  contradict each other. It moves every member of the linked entity to the target, retires the
  linked entity and keeps the store sound.
\<close>

theorem approved_links_are_checked_again:
  assumes "inj (uuid R)" "store_ok R s" "link_match R sv en mp s = Inr t"
  shows "store_ok R t \<and>
    (\<exists>source target. en = Some (en_id source) \<and>
       row_get en_id (en_id source) (entities s) = Some source \<and>
       row_get en_id (mp_target mp) (entities s) = Some target \<and>
       en_domain source = en_domain target \<and> en_version target = mp_bound_target mp \<and>
       (\<exists>a b. mp_left_object mp = Some a \<and> mp_right_object mp = Some b \<and> \<not> is_cannot_link sv a b s) \<and>
       (\<exists>left right p m. row_get sr_id (mp_left_record mp) (records s) = Some left \<and>
          row_get sr_id (mp_right_record mp) (records s) = Some right \<and>
          compare_records R p (sr_normalized left) (sr_normalized right) = Inr m \<and>
          contradictions m = []) \<and>
       members t = map (repointed (wid sv) [en_id source] (mp_target mp)) (members s) \<and>
       (en_id source \<noteq> mp_target mp \<longrightarrow> no_members sv (en_id source) t))"
proof -
  note ok = link_match_ok [OF assms]
  from ok(5) obtain source target where l: "en = Some (en_id source)"
    "row_get en_id (en_id source) (entities s) = Some source"
    "row_get en_id (mp_target mp) (entities s) = Some target"
    "check_link R sv source target mp s = Inr ()"
    "members t = map (repointed (wid sv) [en_id source] (mp_target mp)) (members s)" by blast
  have "en_id source \<noteq> mp_target mp \<Longrightarrow> no_members sv (en_id source) t"
    by (rule repointed_leaves_none [OF l(5)]) simp_all
  with ok(1) l check_link_Inr [OF l(4)] show ?thesis by blast
qed

section \<open>Witnesses\<close>

lemma tax_definition_fields:
  "\<exists>p. compile_policy ascii_runtime tax_definition = Inr p \<and> identifiers p = identifiers tax_policy \<and>
    algorithm p = algorithm tax_policy \<and> comparisons p = comparisons tax_policy"
proof -
  have "case compile_document ascii_runtime tax_definition of
      Inr p \<Rightarrow> identifiers p = identifiers tax_policy \<and> algorithm p = algorithm tax_policy \<and>
        comparisons p = comparisons tax_policy | Inl _ \<Rightarrow> False"
    by code_simp
  then obtain p where "compile_document ascii_runtime tax_definition = Inr p"
    "identifiers p = identifiers tax_policy" "algorithm p = algorithm tax_policy"
    "comparisons p = comparisons tax_policy"
    by (cases "compile_document ascii_runtime tax_definition") auto
  then show ?thesis by (simp add: compile_policy_def)
qed

lemma tax_twin_compiled:
  assumes "identifiers p = identifiers tax_policy" "algorithm p = algorithm tax_policy"
    "comparisons p = comparisons tax_policy"
  shows "\<exists>m. compare_records ascii_runtime p (named ''a'' ''1'') (named ''a'' ''1'') = Inr m \<and>
    contradictions m = []"
  using assms
  by (simp add: compare_records_def named_def score_rule_def dindex_def dget_def
      jget_def rule_component_def is_missing_def find_contradictions_def conflicting_def
      py_float_def match_of_def)

text \<open>Two entities; the second has one object, and two records agree on the tax number.\<close>

definition pair_db :: db where
  "pair_db = empty_db\<lparr>domains := [demo_domain], entities := [demo_entity ''u0'', demo_entity ''u1''],
     objects := [(demo_object ''u2'' ''u3'' ''s1'')\<lparr>ob_entity := Some ''u1'', ob_current := None\<rparr>],
     records := [tax_record ''u3'', tax_record ''u4''],
     history := [\<lparr>mh_id = ''u5'', mh_ws = ''w1'', mh_object = ''u2'', mh_entity = ''u1'', mh_from = 0,
                  mh_to = None, mh_reason = ''first'', mh_by = ''ana''\<rparr>],
     ticks := 6\<rparr>"

lemma first_ids: "drawn ascii_runtime s i \<longleftrightarrow> i \<in> (\<lambda>k. ''u'' @ digits_of k) ` {..<ticks s}"
  by (auto simp: drawn_def ascii_runtime_def)

lemma six_ids: "(\<lambda>k. ''u'' @ digits_of k) ` {..<(6::nat)} = {''u0'', ''u1'', ''u2'', ''u3'', ''u4'', ''u5''}"
proof -
  have "map digits_of [0, 1, 2, 3, 4, 5] = [''0'', ''1'', ''2'', ''3'', ''4'', ''5'']" by code_simp
  moreover have "{..<(6::nat)} = {0, 1, 2, 3, 4, 5}" by auto
  ultimately show ?thesis by simp
qed

lemma pair_db_ok: "store_ok ascii_runtime pair_db"
proof -
  have "drawn ascii_runtime pair_db i" if "i \<in> {''u0'', ''u1'', ''u2'', ''u3'', ''u4'', ''u5''}" for i
    using that six_ids by (simp add: first_ids pair_db_def)
  then show ?thesis
    by (simp add: store_ok_def membership_ok_def members_def tasks_ok_def open_masters_def
      versions_ok_def records_ok_def entities_ok_def references_ok_def open_entities_def as_list_def)
     (simp add: pair_db_def empty_db_def demo_entity_def demo_object_def tax_record_def)
qed

lemma draft_without_records:
  assumes "find_domain sv (en_domain e) s = Some demo_domain" "current_records sv (en_id e) s = []"
  shows "\<exists>d t. draft_master ascii_runtime sv e s = Inr (d, t)"
proof -
  obtain p where p: "compile_policy ascii_runtime tax_definition = Inr p"
    using tax_definition_compiles by blast
  have "master_values ascii_runtime sv (en_id e) p s = Inr ([], [])"
    using assms(2) by (simp add: master_values_def record_fields_def sorted_set_def map_filter_simps)
  with assms(1) p show ?thesis
    by (simp add: draft_master_def demo_domain_def Let_def split: prod.splits)
qed

lemma draft_of_nothing:
  assumes "find_domain sv (en_domain e) s = Some demo_domain"
    and "\<And>b. b \<in> set (objects s) \<Longrightarrow> ob_current b = None"
  shows "\<exists>d t. draft_master ascii_runtime sv e s = Inr (d, t)"
  by (rule draft_without_records [OF assms(1)])
    (use assms(2) in \<open>fastforce simp: current_records_def filter_empty_conv\<close>)

definition pair_merge :: merge_payload where
  "pair_merge = \<lparr>gp_primary = ''u0'', gp_merged = [''u1''], gp_bound = [(''u0'', 1), (''u1'', 1)],
     gp_contributions = 1, gp_relationships = 0, gp_corrections = 1, gp_dry_run = False,
     gp_reason = ''same company''\<rparr>"

lemmas pair_simps = pair_db_def empty_db_def demo_entity_def demo_object_def demo_service_def row_get_def

text \<open>Corrections do not touch what the objects currently hold.\<close>

lemma set_membership_current:
  "map ob_current (objects (set_membership R sv i e r s)) = map ob_current (objects s)"
  by (simp add: set_membership_def Let_def close_membership_def modify_object_def
      open_membership_def row_modify_def update_rows_def split: option.split)

lemma move_members_current:
  "map ob_current (objects (move_members R sv obs x r s)) = map ob_current (objects s)"
  by (induction obs arbitrary: s) (simp_all add: move_members_Cons set_membership_current)

lemma moved_current:
  "(\<forall>b \<in> set (objects (move_members R sv obs x r s)). ob_current b = None) \<longleftrightarrow>
   (\<forall>b \<in> set (objects s). ob_current b = None)"
proof -
  have "(\<forall>b \<in> set bs. ob_current b = None) \<longleftrightarrow> set (map ob_current bs) \<subseteq> {None}"
    for bs :: "source_object list" by auto
  then show ?thesis by (simp only: move_members_current)
qed

lemma pair_merge_applies: "\<exists>t. apply_merge ascii_runtime demo_service pair_merge ''ok'' pair_db = Inr t"
proof -
  define s1 where "s1 = modify_entity ''u1'' (set_status MergedEntity) (repoint demo_service ''u1'' ''u0''
     (move_members ascii_runtime demo_service (entity_members demo_service ''u1'' pair_db) ''u0''
        ''approved_merge'' pair_db))"
  have s1: "merge_one ascii_runtime demo_service ''u0'' (gp_bound pair_merge) ''u1'' pair_db = Inr s1"
    by (simp add: s1_def merge_one_def find_entity_def pair_simps pair_merge_def Let_def)
  have cur: "ob_current b = None" if "b \<in> set (objects s1)" for b
    using that moved_current [of ascii_runtime demo_service _ _ _ pair_db] by (simp add: s1_def frame_simps pair_simps)
  have doms: "domains s1 = [demo_domain]" "entities s1 = [demo_entity ''u0'', (demo_entity ''u1'')\<lparr>en_status := MergedEntity\<rparr>]"
    by (simp_all add: s1_def frame_simps pair_simps row_modify_def set_status_def)
  define p2 where "p2 = bump (demo_entity ''u0'')"
  have p2: "row_get en_id ''u0'' (entities (modify_entity ''u0'' bump s1)) = Some p2"
    by (simp add: frame_simps doms p2_def row_get_def row_modify_def bump_def demo_entity_def)
  obtain d t where "draft_master ascii_runtime demo_service p2 (modify_entity ''u0'' bump s1) = Inr (d, t)"
    using draft_of_nothing [of demo_service p2 "modify_entity ''u0'' bump s1"] cur
    by (auto simp: frame_simps find_domain_def doms p2_def bump_def pair_simps demo_domain_def)
  moreover have "row_get en_id ''u0'' (entities pair_db) = Some (demo_entity ''u0'')"
    "en_id (demo_entity ''u0'') = ''u0''" "en_version (demo_entity ''u0'') = 1" by (simp_all add: pair_simps)
  ultimately show ?thesis using s1 p2
    by (simp add: apply_merge_def Let_def) (simp add: pair_merge_def)
qed

theorem approved_merge_conserves_members_witness:
  "\<exists>t. apply_merge ascii_runtime demo_service pair_merge ''ok'' pair_db = Inr t \<and>
     store_ok ascii_runtime t \<and> members t = [(''u2'', ''w1'', Some ''u0'')] \<and>
     no_members demo_service ''u1'' t"
proof -
  obtain t where t: "apply_merge ascii_runtime demo_service pair_merge ''ok'' pair_db = Inr t"
    using pair_merge_applies by blast
  have "members pair_db = [(''u2'', ''w1'', Some ''u1'')]" by (simp add: members_def pair_simps)
  with approved_merge_conserves_members [OF ascii_uuid pair_db_ok t] t show ?thesis
    by (simp add: pair_merge_def repointed_def demo_service_def)
qed

definition pair_split :: split_payload where
  "pair_split = \<lparr>lp_records = [], lp_objects = [''u2''], lp_reason = ''other company''\<rparr>"

lemma pair_split_applies:
  "\<exists>t. apply_split ascii_runtime demo_service ''t'' (Some ''u1'') pair_split ''ok'' pair_db = Inr t"
proof -
  let ?key = "stable_key ascii_runtime [JStr (wid demo_service), JStr ''t'', JStr ''split'']"
  have "?key \<notin> en_stable_key ` set (entities pair_db)" by (simp add: stable_key_def pair_simps)
  then obtain x s1 where x: "add_entity ascii_runtime demo_service ''supplier'' ?key pair_db = Inr (x, s1)"
    by (simp add: add_entity_def Let_def)
  then have s1: "x = \<lparr>en_id = next_id ascii_runtime pair_db, en_ws = ''w1'', en_domain = ''supplier'',
      en_stable_key = ?key, en_status = Candidate, en_version = 1\<rparr>"
    "s1 = pair_db\<lparr>entities := row_add x (entities pair_db), ticks := Suc (ticks pair_db)\<rparr>"
    by (auto simp: add_entity_def res_elim Let_def demo_service_def)
  define o2 where "o2 = bump (demo_entity ''u1'')"
  define s2 where "s2 = modify_entity ''u1'' bump
    (move_members ascii_runtime demo_service [''u2''] (en_id x) ''approved_split'' s1)"
  have cur: "\<forall>b \<in> set (objects s2). ob_current b = None"
    by (simp add: s2_def frame_simps moved_current) (simp add: s1(2) pair_simps)
  have dom: "domains s2 = [demo_domain]" by (simp add: s2_def frame_simps) (simp add: s1(2) pair_simps)
  have o2: "row_get en_id ''u1'' (entities s2) = Some o2"
    by (simp add: s2_def frame_simps o2_def)
      (simp add: s1(2) pair_simps row_add_def row_modify_def bump_def)
  have ms: "split_members demo_service ''u1'' [''u2''] s1 = [''u2'']"
    by (simp add: split_members_def entity_members_def s1(2)) (simp add: pair_simps)
  have found: "find_domain demo_service ''supplier'' s = Some demo_domain" if "domains s = [demo_domain]" for s
    using that by (simp add: find_domain_def demo_domain_def demo_service_def)
  obtain d s3 where d: "draft_master ascii_runtime demo_service o2 s2 = Inr (d, s3)"
    using draft_of_nothing [of demo_service o2 s2] cur found [OF dom]
    by (auto simp: o2_def bump_def demo_entity_def)
  note f = draft_master_frame [OF d]
  obtain d' s4 where d': "draft_master ascii_runtime demo_service x s3 = Inr (d', s4)"
    using draft_of_nothing [of demo_service x s3] cur found [of s3] dom by (auto simp: f s1(1))
  have "row_get en_id ''u1'' (entities pair_db) = Some (demo_entity ''u1'')"
    "en_id (demo_entity ''u1'') = ''u1''" "en_domain (demo_entity ''u1'') = ''supplier''"
    by (simp_all add: pair_simps)
  then show ?thesis using x ms o2 d d'
    by (simp add: apply_split_def pair_split_def Let_def s2_def split: prod.split)
qed

theorem approved_split_moves_exactly_the_chosen_witness:
  "\<exists>t x. apply_split ascii_runtime demo_service ''t'' (Some ''u1'') pair_split ''ok'' pair_db = Inr t \<and>
     store_ok ascii_runtime t \<and> x \<notin> {''u0'', ''u1''} \<and> members t = [(''u2'', ''w1'', Some x)]"
proof -
  obtain t where t: "apply_split ascii_runtime demo_service ''t'' (Some ''u1'') pair_split ''ok'' pair_db = Inr t"
    using pair_split_applies by blast
  have m: "members pair_db = [(''u2'', ''w1'', Some ''u1'')]" by (simp add: members_def pair_simps)
  have e: "en_id ` set (entities pair_db) = {''u0'', ''u1''}" by (simp add: pair_simps)
  from approved_split_moves_exactly_the_chosen [OF ascii_uuid pair_db_ok t] t show ?thesis
    unfolding e m by (auto simp: pair_split_def redirect_def)
qed

definition pair_match :: match_payload where
  "pair_match = \<lparr>mp_left_record = ''u3'', mp_right_record = ''u4'', mp_left_object = Some ''u2'',
     mp_right_object = Some ''u9'', mp_target = ''u0'', mp_bound_target = 1, mp_evidence = []\<rparr>"

lemma pair_match_links: "\<exists>t. link_match ascii_runtime demo_service (Some ''u1'') pair_match pair_db = Inr t"
proof -
  obtain p where p: "compile_policy ascii_runtime tax_definition = Inr p"
    "identifiers p = identifiers tax_policy" "algorithm p = algorithm tax_policy"
    "comparisons p = comparisons tax_policy"
    using tax_definition_fields by blast
  obtain m where m: "compare_records ascii_runtime p (named ''a'' ''1'') (named ''a'' ''1'') = Inr m"
    "contradictions m = []" using tax_twin_compiled [OF p(2-4)] by blast
  have rows: "row_get sr_id ''u3'' (records pair_db) = Some (tax_record ''u3'')"
    "row_get sr_id ''u4'' (records pair_db) = Some (tax_record ''u4'')"
    "row_get en_id ''u1'' (entities pair_db) = Some (demo_entity ''u1'')"
    "row_get en_id ''u0'' (entities pair_db) = Some (demo_entity ''u0'')"
    "find_domain demo_service ''supplier'' pair_db = Some demo_domain"
    "\<not> is_cannot_link demo_service ''u2'' ''u9'' pair_db"
    by (simp_all add: pair_simps tax_record_def find_domain_def demo_domain_def is_cannot_link_def
        split: prod.split)
  have norm: "sr_normalized (tax_record i) = named ''a'' ''1''" "en_domain (demo_entity i) = ''supplier''"
    "en_id (demo_entity i) = i" "en_version (demo_entity i) = 1" "dm_definition demo_domain = tax_definition"
    for i by (simp_all add: tax_record_def demo_entity_def demo_domain_def)
  have chk: "check_link ascii_runtime demo_service (demo_entity ''u1'') (demo_entity ''u0'') pair_match pair_db = Inr ()"
    by (simp add: check_link_def pair_match_def rows norm p(1) m)
  define s2 where "s2 = modify_entity ''u0'' bump (modify_entity ''u1'' (set_status MergedEntity)
    (move_members ascii_runtime demo_service (entity_members demo_service ''u1'' pair_db) ''u0''
       ''approved_match'' pair_db))"
  have "\<forall>b \<in> set (objects s2). ob_current b = None" "domains s2 = [demo_domain]"
    by (simp_all add: s2_def frame_simps moved_current) (simp_all add: pair_simps)
  then obtain d t where "draft_master ascii_runtime demo_service (bump (demo_entity ''u0'')) s2 = Inr (d, t)"
    using draft_of_nothing [of demo_service "bump (demo_entity ''u0'')" s2]
    by (auto simp: find_domain_def demo_domain_def demo_service_def bump_def demo_entity_def)
  moreover have "row_get en_id ''u0'' (entities s2) = Some (bump (demo_entity ''u0''))"
    by (simp add: s2_def frame_simps) (simp add: pair_simps row_modify_def bump_def set_status_def)
  ultimately have "draft_entity ascii_runtime demo_service ''u0'' s2 = Inr t"
    by (simp add: draft_entity_def)
  then show ?thesis
    by (simp add: link_match_def rows chk Let_def norm touch_entity_def s2_def pair_match_def
        chk [unfolded pair_match_def])
qed

theorem approved_links_are_checked_again_witness:
  "\<exists>t. link_match ascii_runtime demo_service (Some ''u1'') pair_match pair_db = Inr t \<and>
     store_ok ascii_runtime t \<and> members t = [(''u2'', ''w1'', Some ''u0'')]"
proof -
  obtain t where t: "link_match ascii_runtime demo_service (Some ''u1'') pair_match pair_db = Inr t"
    using pair_match_links by blast
  have "members pair_db = [(''u2'', ''w1'', Some ''u1'')]" by (simp add: members_def pair_simps)
  with approved_links_are_checked_again [OF ascii_uuid pair_db_ok t] t show ?thesis
    by (auto simp: repointed_def demo_service_def pair_match_def)
qed

text \<open>
  An entity proposed for a merge with itself passes every check of the proposal; approving it
  retires the entity that should have survived.
\<close>

lemma merge_with_itself_retires_the_primary:
  assumes "inj (uuid R)" "store_ok R s" "apply_merge R sv g reason s = Inr t"
    and "gp_primary g \<in> set (gp_merged g)" "e \<in> set (entities t)" "en_id e = gp_primary g"
  shows "en_status e = MergedEntity \<and>
    (\<exists>g e. merge_impact demo_service [''u1'', ''u1''] ''again'' False pair_db = Inr (e, g) \<and>
       gp_primary g \<in> set (gp_merged g))"
proof -
  have "en_status e = MergedEntity"
    using assms(4-6) by (auto simp: apply_merge_ok(3) [OF assms(1-3)] set_row_modify retire_all_def
        set_update_rows bump_def set_status_def split: if_splits)
  then show ?thesis by (simp add: merge_impact_def merge_domains_def pair_simps)
qed

end
