(* ===== verification/Configuration.thy ===== *)
theory Configuration
  imports Correction
begin

text \<open>
  Domains and configuration versions: \<open>create_domain\<close>, \<open>create_config\<close>, \<open>revert_config\<close>,
  \<open>_configuration_policies\<close>, the snapshot hash, the simulation of a policy change and the
  proposal that binds a draft to its simulation.
\<close>

section \<open>Creating a domain\<close>

definition catch_policy :: "string \<Rightarrow> 'a res \<Rightarrow> 'a res" where
  "catch_policy code r = (case r of Inl (PolicyError m) \<Rightarrow> Inl (HTTPException 422 code) | _ \<Rightarrow> r)"

text \<open>The canonical document is always a JSON object.\<close>

definition stored_definition :: "compiled_policy \<Rightarrow> dict" where
  "stored_definition p = (case canonical_document p of JObj d \<Rightarrow> d | _ \<Rightarrow> [])"

definition create_domain ::
    "runtime \<Rightarrow> service \<Rightarrow> string \<Rightarrow> string \<Rightarrow> string \<Rightarrow> dict \<Rightarrow> domain_row op" where
  "create_domain R sv key name mode def s =
     bind_res (guard_res (find_domain sv key s = None) (HTTPException 409 ''domain_key_exists'')) (\<lambda>_.
     bind_res (catch_policy ''invalid_domain_policy''
       (compile_policy R (dict_merge def [(''mode'', JStr mode)]))) (\<lambda>p.
     let d = \<lparr>dm_id = next_id R s, dm_ws = wid sv, dm_key = key, dm_name = name, dm_mode = mode,
              dm_schema_version = 1, dm_definition = stored_definition p, dm_status = ''published''\<rparr>
     in Inr (d, audit R sv ''domain.created'' ''domain'' (dm_id d) (JObj [(''key'', JStr key)])
          (s\<lparr>domains := row_add d (domains s), ticks := Suc (ticks s)\<rparr>))))"

section \<open>Configuration documents\<close>

text \<open>\<open>_walk_values\<close>: the keys and leaves of a document.\<close>

fun walk_values :: "json \<Rightarrow> json list" where
  "walk_values (JObj d) = concat (map (\<lambda>(k, v). JStr k # walk_values v) d)"
| "walk_values (JList xs) = concat (map walk_values xs)"
| "walk_values v = [v]"

text \<open>
  \<open>"secrets" in json.dumps(document).lower()\<close>: the dump is ASCII, and the word holds no quote,
  escape or punctuation, so it lies within one key or string.
\<close>

definition mentions_secrets :: "dict \<Rightarrow> bool" where
  "mentions_secrets d \<longleftrightarrow>
     (\<exists>v \<in> set (walk_values (JObj d)).
        case v of JStr t \<Rightarrow> substring ''secrets'' (map ascii_lower_char t) | _ \<Rightarrow> False)"

definition looks_secret :: "json \<Rightarrow> bool" where
  "looks_secret v =
     (case v of JStr t \<Rightarrow> \<exists>p \<in> set [''sk-'', ''ghp_'', ''Bearer '']. prefix_of p t | _ \<Rightarrow> False)"

definition check_secrets :: "dict \<Rightarrow> unit res" where
  "check_secrets d =
     guard_res (\<not> (mentions_secrets d \<and> (\<exists>v \<in> set (walk_values (JObj d)). looks_secret v)))
       (HTTPException 422 ''secret_value_forbidden'')"

type_synonym policies = "(string \<times> compiled_policy) list"

definition compile_value :: "runtime \<Rightarrow> string \<times> json \<Rightarrow> (string \<times> compiled_policy) res" where
  "compile_value R kv = (case kv of (k, v) \<Rightarrow>
     bind_res (as_dict v) (\<lambda>d. bind_res (compile_policy R d) (\<lambda>p. Inr (k, p))))"

definition known_domain :: "service \<Rightarrow> db \<Rightarrow> string \<Rightarrow> bool" where
  "known_domain sv s k \<longleftrightarrow> find_domain sv k s \<noteq> None"

definition pack_policies :: "runtime \<Rightarrow> service \<Rightarrow> dict \<Rightarrow> db \<Rightarrow> policies res" where
  "pack_policies R sv document s =
     bind_res (as_dict (dget_or document ''metadata'' (JObj []))) (\<lambda>metadata.
     let key = py_str R (dget_or metadata ''name'' (JStr [])) in
     bind_res (guard_res (known_domain sv s key)
       (PolicyError ''configuration domain does not exist'')) (\<lambda>_.
     bind_res (compile_policy R document) (\<lambda>p. Inr [(key, p)])))"

definition mapping_policies :: "runtime \<Rightarrow> service \<Rightarrow> dict \<Rightarrow> db \<Rightarrow> policies res" where
  "mapping_policies R sv ds s =
     bind_res (guard_res (\<forall>k \<in> set (dkeys ds). known_domain sv s k)
       (PolicyError ''configuration domains do not exist'')) (\<lambda>_.
     map_res (compile_value R) ds)"

text \<open>The preview form: thresholds and survivorship for the supplier domain.\<close>

definition set_threshold :: "string \<Rightarrow> string \<Rightarrow> dict \<Rightarrow> json \<Rightarrow> json res" where
  "set_threshold from_key to_key matching thresholds =
     (case map_of matching from_key of
        None \<Rightarrow> Inr thresholds
      | Some v \<Rightarrow> (case thresholds of
            JObj t \<Rightarrow> Inr (JObj (AList.update to_key v t))
          | _ \<Rightarrow> Inl (PyError ''TypeError'')))"

definition preview_candidate :: "dict \<Rightarrow> dict \<Rightarrow> dict \<Rightarrow> dict res" where
  "preview_candidate document matching candidate =
     bind_res (as_dict (dget_or candidate ''matching'' (JObj []))) (\<lambda>own.
     bind_res (set_threshold ''review_threshold'' ''review'' matching
       (dget_or own ''thresholds'' (JObj []))) (\<lambda>t1.
     bind_res (set_threshold ''auto_link_threshold'' ''auto_link'' matching t1) (\<lambda>t2.
     let c1 = AList.update ''matching'' (JObj (AList.update ''thresholds'' t2 own)) candidate in
     case dget document ''survivorship'' of
       JObj new \<Rightarrow> (case dget_or c1 ''survivorship'' (JObj []) of
           JObj old \<Rightarrow> Inr (AList.update ''survivorship'' (JObj (dict_merge old new)) c1)
         | _ \<Rightarrow> Inl (PyError ''TypeError''))
     | _ \<Rightarrow> Inr c1)))"

definition preview_policies :: "runtime \<Rightarrow> service \<Rightarrow> dict \<Rightarrow> db \<Rightarrow> policies res" where
  "preview_policies R sv document s =
     bind_res (as_dict (dget_or document ''matching'' (JObj []))) (\<lambda>matchings.
     case (find_domain sv ''supplier'' s, dget matchings ''supplier'') of
       (Some supplier, JObj matching) \<Rightarrow>
         bind_res (preview_candidate document matching (dm_definition supplier)) (\<lambda>c.
         bind_res (compile_policy R c) (\<lambda>p. Inr [(''supplier'', p)]))
     | _ \<Rightarrow> Inl (PolicyError ''configuration must contain a DomainPack or a domains mapping''))"

definition configuration_policies :: "runtime \<Rightarrow> service \<Rightarrow> dict \<Rightarrow> db \<Rightarrow> policies res" where
  "configuration_policies R sv document s =
     (if dget document ''kind'' = JStr ''DomainPack'' then pack_policies R sv document s
      else case dget document ''domains'' of
        JObj ds \<Rightarrow> mapping_policies R sv ds s
      | _ \<Rightarrow> preview_policies R sv document s)"

definition next_config_version :: "service \<Rightarrow> db \<Rightarrow> int" where
  "next_config_version sv s =
     (case latest cv_version (filter (\<lambda>c. cv_ws c = wid sv) (configurations s)) of
        None \<Rightarrow> 1 | Some c \<Rightarrow> cv_version c + 1)"

definition create_config :: "runtime \<Rightarrow> service \<Rightarrow> dict \<Rightarrow> configuration op" where
  "create_config R sv document s =
     bind_res (check_secrets document) (\<lambda>_.
     bind_res (catch_policy ''invalid_configuration'' (configuration_policies R sv document s)) (\<lambda>_.
     let c = \<lparr>cv_id = next_id R s, cv_ws = wid sv, cv_version = next_config_version sv s,
              cv_status = DraftConfig, cv_checksum = canonical_hash R (JObj document),
              cv_document = document, cv_by = subject sv\<rparr>
     in Inr (c, audit R sv ''configuration.created'' ''configuration'' (cv_id c)
          (JObj [(''version'', JInt (cv_version c)), (''checksum'', JStr (cv_checksum c))])
          (s\<lparr>configurations := row_add c (configurations s), ticks := Suc (ticks s)\<rparr>))))"

definition find_config :: "service \<Rightarrow> ident \<Rightarrow> db \<Rightarrow> configuration option" where
  "find_config sv i s = find (\<lambda>c. cv_id c = i \<and> cv_ws c = wid sv) (configurations s)"

definition revert_config :: "runtime \<Rightarrow> service \<Rightarrow> ident \<Rightarrow> configuration op" where
  "revert_config R sv i s =
     bind_res (from_option (HTTPException 404 ''configuration_not_found'') (find_config sv i s)) (\<lambda>source.
     bind_res (create_config R sv (cv_document source) s) (\<lambda>(c, s1).
     Inr (c, audit R sv ''configuration.revert_draft_created'' ''configuration'' (cv_id c)
       (JObj [(''source_configuration_id'', JStr (cv_id source)),
              (''source_version'', JInt (cv_version source)),
              (''requires_simulation_and_approval'', JBool True)]) s1)))"

section \<open>The configuration invariant\<close>

text \<open>
  Configuration ids and the version numbers of a workspace are unique, a workspace has at most one
  active configuration, and every checksum is the hash of its document; domain keys are unique.
\<close>

definition active_configs :: "ident \<Rightarrow> db \<Rightarrow> configuration list" where
  "active_configs ws s = filter (\<lambda>c. cv_ws c = ws \<and> cv_status c = ActiveConfig) (configurations s)"

definition config_ids_ok :: "runtime \<Rightarrow> db \<Rightarrow> bool" where
  "config_ids_ok R s \<longleftrightarrow> distinct (map cv_id (configurations s)) \<and>
     (\<forall>i \<in> cv_id ` set (configurations s). drawn R s i) \<and>
     distinct (map (\<lambda>c. (cv_ws c, cv_version c)) (configurations s)) \<and>
     (\<forall>c \<in> set (configurations s). cv_checksum c = canonical_hash R (JObj (cv_document c)))"

definition configs_ok :: "runtime \<Rightarrow> db \<Rightarrow> bool" where
  "configs_ok R s \<longleftrightarrow> config_ids_ok R s \<and> (\<forall>ws. length (active_configs ws s) \<le> 1) \<and>
     distinct (map dm_id (domains s)) \<and> (\<forall>i \<in> dm_id ` set (domains s). drawn R s i) \<and>
     distinct (map (\<lambda>d. (dm_ws d, dm_key d)) (domains s))"

lemma configs_ok_frame:
  assumes "configs_ok R s" "configurations t = configurations s"
    and "map (\<lambda>d. (dm_id d, dm_ws d, dm_key d)) (domains t) = map (\<lambda>d. (dm_id d, dm_ws d, dm_key d)) (domains s)"
    and "ticks s \<le> ticks t"
  shows "configs_ok R t"
proof -
  have ids: "map dm_id (domains t) = map dm_id (domains s)"
    using arg_cong [OF assms(3), of "map fst"] by (simp add: comp_def)
  have keys: "map (\<lambda>d. (dm_ws d, dm_key d)) (domains t) = map (\<lambda>d. (dm_ws d, dm_key d)) (domains s)"
    using arg_cong [OF assms(3), of "map snd"] by (simp add: comp_def)
  show ?thesis
    using assms(1) drawn_mono [OF _ assms(4)]
    unfolding configs_ok_def config_ids_ok_def active_configs_def assms(2) ids keys set_map [symmetric]
    by fast
qed

lemma next_config_version_greater:
  "c \<in> set (configurations s) \<Longrightarrow> cv_ws c = wid sv \<Longrightarrow> cv_version c < next_config_version sv s"
  using latest_max [of cv_version "filter (\<lambda>c. cv_ws c = wid sv) (configurations s)" _ c]
  by (fastforce simp: next_config_version_def filter_empty_conv split: option.split)

lemma create_config_cases:
  assumes "create_config R sv document s = Inr (c, t)"
  shows "cv_id c = next_id R s" "cv_ws c = wid sv" "cv_version c = next_config_version sv s"
    "cv_status c = DraftConfig" "cv_document c = document"
    "cv_checksum c = canonical_hash R (JObj document)"
    "\<exists>d. t = audit R sv ''configuration.created'' ''configuration'' (cv_id c) d
       (s\<lparr>configurations := row_add c (configurations s), ticks := Suc (ticks s)\<rparr>)"
    "\<exists>ps. configuration_policies R sv document s = Inr ps"
proof -
  from assms obtain ps where ps: "catch_policy ''invalid_configuration'' (configuration_policies R sv document s) = Inr ps"
    by (auto simp: create_config_def res_elim Let_def)
  then show "\<exists>ps. configuration_policies R sv document s = Inr ps"
    by (auto simp: catch_policy_def split: sum.splits err.splits)
qed (use assms in \<open>auto simp: create_config_def res_elim Let_def\<close>)

lemma configs_ok_create:
  assumes "inj (uuid R)" "configs_ok R s" "create_config R sv document s = Inr (c, t)"
  shows "configs_ok R t"
proof -
  note c = create_config_cases [OF assms(3)]
  from c(7) have t: "configurations t = configurations s @ [c]" "domains t = domains s"
    "ticks s < ticks t" by (auto simp: frame_simps row_add_def)
  have old: "drawn R s i \<Longrightarrow> drawn R t i" for i using t(3) by (auto intro: drawn_mono)
  have "next_id R s \<notin> cv_id ` set (configurations s)"
    using assms(1,2) next_not_drawn by (fastforce simp: configs_ok_def config_ids_ok_def)
  moreover have "(wid sv, cv_version c) \<notin> (\<lambda>c. (cv_ws c, cv_version c)) ` set (configurations s)"
    using next_config_version_greater [of _ s sv] c(3) by fastforce
  ultimately have "config_ids_ok R t"
    using assms(2) old drawn_next [OF t(3)] c by (auto simp: configs_ok_def config_ids_ok_def t)
  moreover have "active_configs ws t = active_configs ws s" for ws
    by (simp add: active_configs_def t c(4))
  ultimately show ?thesis using assms(2) old by (simp add: configs_ok_def t)
qed

lemma create_config_ok:
  assumes "inj (uuid R)" "strict_mono (clock R)" "store_ok R s" "audit_ok R s" "configs_ok R s"
    and "create_config R sv document s = Inr (c, t)"
  shows "store_ok R t \<and> audit_ok R t \<and> configs_ok R t"
proof -
  from create_config_cases(7) [OF assms(6)] obtain d where
    t: "t = audit R sv ''configuration.created'' ''configuration'' (cv_id c) d
       (s\<lparr>configurations := row_add c (configurations s), ticks := Suc (ticks s)\<rparr>)" ..
  let ?u = "s\<lparr>configurations := row_add c (configurations s), ticks := Suc (ticks s)\<rparr>"
  have "store_ok R ?u" by (rule store_ok_frame [OF assms(3)]) (simp_all add: members_def)
  moreover have "audit_ok R ?u" by (rule audit_ok_frame [OF assms(4)]) simp_all
  ultimately show ?thesis
    using store_ok_audit audit_ok_audit [OF assms(2)] configs_ok_create [OF assms(1,5,6)] by (simp add: t)
qed

lemma create_domain_ok:
  assumes "inj (uuid R)" "strict_mono (clock R)" "store_ok R s" "audit_ok R s" "configs_ok R s"
    and "create_domain R sv key name mode def s = Inr (d, t)"
  shows "store_ok R t \<and> audit_ok R t \<and> configs_ok R t \<and> domains t = domains s @ [d] \<and>
    (\<exists>p. compile_policy R (dict_merge def [(''mode'', JStr mode)]) = Inr p \<and>
       dm_definition d = stored_definition p)"
proof -
  from assms(6) obtain p where p: "find_domain sv key s = None"
    "catch_policy ''invalid_domain_policy'' (compile_policy R (dict_merge def [(''mode'', JStr mode)])) = Inr p"
    and d: "dm_id d = next_id R s" "dm_ws d = wid sv" "dm_key d = key" "dm_definition d = stored_definition p"
    and t: "t = audit R sv ''domain.created'' ''domain'' (dm_id d) (JObj [(''key'', JStr key)])
      (s\<lparr>domains := row_add d (domains s), ticks := Suc (ticks s)\<rparr>)"
    by (auto simp: create_domain_def res_elim Let_def)
  let ?u = "s\<lparr>domains := row_add d (domains s), ticks := Suc (ticks s)\<rparr>"
  have "store_ok R ?u" by (rule store_ok_frame [OF assms(3)]) (simp_all add: members_def)
  moreover have "audit_ok R ?u" by (rule audit_ok_frame [OF assms(4)]) simp_all
  moreover have "configs_ok R ?u"
  proof -
    have "next_id R s \<notin> dm_id ` set (domains s)"
      using assms(1,5) next_not_drawn by (fastforce simp: configs_ok_def)
    moreover have "(wid sv, key) \<notin> (\<lambda>d. (dm_ws d, dm_key d)) ` set (domains s)"
      using p(1) by (auto simp: find_domain_def find_None_iff)
    moreover have "drawn R s i \<Longrightarrow> drawn R ?u i" for i by (rule drawn_mono) auto
    moreover have "drawn R ?u (next_id R s)" by (rule drawn_next) simp
    ultimately show ?thesis using assms(5) d
      by (auto simp: configs_ok_def config_ids_ok_def active_configs_def row_add_def)
  qed
  moreover have "configs_ok R (audit R sv a b i j ?u)" for a b i j
    by (rule configs_ok_frame [OF calculation(3)]) (simp_all add: frame_simps)
  moreover have "compile_policy R (dict_merge def [(''mode'', JStr mode)]) = Inr p"
    using p(2) by (auto simp: catch_policy_def split: sum.splits err.splits)
  ultimately show ?thesis
    using t d store_ok_audit audit_ok_audit [OF assms(2)] by (auto simp: frame_simps row_add_def)
qed

end
