(* ===== verification/Simulation.thy ===== *)
theory Simulation
  imports Configuration
begin

text \<open>
  The simulation of a configuration and its proposal: \<open>_snapshot_hash\<close>, \<open>_simulate_policy\<close>,
  \<open>simulate\<close>, \<open>simulation_view\<close>, \<open>propose_config\<close>. A simulation compares the decisions of the
  policy in force with those of the proposed one over the active objects of a domain.
\<close>

section \<open>The snapshot\<close>

definition entity_status_name :: "entity_status \<Rightarrow> string" where
  "entity_status_name st =
     (case st of Candidate \<Rightarrow> ''candidate'' | ApprovedEntity \<Rightarrow> ''approved'' | MergedEntity \<Rightarrow> ''merged'')"

definition object_row :: "source_object \<Rightarrow> json" where
  "object_row b = JList [JStr (ob_id b), optional (ob_current b), optional (ob_latest b),
     optional (ob_entity b), JBool (ob_retired b)]"

definition entity_row :: "entity \<Rightarrow> json" where
  "entity_row e = JList [JStr (en_id e), JInt (en_version e), JStr (entity_status_name (en_status e))]"

definition snapshot_document :: "runtime \<Rightarrow> service \<Rightarrow> db \<Rightarrow> json" where
  "snapshot_document R sv s = JObj
     [(''objects'', JList (map object_row (sort_key ob_id (filter (\<lambda>b. ob_ws b = wid sv) (objects s))))),
      (''entities'', JList (map entity_row (sort_key en_id (filter (\<lambda>e. en_ws e = wid sv) (entities s))))),
      (''constraints'', JList (map (\<lambda>l. JList [JStr (lb_left l), JStr (lb_right l)])
         (sort_key lb_id (filter (\<lambda>l. lb_ws l = wid sv) (object_bans s))))),
      (''domains'', JList (map (\<lambda>d. JList [JStr (dm_key d), JStr (canonical_hash R (JObj (dm_definition d)))])
         (sort_key dm_key (filter (\<lambda>d. dm_ws d = wid sv) (domains s)))))]"

definition snapshot_hash :: "runtime \<Rightarrow> service \<Rightarrow> db \<Rightarrow> string" where
  "snapshot_hash R sv s = canonical_hash R (snapshot_document R sv s)"

section \<open>Pairs of objects\<close>

record link_change =
  lc_left :: ident
  lc_right :: ident
  lc_current :: match_result
  lc_proposed :: match_result

definition object_record :: "db \<Rightarrow> source_object \<Rightarrow> source_record res" where
  "object_record s b = from_option (PyError ''AttributeError'')
     (Option.bind (ob_current b) (\<lambda>i. row_get sr_id i (records s)))"

definition active_objects :: "service \<Rightarrow> string \<Rightarrow> db \<Rightarrow> source_object list" where
  "active_objects sv key s = sort_key ob_id
     (filter (\<lambda>b. ob_ws b = wid sv \<and> ob_domain b = key \<and> ob_current b \<noteq> None \<and> \<not> ob_retired b)
       (objects s))"

fun pairs :: "'a list \<Rightarrow> ('a \<times> 'a) list" where
  "pairs [] = []"
| "pairs (x # xs) = map (Pair x) xs @ pairs xs"

definition share_block :: "runtime \<Rightarrow> compiled_policy \<Rightarrow> source_record \<Rightarrow> source_record \<Rightarrow> bool res" where
  "share_block R p l r =
     bind_res (blocking_keys R p (sr_normalized l)) (\<lambda>a.
     bind_res (blocking_keys R p (sr_normalized r)) (\<lambda>b.
     Inr (set a \<inter> set b \<noteq> {})))"

definition keep_apart :: "bool \<Rightarrow> match_result \<Rightarrow> match_result" where
  "keep_apart banned m = (if banned then m\<lparr>match_decision := KeepSeparate\<rparr> else m)"

text \<open>The two results of a pair that shares a block under either policy.\<close>

definition pair_results ::
    "runtime \<Rightarrow> service \<Rightarrow> compiled_policy \<Rightarrow> compiled_policy \<Rightarrow> db \<Rightarrow> source_object \<times> source_object \<Rightarrow>
     (match_result \<times> match_result) option res" where
  "pair_results R sv cur prop s lr = (case lr of (left, right) \<Rightarrow>
     bind_res (object_record s left) (\<lambda>l.
     bind_res (object_record s right) (\<lambda>r.
     bind_res (share_block R cur l r) (\<lambda>now.
     bind_res (share_block R prop l r) (\<lambda>later.
     if \<not> now \<and> \<not> later then Inr None
     else
       bind_res (compare_records R cur (sr_normalized l) (sr_normalized r)) (\<lambda>m.
       bind_res (normalize R prop (sr_original l)) (\<lambda>nl.
       bind_res (normalize R prop (sr_original r)) (\<lambda>nr.
       bind_res (compare_records R prop nl nr) (\<lambda>n.
       let banned = is_cannot_link sv (ob_id left) (ob_id right) s
       in Inr (Some (keep_apart banned m, keep_apart banned n))))))))))) "

definition link_change_of ::
    "source_object \<times> source_object \<Rightarrow> (match_result \<times> match_result) option \<Rightarrow> link_change option" where
  "link_change_of lr res = (case (lr, res) of
     ((left, right), Some (m, n)) \<Rightarrow>
       if match_decision m \<noteq> match_decision n
       then Some \<lparr>lc_left = ob_id left, lc_right = ob_id right, lc_current = m, lc_proposed = n\<rparr>
       else None
   | _ \<Rightarrow> None)"

definition link_changes ::
    "runtime \<Rightarrow> service \<Rightarrow> compiled_policy \<Rightarrow> compiled_policy \<Rightarrow> db \<Rightarrow> source_object list \<Rightarrow>
     link_change list res" where
  "link_changes R sv cur prop s bs =
     bind_res (map_res (\<lambda>lr. bind_res (pair_results R sv cur prop s lr) (\<lambda>x. Inr (link_change_of lr x)))
       (pairs bs)) (\<lambda>cs. Inr (List.map_filter id cs))"

definition review_step :: "link_change \<Rightarrow> int" where
  "review_step c =
     (if match_decision (lc_current c) = Review \<or> match_decision (lc_proposed c) = Review
      then if match_decision (lc_proposed c) = Review then 1 else - 1 else 0)"

definition review_delta :: "link_change list \<Rightarrow> int" where
  "review_delta cs = sum_list (map review_step cs)"

section \<open>Validation and mastering\<close>

type_synonym validation_change = "ident \<times> quality_error list \<times> quality_error list"

definition validation_change_of ::
    "runtime \<Rightarrow> compiled_policy \<Rightarrow> compiled_policy \<Rightarrow> db \<Rightarrow> source_object \<Rightarrow>
     validation_change option res" where
  "validation_change_of R cur prop s b =
     bind_res (object_record s b) (\<lambda>r.
     bind_res (validate R cur (sr_original r)) (\<lambda>before.
     bind_res (validate R prop (sr_original r)) (\<lambda>after.
     Inr (if before \<noteq> after then Some (ob_id b, before, after) else None))))"

type_synonym attribute_change = "string \<times> json \<times> json \<times> json"

definition attribute_changes :: "dict \<Rightarrow> dict \<Rightarrow> dict \<Rightarrow> attribute_change list" where
  "attribute_changes before after prov =
     map (\<lambda>k. (k, dget before k, dget after k, dget prov k))
       (filter (\<lambda>k. \<not> py_eq (dget before k) (dget after k)) (sorted_set (dkeys before @ dkeys after)))"

definition master_change_of ::
    "runtime \<Rightarrow> service \<Rightarrow> compiled_policy \<Rightarrow> compiled_policy \<Rightarrow> db \<Rightarrow> entity \<Rightarrow>
     (ident \<times> attribute_change list) option res" where
  "master_change_of R sv cur prop s e =
     bind_res (master_values R sv (en_id e) cur s) (\<lambda>(before, _).
     bind_res (master_values R sv (en_id e) prop s) (\<lambda>(after, prov).
     let cs = attribute_changes before after prov
     in Inr (if cs \<noteq> [] then Some (en_id e, cs) else None)))"

record policy_change =
  pc_domain :: string
  pc_current :: string
  pc_proposed :: string
  pc_size :: int
  pc_links :: "link_change list"
  pc_masters :: "(ident \<times> attribute_change list) list"
  pc_validation :: "validation_change list"
  pc_delta :: int

definition live_entities :: "service \<Rightarrow> string \<Rightarrow> db \<Rightarrow> entity list" where
  "live_entities sv key s =
     filter (\<lambda>e. en_ws e = wid sv \<and> en_domain e = key \<and> en_status e \<noteq> MergedEntity) (entities s)"

definition simulate_policy ::
    "runtime \<Rightarrow> service \<Rightarrow> domain_row \<Rightarrow> compiled_policy \<Rightarrow> db \<Rightarrow> policy_change res" where
  "simulate_policy R sv domain prop s =
     bind_res (compile_policy R (dm_definition domain)) (\<lambda>cur.
     let bs = active_objects sv (dm_key domain) s in
     bind_res (link_changes R sv cur prop s bs) (\<lambda>links.
     bind_res (map_res (validation_change_of R cur prop s) bs) (\<lambda>vs.
     bind_res (map_res (master_change_of R sv cur prop s) (live_entities sv (dm_key domain) s)) (\<lambda>ms.
     Inr \<lparr>pc_domain = dm_key domain, pc_current = checksum cur, pc_proposed = checksum prop,
          pc_size = int (length bs), pc_links = links, pc_masters = List.map_filter id ms,
          pc_validation = List.map_filter id vs, pc_delta = review_delta links\<rparr>))))"

section \<open>The stored result\<close>

definition result_json :: "match_result \<Rightarrow> json" where
  "result_json m = JObj
     [(''score'', JFloat (score m)), (''score_kind'', JStr (score_kind m)),
      (''decision'', JStr (decision_name (match_decision m))),
      (''evidence'', JList (map evidence_json (match_evidence m))),
      (''contradictions'', JList (map contradiction_json (contradictions m)))]"

definition link_change_json :: "link_change \<Rightarrow> json" where
  "link_change_json c = JObj
     [(''left_source_object_id'', JStr (lc_left c)), (''right_source_object_id'', JStr (lc_right c)),
      (''current'', result_json (lc_current c)), (''proposed'', result_json (lc_proposed c))]"

definition quality_json :: "quality_error \<Rightarrow> json" where
  "quality_json q = JObj [(''attribute'', JStr (qe_attribute q)), (''code'', JStr (qe_code q)),
     (''message'', JStr (qe_message q))]"

definition validation_json :: "validation_change \<Rightarrow> json" where
  "validation_json c = (case c of (i, before, after) \<Rightarrow> JObj
     [(''source_object_id'', JStr i), (''current'', JList (map quality_json before)),
      (''proposed'', JList (map quality_json after))])"

definition master_json :: "ident \<times> attribute_change list \<Rightarrow> json" where
  "master_json c = (case c of (i, cs) \<Rightarrow> JObj
     [(''entity_id'', JStr i),
      (''attributes'', JObj (map (\<lambda>(k, before, after, prov).
         (k, JObj [(''current'', before), (''proposed'', after), (''provenance'', prov)])) cs))])"

definition change_json :: "policy_change \<Rightarrow> json" where
  "change_json c = JObj
     [(''domain'', JStr (pc_domain c)), (''current_policy'', JStr (pc_current c)),
      (''proposed_policy'', JStr (pc_proposed c)), (''dataset_size'', JInt (pc_size c)),
      (''link_changes'', JList (map link_change_json (pc_links c))),
      (''master_changes'', JList (map master_json (pc_masters c))),
      (''validation_changes'', JList (map validation_json (pc_validation c))),
      (''review_workload_delta'', JInt (pc_delta c))]"

definition total :: "('a \<Rightarrow> int) \<Rightarrow> 'a list \<Rightarrow> int" where
  "total f xs = sum_list (map f xs)"

definition simulation_result :: "string \<Rightarrow> policy_change list \<Rightarrow> dict" where
  "simulation_result hash cs =
     [(''candidate_links_changed'', JInt (total (\<lambda>c. int (length (pc_links c))) cs)),
      (''mastered_attributes_changed'',
        JInt (total (\<lambda>c. total (\<lambda>m. int (length (snd m))) (pc_masters c)) cs)),
      (''validation_failures_changed'', JInt (total (\<lambda>c. int (length (pc_validation c))) cs)),
      (''review_workload_delta'', JInt (total pc_delta cs)),
      (''affected_consumers'', JInt (int (card (set (concat (map (\<lambda>c. map fst (pc_masters c)) cs)))))),
      (''snapshot_hash'', JStr hash), (''sample'', JBool False),
      (''details'', JList (map change_json cs))]"

definition record_count :: "service \<Rightarrow> db \<Rightarrow> int" where
  "record_count sv s = int (length (filter (\<lambda>r. sr_ws r = wid sv) (records s)))"

definition simulate_domains ::
    "runtime \<Rightarrow> service \<Rightarrow> policies \<Rightarrow> db \<Rightarrow> policy_change list res" where
  "simulate_domains R sv ps s =
     map_res (\<lambda>(key, p).
       bind_res (from_option (HTTPException 409 ''configuration_domain_missing'') (find_domain sv key s))
         (\<lambda>domain. simulate_policy R sv domain p s)) ps"

definition simulate :: "runtime \<Rightarrow> service \<Rightarrow> ident \<Rightarrow> simulation op" where
  "simulate R sv i s =
     bind_res (from_option (HTTPException 404 ''configuration_not_found'') (find_config sv i s)) (\<lambda>config.
     bind_res (configuration_policies R sv (cv_document config) s) (\<lambda>ps.
     bind_res (simulate_domains R sv ps s) (\<lambda>cs.
     let sim = \<lparr>sm_id = next_id R s, sm_ws = wid sv, sm_config = cv_id config,
                sm_checkpoint = record_count sv s,
                sm_result = simulation_result (snapshot_hash R sv s) cs, sm_sample = False,
                sm_created = next_time R s\<rparr>
     in Inr (sim, s\<lparr>simulations := row_add sim (simulations s), ticks := Suc (ticks s)\<rparr>))))"

definition fresh_simulation :: "runtime \<Rightarrow> service \<Rightarrow> simulation \<Rightarrow> db \<Rightarrow> bool" where
  "fresh_simulation R sv sim s \<longleftrightarrow> dget (sm_result sim) ''snapshot_hash'' = JStr (snapshot_hash R sv s)"

definition simulation_view :: "runtime \<Rightarrow> service \<Rightarrow> simulation \<Rightarrow> db \<Rightarrow> dict" where
  "simulation_view R sv sim s =
     dict_merge
       [(''id'', JStr (sm_id sim)), (''workspace_id'', JStr (sm_ws sim)),
        (''config_id'', JStr (sm_config sim)), (''data_checkpoint'', JInt (sm_checkpoint sim)),
        (''result'', JObj (sm_result sim)), (''sample'', JBool (sm_sample sim)),
        (''created_at'', JStr (isoformat R (sm_created sim)))]
       [(''stale'', JBool (\<not> fresh_simulation R sv sim s)),
        (''current_checkpoint'', JInt (record_count sv s)),
        (''current_snapshot_hash'', JStr (snapshot_hash R sv s))]"

section \<open>Proposing a configuration\<close>

definition find_draft_config :: "service \<Rightarrow> ident \<Rightarrow> db \<Rightarrow> configuration option" where
  "find_draft_config sv i s =
     find (\<lambda>c. cv_id c = i \<and> cv_ws c = wid sv \<and> cv_status c = DraftConfig) (configurations s)"

definition find_simulation :: "service \<Rightarrow> ident \<Rightarrow> ident \<Rightarrow> db \<Rightarrow> simulation option" where
  "find_simulation sv i config s =
     find (\<lambda>m. sm_id m = i \<and> sm_ws m = wid sv \<and> sm_config m = config) (simulations s)"

definition open_config_task :: "service \<Rightarrow> db \<Rightarrow> review_task option" where
  "open_config_task sv s =
     find (\<lambda>t. rt_ws t = wid sv \<and> rt_kind t = ConfigurationApproval \<and> rt_status t = OpenTask) (tasks s)"

definition config_payload_json :: "config_payload \<Rightarrow> json" where
  "config_payload_json c = JObj
     [(''config_id'', JStr (cp_config c)), (''config_version'', JInt (cp_version c)),
      (''checksum'', JStr (cp_checksum c)), (''simulation_id'', JStr (cp_simulation c)),
      (''data_checkpoint'', JInt (cp_checkpoint c)), (''impact'', JObj (cp_impact c))]"

definition config_task :: "runtime \<Rightarrow> service \<Rightarrow> configuration \<Rightarrow> simulation \<Rightarrow> db \<Rightarrow> review_task" where
  "config_task R sv config sim s =
     \<lparr>rt_id = next_id R s, rt_ws = wid sv, rt_kind = ConfigurationApproval, rt_entity = None,
      rt_status = OpenTask, rt_priority = ''high'', rt_assignee = None, rt_proposed_by = subject sv,
      rt_payload = ConfigPayload
        \<lparr>cp_config = cv_id config, cp_version = cv_version config, cp_checksum = cv_checksum config,
         cp_simulation = sm_id sim, cp_checkpoint = sm_checkpoint sim, cp_impact = sm_result sim\<rparr>,
      rt_bound = None, rt_sensitive = True, rt_reason = None, rt_decided_by = None,
      rt_due = Some (next_time R s + two_days)\<rparr>"

definition payload_json :: "payload \<Rightarrow> json" where
  "payload_json p = (case p of ConfigPayload c \<Rightarrow> config_payload_json c | _ \<Rightarrow> JNull)"

definition propose_config :: "runtime \<Rightarrow> service \<Rightarrow> ident \<Rightarrow> ident \<Rightarrow> review_task op" where
  "propose_config R sv i simulation_id s =
     bind_res (from_option (HTTPException 404 ''configuration_draft_not_found'')
       (find_draft_config sv i s)) (\<lambda>config.
     bind_res (from_option (HTTPException 409 ''matching_simulation_required'')
       (find_simulation sv simulation_id i s)) (\<lambda>sim.
     bind_res (guard_res (fresh_simulation R sv sim s) (HTTPException 409 ''stale_simulation'')) (\<lambda>_.
     let s1 = mark_stale ''Superseded by a newer configuration proposal'' (open_config_task sv s) s;
         task = config_task R sv config sim s1
     in Inr (task, audit R sv ''configuration.proposed'' ''review_task'' (rt_id task)
          (payload_json (rt_payload task)) (add_task task s1)))))"

section \<open>What a simulation reports\<close>

lemma map_filter_id_Nil: "(\<And>x. x \<in> set xs \<Longrightarrow> x = None) \<Longrightarrow> List.map_filter id xs = []"
  unfolding List.map_filter_def by (simp add: filter_empty_conv)

lemma set_map_filter_id: "x \<in> set (List.map_filter id xs) \<longleftrightarrow> Some x \<in> set xs"
  by (induction xs) (auto simp: map_filter_simps split: option.splits)

lemma simulate_policy_cases:
  assumes "simulate_policy R sv domain prop s = Inr c" "compile_policy R (dm_definition domain) = Inr cur"
  shows "\<exists>vs ms. link_changes R sv cur prop s (active_objects sv (dm_key domain) s) = Inr (pc_links c) \<and>
    map_res (validation_change_of R cur prop s) (active_objects sv (dm_key domain) s) = Inr vs \<and>
    map_res (master_change_of R sv cur prop s) (live_entities sv (dm_key domain) s) = Inr ms \<and>
    pc_masters c = List.map_filter id ms \<and> pc_validation c = List.map_filter id vs \<and>
    pc_delta c = review_delta (pc_links c)"
  using assms by (auto simp: simulate_policy_def res_elim Let_def)

lemma master_values_from_records:
  assumes "master_values R sv en p s = Inr (vals, prov)" "(k, v) \<in> set vals"
  shows "\<exists>r \<in> set (records s). v = dget (sr_original r) k"
proof -
  let ?rs = "current_records sv en s"
  from assms(1) obtain outs where
    outs: "map_res (surviving R p (sources s) ?rs) (record_fields ?rs) = Inr outs"
    and vals: "vals = map (\<lambda>(f, v, _). (f, v)) (List.map_filter id outs)"
    unfolding master_values_def Let_def bind_res_Inr by auto
  from assms(2) obtain pr where "Some (k, v, pr) \<in> set outs"
    unfolding vals by (auto simp: set_map_filter_id)
  from map_res_mem [OF outs this] obtain f
    where f: "surviving R p (sources s) ?rs f = Inr (Some (k, v, pr))" by blast
  from surviving_winner [OF f] show ?thesis by (auto simp: current_records_mem)
qed

lemma wf_dget: "wf_json (JObj d) \<Longrightarrow> wf_json (dget d k)"
  by (auto simp: dget_def list_all_iff split: option.splits dest!: map_of_SomeD)

text \<open>The stored normal forms are those of the policy.\<close>

definition normalized_by :: "runtime \<Rightarrow> compiled_policy \<Rightarrow> source_record \<Rightarrow> bool" where
  "normalized_by R p r \<longleftrightarrow> normalize R p (sr_original r) = Inr (sr_normalized r)"

lemma object_record_mem: "object_record s b = Inr r \<Longrightarrow> r \<in> set (records s)"
  by (auto simp: object_record_def res_elim bind_eq_Some_conv dest: row_get_mem)

lemma pair_results_same:
  assumes "pair_results R sv p p s (l, r) = Inr (Some (m, n))"
    and "\<And>r. r \<in> set (records s) \<Longrightarrow> normalized_by R p r"
  shows "m = n"
proof -
  from assms(1) obtain a b where a: "object_record s l = Inr a" and b: "object_record s r = Inr b"
    and rest: "bind_res (share_block R p a b) (\<lambda>now. bind_res (share_block R p a b) (\<lambda>later.
     if \<not> now \<and> \<not> later then Inr None
     else
       bind_res (compare_records R p (sr_normalized a) (sr_normalized b)) (\<lambda>m.
       bind_res (normalize R p (sr_original a)) (\<lambda>nl.
       bind_res (normalize R p (sr_original b)) (\<lambda>nr.
       bind_res (compare_records R p nl nr) (\<lambda>n.
       let banned = is_cannot_link sv (ob_id l) (ob_id r) s
       in Inr (Some (keep_apart banned m, keep_apart banned n)))))))) = Inr (Some (m, n))"
    by (auto simp: pair_results_def bind_res_Inr)
  have "normalize R p (sr_original a) = Inr (sr_normalized a)"
    "normalize R p (sr_original b) = Inr (sr_normalized b)"
    using assms(2) object_record_mem [OF a] object_record_mem [OF b] by (auto simp: normalized_by_def)
  with rest show ?thesis by (auto simp: bind_res_Inr Let_def split: if_splits)
qed

lemma map_res_bind:
  "map_res (\<lambda>x. bind_res (f x) (\<lambda>y. Inr (g x y))) xs = Inr zs \<Longrightarrow>
   \<exists>ys. map_res f xs = Inr ys \<and> zs = map2 g xs ys"
proof (induction xs arbitrary: zs)
  case Nil
  then show ?case by simp
next
  case (Cons x xs)
  then obtain y us where "f x = Inr y" "zs = g x y # us"
    "map_res (\<lambda>x. bind_res (f x) (\<lambda>y. Inr (g x y))) xs = Inr us"
    by (auto simp: bind_res_Inr)
  with Cons.IH show ?case by (fastforce simp: bind_res_Inr)
qed

lemma link_changes_Inr:
  assumes "link_changes R sv cur prop s bs = Inr cs"
  shows "\<exists>outs. map_res (pair_results R sv cur prop s) (pairs bs) = Inr outs \<and>
    cs = List.map_filter id (map2 link_change_of (pairs bs) outs)"
proof -
  from assms obtain zs where z: "map_res (\<lambda>lr. bind_res (pair_results R sv cur prop s lr)
      (\<lambda>x. Inr (link_change_of lr x))) (pairs bs) = Inr zs" "cs = List.map_filter id zs"
    unfolding link_changes_def bind_res_Inr by auto
  from map_res_bind [OF z(1)] z(2) show ?thesis by auto
qed

text \<open>The results of the pairs that were compared, in order.\<close>

definition compared ::
    "runtime \<Rightarrow> service \<Rightarrow> compiled_policy \<Rightarrow> compiled_policy \<Rightarrow> db \<Rightarrow> source_object list \<Rightarrow>
     (match_result \<times> match_result) list" where
  "compared R sv cur prop s bs =
     List.map_filter id (map (\<lambda>lr. case pair_results R sv cur prop s lr of Inr x \<Rightarrow> x | Inl _ \<Rightarrow> None) (pairs bs))"

definition in_review :: "match_result list \<Rightarrow> int" where
  "in_review ms = int (length (filter (\<lambda>m. match_decision m = Review) ms))"

lemma review_delta_compared:
  assumes "link_changes R sv cur prop s bs = Inr cs"
  shows "review_delta cs =
    in_review (map snd (compared R sv cur prop s bs)) - in_review (map fst (compared R sv cur prop s bs))"
proof -
  from link_changes_Inr [OF assms] obtain outs where
    outs: "map_res (pair_results R sv cur prop s) (pairs bs) = Inr outs" and
    cs: "cs = List.map_filter id (map2 link_change_of (pairs bs) outs)" by blast
  have "map (\<lambda>lr. case pair_results R sv cur prop s lr of Inr x \<Rightarrow> x | Inl _ \<Rightarrow> None) (pairs bs) = outs"
    using map_res_projr [OF outs] by (auto split: sum.splits)
  then have c: "compared R sv cur prop s bs = List.map_filter id outs" by (simp add: compared_def)
  have "review_delta (List.map_filter id (map2 link_change_of ps os)) =
      in_review (map snd (List.map_filter id os)) - in_review (map fst (List.map_filter id os))"
    if "length ps = length os" for ps os
    using that
  proof (induction ps os rule: list_induct2)
    case Nil
    then show ?case by (simp add: review_delta_def in_review_def map_filter_simps)
  next
    case (Cons p ps out outs)
    then show ?case
      by (cases out; cases p)
        (auto simp: map_filter_simps link_change_of_def review_delta_def in_review_def review_step_def)
  qed
  with map_res_length [OF outs] show ?thesis by (simp add: c cs)
qed

lemma link_changes_mem:
  assumes "link_changes R sv cur prop s bs = Inr cs"
  shows "ch \<in> set cs \<longleftrightarrow> (\<exists>(l, r) \<in> set (pairs bs). \<exists>m n.
    pair_results R sv cur prop s (l, r) = Inr (Some (m, n)) \<and> match_decision m \<noteq> match_decision n \<and>
    ch = \<lparr>lc_left = ob_id l, lc_right = ob_id r, lc_current = m, lc_proposed = n\<rparr>)"
proof -
  from link_changes_Inr [OF assms] obtain outs where
    outs: "map_res (pair_results R sv cur prop s) (pairs bs) = Inr outs" and
    cs: "cs = List.map_filter id (map2 link_change_of (pairs bs) outs)" by blast
  have total: "\<And>lr. lr \<in> set (pairs bs) \<Longrightarrow> pair_results R sv cur prop s lr = Inr (projr (pair_results R sv cur prop s lr))"
    and o2: "outs = map (\<lambda>lr. projr (pair_results R sv cur prop s lr)) (pairs bs)"
    using map_res_projr [OF outs] by fastforce+
  have "ch \<in> set cs \<longleftrightarrow> (\<exists>lr \<in> set (pairs bs). link_change_of lr (projr (pair_results R sv cur prop s lr)) = Some ch)"
  proof -
    have "map2 link_change_of ps (map g ps) = map (\<lambda>x. link_change_of x (g x)) ps" for ps g
      by (induction ps) auto
    then show ?thesis unfolding cs set_map_filter_id o2 by (simp add: image_iff eq_commute [of "Some ch"])
  qed
  also have "\<dots> \<longleftrightarrow> (\<exists>lr \<in> set (pairs bs). \<exists>x. pair_results R sv cur prop s lr = Inr x \<and> link_change_of lr x = Some ch)"
    using total by (metis sum.sel(2))
  finally show ?thesis
    by (fastforce simp: link_change_of_def split: option.splits if_splits prod.splits)
qed

section \<open>Properties\<close>

text \<open>
  Simulating the policy already in force reports no change at all - no link, no mastered
  attribute, no validation outcome, no review work - provided the stored normal forms are those of
  that policy and the stored documents are proper dicts.
\<close>

theorem simulating_the_policy_in_force_changes_nothing:
  assumes "compile_policy R (dm_definition domain) = Inr p" "simulate_policy R sv domain p s = Inr c"
    and "\<And>r. r \<in> set (records s) \<Longrightarrow> normalized_by R p r \<and> wf_json (JObj (sr_original r))"
  shows "pc_links c = [] \<and> pc_masters c = [] \<and> pc_validation c = [] \<and> pc_delta c = 0"
proof -
  from simulate_policy_cases [OF assms(2,1)] obtain vs ms where
    l: "link_changes R sv p p s (active_objects sv (dm_key domain) s) = Inr (pc_links c)" and
    v: "map_res (validation_change_of R p p s) (active_objects sv (dm_key domain) s) = Inr vs"
      "pc_validation c = List.map_filter id vs" and
    m: "map_res (master_change_of R sv p p s) (live_entities sv (dm_key domain) s) = Inr ms"
      "pc_masters c = List.map_filter id ms" and d: "pc_delta c = review_delta (pc_links c)" by blast
  have "ch \<notin> set (pc_links c)" for ch
    using pair_results_same [of R sv p s] assms(3) by (fastforce simp: link_changes_mem [OF l])
  then have links: "pc_links c = []" by (cases "pc_links c") auto
  have "pc_validation c = []"
    unfolding v(2)
  proof (rule map_filter_id_Nil)
    fix x assume "x \<in> set vs"
    from map_res_mem [OF v(1) this] show "x = None" by (auto simp: validation_change_of_def res_elim)
  qed
  moreover have "pc_masters c = []"
    unfolding m(2)
  proof (rule map_filter_id_Nil)
    fix x assume "x \<in> set ms"
    from map_res_mem [OF m(1) this] obtain e where e: "master_change_of R sv p p s e = Inr x" by blast
    then obtain vals prov where mv: "master_values R sv (en_id e) p s = Inr (vals, prov)"
      by (auto simp: master_change_of_def res_elim)
    have "py_eq (dget vals k) (dget vals k)" for k
    proof (cases "map_of vals k")
      case None
      then show ?thesis by (simp add: dget_def)
    next
      case (Some w)
      from master_values_from_records [OF mv map_of_SomeD [OF Some]] obtain r where
        "r \<in> set (records s)" "w = dget (sr_original r) k" by blast
      then have "wf_json w" using assms(3) wf_dget by metis
      with Some show ?thesis by (simp add: dget_def py_eq_refl)
    qed
    then have "attribute_changes vals vals prov = []" by (simp add: attribute_changes_def filter_empty_conv)
    with e mv show "x = None" by (simp add: master_change_of_def Let_def)
  qed
  ultimately show ?thesis using links d by (simp add: review_delta_def)
qed

text \<open>
  C16. A simulation lists exactly the pairs of active objects that were compared under both
  policies and got different decisions (a banned pair counts as kept separate under both), and the
  change it predicts for the review queue is the number of compared pairs in review under the
  proposed policy less the number under the current one.
\<close>

theorem simulation_reports_every_changed_decision:
  assumes "compile_policy R (dm_definition domain) = Inr cur" "simulate_policy R sv domain prop s = Inr c"
  shows "(ch \<in> set (pc_links c) \<longleftrightarrow>
      (\<exists>(l, r) \<in> set (pairs (active_objects sv (dm_key domain) s)). \<exists>m n.
         pair_results R sv cur prop s (l, r) = Inr (Some (m, n)) \<and> match_decision m \<noteq> match_decision n \<and>
         ch = \<lparr>lc_left = ob_id l, lc_right = ob_id r, lc_current = m, lc_proposed = n\<rparr>)) \<and>
    pc_delta c =
      in_review (map snd (compared R sv cur prop s (active_objects sv (dm_key domain) s))) -
      in_review (map fst (compared R sv cur prop s (active_objects sv (dm_key domain) s)))"
proof -
  from simulate_policy_cases [OF assms(2,1)] have
    l: "link_changes R sv cur prop s (active_objects sv (dm_key domain) s) = Inr (pc_links c)" and
    d: "pc_delta c = review_delta (pc_links c)" by blast+
  show ?thesis using link_changes_mem [OF l] review_delta_compared [OF l] d by simp
qed

section \<open>Witnesses\<close>

definition pair_of_suppliers :: db where
  "pair_of_suppliers = match_db\<lparr>domains := [demo_domain], entities := [],
     objects := [demo_object ''o1'' ''r1'' ''s1'', demo_object ''o2'' ''r2'' ''s1'']\<rparr>"

lemma tax_definition_works:
  "\<exists>p k. compile_policy ascii_runtime tax_definition = Inr p \<and> identifiers p = identifiers tax_policy \<and>
    algorithm p = algorithm tax_policy \<and> comparisons p = comparisons tax_policy \<and>
    normalize ascii_runtime p (named ''a'' ''1'') = Inr (named ''a'' ''1'') \<and>
    validate ascii_runtime p (named ''a'' ''1'') = Inr [] \<and>
    blocking_keys ascii_runtime p (named ''a'' ''1'') = Inr [k]"
proof -
  let ?works = "\<lambda>p. identifiers p = identifiers tax_policy \<and>
    algorithm p = algorithm tax_policy \<and> comparisons p = comparisons tax_policy \<and>
    normalize ascii_runtime p (named ''a'' ''1'') = Inr (named ''a'' ''1'') \<and>
    validate ascii_runtime p (named ''a'' ''1'') = Inr [] \<and>
    (case blocking_keys ascii_runtime p (named ''a'' ''1'') of Inr [k] \<Rightarrow> True | _ \<Rightarrow> False)"
  have "case compile_document ascii_runtime tax_definition of Inr p \<Rightarrow> ?works p | Inl _ \<Rightarrow> False"
    by code_simp
  then obtain p where p: "compile_document ascii_runtime tax_definition = Inr p" and w: "?works p"
    by (cases "compile_document ascii_runtime tax_definition") auto
  let ?q = "p\<lparr>checksum := canonical_hash ascii_runtime (policy_document p)\<rparr>"
  have "normalize R ?q d = normalize R p d" "validate R ?q d = validate R p d"
    "blocking_keys R ?q d = blocking_keys R p d" for R d
    by (simp_all add: normalize_def attribute_of_def validate_def blocking_keys_def)
  with p w show ?thesis
    by (auto simp: compile_policy_def split: sum.splits list.splits)
qed

lemma suppliers_simulated:
  "\<exists>p c m. compile_policy ascii_runtime (dm_definition demo_domain) = Inr p \<and>
    simulate_policy ascii_runtime demo_service demo_domain p pair_of_suppliers = Inr c \<and>
    (\<forall>r \<in> set (records pair_of_suppliers). normalized_by ascii_runtime p r \<and> wf_json (JObj (sr_original r))) \<and>
    pairs (active_objects demo_service (dm_key demo_domain) pair_of_suppliers) =
      [(demo_object ''o1'' ''r1'' ''s1'', demo_object ''o2'' ''r2'' ''s1'')] \<and>
    pair_results ascii_runtime demo_service p p pair_of_suppliers
      (demo_object ''o1'' ''r1'' ''s1'', demo_object ''o2'' ''r2'' ''s1'') = Inr (Some (m, m))"
proof -
  obtain p k where p: "compile_policy ascii_runtime tax_definition = Inr p"
    "identifiers p = identifiers tax_policy" "algorithm p = algorithm tax_policy"
    "comparisons p = comparisons tax_policy"
    and w: "normalize ascii_runtime p (named ''a'' ''1'') = Inr (named ''a'' ''1'')"
    "validate ascii_runtime p (named ''a'' ''1'') = Inr []"
    "blocking_keys ascii_runtime p (named ''a'' ''1'') = Inr [k]"
    using tax_definition_works by blast
  obtain m where m: "compare_records ascii_runtime p (named ''a'' ''1'') (named ''a'' ''1'') = Inr m"
    using tax_twin_compiled [OF p(2-4)] by blast
  let ?a = "demo_object ''o1'' ''r1'' ''s1''" and ?b = "demo_object ''o2'' ''r2'' ''s1''"
  have objs: "active_objects demo_service ''supplier'' pair_of_suppliers = [?a, ?b]"
    by (simp add: active_objects_def pair_of_suppliers_def) (simp add: demo_object_def demo_service_def)
  have recs: "object_record pair_of_suppliers ?a = Inr (tax_record ''r1'')"
    "object_record pair_of_suppliers ?b = Inr (tax_record ''r2'')"
    by (simp_all add: object_record_def pair_of_suppliers_def match_db_def row_get_def demo_object_def tax_record_def)
  have fields: "sr_original (tax_record i) = named ''a'' ''1''" "sr_normalized (tax_record i) = named ''a'' ''1''"
    for i by (simp_all add: tax_record_def)
  have free: "\<not> is_cannot_link demo_service i j pair_of_suppliers" for i j
    by (simp add: is_cannot_link_def pair_of_suppliers_def match_db_def empty_db_def split: prod.split)
  have pair: "pair_results ascii_runtime demo_service p p pair_of_suppliers (?a, ?b) = Inr (Some (m, m))"
    by (simp add: pair_results_def recs share_block_def fields w m keep_apart_def free)
  have dom: "dm_definition demo_domain = tax_definition" "dm_key demo_domain = ''supplier''"
    by (simp_all add: demo_domain_def)
  have live: "live_entities demo_service ''supplier'' pair_of_suppliers = []"
    by (simp add: live_entities_def pair_of_suppliers_def)
  have links: "link_changes ascii_runtime demo_service p p pair_of_suppliers [?a, ?b] = Inr []"
    by (simp add: link_changes_def pair link_change_of_def map_filter_simps)
  have "\<exists>c. simulate_policy ascii_runtime demo_service demo_domain p pair_of_suppliers = Inr c"
    by (simp add: simulate_policy_def dom p(1) objs links live validation_change_of_def recs fields w)
  moreover have "\<forall>r \<in> set (records pair_of_suppliers). normalized_by ascii_runtime p r \<and> wf_json (JObj (sr_original r))"
  proof -
    have "wf_json (JObj (named ''a'' ''1''))" by (simp add: named_def)
    then show ?thesis
      by (simp add: pair_of_suppliers_def match_db_def normalized_by_def fields w del: wf_json.simps)
  qed
  ultimately show ?thesis using p(1) pair objs by (auto simp: dom)
qed

theorem simulating_the_policy_in_force_changes_nothing_witness:
  "\<exists>p c. compile_policy ascii_runtime (dm_definition demo_domain) = Inr p \<and>
    simulate_policy ascii_runtime demo_service demo_domain p pair_of_suppliers = Inr c \<and> pc_links c = []"
proof -
  from suppliers_simulated obtain p c where
    p: "compile_policy ascii_runtime (dm_definition demo_domain) = Inr p" and
    c: "simulate_policy ascii_runtime demo_service demo_domain p pair_of_suppliers = Inr c" and
    r: "\<forall>r \<in> set (records pair_of_suppliers). normalized_by ascii_runtime p r \<and> wf_json (JObj (sr_original r))"
    by blast
  from simulating_the_policy_in_force_changes_nothing [OF p c bspec [OF r]] p c show ?thesis by blast
qed

theorem simulation_reports_every_changed_decision_witness:
  "\<exists>p c. simulate_policy ascii_runtime demo_service demo_domain p pair_of_suppliers = Inr c \<and>
    compared ascii_runtime demo_service p p pair_of_suppliers
      (active_objects demo_service (dm_key demo_domain) pair_of_suppliers) \<noteq> [] \<and> pc_delta c = 0"
proof -
  from suppliers_simulated obtain p c m where
    p: "compile_policy ascii_runtime (dm_definition demo_domain) = Inr p" and
    c: "simulate_policy ascii_runtime demo_service demo_domain p pair_of_suppliers = Inr c" and
    prs: "pairs (active_objects demo_service (dm_key demo_domain) pair_of_suppliers) =
      [(demo_object ''o1'' ''r1'' ''s1'', demo_object ''o2'' ''r2'' ''s1'')]" and
    m: "pair_results ascii_runtime demo_service p p pair_of_suppliers
      (demo_object ''o1'' ''r1'' ''s1'', demo_object ''o2'' ''r2'' ''s1'') = Inr (Some (m, m))" by blast
  have l: "compared ascii_runtime demo_service p p pair_of_suppliers
      (active_objects demo_service (dm_key demo_domain) pair_of_suppliers) = [(m, m)]"
    by (simp add: compared_def prs m map_filter_simps)
  have "pc_delta c = 0"
    using simulation_reports_every_changed_decision [OF p c, THEN conjunct2] by (simp add: l)
  with c l show ?thesis by (intro exI [of _ p] exI [of _ c]) simp
qed

text \<open>
  The proposed policy's blocks are computed from the normal forms the current policy stored. When
  only the proposed normalisation brings two records into one block, the pair is not compared and
  the link it would get is not predicted.
\<close>

lemma simulation_blocks_on_stored_normal_forms:
  assumes "object_record s l = Inr a" "object_record s r = Inr b"
    and "share_block R cur a b = Inr False" "share_block R prop a b = Inr False"
  shows "pair_results R sv cur prop s (l, r) = Inr None"
  using assms by (simp add: pair_results_def)

end
