(* ===== verification/Review.thy ===== *)
theory Review
  imports Simulation
begin

text \<open>
  Review decisions (\<open>decide_task\<close>): the checks in their order, the effect of each kind of task,
  and the closing of the task. A decision either commits, raises and is rolled back, or (a stale
  approval) commits the task's new status and raises; \<open>decide_task\<close> returns both the result and
  the database that is left.
\<close>

section \<open>Checks\<close>

datatype verdict = Approve | Reject | KeepThemSeparate | LinkThem

definition verdict_name :: "verdict \<Rightarrow> string" where
  "verdict_name v = (case v of Approve \<Rightarrow> ''approve'' | Reject \<Rightarrow> ''reject''
     | KeepThemSeparate \<Rightarrow> ''keep_separate'' | LinkThem \<Rightarrow> ''link'')"

definition allowed_decisions :: "task_kind \<Rightarrow> verdict list" where
  "allowed_decisions k =
     (case k of DuplicateMatch \<Rightarrow> [LinkThem, KeepThemSeparate, Reject]
      | DownstreamRepair \<Rightarrow> []
      | _ \<Rightarrow> [Approve, Reject])"

definition find_task :: "service \<Rightarrow> ident \<Rightarrow> db \<Rightarrow> review_task option" where
  "find_task sv i s = find (\<lambda>t. rt_id t = i \<and> rt_ws t = wid sv) (tasks s)"

definition reviewed_entity :: "service \<Rightarrow> review_task \<Rightarrow> db \<Rightarrow> entity option" where
  "reviewed_entity sv t s =
     Option.bind (rt_entity t) (\<lambda>i. find (\<lambda>e. en_id e = i \<and> en_ws e = wid sv) (entities s))"

definition stale_approval :: "service \<Rightarrow> review_task \<Rightarrow> db \<Rightarrow> bool" where
  "stale_approval sv t s =
     (case reviewed_entity sv t s of None \<Rightarrow> False | Some e \<Rightarrow> rt_bound t \<noteq> Some (en_version e))"

definition own_proposal :: "service \<Rightarrow> review_task \<Rightarrow> bool" where
  "own_proposal sv t \<longleftrightarrow> rt_sensitive t \<and> rt_proposed_by t = subject sv"

definition modify_task :: "ident \<Rightarrow> (review_task \<Rightarrow> review_task) \<Rightarrow> db \<Rightarrow> db" where
  "modify_task i f s = s\<lparr>tasks := row_modify rt_id i f (tasks s)\<rparr>"

definition expire :: "review_task \<Rightarrow> review_task" where
  "expire t = t\<lparr>rt_status := StaleTask\<rparr>"

section \<open>Keeping two objects apart\<close>

definition ban ::
    "runtime \<Rightarrow> service \<Rightarrow> ident \<Rightarrow> ident \<Rightarrow> string \<Rightarrow> string \<Rightarrow> link_ban list \<Rightarrow> db \<Rightarrow> link_ban res" where
  "ban R sv a b reason table bans s =
     (let (left, right) = sorted_pair a b in
      bind_res (guard_res (\<not> (\<exists>l \<in> set bans. lb_ws l = wid sv \<and> lb_left l = left \<and> lb_right l = right))
        (IntegrityError table)) (\<lambda>_.
      Inr \<lparr>lb_id = next_id R s, lb_ws = wid sv, lb_left = left, lb_right = right, lb_reason = reason,
           lb_by = subject sv\<rparr>))"

definition keep_separate :: "runtime \<Rightarrow> service \<Rightarrow> match_payload \<Rightarrow> string \<Rightarrow> db \<Rightarrow> db res" where
  "keep_separate R sv mp reason s =
     (if truthy_str (mp_left_object mp) \<and> truthy_str (mp_right_object mp)
      then bind_res (ban R sv (the (mp_left_object mp)) (the (mp_right_object mp)) reason
             ''source_object_cannot_links'' (object_bans s) s)
           (\<lambda>l. Inr (s\<lparr>object_bans := row_add l (object_bans s), ticks := Suc (ticks s)\<rparr>))
      else bind_res (ban R sv (mp_left_record mp) (mp_right_record mp) reason
             ''cannot_links'' (record_bans s) s)
           (\<lambda>l. Inr (s\<lparr>record_bans := row_add l (record_bans s), ticks := Suc (ticks s)\<rparr>)))"

section \<open>Approving a mastered record\<close>

definition find_draft :: "ident option \<Rightarrow> int \<Rightarrow> db \<Rightarrow> master_version option" where
  "find_draft en v s =
     find (\<lambda>m. Some (mv_entity m) = en \<and> mv_version m = v \<and> mv_status m = DraftMaster) (masters s)"

definition approve_version :: "service \<Rightarrow> string \<Rightarrow> master_version \<Rightarrow> master_version" where
  "approve_version sv reason m =
     m\<lparr>mv_status := ApprovedMaster, mv_approved_by := Some (subject sv), mv_reason := Some reason\<rparr>"

definition approve_master ::
    "runtime \<Rightarrow> service \<Rightarrow> review_task \<Rightarrow> int \<Rightarrow> string \<Rightarrow> db \<Rightarrow> db res" where
  "approve_master R sv t v reason s =
     bind_res (from_option (HTTPException 409 ''draft_unavailable'') (find_draft (rt_entity t) v s)) (\<lambda>draft.
     bind_res (from_option (PyError ''AttributeError'') (reviewed_entity sv t s)) (\<lambda>e.
     let s1 = s\<lparr>masters := row_modify mv_id (mv_id draft) (approve_version sv reason) (masters s)\<rparr>;
         s2 = modify_entity (en_id e) (set_status ApprovedEntity) s1
     in Inr (snd (add_event R sv (en_id e) (mv_version draft) ''master.approved''
          (\<lambda>i tm. [(''event_id'', JStr i), (''workspace_id'', JStr (wid sv)),
                   (''entity_id'', JStr (en_id e)), (''entity_version'', JInt (mv_version draft)),
                   (''origin'', JStr ''recordlane''), (''values'', JObj (mv_values draft)),
                   (''occurred_at'', JStr (isoformat R tm)), (''schema_version'', JStr ''1.0'')]) s2))))"

section \<open>Activating a configuration\<close>

definition set_config_status :: "config_status \<Rightarrow> configuration \<Rightarrow> configuration" where
  "set_config_status st c = c\<lparr>cv_status := st\<rparr>"

definition activate :: "service \<Rightarrow> ident \<Rightarrow> db \<Rightarrow> db" where
  "activate sv i s =
     s\<lparr>configurations := row_modify cv_id i (set_config_status ActiveConfig)
        (update_rows (\<lambda>c. cv_ws c = wid sv \<and> cv_status c = ActiveConfig)
          (set_config_status RetiredConfig) (configurations s))\<rparr>"

definition remaster_job :: "runtime \<Rightarrow> service \<Rightarrow> domain_row \<Rightarrow> compiled_policy \<Rightarrow> ident \<Rightarrow> db \<Rightarrow> job" where
  "remaster_job R sv domain p config s =
     \<lparr>jb_id = next_id R s, jb_ws = wid sv, jb_kind = ''remaster_domain'',
      jb_payload = [(''domain_key'', JStr (dm_key domain)), (''policy_checksum'', JStr (checksum p)),
                    (''configuration_id'', JStr config)],
      jb_status = JobQueued, jb_attempts = 0, jb_owner = None, jb_lease = 0, jb_expires = None,
      jb_cancel = False, jb_error = None, jb_created = next_time R s\<rparr>"

definition install_policy ::
    "runtime \<Rightarrow> service \<Rightarrow> ident \<Rightarrow> string \<times> compiled_policy \<Rightarrow> ident list \<times> db \<Rightarrow> (ident list \<times> db) res" where
  "install_policy R sv config kp st = (case (kp, st) of ((key, p), (ids, s)) \<Rightarrow>
     bind_res (from_option (HTTPException 409 ''configuration_domain_missing'') (find_domain sv key s)) (\<lambda>d.
     let s1 = s\<lparr>domains := row_modify dm_id (dm_id d)
           (\<lambda>d. d\<lparr>dm_definition := stored_definition p, dm_schema_version := dm_schema_version d + 1\<rparr>)
           (domains s)\<rparr>;
         j = remaster_job R sv d p config s1
     in Inr (ids @ [jb_id j], s1\<lparr>jobs := row_add j (jobs s1), ticks := Suc (ticks s1)\<rparr>)))"

definition bound_config ::
    "service \<Rightarrow> config_payload \<Rightarrow> db \<Rightarrow> (configuration \<times> simulation) option" where
  "bound_config sv cp s =
     (case (find_draft_config sv (cp_config cp) s, find_simulation sv (cp_simulation cp) (cp_config cp) s) of
        (Some c, Some m) \<Rightarrow> if cv_checksum c = cp_checksum cp then Some (c, m) else None
      | _ \<Rightarrow> None)"

definition activate_config :: "runtime \<Rightarrow> service \<Rightarrow> config_payload \<Rightarrow> db \<Rightarrow> db res" where
  "activate_config R sv cp s =
     bind_res (from_option (HTTPException 409 ''configuration_changed'') (bound_config sv cp s)) (\<lambda>(config, sim).
     let s1 = activate sv (cv_id config) s in
     bind_res (configuration_policies R sv (cv_document config) s1) (\<lambda>ps.
     bind_res (fold_res (install_policy R sv (cv_id config)) ps ([], s1)) (\<lambda>(ids, s2).
     Inr (audit R sv ''configuration.activated'' ''configuration'' (cv_id config)
       (JObj [(''version'', JInt (cv_version config)), (''checksum'', JStr (cv_checksum config)),
              (''simulation_id'', JStr (sm_id sim)), (''data_checkpoint'', JInt (record_count sv s)),
              (''remaster_jobs'', JList (map JStr ids))]) s2))))"

definition stale_simulation :: "runtime \<Rightarrow> service \<Rightarrow> review_task \<Rightarrow> verdict \<Rightarrow> db \<Rightarrow> bool" where
  "stale_simulation R sv t v s =
     (case (rt_kind t, v, rt_payload t) of
        (ConfigurationApproval, Approve, ConfigPayload cp) \<Rightarrow>
          (case bound_config sv cp s of None \<Rightarrow> False | Some (_, sim) \<Rightarrow> \<not> fresh_simulation R sv sim s)
      | _ \<Rightarrow> False)"

section \<open>The decision\<close>

text \<open>The payload belongs to the kind; another shape is a missing key.\<close>

definition decision_effect ::
    "runtime \<Rightarrow> service \<Rightarrow> review_task \<Rightarrow> verdict \<Rightarrow> string \<Rightarrow> db \<Rightarrow> db res" where
  "decision_effect R sv t v reason s =
     (case (rt_kind t, v) of
        (DuplicateMatch, LinkThem) \<Rightarrow> (case rt_payload t of
            MatchPayload mp \<Rightarrow> link_match R sv (rt_entity t) mp s
          | _ \<Rightarrow> Inl (PyError ''KeyError''))
      | (DuplicateMatch, _) \<Rightarrow> (case rt_payload t of
            MatchPayload mp \<Rightarrow> keep_separate R sv mp reason s
          | _ \<Rightarrow> Inl (PyError ''KeyError''))
      | (MasterApproval, Approve) \<Rightarrow> (case rt_payload t of
            MasterPayload n _ _ \<Rightarrow> approve_master R sv t n reason s
          | _ \<Rightarrow> Inl (PyError ''KeyError''))
      | (ConfigurationApproval, Approve) \<Rightarrow> (case rt_payload t of
            ConfigPayload cp \<Rightarrow> activate_config R sv cp s
          | _ \<Rightarrow> Inl (PyError ''KeyError''))
      | (MergeApproval, Approve) \<Rightarrow> (case rt_payload t of
            MergePayload g \<Rightarrow> apply_merge R sv g reason s
          | _ \<Rightarrow> Inl (PyError ''KeyError''))
      | (SplitApproval, Approve) \<Rightarrow> (case rt_payload t of
            SplitPayload lp \<Rightarrow> apply_split R sv (rt_id t) (rt_entity t) lp reason s
          | _ \<Rightarrow> Inl (PyError ''KeyError''))
      | _ \<Rightarrow> Inr s)"

definition closed_by :: "service \<Rightarrow> verdict \<Rightarrow> string \<Rightarrow> review_task \<Rightarrow> review_task" where
  "closed_by sv v reason t =
     t\<lparr>rt_status := (if v = Approve \<or> v = LinkThem then ApprovedTask else RejectedTask),
       rt_reason := Some reason, rt_decided_by := Some (subject sv)\<rparr>"

definition settle ::
    "runtime \<Rightarrow> service \<Rightarrow> review_task \<Rightarrow> verdict \<Rightarrow> string \<Rightarrow> db \<Rightarrow> (review_task \<times> db) res" where
  "settle R sv t v reason s =
     bind_res (decision_effect R sv t v reason s) (\<lambda>s1.
     Inr (closed_by sv v reason t,
          audit R sv (''review.'' @ verdict_name v) ''review_task'' (rt_id t)
            (JObj [(''reason'', JStr reason)])
            (modify_task (rt_id t) (closed_by sv v reason) s1)))"

definition decide_task ::
    "runtime \<Rightarrow> service \<Rightarrow> ident \<Rightarrow> verdict \<Rightarrow> string \<Rightarrow> db \<Rightarrow> review_task res \<times> db" where
  "decide_task R sv i v reason s =
     (case find_task sv i s of
        None \<Rightarrow> (Inl (HTTPException 404 ''task_not_found''), s)
      | Some t \<Rightarrow>
          if rt_status t \<noteq> OpenTask then (Inl (HTTPException 409 ''task_not_open''), s)
          else if v \<notin> set (allowed_decisions (rt_kind t))
            then (Inl (HTTPException 409 ''invalid_task_decision''), s)
          else if stale_approval sv t s
            then (Inl (HTTPException 409 ''stale_approval''), modify_task (rt_id t) expire s)
          else if own_proposal sv t then (Inl (HTTPException 403 ''separation_of_duties''), s)
          else if stale_simulation R sv t v s
            then (Inl (HTTPException 409 ''stale_simulation''), modify_task (rt_id t) expire s)
          else commit_op (settle R sv t v reason) s)"

section \<open>What a decision keeps\<close>

definition sound :: "runtime \<Rightarrow> db \<Rightarrow> bool" where
  "sound R s \<longleftrightarrow> store_ok R s \<and> audit_ok R s \<and> configs_ok R s"

lemma store_ok_parts:
  assumes "store_ok R s" "history t = history s" "members t = members s" "records t = records s"
    and "metas t = metas s" "map en_id (entities t) = map en_id (entities s)" "ticks s \<le> ticks t"
    and "tasks_ok R t" "versions_ok R t"
  shows "store_ok R t"
proof -
  have "en_id ` set (entities t) = en_id ` set (entities s)" using arg_cong [OF assms(6), of set] by simp
  then have "references_ok t" using references_ok_frame [of s t] assms(1,3,4) by (simp add: store_ok_def)
  with assms show ?thesis
    using membership_ok_frame [of R s t] records_ok_frame [of R s t] entities_ok_frame [of R s t]
    by (simp add: store_ok_def)
qed

subsection \<open>Closing a task\<close>

definition closes :: "(review_task \<Rightarrow> review_task) \<Rightarrow> bool" where
  "closes f \<longleftrightarrow> (\<forall>t. rt_id (f t) = rt_id t \<and> rt_status (f t) \<noteq> OpenTask)"

lemma closes_simps [simp]: "closes expire" "closes (closed_by sv v reason)"
  by (simp_all add: closes_def expire_def closed_by_def)

lemma modify_task_frame [frame_simps]:
  "domains (modify_task i f s) = domains s" "records (modify_task i f s) = records s"
  "metas (modify_task i f s) = metas s" "entities (modify_task i f s) = entities s"
  "objects (modify_task i f s) = objects s" "history (modify_task i f s) = history s"
  "masters (modify_task i f s) = masters s" "events (modify_task i f s) = events s"
  "jobs (modify_task i f s) = jobs s" "audits (modify_task i f s) = audits s"
  "object_bans (modify_task i f s) = object_bans s" "record_bans (modify_task i f s) = record_bans s"
  "configurations (modify_task i f s) = configurations s" "ticks (modify_task i f s) = ticks s"
  "members (modify_task i f s) = members s"
  by (simp_all add: modify_task_def members_def)

lemma length_filter_update:
  "(\<And>r. \<not> P (f r)) \<Longrightarrow> length (filter P (update_rows Q f rs)) \<le> length (filter P rs)"
  by (induction rs) auto

lemma tasks_ok_modify_task:
  assumes "closes f" "tasks_ok R s"
  shows "tasks_ok R (modify_task i f s)"
proof -
  have ids: "map rt_id (row_modify rt_id i f (tasks s)) = map rt_id (tasks s)"
    using assms(1) by (intro row_keys_modify) (simp add: closes_def)
  then have "rt_id ` set (row_modify rt_id i f (tasks s)) = rt_id ` set (tasks s)"
    by (metis set_map)
  moreover have "length (open_masters ws en (modify_task i f s)) \<le> length (open_masters ws en s)" for ws en
    unfolding open_masters_def modify_task_def row_modify_def using assms(1)
    by (simp add: length_filter_update is_open_master_def closes_def)
  ultimately show ?thesis
    using assms(2) ids order_trans unfolding tasks_ok_def modify_task_def
    by (fastforce simp: drawn_def)
qed

lemma sound_modify_task:
  assumes "closes f" "sound R s"
  shows "sound R (modify_task i f s)"
proof -
  from assms(2) have s: "store_ok R s" "audit_ok R s" "configs_ok R s" by (simp_all add: sound_def)
  have "versions_ok R (modify_task i f s)"
    by (rule versions_ok_frame [of R s]) (use s(1) in \<open>simp_all add: store_ok_def frame_simps\<close>)
  then have "store_ok R (modify_task i f s)"
    using s(1) tasks_ok_modify_task [OF assms(1)]
    by (intro store_ok_parts [OF s(1)]) (simp_all add: frame_simps store_ok_def)
  moreover have "audit_ok R (modify_task i f s)"
    by (rule audit_ok_frame [OF s(2)]) (simp_all add: frame_simps)
  moreover have "configs_ok R (modify_task i f s)"
    by (rule configs_ok_frame [OF s(3)]) (simp_all add: frame_simps)
  ultimately show ?thesis by (simp add: sound_def)
qed

lemma keeps_close:
  assumes "tasks_ok R s" "q \<in> set (tasks s)" "rt_status q = OpenTask"
  shows "keeps s (modify_task (rt_id q) f s)"
  unfolding modify_task_def
proof (rule keeps_modify_task)
  fix r assume "r \<in> set (tasks s)" "rt_id r = rt_id q"
  then have "r = q" using find_key_unique [of rt_id "tasks s" r q] assms(1,2) by (simp add: tasks_ok_def)
  with assms(3) show "rt_status r = OpenTask" by simp
qed

lemma sound_audit:
  "strict_mono (clock R) \<Longrightarrow> sound R s \<Longrightarrow> sound R (audit R sv a ty i d s)"
  using configs_ok_frame [of R s "audit R sv a ty i d s"]
  by (simp add: sound_def store_ok_audit audit_ok_audit frame_simps)

lemma sound_steady:
  assumes "store_ok R t" "audits t = audits s" "steady s t" "sound R s"
  shows "sound R t"
proof -
  have "configs_ok R t"
    by (rule configs_ok_frame [of R s]) (use assms in \<open>simp_all add: sound_def steady_def keeps_def\<close>)
  moreover have "audit_ok R t"
    by (rule audit_ok_frame [of R s]) (use assms in \<open>simp_all add: sound_def steady_def keeps_def\<close>)
  ultimately show ?thesis using assms(1) by (simp add: sound_def)
qed

subsection \<open>Keeping two objects apart\<close>

lemma keep_separate_ok:
  assumes "sound R s" "keep_separate R sv mp reason s = Inr t"
  shows "sound R t \<and> steady s t \<and> events t = events s \<and> masters t = masters s \<and>
    (\<forall>a b. mp_left_object mp = Some a \<and> mp_right_object mp = Some b \<and> a \<noteq> [] \<and> b \<noteq> [] \<longrightarrow>
       is_cannot_link sv a b t)"
proof -
  from assms(2) have f: "members t = members s" "history t = history s" "tasks t = tasks s"
    "masters t = masters s" "records t = records s" "metas t = metas s" "entities t = entities s"
    "events t = events s" "audits t = audits s" "configurations t = configurations s"
    "domains t = domains s" "ticks s \<le> ticks t" "set (object_bans s) \<subseteq> set (object_bans t)"
    "set (record_bans s) \<subseteq> set (record_bans t)"
    by (auto simp: keep_separate_def res_elim members_def split: if_splits)
  have "store_ok R t" by (rule store_ok_frame [of R s]) (use assms(1) f in \<open>simp_all add: sound_def\<close>)
  moreover have "keeps s t" by (rule keeps_frame) (simp_all add: f observed_def)
  moreover from this have "steady s t" by (simp add: steady_def f proposals_def)
  moreover have "is_cannot_link sv a b t"
    if "mp_left_object mp = Some a" "mp_right_object mp = Some b" "a \<noteq> []" "b \<noteq> []" for a b
    using assms(2) that
    by (auto simp: keep_separate_def ban_def res_elim is_cannot_link_def truthy_str_def
        split: prod.splits)
  ultimately show ?thesis using sound_steady [OF _ f(9) _ assms(1)] f by blast
qed

subsection \<open>Approving a mastered record\<close>

lemma find_draft_Some:
  "find_draft en v s = Some m \<Longrightarrow> m \<in> set (masters s) \<and> en = Some (mv_entity m) \<and> mv_version m = v \<and>
     mv_status m = DraftMaster"
  by (auto simp: find_draft_def dest!: find_SomeD)

lemma reviewed_entity_Some:
  "reviewed_entity sv t s = Some e \<Longrightarrow> e \<in> set (entities s) \<and> rt_entity t = Some (en_id e) \<and> en_ws e = wid sv"
  by (auto simp: reviewed_entity_def bind_eq_Some_conv dest!: find_SomeD)

lemma approve_master_ok:
  assumes "sound R s" "approve_master R sv t v reason s = Inr u"
  shows "sound R u" "steady s u"
    "\<exists>d e ev. d \<in> set (masters s) \<and> rt_entity t = Some (mv_entity d) \<and> mv_version d = v \<and>
       mv_status d = DraftMaster \<and> e \<in> set (entities s) \<and> en_id e = mv_entity d \<and> en_ws e = wid sv \<and>
       set (masters u) = insert (approve_version sv reason d) (set (masters s) - {d}) \<and>
       entities u = row_modify en_id (en_id e) (set_status ApprovedEntity) (entities s) \<and>
       events u = events s @ [ev] \<and> ev_type ev = ''master.approved'' \<and> ev_entity ev = Some (mv_entity d) \<and>
       ev_version ev = Some v \<and> ev_status ev = EventPending \<and> dget (ev_payload ev) ''values'' = JObj (mv_values d)"
proof -
  from assms(2) obtain d e where d: "find_draft (rt_entity t) v s = Some d"
    and e: "reviewed_entity sv t s = Some e"
    by (auto simp: approve_master_def res_elim Let_def)
  note d' = find_draft_Some [OF d] and e' = reviewed_entity_Some [OF e]
  define s1 where "s1 = s\<lparr>masters := row_modify mv_id (mv_id d) (approve_version sv reason) (masters s)\<rparr>"
  define s2 where "s2 = modify_entity (en_id e) (set_status ApprovedEntity) s1"
  from assms(2) obtain ev pay where add: "add_event R sv (en_id e) (mv_version d) ''master.approved'' pay s2 = (ev, u)"
    and vals: "dget (ev_payload ev) ''values'' = JObj (mv_values d)"
    using d e by (auto simp: approve_master_def res_elim Let_def s1_def s2_def add_event_def dget_def)
  have ids: "distinct (map mv_id (masters s))" using assms(1) by (simp add: sound_def store_ok_def versions_ok_def)
  have only: "r = d" if "r \<in> set (masters s)" "mv_id r = mv_id d" for r
    using find_key_unique [OF ids that(1) _ that(2)] d' by blast
  have m1: "set (masters s1) = insert (approve_version sv reason d) (set (masters s) - {d})"
  proof -
    have "set (masters s1) = (\<lambda>m. if m = d then approve_version sv reason d else m) ` set (masters s)"
      unfolding s1_def by (simp del: if_image_distrib add: set_row_modify) (rule image_cong [OF refl], auto dest: only)
    then show ?thesis using d' by auto
  qed
  have "map (\<lambda>m. (mv_entity m, mv_version m)) (masters s1) = map (\<lambda>m. (mv_entity m, mv_version m)) (masters s)"
    "map mv_id (masters s1) = map mv_id (masters s)"
    by (simp_all add: s1_def row_modify_def update_rows_key approve_version_def)
  moreover have "drawn R s (mv_id m)" if "m \<in> set (masters s1)" for m
    using that d' assms(1) by (auto simp: m1 approve_version_def sound_def store_ok_def versions_ok_def)
  moreover have "ticks s1 = ticks s" by (simp add: s1_def)
  ultimately have v1: "versions_ok R s1"
    using assms(1) by (auto simp: sound_def store_ok_def versions_ok_def drawn_def)
  have f1: "members s1 = members s" "tasks s1 = tasks s" by (simp_all add: s1_def members_def)
  have "store_ok R s1"
    by (rule store_ok_parts [of R s]) (use assms(1) v1 f1 tasks_ok_frame [of R s s1] in
      \<open>simp_all add: sound_def store_ok_def, simp_all add: s1_def\<close>)
  then have ok2: "store_ok R s2" unfolding s2_def by (rule store_ok_status)
  note ev = store_ok_event [OF ok2 add]
  have "approved_masters s \<subseteq> approved_masters s1"
    using d' by (auto simp: approved_masters_def m1)
  then have "steady s s1"
    by (auto simp: steady_def keeps_def s1_def closed_tasks_def past_memberships_def observed_def proposals_def)
  then have "steady s s2" unfolding s2_def using steady_status by (rule steady_trans)
  then show st: "steady s u" using ev by (auto intro: steady_trans)
  have au: "audits u = audits s" using ev by (simp add: s2_def s1_def frame_simps)
  show "sound R u" by (rule sound_steady [OF _ au st assms(1)]) (use ev in simp)
  have "masters u = masters s1" "entities u = row_modify en_id (en_id e) (set_status ApprovedEntity) (entities s)"
    "events u = events s @ [ev]"
    using ev by (simp_all add: s2_def s1_def frame_simps)
  moreover have "ev_type ev = ''master.approved''" "ev_entity ev = Some (en_id e)"
    "ev_version ev = Some (mv_version d)" "ev_status ev = EventPending"
    using add by (auto simp: add_event_def Let_def)
  ultimately show "\<exists>d e ev. d \<in> set (masters s) \<and> rt_entity t = Some (mv_entity d) \<and> mv_version d = v \<and>
       mv_status d = DraftMaster \<and> e \<in> set (entities s) \<and> en_id e = mv_entity d \<and> en_ws e = wid sv \<and>
       set (masters u) = insert (approve_version sv reason d) (set (masters s) - {d}) \<and>
       entities u = row_modify en_id (en_id e) (set_status ApprovedEntity) (entities s) \<and>
       events u = events s @ [ev] \<and> ev_type ev = ''master.approved'' \<and> ev_entity ev = Some (mv_entity d) \<and>
       ev_version ev = Some v \<and> ev_status ev = EventPending \<and> dget (ev_payload ev) ''values'' = JObj (mv_values d)"
    using d' e' m1 vals by (intro exI [of _ d] exI [of _ e] exI [of _ ev]) auto
qed

subsection \<open>Activating a configuration\<close>

lemma filter_row_modify_one:
  assumes "distinct (map key rows)" "r \<in> set rows" "P (f r)" "\<And>q. q \<in> set rows \<Longrightarrow> q \<noteq> r \<Longrightarrow> \<not> P q"
  shows "filter P (row_modify key (key r) f rows) = [f r]"
  using assms
proof (induction rows)
  case Nil
  then show ?case by simp
next
  case (Cons q rows)
  show ?case
  proof (cases "q = r")
    case True
    with Cons.prems have "filter P rows = []" by (auto simp: filter_empty_conv)
    moreover have "row_modify key (key r) f rows = rows"
      unfolding row_modify_def
      by (rule update_rows_none) (use Cons.prems(1) True in \<open>metis distinct.simps(2) image_eqI list.simps(9) set_map\<close>)
    ultimately show ?thesis using Cons.prems(3) True by (simp add: row_modify_def)
  next
    case False
    with Cons show ?thesis by (auto simp: row_modify_def)
  qed
qed

lemma filter_update_same:
  "(\<And>q. q \<in> set xs \<Longrightarrow> Q q \<Longrightarrow> \<not> P q \<and> \<not> P (f q)) \<Longrightarrow> filter P (update_rows Q f xs) = filter P xs"
  by (induction xs) auto

lemma activate_active:
  assumes "config_ids_ok R s" "c \<in> set (configurations s)" "cv_ws c = wid sv" "cv_status c = DraftConfig"
  shows "active_configs ws (activate sv (cv_id c) s) =
    (if ws = wid sv then [set_config_status ActiveConfig c] else active_configs ws s)"
proof -
  let ?retire = "update_rows (\<lambda>c. cv_ws c = wid sv \<and> cv_status c = ActiveConfig) (set_config_status RetiredConfig)"
  let ?cs = "?retire (configurations s)"
  have ids: "distinct (map cv_id ?cs)"
    using assms(1) by (simp add: config_ids_ok_def update_rows_key set_config_status_def)
  have mem: "c \<in> set ?cs" using assms(2,4) by (auto simp: set_update_rows image_iff)
  have none: "\<not> (cv_ws q = wid sv \<and> cv_status q = ActiveConfig)" if "q \<in> set ?cs" for q
    using that by (auto simp: set_update_rows set_config_status_def split: if_splits)
  show ?thesis
  proof (cases "ws = wid sv")
    case True
    then show ?thesis
      unfolding active_configs_def activate_def
      using filter_row_modify_one [OF ids mem, where f = "set_config_status ActiveConfig"
          and P = "\<lambda>c. cv_ws c = wid sv \<and> cv_status c = ActiveConfig"] assms(3) none
      by (simp add: set_config_status_def)
  next
    case False
    have "filter (\<lambda>c. cv_ws c = ws \<and> cv_status c = ActiveConfig)
        (row_modify cv_id (cv_id c) (set_config_status ActiveConfig) ?cs) =
      filter (\<lambda>c. cv_ws c = ws \<and> cv_status c = ActiveConfig) ?cs"
      unfolding row_modify_def
    proof (rule filter_update_same)
      fix q assume "q \<in> set ?cs" "cv_id q = cv_id c"
      then have "q = c" using find_key_unique [OF ids _ mem] by blast
      then show "\<not> (cv_ws q = ws \<and> cv_status q = ActiveConfig) \<and>
          \<not> (cv_ws (set_config_status ActiveConfig q) = ws \<and>
             cv_status (set_config_status ActiveConfig q) = ActiveConfig)"
        using False assms(3) by (simp add: set_config_status_def)
    qed
    also have "\<dots> = filter (\<lambda>c. cv_ws c = ws \<and> cv_status c = ActiveConfig) (configurations s)"
      by (rule filter_update_same) (use False in \<open>auto simp: set_config_status_def\<close>)
    finally show ?thesis using False by (simp add: active_configs_def activate_def)
  qed
qed

lemma configs_ok_activate:
  assumes "configs_ok R s" "c \<in> set (configurations s)" "cv_ws c = wid sv" "cv_status c = DraftConfig"
  shows "configs_ok R (activate sv (cv_id c) s)"
proof -
  let ?t = "activate sv (cv_id c) s"
  have parts: "map cv_id (configurations ?t) = map cv_id (configurations s)"
    "map (\<lambda>c. (cv_ws c, cv_version c)) (configurations ?t) = map (\<lambda>c. (cv_ws c, cv_version c)) (configurations s)"
    "map (\<lambda>c. (cv_checksum c, cv_document c)) (configurations ?t) = map (\<lambda>c. (cv_checksum c, cv_document c)) (configurations s)"
    by (simp_all add: activate_def row_modify_def update_rows_key set_config_status_def)
  have "cv_id ` set (configurations ?t) = cv_id ` set (configurations s)"
    using arg_cong [OF parts(1), of set] by simp
  moreover have "cv_checksum q = canonical_hash R (JObj (cv_document q))" if "q \<in> set (configurations ?t)" for q
  proof -
    have "(cv_checksum q, cv_document q) \<in> (\<lambda>c. (cv_checksum c, cv_document c)) ` set (configurations s)"
      using that arg_cong [OF parts(3), of set] by auto
    then show ?thesis using assms(1) by (auto simp: configs_ok_def config_ids_ok_def)
  qed
  moreover have "drawn R ?t i \<longleftrightarrow> drawn R s i" for i by (simp add: drawn_def activate_def)
  ultimately have "config_ids_ok R ?t"
    using assms(1) by (simp add: configs_ok_def config_ids_ok_def parts(1,2))
  moreover have "length (active_configs ws ?t) \<le> 1" for ws
    using activate_active [of R s c sv ws] assms by (simp add: configs_ok_def)
  moreover have "domains ?t = domains s" by (simp add: activate_def)
  moreover have "drawn R ?t i \<longleftrightarrow> drawn R s i" for i by (simp add: drawn_def activate_def)
  ultimately show ?thesis using assms(1) by (simp add: configs_ok_def)
qed

definition queued_for :: "service \<Rightarrow> ident \<Rightarrow> string \<times> compiled_policy \<Rightarrow> job \<Rightarrow> bool" where
  "queued_for sv config kp j \<longleftrightarrow> jb_ws j = wid sv \<and> jb_kind j = ''remaster_domain'' \<and>
     jb_status j = JobQueued \<and> jb_attempts j = 0 \<and>
     jb_payload j = [(''domain_key'', JStr (fst kp)), (''policy_checksum'', JStr (checksum (snd kp))),
       (''configuration_id'', JStr config)]"

definition domain_keys :: "db \<Rightarrow> (ident \<times> ident \<times> string) list" where
  "domain_keys s = map (\<lambda>d. (dm_id d, dm_ws d, dm_key d)) (domains s)"

lemma find_domain_Some: "find_domain sv k s = Some d \<Longrightarrow> d \<in> set (domains s) \<and> dm_ws d = wid sv \<and> dm_key d = k"
  by (auto simp: find_domain_def dest!: find_SomeD)

lemma domain_keys_ids: "map dm_id (domains s) = map fst (domain_keys s)"
  by (simp add: domain_keys_def comp_def)

lemma install_policy_ok:
  assumes "install_policy R sv config (key, p) (ids, s) = Inr (ids', t)"
    and "distinct (map dm_id (domains s))"
  shows "t = s\<lparr>domains := domains t, jobs := jobs t, ticks := Suc (ticks s)\<rparr> \<and> domain_keys t = domain_keys s \<and>
    (\<exists>j. jobs t = jobs s @ [j] \<and> ids' = ids @ [jb_id j] \<and> queued_for sv config (key, p) j) \<and>
    (\<exists>d. find_domain sv key t = Some d \<and> dm_definition d = stored_definition p) \<and>
    (\<forall>k. k \<noteq> key \<longrightarrow> find_domain sv k t = find_domain sv k s)"
proof -
  define f where "f = (\<lambda>d :: domain_row. d\<lparr>dm_definition := stored_definition p, dm_schema_version := dm_schema_version d + 1\<rparr>)"
  from assms(1) obtain d where d: "find_domain sv key s = Some d"
    by (auto simp: install_policy_def res_elim)
  define s1 where "s1 = s\<lparr>domains := row_modify dm_id (dm_id d) f (domains s)\<rparr>"
  define j where "j = remaster_job R sv d p config s1"
  have t: "ids' = ids @ [jb_id j]" "t = s1\<lparr>jobs := row_add j (jobs s1), ticks := Suc (ticks s1)\<rparr>"
    using assms(1) d by (auto simp: install_policy_def res_elim Let_def s1_def j_def f_def)
  note d' = find_domain_Some [OF d]
  have found: "find_domain sv k t = map_option (\<lambda>r. if dm_id r = dm_id d then f r else r) (find_domain sv k s)" for k
    unfolding find_domain_def t(2) s1_def row_modify_def by (simp add: find_update_rows f_def cong: if_cong)
  have "find_domain sv k t = find_domain sv k s" if "k \<noteq> key" for k
  proof (cases "find_domain sv k s")
    case (Some r)
    note r = find_domain_Some [OF this]
    have "dm_id r \<noteq> dm_id d" using find_key_unique [OF assms(2)] r d' that by blast
    with Some show ?thesis by (simp add: found)
  qed (simp add: found)
  moreover have "find_domain sv key t = Some (f d)" by (simp add: found d)
  then have "\<exists>d. find_domain sv key t = Some d \<and> dm_definition d = stored_definition p"
    by (simp add: f_def)
  moreover have "domain_keys t = domain_keys s"
    by (simp add: domain_keys_def t(2) s1_def row_modify_def update_rows_key f_def)
  moreover have "queued_for sv config (key, p) j"
    by (simp add: queued_for_def j_def remaster_job_def d')
  ultimately show ?thesis using t by (simp add: s1_def row_add_def)
qed

lemma install_policies_ok:
  assumes "fold_res (install_policy R sv config) ps (ids, s) = Inr (ids', t)"
    and "distinct (map dm_id (domains s))"
  shows "t = s\<lparr>domains := domains t, jobs := jobs t, ticks := ticks t\<rparr> \<and> ticks s \<le> ticks t \<and>
    domain_keys t = domain_keys s \<and>
    (\<exists>js. jobs t = jobs s @ js \<and> ids' = ids @ map jb_id js \<and> list_all2 (queued_for sv config) ps js) \<and>
    (distinct (map fst ps) \<longrightarrow> (\<forall>(k, p) \<in> set ps. \<exists>d. find_domain sv k t = Some d \<and> dm_definition d = stored_definition p)) \<and>
    (\<forall>k. k \<notin> fst ` set ps \<longrightarrow> find_domain sv k t = find_domain sv k s)"
  using assms
proof (induction ps arbitrary: ids s)
  case Nil
  then show ?case by simp
next
  case (Cons kp ps)
  obtain key p where kp: "kp = (key, p)" by (cases kp)
  from Cons.prems(1) obtain ids1 u where one: "install_policy R sv config (key, p) (ids, s) = Inr (ids1, u)"
    and rest: "fold_res (install_policy R sv config) ps (ids1, u) = Inr (ids', t)"
    by (auto simp: kp res_elim)
  note o = install_policy_ok [OF one Cons.prems(2)]
  have "distinct (map dm_id (domains u))" using Cons.prems(2) o by (simp add: domain_keys_ids)
  note ih = Cons.IH [OF rest this]
  from o obtain j where j: "jobs u = jobs s @ [j]" "ids1 = ids @ [jb_id j]" "queued_for sv config (key, p) j" by blast
  from ih obtain js where js: "jobs t = jobs u @ js" "ids' = ids1 @ map jb_id js" "list_all2 (queued_for sv config) ps js"
    by blast
  have "\<exists>js. jobs t = jobs s @ js \<and> ids' = ids @ map jb_id js \<and> list_all2 (queued_for sv config) (kp # ps) js"
    by (rule exI [of _ "j # js"]) (use j js in \<open>simp add: kp\<close>)
  moreover from o have "u = s\<lparr>domains := domains u, jobs := jobs u, ticks := Suc (ticks s)\<rparr>" by blast
  then obtain ds us where u: "u = s\<lparr>domains := ds, jobs := us, ticks := Suc (ticks s)\<rparr>" by blast
  have "t = s\<lparr>domains := domains t, jobs := jobs t, ticks := ticks t\<rparr>"
  proof -
    from ih have "t = u\<lparr>domains := domains t, jobs := jobs t, ticks := ticks t\<rparr>" by blast
    then show ?thesis by (simp add: u)
  qed
  moreover have "ticks s \<le> ticks t" using ih u by simp
  ultimately show ?case using ih o by (auto simp: kp)
qed

lemma configuration_policies_domains:
  assumes "domains t = domains s"
  shows "configuration_policies R sv d t = configuration_policies R sv d s"
proof -
  have "find_domain sv k t = find_domain sv k s" for k using assms by (simp add: find_domain_def)
  then have "pack_policies R sv d t = pack_policies R sv d s"
    "mapping_policies R sv ds t = mapping_policies R sv ds s"
    "preview_policies R sv d t = preview_policies R sv d s" for ds
    by (simp_all add: pack_policies_def mapping_policies_def preview_policies_def known_domain_def)
  then show ?thesis by (cases "dget d ''domains''") (simp_all add: configuration_policies_def)
qed

lemma preview_policies_single:
  assumes "preview_policies R sv d s = Inr ps"
  shows "\<exists>p. ps = [(''supplier'', p)]"
proof -
  from assms obtain m where "(case (find_domain sv ''supplier'' s, dget m ''supplier'') of
       (Some supplier, JObj matching) \<Rightarrow>
         bind_res (preview_candidate d matching (dm_definition supplier)) (\<lambda>c.
         bind_res (compile_policy R c) (\<lambda>p. Inr [(''supplier'', p)]))
     | _ \<Rightarrow> Inl (PolicyError ''configuration must contain a DomainPack or a domains mapping'')) = Inr ps"
    unfolding preview_policies_def bind_res_Inr by blast
  then show ?thesis
    by (cases "find_domain sv ''supplier'' s"; cases "dget m ''supplier''") (auto simp: bind_res_Inr)
qed

lemma compile_values_keys: "map_res (compile_value R) ds = Inr ps \<Longrightarrow> map fst ps = map fst ds"
  by (induction ds arbitrary: ps) (auto simp: compile_value_def res_elim split: prod.splits)

lemma configuration_policies_distinct:
  assumes "wf_json (JObj document)" "configuration_policies R sv document s = Inr ps"
  shows "distinct (map fst ps)"
proof (cases "dget document ''kind'' = JStr ''DomainPack''")
  case True
  with assms(2) show ?thesis
    by (auto simp: configuration_policies_def pack_policies_def res_elim Let_def)
next
  case pack: False
  show ?thesis
  proof (cases "\<exists>ds. dget document ''domains'' = JObj ds")
    case True
    then obtain ds where ds: "dget document ''domains'' = JObj ds" ..
    with wf_dget [OF assms(1), of "''domains''"] have "distinct (map fst ds)" by (simp add: dkeys_def)
    moreover have "map_res (compile_value R) ds = Inr ps"
      using assms(2) pack ds by (auto simp: configuration_policies_def mapping_policies_def res_elim)
    ultimately show ?thesis by (simp add: compile_values_keys)
  next
    case False
    then have "preview_policies R sv document s = Inr ps"
      using assms(2) pack by (auto simp: configuration_policies_def split: json.splits)
    then show ?thesis by (auto dest!: preview_policies_single)
  qed
qed

lemma bound_config_Some:
  "bound_config sv cp s = Some (c, m) \<Longrightarrow> c \<in> set (configurations s) \<and> cv_id c = cp_config cp \<and>
     cv_ws c = wid sv \<and> cv_status c = DraftConfig \<and> cv_checksum c = cp_checksum cp \<and>
     m \<in> set (simulations s) \<and> sm_id m = cp_simulation cp \<and> sm_config m = cp_config cp"
  by (auto simp: bound_config_def find_draft_config_def find_simulation_def dest!: find_SomeD
      split: option.splits if_splits)

lemma activate_config_ok:
  assumes "strict_mono (clock R)" "sound R s" "activate_config R sv cp s = Inr t"
  shows "sound R t" "keeps s t" "tasks t = tasks s" "events t = events s"
    "\<exists>c m ps js. bound_config sv cp s = Some (c, m) \<and>
       configuration_policies R sv (cv_document c) s = Inr ps \<and>
       active_configs (wid sv) t = [set_config_status ActiveConfig c] \<and>
       domain_keys t = domain_keys s \<and> jobs t = jobs s @ js \<and> list_all2 (queued_for sv (cv_id c)) ps js \<and>
       (distinct (map fst ps) \<longrightarrow> (\<forall>(k, p) \<in> set ps. \<exists>d. find_domain sv k t = Some d \<and>
          dm_definition d = stored_definition p)) \<and>
       (\<forall>k. k \<notin> fst ` set ps \<longrightarrow> find_domain sv k t = find_domain sv k s)"
proof -
  from assms(3) obtain c m ps ids u where cm: "bound_config sv cp s = Some (c, m)"
    and ps: "configuration_policies R sv (cv_document c) (activate sv (cv_id c) s) = Inr ps"
    and u: "fold_res (install_policy R sv (cv_id c)) ps ([], activate sv (cv_id c) s) = Inr (ids, u)"
    and t: "\<exists>a b d e. t = audit R sv a b d e u"
    by (auto simp: activate_config_def res_elim Let_def) blast
  from t obtain a b d e where t: "t = audit R sv a b d e u" by blast
  define s1 where "s1 = activate sv (cv_id c) s"
  have f1: "domains s1 = domains s" "tasks s1 = tasks s" "events s1 = events s" "jobs s1 = jobs s"
    "ticks s1 = ticks s" "audits s1 = audits s" "members s1 = members s"
    by (simp_all add: s1_def activate_def members_def)
  note c = bound_config_Some [OF cm]
  have ok: "configs_ok R s1"
    unfolding s1_def using c assms(2) by (intro configs_ok_activate) (simp_all add: sound_def)
  then have "distinct (map dm_id (domains s1))" by (simp add: configs_ok_def)
  note i = install_policies_ok [OF u [folded s1_def] this]
  then have "u = s1\<lparr>domains := domains u, jobs := jobs u, ticks := ticks u\<rparr>" "ticks s \<le> ticks u"
    by (simp_all add: f1)
  then obtain ds js n where u': "u = s1\<lparr>domains := ds, jobs := js, ticks := n\<rparr>" "ticks s \<le> n" by force
  have "store_ok R u"
    by (rule store_ok_frame [of R s])
      (use assms(2) u'(2) in \<open>simp_all add: sound_def u'(1) s1_def activate_def members_def\<close>)
  moreover have "audit_ok R u"
    by (rule audit_ok_frame [of R s]) (use assms(2) u'(2) in \<open>simp_all add: sound_def u'(1) f1\<close>)
  moreover have "configs_ok R u"
    by (rule configs_ok_frame [OF ok]) (use i u'(2) in \<open>simp_all add: u'(1) f1 domain_keys_def\<close>)
  ultimately show "sound R t" unfolding t by (intro sound_audit [OF assms(1)]) (simp add: sound_def)
  have "keeps s u"
    by (rule keeps_frame) (use u'(2) in \<open>simp_all add: u'(1) s1_def activate_def observed_def\<close>)
  then show "keeps s t" unfolding t using keeps_audit by (rule keeps_trans)
  show "tasks t = tasks s" "events t = events s" by (simp_all add: t frame_simps u'(1) f1)
  have "active_configs (wid sv) s1 = [set_config_status ActiveConfig c]"
    unfolding s1_def using activate_active [of R s c sv "wid sv"] c assms(2)
    by (simp add: sound_def configs_ok_def)
  then have "active_configs (wid sv) t = [set_config_status ActiveConfig c]"
    by (simp add: t active_configs_def frame_simps u'(1))
  moreover have "configuration_policies R sv (cv_document c) s = Inr ps"
    using ps configuration_policies_domains [of "activate sv (cv_id c) s" s] by (simp add: activate_def)
  moreover have "domain_keys t = domain_keys s" using i by (simp add: t domain_keys_def frame_simps f1)
  moreover have find: "find_domain sv k t = find_domain sv k u" "find_domain sv k s1 = find_domain sv k s" for k
    by (simp_all add: t find_domain_def frame_simps f1)
  ultimately show "\<exists>c m ps js. bound_config sv cp s = Some (c, m) \<and>
       configuration_policies R sv (cv_document c) s = Inr ps \<and>
       active_configs (wid sv) t = [set_config_status ActiveConfig c] \<and>
       domain_keys t = domain_keys s \<and> jobs t = jobs s @ js \<and> list_all2 (queued_for sv (cv_id c)) ps js \<and>
       (distinct (map fst ps) \<longrightarrow> (\<forall>(k, p) \<in> set ps. \<exists>d. find_domain sv k t = Some d \<and>
          dm_definition d = stored_definition p)) \<and>
       (\<forall>k. k \<notin> fst ` set ps \<longrightarrow> find_domain sv k t = find_domain sv k s)"
    using cm i by (auto simp: f1 t frame_simps)
qed

section \<open>Decisions\<close>

lemma effect_ok:
  assumes "inj (uuid R)" "strict_mono (clock R)" "sound R s" "decision_effect R sv q v reason s = Inr t"
  shows "sound R t \<and> keeps s t \<and> proposals s \<subseteq> proposals t \<and>
    (rt_kind q = MasterApproval \<longrightarrow> tasks t = tasks s)"
proof -
  have st: "store_ok R s" using assms(3) by (simp add: sound_def)
  note eff = assms(4) [unfolded decision_effect_def]
  have link_ok: "sound R t \<and> steady s t" if "link_match R sv en mp s = Inr t" for en mp
    using link_match_ok [OF assms(1) st that] sound_steady assms(3) by blast
  have merge_ok: "sound R t \<and> steady s t" if "apply_merge R sv g reason s = Inr t" for g
    using apply_merge_ok(1,8,9) [OF assms(1) st that] sound_steady assms(3) by blast
  have split_ok: "sound R t \<and> steady s t" if "apply_split R sv i en lp reason s = Inr t" for i en lp
    using apply_split_ok(1-3) [OF assms(1) st that] sound_steady assms(3) by blast
  have separate_ok: "sound R t \<and> steady s t" if "keep_separate R sv mp reason s = Inr t" for mp
    using keep_separate_ok [OF assms(3) that] by blast
  have config_ok: "sound R t \<and> keeps s t \<and> tasks t = tasks s" if "activate_config R sv cp s = Inr t" for cp
    using activate_config_ok(1-3) [OF assms(2,3) that] by blast
  have master_ok: "sound R t \<and> steady s t \<and> tasks t = tasks s" if a: "approve_master R sv q n reason s = Inr t" for n
  proof -
    have "tasks t = tasks s"
      using a by (auto simp: approve_master_def res_elim Let_def add_event_def frame_simps)
    with approve_master_ok(1,2) [OF assms(3) a] show ?thesis by blast
  qed
  consider (same) "t = s" | (link) en mp where "link_match R sv en mp s = Inr t" "rt_kind q = DuplicateMatch"
    | (merge) g where "apply_merge R sv g reason s = Inr t" "rt_kind q = MergeApproval"
    | (split) i en lp where "apply_split R sv i en lp reason s = Inr t" "rt_kind q = SplitApproval"
    | (separate) mp where "keep_separate R sv mp reason s = Inr t" "rt_kind q = DuplicateMatch"
    | (config) cp where "activate_config R sv cp s = Inr t"
    | (master) n where "approve_master R sv q n reason s = Inr t"
    using eff by (cases "rt_kind q"; cases v) (auto split: payload.splits)
  then show ?thesis
  proof cases
    case same
    with assms(3) show ?thesis by simp
  next
    case link
    with link_ok show ?thesis by (auto simp: steady_def)
  next
    case merge
    with merge_ok show ?thesis by (auto simp: steady_def)
  next
    case split
    with split_ok show ?thesis by (auto simp: steady_def)
  next
    case separate
    with separate_ok show ?thesis by (auto simp: steady_def)
  next
    case config
    with config_ok show ?thesis by (auto simp: proposals_def)
  next
    case master
    with master_ok show ?thesis by (auto simp: steady_def)
  qed
qed

text \<open>The decided task is closed; nothing that an operation must keep is lost.\<close>

lemma settle_ok:
  assumes "inj (uuid R)" "strict_mono (clock R)" "sound R s"
    and "q \<in> set (tasks s)" "rt_status q = OpenTask" "settle R sv q v reason s = Inr (q', t)"
  shows "sound R t" "keeps s t" "q' = closed_by sv v reason q" "q' \<in> set (tasks t)"
    "\<exists>u. decision_effect R sv q v reason s = Inr u \<and>
       t = audit R sv (''review.'' @ verdict_name v) ''review_task'' (rt_id q) (JObj [(''reason'', JStr reason)])
         (modify_task (rt_id q) (closed_by sv v reason) u)"
proof -
  from assms(6) obtain u where u: "decision_effect R sv q v reason s = Inr u"
    and q': "q' = closed_by sv v reason q"
    and t: "t = audit R sv (''review.'' @ verdict_name v) ''review_task'' (rt_id q)
      (JObj [(''reason'', JStr reason)]) (modify_task (rt_id q) (closed_by sv v reason) u)"
    by (auto simp: settle_def res_elim)
  note e = effect_ok [OF assms(1-3) u]
  have mem: "q \<in> set (tasks u)"
    using e assms(4) by (cases "rt_kind q = MasterApproval") (auto simp: proposals_def)
  have "tasks_ok R u" using e by (simp add: sound_def store_ok_def)
  then have "keeps u (modify_task (rt_id q) (closed_by sv v reason) u)"
    by (rule keeps_close [OF _ mem assms(5)])
  with e have "keeps s (modify_task (rt_id q) (closed_by sv v reason) u)" by (blast intro: keeps_trans)
  then show "keeps s t" unfolding t by (rule keeps_trans [OF _ keeps_audit])
  show "sound R t"
    unfolding t by (rule sound_audit [OF assms(2)]) (rule sound_modify_task, use e in simp_all)
  show "q' = closed_by sv v reason q" by (rule q')
  show "q' \<in> set (tasks t)"
    using mem by (auto simp: t q' frame_simps modify_task_def set_row_modify)
  show "\<exists>u. decision_effect R sv q v reason s = Inr u \<and>
       t = audit R sv (''review.'' @ verdict_name v) ''review_task'' (rt_id q) (JObj [(''reason'', JStr reason)])
         (modify_task (rt_id q) (closed_by sv v reason) u)" using u t by blast
qed

lemma find_task_Some: "find_task sv i s = Some q \<Longrightarrow> q \<in> set (tasks s) \<and> rt_id q = i \<and> rt_ws q = wid sv"
  by (auto simp: find_task_def dest!: find_SomeD)

text \<open>The three outcomes of a decision.\<close>

lemma decide_task_cases:
  assumes "decide_task R sv i v reason s = (r, t)"
  obtains (refused) e where "r = Inl e" "t = s"
  | (expired) q where "find_task sv i s = Some q" "rt_status q = OpenTask"
      "r = Inl (HTTPException 409 (if stale_approval sv q s then ''stale_approval'' else ''stale_simulation''))"
      "t = modify_task i expire s" "stale_approval sv q s \<or> stale_simulation R sv q v s"
  | (settled) q q' where "find_task sv i s = Some q" "rt_status q = OpenTask" "r = Inr q'"
      "v \<in> set (allowed_decisions (rt_kind q))" "\<not> stale_approval sv q s" "\<not> own_proposal sv q"
      "\<not> stale_simulation R sv q v s" "settle R sv q v reason s = Inr (q', t)"
proof (cases "find_task sv i s")
  case None
  with assms refused show ?thesis by (auto simp: decide_task_def)
next
  case (Some q)
  have id: "rt_id q = i" using find_task_Some [OF Some] by simp
  show ?thesis
  proof (cases "rt_status q = OpenTask \<and> v \<in> set (allowed_decisions (rt_kind q))")
    case False
    with assms Some refused show ?thesis by (auto simp: decide_task_def split: if_splits)
  next
    case ok: True
    show ?thesis
    proof (cases "stale_approval sv q s \<or> (\<not> own_proposal sv q \<and> stale_simulation R sv q v s)")
      case True
      with assms Some ok id show ?thesis
        by (intro expired [of q]) (auto simp: decide_task_def split: if_splits)
    next
      case False
      with assms Some ok refused settled [of q] show ?thesis
        by (cases "own_proposal sv q"; cases "settle R sv q v reason s")
          (auto simp: decide_task_def commit_op_def)
    qed
  qed
qed

lemma decide_task_ok:
  assumes "inj (uuid R)" "strict_mono (clock R)" "sound R s" "decide_task R sv i v reason s = (r, t)"
  shows "sound R t \<and> keeps s t"
  using assms(4)
proof (cases rule: decide_task_cases)
  case refused
  with assms(3) show ?thesis by simp
next
  case (expired q)
  note q = find_task_Some [OF expired(1)]
  have "tasks_ok R s" using assms(3) by (simp add: sound_def store_ok_def)
  from keeps_close [OF this _ expired(2)] sound_modify_task [OF _ assms(3)] q show ?thesis
    unfolding expired(4) by auto
next
  case (settled q q')
  with settle_ok(1,2) [OF assms(1-3) _ settled(2,8)] find_task_Some show ?thesis by blast
qed

end
