(* ===== verification/Decisions.thy ===== *)
theory Decisions
  imports Review
begin

text \<open>
  What the review desk promises: every decision keeps the workspace sound, a decision is made once,
  by someone else than the proposer of a sensitive change, on the version that was reviewed; what
  is approved is published as reviewed; what is kept separate stays separate; an activated
  configuration is the only active one and every domain it names runs it.
\<close>

text \<open>A task that is closed stays as it is, whoever decides again.\<close>

lemma closed_task_refused:
  assumes "tasks_ok R s" "q \<in> set (tasks s)" "rt_ws q = wid sv" "rt_status q \<noteq> OpenTask"
  shows "decide_task R sv (rt_id q) v reason s = (Inl (HTTPException 409 ''task_not_open''), s)"
proof -
  have "find_task sv (rt_id q) s = Some q"
  proof (cases "find_task sv (rt_id q) s")
    case None
    with assms(2,3) show ?thesis by (auto simp: find_task_def find_None_iff)
  next
    case (Some r)
    note r = find_task_Some [OF Some]
    with assms(1,2) have "r = q" using find_key_unique [of rt_id "tasks s" r q] by (simp add: tasks_ok_def)
    with Some show ?thesis by simp
  qed
  with assms(4) show ?thesis by (simp add: decide_task_def)
qed

section \<open>Properties\<close>

text \<open>
  Whatever is decided on whatever task, the database stays sound (unique ids and versions, open
  memberships as the objects say, at most one open approval per entity, an unbroken audit trail, at
  most one active configuration per workspace) and loses nothing it must keep. A refused decision
  leaves the database as it was, but for a stale task that is closed as such.
\<close>

theorem every_decision_keeps_the_workspace_sound:
  assumes "inj (uuid R)" "strict_mono (clock R)" "sound R s" "decide_task R sv i v reason s = (r, t)"
  shows "sound R t \<and> keeps s t \<and> (\<forall>e. r = Inl e \<longrightarrow> t = s \<or> t = modify_task i expire s)"
  using assms(4)
proof (cases rule: decide_task_cases)
  case refused
  with assms(3) show ?thesis by simp
next
  case (expired q)
  with decide_task_ok [OF assms] show ?thesis by simp
next
  case (settled q q')
  with decide_task_ok [OF assms] show ?thesis by simp
qed

text \<open>
  C2. A decision counts once and only under the rules: the task was open, its kind allows the
  verdict, the reviewed entity still has the version the task is bound to, and a sensitive proposal
  is not decided by its proposer. The task is then closed in the decider's name, and deciding it
  again, by anyone, is refused and changes nothing.
\<close>

theorem decisions_follow_the_review_rules:
  assumes "inj (uuid R)" "strict_mono (clock R)" "sound R s" "decide_task R sv i v reason s = (Inr q', t)"
    and "wid sv' = wid sv"
  shows "\<exists>q. find_task sv i s = Some q \<and> rt_status q = OpenTask \<and> v \<in> set (allowed_decisions (rt_kind q)) \<and>
    (\<forall>e. reviewed_entity sv q s = Some e \<longrightarrow> rt_bound q = Some (en_version e)) \<and>
    (rt_sensitive q \<longrightarrow> rt_proposed_by q \<noteq> subject sv) \<and> q' = closed_by sv v reason q \<and>
    decide_task R sv' i v' reason' t = (Inl (HTTPException 409 ''task_not_open''), t)"
  using assms(4)
proof (cases rule: decide_task_cases)
  case (settled q q'')
  note q = find_task_Some [OF settled(1)]
  note s = settle_ok [OF assms(1-3) conjunct1 [OF q] settled(2,8)]
  have "tasks_ok R t" using s(1) by (simp add: sound_def store_ok_def)
  from closed_task_refused [OF this s(4), of sv' v' reason']
  have "decide_task R sv' i v' reason' t = (Inl (HTTPException 409 ''task_not_open''), t)"
    using q assms(5) s(3) by (simp add: closed_by_def)
  with settled s(3) show ?thesis
    by (auto simp: stale_approval_def own_proposal_def split: option.splits)
qed simp_all

text \<open>
  C8. An approval that was requested for another version of the entity is never applied: the
  decision raises, only the task changes, and it is closed as stale for good.
\<close>

theorem stale_approvals_are_never_applied:
  assumes "sound R s" "find_task sv i s = Some q" "rt_status q = OpenTask"
    and "v \<in> set (allowed_decisions (rt_kind q))" "reviewed_entity sv q s = Some e"
    and "rt_bound q \<noteq> Some (en_version e)"
  shows "decide_task R sv i v reason s = (Inl (HTTPException 409 ''stale_approval''), modify_task i expire s) \<and>
    decide_task R sv i v' reason' (modify_task i expire s) =
      (Inl (HTTPException 409 ''task_not_open''), modify_task i expire s)"
proof -
  note q = find_task_Some [OF assms(2)]
  have "decide_task R sv i v reason s = (Inl (HTTPException 409 ''stale_approval''), modify_task i expire s)"
    using assms q by (simp add: decide_task_def stale_approval_def)
  moreover have "tasks_ok R (modify_task i expire s)"
    by (rule tasks_ok_modify_task) (use assms(1) in \<open>simp_all add: sound_def store_ok_def\<close>)
  moreover have "expire q \<in> set (tasks (modify_task i expire s))"
    using q by (auto simp: modify_task_def set_row_modify)
  ultimately show ?thesis
    using closed_task_refused [of R "modify_task i expire s" "expire q" sv v' reason'] q
    by (simp add: expire_def)
qed

text \<open>
  C3. Approving a mastered record publishes the draft the task names and nothing else: exactly that
  draft becomes approved, in the decider's name, its entity becomes approved, and one pending
  \<open>master.approved\<close> event carries the draft's version and its values.
\<close>

theorem approval_publishes_the_reviewed_draft:
  assumes "inj (uuid R)" "strict_mono (clock R)" "sound R s" "find_task sv i s = Some q"
    and "rt_kind q = MasterApproval" "rt_payload q = MasterPayload n vals prov"
    and "decide_task R sv i Approve reason s = (Inr q', t)"
  shows "\<exists>d ev. d \<in> set (masters s) \<and> mv_status d = DraftMaster \<and> rt_entity q = Some (mv_entity d) \<and>
    mv_version d = n \<and> set (masters t) = insert (approve_version sv reason d) (set (masters s) - {d}) \<and>
    entities t = row_modify en_id (mv_entity d) (set_status ApprovedEntity) (entities s) \<and>
    events t = events s @ [ev] \<and> ev_type ev = ''master.approved'' \<and> ev_entity ev = Some (mv_entity d) \<and>
    ev_version ev = Some n \<and> ev_status ev = EventPending \<and> dget (ev_payload ev) ''values'' = JObj (mv_values d)"
  using assms(7)
proof (cases rule: decide_task_cases)
  case (settled r r')
  then have r: "r = q" using assms(4) by simp
  note q = find_task_Some [OF assms(4)]
  from settle_ok(5) [OF assms(1-3) conjunct1 [OF q] settled(2,8) [unfolded r]] obtain u where
    u: "decision_effect R sv q Approve reason s = Inr u" and
    t: "t = audit R sv (''review.'' @ verdict_name Approve) ''review_task'' (rt_id q)
      (JObj [(''reason'', JStr reason)]) (modify_task (rt_id q) (closed_by sv Approve reason) u)" by blast
  have "approve_master R sv q n reason s = Inr u"
    using u assms(5,6) by (simp add: decision_effect_def)
  from approve_master_ok(3) [OF assms(3) this] show ?thesis
    by (elim exE conjE) (simp only: t frame_simps, blast)
qed simp_all

text \<open>
  Objects a reviewer keeps apart stay apart: after the decision the pair is banned in both
  orders, in every later state that keeps what must be kept, and a proposed link between the two
  is refused there.
\<close>

theorem separated_objects_stay_separate:
  assumes "inj (uuid R)" "strict_mono (clock R)" "sound R s" "find_task sv i s = Some q"
    and "rt_kind q = DuplicateMatch" "rt_payload q = MatchPayload mp" "v \<noteq> LinkThem"
    and "mp_left_object mp = Some a" "mp_right_object mp = Some b" "a \<noteq> ''''" "b \<noteq> ''''"
    and "decide_task R sv i v reason s = (Inr q', t)"
  shows "is_cannot_link sv a b t \<and> is_cannot_link sv b a t \<and>
    (\<forall>u. keeps t u \<longrightarrow> is_cannot_link sv a b u \<and>
       (\<forall>x y. check_link R sv x y mp u \<noteq> Inr ()))"
  using assms(12)
proof (cases rule: decide_task_cases)
  case (settled r r')
  then have r: "r = q" using assms(4) by simp
  note q = find_task_Some [OF assms(4)]
  from settle_ok(5) [OF assms(1-3) conjunct1 [OF q] settled(2,8) [unfolded r]] obtain u where
    u: "decision_effect R sv q v reason s = Inr u" and
    t: "t = audit R sv (''review.'' @ verdict_name v) ''review_task'' (rt_id q)
      (JObj [(''reason'', JStr reason)]) (modify_task (rt_id q) (closed_by sv v reason) u)" by blast
  have "keep_separate R sv mp reason s = Inr u"
    using u assms(5-7) settled(4) r by (cases v) (auto simp: decision_effect_def allowed_decisions_def)
  from keep_separate_ok [OF assms(3) this] assms(8-11) have "is_cannot_link sv a b u" by blast
  moreover have bans: "is_cannot_link sv a b w" if "is_cannot_link sv a b u" "set (object_bans u) \<subseteq> set (object_bans w)" for u w
    using that by (auto simp: is_cannot_link_def split: prod.splits)
  moreover have "object_bans t = object_bans u" by (simp add: t frame_simps)
  ultimately have tb: "is_cannot_link sv a b t" by simp
  moreover have "is_cannot_link sv a b w \<and> (\<forall>x y. check_link R sv x y mp w \<noteq> Inr ())" if "keeps t w" for w
  proof -
    have "is_cannot_link sv a b w" using bans [OF tb] that by (simp add: keeps_def)
    then show ?thesis using check_link_Inr [of R sv _ _ mp w] assms(8,9) by auto
  qed
  ultimately show ?thesis using is_cannot_link_commute [of sv a b t] by simp
qed simp_all

text \<open>
  C4. Approving a configuration activates the draft whose checksum and simulation the task names,
  and only while the simulated data is unchanged. It is then the workspace's only active
  configuration; every domain it configures runs the canonical document of its compiled policy, the
  other domains are untouched, and one queued remastering job per configured domain names the
  policy's checksum.
\<close>

theorem activation_installs_exactly_the_simulated_configuration:
  assumes "inj (uuid R)" "strict_mono (clock R)" "sound R s" "find_task sv i s = Some q"
    and "rt_kind q = ConfigurationApproval" "rt_payload q = ConfigPayload cp"
    and "\<And>c. c \<in> set (configurations s) \<Longrightarrow> wf_json (JObj (cv_document c))"
    and "decide_task R sv i Approve reason s = (Inr q', t)"
  shows "\<exists>c sim ps js. c \<in> set (configurations s) \<and> cv_id c = cp_config cp \<and> cv_checksum c = cp_checksum cp \<and>
    cv_status c = DraftConfig \<and> sim \<in> set (simulations s) \<and> sm_id sim = cp_simulation cp \<and>
    sm_config sim = cv_id c \<and> dget (sm_result sim) ''snapshot_hash'' = JStr (snapshot_hash R sv s) \<and>
    active_configs (wid sv) t = [set_config_status ActiveConfig c] \<and>
    configuration_policies R sv (cv_document c) s = Inr ps \<and>
    (\<forall>(k, p) \<in> set ps. \<exists>d. find_domain sv k t = Some d \<and> dm_definition d = stored_definition p) \<and>
    (\<forall>k. k \<notin> fst ` set ps \<longrightarrow> find_domain sv k t = find_domain sv k s) \<and>
    jobs t = jobs s @ js \<and> list_all2 (queued_for sv (cv_id c)) ps js"
  using assms(8)
proof (cases rule: decide_task_cases)
  case (settled r r')
  then have r: "r = q" using assms(4) by simp
  note q = find_task_Some [OF assms(4)]
  from settle_ok(5) [OF assms(1-3) conjunct1 [OF q] settled(2,8) [unfolded r]] obtain u where
    u: "decision_effect R sv q Approve reason s = Inr u" and
    t: "t = audit R sv (''review.'' @ verdict_name Approve) ''review_task'' (rt_id q)
      (JObj [(''reason'', JStr reason)]) (modify_task (rt_id q) (closed_by sv Approve reason) u)" by blast
  have "activate_config R sv cp s = Inr u"
    using u assms(5,6) by (simp add: decision_effect_def)
  from activate_config_ok(5) [OF assms(2,3) this] obtain c m ps js where
    c: "bound_config sv cp s = Some (c, m)" "configuration_policies R sv (cv_document c) s = Inr ps"
      "active_configs (wid sv) u = [set_config_status ActiveConfig c]" "jobs u = jobs s @ js"
      "list_all2 (queued_for sv (cv_id c)) ps js" and
    d: "distinct (map fst ps) \<longrightarrow> (\<forall>(k, p) \<in> set ps. \<exists>d. find_domain sv k u = Some d \<and>
          dm_definition d = stored_definition p)" and
    o': "\<forall>k. k \<notin> fst ` set ps \<longrightarrow> find_domain sv k u = find_domain sv k s" by blast
  note b = bound_config_Some [OF c(1)]
  have "distinct (map fst ps)" using configuration_policies_distinct [OF assms(7) c(2)] b by blast
  moreover have "fresh_simulation R sv m s"
    using settled(7) c(1) assms(5,6) by (simp add: r stale_simulation_def)
  moreover have "find_domain sv k t = find_domain sv k u" for k by (simp add: t find_domain_def frame_simps)
  moreover have "active_configs (wid sv) t = active_configs (wid sv) u" "jobs t = jobs u"
    by (simp_all add: t active_configs_def frame_simps)
  ultimately show ?thesis using b c d o'
    by (intro exI [of _ c] exI [of _ m] exI [of _ ps] exI [of _ js]) (auto simp: fresh_simulation_def)
qed simp_all

section \<open>Witnesses\<close>

text \<open>A desk with one entity, its draft, a configuration and a task of each kind.\<close>

definition desk_task :: "ident \<Rightarrow> task_kind \<Rightarrow> ident option \<Rightarrow> int option \<Rightarrow> payload \<Rightarrow> review_task" where
  "desk_task i kind en bound pay =
     \<lparr>rt_id = i, rt_ws = ''w1'', rt_kind = kind, rt_entity = en, rt_status = OpenTask,
      rt_priority = ''high'', rt_assignee = None, rt_proposed_by = ''bo'', rt_payload = pay,
      rt_bound = bound, rt_sensitive = True, rt_reason = None, rt_decided_by = None, rt_due = None\<rparr>"

definition desk_draft :: master_version where
  "desk_draft = \<lparr>mv_id = ''u2'', mv_ws = ''w1'', mv_entity = ''u1'', mv_version = 1,
     mv_status = DraftMaster, mv_values = [(''name'', JStr ''Acme'')], mv_provenance = [],
     mv_reason = None, mv_approved_by = None\<rparr>"

definition desk_config :: configuration where
  "desk_config = \<lparr>cv_id = ''u5'', cv_ws = ''w1'', cv_version = 1, cv_status = DraftConfig,
     cv_checksum = canonical_hash ascii_runtime (JObj [(''domains'', JObj [(''supplier'', JObj tax_definition)])]),
     cv_document = [(''domains'', JObj [(''supplier'', JObj tax_definition)])], cv_by = ''bo''\<rparr>"

definition desk_match :: match_payload where
  "desk_match = \<lparr>mp_left_record = ''x'', mp_right_record = ''y'', mp_left_object = Some ''a'',
     mp_right_object = Some ''b'', mp_target = ''u1'', mp_bound_target = 1, mp_evidence = []\<rparr>"

definition desk_approval :: config_payload where
  "desk_approval = \<lparr>cp_config = ''u5'', cp_version = 1, cp_checksum = cv_checksum desk_config,
     cp_simulation = ''u6'', cp_checkpoint = 0, cp_impact = []\<rparr>"

definition desk_base :: db where
  "desk_base = empty_db\<lparr>domains := [demo_domain\<lparr>dm_id := ''u0''\<rparr>], entities := [demo_entity ''u1''],
     masters := [desk_draft], configurations := [desk_config],
     tasks := [desk_task ''u3'' MasterApproval (Some ''u1'') (Some 1) (MasterPayload 1 (mv_values desk_draft) []),
               desk_task ''u4'' DuplicateMatch (Some ''u1'') (Some 1) (MatchPayload desk_match),
               desk_task ''u7'' ConfigurationApproval None None (ConfigPayload desk_approval),
               desk_task ''u8'' MergeApproval (Some ''u1'') (Some 7) (MergePayload pair_merge)],
     ticks := 9\<rparr>"

definition desk_simulation :: simulation where
  "desk_simulation = \<lparr>sm_id = ''u6'', sm_ws = ''w1'', sm_config = ''u5'', sm_checkpoint = 0,
     sm_result = [(''snapshot_hash'', JStr (snapshot_hash ascii_runtime demo_service desk_base))],
     sm_sample = False, sm_created = 0\<rparr>"

definition desk_db :: db where
  "desk_db = desk_base\<lparr>simulations := [desk_simulation]\<rparr>"

lemma numbered_id: "n < ticks s \<Longrightarrow> drawn ascii_runtime s (''u'' @ digits_of n)"
  by (simp add: first_ids)

lemma desk_ids:
  "drawn ascii_runtime desk_db ''u0''" "drawn ascii_runtime desk_db ''u1''"
  "drawn ascii_runtime desk_db ''u2''" "drawn ascii_runtime desk_db ''u3''"
  "drawn ascii_runtime desk_db ''u4''" "drawn ascii_runtime desk_db ''u5''"
  "drawn ascii_runtime desk_db ''u7''" "drawn ascii_runtime desk_db ''u8''"
proof -
  have d: "map digits_of [0, 1, 2, 3, 4, 5, 7, 8] = [''0'', ''1'', ''2'', ''3'', ''4'', ''5'', ''7'', ''8'']"
    by code_simp
  have "drawn ascii_runtime desk_db (''u'' @ digits_of n)" if "n < 9" for n
    by (rule numbered_id) (use that in \<open>simp add: desk_db_def desk_base_def\<close>)
  from this [of 0] this [of 1] this [of 2] this [of 3] this [of 4] this [of 5] this [of 7] this [of 8] d
  show "drawn ascii_runtime desk_db ''u0''" "drawn ascii_runtime desk_db ''u1''"
    "drawn ascii_runtime desk_db ''u2''" "drawn ascii_runtime desk_db ''u3''"
    "drawn ascii_runtime desk_db ''u4''" "drawn ascii_runtime desk_db ''u5''"
    "drawn ascii_runtime desk_db ''u7''" "drawn ascii_runtime desk_db ''u8''" by simp_all
qed

lemma desk_task_fields [simp]:
  "rt_id (desk_task i k en b p) = i" "rt_kind (desk_task i k en b p) = k"
  "rt_entity (desk_task i k en b p) = en" "rt_status (desk_task i k en b p) = OpenTask"
  "rt_payload (desk_task i k en b p) = p" "rt_bound (desk_task i k en b p) = b"
  "rt_ws (desk_task i k en b p) = ''w1''" "rt_proposed_by (desk_task i k en b p) = ''bo''"
  by (simp_all add: desk_task_def)

lemma desk_rows:
  "tasks desk_db = [desk_task ''u3'' MasterApproval (Some ''u1'') (Some 1) (MasterPayload 1 (mv_values desk_draft) []),
     desk_task ''u4'' DuplicateMatch (Some ''u1'') (Some 1) (MatchPayload desk_match),
     desk_task ''u7'' ConfigurationApproval None None (ConfigPayload desk_approval),
     desk_task ''u8'' MergeApproval (Some ''u1'') (Some 7) (MergePayload pair_merge)]"
  "masters desk_db = [desk_draft]" "entities desk_db = [demo_entity ''u1'']"
  "configurations desk_db = [desk_config]" "simulations desk_db = [desk_simulation]"
  "domains desk_db = [demo_domain\<lparr>dm_id := ''u0''\<rparr>]" "objects desk_db = []" "history desk_db = []"
  "records desk_db = []" "metas desk_db = []" "audits desk_db = []" "object_bans desk_db = []"
  by (simp_all add: desk_db_def desk_base_def empty_db_def)

lemma desk_sound: "sound ascii_runtime desk_db"
proof -
  have "length (open_masters ws en desk_db) \<le> 1" for ws en
    by (simp add: open_masters_def is_open_master_def desk_rows)
  moreover have "\<forall>t \<in> set (tasks desk_db). drawn ascii_runtime desk_db (rt_id t)"
    using desk_ids by (simp add: desk_rows)
  ultimately have "tasks_ok ascii_runtime desk_db" by (simp add: tasks_ok_def desk_rows)
  moreover have "versions_ok ascii_runtime desk_db" "entities_ok ascii_runtime desk_db"
    using desk_ids by (simp_all add: versions_ok_def entities_ok_def desk_rows desk_draft_def demo_entity_def)
  moreover have "membership_ok ascii_runtime desk_db" "records_ok ascii_runtime desk_db" "references_ok desk_db"
    by (simp_all add: membership_ok_def members_def records_ok_def references_ok_def desk_rows)
  ultimately have "store_ok ascii_runtime desk_db" by (simp add: store_ok_def)
  moreover have "audit_ok ascii_runtime desk_db" by (simp add: audit_ok_def trail_def desk_rows)
  moreover have "configs_ok ascii_runtime desk_db"
    using desk_ids by (simp add: configs_ok_def config_ids_ok_def active_configs_def desk_rows desk_config_def)
  ultimately show ?thesis by (simp add: sound_def)
qed

lemma desk_tasks:
  "find_task demo_service ''u3'' desk_db =
     Some (desk_task ''u3'' MasterApproval (Some ''u1'') (Some 1) (MasterPayload 1 (mv_values desk_draft) []))"
  "find_task demo_service ''u4'' desk_db =
     Some (desk_task ''u4'' DuplicateMatch (Some ''u1'') (Some 1) (MatchPayload desk_match))"
  "find_task demo_service ''u7'' desk_db =
     Some (desk_task ''u7'' ConfigurationApproval None None (ConfigPayload desk_approval))"
  "find_task demo_service ''u8'' desk_db =
     Some (desk_task ''u8'' MergeApproval (Some ''u1'') (Some 7) (MergePayload pair_merge))"
  by (simp_all add: find_task_def desk_rows demo_service_def)

lemma desk_entity: "reviewed_entity demo_service (desk_task i k (Some ''u1'') b p) desk_db = Some (demo_entity ''u1'')"
  "reviewed_entity demo_service (desk_task i k None b p) desk_db = None"
  by (simp_all add: reviewed_entity_def desk_rows demo_service_def demo_entity_def)

lemma desk_open:
  "\<not> own_proposal demo_service (desk_task i k en b p)"
  "stale_approval demo_service (desk_task i k (Some ''u1'') b p) desk_db \<longleftrightarrow> b \<noteq> Some 1"
  "\<not> stale_approval demo_service (desk_task i k None b p) desk_db"
  by (simp_all add: own_proposal_def stale_approval_def desk_entity)
    (simp_all add: demo_service_def demo_entity_def)

text \<open>An open task that passes the checks is decided when its effect applies.\<close>

lemma decide_task_applies:
  assumes "find_task sv i s = Some q" "rt_status q = OpenTask" "v \<in> set (allowed_decisions (rt_kind q))"
    and "\<not> stale_approval sv q s" "\<not> own_proposal sv q" "\<not> stale_simulation R sv q v s"
    and "decision_effect R sv q v reason s = Inr u"
  shows "\<exists>q' t. decide_task R sv i v reason s = (Inr q', t)"
  using assms by (simp add: decide_task_def commit_op_def settle_def)

lemma desk_master_decided:
  "\<exists>q t. decide_task ascii_runtime demo_service ''u3'' Approve ''ok'' desk_db = (Inr q, t)"
proof -
  let ?q = "desk_task ''u3'' MasterApproval (Some ''u1'') (Some 1) (MasterPayload 1 (mv_values desk_draft) [])"
  have "find_draft (Some ''u1'') 1 desk_db = Some desk_draft"
    by (simp add: find_draft_def desk_rows desk_draft_def)
  then have "\<exists>u. decision_effect ascii_runtime demo_service ?q Approve ''ok'' desk_db = Inr u"
    by (simp add: decision_effect_def approve_master_def desk_entity Let_def)
  then show ?thesis
    using decide_task_applies [OF desk_tasks(1), of Approve] desk_open
    by (auto simp: allowed_decisions_def stale_simulation_def)
qed

lemma desk_match_decided:
  "\<exists>q t. decide_task ascii_runtime demo_service ''u4'' KeepThemSeparate ''no'' desk_db = (Inr q, t)"
proof -
  let ?q = "desk_task ''u4'' DuplicateMatch (Some ''u1'') (Some 1) (MatchPayload desk_match)"
  have "\<exists>u. decision_effect ascii_runtime demo_service ?q KeepThemSeparate ''no'' desk_db = Inr u"
    by (simp add: decision_effect_def keep_separate_def desk_match_def truthy_str_def ban_def desk_rows
        split: prod.split)
  then show ?thesis
    using decide_task_applies [OF desk_tasks(2), of KeepThemSeparate] desk_open
    by (auto simp: allowed_decisions_def stale_simulation_def)
qed

lemma desk_bound: "bound_config demo_service desk_approval desk_db = Some (desk_config, desk_simulation)"
  by (simp add: bound_config_def find_draft_config_def find_simulation_def desk_rows desk_approval_def)
    (simp add: desk_config_def desk_simulation_def demo_service_def)

lemma desk_fresh: "fresh_simulation ascii_runtime demo_service desk_simulation desk_db"
proof -
  have "snapshot_document R sv desk_db = snapshot_document R sv desk_base" for R sv
    by (simp add: snapshot_document_def desk_db_def)
  then show ?thesis by (simp add: fresh_simulation_def desk_simulation_def snapshot_hash_def dget_def)
qed

lemma desk_policies:
  assumes "domains s = [demo_domain\<lparr>dm_id := ''u0''\<rparr>]"
  shows "\<exists>p. configuration_policies ascii_runtime demo_service (cv_document desk_config) s = Inr [(''supplier'', p)]"
proof -
  obtain p where "compile_policy ascii_runtime tax_definition = Inr p" using tax_definition_compiles by blast
  then show ?thesis
    by (simp add: configuration_policies_def mapping_policies_def desk_config_def compile_value_def
        known_domain_def find_domain_def assms dget_def dkeys_def demo_domain_def demo_service_def as_dict_def)
qed

lemma desk_config_decided:
  "\<exists>q t. decide_task ascii_runtime demo_service ''u7'' Approve ''ok'' desk_db = (Inr q, t)"
proof -
  let ?q = "desk_task ''u7'' ConfigurationApproval None None (ConfigPayload desk_approval)"
  let ?s = "activate demo_service (cv_id desk_config) desk_db"
  have doms: "domains ?s = [demo_domain\<lparr>dm_id := ''u0''\<rparr>]" by (simp add: activate_def desk_rows)
  obtain p where "configuration_policies ascii_runtime demo_service (cv_document desk_config) ?s = Inr [(''supplier'', p)]"
    using desk_policies [OF doms] by blast
  moreover have "find_domain demo_service ''supplier'' ?s = Some (demo_domain\<lparr>dm_id := ''u0''\<rparr>)"
    unfolding find_domain_def doms by (simp add: demo_domain_def demo_service_def)
  ultimately have "\<exists>u. decision_effect ascii_runtime demo_service ?q Approve ''ok'' desk_db = Inr u"
    by (simp add: decision_effect_def activate_config_def desk_bound install_policy_def Let_def)
  then show ?thesis
    using decide_task_applies [OF desk_tasks(3), of Approve] desk_open desk_fresh
    by (auto simp: allowed_decisions_def stale_simulation_def desk_bound)
qed

theorem every_decision_keeps_the_workspace_sound_witness:
  "\<exists>r t. decide_task ascii_runtime demo_service ''u3'' Approve ''ok'' desk_db = (r, t) \<and> sound ascii_runtime t \<and>
     keeps desk_db t"
proof -
  obtain q t where d: "decide_task ascii_runtime demo_service ''u3'' Approve ''ok'' desk_db = (Inr q, t)"
    using desk_master_decided by blast
  from every_decision_keeps_the_workspace_sound [OF ascii_uuid ascii_clock desk_sound d] d show ?thesis by blast
qed

theorem decisions_follow_the_review_rules_witness:
  "\<exists>q t. decide_task ascii_runtime demo_service ''u3'' Approve ''ok'' desk_db = (Inr q, t) \<and>
     decide_task ascii_runtime demo_service ''u3'' Reject ''no'' t =
       (Inl (HTTPException 409 ''task_not_open''), t)"
proof -
  obtain q t where d: "decide_task ascii_runtime demo_service ''u3'' Approve ''ok'' desk_db = (Inr q, t)"
    using desk_master_decided by blast
  from decisions_follow_the_review_rules [OF ascii_uuid ascii_clock desk_sound d refl] d show ?thesis by blast
qed

theorem stale_approvals_are_never_applied_witness:
  "decide_task ascii_runtime demo_service ''u8'' Approve ''ok'' desk_db =
     (Inl (HTTPException 409 ''stale_approval''), modify_task ''u8'' expire desk_db)"
  using stale_approvals_are_never_applied [OF desk_sound desk_tasks(4) _ _ desk_entity(1), of Approve]
  by (simp add: allowed_decisions_def) (simp add: demo_entity_def)

theorem approval_publishes_the_reviewed_draft_witness:
  "\<exists>q t. decide_task ascii_runtime demo_service ''u3'' Approve ''ok'' desk_db = (Inr q, t) \<and>
     length (events t) = 1"
proof -
  obtain q t where d: "decide_task ascii_runtime demo_service ''u3'' Approve ''ok'' desk_db = (Inr q, t)"
    using desk_master_decided by blast
  have "events desk_db = []" by (simp add: desk_db_def desk_base_def empty_db_def)
  with approval_publishes_the_reviewed_draft [OF ascii_uuid ascii_clock desk_sound desk_tasks(1) _ _ d] d
  show ?thesis by auto
qed

theorem separated_objects_stay_separate_witness:
  "\<exists>q t. decide_task ascii_runtime demo_service ''u4'' KeepThemSeparate ''no'' desk_db = (Inr q, t) \<and>
     is_cannot_link demo_service ''b'' ''a'' t"
proof -
  obtain q t where d: "decide_task ascii_runtime demo_service ''u4'' KeepThemSeparate ''no'' desk_db = (Inr q, t)"
    using desk_match_decided by blast
  have "mp_left_object desk_match = Some ''a''" "mp_right_object desk_match = Some ''b''"
    by (simp_all add: desk_match_def)
  from separated_objects_stay_separate [OF ascii_uuid ascii_clock desk_sound desk_tasks(2) _ _ _ this _ _ d] d
  show ?thesis by auto
qed

theorem activation_installs_exactly_the_simulated_configuration_witness:
  "\<exists>q t. decide_task ascii_runtime demo_service ''u7'' Approve ''ok'' desk_db = (Inr q, t) \<and>
     map cv_id (active_configs (wid demo_service) t) = [''u5'']"
proof -
  obtain q t where d: "decide_task ascii_runtime demo_service ''u7'' Approve ''ok'' desk_db = (Inr q, t)"
    using desk_config_decided by blast
  have "wf_json (JObj (cv_document desk_config))"
    by (simp add: desk_config_def tax_definition_def)
  then have "wf_json (JObj (cv_document c))" if "c \<in> set (configurations desk_db)" for c
    using that by (simp add: desk_rows)
  from activation_installs_exactly_the_simulated_configuration
    [OF ascii_uuid ascii_clock desk_sound desk_tasks(3) _ _ this d]
  obtain c where "cv_id c = cp_config desk_approval"
    "active_configs (wid demo_service) t = [set_config_status ActiveConfig c]" by auto
  with d show ?thesis by (simp add: desk_approval_def set_config_status_def)
qed

end
