(* ===== verification/Remaster.thy ===== *)
theory Remaster
  imports Decisions
begin

text \<open>
  The remastering of a domain, the handler behind \<open>remaster_domain\<close> jobs (jobs/worker.py): the
  candidate index is rebuilt and every stored normal form renewed under the domain's policy, then
  every live entity gets a new version and a new draft.
\<close>

section \<open>The handler\<close>

definition job_service :: "job \<Rightarrow> db \<Rightarrow> service res" where
  "job_service j s =
     bind_res (from_option (PyError ''ValueError'') (row_get ws_id (jb_ws j) (workspaces s))) (\<lambda>w.
     Inr \<lparr>wid = ws_id w, subject = ''recordlane.worker'', roles = [''administrator'']\<rparr>)"

definition clear_blocks :: "service \<Rightarrow> string \<Rightarrow> db \<Rightarrow> db" where
  "clear_blocks sv dk s = s\<lparr>blocks := filter (\<lambda>c. \<not> (cb_ws c = wid sv \<and> cb_domain c = dk)) (blocks s)\<rparr>"

definition renew_record :: "ident \<Rightarrow> dict \<Rightarrow> string list \<Rightarrow> db \<Rightarrow> db" where
  "renew_record i d keys s =
     s\<lparr>records := row_modify sr_id i
         (\<lambda>r. r\<lparr>sr_normalized := d, sr_block := (case keys of k # _ \<Rightarrow> k | [] \<Rightarrow> [])\<rparr>) (records s)\<rparr>"

definition reindex_object ::
    "runtime \<Rightarrow> service \<Rightarrow> string \<Rightarrow> compiled_policy \<Rightarrow> source_object \<Rightarrow> int \<times> db \<Rightarrow> (int \<times> db) res" where
  "reindex_object R sv dk p b st = (case st of (n, s) \<Rightarrow>
     (case Option.bind (ob_current b) (\<lambda>i. row_get sr_id i (records s)) of
        None \<Rightarrow> Inr (n, s)
      | Some r \<Rightarrow>
          bind_res (normalize R p (sr_original r)) (\<lambda>d.
          bind_res (blocking_keys R p d) (\<lambda>keys.
          Inr (n + int (length keys),
               add_blocks R sv dk (ob_id b) (sr_id r) keys (renew_record (sr_id r) d keys s))))))"

definition remaster_entities :: "runtime \<Rightarrow> service \<Rightarrow> ident list \<Rightarrow> db \<Rightarrow> db res" where
  "remaster_entities R sv is s = fold_res (touch_entity R sv) is s"

definition remaster_result :: "int \<Rightarrow> int \<Rightarrow> int \<Rightarrow> dict" where
  "remaster_result n keys m =
     [(''source_objects'', JInt n), (''candidate_keys'', JInt keys), (''entities'', JInt m)]"

definition remaster_domain :: "runtime \<Rightarrow> job \<Rightarrow> dict op" where
  "remaster_domain R j s =
     bind_res (job_service j s) (\<lambda>sv.
     bind_res (dindex (jb_payload j) ''domain_key'') (\<lambda>k.
     let dk = py_str R k in
     bind_res (from_option (PyError ''ValueError'') (find_domain sv dk s)) (\<lambda>domain.
     bind_res (compile_policy R (dm_definition domain)) (\<lambda>p.
     bind_res (guard_res (dget (jb_payload j) ''policy_checksum'' = JStr (checksum p))
       (PyError ''ValueError'')) (\<lambda>_.
     let objects' = active_objects sv dk s in
     bind_res (fold_res (reindex_object R sv dk p) objects' (0, clear_blocks sv dk s)) (\<lambda>(n, s1).
     let live = map en_id (sort_key en_id (live_entities sv dk s1)) in
     bind_res (remaster_entities R sv live s1) (\<lambda>s2.
     let counts' = remaster_result (int (length objects')) n (int (length live)) in
     Inr (counts', audit R sv ''domain.remastered'' ''domain'' (dm_id domain)
       (JObj ([(''job_id'', JStr (jb_id j)), (''policy_checksum'', JStr (checksum p))] @ counts')) s2))))))))"

section \<open>The index\<close>

definition block_content :: "candidate_block \<Rightarrow> ident \<times> string \<times> ident \<times> ident \<times> string" where
  "block_content c = (cb_ws c, cb_domain c, cb_object c, cb_record c, cb_key c)"

text \<open>What the index should hold for one object: the keys of its current record's normal form.\<close>

definition index_entries ::
    "runtime \<Rightarrow> service \<Rightarrow> string \<Rightarrow> compiled_policy \<Rightarrow> source_record list \<Rightarrow> source_object \<Rightarrow>
     (ident \<times> string \<times> ident \<times> ident \<times> string) list" where
  "index_entries R sv dk p rs b =
     (case Option.bind (ob_current b) (\<lambda>i. row_get sr_id i rs) of
        None \<Rightarrow> []
      | Some r \<Rightarrow> (case bind_res (normalize R p (sr_original r)) (blocking_keys R p) of
            Inl e \<Rightarrow> []
          | Inr keys \<Rightarrow> map (\<lambda>k. (wid sv, dk, ob_id b, sr_id r, k)) keys))"

lemma add_blocks_content:
  "map block_content (blocks (add_blocks R sv dk i r keys s)) =
     map block_content (blocks s) @ map (\<lambda>k. (wid sv, dk, i, r, k)) keys"
  by (induction keys arbitrary: s) (simp_all add: row_add_def block_content_def)

lemma add_blocks_only: "\<exists>cs. add_blocks R sv dk i r keys s = s\<lparr>blocks := cs, ticks := ticks s + length keys\<rparr>"
proof (induction keys arbitrary: s)
  case Nil
  show ?case by (rule exI [of _ "blocks s"]) simp
next
  case (Cons k keys)
  let ?u = "s\<lparr>blocks := row_add \<lparr>cb_id = next_id R s, cb_ws = wid sv, cb_domain = dk, cb_object = i,
      cb_record = r, cb_key = k\<rparr> (blocks s), ticks := Suc (ticks s)\<rparr>"
  from Cons.IH [of ?u] obtain cs where
    "add_blocks R sv dk i r keys ?u = ?u\<lparr>blocks := cs, ticks := ticks ?u + length keys\<rparr>" by blast
  then have "add_blocks R sv dk i r (k # keys) s = s\<lparr>blocks := cs, ticks := ticks s + length (k # keys)\<rparr>"
    by simp
  then show ?case by blast
qed

definition original_of :: "source_record \<Rightarrow> ident \<times> dict" where
  "original_of r = (sr_id r, sr_original r)"

lemma row_get_original:
  assumes "map original_of rs = map original_of rs'"
  shows "map_option original_of (row_get sr_id i rs) = map_option original_of (row_get sr_id i rs')"
  using assms
proof (induction rs arbitrary: rs')
  case Nil
  then show ?case by simp
next
  case (Cons r rs)
  from Cons.prems obtain q qs where q: "rs' = q # qs" "original_of r = original_of q"
    "map original_of rs = map original_of qs" by (auto simp: Cons_eq_map_conv)
  from q(2) have "sr_id r = sr_id q" by (simp add: original_of_def)
  with Cons.IH [OF q(3)] q show ?case by (simp add: row_get_def)
qed

lemma index_entries_cong:
  assumes "map original_of rs = map original_of rs'"
  shows "index_entries R sv dk p rs b = index_entries R sv dk p rs' b"
proof (cases "ob_current b")
  case None
  then show ?thesis by (simp add: index_entries_def)
next
  case (Some i)
  with row_get_original [OF assms, of i] show ?thesis
    by (cases "row_get sr_id i rs"; cases "row_get sr_id i rs'")
      (auto simp: index_entries_def original_of_def split: sum.split)
qed

definition renewed :: "source_record list \<Rightarrow> source_record list \<Rightarrow> bool" where
  "renewed rs rs' \<longleftrightarrow> map observed_content rs' = map observed_content rs \<and>
     map sr_entity rs' = map sr_entity rs \<and> map original_of rs' = map original_of rs \<and>
     map sr_id rs' = map sr_id rs"

lemma renewed_refl [simp]: "renewed rs rs"
  by (simp add: renewed_def)

lemma renewed_trans: "renewed a b \<Longrightarrow> renewed b c \<Longrightarrow> renewed a c"
  by (simp add: renewed_def)

lemma renewed_record: "renewed (records s) (records (renew_record i d keys s))"
  by (simp add: renewed_def renew_record_def row_modify_def update_rows_key observed_content_def original_of_def)

lemma reindex_object_ok:
  assumes "reindex_object R sv dk p b (n, s) = Inr (m, t)" "distinct (map sr_id (records s))"
  shows "(\<exists>rs cs k. t = s\<lparr>records := rs, blocks := cs, ticks := ticks s + k\<rparr>)"
    "renewed (records s) (records t)"
    "map block_content (blocks t) = map block_content (blocks s) @ index_entries R sv dk p (records s) b"
    "m = n + int (length (index_entries R sv dk p (records s) b))"
    "\<And>r. Option.bind (ob_current b) (\<lambda>i. row_get sr_id i (records t)) = Some r \<Longrightarrow> normalized_by R p r"
    "\<And>r. r \<in> set (records t) \<Longrightarrow> r \<in> set (records s) \<or> normalized_by R p r"
proof -
  have "(\<exists>rs cs k. t = s\<lparr>records := rs, blocks := cs, ticks := ticks s + k\<rparr>) \<and>
    renewed (records s) (records t) \<and>
    map block_content (blocks t) = map block_content (blocks s) @ index_entries R sv dk p (records s) b \<and>
    m = n + int (length (index_entries R sv dk p (records s) b)) \<and>
    (\<forall>r. Option.bind (ob_current b) (\<lambda>i. row_get sr_id i (records t)) = Some r \<longrightarrow> normalized_by R p r) \<and>
    (\<forall>r \<in> set (records t). r \<in> set (records s) \<or> normalized_by R p r)"
  proof (cases "Option.bind (ob_current b) (\<lambda>i. row_get sr_id i (records s))")
    case None
    have "s = s\<lparr>records := records s, blocks := blocks s, ticks := ticks s + 0\<rparr>" by simp
    then have "\<exists>rs cs k. s = s\<lparr>records := rs, blocks := cs, ticks := ticks s + k\<rparr>" by metis
    with assms(1) None show ?thesis by (simp add: reindex_object_def index_entries_def)
  next
    case (Some r)
    then obtain i where i: "ob_current b = Some i" "row_get sr_id i (records s) = Some r"
      by (auto simp: bind_eq_Some_conv)
    note ri = row_get_key [OF i(2)] row_get_mem [OF i(2)]
    from assms(1) Some obtain d keys where d: "normalize R p (sr_original r) = Inr d"
      and keys: "blocking_keys R p d = Inr keys" and m: "m = n + int (length keys)"
      and t: "t = add_blocks R sv dk (ob_id b) (sr_id r) keys (renew_record (sr_id r) d keys s)"
      by (auto simp: reindex_object_def res_elim)
    let ?u = "renew_record (sr_id r) d keys s"
    obtain cs where cs: "t = ?u\<lparr>blocks := cs, ticks := ticks ?u + length keys\<rparr>"
      using add_blocks_only [of R sv dk "ob_id b" "sr_id r" keys ?u] t by blast
    have rt: "records t = records ?u" by (simp add: cs)
    have entries: "index_entries R sv dk p (records s) b = map (\<lambda>k. (wid sv, dk, ob_id b, sr_id r, k)) keys"
      by (simp add: index_entries_def Some d keys)
    have same: "q = r" if "q \<in> set (records s)" "sr_id q = sr_id r" for q
      using find_key_unique [OF assms(2) that(1) ri(2) that(2)] .
    have new: "q \<in> set (records s) \<or> normalized_by R p q" if "q \<in> set (records t)" for q
      using that d unfolding rt by (auto simp: renew_record_def set_row_modify normalized_by_def dest: same)
    have "normalized_by R p q" if "row_get sr_id i (records t) = Some q" for q
    proof -
      have "row_get sr_id i (records ?u) = map_option (\<lambda>r. r\<lparr>sr_normalized := d,
          sr_block := (case keys of k # _ \<Rightarrow> k | [] \<Rightarrow> [])\<rparr>) (row_get sr_id i (records s))"
        unfolding renew_record_def by (simp add: row_get_modify ri(1))
      with that d show ?thesis by (auto simp: rt i(2) normalized_by_def)
    qed
    moreover have "t = s\<lparr>records := records ?u, blocks := cs, ticks := ticks s + length keys\<rparr>"
      by (simp add: cs renew_record_def)
    then have "\<exists>rs cs k. t = s\<lparr>records := rs, blocks := cs, ticks := ticks s + k\<rparr>" by blast
    moreover have "map block_content (blocks t) = map block_content (blocks s) @
        map (\<lambda>k. (wid sv, dk, ob_id b, sr_id r, k)) keys"
      unfolding t add_blocks_content by (simp add: renew_record_def)
    ultimately show ?thesis
      using renewed_record [of s "sr_id r" d keys] new m i by (auto simp: entries rt)
  qed
  then show "(\<exists>rs cs k. t = s\<lparr>records := rs, blocks := cs, ticks := ticks s + k\<rparr>)"
    "renewed (records s) (records t)"
    "map block_content (blocks t) = map block_content (blocks s) @ index_entries R sv dk p (records s) b"
    "m = n + int (length (index_entries R sv dk p (records s) b))"
    "\<And>r. Option.bind (ob_current b) (\<lambda>i. row_get sr_id i (records t)) = Some r \<Longrightarrow> normalized_by R p r"
    "\<And>r. r \<in> set (records t) \<Longrightarrow> r \<in> set (records s) \<or> normalized_by R p r" by blast+
qed

lemma fold_reindex_ok:
  assumes "fold_res (reindex_object R sv dk p) bs (n, s) = Inr (m, t)" "distinct (map sr_id (records s))"
  shows "(\<exists>rs cs k. t = s\<lparr>records := rs, blocks := cs, ticks := ticks s + k\<rparr>) \<and>
    renewed (records s) (records t) \<and>
    map block_content (blocks t) =
      map block_content (blocks s) @ concat (map (index_entries R sv dk p (records s)) bs) \<and>
    m = n + int (length (concat (map (index_entries R sv dk p (records s)) bs))) \<and>
    (\<forall>b \<in> set bs. \<forall>r. Option.bind (ob_current b) (\<lambda>i. row_get sr_id i (records t)) = Some r \<longrightarrow>
       normalized_by R p r) \<and>
    (\<forall>r \<in> set (records t). r \<in> set (records s) \<or> normalized_by R p r)"
  using assms
proof (induction bs arbitrary: n s)
  case Nil
  then have "t = s\<lparr>records := records s, blocks := blocks s, ticks := ticks s + 0\<rparr>" by simp
  then have "\<exists>rs cs k. t = s\<lparr>records := rs, blocks := cs, ticks := ticks s + k\<rparr>" by metis
  with Nil show ?case by simp
next
  case (Cons b bs)
  from Cons.prems(1) obtain k u where one: "reindex_object R sv dk p b (n, s) = Inr (k, u)"
    and rest: "fold_res (reindex_object R sv dk p) bs (k, u) = Inr (m, t)" by (auto simp: res_elim)
  note o = reindex_object_ok [OF one Cons.prems(2)]
  have d: "distinct (map sr_id (records u))" using o(2) Cons.prems(2) by (simp add: renewed_def)
  note ih = Cons.IH [OF rest d]
  have "index_entries R sv dk p (records u) c = index_entries R sv dk p (records s) c" for c
    by (rule index_entries_cong) (use o(2) in \<open>simp add: renewed_def\<close>)
  then have entries: "index_entries R sv dk p (records u) = index_entries R sv dk p (records s)" by blast
  have "\<exists>rs cs k. t = s\<lparr>records := rs, blocks := cs, ticks := ticks s + k\<rparr>"
  proof -
    from o(1) obtain rs cs k where u: "u = s\<lparr>records := rs, blocks := cs, ticks := ticks s + k\<rparr>" by blast
    from ih obtain rs' cs' k' where "t = u\<lparr>records := rs', blocks := cs', ticks := ticks u + k'\<rparr>" by blast
    then have "t = s\<lparr>records := rs', blocks := cs', ticks := ticks s + (k + k')\<rparr>" by (simp add: u)
    then show ?thesis by blast
  qed
  moreover have "normalized_by R p r"
    if "Option.bind (ob_current b) (\<lambda>i. row_get sr_id i (records t)) = Some r" for r
  proof -
    from that obtain i where i: "ob_current b = Some i" "row_get sr_id i (records t) = Some r"
      by (auto simp: bind_eq_Some_conv)
    note rt = row_get_mem [OF i(2)] row_get_key [OF i(2)]
    from ih rt(1) have "r \<in> set (records u) \<or> normalized_by R p r" by blast
    then show ?thesis
    proof
      assume "r \<in> set (records u)"
      then have "row_get sr_id i (records u) = Some r" using row_get_distinct [OF d, of r] rt(2) by simp
      with o(5) i(1) show ?thesis by simp
    qed
  qed
  moreover have "renewed (records s) (records t)" using ih renewed_trans [OF o(2)] by blast
  moreover have "r \<in> set (records s) \<or> normalized_by R p r" if "r \<in> set (records t)" for r
    using ih o(6) that by blast
  moreover have "map block_content (blocks t) =
      map block_content (blocks s) @ concat (map (index_entries R sv dk p (records s)) (b # bs))"
    "m = n + int (length (concat (map (index_entries R sv dk p (records s)) (b # bs))))"
    using ih o(3,4) by (simp_all add: entries)
  ultimately show ?case using ih by simp
qed

section \<open>What remastering keeps\<close>

text \<open>
  Drafting for the entities \<open>is\<close>: one draft each, in that order; no version and no task goes away,
  and only the open approval tasks of these entities change.
\<close>

definition drafted :: "service \<Rightarrow> ident list \<Rightarrow> db \<Rightarrow> db \<Rightarrow> bool" where
  "drafted sv is s t \<longleftrightarrow>
     (\<exists>ds. masters t = masters s @ ds \<and> map mv_entity ds = is \<and> (\<forall>d \<in> set ds. mv_status d = DraftMaster)) \<and>
     (\<exists>ids. map rt_id (tasks t) = map rt_id (tasks s) @ ids) \<and>
     (\<forall>q \<in> set (tasks s). q \<in> set (tasks t) \<or> (\<exists>i \<in> set is. is_open_master (wid sv) i q))"

lemma drafted_refl: "drafted sv [] s s"
  by (simp add: drafted_def)

lemma drafted_trans:
  assumes "drafted sv a s t" "drafted sv b t u"
  shows "drafted sv (a @ b) s u"
proof -
  from assms(1) obtain ds where ds: "masters t = masters s @ ds" "map mv_entity ds = a"
    "\<forall>d \<in> set ds. mv_status d = DraftMaster" unfolding drafted_def by blast
  from assms(2) obtain es where es: "masters u = masters t @ es" "map mv_entity es = b"
    "\<forall>d \<in> set es. mv_status d = DraftMaster" unfolding drafted_def by blast
  from assms(1) obtain xs where "map rt_id (tasks t) = map rt_id (tasks s) @ xs" unfolding drafted_def by blast
  moreover from assms(2) obtain ys where "map rt_id (tasks u) = map rt_id (tasks t) @ ys" unfolding drafted_def by blast
  ultimately have "map rt_id (tasks u) = map rt_id (tasks s) @ xs @ ys" by simp
  moreover have "masters u = masters s @ (ds @ es)" "map mv_entity (ds @ es) = a @ b" using ds es by simp_all
  moreover have "\<forall>d \<in> set (ds @ es). mv_status d = DraftMaster" using ds(3) es(3) by (simp add: ball_Un)
  moreover have "q \<in> set (tasks u) \<or> (\<exists>i \<in> set (a @ b). is_open_master (wid sv) i q)" if "q \<in> set (tasks s)" for q
  proof -
    from assms(1) that have "q \<in> set (tasks t) \<or> (\<exists>i \<in> set a. is_open_master (wid sv) i q)"
      unfolding drafted_def by blast
    with assms(2) show ?thesis unfolding drafted_def by (simp add: bex_Un) blast
  qed
  ultimately show ?thesis unfolding drafted_def by blast
qed

lemma mark_stale_only:
  "\<exists>qs. mark_stale m (open_master_task sv i s) s = s\<lparr>tasks := qs\<rparr> \<and> map rt_id qs = map rt_id (tasks s) \<and>
     (distinct (map rt_id (tasks s)) \<longrightarrow> (\<forall>q \<in> set (tasks s). q \<in> set qs \<or> is_open_master (wid sv) i q))"
proof (cases "open_master_task sv i s")
  case None
  then show ?thesis by (intro exI [of _ "tasks s"]) (simp add: mark_stale_def)
next
  case (Some q)
  then have q: "q \<in> set (tasks s)" "is_open_master (wid sv) i q"
    by (auto simp: open_master_task_def is_open_master_def dest!: find_SomeD)
  let ?qs = "row_modify rt_id (rt_id q) (\<lambda>t. t\<lparr>rt_status := StaleTask, rt_reason := Some m\<rparr>) (tasks s)"
  have "r \<in> set ?qs \<or> is_open_master (wid sv) i r" if "distinct (map rt_id (tasks s))" "r \<in> set (tasks s)" for r
  proof (cases "rt_id r = rt_id q")
    case True
    then have "r = q" using find_key_unique [OF that(1,2) q(1)] by blast
    with q show ?thesis by simp
  next
    case False
    with that(2) show ?thesis by (auto simp: row_modify_def update_rows_def image_iff intro!: bexI [of _ r])
  qed
  moreover have "mark_stale m (open_master_task sv i s) s = s\<lparr>tasks := ?qs\<rparr>" by (simp add: Some mark_stale_def)
  moreover have "map rt_id ?qs = map rt_id (tasks s)" by (simp add: row_modify_def update_rows_key)
  ultimately show ?thesis by blast
qed

lemma draft_master_only:
  assumes "draft_master R sv en s = Inr (d, t)" "tasks_ok R s"
  shows "(\<exists>ms qs k. t = s\<lparr>masters := ms, tasks := qs, ticks := ticks s + k\<rparr>) \<and> drafted sv [en_id en] s t"
proof -
  from draft_master_Inr [OF assms(1)] obtain vals prov s1 s2 where
    s1: "(d, s1) = add_draft R sv (en_id en) vals prov s" and
    s2: "s2 = mark_stale ''A new source contribution changed the bound entity version''
           (open_master_task sv (en_id en) s1) s1" and
    t: "t = add_task (master_task R sv en d s2) s2" by blast
  have d: "s1 = s\<lparr>masters := masters s @ [d], ticks := Suc (ticks s)\<rparr>" "mv_entity d = en_id en" "mv_status d = DraftMaster"
    using s1 by (auto simp: add_draft_def Let_def row_add_def)
  obtain qs where qs: "s2 = s1\<lparr>tasks := qs\<rparr>" "map rt_id qs = map rt_id (tasks s1)"
    "distinct (map rt_id (tasks s1)) \<longrightarrow> (\<forall>q \<in> set (tasks s1). q \<in> set qs \<or> is_open_master (wid sv) (en_id en) q)"
    using mark_stale_only [of "''A new source contribution changed the bound entity version''" sv "en_id en" s1] s2 by blast
  have "t = s\<lparr>masters := masters s @ [d], tasks := qs @ [master_task R sv en d s2], ticks := ticks s + 2\<rparr>"
    by (simp add: t add_task_def row_add_def qs(1) d(1))
  moreover from this have "drafted sv [en_id en] s t"
    using qs(2,3) d assms(2) by (simp add: drafted_def tasks_ok_def)
  ultimately show ?thesis by blast
qed

lemma remaster_entities_only:
  assumes "inj (uuid R)" "fold_res (touch_entity R sv) is s = Inr t" "store_ok R s"
  shows "(\<exists>es ms qs k. t = s\<lparr>entities := es, masters := ms, tasks := qs, ticks := ticks s + k\<rparr>) \<and> drafted sv is s t"
  using assms(2,3)
proof (induction "is" arbitrary: s)
  case Nil
  then have "t = s\<lparr>entities := entities s, masters := masters s, tasks := tasks s, ticks := ticks s + 0\<rparr>" by simp
  with Nil show ?case using drafted_refl by (metis fold_res.simps(1) sum.inject(2))
next
  case (Cons i "is")
  from Cons.prems(1) obtain u where u: "touch_entity R sv i s = Inr u" "fold_res (touch_entity R sv) is u = Inr t"
    by (auto simp: res_elim)
  let ?s = "modify_entity i bump s"
  from u(1) obtain e d where e: "row_get en_id i (entities ?s) = Some e" and d: "draft_master R sv e ?s = Inr (d, u)"
    by (auto simp: touch_entity_def draft_entity_Inr)
  have i: "en_id e = i" using row_get_key [OF e] .
  have ok: "store_ok R u" by (rule store_ok_touch [OF assms(1) Cons.prems(2) u(1)])
  have tk: "tasks_ok R ?s" using store_ok_bump [OF Cons.prems(2)] by (simp add: store_ok_def)
  from draft_master_only [OF d tk] i obtain ms qs k where
    o: "u = ?s\<lparr>masters := ms, tasks := qs, ticks := ticks ?s + k\<rparr>" "drafted sv [i] ?s u" by blast
  have "drafted sv [i] s u" using o(2) by (simp add: drafted_def frame_simps)
  moreover from Cons.IH [OF u(2) ok] obtain es ms' qs' k' where
    f: "t = u\<lparr>entities := es, masters := ms', tasks := qs', ticks := ticks u + k'\<rparr>" "drafted sv is u t" by blast
  ultimately have "drafted sv (i # is) s t" using drafted_trans [of sv "[i]" s u "is" t] by simp
  moreover have "t = s\<lparr>entities := es, masters := ms', tasks := qs', ticks := ticks s + (k + k')\<rparr>"
    by (simp add: f(1) o(1) modify_entity_def)
  ultimately show ?case by blast
qed

lemma remaster_entities_ok:
  assumes "inj (uuid R)" "fold_res (touch_entity R sv) is s = Inr t" "store_ok R s"
  shows "store_ok R t \<and> steady s t \<and> audits t = audits s \<and> blocks t = blocks s \<and> records t = records s \<and>
    objects t = objects s \<and> events t = events s \<and> jobs t = jobs s \<and>
    entities t = fold (\<lambda>i. row_modify en_id i bump) is (entities s)"
  using assms(2,3)
proof (induction "is" arbitrary: s)
  case Nil
  then show ?case by simp
next
  case (Cons i "is")
  from Cons.prems(1) obtain u where u: "touch_entity R sv i s = Inr u" "fold_res (touch_entity R sv) is u = Inr t"
    by (auto simp: res_elim)
  from u(1) obtain e d where d: "draft_master R sv e (modify_entity i bump s) = Inr (d, u)"
    by (auto simp: touch_entity_def draft_entity_Inr)
  note f = draft_master_frame [OF d]
  have ok: "store_ok R u" by (rule store_ok_touch [OF assms(1) Cons.prems(2) u(1)])
  have "tasks_ok R (modify_entity i bump s)" using store_ok_bump [OF Cons.prems(2)] by (simp add: store_ok_def)
  from steady_trans [OF steady_bump steady_draft [OF this d]] have "steady s u" .
  with Cons.IH [OF u(2) ok] f show ?case
    by (auto simp: frame_simps modify_entity_def intro: steady_trans)
qed

lemma remaster_domain_cases:
  assumes "remaster_domain R j s = Inr (out, t)"
  obtains sv k domain p n s1 s2 detail where
    "job_service j s = Inr sv" "dindex (jb_payload j) ''domain_key'' = Inr k"
    "find_domain sv (py_str R k) s = Some domain" "compile_policy R (dm_definition domain) = Inr p"
    "dget (jb_payload j) ''policy_checksum'' = JStr (checksum p)"
    "fold_res (reindex_object R sv (py_str R k) p) (active_objects sv (py_str R k) s)
       (0, clear_blocks sv (py_str R k) s) = Inr (n, s1)"
    "remaster_entities R sv (map en_id (sort_key en_id (live_entities sv (py_str R k) s1))) s1 = Inr s2"
    "t = audit R sv ''domain.remastered'' ''domain'' (dm_id domain) detail s2"
    "out = remaster_result (int (length (active_objects sv (py_str R k) s))) n
       (int (length (live_entities sv (py_str R k) s1)))"
proof -
  from assms obtain sv k domain p n s1 s2 where
    h: "job_service j s = Inr sv" "dindex (jb_payload j) ''domain_key'' = Inr k"
    "find_domain sv (py_str R k) s = Some domain" "compile_policy R (dm_definition domain) = Inr p"
    "dget (jb_payload j) ''policy_checksum'' = JStr (checksum p)"
    "fold_res (reindex_object R sv (py_str R k) p) (active_objects sv (py_str R k) s)
       (0, clear_blocks sv (py_str R k) s) = Inr (n, s1)"
    "remaster_entities R sv (map en_id (sort_key en_id (live_entities sv (py_str R k) s1))) s1 = Inr s2"
    by (auto simp: remaster_domain_def res_elim Let_def)
  with assms have "out = remaster_result (int (length (active_objects sv (py_str R k) s))) n
       (int (length (live_entities sv (py_str R k) s1)))"
    "\<exists>detail. t = audit R sv ''domain.remastered'' ''domain'' (dm_id domain) detail s2"
    by (auto simp: remaster_domain_def Let_def)
  with h that show ?thesis by blast
qed

lemma index_steady:
  assumes "store_ok R s" "t = s\<lparr>records := rs, blocks := cs, ticks := ticks s + k\<rparr>" "renewed (records s) rs"
  shows "store_ok R t \<and> steady s t"
proof -
  from assms(3) have r: "map observed_content rs = map observed_content (records s)"
    "sr_entity ` set rs = sr_entity ` set (records s)" "map sr_id rs = map sr_id (records s)"
    by (auto simp: renewed_def) (metis image_eqI image_set)+
  have "store_ok R t"
    by (rule store_ok_frame [OF assms(1)]) (simp_all add: assms(2) members_def r)
  moreover have "keeps s t"
    by (rule keeps_frame) (use observed_eq [of t s] r(1) in \<open>simp_all add: assms(2)\<close>)
  ultimately show ?thesis by (simp add: steady_def assms(2) proposals_def)
qed

lemma clear_blocks_frame: "clear_blocks sv dk s = s\<lparr>blocks := blocks (clear_blocks sv dk s)\<rparr>"
  by (simp add: clear_blocks_def)

lemma remaster_domain_ok:
  assumes "inj (uuid R)" "strict_mono (clock R)" "sound R s" "remaster_domain R j s = Inr (out, t)"
  shows "sound R t \<and> steady s t \<and> events t = events s \<and> jobs t = jobs s"
  using assms(4)
proof (cases rule: remaster_domain_cases)
  case (1 sv k domain p n s1 s2 detail)
  let ?c = "clear_blocks sv (py_str R k) s"
  have ok: "store_ok R s" using assms(3) by (simp add: sound_def)
  then have "distinct (map sr_id (records ?c))" by (simp add: clear_blocks_def store_ok_def records_ok_def)
  from fold_reindex_ok [OF 1(6) this] obtain rs cs k' where
    s1: "s1 = ?c\<lparr>records := rs, blocks := cs, ticks := ticks ?c + k'\<rparr>" "renewed (records s) rs"
    by (auto simp: clear_blocks_def)
  then have "s1 = s\<lparr>records := rs, blocks := cs, ticks := ticks s + k'\<rparr>" by (simp add: clear_blocks_def)
  from index_steady [OF ok this s1(2)] have i: "store_ok R s1" "steady s s1" by auto
  note e = remaster_entities_ok [OF assms(1) 1(7) [unfolded remaster_entities_def] i(1)]
  have st: "steady s s2" using i(2) e steady_trans by blast
  have "audits s2 = audits s" "events s2 = events s" "jobs s2 = jobs s" using e s1 by (simp_all add: clear_blocks_def)
  moreover have "sound R s2" using e sound_steady [OF _ _ st assms(3)] calculation(1) by simp
  ultimately show ?thesis
    using 1(8) sound_audit [OF assms(2)] steady_trans [OF st steady_audit] by (simp add: frame_simps)
qed

text \<open>Each listed id is taken once, so each row is changed at most once.\<close>

lemma fold_row_modify_other:
  assumes "\<And>e. key (f e) = key e" "i \<notin> set xs"
  shows "fold (\<lambda>i. row_modify key i f) xs (row_modify key i f rows) =
    row_modify key i f (fold (\<lambda>i. row_modify key i f) xs rows)"
  using assms(2)
proof (induction xs arbitrary: rows)
  case (Cons j xs)
  have "row_modify key j f (row_modify key i f rows) = row_modify key i f (row_modify key j f rows)"
    using Cons.prems assms(1) by (auto simp: row_modify_def update_rows_def)
  with Cons show ?case by simp
qed simp

lemma fold_row_modify:
  assumes "\<And>e. key (f e) = key e" "distinct xs"
  shows "fold (\<lambda>i. row_modify key i f) xs rows = map (\<lambda>e. if key e \<in> set xs then f e else e) rows"
  using assms(2)
proof (induction xs arbitrary: rows)
  case (Cons i xs)
  then have "i \<notin> set xs" by simp
  have "fold (\<lambda>i. row_modify key i f) (i # xs) rows =
      fold (\<lambda>i. row_modify key i f) xs (row_modify key i f rows)" by simp
  also have "\<dots> = row_modify key i f (fold (\<lambda>i. row_modify key i f) xs rows)"
    by (rule fold_row_modify_other) (use assms(1) \<open>i \<notin> set xs\<close> in simp_all)
  also have "\<dots> = row_modify key i f (map (\<lambda>e. if key e \<in> set xs then f e else e) rows)"
    using Cons.IH Cons.prems by simp
  also have "\<dots> = map (\<lambda>e. if key e \<in> set (i # xs) then f e else e) rows"
    using Cons.prems assms(1) by (auto simp: row_modify_def update_rows_def)
  finally show ?case .
qed simp

lemma bump_listed:
  assumes "distinct (map en_id es)" "set ls \<subseteq> set es" "distinct (map en_id ls)"
  shows "fold (\<lambda>i. row_modify en_id i bump) (map en_id (sort_key en_id ls)) es =
    map (\<lambda>e. if e \<in> set ls then bump e else e) es"
proof -
  have "mset (map en_id (sort_key en_id ls)) = mset (map en_id ls)" by simp
  then have d: "distinct (map en_id (sort_key en_id ls))"
    using assms(3) mset_eq_imp_distinct_iff by blast
  have "en_id e \<in> en_id ` set ls \<longleftrightarrow> e \<in> set ls" if "e \<in> set es" for e
    using find_key_unique [OF assms(1) that] assms(2) by (metis image_iff subsetD)
  then show ?thesis by (subst fold_row_modify [OF _ d]) (auto simp: bump_def)
qed

section \<open>Properties\<close>

text \<open>
  C10. Remastering a domain rebuilds its candidate index exactly and leaves every other domain's
  alone: the domain's blocks are those of its active objects' current records under the policy in
  force, whose normal forms are all renewed; every live (not merged) entity of the domain gets the
  next version and one new draft, every other entity keeps its row. Nothing else is touched or
  lost: the tables other than records, blocks, entities, versions, tasks and the trail are the
  same, every record keeps its identifier, original content, observation and entity, no version
  and no task is deleted, and only the open approval tasks of the redrafted entities change.
\<close>

theorem remastering_rebuilds_the_index_exactly:
  assumes "inj (uuid R)" "store_ok R s" "remaster_domain R j s = Inr (out, t)"
  shows "\<exists>sv dk domain p. job_service j s = Inr sv \<and> find_domain sv dk s = Some domain \<and>
    compile_policy R (dm_definition domain) = Inr p \<and>
    dget (jb_payload j) ''policy_checksum'' = JStr (checksum p) \<and>
    map block_content (blocks t) =
      filter (\<lambda>(w, d, _). \<not> (w = wid sv \<and> d = dk)) (map block_content (blocks s)) @
      concat (map (index_entries R sv dk p (records s)) (active_objects sv dk s)) \<and>
    (\<forall>b \<in> set (active_objects sv dk s). \<forall>r. object_record t b = Inr r \<longrightarrow> normalized_by R p r) \<and>
    entities t = map (\<lambda>e. if e \<in> set (live_entities sv dk s) then bump e else e) (entities s) \<and>
    drafted sv (map en_id (sort_key en_id (live_entities sv dk s))) s t \<and>
    (\<exists>rs cs es ms qs as k. t = s\<lparr>records := rs, blocks := cs, entities := es, masters := ms, tasks := qs,
       audits := as, ticks := ticks s + k\<rparr>) \<and> renewed (records s) (records t) \<and> steady s t"
  using assms(3)
proof (cases rule: remaster_domain_cases)
  case (1 sv k domain p n s1 s2 detail)
  let ?dk = "py_str R k"
  let ?c = "clear_blocks sv ?dk s"
  have "distinct (map sr_id (records ?c))" using assms(2) by (simp add: clear_blocks_def store_ok_def records_ok_def)
  note f = fold_reindex_ok [OF 1(6) this]
  then obtain rs cs k' where s1: "s1 = s\<lparr>records := rs, blocks := cs, ticks := ticks s + k'\<rparr>" "renewed (records s) rs"
    by (auto simp: clear_blocks_def)
  from index_steady [OF assms(2) s1] have ok1: "store_ok R s1" "steady s s1" by auto
  note e = remaster_entities_ok [OF assms(1) 1(7) [unfolded remaster_entities_def] ok1(1)]
  have t: "blocks t = blocks s1" "records t = records s1" "entities t = entities s2"
    using 1(8) e by (simp_all add: audit_def Let_def)
  have live: "live_entities sv ?dk s1 = live_entities sv ?dk s" by (simp add: live_entities_def s1)
  from remaster_entities_only [OF assms(1) 1(7) [unfolded remaster_entities_def] ok1(1)]
  obtain es ms qs k2 where s2: "s2 = s1\<lparr>entities := es, masters := ms, tasks := qs, ticks := ticks s1 + k2\<rparr>"
    and d: "drafted sv (map en_id (sort_key en_id (live_entities sv ?dk s))) s1 s2" unfolding live by blast
  have "t = s\<lparr>records := rs, blocks := cs, entities := es, masters := ms, tasks := qs, audits := audits t,
      ticks := ticks s + (k' + k2 + (ticks t - ticks s2))\<rparr>"
    using 1(8) by (simp add: audit_def Let_def s2 s1)
  then have same: "\<exists>rs cs es ms qs as k. t = s\<lparr>records := rs, blocks := cs, entities := es, masters := ms,
      tasks := qs, audits := as, ticks := ticks s + k\<rparr>" by blast
  have "drafted sv (map en_id (sort_key en_id (live_entities sv ?dk s))) s t"
    using d 1(8) by (simp add: drafted_def audit_def Let_def s1)
  moreover have "steady s t" unfolding 1(8) using steady_trans [OF steady_trans [OF ok1(2)] steady_audit] e by blast
  moreover have "distinct (map en_id (entities s))" using assms(2) by (simp add: store_ok_def entities_ok_def)
  moreover have "entities s2 = map (\<lambda>e. if e \<in> set (live_entities sv ?dk s) then bump e else e) (entities s)"
  proof -
    have "entities s1 = entities s" by (simp add: s1)
    with e have "entities s2 = fold (\<lambda>i. row_modify en_id i bump)
        (map en_id (sort_key en_id (live_entities sv ?dk s))) (entities s)" by (simp only: live)
    also have "\<dots> = map (\<lambda>e. if e \<in> set (live_entities sv ?dk s) then bump e else e) (entities s)"
      using \<open>distinct (map en_id (entities s))\<close>
      by (intro bump_listed) (auto simp: live_entities_def distinct_map_filter)
    finally show ?thesis .
  qed
  moreover have "map block_content (filter (\<lambda>c. \<not> (cb_ws c = wid sv \<and> cb_domain c = ?dk)) (blocks s)) =
      filter (\<lambda>(w, d, _). \<not> (w = wid sv \<and> d = ?dk)) (map block_content (blocks s))"
    by (induction "blocks s") (auto simp: block_content_def filter_map comp_def)
  ultimately show ?thesis
    using 1(1-5) f t same
    by (intro exI [of _ sv] exI [of _ ?dk] exI [of _ domain] exI [of _ p])
      (simp add: clear_blocks_def object_record_def from_option_Inr)
qed

section \<open>Witness\<close>

text \<open>One active object whose record waits to be indexed, and an entity to be redrafted.\<close>

definition index_db :: db where
  "index_db = pair_db\<lparr>workspaces := [\<lparr>ws_id = ''w1'', ws_slug = ''w'', ws_name = ''W''\<rparr>],
     entities := [demo_entity ''u0''],
     objects := [(demo_object ''u2'' ''u3'' ''s1'')\<lparr>ob_entity := None\<rparr>], history := []\<rparr>"

definition index_payload :: "string \<Rightarrow> dict" where
  "index_payload pin = [(''domain_key'', JStr ''supplier''), (''policy_checksum'', JStr pin)]"

definition index_job :: "string \<Rightarrow> job" where
  "index_job pin = \<lparr>jb_id = ''j'', jb_ws = ''w1'', jb_kind = ''remaster_domain'',
     jb_payload = index_payload pin, jb_status = JobQueued, jb_attempts = 0, jb_owner = None,
     jb_lease = 0, jb_expires = None, jb_cancel = False, jb_error = None, jb_created = 0\<rparr>"

lemma index_db_ok: "store_ok ascii_runtime index_db"
proof -
  have "drawn ascii_runtime index_db i" if "i \<in> {''u0'', ''u2'', ''u3'', ''u4''}" for i
    using that six_ids by (auto simp: first_ids index_db_def pair_db_def)
  then show ?thesis
    by (simp add: store_ok_def membership_ok_def members_def tasks_ok_def open_masters_def
        versions_ok_def records_ok_def entities_ok_def references_ok_def open_entities_def as_list_def)
      (simp add: index_db_def pair_db_def empty_db_def demo_object_def demo_entity_def tax_record_def)
qed

lemma index_db_remastered:
  "\<exists>pin. \<forall>j js. jb_ws j = ''w1'' \<and> jb_payload j = index_payload pin \<longrightarrow>
     (\<exists>out t. remaster_domain ascii_runtime j (index_db\<lparr>jobs := js\<rparr>) = Inr (out, t))"
proof -
  obtain p k where p: "compile_policy ascii_runtime tax_definition = Inr p"
    and w: "normalize ascii_runtime p (named ''a'' ''1'') = Inr (named ''a'' ''1'')"
    "blocking_keys ascii_runtime p (named ''a'' ''1'') = Inr [k]"
    using tax_definition_works by blast
  let ?sv = "\<lparr>wid = ''w1'', subject = ''recordlane.worker'', roles = [''administrator'']\<rparr>"
  let ?s = "\<lambda>js. index_db\<lparr>jobs := js\<rparr>"
  have dom: "find_domain ?sv ''supplier'' (?s js) = Some demo_domain" "dm_definition demo_domain = tax_definition" for js
    by (simp_all add: find_domain_def index_db_def pair_db_def demo_domain_def)
  have objs: "active_objects ?sv ''supplier'' (?s js) = [(demo_object ''u2'' ''u3'' ''s1'')\<lparr>ob_entity := None\<rparr>]" for js
    by (simp add: active_objects_def index_db_def) (simp add: demo_object_def)
  have rec: "row_get sr_id ''u3'' (records (clear_blocks ?sv ''supplier'' (?s js))) = Some (tax_record ''u3'')" for js
    by (simp add: clear_blocks_def index_db_def pair_db_def row_get_def tax_record_def)
  have orig: "sr_original (tax_record ''u3'') = named ''a'' ''1''" by (simp add: tax_record_def)
  have cur: "ob_current (demo_object ''u2'' ''u3'' ''s1'') = Some ''u3''" by (simp add: demo_object_def)
  let ?u = "\<lambda>i j ks r d js. add_blocks ascii_runtime ?sv ''supplier'' i j ks
      (renew_record r d ks (clear_blocks ?sv ''supplier'' (?s js)))"
  have rows: "entities (?u i j ks r d js) = [demo_entity ''u0'']" "domains (?u i j ks r d js) = [demo_domain]"
    "objects (?u i j ks r d js) = [(demo_object ''u2'' ''u3'' ''s1'')\<lparr>ob_entity := None\<rparr>]" for i j ks r d js
    by (simp_all add: frame_simps renew_record_def clear_blocks_def index_db_def pair_db_def)
  have en: "en_id (demo_entity ''u0'') = ''u0''" "en_domain (demo_entity ''u0'') = ''supplier''"
    "en_ws (demo_entity ''u0'') = ''w1''" "en_status (demo_entity ''u0'') \<noteq> MergedEntity" by (simp_all add: demo_entity_def)
  then have live: "live_entities ?sv ''supplier'' (?u i j ks r d js) = [demo_entity ''u0'']" for i j ks r d js
    by (simp add: live_entities_def rows)
  have touched: "\<exists>t. touch_entity ascii_runtime ?sv ''u0'' (?u i j ks r d js) = Inr t" for i j ks r d js
  proof -
    let ?m = "modify_entity ''u0'' bump (?u i j ks r d js)"
    have "domains ?m = [demo_domain]" by (simp add: modify_entity_def rows)
    then have "find_domain ?sv (en_domain (bump (demo_entity ''u0''))) ?m = Some demo_domain"
      by (simp only: find_domain_def) (simp add: bump_def en demo_domain_def)
    moreover have "objects ?m = [(demo_object ''u2'' ''u3'' ''s1'')\<lparr>ob_entity := None\<rparr>]"
      by (simp add: modify_entity_def rows)
    then have "current_records ?sv (en_id (bump (demo_entity ''u0''))) ?m = []"
      by (simp only: current_records_def) simp
    ultimately obtain d' t where "draft_master ascii_runtime ?sv (bump (demo_entity ''u0'')) ?m = Inr (d', t)"
      using draft_without_records by blast
    moreover have "row_get en_id ''u0'' (entities ?m) = Some (bump (demo_entity ''u0''))"
      by (simp add: modify_entity_def row_modify_def rows en row_get_def) (simp add: bump_def en)
    ultimately show ?thesis by (auto simp: touch_entity_def draft_entity_Inr)
  qed
  have str: "py_str ascii_runtime (JStr ''supplier'') = ''supplier''" by (simp add: py_str_def)
  have "\<exists>out t. remaster_domain ascii_runtime j (?s js) = Inr (out, t)"
    if j: "jb_ws j = ''w1''" "jb_payload j = index_payload (checksum p)" for j js
  proof -
    have sv: "job_service j (?s js) = Inr ?sv" by (simp add: job_service_def j index_db_def row_get_def)
    have pay: "dindex (jb_payload j) ''domain_key'' = Inr (JStr ''supplier'')"
      "dget (jb_payload j) ''policy_checksum'' = JStr (checksum p)"
      by (simp_all add: j index_payload_def dindex_def dget_def)
    from touched obtain t where
      "touch_entity ascii_runtime ?sv ''u0'' (?u ''u2'' ''u3'' [k] ''u3'' (named ''a'' ''1'') js) = Inr t" by blast
    moreover have "ob_id (demo_object ''u2'' ''u3'' ''s1'') = ''u2''" "sr_id (tax_record ''u3'') = ''u3''"
      by (simp_all add: demo_object_def tax_record_def)
    ultimately show ?thesis
      by (simp add: remaster_domain_def sv pay str dom p objs Let_def reindex_object_def cur rec orig w live en
          remaster_entities_def del: add_blocks.simps)
  qed
  then show ?thesis by blast
qed

theorem remastering_rebuilds_the_index_exactly_witness:
  "\<exists>pin out t. remaster_domain ascii_runtime (index_job pin) index_db = Inr (out, t) \<and>
     map en_version (entities t) = [2] \<and> map mv_entity (masters t) = [''u0'']"
proof -
  obtain pin where "\<forall>j js. jb_ws j = ''w1'' \<and> jb_payload j = index_payload pin \<longrightarrow>
     (\<exists>out t. remaster_domain ascii_runtime j (index_db\<lparr>jobs := js\<rparr>) = Inr (out, t))"
    using index_db_remastered by blast
  moreover have "index_db\<lparr>jobs := []\<rparr> = index_db" by (simp add: index_db_def pair_db_def empty_db_def)
  ultimately obtain out t where t: "remaster_domain ascii_runtime (index_job pin) index_db = Inr (out, t)"
    by (metis index_job_def job.select_convs(2,4))
  from remastering_rebuilds_the_index_exactly [OF ascii_uuid index_db_ok t] obtain sv dk domain where
    sv: "job_service (index_job pin) index_db = Inr sv" and dk: "find_domain sv dk index_db = Some domain" and
    es: "entities t = map (\<lambda>e. if e \<in> set (live_entities sv dk index_db) then bump e else e) (entities index_db)" and
    ds: "drafted sv (map en_id (sort_key en_id (live_entities sv dk index_db))) index_db t" by blast
  have w: "wid sv = ''w1''" using sv by (auto simp: job_service_def res_elim index_job_def from_option_Inr dest!: row_get_key)
  have "dk = ''supplier''" using dk by (auto simp: find_domain_def index_db_def pair_db_def demo_domain_def split: if_splits)
  then have live: "live_entities sv dk index_db = [demo_entity ''u0'']" "entities index_db = [demo_entity ''u0'']"
    by (simp_all add: live_entities_def index_db_def demo_entity_def w)
  have "masters index_db = []" "en_id (demo_entity ''u0'') = ''u0''"
    by (simp_all add: index_db_def pair_db_def empty_db_def demo_entity_def)
  then have "map mv_entity (masters t) = [''u0'']" using ds by (auto simp: drafted_def live)
  moreover have "map en_version (entities t) = [2]" by (simp add: es live bump_def demo_entity_def)
  ultimately show ?thesis using t by (intro exI conjI) assumption+
qed

end
