(* ===== verification/Jobs.thy ===== *)
theory Jobs
  imports Remaster
begin

text \<open>
  The durable jobs of jobs/worker.py: a worker claims the oldest free job under a lease and a
  fence number, renews the lease while it works, and commits the handler's work together with the
  job's completion only if it still holds the fence. The time of a step (\<open>datetime.now\<close>) is an
  argument; so is whether the heartbeat had lost the lease when the handler returned.
\<close>

section \<open>The lease of one job\<close>

definition lease_time :: time where
  "lease_time = 30 * 1000000"

definition max_attempts :: int where
  "max_attempts = 5"

definition terminal :: "job \<Rightarrow> bool" where
  "terminal j \<longleftrightarrow> jb_status j \<in> {JobComplete, JobFailed, JobCancelled}"

definition claimable :: "time \<Rightarrow> job \<Rightarrow> bool" where
  "claimable now j \<longleftrightarrow> jb_status j \<in> {JobQueued, JobRetry, JobRunning} \<and>
     (case jb_expires j of None \<Rightarrow> True | Some x \<Rightarrow> x < now)"

definition take_lease :: "string \<Rightarrow> time \<Rightarrow> job \<Rightarrow> job" where
  "take_lease w now j = j\<lparr>jb_status := JobRunning, jb_owner := Some w, jb_lease := jb_lease j + 1,
     jb_expires := Some (now + lease_time), jb_attempts := jb_attempts j + 1\<rparr>"

definition release :: "job_status \<Rightarrow> job \<Rightarrow> job" where
  "release st j = j\<lparr>jb_status := st, jb_owner := None, jb_expires := None\<rparr>"

definition holds :: "string \<Rightarrow> int \<Rightarrow> job \<Rightarrow> bool" where
  "holds w fence j \<longleftrightarrow> jb_owner j = Some w \<and> jb_lease j = fence"

definition modify_job :: "ident \<Rightarrow> (job \<Rightarrow> job) \<Rightarrow> db \<Rightarrow> db" where
  "modify_job i f s = s\<lparr>jobs := row_modify jb_id i f (jobs s)\<rparr>"

text \<open>A conditional update: the rows it changes and whether it changed exactly one.\<close>

definition update_job :: "ident \<Rightarrow> (job \<Rightarrow> bool) \<Rightarrow> (job \<Rightarrow> job) \<Rightarrow> db \<Rightarrow> bool \<times> db" where
  "update_job i P f s =
     (length (filter (\<lambda>j. jb_id j = i \<and> P j) (jobs s)) = 1,
      s\<lparr>jobs := update_rows (\<lambda>j. jb_id j = i \<and> P j) f (jobs s)\<rparr>)"

section \<open>Claiming and renewing\<close>

definition next_job :: "time \<Rightarrow> db \<Rightarrow> job option" where
  "next_job now s = (case sort_key jb_created (filter (claimable now) (jobs s)) of
     [] \<Rightarrow> None | j # _ \<Rightarrow> Some j)"

definition claim_one :: "string \<Rightarrow> time \<Rightarrow> db \<Rightarrow> (ident \<times> int) option \<times> db" where
  "claim_one w now s =
     (case next_job now s of
        None \<Rightarrow> (None, s)
      | Some j \<Rightarrow>
          if jb_cancel j then (None, modify_job (jb_id j) (release JobCancelled) s)
          else (Some (jb_id j, jb_lease j + 1), modify_job (jb_id j) (take_lease w now) s))"

definition renewable :: "string \<Rightarrow> int \<Rightarrow> job \<Rightarrow> bool" where
  "renewable w fence j \<longleftrightarrow> holds w fence j \<and> jb_status j = JobRunning \<and> \<not> jb_cancel j"

definition renew_lease :: "string \<Rightarrow> ident \<Rightarrow> int \<Rightarrow> time \<Rightarrow> db \<Rightarrow> bool \<times> db" where
  "renew_lease w i fence now s =
     update_job i (renewable w fence) (\<lambda>j. j\<lparr>jb_expires := Some (now + lease_time)\<rparr>) s"

section \<open>Running a claimed job\<close>

type_synonym handler = "job \<Rightarrow> dict op"

definition handlers :: "runtime \<Rightarrow> string \<Rightarrow> handler option" where
  "handlers R kind = (if kind = ''remaster_domain'' then Some (remaster_domain R) else None)"

datatype start = NotOurs | Settled | Ready job handler

definition begin_job :: "(string \<Rightarrow> handler option) \<Rightarrow> string \<Rightarrow> ident \<Rightarrow> int \<Rightarrow> db \<Rightarrow> start \<times> db" where
  "begin_job H w i fence s =
     (case row_get jb_id i (jobs s) of
        None \<Rightarrow> (NotOurs, s)
      | Some j \<Rightarrow>
          if \<not> holds w fence j then (NotOurs, s)
          else if jb_cancel j then (Settled, modify_job i (release JobCancelled) s)
          else (case H (jb_kind j) of
              None \<Rightarrow> (Settled, modify_job i
                (\<lambda>j. (release JobFailed j)\<lparr>jb_error := Some (''unknown_job_kind:'' @ jb_kind j)\<rparr>) s)
            | Some h \<Rightarrow> (Ready j h, s)))"

definition completed :: "dict \<Rightarrow> dict \<Rightarrow> job \<Rightarrow> job" where
  "completed payload result j = (release JobComplete j)
     \<lparr>jb_payload := dict_merge payload [(''result'', JObj result)], jb_error := None\<rparr>"

definition finish_job :: "string \<Rightarrow> int \<Rightarrow> bool \<Rightarrow> job \<Rightarrow> handler \<Rightarrow> db \<Rightarrow> db res" where
  "finish_job w fence lost j h s =
     bind_res (h j s) (\<lambda>(result, s1).
     bind_res (guard_res (\<not> lost) (PyError ''RuntimeError'')) (\<lambda>_.
     let (one, s2) = update_job (jb_id j) (\<lambda>j. holds w fence j \<and> \<not> jb_cancel j)
           (completed (jb_payload j) result) s1
     in bind_res (guard_res one (PyError ''RuntimeError'')) (\<lambda>_. Inr s2)))"

definition error_name :: "err \<Rightarrow> string" where
  "error_name e = (case e of PolicyError _ \<Rightarrow> ''PolicyError'' | PyError n \<Rightarrow> n
     | HTTPException _ _ \<Rightarrow> ''HTTPException'' | IntegrityError _ \<Rightarrow> ''IntegrityError'')"

definition failed :: "string \<Rightarrow> job \<Rightarrow> job" where
  "failed e j = (release (if jb_attempts j \<ge> max_attempts then JobFailed else JobRetry) j)\<lparr>jb_error := Some e\<rparr>"

definition fail_job :: "string \<Rightarrow> ident \<Rightarrow> int \<Rightarrow> string \<Rightarrow> db \<Rightarrow> db" where
  "fail_job w i fence e s =
     (case row_get jb_id i (jobs s) of
        None \<Rightarrow> s
      | Some j \<Rightarrow> if holds w fence j then modify_job i (failed e) s else s)"

text \<open>\<open>run_once\<close> when nothing else runs between its transactions.\<close>

definition run_once :: "(string \<Rightarrow> handler option) \<Rightarrow> string \<Rightarrow> time \<Rightarrow> bool \<Rightarrow> db \<Rightarrow> bool \<times> db" where
  "run_once H w now lost s =
     (case claim_one w now s of
        (None, s1) \<Rightarrow> (False, s1)
      | (Some (i, fence), s1) \<Rightarrow>
          (case begin_job H w i fence s1 of
             (NotOurs, s2) \<Rightarrow> (False, s2)
           | (Settled, s2) \<Rightarrow> (True, s2)
           | (Ready j h, s2) \<Rightarrow>
               (case finish_job w fence lost j h s2 of
                  Inr s3 \<Rightarrow> (True, s3)
                | Inl e \<Rightarrow> (True, fail_job w i fence (error_name e) s2))))"

text \<open>The cancel route of api/routes.py.\<close>

definition status_name :: "job_status \<Rightarrow> string" where
  "status_name st = (case st of JobQueued \<Rightarrow> ''queued'' | JobRunning \<Rightarrow> ''running'' | JobRetry \<Rightarrow> ''retry''
     | JobComplete \<Rightarrow> ''complete'' | JobFailed \<Rightarrow> ''failed'' | JobCancelled \<Rightarrow> ''cancelled'')"

definition cancel_job :: "runtime \<Rightarrow> service \<Rightarrow> ident \<Rightarrow> db \<Rightarrow> db res" where
  "cancel_job R sv i s =
     bind_res (from_option (HTTPException 404 ''job_not_found'')
       (find (\<lambda>j. jb_id j = i \<and> jb_ws j = wid sv) (jobs s))) (\<lambda>j.
     bind_res (guard_res (\<not> terminal j) (HTTPException 409 ''job_terminal'')) (\<lambda>_.
     Inr (audit R sv ''job.cancellation_requested'' ''durable_job'' (jb_id j)
       (JObj [(''status'', JStr (status_name (jb_status j)))])
       (modify_job (jb_id j) (\<lambda>j. j\<lparr>jb_cancel := True\<rparr>) s))))"

section \<open>How a job row evolves\<close>

text \<open>
  A running job has an owner and an expiry, another none; each claim counts as an attempt. A row
  evolves: its fence only grows, at one fence its owner can only be lost, and a terminal row stays.
\<close>

definition row_ok :: "job \<Rightarrow> bool" where
  "row_ok j \<longleftrightarrow> (jb_owner j \<noteq> None \<longleftrightarrow> jb_status j = JobRunning) \<and>
     (jb_expires j \<noteq> None \<longleftrightarrow> jb_status j = JobRunning) \<and> jb_attempts j = jb_lease j \<and> 0 \<le> jb_lease j"

definition evolves :: "job \<Rightarrow> job \<Rightarrow> bool" where
  "evolves j j' \<longleftrightarrow> jb_id j' = jb_id j \<and> jb_ws j' = jb_ws j \<and> jb_kind j' = jb_kind j \<and>
     jb_lease j \<le> jb_lease j' \<and> (jb_lease j' = jb_lease j \<longrightarrow> jb_owner j' \<in> {jb_owner j, None}) \<and>
     (terminal j \<longrightarrow> j' = j)"

lemma evolves_refl [simp]: "evolves j j"
  by (simp add: evolves_def)

lemma evolves_trans: "evolves a b \<Longrightarrow> evolves b c \<Longrightarrow> evolves a c"
  by (auto simp: evolves_def)

definition lawful :: "(job \<Rightarrow> bool) \<Rightarrow> (job \<Rightarrow> job) \<Rightarrow> bool" where
  "lawful P f \<longleftrightarrow> (\<forall>j. P j \<longrightarrow> row_ok j \<longrightarrow> row_ok (f j) \<and> evolves j (f j))"

lemma lawful_take: "lawful (claimable now) (take_lease w now')"
  by (auto simp: lawful_def claimable_def take_lease_def row_ok_def evolves_def terminal_def)

lemma lawful_release: "st \<noteq> JobRunning \<Longrightarrow> lawful (\<lambda>j. \<not> terminal j) (release st)"
  by (auto simp: lawful_def release_def row_ok_def evolves_def)

lemma holds_running: "row_ok j \<Longrightarrow> holds w f j \<Longrightarrow> jb_status j = JobRunning"
  by (auto simp: row_ok_def holds_def)

lemma lawful_completed: "lawful (holds w f) (completed p r)"
  by (auto simp: lawful_def holds_def completed_def release_def row_ok_def evolves_def terminal_def)

lemma lawful_failed: "lawful (holds w f) (failed e)"
  by (auto simp: lawful_def holds_def failed_def release_def row_ok_def evolves_def terminal_def)

lemma lawful_extend: "lawful (renewable w f) (\<lambda>j. j\<lparr>jb_expires := Some x\<rparr>)"
  by (auto simp: lawful_def renewable_def holds_def row_ok_def evolves_def terminal_def)

lemma lawful_unknown: "lawful (holds w f) (\<lambda>j. (release JobFailed j)\<lparr>jb_error := e j\<rparr>)"
  by (auto simp: lawful_def holds_def release_def row_ok_def evolves_def terminal_def)

lemma lawful_cancel: "lawful (\<lambda>j. \<not> terminal j) (\<lambda>j. j\<lparr>jb_cancel := True\<rparr>)"
  by (auto simp: lawful_def row_ok_def evolves_def terminal_def)

lemma lawful_mono: "lawful P f \<Longrightarrow> (\<And>j. row_ok j \<Longrightarrow> Q j \<Longrightarrow> P j) \<Longrightarrow> lawful Q f"
  by (auto simp: lawful_def)

section \<open>How the table evolves\<close>

definition jobs_ok :: "job list \<Rightarrow> bool" where
  "jobs_ok js \<longleftrightarrow> distinct (map jb_id js) \<and> (\<forall>j \<in> set js. row_ok j)"

definition jobs_evolve :: "job list \<Rightarrow> job list \<Rightarrow> bool" where
  "jobs_evolve js js' \<longleftrightarrow> (\<exists>us new. js' = us @ new \<and> list_all2 evolves js us)"

lemma jobs_evolve_refl [simp]: "jobs_evolve js js"
  unfolding jobs_evolve_def by (rule exI [of _ js]) (simp add: list_all2_same)

lemma jobs_evolve_append: "jobs_evolve js (js @ new)"
  unfolding jobs_evolve_def by (rule exI [of _ js]) (simp add: list_all2_same)

lemma jobs_evolve_trans:
  assumes "jobs_evolve a b" "jobs_evolve b c"
  shows "jobs_evolve a c"
proof -
  from assms(1) obtain us new where b: "b = us @ new" "list_all2 evolves a us" by (auto simp: jobs_evolve_def)
  from assms(2) obtain vs new' where c: "c = vs @ new'" "list_all2 evolves b vs" by (auto simp: jobs_evolve_def)
  from c(2) [unfolded b(1)] obtain xs ys where v: "vs = xs @ ys" "list_all2 evolves us xs"
    by (auto simp: list_all2_append1)
  have "list_all2 evolves a xs" by (rule list_all2_trans [OF _ b(2) v(2)]) (rule evolves_trans)
  then show ?thesis unfolding jobs_evolve_def using c(1) v(1) by (intro exI [of _ xs] exI [of _ "ys @ new'"]) simp
qed

lemma jobs_evolve_mem: "jobs_evolve js js' \<Longrightarrow> j \<in> set js \<Longrightarrow> \<exists>j' \<in> set js'. evolves j j'"
  unfolding jobs_evolve_def by (fastforce simp: list_all2_conv_all_nth in_set_conv_nth)

lemma jobs_update:
  assumes "jobs_ok js" "lawful P f" "\<And>j. j \<in> set js \<Longrightarrow> Q j \<Longrightarrow> P j"
  shows "jobs_ok (update_rows Q f js) \<and> jobs_evolve js (update_rows Q f js)"
proof -
  have step: "row_ok (if Q j then f j else j) \<and> evolves j (if Q j then f j else j)" if "j \<in> set js" for j
    using assms that by (auto simp: lawful_def jobs_ok_def)
  have "map jb_id (update_rows Q f js) = map jb_id js"
    using step by (auto simp: update_rows_def evolves_def)
  then have "jobs_ok (update_rows Q f js)"
    using assms(1) conjunct1 [OF step] by (force simp: jobs_ok_def set_update_rows)
  moreover have "list_all2 evolves js (update_rows Q f js)"
    using step by (auto simp: update_rows_def list_all2_map2 list_all2_same)
  ultimately show ?thesis unfolding jobs_evolve_def by (metis append_Nil2)
qed

lemma jobs_modify:
  assumes "jobs_ok (jobs s)" "row_get jb_id i (jobs s) = Some j" "P j" "lawful P f"
  shows "jobs_ok (jobs (modify_job i f s)) \<and> jobs_evolve (jobs s) (jobs (modify_job i f s))"
proof -
  have "P q" if "q \<in> set (jobs s)" "jb_id q = i" for q
    using find_key_unique [of jb_id "jobs s" q j] that assms(1,3) row_get_mem [OF assms(2)] row_get_key [OF assms(2)]
    by (simp add: jobs_ok_def)
  with jobs_update [OF assms(1,4), of "\<lambda>r. jb_id r = i"] show ?thesis
    by (simp add: modify_job_def row_modify_def)
qed

lemma next_job_Some:
  assumes "next_job now s = Some j"
  shows "j \<in> set (jobs s)" "claimable now j"
proof -
  from assms obtain js where "sort_key jb_created (filter (claimable now) (jobs s)) = j # js"
    by (auto simp: next_job_def split: list.splits)
  then have "j \<in> set (sort_key jb_created (filter (claimable now) (jobs s)))"
    by (metis list.set_intros(1))
  then show "j \<in> set (jobs s)" "claimable now j" by auto
qed

section \<open>The operations\<close>

lemma claim_one_ok:
  assumes "jobs_ok (jobs s)" "claim_one w now s = (c, t)"
  shows "jobs_ok (jobs t)" "jobs_evolve (jobs s) (jobs t)"
    "\<And>i f. c = Some (i, f) \<Longrightarrow> \<exists>j \<in> set (jobs s). jb_id j = i \<and> f = jb_lease j + 1 \<and>
       take_lease w now j \<in> set (jobs t)"
proof -
  have "jobs_ok (jobs t) \<and> jobs_evolve (jobs s) (jobs t) \<and> (\<forall>i f. c = Some (i, f) \<longrightarrow>
    (\<exists>j \<in> set (jobs s). jb_id j = i \<and> f = jb_lease j + 1 \<and> take_lease w now j \<in> set (jobs t)))"
  proof (cases "next_job now s")
    case None
    with assms show ?thesis by (auto simp: claim_one_def)
  next
    case (Some j)
    note j = next_job_Some [OF Some]
    have row: "row_get jb_id (jb_id j) (jobs s) = Some j"
      using row_get_distinct [of jb_id "jobs s" j] assms(1) j(1) by (simp add: jobs_ok_def)
    show ?thesis
    proof (cases "jb_cancel j")
      case True
      have "\<not> terminal j" using j(2) by (auto simp: claimable_def terminal_def)
      with jobs_modify [OF assms(1) row, of "\<lambda>j. \<not> terminal j" "release JobCancelled"]
      show ?thesis using assms(2) Some True by (auto simp: claim_one_def lawful_release)
    next
      case False
      have "take_lease w now j \<in> set (jobs (modify_job (jb_id j) (take_lease w now) s))"
        using j(1) by (auto simp: modify_job_def set_row_modify)
      with jobs_modify [OF assms(1) row, of "claimable now" "take_lease w now"] j lawful_take
      show ?thesis using assms(2) Some False by (auto simp: claim_one_def)
    qed
  qed
  then show "jobs_ok (jobs t)" "jobs_evolve (jobs s) (jobs t)"
    "\<And>i f. c = Some (i, f) \<Longrightarrow> \<exists>j \<in> set (jobs s). jb_id j = i \<and> f = jb_lease j + 1 \<and>
       take_lease w now j \<in> set (jobs t)" by blast+
qed

lemma update_job_ok:
  assumes "jobs_ok (jobs s)" "update_job i P f s = (ok, t)" "lawful Q f" "\<And>j. row_ok j \<Longrightarrow> P j \<Longrightarrow> Q j"
  shows "jobs_ok (jobs t) \<and> jobs_evolve (jobs s) (jobs t)"
  using jobs_update [OF assms(1,3), of "\<lambda>j. jb_id j = i \<and> P j"] assms(1,2,4)
  by (auto simp: update_job_def jobs_ok_def)

lemma update_job_one:
  assumes "update_job i P f s = (True, t)"
  shows "\<exists>j \<in> set (jobs s). jb_id j = i \<and> P j \<and> f j \<in> set (jobs t)"
proof -
  from assms have "filter (\<lambda>j. jb_id j = i \<and> P j) (jobs s) \<noteq> []" by (auto simp: update_job_def)
  then obtain j where "j \<in> set (jobs s)" "jb_id j = i" "P j" by (auto simp: filter_empty_conv)
  with assms show ?thesis by (auto simp: update_job_def set_update_rows intro!: bexI [of _ j])
qed

lemma renew_lease_ok:
  assumes "jobs_ok (jobs s)" "renew_lease w i f now s = (ok, t)"
  shows "jobs_ok (jobs t) \<and> jobs_evolve (jobs s) (jobs t)"
  using update_job_ok [OF assms(1) _ lawful_extend] assms(2) by (simp add: renew_lease_def)

lemma begin_job_ok:
  assumes "jobs_ok (jobs s)" "begin_job H w i f s = (b, t)"
  shows "jobs_ok (jobs t) \<and> jobs_evolve (jobs s) (jobs t) \<and>
    (\<forall>j h. b = Ready j h \<longrightarrow> jb_id j = i \<and> H (jb_kind j) = Some h)"
proof (cases "row_get jb_id i (jobs s)")
  case None
  with assms show ?thesis by (auto simp: begin_job_def)
next
  case (Some j)
  have id: "jb_id j = i" by (rule row_get_key [OF Some])
  show ?thesis
  proof (cases "holds w f j")
    case False
    with assms Some show ?thesis by (auto simp: begin_job_def)
  next
    case True
    have nt: "\<not> terminal j"
      using holds_running [OF _ True] assms(1) row_get_mem [OF Some] by (auto simp: jobs_ok_def terminal_def)
    note c = jobs_modify [OF assms(1) Some, of "\<lambda>j. \<not> terminal j" "release JobCancelled"]
    note u = jobs_modify [OF assms(1) Some, of "holds w f"
        "\<lambda>j. (release JobFailed j)\<lparr>jb_error := Some (''unknown_job_kind:'' @ jb_kind j)\<rparr>"]
    show ?thesis
      using assms(1,2) Some True id c [OF nt lawful_release] u [OF True lawful_unknown]
      by (auto simp: begin_job_def split: if_splits option.splits)
  qed
qed

lemma fail_job_ok:
  assumes "jobs_ok (jobs s)"
  shows "jobs_ok (jobs (fail_job w i f e s)) \<and> jobs_evolve (jobs s) (jobs (fail_job w i f e s))"
proof (cases "row_get jb_id i (jobs s)")
  case (Some j)
  show ?thesis
    using assms jobs_modify [OF assms Some _ lawful_failed, of w f e] by (simp add: fail_job_def Some)
qed (use assms in \<open>simp add: fail_job_def\<close>)

lemma cancel_job_ok:
  assumes "jobs_ok (jobs s)" "cancel_job R sv i s = Inr t"
  shows "jobs_ok (jobs t) \<and> jobs_evolve (jobs s) (jobs t)"
proof -
  from assms(2) obtain j a b d e where j: "find (\<lambda>j. jb_id j = i \<and> jb_ws j = wid sv) (jobs s) = Some j" "\<not> terminal j"
    and t: "t = audit R sv a b d e (modify_job (jb_id j) (\<lambda>j. j\<lparr>jb_cancel := True\<rparr>) s)"
    by (auto simp: cancel_job_def res_elim)
  have "j \<in> set (jobs s)" using j(1) by (auto dest: find_SomeD)
  then have "row_get jb_id (jb_id j) (jobs s) = Some j"
    using row_get_distinct [of jb_id "jobs s" j] assms(1) by (simp add: jobs_ok_def)
  from jobs_modify [OF assms(1) this _ lawful_cancel] j(2) show ?thesis by (simp add: t audit_def Let_def)
qed

lemma finish_job_cases:
  assumes "finish_job w f lost j h s = Inr t"
  shows "\<not> lost" "\<exists>r s1. h j s = Inr (r, s1) \<and>
    update_job (jb_id j) (\<lambda>j. holds w f j \<and> \<not> jb_cancel j) (completed (jb_payload j) r) s1 = (True, t)"
proof -
  from assms obtain r s1 where h: "h j s = Inr (r, s1)"
    by (auto simp: finish_job_def bind_res_Inr)
  obtain one s2 where u: "update_job (jb_id j) (\<lambda>j. holds w f j \<and> \<not> jb_cancel j)
      (completed (jb_payload j) r) s1 = (one, s2)" by (cases "update_job (jb_id j)
      (\<lambda>j. holds w f j \<and> \<not> jb_cancel j) (completed (jb_payload j) r) s1")
  from assms have "\<not> lost \<and> one \<and> s2 = t" by (simp add: finish_job_def h u res_elim)
  with h u show "\<not> lost" "\<exists>r s1. h j s = Inr (r, s1) \<and>
    update_job (jb_id j) (\<lambda>j. holds w f j \<and> \<not> jb_cancel j) (completed (jb_payload j) r) s1 = (True, t)"
    by auto
qed

section \<open>The fleet\<close>

text \<open>
  Any number of workers over one database. \<open>claims\<close> are the fences ever granted and \<open>running\<close> the
  transactions ever started; neither is withdrawn, so a step of a worker that was delayed,
  restarted or superseded may come at any later time, and a crash is a worker that takes no further
  step. The handler's work is taken at its commit. \<open>commits\<close> lists the jobs whose work was committed.
\<close>

record fleet =
  store :: db
  claims :: "(string \<times> ident \<times> int) set"
  running :: "(string \<times> int \<times> job \<times> handler) set"
  commits :: "ident list"

inductive fleet_step :: "(string \<Rightarrow> handler option) \<Rightarrow> fleet \<Rightarrow> fleet \<Rightarrow> bool" for H where
  Claim: "claim_one w now (store a) = (Some (i, f), t) \<Longrightarrow>
    fleet_step H a (a\<lparr>store := t, claims := insert (w, i, f) (claims a)\<rparr>)"
| Idle: "claim_one w now (store a) = (None, t) \<Longrightarrow> fleet_step H a (a\<lparr>store := t\<rparr>)"
| Renew: "(w, i, f) \<in> claims a \<Longrightarrow> renew_lease w i f now (store a) = (ok, t) \<Longrightarrow>
    fleet_step H a (a\<lparr>store := t\<rparr>)"
| Start: "(w, i, f) \<in> claims a \<Longrightarrow> begin_job H w i f (store a) = (Ready j h, t) \<Longrightarrow>
    fleet_step H a (a\<lparr>store := t, running := insert (w, f, j, h) (running a)\<rparr>)"
| Settle: "(w, i, f) \<in> claims a \<Longrightarrow> begin_job H w i f (store a) = (b, t) \<Longrightarrow> b = NotOurs \<or> b = Settled \<Longrightarrow>
    fleet_step H a (a\<lparr>store := t\<rparr>)"
| Commit: "(w, f, j, h) \<in> running a \<Longrightarrow> finish_job w f lost j h (store a) = Inr t \<Longrightarrow>
    fleet_step H a (a\<lparr>store := t, commits := commits a @ [jb_id j]\<rparr>)"
| Abort: "(w, f, j, h) \<in> running a \<Longrightarrow>
    fleet_step H a (a\<lparr>store := fail_job w (jb_id j) f e (store a)\<rparr>)"
| Cancel: "cancel_job R sv i (store a) = Inr t \<Longrightarrow> fleet_step H a (a\<lparr>store := t\<rparr>)"
| Enqueue: "jobs t = jobs (store a) @ new \<Longrightarrow> jobs_ok (jobs t) \<Longrightarrow> \<forall>j \<in> set new. jb_status j = JobQueued \<Longrightarrow>
    fleet_step H a (a\<lparr>store := t\<rparr>)"

definition start_fleet :: "db \<Rightarrow> fleet" where
  "start_fleet s = \<lparr>store = s, claims = {}, running = {}, commits = []\<rparr>"

definition claim_ok :: "db \<Rightarrow> string \<Rightarrow> ident \<Rightarrow> int \<Rightarrow> bool" where
  "claim_ok s w i f \<longleftrightarrow> (\<exists>j \<in> set (jobs s). jb_id j = i \<and> f \<le> jb_lease j \<and>
     (jb_lease j = f \<longrightarrow> jb_owner j \<in> {Some w, None}))"

definition fleet_ok :: "(string \<Rightarrow> handler option) \<Rightarrow> fleet \<Rightarrow> bool" where
  "fleet_ok H a \<longleftrightarrow> jobs_ok (jobs (store a)) \<and>
     (\<forall>(w, i, f) \<in> claims a. claim_ok (store a) w i f) \<and>
     (\<forall>(w, i, f) \<in> claims a. \<forall>w'. (w', i, f) \<in> claims a \<longrightarrow> w' = w) \<and>
     (\<forall>(w, f, j, h) \<in> running a. (w, jb_id j, f) \<in> claims a \<and> H (jb_kind j) = Some h) \<and>
     distinct (commits a) \<and>
     (\<forall>i \<in> set (commits a). \<exists>j \<in> set (jobs (store a)). jb_id j = i \<and> jb_status j = JobComplete)"

lemma claim_ok_evolve: "claim_ok s w i f \<Longrightarrow> jobs_evolve (jobs s) (jobs t) \<Longrightarrow> claim_ok t w i f"
  unfolding claim_ok_def by (fastforce simp: evolves_def dest!: jobs_evolve_mem)

lemma complete_evolve:
  assumes "j \<in> set (jobs s)" "jb_status j = JobComplete" "jobs_evolve (jobs s) (jobs t)"
  shows "j \<in> set (jobs t)"
  using jobs_evolve_mem [OF assms(3,1)] assms(2) by (auto simp: evolves_def terminal_def)

lemma fleet_ok_evolve:
  assumes "fleet_ok H a" "jobs_ok (jobs t)" "jobs_evolve (jobs (store a)) (jobs t)"
  shows "fleet_ok H (a\<lparr>store := t\<rparr>)"
proof -
  have "\<exists>j \<in> set (jobs t). jb_id j = i \<and> jb_status j = JobComplete" if i: "i \<in> set (commits a)" for i
  proof -
    from assms(1) i obtain j :: job where "j \<in> set (jobs (store a))" "jb_id j = i" "jb_status j = JobComplete"
      by (auto simp: fleet_ok_def)
    with complete_evolve [OF _ _ assms(3)] show ?thesis by blast
  qed
  moreover have "claim_ok t w i f" if "(w, i, f) \<in> claims a" for w i f
    using assms(1) that claim_ok_evolve [OF _ assms(3)] by (auto simp: fleet_ok_def)
  ultimately show ?thesis using assms(1,2) by (auto simp: fleet_ok_def)
qed

text \<open>A handler works on the data, not on the job table.\<close>

locale quiet_handlers =
  fixes H :: "string \<Rightarrow> handler option"
  assumes keeps_jobs: "H k = Some h \<Longrightarrow> h j s = Inr (r, t) \<Longrightarrow> jobs t = jobs s"
begin

lemma finish_ok:
  assumes "jobs_ok (jobs s)" "H k = Some h" "finish_job w f lost j h s = Inr t"
  shows "jobs_ok (jobs t)" "jobs_evolve (jobs s) (jobs t)"
    "\<exists>q \<in> set (jobs s). jb_id q = jb_id j \<and> holds w f q \<and> \<not> jb_cancel q"
    "\<exists>q \<in> set (jobs t). jb_id q = jb_id j \<and> jb_status q = JobComplete"
proof -
  from finish_job_cases(2) [OF assms(3)] obtain r s1 where h: "h j s = Inr (r, s1)"
    and u: "update_job (jb_id j) (\<lambda>j. holds w f j \<and> \<not> jb_cancel j) (completed (jb_payload j) r) s1 = (True, t)"
    by blast
  have js: "jobs s1 = jobs s" by (rule keeps_jobs [OF assms(2) h])
  from update_job_ok [OF _ u lawful_completed] assms(1) js
  show "jobs_ok (jobs t)" "jobs_evolve (jobs s) (jobs t)" by auto
  from update_job_one [OF u] obtain q where "q \<in> set (jobs s)" "jb_id q = jb_id j" "holds w f q"
    "\<not> jb_cancel q" "completed (jb_payload j) r q \<in> set (jobs t)" by (auto simp: js)
  moreover have "jb_id (completed (jb_payload j) r q) = jb_id q"
    "jb_status (completed (jb_payload j) r q) = JobComplete" by (simp_all add: completed_def release_def)
  ultimately show "\<exists>q \<in> set (jobs s). jb_id q = jb_id j \<and> holds w f q \<and> \<not> jb_cancel q"
    "\<exists>q \<in> set (jobs t). jb_id q = jb_id j \<and> jb_status q = JobComplete" by metis+
qed

lemma fleet_ok_step: "fleet_step H a b \<Longrightarrow> fleet_ok H a \<Longrightarrow> fleet_ok H b \<and> jobs_evolve (jobs (store a)) (jobs (store b))"
proof (induction rule: fleet_step.induct)
  case (Claim w now a i f t)
  then have ok: "jobs_ok (jobs (store a))" by (simp add: fleet_ok_def)
  note c = claim_one_ok [OF ok Claim(1)]
  from c(3) obtain j where j: "j \<in> set (jobs (store a))" "jb_id j = i" "f = jb_lease j + 1"
    "take_lease w now j \<in> set (jobs t)" by blast
  have old: "fleet_ok H (a\<lparr>store := t\<rparr>)" by (rule fleet_ok_evolve [OF Claim(2) c(1,2)])
  have new: "claim_ok t w i f"
    unfolding claim_ok_def by (rule bexI [OF _ j(4)]) (simp add: take_lease_def j(2,3))
  have fresh: "(w', i, f) \<notin> claims a" for w'
  proof
    assume "(w', i, f) \<in> claims a"
    with Claim(2) obtain q where q: "q \<in> set (jobs (store a))" "jb_id q = i" "f \<le> jb_lease q"
      by (auto simp: fleet_ok_def claim_ok_def)
    have "q = j" using find_key_unique [of jb_id "jobs (store a)" q j] ok q j by (simp add: jobs_ok_def)
    with q(3) j(3) show False by simp
  qed
  with old new show ?case using c(2) by (auto simp: fleet_ok_def)
next
  case (Idle w now a t)
  with claim_one_ok [of "store a" w now None t] fleet_ok_evolve [of H a t] show ?case
    by (auto simp: fleet_ok_def)
next
  case (Renew w i f a now ok t)
  with renew_lease_ok [of "store a" w i f now ok t] fleet_ok_evolve [of H a t] show ?case
    by (auto simp: fleet_ok_def)
next
  case (Start w i f a j h t)
  then have "jobs_ok (jobs (store a))" by (simp add: fleet_ok_def)
  note b = begin_job_ok [OF this Start(2)]
  then have "fleet_ok H (a\<lparr>store := t\<rparr>)" using fleet_ok_evolve [OF Start(3)] by blast
  then show ?case using b Start(1) by (auto simp: fleet_ok_def)
next
  case (Settle w i f a b t)
  with begin_job_ok [of "store a" H w i f b t] fleet_ok_evolve [of H a t] show ?case
    by (auto simp: fleet_ok_def)
next
  case (Commit w f j h a lost t)
  then have ok: "jobs_ok (jobs (store a))" and hk: "H (jb_kind j) = Some h" by (auto simp: fleet_ok_def)
  note c = finish_ok [OF ok hk Commit(2)]
  from c(3) obtain q where q: "q \<in> set (jobs (store a))" "jb_id q = jb_id j" "holds w f q" by blast
  have "jb_id j \<notin> set (commits a)"
  proof
    assume "jb_id j \<in> set (commits a)"
    with Commit(3) obtain r where r: "r \<in> set (jobs (store a))" "jb_id r = jb_id j" "jb_status r = JobComplete"
      by (auto simp: fleet_ok_def)
    have "r = q" using find_key_unique [of jb_id "jobs (store a)" r q] ok q r by (simp add: jobs_ok_def)
    with holds_running [OF _ q(3)] ok q(1) r(3) show False by (auto simp: jobs_ok_def)
  qed
  with fleet_ok_evolve [OF Commit(3) c(1,2)] c(2,4) show ?case by (auto simp: fleet_ok_def)
next
  case (Abort w f j h a e)
  with fail_job_ok [of "store a" w "jb_id j" f e] fleet_ok_evolve [of H a "fail_job w (jb_id j) f e (store a)"]
  show ?case by (auto simp: fleet_ok_def)
next
  case (Cancel R sv i a t)
  with cancel_job_ok [of "store a" R sv i t] fleet_ok_evolve [of H a t] show ?case
    by (auto simp: fleet_ok_def)
next
  case (Enqueue t a new)
  with jobs_evolve_append [of "jobs (store a)" new] fleet_ok_evolve [of H a t] show ?case by auto
qed

lemma fleet_ok_run:
  assumes "(fleet_step H)\<^sup>*\<^sup>* a b" "fleet_ok H a"
  shows "fleet_ok H b \<and> jobs_evolve (jobs (store a)) (jobs (store b))"
  using assms
proof (induction rule: rtranclp_induct)
  case base
  then show ?case by simp
next
  case (step b c)
  with fleet_ok_step [of b c] jobs_evolve_trans show ?case by blast
qed

end

lemma fleet_ok_start: "jobs_ok (jobs s) \<Longrightarrow> fleet_ok H (start_fleet s)"
  by (simp add: fleet_ok_def start_fleet_def)

text \<open>The only handler there is leaves the job table alone.\<close>

lemma touch_entity_jobs: "touch_entity R sv i s = Inr t \<Longrightarrow> jobs t = jobs s"
  by (auto simp: touch_entity_def draft_entity_Inr modify_entity_frame dest!: draft_master_frame(17))

lemma reindex_object_jobs: "reindex_object R sv dk p b (n, s) = Inr (m, t) \<Longrightarrow> jobs t = jobs s"
proof -
  have "jobs (add_blocks R sv dk i r keys u) = jobs u" for i r keys u
    using add_blocks_only [of R sv dk i r keys u] by auto
  then show "reindex_object R sv dk p b (n, s) = Inr (m, t) \<Longrightarrow> jobs t = jobs s"
    by (auto simp: reindex_object_def res_elim renew_record_def split: option.splits)
qed

lemma remaster_domain_jobs:
  assumes "remaster_domain R j s = Inr (r, t)"
  shows "jobs t = jobs s"
  using assms
proof (cases rule: remaster_domain_cases)
  case (1 sv k domain p n s1 s2 detail)
  have "jobs (snd (n, s1)) = jobs (snd (0 :: int, clear_blocks sv (py_str R k) s))"
    by (rule fold_res_invariant [OF 1(6), where P = "\<lambda>st. jobs (snd st) = jobs (snd (0 :: int, clear_blocks sv (py_str R k) s))"])
      (auto dest!: reindex_object_jobs)
  moreover have "jobs s2 = jobs s1"
    by (rule fold_res_invariant [OF 1(7) [unfolded remaster_entities_def], where P = "\<lambda>u. jobs u = jobs s1"])
      (auto dest!: touch_entity_jobs)
  ultimately show ?thesis using 1(8) by (simp add: frame_simps clear_blocks_def)
qed

interpretation worker_handlers: quiet_handlers "handlers R" for R
  by unfold_locales (auto simp: handlers_def split: if_splits dest: remaster_domain_jobs)

section \<open>One worker alone\<close>

lemma row_modify_twice:
  assumes "\<And>r. key (f r) = key r"
  shows "row_modify key i g (row_modify key i f rs) = row_modify key i (g \<circ> f) rs"
  using assms by (simp add: row_modify_def update_rows_def)

lemma update_rows_modify:
  assumes "\<And>r. r \<in> set rs \<Longrightarrow> key r = i \<Longrightarrow> P r"
  shows "update_rows (\<lambda>r. key r = i \<and> P r) f rs = row_modify key i f rs"
  using assms by (auto simp: row_modify_def update_rows_def)

lemma take_lease_id [simp]: "jb_id (take_lease w now j) = jb_id j"
  by (simp add: take_lease_def)

lemma filter_key_one:
  assumes "distinct (map key rs)" "x \<in> set rs" "P x"
  shows "filter (\<lambda>q. key q = key x \<and> P q) rs = [x]"
  using assms
proof (induction rs)
  case Nil
  then show ?case by simp
next
  case (Cons r rs)
  show ?case
  proof (cases "r = x")
    case True
    then have "filter (\<lambda>q. key q = key x \<and> P q) rs = []"
      using Cons.prems(1) by (auto simp: filter_empty_conv image_iff)
    with True Cons.prems(3) show ?thesis by simp
  next
    case False
    with Cons.prems have "x \<in> set rs" "key r \<noteq> key x" by auto
    with Cons show ?thesis by simp
  qed
qed

lemma claimed_row:
  assumes "jobs_ok (jobs s)" "next_job now s = Some j"
  shows "row_get jb_id (jb_id j) (jobs (modify_job (jb_id j) (take_lease w now) s)) = Some (take_lease w now j)"
proof -
  have "row_get jb_id (jb_id j) (jobs s) = Some j"
    using row_get_distinct [of jb_id "jobs s" j] assms(1) next_job_Some(1) [OF assms(2)]
    by (simp add: jobs_ok_def)
  then show ?thesis by (simp add: modify_job_def row_get_modify take_lease_def)
qed

lemma run_once_starts:
  assumes "jobs_ok (jobs s)" "next_job now s = Some j" "\<not> jb_cancel j" "H (jb_kind j) = Some h"
    and "s1 = modify_job (jb_id j) (take_lease w now) s"
  shows "run_once H w now lost s = (case finish_job w (jb_lease j + 1) lost (take_lease w now j) h s1 of
      Inr t \<Rightarrow> (True, t)
    | Inl e \<Rightarrow> (True, fail_job w (jb_id j) (jb_lease j + 1) (error_name e) s1))"
proof -
  have "begin_job H w (jb_id j) (jb_lease j + 1) s1 = (Ready (take_lease w now j) h, s1)"
    unfolding begin_job_def assms(5) claimed_row [OF assms(1,2)] using assms(3,4)
    by (simp add: take_lease_def holds_def)
  then show ?thesis
    using assms(2,3) unfolding assms(5) by (simp add: run_once_def claim_one_def)
qed

lemma run_once_fails:
  assumes "jobs_ok (jobs s)" "next_job now s = Some j" "\<not> jb_cancel j" "H (jb_kind j) = Some h"
    and "h (take_lease w now j) (modify_job (jb_id j) (take_lease w now) s) = Inl e"
  shows "run_once H w now lost s =
    (True, modify_job (jb_id j) (failed (error_name e) \<circ> take_lease w now) s)"
proof -
  note row = claimed_row [OF assms(1,2), of w]
  note r = run_once_starts [where H = H and h = h and w = w and lost = lost, OF assms(1-4) refl]
  have "fail_job w (jb_id j) (jb_lease j + 1) x (modify_job (jb_id j) (take_lease w now) s) =
      modify_job (jb_id j) (failed x \<circ> take_lease w now) s" for x
    unfolding fail_job_def row
    by (simp add: holds_def take_lease_def) (simp add: modify_job_def row_modify_twice comp_def)
  with assms(5) show ?thesis unfolding r by (simp add: finish_job_def)
qed

lemma run_once_completes:
  assumes "jobs_ok (jobs s)" "next_job now s = Some j" "\<not> jb_cancel j" "H (jb_kind j) = Some h"
    and "h (take_lease w now j) (modify_job (jb_id j) (take_lease w now) s) = Inr (r, u)"
    and "jobs u = jobs (modify_job (jb_id j) (take_lease w now) s)"
  shows "run_once H w now False s =
    (True, u\<lparr>jobs := row_modify jb_id (jb_id j) (completed (jb_payload j) r \<circ> take_lease w now) (jobs s)\<rparr>)"
proof -
  let ?s1 = "modify_job (jb_id j) (take_lease w now) s"
  let ?P = "\<lambda>q. holds w (jb_lease j + 1) q \<and> \<not> jb_cancel q"
  note row = claimed_row [OF assms(1,2), of w]
  note st = run_once_starts [where H = H and h = h and w = w and lost = False, OF assms(1-4) refl]
  have "jobs_ok (jobs ?s1)"
    using jobs_modify [OF assms(1), of "jb_id j" j "claimable now" "take_lease w now"] lawful_take
      next_job_Some [OF assms(2)] row_get_distinct [of jb_id "jobs s" j] assms(1) by (simp add: jobs_ok_def)
  then have "jobs_ok (jobs ?s1)" .
  then have only: "q = take_lease w now j" if "q \<in> set (jobs ?s1)" "jb_id q = jb_id j" for q
    using find_key_unique [of jb_id "jobs ?s1" q "take_lease w now j"] row_get_mem [OF row] that
    by (simp add: jobs_ok_def take_lease_def)
  have held: "?P (take_lease w now j)" using assms(3) by (simp add: holds_def take_lease_def)
  have "filter (\<lambda>q. jb_id q = jb_id j \<and> ?P q) (jobs ?s1) = [take_lease w now j]"
    using filter_key_one [of jb_id "jobs ?s1" "take_lease w now j" ?P] \<open>jobs_ok (jobs ?s1)\<close> held
      row_get_mem [OF row] by (simp add: jobs_ok_def)
  moreover have "update_rows (\<lambda>q. jb_id q = jb_id j \<and> ?P q) g (jobs ?s1) = row_modify jb_id (jb_id j) g (jobs ?s1)" for g
    by (rule update_rows_modify) (use only held in auto)
  ultimately have "update_job (jb_id j) ?P g u = (True, u\<lparr>jobs := row_modify jb_id (jb_id j) g (jobs ?s1)\<rparr>)" for g
    by (simp add: update_job_def assms(6))
  then have "finish_job w (jb_lease j + 1) False (take_lease w now j) h ?s1 =
      Inr (u\<lparr>jobs := row_modify jb_id (jb_id j) (completed (jb_payload j) r) (jobs ?s1)\<rparr>)"
    by (simp add: finish_job_def assms(5)) (simp add: take_lease_def)
  then show ?thesis
    unfolding st by (simp add: modify_job_def row_modify_twice take_lease_def comp_def)
qed

definition attempted :: "string \<Rightarrow> job \<Rightarrow> nat \<Rightarrow> job \<Rightarrow> bool" where
  "attempted k j n j' \<longleftrightarrow> jb_id j' = jb_id j \<and> jb_kind j' = k \<and> \<not> jb_cancel j' \<and> row_ok j' \<and>
     jb_attempts j' = int n \<and>
     jb_status j' = (if n = 0 then JobQueued else if n < 5 then JobRetry else JobFailed)"

text \<open>
  The life of one job among others: runs of the worker in which its handler raises or its lease is
  lost, and between them whatever else happens to the database and to the other jobs.
\<close>

inductive failing_runs :: "runtime \<Rightarrow> ident \<Rightarrow> db \<Rightarrow> nat \<Rightarrow> db \<Rightarrow> bool" for R :: runtime and i :: ident and s :: db where
  Begin: "failing_runs R i s 0 s"
| Fails: "failing_runs R i s n u \<Longrightarrow> next_job now u = Some j \<Longrightarrow> jb_id j = i \<Longrightarrow> handlers R (jb_kind j) = Some h \<Longrightarrow>
    finish_job w (jb_lease j + 1) lost (take_lease w now j) h (modify_job i (take_lease w now) u) = Inl e \<Longrightarrow>
    run_once (handlers R) w now lost u = (b, t) \<Longrightarrow> failing_runs R i s (Suc n) t"
| Others: "failing_runs R i s n u \<Longrightarrow> jobs_ok (jobs t) \<Longrightarrow> row_get jb_id i (jobs t) = row_get jb_id i (jobs u) \<Longrightarrow>
    failing_runs R i s n t"

lemma run_once_gives_up:
  assumes "jobs_ok (jobs s)" "next_job now s = Some j" "\<not> jb_cancel j" "H (jb_kind j) = Some h"
    and "finish_job w (jb_lease j + 1) lost (take_lease w now j) h (modify_job (jb_id j) (take_lease w now) s) = Inl e"
    and "run_once H w now lost s = (b, t)"
  shows "jobs_ok (jobs t) \<and> row_get jb_id (jb_id j) (jobs t) = Some (failed (error_name e) (take_lease w now j))"
proof -
  let ?s1 = "modify_job (jb_id j) (take_lease w now) s" and ?f = "failed (error_name e)"
  note row = claimed_row [OF assms(1,2), of w]
  have t: "t = fail_job w (jb_id j) (jb_lease j + 1) (error_name e) ?s1"
    using run_once_starts [where H = H and h = h and w = w and lost = lost, OF assms(1-4) refl] assms(5,6) by simp
  have "claim_one w now s = (Some (jb_id j, jb_lease j + 1), ?s1)" using assms(2,3) by (simp add: claim_one_def)
  from claim_one_ok(1) [OF assms(1) this] have ok: "jobs_ok (jobs ?s1)" .
  have "holds w (jb_lease j + 1) (take_lease w now j)" by (simp add: holds_def take_lease_def)
  then have t': "t = modify_job (jb_id j) ?f ?s1" unfolding t fail_job_def row by simp
  have "jb_id (?f q) = jb_id q" for q by (simp add: failed_def release_def)
  then have "row_get jb_id (jb_id j) (jobs t) = map_option ?f (row_get jb_id (jb_id j) (jobs ?s1))"
    unfolding t' modify_job_def [of _ ?f] by (simp add: row_get_modify)
  then have "row_get jb_id (jb_id j) (jobs t) = Some (?f (take_lease w now j))" by (simp only: row option.map)
  then show ?thesis using fail_job_ok [OF ok, of w "jb_id j" "jb_lease j + 1" "error_name e"] unfolding t by blast
qed

lemma attempted_claimable: "attempted k j n j' \<Longrightarrow> claimable now j' \<longleftrightarrow> n < 5"
  by (auto simp: attempted_def claimable_def row_ok_def split: option.splits)

lemma attempted_again:
  "attempted k j n j' \<Longrightarrow> n < 5 \<Longrightarrow> attempted k j (Suc n) (failed e (take_lease w now j'))"
  by (auto simp: attempted_def failed_def release_def take_lease_def max_attempts_def row_ok_def)

lemma failing_runs_attempted:
  assumes "failing_runs R i s n t" "jobs_ok (jobs s)" "row_get jb_id i (jobs s) = Some j" "attempted (jb_kind j) j 0 j"
  shows "n \<le> 5 \<and> jobs_ok (jobs t) \<and> (\<exists>j'. row_get jb_id i (jobs t) = Some j' \<and> attempted (jb_kind j) j n j')"
  using assms(1)
proof (induction rule: failing_runs.induct)
  case Begin
  with assms(2-4) show ?case by auto
next
  case (Fails n u now q h w lost e b t)
  then obtain j' where ok: "jobs_ok (jobs u)" and j': "row_get jb_id i (jobs u) = Some j'" "attempted (jb_kind j) j n j'" by blast
  have "row_get jb_id (jb_id q) (jobs u) = Some q"
    using row_get_distinct [of jb_id "jobs u" q] ok next_job_Some(1) [OF Fails.hyps(2)] by (simp add: jobs_ok_def)
  with j'(1) Fails.hyps(3) have q: "q = j'" by simp
  then have n: "n < 5" using attempted_claimable [OF j'(2)] next_job_Some(2) [OF Fails.hyps(2)] by simp
  have "\<not> jb_cancel q" using j'(2) q by (simp add: attempted_def)
  from run_once_gives_up [where H = "handlers R", OF ok Fails.hyps(2) this Fails.hyps(4) Fails.hyps(5) [folded Fails.hyps(3)] Fails.hyps(6)]
  show ?case using attempted_again [OF j'(2) n] n q Fails.hyps(3) by (intro conjI) (simp, blast, blast)
next
  case (Others n u t)
  then show ?case by simp
qed

section \<open>Properties\<close>

text \<open>
  C9. However the steps of any number of workers interleave, with crashes, late steps, expired and
  renewed leases and cancellations, the work of a job is committed at most once, and a job whose
  work was committed is complete.
\<close>

theorem job_effects_are_committed_at_most_once:
  assumes "jobs_ok (jobs s)" "(fleet_step (handlers R))\<^sup>*\<^sup>* (start_fleet s) a"
  shows "distinct (commits a) \<and>
    (\<forall>i \<in> set (commits a). \<exists>j \<in> set (jobs (store a)). jb_id j = i \<and> jb_status j = JobComplete)"
  using worker_handlers.fleet_ok_run [OF assms(2) fleet_ok_start [OF assms(1)]] by (simp add: fleet_ok_def)

text \<open>
  A fence is never granted twice, and a worker whose fence was overtaken can change nothing any
  more: it cannot renew the lease, start or commit the work, or mark the job failed.
\<close>

theorem overtaken_workers_change_nothing:
  assumes "jobs_ok (jobs s)" "(fleet_step (handlers R))\<^sup>*\<^sup>* (start_fleet s) a"
    and "(w, i, f) \<in> claims a" "(w', i, f') \<in> claims a"
  shows "(f = f' \<longrightarrow> w = w') \<and>
    (f < f' \<longrightarrow> renew_lease w i f now (store a) = (False, store a) \<and>
       begin_job (handlers R) w i f (store a) = (NotOurs, store a) \<and>
       fail_job w i f e (store a) = store a \<and>
       (\<forall>j h lost t. jb_id j = i \<and> handlers R k = Some h \<longrightarrow> finish_job w f lost j h (store a) \<noteq> Inr t))"
proof -
  note ok = worker_handlers.fleet_ok_run [OF assms(2) fleet_ok_start [OF assms(1)]]
  then have jobs: "jobs_ok (jobs (store a))" by (simp add: fleet_ok_def)
  have "f = f' \<longrightarrow> w = w'" using ok assms(3,4) by (auto simp: fleet_ok_def)
  moreover {
    assume "f < f'"
    have none: "\<not> holds w f j" if j: "j \<in> set (jobs (store a))" "jb_id j = i" for j
    proof -
      from ok assms(4) obtain q where q: "q \<in> set (jobs (store a))" "jb_id q = i" "f' \<le> jb_lease q"
        by (auto simp: fleet_ok_def claim_ok_def)
      have "q = j" using find_key_unique [of jb_id "jobs (store a)" q j] jobs q j by (simp add: jobs_ok_def)
      with q(3) \<open>f < f'\<close> show ?thesis by (simp add: holds_def)
    qed
    have "renew_lease w i f now (store a) = (False, store a)"
    proof -
      have "filter (\<lambda>j. jb_id j = i \<and> renewable w f j) (jobs (store a)) = []"
        using none by (auto simp: filter_empty_conv renewable_def)
      moreover have "update_rows (\<lambda>j. jb_id j = i \<and> renewable w f j) g (jobs (store a)) = jobs (store a)" for g
        by (rule update_rows_none) (use none in \<open>auto simp: renewable_def\<close>)
      ultimately show ?thesis by (simp add: renew_lease_def update_job_def)
    qed
    moreover have "begin_job (handlers R) w i f (store a) = (NotOurs, store a)"
      "fail_job w i f e (store a) = store a"
      using none row_get_mem row_get_key
      by (force simp: begin_job_def fail_job_def split: option.split)+
    moreover have "finish_job w f lost j h (store a) \<noteq> Inr t" if "jb_id j = i" "handlers R k = Some h" for j h lost t
      using worker_handlers.finish_ok(3) [OF jobs that(2), of w f lost j t] none that(1) by auto
    ultimately have "renew_lease w i f now (store a) = (False, store a) \<and>
       begin_job (handlers R) w i f (store a) = (NotOurs, store a) \<and>
       fail_job w i f e (store a) = store a \<and>
       (\<forall>j h lost t. jb_id j = i \<and> handlers R k = Some h \<longrightarrow> finish_job w f lost j h (store a) \<noteq> Inr t)" by blast
  }
  ultimately show ?thesis by blast
qed

text \<open>
  C14. A run of the worker takes the oldest free job. When the handler succeeds, the handler's
  changes and the completed row are committed together; when it raises, the database is what it
  was, except that the row records one more attempt and the error, and is retried or, from the
  fifth attempt on, failed.
\<close>

theorem a_run_commits_all_or_only_the_attempt:
  assumes "jobs_ok (jobs s)" "next_job now s = Some j" "\<not> jb_cancel j" "handlers R (jb_kind j) = Some h"
  shows "case h (take_lease w now j) (modify_job (jb_id j) (take_lease w now) s) of
      Inr (r, u) \<Rightarrow> run_once (handlers R) w now False s =
        (True, u\<lparr>jobs := row_modify jb_id (jb_id j) (completed (jb_payload j) r \<circ> take_lease w now) (jobs s)\<rparr>)
    | Inl e \<Rightarrow> run_once (handlers R) w now lost s =
        (True, s\<lparr>jobs := row_modify jb_id (jb_id j) (failed (error_name e) \<circ> take_lease w now) (jobs s)\<rparr>)"
proof (cases "h (take_lease w now j) (modify_job (jb_id j) (take_lease w now) s)")
  case (Inl e)
  with run_once_fails [where H = "handlers R" and h = h, OF assms Inl] show ?thesis by (simp add: modify_job_def)
next
  case (Inr x)
  obtain r u where x: "x = (r, u)" by (cases x)
  with run_once_completes [where H = "handlers R" and h = h, OF assms Inr [unfolded x]] worker_handlers.keeps_jobs [OF assms(4) Inr [unfolded x]] Inr
  show ?thesis by simp
qed

text \<open>
  C15. A job whose runs all fail does not run for ever. Whatever else the database goes through, other
  jobs included: after n of its runs have raised or lost their lease the job has n attempts, it can be
  claimed again at any time while n is below five, and the fifth failure gives it up: there is no sixth
  run, and no worker ever takes the job again.
\<close>

theorem failing_jobs_are_given_up:
  assumes "failing_runs R i s n t" "jobs_ok (jobs s)" "row_get jb_id i (jobs s) = Some j"
    and "jb_status j = JobQueued" "jb_attempts j = 0" "\<not> jb_cancel j"
  shows "n \<le> 5 \<and> (\<exists>j'. row_get jb_id i (jobs t) = Some j' \<and> jb_attempts j' = int n \<and>
    jb_status j' = (if n = 0 then JobQueued else if n < 5 then JobRetry else JobFailed) \<and>
    (n < 5 \<longrightarrow> claimable now j') \<and>
    (n = 5 \<longrightarrow> (\<forall>q. next_job now t = Some q \<longrightarrow> jb_id q \<noteq> i)))"
proof -
  have "row_ok j" using assms(2) row_get_mem [OF assms(3)] by (simp add: jobs_ok_def)
  with assms(4-6) have "attempted (jb_kind j) j 0 j" by (simp add: attempted_def)
  from failing_runs_attempted [OF assms(1-3) this] obtain j' where
    n: "n \<le> 5" and ok: "jobs_ok (jobs t)" and j': "row_get jb_id i (jobs t) = Some j'" "attempted (jb_kind j) j n j'" by blast
  have "jb_id q \<noteq> i" if "n = 5" "next_job now t = Some q" for q
  proof
    assume "jb_id q = i"
    then have "q = j'"
      using row_get_distinct [of jb_id "jobs t" q] ok next_job_Some(1) [OF that(2)] j'(1) by (simp add: jobs_ok_def)
    then show False using attempted_claimable [OF j'(2)] next_job_Some(2) [OF that(2)] that(1) by simp
  qed
  with n j' attempted_claimable [OF j'(2), of now] show ?thesis by (auto simp: attempted_def)
qed

text \<open>
  The limit is only consulted when a handler raises. A worker that dies leaves the job running, and
  once its lease has expired the job is claimed again, however many attempts it has had.
\<close>

lemma crashed_jobs_are_claimed_without_limit:
  assumes "jobs s = [j]" "jb_status j = JobRunning" "jb_expires j = Some x" "x < now" "\<not> jb_cancel j"
  shows "claim_one w now s = (Some (jb_id j, jb_lease j + 1), s\<lparr>jobs := [take_lease w now j]\<rparr>)"
  using assms by (simp add: claim_one_def next_job_def claimable_def modify_job_def row_modify_def)

section \<open>Witnesses\<close>

lemma index_job_queued:
  "jobs_ok [index_job pin]" "attempted (jb_kind (index_job pin)) (index_job pin) 0 (index_job pin)"
  "claimable now (index_job pin)" "jb_id (index_job pin) = ''j''" "jb_lease (index_job pin) = 0"
  "\<not> jb_cancel (index_job pin)" "handlers R (jb_kind (index_job pin)) = Some (remaster_domain R)"
  by (simp_all add: jobs_ok_def attempted_def row_ok_def claimable_def index_job_def handlers_def)

lemma index_job_claimed:
  "claim_one w now (index_db\<lparr>jobs := [index_job pin]\<rparr>) =
     (Some (''j'', 1), index_db\<lparr>jobs := [take_lease w now (index_job pin)]\<rparr>)"
  by (simp add: claim_one_def next_job_def modify_job_def row_modify_def index_job_queued)

lemma taken_index_job:
  "jb_ws (take_lease w now (index_job pin)) = ''w1''"
  "jb_payload (take_lease w now (index_job pin)) = index_payload pin"
  "jb_kind (take_lease w now (index_job pin)) = jb_kind (index_job pin)"
  "\<not> jb_cancel (take_lease w now (index_job pin))" "holds w 1 (take_lease w now (index_job pin))"
  by (simp_all add: take_lease_def index_job_def holds_def)

lemma index_fleet:
  "\<exists>pin a. (fleet_step (handlers ascii_runtime))\<^sup>*\<^sup>*
     (start_fleet (index_db\<lparr>jobs := [index_job pin]\<rparr>)) a \<and> commits a = [''j'']"
proof -
  obtain pin where pin: "\<And>j js. jb_ws j = ''w1'' \<Longrightarrow> jb_payload j = index_payload pin \<Longrightarrow>
     \<exists>out t. remaster_domain ascii_runtime j (index_db\<lparr>jobs := js\<rparr>) = Inr (out, t)"
    using index_db_remastered by blast
  let ?H = "handlers ascii_runtime"
  let ?j = "take_lease ''w'' 0 (index_job pin)"
  let ?s = "index_db\<lparr>jobs := [?j]\<rparr>"
  let ?h = "remaster_domain ascii_runtime"
  define a where "a = (start_fleet (index_db\<lparr>jobs := [index_job pin]\<rparr>))\<lparr>store := ?s, claims := {(''w'', ''j'', 1)}\<rparr>"
  have "fleet_step ?H (start_fleet (index_db\<lparr>jobs := [index_job pin]\<rparr>)) a"
    using Claim [of "''w''" 0 "start_fleet (index_db\<lparr>jobs := [index_job pin]\<rparr>)"] index_job_claimed
    by (simp add: a_def start_fleet_def)
  moreover have "begin_job ?H ''w'' ''j'' 1 ?s = (Ready ?j ?h, ?s)"
    using taken_index_job index_job_queued(4,7)
    by (simp add: begin_job_def row_get_def)
  then have "fleet_step ?H a (a\<lparr>running := {(''w'', 1, ?j, ?h)}\<rparr>)"
    using Start [of "''w''" "''j''" 1 a ?H ?j ?h ?s] by (simp add: a_def start_fleet_def)
  moreover obtain out t where t: "?h ?j ?s = Inr (out, t)"
    using pin [OF taken_index_job(1,2)] by blast
  have "jobs t = [?j]" using remaster_domain_jobs [OF t] by simp
  then obtain u where "finish_job ''w'' 1 False ?j ?h ?s = Inr u"
    using taken_index_job index_job_queued(4) by (auto simp: finish_job_def t update_job_def)
  then have "fleet_step ?H (a\<lparr>running := {(''w'', 1, ?j, ?h)}\<rparr>)
      (a\<lparr>running := {(''w'', 1, ?j, ?h)}, store := u, commits := [''j'']\<rparr>)"
    using Commit [of "''w''" 1 ?j ?h "a\<lparr>running := {(''w'', 1, ?j, ?h)}\<rparr>" False u ?H] index_job_queued(4)
    by (simp add: a_def start_fleet_def)
  ultimately have "(fleet_step ?H)\<^sup>*\<^sup>* (start_fleet (index_db\<lparr>jobs := [index_job pin]\<rparr>))
      (a\<lparr>running := {(''w'', 1, ?j, ?h)}, store := u, commits := [''j'']\<rparr>)"
    by (meson converse_rtranclp_into_rtranclp rtranclp.rtrancl_refl)
  then show ?thesis by (intro exI conjI) (assumption, simp)
qed

theorem job_effects_are_committed_at_most_once_witness:
  "\<exists>a :: fleet. commits a = [''j''] \<and> (\<exists>j \<in> set (jobs (store a)). jb_id j = ''j'' \<and> jb_status j = JobComplete)"
proof -
  obtain pin a where a: "(fleet_step (handlers ascii_runtime))\<^sup>*\<^sup>*
     (start_fleet (index_db\<lparr>jobs := [index_job pin]\<rparr>)) a" "commits a = [''j'']" using index_fleet by blast
  have "jobs_ok (jobs (index_db\<lparr>jobs := [index_job pin]\<rparr>))" using index_job_queued(1) by simp
  from job_effects_are_committed_at_most_once [OF this a(1)] a(2) show ?thesis
    by (intro exI [of _ a]) auto
qed

lemma reclaimed_fleet:
  "\<exists>a. (fleet_step (handlers R))\<^sup>*\<^sup>* (start_fleet (index_db\<lparr>jobs := [index_job pin]\<rparr>)) a \<and>
     claims a = {(''v'', ''j'', 2), (''w'', ''j'', 1)}"
proof -
  let ?j = "take_lease ''w'' 0 (index_job pin)"
  let ?s = "index_db\<lparr>jobs := [?j]\<rparr>"
  let ?f = "start_fleet (index_db\<lparr>jobs := [index_job pin]\<rparr>)"
  have "claim_one ''v'' (2 * lease_time) ?s = (Some (''j'', 2), ?s\<lparr>jobs := [take_lease ''v'' (2 * lease_time) ?j]\<rparr>)"
    using index_job_queued(4,5)
    by (simp add: claim_one_def next_job_def modify_job_def row_modify_def claimable_def)
      (simp add: take_lease_def lease_time_def index_job_def)
  then have "fleet_step (handlers R) (?f\<lparr>store := ?s, claims := {(''w'', ''j'', 1)}\<rparr>)
      (?f\<lparr>store := ?s\<lparr>jobs := [take_lease ''v'' (2 * lease_time) ?j]\<rparr>, claims := {(''v'', ''j'', 2), (''w'', ''j'', 1)}\<rparr>)"
    using Claim [of "''v''" "2 * lease_time" "?f\<lparr>store := ?s, claims := {(''w'', ''j'', 1)}\<rparr>"] by simp
  moreover have "fleet_step (handlers R) ?f (?f\<lparr>store := ?s, claims := {(''w'', ''j'', 1)}\<rparr>)"
    using Claim [of "''w''" 0 ?f] index_job_claimed by (simp add: start_fleet_def)
  ultimately have "(fleet_step (handlers R))\<^sup>*\<^sup>* ?f
      (?f\<lparr>store := ?s\<lparr>jobs := [take_lease ''v'' (2 * lease_time) ?j]\<rparr>, claims := {(''v'', ''j'', 2), (''w'', ''j'', 1)}\<rparr>)"
    by (meson converse_rtranclp_into_rtranclp rtranclp.rtrancl_refl)
  then show ?thesis by (intro exI conjI) (assumption, simp)
qed

theorem overtaken_workers_change_nothing_witness:
  "\<exists>a :: fleet. claims a = {(''v'', ''j'', 2), (''w'', ''j'', 1)} \<and>
     renew_lease ''w'' ''j'' 1 0 (store a) = (False, store a)"
proof -
  obtain a where a: "(fleet_step (handlers ascii_runtime))\<^sup>*\<^sup>*
     (start_fleet (index_db\<lparr>jobs := [index_job []]\<rparr>)) a" "claims a = {(''v'', ''j'', 2), (''w'', ''j'', 1)}"
    using reclaimed_fleet by blast
  have "jobs_ok (jobs (index_db\<lparr>jobs := [index_job []]\<rparr>))" using index_job_queued(1) by simp
  from overtaken_workers_change_nothing [OF this a(1), of "''w''" "''j''" 1 "''v''" 2 0] a(2) show ?thesis
    by (intro exI [of _ a]) auto
qed

theorem a_run_commits_all_or_only_the_attempt_witness:
  "\<exists>pin t. run_once (handlers ascii_runtime) ''w'' 0 False (index_db\<lparr>jobs := [index_job pin]\<rparr>) = (True, t) \<and>
     map jb_status (jobs t) = [JobComplete]"
proof -
  obtain pin where pin: "\<And>j js. jb_ws j = ''w1'' \<Longrightarrow> jb_payload j = index_payload pin \<Longrightarrow>
     \<exists>out t. remaster_domain ascii_runtime j (index_db\<lparr>jobs := js\<rparr>) = Inr (out, t)"
    using index_db_remastered by blast
  let ?s = "index_db\<lparr>jobs := [index_job pin]\<rparr>"
  obtain out t where t: "remaster_domain ascii_runtime (take_lease ''w'' 0 (index_job pin))
      (modify_job (jb_id (index_job pin)) (take_lease ''w'' 0) ?s) = Inr (out, t)"
    using pin [OF taken_index_job(1,2), of "''w''" 0 "[take_lease ''w'' 0 (index_job pin)]"]
    by (auto simp: modify_job_def row_modify_def)
  have s: "jobs_ok (jobs ?s)" "next_job 0 ?s = Some (index_job pin)"
    using index_job_queued by (simp_all add: next_job_def)
  from a_run_commits_all_or_only_the_attempt [OF s index_job_queued(6,7), of ascii_runtime "''w''"] t
  obtain u where "run_once (handlers ascii_runtime) ''w'' 0 False ?s = (True, u)" "map jb_status (jobs u) = [JobComplete]"
    by (auto simp: row_modify_def completed_def release_def)
  then show ?thesis by (intro exI [of _ pin] exI [of _ u] conjI)
qed

text \<open>A remastering job of a workspace that is gone, beside a job that is complete.\<close>

definition done_job :: job where
  "done_job = (index_job [])\<lparr>jb_id := ''d'', jb_status := JobComplete\<rparr>"

lemma lost_workspace_fails:
  assumes "workspaces s = []" "jobs s = [j, done_job]" "attempted ''remaster_domain'' (index_job []) n j" "n < 5"
  shows "\<exists>t j'. workspaces t = [] \<and> jobs t = [j', done_job] \<and> attempted ''remaster_domain'' (index_job []) (Suc n) j' \<and>
    (failing_runs R ''j'' s0 n s \<longrightarrow> failing_runs R ''j'' s0 (Suc n) t)"
proof -
  have j: "jb_id j = ''j''" "jb_kind j = ''remaster_domain''" "\<not> jb_cancel j" "row_ok j"
    using assms(3) by (simp_all add: attempted_def index_job_def)
  have "\<not> claimable 0 done_job" by (simp add: claimable_def done_job_def)
  then have first: "next_job 0 s = Some j" using attempted_claimable [OF assms(3)] assms(2,4) by (simp add: next_job_def)
  have ok: "jobs_ok (jobs s)" using j by (simp add: assms(2) jobs_ok_def done_job_def row_ok_def index_job_def)
  let ?s1 = "modify_job ''j'' (take_lease ''w'' 0) s"
  have "workspaces ?s1 = []" by (simp add: modify_job_def assms(1))
  then have "\<exists>e. remaster_domain R (take_lease ''w'' 0 j) ?s1 = Inl e"
    by (simp add: remaster_domain_def job_service_def row_get_def from_option_def)
  then obtain e where e: "finish_job ''w'' (jb_lease j + 1) False (take_lease ''w'' 0 j) (remaster_domain R) ?s1 = Inl e"
    by (auto simp: finish_job_def)
  have h: "handlers R (jb_kind j) = Some (remaster_domain R)" by (simp add: handlers_def j(2))
  obtain b t where t: "run_once (handlers R) ''w'' 0 False s = (b, t)" by fastforce
  have "t = modify_job (jb_id j) (failed (error_name e)) ?s1"
    using run_once_starts [where H = "handlers R" and w = "''w''" and lost = False, OF ok first j(3) h refl] e t j(1)
      claimed_row [OF ok first, of "''w''"]
    by (simp add: fail_job_def holds_def take_lease_def)
  then have "workspaces t = []" "jobs t = [failed (error_name e) (take_lease ''w'' 0 j), done_job]"
    using j(1) by (simp_all add: modify_job_def assms(1,2) row_modify_def update_rows_def done_job_def)
  moreover have "failing_runs R ''j'' s0 n s \<longrightarrow> failing_runs R ''j'' s0 (Suc n) t"
    using failing_runs.Fails [OF _ first j(1) h e t] by blast
  ultimately show ?thesis using attempted_again [OF assms(3,4)] by blast
qed

theorem failing_jobs_are_given_up_witness:
  "\<exists>t j'. failing_runs ascii_runtime ''j'' (empty_db\<lparr>jobs := [index_job [], done_job]\<rparr>) 5 t \<and>
     row_get jb_id ''j'' (jobs t) = Some j' \<and> jb_status j' = JobFailed \<and> jb_attempts j' = 5"
proof -
  let ?s = "empty_db\<lparr>jobs := [index_job [], done_job]\<rparr>"
  have fails: "n \<le> 5 \<Longrightarrow> \<exists>t j'. workspaces t = [] \<and> jobs t = [j', done_job] \<and> attempted ''remaster_domain'' (index_job []) n j' \<and>
      failing_runs ascii_runtime ''j'' ?s n t" for n
  proof (induction n)
    case 0
    have "attempted ''remaster_domain'' (index_job []) 0 (index_job [])"
      using index_job_queued(2) by (simp add: index_job_def)
    then show ?case
      by (intro exI [of _ ?s] exI [of _ "index_job []"]) (simp add: failing_runs.Begin, simp add: empty_db_def)
  next
    case (Suc n)
    then obtain t j' where "workspaces t = []" "jobs t = [j', done_job]" "attempted ''remaster_domain'' (index_job []) n j'"
      "failing_runs ascii_runtime ''j'' ?s n t" by auto
    with lost_workspace_fails [OF this(1-3), of ascii_runtime ?s] Suc.prems show ?case by auto
  qed
  then obtain t where t: "failing_runs ascii_runtime ''j'' ?s 5 t" by blast
  have "jobs_ok (jobs ?s)" "row_get jb_id ''j'' (jobs ?s) = Some (index_job [])"
    by (simp_all add: jobs_ok_def row_ok_def index_job_def done_job_def row_get_def)
  moreover have "jb_status (index_job []) = JobQueued" "jb_attempts (index_job []) = 0" "\<not> jb_cancel (index_job [])"
    by (simp_all add: index_job_def)
  ultimately obtain j' where "row_get jb_id ''j'' (jobs t) = Some j'" "jb_status j' = JobFailed" "jb_attempts j' = 5"
    using failing_jobs_are_given_up [OF t, of "index_job []" 0] by auto
  with t show ?thesis by blast
qed

end
