(* ===== verification/Publication.thy ===== *)
theory Publication
  imports Jobs
begin

text \<open>
  The delivery of outbox events (publication/service.py). \<open>relay_events\<close> marks an event
  \<open>reconcile\<close> and commits before it posts it, and records what the reply says afterwards;
  \<open>reconcile_events\<close> asks the consumer about the events that stayed ambiguous. The HTTP client is
  not part of the repository: the replies are a parameter, one per event, and so is the number of
  events a relay gets to before it is killed.
\<close>

section \<open>Replies\<close>

text \<open>
  A status code; a read timeout, write or read error, which the code takes as ambiguous; any other
  \<open>httpx.HTTPError\<close>, which it takes as not sent. (Write timeouts and \<open>RemoteProtocolError\<close>, a
  consumer that closes the connection without an answer, are among the latter.)
\<close>

datatype reply = Answered nat | Interrupted string | Errored string

datatype receipt_reply = Receipt nat json | NoReply string

record publication =
  pb_consumer :: string
  pb_url :: "string option"
  pb_receipts :: "string option"

definition http_error :: "nat \<Rightarrow> string" where
  "http_error code = ''HTTP_'' @ digits_of code"

definition relayable :: "ident \<Rightarrow> outbox_event \<Rightarrow> bool" where
  "relayable ws e \<longleftrightarrow> ev_ws e = ws \<and> ev_status e \<in> {EventPending, EventRetry}"

definition oldest :: "(outbox_event \<Rightarrow> bool) \<Rightarrow> db \<Rightarrow> outbox_event list" where
  "oldest P s = take 100 (sort_key ev_occurred (filter P (events s)))"

section \<open>Receipts\<close>

definition put_receipt ::
    "runtime \<Rightarrow> publication \<Rightarrow> outbox_event \<Rightarrow> string \<Rightarrow> db \<Rightarrow> db" where
  "put_receipt R cfg e outcome s =
     (let same = (\<lambda>r. rc_event r = ev_id e \<and> rc_consumer r = pb_consumer cfg) in
      case find same (receipts s) of
        Some _ \<Rightarrow> s\<lparr>receipts := update_rows same
            (\<lambda>r. r\<lparr>rc_version := ev_version e, rc_outcome := outcome, rc_verified := next_time R s\<rparr>)
            (receipts s), ticks := Suc (ticks s)\<rparr>
      | None \<Rightarrow> s\<lparr>receipts := row_add
            \<lparr>rc_id = next_id R s, rc_ws = ev_ws e, rc_event = ev_id e, rc_consumer = pb_consumer cfg,
             rc_version = ev_version e, rc_outcome = outcome, rc_verified = next_time R s\<rparr>
            (receipts s), ticks := Suc (ticks s)\<rparr>)"

definition modify_event :: "ident \<Rightarrow> (outbox_event \<Rightarrow> outbox_event) \<Rightarrow> db \<Rightarrow> db" where
  "modify_event i f s = s\<lparr>events := row_modify ev_id i f (events s)\<rparr>"

definition modify_delivery :: "ident \<Rightarrow> (delivery \<Rightarrow> delivery) \<Rightarrow> db \<Rightarrow> db" where
  "modify_delivery i f s = s\<lparr>deliveries := row_modify dv_id i f (deliveries s)\<rparr>"

section \<open>Relaying one event\<close>

definition mark_event :: "outbox_event \<Rightarrow> outbox_event" where
  "mark_event e = e\<lparr>ev_attempts := ev_attempts e + 1, ev_status := EventReconcile\<rparr>"

definition relay_mark :: "runtime \<Rightarrow> publication \<Rightarrow> ident \<Rightarrow> outbox_event \<Rightarrow> db \<Rightarrow> db" where
  "relay_mark R cfg ws e s =
     modify_event (ev_id e) mark_event
       (s\<lparr>deliveries := row_add
            \<lparr>dv_id = next_id R s, dv_ws = ws, dv_event = ev_id e, dv_consumer = pb_consumer cfg,
             dv_attempt = ev_attempts e + 1, dv_status = DeliverySending, dv_code = None,
             dv_error = None, dv_started = next_time R s, dv_completed = None\<rparr> (deliveries s),
          ticks := Suc (ticks s)\<rparr>)"

definition accepted :: "nat \<Rightarrow> bool" where
  "accepted code \<longleftrightarrow> 200 \<le> code \<and> code < 300"

definition throttled :: "nat \<Rightarrow> bool" where
  "throttled code \<longleftrightarrow> code = 429 \<or> 500 \<le> code"

text \<open>The new status of an event after its \<open>n\<close>th attempt, and what its delivery records.\<close>

definition reply_status :: "reply \<Rightarrow> int \<Rightarrow> event_status" where
  "reply_status r n =
     (case r of
        Answered c \<Rightarrow> if accepted c then EventDelivered
          else if throttled c then EventReconcile else if n \<ge> 5 then EventDead else EventRetry
      | Interrupted _ \<Rightarrow> EventReconcile
      | Errored _ \<Rightarrow> if n \<ge> 5 then EventDead else EventRetry)"

definition reply_error :: "reply \<Rightarrow> string option" where
  "reply_error r = (case r of Answered c \<Rightarrow> if accepted c then None else Some (http_error c)
     | Interrupted n \<Rightarrow> Some n | Errored n \<Rightarrow> Some n)"

definition delivery_outcome :: "reply \<Rightarrow> delivery_status" where
  "delivery_outcome r =
     (case r of
        Answered c \<Rightarrow> if accepted c then DeliveryAccepted
          else if throttled c then DeliveryAmbiguous else DeliveryRejected
      | Interrupted _ \<Rightarrow> DeliveryAmbiguous
      | Errored _ \<Rightarrow> DeliveryFailed)"

definition settle_event :: "reply \<Rightarrow> outbox_event \<Rightarrow> outbox_event" where
  "settle_event r e = e\<lparr>ev_status := reply_status r (ev_attempts e), ev_error := reply_error r\<rparr>"

definition settle_delivery :: "reply \<Rightarrow> time \<Rightarrow> delivery \<Rightarrow> delivery" where
  "settle_delivery r now d = d\<lparr>dv_status := delivery_outcome r, dv_error := reply_error r,
     dv_code := (case r of Answered c \<Rightarrow> Some c | _ \<Rightarrow> None), dv_completed := Some now\<rparr>"

definition is_accepted :: "reply \<Rightarrow> bool" where
  "is_accepted r \<longleftrightarrow> (case r of Answered c \<Rightarrow> accepted c | _ \<Rightarrow> False)"

text \<open>\<open>attempt\<close> is the id of the delivery row that the mark added.\<close>

definition relay_settle ::
    "runtime \<Rightarrow> publication \<Rightarrow> outbox_event \<Rightarrow> ident \<Rightarrow> reply \<Rightarrow> db \<Rightarrow> db" where
  "relay_settle R cfg e attempt r s =
     (let s1 = modify_event (ev_id e) (settle_event r)
                 (modify_delivery attempt (settle_delivery r (next_time R s)) s)
      in if is_accepted r then put_receipt R cfg e ''accepted_response'' s1 else s1)"

definition relay_event ::
    "runtime \<Rightarrow> publication \<Rightarrow> ident \<Rightarrow> (outbox_event \<Rightarrow> reply) \<Rightarrow> outbox_event \<Rightarrow> db \<Rightarrow> db" where
  "relay_event R cfg ws answer e s =
     relay_settle R cfg e (next_id R s) (answer e) (relay_mark R cfg ws e s)"

section \<open>The relay\<close>

record relay_counts =
  rl_processed :: nat
  rl_delivered :: nat
  rl_failed :: nat
  rl_ambiguous :: nat

definition count_replies :: "(reply \<Rightarrow> bool) \<Rightarrow> reply list \<Rightarrow> nat" where
  "count_replies P rs = length (filter P rs)"

definition relay_result :: "reply list \<Rightarrow> relay_counts" where
  "relay_result rs =
     \<lparr>rl_processed = length rs,
      rl_delivered = count_replies is_accepted rs,
      rl_failed = count_replies (\<lambda>r. delivery_outcome r \<in> {DeliveryRejected, DeliveryFailed}) rs,
      rl_ambiguous = count_replies (\<lambda>r. delivery_outcome r = DeliveryAmbiguous) rs\<rparr>"

definition relay_events ::
    "runtime \<Rightarrow> publication \<Rightarrow> ident \<Rightarrow> (outbox_event \<Rightarrow> reply) \<Rightarrow> db \<Rightarrow> relay_counts \<times> db" where
  "relay_events R cfg ws answer s =
     (let es = oldest (relayable ws) s
      in (relay_result (map answer es), fold (relay_event R cfg ws answer) es s))"

text \<open>
  What is committed when the relay is killed after \<open>k\<close> events, or (\<open>mid\<close>) while the next one is
  on the wire.
\<close>

definition relay_killed ::
    "runtime \<Rightarrow> publication \<Rightarrow> ident \<Rightarrow> (outbox_event \<Rightarrow> reply) \<Rightarrow> nat \<Rightarrow> bool \<Rightarrow> db \<Rightarrow> db" where
  "relay_killed R cfg ws answer k mid s =
     (let es = oldest (relayable ws) s;
          t = fold (relay_event R cfg ws answer) (take k es) s
      in if mid \<and> k < length es then relay_mark R cfg ws (es ! k) t else t)"

section \<open>Reconciliation\<close>

definition receipt_matches :: "outbox_event \<Rightarrow> dict \<Rightarrow> bool" where
  "receipt_matches e d \<longleftrightarrow> py_eq (dget d ''event_id'') (JStr (ev_id e)) \<and>
     py_eq (dget d ''entity_version'') (case ev_version e of None \<Rightarrow> JNull | Some v \<Rightarrow> JInt v)"

definition set_event_error :: "string option \<Rightarrow> outbox_event \<Rightarrow> outbox_event" where
  "set_event_error x e = e\<lparr>ev_error := x\<rparr>"

datatype verification = Verified | Absent | Unresolved

definition receipt_address :: "publication \<Rightarrow> string option" where
  "receipt_address cfg =
     (if truthy_str (pb_receipts cfg) then pb_receipts cfg
      else if truthy_str (pb_url cfg) then pb_url cfg else None)"

text \<open>A status other than success is an \<open>HTTPStatusError\<close>, a body that is no JSON a \<open>NoReply\<close>; a
  document that is no object has no \<open>get\<close>.\<close>

definition reconcile_event ::
    "runtime \<Rightarrow> publication \<Rightarrow> (outbox_event \<Rightarrow> receipt_reply) \<Rightarrow> outbox_event \<Rightarrow>
     verification list \<times> db \<Rightarrow> (verification list \<times> db) res" where
  "reconcile_event R cfg answer e st = (case st of (vs, s) \<Rightarrow>
     (if receipt_address cfg = None
      then Inr (vs @ [Unresolved], modify_event (ev_id e) (set_event_error (Some ''ValueError'')) s)
      else case answer e of
        NoReply n \<Rightarrow> Inr (vs @ [Unresolved], modify_event (ev_id e) (set_event_error (Some n)) s)
      | Receipt c doc \<Rightarrow>
          if c = 404 then
            Inr (vs @ [Absent], modify_event (ev_id e)
              (\<lambda>e. e\<lparr>ev_status := EventRetry, ev_error := Some ''consumer_receipt_absent''\<rparr>) s)
          else if \<not> accepted c then
            Inr (vs @ [Unresolved], modify_event (ev_id e) (set_event_error (Some ''HTTPStatusError'')) s)
          else bind_res (as_dict doc) (\<lambda>d.
            if receipt_matches e d then
              Inr (vs @ [Verified], put_receipt R cfg e ''reconciled''
                (modify_event (ev_id e) (\<lambda>e. e\<lparr>ev_status := EventDelivered, ev_error := None\<rparr>) s))
            else Inr (vs @ [Unresolved],
              modify_event (ev_id e) (set_event_error (Some ''consumer_receipt_mismatch'')) s))))"

definition reconcilable :: "ident \<Rightarrow> outbox_event \<Rightarrow> bool" where
  "reconcilable ws e \<longleftrightarrow> ev_ws e = ws \<and> ev_status e = EventReconcile"

definition reconcile_events ::
    "runtime \<Rightarrow> publication \<Rightarrow> ident \<Rightarrow> (outbox_event \<Rightarrow> receipt_reply) \<Rightarrow> verification list op" where
  "reconcile_events R cfg ws answer s =
     fold_res (reconcile_event R cfg answer) (oldest (reconcilable ws) s) ([], s)"

section \<open>What delivery changes\<close>

definition event_content :: "outbox_event \<Rightarrow> ident \<times> ident \<times> ident option \<times> int option \<times> string \<times> string \<times> dict \<times> time" where
  "event_content e = (ev_id e, ev_ws e, ev_entity e, ev_version e, ev_type e, ev_schema e, ev_payload e, ev_occurred e)"

definition receipts_ok :: "db \<Rightarrow> bool" where
  "receipts_ok s \<longleftrightarrow> distinct (map (\<lambda>r. (rc_event r, rc_consumer r)) (receipts s))"

lemma put_receipt_events [simp]: "events (put_receipt R cfg e x s) = events s"
  by (simp add: put_receipt_def Let_def split: option.split)

lemma put_receipt_ok:
  assumes "receipts_ok s"
  shows "receipts_ok (put_receipt R cfg e x s)"
    "\<exists>r \<in> set (receipts (put_receipt R cfg e x s)). rc_event r = ev_id e \<and> rc_version r = ev_version e \<and> rc_outcome r = x"
proof -
  let ?same = "\<lambda>r. rc_event r = ev_id e \<and> rc_consumer r = pb_consumer cfg"
  let ?f = "\<lambda>r. r\<lparr>rc_version := ev_version e, rc_outcome := x, rc_verified := next_time R s\<rparr>"
  have "receipts_ok (put_receipt R cfg e x s) \<and> (\<exists>r \<in> set (receipts (put_receipt R cfg e x s)).
      rc_event r = ev_id e \<and> rc_version r = ev_version e \<and> rc_outcome r = x)"
  proof (cases "find ?same (receipts s)")
    case None
    then have "(ev_id e, pb_consumer cfg) \<notin> (\<lambda>r. (rc_event r, rc_consumer r)) ` set (receipts s)"
      by (auto simp: find_None_iff)
    with None assms show ?thesis by (simp add: put_receipt_def receipts_ok_def row_add_def)
  next
    case (Some r)
    then have r: "r \<in> set (receipts s)" "?same r" by (auto dest: find_SomeD)
    have "map (\<lambda>r. (rc_event r, rc_consumer r)) (update_rows ?same ?f (receipts s)) =
        map (\<lambda>r. (rc_event r, rc_consumer r)) (receipts s)"
      by (rule update_rows_key) simp
    moreover have "?f r \<in> set (update_rows ?same ?f (receipts s))"
      using r unfolding set_update_rows by (intro image_eqI [OF _ r(1)]) simp
    ultimately show ?thesis
      using Some assms r by (auto simp: put_receipt_def Let_def receipts_ok_def intro!: bexI [of _ "?f r"])
  qed
  then show "receipts_ok (put_receipt R cfg e x s)"
    "\<exists>r \<in> set (receipts (put_receipt R cfg e x s)). rc_event r = ev_id e \<and> rc_version r = ev_version e \<and> rc_outcome r = x"
    by blast+
qed

lemma relay_mark_events: "events (relay_mark R cfg ws e s) = row_modify ev_id (ev_id e) mark_event (events s)"
  by (simp add: relay_mark_def modify_event_def)

lemma relay_event_events:
  "events (relay_event R cfg ws answer e s) =
     row_modify ev_id (ev_id e) (\<lambda>q. settle_event (answer e) (mark_event q)) (events s)"
proof -
  have "events (relay_settle R cfg e i r t) = row_modify ev_id (ev_id e) (settle_event r) (events t)" for i r t
    by (simp add: relay_settle_def Let_def modify_event_def modify_delivery_def)
  then show ?thesis
    by (simp add: relay_event_def relay_mark_events row_modify_twice mark_event_def comp_def)
qed

text \<open>Changing listed rows one after the other, each with its own function.\<close>

lemma row_modify_row:
  assumes "distinct (map key rs)" "e \<in> set rs"
  shows "row_modify key (key e) f rs = map (\<lambda>r. if r = e then f e else r) rs"
  using find_key_unique [OF assms(1) _ assms(2)] by (auto simp: row_modify_def update_rows_def)

lemma fold_rows:
  assumes "\<And>e r. key (f e r) = key r" "distinct (map key rs)" "distinct es" "set es \<subseteq> set rs"
    and "\<And>e s. rows (g e s) = row_modify key (key e) (f e) (rows s)" "rows s = rs"
  shows "rows (fold g es s) = map (\<lambda>r. if r \<in> set es then f r r else r) rs"
  using assms(2-4,6)
proof (induction es arbitrary: rs s)
  case Nil
  then show ?case by simp
next
  case (Cons e es)
  let ?rs = "map (\<lambda>r. if r = e then f e e else r) rs"
  have one: "rows (g e s) = ?rs"
    using assms(5) [of e s] row_modify_row [OF Cons.prems(1), of e "f e"] Cons.prems(3,4) by simp
  have keys: "map key ?rs = map key rs" using assms(1) by auto
  have "distinct (map key ?rs)" using Cons.prems(1) unfolding keys .
  moreover have "set es \<subseteq> set ?rs" using Cons.prems(2,3) by auto
  ultimately have "rows (fold g es (g e s)) = map (\<lambda>r. if r \<in> set es then f r r else r) ?rs"
    using Cons.IH [OF _ _ _ one] Cons.prems(2) by simp
  moreover have "f e e \<notin> set es"
  proof
    assume f: "f e e \<in> set es"
    then have "f e e = e"
      using find_key_unique [OF Cons.prems(1), of "f e e" e] Cons.prems(3) assms(1) by auto
    with f Cons.prems(2) show False by simp
  qed
  ultimately show ?case using Cons.prems(2) by auto
qed

lemma oldest_mem: "e \<in> set (oldest P s) \<Longrightarrow> e \<in> set (events s) \<and> P e"
  unfolding oldest_def by (drule in_set_takeD) simp

lemma distinct_oldest: "distinct (map ev_id (events s)) \<Longrightarrow> distinct (oldest P s)"
  unfolding oldest_def by (intro distinct_take distinct_filter) (simp add: distinct_map)

text \<open>The committed events after \<open>k\<close> events of the batch.\<close>

lemma relayed_events:
  assumes "distinct (map ev_id (events s))" "set es \<subseteq> set (events s)" "distinct es"
  shows "events (fold (relay_event R cfg ws answer) es s) =
    map (\<lambda>e. if e \<in> set es then settle_event (answer e) (mark_event e) else e) (events s)"
  by (rule fold_rows [where key = ev_id and rs = "events s" and
        f = "\<lambda>e q. settle_event (answer e) (mark_event q)"])
    (use assms in \<open>simp_all add: relay_event_events settle_event_def mark_event_def\<close>)

lemma killed_events:
  assumes "distinct (map ev_id (events s))" "es = oldest (relayable ws) s"
  shows "events (relay_killed R cfg ws answer k mid s) =
    map (\<lambda>e. if e \<in> set (take k es) then settle_event (answer e) (mark_event e)
             else if mid \<and> k < length es \<and> e = es ! k then mark_event e else e) (events s)"
proof -
  have d: "distinct es" unfolding assms(2) by (rule distinct_oldest [OF assms(1)])
  have sub: "set es \<subseteq> set (events s)" using oldest_mem assms(2) by blast
  let ?t = "fold (relay_event R cfg ws answer) (take k es) s"
  have t: "events ?t = map (\<lambda>e. if e \<in> set (take k es) then settle_event (answer e) (mark_event e) else e) (events s)"
    by (rule relayed_events) (use assms(1) d sub in \<open>auto dest: in_set_takeD\<close>)
  show ?thesis
  proof (cases "mid \<and> k < length es")
    case False
    then show ?thesis using t by (auto simp: relay_killed_def Let_def assms(2))
  next
    case True
    have fresh: "es ! k \<notin> set (take k es)"
      using d True by (auto simp: in_set_conv_nth nth_eq_iff_index_eq)
    have keys: "map ev_id (events ?t) = map ev_id (events s)"
      unfolding t by (simp add: settle_event_def mark_event_def)
    have "es ! k \<in> set (events s)" using True sub nth_mem by blast
    then have mem: "es ! k \<in> set (events ?t)" unfolding t using fresh by force
    have "events (relay_mark R cfg ws (es ! k) ?t) = map (\<lambda>r. if r = es ! k then mark_event (es ! k) else r) (events ?t)"
      unfolding relay_mark_events by (rule row_modify_row [OF _ mem]) (use assms(1) keys in simp)
    moreover have "settle_event (answer e) (mark_event e) \<noteq> es ! k" if "e \<in> set (take k es)" for e
    proof
      assume same: "settle_event (answer e) (mark_event e) = es ! k"
      then have "ev_id e = ev_id (es ! k)" by (metis mark_event_def settle_event_def
            outbox_event.ext_inject outbox_event.surjective outbox_event.update_convs(8,9,10))
      moreover have "e \<in> set (events s)" "es ! k \<in> set (events s)"
        using that sub True nth_mem by (auto dest: in_set_takeD)
      ultimately have "e = es ! k" using find_key_unique [OF assms(1)] by blast
      with that fresh show False by simp
    qed
    ultimately show ?thesis
      using True fresh by (auto simp: relay_killed_def Let_def assms(2) [symmetric] t)
  qed
qed

section \<open>What reconciliation changes\<close>

text \<open>
  A verdict on an event and the row it leaves: delivered on a matching receipt, to be sent again
  on a 404, ambiguous as before otherwise.
\<close>

definition resolved :: "(outbox_event \<Rightarrow> receipt_reply) \<Rightarrow> verification \<Rightarrow> outbox_event \<Rightarrow> outbox_event \<Rightarrow> bool" where
  "resolved answer v e e' \<longleftrightarrow> event_content e' = event_content e \<and> ev_attempts e' = ev_attempts e \<and>
     (case v of
        Verified \<Rightarrow> ev_status e' = EventDelivered \<and>
          (\<exists>c d. answer e = Receipt c (JObj d) \<and> accepted c \<and> receipt_matches e d)
      | Absent \<Rightarrow> ev_status e' = EventRetry \<and> (\<exists>doc. answer e = Receipt 404 doc)
      | Unresolved \<Rightarrow> ev_status e' = ev_status e)"

lemma reconcile_event_cases:
  assumes "reconcile_event R cfg answer e (vs, s) = Inr (vs', t)"
  shows "\<exists>v f. vs' = vs @ [v] \<and> events t = row_modify ev_id (ev_id e) f (events s) \<and>
    (\<forall>q. ev_id (f q) = ev_id q) \<and> resolved answer v e (f e) \<and> (receipts_ok s \<longrightarrow> receipts_ok t)"
proof -
  have keep: "receipts_ok (modify_event i f u) \<longleftrightarrow> receipts_ok u" for i f u
    by (simp add: receipts_ok_def modify_event_def)
  have error: ?thesis
    if "vs' = vs @ [Unresolved]" "t = modify_event (ev_id e) (set_event_error x) s" for x
    by (rule exI [of _ Unresolved], rule exI [of _ "set_event_error x"])
      (use that keep in \<open>simp add: modify_event_def resolved_def set_event_error_def event_content_def\<close>)
  show ?thesis
  proof (cases "receipt_address cfg")
    case None
    then show ?thesis using assms error by (auto simp: reconcile_event_def)
  next
    case url: (Some u)
    show ?thesis
    proof (cases "answer e")
      case (NoReply n)
      then show ?thesis using assms url error by (auto simp: reconcile_event_def)
    next
      case (Receipt c doc)
      show ?thesis
      proof (cases "c = 404 \<or> \<not> accepted c")
        case True
        let ?f = "\<lambda>e. e\<lparr>ev_status := EventRetry, ev_error := Some ''consumer_receipt_absent''\<rparr>"
        have "c \<noteq> 404 \<Longrightarrow> ?thesis" using True assms url Receipt error by (auto simp: reconcile_event_def)
        moreover have "c = 404 \<Longrightarrow> ?thesis"
          by (rule exI [of _ Absent], rule exI [of _ ?f])
            (use assms url Receipt keep in \<open>auto simp: reconcile_event_def modify_event_def resolved_def
              event_content_def receipts_ok_def\<close>)
        ultimately show ?thesis by blast
      next
        case False
        then obtain d where d: "doc = JObj d"
          using assms url Receipt by (auto simp: reconcile_event_def as_dict_def split: json.splits)
        let ?f = "\<lambda>e. e\<lparr>ev_status := EventDelivered, ev_error := None\<rparr>"
        show ?thesis
        proof (cases "receipt_matches e d")
          case True
          have t: "vs' = vs @ [Verified]" "t = put_receipt R cfg e ''reconciled'' (modify_event (ev_id e) ?f s)"
            using assms url Receipt False d True by (auto simp: reconcile_event_def as_dict_def)
          have "receipts_ok s \<longrightarrow> receipts_ok t"
            unfolding t(2) using put_receipt_ok(1) keep by blast
          moreover have "resolved answer Verified e (?f e)"
            using Receipt d True False by (auto simp: resolved_def event_content_def)
          ultimately show ?thesis
            using t by (intro exI [of _ Verified] exI [of _ ?f]) (simp add: modify_event_def)
        next
          case no: False
          with assms url Receipt False d error show ?thesis by (auto simp: reconcile_event_def as_dict_def)
        qed
      qed
    qed
  qed
qed

definition verdict_shown :: "(outbox_event \<Rightarrow> receipt_reply) \<Rightarrow> db \<Rightarrow> outbox_event \<Rightarrow> verification \<Rightarrow> bool" where
  "verdict_shown answer t e v \<longleftrightarrow> (\<exists>e' \<in> set (events t). resolved answer v e e')"

lemma reconcile_fold:
  assumes "fold_res (reconcile_event R cfg answer) es (vs, s) = Inr (vs', t)"
    and "distinct (map ev_id (events s))" "distinct es" "set es \<subseteq> set (events s)"
  shows "(\<exists>ws. vs' = vs @ ws \<and> list_all2 (verdict_shown answer t) es ws) \<and>
    map ev_id (events t) = map ev_id (events s) \<and>
    (\<forall>e \<in> set (events s) - set es. e \<in> set (events t)) \<and> (receipts_ok s \<longrightarrow> receipts_ok t)"
  using assms
proof (induction es arbitrary: vs s)
  case Nil
  then show ?case by simp
next
  case (Cons e es)
  from Cons.prems(1) obtain ws u where one: "reconcile_event R cfg answer e (vs, s) = Inr (ws, u)"
    and rest: "fold_res (reconcile_event R cfg answer) es (ws, u) = Inr (vs', t)" by (auto simp: res_elim)
  from reconcile_event_cases [OF one] obtain v f where v: "ws = vs @ [v]"
    "events u = row_modify ev_id (ev_id e) f (events s)" "\<And>q. ev_id (f q) = ev_id q"
    "resolved answer v e (f e)" "receipts_ok s \<longrightarrow> receipts_ok u" by blast
  have u: "events u = map (\<lambda>r. if r = e then f e else r) (events s)"
    unfolding v(2) by (rule row_modify_row) (use Cons.prems in auto)
  have keys: "map ev_id (events u) = map ev_id (events s)" unfolding u using v(3) by simp
  have sub: "set es \<subseteq> set (events u)" using Cons.prems(3,4) by (auto simp: u)
  have d: "distinct (map ev_id (events u))" using Cons.prems(2) keys by simp
  note ih = Cons.IH [OF rest d _ sub]
  have fe: "f e \<in> set (events u)" using Cons.prems(4) by (force simp: u)
  have "f e \<notin> set es"
  proof
    assume fe: "f e \<in> set es"
    then have "f e = e"
      using find_key_unique [OF Cons.prems(2), of "f e" e] Cons.prems(4) v(3) by auto
    with fe Cons.prems(3) show False by simp
  qed
  with ih Cons.prems(3) fe have "f e \<in> set (events t)" by auto
  then have "verdict_shown answer t e v" using v(4) by (auto simp: verdict_shown_def)
  moreover from ih Cons.prems(3) obtain us where "vs' = ws @ us" "list_all2 (verdict_shown answer t) es us" by auto
  ultimately have "vs' = vs @ (v # us)" "list_all2 (verdict_shown answer t) (e # es) (v # us)"
    using v(1) by simp_all
  then have "\<exists>us. vs' = vs @ us \<and> list_all2 (verdict_shown answer t) (e # es) us" by blast
  moreover have "q \<in> set (events t)" if "q \<in> set (events s) - set (e # es)" for q
    using ih Cons.prems(3) that by (auto simp: u)
  ultimately show ?case using ih Cons.prems(3) v(5) keys by auto
qed

section \<open>Properties\<close>

definition ambiguous_reply :: "reply \<Rightarrow> bool" where
  "ambiguous_reply r \<longleftrightarrow> (case r of Answered c \<Rightarrow> throttled c | Interrupted _ \<Rightarrow> True | Errored _ \<Rightarrow> False)"

text \<open>
  What the code takes as not applied by the consumer: a refusing status, or an error that is no read
  timeout, write error or read error. A \<open>RemoteProtocolError\<close> or a write timeout is among these
  errors, although the consumer may have got the event (\<open>errors_taken_as_unsent_are_retried\<close>).
\<close>

definition taken_as_unsent :: "reply \<Rightarrow> bool" where
  "taken_as_unsent r \<longleftrightarrow>
     (case r of Answered c \<Rightarrow> \<not> accepted c \<and> \<not> throttled c | Interrupted _ \<Rightarrow> False | Errored _ \<Rightarrow> True)"

lemma errors_taken_as_unsent_are_retried:
  assumes "ev_attempts e < 4"
  shows "ev_status (settle_event (Errored ''RemoteProtocolError'') (mark_event e)) = EventRetry"
  using assms by (simp add: settle_event_def mark_event_def reply_status_def)

text \<open>
  C11. A relay killed anywhere leaves the event on the wire to reconciliation, and so it does with
  every ambiguous reply (429, a 5xx status, a read timeout, a write or a read error). Of the events
  it posted, the delivered ones were accepted, and the ones that will be sent again got a refusing
  status or an error of the other kinds, which the code takes as not sent. The events it did not
  get to, like the contents of all, are as they were.
\<close>

theorem killed_relays_leave_the_wire_to_reconciliation:
  assumes "distinct (map ev_id (events s))" "es = oldest (relayable ws) s"
    and "t = relay_killed R cfg ws answer k mid s"
  shows "(\<forall>e \<in> set (take (if mid then Suc k else k) es). \<exists>e' \<in> set (events t).
      event_content e' = event_content e \<and> ev_attempts e' = ev_attempts e + 1 \<and>
      (ev_status e' \<in> {EventPending, EventRetry} \<longrightarrow> e \<in> set (take k es) \<and> taken_as_unsent (answer e)) \<and>
      (e \<notin> set (take k es) \<or> ambiguous_reply (answer e) \<longrightarrow> ev_status e' = EventReconcile) \<and>
      (ev_status e' = EventDelivered \<longrightarrow> e \<in> set (take k es) \<and> is_accepted (answer e))) \<and>
    (\<forall>e \<in> set (events s) - set (take (if mid then Suc k else k) es). e \<in> set (events t))"
proof -
  note t = killed_events [OF assms(1,2), of R cfg answer k mid, folded assms(3)]
  have sub: "set es \<subseteq> set (events s)" using oldest_mem assms(2) by blast
  have take: "set (take (Suc k) es) = set (take k es) \<union> (if k < length es then {es ! k} else {})"
    by (cases "k < length es") (auto simp: take_Suc_conv_app_nth)
  let ?F = "\<lambda>e. if e \<in> set (take k es) then settle_event (answer e) (mark_event e)
             else if mid \<and> k < length es \<and> e = es ! k then mark_event e else e"
  have mem: "?F e \<in> set (events t)" if "e \<in> set (events s)" for e
    unfolding t using that by (auto simp: image_iff)
  have settled: "event_content (settle_event r (mark_event e)) = event_content e"
    "ev_attempts (settle_event r (mark_event e)) = ev_attempts e + 1"
    "ev_status (settle_event r (mark_event e)) \<in> {EventPending, EventRetry} \<longrightarrow> taken_as_unsent r"
    "ambiguous_reply r \<longrightarrow> ev_status (settle_event r (mark_event e)) = EventReconcile"
    "ev_status (settle_event r (mark_event e)) = EventDelivered \<longrightarrow> is_accepted r" for r e
    by (auto simp: settle_event_def mark_event_def event_content_def reply_status_def taken_as_unsent_def ambiguous_reply_def accepted_def throttled_def
        is_accepted_def split: reply.splits if_splits)
  have marked: "event_content (mark_event e) = event_content e" "ev_attempts (mark_event e) = ev_attempts e + 1"
    "ev_status (mark_event e) = EventReconcile" for e
    by (simp_all add: mark_event_def event_content_def)
  show ?thesis
  proof (intro conjI ballI)
    fix e assume e: "e \<in> set (take (if mid then Suc k else k) es)"
    then have "e \<in> set (events s)" using sub by (auto dest: in_set_takeD split: if_splits)
    from mem [OF this] e show "\<exists>e' \<in> set (events t).
      event_content e' = event_content e \<and> ev_attempts e' = ev_attempts e + 1 \<and>
      (ev_status e' \<in> {EventPending, EventRetry} \<longrightarrow> e \<in> set (take k es) \<and> taken_as_unsent (answer e)) \<and>
      (e \<notin> set (take k es) \<or> ambiguous_reply (answer e) \<longrightarrow> ev_status e' = EventReconcile) \<and>
      (ev_status e' = EventDelivered \<longrightarrow> e \<in> set (take k es) \<and> is_accepted (answer e))"
      using settled [of "answer e" e] marked [of e]
      by (intro bexI [of _ "?F e"]) (auto simp: take split: if_splits)
  next
    fix e assume e: "e \<in> set (events s) - set (take (if mid then Suc k else k) es)"
    then have "?F e = e" by (auto simp: take split: if_splits)
    with mem e show "e \<in> set (events t)" by force
  qed
qed

text \<open>
  C13. An ambiguous event is resolved only on evidence: it counts as delivered when the consumer
  shows a receipt for this event and this entity version, is sent again when the consumer reports
  that it has none, and stays ambiguous in every other case. Events that were not ambiguous do not
  change, and there stays one receipt per event and consumer.
\<close>

theorem reconciliation_needs_evidence:
  assumes "distinct (map ev_id (events s))" "receipts_ok s" "reconcile_events R cfg ws answer s = Inr (vs, t)"
  shows "list_all2 (verdict_shown answer t) (oldest (reconcilable ws) s) vs \<and>
    (\<forall>e \<in> set (events s). ev_ws e \<noteq> ws \<or> ev_status e \<noteq> EventReconcile \<longrightarrow> e \<in> set (events t)) \<and>
    receipts_ok t"
proof -
  let ?es = "oldest (reconcilable ws) s"
  have sub: "set ?es \<subseteq> set (events s)" using oldest_mem by blast
  from reconcile_fold [OF assms(3) [unfolded reconcile_events_def] assms(1) distinct_oldest [OF assms(1)] sub]
  have f: "list_all2 (verdict_shown answer t) ?es vs"
    "\<forall>e \<in> set (events s) - set ?es. e \<in> set (events t)" "receipts_ok t" using assms(2) by auto
  have "e \<in> set (events t)" if "e \<in> set (events s)" "ev_ws e \<noteq> ws \<or> ev_status e \<noteq> EventReconcile" for e
  proof -
    have "e \<notin> set ?es" using that(2) oldest_mem by (fastforce simp: reconcilable_def)
    with f(2) that(1) show ?thesis by blast
  qed
  with f show ?thesis by blast
qed

section \<open>Witnesses\<close>

definition plain_event :: "ident \<Rightarrow> int \<Rightarrow> event_status \<Rightarrow> outbox_event" where
  "plain_event i v st = \<lparr>ev_id = i, ev_ws = ''w1'', ev_entity = Some ''e1'', ev_version = Some v,
     ev_type = ''master.approved'', ev_schema = ''1.0'', ev_payload = [], ev_status = st, ev_attempts = 0,
     ev_error = None, ev_occurred = v\<rparr>"

definition plain_publication :: publication where
  "plain_publication = \<lparr>pb_consumer = ''erp'', pb_url = Some ''https://erp'', pb_receipts = None\<rparr>"

definition outbox_db :: "event_status \<Rightarrow> db" where
  "outbox_db st = empty_db\<lparr>events := [plain_event ''a'' 1 st, plain_event ''b'' 2 st]\<rparr>"

lemma outbox_events:
  "distinct (map ev_id (events (outbox_db st)))" "receipts_ok (outbox_db st)"
  "events (outbox_db st) = [plain_event ''a'' 1 st, plain_event ''b'' 2 st]"
  by (simp_all add: outbox_db_def plain_event_def receipts_ok_def empty_db_def)

lemma outbox_batch:
  "oldest (relayable ''w1'') (outbox_db EventPending) = [plain_event ''a'' 1 EventPending, plain_event ''b'' 2 EventPending]"
  "oldest (reconcilable ''w1'') (outbox_db EventReconcile) = [plain_event ''a'' 1 EventReconcile, plain_event ''b'' 2 EventReconcile]"
  by (simp_all add: oldest_def outbox_events relayable_def reconcilable_def) (simp_all add: plain_event_def)

theorem killed_relays_leave_the_wire_to_reconciliation_witness:
  "\<exists>e' \<in> set (events (relay_killed ascii_runtime plain_publication ''w1'' (\<lambda>_. Answered 200) 0 True (outbox_db EventPending))).
     event_content e' = event_content (plain_event ''a'' 1 EventPending) \<and> ev_attempts e' = 1 \<and>
     ev_status e' = EventReconcile"
proof -
  have "ev_attempts (plain_event ''a'' 1 EventPending) = 0" by (simp add: plain_event_def)
  then show ?thesis
    using killed_relays_leave_the_wire_to_reconciliation [where R = ascii_runtime and cfg = plain_publication and
        answer = "\<lambda>_. Answered 200" and k = 0 and mid = True,
        OF outbox_events(1) outbox_batch(1) [symmetric] refl]
    by auto
qed

theorem reconciliation_needs_evidence_witness:
  "\<exists>vs t. reconcile_events ascii_runtime plain_publication ''w1'' (\<lambda>_. Receipt 404 JNull) (outbox_db EventReconcile) = Inr (vs, t) \<and>
     length vs = 2 \<and> receipts_ok t"
proof -
  have "\<exists>vs t. reconcile_events ascii_runtime plain_publication ''w1'' (\<lambda>_. Receipt 404 JNull) (outbox_db EventReconcile) = Inr (vs, t)"
    by (simp add: reconcile_events_def outbox_batch reconcile_event_def receipt_address_def plain_publication_def truthy_str_def)
  then obtain vs t where t: "reconcile_events ascii_runtime plain_publication ''w1'' (\<lambda>_. Receipt 404 JNull)
      (outbox_db EventReconcile) = Inr (vs, t)" by blast
  from reconciliation_needs_evidence [OF outbox_events(1,2) t] t show ?thesis
    by (auto simp: outbox_batch list_all2_Cons1)
qed

text \<open>
  The relay goes on with the next event of an entity when an earlier one failed: here version 2 is
  delivered while version 1 still waits, although the operations view promises ordering per entity.
\<close>

lemma failed_events_are_overtaken:
  "map (\<lambda>e. (ev_entity e, ev_version e, ev_status e))
     (events (relay_killed R plain_publication ''w1'' (\<lambda>e. if ev_id e = ''a'' then Answered 503 else Answered 200)
        2 False (outbox_db EventPending))) =
   [(Some ''e1'', Some 1, EventReconcile), (Some ''e1'', Some 2, EventDelivered)]"
  unfolding killed_events [OF outbox_events(1) outbox_batch(1) [symmetric]] outbox_events(3)
  by (simp add: settle_event_def mark_event_def reply_status_def accepted_def throttled_def)
    (simp add: plain_event_def)

end
