(* ===== verification/Canonical.thy ===== *)
theory Canonical
  imports Configuration
begin

text \<open>
  The canonical document of a policy as a definition: a stored definition compiles again, to a
  policy with the same canonical document and checksum. The workspace bundle relies on it, and so
  does every operation that compiles the definition a domain has stored.
\<close>

section \<open>Sorting keys changes no lookup\<close>

definition canon_dict :: "dict \<Rightarrow> dict" where
  "canon_dict d = sort_key fst (map (\<lambda>(k, v). (k, canon v)) d)"

lemma canon_JObj: "canon (JObj d) = JObj (canon_dict d)"
  by (simp add: canon_dict_def)

lemma map_of_first: "map_of d k = (case filter (\<lambda>p. fst p = k) d of [] \<Rightarrow> None | p # _ \<Rightarrow> Some (snd p))"
  by (induction d) auto

lemma filter_sort_key: "filter (\<lambda>p. f p = k) (sort_key f xs) = filter (\<lambda>p. f p = k) xs"
  by (rule sort_key_stable)

lemma map_of_sort_key: "map_of (sort_key fst d) k = map_of d k"
  by (simp add: map_of_first filter_sort_key)

lemma map_of_canon_dict: "map_of (canon_dict d) k = map_option canon (map_of d k)"
proof -
  have "map_of (map (\<lambda>(k, v). (k, canon v)) d) k = map_option canon (map_of d k)"
    by (induction d) auto
  then show ?thesis by (simp add: canon_dict_def map_of_sort_key)
qed

lemma dget_canon: "dget (canon_dict d) k = canon (dget d k)"
  by (cases "map_of d k") (simp_all add: dget_def map_of_canon_dict)

lemma dget_or_canon: "dget_or (canon_dict d) k (canon v) = canon (dget_or d k v)"
  by (cases "map_of d k") (simp_all add: dget_or_def map_of_canon_dict)

lemma set_dkeys_canon [simp]: "set (dkeys (canon_dict d)) = set (dkeys d)"
  by (force simp: dkeys_def canon_dict_def)

lemma only_keys_canon [simp]: "only_keys (canon_dict d) allowed message = only_keys d allowed message"
  by (simp add: only_keys_def)

lemma canon_dict_pairs: "canon_dict (canon_dict d) = sort_key fst (map (\<lambda>(k, v). (k, canon (canon v))) d)"
proof -
  have *: "map (\<lambda>p. (fst p, g (snd p))) (sort_key fst xs) = sort_key fst (map (\<lambda>p. (fst p, g (snd p))) xs)"
    for g :: "json \<Rightarrow> json" and xs :: dict
  proof (induction xs)
    case (Cons x xs)
    have ins: "map (\<lambda>p. (fst p, g (snd p))) (insort_key fst x ys) = insort_key fst (fst x, g (snd x)) (map (\<lambda>p. (fst p, g (snd p))) ys)"
      for ys :: dict by (induction ys) auto
    show ?case by (simp add: ins Cons)
  qed simp
  have "sort_key fst (sort_key fst ys) = sort_key fst ys" for ys :: dict
    by (simp add: sort_key_id_if_sorted)
  then show ?thesis by (simp add: canon_dict_def * comp_def case_prod_unfold)
qed

lemma canon_canon [simp]: "canon (canon v) = canon v"
proof (induction v rule: canon.induct)
  case (2 d)
  then have eq: "map (\<lambda>(k, v). (k, canon (canon v))) d = map (\<lambda>(k, v). (k, canon v)) d" by auto
  show ?case by (simp only: canon_JObj canon_dict_pairs eq) (simp only: canon_dict_def)
qed auto

lemma canon_dict_canon [simp]: "canon_dict (canon_dict d) = canon_dict d"
  using canon_canon [of "JObj d"] by (simp only: canon_JObj) simp

lemma update_same: "map_of d k = Some v \<Longrightarrow> AList.update k v d = d"
  by (induction d) auto

section \<open>Conversions of canonical values\<close>

lemma canon_scalars [simp]:
  "canon v = JNull \<longleftrightarrow> v = JNull" "canon v = JBool b \<longleftrightarrow> v = JBool b" "canon v = JInt i \<longleftrightarrow> v = JInt i"
  "canon v = JFloat x \<longleftrightarrow> v = JFloat x" "canon v = JStr s \<longleftrightarrow> v = JStr s"
  by (cases v; simp)+

lemma truthy_canon [simp]: "truthy (canon v) = truthy v"
proof (cases v)
  case (JObj d)
  have "canon_dict d = [] \<longleftrightarrow> d = []" by (metis set_dkeys_canon dkeys_def list.map_disc_iff set_empty)
  with JObj show ?thesis by (simp add: canon_JObj del: canon.simps)
qed simp_all

lemma in_names_canon: "in_names v names = Inr b \<Longrightarrow> in_names (canon v) names = Inr b"
  by (cases v) (auto simp: in_names_def)

lemma py_float_canon: "py_float R v = Inr x \<Longrightarrow> py_float R (canon v) = Inr x"
  by (cases v) (auto simp: py_float_def)

lemma py_int_canon: "py_int R v = Inr x \<Longrightarrow> py_int R (canon v) = Inr x"
  by (cases v) (auto simp: py_int_def)

lemma in_names_default:
  "in_names (dget_or d k (JStr s)) names = Inr b \<Longrightarrow> in_names (dget_or (canon_dict d) k (JStr s)) names = Inr b"
  using dget_or_canon [of d k "JStr s"] in_names_canon by simp

lemma py_float_default:
  "py_float R (dget_or d k (JInt i)) = Inr x \<Longrightarrow> py_float R (dget_or (canon_dict d) k (JInt i)) = Inr x"
  using dget_or_canon [of d k "JInt i"] py_float_canon by simp

section \<open>Attributes\<close>

definition roles_settled :: "string \<Rightarrow> dict \<Rightarrow> bool" where
  "roles_settled k a \<longleftrightarrow> (case map_of a k of None \<Rightarrow> True
     | Some v \<Rightarrow> \<exists>rs. v = JList (map JStr (sorted_set rs)) \<and> [] \<notin> set rs)"

definition settled :: "dict \<Rightarrow> bool" where
  "settled a \<longleftrightarrow> set (dkeys a) \<subseteq> set allowed_attribute - {''allowedValues''} \<and>
     roles_settled ''read_roles'' a \<and> roles_settled ''write_roles'' a \<and> ''name'' \<in> set (dkeys a)"

lemma role_names_settled: "[] \<notin> set rs \<Longrightarrow> role_names (JList (map JStr (sorted_set rs))) = Some (sorted_set rs)"
  by (auto simp: role_names_def is_str_def comp_def)

lemma role_text: "is_str x \<Longrightarrow> truthy x \<Longrightarrow> (case x of JStr s \<Rightarrow> s | _ \<Rightarrow> []) \<noteq> []"
  by (cases x) (simp_all add: is_str_def)

lemma role_names_nonempty:
  assumes "role_names v = Some rs"
  shows "[] \<notin> set rs"
proof -
  from assms obtain xs where v: "v = JList xs" by (cases v) (simp_all add: role_names_def)
  with assms have all: "\<forall>x \<in> set xs. is_str x \<and> truthy x"
    and rs: "rs = map (\<lambda>x. case x of JStr s \<Rightarrow> s | _ \<Rightarrow> []) xs"
    by (simp_all add: role_names_def split: if_split_asm)
  show ?thesis unfolding rs set_map using role_text all by (metis (no_types, lifting) imageE)
qed

lemma compile_access_cases:
  assumes "compile_access k a = Inr b"
  obtains "map_of a k = None" "b = a"
  | v rs where "map_of a k = Some v" "[] \<notin> set rs" "b = AList.update k (JList (map JStr (sorted_set rs))) a"
proof (cases "map_of a k")
  case None
  then have "compile_access k a = Inr a" by (simp only: compile_access_def option.case)
  with assms have "b = a" by simp
  then show ?thesis by (rule that(1) [OF None])
next
  case (Some v)
  have eq: "compile_access k a = bind_res (from_option (PolicyError ''access key must be roles'') (role_names v))
      (\<lambda>rs. Inr (AList.update k (JList (map JStr (sorted_set rs))) a))"
    unfolding compile_access_def Some option.case ..
  from assms [unfolded eq bind_res_Inr from_option_Inr] obtain rs
    where rs: "role_names v = Some rs" and b: "Inr (AList.update k (JList (map JStr (sorted_set rs))) a) = (Inr b :: dict res)"
    by (elim exE conjE) (rule that, assumption+)
  from rs have "[] \<notin> set rs" by (rule role_names_nonempty)
  moreover from b have "b = AList.update k (JList (map JStr (sorted_set rs))) a" by (rule Inr_inject [symmetric])
  ultimately show ?thesis by (rule that(2) [OF Some])
qed

lemma compile_access_settles: "compile_access k a = Inr b \<Longrightarrow> roles_settled k b"
  by (erule compile_access_cases) (simp add: roles_settled_def, simp add: roles_settled_def update_conv', blast)

lemma dkeys_map_of: "k \<in> set (dkeys d) \<longleftrightarrow> map_of d k \<noteq> None"
  by (simp add: dkeys_def map_of_eq_None_iff)

lemma compile_access_fixed: "roles_settled k a \<Longrightarrow> compile_access k a = Inr a"
  by (auto simp: compile_access_def roles_settled_def role_names_settled update_same split: option.splits)

lemma roles_settled_canon: "roles_settled k a \<Longrightarrow> roles_settled k (canon_dict a)"
  by (auto simp: roles_settled_def map_of_canon_dict comp_def split: option.splits)

lemma roles_settled_cong: "map_of b k = map_of a k \<Longrightarrow> roles_settled k b = roles_settled k a"
  by (simp add: roles_settled_def)

lemma compile_attribute_parts:
  assumes "compile_attribute R inh j = Inr a"
  obtains item a1 a2 a3 where "only_keys item allowed_attribute ''unsupported attribute settings'' = Inr ()"
    "compile_access ''read_roles'' item = Inr a1" "compile_access ''write_roles'' a1 = Inr a2"
    "compile_name R a2 = Inr a3" "a = compile_allowed inh a3"
proof -
  from assms obtain item where item: "compile_attribute R inh (JObj item) = Inr a"
    by (cases j) (simp_all add: compile_attribute_def as_dict_def)
  note steps = item [unfolded compile_attribute_def as_dict_def json.case bind_res_simps bind_res_Inr guard_res_Inr]
  from steps obtain u a1 a2 a3 where "only_keys item allowed_attribute ''unsupported attribute settings'' = Inr u"
    "compile_access ''read_roles'' item = Inr a1" "compile_access ''write_roles'' a1 = Inr a2"
    "compile_name R a2 = Inr a3" "Inr (compile_allowed inh a3) = (Inr a :: dict res)"
    by (elim exE conjE) (rule that, assumption+)
  with that [of item a1 a2 a3] show ?thesis by simp
qed

lemma compile_attribute_settled:
  assumes "compile_attribute R inh j = Inr a"
  shows "settled a \<and> attribute_ok a"
proof -
  from compile_attribute_parts [OF assms] obtain item a1 a2 a3
    where item: "only_keys item allowed_attribute ''unsupported attribute settings'' = Inr ()"
    and r: "compile_access ''read_roles'' item = Inr a1" and w: "compile_access ''write_roles'' a1 = Inr a2"
    and n: "compile_name R a2 = Inr a3" and a: "a = compile_allowed inh a3" .
  from compile_name_steps [OF n] obtain v where a3: "a3 = AList.update ''name'' v a2" by (elim exE conjE) (rule that)
  have keep: "map_of a k = map_of a2 k" if "k \<noteq> ''name''" "k \<noteq> ''allowedValues''" "k \<noteq> ''allowed_values''" for k
    unfolding a a3 compile_allowed_other [OF that(2,3)] by (rule map_of_update_other [OF not_sym [OF that(1)]])
  have "map_of a ''write_roles'' = map_of a2 ''write_roles''" by (rule keep) simp_all
  from compile_access_settles [OF w] have ww: "roles_settled ''write_roles'' a"
    unfolding roles_settled_cong [OF \<open>map_of a ''write_roles'' = map_of a2 ''write_roles''\<close>] .
  have "map_of a2 ''read_roles'' = map_of a1 ''read_roles''" by (rule compile_access_other [OF w]) simp
  moreover have "map_of a ''read_roles'' = map_of a2 ''read_roles''" by (rule keep) simp_all
  ultimately have "map_of a ''read_roles'' = map_of a1 ''read_roles''" by (simp only:)
  from compile_access_settles [OF r] have rr: "roles_settled ''read_roles'' a"
    unfolding roles_settled_cong [OF \<open>map_of a ''read_roles'' = map_of a1 ''read_roles''\<close>] .
  have "set (dkeys item) \<subseteq> set allowed_attribute"
    using item unfolding only_keys_def guard_res_Inr by blast
  then have "set (dkeys a2) \<subseteq> set allowed_attribute"
    by (simp only: compile_access_keys [OF r, THEN conjunct1] compile_access_keys [OF w, THEN conjunct1])
  then have a3k: "set (dkeys a3) \<subseteq> set allowed_attribute" by (simp add: a3 dkeys_update allowed_attribute_def)
  have "''allowed_values'' \<in> set allowed_attribute" by (simp add: allowed_attribute_def)
  with compile_allowed_keys [of inh a3] a3k have keys: "set (dkeys a) \<subseteq> set allowed_attribute - {''allowedValues''}"
    unfolding a by fastforce
  have "map_of a3 ''name'' = Some v" by (simp add: a3 update_conv')
  moreover have "map_of a ''name'' = map_of a3 ''name''" unfolding a by (rule compile_allowed_other) simp_all
  ultimately have "''name'' \<in> set (dkeys a)" by (simp add: dkeys_map_of)
  with keys rr ww compile_attribute_ok [OF assms] show ?thesis unfolding settled_def by (intro conjI)
qed

lemma compile_attribute_fixed:
  assumes "settled a" "attribute_ok a"
  shows "compile_attribute R [] (JObj (canon_dict a)) = Inr (canon_dict a)"
proof -
  let ?c = "canon_dict a"
  from assms(2) obtain k t n where k: "map_of a ''key'' = Some (JStr k)"
    and t: "dget_or a ''type'' (JStr ''string'') = JStr t" "t \<in> set attribute_types"
    and n: "dget_or a ''normalizer'' (JStr ''preserve'') = JStr n" "n \<in> set normalizers"
    unfolding attribute_ok_def by blast
  from assms(1) obtain v where name: "map_of a ''name'' = Some v" by (auto simp: settled_def dkeys_map_of)
  have keys: "only_keys a allowed_attribute ''unsupported attribute settings'' = Inr ()"
    using assms(1) by (auto simp: only_keys_def settled_def guard_res_Inr)
  have r: "compile_access ''read_roles'' ?c = Inr ?c" and w: "compile_access ''write_roles'' ?c = Inr ?c"
    using assms(1) by (simp_all add: settled_def compile_access_fixed roles_settled_canon)
  have t': "in_names (dget_or ?c ''type'' (JStr ''string'')) attribute_types = Inr True"
    using dget_or_canon [of a "''type''" "JStr ''string''"] t by (simp add: in_names_def)
  have n': "in_names (dget_or ?c ''normalizer'' (JStr ''preserve'')) normalizers = Inr True"
    using dget_or_canon [of a "''normalizer''" "JStr ''preserve''"] n by (simp add: in_names_def)
  have "map_of ?c ''name'' = Some (canon v)" "map_of ?c ''key'' = Some (JStr k)"
    by (simp_all add: map_of_canon_dict name k)
  then have name': "compile_name R ?c = Inr ?c"
    by (simp add: compile_name_def dindex_def as_str_def dget_or_def update_same)
  have "map_of ?c ''allowedValues'' = None"
    using assms(1) by (auto simp: settled_def map_of_canon_dict dkeys_map_of)
  then have "compile_allowed [] ?c = ?c" by (simp add: compile_allowed_def Let_def split: json.split)
  then show ?thesis
    by (simp add: compile_attribute_def as_dict_def keys r w t' n' name' guard_res_def)
qed

section \<open>Identifiers\<close>

definition canon_identifier :: "policy_identifier \<Rightarrow> policy_identifier" where
  "canon_identifier i =
     \<lparr>id_field = canon (id_field i), id_namespace = canon (id_namespace i), hard_conflict = hard_conflict i\<rparr>"

definition identifier_dict :: "policy_identifier \<Rightarrow> dict" where
  "identifier_dict i = [(''field'', id_field i), (''namespace'', id_namespace i), (''hard_conflict'', JBool (hard_conflict i))]"

lemma identifier_json_dict: "identifier_json i = JObj (identifier_dict i)"
  by (simp add: identifier_json_def identifier_dict_def)

lemma compile_identifier_fixed:
  assumes "map_of raw ''matching'' = Some (JObj m)" "map_of m ''hard_conflicts'' = None"
  shows "compile_identifier raw (canon_dict (identifier_dict i)) = Inr (canon_identifier i)"
proof -
  let ?c = "canon_dict (identifier_dict i)"
  have look: "map_of ?c ''field'' = Some (canon (id_field i))" "map_of ?c ''namespace'' = Some (canon (id_namespace i))"
    "map_of ?c ''hard_conflict'' = Some (JBool (hard_conflict i))"
    by (simp_all add: map_of_canon_dict identifier_dict_def)
  show ?thesis
    by (simp add: compile_identifier_def dget_or_def look assms as_dict_def py_in_def canon_identifier_def)
qed

lemma compile_identifiers_fixed:
  assumes "map_of raw ''matching'' = Some (JObj m)" "map_of m ''hard_conflicts'' = None"
    and "map_of raw ''identifiers'' = Some (JList (map (\<lambda>i. JObj (canon_dict (identifier_dict i))) ids))"
  shows "compile_identifiers raw = Inr (map canon_identifier ids)"
proof -
  have keys: "only_keys (canon_dict (identifier_dict i)) [''field'', ''key'', ''namespace'', ''hard_conflict''] t = Inr ()"
    for i t unfolding only_keys_canon by (simp add: only_keys_def identifier_dict_def dkeys_def guard_res_def)
  have one: "map_res (\<lambda>j. bind_res (as_dict j) (\<lambda>item. bind_res (only_keys item
        [''field'', ''key'', ''namespace'', ''hard_conflict''] ''unsupported identifier settings'') (\<lambda>_. Inr item)))
      (map (\<lambda>i. JObj (canon_dict (identifier_dict i))) ids) = Inr (map (\<lambda>i. canon_dict (identifier_dict i)) ids)"
    by (induction ids) (simp_all add: as_dict_def keys del: only_keys_canon)
  have two: "map_res (compile_identifier raw) (map (\<lambda>i. canon_dict (identifier_dict i)) ids) = Inr (map canon_identifier ids)"
    by (induction ids) (simp_all add: compile_identifier_fixed [OF assms(1,2)])
  have "raw_identifiers raw = Inr (map (\<lambda>i. JObj (canon_dict (identifier_dict i))) ids)"
    by (simp add: raw_identifiers_def dget_def assms(3) py_iter_def)
  then show ?thesis unfolding compile_identifiers_def by (simp only: bind_res_simps one two)
qed

section \<open>Matching\<close>

lemma check_prefix_canon:
  assumes "check_prefix R v = Inr u"
  shows "check_prefix R (canon v) = Inr ()"
proof (cases "truthy v")
  case True
  with assms obtain pre where v: "v = JObj pre"
    by (cases v) (auto simp: check_prefix_def res_elim as_dict_def py_iter_def split: if_splits)
  with assms True obtain x n where "set (map JStr (dkeys pre)) = {JStr ''field'', JStr ''length''}"
    and x: "map_of pre ''length'' = Some x" "py_int R x = Inr n" "1 \<le> n" "n \<le> 64"
    by (auto simp: check_prefix_def res_elim as_dict_def py_iter_def dindex_def simp del: set_map)
  then have keys: "set (map JStr (dkeys (canon_dict pre))) = {JStr ''field'', JStr ''length''}" by simp
  from x have "map_of (canon_dict pre) ''length'' = Some (canon x)" "py_int R (canon x) = Inr n"
    by (simp_all add: map_of_canon_dict py_int_canon)
  with keys x True v show ?thesis
    by (simp add: check_prefix_def canon_JObj py_iter_def as_dict_def dindex_def guard_res_def del: canon.simps)
qed (simp add: check_prefix_def)

lemma compile_strategy_fixed:
  assumes "compile_strategy R j = Inr st"
  shows "compile_strategy R (JObj (canon_dict st)) = Inr (canon_dict st)"
proof -
  from assms obtain u where "only_keys st [''fields'', ''prefix''] ''unsupported blocking strategy settings'' = Inr ()"
    and "check_prefix R (dget st ''prefix'') = Inr u"
    by (cases j) (auto simp: compile_strategy_def res_elim)
  then show ?thesis
    by (simp add: compile_strategy_def dget_canon check_prefix_canon)
qed

lemma expand_blocking_objects: "expand_blocking (JList (map (\<lambda>d. JObj (f d)) ds)) = Inr (map (\<lambda>d. JObj (f d)) ds)"
  by (cases ds) (simp_all add: expand_blocking_def py_iter_def is_str_def)

lemma compile_comparison_fixed:
  assumes "compile_comparison R j = Inr rule"
  shows "compile_comparison R (JObj (canon_dict rule)) = Inr (canon_dict rule)"
proof -
  from assms obtain w where "only_keys rule [''field'', ''comparator'', ''weight'', ''missing_score'',
       ''m_probability'', ''u_probability''] ''unsupported comparison settings'' = Inr ()"
    and n: "in_names (dget rule ''comparator'') [''exact'', ''sequence_ratio''] = Inr True"
    and w: "py_float R (dget_or rule ''weight'' (JInt 0)) = Inr w" "0 < w"
    by (cases j) (auto simp: compile_comparison_def res_elim as_dict_def)
  then show ?thesis
    by (simp add: compile_comparison_def as_dict_def dget_canon in_names_canon [OF n] py_float_default [OF w(1)] guard_res_def)
qed

lemma check_probabilities_canon:
  assumes "check_probabilities R rule = Inr u"
  shows "check_probabilities R (canon_dict rule) = Inr ()"
proof -
  from assms obtain m u where "py_float R (dget_or rule ''m_probability'' (JInt 0)) = Inr m"
    "py_float R (dget_or rule ''u_probability'' (JInt 0)) = Inr u" "0 < u \<and> u < m \<and> m < 1"
    by (auto simp: check_probabilities_def res_elim)
  then show ?thesis by (simp add: check_probabilities_def py_float_default guard_res_def)
qed

section \<open>Survivorship\<close>

lemma survivorship_rule_dict:
  "check_survivorship_rule (JObj d) = bind_res (only_keys d [''strategy'', ''source_precedence'']
     ''unsupported survivorship settings'') (\<lambda>_. bind_res (in_names (dget d ''strategy'') survivorship_strategies)
       (\<lambda>known. guard_res known (PolicyError ''unsupported survivorship strategy'')))"
  by (cases "only_keys d [''strategy'', ''source_precedence''] ''unsupported survivorship settings''")
    (simp_all add: check_survivorship_rule_def)

lemma check_survivorship_canon:
  assumes "check_survivorship_rule rule = Inr ()"
  shows "check_survivorship_rule (canon rule) = Inr ()"
proof (cases rule)
  case (JObj d)
  with assms obtain known where "only_keys d [''strategy'', ''source_precedence''] ''unsupported survivorship settings'' = Inr ()"
    and n: "in_names (dget d ''strategy'') survivorship_strategies = Inr known" and "known"
    by (auto simp: survivorship_rule_dict bind_res_Inr guard_res_Inr)
  then show ?thesis
    by (simp only: JObj canon_JObj survivorship_rule_dict only_keys_canon dget_canon in_names_canon [OF n]
        bind_res_simps guard_res_simps)
qed (use assms in \<open>simp_all add: check_survivorship_rule_def\<close>)

lemma set_canon_dict: "set (canon_dict d) = (\<lambda>(k, v). (k, canon v)) ` set d"
  by (simp add: canon_dict_def)

lemma compile_survivorship_fixed:
  assumes "compile_survivorship raw attrs = Inr s"
    and "map_of raw' ''survivorship'' = Some (JObj (canon_dict s))" "attribute_keys attrs' = attribute_keys attrs"
  shows "compile_survivorship raw' attrs' = Inr (canon_dict s)"
proof -
  note ok = compile_survivorship_ok [OF assms(1)]
  then have "\<forall>k \<in> set (dkeys (canon_dict s)). JStr k \<in> set (attribute_keys attrs') \<or> k = ''default''"
    by (auto simp: assms(3) dkeys_def [of s])
  moreover have "map_res (\<lambda>(k, rule). check_survivorship_rule rule) (canon_dict s) = Inr (map (\<lambda>_. ()) (canon_dict s))"
    using ok by (intro map_res_pure) (auto simp: set_canon_dict check_survivorship_canon)
  ultimately show ?thesis
    by (simp add: compile_survivorship_def dget_or_def assms(2) as_dict_def guard_res_def del: set_dkeys_canon)
qed

section \<open>The whole document\<close>

definition threshold_dict :: "compiled_policy \<Rightarrow> dict" where
  "threshold_dict p = [(''review'', JFloat (review_threshold p)), (''auto_link'', JFloat (auto_link_threshold p))]"

definition matching_dict :: "compiled_policy \<Rightarrow> dict" where
  "matching_dict p =
     [(''algorithm'', JStr (algorithm p)), (''prior_match_probability'', JFloat (prior_match_probability p)),
      (''blocking'', JList (map JObj (blocking p))), (''comparisons'', JList (map JObj (comparisons p))),
      (''thresholds'', JObj (threshold_dict p))]"

definition policy_dict :: "compiled_policy \<Rightarrow> dict" where
  "policy_dict p =
     [(''entity'', pol_entity p), (''mode'', pol_mode p), (''attributes'', JList (map JObj (attributes p))),
      (''identifiers'', JList (map identifier_json (identifiers p))),
      (''relationships'', pol_relationships p), (''matching'', JObj (matching_dict p)),
      (''survivorship'', JObj (survivorship p))]"

lemma policy_document_dict: "policy_document p = JObj (policy_dict p)"
  by (simp add: policy_document_def policy_dict_def matching_dict_def threshold_dict_def)

lemma canonical_document_dict: "canonical_document p = JObj (canon_dict (policy_dict p))"
  unfolding canonical_document_def policy_document_dict canon_JObj ..

lemma stored_definition_dict: "stored_definition p = canon_dict (policy_dict p)"
  by (simp add: stored_definition_def canonical_document_dict)

lemma canon_objects: "canon (JList (map JObj ds)) = JList (map (\<lambda>d. JObj (canon_dict d)) ds)"
  by (simp add: canon_dict_def comp_def)

lemma map_res_images:
  "(\<And>x. x \<in> set xs \<Longrightarrow> f (g x) = Inr (h x)) \<Longrightarrow> map_res f (map g xs) = Inr (map h xs)"
  by (induction xs) simp_all

lemma matching_lookups:
  "map_of (canon_dict (matching_dict p)) ''algorithm'' = Some (JStr (algorithm p))"
  "map_of (canon_dict (matching_dict p)) ''prior_match_probability'' = Some (JFloat (prior_match_probability p))"
  "map_of (canon_dict (matching_dict p)) ''blocking'' = Some (JList (map (\<lambda>d. JObj (canon_dict d)) (blocking p)))"
  "map_of (canon_dict (matching_dict p)) ''comparisons'' = Some (JList (map (\<lambda>d. JObj (canon_dict d)) (comparisons p)))"
  "map_of (canon_dict (matching_dict p)) ''thresholds'' = Some (JObj (canon_dict (threshold_dict p)))"
  "map_of (canon_dict (matching_dict p)) ''hard_conflicts'' = None"
  "map_of (canon_dict (matching_dict p)) ''auto_link'' = None"
  "map_of (canon_dict (matching_dict p)) ''review'' = None"
  by (simp_all add: map_of_canon_dict matching_dict_def canon_objects canon_JObj del: canon.simps(1,2))

lemma threshold_lookups:
  "map_of (canon_dict (threshold_dict p)) ''review'' = Some (JFloat (review_threshold p))"
  "map_of (canon_dict (threshold_dict p)) ''auto_link'' = Some (JFloat (auto_link_threshold p))"
  by (simp_all add: map_of_canon_dict threshold_dict_def)

lemma policy_lookups:
  "map_of (canon_dict (policy_dict p)) ''entity'' = Some (canon (pol_entity p))"
  "map_of (canon_dict (policy_dict p)) ''mode'' = Some (canon (pol_mode p))"
  "map_of (canon_dict (policy_dict p)) ''attributes'' = Some (JList (map (\<lambda>d. JObj (canon_dict d)) (attributes p)))"
  "map_of (canon_dict (policy_dict p)) ''identifiers'' = Some (JList (map (\<lambda>i. JObj (canon_dict (identifier_dict i))) (identifiers p)))"
  "map_of (canon_dict (policy_dict p)) ''relationships'' = Some (canon (pol_relationships p))"
  "map_of (canon_dict (policy_dict p)) ''matching'' = Some (JObj (canon_dict (matching_dict p)))"
  "map_of (canon_dict (policy_dict p)) ''survivorship'' = Some (JObj (canon_dict (survivorship p)))"
  "map_of (canon_dict (policy_dict p)) ''validation'' = None"
  "map_of (canon_dict (policy_dict p)) ''kind'' = None"
proof -
  have ids: "canon (JList (map identifier_json is)) = JList (map (\<lambda>i. JObj (canon_dict (identifier_dict i))) is)" for "is"
    using canon_objects [of "map identifier_dict is"] by (simp add: identifier_json_dict comp_def)
  show "map_of (canon_dict (policy_dict p)) ''identifiers'' = Some (JList (map (\<lambda>i. JObj (canon_dict (identifier_dict i))) (identifiers p)))"
    by (simp add: map_of_canon_dict policy_dict_def ids del: canon.simps(1,2))
qed (simp_all add: map_of_canon_dict policy_dict_def canon_objects canon_JObj del: canon.simps(1,2))

lemma compile_algorithm_fixed:
  assumes "compile_algorithm R m rules = Inr (alg, prior)"
    and "map_of m' ''algorithm'' = Some (JStr alg)" "map_of m' ''prior_match_probability'' = Some (JFloat prior)"
  shows "compile_algorithm R m' (map canon_dict rules) = Inr (alg, prior)"
proof (cases "alg = ''fellegi_sunter''")
  case True
  with assms(1) obtain us where pr: "0 < prior" "prior < 1" and us: "map_res (check_probabilities R) rules = Inr us"
    by (auto simp: compile_algorithm_def Let_def res_elim split: if_splits)
  have "map_res (check_probabilities R) (map canon_dict rules) = Inr (map (\<lambda>_. ()) rules)"
    using map_res_mem' [OF us] by (intro map_res_images) (blast intro: check_probabilities_canon)
  with True pr show ?thesis
    by (simp add: compile_algorithm_def Let_def dget_or_def assms(2,3) in_names_def py_float_def guard_res_def)
next
  case False
  with assms(1) have "alg = ''weighted_score''"
    by (auto simp: compile_algorithm_def Let_def res_elim split: if_splits)
  then show ?thesis
    by (simp add: compile_algorithm_def Let_def dget_or_def assms(2,3) in_names_def py_float_def guard_res_def)
qed

lemma compile_matching_fixed:
  assumes "compile_matching R raw = Inr (blocking p, comparisons p, algorithm p,
      prior_match_probability p, review_threshold p, auto_link_threshold p)"
    and "map_of raw' ''matching'' = Some (JObj (canon_dict (matching_dict p)))"
  shows "compile_matching R raw' = Inr (map canon_dict (blocking p), map canon_dict (comparisons p), algorithm p,
      prior_match_probability p, review_threshold p, auto_link_threshold p)"
proof -
  let ?m = "canon_dict (matching_dict p)"
  from assms(1) obtain matching bs cs where
    st: "map_res (compile_strategy R) bs = Inr (blocking p)" and
    cs: "map_res (compile_comparison R) cs = Inr (comparisons p)" and
    al: "compile_algorithm R matching (comparisons p) = Inr (algorithm p, prior_match_probability p)" and
    th: "compile_thresholds R matching = Inr (review_threshold p, auto_link_threshold p)"
    by (auto simp: compile_matching_def res_elim)
  have keys: "only_keys ?m allowed_matching ''unsupported matching settings'' = Inr ()"
    unfolding only_keys_canon by (simp add: only_keys_def matching_dict_def dkeys_def allowed_matching_def guard_res_def)
  have st': "map_res (compile_strategy R) (map (\<lambda>d. JObj (canon_dict d)) (blocking p)) = Inr (map canon_dict (blocking p))"
    using map_res_mem [OF st] by (intro map_res_images) (blast intro: compile_strategy_fixed)
  have cs': "map_res (compile_comparison R) (map (\<lambda>d. JObj (canon_dict d)) (comparisons p)) = Inr (map canon_dict (comparisons p))"
    using map_res_mem [OF cs] by (intro map_res_images) (blast intro: compile_comparison_fixed)
  have al': "compile_algorithm R ?m (map canon_dict (comparisons p)) = Inr (algorithm p, prior_match_probability p)"
    by (rule compile_algorithm_fixed [OF al]) (rule matching_lookups)+
  have th': "compile_thresholds R ?m = Inr (review_threshold p, auto_link_threshold p)"
    using compile_thresholds_ok [OF th]
    by (simp add: compile_thresholds_def dget_or_def matching_lookups threshold_lookups py_float_def as_dict_def
        dindex_def guard_res_def)
  have look: "dget_or raw' ''matching'' (JObj []) = JObj ?m"
    "dget_or ?m ''blocking'' (JList []) = JList (map (\<lambda>d. JObj (canon_dict d)) (blocking p))"
    "dget_or ?m ''comparisons'' (JList []) = JList (map (\<lambda>d. JObj (canon_dict d)) (comparisons p))"
    by (simp_all add: dget_or_def assms(2) matching_lookups)
  show ?thesis
    unfolding compile_matching_def
    by (simp add: look to_dict_def keys expand_blocking_objects st' py_iter_def cs' al' th' del: only_keys_canon)
qed

lemma compile_attributes_fixed:
  assumes "\<forall>a \<in> set attrs. settled a \<and> attribute_ok a"
    and "map_of raw ''validation'' = None" "map_of raw ''attributes'' = Some (JList (map (\<lambda>d. JObj (canon_dict d)) attrs))"
  shows "compile_attributes R raw = Inr (map canon_dict attrs)"
proof -
  have "map_res (compile_attribute R []) (map (\<lambda>d. JObj (canon_dict d)) attrs) = Inr (map canon_dict attrs)"
    using assms(1) by (intro map_res_images) (simp add: compile_attribute_fixed)
  then show ?thesis
    by (simp add: compile_attributes_def validation_by_field_def dget_or_def assms(2,3) py_iter_def)
qed

definition canon_policy :: "runtime \<Rightarrow> compiled_policy \<Rightarrow> compiled_policy" where
  "canon_policy R p =
     \<lparr>pol_entity = canon (pol_entity p), pol_mode = canon (pol_mode p),
      attributes = map canon_dict (attributes p), identifiers = map canon_identifier (identifiers p),
      pol_relationships = canon (pol_relationships p), algorithm = algorithm p,
      prior_match_probability = prior_match_probability p, blocking = map canon_dict (blocking p),
      comparisons = map canon_dict (comparisons p), review_threshold = review_threshold p,
      auto_link_threshold = auto_link_threshold p, survivorship = canon_dict (survivorship p),
      pol_version = ''runtime-1'', checksum = checksum p\<rparr>"

lemma compile_document_fixed:
  assumes "compile_document R d = Inr p"
  shows "compile_document R (stored_definition p) = Inr ((canon_policy R p)\<lparr>checksum := []\<rparr>)"
proof -
  let ?D = "canon_dict (policy_dict p)"
  from compile_document_parts [OF assms] obtain raw where
    a: "compile_attributes R raw = Inr (attributes p)" and
    m: "compile_matching R raw = Inr (blocking p, comparisons p, algorithm p,
      prior_match_probability p, review_threshold p, auto_link_threshold p)" and
    s: "compile_survivorship raw (attributes p) = Inr (survivorship p)" by blast
  from a obtain inh items where i: "map_res (compile_attribute R inh) items = Inr (attributes p)"
    by (auto simp: compile_attributes_def res_elim)
  have ok: "\<forall>a \<in> set (attributes p). settled a \<and> attribute_ok a"
    using map_res_mem [OF i] compile_attribute_settled by blast
  have "attribute_keys (map canon_dict (attributes p)) = attribute_keys (attributes p)"
  proof -
    have "dget (canon_dict a) ''key'' = dget a ''key''" if "a \<in> set (attributes p)" for a
    proof -
      from ok that obtain k where "map_of a ''key'' = Some (JStr k)" unfolding attribute_ok_def by blast
      then show ?thesis by (simp add: dget_def map_of_canon_dict)
    qed
    then show ?thesis by (simp add: attribute_keys_def)
  qed
  then have s': "compile_survivorship ?D (map canon_dict (attributes p)) = Inr (canon_dict (survivorship p))"
    by (intro compile_survivorship_fixed [OF s] policy_lookups)
  have a': "compile_attributes R ?D = Inr (map canon_dict (attributes p))"
    by (rule compile_attributes_fixed [OF ok]) (rule policy_lookups)+
  have i': "compile_identifiers ?D = Inr (map canon_identifier (identifiers p))"
    by (rule compile_identifiers_fixed [OF policy_lookups(6) matching_lookups(6) policy_lookups(4)])
  have m': "compile_matching R ?D = Inr (map canon_dict (blocking p), map canon_dict (comparisons p), algorithm p,
      prior_match_probability p, review_threshold p, auto_link_threshold p)"
    by (rule compile_matching_fixed [OF m policy_lookups(6)])
  have "map_of ?D ''policy_version'' = None" "map_of ?D ''schema_version'' = None"
    by (simp_all add: map_of_canon_dict policy_dict_def)
  then have o: "open_definition R ?D = Inr (?D, ''runtime-1'')"
    by (simp add: open_definition_def dget_def policy_lookups dget_or_def py_str_def)
  have keys: "only_keys ?D allowed_root ''unsupported policy settings'' = Inr ()"
    unfolding only_keys_canon by (simp add: only_keys_def policy_dict_def dkeys_def allowed_root_def guard_res_def)
  show ?thesis
    unfolding stored_definition_dict compile_document_def o bind_res_simps prod.case keys a' i' m' s'
    by (simp add: canon_policy_def dget_or_def policy_lookups)
qed

lemma canon_dict_cong:
  "map (\<lambda>(k, v). (k, canon v)) d = map (\<lambda>(k, v). (k, canon v)) e \<Longrightarrow> canon_dict d = canon_dict e"
  by (simp only: canon_dict_def)

lemma canon_policy_document: "canon (policy_document (canon_policy R p)) = canon (policy_document p)"
proof -
  have objs: "canon (JList (map JObj (map canon_dict ds))) = canon (JList (map JObj ds))" for ds
    unfolding canon_objects by (simp add: comp_def)
  have obj: "canon (JObj (canon_dict d)) = canon (JObj d)" for d unfolding canon_JObj by simp
  have look: "map_of (canon_dict (identifier_dict (canon_identifier i))) = map_of (canon_dict (identifier_dict i))" for i
    by (rule ext) (simp add: map_of_canon_dict identifier_dict_def canon_identifier_def)
  have idj: "canon (identifier_json (canon_identifier i)) = canon (identifier_json i)" for i
    by (simp add: identifier_json_def canon_identifier_def)
  have ids: "canon (JList (map identifier_json (map canon_identifier is))) = canon (JList (map identifier_json is))" for "is"
    by (simp add: idj)
  have match: "canon_dict (matching_dict (canon_policy R p)) = canon_dict (matching_dict p)"
    by (rule canon_dict_cong)
      (simp add: matching_dict_def threshold_dict_def canon_policy_def objs del: canon.simps(1) map_map)
  let ?q = "canon_policy R p"
  have "canon (JList (map JObj (attributes ?q))) = canon (JList (map JObj (attributes p)))"
    "canon (JList (map identifier_json (identifiers ?q))) = canon (JList (map identifier_json (identifiers p)))"
    "canon (JObj (matching_dict ?q)) = canon (JObj (matching_dict p))"
    "canon (JObj (survivorship ?q)) = canon (JObj (survivorship p))"
    "canon (pol_entity ?q) = canon (pol_entity p)" "canon (pol_mode ?q) = canon (pol_mode p)"
    "canon (pol_relationships ?q) = canon (pol_relationships p)"
    unfolding canon_JObj match by (simp_all only: canon_policy_def compiled_policy.select_convs objs ids canon_dict_canon canon_canon)
  then have "canon_dict (policy_dict ?q) = canon_dict (policy_dict p)"
    by (intro canon_dict_cong) (simp only: policy_dict_def list.map prod.case)
  then show ?thesis unfolding policy_document_dict canon_JObj by simp
qed

lemma recompile:
  assumes "compile_policy R definition = Inr p" "pol_mode p = JStr mode"
  shows "\<exists>q. compile_policy R (dict_merge (stored_definition p) [(''mode'', JStr mode)]) = Inr q \<and>
    canonical_document q = canonical_document p \<and> stored_definition q = stored_definition p \<and>
    checksum q = checksum p"
proof -
  from assms(1) obtain p0 where p0: "compile_document R definition = Inr p0"
    and p: "p = p0\<lparr>checksum := canonical_hash R (policy_document p0)\<rparr>"
    by (auto simp: compile_policy_def bind_res_Inr)
  have doc: "policy_dict p = policy_dict p0"
    by (simp add: p policy_dict_def matching_dict_def threshold_dict_def)
  then have docs: "policy_document p = policy_document p0" and stored: "stored_definition p = stored_definition p0"
    by (simp_all add: policy_document_dict stored_definition_dict)
  have "map_of (stored_definition p) ''mode'' = Some (JStr mode)"
    by (simp add: stored_definition_dict policy_lookups assms(2))
  then have same: "dict_merge (stored_definition p) [(''mode'', JStr mode)] = stored_definition p0"
    by (simp add: dict_merge_def update_same stored)
  let ?base = "(canon_policy R p0)\<lparr>checksum := []\<rparr>"
  let ?q = "?base\<lparr>checksum := canonical_hash R (policy_document ?base)\<rparr>"
  have q: "compile_policy R (stored_definition p0) = Inr ?q"
    by (simp add: compile_policy_def compile_document_fixed [OF p0])
  have plain: "policy_dict (r\<lparr>checksum := c\<rparr>) = policy_dict r" for r c
    by (simp add: policy_dict_def matching_dict_def threshold_dict_def)
  have "canon (policy_document ?q) = canon (policy_document p0)" "canon (policy_document ?base) = canon (policy_document p0)"
    by (simp_all only: policy_document_dict plain) (simp_all only: policy_document_dict [symmetric] canon_policy_document)
  then have cq: "canon (policy_document ?q) = canon (policy_document p0)"
    and cq0: "canon (policy_document ?base) = canon (policy_document p0)" .
  have "canonical_document ?q = canonical_document p" unfolding canonical_document_def docs by (rule cq)
  moreover have "canonical_hash R (policy_document ?base) = canonical_hash R (policy_document p0)"
    unfolding canonical_hash_def by (rule arg_cong [OF cq0])
  then have "checksum ?q = checksum p" by (simp add: p)
  moreover have "stored_definition ?q = stored_definition p"
    using \<open>canonical_document ?q = canonical_document p\<close> by (simp only: stored_definition_def)
  ultimately show ?thesis using q same by metis
qed

section \<open>Guarantees\<close>

text \<open>
  A stored definition is a fixed point of compilation. What compiles is stored as a canonical
  document; that document, put under the mode it has, compiles again, and the result has the same
  canonical document and the same checksum.
\<close>

theorem stored_definitions_compile_to_themselves:
  assumes "compile_policy R definition = Inr p" "pol_mode p = JStr mode"
  shows "\<exists>q. compile_policy R (dict_merge (stored_definition p) [(''mode'', JStr mode)]) = Inr q \<and>
    canonical_document q = canonical_document p \<and> stored_definition q = stored_definition p \<and>
    checksum q = checksum p"
  by (rule recompile [OF assms])

theorem stored_definitions_compile_to_themselves_witness:
  "\<exists>p q. compile_policy ascii_runtime tax_definition = Inr p \<and>
     compile_policy ascii_runtime (dict_merge (stored_definition p) [(''mode'', JStr ''coexistence'')]) = Inr q \<and>
     canonical_document q = canonical_document p"
proof -
  obtain p where p: "compile_policy ascii_runtime tax_definition = Inr p" using tax_definition_compiles by blast
  then have "pol_mode p = JStr ''coexistence''"
    by (auto simp: compile_policy_def compile_document_def bind_res_Inr open_definition_def tax_definition_def
        dget_def dget_or_def)
  from stored_definitions_compile_to_themselves [OF p this] p show ?thesis by blast
qed

end
