(* ===== verification/Sources.thy ===== *)
theory Sources
  imports Configuration Identity
begin

text \<open>
  Source connections (\<open>_validate_source\<close>, \<open>create_source\<close>, \<open>replace_source\<close>, \<open>test_source_connection\<close>
  of api/routes.py with the model \<open>SourceCreate\<close> of schemas.py) and relationships between entities
  (\<open>create_relationship\<close>). What \<open>urllib.parse\<close> makes of a URL, pydantic's reading of an integer and
  the outcome of a connection test are parameters.
\<close>

section \<open>What is not part of the repository\<close>

record url_parts =
  up_scheme :: string
  up_host :: "string option"
  up_user :: "string option"
  up_password :: "string option"
  up_port :: "int option"
  up_query :: string
  up_fragment :: string

text \<open>\<open>urlparse\<close> (None for a ValueError), and pydantic's conversion of a JSON value to \<open>int\<close>.\<close>

record parsers =
  urlparse :: "string \<Rightarrow> url_parts option"
  read_int :: "json \<Rightarrow> int option"

section \<open>The form of a source\<close>

record source_form =
  sf_key :: string
  sf_name :: string
  sf_kind :: string
  sf_priority :: int
  sf_capabilities :: dict
  sf_config :: dict

definition source_settings :: "(string \<times> string list) list" where
  "source_settings =
     [(''postgresql'', [''secret_ref'', ''query'', ''cursor_columns'']),
      (''rest'', [''base_url'', ''allowed_hosts'', ''allow_private'', ''pagination'', ''test_path'', ''resource_path'']),
      (''odata'', [''base_url'', ''allowed_hosts'', ''allow_private'', ''entity_set'', ''delta'', ''test_path'']),
      (''webhook'', [''secret_ref'', ''format'', ''id_field'']),
      (''csv'', [''path'', ''delimiter'', ''encoding'']),
      (''jsonl'', [''path'', ''encoding'']),
      (''parquet'', [''path'']),
      (''s3'', [''object_url'', ''allowed_hosts'', ''manifest_url'', ''secret_ref'']),
      (''azure_blob'', [''object_url'', ''allowed_hosts'', ''manifest_url'', ''secret_ref'']),
      (''gcs'', [''object_url'', ''allowed_hosts'', ''manifest_url'', ''secret_ref''])]"

text \<open>The patterns of the keys: \<open>^[a-z][a-z0-9_-]{lo,hi}$\<close>.\<close>

definition key_char :: "char \<Rightarrow> bool" where
  "key_char c \<longleftrightarrow> (let n = of_char c :: nat in
     97 \<le> n \<and> n \<le> 122 \<or> 48 \<le> n \<and> n \<le> 57 \<or> c = CHR ''_'' \<or> c = CHR ''-'')"

definition key_pattern :: "nat \<Rightarrow> nat \<Rightarrow> string \<Rightarrow> bool" where
  "key_pattern lo hi s \<longleftrightarrow>
     (case s of [] \<Rightarrow> False
      | c # cs \<Rightarrow> (let n = of_char c :: nat in 97 \<le> n \<and> n \<le> 122) \<and> (\<forall>d \<in> set cs. key_char d) \<and>
          lo \<le> length cs \<and> length cs \<le> hi)"

definition form_fits :: "source_form \<Rightarrow> bool" where
  "form_fits f \<longleftrightarrow>
     key_pattern 1 79 (sf_key f) \<and> 2 \<le> length (sf_name f) \<and> length (sf_name f) \<le> 160 \<and>
     sf_kind f \<in> set (map fst source_settings) \<and> 1 \<le> sf_priority f \<and> sf_priority f \<le> 10000"

text \<open>\<open>SourceCreate.model_validate(item)\<close>: what is not said takes its default, unknown keys are ignored.\<close>

definition string_field :: "dict \<Rightarrow> string \<Rightarrow> string option" where
  "string_field d k = (case map_of d k of Some (JStr s) \<Rightarrow> Some s | _ \<Rightarrow> None)"

definition dict_field :: "dict \<Rightarrow> string \<Rightarrow> dict option" where
  "dict_field d k = (case map_of d k of None \<Rightarrow> Some [] | Some (JObj e) \<Rightarrow> Some e | Some _ \<Rightarrow> None)"

definition read_form :: "parsers \<Rightarrow> json \<Rightarrow> source_form res" where
  "read_form U item =
     (case item of
        JObj d \<Rightarrow>
          (case (string_field d ''key'', string_field d ''name'', string_field d ''kind'',
                 read_int U (dget_or d ''priority'' (JInt 100)), dict_field d ''capabilities'', dict_field d ''config'') of
             (Some k, Some n, Some ki, Some p, Some ca, Some co) \<Rightarrow>
               let f = \<lparr>sf_key = k, sf_name = n, sf_kind = ki, sf_priority = p, sf_capabilities = ca, sf_config = co\<rparr>
               in bind_res (guard_res (form_fits f) (PyError ''ValidationError'')) (\<lambda>_. Inr f)
           | _ \<Rightarrow> Inl (PyError ''ValidationError''))
      | _ \<Rightarrow> Inl (PyError ''ValidationError''))"

section \<open>Validation\<close>

text \<open>\<open>set(config.get("allowed_hosts", []))\<close>\<close>

definition host_set :: "dict \<Rightarrow> json list res" where
  "host_set config =
     bind_res (py_iter (dget_or config ''allowed_hosts'' (JList []))) (\<lambda>hs.
     bind_res (guard_res (\<forall>h \<in> set hs. case h of JList _ \<Rightarrow> False | JObj _ \<Rightarrow> False | _ \<Rightarrow> True)
       (PyError ''TypeError'')) (\<lambda>_. Inr hs))"

definition loopback_names :: "string list" where
  "loopback_names = [''127.0.0.1'', ''localhost'']"

text \<open>A destination: its scheme, a host of the list, and no credentials in the URL.\<close>

definition listed_destination :: "url_parts \<Rightarrow> string list \<Rightarrow> json list \<Rightarrow> bool" where
  "listed_destination u schemes hosts \<longleftrightarrow>
     up_scheme u \<in> set schemes \<and> truthy_str (up_host u) \<and> JStr (the (up_host u)) \<in> set hosts \<and>
     \<not> truthy_str (up_user u) \<and> \<not> truthy_str (up_password u)"

definition check_base_url :: "runtime \<Rightarrow> parsers \<Rightarrow> dict \<Rightarrow> unit res" where
  "check_base_url R U config =
     bind_res (from_option (PyError ''ValueError'') (urlparse U (py_str R (dget_or config ''base_url'' (JStr []))))) (\<lambda>u.
     bind_res (host_set config) (\<lambda>hosts.
     let plain = (case up_host u of None \<Rightarrow> False | Some h \<Rightarrow> h \<in> set loopback_names) \<or> truthy (dget config ''allow_private'')
     in guard_res (listed_destination u (if plain then [''https'', ''http''] else [''https'']) hosts)
          (HTTPException 422 ''invalid_source_base_url'')))"

definition data_path :: "string \<Rightarrow> bool" where
  "data_path p \<longleftrightarrow> prefix_of ''/data/'' p \<and> ''..'' \<notin> set (split_on CHR ''/'' p)"

definition secret_file :: "string \<Rightarrow> bool" where
  "secret_file r \<longleftrightarrow> prefix_of ''file:/run/recordlane/'' r \<and> \<not> substring ''..'' r"

definition validate_source :: "runtime \<Rightarrow> parsers \<Rightarrow> source_form \<Rightarrow> unit res" where
  "validate_source R U f =
     (let config = sf_config f; setting = (\<lambda>k. py_str R (dget_or config k (JStr []))) in
      bind_res (from_option (PyError ''KeyError'') (map_of source_settings (sf_kind f))) (\<lambda>allowed.
      bind_res (guard_res (\<forall>k \<in> set (dkeys config). k \<in> set allowed)
        (HTTPException 422 ''unsupported_source_settings'')) (\<lambda>_.
      if sf_kind f = ''postgresql'' then
        guard_res (truthy (dget config ''secret_ref'')) (HTTPException 422 ''source_secret_reference_required'')
      else if sf_kind f \<in> {''rest'', ''odata''} then check_base_url R U config
      else if sf_kind f \<in> {''csv'', ''jsonl'', ''parquet''} then
        guard_res (data_path (setting ''path'')) (HTTPException 422 ''invalid_source_path'')
      else if sf_kind f = ''webhook'' then
        guard_res (secret_file (setting ''secret_ref'')) (HTTPException 422 ''invalid_webhook_secret_reference'')
      else guard_res (prefix_of ''https://'' (setting ''object_url''))
        (HTTPException 422 ''object_url_must_be_https''))))"

section \<open>Operations on sources\<close>

definition form_of :: "source_row \<Rightarrow> source_form" where
  "form_of c = \<lparr>sf_key = sc_key c, sf_name = sc_name c, sf_kind = sc_kind c, sf_priority = sc_priority c,
     sf_capabilities = sc_capabilities c, sf_config = sc_config c\<rparr>"

definition put_form :: "source_form \<Rightarrow> source_row \<Rightarrow> source_row" where
  "put_form f c = c\<lparr>sc_key := sf_key f, sc_name := sf_name f, sc_kind := sf_kind f,
     sc_priority := sf_priority f, sc_capabilities := sf_capabilities f, sc_config := sf_config f\<rparr>"

definition new_source :: "runtime \<Rightarrow> service \<Rightarrow> source_form \<Rightarrow> db \<Rightarrow> source_row" where
  "new_source R sv f s =
     \<lparr>sc_id = next_id R s, sc_ws = wid sv, sc_key = sf_key f, sc_name = sf_name f, sc_kind = sf_kind f,
      sc_priority = sf_priority f, sc_capabilities = sf_capabilities f, sc_config = sf_config f,
      sc_checkpoint = [], sc_status = ''configured'', sc_last_ingested = None\<rparr>"

definition add_source :: "runtime \<Rightarrow> service \<Rightarrow> source_form \<Rightarrow> db \<Rightarrow> source_row \<times> db" where
  "add_source R sv f s =
     (let c = new_source R sv f s in (c, s\<lparr>sources := row_add c (sources s), ticks := Suc (ticks s)\<rparr>))"

definition source_detail :: "source_row \<Rightarrow> json" where
  "source_detail c = JObj [(''key'', JStr (sc_key c)), (''kind'', JStr (sc_kind c))]"

definition create_source :: "runtime \<Rightarrow> parsers \<Rightarrow> service \<Rightarrow> source_form \<Rightarrow> source_row op" where
  "create_source R U sv f s =
     bind_res (validate_source R U f) (\<lambda>_.
     bind_res (guard_res (find_source sv (sf_key f) s = None) (HTTPException 409 ''source_exists'')) (\<lambda>_.
     let (c, s1) = add_source R sv f s
     in Inr (c, audit R sv ''source.created'' ''source'' (sc_id c) (source_detail c) s1)))"

text \<open>A replaced source may take another key; the key is unique in its workspace.\<close>

definition replace_source :: "runtime \<Rightarrow> parsers \<Rightarrow> service \<Rightarrow> string \<Rightarrow> source_form \<Rightarrow> source_row op" where
  "replace_source R U sv key f s =
     bind_res (validate_source R U f) (\<lambda>_.
     bind_res (from_option (HTTPException 404 ''source_not_found'') (find_source sv key s)) (\<lambda>c.
     bind_res (guard_res (\<forall>d \<in> set (sources s). sc_ws d = wid sv \<and> sc_key d = sf_key f \<longrightarrow> sc_id d = sc_id c)
       (IntegrityError ''sources'')) (\<lambda>_.
     let c' = put_form f c
     in Inr (c', audit R sv ''source.updated'' ''source'' (sc_id c) (source_detail c')
          (s\<lparr>sources := row_modify sc_id (sc_id c) (put_form f) (sources s)\<rparr>)))))"

text \<open>
  A connection test: the protocol it spoke, or the class of the exception. A failed test is recorded
  before its exception is raised.
\<close>

definition set_source_status :: "string \<Rightarrow> source_row \<Rightarrow> source_row" where
  "set_source_status st c = c\<lparr>sc_status := st\<rparr>"

definition test_source_connection ::
    "runtime \<Rightarrow> (source_row \<Rightarrow> string + string) \<Rightarrow> service \<Rightarrow> string \<Rightarrow> db \<Rightarrow> string res \<times> db" where
  "test_source_connection R probe sv key s =
     (case find_source sv key s of
        None \<Rightarrow> (Inl (HTTPException 404 ''source_not_found''), s)
      | Some c \<Rightarrow>
          (case probe c of
             Inl problem \<Rightarrow> (Inl (HTTPException 424 ''source_connection_failed''),
               audit R sv ''source.connection_failed'' ''source'' (sc_id c)
                 (JObj [(''key'', JStr (sc_key c)), (''kind'', JStr (sc_kind c)), (''error_class'', JStr problem)])
                 (s\<lparr>sources := row_modify sc_id (sc_id c) (set_source_status ''error'') (sources s)\<rparr>))
           | Inr protocol \<Rightarrow> (Inr protocol,
               audit R sv ''source.connection_verified'' ''source'' (sc_id c)
                 (JObj [(''key'', JStr (sc_key c)), (''kind'', JStr (sc_kind c)), (''protocol'', JStr protocol)])
                 (s\<lparr>sources := row_modify sc_id (sc_id c) (set_source_status ''healthy'') (sources s)\<rparr>))))"

section \<open>Relationships\<close>

record relationship_form =
  rf_from :: ident
  rf_to :: ident
  rf_type :: string
  rf_effective_from :: "time option"
  rf_effective_to :: "time option"

definition known_entity :: "service \<Rightarrow> ident \<Rightarrow> db \<Rightarrow> bool" where
  "known_entity sv i s \<longleftrightarrow> (\<exists>e \<in> set (entities s). en_id e = i \<and> en_ws e = wid sv)"

definition create_relationship :: "runtime \<Rightarrow> service \<Rightarrow> relationship_form \<Rightarrow> relationship op" where
  "create_relationship R sv f s =
     bind_res (guard_res (known_entity sv (rf_from f) s) (HTTPException 404 ''entity_not_found'')) (\<lambda>_.
     bind_res (guard_res (known_entity sv (rf_to f) s) (HTTPException 404 ''entity_not_found'')) (\<lambda>_.
     bind_res (guard_res (rf_from f \<noteq> rf_to f) (HTTPException 422 ''self_relationship_forbidden'')) (\<lambda>_.
     let l = \<lparr>rl_id = next_id R s, rl_ws = wid sv, rl_from = rf_from f, rl_to = rf_to f, rl_type = rf_type f,
              rl_effective_from = rf_effective_from f, rl_effective_to = rf_effective_to f,
              rl_provenance = [(''actor'', JStr (subject sv)), (''method'', JStr ''governed_authoring'')]\<rparr>
     in Inr (l, audit R sv ''relationship.created'' ''relationship'' (rl_id l) (JObj [(''type'', JStr (rf_type f))])
          (s\<lparr>relationships := row_add l (relationships s), ticks := Suc (ticks s)\<rparr>)))))"

section \<open>What a configured source satisfies\<close>

text \<open>
  The boundary of a source: known settings only; a URL with an allowed host, without credentials and
  encrypted unless the host is loopback or the source allows private networks; a file under /data; a
  webhook secret under /run/recordlane; some secret reference for PostgreSQL; an object URL that starts
  with https://.
\<close>

definition within_boundary :: "runtime \<Rightarrow> parsers \<Rightarrow> source_form \<Rightarrow> bool" where
  "within_boundary R U f \<longleftrightarrow>
     (let config = sf_config f; setting = (\<lambda>k. py_str R (dget_or config k (JStr []))) in
      (\<exists>allowed. (sf_kind f, allowed) \<in> set source_settings \<and> set (dkeys config) \<subseteq> set allowed) \<and>
      (sf_kind f \<in> {''rest'', ''odata''} \<longrightarrow>
         (\<exists>u h. urlparse U (setting ''base_url'') = Some u \<and> up_host u = Some h \<and> h \<noteq> [] \<and>
            (\<exists>hs. py_iter (dget config ''allowed_hosts'') = Inr hs \<and> JStr h \<in> set hs) \<and>
            \<not> truthy_str (up_user u) \<and> \<not> truthy_str (up_password u) \<and>
            (up_scheme u = ''https'' \<or> up_scheme u = ''http'' \<and>
               (h \<in> {''127.0.0.1'', ''localhost''} \<or> truthy (dget config ''allow_private''))))) \<and>
      (sf_kind f \<in> {''csv'', ''jsonl'', ''parquet''} \<longrightarrow> data_path (setting ''path'')) \<and>
      (sf_kind f = ''webhook'' \<longrightarrow> secret_file (setting ''secret_ref'')) \<and>
      (sf_kind f = ''postgresql'' \<longrightarrow> truthy (dget config ''secret_ref'')) \<and>
      (sf_kind f \<in> {''s3'', ''azure_blob'', ''gcs''} \<longrightarrow> prefix_of ''https://'' (setting ''object_url'')))"

lemma check_base_url_Inr:
  assumes "check_base_url R U config = Inr v"
  obtains u h hs where "urlparse U (py_str R (dget_or config ''base_url'' (JStr []))) = Some u" "up_host u = Some h" "h \<noteq> []"
    "py_iter (dget config ''allowed_hosts'') = Inr hs" "JStr h \<in> set hs"
    "\<not> truthy_str (up_user u)" "\<not> truthy_str (up_password u)"
    "up_scheme u = ''https'' \<or> up_scheme u = ''http'' \<and> (h \<in> {''127.0.0.1'', ''localhost''} \<or> truthy (dget config ''allow_private''))"
proof -
  from assms obtain u hs where u: "urlparse U (py_str R (dget_or config ''base_url'' (JStr []))) = Some u"
    and hs: "host_set config = Inr hs"
    and listed: "listed_destination u (if (case up_host u of None \<Rightarrow> False | Some h \<Rightarrow> h \<in> set loopback_names) \<or>
         truthy (dget config ''allow_private'') then [''https'', ''http''] else [''https'']) hs"
    by (auto simp: check_base_url_def res_elim Let_def)
  from listed obtain h where h: "up_host u = Some h" "h \<noteq> []" "JStr h \<in> set hs"
    by (cases "up_host u") (auto simp: listed_destination_def truthy_str_def)
  from hs h(3) have it: "py_iter (dget config ''allowed_hosts'') = Inr hs"
    by (cases "map_of config ''allowed_hosts''") (auto simp: host_set_def res_elim dget_or_def dget_def py_iter_def)
  show thesis
    by (rule that [OF u h(1,2) it h(3)])
      (use listed h in \<open>auto simp: listed_destination_def loopback_names_def split: if_splits\<close>)
qed

lemma validate_source_steps:
  assumes "validate_source R U f = Inr v"
  obtains allowed where "(sf_kind f, allowed) \<in> set source_settings" "set (dkeys (sf_config f)) \<subseteq> set allowed"
    "(if sf_kind f = ''postgresql'' then
        guard_res (truthy (dget (sf_config f) ''secret_ref'')) (HTTPException 422 ''source_secret_reference_required'')
      else if sf_kind f \<in> {''rest'', ''odata''} then check_base_url R U (sf_config f)
      else if sf_kind f \<in> {''csv'', ''jsonl'', ''parquet''} then
        guard_res (data_path (py_str R (dget_or (sf_config f) ''path'' (JStr [])))) (HTTPException 422 ''invalid_source_path'')
      else if sf_kind f = ''webhook'' then
        guard_res (secret_file (py_str R (dget_or (sf_config f) ''secret_ref'' (JStr [])))) (HTTPException 422 ''invalid_webhook_secret_reference'')
      else guard_res (prefix_of ''https://'' (py_str R (dget_or (sf_config f) ''object_url'' (JStr []))))
        (HTTPException 422 ''object_url_must_be_https'')) = Inr v"
proof -
  note steps = assms [unfolded validate_source_def Let_def bind_res_Inr from_option_Inr guard_res_Inr]
  from steps obtain allowed where a: "map_of source_settings (sf_kind f) = Some allowed"
    and more: "\<exists>x. (\<forall>k \<in> set (dkeys (sf_config f)). k \<in> set allowed) \<and>
     (if sf_kind f = ''postgresql'' then
        guard_res (truthy (dget (sf_config f) ''secret_ref'')) (HTTPException 422 ''source_secret_reference_required'')
      else if sf_kind f \<in> {''rest'', ''odata''} then check_base_url R U (sf_config f)
      else if sf_kind f \<in> {''csv'', ''jsonl'', ''parquet''} then
        guard_res (data_path (py_str R (dget_or (sf_config f) ''path'' (JStr [])))) (HTTPException 422 ''invalid_source_path'')
      else if sf_kind f = ''webhook'' then
        guard_res (secret_file (py_str R (dget_or (sf_config f) ''secret_ref'' (JStr [])))) (HTTPException 422 ''invalid_webhook_secret_reference'')
      else guard_res (prefix_of ''https://'' (py_str R (dget_or (sf_config f) ''object_url'' (JStr []))))
        (HTTPException 422 ''object_url_must_be_https'')) = Inr v"
    by (elim exE conjE) (rule that, assumption, rule exI, rule conjI)
  from more show thesis
    by (elim exE conjE) (rule that [OF map_of_SomeD [OF a]], rule subsetI, erule (1) bspec)
qed

lemma validated_within_boundary:
  assumes "validate_source R U f = Inr v"
  shows "within_boundary R U f"
proof -
  obtain allowed where m: "(sf_kind f, allowed) \<in> set source_settings" and keys: "set (dkeys (sf_config f)) \<subseteq> set allowed"
    and rest: "(if sf_kind f = ''postgresql'' then
        guard_res (truthy (dget (sf_config f) ''secret_ref'')) (HTTPException 422 ''source_secret_reference_required'')
      else if sf_kind f \<in> {''rest'', ''odata''} then check_base_url R U (sf_config f)
      else if sf_kind f \<in> {''csv'', ''jsonl'', ''parquet''} then
        guard_res (data_path (py_str R (dget_or (sf_config f) ''path'' (JStr [])))) (HTTPException 422 ''invalid_source_path'')
      else if sf_kind f = ''webhook'' then
        guard_res (secret_file (py_str R (dget_or (sf_config f) ''secret_ref'' (JStr [])))) (HTTPException 422 ''invalid_webhook_secret_reference'')
      else guard_res (prefix_of ''https://'' (py_str R (dget_or (sf_config f) ''object_url'' (JStr []))))
        (HTTPException 422 ''object_url_must_be_https'')) = Inr v"
    by (rule validate_source_steps [OF assms])
  show ?thesis
    unfolding within_boundary_def Let_def
  proof (intro conjI impI)
    show "\<exists>allowed. (sf_kind f, allowed) \<in> set source_settings \<and> set (dkeys (sf_config f)) \<subseteq> set allowed"
      using m keys by blast
  next
    assume "sf_kind f \<in> {''rest'', ''odata''}"
    with rest have "check_base_url R U (sf_config f) = Inr v" by (elim insertE emptyE) simp_all
    then show "\<exists>u h. urlparse U (py_str R (dget_or (sf_config f) ''base_url'' (JStr []))) = Some u \<and>
        up_host u = Some h \<and> h \<noteq> [] \<and> (\<exists>hs. py_iter (dget (sf_config f) ''allowed_hosts'') = Inr hs \<and> JStr h \<in> set hs) \<and>
        \<not> truthy_str (up_user u) \<and> \<not> truthy_str (up_password u) \<and>
        (up_scheme u = ''https'' \<or> up_scheme u = ''http'' \<and>
           (h \<in> {''127.0.0.1'', ''localhost''} \<or> truthy (dget (sf_config f) ''allow_private'')))"
      by (rule check_base_url_Inr) (intro exI conjI; assumption)
  next
    assume "sf_kind f \<in> {''csv'', ''jsonl'', ''parquet''}"
    with rest show "data_path (py_str R (dget_or (sf_config f) ''path'' (JStr [])))"
      by (elim insertE emptyE) (simp_all add: guard_res_Inr)
  next
    assume "sf_kind f = ''webhook''"
    with rest show "secret_file (py_str R (dget_or (sf_config f) ''secret_ref'' (JStr [])))" by (simp add: guard_res_Inr)
  next
    assume "sf_kind f = ''postgresql''"
    with rest show "truthy (dget (sf_config f) ''secret_ref'')" by (simp add: guard_res_Inr)
  next
    assume "sf_kind f \<in> {''s3'', ''azure_blob'', ''gcs''}"
    with rest show "prefix_of ''https://'' (py_str R (dget_or (sf_config f) ''object_url'' (JStr [])))"
      by (elim insertE emptyE) (simp_all add: guard_res_Inr)
  qed
qed

definition sources_ok :: "runtime \<Rightarrow> parsers \<Rightarrow> db \<Rightarrow> bool" where
  "sources_ok R U s \<longleftrightarrow>
     (\<forall>c \<in> set (sources s). within_boundary R U (form_of c)) \<and>
     (\<forall>c \<in> set (sources s). \<forall>d \<in> set (sources s). sc_ws c = sc_ws d \<and> sc_key c = sc_key d \<longrightarrow> sc_id c = sc_id d)"

lemma sources_ok_boundary: "sources_ok R U s \<Longrightarrow> c \<in> set (sources s) \<Longrightarrow> within_boundary R U (form_of c)"
  unfolding sources_ok_def by (elim conjE) (erule (1) bspec)

lemma sources_ok_key:
  "sources_ok R U s \<Longrightarrow> c \<in> set (sources s) \<Longrightarrow> d \<in> set (sources s) \<Longrightarrow>
   sc_ws c = sc_ws d \<Longrightarrow> sc_key c = sc_key d \<Longrightarrow> sc_id c = sc_id d"
  unfolding sources_ok_def by (elim conjE) blast

lemma sources_okI:
  "(\<And>c. c \<in> set (sources s) \<Longrightarrow> within_boundary R U (form_of c)) \<Longrightarrow>
   (\<And>c d. c \<in> set (sources s) \<Longrightarrow> d \<in> set (sources s) \<Longrightarrow> sc_ws c = sc_ws d \<Longrightarrow> sc_key c = sc_key d \<Longrightarrow>
     sc_id c = sc_id d) \<Longrightarrow> sources_ok R U s"
  unfolding sources_ok_def by blast

lemma sources_audit [simp]: "sources (audit R sv a ty i d s) = sources s"
  by (simp add: audit_def Let_def)

lemma form_of_put [simp]: "form_of (put_form f c) = f"
  by (simp add: form_of_def put_form_def)

lemma put_form_frame [simp]: "sc_id (put_form f c) = sc_id c" "sc_ws (put_form f c) = sc_ws c" "sc_key (put_form f c) = sf_key f"
  by (simp_all add: put_form_def)

lemma set_source_status_frame [simp]:
  "form_of (set_source_status st c) = form_of c" "sc_id (set_source_status st c) = sc_id c"
  "sc_ws (set_source_status st c) = sc_ws c" "sc_key (set_source_status st c) = sc_key c"
  by (simp_all add: form_of_def set_source_status_def)

lemma new_source_frame [simp]:
  "form_of (new_source R sv f s) = f" "sc_ws (new_source R sv f s) = wid sv" "sc_key (new_source R sv f s) = sf_key f"
  by (simp_all add: form_of_def new_source_def)

lemma find_source_None:
  "find_source sv k s = None \<Longrightarrow> c \<in> set (sources s) \<Longrightarrow> sc_ws c = wid sv \<Longrightarrow> sc_key c \<noteq> k"
  unfolding find_source_def by (drule (1) find_NoneD) simp

lemma find_source_Some:
  "find_source sv k s = Some c \<Longrightarrow> c \<in> set (sources s) \<and> sc_ws c = wid sv \<and> sc_key c = k"
  unfolding find_source_def by (drule find_SomeD) simp

lemma sources_ok_add:
  assumes "sources_ok R U s" "within_boundary R U f" "find_source sv (sf_key f) s = None"
    "sources t = row_add (new_source R sv f s0) (sources s)"
  shows "sources_ok R U t"
  unfolding sources_ok_def
proof (intro conjI ballI impI)
  let ?n = "new_source R sv f s0"
  have old: "c = ?n \<or> c \<in> set (sources s)" if "c \<in> set (sources t)" for c
    using that by (simp add: assms(4))
  fix c assume c: "c \<in> set (sources t)"
  from assms(1,2) old [OF c] show "within_boundary R U (form_of c)" by (auto simp: sources_ok_def)
  fix d assume d: "d \<in> set (sources t)" and eq: "sc_ws c = sc_ws d \<and> sc_key c = sc_key d"
  from old [OF c] show "sc_id c = sc_id d"
  proof
    assume cn: "c = ?n"
    from old [OF d] show ?thesis
    proof
      assume "d \<in> set (sources s)"
      from find_source_None [OF assms(3) this] cn eq show ?thesis by simp
    qed (simp add: cn)
  next
    assume cs: "c \<in> set (sources s)"
    from old [OF d] show ?thesis
    proof
      assume "d = ?n"
      with find_source_None [OF assms(3) cs] eq show ?thesis by simp
    next
      assume "d \<in> set (sources s)"
      with cs eq assms(1) show ?thesis unfolding sources_ok_def by blast
    qed
  qed
qed

lemma sources_ok_change:
  assumes "sources_ok R U s" "distinct (map sc_id (sources s))" "c \<in> set (sources s)"
    and "sc_id (f c) = sc_id c" "sc_ws (f c) = sc_ws c" "within_boundary R U (form_of (f c))"
    and new: "\<And>d. d \<in> set (sources s) \<Longrightarrow> sc_ws d = sc_ws c \<Longrightarrow> sc_key d = sc_key (f c) \<Longrightarrow> sc_id d = sc_id c"
    and "sources t = row_modify sc_id (sc_id c) f (sources s)"
  shows "sources_ok R U t"
proof -
  have old: "b = f c \<or> b \<in> set (sources s) \<and> sc_id b \<noteq> sc_id c" if "b \<in> set (sources t)" for b
  proof -
    from that have "b \<in> (\<lambda>r. if sc_id r = sc_id c then f r else r) ` set (sources s)"
      by (simp only: assms(8) set_row_modify)
    then obtain r where r: "b = (if sc_id r = sc_id c then f r else r)" "r \<in> set (sources s)" by (rule imageE)
    show ?thesis
    proof (cases "sc_id r = sc_id c")
      case True
      with assms(2,3) r(2) have "r = c" by (simp add: distinct_map inj_on_def)
      with r(1) True show ?thesis by simp
    qed (use r in simp)
  qed
  show ?thesis
  proof (rule sources_okI)
    fix b assume "b \<in> set (sources t)"
    from old [OF this] show "within_boundary R U (form_of b)"
      using assms(6) sources_ok_boundary [OF assms(1)] by blast
  next
    fix b d assume b: "b \<in> set (sources t)" and d: "d \<in> set (sources t)"
      and ws: "sc_ws b = sc_ws d" and key: "sc_key b = sc_key d"
    from old [OF b] old [OF d] show "sc_id b = sc_id d"
    proof (elim disjE conjE)
      assume "b = f c" and d': "d \<in> set (sources s)" "sc_id d \<noteq> sc_id c"
      with ws key assms(5) have "sc_ws d = sc_ws c" "sc_key d = sc_key (f c)" by simp_all
      from new [OF d'(1) this] d'(2) show ?thesis by simp
    next
      assume "d = f c" and b': "b \<in> set (sources s)" "sc_id b \<noteq> sc_id c"
      with ws key assms(5) have "sc_ws b = sc_ws c" "sc_key b = sc_key (f c)" by simp_all
      from new [OF b'(1) this] b'(2) show ?thesis by simp
    next
      assume "b \<in> set (sources s)" "d \<in> set (sources s)"
      then show ?thesis using ws key by (rule sources_ok_key [OF assms(1)])
    qed simp
  qed
qed

lemma create_source_ok:
  assumes "create_source R U sv f s = Inr (c, t)" "sources_ok R U s"
  shows "sources_ok R U t \<and> form_of c = f \<and> find_source sv (sf_key f) s = None \<and> sources t = sources s @ [c]"
proof -
  from assms(1) obtain v where v: "validate_source R U f = Inr v" and none: "find_source sv (sf_key f) s = None"
    and c: "c = new_source R sv f s" and t: "sources t = row_add c (sources s)"
    by (auto simp: create_source_def res_elim add_source_def Let_def)
  from sources_ok_add [OF assms(2) validated_within_boundary [OF v] none t [unfolded c]] c t none
  show ?thesis by (simp add: row_add_def)
qed

lemma replace_source_ok:
  assumes "replace_source R U sv key f s = Inr (c', t)" "sources_ok R U s" "distinct (map sc_id (sources s))"
  shows "sources_ok R U t \<and> form_of c' = f"
proof -
  from assms(1) obtain v c where v: "validate_source R U f = Inr v" and c: "find_source sv key s = Some c"
    and free: "\<forall>d \<in> set (sources s). sc_ws d = wid sv \<and> sc_key d = sf_key f \<longrightarrow> sc_id d = sc_id c"
    and c': "c' = put_form f c" and t: "sources t = row_modify sc_id (sc_id c) (put_form f) (sources s)"
    by (auto simp: replace_source_def res_elim Let_def)
  from find_source_Some [OF c] have cs: "c \<in> set (sources s)" "sc_ws c = wid sv" by simp_all
  have "sources_ok R U t"
  proof (rule sources_ok_change [OF assms(2,3) cs(1) _ _ _ _ t])
    show "within_boundary R U (form_of (put_form f c))" by (simp add: validated_within_boundary [OF v])
    fix d assume "d \<in> set (sources s)" "sc_ws d = sc_ws c" "sc_key d = sc_key (put_form f c)"
    with free cs(2) show "sc_id d = sc_id c" by simp
  qed simp_all
  with c' show ?thesis by simp
qed

lemma test_source_ok:
  assumes "sources_ok R U s" "distinct (map sc_id (sources s))"
  shows "sources_ok R U (snd (test_source_connection R probe sv key s))"
proof (cases "find_source sv key s")
  case (Some c)
  then have c: "c \<in> set (sources s)" by (simp add: find_source_Some)
  obtain st where t: "sources (snd (test_source_connection R probe sv key s)) =
      row_modify sc_id (sc_id c) (set_source_status st) (sources s)"
    using Some by (cases "probe c") (simp_all add: test_source_connection_def)
  show ?thesis
  proof (rule sources_ok_change [OF assms c _ _ _ _ t])
    show "within_boundary R U (form_of (set_source_status st c))"
      using sources_ok_boundary [OF assms(1) c] by simp
    fix d assume "d \<in> set (sources s)" "sc_ws d = sc_ws c" "sc_key d = sc_key (set_source_status st c)"
    then show "sc_id d = sc_id c" using sources_ok_key [OF assms(1) _ c] by simp
  qed simp_all
qed (use assms in \<open>simp add: test_source_connection_def\<close>)

end
