(* ===== verification/Bundle.thy ===== *)
theory Bundle
  imports Canonical Sources
begin

text \<open>
  Workspace bundles (\<open>export_workspace_bundle\<close>, \<open>import_workspace_bundle\<close> of api/routes.py): the
  domains, sources and configuration documents of a workspace as one JSON document, and their import,
  into the same workspace or into another. Keys, names and modes of imported domains are taken to be
  strings; other JSON there fails in the database driver.
\<close>

section \<open>Export\<close>

definition domain_item :: "domain_row \<Rightarrow> json" where
  "domain_item d =
     JObj [(''key'', JStr (dm_key d)), (''name'', JStr (dm_name d)), (''mode'', JStr (dm_mode d)),
           (''definition'', JObj (dm_definition d))]"

definition source_item :: "source_row \<Rightarrow> json" where
  "source_item c =
     JObj [(''key'', JStr (sc_key c)), (''name'', JStr (sc_name c)), (''kind'', JStr (sc_kind c)),
           (''priority'', JInt (sc_priority c)), (''capabilities'', JObj (sc_capabilities c)),
           (''config'', JObj (sc_config c))]"

definition own_domains :: "service \<Rightarrow> db \<Rightarrow> domain_row list" where
  "own_domains sv s = sort_key dm_key (filter (\<lambda>d. dm_ws d = wid sv) (domains s))"

definition own_sources :: "service \<Rightarrow> db \<Rightarrow> source_row list" where
  "own_sources sv s = sort_key sc_key (filter (\<lambda>c. sc_ws c = wid sv) (sources s))"

definition own_configurations :: "service \<Rightarrow> db \<Rightarrow> configuration list" where
  "own_configurations sv s = sort_key cv_version (filter (\<lambda>c. cv_ws c = wid sv) (configurations s))"

definition bundle_spec :: "service \<Rightarrow> db \<Rightarrow> dict" where
  "bundle_spec sv s =
     [(''domains'', JList (map domain_item (own_domains sv s))),
      (''sources'', JList (map source_item (own_sources sv s))),
      (''configurations'', JList (map (\<lambda>c. JObj (cv_document c)) (own_configurations sv s)))]"

definition own_slug :: "service \<Rightarrow> db \<Rightarrow> string" where
  "own_slug sv s = (case find (\<lambda>w. ws_id w = wid sv) (workspaces s) of None \<Rightarrow> [] | Some w \<Rightarrow> ws_slug w)"

definition export_bundle :: "service \<Rightarrow> db \<Rightarrow> dict" where
  "export_bundle sv s =
     [(''apiVersion'', JStr ''recordlane.io/v1alpha1''), (''kind'', JStr ''WorkspaceBundle''),
      (''metadata'', JObj [(''sourceWorkspace'', JStr (own_slug sv s))]),
      (''spec'', JObj (bundle_spec sv s))]"

section \<open>Checking a bundle\<close>

text \<open>\<open>except (KeyError, TypeError, ValueError, PolicyError)\<close>; a pydantic ValidationError is a ValueError.\<close>

definition catch_bundle :: "'a res \<Rightarrow> 'a res" where
  "catch_bundle r =
     (case r of
        Inl (PolicyError m) \<Rightarrow> Inl (HTTPException 422 ''invalid_workspace_bundle'')
      | Inl (PyError c) \<Rightarrow>
          if c \<in> {''KeyError'', ''TypeError'', ''ValueError'', ''ValidationError''}
          then Inl (HTTPException 422 ''invalid_workspace_bundle'') else r
      | _ \<Rightarrow> r)"

text \<open>\<open>item[k]\<close> of an untrusted item\<close>

definition item_dict :: "json \<Rightarrow> dict res" where
  "item_dict j = (case j of JObj d \<Rightarrow> Inr d | _ \<Rightarrow> Inl (PyError ''TypeError''))"

definition compile_item :: "runtime \<Rightarrow> json \<Rightarrow> compiled_policy res" where
  "compile_item R item =
     bind_res (item_dict item) (\<lambda>d.
     bind_res (bind_res (dindex d ''definition'') item_dict) (\<lambda>def.
     bind_res (dindex d ''mode'') (\<lambda>mode.
     compile_policy R (dict_merge def [(''mode'', mode)]))))"

definition check_bundle :: "runtime \<Rightarrow> parsers \<Rightarrow> dict \<Rightarrow> (json list \<times> source_form list \<times> dict list) res" where
  "check_bundle R U spec =
     bind_res (py_iter (dget_or spec ''domains'' (JList []))) (\<lambda>ds.
     bind_res (map_res (compile_item R) ds) (\<lambda>_.
     bind_res (py_iter (dget_or spec ''sources'' (JList []))) (\<lambda>ss.
     bind_res (map_res (read_form U) ss) (\<lambda>forms.
     bind_res (map_res (validate_source R U) forms) (\<lambda>_.
     bind_res (py_iter (dget_or spec ''configurations'' (JList []))) (\<lambda>cs.
     bind_res (map_res (\<lambda>c. case c of JObj d \<Rightarrow> Inr d | _ \<Rightarrow> Inl (PyError ''ValueError'')) cs) (\<lambda>docs.
     Inr (ds, forms, docs))))))))"

section \<open>Import\<close>

record import_counts =
  im_domains :: nat
  im_sources :: nat
  im_configurations :: nat
  im_unchanged :: nat

definition nothing_imported :: import_counts where
  "nothing_imported = \<lparr>im_domains = 0, im_sources = 0, im_configurations = 0, im_unchanged = 0\<rparr>"

definition put_domain :: "string \<Rightarrow> string \<Rightarrow> dict \<Rightarrow> domain_row \<Rightarrow> domain_row" where
  "put_domain name mode def d = d\<lparr>dm_name := name, dm_mode := mode, dm_definition := def\<rparr>"

definition import_domain ::
    "runtime \<Rightarrow> service \<Rightarrow> bool \<Rightarrow> json \<Rightarrow> import_counts \<times> db \<Rightarrow> (import_counts \<times> db) res" where
  "import_domain R sv replace item st =
     (case st of (n, s) \<Rightarrow>
        bind_res (compile_item R item) (\<lambda>p.
        bind_res (item_dict item) (\<lambda>d.
        bind_res (bind_res (dindex d ''key'') as_str) (\<lambda>key.
        case find_domain sv key s of
          Some old \<Rightarrow>
            if py_eq (JObj (dm_definition old)) (JObj (stored_definition p))
            then Inr (n\<lparr>im_unchanged := im_unchanged n + 1\<rparr>, s)
            else
              bind_res (guard_res replace (HTTPException 409 ''domain_conflict'')) (\<lambda>_.
              bind_res (bind_res (dindex d ''name'') as_str) (\<lambda>name.
              bind_res (bind_res (dindex d ''mode'') as_str) (\<lambda>mode.
              Inr (n\<lparr>im_domains := im_domains n + 1\<rparr>,
                   s\<lparr>domains := row_modify dm_id (dm_id old) (put_domain name mode (stored_definition p)) (domains s)\<rparr>))))
        | None \<Rightarrow>
            bind_res (bind_res (dindex d ''name'') as_str) (\<lambda>name.
            bind_res (bind_res (dindex d ''mode'') as_str) (\<lambda>mode.
            bind_res (create_domain R sv key name mode (stored_definition p) s) (\<lambda>(_, s1).
            Inr (n\<lparr>im_domains := im_domains n + 1\<rparr>, s1))))))))"

definition same_form :: "source_form \<Rightarrow> source_row \<Rightarrow> bool" where
  "same_form f c \<longleftrightarrow> sc_key c = sf_key f \<and> sc_name c = sf_name f \<and> sc_kind c = sf_kind f \<and>
     sc_priority c = sf_priority f \<and> py_eq (JObj (sc_capabilities c)) (JObj (sf_capabilities f)) \<and>
     py_eq (JObj (sc_config c)) (JObj (sf_config f))"

definition import_source ::
    "runtime \<Rightarrow> service \<Rightarrow> bool \<Rightarrow> source_form \<Rightarrow> import_counts \<times> db \<Rightarrow> (import_counts \<times> db) res" where
  "import_source R sv replace f st =
     (case st of (n, s) \<Rightarrow>
        (case find_source sv (sf_key f) s of
           Some c \<Rightarrow>
             if same_form f c then Inr (n\<lparr>im_unchanged := im_unchanged n + 1\<rparr>, s)
             else bind_res (guard_res replace (HTTPException 409 ''source_conflict'')) (\<lambda>_.
               Inr (n\<lparr>im_sources := im_sources n + 1\<rparr>,
                    s\<lparr>sources := row_modify sc_id (sc_id c) (put_form f) (sources s)\<rparr>))
         | None \<Rightarrow> Inr (n\<lparr>im_sources := im_sources n + 1\<rparr>, snd (add_source R sv f s))))"

definition import_configuration ::
    "runtime \<Rightarrow> service \<Rightarrow> dict \<Rightarrow> import_counts \<times> db \<Rightarrow> (import_counts \<times> db) res" where
  "import_configuration R sv document st =
     (case st of (n, s) \<Rightarrow>
        if \<exists>c \<in> set (configurations s). cv_ws c = wid sv \<and> py_eq (JObj (cv_document c)) (JObj document)
        then Inr (n\<lparr>im_unchanged := im_unchanged n + 1\<rparr>, s)
        else bind_res (create_config R sv document s) (\<lambda>(_, s1).
          Inr (n\<lparr>im_configurations := im_configurations n + 1\<rparr>, s1)))"

definition imported_json :: "import_counts \<Rightarrow> json" where
  "imported_json n = JObj [(''domains'', JInt (int (im_domains n))), (''sources'', JInt (int (im_sources n))),
     (''configurations'', JInt (int (im_configurations n))), (''unchanged'', JInt (int (im_unchanged n)))]"

definition import_bundle ::
    "runtime \<Rightarrow> parsers \<Rightarrow> service \<Rightarrow> bool \<Rightarrow> dict \<Rightarrow> import_counts op" where
  "import_bundle R U sv replace bundle s =
     bind_res (guard_res (dget bundle ''apiVersion'' = JStr ''recordlane.io/v1alpha1'' \<and>
         dget bundle ''kind'' = JStr ''WorkspaceBundle'') (HTTPException 422 ''invalid_workspace_bundle'')) (\<lambda>_.
     bind_res (case dget bundle ''spec'' of JObj d \<Rightarrow> Inr d | _ \<Rightarrow> Inl (HTTPException 422 ''invalid_workspace_bundle'')) (\<lambda>spec.
     bind_res (catch_bundle (check_bundle R U spec)) (\<lambda>(ds, forms, docs).
     bind_res (fold_res (import_domain R sv replace) ds (nothing_imported, s)) (\<lambda>st1.
     bind_res (fold_res (import_source R sv replace) forms st1) (\<lambda>st2.
     bind_res (fold_res (import_configuration R sv) docs st2) (\<lambda>(n, s3).
     Inr (n, audit R sv ''workspace_bundle.imported'' ''workspace'' (wid sv) (imported_json n) s3)))))))"

text \<open>
  The request: another workspace may be named by an administrator, whose principal is then taken to
  that workspace with its roles and without its scopes.
\<close>

definition service_of :: "principal \<Rightarrow> db \<Rightarrow> service res" where
  "service_of p s =
     bind_res (from_option (HTTPException 403 ''workspace_not_found'')
       (find (\<lambda>w. ws_id w = pr_ws p \<or> ws_slug w = pr_ws p) (workspaces s))) (\<lambda>w.
     Inr \<lparr>wid = ws_id w, subject = pr_subject p, roles = pr_roles p\<rparr>)"

definition import_service :: "principal \<Rightarrow> string option \<Rightarrow> db \<Rightarrow> service res" where
  "import_service p target s =
     bind_res (open_service p ''model:write'' s) (\<lambda>sv.
     if truthy_str target then
       bind_res (guard_res (allows p ''*'') (HTTPException 403 ''administrator_required'')) (\<lambda>_.
       service_of (p\<lparr>pr_ws := the target, pr_scopes := None\<rparr>) s)
     else Inr sv)"

definition import_workspace_bundle ::
    "runtime \<Rightarrow> parsers \<Rightarrow> principal \<Rightarrow> string option \<Rightarrow> bool \<Rightarrow> dict \<Rightarrow> import_counts op" where
  "import_workspace_bundle R U p target replace bundle s =
     bind_res (import_service p target s) (\<lambda>sv. import_bundle R U sv replace bundle s)"

section \<open>What can be exported\<close>

text \<open>
  A domain that compilation has settled: its definition is what its policy is stored as, in the mode
  of the domain. Domain creation leaves it so; the activation of a configuration that says nothing of
  the mode does not (below).
\<close>

definition settled_domain :: "runtime \<Rightarrow> domain_row \<Rightarrow> bool" where
  "settled_domain R d \<longleftrightarrow>
     (\<exists>def p. compile_policy R def = Inr p \<and> pol_mode p = JStr (dm_mode d) \<and>
        stored_definition p = dm_definition d) \<and> wf_json (JObj (dm_definition d))"

definition settled_source :: "runtime \<Rightarrow> parsers \<Rightarrow> source_row \<Rightarrow> bool" where
  "settled_source R U c \<longleftrightarrow>
     form_fits (form_of c) \<and> validate_source R U (form_of c) = Inr () \<and>
     wf_json (JObj (sc_capabilities c)) \<and> wf_json (JObj (sc_config c))"

definition exportable :: "runtime \<Rightarrow> parsers \<Rightarrow> service \<Rightarrow> db \<Rightarrow> bool" where
  "exportable R U sv s \<longleftrightarrow>
     (\<forall>d \<in> set (own_domains sv s). settled_domain R d) \<and> distinct (map dm_key (own_domains sv s)) \<and>
     (\<forall>c \<in> set (own_sources sv s). settled_source R U c) \<and> distinct (map sc_key (own_sources sv s)) \<and>
     (\<forall>c \<in> set (own_configurations sv s). wf_json (JObj (cv_document c)))"

lemma item_look:
  "item_dict (domain_item d) = Inr [(''key'', JStr (dm_key d)), (''name'', JStr (dm_name d)), (''mode'', JStr (dm_mode d)),
     (''definition'', JObj (dm_definition d))]"
  by (simp add: domain_item_def item_dict_def)

lemma item_fields:
  "bind_res (dindex [(''key'', JStr k), (''name'', JStr n), (''mode'', JStr m), (''definition'', JObj e)] ''key'') as_str = Inr k"
  "bind_res (dindex [(''key'', JStr k), (''name'', JStr n), (''mode'', JStr m), (''definition'', JObj e)] ''name'') as_str = Inr n"
  "bind_res (dindex [(''key'', JStr k), (''name'', JStr n), (''mode'', JStr m), (''definition'', JObj e)] ''mode'') as_str = Inr m"
  by (simp_all add: dindex_def as_str_def)

lemma compile_item_settled:
  assumes "settled_domain R d"
  shows "\<exists>q. compile_item R (domain_item d) = Inr q \<and> stored_definition q = dm_definition d \<and> pol_mode q = JStr (dm_mode d)"
proof -
  from assms obtain def p where p: "compile_policy R def = Inr p" "pol_mode p = JStr (dm_mode d)" "stored_definition p = dm_definition d"
    unfolding settled_domain_def by blast
  have "compile_item R (domain_item d) = compile_policy R (dict_merge (stored_definition p) [(''mode'', JStr (dm_mode d))])"
    unfolding compile_item_def item_look by (simp add: dindex_def item_dict_def p(3))
  moreover obtain q where q: "compile_policy R (dict_merge (stored_definition p) [(''mode'', JStr (dm_mode d))]) = Inr q"
    "stored_definition q = stored_definition p"
    using recompile [OF p(1,2)] by blast
  moreover have "pol_mode q = JStr (dm_mode d)"
  proof -
    have "map_of (stored_definition q) ''mode'' = map_of (stored_definition p) ''mode''" using q(2) by simp
    then have "canon (pol_mode q) = canon (pol_mode p)" by (simp add: stored_definition_dict policy_lookups)
    with p(2) show ?thesis by simp
  qed
  ultimately show ?thesis using p(3) by auto
qed

lemma read_form_source:
  assumes "settled_source R U c" "\<And>i. read_int U (JInt i) = Some i"
  shows "read_form U (source_item c) = Inr (form_of c)"
  using assms(1)
  by (simp add: read_form_def source_item_def string_field_def dict_field_def dget_or_def assms(2) Let_def
      settled_source_def form_of_def)

lemma check_bundle_own:
  assumes "exportable R U sv s" "\<And>i. read_int U (JInt i) = Some i"
  shows "check_bundle R U (bundle_spec sv s) = Inr (map domain_item (own_domains sv s),
    map form_of (own_sources sv s), map cv_document (own_configurations sv s))"
proof -
  let ?ds = "own_domains sv s" and ?ss = "own_sources sv s" and ?cs = "own_configurations sv s"
  obtain ps where "map_res (compile_item R) (map domain_item ?ds) = Inr ps"
    using map_res_total [of "map domain_item ?ds" "compile_item R"] compile_item_settled assms(1)
    by (force simp: exportable_def)
  moreover have "map_res (read_form U) (map source_item ?ss) = Inr (map form_of ?ss)"
    using assms(1) by (intro map_res_images read_form_source [where R = R] assms(2)) (simp only: exportable_def)
  moreover have "map_res (validate_source R U) (map form_of ?ss) = Inr (map (\<lambda>_. ()) ?ss)"
    using assms(1) by (intro map_res_images) (simp add: exportable_def settled_source_def)
  moreover have "map_res (\<lambda>c. case c of JObj d \<Rightarrow> Inr d | _ \<Rightarrow> Inl (PyError ''ValueError'')) (map (\<lambda>c. JObj (cv_document c)) ?cs) = Inr (map cv_document ?cs)"
    by (intro map_res_images) simp
  ultimately show ?thesis
    by (simp add: check_bundle_def bundle_spec_def dget_or_def py_iter_def)
qed

text \<open>Steps that change nothing but one counter.\<close>

lemma fold_res_unchanged:
  "(\<And>x n. x \<in> set xs \<Longrightarrow> f x (n, s) = Inr (n\<lparr>im_unchanged := im_unchanged n + 1\<rparr>, s)) \<Longrightarrow>
   fold_res f xs (n, s) = Inr (n\<lparr>im_unchanged := im_unchanged n + length xs\<rparr>, s)"
  by (induction xs arbitrary: n) simp_all

lemma find_own_domain:
  assumes "d \<in> set (own_domains sv s)" "distinct (map dm_key (own_domains sv s))"
  shows "find_domain sv (dm_key d) s = Some d"
proof -
  from assms(1) have d: "d \<in> set (domains s)" "dm_ws d = wid sv" by (simp_all add: own_domains_def)
  show ?thesis
  proof (cases "find_domain sv (dm_key d) s")
    case None
    with d show ?thesis unfolding find_domain_def by (auto dest: find_NoneD)
  next
    case (Some e)
    then have "e \<in> set (own_domains sv s)" "dm_key e = dm_key d"
      by (auto simp: find_domain_def own_domains_def dest: find_SomeD)
    with assms Some show ?thesis by (simp add: distinct_map inj_on_def)
  qed
qed

lemma find_own_source:
  assumes "c \<in> set (own_sources sv s)" "distinct (map sc_key (own_sources sv s))"
  shows "find_source sv (sc_key c) s = Some c"
proof -
  from assms(1) have c: "c \<in> set (sources s)" "sc_ws c = wid sv" by (simp_all add: own_sources_def)
  show ?thesis
  proof (cases "find_source sv (sc_key c) s")
    case None
    from find_source_None [OF None c] show ?thesis by simp
  next
    case (Some e)
    from find_source_Some [OF Some] have "e \<in> set (own_sources sv s)" "sc_key e = sc_key c"
      by (simp_all add: own_sources_def)
    with assms Some show ?thesis by (simp add: distinct_map inj_on_def)
  qed
qed

lemma import_own_domain:
  assumes "exportable R U sv s" "d \<in> set (own_domains sv s)"
  shows "import_domain R sv replace (domain_item d) (n, s) = Inr (n\<lparr>im_unchanged := im_unchanged n + 1\<rparr>, s)"
proof -
  from assms have sd: "settled_domain R d" by (simp add: exportable_def)
  from compile_item_settled [OF this] obtain q
    where q: "compile_item R (domain_item d) = Inr q" "stored_definition q = dm_definition d" by blast
  have f: "find_domain sv (dm_key d) s = Some d"
    using assms by (intro find_own_domain) (simp_all add: exportable_def)
  have "py_eq (JObj (dm_definition d)) (JObj (dm_definition d))"
    using sd by (intro py_eq_refl) (simp only: settled_domain_def)
  then show ?thesis
    unfolding import_domain_def item_look prod.case q bind_res_simps item_fields f option.case by (rule if_P)
qed

lemma import_own_source:
  assumes "exportable R U sv s" "c \<in> set (own_sources sv s)"
  shows "import_source R sv replace (form_of c) (n, s) = Inr (n\<lparr>im_unchanged := im_unchanged n + 1\<rparr>, s)"
proof -
  from assms have "settled_source R U c" by (simp add: exportable_def)
  then have "same_form (form_of c) c"
    unfolding settled_source_def same_form_def form_of_def by (simp only: py_eq_refl source_form.select_convs simp_thms)
  moreover have "find_source sv (sf_key (form_of c)) s = Some c"
    using assms find_own_source [of c sv s] by (simp add: exportable_def form_of_def)
  ultimately show ?thesis by (simp add: import_source_def)
qed

lemma import_own_configuration:
  assumes "exportable R U sv s" "c \<in> set (own_configurations sv s)"
  shows "import_configuration R sv (cv_document c) (n, s) = Inr (n\<lparr>im_unchanged := im_unchanged n + 1\<rparr>, s)"
proof -
  from assms have "py_eq (JObj (cv_document c)) (JObj (cv_document c))"
    by (intro py_eq_refl) (simp only: exportable_def)
  moreover from assms(2) have "c \<in> set (configurations s)" "cv_ws c = wid sv" by (simp_all add: own_configurations_def)
  ultimately have "\<exists>c' \<in> set (configurations s). cv_ws c' = wid sv \<and> py_eq (JObj (cv_document c')) (JObj (cv_document c))"
    by blast
  then show ?thesis unfolding import_configuration_def prod.case by (rule if_P)
qed

lemma fold_res_map_unchanged:
  assumes "\<And>x n. x \<in> set xs \<Longrightarrow> f (g x) (n, s) = Inr (n\<lparr>im_unchanged := im_unchanged n + 1\<rparr>, s)"
  shows "fold_res f (map g xs) (n, s) = Inr (n\<lparr>im_unchanged := im_unchanged n + length xs\<rparr>, s)"
  using fold_res_unchanged [where xs = "map g xs" and f = f and s = s and n = n] assms by auto

lemma bundle_look:
  "dget (export_bundle sv s) ''apiVersion'' = JStr ''recordlane.io/v1alpha1''"
  "dget (export_bundle sv s) ''kind'' = JStr ''WorkspaceBundle''" "dget (export_bundle sv s) ''spec'' = JObj (bundle_spec sv s)"
  by (simp_all add: export_bundle_def dget_def)

lemma import_own_bundle:
  assumes "exportable R U sv s" "\<And>i. read_int U (JInt i) = Some i"
  shows "import_bundle R U sv replace (export_bundle sv s) s =
    (let n = nothing_imported\<lparr>im_unchanged := length (own_domains sv s) + length (own_sources sv s) + length (own_configurations sv s)\<rparr>
     in Inr (n, audit R sv ''workspace_bundle.imported'' ''workspace'' (wid sv) (imported_json n) s))"
proof -
  have d: "fold_res (import_domain R sv replace) (map domain_item (own_domains sv s)) (n, s) =
      Inr (n\<lparr>im_unchanged := im_unchanged n + length (own_domains sv s)\<rparr>, s)" for n
    by (rule fold_res_map_unchanged) (rule import_own_domain [OF assms(1)])
  have c: "fold_res (import_source R sv replace) (map form_of (own_sources sv s)) (n, s) =
      Inr (n\<lparr>im_unchanged := im_unchanged n + length (own_sources sv s)\<rparr>, s)" for n
    by (rule fold_res_map_unchanged) (rule import_own_source [OF assms(1)])
  have f: "fold_res (import_configuration R sv) (map cv_document (own_configurations sv s)) (n, s) =
      Inr (n\<lparr>im_unchanged := im_unchanged n + length (own_configurations sv s)\<rparr>, s)" for n
    by (rule fold_res_map_unchanged) (rule import_own_configuration [OF assms(1)])
  have "catch_bundle (check_bundle R U (bundle_spec sv s)) = Inr (map domain_item (own_domains sv s),
      map form_of (own_sources sv s), map cv_document (own_configurations sv s))"
    by (simp add: check_bundle_own [OF assms] catch_bundle_def)
  then show ?thesis
    by (simp add: import_bundle_def bundle_look guard_res_def d c f nothing_imported_def Let_def)
qed

section \<open>Import into an empty workspace\<close>

definition empty_workspace :: "service \<Rightarrow> db \<Rightarrow> bool" where
  "empty_workspace sv s \<longleftrightarrow> (\<forall>d \<in> set (domains s). dm_ws d \<noteq> wid sv) \<and>
     (\<forall>c \<in> set (sources s). sc_ws c \<noteq> wid sv) \<and> (\<forall>c \<in> set (configurations s). cv_ws c \<noteq> wid sv)"

text \<open>What an import has done so far: the rows of the target, in order.\<close>

definition domain_content :: "domain_row \<Rightarrow> string \<times> string \<times> string \<times> dict" where
  "domain_content d = (dm_key d, dm_name d, dm_mode d, dm_definition d)"

definition target_domains :: "service \<Rightarrow> db \<Rightarrow> domain_row list" where
  "target_domains sv s = filter (\<lambda>d. dm_ws d = wid sv) (domains s)"

definition target_sources :: "service \<Rightarrow> db \<Rightarrow> source_row list" where
  "target_sources sv s = filter (\<lambda>c. sc_ws c = wid sv) (sources s)"

definition target_configurations :: "service \<Rightarrow> db \<Rightarrow> configuration list" where
  "target_configurations sv s = filter (\<lambda>c. cv_ws c = wid sv) (configurations s)"

lemma domain_item_content: "domain_content d = domain_content e \<Longrightarrow> domain_item d = domain_item e"
  by (simp add: domain_content_def domain_item_def)

lemma source_item_form: "form_of c = form_of e \<Longrightarrow> source_item c = source_item e"
  by (simp add: form_of_def source_item_def)

lemma audit_tables [simp]:
  "domains (audit R sv a ty i d s) = domains s" "configurations (audit R sv a ty i d s) = configurations s"
  by (simp_all add: audit_def Let_def)

lemma import_new_domain:
  assumes "settled_domain R d" "dm_key d \<notin> dm_key ` set (target_domains sv s)"
  obtains t where "import_domain R sv replace (domain_item d) (n, s) = Inr (n\<lparr>im_domains := im_domains n + 1\<rparr>, t)"
    "map domain_content (target_domains sv t) = map domain_content (target_domains sv s) @ [domain_content d]"
    "sources t = sources s" "configurations t = configurations s"
proof -
  from compile_item_settled [OF assms(1)] obtain q where q: "compile_item R (domain_item d) = Inr q"
    "stored_definition q = dm_definition d" "pol_mode q = JStr (dm_mode d)" by blast
  have none: "find_domain sv (dm_key d) s = None"
    using assms(2) by (auto simp: find_domain_def find_None_iff target_domains_def image_iff)
  have "compile_policy R (dict_merge (stored_definition q) [(''mode'', JStr (dm_mode d))]) = Inr q"
    using q(1) unfolding compile_item_def item_look by (simp add: dindex_def item_dict_def q(2))
  then have "\<exists>x t. create_domain R sv (dm_key d) (dm_name d) (dm_mode d) (stored_definition q) s = Inr (x, t) \<and>
      dm_ws x = wid sv \<and> domain_content x = domain_content d \<and> domains t = domains s @ [x] \<and>
      sources t = sources s \<and> configurations t = configurations s"
    by (simp add: create_domain_def none guard_res_def catch_policy_def Let_def domain_content_def q(2) row_add_def)
  then obtain x t where c: "create_domain R sv (dm_key d) (dm_name d) (dm_mode d) (stored_definition q) s = Inr (x, t)"
    and x: "dm_ws x = wid sv" "domain_content x = domain_content d" "domains t = domains s @ [x]"
    "sources t = sources s" "configurations t = configurations s" by blast
  have "import_domain R sv replace (domain_item d) (n, s) = Inr (n\<lparr>im_domains := im_domains n + 1\<rparr>, t)"
    unfolding import_domain_def item_look prod.case q(1) bind_res_simps item_fields none option.case c ..
  with x show thesis by (intro that [of t]) (simp_all add: target_domains_def)
qed

lemma import_new_domains:
  assumes "\<forall>d \<in> set ds. settled_domain R d" "distinct (map dm_key ds)"
    "\<forall>d \<in> set ds. dm_key d \<notin> dm_key ` set (target_domains sv s)"
  shows "\<exists>t. fold_res (import_domain R sv replace) (map domain_item ds) (n, s) =
      Inr (n\<lparr>im_domains := im_domains n + length ds\<rparr>, t) \<and>
    map domain_content (target_domains sv t) = map domain_content (target_domains sv s) @ map domain_content ds \<and>
    sources t = sources s \<and> configurations t = configurations s"
  using assms
proof (induction ds arbitrary: n s)
  case (Cons d ds)
  from Cons.prems have "settled_domain R d" "dm_key d \<notin> dm_key ` set (target_domains sv s)" by simp_all
  from import_new_domain [OF this, of replace n] obtain t
    where t: "import_domain R sv replace (domain_item d) (n, s) = Inr (n\<lparr>im_domains := im_domains n + 1\<rparr>, t)"
      "map domain_content (target_domains sv t) = map domain_content (target_domains sv s) @ [domain_content d]"
      "sources t = sources s" "configurations t = configurations s" .
  have "dm_key = fst \<circ> domain_content" by (simp add: fun_eq_iff domain_content_def)
  then have "dm_key ` set (target_domains sv t) = fst ` set (map domain_content (target_domains sv t))"
    by (simp add: image_comp)
  also have "\<dots> = insert (dm_key d) (dm_key ` set (target_domains sv s))"
    unfolding t(2) by (auto simp: domain_content_def image_image)
  finally have keys: "dm_key ` set (target_domains sv t) = insert (dm_key d) (dm_key ` set (target_domains sv s))" .
  have "\<forall>e \<in> set ds. dm_key e \<notin> dm_key ` set (target_domains sv t)"
    unfolding keys using Cons.prems(2,3) by (auto simp: image_iff)
  with Cons.IH [of t "n\<lparr>im_domains := im_domains n + 1\<rparr>"] Cons.prems(1,2) obtain u
    where "fold_res (import_domain R sv replace) (map domain_item ds) (n\<lparr>im_domains := im_domains n + 1\<rparr>, t) =
        Inr (n\<lparr>im_domains := im_domains n + 1 + length ds\<rparr>, u)"
      "map domain_content (target_domains sv u) = map domain_content (target_domains sv t) @ map domain_content ds"
      "sources u = sources t" "configurations u = configurations t" by auto
  with t show ?case by simp
qed simp

lemma find_source_new: "f \<notin> sc_key ` set (target_sources sv s) \<Longrightarrow> find_source sv f s = None"
  by (auto simp: find_source_def find_None_iff target_sources_def image_iff)

lemma import_new_sources:
  assumes "distinct (map sf_key fs)" "\<forall>f \<in> set fs. sf_key f \<notin> sc_key ` set (target_sources sv s)"
  shows "\<exists>t. fold_res (import_source R sv replace) fs (n, s) = Inr (n\<lparr>im_sources := im_sources n + length fs\<rparr>, t) \<and>
    map form_of (target_sources sv t) = map form_of (target_sources sv s) @ fs \<and>
    domains t = domains s \<and> configurations t = configurations s"
  using assms
proof (induction fs arbitrary: n s)
  case (Cons f fs)
  let ?t = "snd (add_source R sv f s)"
  have none: "find_source sv (sf_key f) s = None" using Cons.prems by (intro find_source_new) simp
  have rows: "target_sources sv ?t = target_sources sv s @ [new_source R sv f s]"
    "domains ?t = domains s" "configurations ?t = configurations s"
    by (simp_all add: add_source_def Let_def target_sources_def row_add_def)
  have "\<forall>g \<in> set fs. sf_key g \<notin> sc_key ` set (target_sources sv ?t)"
    using Cons.prems by (auto simp: rows image_iff)
  with Cons.IH [of ?t "n\<lparr>im_sources := im_sources n + 1\<rparr>"] Cons.prems(1) obtain u
    where "fold_res (import_source R sv replace) fs (n\<lparr>im_sources := im_sources n + 1\<rparr>, ?t) =
        Inr (n\<lparr>im_sources := im_sources n + 1 + length fs\<rparr>, u)"
      "map form_of (target_sources sv u) = map form_of (target_sources sv ?t) @ fs"
      "domains u = domains ?t" "configurations u = configurations ?t" by auto
  moreover have "import_source R sv replace f (n, s) = Inr (n\<lparr>im_sources := im_sources n + 1\<rparr>, ?t)"
    by (simp add: import_source_def none)
  moreover have "form_of (new_source R sv f s) = f"
    by (simp add: new_source_def form_of_def put_form_def)
  ultimately show ?case by (simp add: rows)
qed simp

text \<open>The policies a configuration document stands for depend on the keys and definitions of the domains.\<close>

lemma configuration_policies_cong:
  assumes "\<And>k. map_option dm_definition (find_domain sv k s) = map_option dm_definition (find_domain sv' k t)"
  shows "configuration_policies R sv doc s = configuration_policies R sv' doc t"
proof -
  have known: "known_domain sv s = known_domain sv' t"
  proof
    show "known_domain sv s k = known_domain sv' t k" for k
      using assms [of k] by (cases "find_domain sv k s"; cases "find_domain sv' k t") (simp_all add: known_domain_def)
  qed
  have preview: "preview_policies R sv doc s = preview_policies R sv' doc t"
    using assms [of "''supplier''"]
    by (cases "find_domain sv ''supplier'' s"; cases "find_domain sv' ''supplier'' t")
      (simp_all add: preview_policies_def cong: json.case_cong)
  show ?thesis
    by (simp add: configuration_policies_def pack_policies_def mapping_policies_def known preview cong: json.case_cong)
qed

lemma import_new_configurations:
  assumes "\<forall>doc \<in> set docs. check_secrets doc = Inr () \<and> (\<exists>ps. configuration_policies R sv doc s = Inr ps)"
    and "sorted_wrt (\<lambda>a b. \<not> py_eq (JObj a) (JObj b)) docs"
    and "\<forall>doc \<in> set docs. \<forall>c \<in> set (target_configurations sv s). \<not> py_eq (JObj (cv_document c)) (JObj doc)"
    and "sorted_wrt (<) (map cv_version (target_configurations sv s))"
  shows "\<exists>t. fold_res (import_configuration R sv) docs (n, s) =
      Inr (n\<lparr>im_configurations := im_configurations n + length docs\<rparr>, t) \<and>
    map cv_document (target_configurations sv t) = map cv_document (target_configurations sv s) @ docs \<and>
    sorted_wrt (<) (map cv_version (target_configurations sv t)) \<and>
    domains t = domains s \<and> sources t = sources s"
  using assms
proof (induction docs arbitrary: n s)
  case (Cons doc docs)
  from Cons.prems(1) obtain ps where ps: "configuration_policies R sv doc s = Inr ps" "check_secrets doc = Inr ()" by auto
  have new: "\<not> (\<exists>c \<in> set (configurations s). cv_ws c = wid sv \<and> py_eq (JObj (cv_document c)) (JObj doc))"
    using Cons.prems(3) by (auto simp: target_configurations_def)
  have "\<exists>c t. create_config R sv doc s = Inr (c, t) \<and> cv_ws c = wid sv \<and> cv_document c = doc \<and>
      cv_version c = next_config_version sv s \<and> configurations t = configurations s @ [c] \<and>
      domains t = domains s \<and> sources t = sources s"
    by (simp add: create_config_def ps catch_policy_def Let_def row_add_def)
  then obtain c t where c: "create_config R sv doc s = Inr (c, t)"
    and cf: "cv_ws c = wid sv" "cv_document c = doc" "cv_version c = next_config_version sv s"
    and t: "configurations t = configurations s @ [c]" "domains t = domains s" "sources t = sources s" by blast
  have rows: "target_configurations sv t = target_configurations sv s @ [c]"
    by (simp add: target_configurations_def t cf)
  have later: "cv_version b < cv_version c" if "b \<in> set (target_configurations sv s)" for b
  proof -
    from that obtain m where m: "latest cv_version (target_configurations sv s) = Some m"
      by (cases "latest cv_version (target_configurations sv s)") auto
    from latest_max [OF m that] m show ?thesis
      by (simp add: cf next_config_version_def target_configurations_def)
  qed
  have "find_domain sv k t = find_domain sv k s" for k by (simp add: find_domain_def t)
  then have "configuration_policies R sv d t = configuration_policies R sv d s" for d
    by (intro configuration_policies_cong) simp
  with Cons.prems(1) have "\<forall>d \<in> set docs. check_secrets d = Inr () \<and> (\<exists>ps. configuration_policies R sv d t = Inr ps)" by simp
  moreover have "sorted_wrt (\<lambda>a b. \<not> py_eq (JObj a) (JObj b)) docs" using Cons.prems(2) by simp
  moreover have "\<forall>d \<in> set docs. \<forall>c \<in> set (target_configurations sv t). \<not> py_eq (JObj (cv_document c)) (JObj d)"
    using Cons.prems(2,3) by (auto simp: rows cf)
  moreover have "sorted_wrt (<) (map cv_version (target_configurations sv t))"
    using Cons.prems(4) later by (simp add: rows sorted_wrt_append)
  ultimately obtain u where
    "fold_res (import_configuration R sv) docs (n\<lparr>im_configurations := im_configurations n + 1\<rparr>, t) =
      Inr (n\<lparr>im_configurations := im_configurations n + 1 + length docs\<rparr>, u)"
    "map cv_document (target_configurations sv u) = map cv_document (target_configurations sv t) @ docs"
    "sorted_wrt (<) (map cv_version (target_configurations sv u))" "domains u = domains t" "sources u = sources t"
    using Cons.IH [of t "n\<lparr>im_configurations := im_configurations n + 1\<rparr>"] by auto
  moreover have "import_configuration R sv doc (n, s) = Inr (n\<lparr>im_configurations := im_configurations n + 1\<rparr>, t)"
    unfolding import_configuration_def prod.case if_not_P [OF new] c bind_res_simps ..
  ultimately show ?case by (simp add: rows cf t)
qed simp


lemma own_target:
  "own_domains sv s = sort_key dm_key (target_domains sv s)"
  "own_sources sv s = sort_key sc_key (target_sources sv s)"
  "own_configurations sv s = sort_key cv_version (target_configurations sv s)"
  by (simp_all add: own_domains_def own_sources_def own_configurations_def target_domains_def
      target_sources_def target_configurations_def)

lemma find_domain_content:
  "map_option dm_definition (find_domain sv k s) =
     map_option (\<lambda>(_, _, e). e) (map_of (map domain_content (target_domains sv s)) k)"
proof -
  have "map_option dm_definition (find (\<lambda>d. dm_ws d = wid sv \<and> dm_key d = k) ds) =
     map_option (\<lambda>(_, _, e). e) (map_of (map domain_content (filter (\<lambda>d. dm_ws d = wid sv) ds)) k)" for ds
    by (induction ds) (simp_all add: domain_content_def)
  then show ?thesis by (simp add: find_domain_def target_domains_def)
qed

lemma same_contents_same_definitions:
  assumes "map domain_content (target_domains sv' t) = map domain_content (own_domains sv s)"
    "distinct (map dm_key (own_domains sv s))"
  shows "map_option dm_definition (find_domain sv k s) = map_option dm_definition (find_domain sv' k t)"
proof -
  have keys: "map fst (map domain_content ds) = map dm_key ds" for ds
    by (simp add: domain_content_def)
  have "distinct (map dm_key (target_domains sv s))"
    using assms(2) by (simp add: own_target distinct_map)
  then have "map_of (map domain_content (target_domains sv s)) = map_of (map domain_content (own_domains sv s))"
    using assms(2) by (subst map_of_inject_set) (simp_all only: keys, simp add: own_target)
  then show ?thesis by (simp add: find_domain_content assms(1))
qed

text \<open>A workspace whose configurations can be created anew: no document is given twice.\<close>

definition recreatable :: "runtime \<Rightarrow> service \<Rightarrow> db \<Rightarrow> bool" where
  "recreatable R sv s \<longleftrightarrow>
     (\<forall>c \<in> set (own_configurations sv s).
        check_secrets (cv_document c) = Inr () \<and> (\<exists>ps. configuration_policies R sv (cv_document c) s = Inr ps)) \<and>
     sorted_wrt (\<lambda>a b. \<not> py_eq (JObj a) (JObj b)) (map cv_document (own_configurations sv s))"

lemma map_factor:
  assumes "map f xs = map f ys" "\<And>x y. f x = f y \<Longrightarrow> g x = g y"
  shows "map g xs = map g ys"
  using map_eq_imp_length_eq [OF assms(1)] assms(1)
  by (induction xs ys rule: list_induct2) (auto intro: assms(2))

lemma same_bundle_spec:
  assumes "map domain_content (target_domains sv' u) = map domain_content (own_domains sv s)"
    "map form_of (target_sources sv' u) = map form_of (own_sources sv s)"
    "map cv_document (target_configurations sv' u) = map cv_document (own_configurations sv s)"
    "sorted (map cv_version (target_configurations sv' u))"
  shows "bundle_spec sv' u = bundle_spec sv s"
proof -
  have keys: "map dm_key ds = map fst (map domain_content ds)" "map sc_key ss = map sf_key (map form_of ss)" for ds ss
    by (simp_all add: domain_content_def form_of_def)
  have "sorted (map dm_key (target_domains sv' u))" "sorted (map sc_key (target_sources sv' u))"
    unfolding keys assms(1,2) unfolding keys [symmetric] by (simp_all add: own_target)
  with assms(4) have own: "own_domains sv' u = target_domains sv' u" "own_sources sv' u = target_sources sv' u"
    "own_configurations sv' u = target_configurations sv' u"
    by (simp_all add: own_target sort_key_id_if_sorted)
  have "map domain_item (target_domains sv' u) = map domain_item (own_domains sv s)"
    by (rule map_factor [OF assms(1) domain_item_content])
  moreover have "map source_item (target_sources sv' u) = map source_item (own_sources sv s)"
    by (rule map_factor [OF assms(2) source_item_form])
  moreover have "map (\<lambda>c. JObj (cv_document c)) (target_configurations sv' u) =
      map (\<lambda>c. JObj (cv_document c)) (own_configurations sv s)"
    by (rule map_factor [OF assms(3)]) simp
  ultimately show ?thesis by (simp only: bundle_spec_def own)
qed

lemma import_into_empty:
  assumes ex: "exportable R U sv s" and ints: "\<And>i. read_int U (JInt i) = Some i"
    and re: "recreatable R sv s" and em: "empty_workspace sv' t"
  shows "\<exists>n u. import_bundle R U sv' replace (export_bundle sv s) t = Inr (n, u) \<and> bundle_spec sv' u = bundle_spec sv s \<and>
    im_unchanged n = 0"
proof -
  let ?ds = "own_domains sv s" and ?ss = "own_sources sv s" and ?cs = "own_configurations sv s"
  have none: "target_domains sv' t = []" "target_sources sv' t = []" "target_configurations sv' t = []"
    using em by (simp_all add: empty_workspace_def target_domains_def target_sources_def target_configurations_def)
  obtain t1 where t1: "fold_res (import_domain R sv' replace) (map domain_item ?ds) (nothing_imported, t) =
      Inr (nothing_imported\<lparr>im_domains := im_domains nothing_imported + length ?ds\<rparr>, t1)"
    "map domain_content (target_domains sv' t1) = map domain_content ?ds"
    "sources t1 = sources t" "configurations t1 = configurations t"
    using import_new_domains [where ds = ?ds and R = R and sv = sv' and s = t and replace = replace and n = nothing_imported] ex
    by (auto simp: none exportable_def)
  obtain t2 where t2: "fold_res (import_source R sv' replace) (map form_of ?ss)
      (nothing_imported\<lparr>im_domains := im_domains nothing_imported + length ?ds\<rparr>, t1) =
      Inr (nothing_imported\<lparr>im_domains := im_domains nothing_imported + length ?ds,
        im_sources := im_sources nothing_imported + length ?ss\<rparr>, t2)"
    "map form_of (target_sources sv' t2) = map form_of ?ss" "domains t2 = domains t1" "configurations t2 = configurations t1"
  proof -
    have "map sf_key (map form_of ?ss) = map sc_key ?ss" by (simp add: form_of_def)
    then have "distinct (map sf_key (map form_of ?ss))" unfolding exportable_def using ex by (simp only: exportable_def)
    moreover have "target_sources sv' t1 = []" using none(2) by (simp add: target_sources_def t1(3))
    ultimately show thesis
      using import_new_sources [where fs = "map form_of ?ss" and R = R and sv = sv' and s = t1 and replace = replace
          and n = "nothing_imported\<lparr>im_domains := im_domains nothing_imported + length ?ds\<rparr>"] that by auto
  qed
  have same: "map_option dm_definition (find_domain sv k s) = map_option dm_definition (find_domain sv' k t2)" for k
  proof -
    have "find_domain sv' k t2 = find_domain sv' k t1" by (simp add: find_domain_def t2(3))
    with same_contents_same_definitions [OF t1(2)] ex show ?thesis by (simp add: exportable_def)
  qed
  have docs: "check_secrets doc = Inr () \<and> (\<exists>ps. configuration_policies R sv' doc t2 = Inr ps)"
    if "doc \<in> set (map cv_document ?cs)" for doc
    unfolding configuration_policies_cong [OF same, of R doc, symmetric] using that re
    by (auto simp: recreatable_def simp del: py_eq.simps)
  have none2: "target_configurations sv' t2 = []"
    using none(3) by (simp add: target_configurations_def t2(4) t1(4))
  obtain u m where u: "fold_res (import_configuration R sv') (map cv_document ?cs)
      (nothing_imported\<lparr>im_domains := im_domains nothing_imported + length ?ds,
        im_sources := im_sources nothing_imported + length ?ss\<rparr>, t2) = Inr (m, u)" "im_unchanged m = 0"
    "map cv_document (target_configurations sv' u) = map cv_document ?cs"
    "sorted_wrt (<) (map cv_version (target_configurations sv' u))" "domains u = domains t2" "sources u = sources t2"
    using import_new_configurations [where docs = "map cv_document ?cs" and R = R and sv = sv' and s = t2 and
        n = "nothing_imported\<lparr>im_domains := im_domains nothing_imported + length ?ds, im_sources := im_sources nothing_imported + length ?ss\<rparr>"]
      docs re by (auto simp: none2 recreatable_def nothing_imported_def)
  let ?u = "audit R sv' ''workspace_bundle.imported'' ''workspace'' (wid sv') (imported_json m) u"
  have "import_bundle R U sv' replace (export_bundle sv s) t = Inr (m, ?u)"
    by (simp add: import_bundle_def bundle_look guard_res_def check_bundle_own [OF ex ints] catch_bundle_def t1(1) t2(1) u(1))
  moreover have "bundle_spec sv' ?u = bundle_spec sv s"
  proof (rule same_bundle_spec)
    show "map domain_content (target_domains sv' ?u) = map domain_content ?ds"
      using t1(2) by (simp add: target_domains_def u(5) t2(3))
    show "map form_of (target_sources sv' ?u) = map form_of ?ss"
      using t2(2) by (simp add: target_sources_def u(6))
    show "map cv_document (target_configurations sv' ?u) = map cv_document ?cs"
      using u(3) by (simp add: target_configurations_def)
    show "sorted (map cv_version (target_configurations sv' ?u))"
      using u(4) by (simp add: target_configurations_def strict_sorted_imp_sorted)
  qed
  ultimately show ?thesis using u(2) by blast
qed


section \<open>Guarantees\<close>

text \<open>
  Importing the bundle of a workspace into that workspace changes nothing of it, whether existing
  rows may be replaced or not: every domain, source and configuration is counted as unchanged and the
  state differs by the audit event of the import alone.
\<close>

theorem own_bundle_import_changes_nothing:
  assumes "exportable R U sv s" "\<And>i. read_int U (JInt i) = Some i"
  shows "import_bundle R U sv replace (export_bundle sv s) s =
    (let n = nothing_imported\<lparr>im_unchanged :=
       length (own_domains sv s) + length (own_sources sv s) + length (own_configurations sv s)\<rparr>
     in Inr (n, audit R sv ''workspace_bundle.imported'' ''workspace'' (wid sv) (imported_json n) s))"
  by (rule import_own_bundle [OF assms])

text \<open>
  C40. A bundle rebuilds a workspace: imported into a workspace without domains, sources and
  configurations, the bundle of another is taken in full, and the bundle then exported from the new
  workspace has the same kind and the same domains, sources and configurations, in the same order; only
  its metadata, the name of the source workspace, may differ. The exporting workspace is to be one whose
  domains and sources are as the code settles them (\<open>exportable\<close>) and whose configurations hold no
  secret, compile against its domains and are pairwise different documents (\<open>recreatable\<close>), which fails
  after a configuration was reverted to an earlier one.
\<close>

theorem bundles_rebuild_workspaces:
  assumes "exportable R U sv s" "\<And>i. read_int U (JInt i) = Some i" "recreatable R sv s" "empty_workspace sv' t"
  shows "\<exists>n u. import_bundle R U sv' replace (export_bundle sv s) t = Inr (n, u) \<and>
    bundle_spec sv' u = bundle_spec sv s \<and> im_unchanged n = 0 \<and>
    (\<forall>k. k \<noteq> ''metadata'' \<longrightarrow> map_of (export_bundle sv' u) k = map_of (export_bundle sv s) k)"
proof -
  from import_into_empty [OF assms] obtain n u where
    "import_bundle R U sv' replace (export_bundle sv s) t = Inr (n, u)" "bundle_spec sv' u = bundle_spec sv s" "im_unchanged n = 0"
    by blast
  then show ?thesis by (intro exI [of _ n] exI [of _ u]) (simp add: export_bundle_def)
qed

text \<open>An example: a domain, a file source and a configuration that names the domain.\<close>

definition example_parsers :: parsers where
  "example_parsers = \<lparr>urlparse = (\<lambda>_. None), read_int = (\<lambda>j. case j of JInt i \<Rightarrow> Some i | _ \<Rightarrow> None)\<rparr>"

definition example_source :: source_row where
  "example_source = \<lparr>sc_id = ''s'', sc_ws = ''w'', sc_key = ''vendor-file'', sc_name = ''Vendors'', sc_kind = ''csv'',
     sc_priority = 10, sc_capabilities = [], sc_config = [(''path'', JStr ''/data/vendors.csv'')],
     sc_checkpoint = [], sc_status = ''configured'', sc_last_ingested = None\<rparr>"

definition example_configuration :: configuration where
  "example_configuration = \<lparr>cv_id = ''c'', cv_ws = ''w'', cv_version = 1, cv_status = DraftConfig, cv_checksum = [],
     cv_document = [(''domains'', JObj [(''supplier'', JObj tax_definition)])], cv_by = ''sofia''\<rparr>"

definition example_workspace :: "dict \<Rightarrow> db" where
  "example_workspace def = empty_db\<lparr>
     domains := [\<lparr>dm_id = ''d'', dm_ws = ''w'', dm_key = ''supplier'', dm_name = ''Suppliers'', dm_mode = ''coexistence'',
       dm_schema_version = 1, dm_definition = def, dm_status = ''active''\<rparr>],
     sources := [example_source], configurations := [example_configuration]\<rparr>"

definition example_service :: "string \<Rightarrow> service" where
  "example_service w = \<lparr>wid = w, subject = ''sofia'', roles = [''administrator'']\<rparr>"

lemma example_definition:
  obtains p where "compile_policy ascii_runtime tax_definition = Inr p" "pol_mode p = JStr ''coexistence''"
    "wf_json (JObj (stored_definition p))"
proof -
  have "case compile_document ascii_runtime tax_definition of
      Inr p \<Rightarrow> pol_mode p = JStr ''coexistence'' \<and> wf_json (JObj (stored_definition p)) | _ \<Rightarrow> False"
    by code_simp
  then obtain p where p: "compile_document ascii_runtime tax_definition = Inr p" "pol_mode p = JStr ''coexistence''"
    "wf_json (JObj (stored_definition p))" by (cases "compile_document ascii_runtime tax_definition") auto
  let ?p = "p\<lparr>checksum := canonical_hash ascii_runtime (policy_document p)\<rparr>"
  have "policy_dict ?p = policy_dict p"
    by (simp add: policy_dict_def matching_dict_def threshold_dict_def)
  with p show thesis by (intro that [of ?p]) (simp_all add: compile_policy_def stored_definition_dict)
qed

lemma example_rows:
  "own_domains (example_service ''w'') (example_workspace def) = domains (example_workspace def)"
  "own_sources (example_service ''w'') (example_workspace def) = [example_source]"
  "own_configurations (example_service ''w'') (example_workspace def) = [example_configuration]"
  by (simp_all add: own_domains_def own_sources_def own_configurations_def example_workspace_def example_service_def
      example_source_def example_configuration_def)

lemma example_exportable:
  obtains p where "compile_policy ascii_runtime tax_definition = Inr p"
    "exportable ascii_runtime example_parsers (example_service ''w'') (example_workspace (stored_definition p))"
    "recreatable ascii_runtime (example_service ''w'') (example_workspace (stored_definition p))"
proof -
  obtain p where p: "compile_policy ascii_runtime tax_definition = Inr p" "pol_mode p = JStr ''coexistence''"
    "wf_json (JObj (stored_definition p))" by (rule example_definition)
  let ?s = "example_workspace (stored_definition p)"
  have "settled_domain ascii_runtime d" if "d \<in> set (domains ?s)" for d
    using that p unfolding settled_domain_def by (auto simp: example_workspace_def)
  moreover have "settled_source ascii_runtime example_parsers example_source" by code_simp
  moreover have "wf_json (JObj (cv_document example_configuration))" by code_simp
  ultimately have "exportable ascii_runtime example_parsers (example_service ''w'') ?s"
    unfolding exportable_def example_rows by (simp add: example_workspace_def)
  moreover have "check_secrets (cv_document example_configuration) = Inr ()" by code_simp
  moreover have "configuration_policies ascii_runtime (example_service ''w'') (cv_document example_configuration) ?s =
      Inr [(''supplier'', p)]"
    by (simp add: configuration_policies_def example_configuration_def dget_def mapping_policies_def known_domain_def
        find_domain_def example_workspace_def example_service_def dkeys_def guard_res_def compile_value_def as_dict_def p(1))
  ultimately show thesis using p(1)
    by (intro that [of p]) (simp_all only: recreatable_def example_rows, simp_all)
qed

theorem own_bundle_import_changes_nothing_witness:
  "\<exists>s. length (domains s) = 1 \<and> length (sources s) = 1 \<and> length (configurations s) = 1 \<and>
     (\<exists>n t. import_bundle ascii_runtime example_parsers (example_service ''w'') False
        (export_bundle (example_service ''w'') s) s = Inr (n, t) \<and> im_unchanged n = 3 \<and> domains t = domains s)"
proof -
  obtain p where p: "exportable ascii_runtime example_parsers (example_service ''w'') (example_workspace (stored_definition p))"
    by (rule example_exportable)
  have ints: "read_int example_parsers (JInt i) = Some i" for i by (simp add: example_parsers_def)
  show ?thesis
    using own_bundle_import_changes_nothing [OF p ints, where replace = False]
    by (intro exI [of _ "example_workspace (stored_definition p)"])
      (simp add: example_rows Let_def, simp add: example_workspace_def)
qed

theorem bundles_rebuild_workspaces_witness:
  "\<exists>s n u. import_bundle ascii_runtime example_parsers (example_service ''v'') False
     (export_bundle (example_service ''w'') s) s = Inr (n, u) \<and> length (sources s) = 1 \<and>
     bundle_spec (example_service ''v'') u = bundle_spec (example_service ''w'') s \<and> im_unchanged n = 0"
proof -
  obtain p where p: "exportable ascii_runtime example_parsers (example_service ''w'') (example_workspace (stored_definition p))"
    "recreatable ascii_runtime (example_service ''w'') (example_workspace (stored_definition p))"
    by (rule example_exportable)
  let ?s = "example_workspace (stored_definition p)"
  have ints: "read_int example_parsers (JInt i) = Some i" for i by (simp add: example_parsers_def)
  have "empty_workspace (example_service ''v'') ?s"
    by (simp add: empty_workspace_def example_workspace_def example_service_def example_source_def example_configuration_def)
  from bundles_rebuild_workspaces [OF p(1) ints p(2) this, where replace = False] obtain n u where
    "import_bundle ascii_runtime example_parsers (example_service ''v'') False
       (export_bundle (example_service ''w'') ?s) ?s = Inr (n, u)"
    "bundle_spec (example_service ''v'') u = bundle_spec (example_service ''w'') ?s" "im_unchanged n = 0" by blast
  moreover have "length (sources ?s) = 1" by (simp add: example_workspace_def)
  ultimately show ?thesis by blast
qed

text \<open>
  The caller of an import is checked for the role of an administrator, in the workspace of his
  principal; the workspace that is imported into may be any other of the installation.
\<close>

lemma import_reaches_other_workspaces:
  assumes "open_service p ''model:write'' s = Inr sv" "allows p ''*''"
    "w \<in> set (workspaces s)" "distinct (map ws_slug (workspaces s))" "ws_slug w \<notin> ws_id ` set (workspaces s)"
    "ws_slug w \<noteq> []"
  shows "import_service p (Some (ws_slug w)) s = Inr \<lparr>wid = ws_id w, subject = pr_subject p, roles = pr_roles p\<rparr>"
proof -
  have "find (\<lambda>v. ws_id v = ws_slug w \<or> ws_slug v = ws_slug w) ws = Some w"
    if "w \<in> set ws" "distinct (map ws_slug ws)" "ws_slug w \<notin> ws_id ` set ws" for ws
    using that by (induction ws) auto
  from this [OF assms(3-5)] show ?thesis
    using assms by (simp add: import_service_def service_of_def guard_res_def truthy_str_def)
qed

text \<open>
  An import that may replace a domain puts the new policy in place at once: the version of the schema
  stays, no approval is asked and no job is queued to master the records anew.
\<close>

lemma replacing_import_skips_rollout:
  assumes "import_domain R sv True item (n, s) = Inr (m, t)" "find_domain sv key s = Some old"
    "item_dict item = Inr d" "dindex d ''key'' = Inr (JStr key)" "compile_item R item = Inr p"
    "\<not> py_eq (JObj (dm_definition old)) (JObj (stored_definition p))"
  shows "jobs t = jobs s \<and> configurations t = configurations s \<and> records t = records s \<and>
    map dm_schema_version (domains t) = map dm_schema_version (domains s)"
proof -
  from assms obtain name mode where
    t: "t = s\<lparr>domains := row_modify dm_id (dm_id old) (put_domain name mode (stored_definition p)) (domains s)\<rparr>"
    by (auto simp: import_domain_def as_str_def bind_res_Inr guard_res_def simp del: py_eq.simps)
  have "map dm_schema_version (row_modify dm_id i (put_domain name mode e) ds) = map dm_schema_version ds" for i e ds
    by (induction ds) (simp_all add: row_modify_def put_domain_def)
  then show ?thesis by (simp add: t)
qed

end
