(* ===== verification/Network.thy ===== *)
theory Network
  imports Sources "HOL-Library.Word"
begin

text \<open>
  Where the outgoing connections may go: the destination checks of connectors/http.py,
  connectors/object_storage.py and connectors/database.py. Addresses are words of their width, with
  the classes of Python's \<open>ipaddress\<close> (of the 3.14 the image runs). Name resolution, \<open>urljoin\<close> and
  the HTTP client are parameters.
\<close>

section \<open>Addresses\<close>

datatype address = V4 "32 word" | V6 "128 word"

text \<open>A network is its base address and the length of its prefix.\<close>

definition in_prefix :: "'a::len word \<Rightarrow> 'a word \<times> nat \<Rightarrow> bool" where
  "in_prefix a net = (case net of (b, n) \<Rightarrow> drop_bit (LENGTH('a) - n) a = drop_bit (LENGTH('a) - n) b)"

definition v4 :: "nat \<Rightarrow> nat \<Rightarrow> nat \<Rightarrow> nat \<Rightarrow> 32 word" where
  "v4 a b c d = of_nat (((a * 256 + b) * 256 + c) * 256 + d)"

definition v6 :: "nat list \<Rightarrow> 128 word" where
  "v6 gs = of_nat (foldl (\<lambda>n g. n * 65536 + g) 0 gs)"

definition loopback4 :: "32 word \<Rightarrow> bool" where
  "loopback4 a \<longleftrightarrow> in_prefix a (v4 127 0 0 0, 8)"

definition link_local4 :: "32 word \<Rightarrow> bool" where
  "link_local4 a \<longleftrightarrow> in_prefix a (v4 169 254 0 0, 16)"

definition multicast4 :: "32 word \<Rightarrow> bool" where
  "multicast4 a \<longleftrightarrow> in_prefix a (v4 224 0 0 0, 4)"

definition reserved4 :: "32 word \<Rightarrow> bool" where
  "reserved4 a \<longleftrightarrow> in_prefix a (v4 240 0 0 0, 4)"

definition private_networks4 :: "(32 word \<times> nat) list" where
  "private_networks4 =
     [(v4 0 0 0 0, 8), (v4 10 0 0 0, 8), (v4 127 0 0 0, 8), (v4 169 254 0 0, 16), (v4 172 16 0 0, 12),
      (v4 192 0 0 0, 24), (v4 192 0 0 170, 31), (v4 192 0 2 0, 24), (v4 192 168 0 0, 16), (v4 198 18 0 0, 15),
      (v4 198 51 100 0, 24), (v4 203 0 113 0, 24), (v4 240 0 0 0, 4), (v4 255 255 255 255, 32)]"

definition private4 :: "32 word \<Rightarrow> bool" where
  "private4 a \<longleftrightarrow> (\<exists>n \<in> set private_networks4. in_prefix a n) \<and>
     (\<forall>n \<in> set [(v4 192 0 0 9, 32), (v4 192 0 0 10, 32)]. \<not> in_prefix a n)"

text \<open>\<open>ipv4_mapped\<close>: an IPv4 address within \<open>::ffff:0:0/96\<close> is classed by what it maps to.\<close>

definition mapped :: "128 word \<Rightarrow> 32 word option" where
  "mapped a = (if drop_bit 32 a = 0xFFFF then Some (ucast a) else None)"

definition private_networks6 :: "(128 word \<times> nat) list" where
  "private_networks6 =
     [(v6 [0, 0, 0, 0, 0, 0, 0, 1], 128), (v6 [0, 0, 0, 0, 0, 0, 0, 0], 128), (v6 [0, 0, 0, 0, 0, 0xFFFF, 0, 0], 96),
      (v6 [0x64, 0xFF9B, 1, 0, 0, 0, 0, 0], 48), (v6 [0x100, 0, 0, 0, 0, 0, 0, 0], 64),
      (v6 [0x2001, 0, 0, 0, 0, 0, 0, 0], 23), (v6 [0x2001, 0xDB8, 0, 0, 0, 0, 0, 0], 32),
      (v6 [0x2002, 0, 0, 0, 0, 0, 0, 0], 16), (v6 [0x3FFF, 0, 0, 0, 0, 0, 0, 0], 20),
      (v6 [0xFC00, 0, 0, 0, 0, 0, 0, 0], 7), (v6 [0xFE80, 0, 0, 0, 0, 0, 0, 0], 10)]"

definition private_exceptions6 :: "(128 word \<times> nat) list" where
  "private_exceptions6 =
     [(v6 [0x2001, 1, 0, 0, 0, 0, 0, 1], 128), (v6 [0x2001, 1, 0, 0, 0, 0, 0, 2], 128),
      (v6 [0x2001, 3, 0, 0, 0, 0, 0, 0], 32), (v6 [0x2001, 4, 0x112, 0, 0, 0, 0, 0], 48),
      (v6 [0x2001, 0x20, 0, 0, 0, 0, 0, 0], 28), (v6 [0x2001, 0x30, 0, 0, 0, 0, 0, 0], 28)]"

definition reserved_networks6 :: "(128 word \<times> nat) list" where
  "reserved_networks6 = map (\<lambda>(g, n). (v6 [g, 0, 0, 0, 0, 0, 0, 0], n))
     [(0, 8), (0x100, 8), (0x200, 7), (0x400, 6), (0x800, 5), (0x1000, 4), (0x4000, 3), (0x6000, 3),
      (0x8000, 3), (0xA000, 3), (0xC000, 3), (0xE000, 4), (0xF000, 5), (0xF800, 6), (0xFE00, 9)]"

text \<open>A class of addresses, from its test on either version.\<close>

definition by_version :: "(32 word \<Rightarrow> bool) \<Rightarrow> (128 word \<Rightarrow> bool) \<Rightarrow> address \<Rightarrow> bool" where
  "by_version p q a = (case a of V4 x \<Rightarrow> p x
     | V6 x \<Rightarrow> (case mapped x of Some y \<Rightarrow> p y | None \<Rightarrow> q x))"

definition is_loopback :: "address \<Rightarrow> bool" where
  "is_loopback = by_version loopback4 (\<lambda>x. x = 1)"

definition is_link_local :: "address \<Rightarrow> bool" where
  "is_link_local = by_version link_local4 (\<lambda>x. in_prefix x (v6 [0xFE80, 0, 0, 0, 0, 0, 0, 0], 10))"

definition is_private :: "address \<Rightarrow> bool" where
  "is_private = by_version private4 (\<lambda>x. (\<exists>n \<in> set private_networks6. in_prefix x n) \<and>
     (\<forall>n \<in> set private_exceptions6. \<not> in_prefix x n))"

definition is_reserved :: "address \<Rightarrow> bool" where
  "is_reserved = by_version reserved4 (\<lambda>x. \<exists>n \<in> set reserved_networks6. in_prefix x n)"

definition is_multicast :: "address \<Rightarrow> bool" where
  "is_multicast = by_version multicast4 (\<lambda>x. in_prefix x (v6 [0xFF00, 0, 0, 0, 0, 0, 0, 0], 8))"

definition unsafe_address :: "address \<Rightarrow> bool" where
  "unsafe_address a \<longleftrightarrow> is_loopback a \<or> is_link_local a \<or> is_private a \<or> is_reserved a \<or> is_multicast a"

text \<open>\<open>address in ip_network(...)\<close> is false across versions.\<close>

definition metadata_address :: "address \<Rightarrow> bool" where
  "metadata_address a = (case a of V4 x \<Rightarrow> x = v4 169 254 169 254
     | V6 x \<Rightarrow> x = v6 [0xFD00, 0xEC2, 0, 0, 0, 0, 0, 0x254])"

section \<open>Destinations\<close>

text \<open>
  \<open>getaddrinfo\<close>, \<open>urljoin\<close>, and a GET with its cursor parameter (\<open>JNull\<close> for none), read as JSON; each
  failure is an exception. These are the answers at one moment: \<open>nt_resolve\<close> is what a check sees, and
  a request resolves its host again when it connects.
\<close>

record network =
  nt_resolve :: "string \<Rightarrow> int \<Rightarrow> address list res"
  nt_join :: "string \<Rightarrow> string \<Rightarrow> string"
  nt_get :: "string \<Rightarrow> json \<Rightarrow> json res"

definition port_of :: "url_parts \<Rightarrow> int" where
  "port_of u = (case up_port u of Some p \<Rightarrow> if p \<noteq> 0 then p else if up_scheme u = ''https'' then 443 else 80
     | None \<Rightarrow> if up_scheme u = ''https'' then 443 else 80)"

definition check_resolution :: "network \<Rightarrow> bool \<Rightarrow> string \<Rightarrow> int \<Rightarrow> unit res" where
  "check_resolution N private host port =
     bind_res (nt_resolve N host port) (\<lambda>found.
     bind_res (guard_res (found \<noteq> []) (PyError ''ValueError'')) (\<lambda>_.
     guard_res (\<forall>a \<in> set found. \<not> metadata_address a \<and> (unsafe_address a \<longrightarrow> private)) (PyError ''ValueError'')))"

record connector =
  cn_base :: string
  cn_hosts :: "json list"
  cn_max_pages :: nat
  cn_private :: bool

definition new_connector :: "parsers \<Rightarrow> network \<Rightarrow> string \<Rightarrow> json list \<Rightarrow> nat \<Rightarrow> bool \<Rightarrow> connector res" where
  "new_connector U N base hosts pages private =
     bind_res (from_option (PyError ''ValueError'') (urlparse U base)) (\<lambda>u.
     bind_res (guard_res (listed_destination u [''http'', ''https''] hosts) (PyError ''ValueError'')) (\<lambda>_.
     bind_res (guard_res (up_scheme u = ''https'' \<or> the (up_host u) \<in> set loopback_names \<or> private)
       (PyError ''ValueError'')) (\<lambda>_.
     bind_res (check_resolution N private (the (up_host u)) (port_of u)) (\<lambda>_.
     Inr \<lparr>cn_base = base, cn_hosts = hosts, cn_max_pages = pages, cn_private = private\<rparr>))))"

definition validate_url :: "parsers \<Rightarrow> network \<Rightarrow> connector \<Rightarrow> string \<Rightarrow> unit res" where
  "validate_url U N cn url =
     bind_res (from_option (PyError ''ValueError'') (urlparse U url)) (\<lambda>u.
     bind_res (guard_res (listed_destination u [''http'', ''https''] (cn_hosts cn)) (PyError ''RuntimeError'')) (\<lambda>_.
     check_resolution N (cn_private cn) (the (up_host u)) (port_of u)))"

text \<open>The exchange of objects through pre-authorised URLs.\<close>

definition object_providers :: "string list" where
  "object_providers = [''s3'', ''azure_blob'', ''gcs'']"

definition validate_object_url :: "parsers \<Rightarrow> json list \<Rightarrow> string \<Rightarrow> unit res" where
  "validate_object_url U hosts url =
     bind_res (from_option (PyError ''ValueError'') (urlparse U url)) (\<lambda>u.
     guard_res (listed_destination u [''https''] hosts) (PyError ''ValueError''))"

section \<open>SQL statements\<close>

text \<open>
  \<open>SAFE_READ\<close> and \<open>SAFE_WRITE\<close>: leading white space, one of the words in any case, and the end of the
  word; then no separator and no comment anywhere.
\<close>

definition word_char :: "char \<Rightarrow> bool" where
  "word_char c \<longleftrightarrow> (let n = of_char c :: nat in
     48 \<le> n \<and> n \<le> 57 \<or> 65 \<le> n \<and> n \<le> 90 \<or> 97 \<le> n \<and> n \<le> 122 \<or> c = CHR ''_'')"

definition starts_with_word :: "string list \<Rightarrow> string \<Rightarrow> bool" where
  "starts_with_word ws t =
     (let u = map ascii_lower_char (dropWhile is_space t) in
      \<exists>w \<in> set ws. prefix_of w u \<and> (case drop (length w) u of [] \<Rightarrow> True | c # _ \<Rightarrow> \<not> word_char c))"

definition single_statement :: "string list \<Rightarrow> string \<Rightarrow> unit res" where
  "single_statement ws t =
     guard_res (starts_with_word ws t \<and> CHR '';'' \<notin> set t \<and> \<not> substring ''--'' t \<and> \<not> substring ''/*'' t)
       (PyError ''ValueError'')"

definition new_database :: "string \<Rightarrow> unit res" where
  "new_database url =
     guard_res (prefix_of ''postgresql://'' url \<or> prefix_of ''postgresql+psycopg://'' url) (PyError ''ValueError'')"

definition guard_read :: "string \<Rightarrow> unit res" where
  "guard_read t = single_statement [''select''] t"

definition guard_publish :: "string \<Rightarrow> dict \<Rightarrow> unit res" where
  "guard_publish t values =
     bind_res (single_statement [''insert'', ''update''] t) (\<lambda>_.
     guard_res (''event_id'' \<in> set (dkeys values)) (PyError ''ValueError''))"

end
