(* ===== verification/Secrets.thy ===== *)
theory Secrets
  imports Network
begin

text \<open>
  Secrets of the connectors: their resolution (secrets/providers.py) and the routes that create,
  rotate, test and list them (api/routes.py). Encryption (\<open>cryptography.fernet\<close>), the file system,
  the process environment and the Vault server are parameters; each failure is an exception.
\<close>

section \<open>What is not part of the repository\<close>

record outside =
  fernet_seal :: "string \<Rightarrow> nat \<Rightarrow> string \<Rightarrow> string"
  open_sealed :: "string \<Rightarrow> string \<Rightarrow> string option"
  load_key :: "string \<Rightarrow> string res"
  real_path :: "string \<Rightarrow> string res"
  run_root :: string
  file_text :: "string \<Rightarrow> string res"
  environment_value :: "string \<Rightarrow> string option"
  quote_part :: "string \<Rightarrow> string"
  vault_get :: "string \<Rightarrow> (string \<times> string) list \<Rightarrow> json res"

record vault_settings =
  vs_production :: bool
  vs_key_file :: "string option"
  vs_url :: "string option"
  vs_hosts :: "string list"
  vs_token_file :: "string option"
  vs_namespace :: "string option"
  vs_private :: bool

section \<open>The Vault provider\<close>

definition new_vault :: "parsers \<Rightarrow> network \<Rightarrow> vault_settings \<Rightarrow> string res" where
  "new_vault U N G =
     bind_res (guard_res (truthy_str (vs_url G) \<and> truthy_str (vs_token_file G)) (PyError ''ValueError'')) (\<lambda>_.
     bind_res (from_option (PyError ''ValueError'') (urlparse U (the (vs_url G)))) (\<lambda>u.
     bind_res (guard_res (listed_destination u [''https''] (map JStr (vs_hosts G)) \<and> up_query u = [] \<and> up_fragment u = [])
       (PyError ''ValueError'')) (\<lambda>_.
     bind_res (nt_resolve N (the (up_host u)) (case up_port u of Some p \<Rightarrow> if p \<noteq> 0 then p else 443 | None \<Rightarrow> 443)) (\<lambda>found.
     bind_res (guard_res (found \<noteq> []) (PyError ''ValueError'')) (\<lambda>_.
     bind_res (guard_res (vs_private G \<or> (\<forall>a \<in> set found. \<not> unsafe_address a)) (PyError ''ValueError'')) (\<lambda>_.
     Inr (the (vs_url G))))))))"

definition join_on :: "char \<Rightarrow> string list \<Rightarrow> string" where
  "join_on c ps = (case ps of [] \<Rightarrow> [] | p # qs \<Rightarrow> p @ concat (map (\<lambda>q. c # q) qs))"

definition rstrip_on :: "char \<Rightarrow> string \<Rightarrow> string" where
  "rstrip_on c s = rev (dropWhile (\<lambda>x. x = c) (rev s))"

definition json_item :: "string \<Rightarrow> json \<Rightarrow> json res" where
  "json_item k v = (case v of JObj d \<Rightarrow> dindex d k | _ \<Rightarrow> Inl (PyError ''TypeError''))"

text \<open>\<open>except (httpx.HTTPError, KeyError, TypeError)\<close>\<close>

definition catch_vault :: "'a res \<Rightarrow> 'a res" where
  "catch_vault r = (case r of
     Inl (PyError c) \<Rightarrow> if c \<in> {''HTTPError'', ''KeyError'', ''TypeError''} then Inl (PyError ''RuntimeError'') else r
   | _ \<Rightarrow> r)"

definition vault_resolve :: "outside \<Rightarrow> vault_settings \<Rightarrow> string \<Rightarrow> string \<Rightarrow> string res" where
  "vault_resolve X G url locator =
     (case cut CHR ''#'' locator of
        None \<Rightarrow> Inl (PyError ''ValueError'')
      | Some (path, key) \<Rightarrow>
          (case cut CHR ''/'' path of
             None \<Rightarrow> Inl (PyError ''ValueError'')
           | Some (mount, rest) \<Rightarrow>
               bind_res (guard_res (key \<noteq> []) (PyError ''ValueError'')) (\<lambda>_.
               bind_res (guard_res (mount \<noteq> [] \<and> rest \<noteq> [] \<and> ''..'' \<notin> set (split_on CHR ''/'' path)) (PyError ''ValueError'')) (\<lambda>_.
               bind_res (file_text X (the (vs_token_file G))) (\<lambda>raw.
               let token = strip raw;
                   target = rstrip_on CHR ''/'' url @ ''/v1/'' @ quote_part X mount @ ''/data/'' @
                     join_on CHR ''/'' (map (quote_part X) (split_on CHR ''/'' rest));
                   headers = (''X-Vault-Token'', token) #
                     (if truthy_str (vs_namespace G) then [(''X-Vault-Namespace'', the (vs_namespace G))] else [])
               in bind_res (guard_res (token \<noteq> []) (PyError ''ValueError'')) (\<lambda>_.
                  catch_vault
                    (bind_res (vault_get X target headers) (\<lambda>body.
                     bind_res (json_item ''data'' body) (\<lambda>outer.
                     bind_res (json_item ''data'' outer) (\<lambda>inner.
                     bind_res (json_item key inner) (\<lambda>value.
                     case value of JStr s \<Rightarrow> Inr s | _ \<Rightarrow> Inl (PyError ''ValueError''))))))))))))"

section \<open>Resolution\<close>

record secret_ref =
  rf_id :: ident
  rf_ws :: ident
  rf_name :: string
  rf_provider :: string
  rf_locator :: string
  rf_value :: "string option"
  rf_version :: int
  rf_by :: string

record secret_state =
  ss_db :: db
  ss_refs :: "secret_ref list"

definition master_key :: "outside \<Rightarrow> vault_settings \<Rightarrow> string res" where
  "master_key X G =
     bind_res (guard_res (truthy_str (vs_key_file G)) (PyError ''RuntimeError'')) (\<lambda>_. load_key X (the (vs_key_file G)))"

definition encrypt_secret :: "outside \<Rightarrow> vault_settings \<Rightarrow> nat \<Rightarrow> string \<Rightarrow> string res" where
  "encrypt_secret X G n v = bind_res (master_key X G) (\<lambda>k. Inr (fernet_seal X k n v))"

definition below :: "string \<Rightarrow> string \<Rightarrow> bool" where
  "below dir path \<longleftrightarrow> path = dir \<or> prefix_of (dir @ ''/'') path"

definition find_ref :: "ident \<Rightarrow> string \<Rightarrow> secret_state \<Rightarrow> secret_ref option" where
  "find_ref w n s = find (\<lambda>r. rf_ws r = w \<and> rf_name r = n) (ss_refs s)"

definition resolve_ref :: "parsers \<Rightarrow> network \<Rightarrow> outside \<Rightarrow> vault_settings \<Rightarrow> secret_ref \<Rightarrow> string res" where
  "resolve_ref U N X G r =
     (if rf_provider r = ''encrypted_local'' then
        bind_res (guard_res (truthy_str (rf_value r)) (PyError ''RuntimeError'')) (\<lambda>_.
        bind_res (master_key X G) (\<lambda>k.
        from_option (PyError ''RuntimeError'') (open_sealed X k (the (rf_value r)))))
      else if rf_provider r = ''vault_kv2'' then
        bind_res (new_vault U N G) (\<lambda>url. vault_resolve X G url (rf_locator r))
      else Inl (PyError ''ValueError''))"

definition resolve_secret ::
    "parsers \<Rightarrow> network \<Rightarrow> outside \<Rightarrow> vault_settings \<Rightarrow> ident \<Rightarrow> secret_state \<Rightarrow> string \<Rightarrow> string res" where
  "resolve_secret U N X G w s reference =
     (if prefix_of ''file:'' reference then
        bind_res (real_path X (drop 5 reference)) (\<lambda>path.
        bind_res (guard_res (below (run_root X) path) (PyError ''ValueError'')) (\<lambda>_.
        bind_res (file_text X path) (\<lambda>t. Inr (strip t))))
      else if prefix_of ''env:'' reference then
        bind_res (guard_res (\<not> vs_production G) (PyError ''ValueError'')) (\<lambda>_.
        bind_res (guard_res (prefix_of ''RECORDLANE_'' (drop 4 reference)) (PyError ''ValueError'')) (\<lambda>_.
        from_option (PyError ''RuntimeError'') (environment_value X (drop 4 reference))))
      else if \<not> prefix_of ''secret:'' reference then Inl (PyError ''ValueError'')
      else
        bind_res (from_option (PyError ''KeyError'') (find_ref w (drop 7 reference) s)) (resolve_ref U N X G))"

section \<open>The routes\<close>

record secret_form =
  sm_name :: string
  sm_provider :: string
  sm_value :: "string option"
  sm_locator :: "string option"

text \<open>\<open>SecretCreate\<close>: the pattern of the name, the providers, and the lengths.\<close>

definition secret_form_fits :: "secret_form \<Rightarrow> bool" where
  "secret_form_fits f \<longleftrightarrow>
     key_pattern 1 79 (sm_name f) \<and> sm_provider f \<in> {''encrypted_local'', ''vault_kv2''} \<and>
     (case sm_value f of None \<Rightarrow> True | Some v \<Rightarrow> 1 \<le> length v \<and> length v \<le> 20000) \<and>
     (case sm_locator f of None \<Rightarrow> True | Some l \<Rightarrow> length l \<le> 500)"

text \<open>What the routes show of a secret.\<close>

record secret_view =
  vw_id :: ident
  vw_name :: string
  vw_reference :: string
  vw_provider :: string
  vw_locator :: string
  vw_version :: int
  vw_by :: string
  vw_present :: "bool option"

definition view_secret :: "secret_ref \<Rightarrow> secret_view" where
  "view_secret r =
     \<lparr>vw_id = rf_id r, vw_name = rf_name r, vw_reference = ''secret:'' @ rf_name r, vw_provider = rf_provider r,
      vw_locator = rf_locator r, vw_version = rf_version r, vw_by = rf_by r,
      vw_present = (if rf_provider r = ''encrypted_local'' then Some (truthy_str (rf_value r)) else None)\<rparr>"

definition list_secrets :: "service \<Rightarrow> secret_state \<Rightarrow> secret_view list" where
  "list_secrets sv s = map view_secret (sort_key rf_name (filter (\<lambda>r. rf_ws r = wid sv) (ss_refs s)))"

text \<open>\<open>except (OSError, ValueError, RuntimeError)\<close>, and the same with \<open>KeyError\<close>\<close>

definition catch_as :: "string list \<Rightarrow> string \<Rightarrow> 'a res \<Rightarrow> 'a res" where
  "catch_as classes code r = (case r of
     Inl (PyError c) \<Rightarrow> if c \<in> set classes then Inl (HTTPException 503 code) else r
   | _ \<Rightarrow> r)"

definition key_failures :: "string list" where
  "key_failures = [''OSError'', ''ValueError'', ''RuntimeError'']"

definition administrator_only :: "service \<Rightarrow> unit res" where
  "administrator_only sv = guard_res (''administrator'' \<in> set (roles sv)) (HTTPException 403 ''administrator_required'')"

text \<open>The stored value and locator of a new reference.\<close>

definition secret_content :: "outside \<Rightarrow> vault_settings \<Rightarrow> nat \<Rightarrow> secret_form \<Rightarrow> (string option \<times> string) res" where
  "secret_content X G n f =
     (if sm_provider f = ''encrypted_local'' then
        bind_res (guard_res (truthy_str (sm_value f)) (HTTPException 422 ''secret_value_required'')) (\<lambda>_.
        bind_res (catch_as key_failures ''master_key_unavailable'' (encrypt_secret X G n (the (sm_value f)))) (\<lambda>c.
        Inr (Some c, ''encrypted:database'')))
      else
        bind_res (guard_res (sm_value f = None \<and> truthy_str (sm_locator f))
          (HTTPException 422 ''vault_locator_required_without_value'')) (\<lambda>_.
        Inr (None, the (sm_locator f))))"

definition create_secret ::
    "runtime \<Rightarrow> outside \<Rightarrow> vault_settings \<Rightarrow> service \<Rightarrow> secret_form \<Rightarrow> secret_state \<Rightarrow> (secret_view \<times> secret_state) res" where
  "create_secret R X G sv f s =
     bind_res (administrator_only sv) (\<lambda>_.
     bind_res (guard_res (find_ref (wid sv) (sm_name f) s = None) (HTTPException 409 ''secret_reference_exists'')) (\<lambda>_.
     bind_res (secret_content X G (ticks (ss_db s)) f) (\<lambda>(value, locator).
     let r = \<lparr>rf_id = next_id R (ss_db s), rf_ws = wid sv, rf_name = sm_name f, rf_provider = sm_provider f,
              rf_locator = locator, rf_value = value, rf_version = 1, rf_by = subject sv\<rparr>
     in Inr (view_secret r,
          \<lparr>ss_db = audit R sv ''secret_reference.created'' ''secret_reference'' (rf_id r)
             (JObj [(''name'', JStr (rf_name r)), (''provider'', JStr (rf_provider r))])
             ((ss_db s)\<lparr>ticks := Suc (ticks (ss_db s))\<rparr>),
           ss_refs = row_add r (ss_refs s)\<rparr>))))"

definition own_ref :: "service \<Rightarrow> ident \<Rightarrow> secret_state \<Rightarrow> secret_ref res" where
  "own_ref sv i s = from_option (HTTPException 404 ''secret_reference_not_found'')
     (find (\<lambda>r. rf_id r = i \<and> rf_ws r = wid sv) (ss_refs s))"

definition put_value :: "string \<Rightarrow> secret_ref \<Rightarrow> secret_ref" where
  "put_value c r = r\<lparr>rf_value := Some c, rf_version := rf_version r + 1\<rparr>"

definition rotate_secret ::
    "runtime \<Rightarrow> outside \<Rightarrow> vault_settings \<Rightarrow> service \<Rightarrow> ident \<Rightarrow> string \<Rightarrow> secret_state \<Rightarrow> (secret_view \<times> secret_state) res" where
  "rotate_secret R X G sv i v s =
     bind_res (administrator_only sv) (\<lambda>_.
     bind_res (own_ref sv i s) (\<lambda>r.
     bind_res (guard_res (rf_provider r = ''encrypted_local'') (HTTPException 409 ''external_secret_rotates_at_provider'')) (\<lambda>_.
     bind_res (catch_as key_failures ''master_key_unavailable'' (encrypt_secret X G (ticks (ss_db s)) v)) (\<lambda>c.
     Inr (view_secret (put_value c r),
       \<lparr>ss_db = audit R sv ''secret_reference.rotated'' ''secret_reference'' (rf_id r)
          (JObj [(''version'', JInt (rf_version r + 1))]) ((ss_db s)\<lparr>ticks := Suc (ticks (ss_db s))\<rparr>),
        ss_refs = row_modify rf_id (rf_id r) (put_value c) (ss_refs s)\<rparr>)))))"

definition test_secret ::
    "runtime \<Rightarrow> parsers \<Rightarrow> network \<Rightarrow> outside \<Rightarrow> vault_settings \<Rightarrow> service \<Rightarrow> ident \<Rightarrow> secret_state \<Rightarrow>
     ((bool \<times> int) \<times> secret_state) res" where
  "test_secret R U N X G sv i s =
     bind_res (own_ref sv i s) (\<lambda>r.
     bind_res (catch_as (''KeyError'' # key_failures) ''secret_unavailable''
       (resolve_secret U N X G (wid sv) s (''secret:'' @ rf_name r))) (\<lambda>v.
     Inr ((v \<noteq> [], rf_version r),
       s\<lparr>ss_db := audit R sv ''secret_reference.tested'' ''secret_reference'' (rf_id r)
          (JObj [(''available'', JBool (v \<noteq> [])), (''value_disclosed'', JBool False)]) (ss_db s)\<rparr>)))"

section \<open>What the table satisfies\<close>

text \<open>Ids were drawn and are unique, and so are names within a workspace.\<close>

definition refs_ok :: "runtime \<Rightarrow> secret_state \<Rightarrow> bool" where
  "refs_ok R s \<longleftrightarrow> distinct (map rf_id (ss_refs s)) \<and> distinct (map (\<lambda>r. (rf_ws r, rf_name r)) (ss_refs s)) \<and>
     (\<forall>r \<in> set (ss_refs s). \<exists>k < ticks (ss_db s). rf_id r = uuid R k)"

definition same_reference :: "secret_ref \<Rightarrow> secret_ref \<Rightarrow> bool" where
  "same_reference r r' \<longleftrightarrow> r' = r\<lparr>rf_value := rf_value r'\<rparr> \<and> (truthy_str (rf_value r) \<longleftrightarrow> truthy_str (rf_value r'))"

lemma find_ref_distinct:
  assumes "distinct (map (\<lambda>r. (rf_ws r, rf_name r)) (ss_refs s))" "r \<in> set (ss_refs s)"
  shows "find_ref (rf_ws r) (rf_name r) s = Some r"
proof -
  have "find (\<lambda>q. rf_ws q = rf_ws r \<and> rf_name q = rf_name r) rs = Some r"
    if "distinct (map (\<lambda>r. (rf_ws r, rf_name r)) rs)" "r \<in> set rs" for rs
    using that by (induction rs) force+
  from this [OF assms] show ?thesis by (simp add: find_ref_def)
qed

lemma find_ref_SomeD: "find_ref w n s = Some r \<Longrightarrow> r \<in> set (ss_refs s) \<and> rf_ws r = w \<and> rf_name r = n"
  unfolding find_ref_def by (drule find_SomeD) simp

lemma find_ref_NoneD: "find_ref w n s = None \<Longrightarrow> r \<in> set (ss_refs s) \<Longrightarrow> rf_ws r = w \<Longrightarrow> rf_name r \<noteq> n"
  unfolding find_ref_def by (drule (1) find_NoneD) simp

lemma own_ref_Inr: "own_ref sv i s = Inr r \<Longrightarrow> r \<in> set (ss_refs s) \<and> rf_id r = i \<and> rf_ws r = wid sv"
  by (auto simp: own_ref_def from_option_Inr dest: find_SomeD)

lemma create_secret_cases:
  assumes "create_secret R X G sv f s = Inr (v, t)"
  obtains val loc r where "secret_content X G (ticks (ss_db s)) f = Inr (val, loc)"
    "find_ref (wid sv) (sm_name f) s = None" "''administrator'' \<in> set (roles sv)"
    "r = \<lparr>rf_id = next_id R (ss_db s), rf_ws = wid sv, rf_name = sm_name f, rf_provider = sm_provider f,
       rf_locator = loc, rf_value = val, rf_version = 1, rf_by = subject sv\<rparr>"
    "v = view_secret r" "ss_refs t = ss_refs s @ [r]" "ticks (ss_db s) < ticks (ss_db t)"
  using assms
  by (auto simp: create_secret_def res_elim administrator_only_def Let_def row_add_def audit_frame)

lemma rotate_secret_cases:
  assumes "rotate_secret R X G sv i v s = Inr (w, t)"
  obtains r c k where "own_ref sv i s = Inr r" "rf_provider r = ''encrypted_local''" "master_key X G = Inr k"
    "c = fernet_seal X k (ticks (ss_db s)) v" "w = view_secret (put_value c r)"
    "ss_refs t = row_modify rf_id (rf_id r) (put_value c) (ss_refs s)" "ticks (ss_db s) < ticks (ss_db t)"
proof -
  from assms obtain r c where r: "own_ref sv i s = Inr r" "rf_provider r = ''encrypted_local''"
    and c: "catch_as key_failures ''master_key_unavailable'' (encrypt_secret X G (ticks (ss_db s)) v) = Inr c"
    and t: "w = view_secret (put_value c r)" "ss_refs t = row_modify rf_id (rf_id r) (put_value c) (ss_refs s)"
      "ticks (ss_db s) < ticks (ss_db t)"
    by (auto simp: rotate_secret_def res_elim audit_frame)
  from c obtain k where "master_key X G = Inr k" "c = fernet_seal X k (ticks (ss_db s)) v"
    by (auto simp: catch_as_def encrypt_secret_def res_elim split: sum.splits err.splits if_splits)
  with r t show thesis by (intro that)
qed

lemma secret_content_local:
  assumes "secret_content X G n f = Inr (val, loc)" "sm_provider f = ''encrypted_local''"
  obtains k v where "sm_value f = Some v" "master_key X G = Inr k" "val = Some (fernet_seal X k n v)"
proof -
  from assms obtain v c where v: "sm_value f = Some v"
    and c: "catch_as key_failures ''master_key_unavailable'' (encrypt_secret X G n v) = Inr c" "val = Some c"
    by (cases "sm_value f") (auto simp: secret_content_def res_elim truthy_str_def)
  from c(1) obtain k where "master_key X G = Inr k" "c = fernet_seal X k n v"
    by (auto simp: catch_as_def encrypt_secret_def res_elim split: sum.splits err.splits if_splits)
  with v c(2) show thesis by (intro that) simp_all
qed

section \<open>Every run\<close>

text \<open>
  The routes in any order, in any workspaces, by any administrators, and what they were given last for
  each reference.
\<close>

type_synonym ledger = "ident \<times> string \<Rightarrow> string option"

inductive secret_run :: "runtime \<Rightarrow> parsers \<Rightarrow> network \<Rightarrow> outside \<Rightarrow> vault_settings \<Rightarrow> secret_state \<Rightarrow> ledger \<Rightarrow> bool"
  for R :: runtime and U :: parsers and N :: network and X :: outside and G :: vault_settings where
  Start: "ss_refs s = [] \<Longrightarrow> secret_run R U N X G s (\<lambda>_. None)"
| Create: "secret_run R U N X G s given \<Longrightarrow> create_secret R X G sv f s = Inr (v, t) \<Longrightarrow>
    secret_run R U N X G t
      (if sm_provider f = ''encrypted_local'' then given((wid sv, sm_name f) := sm_value f) else given)"
| Rotate: "secret_run R U N X G s given \<Longrightarrow> rotate_secret R X G sv i v s = Inr (w, t) \<Longrightarrow>
    secret_run R U N X G t (given((wid sv, vw_name w) \<mapsto> v))"
| Test: "secret_run R U N X G s given \<Longrightarrow> test_secret R U N X G sv i s = Inr (b, t) \<Longrightarrow> secret_run R U N X G t given"
| Other: "secret_run R U N X G s given \<Longrightarrow> ss_refs t = ss_refs s \<Longrightarrow> ticks (ss_db s) \<le> ticks (ss_db t) \<Longrightarrow>
    secret_run R U N X G t given"

definition stores :: "outside \<Rightarrow> vault_settings \<Rightarrow> secret_state \<Rightarrow> ident \<Rightarrow> string \<Rightarrow> string \<Rightarrow> bool" where
  "stores X G s w n v \<longleftrightarrow>
     (\<exists>r \<in> set (ss_refs s). \<exists>k c. rf_ws r = w \<and> rf_name r = n \<and> rf_provider r = ''encrypted_local'' \<and>
        rf_value r = Some c \<and> c \<noteq> [] \<and> master_key X G = Inr k \<and> open_sealed X k c = Some v)"

definition keeps_ledger :: "outside \<Rightarrow> vault_settings \<Rightarrow> secret_state \<Rightarrow> ledger \<Rightarrow> bool" where
  "keeps_ledger X G s given \<longleftrightarrow> (\<forall>w n v. given (w, n) = Some v \<longrightarrow> stores X G s w n v)"

lemma storesE:
  assumes "stores X G s w n v"
  obtains r k c where "r \<in> set (ss_refs s)" "rf_ws r = w" "rf_name r = n" "rf_provider r = ''encrypted_local''"
    "rf_value r = Some c" "c \<noteq> []" "master_key X G = Inr k" "open_sealed X k c = Some v"
  using assms unfolding stores_def by (elim bexE exE conjE) (rule that)

lemma storesI:
  assumes "r \<in> set (ss_refs s)" "rf_ws r = w" "rf_name r = n" "rf_provider r = ''encrypted_local''"
    "rf_value r = Some c" "c \<noteq> []" "master_key X G = Inr k" "open_sealed X k c = Some v"
  shows "stores X G s w n v"
  unfolding stores_def using assms by (intro bexI [of _ r] exI conjI)

lemma keeps_ledgerD: "keeps_ledger X G s given \<Longrightarrow> given (w, n) = Some v \<Longrightarrow> stores X G s w n v"
  by (simp add: keeps_ledger_def)

lemma keeps_ledger_mono:
  assumes "keeps_ledger X G s given" "set (ss_refs s) \<subseteq> set (ss_refs t)"
  shows "keeps_ledger X G t given"
  using assms unfolding keeps_ledger_def stores_def by (meson subsetD)

lemma keeps_ledger_put:
  assumes "\<And>w' n' v'. given (w', n') = Some v' \<Longrightarrow> (w', n') \<noteq> (w, n) \<Longrightarrow> stores X G t w' n' v'" "stores X G t w n v"
  shows "keeps_ledger X G t (given((w, n) \<mapsto> v))"
  unfolding keeps_ledger_def using assms by (simp split: if_splits)

lemma refs_ok_later:
  assumes "refs_ok R s" "ss_refs t = ss_refs s" "ticks (ss_db s) \<le> ticks (ss_db t)"
  shows "refs_ok R t"
  using assms(1) unfolding refs_ok_def assms(2) using assms(3) by (meson less_le_trans)

lemma refs_ok_add:
  assumes "refs_ok R s" "inj (uuid R)" "rf_id r = next_id R (ss_db s)" "find_ref (rf_ws r) (rf_name r) s = None"
    "ss_refs t = ss_refs s @ [r]" "ticks (ss_db s) < ticks (ss_db t)"
  shows "refs_ok R t"
proof -
  have old: "\<exists>k < ticks (ss_db s). rf_id q = uuid R k" if "q \<in> set (ss_refs s)" for q
    using assms(1) that unfolding refs_ok_def by blast
  have "rf_id q \<noteq> next_id R (ss_db s)" if "q \<in> set (ss_refs s)" for q
  proof -
    from old [OF that] obtain k where "k < ticks (ss_db s)" "rf_id q = uuid R k" by blast
    then show ?thesis using inj_eq [OF assms(2)] by (simp add: next_id_def)
  qed
  then have fresh: "rf_id r \<notin> rf_id ` set (ss_refs s)" unfolding assms(3) image_iff by metis
  have names: "(rf_ws r, rf_name r) \<notin> (\<lambda>r. (rf_ws r, rf_name r)) ` set (ss_refs s)"
  proof
    assume "(rf_ws r, rf_name r) \<in> (\<lambda>r. (rf_ws r, rf_name r)) ` set (ss_refs s)"
    then obtain q where "q \<in> set (ss_refs s)" "rf_ws q = rf_ws r" "rf_name q = rf_name r" by (elim imageE) simp
    with find_ref_NoneD [OF assms(4)] show False by blast
  qed
  have "\<exists>k < ticks (ss_db t). rf_id q = uuid R k" if "q \<in> set (ss_refs t)" for q
  proof (cases "q = r")
    case True
    then have "rf_id q = uuid R (ticks (ss_db s))" using assms(3) by (simp add: next_id_def)
    with assms(6) show ?thesis by (intro exI conjI)
  next
    case False
    with that assms(5) have "q \<in> set (ss_refs s)" by simp
    from old [OF this] obtain k where "k < ticks (ss_db s)" "rf_id q = uuid R k" by blast
    with assms(6) have "k < ticks (ss_db t) \<and> rf_id q = uuid R k" by simp
    then show ?thesis ..
  qed
  moreover have "distinct (map rf_id (ss_refs t))" "distinct (map (\<lambda>r. (rf_ws r, rf_name r)) (ss_refs t))"
    using assms(1) fresh names by (simp_all add: assms(5) refs_ok_def)
  ultimately show ?thesis by (simp add: refs_ok_def)
qed

text \<open>Fernet opens what it sealed, and never seals into nothing.\<close>

definition sealing :: "outside \<Rightarrow> bool" where
  "sealing X \<longleftrightarrow> (\<forall>k n v. open_sealed X k (fernet_seal X k n v) = Some v \<and> fernet_seal X k n v \<noteq> [])"

lemma sealingD:
  assumes "sealing X"
  shows opens: "open_sealed X k (fernet_seal X k n v) = Some v" and seals: "fernet_seal X k n v \<noteq> []"
  using assms by (simp_all add: sealing_def)

lemma create_keeps:
  assumes "create_secret R X G sv f s = Inr (v, t)" "refs_ok R s" "keeps_ledger X G s given" "inj (uuid R)" "sealing X"
  shows "refs_ok R t \<and>
    keeps_ledger X G t (if sm_provider f = ''encrypted_local'' then given((wid sv, sm_name f) := sm_value f) else given)"
proof -
  obtain val loc r where c: "secret_content X G (ticks (ss_db s)) f = Inr (val, loc)"
    and none: "find_ref (wid sv) (sm_name f) s = None"
    and r: "r = \<lparr>rf_id = next_id R (ss_db s), rf_ws = wid sv, rf_name = sm_name f, rf_provider = sm_provider f,
       rf_locator = loc, rf_value = val, rf_version = 1, rf_by = subject sv\<rparr>"
    and t: "ss_refs t = ss_refs s @ [r]" "ticks (ss_db s) < ticks (ss_db t)"
    using assms(1) by (rule create_secret_cases)
  have "refs_ok R t"
    by (rule refs_ok_add [OF assms(2,4) _ _ t]) (simp_all add: r none)
  moreover have old: "keeps_ledger X G t given"
    by (rule keeps_ledger_mono [OF assms(3)]) (simp add: t(1) subset_insertI)
  moreover have "keeps_ledger X G t (given((wid sv, sm_name f) := sm_value f))" if p: "sm_provider f = ''encrypted_local''"
  proof -
    obtain k v where v: "sm_value f = Some v" "master_key X G = Inr k" "val = Some (fernet_seal X k (ticks (ss_db s)) v)"
      by (rule secret_content_local [OF c p])
    have "stores X G t (wid sv) (sm_name f) v"
      by (rule storesI [of r, OF _ _ _ _ _ seals [OF assms(5)] v(2) opens [OF assms(5)]]) (simp_all add: t(1) r p v(3))
    then show ?thesis unfolding v(1) by (intro keeps_ledger_put) (simp_all add: keeps_ledgerD [OF old])
  qed
  ultimately show ?thesis by simp
qed

lemma rotate_keeps:
  assumes "rotate_secret R X G sv i v s = Inr (w, t)" "refs_ok R s" "keeps_ledger X G s given" "sealing X"
  shows "refs_ok R t \<and> keeps_ledger X G t (given((wid sv, vw_name w) \<mapsto> v))"
proof -
  obtain r c k where own: "own_ref sv i s = Inr r" "rf_provider r = ''encrypted_local''" and k: "master_key X G = Inr k"
    and c: "c = fernet_seal X k (ticks (ss_db s)) v" and w: "w = view_secret (put_value c r)"
    and t: "ss_refs t = row_modify rf_id (rf_id r) (put_value c) (ss_refs s)" "ticks (ss_db s) < ticks (ss_db t)"
    using assms(1) by (rule rotate_secret_cases)
  from own_ref_Inr [OF own(1)] have r: "r \<in> set (ss_refs s)" "rf_ws r = wid sv" by simp_all
  have name: "vw_name w = rf_name r" by (simp add: w view_secret_def put_value_def)
  have rows: "set (ss_refs t) = (\<lambda>q. if rf_id q = rf_id r then put_value c q else q) ` set (ss_refs s)"
    by (simp add: t(1) set_row_modify)
  have keep: "map h (ss_refs t) = map h (ss_refs s)" if "\<And>q. h (put_value c q) = h q" for h :: "secret_ref \<Rightarrow> 'b"
    using that by (simp add: t(1) row_modify_def update_rows_def)
  have "\<exists>k < ticks (ss_db t). rf_id q = uuid R k" if q: "q \<in> set (ss_refs t)" for q
  proof -
    from q rows obtain q' where "q' \<in> set (ss_refs s)" "rf_id q = rf_id q'" by (auto simp: put_value_def split: if_splits)
    with assms(2) t(2) show ?thesis by (auto simp: refs_ok_def intro: less_trans)
  qed
  moreover have "distinct (map rf_id (ss_refs t))"
    by (subst keep) (use assms(2) in \<open>simp_all add: put_value_def refs_ok_def\<close>)
  moreover have "distinct (map (\<lambda>r. (rf_ws r, rf_name r)) (ss_refs t))"
    by (subst keep) (use assms(2) in \<open>simp_all add: put_value_def refs_ok_def\<close>)
  ultimately have ok: "refs_ok R t" by (simp add: refs_ok_def)
  have "keeps_ledger X G t (given((wid sv, vw_name w) \<mapsto> v))"
  proof (rule keeps_ledger_put)
    have "put_value c r \<in> set (ss_refs t)" using r(1) by (force simp: rows)
    then show "stores X G t (wid sv) (vw_name w) v"
      by (rule storesI [OF _ _ _ _ _ seals [OF assms(4)] k opens [OF assms(4)]])
        (simp_all add: put_value_def r(2) own(2) name c)
  next
    fix w' n v' assume "given (w', n) = Some v'" and other: "(w', n) \<noteq> (wid sv, vw_name w)"
    with assms(3) have "stores X G s w' n v'" by (intro keeps_ledgerD)
    then obtain q k' c' where q: "q \<in> set (ss_refs s)" "rf_ws q = w'" "rf_name q = n"
      "rf_provider q = ''encrypted_local''" "rf_value q = Some c'" "c' \<noteq> []" "master_key X G = Inr k'" "open_sealed X k' c' = Some v'"
      by (rule storesE)
    have "rf_id q \<noteq> rf_id r"
    proof
      assume "rf_id q = rf_id r"
      with assms(2) q(1) r(1) have "q = r" by (auto simp: refs_ok_def distinct_map inj_on_def)
      with q(2,3) r(2) name other show False by simp
    qed
    with q(1) have "q \<in> set (ss_refs t)" by (force simp: rows)
    then show "stores X G t w' n v'" by (rule storesI [OF _ q(2-8)])
  qed
  with ok show ?thesis by blast
qed

lemma secret_run_keeps:
  assumes "secret_run R U N X G s given" "inj (uuid R)" "sealing X"
  shows "refs_ok R s \<and> keeps_ledger X G s given"
  using assms(1)
proof (induction rule: secret_run.induct)
  case (Start s)
  then show ?case by (simp add: refs_ok_def keeps_ledger_def)
next
  case (Create s given sv f v t)
  then show ?case using create_keeps [OF Create.hyps(2) _ _ assms(2,3)] by blast
next
  case (Rotate s given sv i v w t)
  then show ?case using rotate_keeps [OF Rotate.hyps(2) _ _ assms(3)] by blast
next
  case (Test s given sv i b t)
  then have "ss_refs t = ss_refs s" "ticks (ss_db s) \<le> ticks (ss_db t)"
    by (auto simp: test_secret_def res_elim audit_frame)
  with Test.IH show ?case using refs_ok_later [of R s t] keeps_ledger_mono [of X G s given t] by simp
next
  case (Other s given t)
  then show ?case using refs_ok_later [of R s t] keeps_ledger_mono [of X G s given t] by simp
qed

lemma resolves_ledger:
  assumes "refs_ok R s" "keeps_ledger X G s given" "given (w, n) = Some v"
  shows "resolve_secret U N X G w s (''secret:'' @ n) = Inr v"
proof -
  obtain r k c where r: "r \<in> set (ss_refs s)" "rf_ws r = w" "rf_name r = n" "rf_provider r = ''encrypted_local''"
    "rf_value r = Some c" "c \<noteq> []" "master_key X G = Inr k" "open_sealed X k c = Some v"
    using keeps_ledgerD [OF assms(2,3)] by (rule storesE)
  have "find_ref w n s = Some r"
    using find_ref_distinct [of s r] r(1-3) assms(1) by (simp add: refs_ok_def)
  with r show ?thesis by (simp add: resolve_secret_def resolve_ref_def truthy_str_def guard_res_def)
qed


section \<open>Requests\<close>

datatype secret_request =
    AskCreate service secret_form
  | AskRotate service ident string
  | AskTest service ident
  | AskList service

datatype secret_answer = Shown "secret_view list" | Tested bool int

text \<open>A refused request is rolled back; the answers are kept in order.\<close>

fun ask ::
    "runtime \<Rightarrow> parsers \<Rightarrow> network \<Rightarrow> outside \<Rightarrow> vault_settings \<Rightarrow> secret_request \<Rightarrow> secret_state \<Rightarrow>
     (secret_answer \<times> secret_state) res" where
  "ask R U N X G (AskCreate sv f) s = bind_res (create_secret R X G sv f s) (\<lambda>(v, t). Inr (Shown [v], t))"
| "ask R U N X G (AskRotate sv i v) s = bind_res (rotate_secret R X G sv i v s) (\<lambda>(w, t). Inr (Shown [w], t))"
| "ask R U N X G (AskTest sv i) s = bind_res (test_secret R U N X G sv i s) (\<lambda>((b, n), t). Inr (Tested b n, t))"
| "ask R U N X G (AskList sv) s = Inr (Shown (list_secrets sv s), s)"

fun ask_all ::
    "runtime \<Rightarrow> parsers \<Rightarrow> network \<Rightarrow> outside \<Rightarrow> vault_settings \<Rightarrow> secret_request list \<Rightarrow> secret_state \<Rightarrow>
     secret_answer res list \<times> secret_state" where
  "ask_all R U N X G [] s = ([], s)"
| "ask_all R U N X G (q # qs) s =
     (case ask R U N X G q s of
        Inl e \<Rightarrow> apfst (\<lambda>as. Inl e # as) (ask_all R U N X G qs s)
      | Inr (a, t) \<Rightarrow> apfst (\<lambda>as. Inr a # as) (ask_all R U N X G qs t))"

section \<open>What does not depend on the values\<close>

text \<open>What is left of a form, a request and a reference when the values are blanked.\<close>

definition blank :: "string option \<Rightarrow> string option" where
  "blank = map_option (\<lambda>v. if v = [] then [] else ''*'')"

definition hide_form :: "secret_form \<Rightarrow> secret_form" where
  "hide_form f = f\<lparr>sm_value := blank (sm_value f)\<rparr>"

fun hide_request :: "secret_request \<Rightarrow> secret_request" where
  "hide_request (AskCreate sv f) = AskCreate sv (hide_form f)"
| "hide_request (AskRotate sv i v) = AskRotate sv i (if v = [] then [] else ''*'')"
| "hide_request (AskTest sv i) = AskTest sv i"
| "hide_request (AskList sv) = AskList sv"

definition hide :: "secret_ref \<Rightarrow> secret_ref" where
  "hide r = r\<lparr>rf_value := blank (rf_value r)\<rparr>"

text \<open>
  Two states of the table and two outsides that differ in values only: the sealed values of a reference
  are both absent, both empty or both there, and the key in force opens both of them or neither, to
  values of which both are empty or neither; Vault answers a request in both with a value, of which both
  are empty or neither, or with the same failure.
\<close>

definition both_empty :: "'a list \<Rightarrow> 'b list \<Rightarrow> bool" where
  "both_empty v v' \<longleftrightarrow> (v = []) = (v' = [])"

definition sealed_alike :: "outside \<Rightarrow> vault_settings \<Rightarrow> string \<Rightarrow> string \<Rightarrow> bool" where
  "sealed_alike X G c c' \<longleftrightarrow> both_empty c c' \<and>
     (\<forall>k. master_key X G = Inr k \<longrightarrow> rel_option both_empty (open_sealed X k c) (open_sealed X k c'))"

definition alike :: "outside \<Rightarrow> vault_settings \<Rightarrow> secret_ref \<Rightarrow> secret_ref \<Rightarrow> bool" where
  "alike X G r r' \<longleftrightarrow> r' = r\<lparr>rf_value := rf_value r'\<rparr> \<and> rel_option (sealed_alike X G) (rf_value r) (rf_value r')"

definition states_alike :: "outside \<Rightarrow> vault_settings \<Rightarrow> secret_state \<Rightarrow> secret_state \<Rightarrow> bool" where
  "states_alike X G s s' \<longleftrightarrow> ss_db s = ss_db s' \<and> list_all2 (alike X G) (ss_refs s) (ss_refs s')"

definition outsides_alike :: "vault_settings \<Rightarrow> outside \<Rightarrow> outside \<Rightarrow> bool" where
  "outsides_alike G X X' \<longleftrightarrow> X' = X\<lparr>vault_get := vault_get X'\<rparr> \<and>
     (\<forall>u l. rel_sum (=) both_empty (vault_resolve X G u l) (vault_resolve X' G u l))"

lemma alikeD:
  assumes "alike X G r r'"
  shows "rf_id r' = rf_id r" "rf_ws r' = rf_ws r" "rf_name r' = rf_name r" "rf_provider r' = rf_provider r"
    "rf_locator r' = rf_locator r" "rf_version r' = rf_version r" "rf_by r' = rf_by r"
    "rel_option (sealed_alike X G) (rf_value r) (rf_value r')" "truthy_str (rf_value r') = truthy_str (rf_value r)"
proof -
  show v: "rel_option (sealed_alike X G) (rf_value r) (rf_value r')" using assms by (simp add: alike_def)
  then show "truthy_str (rf_value r') = truthy_str (rf_value r)"
    by (cases "rf_value r"; cases "rf_value r'") (auto simp: sealed_alike_def both_empty_def truthy_str_def)
  from assms obtain v where "r' = r\<lparr>rf_value := v\<rparr>" unfolding alike_def by blast
  then show "rf_id r' = rf_id r" "rf_ws r' = rf_ws r" "rf_name r' = rf_name r" "rf_provider r' = rf_provider r"
    "rf_locator r' = rf_locator r" "rf_version r' = rf_version r" "rf_by r' = rf_by r" by simp_all
qed

lemma alike_view: "alike X G r r' \<Longrightarrow> view_secret r' = view_secret r"
  by (simp add: view_secret_def alikeD)

lemma find_alike:
  assumes "list_all2 (alike X G) rs rs'" "\<And>r r'. alike X G r r' \<Longrightarrow> P r' = P r"
  shows "rel_option (alike X G) (find P rs) (find P rs')"
  using assms(1) by (induction rule: list_all2_induct) (simp_all add: assms(2))

lemma find_ref_alike:
  assumes "states_alike X G s s'"
  shows "rel_option (alike X G) (find_ref w n s) (find_ref w n s')"
  unfolding find_ref_def by (rule find_alike) (use assms in \<open>simp_all add: states_alike_def alikeD\<close>)

lemma own_ref_alike:
  assumes "states_alike X G s s'"
  shows "rel_sum (=) (alike X G) (own_ref sv i s) (own_ref sv i s')"
proof -
  have "rel_option (alike X G) (find (\<lambda>r. rf_id r = i \<and> rf_ws r = wid sv) (ss_refs s))
      (find (\<lambda>r. rf_id r = i \<and> rf_ws r = wid sv) (ss_refs s'))"
    by (rule find_alike) (use assms in \<open>simp_all add: states_alike_def alikeD\<close>)
  then show ?thesis
    unfolding own_ref_def from_option_def by (auto elim!: option.rel_cases)
qed

lemma list_secrets_alike:
  assumes "states_alike X G s s'"
  shows "list_secrets sv s = list_secrets sv s'"
proof -
  have hide: "hide r = hide r'" if "alike X G r r'" for r r'
  proof -
    from that have "blank (rf_value r) = blank (rf_value r')"
      by (cases "rf_value r"; cases "rf_value r'")
        (auto simp: alike_def blank_def sealed_alike_def both_empty_def)
    moreover from that obtain v where "r' = r\<lparr>rf_value := v\<rparr>" unfolding alike_def by blast
    ultimately show ?thesis by (simp add: hide_def)
  qed
  have name: "rf_name (hide r) = rf_name r" "rf_ws (hide r) = rf_ws r" "view_secret (hide r) = view_secret r" for r
    by (cases "rf_value r"; simp add: hide_def view_secret_def blank_def truthy_str_def)+
  have ins: "insort_key rf_name (hide r) (map hide rs) = map hide (insort_key rf_name r rs)" for r rs
    by (induction rs) (simp_all add: name)
  have "sort_key rf_name (map hide rs) = map hide (sort_key rf_name rs)" for rs
    by (induction rs) (simp_all add: ins)
  then have shown: "list_secrets sv s = map view_secret (sort_key rf_name (filter (\<lambda>r. rf_ws r = wid sv) (map hide (ss_refs s))))" for s
    by (simp add: list_secrets_def filter_map o_def name)
  have "map hide rs = map hide rs'" if "list_all2 (alike X G) rs rs'" for rs rs'
    using that by (induction rule: list_all2_induct) (simp_all add: hide)
  with assms show ?thesis unfolding states_alike_def shown by metis
qed

text \<open>Encryption fails or succeeds alike for every value.\<close>

lemma encrypted:
  "catch_as key_failures c (encrypt_secret X G n v) =
     bind_res (catch_as key_failures c (master_key X G)) (\<lambda>k. Inr (fernet_seal X k n v))"
  by (cases "master_key X G") (auto simp: encrypt_secret_def catch_as_def split: err.splits)

lemma seals_alike:
  assumes "sealing X" "both_empty v v'" "catch_as cs c (master_key X G) = Inr k"
  shows "sealed_alike X G (fernet_seal X k n v) (fernet_seal X k n v')"
proof -
  from assms(3) have "master_key X G = Inr k" by (auto simp: catch_as_def split: sum.splits err.splits if_splits)
  with assms(1,2) show ?thesis by (simp add: sealed_alike_def opens seals both_empty_def)
qed

text \<open>The reference that a create request makes of its content.\<close>

definition made_ref :: "runtime \<Rightarrow> service \<Rightarrow> secret_form \<Rightarrow> secret_state \<Rightarrow> string option \<times> string \<Rightarrow> secret_ref" where
  "made_ref R sv f s c = \<lparr>rf_id = next_id R (ss_db s), rf_ws = wid sv, rf_name = sm_name f, rf_provider = sm_provider f,
     rf_locator = snd c, rf_value = fst c, rf_version = 1, rf_by = subject sv\<rparr>"

definition after_create :: "runtime \<Rightarrow> service \<Rightarrow> secret_ref \<Rightarrow> secret_state \<Rightarrow> secret_view \<times> secret_state" where
  "after_create R sv r s = (view_secret r,
     \<lparr>ss_db = audit R sv ''secret_reference.created'' ''secret_reference'' (rf_id r)
        (JObj [(''name'', JStr (rf_name r)), (''provider'', JStr (rf_provider r))])
        ((ss_db s)\<lparr>ticks := Suc (ticks (ss_db s))\<rparr>),
      ss_refs = row_add r (ss_refs s)\<rparr>)"

lemma create_secret_made:
  "create_secret R X G sv f s =
     bind_res (administrator_only sv) (\<lambda>_.
     bind_res (guard_res (find_ref (wid sv) (sm_name f) s = None) (HTTPException 409 ''secret_reference_exists'')) (\<lambda>_.
     bind_res (secret_content X G (ticks (ss_db s)) f) (\<lambda>c. Inr (after_create R sv (made_ref R sv f s c) s))))"
  unfolding create_secret_def after_create_def made_ref_def Let_def by (simp only: case_prod_unfold)

text \<open>A form and its blanked values: the same guards, and contents that differ in the sealed value.\<close>

lemma hidden_form:
  assumes "hide_form f = hide_form f'"
  shows "sm_name f' = sm_name f" "sm_provider f' = sm_provider f" "sm_locator f' = sm_locator f"
    "rel_option both_empty (sm_value f) (sm_value f')"
proof -
  have parts: "sm_name (hide_form f) = sm_name f" "sm_provider (hide_form f) = sm_provider f"
    "sm_locator (hide_form f) = sm_locator f" "sm_value (hide_form f) = blank (sm_value f)" for f
    by (simp_all add: hide_form_def)
  show "sm_name f' = sm_name f" "sm_provider f' = sm_provider f" "sm_locator f' = sm_locator f"
    using assms parts by metis+
  have "blank (sm_value f) = blank (sm_value f')" using assms parts by metis
  then show "rel_option both_empty (sm_value f) (sm_value f')"
    by (cases "sm_value f"; cases "sm_value f'") (auto simp: blank_def both_empty_def split: if_splits)
qed

lemma content_alike:
  assumes "sealing X" "hide_form f = hide_form f'"
  shows "rel_sum (=) (rel_prod (rel_option (sealed_alike X G)) (=)) (secret_content X G n f) (secret_content X G n f')"
proof (cases "sm_value f")
  case None
  then have "sm_value f' = None" using hidden_form(4) [OF assms(2)] by simp
  with None show ?thesis
    by (simp add: secret_content_def hidden_form(1-3) [OF assms(2)] truthy_str_def guard_res_def)
next
  case (Some v)
  then obtain v' where v': "sm_value f' = Some v'" "both_empty v v'"
    using hidden_form(4) [OF assms(2)] by (cases "sm_value f'") auto
  show ?thesis
    using seals_alike [OF assms(1) v'(2), of key_failures "''master_key_unavailable''" G _ n] v' Some
    by (cases "catch_as key_failures ''master_key_unavailable'' (master_key X G)")
      (simp_all add: secret_content_def hidden_form(1-3) [OF assms(2)] encrypted truthy_str_def guard_res_def both_empty_def)
qed

definition answers_alike :: "outside \<Rightarrow> vault_settings \<Rightarrow> ('a \<times> secret_state) res \<Rightarrow> ('a \<times> secret_state) res \<Rightarrow> bool" where
  "answers_alike X G = rel_sum (=) (rel_prod (=) (states_alike X G))"

lemma answers_alike_simps [simp]:
  "answers_alike X G (Inl e) (Inl e') \<longleftrightarrow> e = e'"
  "answers_alike X G (Inr (a, t)) (Inr (a', t')) \<longleftrightarrow> a = a' \<and> states_alike X G t t'"
  by (simp_all add: answers_alike_def)

lemma create_alike:
  assumes "sealing X" "hide_form f = hide_form f'" "states_alike X G s s'"
  shows "answers_alike X G (create_secret R X G sv f s) (create_secret R X G sv f' s')"
proof -
  have db: "ss_db s' = ss_db s" and refs: "list_all2 (alike X G) (ss_refs s) (ss_refs s')"
    using assms(3) by (simp_all add: states_alike_def)
  have none: "find_ref w n s' = None \<longleftrightarrow> find_ref w n s = None" for w n
    using find_ref_alike [OF assms(3), of w n] by (cases "find_ref w n s"; cases "find_ref w n s'") auto
  have made: "answers_alike X G (Inr (after_create R sv (made_ref R sv f s c) s))
      (Inr (after_create R sv (made_ref R sv f' s' c') s'))"
    if "rel_prod (rel_option (sealed_alike X G)) (=) c c'" for c c'
  proof -
    from that have "alike X G (made_ref R sv f s c) (made_ref R sv f' s' c')"
      by (simp add: alike_def made_ref_def db hidden_form(1-3) [OF assms(2)] rel_prod_conv split: prod.splits)
    from alike_view [OF this] alikeD [OF this] this refs show ?thesis
      by (simp add: after_create_def states_alike_def db row_add_def list_all2_appendI)
  qed
  have "rel_sum (=) (rel_prod (rel_option (sealed_alike X G)) (=)) (secret_content X G (ticks (ss_db s)) f)
      (secret_content X G (ticks (ss_db s')) f')"
    unfolding db by (rule content_alike [OF assms(1,2)])
  with made show ?thesis
    unfolding create_secret_made none hidden_form(1) [OF assms(2)]
    by (cases "secret_content X G (ticks (ss_db s)) f"; cases "secret_content X G (ticks (ss_db s')) f'")
      (simp_all add: administrator_only_def guard_res_def)
qed

definition after_rotate :: "runtime \<Rightarrow> service \<Rightarrow> string \<Rightarrow> secret_ref \<Rightarrow> secret_state \<Rightarrow> secret_view \<times> secret_state" where
  "after_rotate R sv c r s = (view_secret (put_value c r),
     \<lparr>ss_db = audit R sv ''secret_reference.rotated'' ''secret_reference'' (rf_id r)
        (JObj [(''version'', JInt (rf_version r + 1))]) ((ss_db s)\<lparr>ticks := Suc (ticks (ss_db s))\<rparr>),
      ss_refs = row_modify rf_id (rf_id r) (put_value c) (ss_refs s)\<rparr>)"

lemma bind_res_assoc: "bind_res (bind_res m f) g = bind_res m (\<lambda>x. bind_res (f x) g)"
  by (cases m) simp_all

lemma rotate_secret_made:
  "rotate_secret R X G sv i v s =
     bind_res (administrator_only sv) (\<lambda>_.
     bind_res (own_ref sv i s) (\<lambda>r.
     bind_res (guard_res (rf_provider r = ''encrypted_local'') (HTTPException 409 ''external_secret_rotates_at_provider'')) (\<lambda>_.
     bind_res (catch_as key_failures ''master_key_unavailable'' (master_key X G)) (\<lambda>k.
     Inr (after_rotate R sv (fernet_seal X k (ticks (ss_db s)) v) r s)))))"
  unfolding rotate_secret_def after_rotate_def encrypted bind_res_assoc bind_res_simps ..

lemma put_value_alike:
  assumes "alike X G r r'" "sealed_alike X G c c'"
  shows "alike X G (put_value c r) (put_value c' r')"
proof -
  from assms(1) obtain v where "r' = r\<lparr>rf_value := v\<rparr>" unfolding alike_def by blast
  with assms(2) show ?thesis by (simp add: alike_def put_value_def)
qed

lemma rotate_alike:
  assumes "sealing X" "both_empty v v'" "states_alike X G s s'"
  shows "answers_alike X G (rotate_secret R X G sv i v s) (rotate_secret R X G sv i v' s')"
proof -
  have db: "ss_db s' = ss_db s" and refs: "list_all2 (alike X G) (ss_refs s) (ss_refs s')"
    using assms(3) by (simp_all add: states_alike_def)
  have changed: "list_all2 (alike X G) (row_modify rf_id j (put_value c) rs) (row_modify rf_id j (put_value c') rs')"
    if "list_all2 (alike X G) rs rs'" "sealed_alike X G c c'" for j c c' rs rs'
    using that(1) by (induction rule: list_all2_induct)
      (auto simp: row_modify_def update_rows_def alikeD(1) intro: put_value_alike [OF _ that(2)])
  have rotated: "answers_alike X G (Inr (after_rotate R sv (fernet_seal X k (ticks (ss_db s)) v) r s))
      (Inr (after_rotate R sv (fernet_seal X k (ticks (ss_db s)) v') r' s'))"
    if "alike X G r r'" "catch_as key_failures ''master_key_unavailable'' (master_key X G) = Inr k" for r r' k
  proof -
    note c = seals_alike [OF assms(1,2) that(2), of "ticks (ss_db s)"]
    from alike_view [OF put_value_alike [OF that(1) c]] changed [OF refs c, of "rf_id r"] show ?thesis
      by (simp add: after_rotate_def states_alike_def db alikeD [OF that(1)])
  qed
  from own_ref_alike [OF assms(3), of sv i] consider
      (no) e where "own_ref sv i s = Inl e" "own_ref sv i s' = Inl e"
    | (yes) r r' where "own_ref sv i s = Inr r" "own_ref sv i s' = Inr r'" "alike X G r r'"
    by (cases "own_ref sv i s"; cases "own_ref sv i s'") auto
  then show ?thesis
  proof cases
    case no
    then show ?thesis by (simp add: rotate_secret_made administrator_only_def guard_res_def)
  next
    case yes
    with rotated [OF yes(3)] show ?thesis
      by (cases "catch_as key_failures ''master_key_unavailable'' (master_key X G)")
        (simp_all add: rotate_secret_made administrator_only_def guard_res_def db alikeD [OF yes(3)])
  qed
qed

lemma resolve_alike:
  assumes "states_alike X G s s'" "outsides_alike G X X'"
  shows "rel_sum (=) both_empty (resolve_secret U N X G w s (''secret:'' @ n)) (resolve_secret U N X' G w s' (''secret:'' @ n))"
proof -
  from assms(2) obtain g where g: "X' = X\<lparr>vault_get := g\<rparr>" unfolding outsides_alike_def by blast
  have vault: "rel_sum (=) both_empty (vault_resolve X G u l) (vault_resolve X' G u l)" for u l
    using assms(2) by (simp add: outsides_alike_def)
  have key: "master_key X' G = master_key X G" "open_sealed X' = open_sealed X" by (simp_all add: master_key_def g)
  have found: "rel_sum (=) both_empty (resolve_ref U N X G r) (resolve_ref U N X' G r')" if a: "alike X G r r'" for r r'
  proof (cases "rf_provider r = ''encrypted_local''")
    case True
    show ?thesis
    proof (cases "rf_value r")
      case None
      then have "rf_value r' = None" using alikeD(8) [OF a] by simp
      with None True show ?thesis by (simp add: resolve_ref_def alikeD [OF a] truthy_str_def guard_res_def)
    next
      case (Some c)
      then obtain c' where c': "rf_value r' = Some c'" "sealed_alike X G c c'" using alikeD(8) [OF a] by (cases "rf_value r'") auto
      have "rel_sum (=) both_empty (from_option (PyError ''RuntimeError'') (open_sealed X k c))
          (from_option (PyError ''RuntimeError'') (open_sealed X k c'))" if "master_key X G = Inr k" for k
        using c'(2) that by (cases "open_sealed X k c"; cases "open_sealed X k c'") (auto simp: sealed_alike_def)
      moreover have "(c = []) = (c' = [])" using c'(2) by (simp add: sealed_alike_def both_empty_def)
      ultimately show ?thesis using Some c'(1) True
        by (cases "master_key X G") (simp_all add: resolve_ref_def alikeD(4) [OF a] truthy_str_def guard_res_def key)
    qed
  next
    case False
    with vault show ?thesis
      by (cases "new_vault U N G") (simp_all add: resolve_ref_def alikeD(4,5) [OF a])
  qed
  show ?thesis
    using find_ref_alike [OF assms(1), of w n] found
    by (cases "find_ref w n s"; cases "find_ref w n s'") (auto simp: resolve_secret_def)
qed

lemma test_alike:
  assumes "states_alike X G s s'" "outsides_alike G X X'"
  shows "answers_alike X G (test_secret R U N X G sv i s) (test_secret R U N X' G sv i s')"
proof -
  have db: "ss_db s' = ss_db s" using assms(1) by (simp add: states_alike_def)
  from own_ref_alike [OF assms(1), of sv i] consider
      (no) e where "own_ref sv i s = Inl e" "own_ref sv i s' = Inl e"
    | (yes) r r' where "own_ref sv i s = Inr r" "own_ref sv i s' = Inr r'" "alike X G r r'"
    by (cases "own_ref sv i s"; cases "own_ref sv i s'") auto
  then show ?thesis
  proof cases
    case no
    then show ?thesis by (simp add: test_secret_def)
  next
    case yes
    have "rel_sum (=) both_empty (catch_as cs c v) (catch_as cs c v')" if "rel_sum (=) both_empty v v'" for cs c v v'
      using that by (cases v; cases v') (auto simp: catch_as_def split: err.splits)
    from this [OF resolve_alike [OF assms, of U N "wid sv" "rf_name r"], of "''KeyError'' # key_failures" "''secret_unavailable''"]
    show ?thesis
      using assms(1) yes(1,2) alikeD [OF yes(3)]
      by (cases "catch_as (''KeyError'' # key_failures) ''secret_unavailable'' (resolve_secret U N X G (wid sv) s (''secret:'' @ rf_name r))";
          cases "catch_as (''KeyError'' # key_failures) ''secret_unavailable'' (resolve_secret U N X' G (wid sv) s' (''secret:'' @ rf_name r))")
        (auto simp: test_secret_def states_alike_def db both_empty_def)
  qed
qed

lemma ask_alike:
  assumes "sealing X" "outsides_alike G X X'" "hide_request q = hide_request q'" "states_alike X G s s'"
  shows "answers_alike X G (ask R U N X G q s) (ask R U N X' G q' s')"
proof -
  from assms(2) obtain g where g: "X' = X\<lparr>vault_get := g\<rparr>" unfolding outsides_alike_def by blast
  have same: "create_secret R X' = create_secret R X" "rotate_secret R X' = rotate_secret R X"
    by (intro ext, simp add: g create_secret_def secret_content_def encrypt_secret_def master_key_def)
      (intro ext, simp add: g rotate_secret_def encrypt_secret_def master_key_def)
  show ?thesis
  proof (cases q)
    case (AskCreate sv f)
    with assms(3) obtain f' where q': "q' = AskCreate sv f'" "hide_form f = hide_form f'" by (cases q') auto
    from create_alike [OF assms(1) q'(2) assms(4), of R sv] AskCreate q'(1) show ?thesis
      by (cases "create_secret R X G sv f s"; cases "create_secret R X G sv f' s'") (auto simp: same answers_alike_def)
  next
    case (AskRotate sv i v)
    with assms(3) obtain v' where q': "q' = AskRotate sv i v'" "both_empty v v'"
      by (cases q') (auto simp: both_empty_def split: if_splits)
    from rotate_alike [OF assms(1) q'(2) assms(4), of R sv i] AskRotate q'(1) show ?thesis
      by (cases "rotate_secret R X G sv i v s"; cases "rotate_secret R X G sv i v' s'") (auto simp: same answers_alike_def)
  next
    case (AskTest sv i)
    with assms(3) have q': "q' = AskTest sv i" by (cases q') auto
    from test_alike [OF assms(4,2), of R U N sv i] AskTest q' show ?thesis
      by (cases "test_secret R U N X G sv i s"; cases "test_secret R U N X' G sv i s'") (auto simp: answers_alike_def)
  next
    case (AskList sv)
    with assms(3) have "q' = AskList sv" by (cases q') auto
    with AskList list_secrets_alike [OF assms(4)] assms(4) show ?thesis by simp
  qed
qed

lemma asked_alike:
  assumes "sealing X" "outsides_alike G X X'" "map hide_request qs = map hide_request qs'" "states_alike X G s s'"
  shows "fst (ask_all R U N X G qs s) = fst (ask_all R U N X' G qs' s') \<and>
    states_alike X G (snd (ask_all R U N X G qs s)) (snd (ask_all R U N X' G qs' s'))"
  using assms(3,4)
proof (induction qs arbitrary: qs' s s')
  case Nil
  then show ?case by simp
next
  case (Cons q qs)
  then obtain q' rest where qs': "qs' = q' # rest" and q: "hide_request q = hide_request q'"
    and rest: "map hide_request qs = map hide_request rest" by (cases qs') auto
  from ask_alike [OF assms(1,2) q Cons.prems(2), of R U N]
  consider (no) e where "ask R U N X G q s = Inl e" "ask R U N X' G q' s' = Inl e"
    | (yes) a t t' where "ask R U N X G q s = Inr (a, t)" "ask R U N X' G q' s' = Inr (a, t')" "states_alike X G t t'"
    by (cases "ask R U N X G q s"; cases "ask R U N X' G q' s'") (auto simp: answers_alike_def)
  then show ?case
  proof cases
    case no
    with Cons.IH [OF rest Cons.prems(2)] show ?thesis by (simp add: qs')
  next
    case yes
    from yes(1,2) Cons.IH [OF rest yes(3)] show ?thesis by (simp add: qs')
  qed
qed

section \<open>What the secrets promise\<close>

text \<open>
  C25. What was stored is what is resolved: after any sequence of creations, rotations, tests and other
  work, in any workspaces and under any outcome of each request, the reference \<open>secret:name\<close> of a
  workspace resolves to exactly the value that was last created or rotated into that name there.
\<close>

theorem stored_secrets_resolve:
  assumes "secret_run R U N X G s given" "inj (uuid R)" "sealing X" "given (w, n) = Some v"
  shows "resolve_secret U N X G w s (''secret:'' @ n) = Inr v"
  using secret_run_keeps [OF assms(1-3)] resolves_ledger assms(4) by blast

text \<open>A workspace with a key file and a cipher that prefixes.\<close>

definition sample_outside :: outside where
  "sample_outside = \<lparr>fernet_seal = (\<lambda>k n v. ''#'' @ v), open_sealed = (\<lambda>k c. Some (tl c)), load_key = (\<lambda>_. Inr ''key''),
     real_path = Inr, run_root = ''/run/secrets'', file_text = (\<lambda>_. Inl (PyError ''OSError'')),
     environment_value = (\<lambda>_. None), quote_part = (\<lambda>p. p), vault_get = (\<lambda>_ _. Inl (PyError ''HTTPError''))\<rparr>"

definition sample_vault :: vault_settings where
  "sample_vault = \<lparr>vs_production = True, vs_key_file = Some ''/run/key'', vs_url = None, vs_hosts = [], vs_token_file = None,
     vs_namespace = None, vs_private = False\<rparr>"

definition sample_form :: secret_form where
  "sample_form = \<lparr>sm_name = ''crm'', sm_provider = ''encrypted_local'', sm_value = Some ''hunter2'', sm_locator = None\<rparr>"

definition sample_admin :: service where
  "sample_admin = \<lparr>wid = ''w'', subject = ''sofia'', roles = [''administrator'']\<rparr>"

definition no_secrets :: secret_state where
  "no_secrets = \<lparr>ss_db = empty_db, ss_refs = []\<rparr>"

definition plain_parsers :: parsers where
  "plain_parsers = \<lparr>urlparse = (\<lambda>_. None), read_int = (\<lambda>_. None)\<rparr>"

definition quiet_network :: network where
  "quiet_network = \<lparr>nt_resolve = (\<lambda>_ _. Inr []), nt_join = (\<lambda>_ u. u), nt_get = (\<lambda>_ _. Inl (PyError ''HTTPError''))\<rparr>"

lemmas sample_secrets = sample_outside_def sample_vault_def sample_form_def sample_admin_def no_secrets_def

lemma sample_sealing: "sealing sample_outside"
  by (simp add: sealing_def sample_outside_def)

definition sample_created :: "secret_view \<times> secret_state" where
  "sample_created = after_create ascii_runtime sample_admin
     (made_ref ascii_runtime sample_admin sample_form no_secrets (Some ''#hunter2'', ''encrypted:database'')) no_secrets"

lemma sample_create:
  "create_secret ascii_runtime sample_outside sample_vault sample_admin sample_form no_secrets = Inr sample_created"
  by (simp add: create_secret_made sample_created_def secret_content_def encrypt_secret_def master_key_def catch_as_def
      administrator_only_def guard_res_def find_ref_def truthy_str_def sample_secrets)

theorem stored_secrets_resolve_witness:
  "\<exists>s. resolve_secret plain_parsers quiet_network sample_outside sample_vault ''w'' s ''secret:crm'' = Inr ''hunter2''"
proof -
  let ?s = "snd sample_created"
  have "secret_run ascii_runtime plain_parsers quiet_network sample_outside sample_vault no_secrets (\<lambda>_. None)"
    by (rule secret_run.Start) (simp add: no_secrets_def)
  moreover have "create_secret ascii_runtime sample_outside sample_vault sample_admin sample_form no_secrets =
      Inr (fst sample_created, ?s)"
    unfolding sample_create by simp
  ultimately have "secret_run ascii_runtime plain_parsers quiet_network sample_outside sample_vault ?s
      ((\<lambda>_. None)((''w'', ''crm'') := Some ''hunter2''))"
    using secret_run.Create by (fastforce simp: sample_form_def sample_admin_def)
  from stored_secrets_resolve [OF this ascii_uuid sample_sealing, of "''w''" "''crm''" "''hunter2''"]
  show ?thesis by (intro exI [of _ ?s]) simp
qed

text \<open>
  C26. Secret values are write-only: the answers to any sequence of requests to create, rotate, test and
  list references, refused ones included, and the database they leave with its audit trail, are the same
  whatever the values are: those in the requests, those sealed in the table, and those that Vault holds.
  What does show is whether a value is there, whether the key opens it and whether it is empty.
\<close>

theorem secret_values_are_not_shown:
  assumes "sealing X" "outsides_alike G X X'" "map hide_request qs = map hide_request qs'" "states_alike X G s s'"
  shows "fst (ask_all R U N X G qs s) = fst (ask_all R U N X' G qs' s') \<and>
    ss_db (snd (ask_all R U N X G qs s)) = ss_db (snd (ask_all R U N X' G qs' s'))"
  using asked_alike [OF assms, of R U N] by (simp add: states_alike_def)

text \<open>Two tables with one reference each, whose sealed values differ.\<close>

definition sample_table :: "string \<Rightarrow> secret_state" where
  "sample_table v = \<lparr>ss_db = empty_db, ss_refs = [\<lparr>rf_id = ''i'', rf_ws = ''w'', rf_name = ''erp'',
     rf_provider = ''encrypted_local'', rf_locator = ''encrypted:database'', rf_value = Some (''#'' @ v), rf_version = 1,
     rf_by = ''sofia''\<rparr>]\<rparr>"

theorem secret_values_are_not_shown_witness:
  "fst (ask_all ascii_runtime plain_parsers quiet_network sample_outside sample_vault
       [AskTest sample_admin ''i'', AskCreate sample_admin sample_form, AskRotate sample_admin ''i'' ''swordfish'',
        AskList sample_admin] (sample_table ''xyzzy'')) =
   fst (ask_all ascii_runtime plain_parsers quiet_network sample_outside sample_vault
       [AskTest sample_admin ''i'', AskCreate sample_admin (sample_form\<lparr>sm_value := Some ''letmein''\<rparr>),
        AskRotate sample_admin ''i'' ''sesame'', AskList sample_admin] (sample_table ''plugh'')) \<and>
   fst (ask_all ascii_runtime plain_parsers quiet_network sample_outside sample_vault [AskTest sample_admin ''i'']
       (sample_table ''xyzzy'')) = [Inr (Tested True 1)]"
proof -
  have same: "map hide_request [AskTest sample_admin ''i'', AskCreate sample_admin sample_form,
      AskRotate sample_admin ''i'' ''swordfish'', AskList sample_admin] =
    map hide_request [AskTest sample_admin ''i'', AskCreate sample_admin (sample_form\<lparr>sm_value := Some ''letmein''\<rparr>),
      AskRotate sample_admin ''i'' ''sesame'', AskList sample_admin]"
    by (simp add: hide_form_def blank_def sample_form_def)
  have "rel_sum (=) both_empty x x" for x :: "string res" by (cases x) (simp_all add: both_empty_def)
  then have out: "outsides_alike sample_vault sample_outside sample_outside" by (simp add: outsides_alike_def)
  have tables: "states_alike sample_outside sample_vault (sample_table ''xyzzy'') (sample_table ''plugh'')"
    by (simp add: states_alike_def alike_def sealed_alike_def both_empty_def sample_table_def sample_outside_def)
  have "ask ascii_runtime plain_parsers quiet_network sample_outside sample_vault (AskTest sample_admin ''i'') (sample_table ''xyzzy'') =
    Inr (Tested True 1, (sample_table ''xyzzy'')\<lparr>ss_db := audit ascii_runtime sample_admin ''secret_reference.tested''
      ''secret_reference'' ''i'' (JObj [(''available'', JBool True), (''value_disclosed'', JBool False)]) empty_db\<rparr>)"
    by (simp add: test_secret_def own_ref_def from_option_def resolve_secret_def find_ref_def resolve_ref_def truthy_str_def
        guard_res_def master_key_def catch_as_def sample_table_def sample_outside_def sample_vault_def sample_admin_def)
  then have "fst (ask_all ascii_runtime plain_parsers quiet_network sample_outside sample_vault [AskTest sample_admin ''i'']
       (sample_table ''xyzzy'')) = [Inr (Tested True 1)]"
    by simp
  with secret_values_are_not_shown [OF sample_sealing out same tables, of ascii_runtime plain_parsers quiet_network]
  show ?thesis by simp
qed

end
