(* ===== verification/Webhook.thy ===== *)
theory Webhook
  imports Network Identity
begin

text \<open>
  Inbound change events: the webhook route of api/routes.py with the signature check and the Debezium
  adapter of connectors/events.py. The keyed digest, the digest of the body, JSON parsing, \<open>float\<close> of a
  header and the file with the shared secret are parameters.
\<close>

section \<open>What is not part of the repository\<close>

text \<open>\<open>float(s)\<close>: a time stamp in seconds, infinite, or not a number; None for a ValueError.\<close>

datatype stamp = Seconds real | Infinity | NotANumber

text \<open>pydantic's conversions of a JSON value to \<open>bool\<close> and \<open>datetime\<close> go with \<open>read_int\<close> of the parsers.\<close>

record hook_tools =
  hk_stamp :: "string \<Rightarrow> stamp option"
  hk_hmac :: "string \<Rightarrow> string \<Rightarrow> string \<Rightarrow> string"
  hk_sha :: "string \<Rightarrow> string"
  hk_json :: "string \<Rightarrow> json option"
  hk_file :: "string \<Rightarrow> string res"
  hk_bool :: "json \<Rightarrow> bool option"
  hk_time :: "json \<Rightarrow> time option"

section \<open>The signature\<close>

definition fresh_stamp :: "real \<Rightarrow> stamp \<Rightarrow> bool" where
  "fresh_stamp now t = (case t of Seconds x \<Rightarrow> \<bar>now - x\<bar> \<le> 300 | Infinity \<Rightarrow> False | NotANumber \<Rightarrow> True)"

definition ascii :: "string \<Rightarrow> bool" where
  "ascii s \<longleftrightarrow> (\<forall>c \<in> set s. (of_char c :: nat) < 128)"

text \<open>\<open>hmac.compare_digest\<close> of two strings is a TypeError unless both are ASCII; the expected one is.\<close>

definition verify_hmac :: "hook_tools \<Rightarrow> real \<Rightarrow> string \<Rightarrow> string \<Rightarrow> string \<Rightarrow> string \<Rightarrow> dict res" where
  "verify_hmac W now body timestamp signature secret =
     bind_res (from_option (PyError ''ValueError'') (hk_stamp W timestamp)) (\<lambda>t.
     bind_res (guard_res (fresh_stamp now t) (PyError ''ValueError'')) (\<lambda>_.
     bind_res (guard_res (secret \<noteq> []) (PyError ''ValueError'')) (\<lambda>_.
     bind_res (guard_res (ascii signature) (PyError ''TypeError'')) (\<lambda>_.
     bind_res (guard_res (hk_hmac W secret timestamp body = signature) (PyError ''ValueError'')) (\<lambda>_.
     bind_res (from_option (PyError ''ValueError'') (hk_json W body)) (\<lambda>payload.
     case payload of JObj d \<Rightarrow> Inr d | _ \<Rightarrow> Inl (PyError ''ValueError'')))))))"

section \<open>Records of events\<close>

text \<open>\<open>IncomingRecord(...)\<close>: a ValidationError is a ValueError.\<close>

definition incoming_fits :: "incoming \<Rightarrow> bool" where
  "incoming_fits x \<longleftrightarrow>
     1 \<le> length (in_local x) \<and> length (in_local x) \<le> 255 \<and> 1 \<le> length (in_version x) \<and> length (in_version x) \<le> 80 \<and>
     length (in_values x) \<le> 200 \<and> (case in_sequence x of None \<Rightarrow> True | Some n \<Rightarrow> 0 \<le> n)"

definition checked :: "incoming \<Rightarrow> incoming res" where
  "checked x = bind_res (guard_res (incoming_fits x) (PyError ''ValueError'')) (\<lambda>_. Inr x)"

text \<open>A field that may be absent or null.\<close>

definition optional_field :: "(json \<Rightarrow> 'a option) \<Rightarrow> dict \<Rightarrow> string \<Rightarrow> 'a option option" where
  "optional_field f d k = (case dget d k of JNull \<Rightarrow> Some None | v \<Rightarrow> map_option Some (f v))"

definition bool_fields :: "hook_tools \<Rightarrow> dict \<Rightarrow> dict option" where
  "bool_fields W d =
     (if \<forall>x \<in> set d. hk_bool W (snd x) \<noteq> None
      then Some (map (\<lambda>(k, v). (k, JBool (the (hk_bool W v)))) d) else None)"

definition mode_field :: "dict \<Rightarrow> update_mode option" where
  "mode_field d =
     (case dget_or d ''update_mode'' (JStr ''full'') of
        JStr m \<Rightarrow> (if m = ''full'' then Some FullUpdate else if m = ''partial'' then Some PartialUpdate else None)
      | _ \<Rightarrow> None)"

definition read_incoming :: "parsers \<Rightarrow> hook_tools \<Rightarrow> dict \<Rightarrow> incoming res" where
  "read_incoming U W d =
     (case (string_field d ''local_id'', string_field d ''version'', map_of d ''values'',
            Option.bind (dict_field d ''verification'') (bool_fields W), optional_field (hk_time W) d ''effective_from'',
            optional_field (read_int U) d ''sequence'', mode_field d, hk_bool W (dget_or d ''deleted'' (JBool False))) of
        (Some l, Some v, Some (JObj vs), Some ver, Some eff, Some seq, Some m, Some del) \<Rightarrow>
          checked \<lparr>in_local = l, in_version = v, in_values = vs, in_verification = ver, in_effective = eff,
            in_sequence = seq, in_mode = m, in_deleted = del\<rparr>
      | _ \<Rightarrow> Inl (PyError ''ValueError''))"

text \<open>\<open>operation not in {"c", "u", "d", "r"}\<close>: a list or a dict cannot be hashed.\<close>

definition operation_of :: "json \<Rightarrow> string res" where
  "operation_of v =
     (case v of
        JStr c \<Rightarrow> (if c \<in> {''c'', ''u'', ''d'', ''r''} then Inr c else Inl (PyError ''ValueError''))
      | JList _ \<Rightarrow> Inl (PyError ''TypeError'') | JObj _ \<Rightarrow> Inl (PyError ''TypeError'')
      | _ \<Rightarrow> Inl (PyError ''ValueError''))"

definition py_or :: "json \<Rightarrow> json \<Rightarrow> json" where
  "py_or a b = (if truthy a then a else b)"

definition sequence_of :: "json \<Rightarrow> int option" where
  "sequence_of v = (case v of JInt i \<Rightarrow> Some i | JBool b \<Rightarrow> Some (if b then 1 else 0) | _ \<Rightarrow> None)"

definition debezium_record :: "runtime \<Rightarrow> json \<Rightarrow> string \<Rightarrow> incoming res" where
  "debezium_record R envelope field =
     bind_res (as_dict envelope) (\<lambda>e.
     bind_res (as_dict (dget_or e ''payload'' (JObj e))) (\<lambda>p.
     bind_res (operation_of (dget p ''op'')) (\<lambda>c.
     case (if c = ''d'' then dget p ''before'' else dget p ''after'') of
       JObj vs \<Rightarrow>
         bind_res (from_option (PyError ''ValueError'') (map_of vs field)) (\<lambda>i.
         bind_res (as_dict (py_or (dget p ''source'') (JObj []))) (\<lambda>source.
         let position = py_or (py_or (dget source ''lsn'') (dget source ''pos'')) (dget p ''ts_ms'')
         in checked \<lparr>in_local = py_str R i, in_version = py_str R position,
              in_values = (if c = ''d'' then [] else vs), in_verification = [], in_effective = None,
              in_sequence = sequence_of position, in_mode = FullUpdate, in_deleted = (c = ''d'')\<rparr>))
     | _ \<Rightarrow> Inl (PyError ''ValueError''))))"

section \<open>The route\<close>

record idempotency =
  id_ws :: ident
  id_principal :: string
  id_operation :: string
  id_key :: string
  id_hash :: string
  id_response :: "string \<times> ingest_response"

record hook_state =
  hs_db :: db
  hs_ids :: "idempotency list"

text \<open>The event id, the report of the ingestion, and whether it is an earlier one.\<close>

type_synonym hook_answer = "string \<times> ingest_response \<times> bool"

definition hook_service :: "string \<Rightarrow> string \<Rightarrow> db \<Rightarrow> service res" where
  "hook_service slug key s =
     bind_res (from_option (HTTPException 403 ''workspace_not_found'')
       (find (\<lambda>w. ws_id w = slug \<or> ws_slug w = slug) (workspaces s))) (\<lambda>w.
     Inr \<lparr>wid = ws_id w, subject = ''webhook:'' @ key, roles = [''integration_operator'']\<rparr>)"

definition hook_source :: "service \<Rightarrow> string \<Rightarrow> db \<Rightarrow> source_row res" where
  "hook_source sv key s = from_option (HTTPException 404 ''webhook_source_not_found'')
     (find (\<lambda>c. sc_ws c = wid sv \<and> sc_key c = key \<and> sc_kind c = ''webhook'') (sources s))"

text \<open>\<open>except (OSError, ValueError, json.JSONDecodeError)\<close>\<close>

definition catch_event :: "'a res \<Rightarrow> 'a res" where
  "catch_event r = (case r of
     Inl (PyError c) \<Rightarrow> if c \<in> {''OSError'', ''ValueError''} then Inl (HTTPException 401 ''invalid_webhook_event'') else r
   | _ \<Rightarrow> r)"

definition hook_event ::
    "runtime \<Rightarrow> hook_tools \<Rightarrow> real \<Rightarrow> source_row \<Rightarrow> string \<Rightarrow> string \<Rightarrow> string \<Rightarrow> dict res" where
  "hook_event R W now source timestamp signature body =
     (let ref = py_str R (dget_or (sc_config source) ''secret_ref'' (JStr []))
      in bind_res (guard_res (secret_file ref) (HTTPException 503 ''webhook_secret_reference_invalid'')) (\<lambda>_.
         catch_event
           (bind_res (hk_file W (drop 5 ref)) (\<lambda>raw. verify_hmac W now body timestamp signature (strip raw)))))"

definition admit_event ::
    "runtime \<Rightarrow> hook_tools \<Rightarrow> real \<Rightarrow> string \<Rightarrow> string \<Rightarrow> string option \<Rightarrow> string option \<Rightarrow> string \<Rightarrow> db \<Rightarrow>
     (service \<times> source_row \<times> dict) res" where
  "admit_event R W now slug key timestamp signature body s =
     bind_res (guard_res (truthy_str signature \<and> truthy_str timestamp) (HTTPException 401 ''webhook_signature_required'')) (\<lambda>_.
     bind_res (hook_service slug key s) (\<lambda>sv.
     bind_res (hook_source sv key s) (\<lambda>source.
     bind_res (hook_event R W now source (the timestamp) (the signature) body) (\<lambda>e.
     Inr (sv, source, e)))))"

definition event_identity :: "runtime \<Rightarrow> dict \<Rightarrow> (string \<times> string) res" where
  "event_identity R e =
     (let i = py_str R (dget_or e ''event_id'' (JStr [])); d = py_str R (dget_or e ''domain'' (JStr []))
      in bind_res (guard_res (i \<noteq> [] \<and> length i \<le> 255 \<and> d \<noteq> []) (HTTPException 422 ''webhook_envelope_incomplete'')) (\<lambda>_.
         Inr (i, d)))"

definition seen_event :: "service \<Rightarrow> string \<Rightarrow> string \<Rightarrow> idempotency list \<Rightarrow> idempotency option" where
  "seen_event sv key i rows =
     find (\<lambda>x. id_ws x = wid sv \<and> id_principal x = ''webhook:'' @ key \<and> id_operation x = ''inbound_event'' \<and> id_key x = i) rows"

text \<open>\<open>except (ValueError, ValidationError)\<close>\<close>

definition catch_payload :: "'a res \<Rightarrow> 'a res" where
  "catch_payload r = (case r of
     Inl (PyError c) \<Rightarrow> if c = ''ValueError'' then Inl (HTTPException 422 ''invalid_webhook_payload'') else r
   | _ \<Rightarrow> r)"

definition event_record :: "runtime \<Rightarrow> parsers \<Rightarrow> hook_tools \<Rightarrow> source_row \<Rightarrow> dict \<Rightarrow> incoming res" where
  "event_record R U W source e =
     (let format = dget_or e ''format'' (dget_or (sc_config source) ''format'' (JStr ''recordlane''));
          content = dget_or e ''record'' (JObj [])
      in catch_payload
          (if format = JStr ''debezium-1.0'' then
             debezium_record R content
               (py_str R (py_or (py_or (dget e ''id_field'') (dget (sc_config source) ''id_field'')) (JStr ''id'')))
           else if format = JStr ''recordlane-1.0'' then
             (case content of JObj d \<Rightarrow> read_incoming U W d | _ \<Rightarrow> Inl (PyError ''TypeError''))
           else Inl (HTTPException 422 ''unsupported_webhook_format'')))"

definition hook_request :: "string \<Rightarrow> string \<Rightarrow> incoming \<Rightarrow> ingest_request" where
  "hook_request key domain x =
     \<lparr>rq_source = key, rq_domain = domain, rq_records = [x], rq_complete_snapshot = False, rq_run = None,
      rq_mode = DeltaExtraction, rq_page = None, rq_next = None, rq_position = None, rq_handoff = None,
      rq_source_complete = False, rq_fault_after = None\<rparr>"

definition event_row :: "service \<Rightarrow> string \<Rightarrow> string \<Rightarrow> string \<Rightarrow> ingest_response \<Rightarrow> idempotency" where
  "event_row sv key i h report =
     \<lparr>id_ws = wid sv, id_principal = ''webhook:'' @ key, id_operation = ''inbound_event'', id_key = i,
      id_hash = h, id_response = (i, report)\<rparr>"

text \<open>
  \<open>ingest\<close> commits its own work; the record of the event is committed after it.
\<close>

definition inbound_webhook ::
    "runtime \<Rightarrow> parsers \<Rightarrow> hook_tools \<Rightarrow> real \<Rightarrow> string \<Rightarrow> string \<Rightarrow> string option \<Rightarrow> string option \<Rightarrow> string \<Rightarrow>
     hook_state \<Rightarrow> (hook_answer \<times> hook_state) res" where
  "inbound_webhook R U W now slug key timestamp signature body s =
     bind_res (admit_event R W now slug key timestamp signature body (hs_db s)) (\<lambda>(sv, source, e).
     bind_res (event_identity R e) (\<lambda>(i, domain).
     case seen_event sv key i (hs_ids s) of
       Some x \<Rightarrow>
         bind_res (guard_res (id_hash x = hk_sha W body) (HTTPException 409 ''webhook_event_id_conflict'')) (\<lambda>_.
         Inr ((fst (id_response x), snd (id_response x), True), s))
     | None \<Rightarrow>
         bind_res (event_record R U W source e) (\<lambda>x.
         bind_res (ingest R sv (hook_request key domain x) (hs_db s)) (\<lambda>(report, t).
         Inr ((i, report, False),
           \<lparr>hs_db = t,
            hs_ids = hs_ids s @
              [event_row sv key i (hk_sha W body) report]\<rparr>)))))"

section \<open>Deliveries and everything else\<close>

text \<open>
  A step is a delivery that succeeds, or any other change of the database: the work of other requests,
  or a delivery that is killed between the commit of its ingestion and that of its record.
\<close>

inductive hook_step :: "runtime \<Rightarrow> parsers \<Rightarrow> hook_tools \<Rightarrow> hook_state \<Rightarrow> hook_state \<Rightarrow> bool"
  for R :: runtime and U :: parsers and W :: hook_tools where
  Deliver: "inbound_webhook R U W now slug key timestamp signature body s = Inr (a, t) \<Longrightarrow> hook_step R U W s t"
| Work: "hs_ids t = hs_ids s \<Longrightarrow> hook_step R U W s t"

lemma seen_event_append: "seen_event sv key i xs = Some x \<Longrightarrow> seen_event sv key i (xs @ ys) = Some x"
  unfolding seen_event_def by (induction xs) auto

lemma seen_event_new:
  "seen_event sv key i xs = None \<Longrightarrow> seen_event sv key i (xs @ [event_row sv key i h r]) = Some (event_row sv key i h r)"
  unfolding seen_event_def by (induction xs) (auto simp: event_row_def split: if_splits)

lemma seen_event_cong: "wid sv = wid sv' \<Longrightarrow> seen_event sv key i xs = seen_event sv' key i xs"
  by (simp add: seen_event_def)

lemma inbound_webhook_cases:
  assumes "inbound_webhook R U W now slug key timestamp signature body s = Inr ((n, r, d), t)"
  obtains (Again) sv source e i domain x where
      "admit_event R W now slug key timestamp signature body (hs_db s) = Inr (sv, source, e)"
      "event_identity R e = Inr (i, domain)" "seen_event sv key i (hs_ids s) = Some x"
      "id_hash x = hk_sha W body" "id_response x = (n, r)" "d" "t = s"
    | (New) sv source e i domain item u where
      "admit_event R W now slug key timestamp signature body (hs_db s) = Inr (sv, source, e)"
      "event_identity R e = Inr (i, domain)" "seen_event sv key i (hs_ids s) = None" "n = i" "\<not> d"
      "event_record R U W source e = Inr item" "ingest R sv (hook_request key domain item) (hs_db s) = Inr (r, u)"
      "t = \<lparr>hs_db = u, hs_ids = hs_ids s @
        [event_row sv key i (hk_sha W body) r]\<rparr>"
proof -
  from assms obtain sv source e i domain where
    a: "admit_event R W now slug key timestamp signature body (hs_db s) = Inr (sv, source, e)"
    and e: "event_identity R e = Inr (i, domain)"
    by (cases "admit_event R W now slug key timestamp signature body (hs_db s)")
      (fastforce simp: inbound_webhook_def bind_res_Inr)+
  show thesis
  proof (cases "seen_event sv key i (hs_ids s)")
    case None
    with assms a e obtain item u where "event_record R U W source e = Inr item"
      "ingest R sv (hook_request key domain item) (hs_db s) = Inr (r, u)" "n = i" "\<not> d"
      "t = \<lparr>hs_db = u, hs_ids = hs_ids s @ [event_row sv key i (hk_sha W body) r]\<rparr>"
      by (auto simp: inbound_webhook_def res_elim)
    then show thesis by (intro New [OF a e None])
  next
    case (Some x)
    with assms a e show thesis
      by (intro Again [OF a e Some]) (auto simp: inbound_webhook_def res_elim)
  qed
qed

text \<open>After a successful delivery its event is on record, under the digest of its body.\<close>

lemma delivered_seen:
  assumes "inbound_webhook R U W now slug key timestamp signature body s = Inr ((n, r, d), t)"
    and "admit_event R W now slug key timestamp signature body (hs_db s) = Inr (sv, source, e)"
    and "event_identity R e = Inr (i, domain)"
  obtains x where "seen_event sv key i (hs_ids t) = Some x" "id_hash x = hk_sha W body" "id_response x = (n, r)"
  using assms(1)
proof (cases rule: inbound_webhook_cases)
  case (Again sv' source' e' i' domain' x)
  with assms(2,3) show thesis by (intro that [of x]) auto
next
  case (New sv' source' e' i' domain' item u)
  with assms(2,3) show thesis
    by (intro that [of "event_row sv key i (hk_sha W body) r"]) (auto simp: seen_event_new, simp_all add: event_row_def)
qed

lemma hook_step_appends:
  assumes "hook_step R U W s t"
  shows "\<exists>new. hs_ids t = hs_ids s @ new"
  using assms
proof cases
  case (Deliver now slug key timestamp signature body a)
  obtain n r d where "a = (n, r, d)" by (cases a)
  from Deliver [unfolded this] show ?thesis by (cases rule: inbound_webhook_cases) simp_all
next
  case Work
  then show ?thesis by simp
qed

lemma hook_run_appends:
  assumes "(hook_step R U W)\<^sup>*\<^sup>* s t"
  shows "\<exists>new. hs_ids t = hs_ids s @ new"
  using assms
proof (induction rule: rtranclp_induct)
  case base
  then show ?case by simp
next
  case (step t u)
  then obtain xs ys where "hs_ids t = hs_ids s @ xs" "hs_ids u = hs_ids t @ ys" using hook_step_appends by blast
  then show ?case by simp
qed

lemma seen_answer:
  assumes "admit_event R W now slug key timestamp signature body (hs_db s) = Inr (sv, source, e)"
    and "event_identity R e = Inr (i, domain)" "seen_event sv key i (hs_ids s) = Some x"
  shows "inbound_webhook R U W now slug key timestamp signature body s =
    (if id_hash x = hk_sha W body then Inr ((fst (id_response x), snd (id_response x), True), s)
     else Inl (HTTPException 409 ''webhook_event_id_conflict''))"
  using assms by (simp add: inbound_webhook_def guard_res_def)

section \<open>What the webhooks promise\<close>

text \<open>
  C24. Every event is answered once. After a successful delivery of an event, and after whatever other
  deliveries and other work come between, an authenticated delivery with the same event id gets the
  first answer, marked as deduplicated, when its body has the digest of the first body, and a conflict
  otherwise; in both cases nothing is ingested and nothing changes.
\<close>

theorem webhook_events_are_answered_once:
  assumes "inbound_webhook R U W now slug key timestamp signature body s = Inr ((n, r, d), t)"
    and "admit_event R W now slug key timestamp signature body (hs_db s) = Inr (sv, source, e)"
    and "event_identity R e = Inr (i, domain)" "(hook_step R U W)\<^sup>*\<^sup>* t u"
    and "admit_event R W now' slug' key timestamp' signature' body' (hs_db u) = Inr (sv', source', e')"
    and "wid sv' = wid sv" "event_identity R e' = Inr (i, domain')"
  shows "inbound_webhook R U W now' slug' key timestamp' signature' body' u =
    (if hk_sha W body' = hk_sha W body then Inr ((n, r, True), u)
     else Inl (HTTPException 409 ''webhook_event_id_conflict''))"
proof -
  obtain x where x: "seen_event sv key i (hs_ids t) = Some x" "id_hash x = hk_sha W body" "id_response x = (n, r)"
    using delivered_seen [OF assms(1-3)] .
  obtain new where "hs_ids u = hs_ids t @ new" using hook_run_appends [OF assms(4)] by blast
  with x(1) have "seen_event sv' key i (hs_ids u) = Some x"
    using seen_event_append seen_event_cong [OF assms(6)] by metis
  from seen_answer [OF assms(5,7) this, of U] show ?thesis using x(2,3) by simp
qed

section \<open>Edges of the route\<close>

text \<open>
  An event that names no format, of a source that configures none, takes the default
  \<open>recordlane\<close>, which is neither of the formats the route knows: it is refused.
\<close>

lemma the_default_format_is_refused:
  assumes "map_of e ''format'' = None" "map_of (sc_config source) ''format'' = None"
  shows "event_record R U W source e = Inl (HTTPException 422 ''unsupported_webhook_format'')"
  using assms by (simp add: event_record_def dget_or_def catch_payload_def)

text \<open>A signed time stamp that is not a number never expires, and a signature beyond ASCII is a TypeError.\<close>

lemma stamps_that_are_no_number_never_expire:
  assumes "hk_stamp W stamp = Some NotANumber"
  shows "verify_hmac W now body stamp signature secret = verify_hmac W now' body stamp signature secret"
  using assms by (simp add: verify_hmac_def fresh_stamp_def)

lemma signatures_beyond_ascii_raise:
  assumes "hk_stamp W stamp = Some x" "fresh_stamp now x" "secret \<noteq> []" "\<not> ascii signature"
  shows "verify_hmac W now body stamp signature secret = Inl (PyError ''TypeError'')"
  using assms by (simp add: verify_hmac_def guard_res_def)

section \<open>Witnesses\<close>

definition sample_event :: dict where
  "sample_event =
     [(''event_id'', JStr ''e1''), (''domain'', JStr ''supplier''), (''format'', JStr ''recordlane-1.0''),
      (''record'', JObj [(''local_id'', JStr ''A''), (''version'', JStr ''1''),
         (''values'', JObj [(''tax_id'', JStr ''1'')])])]"

definition sample_tools :: hook_tools where
  "sample_tools = \<lparr>hk_stamp = (\<lambda>_. Some (Seconds 0)), hk_hmac = (\<lambda>_ _ _. ''ab12''), hk_sha = (\<lambda>b. b),
     hk_json = (\<lambda>_. Some (JObj sample_event)), hk_file = (\<lambda>_. Inr ''key''),
     hk_bool = (\<lambda>v. case v of JBool b \<Rightarrow> Some b | _ \<Rightarrow> None), hk_time = (\<lambda>_. None)\<rparr>"

definition hook_parsers :: parsers where
  "hook_parsers = \<lparr>urlparse = (\<lambda>_. None), read_int = (\<lambda>_. None)\<rparr>"

definition sample_source :: source_row where
  "sample_source = (demo_source ''s1'' ''crm'' 10)
     \<lparr>sc_kind := ''webhook'', sc_config := [(''secret_ref'', JStr ''file:/run/recordlane/crm'')]\<rparr>"

definition hook_db :: hook_state where
  "hook_db = \<lparr>hs_db = plain_db\<lparr>workspaces := [\<lparr>ws_id = ''w1'', ws_slug = ''acme'', ws_name = ''Acme''\<rparr>],
     sources := [sample_source]\<rparr>, hs_ids = []\<rparr>"

definition crm_service :: service where
  "crm_service = \<lparr>wid = ''w1'', subject = ''webhook:crm'', roles = [''integration_operator'']\<rparr>"

lemma sample_admitted:
  "admit_event ascii_runtime sample_tools 0 ''acme'' ''crm'' (Some ''0'') (Some ''ab12'') body (hs_db hook_db) =
     Inr (crm_service, sample_source, sample_event)"
  by (simp add: admit_event_def hook_service_def hook_source_def hook_event_def hook_db_def sample_source_def
      demo_source_def plain_db_def truthy_str_def guard_res_def from_option_def dget_or_def py_str_def secret_file_def
      catch_event_def verify_hmac_def sample_tools_def fresh_stamp_def ascii_def strip_def is_space_def crm_service_def)

lemma sample_identity: "event_identity ascii_runtime sample_event = Inr (''e1'', ''supplier'')"
  by (simp add: event_identity_def sample_event_def dget_or_def py_str_def guard_res_def)

lemma sample_record: "event_record ascii_runtime hook_parsers sample_tools sample_source sample_event = Inr nameless"
  by (simp add: event_record_def sample_event_def dget_or_def catch_payload_def read_incoming_def string_field_def
      dict_field_def bool_fields_def optional_field_def dget_def mode_field_def sample_tools_def checked_def
      incoming_fits_def guard_res_def nameless_def)

text \<open>The policy of the sample domain finds the record wanting, and the webhook may write its field.\<close>

lemma sample_policy:
  "\<exists>p o'. compile_policy ascii_runtime tax_definition = Inr p \<and>
     (\<forall>b s. observe ascii_runtime p b nameless s = Inr o') \<and> obs_errors o' \<noteq> [] \<and> write_roles p ''tax_id'' = []"
proof -
  have "case compile_document ascii_runtime tax_definition of Inl _ \<Rightarrow> False
    | Inr p \<Rightarrow> write_roles p ''tax_id'' = [] \<and> (case normalize ascii_runtime p [(''tax_id'', JStr ''1'')] of Inl _ \<Rightarrow> False
      | Inr x \<Rightarrow> (case blocking_keys ascii_runtime p x of Inl _ \<Rightarrow> False
        | Inr ks \<Rightarrow> (case validate ascii_runtime p [(''tax_id'', JStr ''1'')] of Inl _ \<Rightarrow> False | Inr es \<Rightarrow> es \<noteq> [])))"
    by code_simp
  then obtain p x ks es where p: "compile_document ascii_runtime tax_definition = Inr p" "write_roles p ''tax_id'' = []"
    "normalize ascii_runtime p [(''tax_id'', JStr ''1'')] = Inr x" "blocking_keys ascii_runtime p x = Inr ks"
    "validate ascii_runtime p [(''tax_id'', JStr ''1'')] = Inr es" "es \<noteq> []"
    by (auto split: sum.splits)
  have vals: "observed_values b nameless s = [(''tax_id'', JStr ''1'')]" for b s
    by (simp add: observed_values_def nameless_def dict_merge_def)
  let ?q = "p\<lparr>checksum := canonical_hash ascii_runtime (policy_document p)\<rparr>"
    and ?o = "\<lparr>obs_values = [(''tax_id'', JStr ''1'')], obs_normalized = x, obs_errors = es, obs_keys = ks\<rparr>"
  have "normalize R ?q d = normalize R p d" "validate R ?q d = validate R p d"
    "blocking_keys R ?q d = blocking_keys R p d" "write_roles ?q a = write_roles p a" for R d a
    by (simp_all add: normalize_def attribute_of_def validate_def blocking_keys_def write_roles_def)
  moreover have "\<not> in_deleted nameless" by (simp add: nameless_def)
  ultimately have "compile_policy ascii_runtime tax_definition = Inr ?q \<and>
      (\<forall>b s. observe ascii_runtime ?q b nameless s = Inr ?o) \<and> obs_errors ?o \<noteq> [] \<and> write_roles ?q ''tax_id'' = []"
    using p vals by (simp add: observe_def compile_policy_def Let_def)
  then show ?thesis by blast
qed

lemma quarantined_item:
  assumes "\<And>b s. observe R p b item s = Inr o'" "obs_errors o' \<noteq> []" "records s = []"
  shows "\<exists>c' t. process_item R sv p source dk None (1, item) (c, s) = Inr (c', t)"
proof -
  obtain b s1 where b: "get_or_create_object R sv (sc_id source) dk (in_local item) s = (b, s1)" by fastforce
  then have "records s1 = []" using get_or_create_object_frame(1) [OF b] assms(3) by simp
  then have "find_observation sv (sc_id source) dk item s1 = None" by (simp add: find_observation_def)
  moreover obtain rec s2 where "store_observation R sv (sc_id source) dk b item o' s1 = (rec, s2)" by fastforce
  ultimately show ?thesis using b assms(1,2) by (simp add: process_item_def apply_observation_def)
qed

lemma sample_ingested:
  "\<exists>r t. ingest ascii_runtime crm_service (hook_request ''crm'' ''supplier'' nameless) (hs_db hook_db) = Inr (r, t)"
proof -
  let ?s = "hs_db hook_db" and ?rq = "hook_request ''crm'' ''supplier'' nameless"
  obtain p o' where p: "compile_policy ascii_runtime tax_definition = Inr p"
    "\<And>b s. observe ascii_runtime p b nameless s = Inr o'" "obs_errors o' \<noteq> []" "write_roles p ''tax_id'' = []"
    using sample_policy by blast
  have empty: "records ?s = []" by (simp add: hook_db_def plain_db_def empty_db_def)
  obtain c t where c: "process_item ascii_runtime crm_service p sample_source ''supplier'' None (1, nameless) (no_counts, ?s) =
      Inr (c, t)" using quarantined_item [OF p(2,3) empty] by blast
  have src: "find_source crm_service (rq_source ?rq) ?s = Some sample_source"
    "find_domain crm_service (rq_domain ?rq) ?s = Some demo_domain"
    by (simp_all add: find_source_def find_domain_def hook_db_def plain_db_def hook_request_def sample_source_def
        demo_source_def demo_domain_def crm_service_def)
  have gate: "run_gate ascii_runtime crm_service i ?rq ?s = Inr (Proceed None, ?s)" for i
    by (simp add: run_gate_def hook_request_def truthy_str_def)
  have def: "dm_definition demo_domain = tax_definition" by (simp add: demo_domain_def)
  have "forbidden_fields crm_service p [nameless] = []"
    by (simp add: forbidden_fields_def nameless_def dkeys_def p(4) sorted_set_def crm_service_def)
  with c have recs: "ingest_records ascii_runtime crm_service sample_source demo_domain ?rq None ?s = Inr (c, t)"
    by (simp add: ingest_records_def def p(1) hook_request_def work_records_def index_from_def guard_res_def)
  obtain u where "finish_source ascii_runtime sample_source ?rq c t = Inr u"
    by (simp add: finish_source_def sample_source_def demo_source_def dget_or_def py_int_def)
  with src gate recs show ?thesis by (simp add: ingest_def Let_def)
qed

theorem webhook_events_are_answered_once_witness:
  "\<exists>r t. inbound_webhook ascii_runtime hook_parsers sample_tools 0 ''acme'' ''crm'' (Some ''0'') (Some ''ab12'') ''body'' hook_db =
      Inr ((''e1'', r, False), t) \<and>
    inbound_webhook ascii_runtime hook_parsers sample_tools 0 ''acme'' ''crm'' (Some ''0'') (Some ''ab12'') ''body''
      (hook_db\<lparr>hs_ids := hs_ids t\<rparr>) = Inr ((''e1'', r, True), hook_db\<lparr>hs_ids := hs_ids t\<rparr>) \<and>
    inbound_webhook ascii_runtime hook_parsers sample_tools 0 ''acme'' ''crm'' (Some ''0'') (Some ''ab12'') ''other''
      (hook_db\<lparr>hs_ids := hs_ids t\<rparr>) = Inl (HTTPException 409 ''webhook_event_id_conflict'')"
proof -
  obtain r t where "ingest ascii_runtime crm_service (hook_request ''crm'' ''supplier'' nameless) (hs_db hook_db) = Inr (r, t)"
    using sample_ingested by blast
  moreover have ids: "hs_ids hook_db = []" by (simp add: hook_db_def)
  ultimately have first: "inbound_webhook ascii_runtime hook_parsers sample_tools 0 ''acme'' ''crm'' (Some ''0'') (Some ''ab12'') ''body'' hook_db =
      Inr ((''e1'', r, False), \<lparr>hs_db = t, hs_ids = [event_row crm_service ''crm'' ''e1'' (hk_sha sample_tools ''body'') r]\<rparr>)"
    (is "_ = Inr (_, ?t)")
    using ids by (simp add: inbound_webhook_def sample_admitted sample_identity sample_record seen_event_def)
  let ?u = "hook_db\<lparr>hs_ids := hs_ids ?t\<rparr>"
  have step: "(hook_step ascii_runtime hook_parsers sample_tools)\<^sup>*\<^sup>* ?t ?u" by (rule r_into_rtranclp, rule hook_step.Work) simp
  have db: "hs_db ?u = hs_db hook_db" by simp
  note again = webhook_events_are_answered_once [OF first sample_admitted sample_identity step
      sample_admitted [folded db] refl sample_identity]
  have "inbound_webhook ascii_runtime hook_parsers sample_tools 0 ''acme'' ''crm'' (Some ''0'') (Some ''ab12'') ''body'' ?u = Inr ((''e1'', r, True), ?u)"
    "inbound_webhook ascii_runtime hook_parsers sample_tools 0 ''acme'' ''crm'' (Some ''0'') (Some ''ab12'') ''other'' ?u = Inl (HTTPException 409 ''webhook_event_id_conflict'')"
    using again [of "''body''"] again [of "''other''"] by (simp_all add: sample_tools_def)
  with first show ?thesis by blast
qed

end
