(* ===== verification/Views.thy ===== *)
theory Views
  imports Correction
begin

text \<open>
  The read endpoints of api/routes.py: which attributes a caller may read (\<open>_readable_fields\<close>), how
  records, masters, tasks and events are cut down to them (\<open>_record_view\<close>, \<open>_master_view\<close>, \<open>_task_view\<close>),
  and the lists and pages made of them. A view is the row itself with the filtered columns.
  Timestamp columns that the tables leave out (\<open>updated_at\<close> of objects and entities, \<open>created_at\<close> of
  tasks, \<open>started_at\<close> of runs) are a parameter \<open>stamp\<close> by row id.
\<close>

section \<open>Lists\<close>

text \<open>\<open>ORDER BY t DESC LIMIT n\<close>\<close>

definition newest :: "('r \<Rightarrow> time) \<Rightarrow> nat \<Rightarrow> 'r list \<Rightarrow> 'r list" where
  "newest t n rows = take n (sort_key (\<lambda>r. - t r) rows)"

definition newest_all :: "('r \<Rightarrow> time) \<Rightarrow> 'r list \<Rightarrow> 'r list" where
  "newest_all t rows = sort_key (\<lambda>r. - t r) rows"

section \<open>Readable attributes\<close>

text \<open>
  \<open>definition.get("attributes", [])\<close>; a stored definition is a canonical document, so its attributes
  are objects with a string key.
\<close>

definition attribute_rows :: "dict \<Rightarrow> dict list" where
  "attribute_rows d =
     (case dget_or d ''attributes'' (JList []) of
        JList xs \<Rightarrow> concat (map (\<lambda>x. case x of JObj a \<Rightarrow> [a] | _ \<Rightarrow> []) xs)
      | _ \<Rightarrow> [])"

definition strings_of :: "json \<Rightarrow> string list" where
  "strings_of v =
     (case v of JList xs \<Rightarrow> concat (map (\<lambda>x. case x of JStr s \<Rightarrow> [s] | _ \<Rightarrow> []) xs) | _ \<Rightarrow> [])"

definition text_of :: "json \<Rightarrow> string" where
  "text_of v = (case v of JStr s \<Rightarrow> s | _ \<Rightarrow> [])"

definition may_read :: "string list \<Rightarrow> dict \<Rightarrow> bool" where
  "may_read held attribute =
     (let required = strings_of (dget_or attribute ''read_roles'' (JList []))
      in required = [] \<or> ''administrator'' \<in> set held \<or> (\<exists>r \<in> set held. r \<in> set required))"

definition readable_fields :: "service \<Rightarrow> string \<Rightarrow> db \<Rightarrow> string list" where
  "readable_fields sv key s =
     (case find_domain sv key s of
        None \<Rightarrow> []
      | Some d \<Rightarrow> map (\<lambda>a. text_of (dget a ''key'')) (filter (may_read (roles sv)) (attribute_rows (dm_definition d))))"

definition filter_mapping :: "string list \<Rightarrow> dict \<Rightarrow> dict" where
  "filter_mapping fs d = filter (\<lambda>p. fst p \<in> set fs) d"

section \<open>Rows cut down to what may be read\<close>

definition record_view :: "string list \<Rightarrow> source_record \<Rightarrow> source_record" where
  "record_view fs r =
     r\<lparr>sr_original := filter_mapping fs (sr_original r),
       sr_normalized := filter_mapping fs (sr_normalized r),
       sr_verification := filter_mapping fs (sr_verification r),
       sr_errors := filter (\<lambda>e. qe_attribute e \<in> set fs) (sr_errors r)\<rparr>"

definition master_view :: "string list \<Rightarrow> master_version \<Rightarrow> master_version" where
  "master_view fs m =
     m\<lparr>mv_values := filter_mapping fs (mv_values m),
       mv_provenance := filter_mapping fs (mv_provenance m)\<rparr>"

definition any_entity :: "service \<Rightarrow> ident \<Rightarrow> db \<Rightarrow> entity option" where
  "any_entity sv i s = find (\<lambda>e. en_id e = i \<and> en_ws e = wid sv) (entities s)"

definition payload_view :: "string list \<Rightarrow> payload \<Rightarrow> payload" where
  "payload_view fs p =
     (case p of
        MasterPayload n values provenance \<Rightarrow>
          MasterPayload n (filter_mapping fs values) (filter_mapping fs provenance)
      | _ \<Rightarrow> p)"

definition task_view :: "service \<Rightarrow> db \<Rightarrow> review_task \<Rightarrow> review_task" where
  "task_view sv s t =
     (case rt_entity t of
        None \<Rightarrow> t
      | Some i \<Rightarrow> (case any_entity sv i s of
            None \<Rightarrow> t
          | Some e \<Rightarrow> t\<lparr>rt_payload := payload_view (readable_fields sv (en_domain e) s) (rt_payload t)\<rparr>))"

definition filter_values :: "string list \<Rightarrow> dict \<Rightarrow> dict" where
  "filter_values fs d =
     (case map_of d ''values'' of
        None \<Rightarrow> d
      | Some v \<Rightarrow> AList.update ''values''
          (case v of JObj w \<Rightarrow> JObj (filter_mapping fs w) | _ \<Rightarrow> JObj []) d)"

definition event_view :: "service \<Rightarrow> db \<Rightarrow> outbox_event \<Rightarrow> outbox_event" where
  "event_view sv s e =
     (case ev_entity e of
        None \<Rightarrow> e
      | Some i \<Rightarrow> (case row_get en_id i (entities s) of
            None \<Rightarrow> e
          | Some n \<Rightarrow> e\<lparr>ev_payload := filter_values (readable_fields sv (en_domain n) s) (ev_payload e)\<rparr>))"

section \<open>The endpoints\<close>

definition source_records ::
    "service \<Rightarrow> record_state option \<Rightarrow> nat \<Rightarrow> db \<Rightarrow> source_record list" where
  "source_records sv state n s =
     map (\<lambda>r. record_view (readable_fields sv (sr_domain r) s) r)
       (newest sr_observed n
         (filter (\<lambda>r. sr_ws r = wid sv \<and> (case state of None \<Rightarrow> True | Some x \<Rightarrow> sr_state r = x)) (records s)))"

definition object_view :: "service \<Rightarrow> db \<Rightarrow> source_object \<Rightarrow> source_object \<times> source_record option" where
  "object_view sv s b =
     (b, case ob_current b of
           None \<Rightarrow> None
         | Some i \<Rightarrow> map_option (record_view (readable_fields sv (ob_domain b) s)) (row_get sr_id i (records s)))"

definition source_objects ::
    "service \<Rightarrow> (ident \<Rightarrow> time) \<Rightarrow> string option \<Rightarrow> nat \<Rightarrow> db \<Rightarrow> (source_object \<times> source_record option) list" where
  "source_objects sv stamp dk n s =
     map (object_view sv s)
       (newest (\<lambda>b. stamp (ob_id b)) n
         (filter (\<lambda>b. ob_ws b = wid sv \<and> (case dk of None \<Rightarrow> True | Some d \<Rightarrow> ob_domain b = d)) (objects s)))"

record entity_view =
  vw_entity :: entity
  vw_master :: "master_version option"
  vw_approved :: bool
  vw_contributions :: nat

definition shown_master :: "ident \<Rightarrow> db \<Rightarrow> master_version option \<times> bool" where
  "shown_master i s =
     (let own = filter (\<lambda>m. mv_entity m = i) (masters s) in
      case latest mv_version (filter (\<lambda>m. mv_status m = ApprovedMaster) own) of
        Some m \<Rightarrow> (Some m, True)
      | None \<Rightarrow> (latest mv_version own, False))"

definition view_entity :: "service \<Rightarrow> db \<Rightarrow> entity \<Rightarrow> entity_view" where
  "view_entity sv s e =
     \<lparr>vw_entity = e,
      vw_master = map_option (master_view (readable_fields sv (en_domain e) s)) (fst (shown_master (en_id e) s)),
      vw_approved = snd (shown_master (en_id e) s),
      vw_contributions = length (filter (\<lambda>b. ob_ws b = wid sv \<and> ob_entity b = Some (en_id e) \<and>
        ob_current b \<noteq> None \<and> \<not> ob_retired b) (objects s))\<rparr>"

text \<open>\<open>if cursor\<close>: an empty cursor is none.\<close>

definition listed :: "service \<Rightarrow> string option \<Rightarrow> string option \<Rightarrow> db \<Rightarrow> entity list" where
  "listed sv dk cursor s =
     filter (\<lambda>e. en_ws e = wid sv \<and> en_status e \<noteq> MergedEntity \<and>
       (case dk of None \<Rightarrow> True | Some d \<Rightarrow> en_domain e = d) \<and>
       (case cursor of None \<Rightarrow> True | Some c \<Rightarrow> c = [] \<or> c < en_id e)) (entities s)"

text \<open>With a page k the entities come by id with a cursor to the next page, without by \<open>updated_at\<close>.\<close>

definition entities_page ::
    "service \<Rightarrow> string option \<Rightarrow> nat \<Rightarrow> string option \<Rightarrow> db \<Rightarrow> entity_view list \<times> ident option" where
  "entities_page sv dk k cursor s =
     (let rows = take (k + 1) (sort_key en_id (listed sv dk cursor s));
          shown = (if k < length rows then take k rows else rows)
      in (map (view_entity sv s) shown,
          if k < length rows then Some (en_id (last shown)) else None))"

definition recent_entities ::
    "service \<Rightarrow> (ident \<Rightarrow> time) \<Rightarrow> string option \<Rightarrow> nat \<Rightarrow> string option \<Rightarrow> db \<Rightarrow> entity_view list" where
  "recent_entities sv stamp dk n cursor s =
     map (view_entity sv s) (newest (\<lambda>e. stamp (en_id e)) n (listed sv dk cursor s))"

record detail =
  dt_entity :: entity
  dt_objects :: "source_object list"
  dt_contributions :: "source_record list"
  dt_history :: "membership list"
  dt_versions :: "master_version list"
  dt_relationships :: "relationship list"

definition detail_of :: "service \<Rightarrow> (ident \<Rightarrow> time) \<Rightarrow> db \<Rightarrow> entity \<Rightarrow> detail" where
  "detail_of sv stamp s e =
     (let obs = newest_all (\<lambda>b. stamp (ob_id b))
            (filter (\<lambda>b. ob_ws b = wid sv \<and> ob_entity b = Some (en_id e)) (objects s));
          current = concat (map (\<lambda>b. case ob_current b of None \<Rightarrow> [] | Some i \<Rightarrow> [i]) obs)
      in \<lparr>dt_entity = e,
          dt_objects = obs,
          dt_contributions = map (\<lambda>r. record_view (readable_fields sv (sr_domain r) s) r)
            (newest_all sr_observed (filter (\<lambda>r. sr_ws r = wid sv \<and> sr_id r \<in> set current) (records s))),
          dt_history = newest_all mh_from
            (filter (\<lambda>h. mh_ws h = wid sv \<and> mh_object h \<in> set (map ob_id obs)) (history s)),
          dt_versions = map (master_view (readable_fields sv (en_domain e) s))
            (newest_all mv_version (filter (\<lambda>m. mv_ws m = wid sv \<and> mv_entity m = en_id e) (masters s))),
          dt_relationships = filter (\<lambda>l. rl_ws l = wid sv \<and> (rl_from l = en_id e \<or> rl_to l = en_id e))
            (relationships s)\<rparr>)"

definition entity_detail :: "service \<Rightarrow> (ident \<Rightarrow> time) \<Rightarrow> ident \<Rightarrow> db \<Rightarrow> detail res" where
  "entity_detail sv stamp i s =
     (case any_entity sv i s of
        None \<Rightarrow> Inl (HTTPException 404 ''entity_not_found'')
      | Some e \<Rightarrow> Inr (detail_of sv stamp s e))"

definition review_tasks :: "service \<Rightarrow> (ident \<Rightarrow> time) \<Rightarrow> task_status option \<Rightarrow> db \<Rightarrow> review_task list" where
  "review_tasks sv stamp st s =
     map (task_view sv s)
       (newest (\<lambda>t. stamp (rt_id t)) 200
         (filter (\<lambda>t. rt_ws t = wid sv \<and> (case st of None \<Rightarrow> True | Some x \<Rightarrow> rt_status t = x)) (tasks s)))"

record operations_view =
  op_events :: "outbox_event list"
  op_jobs :: "job list"
  op_runs :: "ingestion_run list"
  op_deliveries :: "delivery list"
  op_receipts :: "receipt list"

definition operations :: "service \<Rightarrow> (ident \<Rightarrow> time) \<Rightarrow> db \<Rightarrow> operations_view" where
  "operations sv stamp s =
     \<lparr>op_events = map (event_view sv s) (newest ev_occurred 100 (filter (\<lambda>e. ev_ws e = wid sv) (events s))),
      op_jobs = newest jb_created 100 (filter (\<lambda>j. jb_ws j = wid sv) (jobs s)),
      op_runs = newest (\<lambda>r. stamp (ir_id r)) 100 (filter (\<lambda>r. ir_ws r = wid sv) (runs s)),
      op_deliveries = newest dv_started 100 (filter (\<lambda>a. dv_ws a = wid sv) (deliveries s)),
      op_receipts = newest rc_verified 100 (filter (\<lambda>r. rc_ws r = wid sv) (receipts s))\<rparr>"

record overview_counts =
  ct_records :: nat
  ct_mastered :: nat
  ct_reviews :: nat
  ct_quarantined :: nat
  ct_pending :: nat

definition overview :: "service \<Rightarrow> db \<Rightarrow> overview_counts \<times> source_row list \<times> bool" where
  "overview sv s =
     (let c = \<lparr>ct_records = length (filter (\<lambda>r. sr_ws r = wid sv) (records s)),
               ct_mastered = length (filter (\<lambda>e. en_ws e = wid sv \<and> en_status e = ApprovedEntity) (entities s)),
               ct_reviews = length (filter (\<lambda>t. rt_ws t = wid sv \<and> rt_status t = OpenTask) (tasks s)),
               ct_quarantined = length (filter (\<lambda>r. sr_ws r = wid sv \<and> sr_state r = Quarantine) (records s)),
               ct_pending = length (filter (\<lambda>e. ev_ws e = wid sv \<and> ev_status e \<noteq> EventDelivered) (events s))\<rparr>
      in (c, sort_key sc_priority (filter (\<lambda>c. sc_ws c = wid sv) (sources s)), ct_pending c = 0))"

section \<open>Tables that agree row by row\<close>

lemma list_all2_filter:
  "list_all2 P xs ys \<Longrightarrow> (\<And>x y. P x y \<Longrightarrow> Q x = Q' y) \<Longrightarrow> list_all2 P (filter Q xs) (filter Q' ys)"
  by (induction rule: list_all2_induct) auto

lemma list_all2_insort:
  "list_all2 P xs ys \<Longrightarrow> P a b \<Longrightarrow> (\<And>x y. P x y \<Longrightarrow> f x = g y) \<Longrightarrow>
   list_all2 P (insort_key f a xs) (insort_key g b ys)"
  by (induction rule: list_all2_induct) auto

lemma list_all2_sort:
  "list_all2 P xs ys \<Longrightarrow> (\<And>x y. P x y \<Longrightarrow> f x = g y) \<Longrightarrow>
   list_all2 P (sort_key f xs) (sort_key g ys)"
  by (induction rule: list_all2_induct) (auto intro: list_all2_insort)

lemma list_all2_newest:
  "list_all2 P xs ys \<Longrightarrow> (\<And>x y. P x y \<Longrightarrow> f x = g y) \<Longrightarrow> list_all2 P (newest f n xs) (newest g n ys)"
  unfolding newest_def by (intro list_all2_takeI list_all2_sort) auto

lemma list_all2_newest_all:
  "list_all2 P xs ys \<Longrightarrow> (\<And>x y. P x y \<Longrightarrow> f x = g y) \<Longrightarrow> list_all2 P (newest_all f xs) (newest_all g ys)"
  unfolding newest_all_def by (intro list_all2_sort) auto

lemma list_all2_map_eq: "list_all2 P xs ys \<Longrightarrow> (\<And>x y. P x y \<Longrightarrow> f x = g y) \<Longrightarrow> map f xs = map g ys"
  by (induction rule: list_all2_induct) auto

lemma latest_related:
  assumes "list_all2 P xs ys" "\<And>x y. P x y \<Longrightarrow> f x = g y"
  shows "rel_option P (latest f xs) (latest g ys)"
  using assms(1)
proof (induction rule: list_all2_induct)
  case (Cons x xs y ys)
  then show ?case using assms(2) by (cases "latest f xs"; cases "latest g ys") auto
qed simp

lemma row_get_related:
  assumes "list_all2 P xs ys" "\<And>x y. P x y \<Longrightarrow> key x = key y"
  shows "rel_option P (row_get key i xs) (row_get key i ys)"
  using assms(1) by (induction rule: list_all2_induct) (auto simp: row_get_def assms(2))

lemma rel_option_map_eq:
  "rel_option P a b \<Longrightarrow> (\<And>x y. P x y \<Longrightarrow> f x = g y) \<Longrightarrow> map_option f a = map_option g b"
  by (cases a; cases b) auto

section \<open>What a caller can tell apart\<close>

text \<open>
  Two databases look alike to a caller when they differ only in columns that the views filter, there
  only in attributes the caller may not read, and in the blocking keys of records, which no view
  filters. The filtered columns are the original and normalised values, verification and errors of a
  record, the values and provenance of a master and of an approval task, and the values of an event.
  Everything else is equal, the payloads of other tasks included, which are shown as they are.
\<close>

definition alike :: "string list \<Rightarrow> dict \<Rightarrow> dict \<Rightarrow> bool" where
  "alike fs d e \<longleftrightarrow> filter_mapping fs d = filter_mapping fs e"

definition alike_record :: "service \<Rightarrow> db \<Rightarrow> source_record \<Rightarrow> source_record \<Rightarrow> bool" where
  "alike_record sv s r q \<longleftrightarrow>
     (\<exists>a b c es k. q = r\<lparr>sr_original := a, sr_normalized := b, sr_verification := c, sr_errors := es, sr_block := k\<rparr> \<and>
        (\<forall>dk \<in> insert (sr_domain r) (ob_domain ` {b \<in> set (objects s). ob_current b = Some (sr_id r)}).
          let fs = readable_fields sv dk s in
          alike fs (sr_original r) a \<and> alike fs (sr_normalized r) b \<and> alike fs (sr_verification r) c \<and>
          filter (\<lambda>e. qe_attribute e \<in> set fs) (sr_errors r) = filter (\<lambda>e. qe_attribute e \<in> set fs) es))"

text \<open>What is left of the record views without the blocking key.\<close>

definition unkeyed :: "source_record \<Rightarrow> source_record" where
  "unkeyed r = r\<lparr>sr_block := []\<rparr>"

definition unkeyed_detail :: "detail \<Rightarrow> detail" where
  "unkeyed_detail d = d\<lparr>dt_contributions := map unkeyed (dt_contributions d)\<rparr>"

definition alike_master :: "service \<Rightarrow> db \<Rightarrow> master_version \<Rightarrow> master_version \<Rightarrow> bool" where
  "alike_master sv s m q \<longleftrightarrow>
     (\<exists>a b. q = m\<lparr>mv_values := a, mv_provenance := b\<rparr> \<and>
        (\<forall>e \<in> set (entities s). en_id e = mv_entity m \<longrightarrow>
          alike (readable_fields sv (en_domain e) s) (mv_values m) a \<and>
          alike (readable_fields sv (en_domain e) s) (mv_provenance m) b))"

definition alike_task :: "service \<Rightarrow> db \<Rightarrow> review_task \<Rightarrow> review_task \<Rightarrow> bool" where
  "alike_task sv s t q \<longleftrightarrow> q = t \<or>
     (\<exists>i e n a b a' b'. rt_entity t = Some i \<and> any_entity sv i s = Some e \<and>
        rt_payload t = MasterPayload n a b \<and> q = t\<lparr>rt_payload := MasterPayload n a' b'\<rparr> \<and>
        alike (readable_fields sv (en_domain e) s) a a' \<and> alike (readable_fields sv (en_domain e) s) b b')"

definition alike_event :: "service \<Rightarrow> db \<Rightarrow> outbox_event \<Rightarrow> outbox_event \<Rightarrow> bool" where
  "alike_event sv s v q \<longleftrightarrow> q = v \<or>
     (\<exists>i e a b. ev_entity v = Some i \<and> row_get en_id i (entities s) = Some e \<and>
        map_of (ev_payload v) ''values'' = Some (JObj a) \<and>
        q = v\<lparr>ev_payload := AList.update ''values'' (JObj b) (ev_payload v)\<rparr> \<and>
        alike (readable_fields sv (en_domain e) s) a b)"

definition indistinguishable :: "service \<Rightarrow> db \<Rightarrow> db \<Rightarrow> bool" where
  "indistinguishable sv s t \<longleftrightarrow>
     (\<exists>rs ms ts es. t = s\<lparr>records := rs, masters := ms, tasks := ts, events := es\<rparr> \<and>
        list_all2 (alike_record sv s) (records s) rs \<and> list_all2 (alike_master sv s) (masters s) ms \<and>
        list_all2 (alike_task sv s) (tasks s) ts \<and> list_all2 (alike_event sv s) (events s) es)"

lemma readable_fields_same:
  "domains t = domains s \<Longrightarrow> readable_fields sv key t = readable_fields sv key s"
  by (simp add: readable_fields_def find_domain_def)

lemma alike_record_columns:
  assumes "alike_record sv s r q"
  shows "sr_id q = sr_id r" "sr_ws q = sr_ws r" "sr_domain q = sr_domain r" "sr_state q = sr_state r"
    "sr_observed q = sr_observed r"
  using assms by (auto simp: alike_record_def)

lemma alike_record_view:
  assumes "alike_record sv s r q"
    and "dk = sr_domain r \<or> (\<exists>b \<in> set (objects s). ob_current b = Some (sr_id r) \<and> ob_domain b = dk)"
  shows "unkeyed (record_view (readable_fields sv dk s) r) = unkeyed (record_view (readable_fields sv dk s) q)"
proof -
  from assms(1) obtain a b c es k where q: "q = r\<lparr>sr_original := a, sr_normalized := b, sr_verification := c, sr_errors := es, sr_block := k\<rparr>"
    and all: "\<forall>dk \<in> insert (sr_domain r) (ob_domain ` {b \<in> set (objects s). ob_current b = Some (sr_id r)}).
          let fs = readable_fields sv dk s in
          alike fs (sr_original r) a \<and> alike fs (sr_normalized r) b \<and> alike fs (sr_verification r) c \<and>
          filter (\<lambda>e. qe_attribute e \<in> set fs) (sr_errors r) = filter (\<lambda>e. qe_attribute e \<in> set fs) es"
    unfolding alike_record_def by blast
  from assms(2) have "dk \<in> insert (sr_domain r) (ob_domain ` {b \<in> set (objects s). ob_current b = Some (sr_id r)})"
    by auto
  with all have "let fs = readable_fields sv dk s in
          alike fs (sr_original r) a \<and> alike fs (sr_normalized r) b \<and> alike fs (sr_verification r) c \<and>
          filter (\<lambda>e. qe_attribute e \<in> set fs) (sr_errors r) = filter (\<lambda>e. qe_attribute e \<in> set fs) es"
    by (rule bspec)
  then show ?thesis by (simp add: q record_view_def unkeyed_def alike_def Let_def)
qed

lemma alike_master_view:
  assumes "alike_master sv s m q" "e \<in> set (entities s)" "en_id e = mv_entity m"
  shows "master_view (readable_fields sv (en_domain e) s) m = master_view (readable_fields sv (en_domain e) s) q"
  using assms by (auto simp: alike_master_def master_view_def alike_def)

lemma alike_task_view: "alike_task sv s t q \<Longrightarrow> task_view sv s t = task_view sv s q"
  by (auto simp: alike_task_def task_view_def alike_def payload_view_def)

lemma alike_event_view: "alike_event sv s v q \<Longrightarrow> event_view sv s v = event_view sv s q"
  by (auto simp: alike_event_def event_view_def alike_def filter_values_def update_conv' map_of_update_other)

lemma alike_columns:
  "alike_master sv s m q \<Longrightarrow> mv_entity q = mv_entity m \<and> mv_ws q = mv_ws m \<and>
     mv_version q = mv_version m \<and> mv_status q = mv_status m"
  "alike_task sv s t u \<Longrightarrow> rt_id u = rt_id t \<and> rt_ws u = rt_ws t \<and> rt_status u = rt_status t"
  "alike_event sv s v w \<Longrightarrow> ev_ws w = ev_ws v \<and> ev_occurred w = ev_occurred v"
  by (auto simp: alike_master_def alike_task_def alike_event_def)

lemma indistinguishableE:
  assumes "indistinguishable sv s t"
  obtains "domains t = domains s" "entities t = entities s" "objects t = objects s" "history t = history s"
    "relationships t = relationships s" "jobs t = jobs s" "runs t = runs s" "deliveries t = deliveries s"
    "receipts t = receipts s" "sources t = sources s"
    "list_all2 (alike_record sv s) (records s) (records t)" "list_all2 (alike_master sv s) (masters s) (masters t)"
    "list_all2 (alike_task sv s) (tasks s) (tasks t)" "list_all2 (alike_event sv s) (events s) (events t)"
  using assms unfolding indistinguishable_def by force

text \<open>Everything a reader sees of two such states is the same.\<close>

locale same_sight =
  fixes sv :: service and s t :: db
  assumes ind: "indistinguishable sv s t"
begin

lemmas ind_parts = indistinguishableE [OF ind]

lemma readable_same [simp]: "readable_fields sv key t = readable_fields sv key s"
  by (rule readable_fields_same) (rule ind_parts)

lemma source_records_same: "map unkeyed (source_records sv state n t) = map unkeyed (source_records sv state n s)"
proof -
  have "list_all2 (alike_record sv s) (newest sr_observed n (filter (\<lambda>r. sr_ws r = wid sv \<and>
      (case state of None \<Rightarrow> True | Some x \<Rightarrow> sr_state r = x)) (records s)))
    (newest sr_observed n (filter (\<lambda>r. sr_ws r = wid sv \<and>
      (case state of None \<Rightarrow> True | Some x \<Rightarrow> sr_state r = x)) (records t)))"
    by (intro list_all2_newest list_all2_filter) (rule ind_parts, assumption, auto simp: alike_record_columns split: option.splits)
  then show ?thesis
    unfolding source_records_def readable_same map_map o_def
    by (rule list_all2_map_eq [symmetric]) (simp add: alike_record_columns alike_record_view)
qed

lemma current_record_same:
  assumes "b \<in> set (objects s)" "ob_current b = Some i"
  shows "map_option (\<lambda>r. unkeyed (record_view (readable_fields sv (ob_domain b) s) r)) (row_get sr_id i (records t)) =
    map_option (\<lambda>r. unkeyed (record_view (readable_fields sv (ob_domain b) s) r)) (row_get sr_id i (records s))"
proof -
  have rel: "rel_option (alike_record sv s) (row_get sr_id i (records s)) (row_get sr_id i (records t))"
    by (rule row_get_related) (rule ind_parts, assumption, simp add: alike_record_columns)
  show ?thesis
  proof (cases "row_get sr_id i (records s)")
    case None
    with rel show ?thesis by simp
  next
    case (Some r)
    with rel obtain q where q: "row_get sr_id i (records t) = Some q" "alike_record sv s r q"
      by (auto simp: option_rel_Some1)
    from Some have "sr_id r = i" by (rule row_get_key)
    with assms have "unkeyed (record_view (readable_fields sv (ob_domain b) s) r) = unkeyed (record_view (readable_fields sv (ob_domain b) s) q)"
      by (intro alike_record_view [OF q(2)]) auto
    with Some q show ?thesis by simp
  qed
qed

lemma object_view_same:
  "b \<in> set (objects s) \<Longrightarrow> apsnd (map_option unkeyed) (object_view sv t b) = apsnd (map_option unkeyed) (object_view sv s b)"
  by (auto simp: object_view_def current_record_same option.map_comp o_def split: option.splits)

lemma set_newest: "set (newest f n xs) \<subseteq> set xs"
  unfolding newest_def using set_take_subset by fastforce

lemma source_objects_same:
  "map (apsnd (map_option unkeyed)) (source_objects sv stamp dk n t) =
   map (apsnd (map_option unkeyed)) (source_objects sv stamp dk n s)"
proof -
  have "objects t = objects s" by (rule ind_parts)
  then show ?thesis
    unfolding source_objects_def map_map o_def using set_newest by (auto intro!: object_view_same dest!: subsetD [OF set_newest])
qed

lemma shown_master_same:
  "rel_option (alike_master sv s) (fst (shown_master i s)) (fst (shown_master i t)) \<and>
   snd (shown_master i t) = snd (shown_master i s)"
proof -
  have own: "list_all2 (alike_master sv s) (filter (\<lambda>m. mv_entity m = i) (masters s)) (filter (\<lambda>m. mv_entity m = i) (masters t))"
    by (intro list_all2_filter) (rule ind_parts, assumption, auto simp: alike_columns)
  then have "list_all2 (alike_master sv s)
      (filter (\<lambda>m. mv_status m = ApprovedMaster) (filter (\<lambda>m. mv_entity m = i) (masters s)))
      (filter (\<lambda>m. mv_status m = ApprovedMaster) (filter (\<lambda>m. mv_entity m = i) (masters t)))"
    by (rule list_all2_filter) (auto simp: alike_columns)
  then have "rel_option (alike_master sv s)
      (latest mv_version (filter (\<lambda>m. mv_status m = ApprovedMaster) (filter (\<lambda>m. mv_entity m = i) (masters s))))
      (latest mv_version (filter (\<lambda>m. mv_status m = ApprovedMaster) (filter (\<lambda>m. mv_entity m = i) (masters t))))"
    by (rule latest_related) (auto simp: alike_columns)
  moreover from own have "rel_option (alike_master sv s) (latest mv_version (filter (\<lambda>m. mv_entity m = i) (masters s)))
      (latest mv_version (filter (\<lambda>m. mv_entity m = i) (masters t)))"
    by (rule latest_related) (auto simp: alike_columns)
  ultimately show ?thesis
    by (auto simp: shown_master_def Let_def option_rel_Some1 split: option.splits)
qed

lemma shown_master_entity: "fst (shown_master i s) = Some m \<Longrightarrow> mv_entity m = i"
  by (auto simp: shown_master_def Let_def dest!: latest_mem split: option.splits)

lemma view_entity_same:
  assumes "e \<in> set (entities s)"
  shows "view_entity sv t e = view_entity sv s e"
proof -
  have "map_option (master_view (readable_fields sv (en_domain e) s)) (fst (shown_master (en_id e) t)) =
      map_option (master_view (readable_fields sv (en_domain e) s)) (fst (shown_master (en_id e) s))"
  proof (cases "fst (shown_master (en_id e) s)")
    case None
    with shown_master_same [of "en_id e"] show ?thesis by simp
  next
    case (Some m)
    with shown_master_same [of "en_id e"] obtain q
      where q: "fst (shown_master (en_id e) t) = Some q" "alike_master sv s m q"
      by (auto simp: option_rel_Some1)
    from alike_master_view [OF q(2) assms] shown_master_entity [OF Some] Some q show ?thesis by simp
  qed
  moreover have "objects t = objects s" by (rule ind_parts)
  ultimately show ?thesis using shown_master_same [of "en_id e"] by (simp add: view_entity_def)
qed

lemma listed_same: "listed sv dk c t = listed sv dk c s"
  by (rule ind_parts) (simp add: listed_def)

lemma listed_mem: "e \<in> set (listed sv dk c s) \<Longrightarrow> e \<in> set (entities s)"
  by (auto simp: listed_def)

lemma entities_page_same: "entities_page sv dk k c t = entities_page sv dk k c s"
  unfolding entities_page_def listed_same Let_def
  by (auto intro!: view_entity_same dest!: in_set_takeD listed_mem)

lemma recent_entities_same: "recent_entities sv stamp dk n c t = recent_entities sv stamp dk n c s"
  unfolding recent_entities_def listed_same
  by (auto intro!: view_entity_same dest!: subsetD [OF set_newest] listed_mem)

lemma detail_of_same:
  assumes "e \<in> set (entities s)"
  shows "unkeyed_detail (detail_of sv stamp t e) = unkeyed_detail (detail_of sv stamp s e)"
proof -
  have obj: "objects t = objects s" and hist: "history t = history s" and rel: "relationships t = relationships s"
    by (rule ind_parts, assumption)+
  have recs: "map (\<lambda>r. unkeyed (record_view (readable_fields sv (sr_domain r) s) r))
        (newest_all sr_observed (filter (\<lambda>r. sr_ws r = wid sv \<and> sr_id r \<in> X) (records s))) =
      map (\<lambda>r. unkeyed (record_view (readable_fields sv (sr_domain r) s) r))
        (newest_all sr_observed (filter (\<lambda>r. sr_ws r = wid sv \<and> sr_id r \<in> X) (records t)))" for X
    by (rule list_all2_map_eq [of "alike_record sv s"], intro list_all2_newest_all list_all2_filter)
      (rule ind_parts, assumption, auto simp: alike_record_columns alike_record_view)
  have "list_all2 (\<lambda>m q. alike_master sv s m q \<and> mv_entity m = en_id e)
      (filter (\<lambda>m. mv_ws m = wid sv \<and> mv_entity m = en_id e) (masters s))
      (filter (\<lambda>m. mv_ws m = wid sv \<and> mv_entity m = en_id e) (masters t))"
  proof -
    have "list_all2 (alike_master sv s) (masters s) (masters t)" by (rule ind_parts)
    then show ?thesis by (induction rule: list_all2_induct) (auto dest: alike_columns)
  qed
  then have "map (master_view (readable_fields sv (en_domain e) s))
        (newest_all mv_version (filter (\<lambda>m. mv_ws m = wid sv \<and> mv_entity m = en_id e) (masters s))) =
      map (master_view (readable_fields sv (en_domain e) s))
        (newest_all mv_version (filter (\<lambda>m. mv_ws m = wid sv \<and> mv_entity m = en_id e) (masters t)))"
    by (intro list_all2_map_eq list_all2_newest_all) (assumption, auto simp: alike_columns alike_master_view assms)
  with recs show ?thesis
    unfolding detail_of_def unkeyed_detail_def obj hist rel Let_def readable_same detail.simps map_map o_def
    by (simp only: detail.simps)
qed

lemma entity_detail_same:
  "map_sum id unkeyed_detail (entity_detail sv stamp i t) = map_sum id unkeyed_detail (entity_detail sv stamp i s)"
proof -
  have "entities t = entities s" by (rule ind_parts)
  then have "any_entity sv i t = any_entity sv i s" by (simp add: any_entity_def)
  then show ?thesis
    by (auto simp: entity_detail_def any_entity_def dest!: find_SomeD intro: detail_of_same split: option.splits)
qed

lemma task_view_same: "task_view sv t q = task_view sv s q"
proof -
  have "entities t = entities s" by (rule ind_parts)
  then show ?thesis by (simp add: task_view_def any_entity_def split: option.split)
qed

lemma event_view_same: "event_view sv t v = event_view sv s v"
proof -
  have "entities t = entities s" by (rule ind_parts)
  then show ?thesis by (simp add: event_view_def split: option.split)
qed

lemma review_tasks_same: "review_tasks sv stamp st t = review_tasks sv stamp st s"
proof -
  have "map (task_view sv s) (newest (\<lambda>q. stamp (rt_id q)) 200 (filter (\<lambda>q. rt_ws q = wid sv \<and>
        (case st of None \<Rightarrow> True | Some x \<Rightarrow> rt_status q = x)) (tasks s))) =
      map (task_view sv s) (newest (\<lambda>q. stamp (rt_id q)) 200 (filter (\<lambda>q. rt_ws q = wid sv \<and>
        (case st of None \<Rightarrow> True | Some x \<Rightarrow> rt_status q = x)) (tasks t)))"
    by (rule list_all2_map_eq [of "alike_task sv s"], intro list_all2_newest list_all2_filter)
      (rule ind_parts, assumption, auto simp: alike_columns alike_task_view split: option.splits)
  then show ?thesis by (simp add: review_tasks_def task_view_same cong: map_cong)
qed

lemma operations_same: "operations sv stamp t = operations sv stamp s"
proof -
  have same: "jobs t = jobs s" "runs t = runs s" "deliveries t = deliveries s" "receipts t = receipts s"
    by (rule ind_parts, assumption)+
  have "map (event_view sv s) (newest ev_occurred 100 (filter (\<lambda>e. ev_ws e = wid sv) (events s))) =
      map (event_view sv s) (newest ev_occurred 100 (filter (\<lambda>e. ev_ws e = wid sv) (events t)))"
    by (rule list_all2_map_eq [of "alike_event sv s"], intro list_all2_newest list_all2_filter)
      (rule ind_parts, assumption, auto simp: alike_columns alike_event_view)
  then show ?thesis by (simp add: operations_def same event_view_same cong: map_cong)
qed

end

section \<open>Walking the pages\<close>

text \<open>
  A client that follows the cursors reads each page from the database as it then is: page by page
  another snapshot. The walk ends at the page without a cursor; the flag tells whether it did.
\<close>

definition live_ids :: "service \<Rightarrow> string option \<Rightarrow> db \<Rightarrow> ident list" where
  "live_ids sv dk s = map en_id (listed sv dk None s)"

fun walk :: "service \<Rightarrow> string option \<Rightarrow> nat \<Rightarrow> string option \<Rightarrow> db list \<Rightarrow> ident list \<times> bool" where
  "walk sv dk k c [] = ([], False)"
| "walk sv dk k c (s # ss) =
     (let (rows, after) = entities_page sv dk k c s; ids = map (\<lambda>v. en_id (vw_entity v)) rows
      in case after of
           None \<Rightarrow> (ids, True)
         | Some n \<Rightarrow> let (more, finished) = walk sv dk k (Some n) ss in (ids @ more, finished))"

definition above :: "string option \<Rightarrow> string \<Rightarrow> bool" where
  "above c i \<longleftrightarrow> (case c of None \<Rightarrow> True | Some n \<Rightarrow> n = [] \<or> n < i)"

lemma map_insort_key: "map f (insort_key f x xs) = insort (f x) (map f xs)"
  by (induction xs) auto

lemma map_sort_key: "map f (sort_key f xs) = sort (map f xs)"
  by (induction xs) (simp_all add: map_insort_key)

definition page_ids :: "service \<Rightarrow> string option \<Rightarrow> string option \<Rightarrow> db \<Rightarrow> ident list" where
  "page_ids sv dk c s = sort (map en_id (listed sv dk c s))"

lemma set_page_ids: "set (page_ids sv dk c s) = {i \<in> set (live_ids sv dk s). above c i}"
  by (auto simp: page_ids_def live_ids_def listed_def above_def split: option.splits)

lemma distinct_page_ids:
  assumes "distinct (map en_id (entities s))"
  shows "sorted_wrt (<) (page_ids sv dk c s)"
proof -
  have "distinct (map en_id (listed sv dk c s))"
    using assms by (simp add: listed_def distinct_map_filter)
  then show ?thesis by (simp add: page_ids_def strict_sorted_iff)
qed

lemma view_entity_entity [simp]: "vw_entity (view_entity sv s e) = e"
  by (simp add: view_entity_def)

lemma entities_page_ids:
  defines "I \<equiv> \<lambda>sv dk c s. page_ids sv dk c s"
  shows "map (\<lambda>v. en_id (vw_entity v)) (fst (entities_page sv dk k c s)) =
      (if k < length (I sv dk c s) then take k (I sv dk c s) else I sv dk c s)"
    and "0 < k \<Longrightarrow> snd (entities_page sv dk k c s) =
      (if k < length (I sv dk c s) then Some (last (take k (I sv dk c s))) else None)"
proof -
  let ?L = "sort_key en_id (listed sv dk c s)"
  have I: "I sv dk c s = map en_id ?L" by (simp add: I_def page_ids_def map_sort_key)
  have len: "k < length (take (k + 1) ?L) \<longleftrightarrow> k < length ?L" by simp
  have short: "\<not> k < length ?L \<Longrightarrow> take (k + 1) ?L = ?L" by simp
  have cut: "take k (take (k + 1) ?L) = take k ?L" by simp
  show "map (\<lambda>v. en_id (vw_entity v)) (fst (entities_page sv dk k c s)) =
      (if k < length (I sv dk c s) then take k (I sv dk c s) else I sv dk c s)"
    unfolding entities_page_def I Let_def fst_conv len cut
    by (cases "k < length ?L") (simp_all add: comp_def take_map)
  assume "0 < k"
  then have "k < length ?L \<Longrightarrow> take k ?L \<noteq> []"
    by (metis length_greater_0_conv less_trans take_eq_Nil2 less_irrefl)
  then show "snd (entities_page sv dk k c s) =
      (if k < length (I sv dk c s) then Some (last (take k (I sv dk c s))) else None)"
    unfolding entities_page_def I Let_def snd_conv len cut
    by (cases "k < length ?L") (simp_all add: take_map last_map)
qed

lemma walk_step:
  assumes "0 < k"
  shows "walk sv dk k c (s # ss) =
    (let I = page_ids sv dk c s in
     if k < length I then (take k I @ fst (walk sv dk k (Some (last (take k I))) ss),
                           snd (walk sv dk k (Some (last (take k I))) ss))
     else (I, True))"
proof -
  obtain rows after where p: "entities_page sv dk k c s = (rows, after)" by force
  from entities_page_ids [where sv = sv and dk = dk and k = k and c = c and s = s] assms p
  have "map (\<lambda>v. en_id (vw_entity v)) rows =
      (if k < length (page_ids sv dk c s) then take k (page_ids sv dk c s) else page_ids sv dk c s)"
    "after = (if k < length (page_ids sv dk c s) then Some (last (take k (page_ids sv dk c s))) else None)"
    by simp_all
  then show ?thesis by (simp add: p Let_def case_prod_beta)
qed

declare walk.simps(2) [simp del]

lemma last_take_bounds:
  assumes "sorted_wrt (<) (xs :: string list)" "0 < k" "k < length xs"
  shows "last (take k xs) \<in> set (take k xs)" "\<And>x. x \<in> set (take k xs) \<Longrightarrow> x \<le> last (take k xs)"
    "\<And>x. x \<in> set (drop k xs) \<Longrightarrow> last (take k xs) < x"
proof -
  from assms have ne: "take k xs \<noteq> []" by auto
  then show l: "last (take k xs) \<in> set (take k xs)" by (rule last_in_set)
  from assms(1) have "sorted_wrt (<) (take k xs @ drop k xs)" by simp
  then have srt: "sorted_wrt (<) (take k xs)" and less: "\<And>x y. x \<in> set (take k xs) \<Longrightarrow> y \<in> set (drop k xs) \<Longrightarrow> x < y"
    unfolding sorted_wrt_append by auto
  show "\<And>x. x \<in> set (drop k xs) \<Longrightarrow> last (take k xs) < x" using less l by blast
  fix x assume x: "x \<in> set (take k xs)"
  have "sorted_wrt (<) (butlast (take k xs) @ [last (take k xs)])" using srt ne by simp
  moreover from x ne have "x \<in> set (butlast (take k xs)) \<or> x = last (take k xs)"
    by (metis append_butlast_last_id in_set_conv_decomp_last rotate1.simps(2) set_ConsD set_rotate1)
  ultimately show "x \<le> last (take k xs)" unfolding sorted_wrt_append by auto
qed

definition pageable :: "db \<Rightarrow> bool" where
  "pageable s \<longleftrightarrow> distinct (map en_id (entities s)) \<and> [] \<notin> set (map en_id (entities s))"

lemma live_ids_nonempty: "pageable s \<Longrightarrow> i \<in> set (live_ids sv dk s) \<Longrightarrow> i \<noteq> []"
  by (auto simp: pageable_def live_ids_def listed_def) (metis imageI)

lemma walk_sorted:
  assumes "0 < k" "\<forall>s \<in> set ss. pageable s"
  shows "sorted_wrt (<) (fst (walk sv dk k c ss)) \<and> (\<forall>i \<in> set (fst (walk sv dk k c ss)). above c i) \<and>
    set (fst (walk sv dk k c ss)) \<subseteq> (\<Union>s \<in> set ss. set (live_ids sv dk s))"
  using assms(2)
proof (induction ss arbitrary: c)
  case (Cons s ss)
  let ?I = "page_ids sv dk c s"
  let ?n = "last (take k ?I)"
  have srt: "sorted_wrt (<) ?I" using Cons.prems by (intro distinct_page_ids) (simp add: pageable_def)
  have mem: "i \<in> set (live_ids sv dk s) \<and> above c i" if "i \<in> set ?I" for i
    using that by (simp add: set_page_ids)
  show ?case
  proof (cases "k < length ?I")
    case False
    with srt mem show ?thesis by (auto simp: walk_step [OF assms(1)])
  next
    case True
    note b = last_take_bounds [OF srt assms(1) True]
    from b(1) have n: "?n \<in> set ?I" by (rule in_set_takeD)
    with mem live_ids_nonempty Cons.prems have n0: "?n \<noteq> []" by simp blast
    have IH: "sorted_wrt (<) (fst (walk sv dk k (Some ?n) ss))"
      "\<And>i. i \<in> set (fst (walk sv dk k (Some ?n) ss)) \<Longrightarrow> ?n < i"
      "set (fst (walk sv dk k (Some ?n) ss)) \<subseteq> (\<Union>s \<in> set ss. set (live_ids sv dk s))"
      using Cons.IH [of "Some ?n"] Cons.prems n0 by (auto simp: above_def)
    have "sorted_wrt (<) (take k ?I @ fst (walk sv dk k (Some ?n) ss))"
      unfolding sorted_wrt_append using srt IH(1,2) b(2) by (auto simp: sorted_wrt_take intro: le_less_trans)
    moreover have "above c i" if "i \<in> set (fst (walk sv dk k (Some ?n) ss))" for i
      using mem [OF n] IH(2) [OF that] by (auto simp: above_def split: option.splits)
    moreover have "set (take k ?I) \<subseteq> set ?I" by (rule set_take_subset)
    ultimately show ?thesis using True mem IH(3)
      by (auto simp: walk_step [OF assms(1)] Let_def dest: in_set_takeD)
  qed
qed simp

lemma walk_complete:
  assumes "0 < k" "\<forall>s \<in> set ss. pageable s" "snd (walk sv dk k c ss)"
    "\<forall>s \<in> set ss. i \<in> set (live_ids sv dk s)" "above c i"
  shows "i \<in> set (fst (walk sv dk k c ss))"
  using assms(2-5)
proof (induction ss arbitrary: c)
  case (Cons s ss)
  let ?I = "page_ids sv dk c s"
  have i: "i \<in> set ?I" using Cons.prems by (simp add: set_page_ids)
  have srt: "sorted_wrt (<) ?I" using Cons.prems by (intro distinct_page_ids) (simp add: pageable_def)
  show ?case
  proof (cases "k < length ?I")
    case True
    note b = last_take_bounds [OF srt assms(1) True]
    have "i \<in> set (take k ?I) \<or> i \<in> set (drop k ?I)"
      using i by (metis Un_iff append_take_drop_id set_append)
    then show ?thesis
    proof
      assume "i \<in> set (drop k ?I)"
      then have "above (Some (last (take k ?I))) i" using b(3) by (simp add: above_def)
      with Cons True show ?thesis by (simp add: walk_step [OF assms(1)] Let_def)
    qed (simp add: walk_step [OF assms(1)] Let_def True)
  qed (use i in \<open>simp add: walk_step [OF assms(1)]\<close>)
qed simp

lemma walk_unfinished:
  assumes "0 < k" "\<forall>s \<in> set ss. pageable s" "\<not> snd (walk sv dk k c ss)" "ss \<noteq> []"
  shows "length (fst (walk sv dk k c ss)) = k * length ss \<and>
    (\<exists>x \<in> \<Union>s \<in> set ss. set (live_ids sv dk s). \<forall>i \<in> set (fst (walk sv dk k c ss)). i < x)"
  using assms(2-4)
proof (induction ss arbitrary: c)
  case (Cons s ss)
  let ?I = "page_ids sv dk c s"
  let ?n = "last (take k ?I)"
  have srt: "sorted_wrt (<) ?I" using Cons.prems by (intro distinct_page_ids) (simp add: pageable_def)
  from Cons.prems(2) have long: "k < length ?I" by (auto simp: walk_step [OF assms(1)] Let_def split: if_splits)
  note b = last_take_bounds [OF srt assms(1) long]
  have step: "fst (walk sv dk k c (s # ss)) = take k ?I @ fst (walk sv dk k (Some ?n) ss)"
    "snd (walk sv dk k c (s # ss)) = snd (walk sv dk k (Some ?n) ss)"
    using long by (simp_all add: walk_step [OF assms(1)] Let_def)
  show ?case
  proof (cases "ss = []")
    case True
    have x: "?I ! k \<in> set (drop k ?I)" using long by (auto simp: in_set_conv_nth intro!: exI [of _ 0])
    have "?I ! k \<in> set ?I" using long by (rule nth_mem)
    then have live: "?I ! k \<in> set (live_ids sv dk s)" by (simp add: set_page_ids)
    have "\<forall>i \<in> set (take k ?I). i < ?I ! k" using b(2) b(3) [OF x] by (meson le_less_trans)
    moreover have "fst (walk sv dk k c (s # ss)) = take k ?I" using step(1) True by simp
    ultimately show ?thesis using live True long by auto
  next
    case False
    have "\<not> snd (walk sv dk k (Some ?n) ss)" "\<forall>s \<in> set ss. pageable s" using Cons.prems step by simp_all
    from Cons.IH [OF this(2,1) False] obtain x
      where len: "length (fst (walk sv dk k (Some ?n) ss)) = k * length ss"
        and x: "x \<in> (\<Union>s \<in> set ss. set (live_ids sv dk s))" "\<forall>i \<in> set (fst (walk sv dk k (Some ?n) ss)). i < x"
      by blast
    from len False assms(1) have ne: "fst (walk sv dk k (Some ?n) ss) \<noteq> []" by auto
    have "above (Some ?n) (hd (fst (walk sv dk k (Some ?n) ss)))"
      using walk_sorted [OF assms(1), of ss sv dk "Some ?n"] Cons.prems(1) ne by simp
    moreover have "?n \<noteq> []"
      using live_ids_nonempty [of s ?n sv dk] b(1) Cons.prems(1) by (auto dest!: in_set_takeD simp: set_page_ids)
    ultimately have "?n < hd (fst (walk sv dk k (Some ?n) ss))" by (simp add: above_def)
    then have "?n < x" using x(2) ne by (meson hd_in_set less_trans)
    then have "\<forall>i \<in> set (take k ?I). i < x" using b(2) by (meson le_less_trans)
    with x len long show ?thesis by (auto simp: step)
  qed
qed simp

lemma walk_finishes:
  assumes "0 < k" "\<forall>s \<in> set ss. pageable s" "ss \<noteq> []" "finite A"
    "\<forall>s \<in> set ss. set (live_ids sv dk s) \<subseteq> A" "card A \<le> k * length ss"
  shows "snd (walk sv dk k c ss)"
proof (rule ccontr)
  assume not: "\<not> snd (walk sv dk k c ss)"
  let ?W = "fst (walk sv dk k c ss)"
  from walk_unfinished [OF assms(1,2) not assms(3)] obtain x
    where len: "length ?W = k * length ss" and x: "x \<in> A" "\<forall>i \<in> set ?W. i < x"
    using assms(5) by blast
  have W: "sorted_wrt (<) ?W" and "set ?W \<subseteq> (\<Union>s \<in> set ss. set (live_ids sv dk s))"
    using walk_sorted [OF assms(1,2), of sv dk c] by simp_all
  with assms(5) have sub: "set ?W \<subseteq> A" by blast
  from W have "distinct ?W" by (simp add: strict_sorted_iff)
  then have "card (set ?W) = k * length ss" using len by (simp add: distinct_card)
  moreover have "x \<notin> set ?W" using x(2) by auto
  ultimately have "card (insert x (set ?W)) = Suc (k * length ss)" by simp
  moreover have "card (insert x (set ?W)) \<le> card A" using sub x(1) assms(4) by (intro card_mono) auto
  ultimately show False using assms(6) by simp
qed

section \<open>Guarantees\<close>

text \<open>
  C37. The filtered columns show nothing of attributes the caller may not read. On two databases that
  differ only there (in the values, normal forms, verification and errors of records, the values and
  provenance of masters and approval tasks, and the values of events) and in blocking keys, the lists
  of entities, tasks and operations are the same, and those of records and objects and the detail of an
  entity are the same up to the blocking keys, which are shown unfiltered
  (\<open>blocking_keys_show_unreadable_values\<close>).
\<close>

theorem filtered_columns_do_not_show:
  assumes "indistinguishable sv s t"
  shows "map unkeyed (source_records sv state n t) = map unkeyed (source_records sv state n s) \<and>
    map (apsnd (map_option unkeyed)) (source_objects sv stamp dk n t) =
      map (apsnd (map_option unkeyed)) (source_objects sv stamp dk n s) \<and>
    entities_page sv dk k cursor t = entities_page sv dk k cursor s \<and>
    recent_entities sv stamp dk n cursor t = recent_entities sv stamp dk n cursor s \<and>
    map_sum id unkeyed_detail (entity_detail sv stamp i t) = map_sum id unkeyed_detail (entity_detail sv stamp i s) \<and>
    review_tasks sv stamp st t = review_tasks sv stamp st s \<and>
    operations sv stamp t = operations sv stamp s"
proof -
  have same: "same_sight sv s t" using assms by (rule same_sight.intro)
  show ?thesis
    by (intro conjI same_sight.source_records_same [OF same] same_sight.source_objects_same [OF same]
      same_sight.entities_page_same [OF same] same_sight.recent_entities_same [OF same]
      same_sight.entity_detail_same [OF same] same_sight.review_tasks_same [OF same]
      same_sight.operations_same [OF same])
qed

text \<open>
  C39. A client that walks the entity pages by their cursors while the database keeps changing
  finishes, once the pages read could hold all entities there ever were, and it sees every entity
  that stayed listed throughout, none twice, in the order of their ids, and nothing that was not
  listed when its page was read.
\<close>

theorem page_walks_survive_concurrent_changes:
  assumes "0 < k" "ss \<noteq> []" "\<forall>s \<in> set ss. pageable s"
    and "finite A" "\<forall>s \<in> set ss. set (live_ids sv dk s) \<subseteq> A" "card A \<le> k * length ss"
  shows "\<exists>ids. walk sv dk k None ss = (ids, True) \<and> sorted_wrt (<) ids \<and>
    (\<Inter>s \<in> set ss. set (live_ids sv dk s)) \<subseteq> set ids \<and> set ids \<subseteq> (\<Union>s \<in> set ss. set (live_ids sv dk s))"
proof -
  have fin: "snd (walk sv dk k None ss)" by (rule walk_finishes [OF assms(1,3,2,4,5,6)])
  have all: "(\<Inter>s \<in> set ss. set (live_ids sv dk s)) \<subseteq> set (fst (walk sv dk k None ss))"
    using walk_complete [OF assms(1,3) fin] by (auto simp: above_def)
  from walk_sorted [OF assms(1,3), of sv dk None] fin all show ?thesis
    by (intro exI [of _ "fst (walk sv dk k None ss)"]) (simp add: prod_eq_iff)
qed

section \<open>Witnesses\<close>

text \<open>A supplier domain whose tax number only auditors may read, with one record and its master.\<close>

definition guarded_domain :: domain_row where
  "guarded_domain = demo_domain\<lparr>dm_definition := [(''attributes'', JList
     [JObj [(''key'', JStr ''name'')],
      JObj [(''key'', JStr ''tax_id''), (''read_roles'', JList [JStr ''auditor''])]])]\<rparr>"

definition guarded_record :: "string \<Rightarrow> source_record" where
  "guarded_record tax = (demo_record ''r1'' ''s1'' ''Acme'' 5)
     \<lparr>sr_original := [(''name'', JStr ''Acme''), (''tax_id'', JStr tax)],
      sr_normalized := [(''name'', JStr ''acme''), (''tax_id'', JStr tax)], sr_block := ''p0|tax_id='' @ tax\<rparr>"

definition guarded_master :: "string \<Rightarrow> master_version" where
  "guarded_master tax =
     \<lparr>mv_id = ''m1'', mv_ws = ''w1'', mv_entity = ''e1'', mv_version = 1, mv_status = DraftMaster,
      mv_values = [(''name'', JStr ''Acme''), (''tax_id'', JStr tax)], mv_provenance = [],
      mv_reason = None, mv_approved_by = None\<rparr>"

definition guarded_db :: "string \<Rightarrow> db" where
  "guarded_db tax = demo_db\<lparr>domains := [guarded_domain], records := [guarded_record tax],
     objects := [demo_object ''o1'' ''r1'' ''s1''], masters := [guarded_master tax]\<rparr>"

definition steward_service :: service where
  "steward_service = \<lparr>wid = ''w1'', subject = ''sam'', roles = [''steward'']\<rparr>"

lemma guarded_readable:
  "readable_fields steward_service ''supplier'' (guarded_db tax) = [''name'']"
  by (simp add: readable_fields_def find_domain_def guarded_db_def guarded_domain_def demo_domain_def
      steward_service_def attribute_rows_def dget_or_def dget_def may_read_def strings_of_def text_of_def)

lemma guarded_alike: "indistinguishable steward_service (guarded_db a) (guarded_db b)"
  unfolding indistinguishable_def
proof (intro exI conjI)
  show "guarded_db b = guarded_db a\<lparr>records := records (guarded_db b), masters := masters (guarded_db b),
      tasks := tasks (guarded_db b), events := events (guarded_db b)\<rparr>"
    by (simp add: guarded_db_def)
  have fs: "readable_fields steward_service (sr_domain (guarded_record a)) (guarded_db a) = [''name'']"
    by (simp add: guarded_readable guarded_record_def demo_record_def)
  have "alike_record steward_service (guarded_db a) (guarded_record a) (guarded_record b)"
    unfolding alike_record_def
    by (intro exI [of _ "sr_original (guarded_record b)"] exI [of _ "sr_normalized (guarded_record b)"]
        exI [of _ "[]"] exI [of _ "[]"] exI [of _ "sr_block (guarded_record b)"])
      (auto simp: guarded_readable guarded_record_def demo_record_def guarded_db_def [of a, THEN arg_cong [of _ _ objects]]
        demo_object_def alike_def filter_mapping_def Let_def)
  then show "list_all2 (alike_record steward_service (guarded_db a)) (records (guarded_db a)) (records (guarded_db b))"
    by (simp add: guarded_db_def)
  have "alike_master steward_service (guarded_db a) (guarded_master a) (guarded_master b)"
    unfolding alike_master_def
    by (intro exI [of _ "mv_values (guarded_master b)"] exI [of _ "[]"])
      (auto simp: guarded_readable guarded_master_def guarded_db_def [of a, THEN arg_cong [of _ _ entities]]
        demo_db_def demo_entity_def alike_def filter_mapping_def)
  then show "list_all2 (alike_master steward_service (guarded_db a)) (masters (guarded_db a)) (masters (guarded_db b))"
    by (simp add: guarded_db_def)
qed (simp_all add: guarded_db_def demo_db_def empty_db_def)

interpretation guarded: same_sight steward_service "guarded_db ''DE1''" "guarded_db ''DE2''"
  by unfold_locales (rule guarded_alike)

theorem filtered_columns_do_not_show_witness:
  "records (guarded_db ''DE1'') \<noteq> records (guarded_db ''DE2'') \<and>
   map unkeyed (source_records steward_service None 10 (guarded_db ''DE1'')) =
     map unkeyed (source_records steward_service None 10 (guarded_db ''DE2'')) \<and>
   entities_page steward_service None 10 None (guarded_db ''DE1'') = entities_page steward_service None 10 None (guarded_db ''DE2'')"
proof -
  have "sr_original (hd (records (guarded_db ''DE1''))) \<noteq> sr_original (hd (records (guarded_db ''DE2'')))"
    by (simp add: guarded_db_def guarded_record_def)
  with filtered_columns_do_not_show [OF guarded_alike [of "''DE2''" "''DE1''"]]
  show ?thesis by metis
qed

text \<open>
  The blocking key is not filtered. Ingestion stores the first key of the normalised record in it,
  so an identifier used for blocking shows to callers who may not read the attribute.
\<close>

lemma blocking_keys_show_unreadable_values:
  fixes tax
  defines "p \<equiv> tax_policy\<lparr>blocking := [[(''fields'', JList [JStr ''tax_id''])]]\<rparr>"
    and "r \<equiv> guarded_record tax"
  assumes "tax \<noteq> []"
  shows "blocking_keys ascii_runtime p (sr_normalized r) = Inr [sr_block r]"
    and "''tax_id'' \<notin> set (readable_fields steward_service (sr_domain r) (guarded_db tax))"
    and "sr_block (record_view (readable_fields steward_service (sr_domain r) (guarded_db tax)) r) = ''p0|tax_id='' @ tax"
proof -
  show "blocking_keys ascii_runtime p (sr_normalized r) = Inr [sr_block r]"
    using assms(3) by (simp add: p_def r_def blocking_keys_def strategy_parts_def dget_or_def dget_def py_iter_def
        guarded_record_def demo_record_def is_missing_def py_str_def digits_zero field_parts_def jget_def)
qed (simp_all add: r_def guarded_record_def demo_record_def guarded_readable record_view_def)

definition two_entities :: db where
  "two_entities = demo_db\<lparr>entities := [demo_entity ''e2'', demo_entity ''e1'']\<rparr>"

definition three_entities :: db where
  "three_entities = demo_db\<lparr>entities := [demo_entity ''e2'', demo_entity ''e0'', demo_entity ''e1'']\<rparr>"

theorem page_walks_survive_concurrent_changes_witness:
  "\<exists>ids. walk steward_service None 1 None [two_entities, three_entities, three_entities] = (ids, True) \<and>
    {''e1'', ''e2''} \<subseteq> set ids"
proof -
  have ids: "live_ids steward_service None two_entities = [''e2'', ''e1'']"
    "live_ids steward_service None three_entities = [''e2'', ''e0'', ''e1'']"
    by (simp_all add: live_ids_def listed_def two_entities_def three_entities_def demo_entity_def steward_service_def)
  have "pageable two_entities" "pageable three_entities"
    by (simp_all add: pageable_def two_entities_def three_entities_def demo_entity_def)
  then have "\<exists>is. walk steward_service None 1 None [two_entities, three_entities, three_entities] = (is, True) \<and>
      sorted_wrt (<) is \<and>
      (\<Inter>s \<in> set [two_entities, three_entities, three_entities]. set (live_ids steward_service None s)) \<subseteq> set is \<and>
      set is \<subseteq> (\<Union>s \<in> set [two_entities, three_entities, three_entities]. set (live_ids steward_service None s))"
    by (intro page_walks_survive_concurrent_changes [where A = "{''e0'', ''e1'', ''e2''}"]) (simp_all add: ids)
  then show ?thesis by (auto simp: ids)
qed

end
