(* ===== verification/Assistant.thy ===== *)
theory Assistant
  imports Views Network Simulation
begin

text \<open>
  The governed assistant (assistant/service.py and its route in api/routes.py): the evidence a caller
  may read, its redaction, the local and the hosted provider, and what a request leaves behind. The
  hosted model's answer, reading its key, JSON text and pydantic's reading of an answer are parameters,
  and so is the rendering of the views of masters and tasks as JSON.
\<close>

section \<open>Redaction\<close>

definition sensitive_keys :: "string list" where
  "sensitive_keys = [''authorization'', ''password'', ''secret'', ''secret_ref'', ''token'', ''api_key'', ''client_secret'']"

definition sensitive_key :: "runtime \<Rightarrow> string \<Rightarrow> bool" where
  "sensitive_key R k \<longleftrightarrow>
     lower R k \<in> set sensitive_keys \<or> (\<exists>m \<in> set [''password'', ''secret'', ''token'']. substring m (lower R k))"

fun redact :: "runtime \<Rightarrow> json \<Rightarrow> json" where
  "redact R (JObj d) = JObj (filter (\<lambda>(k, v). \<not> sensitive_key R k) (map (\<lambda>(k, v). (k, redact R v)) d))"
| "redact R (JList xs) = JList (map (redact R) xs)"
| "redact R v = v"

text \<open>No sensitive key at any depth.\<close>

fun clean :: "runtime \<Rightarrow> json \<Rightarrow> bool" where
  "clean R (JObj d) \<longleftrightarrow> list_all (\<lambda>(k, v). \<not> sensitive_key R k \<and> clean R v) d"
| "clean R (JList xs) \<longleftrightarrow> list_all (clean R) xs"
| "clean R v \<longleftrightarrow> True"

lemma clean_redact: "clean R (redact R v)"
  by (induction R v rule: redact.induct) (auto simp: list_all_iff)

lemma redact_clean: "clean R v \<Longrightarrow> redact R v = v"
proof (induction R v rule: redact.induct)
  case (1 R d)
  then have "map (\<lambda>(k, v). (k, redact R v)) d = d"
    by (intro map_idI) (fastforce simp: list_all_iff)
  with 1 show ?case by (simp add: list_all_iff filter_id_conv case_prod_unfold)
next
  case (2 R xs)
  then show ?case by (auto simp: list_all_iff intro: map_idI)
qed auto

lemma redact_idem: "redact R (redact R v) = redact R v"
  by (rule redact_clean [OF clean_redact])

section \<open>Evidence\<close>

datatype purpose = ExplainQuality | SummarizeMatch | ProposeMapping | DraftRule

definition purpose_name :: "purpose \<Rightarrow> string" where
  "purpose_name p = (case p of ExplainQuality \<Rightarrow> ''explain_quality'' | SummarizeMatch \<Rightarrow> ''summarize_match''
     | ProposeMapping \<Rightarrow> ''propose_mapping'' | DraftRule \<Rightarrow> ''draft_rule'')"

record assist_request =
  aq_purpose :: purpose
  aq_domain :: string
  aq_objective :: string
  aq_refs :: "string list"

record renderer =
  rd_master :: "master_version \<Rightarrow> json"
  rd_task :: "review_task \<Rightarrow> json"

text \<open>\<open>v in readable\<close>: a list or a dict cannot be hashed.\<close>

definition hashed_in :: "json \<Rightarrow> string list \<Rightarrow> bool res" where
  "hashed_in v fs =
     (case v of
        JStr k \<Rightarrow> Inr (k \<in> set fs) | JList _ \<Rightarrow> Inl (PyError ''TypeError'') | JObj _ \<Rightarrow> Inl (PyError ''TypeError'')
      | _ \<Rightarrow> Inr False)"

fun filter_res :: "('a \<Rightarrow> bool res) \<Rightarrow> 'a list \<Rightarrow> 'a list res" where
  "filter_res f [] = Inr []"
| "filter_res f (x # xs) = bind_res (f x) (\<lambda>b. bind_res (filter_res f xs) (\<lambda>ys. Inr (if b then x # ys else ys)))"

text \<open>\<open>[row for row in d.get(k, []) if row.get(field) in readable]\<close>\<close>

definition readable_rows :: "dict \<Rightarrow> string \<Rightarrow> string \<Rightarrow> string list \<Rightarrow> json res" where
  "readable_rows d k field fs =
     bind_res (py_iter (dget_or d k (JList []))) (\<lambda>rows.
     bind_res (filter_res (\<lambda>r. bind_res (as_dict r) (\<lambda>a. hashed_in (dget a field) fs)) rows) (\<lambda>kept.
     Inr (JList kept)))"

definition readable_names :: "dict \<Rightarrow> string \<Rightarrow> string list \<Rightarrow> json res" where
  "readable_names d k fs =
     bind_res (py_iter (dget_or d k (JList []))) (\<lambda>names.
     bind_res (filter_res (\<lambda>n. hashed_in n fs) names) (\<lambda>kept. Inr (JList kept)))"

definition readable_strategy :: "string list \<Rightarrow> json \<Rightarrow> dict res" where
  "readable_strategy fs strategy =
     bind_res (as_dict strategy) (\<lambda>d.
     bind_res (readable_names d ''fields'' fs) (\<lambda>names.
     let filtered = AList.update ''fields'' names d
     in bind_res (as_dict (dget_or d ''prefix'' (JObj []))) (\<lambda>prefix.
        bind_res (hashed_in (dget prefix ''field'') fs) (\<lambda>b.
        Inr (if b then filtered else AList.delete ''prefix'' filtered)))))"

definition readable_blocking :: "string list \<Rightarrow> dict \<Rightarrow> json res" where
  "readable_blocking fs matching =
     bind_res (py_iter (dget_or matching ''blocking'' (JList []))) (\<lambda>strategies.
     bind_res (map_res (readable_strategy fs) strategies) (\<lambda>ds.
     Inr (JList (map JObj (filter (\<lambda>d. truthy (dget d ''fields'') \<or> truthy (dget d ''prefix'')) ds)))))"

text \<open>A policy cut down to the readable attributes, section by section.\<close>

definition readable_policy :: "string list \<Rightarrow> dict \<Rightarrow> dict res" where
  "readable_policy fs policy =
     bind_res (readable_rows policy ''attributes'' ''key'' fs) (\<lambda>attributes.
     let p1 = AList.update ''attributes'' attributes policy
     in bind_res (readable_rows p1 ''identifiers'' ''field'' fs) (\<lambda>identifiers.
     let p2 = AList.update ''identifiers'' identifiers p1
     in bind_res (as_dict (dget_or p2 ''matching'' (JObj []))) (\<lambda>m.
        bind_res (readable_rows m ''comparisons'' ''field'' fs) (\<lambda>comparisons.
        let m1 = AList.update ''comparisons'' comparisons m
        in bind_res (readable_names m1 ''hard_conflicts'' fs) (\<lambda>hard.
        let m2 = AList.update ''hard_conflicts'' hard m1
        in bind_res (readable_blocking fs m2) (\<lambda>blocking.
        let p3 = AList.update ''matching'' (JObj (AList.update ''blocking'' blocking m2)) p2
        in bind_res (readable_rows p3 ''validation'' ''attribute'' fs) (\<lambda>validation.
        let p4 = AList.update ''validation'' validation p3
        in bind_res (as_dict (dget_or p4 ''survivorship'' (JObj []))) (\<lambda>survivorship.
        Inr (AList.update ''survivorship''
          (JObj (filter (\<lambda>(k, v). k = ''default'' \<or> k \<in> set fs) survivorship)) p4)))))))))"

definition error_json :: "quality_error \<Rightarrow> json" where
  "error_json e = JObj [(''attribute'', JStr (qe_attribute e)), (''code'', JStr (qe_code e)), (''message'', JStr (qe_message e))]"

definition domain_records :: "service \<Rightarrow> string \<Rightarrow> db \<Rightarrow> source_record list" where
  "domain_records sv dk s = filter (\<lambda>r. sr_ws r = wid sv \<and> sr_domain r = dk) (records s)"

definition quality_evidence :: "service \<Rightarrow> string \<Rightarrow> string \<Rightarrow> string list \<Rightarrow> db \<Rightarrow> json" where
  "quality_evidence sv reference dk fs s =
     (let rows = domain_records sv dk s;
          errors = concat (map (\<lambda>r. filter (\<lambda>e. qe_attribute e \<in> set fs) (sr_errors r)) rows)
      in JObj [(''reference'', JStr reference), (''measured_records'', JInt (int (length rows))),
           (''invalid_records'', JInt (int (length (remdups (map sr_id (filter (\<lambda>r. sr_state r = Quarantine) rows)))))),
           (''errors'', JList (map error_json (take 100 errors)))])"

definition entity_evidence :: "renderer \<Rightarrow> service \<Rightarrow> string \<Rightarrow> string \<Rightarrow> string list \<Rightarrow> ident \<Rightarrow> db \<Rightarrow> json res" where
  "entity_evidence D sv reference dk fs i s =
     bind_res (from_option (HTTPException 404 ''assistant_evidence_not_found'')
       (find (\<lambda>e. en_id e = i \<and> en_ws e = wid sv \<and> en_domain e = dk) (entities s))) (\<lambda>e.
     let master = latest mv_version (filter (\<lambda>m. mv_entity m = en_id e) (masters s))
     in Inr (JObj [(''reference'', JStr reference),
          (''entity'', JObj [(''id'', JStr (en_id e)), (''version'', JInt (en_version e)),
             (''status'', JStr (entity_status_name (en_status e)))]),
          (''master'', case master of None \<Rightarrow> JNull | Some m \<Rightarrow> rd_master D (master_view fs m))]))"

definition review_evidence :: "renderer \<Rightarrow> service \<Rightarrow> string \<Rightarrow> ident \<Rightarrow> db \<Rightarrow> json res" where
  "review_evidence D sv reference i s =
     bind_res (from_option (HTTPException 404 ''assistant_evidence_not_found'')
       (find (\<lambda>t. rt_id t = i \<and> rt_ws t = wid sv) (tasks s))) (\<lambda>t.
     Inr (JObj [(''reference'', JStr reference), (''review'', rd_task D (task_view sv s t))]))"

definition source_evidence :: "service \<Rightarrow> string \<Rightarrow> string \<Rightarrow> string list \<Rightarrow> string \<Rightarrow> db \<Rightarrow> json res" where
  "source_evidence sv reference dk fs key s =
     bind_res (from_option (HTTPException 404 ''assistant_evidence_not_found'') (find_source sv key s)) (\<lambda>c.
     let rows = filter (\<lambda>r. sr_source r = sc_id c \<and> sr_domain r = dk) (records s);
         names = sorted_set (concat (map (\<lambda>r. filter (\<lambda>k. k \<in> set fs) (dkeys (sr_original r))) rows))
     in Inr (JObj [(''reference'', JStr reference),
          (''source'', JObj [(''key'', JStr (sc_key c)), (''kind'', JStr (sc_kind c)), (''status'', JStr (sc_status c))]),
          (''available_fields'', JList (map JStr names))]))"

definition evidence_piece :: "renderer \<Rightarrow> service \<Rightarrow> domain_row \<Rightarrow> string list \<Rightarrow> db \<Rightarrow> string \<Rightarrow> json res" where
  "evidence_piece D sv d fs s reference =
     (case cut CHR '':'' reference of
        None \<Rightarrow> Inl (HTTPException 422 ''invalid_evidence_reference'')
      | Some (kind, i) \<Rightarrow>
          if i = [] then Inl (HTTPException 422 ''invalid_evidence_reference'')
          else if kind = ''domain'' \<and> i = dm_key d then
            bind_res (readable_policy fs (dm_definition d)) (\<lambda>p.
            Inr (JObj [(''reference'', JStr reference), (''policy'', JObj p)]))
          else if kind = ''quality'' \<and> i = dm_key d then Inr (quality_evidence sv reference (dm_key d) fs s)
          else if kind = ''entity'' then entity_evidence D sv reference (dm_key d) fs i s
          else if kind = ''review'' then review_evidence D sv reference i s
          else if kind = ''source'' then source_evidence sv reference (dm_key d) fs i s
          else Inl (HTTPException 422 ''unsupported_evidence_reference''))"

definition evidence_refs :: "assist_request \<Rightarrow> string \<Rightarrow> string list" where
  "evidence_refs rq dk =
     (let own = ''domain:'' @ dk; refs = (if aq_refs rq = [] then [own] else aq_refs rq)
      in if aq_purpose rq = DraftRule \<and> own \<notin> set refs then own # refs else refs)"

definition assistant_evidence :: "renderer \<Rightarrow> service \<Rightarrow> assist_request \<Rightarrow> db \<Rightarrow> json list res" where
  "assistant_evidence D sv rq s =
     bind_res (from_option (HTTPException 404 ''domain_not_found'') (find_domain sv (aq_domain rq) s)) (\<lambda>d.
     map_res (evidence_piece D sv d (readable_fields sv (dm_key d) s) s) (evidence_refs rq (dm_key d)))"

section \<open>Drafts\<close>

record draft_output =
  dr_summary :: string
  dr_recommendations :: "string list"
  dr_draft :: "dict option"
  dr_limitations :: "string list"

text \<open>\<open>AssistantOutput\<close>: a ValidationError is a ValueError.\<close>

definition output_fits :: "draft_output \<Rightarrow> bool" where
  "output_fits x \<longleftrightarrow> 1 \<le> length (dr_summary x) \<and> length (dr_summary x) \<le> 4000 \<and>
     length (dr_recommendations x) \<le> 12 \<and> length (dr_limitations x) \<le> 12"

definition bounded_output :: "draft_output \<Rightarrow> draft_output res" where
  "bounded_output x = bind_res (guard_res (output_fits x) (PyError ''ValueError'')) (\<lambda>_. Inr x)"

fun add_up :: "('a \<Rightarrow> int res) \<Rightarrow> 'a list \<Rightarrow> int res" where
  "add_up f [] = Inr 0"
| "add_up f (x # xs) = bind_res (f x) (\<lambda>n. bind_res (add_up f xs) (\<lambda>m. Inr (n + m)))"

text \<open>\<open>len(v)\<close>\<close>

definition json_len :: "json \<Rightarrow> int res" where
  "json_len v = (case v of
     JStr s \<Rightarrow> Inr (int (length s)) | JList xs \<Rightarrow> Inr (int (length xs)) | JObj d \<Rightarrow> Inr (int (length d))
   | _ \<Rightarrow> Inl (PyError ''TypeError''))"

definition objects_of :: "json list \<Rightarrow> dict list" where
  "objects_of xs = concat (map (\<lambda>x. case x of JObj d \<Rightarrow> [d] | _ \<Rightarrow> []) xs)"

text \<open>The deterministic provider, on evidence it redacts first.\<close>

definition explain_quality :: "runtime \<Rightarrow> string \<Rightarrow> dict list \<Rightarrow> draft_output res" where
  "explain_quality R domain items =
     bind_res (add_up (\<lambda>d. py_int R (dget_or d ''invalid_records'' (JInt 0))) items) (\<lambda>n.
     bounded_output
       \<lparr>dr_summary = ''The supplied '' @ domain @ '' evidence reports '' @ show_int n @ '' invalid '' @
          ''record(s). This explanation is deterministic and uses only '' @ ''authorized evidence.'',
        dr_recommendations =
          [''Open the failing field distribution and inspect preserved source values.'',
           ''Repair the source mapping or record, then reprocess before approval.''],
        dr_draft = None,
        dr_limitations = [''No external model was called; causal claims require steward review.'']\<rparr>)"

definition summarize_match :: "dict list \<Rightarrow> draft_output res" where
  "summarize_match items =
     bind_res (add_up (\<lambda>d. json_len (dget_or d ''contradictions'' (JList []))) items) (\<lambda>n.
     bounded_output
       \<lparr>dr_summary = ''The authorized match evidence contains '' @ show_int n @ '' hard '' @
          ''contradiction(s); identifier conflicts must override similarity scores.'',
        dr_recommendations = [''Review each weighted comparison and hard-identifier constraint.''],
        dr_draft = None,
        dr_limitations = [''This summary cannot decide or approve a match.'']\<rparr>)"

definition propose_mapping :: "runtime \<Rightarrow> string \<Rightarrow> dict list \<Rightarrow> draft_output res" where
  "propose_mapping R domain items =
     bind_res (map_res (\<lambda>d. py_iter (dget_or d ''available_fields'' (JList []))) items) (\<lambda>names.
     let fs = sorted_set (map (py_str R) (concat names))
     in bounded_output
       \<lparr>dr_summary = ''Prepared a review-only mapping proposal for '' @ domain @ ''.'',
        dr_recommendations = [''Confirm types and null semantics against a source preview.''],
        dr_draft = Some [(''domain'', JStr domain), (''field_mappings'', JObj (map (\<lambda>k. (k, JStr k)) fs))],
        dr_limitations = [''Mappings are not saved until an authorized operator validates them.'']\<rparr>)"

definition draft_rule :: "string \<Rightarrow> dict list \<Rightarrow> draft_output res" where
  "draft_rule domain items =
     (case List.map_filter (\<lambda>d. case dget d ''policy'' of JObj p \<Rightarrow> Some p | _ \<Rightarrow> None) items of
        [] \<Rightarrow> bounded_output
          \<lparr>dr_summary = ''A rule draft could not be formed from the authorized evidence.'', dr_recommendations = [],
           dr_draft = None, dr_limitations = [''A current domain policy is required.'']\<rparr>
      | p # _ \<Rightarrow> bounded_output
          \<lparr>dr_summary = ''Prepared a validated, inactive rule draft for '' @ domain @ ''.'',
           dr_recommendations = [''Run impact simulation before requesting independent approval.''],
           dr_draft = Some [(''domains'', JObj [(domain, JObj p)])],
           dr_limitations = [''The draft is not active and cannot self-approve.'']\<rparr>)"

definition local_generate :: "runtime \<Rightarrow> assist_request \<Rightarrow> json list \<Rightarrow> draft_output res" where
  "local_generate R rq ev =
     (let items = objects_of (map (redact R) ev)
      in case aq_purpose rq of
           ExplainQuality \<Rightarrow> explain_quality R (aq_domain rq) items
         | SummarizeMatch \<Rightarrow> summarize_match items
         | ProposeMapping \<Rightarrow> propose_mapping R (aq_domain rq) items
         | DraftRule \<Rightarrow> draft_rule (aq_domain rq) items)"

section \<open>The hosted provider\<close>

record ai_settings =
  ai_enabled :: bool
  ai_provider :: string
  ai_endpoint :: string
  ai_hosts :: "string list"
  ai_model :: "string option"
  ai_key_file :: "string option"
  ai_max_input :: nat
  ai_max_output :: int

text \<open>
  \<open>dumps\<close> is \<open>json.dumps(_, sort_keys=True, default=str)\<close>, \<open>loads\<close> its inverse, \<open>post\<close> the decoded answer to
  a payload at an endpoint under a key, and \<open>reads\<close> is \<open>model_validate_json\<close>.
\<close>

record ai_tools =
  at_dumps :: "json \<Rightarrow> string"
  at_loads :: "string \<Rightarrow> json"
  at_sha :: "string \<Rightarrow> string"
  at_key :: "string \<Rightarrow> string res"
  at_post :: "string \<Rightarrow> string \<Rightarrow> json \<Rightarrow> json res"
  at_reads :: "json \<Rightarrow> draft_output option"
  at_instructions :: string
  at_schema :: json

definition new_hosted :: "parsers \<Rightarrow> network \<Rightarrow> ai_settings \<Rightarrow> unit res" where
  "new_hosted U N G =
     bind_res (guard_res (truthy_str (ai_model G) \<and> truthy_str (ai_key_file G)) (PyError ''ValueError'')) (\<lambda>_.
     bind_res (from_option (PyError ''ValueError'') (urlparse U (ai_endpoint G))) (\<lambda>u.
     bind_res (guard_res (listed_destination u [''https''] (map JStr (ai_hosts G))) (PyError ''ValueError'')) (\<lambda>_.
     bind_res (nt_resolve N (the (up_host u)) (case up_port u of Some p \<Rightarrow> if p \<noteq> 0 then p else 443 | None \<Rightarrow> 443)) (\<lambda>found.
     bind_res (guard_res (found \<noteq> []) (PyError ''ValueError'')) (\<lambda>_.
     guard_res (\<forall>a \<in> set found. \<not> unsafe_address a) (PyError ''ValueError''))))))"

definition hosted_payload :: "runtime \<Rightarrow> ai_tools \<Rightarrow> ai_settings \<Rightarrow> assist_request \<Rightarrow> string \<Rightarrow> json" where
  "hosted_payload R A G rq evidence =
     JObj [(''model'', JStr (the (ai_model G))), (''store'', JBool False), (''tools'', JList []), (''tool_choice'', JStr ''none''),
       (''max_output_tokens'', JInt (ai_max_output G)), (''instructions'', JStr (at_instructions A)),
       (''input'', JStr (at_dumps A (JObj [(''purpose'', JStr (purpose_name (aq_purpose rq))), (''domain'', JStr (aq_domain rq)),
          (''objective'', JStr (aq_objective rq)), (''evidence'', at_loads A evidence)]))),
       (''text'', JObj [(''format'', JObj [(''type'', JStr ''json_schema''), (''name'', JStr ''recordlane_assistant_draft''),
          (''strict'', JBool True), (''schema'', at_schema A)])])]"

text \<open>The first \<open>text\<close> of an \<open>output_text\<close> part; the search stops there.\<close>

fun find_part :: "json list \<Rightarrow> json option res" where
  "find_part [] = Inr None"
| "find_part (c # cs) =
     bind_res (as_dict c) (\<lambda>d. if dget d ''type'' = JStr ''output_text'' then Inr (Some (dget d ''text'')) else find_part cs)"

fun find_text :: "json list \<Rightarrow> json res" where
  "find_text [] = Inr JNull"
| "find_text (i # is') =
     bind_res (as_dict i) (\<lambda>d.
     bind_res (py_iter (dget_or d ''content'' (JList []))) (\<lambda>parts.
     bind_res (find_part parts) (\<lambda>found. case found of Some t \<Rightarrow> Inr t | None \<Rightarrow> find_text is')))"

definition answer_text :: "json \<Rightarrow> json res" where
  "answer_text body =
     bind_res (as_dict body) (\<lambda>d.
     if dget d ''output_text'' \<noteq> JNull then Inr (dget d ''output_text'')
     else bind_res (py_iter (dget_or d ''output'' (JList []))) find_text)"

text \<open>\<open>except (httpx.HTTPError, KeyError, TypeError, ValidationError)\<close>; reading an answer fails with the last.\<close>

definition catch_hosted :: "'a res \<Rightarrow> 'a res" where
  "catch_hosted r = (case r of
     Inl (PyError c) \<Rightarrow> if c \<in> {''HTTPError'', ''KeyError'', ''TypeError'', ''ValidationError''} then Inl (PyError ''RuntimeError'') else r
   | _ \<Rightarrow> r)"

definition hosted_generate :: "runtime \<Rightarrow> ai_tools \<Rightarrow> ai_settings \<Rightarrow> assist_request \<Rightarrow> json list \<Rightarrow> draft_output res" where
  "hosted_generate R A G rq ev =
     bind_res (at_key A (the (ai_key_file G))) (\<lambda>raw.
     let key = strip raw; evidence = at_dumps A (redact R (JList ev))
     in bind_res (guard_res (key \<noteq> []) (PyError ''ValueError'')) (\<lambda>_.
        bind_res (guard_res (length evidence \<le> ai_max_input G) (PyError ''ValueError'')) (\<lambda>_.
        catch_hosted
          (bind_res (at_post A (ai_endpoint G) key (hosted_payload R A G rq evidence)) (\<lambda>body.
           bind_res (answer_text body) (\<lambda>t. from_option (PyError ''ValidationError'') (at_reads A t)))))))"

section \<open>The governed assistant\<close>

definition provider_model :: "ai_settings \<Rightarrow> string" where
  "provider_model G = (if ai_provider G = ''local'' then ''recordlane-deterministic-v1'' else the (ai_model G))"

definition generate_draft ::
    "runtime \<Rightarrow> parsers \<Rightarrow> network \<Rightarrow> ai_tools \<Rightarrow> ai_settings \<Rightarrow> assist_request \<Rightarrow> json list \<Rightarrow> (draft_output \<times> dict) res" where
  "generate_draft R U N A G rq ev =
     bind_res (if ai_provider G = ''local'' then Inr ()
               else if ai_provider G = ''openai_responses'' then new_hosted U N G
               else Inl (PyError ''ValueError'')) (\<lambda>_.
     bind_res (guard_res (ai_enabled G) (PyError ''PermissionError'')) (\<lambda>_.
     bind_res (if ai_provider G = ''local'' then local_generate R rq ev else hosted_generate R A G rq ev) (\<lambda>x.
     Inr (x, [(''provider'', JStr (ai_provider G)), (''model'', JStr (provider_model G)),
        (''purpose'', JStr (purpose_name (aq_purpose rq))),
        (''evidence_sha256'', JStr (at_sha A (at_dumps A (redact R (JList ev)))))]))))"

section \<open>The route\<close>

record assist_answer =
  as_provider :: dict
  as_result :: draft_output
  as_configuration :: "ident option"

definition draft_permission :: "purpose \<Rightarrow> string" where
  "draft_permission p = (if p = DraftRule then ''model:write'' else ''read'')"

text \<open>A draft of the assistant becomes a draft configuration; a refusal of it is rolled back.\<close>

definition keep_draft :: "runtime \<Rightarrow> service \<Rightarrow> assist_request \<Rightarrow> draft_output \<Rightarrow> db \<Rightarrow> (ident option \<times> db) res" where
  "keep_draft R sv rq x s =
     (case dr_draft x of
        Some d \<Rightarrow>
          if aq_purpose rq = DraftRule \<and> d \<noteq> [] then
            (case create_config R sv d s of
               Inl (HTTPException _ _) \<Rightarrow> Inl (HTTPException 422 ''invalid_assistant_draft'')
             | Inl e \<Rightarrow> Inl e
             | Inr (c, t) \<Rightarrow> Inr (Some (cv_id c), t))
          else Inr (None, s)
      | None \<Rightarrow> Inr (None, s))"

text \<open>The answer, and the database as it is committed.\<close>

definition assistant_draft ::
    "runtime \<Rightarrow> parsers \<Rightarrow> network \<Rightarrow> ai_tools \<Rightarrow> renderer \<Rightarrow> ai_settings \<Rightarrow> principal \<Rightarrow> assist_request \<Rightarrow> db \<Rightarrow>
     assist_answer res \<times> db" where
  "assistant_draft R U N A D G p rq s =
     (case bind_res (open_service p (draft_permission (aq_purpose rq)) s) (\<lambda>sv.
           bind_res (assistant_evidence D sv rq s) (\<lambda>ev. Inr (sv, ev))) of
        Inl e \<Rightarrow> (Inl e, s)
      | Inr (sv, ev) \<Rightarrow>
          (case generate_draft R U N A G rq ev of
             Inl (PyError c) \<Rightarrow>
               if c = ''PermissionError'' then (Inl (HTTPException 409 ''assistant_disabled''), s)
               else if c \<in> {''RuntimeError'', ''ValueError'', ''OSError''} then
                 (Inl (HTTPException 502 ''assistant_provider_failed''),
                  audit R sv ''assistant.failed'' ''assistant_request'' (purpose_name (aq_purpose rq))
                    (JObj [(''provider'', JStr (ai_provider G)), (''error_type'', JStr c)]) s)
               else (Inl (PyError c), s)
           | Inl e \<Rightarrow> (Inl e, s)
           | Inr (x, provider) \<Rightarrow>
               (case keep_draft R sv rq x s of
                  Inl e \<Rightarrow> (Inl e, s)
                | Inr (cid, t) \<Rightarrow>
                    (Inr \<lparr>as_provider = provider, as_result = x, as_configuration = cid\<rparr>,
                     audit R sv ''assistant.draft_created'' ''assistant_request''
                       (case cid of Some i \<Rightarrow> i | None \<Rightarrow> purpose_name (aq_purpose rq))
                       (JObj (dict_merge provider
                          [(''evidence_refs'', JList (map JStr (aq_refs rq))),
                           (''configuration_id'', case cid of Some i \<Rightarrow> JStr i | None \<Rightarrow> JNull),
                           (''requires_review'', JBool True)])) t))))"

section \<open>What a request leaves behind\<close>

lemma audit_extends:
  "\<exists>e. audit R sv a ty i d s = s\<lparr>audits := audits s @ [e], ticks := Suc (ticks s)\<rparr>"
  unfolding audit_def Let_def by (rule exI) (rule refl)

lemma create_config_extends:
  assumes "create_config R sv d s = Inr (c, t)"
  shows "cv_status c = DraftConfig \<and> cv_document c = d \<and>
    (\<exists>as n. t = s\<lparr>audits := audits s @ as, ticks := n, configurations := configurations s @ [c]\<rparr>)"
proof -
  from assms have c: "cv_status c = DraftConfig" "cv_document c = d"
    and t: "\<exists>a ty i x. t = audit R sv a ty i x (s\<lparr>configurations := row_add c (configurations s), ticks := Suc (ticks s)\<rparr>)"
    by (auto simp: create_config_def res_elim Let_def)
  from t obtain a ty i x where
    "t = audit R sv a ty i x (s\<lparr>configurations := row_add c (configurations s), ticks := Suc (ticks s)\<rparr>)" by blast
  with audit_extends [of R sv a ty i x "s\<lparr>configurations := row_add c (configurations s), ticks := Suc (ticks s)\<rparr>"]
  obtain e where t: "t = s\<lparr>configurations := row_add c (configurations s), ticks := Suc (ticks s)\<rparr>
      \<lparr>audits := audits s @ [e], ticks := Suc (Suc (ticks s))\<rparr>" by auto
  have "t = s\<lparr>audits := audits s @ [e], ticks := Suc (Suc (ticks s)), configurations := configurations s @ [c]\<rparr>"
    unfolding t by (simp add: row_add_def)
  with c show ?thesis by blast
qed

lemma keep_draft_cases:
  assumes "keep_draft R sv rq x s = Inr (cid, t)"
  obtains (Nothing) "cid = None" "t = s"
    | (Kept) c d where "aq_purpose rq = DraftRule" "dr_draft x = Some d" "create_config R sv d s = Inr (c, t)" "cid = Some (cv_id c)"
  using assms by (auto simp: keep_draft_def split: option.splits if_splits sum.splits err.splits)

text \<open>A database with more audit entries and the given configurations besides.\<close>

definition adds_drafts :: "db \<Rightarrow> configuration list \<Rightarrow> db \<Rightarrow> bool" where
  "adds_drafts s cs t \<longleftrightarrow>
     (\<exists>as n. t = s\<lparr>audits := audits s @ as, ticks := n, configurations := configurations s @ cs\<rparr>)"

lemma adds_drafts_audit: "adds_drafts s cs t \<Longrightarrow> adds_drafts s cs (audit R sv a ty i d t)"
proof -
  assume "adds_drafts s cs t"
  then obtain as n where t: "t = s\<lparr>audits := audits s @ as, ticks := n, configurations := configurations s @ cs\<rparr>"
    unfolding adds_drafts_def by blast
  obtain e where e: "audit R sv a ty i d t = t\<lparr>audits := audits t @ [e], ticks := Suc (ticks t)\<rparr>"
    using audit_extends by blast
  have "audit R sv a ty i d t =
      s\<lparr>audits := audits s @ (as @ [e]), ticks := Suc n, configurations := configurations s @ cs\<rparr>"
    unfolding e unfolding t by simp
  then show ?thesis unfolding adds_drafts_def by blast
qed

lemma adds_drafts_refl [simp]: "adds_drafts s [] s"
  unfolding adds_drafts_def by (rule exI [of _ "[]"], rule exI [of _ "ticks s"]) simp

lemma adds_drafts_failed: "adds_drafts s [] (audit R sv a ty i d s)"
  by (simp add: adds_drafts_audit)

lemma keep_draft_adds:
  assumes "keep_draft R sv rq x s = Inr (cid, t)"
  shows "\<exists>cs. adds_drafts s cs t \<and> (cs = [] \<or> (\<exists>c d. cs = [c] \<and> cv_status c = DraftConfig \<and> aq_purpose rq = DraftRule \<and>
    dr_draft x = Some d \<and> cv_document c = d))"
  using assms
proof (cases rule: keep_draft_cases)
  case Nothing
  then show ?thesis by (intro exI [of _ "[]"]) simp
next
  case (Kept c d)
  from create_config_extends [OF Kept(3)] have "adds_drafts s [c] t" "cv_status c = DraftConfig" "cv_document c = d"
    by (auto simp: adds_drafts_def)
  with Kept(1,2) show ?thesis by blast
qed

text \<open>
  C18. The assistant only drafts. Whatever the request, the evidence and the answer of the model, all a
  request changes is the audit trail and at most one new configuration: a draft with the document of the
  answer, and only when a rule was asked for by someone who may write models. A request that is
  refused or fails keeps no draft.
\<close>

theorem the_assistant_only_drafts:
  assumes "assistant_draft R U N A D G p rq s = (a, t)"
  shows "\<exists>cs. adds_drafts s cs t \<and>
    (cs = [] \<or> (\<exists>c x. cs = [c] \<and> cv_status c = DraftConfig \<and> aq_purpose rq = DraftRule \<and> allows p ''model:write'' \<and>
       a = Inr x \<and> dr_draft (as_result x) = Some (cv_document c)))"
proof (cases "bind_res (open_service p (draft_permission (aq_purpose rq)) s)
    (\<lambda>sv. bind_res (assistant_evidence D sv rq s) (\<lambda>ev. Inr (sv, ev)))")
  case (Inl e)
  with assms show ?thesis by (intro exI [of _ "[]"]) (simp add: assistant_draft_def)
next
  case (Inr q)
  obtain sv ev where q: "q = (sv, ev)" by (cases q)
  from Inr have "allows p (draft_permission (aq_purpose rq))" by (auto simp: res_elim open_service_def)
  then have may: "allows p ''model:write''" if "aq_purpose rq = DraftRule" using that by (simp add: draft_permission_def)
  show ?thesis
  proof (cases "generate_draft R U N A G rq ev")
    case (Inl e)
    with assms Inr q show ?thesis
      by (intro exI [of _ "[]"]) (auto simp: assistant_draft_def adds_drafts_failed split: err.splits if_splits)
  next
    case made: (Inr y)
    obtain x provider where y: "y = (x, provider)" by (cases y)
    show ?thesis
    proof (cases "keep_draft R sv rq x s")
      case (Inl e)
      with assms Inr q made y show ?thesis by (intro exI [of _ "[]"]) (simp add: assistant_draft_def)
    next
      case kept: (Inr z)
      obtain cid u where z: "z = (cid, u)" by (cases z)
      obtain cs where cs: "adds_drafts s cs u" "cs = [] \<or> (\<exists>c d. cs = [c] \<and> cv_status c = DraftConfig \<and>
          aq_purpose rq = DraftRule \<and> dr_draft x = Some d \<and> cv_document c = d)"
        using keep_draft_adds [OF kept [unfolded z]] by blast
      from assms Inr q made y kept z obtain b ty i d where
        t: "t = audit R sv b ty i d u" "a = Inr \<lparr>as_provider = provider, as_result = x, as_configuration = cid\<rparr>"
        by (auto simp: assistant_draft_def)
      have "adds_drafts s cs t" unfolding t(1) by (rule adds_drafts_audit [OF cs(1)])
      with cs(2) may t(2) show ?thesis by (intro exI [of _ cs]) auto
    qed
  qed
qed

section \<open>What the assistant sees\<close>

context same_sight
begin

lemma domain_records_alike:
  "list_all2 (\<lambda>r q. alike_record sv s r q \<and> sr_domain r = dk) (domain_records sv dk s) (domain_records sv dk t)"
proof -
  have "list_all2 (alike_record sv s) (records s) (records t)" by (rule ind_parts)
  then show ?thesis unfolding domain_records_def
    by (induction rule: list_all2_induct) (auto simp: alike_record_columns)
qed

lemma alike_errors:
  assumes "alike_record sv s r q"
  shows "filter (\<lambda>e. qe_attribute e \<in> set (readable_fields sv (sr_domain r) s)) (sr_errors r) =
    filter (\<lambda>e. qe_attribute e \<in> set (readable_fields sv (sr_domain r) s)) (sr_errors q)"
  using arg_cong [OF alike_record_view [OF assms, of "sr_domain r"], of sr_errors] by (simp add: record_view_def unkeyed_def)

lemma alike_names:
  assumes "alike_record sv s r q"
  shows "filter (\<lambda>k. k \<in> set (readable_fields sv (sr_domain r) s)) (dkeys (sr_original r)) =
    filter (\<lambda>k. k \<in> set (readable_fields sv (sr_domain r) s)) (dkeys (sr_original q))"
proof -
  have "filter_mapping (readable_fields sv (sr_domain r) s) (sr_original r) =
      filter_mapping (readable_fields sv (sr_domain r) s) (sr_original q)"
    using arg_cong [OF alike_record_view [OF assms, of "sr_domain r"], of sr_original] by (simp add: record_view_def unkeyed_def)
  then have "dkeys (filter_mapping (readable_fields sv (sr_domain r) s) (sr_original r)) =
      dkeys (filter_mapping (readable_fields sv (sr_domain r) s) (sr_original q))" by simp
  then show ?thesis by (simp add: filter_mapping_def dkeys_def filter_map o_def)
qed

lemma quality_evidence_same:
  "quality_evidence sv ref dk (readable_fields sv dk s) t = quality_evidence sv ref dk (readable_fields sv dk s) s"
proof -
  note rel = domain_records_alike [of dk]
  have "map (\<lambda>r. filter (\<lambda>e. qe_attribute e \<in> set (readable_fields sv dk s)) (sr_errors r)) (domain_records sv dk s) =
      map (\<lambda>r. filter (\<lambda>e. qe_attribute e \<in> set (readable_fields sv dk s)) (sr_errors r)) (domain_records sv dk t)"
    by (rule list_all2_map_eq [OF rel]) (use alike_errors in blast)
  moreover have "map sr_id (filter (\<lambda>r. sr_state r = Quarantine) (domain_records sv dk s)) =
      map sr_id (filter (\<lambda>r. sr_state r = Quarantine) (domain_records sv dk t))"
    using rel by (induction rule: list_all2_induct) (auto simp: alike_record_columns)
  moreover have "length (domain_records sv dk s) = length (domain_records sv dk t)"
    using rel by (rule list_all2_lengthD)
  ultimately show ?thesis by (simp add: quality_evidence_def Let_def)
qed

lemma source_evidence_same:
  "source_evidence sv ref dk (readable_fields sv dk s) key t = source_evidence sv ref dk (readable_fields sv dk s) key s"
proof -
  have src: "find_source sv key t = find_source sv key s"
    by (rule ind_parts) (simp add: find_source_def)
  have "map (\<lambda>r. filter (\<lambda>k. k \<in> set (readable_fields sv dk s)) (dkeys (sr_original r)))
        (filter (\<lambda>r. sr_source r = i \<and> sr_domain r = dk) (records s)) =
      map (\<lambda>r. filter (\<lambda>k. k \<in> set (readable_fields sv dk s)) (dkeys (sr_original r)))
        (filter (\<lambda>r. sr_source r = i \<and> sr_domain r = dk) (records t))" for i
  proof -
    have "list_all2 (alike_record sv s) (records s) (records t)" by (rule ind_parts)
    then show ?thesis
    proof (induction rule: list_all2_induct)
      case (Cons r rs q qs)
      from Cons.hyps(1) have "sr_source q = sr_source r" "sr_domain q = sr_domain r" by (auto simp: alike_record_def)
      with Cons alike_names [OF Cons.hyps(1)] show ?case by auto
    qed simp
  qed
  with src show ?thesis by (simp add: source_evidence_def Let_def)
qed

lemma entity_evidence_same:
  "entity_evidence D sv ref dk (readable_fields sv dk s) i t = entity_evidence D sv ref dk (readable_fields sv dk s) i s"
proof -
  have ent: "entities t = entities s" by (rule ind_parts)
  have master: "map_option (master_view (readable_fields sv dk s)) (latest mv_version (filter (\<lambda>m. mv_entity m = en_id e) (masters t))) =
      map_option (master_view (readable_fields sv dk s)) (latest mv_version (filter (\<lambda>m. mv_entity m = en_id e) (masters s)))"
    if e: "e \<in> set (entities s)" "en_domain e = dk" for e
  proof -
    have "list_all2 (\<lambda>m q. alike_master sv s m q \<and> mv_entity m = en_id e)
        (filter (\<lambda>m. mv_entity m = en_id e) (masters s)) (filter (\<lambda>m. mv_entity m = en_id e) (masters t))"
    proof -
      have "list_all2 (alike_master sv s) (masters s) (masters t)" by (rule ind_parts)
      then show ?thesis by (induction rule: list_all2_induct) (auto dest: alike_columns)
    qed
    then have "rel_option (\<lambda>m q. alike_master sv s m q \<and> mv_entity m = en_id e)
        (latest mv_version (filter (\<lambda>m. mv_entity m = en_id e) (masters s)))
        (latest mv_version (filter (\<lambda>m. mv_entity m = en_id e) (masters t)))"
      by (rule latest_related) (auto simp: alike_columns)
    then show ?thesis
    proof cases
      case (Some m q)
      from alike_master_view [of sv s m q, OF _ e(1)] Some e(2) show ?thesis by simp
    qed simp
  qed
  show ?thesis
  proof (cases "find (\<lambda>e. en_id e = i \<and> en_ws e = wid sv \<and> en_domain e = dk) (entities s)")
    case None
    then show ?thesis by (simp add: entity_evidence_def ent)
  next
    case (Some e)
    from find_SomeD [OF Some] have "e \<in> set (entities s)" "en_domain e = dk" by simp_all
    from master [OF this] Some show ?thesis
      by (auto simp: entity_evidence_def ent Let_def split: option.splits)
  qed
qed

lemma review_evidence_same: "review_evidence D sv ref i t = review_evidence D sv ref i s"
proof -
  have ent: "entities t = entities s" by (rule ind_parts)
  have view: "task_view sv t x = task_view sv s x" for x
    by (simp add: task_view_def any_entity_def ent cong: option.case_cong)
  have "list_all2 (alike_task sv s) (tasks s) (tasks t)" by (rule ind_parts)
  then have "rel_option (alike_task sv s) (find (\<lambda>x. rt_id x = i \<and> rt_ws x = wid sv) (tasks s))
      (find (\<lambda>x. rt_id x = i \<and> rt_ws x = wid sv) (tasks t))"
    by (induction rule: list_all2_induct) (auto simp: alike_columns)
  then show ?thesis
    by cases (auto simp: review_evidence_def view dest: alike_task_view)
qed

lemma evidence_same: "assistant_evidence D sv rq t = assistant_evidence D sv rq s"
proof -
  have dom: "find_domain sv key t = find_domain sv key s" for key
    by (rule ind_parts) (simp add: find_domain_def)
  have "evidence_piece D sv d (readable_fields sv (dm_key d) s) t ref = evidence_piece D sv d (readable_fields sv (dm_key d) s) s ref" for d ref
    by (simp add: evidence_piece_def quality_evidence_same source_evidence_same entity_evidence_same review_evidence_same
        split: option.splits)
  then have "evidence_piece D sv d (readable_fields sv (dm_key d) s) t = evidence_piece D sv d (readable_fields sv (dm_key d) s) s" for d
    by (intro ext)
  then show ?thesis by (simp add: assistant_evidence_def dom)
qed

end

section \<open>What a provider sees\<close>

lemma redact_all_idem: "map (redact R) (map (redact R) ev) = map (redact R) ev"
  by (simp add: redact_idem)

lemma generate_draft_redacted:
  "generate_draft R U N A G rq (map (redact R) ev) = generate_draft R U N A G rq ev"
  by (simp add: generate_draft_def local_generate_def hosted_generate_def redact_idem comp_def Let_def)


section \<open>Edges\<close>

text \<open>
  No piece of evidence has contradictions at its top: those of a review are inside its task. So a match
  summary, which counts them there, always reports none.
\<close>

lemma evidence_without_contradictions:
  assumes "evidence_piece D sv d fs s ref = Inr x"
  shows "\<exists>e. x = JObj e \<and> ''contradictions'' \<notin> fst ` set e"
proof -
  have "\<exists>e. x = JObj e \<and> ''contradictions'' \<notin> fst ` set e" if "entity_evidence D sv r dk fs i s = Inr x" for r dk i
    using that by (auto simp: entity_evidence_def res_elim Let_def)
  moreover have "\<exists>e. x = JObj e \<and> ''contradictions'' \<notin> fst ` set e" if "review_evidence D sv r i s = Inr x" for r i
    using that by (auto simp: review_evidence_def res_elim)
  moreover have "\<exists>e. x = JObj e \<and> ''contradictions'' \<notin> fst ` set e" if "source_evidence sv r dk fs k s = Inr x" for r dk k
    using that by (auto simp: source_evidence_def res_elim Let_def)
  ultimately show ?thesis
    using assms by (auto simp: evidence_piece_def quality_evidence_def Let_def res_elim split: option.splits if_splits)
qed

lemma match_summaries_count_nothing:
  assumes "map_res (evidence_piece D sv d fs s) refs = Inr ev" "aq_purpose rq = SummarizeMatch"
    "local_generate R rq ev = Inr x"
  shows "dr_summary x = ''The authorized match evidence contains 0 hard '' @
    ''contradiction(s); identifier conflicts must override similarity scores.''"
proof -
  have none: "''contradictions'' \<notin> fst ` set e" if e: "e \<in> set (objects_of (map (redact R) ev))" for e
  proof -
    from e obtain v where v: "v \<in> set ev" "redact R v = JObj e"
      by (auto simp: objects_of_def split: json.splits)
    from map_res_mem [OF assms(1) v(1)] obtain ref where "evidence_piece D sv d fs s ref = Inr v" by blast
    from evidence_without_contradictions [OF this] obtain f where "v = JObj f" "''contradictions'' \<notin> fst ` set f" by blast
    with v(2) show ?thesis by force
  qed
  have "add_up (\<lambda>d. json_len (dget_or d ''contradictions'' (JList []))) es = Inr 0"
    if "\<And>e. e \<in> set es \<Longrightarrow> ''contradictions'' \<notin> fst ` set e" for es
    using that
  proof (induction es)
    case (Cons e es)
    then have "map_of e ''contradictions'' = None" by (simp add: map_of_eq_None_iff)
    with Cons show ?case by (simp add: dget_or_def json_len_def)
  qed simp
  moreover have "show_int 0 = ''0''" by code_simp
  ultimately show ?thesis using none assms(2,3)
    by (auto simp: local_generate_def summarize_match_def bounded_output_def res_elim Let_def)
qed

text \<open>A key file that may not be read is reported as a disabled assistant.\<close>

lemma unreadable_key_looks_disabled:
  assumes "ai_provider G = ''openai_responses''" "new_hosted U N G = Inr ()" "ai_enabled G"
    "at_key A (the (ai_key_file G)) = Inl (PyError ''PermissionError'')"
    "open_service p (draft_permission (aq_purpose rq)) s = Inr sv" "assistant_evidence D sv rq s = Inr ev"
  shows "assistant_draft R U N A D G p rq s = (Inl (HTTPException 409 ''assistant_disabled''), s)"
  using assms by (simp add: assistant_draft_def generate_draft_def guard_res_def hosted_generate_def)

section \<open>Witnesses\<close>

definition local_ai :: ai_settings where
  "local_ai = \<lparr>ai_enabled = True, ai_provider = ''local'', ai_endpoint = [], ai_hosts = [], ai_model = None,
     ai_key_file = None, ai_max_input = 20000, ai_max_output = 1200\<rparr>"

definition sample_ai :: ai_tools where
  "sample_ai = \<lparr>at_dumps = (\<lambda>_. ''{}''), at_loads = (\<lambda>_. JObj []), at_sha = (\<lambda>v. v), at_key = (\<lambda>_. Inl (PyError ''OSError'')),
     at_post = (\<lambda>_ _ _. Inl (PyError ''HTTPError'')), at_reads = (\<lambda>_. None), at_instructions = [], at_schema = JObj []\<rparr>"

definition plain_renderer :: renderer where
  "plain_renderer = \<lparr>rd_master = (\<lambda>m. JObj (mv_values m)), rd_task = (\<lambda>t. JStr (rt_id t))\<rparr>"

definition quality_request :: assist_request where
  "quality_request = \<lparr>aq_purpose = ExplainQuality, aq_domain = ''supplier'', aq_objective = ''why'', aq_refs = [''quality:supplier'']\<rparr>"

definition sam :: principal where
  "sam = \<lparr>pr_subject = ''sam'', pr_issuer = [], pr_ws = ''w1'', pr_roles = [''steward''], pr_scopes = None\<rparr>"

definition assisted_db :: db where
  "assisted_db = (guarded_db ''DE1'')\<lparr>workspaces := [\<lparr>ws_id = ''w1'', ws_slug = ''acme'', ws_name = ''Acme''\<rparr>]\<rparr>"

lemma sam_serves: "open_service sam ''read'' assisted_db = Inr steward_service"
  by (simp add: open_service_def allows_def permissions_of_def role_permissions_def sam_def assisted_db_def guard_res_def
      steward_service_def)

definition quality_piece :: json where
  "quality_piece = JObj [(''reference'', JStr ''quality:supplier''), (''measured_records'', JInt 1),
     (''invalid_records'', JInt 0), (''errors'', JList [])]"

lemma quality_purpose: "aq_purpose quality_request = ExplainQuality" "aq_domain quality_request = ''supplier''"
  by (simp_all add: quality_request_def)

lemma piece_explained:
  "\<exists>x y. generate_draft ascii_runtime U N sample_ai local_ai quality_request [quality_piece] = Inr (x, y)"
proof -
  have "case local_generate ascii_runtime quality_request [quality_piece] of Inl _ \<Rightarrow> False | Inr _ \<Rightarrow> True"
    by code_simp
  then obtain x where "local_generate ascii_runtime quality_request [quality_piece] = Inr x"
    by (auto split: sum.splits)
  then show ?thesis by (simp add: generate_draft_def) (simp add: local_ai_def guard_res_def)
qed

lemma sam_explained:
  "\<exists>x. fst (assistant_draft ascii_runtime U N sample_ai plain_renderer local_ai sam quality_request assisted_db) = Inr x"
proof -
  have "find_domain steward_service ''supplier'' assisted_db = Some guarded_domain"
    by (simp add: find_domain_def assisted_db_def guarded_db_def guarded_domain_def demo_domain_def steward_service_def)
  moreover have "dm_key guarded_domain = ''supplier''" by (simp add: guarded_domain_def demo_domain_def)
  ultimately have ev: "assistant_evidence plain_renderer steward_service quality_request assisted_db =
      Inr [quality_evidence steward_service ''quality:supplier'' ''supplier'' (readable_fields steward_service ''supplier'' assisted_db) assisted_db]"
    by (simp add: assistant_evidence_def quality_request_def evidence_refs_def Let_def evidence_piece_def)
  have "domain_records steward_service ''supplier'' assisted_db = [guarded_record ''DE1'']"
    by (simp add: domain_records_def assisted_db_def guarded_db_def guarded_record_def demo_record_def steward_service_def)
  then have q: "quality_evidence steward_service ''quality:supplier'' ''supplier'' fs assisted_db = quality_piece" for fs
    by (simp add: quality_evidence_def guarded_record_def demo_record_def quality_piece_def)
  obtain x y where "generate_draft ascii_runtime U N sample_ai local_ai quality_request [quality_piece] = Inr (x, y)"
    using piece_explained by blast
  moreover have "keep_draft ascii_runtime steward_service quality_request x assisted_db = Inr (None, assisted_db)"
    by (simp add: keep_draft_def quality_purpose split: option.splits)
  ultimately show ?thesis using ev
    by (simp add: assistant_draft_def draft_permission_def sam_serves q quality_purpose)
qed

theorem the_assistant_only_drafts_witness:
  "\<forall>U N. \<exists>x t. assistant_draft ascii_runtime U N sample_ai plain_renderer local_ai sam quality_request assisted_db = (Inr x, t) \<and>
     adds_drafts assisted_db [] t"
proof (intro allI)
  fix U N
  obtain x t where run: "assistant_draft ascii_runtime U N sample_ai plain_renderer local_ai sam quality_request assisted_db = (Inr x, t)"
    using sam_explained [of U N] by (metis fst_conv surj_pair)
  from the_assistant_only_drafts [OF run] have "adds_drafts assisted_db [] t" by (auto simp: quality_purpose)
  with run show "\<exists>x t. assistant_draft ascii_runtime U N sample_ai plain_renderer local_ai sam quality_request assisted_db = (Inr x, t) \<and>
     adds_drafts assisted_db [] t" by blast
qed


end
