(* ===== verification/Workspace.thy ===== *)
theory Workspace
  imports Publication Bundle Secrets Webhook Assistant
begin

text \<open>
  The life of a workspace: the step relation whose steps are the committed outcomes of every
  operation modelled in the other theories, in any order and by any principals, and what holds in
  every state it reaches.
\<close>

section \<open>The remaining operations\<close>

lemma sound_tables:
  assumes "sound R s" "t = s\<lparr>events := es, deliveries := ds, receipts := rs, jobs := js, ticks := ticks s + n\<rparr>"
  shows "sound R t"
proof -
  have "store_ok R t"
    by (rule store_ok_frame [of R s]) (use assms(1) in \<open>simp_all add: assms(2) sound_def members_def\<close>)
  moreover have "audit_ok R t" by (rule audit_ok_frame [of R s]) (use assms(1) in \<open>simp_all add: assms(2) sound_def\<close>)
  moreover have "configs_ok R t" by (rule configs_ok_frame [of R s]) (use assms(1) in \<open>simp_all add: assms(2) sound_def\<close>)
  ultimately show ?thesis by (simp add: sound_def)
qed

lemma simulate_ok:
  assumes "sound R s" "simulate R sv i s = Inr (sim, t)"
  shows "sound R t \<and> keeps s t"
proof -
  from assms(2) have t: "t = s\<lparr>simulations := row_add sim (simulations s), ticks := Suc (ticks s)\<rparr>"
    by (auto simp: simulate_def res_elim Let_def)
  have "store_ok R t"
    by (rule store_ok_frame [of R s]) (use assms(1) in \<open>simp_all add: t sound_def members_def\<close>)
  moreover have "audit_ok R t" by (rule audit_ok_frame [of R s]) (use assms(1) in \<open>simp_all add: t sound_def\<close>)
  moreover have "configs_ok R t" by (rule configs_ok_frame [of R s]) (use assms(1) in \<open>simp_all add: t sound_def\<close>)
  moreover have "keeps s t" by (rule keeps_frame) (simp_all add: t observed_def)
  ultimately show ?thesis by (simp add: sound_def)
qed

lemma keeps_create_config: "create_config R sv document s = Inr (c, t) \<Longrightarrow> keeps s t"
proof -
  assume "create_config R sv document s = Inr (c, t)"
  from create_config_cases(7) [OF this] obtain d where
    t: "t = audit R sv ''configuration.created'' ''configuration'' (cv_id c) d
       (s\<lparr>configurations := row_add c (configurations s), ticks := Suc (ticks s)\<rparr>)" ..
  have "keeps s (s\<lparr>configurations := row_add c (configurations s), ticks := Suc (ticks s)\<rparr>)"
    by (rule keeps_frame) (simp_all add: observed_def)
  then show "keeps s t" unfolding t by (rule keeps_trans [OF _ keeps_audit])
qed

lemma revert_config_ok:
  assumes "inj (uuid R)" "strict_mono (clock R)" "sound R s" "revert_config R sv i s = Inr (c, t)"
  shows "sound R t \<and> keeps s t"
proof -
  from assms(4) obtain document u a b d e where u: "create_config R sv document s = Inr (c, u)"
    and t: "t = audit R sv a b d e u" by (auto simp: revert_config_def res_elim)
  have "sound R u" using create_config_ok [OF assms(1,2) _ _ _ u] assms(3) by (simp add: sound_def)
  then show ?thesis
    unfolding t using sound_audit [OF assms(2)] keeps_trans [OF keeps_create_config [OF u] keeps_audit] by blast
qed

lemma create_domain_keeps: "create_domain R sv key name mode def s = Inr (d, t) \<Longrightarrow> keeps s t"
proof -
  assume "create_domain R sv key name mode def s = Inr (d, t)"
  then obtain a b i e where t: "t = audit R sv a b i e (s\<lparr>domains := row_add d (domains s), ticks := Suc (ticks s)\<rparr>)"
    by (auto simp: create_domain_def res_elim Let_def)
  have "keeps s (s\<lparr>domains := row_add d (domains s), ticks := Suc (ticks s)\<rparr>)"
    by (rule keeps_frame) (simp_all add: observed_def)
  then show "keeps s t" unfolding t by (rule keeps_trans [OF _ keeps_audit])
qed

lemma open_config_task_Some:
  "open_config_task sv s = Some q \<Longrightarrow> q \<in> set (tasks s) \<and> rt_status q = OpenTask"
  by (auto simp: open_config_task_def dest!: find_SomeD)

lemma propose_config_ok:
  assumes "inj (uuid R)" "strict_mono (clock R)" "sound R s" "propose_config R sv i m s = Inr (task, t)"
  shows "sound R t \<and> keeps s t"
proof -
  define s1 where "s1 = mark_stale ''Superseded by a newer configuration proposal'' (open_config_task sv s) s"
  from assms(4) obtain c sim a b d e where task: "task = config_task R sv c sim s1"
    and t: "t = audit R sv a b d e (add_task task s1)"
    by (auto simp: propose_config_def res_elim Let_def s1_def)
  have ok: "tasks_ok R s" using assms(3) by (simp add: sound_def store_ok_def)
  have "sound R s1"
  proof (cases "open_config_task sv s")
    case None
    with assms(3) show ?thesis by (simp add: s1_def mark_stale_def)
  next
    case (Some q)
    have "closes (\<lambda>t. t\<lparr>rt_status := StaleTask, rt_reason := Some ''Superseded by a newer configuration proposal''\<rparr>)"
      by (simp add: closes_def)
    from sound_modify_task [OF this assms(3), of "rt_id q"] show ?thesis
      by (simp add: s1_def Some mark_stale_def modify_task_def)
  qed
  then have "store_ok R s1" "audit_ok R s1" "configs_ok R s1" by (simp_all add: sound_def)
  have "store_ok R (add_task task s1)"
    by (rule store_ok_add_task [OF assms(1) \<open>store_ok R s1\<close>]) (simp_all add: task config_task_def)
  moreover have "audit_ok R (add_task task s1)"
    by (rule audit_ok_frame [OF \<open>audit_ok R s1\<close>]) (simp_all add: add_task_def)
  moreover have "configs_ok R (add_task task s1)"
    by (rule configs_ok_frame [OF \<open>configs_ok R s1\<close>]) (simp_all add: add_task_def)
  ultimately have "sound R t" unfolding t by (intro sound_audit [OF assms(2)]) (simp add: sound_def)
  moreover have "keeps s s1"
    unfolding s1_def using ok open_config_task_Some [of sv s]
    by (intro keeps_mark_stale) (auto simp: tasks_ok_def)
  then have "keeps s t" unfolding t using keeps_add_task keeps_audit keeps_trans by meson
  ultimately show ?thesis by blast
qed

section \<open>Sources, relationships, bundles, secrets, webhooks and the assistant\<close>

text \<open>Steps on the tables that the invariants leave alone.\<close>

definition aside :: "db \<Rightarrow> db \<Rightarrow> bool" where
  "aside s t \<longleftrightarrow> (\<exists>ss rs ds n. t = s\<lparr>sources := ss, relationships := rs, domains := ds, ticks := ticks s + n\<rparr> \<and>
     map (\<lambda>d. (dm_id d, dm_ws d, dm_key d)) ds = map (\<lambda>d. (dm_id d, dm_ws d, dm_key d)) (domains s))"

lemma aside_tables:
  "aside s (s\<lparr>sources := ss, ticks := ticks s + n\<rparr>)" "aside s (s\<lparr>sources := ss\<rparr>)"
  "aside s (s\<lparr>relationships := rs, ticks := ticks s + n\<rparr>)" "aside s (s\<lparr>ticks := ticks s + n\<rparr>)"
proof -
  have a: "aside s (s\<lparr>sources := ss, relationships := rs, domains := domains s, ticks := ticks s + n\<rparr>)" for ss rs n
    unfolding aside_def by blast
  show "aside s (s\<lparr>sources := ss, ticks := ticks s + n\<rparr>)" using a [where ss = ss and rs = "relationships s" and n = n] by simp
  show "aside s (s\<lparr>sources := ss\<rparr>)" using a [where ss = ss and rs = "relationships s" and n = 0] by simp
  show "aside s (s\<lparr>relationships := rs, ticks := ticks s + n\<rparr>)" using a [where ss = "sources s" and rs = rs and n = n] by simp
  show "aside s (s\<lparr>ticks := ticks s + n\<rparr>)" using a [where ss = "sources s" and rs = "relationships s" and n = n] by simp
qed

lemma aside_domains:
  assumes "\<And>d. dm_id (f d) = dm_id d \<and> dm_ws (f d) = dm_ws d \<and> dm_key (f d) = dm_key d"
  shows "aside s (s\<lparr>domains := row_modify dm_id i f (domains s)\<rparr>)"
proof -
  have "map (\<lambda>d. (dm_id d, dm_ws d, dm_key d)) (row_modify dm_id i f (domains s)) =
      map (\<lambda>d. (dm_id d, dm_ws d, dm_key d)) (domains s)"
    using assms by (simp add: row_modify_def update_rows_key)
  moreover have "s\<lparr>domains := ds\<rparr> = s\<lparr>sources := sources s, relationships := relationships s, domains := ds, ticks := ticks s + 0\<rparr>" for ds
    by simp
  ultimately show ?thesis unfolding aside_def by blast
qed

lemma aside_ok:
  assumes "aside s t" "sound R s"
  shows "sound R t \<and> keeps s t"
proof -
  from assms(1) obtain ss rs ds n where t: "t = s\<lparr>sources := ss, relationships := rs, domains := ds, ticks := ticks s + n\<rparr>"
    and d: "map (\<lambda>d. (dm_id d, dm_ws d, dm_key d)) ds = map (\<lambda>d. (dm_id d, dm_ws d, dm_key d)) (domains s)"
    unfolding aside_def by blast
  have "store_ok R t"
    by (rule store_ok_frame [of R s]) (use assms(2) in \<open>simp_all add: t sound_def members_def\<close>)
  moreover have "audit_ok R t" by (rule audit_ok_frame [of R s]) (use assms(2) in \<open>simp_all add: t sound_def\<close>)
  moreover have "configs_ok R t" by (rule configs_ok_frame [of R s]) (use assms(2) d in \<open>simp_all add: t sound_def\<close>)
  moreover have "keeps s t" by (rule keeps_frame) (simp_all add: t observed_def)
  ultimately show ?thesis by (simp add: sound_def)
qed

lemma audited_ok:
  assumes "strict_mono (clock R)" "sound R u \<and> keeps s u"
  shows "sound R (audit R sv a ty i d u) \<and> keeps s (audit R sv a ty i d u)"
  using assms(2) sound_audit [OF assms(1)] keeps_trans [OF _ keeps_audit] by blast

lemma audited_aside:
  "strict_mono (clock R) \<Longrightarrow> sound R s \<Longrightarrow> aside s u \<Longrightarrow>
   sound R (audit R sv a ty i d u) \<and> keeps s (audit R sv a ty i d u)"
  by (rule audited_ok [OF _ aside_ok])

lemma create_source_run:
  assumes "strict_mono (clock R)" "sound R s" "create_source R U sv f s = Inr (c, t)"
  shows "sound R t \<and> keeps s t"
proof -
  from assms(3) obtain a ty i d where
    "t = audit R sv a ty i d (s\<lparr>sources := row_add (new_source R sv f s) (sources s), ticks := Suc (ticks s)\<rparr>)"
    by (auto simp: create_source_def res_elim add_source_def Let_def)
  then show ?thesis
    using audited_aside [OF assms(1,2) aside_tables(1) [where s = s and n = 1 and ss = "row_add (new_source R sv f s) (sources s)"]] by simp
qed

lemma replace_source_run:
  assumes "strict_mono (clock R)" "sound R s" "replace_source R U sv key f s = Inr (c, t)"
  shows "sound R t \<and> keeps s t"
proof -
  from assms(3) obtain a ty i d ss where "t = audit R sv a ty i d (s\<lparr>sources := ss\<rparr>)"
    by (auto simp: replace_source_def res_elim Let_def)
  then show ?thesis using audited_aside [OF assms(1,2) aside_tables(2)] by simp
qed

lemma test_source_run:
  assumes "strict_mono (clock R)" "sound R s"
  shows "sound R (snd (test_source_connection R probe sv key s)) \<and> keeps s (snd (test_source_connection R probe sv key s))"
  using audited_aside [OF assms aside_tables(2)] assms(2)
  by (simp add: test_source_connection_def split: option.split sum.split)

lemma create_relationship_run:
  assumes "strict_mono (clock R)" "sound R s" "create_relationship R sv f s = Inr (l, t)"
  shows "sound R t \<and> keeps s t"
proof -
  from assms(3) obtain a ty i d rs where
    "t = audit R sv a ty i d (s\<lparr>relationships := rs, ticks := Suc (ticks s)\<rparr>)"
    by (auto simp: create_relationship_def res_elim Let_def)
  then show ?thesis using audited_aside [OF assms(1,2) aside_tables(3) [where s = s and n = 1]] by simp
qed

lemma secrets_run:
  assumes "strict_mono (clock R)" "sound R (ss_db s)"
  shows "create_secret R X G sv f s = Inr (v, t) \<Longrightarrow> sound R (ss_db t) \<and> keeps (ss_db s) (ss_db t)"
    and "rotate_secret R X G sv i v' s = Inr (w, t) \<Longrightarrow> sound R (ss_db t) \<and> keeps (ss_db s) (ss_db t)"
    and "test_secret R U N X G sv i s = Inr (b, t) \<Longrightarrow> sound R (ss_db t) \<and> keeps (ss_db s) (ss_db t)"
proof -
  have a: "sound R (audit R sv a ty j d ((ss_db s)\<lparr>ticks := Suc (ticks (ss_db s))\<rparr>)) \<and>
      keeps (ss_db s) (audit R sv a ty j d ((ss_db s)\<lparr>ticks := Suc (ticks (ss_db s))\<rparr>))" for a ty j d
    using audited_aside [OF assms aside_tables(4) [where s = "ss_db s" and n = 1]] by simp
  show "sound R (ss_db t) \<and> keeps (ss_db s) (ss_db t)" if "create_secret R X G sv f s = Inr (v, t)" using that a by (auto simp: create_secret_def res_elim Let_def)
  show "sound R (ss_db t) \<and> keeps (ss_db s) (ss_db t)" if "rotate_secret R X G sv i v' s = Inr (w, t)" using that a by (auto simp: rotate_secret_def res_elim)
  show "sound R (ss_db t) \<and> keeps (ss_db s) (ss_db t)" if "test_secret R U N X G sv i s = Inr (b, t)"
    using that audited_ok [OF assms(1), of "ss_db s" "ss_db s"] assms(2) by (auto simp: test_secret_def res_elim)
qed

lemma config_run:
  assumes "inj (uuid R)" "strict_mono (clock R)" "sound R s" "create_config R sv document s = Inr (c, t)"
  shows "sound R t \<and> keeps s t"
  using create_config_ok [OF assms(1,2) _ _ _ assms(4)] assms(3) keeps_create_config [OF assms(4)] by (simp add: sound_def)

lemma domain_run:
  assumes "inj (uuid R)" "strict_mono (clock R)" "sound R s" "create_domain R sv key name mode def s = Inr (d, t)"
  shows "sound R t \<and> keeps s t"
  using create_domain_ok [OF assms(1,2) _ _ _ assms(4)] assms(3) create_domain_keeps [OF assms(4)] by (simp add: sound_def)

text \<open>A bundle is domains, then sources, then configurations.\<close>

lemma import_domain_run:
  assumes "inj (uuid R)" "strict_mono (clock R)" "sound R s" "import_domain R sv replace item (n, s) = Inr (m, t)"
  shows "sound R t \<and> keeps s t"
proof -
  have put: "aside s (s\<lparr>domains := row_modify dm_id i (put_domain name mode def) (domains s)\<rparr>)" for i name mode def
    by (rule aside_domains) (simp add: put_domain_def)
  have "t = s \<or> aside s t \<or> (\<exists>key name mode def d. create_domain R sv key name mode def s = Inr (d, t))"
    using assms(4) put by (auto simp: import_domain_def res_elim split: option.splits if_splits)
  then show ?thesis using aside_ok [OF _ assms(3)] domain_run [OF assms(1-3)] assms(3) by auto
qed

lemma import_source_run:
  assumes "sound R s" "import_source R sv replace f (n, s) = Inr (m, t)"
  shows "sound R t \<and> keeps s t"
proof -
  have "t = s \<or> aside s t"
    using assms(2) aside_tables(2) aside_tables(1) [where s = s and n = 1]
    by (auto simp: import_source_def res_elim add_source_def Let_def split: option.splits if_splits)
  then show ?thesis using aside_ok [OF _ assms(1)] assms(1) by auto
qed

lemma import_configuration_run:
  assumes "inj (uuid R)" "strict_mono (clock R)" "sound R s" "import_configuration R sv document (n, s) = Inr (m, t)"
  shows "sound R t \<and> keeps s t"
proof -
  have "t = s \<or> (\<exists>c. create_config R sv document s = Inr (c, t))"
    using assms(4) by (auto simp: import_configuration_def res_elim split: if_splits)
  then show ?thesis using config_run [OF assms(1-3)] assms(3) by auto
qed

lemma import_fold:
  assumes "fold_res f xs st = Inr st'" "sound R (snd st)"
    and "\<And>x n s m t. sound R s \<Longrightarrow> f x (n, s) = Inr (m, t) \<Longrightarrow> sound R t \<and> keeps s t"
  shows "sound R (snd st') \<and> keeps (snd st) (snd st')"
  using assms(1,2)
proof (induction xs arbitrary: st)
  case Nil
  then show ?case by simp
next
  case (Cons x xs)
  from Cons.prems(1) obtain u where u: "f x st = Inr u" "fold_res f xs u = Inr st'" by (auto simp: res_elim)
  from assms(3) [of "snd st" x "fst st" "fst u" "snd u"] u(1) Cons.prems(2)
  have "sound R (snd u)" "keeps (snd st) (snd u)" by simp_all
  with Cons.IH [OF u(2)] keeps_trans show ?case by blast
qed

lemma import_bundle_run:
  assumes "inj (uuid R)" "strict_mono (clock R)" "sound R s" "import_bundle R U sv replace document s = Inr (m, t)"
  shows "sound R t \<and> keeps s t"
proof -
  from assms(4) obtain ds forms docs st1 st2 n s3 where
    f: "fold_res (import_domain R sv replace) ds (nothing_imported, s) = Inr st1"
      "fold_res (import_source R sv replace) forms st1 = Inr st2"
      "fold_res (import_configuration R sv) docs st2 = Inr (n, s3)"
    and t: "t = audit R sv ''workspace_bundle.imported'' ''workspace'' (wid sv) (imported_json n) s3"
    by (auto simp: import_bundle_def res_elim)
  have 1: "sound R (snd st1) \<and> keeps s (snd st1)"
    using import_fold [OF f(1), of R] import_domain_run [OF assms(1,2)] assms(3) by simp
  then have 2: "sound R (snd st2) \<and> keeps (snd st1) (snd st2)"
    using import_fold [OF f(2), of R] import_source_run by blast
  then have "sound R s3 \<and> keeps (snd st2) s3"
    using import_fold [OF f(3), of R] import_configuration_run [OF assms(1,2)] by simp
  then have "sound R s3 \<and> keeps s s3" using 1 2 keeps_trans by blast
  then show ?thesis unfolding t by (rule audited_ok [OF assms(2)])
qed

lemma assistant_run:
  assumes "inj (uuid R)" "strict_mono (clock R)" "sound R s" "assistant_draft R U N A D G p rq s = (a, t)"
  shows "sound R t \<and> keeps s t"
proof -
  have kept: "sound R u \<and> keeps s u" if "keep_draft R sv rq x s = Inr (cid, u)" for sv x cid u
    using that config_run [OF assms(1-3)] assms(3) by (cases rule: keep_draft_cases) auto
  let ?out = "\<lambda>t. sound R t \<and> keeps s t"
  have same: "?out s" using assms(3) by simp
  show ?thesis
  proof (cases "bind_res (open_service p (draft_permission (aq_purpose rq)) s)
      (\<lambda>sv. bind_res (assistant_evidence D sv rq s) (\<lambda>ev. Inr (sv, ev)))")
    case (Inl e)
    with assms(4) same show ?thesis by (simp add: assistant_draft_def)
  next
    case (Inr z)
    obtain sv ev where z: "z = (sv, ev)" by (cases z)
    note run = assms(4) [unfolded assistant_draft_def Inr z sum.case prod.case]
    show ?thesis
    proof (cases "generate_draft R U N A G rq ev")
      case (Inl e)
      then show ?thesis
        using run same audited_ok [OF assms(2) same] by (cases e) (auto split: if_splits)
    next
      case made: (Inr w)
      obtain x provider where w: "w = (x, provider)" by (cases w)
      note run = run [unfolded made w sum.case prod.case]
      show ?thesis
      proof (cases "keep_draft R sv rq x s")
        case (Inl e)
        with run same show ?thesis by simp
      next
        case y: (Inr y)
        obtain cid u where u: "y = (cid, u)" by (cases y)
        from run have "\<exists>b ty i d. t = audit R sv b ty i d u" by (simp only: y u sum.case prod.case prod.inject) blast
        then show ?thesis using audited_ok [OF assms(2) kept [OF y [unfolded u]]] by blast
      qed
    qed
  qed
qed

section \<open>Operating the outbox\<close>

text \<open>The routes that relay and reconcile: the gate of the settings, the batch, and its entry in the audit trail.\<close>

definition counts_json :: "relay_counts \<Rightarrow> json" where
  "counts_json c = JObj [(''processed'', JInt (int (rl_processed c))), (''delivered'', JInt (int (rl_delivered c))),
     (''failed'', JInt (int (rl_failed c))), (''ambiguous'', JInt (int (rl_ambiguous c)))]"

definition verdicts_json :: "verification list \<Rightarrow> json" where
  "verdicts_json vs = JObj [(''processed'', JInt (int (length vs))), (''verified'', JInt (int (count_list vs Verified))),
     (''absent'', JInt (int (count_list vs Absent))), (''unresolved'', JInt (int (count_list vs Unresolved)))]"

definition relay_route ::
    "runtime \<Rightarrow> service \<Rightarrow> bool \<Rightarrow> string option \<Rightarrow> publication \<Rightarrow> (outbox_event \<Rightarrow> reply) \<Rightarrow> relay_counts op" where
  "relay_route R sv enabled secret cfg answer s =
     bind_res (guard_res (enabled \<and> truthy_str (pb_url cfg) \<and> truthy_str secret)
       (HTTPException 409 ''publication_destination_disabled'')) (\<lambda>_.
     let (c, t) = relay_events R cfg (wid sv) answer s
     in Inr (c, audit R sv ''outbox.relayed'' ''outbox_batch'' ''current'' (counts_json c) t))"

definition reconcile_route ::
    "runtime \<Rightarrow> service \<Rightarrow> bool \<Rightarrow> publication \<Rightarrow> (outbox_event \<Rightarrow> receipt_reply) \<Rightarrow> verification list op" where
  "reconcile_route R sv enabled cfg reply s =
     bind_res (guard_res (enabled \<and> truthy_str (pb_url cfg)) (HTTPException 409 ''publication_destination_disabled'')) (\<lambda>_.
     bind_res (reconcile_events R cfg (wid sv) reply s) (\<lambda>(vs, t).
     Inr (vs, audit R sv ''outbox.reconciled'' ''outbox_batch'' ''current'' (verdicts_json vs) t)))"

section \<open>Steps\<close>

inductive workspace_step :: "runtime \<Rightarrow> db \<Rightarrow> db \<Rightarrow> bool" for R where
  Ingest: "ingest R sv rq s = Inr (out, t) \<Longrightarrow> workspace_step R s t"
| Decide: "decide_task R sv i v reason s = (r, t) \<Longrightarrow> workspace_step R s t"
| ProposeMerge: "propose_merge R sv ids reason dry s = Inr (g, t) \<Longrightarrow> workspace_step R s t"
| ProposeSplit: "propose_split R sv en rids reason s = Inr (q, t) \<Longrightarrow> workspace_step R s t"
| CreateDomain: "create_domain R sv key name mode def s = Inr (d, t) \<Longrightarrow> workspace_step R s t"
| CreateConfig: "create_config R sv document s = Inr (c, t) \<Longrightarrow> workspace_step R s t"
| RevertConfig: "revert_config R sv i s = Inr (c, t) \<Longrightarrow> workspace_step R s t"
| Simulate: "simulate R sv i s = Inr (sim, t) \<Longrightarrow> workspace_step R s t"
| ProposeConfig: "propose_config R sv i m s = Inr (q, t) \<Longrightarrow> workspace_step R s t"
| ClaimJob: "claim_one w now s = (c, t) \<Longrightarrow> workspace_step R s t"
| RenewLease: "renew_lease w i f now s = (ok, t) \<Longrightarrow> workspace_step R s t"
| BeginJob: "begin_job (handlers R) w i f s = (b, t) \<Longrightarrow> workspace_step R s t"
| FinishJob: "handlers R k = Some h \<Longrightarrow> finish_job w f lost j h s = Inr t \<Longrightarrow> workspace_step R s t"
| FailJob: "t = fail_job w i f e s \<Longrightarrow> workspace_step R s t"
| CancelJob: "cancel_job R sv i s = Inr t \<Longrightarrow> workspace_step R s t"
| Relay: "t = relay_killed R cfg ws answer k mid s \<Longrightarrow> workspace_step R s t"
| Reconcile: "reconcile_events R cfg ws reply s = Inr (vs, t) \<Longrightarrow> workspace_step R s t"
| RelayRoute: "relay_route R sv enabled secret cfg answer s = Inr (c, t) \<Longrightarrow> workspace_step R s t"
| ReconcileRoute: "reconcile_route R sv enabled cfg reply s = Inr (vs, t) \<Longrightarrow> workspace_step R s t"
| CreateSource: "create_source R U sv f s = Inr (c, t) \<Longrightarrow> workspace_step R s t"
| ReplaceSource: "replace_source R U sv key f s = Inr (c, t) \<Longrightarrow> workspace_step R s t"
| TestSource: "test_source_connection R probe sv key s = (r, t) \<Longrightarrow> workspace_step R s t"
| CreateRelationship: "create_relationship R sv rf s = Inr (l, t) \<Longrightarrow> workspace_step R s t"
| ImportBundle: "import_workspace_bundle R U p target replace document s = Inr (n, t) \<Longrightarrow> workspace_step R s t"
| AssistantDraft: "assistant_draft R U N A D G p rq s = (a, t) \<Longrightarrow> workspace_step R s t"
| Inbound: "inbound_webhook R U W now slug key stamp signature body h = Inr (x, h') \<Longrightarrow> hs_db h = s \<Longrightarrow>
    hs_db h' = t \<Longrightarrow> workspace_step R s t"
| CreateSecret: "create_secret R X G sv sf z = Inr (v, z') \<Longrightarrow> ss_db z = s \<Longrightarrow> ss_db z' = t \<Longrightarrow> workspace_step R s t"
| RotateSecret: "rotate_secret R X G sv i new z = Inr (v, z') \<Longrightarrow> ss_db z = s \<Longrightarrow> ss_db z' = t \<Longrightarrow> workspace_step R s t"
| TestSecret: "test_secret R U N X G sv i z = Inr (b, z') \<Longrightarrow> ss_db z = s \<Longrightarrow> ss_db z' = t \<Longrightarrow> workspace_step R s t"

text \<open>
  The rules are every route of api/routes.py that writes to a workspace and every step of the workers
  and the relay. The table of secrets and that of answered webhook events are states of their own
  components: their rules speak of the database part and hold for any content of those tables.
\<close>

text \<open>
  What no step undoes: as \<open>keeps\<close>, with the delivery state of an event left out, which the relay
  changes; the event itself stays in its place with its contents.
\<close>

definition preserves :: "db \<Rightarrow> db \<Rightarrow> bool" where
  "preserves s t \<longleftrightarrow> ticks s \<le> ticks t \<and> (\<exists>es. audits t = audits s @ es) \<and>
     (\<exists>es. map event_content (events t) = map event_content (events s) @ es) \<and>
     closed_tasks s \<subseteq> closed_tasks t \<and> approved_masters s \<subseteq> approved_masters t \<and>
     past_memberships s \<subseteq> past_memberships t \<and> observed s \<subseteq> observed t \<and>
     entities_advance (entities s) (entities t) \<and> set (object_bans s) \<subseteq> set (object_bans t) \<and>
     set (record_bans s) \<subseteq> set (record_bans t)"

lemma keeps_preserves: "keeps s t \<Longrightarrow> preserves s t"
  by (auto simp: keeps_def preserves_def)

lemma preserves_refl [simp]: "preserves s s"
  by (simp add: preserves_def)

lemma extends_trans:
  "\<exists>es. ys = xs @ es \<Longrightarrow> \<exists>es. zs = ys @ es \<Longrightarrow> \<exists>es. zs = xs @ es"
  by auto

lemma preserves_trans:
  assumes "preserves s t" "preserves t u"
  shows "preserves s u"
proof -
  note p = assms(1) [unfolded preserves_def] and q = assms(2) [unfolded preserves_def]
  have "\<exists>es. audits u = audits s @ es" by (rule extends_trans [of "audits t"]) (use p q in simp_all)
  moreover have "\<exists>es. map event_content (events u) = map event_content (events s) @ es"
    by (rule extends_trans [of "map event_content (events t)"]) (use p q in simp_all)
  moreover have "entities_advance (entities s) (entities u)"
    by (rule entities_advance_trans [of _ "entities t"]) (use p q in simp_all)
  moreover have "closed_tasks s \<subseteq> closed_tasks u" "approved_masters s \<subseteq> approved_masters u"
    "past_memberships s \<subseteq> past_memberships u" "observed s \<subseteq> observed u"
    "set (object_bans s) \<subseteq> set (object_bans u)" "set (record_bans s) \<subseteq> set (record_bans u)" "ticks s \<le> ticks u"
    using p q by (auto dest: subsetD)
  ultimately show ?thesis by (simp add: preserves_def)
qed

lemma preserves_delivery:
  assumes "t = s\<lparr>events := es, deliveries := ds, receipts := rs, jobs := js, ticks := ticks s + n\<rparr>"
    and "map event_content es = map event_content (events s)"
  shows "preserves s t"
  using assms by (simp add: preserves_def closed_tasks_def approved_masters_def past_memberships_def observed_def)

definition delivers :: "db \<Rightarrow> db \<Rightarrow> bool" where
  "delivers s t \<longleftrightarrow> (\<exists>es ds rs js n. t = s\<lparr>events := es, deliveries := ds, receipts := rs, jobs := js, ticks := ticks s + n\<rparr> \<and>
     map event_content es = map event_content (events s))"

lemma delivers_refl [simp]: "delivers s s"
  unfolding delivers_def
  by (rule exI [of _ "events s"], rule exI [of _ "deliveries s"], rule exI [of _ "receipts s"],
      rule exI [of _ "jobs s"], rule exI [of _ 0]) simp

lemma delivers_trans:
  assumes "delivers s t" "delivers t u"
  shows "delivers s u"
proof -
  from assms(1) obtain es ds rs js n where
    t: "t = s\<lparr>events := es, deliveries := ds, receipts := rs, jobs := js, ticks := ticks s + n\<rparr>"
    "map event_content es = map event_content (events s)" by (auto simp: delivers_def)
  from assms(2) obtain es' ds' rs' js' n' where
    u: "u = t\<lparr>events := es', deliveries := ds', receipts := rs', jobs := js', ticks := ticks t + n'\<rparr>"
    "map event_content es' = map event_content (events t)" by (auto simp: delivers_def)
  have "u = s\<lparr>events := es', deliveries := ds', receipts := rs', jobs := js', ticks := ticks s + (n + n')\<rparr>"
    by (simp add: u t)
  moreover have "map event_content es' = map event_content (events s)" using u(2) t by simp
  ultimately show ?thesis unfolding delivers_def by blast
qed

lemma delivers_ok: "delivers s t \<Longrightarrow> sound R s \<Longrightarrow> sound R t \<and> preserves s t"
  unfolding delivers_def by (elim exE conjE) (simp add: sound_tables preserves_delivery)

lemma delivers_tables:
  "map event_content es = map event_content (events s) \<Longrightarrow>
   delivers s (s\<lparr>events := es, deliveries := ds, receipts := rs, jobs := js, ticks := ticks s + n\<rparr>)"
  unfolding delivers_def by blast

section \<open>Jobs, relay and reconciliation\<close>

lemma delivers_jobs: "delivers s (s\<lparr>jobs := js\<rparr>)"
  using delivers_tables [where s = s and ds = "deliveries s" and rs = "receipts s" and js = js and n = 0, OF refl] by simp

lemma delivers_modify_job: "delivers s (modify_job i f s)"
  unfolding modify_job_def by (rule delivers_jobs)

lemma delivers_modify_event:
  assumes "\<And>q. event_content (f q) = event_content q"
  shows "delivers s (modify_event i f s)"
  using delivers_tables [where s = s and es = "row_modify ev_id i f (events s)" and ds = "deliveries s" and
      rs = "receipts s" and js = "jobs s" and n = 0] assms
  by (simp add: modify_event_def row_modify_def update_rows_def if_distrib comp_def cong: if_cong)

lemma delivers_modify_delivery: "delivers s (modify_delivery i f s)"
  using delivers_tables [where s = s and ds = "row_modify dv_id i f (deliveries s)" and rs = "receipts s" and js = "jobs s" and n = 0, OF refl]
  by (simp add: modify_delivery_def)

lemma delivers_put_receipt: "delivers s (put_receipt R cfg e x s)"
proof -
  have "delivers s (s\<lparr>receipts := rs, ticks := Suc (ticks s)\<rparr>)" for rs
    using delivers_tables [where s = s and ds = "deliveries s" and rs = rs and js = "jobs s" and n = 1, OF refl] by simp
  then show ?thesis by (simp add: put_receipt_def Let_def split: option.split)
qed

lemma delivers_claim: "claim_one w now s = (c, t) \<Longrightarrow> delivers s t"
  by (auto simp: claim_one_def delivers_modify_job split: option.splits if_splits)

lemma delivers_renew: "renew_lease w i f now s = (ok, t) \<Longrightarrow> delivers s t"
  by (auto simp: renew_lease_def update_job_def delivers_jobs)

lemma delivers_begin: "begin_job H w i f s = (b, t) \<Longrightarrow> delivers s t"
  by (auto simp: begin_job_def delivers_modify_job split: option.splits if_splits)

lemma delivers_fail: "delivers s (fail_job w i f e s)"
  by (simp add: fail_job_def delivers_modify_job split: option.split)

lemma delivers_mark: "delivers s (relay_mark R cfg ws e s)"
proof -
  have "delivers s (s\<lparr>deliveries := ds, ticks := Suc (ticks s)\<rparr>)" for ds
    using delivers_tables [where s = s and ds = ds and rs = "receipts s" and js = "jobs s" and n = 1, OF refl] by simp
  then show ?thesis
    unfolding relay_mark_def by (rule delivers_trans [OF _ delivers_modify_event])
      (simp add: mark_event_def event_content_def)
qed

lemma delivers_settle: "delivers s (relay_settle R cfg e i r s)"
proof -
  let ?s = "modify_event (ev_id e) (settle_event r) (modify_delivery i (settle_delivery r (next_time R s)) s)"
  have "delivers s ?s"
    by (rule delivers_trans [OF delivers_modify_delivery delivers_modify_event])
      (simp add: settle_event_def event_content_def)
  then show ?thesis
    using delivers_trans [OF _ delivers_put_receipt] by (simp add: relay_settle_def Let_def)
qed

lemma delivers_relay_event: "delivers s (relay_event R cfg ws answer e s)"
  unfolding relay_event_def by (rule delivers_trans [OF delivers_mark delivers_settle])

lemma delivers_fold: "(\<And>e s. delivers s (g e s)) \<Longrightarrow> delivers s (fold g es s)"
  by (induction es arbitrary: s) (simp, simp, blast intro: delivers_trans)

lemma delivers_killed: "delivers s (relay_killed R cfg ws answer k mid s)"
  using delivers_fold [of "relay_event R cfg ws answer", OF delivers_relay_event] delivers_trans [OF _ delivers_mark]
  by (simp add: relay_killed_def Let_def)

lemma delivers_reconcile_event:
  assumes "reconcile_event R cfg answer e (vs, s) = Inr (vs', t)"
  shows "delivers s t"
proof -
  have error: "delivers s (modify_event i (set_event_error x) s)" for i x
    by (rule delivers_modify_event) (simp add: set_event_error_def event_content_def)
  have verdict: "delivers s (modify_event i (\<lambda>e. e\<lparr>ev_status := st, ev_error := x\<rparr>) s)" for i st x
    by (rule delivers_modify_event) (simp add: event_content_def)
  show ?thesis
    using assms error verdict delivers_trans [OF verdict delivers_put_receipt]
    by (auto simp: reconcile_event_def res_elim split: if_splits receipt_reply.splits)
qed

lemma delivers_reconcile_fold:
  "fold_res (reconcile_event R cfg answer) es (vs, s) = Inr (vs', t) \<Longrightarrow> delivers s t"
proof (induction es arbitrary: vs s)
  case Nil
  then show ?case by simp
next
  case (Cons e es)
  then obtain ws u where "reconcile_event R cfg answer e (vs, s) = Inr (ws, u)"
    "fold_res (reconcile_event R cfg answer) es (ws, u) = Inr (vs', t)" by (auto simp: res_elim)
  with Cons.IH show ?case by (blast intro: delivers_trans delivers_reconcile_event)
qed

text \<open>A delivery followed by its audit entry.\<close>

lemma delivers_audited:
  assumes "strict_mono (clock R)" "delivers s t" "sound R s"
  shows "sound R (audit R sv a ty i d t) \<and> preserves s (audit R sv a ty i d t)"
  using delivers_ok [OF assms(2,3)] sound_audit [OF assms(1)] preserves_trans keeps_preserves keeps_audit by blast

lemma delivers_relay: "relay_events R cfg ws answer s = (c, t) \<Longrightarrow> delivers s t"
  using delivers_fold [of "relay_event R cfg ws answer", OF delivers_relay_event] by (auto simp: relay_events_def Let_def)

lemma sound_proposal: "store_ok R t \<Longrightarrow> audit_ok R t \<Longrightarrow> steady s t \<Longrightarrow> sound R s \<Longrightarrow> sound R t"
  using configs_ok_frame [of R s t] by (simp add: sound_def steady_def keeps_def)

lemma cancel_job_sound:
  assumes "strict_mono (clock R)" "sound R s" "cancel_job R sv i s = Inr t"
  shows "sound R t \<and> preserves s t"
proof -
  from assms(3) obtain a b c d f where t: "t = audit R sv a b c d (modify_job c f s)"
    by (auto simp: cancel_job_def res_elim)
  note d = delivers_ok [OF delivers_modify_job assms(2)]
  show ?thesis
    unfolding t using d sound_audit [OF assms(1)] preserves_trans [OF _ keeps_preserves [OF keeps_audit]] by blast
qed

lemma finish_job_sound:
  assumes "inj (uuid R)" "strict_mono (clock R)" "sound R s" "handlers R k = Some h"
    and "finish_job w f lost j h s = Inr t"
  shows "sound R t \<and> preserves s t"
proof -
  have h: "h = remaster_domain R" using assms(4) by (auto simp: handlers_def split: if_splits)
  from finish_job_cases(2) [OF assms(5)] obtain r u where u: "remaster_domain R j s = Inr (r, u)"
    and t: "update_job (jb_id j) (\<lambda>j. holds w f j \<and> \<not> jb_cancel j) (completed (jb_payload j) r) u = (True, t)"
    unfolding h by blast
  have t': "delivers u t" using t by (auto simp: update_job_def delivers_jobs)
  have "sound R u \<and> steady s u" using remaster_domain_ok [OF assms(1-3) u] by blast
  then have "sound R u" "keeps s u" by (simp_all add: steady_def)
  with delivers_ok [OF t' this(1)] show ?thesis using preserves_trans [OF keeps_preserves] by blast
qed

section \<open>Property\<close>

lemma keeps_run: "sound R t \<and> keeps s t \<Longrightarrow> sound R t \<and> preserves s t"
  using keeps_preserves by blast

lemma ingest_run:
  assumes "inj (uuid R)" "strict_mono (clock R)" "sound R s" "ingest R sv rq s = Inr (out, t)"
  shows "sound R t \<and> keeps s t"
proof -
  have ok: "store_ok R s" "audit_ok R s" "configs_ok R s" using assms(3) by (simp_all add: sound_def)
  note i = ingest_step [OF assms(1,2) ok(1,2) assms(4)]
  then have "ticks s \<le> ticks t" by (simp add: keeps_def)
  then have "configs_ok R t" using i by (intro configs_ok_frame [OF ok(3)]) simp_all
  with i show ?thesis by (simp add: sound_def)
qed

lemma inbound_run:
  assumes "inj (uuid R)" "strict_mono (clock R)" "sound R (hs_db h)"
    and "inbound_webhook R U W now slug key stamp signature body h = Inr (x, h')"
  shows "sound R (hs_db h') \<and> keeps (hs_db h) (hs_db h')"
proof -
  obtain n r d where x: "x = (n, r, d)" by (cases x)
  from assms(4) [unfolded x] show ?thesis
  proof (cases rule: inbound_webhook_cases)
    case Again
    with assms(3) show ?thesis by simp
  next
    case New
    then show ?thesis using ingest_run [OF assms(1-3)] by simp
  qed
qed

lemma workspace_step_ok:
  assumes "inj (uuid R)" "strict_mono (clock R)" "workspace_step R s t" "sound R s"
  shows "sound R t \<and> preserves s t"
  using assms(3)
proof cases
  case (Ingest sv rq out)
  then show ?thesis by (intro keeps_run ingest_run [OF assms(1,2,4)])
next
  case (Decide sv i v reason r)
  then show ?thesis using decide_task_ok [OF assms(1,2,4)] by (intro keeps_run)
next
  case (ProposeMerge sv ids reason dry g)
  have "store_ok R t \<and> audit_ok R t \<and> steady s t"
    using propose_merge_ok [OF assms(1,2) _ _ ProposeMerge] assms(4) by (simp add: sound_def)
  with sound_proposal assms(4) have "sound R t" "keeps s t" by (blast, simp add: steady_def)
  then show ?thesis using keeps_preserves by blast
next
  case (ProposeSplit sv en rids reason q)
  have "store_ok R t \<and> audit_ok R t \<and> steady s t"
    using propose_split_ok [OF assms(1,2) _ _ ProposeSplit] assms(4) by (simp add: sound_def)
  with sound_proposal assms(4) have "sound R t" "keeps s t" by (blast, simp add: steady_def)
  then show ?thesis using keeps_preserves by blast
next
  case (CreateDomain sv key name mode def d)
  then show ?thesis by (intro keeps_run domain_run [OF assms(1,2,4)])
next
  case (CreateConfig sv document c)
  then show ?thesis by (intro keeps_run config_run [OF assms(1,2,4)])
next
  case (RevertConfig sv i c)
  then show ?thesis by (intro keeps_run revert_config_ok [OF assms(1,2,4)])
next
  case (Simulate sv i sim)
  then show ?thesis by (intro keeps_run simulate_ok [OF assms(4)])
next
  case (ProposeConfig sv i m q)
  then show ?thesis by (intro keeps_run propose_config_ok [OF assms(1,2,4)])
next
  case (ClaimJob w now c)
  then show ?thesis by (intro delivers_ok [OF delivers_claim assms(4)])
next
  case (RenewLease w i f now ok)
  then show ?thesis by (intro delivers_ok [OF delivers_renew assms(4)])
next
  case (BeginJob w i f b)
  then show ?thesis by (intro delivers_ok [OF delivers_begin assms(4)])
next
  case (FinishJob k h w f lost j)
  then show ?thesis by (intro finish_job_sound [OF assms(1,2,4)])
next
  case (FailJob w i f e)
  then show ?thesis using delivers_ok [OF delivers_fail assms(4)] by simp
next
  case (CancelJob sv i)
  then show ?thesis by (intro cancel_job_sound [OF assms(2,4)])
next
  case (Relay cfg ws answer k mid)
  then show ?thesis using delivers_ok [OF delivers_killed assms(4)] by simp
next
  case (Reconcile cfg ws reply vs)
  then show ?thesis
    unfolding reconcile_events_def by (intro delivers_ok [OF delivers_reconcile_fold assms(4)])
next
  case (RelayRoute sv enabled secret cfg answer c)
  then obtain u where u: "relay_events R cfg (wid sv) answer s = (c, u)"
    and t: "t = audit R sv ''outbox.relayed'' ''outbox_batch'' ''current'' (counts_json c) u"
    by (auto simp: relay_route_def res_elim split: prod.splits)
  show ?thesis unfolding t by (rule delivers_audited [OF assms(2) delivers_relay [OF u] assms(4)])
next
  case (ReconcileRoute sv enabled cfg reply vs)
  then obtain u where u: "reconcile_events R cfg (wid sv) reply s = Inr (vs, u)"
    and t: "t = audit R sv ''outbox.reconciled'' ''outbox_batch'' ''current'' (verdicts_json vs) u"
    by (auto simp: reconcile_route_def res_elim)
  show ?thesis
    unfolding t by (rule delivers_audited [OF assms(2) delivers_reconcile_fold [OF u [unfolded reconcile_events_def]] assms(4)])
next
  case (CreateSource U sv f c)
  then show ?thesis by (intro keeps_run create_source_run [OF assms(2,4)])
next
  case (ReplaceSource U sv key f c)
  then show ?thesis by (intro keeps_run replace_source_run [OF assms(2,4)])
next
  case (TestSource probe sv key r)
  then show ?thesis using keeps_run [OF test_source_run [OF assms(2,4), of probe sv key]] by simp
next
  case (CreateRelationship sv rf l)
  then show ?thesis by (intro keeps_run create_relationship_run [OF assms(2,4)])
next
  case (ImportBundle U p target replace document n)
  then obtain sv where "import_bundle R U sv replace document s = Inr (n, t)"
    by (auto simp: import_workspace_bundle_def bind_res_Inr)
  then show ?thesis by (intro keeps_run import_bundle_run [OF assms(1,2,4)])
next
  case (AssistantDraft U N A D G p rq a)
  then show ?thesis by (intro keeps_run assistant_run [OF assms(1,2,4)])
next
  case (Inbound U W now slug key stamp signature body h x h')
  then show ?thesis using keeps_run [OF inbound_run [OF assms(1,2) _ Inbound(1)]] assms(4) by simp
next
  case (CreateSecret X G sv sf z v z')
  then show ?thesis using keeps_run [OF secrets_run(1) [OF assms(2) _ CreateSecret(1)]] assms(4) by simp
next
  case (RotateSecret X G sv i new z v z')
  then show ?thesis using keeps_run [OF secrets_run(2) [OF assms(2) _ RotateSecret(1)]] assms(4) by simp
next
  case (TestSecret U N X G sv i z b z')
  then show ?thesis using keeps_run [OF secrets_run(3) [OF assms(2) _ TestSecret(1)]] assms(4) by simp
qed

text \<open>
  Whatever happens in a workspace, in whatever order and by whomever (observations, webhooks,
  proposals, decisions, configurations, simulations, sources, relationships, secrets, bundles,
  drafts of the assistant, jobs of delayed or crashed workers, relays killed half-way,
  reconciliations), its database stays sound: ids and versions are unique, open
  memberships are as the objects say, an entity has at most one open approval, the audit chain is
  unbroken and at most one configuration is active. And nothing is lost: audit entries and the
  contents of outbox events stay in place and in order, closed tasks, approved master versions,
  closed memberships, source observations and bans stay as they are, entities keep their identity
  and never go back to a lower version.
\<close>

theorem every_run_keeps_the_workspace_sound:
  assumes "inj (uuid R)" "strict_mono (clock R)" "(workspace_step R)\<^sup>*\<^sup>* s t" "sound R s"
  shows "sound R t \<and> preserves s t"
  using assms(3)
proof (induction rule: rtranclp_induct)
  case base
  with assms(4) show ?case by simp
next
  case (step u t)
  with workspace_step_ok [OF assms(1,2) step(2)] show ?case using preserves_trans by blast
qed

text \<open>The steward approves a draft, and the relay is killed while it delivers the event.\<close>

theorem every_run_keeps_the_workspace_sound_witness:
  "\<exists>t u. decide_task ascii_runtime demo_service ''u3'' Approve ''ok'' desk_db = t \<and>
     u = relay_killed ascii_runtime plain_publication ''ws'' (\<lambda>_. Answered 200) 0 True (snd t) \<and>
     sound ascii_runtime u \<and> preserves desk_db u"
proof -
  obtain r t where d: "decide_task ascii_runtime demo_service ''u3'' Approve ''ok'' desk_db = (r, t)"
    by (cases "decide_task ascii_runtime demo_service ''u3'' Approve ''ok'' desk_db")
  let ?u = "relay_killed ascii_runtime plain_publication ''ws'' (\<lambda>_. Answered 200) 0 True t"
  have "(workspace_step ascii_runtime)\<^sup>*\<^sup>* desk_db ?u"
    using workspace_step.Decide [OF d] workspace_step.Relay [of ?u ascii_runtime, OF refl]
    by (rule converse_rtranclp_into_rtranclp [OF _ r_into_rtranclp])
  from every_run_keeps_the_workspace_sound [OF ascii_uuid ascii_clock this desk_sound] d show ?thesis by auto
qed

end
