(* ===== verification/Access.thy ===== *)
theory Access
  imports Provisioning Workspace
begin

text \<open>
  The life of a site: the step relation of sign-in, provisioning, machine identities and, under
  them, of the workspaces; what every run keeps (unique identities, sessions and credentials; a
  revoked session and a consumed login state stay so), and the properties that rest on it.
\<close>

section \<open>Growing tables\<close>

text \<open>Every row has a later version in its place; rows may be added at the end.\<close>

definition grows :: "('r \<Rightarrow> 'r \<Rightarrow> bool) \<Rightarrow> 'r list \<Rightarrow> 'r list \<Rightarrow> bool" where
  "grows later xs ys \<longleftrightarrow> (\<exists>us new. ys = us @ new \<and> list_all2 later xs us)"

lemma grows_refl: "reflp later \<Longrightarrow> grows later xs xs"
  unfolding grows_def by (rule exI [of _ xs]) (simp add: list_all2_refl reflp_def)

lemma grows_add: "reflp later \<Longrightarrow> grows later xs (row_add r xs)"
  unfolding grows_def row_add_def by (rule exI [of _ xs]) (simp add: list_all2_refl reflp_def)

lemma grows_update:
  assumes "reflp later" "\<And>x. x \<in> set xs \<Longrightarrow> P x \<Longrightarrow> later x (f x)"
  shows "grows later xs (update_rows P f xs)"
proof -
  have "list_all2 later xs (update_rows P f xs)"
    using assms by (auto simp: update_rows_def list_all2_map2 list_all2_same reflp_def)
  then show ?thesis unfolding grows_def by (metis append_Nil2)
qed

lemma grows_trans:
  assumes "transp later" "grows later xs ys" "grows later ys zs"
  shows "grows later xs zs"
proof -
  from assms(2) obtain us new where y: "ys = us @ new" "list_all2 later xs us" by (auto simp: grows_def)
  from assms(3) obtain vs new' where z: "zs = vs @ new'" "list_all2 later ys vs" by (auto simp: grows_def)
  from z(2) [unfolded y(1)] obtain as bs where v: "vs = as @ bs" "list_all2 later us as"
    by (auto simp: list_all2_append1)
  have "list_all2 later xs as"
    by (rule list_all2_trans [OF _ y(2) v(2)]) (use assms(1) in \<open>blast dest: transpD\<close>)
  then show ?thesis unfolding grows_def z(1) v(1) by (intro exI [of _ as] exI [of _ "bs @ new'"]) simp
qed

lemma grows_mem: "grows later xs ys \<Longrightarrow> x \<in> set xs \<Longrightarrow> \<exists>y \<in> set ys. later x y"
  unfolding grows_def by (fastforce simp: list_all2_conv_all_nth in_set_conv_nth)

section \<open>What a run upholds\<close>

definition session_later :: "browser_session \<Rightarrow> browser_session \<Rightarrow> bool" where
  "session_later b b' \<longleftrightarrow> bs_token b' = bs_token b \<and> bs_user b' = bs_user b \<and> bs_issuer b' = bs_issuer b \<and>
     bs_ws b' = bs_ws b \<and> bs_roles b' = bs_roles b \<and> bs_expires b' = bs_expires b \<and>
     (bs_revoked b \<noteq> None \<longrightarrow> bs_revoked b' \<noteq> None)"

definition user_later :: "identity_user \<Rightarrow> identity_user \<Rightarrow> bool" where
  "user_later u u' \<longleftrightarrow> iu_id u' = iu_id u \<and> iu_issuer u' = iu_issuer u \<and> iu_version u \<le> iu_version u'"

definition login_later :: "oidc_login \<Rightarrow> oidc_login \<Rightarrow> bool" where
  "login_later l l' \<longleftrightarrow> ol_state l' = ol_state l \<and> ol_nonce l' = ol_nonce l \<and> ol_created l' = ol_created l \<and>
     (ol_consumed l \<noteq> None \<longrightarrow> ol_consumed l' \<noteq> None)"

definition account_later :: "service_account \<Rightarrow> service_account \<Rightarrow> bool" where
  "account_later a a' \<longleftrightarrow> sa_id a' = sa_id a \<and> sa_ws a' = sa_ws a \<and> sa_roles a' = sa_roles a \<and>
     sa_scopes a' = sa_scopes a \<and> sa_expires a' = sa_expires a \<and> sa_version a \<le> sa_version a'"

lemmas later_defs = session_later_def user_later_def login_later_def account_later_def

lemma later_reflp [simp]:
  "reflp session_later" "reflp user_later" "reflp login_later" "reflp account_later"
  by (simp_all add: reflp_def later_defs)

lemma later_transp [simp]:
  "transp session_later" "transp user_later" "transp login_later" "transp account_later"
  by (auto simp: transp_def later_defs)

definition upholds :: "site \<Rightarrow> site \<Rightarrow> bool" where
  "upholds s t \<longleftrightarrow> grows session_later (sessions s) (sessions t) \<and> grows user_later (users s) (users t) \<and>
     grows login_later (logins s) (logins t) \<and> grows account_later (accounts s) (accounts t) \<and>
     preserves (core s) (core t)"

lemma upholds_refl [simp]: "upholds s s"
  by (simp add: upholds_def grows_refl)

lemma upholds_trans:
  assumes "upholds s t" "upholds t u"
  shows "upholds s u"
  using assms unfolding upholds_def
  by (elim conjE, intro conjI)
    (rule grows_trans [OF later_transp(1)] grows_trans [OF later_transp(2)] grows_trans [OF later_transp(3)]
      grows_trans [OF later_transp(4)] preserves_trans, assumption, assumption)+

section \<open>Well-formed sites\<close>

definition users_ok :: "runtime \<Rightarrow> site \<Rightarrow> bool" where
  "users_ok R s \<longleftrightarrow> distinct (map iu_id (users s)) \<and> (\<forall>u \<in> set (users s). drawn R (core s) (iu_id u)) \<and>
     distinct (map (\<lambda>u. (iu_issuer u, iu_subject u)) (users s))"

definition sessions_ok :: "site \<Rightarrow> bool" where
  "sessions_ok s \<longleftrightarrow> distinct (map bs_token (sessions s)) \<and>
     (\<forall>b \<in> set (sessions s). \<exists>u \<in> set (users s). iu_id u = bs_user b \<and> iu_issuer u = bs_issuer b \<and>
        (iu_active u \<or> bs_revoked b \<noteq> None))"

definition logins_ok :: "site \<Rightarrow> bool" where
  "logins_ok s \<longleftrightarrow> distinct (map ol_state (logins s))"

definition accounts_ok :: "runtime \<Rightarrow> site \<Rightarrow> bool" where
  "accounts_ok R s \<longleftrightarrow> distinct (map sa_id (accounts s)) \<and> (\<forall>a \<in> set (accounts s). drawn R (core s) (sa_id a)) \<and>
     distinct (map sa_prefix (accounts s))"

definition site_ok :: "runtime \<Rightarrow> site \<Rightarrow> bool" where
  "site_ok R s \<longleftrightarrow> sound R (core s) \<and> users_ok R s \<and> sessions_ok s \<and> logins_ok s \<and> accounts_ok R s"

lemma users_ok_frame:
  assumes "users_ok R s" "map iu_id (users t) = map iu_id (users s)"
    and "map (\<lambda>u. (iu_issuer u, iu_subject u)) (users t) = map (\<lambda>u. (iu_issuer u, iu_subject u)) (users s)"
    and "ticks (core s) \<le> ticks (core t)"
  shows "users_ok R t"
proof -
  have "iu_id ` set (users t) = iu_id ` set (users s)" using arg_cong [OF assms(2), of set] by simp
  then have "drawn R (core t) (iu_id u)" if "u \<in> set (users t)" for u
    using assms(1,4) that drawn_mono unfolding users_ok_def by (metis (no_types, lifting) image_iff)
  with assms show ?thesis by (simp add: users_ok_def)
qed

lemma accounts_ok_frame:
  assumes "accounts_ok R s" "map sa_id (accounts t) = map sa_id (accounts s)"
    and "map sa_prefix (accounts t) = map sa_prefix (accounts s)" "ticks (core s) \<le> ticks (core t)"
  shows "accounts_ok R t"
proof -
  have "sa_id ` set (accounts t) = sa_id ` set (accounts s)" using arg_cong [OF assms(2), of set] by simp
  then have "drawn R (core t) (sa_id a)" if "a \<in> set (accounts t)" for a
    using assms(1,4) that drawn_mono unfolding accounts_ok_def by (metis (no_types, lifting) image_iff)
  with assms show ?thesis by (simp add: accounts_ok_def)
qed

lemma list_all2_in_set2: "list_all2 P xs ys \<Longrightarrow> y \<in> set ys \<Longrightarrow> \<exists>x \<in> set xs. P x y"
  by (induction rule: list_all2_induct) auto

text \<open>
  Sessions follow their users as long as nobody loses his id or issuer or is deactivated while a
  session of his is live.
\<close>

definition still_there :: "identity_user \<Rightarrow> identity_user \<Rightarrow> bool" where
  "still_there u u' \<longleftrightarrow> iu_id u' = iu_id u \<and> iu_issuer u' = iu_issuer u \<and> (iu_active u \<longrightarrow> iu_active u')"

lemma sessions_ok_frame:
  assumes "sessions_ok s" "\<And>u. u \<in> set (users s) \<Longrightarrow> \<exists>u' \<in> set (users t). still_there u u'"
    and "grows session_later (sessions s) (sessions t)" "map bs_token (sessions t) = map bs_token (sessions s)"
  shows "sessions_ok t"
proof -
  have "\<exists>u \<in> set (users t). iu_id u = bs_user b \<and> iu_issuer u = bs_issuer b \<and> (iu_active u \<or> bs_revoked b \<noteq> None)"
    if "b \<in> set (sessions t)" for b
  proof -
    from assms(3) obtain us new where "sessions t = us @ new" "list_all2 session_later (sessions s) us"
      by (auto simp: grows_def)
    moreover from this have "new = []"
      using arg_cong [OF assms(4), of length] by (simp add: list_all2_lengthD)
    ultimately have "list_all2 session_later (sessions s) (sessions t)" by simp
    with that obtain b' where b': "b' \<in> set (sessions s)" "session_later b' b"
      by (meson list_all2_in_set2)
    then obtain u where "u \<in> set (users s)" "iu_id u = bs_user b'" "iu_issuer u = bs_issuer b'"
      "iu_active u \<or> bs_revoked b' \<noteq> None"
      using assms(1) by (auto simp: sessions_ok_def)
    with assms(2) [of u] b'(2) show ?thesis by (auto simp: session_later_def still_there_def)
  qed
  with assms(1,4) show ?thesis by (simp add: sessions_ok_def)
qed

lemma still_there_refl [simp]: "still_there u u"
  by (simp add: still_there_def)

lemma still_there_mem: "u \<in> set us \<Longrightarrow> \<exists>u' \<in> set us. still_there u u'"
  using still_there_refl by blast

lemma site_frame:
  assumes "site_ok R s" "sound R (core t)" "preserves (core s) (core t)"
    and "grows session_later (sessions s) (sessions t)"
    and "map bs_token (sessions t) = map bs_token (sessions s)"
    and "grows user_later (users s) (users t)" "map iu_id (users t) = map iu_id (users s)"
    and "\<And>u. u \<in> set (users s) \<Longrightarrow> \<exists>u' \<in> set (users t). still_there u u'"
    and "map (\<lambda>u. (iu_issuer u, iu_subject u)) (users t) = map (\<lambda>u. (iu_issuer u, iu_subject u)) (users s)"
    and "grows login_later (logins s) (logins t)" "map ol_state (logins t) = map ol_state (logins s)"
    and "grows account_later (accounts s) (accounts t)" "map sa_id (accounts t) = map sa_id (accounts s)"
    and "map sa_prefix (accounts t) = map sa_prefix (accounts s)"
  shows "site_ok R t \<and> upholds s t"
proof -
  have ticks: "ticks (core s) \<le> ticks (core t)" using assms(3) by (simp add: preserves_def)
  have "users_ok R t" by (rule users_ok_frame [OF _ assms(7,9) ticks]) (use assms(1) in \<open>simp add: site_ok_def\<close>)
  moreover have "sessions_ok t"
    by (rule sessions_ok_frame [OF _ assms(8,4,5)]) (use assms(1) in \<open>simp_all add: site_ok_def\<close>)
  moreover have "logins_ok t" using assms(1,11) by (simp add: site_ok_def logins_ok_def)
  moreover have "accounts_ok R t"
    by (rule accounts_ok_frame [OF _ assms(13,14) ticks]) (use assms(1) in \<open>simp add: site_ok_def\<close>)
  ultimately show ?thesis using assms(2-4,6,10,12) by (simp add: site_ok_def upholds_def)
qed

text \<open>Sessions that are only revoked or seen again.\<close>

definition keeps_session :: "(browser_session \<Rightarrow> browser_session) \<Rightarrow> bool" where
  "keeps_session f \<longleftrightarrow> (\<forall>b. session_later b (f b))"

lemma keeps_session_ops [simp]: "keeps_session (revoke_at now)" "keeps_session (\<lambda>b. b\<lparr>bs_seen := now\<rparr>)"
  by (simp_all add: keeps_session_def session_later_def revoke_at_def)

lemma sessions_frame:
  assumes "site_ok R s" "keeps_session f" "t = s\<lparr>sessions := update_rows P f (sessions s), group_members := ms, groups := gs\<rparr>"
  shows "site_ok R t \<and> upholds s t"
proof (rule site_frame [OF assms(1)])
  show "grows session_later (sessions s) (sessions t)"
    using assms(2) grows_update [OF later_reflp(1)] by (simp add: assms(3) keeps_session_def)
  show "map bs_token (sessions t) = map bs_token (sessions s)"
    using assms(2) by (simp add: assms(3) keeps_session_def session_later_def update_rows_key)
qed (use assms(1) in \<open>simp_all add: assms(3) grows_refl still_there_mem site_ok_def\<close>)

lemma modify_session_ok: "site_ok R s \<Longrightarrow> keeps_session f \<Longrightarrow> site_ok R (modify_session i f s) \<and> upholds s (modify_session i f s)"
  by (rule sessions_frame [where ms = "group_members s" and gs = "groups s"])
    (simp_all add: modify_session_def row_modify_def)

lemma revoke_all_ok: "site_ok R s \<Longrightarrow> site_ok R (revoke_all now is s) \<and> upholds s (revoke_all now is s)"
  by (rule sessions_frame [where f = "revoke_at now" and ms = "group_members s" and gs = "groups s"])
    (simp_all add: revoke_all_def)

lemma revoke_sessions_all: "revoke_sessions now i s = revoke_all now {i} s"
  by (simp add: revoke_sessions_def revoke_all_def)

lemma accounts_frame:
  assumes "site_ok R s" "\<And>a. account_later a (f a)" "\<And>a. sa_prefix (f a) = sa_prefix a"
  shows "site_ok R (modify_account i f s) \<and> upholds s (modify_account i f s)"
proof (rule site_frame [OF assms(1)])
  let ?t = "modify_account i f s"
  have id: "sa_id (f a) = sa_id a" for a using assms(2) [of a] by (simp add: account_later_def)
  show "grows account_later (accounts s) (accounts ?t)"
    using assms(2) by (simp add: modify_account_def row_modify_def grows_update)
  show "map sa_id (accounts ?t) = map sa_id (accounts s)" "map sa_prefix (accounts ?t) = map sa_prefix (accounts s)"
    using id assms(3) by (simp_all add: modify_account_def row_modify_def update_rows_key)
qed (use assms(1) in \<open>simp_all add: modify_account_def grows_refl still_there_mem site_ok_def\<close>)

text \<open>The tables of the workspaces change by operations that keep them sound.\<close>

lemma core_frame:
  assumes "site_ok R s" "sound R c" "preserves (core s) c"
  shows "site_ok R (s\<lparr>core := c\<rparr>) \<and> upholds s (s\<lparr>core := c\<rparr>)"
  by (rule site_frame [OF assms(1)]) (use assms in \<open>simp_all add: grows_refl still_there_mem\<close>)

lemma tick_ok: "site_ok R s \<Longrightarrow> site_ok R (tick s) \<and> upholds s (tick s)"
proof -
  assume s: "site_ok R s"
  have "delivers (core s) ((core s)\<lparr>ticks := Suc (ticks (core s))\<rparr>)"
    using delivers_tables [where s = "core s" and ds = "deliveries (core s)" and rs = "receipts (core s)" and
        js = "jobs (core s)" and n = 1, OF refl] by simp
  from delivers_ok [OF this, of R] s show ?thesis
    unfolding tick_def by (intro core_frame) (simp_all add: site_ok_def)
qed

lemma site_audited_ok:
  assumes "strict_mono (clock R)" "site_ok R s"
  shows "site_ok R (s\<lparr>core := audit R sv a ty i d (core s)\<rparr>) \<and> upholds s (s\<lparr>core := audit R sv a ty i d (core s)\<rparr>)"
  by (rule core_frame [OF assms(2)])
    (use assms sound_audit keeps_preserves [OF keeps_audit] in \<open>simp_all add: site_ok_def\<close>)

section \<open>Signing in and out\<close>

lemma service_principal_ok:
  assumes "site_ok R s" "service_principal C cfg now raw s = (r, t)"
  shows "site_ok R t \<and> upholds s t"
  using assms accounts_frame [OF assms(1), of "\<lambda>a. a\<lparr>sa_used := Some now\<rparr>"]
  by (auto simp: service_principal_def account_later_def split: option.splits if_splits)

lemma session_principal_ok:
  assumes "site_ok R s" "session_principal C now raw s = (r, t)"
  shows "site_ok R t \<and> upholds s t"
  using assms modify_session_ok [OF assms(1)]
  by (auto simp: session_principal_def split: option.splits if_splits)

lemma current_principal_ok:
  assumes "site_ok R s" "current_principal C cfg P now rq s = (r, t)"
  shows "site_ok R t \<and> upholds s t"
  using assms service_principal_ok [OF assms(1)] session_principal_ok [OF assms(1)]
  by (auto simp: current_principal_def Let_def split: option.splits if_splits prod.splits)

lemma login_ok:
  assumes "site_ok R s" "login C cfg P now st v n ret s = Inr (r, t)"
  shows "site_ok R t \<and> upholds s t"
proof -
  from assms(2) have "\<exists>l. ol_state l \<notin> ol_state ` set (logins s) \<and> t = s\<lparr>logins := row_add l (logins s)\<rparr>"
    by (clarsimp simp: login_def res_elim) (rule exI, rule conjI [rotated], rule refl, simp)
  then obtain l where fresh: "ol_state l \<notin> ol_state ` set (logins s)"
    and t: "t = s\<lparr>logins := row_add l (logins s)\<rparr>" by blast
  have "site_ok R t" using assms(1) fresh
    by (auto simp: t site_ok_def users_ok_def sessions_ok_def logins_ok_def accounts_ok_def row_add_def)
  then show ?thesis by (simp add: upholds_def t grows_refl grows_add)
qed

text \<open>A new user row that fits.\<close>

lemma add_user_ok:
  assumes "inj (uuid R)" "site_ok R s" "iu_id u = next_id R (core s)" "\<And>v. v \<in> set (users s) \<Longrightarrow> \<not> user_clash u v"
  shows "site_ok R (tick (s\<lparr>users := row_add u (users s)\<rparr>)) \<and> upholds s (tick (s\<lparr>users := row_add u (users s)\<rparr>))"
proof -
  let ?u = "s\<lparr>users := row_add u (users s)\<rparr>" and ?t = "tick (s\<lparr>users := row_add u (users s)\<rparr>)"
  note t = tick_ok [OF assms(2)]
  have d: "drawn R (core ?t) i" if "drawn R (core s) i" for i
    by (rule drawn_mono [OF that]) (simp add: tick_def)
  have id: "iu_id u \<notin> iu_id ` set (users s)"
    using assms(2) next_not_drawn [OF assms(1)] by (force simp: site_ok_def users_ok_def assms(3))
  have new: "drawn R (core ?t) (iu_id u)" unfolding assms(3) by (rule drawn_next) (simp add: tick_def)
  have "users_ok R ?t"
    using assms(2,4) id d new by (auto simp: site_ok_def users_ok_def tick_def row_add_def user_clash_def)
  moreover have "sessions_ok ?t" using assms(2) by (auto simp: site_ok_def sessions_ok_def tick_def row_add_def)
  moreover have "logins_ok ?t" using assms(2) by (simp add: site_ok_def logins_ok_def tick_def)
  moreover have "accounts_ok R ?t"
    using assms(2) d by (simp add: site_ok_def accounts_ok_def tick_def)
  moreover have "sound R (core ?t)" using t by (simp add: site_ok_def tick_def)
  ultimately have "site_ok R ?t" by (simp add: site_ok_def)
  moreover have "upholds s ?t" using t by (simp add: upholds_def tick_def grows_add)
  ultimately show ?thesis by blast
qed

lemma find_identity_Some:
  "find_identity i b s = Some u \<Longrightarrow> u \<in> set (users s) \<and> iu_issuer u = i \<and> iu_subject u = b"
  by (auto simp: find_identity_def dest: find_SomeD)

lemma find_identity_None: "find_identity i b s = None \<Longrightarrow> u \<in> set (users s) \<Longrightarrow> iu_issuer u = i \<Longrightarrow> iu_subject u \<noteq> b"
  by (auto simp: find_identity_def find_None_iff)

lemma admit_known:
  assumes "find_identity (the (oidc_issuer cfg)) (cl_sub c) s = Some u"
    and "admit_identity R cfg now c rs w s = Inr (i, rs', t)"
  shows "i = iu_id u \<and> t = s \<and> iu_active u \<and> w \<in> snd (entitlements u s) \<and>
    rs' = (if fst (entitlements u s) \<noteq> {} then sorted_set (filter (\<lambda>r. r \<in> fst (entitlements u s)) rs) else rs)"
  using assms by (auto simp: admit_identity_def res_elim case_prod_beta)

lemma admit_identity_ok:
  assumes "inj (uuid R)" "site_ok R s" "admit_identity R cfg now c rs w s = Inr (i, rs', t)"
  shows "site_ok R t \<and> upholds s t \<and> (\<exists>u \<in> set (users t). iu_id u = i \<and> iu_issuer u = the (oidc_issuer cfg) \<and> iu_active u) \<and>
    sessions t = sessions s \<and> logins t = logins s"
proof (cases "find_identity (the (oidc_issuer cfg)) (cl_sub c) s")
  case (Some u)
  with assms(2) find_identity_Some [OF Some] admit_known [OF Some assms(3)] show ?thesis by auto
next
  case None
  let ?u = "new_identity R cfg now c rs w s"
  have t: "t = tick (s\<lparr>users := row_add ?u (users s)\<rparr>)" "i = iu_id ?u"
    using assms(3) None by (auto simp: admit_identity_def res_elim Let_def)
  have "\<not> user_clash ?u v" if "v \<in> set (users s)" for v
    using find_identity_None [OF None that] by (auto simp: user_clash_def new_identity_def)
  from add_user_ok [OF assms(1,2) _ this] show ?thesis
    by (simp add: t new_identity_def) (simp add: tick_def row_add_def)
qed

lemma consume_ok: "site_ok R s \<Longrightarrow> site_ok R (consume now h s) \<and> upholds s (consume now h s)"
  by (rule site_frame)
    (simp_all add: consume_def row_modify_def grows_refl still_there_mem grows_update login_later_def update_rows_key site_ok_def)

lemma add_session_ok:
  assumes "site_ok R s" "bs_token b \<notin> bs_token ` set (sessions s)"
    and "\<exists>u \<in> set (users s). iu_id u = bs_user b \<and> iu_issuer u = bs_issuer b \<and> iu_active u"
  shows "site_ok R (tick (s\<lparr>sessions := row_add b (sessions s)\<rparr>)) \<and>
    upholds s (tick (s\<lparr>sessions := row_add b (sessions s)\<rparr>))"
proof -
  let ?u = "s\<lparr>sessions := row_add b (sessions s)\<rparr>"
  have "site_ok R ?u"
    using assms by (auto simp: site_ok_def users_ok_def sessions_ok_def logins_ok_def accounts_ok_def row_add_def)
  moreover have "upholds s ?u" by (simp add: upholds_def grows_refl grows_add)
  ultimately show ?thesis using tick_ok upholds_trans by blast
qed

text \<open>What a new session rests on.\<close>

lemma open_session_cases:
  assumes "open_session R C cfg P now raw d l tokens s = Inr (r, t)"
  obtains c a w i rs u where
    "id_claims P d (dget_or tokens ''id_token'' (JStr [])) (ol_nonce l) = Inr c"
    "access_claims P d (dget_or tokens ''access_token'' (JStr [])) = Inr a" "cl_sub a = cl_sub c"
    "claimed_workspace c = Some w"
    "admit_identity R cfg now c (token_roles a (or_default (oidc_client_id cfg) [])) w s = Inr (i, rs, u)"
    "sha256 C raw \<notin> bs_token ` set (sessions u)"
    "t = tick (u\<lparr>sessions := row_add (new_session R C cfg now raw i w rs (dget tokens ''id_token'') c u) (sessions u)\<rparr>)"
    "fst r = ol_return l"
  using assms by (auto simp: open_session_def res_elim Let_def new_session_def)

lemma open_session_ok:
  assumes "inj (uuid R)" "site_ok R s" "open_session R C cfg P now raw d l tokens s = Inr (r, t)"
  shows "site_ok R t \<and> upholds s t"
proof -
  from assms(3) obtain c a w i rs u where
    u: "admit_identity R cfg now c (token_roles a (or_default (oidc_client_id cfg) [])) w s = Inr (i, rs, u)"
    "sha256 C raw \<notin> bs_token ` set (sessions u)"
    and t: "t = tick (u\<lparr>sessions := row_add (new_session R C cfg now raw i w rs (dget tokens ''id_token'') c u) (sessions u)\<rparr>)"
    by (rule open_session_cases)
  note a = admit_identity_ok [OF assms(1,2) u(1)]
  have "site_ok R t \<and> upholds u t"
    unfolding t by (rule add_session_ok) (use a u(2) in \<open>simp_all add: new_session_def\<close>)
  with a upholds_trans show ?thesis by blast
qed

text \<open>The callback stops before the exchange, fails in it, is rolled back after it, or signs in.\<close>

lemma callback_cases [consumes 1, case_names stopped failed rolled_back signed_in]:
  assumes "callback R C cfg P now code state raw s = (r, t)"
  obtains e where "r = Inl e" "t = s"
  | l where "pending_login C now state s = Inr l" "r = Inl (HTTPException 502 ''oidc_code_exchange_failed'')"
      "t = consume now (ol_state l) s"
  | l e where "pending_login C now state s = Inr l" "r = Inl e" "t = s"
  | d l tokens q where "pending_login C now state s = Inr l" "r = Inr q"
      "open_session R C cfg P now raw d l tokens (consume now (ol_state l) s) = Inr (q, t)"
proof -
  let ?before = "bind_res (metadata cfg P) (\<lambda>d. bind_res (pending_login C now state s) (\<lambda>l.
    bind_res (fernet cfg) (\<lambda>k.
    bind_res (from_option (HTTPException 401 ''oidc_transaction_key_rotated'') (unseal C k (ol_verifier l))) (\<lambda>v.
    bind_res (client_form cfg) (\<lambda>secret. Inr (d, l, v, secret))))))"
  show thesis
  proof (cases ?before)
    case (Inl e)
    with assms have "r = Inl e" "t = s" by (simp_all add: callback_def)
    with that(1) show thesis by blast
  next
    case (Inr x)
    then obtain d l v secret where x: "x = (d, l, v, secret)" and l: "pending_login C now state s = Inr l"
      by (auto simp: res_elim)
    let ?s1 = "consume now (ol_state l) s"
    have r: "(r, t) = (case exchange P code v secret of
        None \<Rightarrow> (Inl (HTTPException 502 ''oidc_code_exchange_failed''), ?s1)
      | Some j \<Rightarrow> (case bind_res (as_dict j) (\<lambda>tokens. open_session R C cfg P now raw d l tokens ?s1) of
          Inl e \<Rightarrow> (Inl e, s) | Inr (r, t) \<Rightarrow> (Inr r, t)))"
      unfolding assms [symmetric] callback_def Inr x by (simp only: sum.case prod.case Let_def)
    show thesis
    proof (cases "exchange P code v secret")
      case None
      with r have "r = Inl (HTTPException 502 ''oidc_code_exchange_failed'')" "t = ?s1" by simp_all
      with l that(2) show thesis by blast
    next
      case (Some j)
      show thesis
      proof (cases "bind_res (as_dict j) (\<lambda>tokens. open_session R C cfg P now raw d l tokens (consume now (ol_state l) s))")
        case (Inl e)
        with r Some have "r = Inl e" "t = s" by simp_all
        with l that(3) show thesis by blast
      next
        case (Inr y)
        then obtain tokens where "open_session R C cfg P now raw d l tokens (consume now (ol_state l) s) = Inr y"
          by (auto simp: res_elim)
        moreover obtain q u where y: "y = (q, u)" by (cases y)
        moreover have "r = Inr q" "t = u" using r Some Inr y by simp_all
        ultimately show thesis using l that(4) by blast
      qed
    qed
  qed
qed

lemma callback_ok:
  assumes "inj (uuid R)" "site_ok R s" "callback R C cfg P now code state raw s = (r, t)"
  shows "site_ok R t \<and> upholds s t"
  using assms(3)
proof (cases rule: callback_cases)
  case (stopped e)
  with assms(2) show ?thesis by simp
next
  case (failed l)
  with consume_ok [OF assms(2)] show ?thesis by simp
next
  case (rolled_back l e)
  with assms(2) show ?thesis by simp
next
  case (signed_in d l tokens q)
  have c: "site_ok R (consume now (ol_state l) s)" "upholds s (consume now (ol_state l) s)"
    using consume_ok [OF assms(2)] by blast+
  from open_session_ok [OF assms(1) c(1) signed_in(3)] upholds_trans [OF c(2)] show ?thesis by blast
qed

lemma logout_ok:
  assumes "site_ok R s" "logout C cfg P now cookie s = (r, t)"
  shows "site_ok R t \<and> upholds s t"
proof -
  from assms(2) have "t = s \<or> (\<exists>i. t = modify_session i (revoke_at now) s)"
    by (auto simp: logout_def Let_def split: option.splits)
  with modify_session_ok [OF assms(1)] assms(1) show ?thesis by auto
qed

section \<open>Workspaces and service accounts\<close>

lemma sound_workspaces:
  assumes "sound R s" "t = s\<lparr>workspaces := ws, ticks := Suc (ticks s)\<rparr>"
  shows "sound R t \<and> preserves s t"
proof -
  have "store_ok R t"
    by (rule store_ok_frame [of R s]) (use assms in \<open>simp_all add: sound_def members_def\<close>)
  moreover have "audit_ok R t" by (rule audit_ok_frame [of R s]) (use assms in \<open>simp_all add: sound_def\<close>)
  moreover have "configs_ok R t" by (rule configs_ok_frame [of R s]) (use assms in \<open>simp_all add: sound_def\<close>)
  moreover have "keeps s t" by (rule keeps_frame) (simp_all add: assms(2) observed_def)
  ultimately show ?thesis by (simp add: sound_def keeps_preserves)
qed

text \<open>Users whose row changes but for its keys.\<close>

lemma users_frame:
  assumes "site_ok R s" "sound R c" "preserves (core s) c"
    and "\<And>u. user_later u (f u)" "\<And>u. iu_subject (f u) = iu_subject u" "\<And>u. iu_active (f u) = iu_active u"
  shows "site_ok R (s\<lparr>core := c, users := row_modify iu_id i f (users s)\<rparr>) \<and>
    upholds s (s\<lparr>core := c, users := row_modify iu_id i f (users s)\<rparr>)"
proof (rule site_frame [OF assms(1)])
  fix u assume "u \<in> set (users s)"
  then show "\<exists>u' \<in> set (users (s\<lparr>core := c, users := row_modify iu_id i f (users s)\<rparr>)). still_there u u'"
    using assms(4) [of u] assms(6) [of u]
    by (intro bexI [of _ "if iu_id u = i then f u else u"]) (auto simp: set_row_modify still_there_def user_later_def)
qed (use assms(2-5) in \<open>simp_all add: row_modify_def grows_refl grows_update update_rows_key user_later_def\<close>)

lemma create_workspace_ok:
  assumes "site_ok R s" "create_workspace R now p slug name s = Inr (w, t)"
  shows "site_ok R t \<and> upholds s t"
proof -
  define c where "c = (core s)\<lparr>workspaces := row_add w (workspaces (core s)), ticks := Suc (ticks (core s))\<rparr>"
  have c: "sound R c" "preserves (core s) c"
    using sound_workspaces [OF _ c_def, of R] assms(1) by (simp_all add: site_ok_def)
  define f where "f = (\<lambda>u :: identity_user. u\<lparr>iu_workspaces := sorted_set (slug # iu_workspaces u), iu_version := iu_version u + 1,
    iu_updated := now\<rparr>)"
  from assms(2) have "t = s\<lparr>core := c\<rparr> \<or> (\<exists>i. t = s\<lparr>core := c, users := row_modify iu_id i f (users s)\<rparr>)"
    by (auto simp: create_workspace_def res_elim Let_def c_def f_def split: option.splits if_splits)
  with core_frame [OF assms(1) c] users_frame [OF assms(1) c, of f] show ?thesis
    by (auto simp: f_def user_later_def)
qed

lemma add_account_ok:
  assumes "inj (uuid R)" "site_ok R s" "sa_id a = next_id R (core s)" "sa_prefix a \<notin> sa_prefix ` set (accounts s)"
  shows "site_ok R ((tick s)\<lparr>accounts := row_add a (accounts s)\<rparr>) \<and> upholds s ((tick s)\<lparr>accounts := row_add a (accounts s)\<rparr>)"
proof -
  let ?t = "(tick s)\<lparr>accounts := row_add a (accounts s)\<rparr>"
  note t = tick_ok [OF assms(2)]
  have d: "drawn R (core ?t) i" if "drawn R (core s) i" for i
    by (rule drawn_mono [OF that]) (simp add: tick_def)
  have new: "drawn R (core ?t) (sa_id a)" unfolding assms(3) by (rule drawn_next) (simp add: tick_def)
  have id: "sa_id a \<notin> sa_id ` set (accounts s)"
    using assms(2) next_not_drawn [OF assms(1)] by (force simp: site_ok_def accounts_ok_def assms(3))
  have "accounts_ok R ?t"
    using assms(2,4) id d new by (auto simp: site_ok_def accounts_ok_def tick_def row_add_def)
  moreover have "users_ok R ?t" using assms(2) d by (simp add: site_ok_def users_ok_def tick_def)
  moreover have "sessions_ok ?t" "logins_ok ?t"
    using assms(2) by (simp_all add: site_ok_def sessions_ok_def logins_ok_def tick_def)
  moreover have "sound R (core ?t)" using t by (simp add: site_ok_def tick_def)
  ultimately have "site_ok R ?t" by (simp add: site_ok_def)
  moreover have "upholds s ?t" using t by (simp add: upholds_def tick_def grows_add)
  ultimately show ?thesis by blast
qed

lemma create_account_cases:
  assumes "create_account R C now p name rs scopes expires prefix secret salt s = Inr ((a, cred), t)"
  obtains sv d where "administer p (core s) = Inr sv"
    "''*'' \<in> permissions_of rs \<or> set scopes \<subseteq> permissions_of rs" "set scopes \<subseteq> known_permissions"
    "sa_id a = next_id R (core s)" "sa_ws a = wid sv" "sa_prefix a = prefix" "sa_salt a = salt"
    "sa_verifier a = scrypt C secret salt" "sa_roles a = sorted_set rs" "sa_scopes a = sorted_set scopes"
    "sa_expires a = now + days expires" "sa_revoked a = None" "prefix \<notin> sa_prefix ` set (accounts s)"
    "cred = credential (slug_of sv (core s)) prefix secret"
    "t = (tick s)\<lparr>accounts := row_add a (accounts s),
       core := audit R sv ''service_account.created'' ''service_account'' (sa_id a) d (core (tick s))\<rparr>"
  using assms by (auto simp: create_account_def res_elim Let_def issue_def)

lemma create_account_ok:
  assumes "inj (uuid R)" "strict_mono (clock R)" "site_ok R s"
    and "create_account R C now p name rs scopes expires prefix secret salt s = Inr ((a, cred), t)"
  shows "site_ok R t \<and> upholds s t"
proof -
  from assms(4) obtain sv d where a: "sa_id a = next_id R (core s)" "sa_prefix a = prefix" "prefix \<notin> sa_prefix ` set (accounts s)"
    and t: "t = (tick s)\<lparr>accounts := row_add a (accounts s),
       core := audit R sv ''service_account.created'' ''service_account'' (sa_id a) d (core (tick s))\<rparr>"
    by (rule create_account_cases)
  let ?u = "(tick s)\<lparr>accounts := row_add a (accounts s)\<rparr>"
  have u: "site_ok R ?u" "upholds s ?u" using add_account_ok [OF assms(1,3) a(1)] a by simp_all
  have "t = ?u\<lparr>core := audit R sv ''service_account.created'' ''service_account'' (sa_id a) d (core ?u)\<rparr>" by (simp add: t)
  with site_audited_ok [OF assms(2) u(1)] upholds_trans [OF u(2)] show ?thesis by metis
qed

lemma rotate_account_cases:
  assumes "rotate_account R C p i prefix secret salt s = Inr ((a', cred), t)"
  obtains sv a d where "administer p (core s) = Inr sv" "a \<in> set (accounts s)" "sa_id a = i" "sa_ws a = wid sv"
    "a' = (issue C prefix secret salt a)\<lparr>sa_version := sa_version a + 1, sa_revoked := None\<rparr>"
    "\<forall>q \<in> set (accounts s). sa_prefix q = prefix \<longrightarrow> sa_id q = i"
    "cred = credential (slug_of sv (core s)) prefix secret"
    "t = (modify_account i (\<lambda>a. (issue C prefix secret salt a)\<lparr>sa_version := sa_version a + 1, sa_revoked := None\<rparr>) s)
       \<lparr>core := audit R sv ''service_account.rotated'' ''service_account'' i d (core s)\<rparr>"
proof -
  from assms obtain sv a where sv: "administer p (core s) = Inr sv" and a: "find_account sv i s = Inr a"
    and fits: "\<forall>q \<in> set (accounts s). sa_prefix q = prefix \<longrightarrow> sa_id q = i"
    and r: "a' = (issue C prefix secret salt a)\<lparr>sa_version := sa_version a + 1, sa_revoked := None\<rparr>"
      "cred = credential (slug_of sv (core s)) prefix secret"
      "t = (modify_account i (\<lambda>a. (issue C prefix secret salt a)\<lparr>sa_version := sa_version a + 1, sa_revoked := None\<rparr>) s)
         \<lparr>core := audit R sv ''service_account.rotated'' ''service_account'' i
           (JObj [(''credential_version'', JInt (sa_version a + 1))]) (core s)\<rparr>"
    unfolding rotate_account_def Let_def res_elim by clarsimp
  from a have "a \<in> set (accounts s)" "sa_id a = i" "sa_ws a = wid sv"
    by (auto simp: find_account_def from_option_Inr dest: find_SomeD)
  from that [OF sv this r(1) fits r(2,3)] show thesis .
qed

text \<open>A second key stays unique when the one row with id \<open>i\<close> takes a value no other row has.\<close>

lemma distinct_update_one:
  assumes "distinct (map key xs)" "distinct (map k xs)" "\<And>q. q \<in> set xs \<Longrightarrow> k q = x \<Longrightarrow> key q = i" "\<And>q. k (f q) = x"
  shows "distinct (map k (update_rows (\<lambda>q. key q = i) f xs))"
  using assms(1-3)
proof (induction xs)
  case Nil
  then show ?case by simp
next
  case (Cons q xs)
  have ih: "distinct (map k (update_rows (\<lambda>q. key q = i) f xs))" using Cons by simp
  show ?case
  proof (cases "key q = i")
    case True
    then have "update_rows (\<lambda>q. key q = i) f xs = xs"
      using Cons.prems(1) by (intro update_rows_none) (auto simp: image_iff)
    moreover have "x \<notin> k ` set xs"
    proof
      assume "x \<in> k ` set xs"
      then obtain b where "b \<in> set xs" "k b = x" by auto
      then have "b \<in> set xs" "key b = key q" using Cons.prems(3) True by simp_all
      then have "key q \<in> key ` set xs" by (metis image_eqI)
      with Cons.prems(1) show False by simp
    qed
    ultimately show ?thesis using True ih assms(4) by simp
  next
    case False
    then have "k q \<noteq> x" using Cons.prems(3) by force
    then have "k q \<notin> k ` set (update_rows (\<lambda>q. key q = i) f xs)"
      using Cons.prems(2) assms(4) by (auto simp: set_update_rows)
    with False ih show ?thesis by simp
  qed
qed

lemma rotate_account_ok:
  assumes "strict_mono (clock R)" "site_ok R s" "rotate_account R C p i prefix secret salt s = Inr ((a', cred), t)"
  shows "site_ok R t \<and> upholds s t"
proof -
  define f where "f = (\<lambda>a :: service_account. (issue C prefix secret salt a)\<lparr>sa_version := sa_version a + 1, sa_revoked := None\<rparr>)"
  from assms(3) obtain sv d where fits: "\<forall>q \<in> set (accounts s). sa_prefix q = prefix \<longrightarrow> sa_id q = i"
    and t: "t = (modify_account i f s)\<lparr>core := audit R sv ''service_account.rotated'' ''service_account'' i d (core s)\<rparr>"
    unfolding f_def by (rule rotate_account_cases)
  let ?u = "modify_account i f s"
  have f: "account_later a (f a)" "sa_id (f a) = sa_id a" "sa_prefix (f a) = prefix" for a
    by (simp_all add: f_def issue_def account_later_def)
  have ids: "map sa_id (accounts ?u) = map sa_id (accounts s)"
    by (simp add: modify_account_def row_modify_def update_rows_key f(2))
  have acc: "accounts_ok R s" using assms(2) by (simp add: site_ok_def)
  then have di: "distinct (map sa_id (accounts s))" and dp: "distinct (map sa_prefix (accounts s))"
    by (simp_all add: accounts_ok_def)
  have "distinct (map sa_prefix (update_rows (\<lambda>a. sa_id a = i) f (accounts s)))"
    by (rule distinct_update_one [OF di dp, where x = prefix]) (use fits f(3) in auto)
  then have "distinct (map sa_prefix (accounts ?u))"
    using di dp fits by (simp add: modify_account_def row_modify_def)
  moreover have "\<forall>a \<in> set (accounts ?u). drawn R (core ?u) (sa_id a)"
    using acc by (auto simp: accounts_ok_def modify_account_def set_row_modify f(2))
  ultimately have "accounts_ok R ?u" using di ids by (simp add: accounts_ok_def)
  then have u: "site_ok R ?u"
    using assms(2) by (simp add: site_ok_def users_ok_def sessions_ok_def logins_ok_def modify_account_def)
  have up: "upholds s ?u"
    using grows_update [OF later_reflp(4), of "accounts s" "\<lambda>a. sa_id a = i" f] f(1)
    by (simp add: upholds_def grows_refl modify_account_def row_modify_def)
  have "t = ?u\<lparr>core := audit R sv ''service_account.rotated'' ''service_account'' i d (core ?u)\<rparr>"
    by (simp add: t modify_account_def)
  with site_audited_ok [OF assms(1) u] upholds_trans [OF up] show ?thesis by metis
qed

lemma revoke_account_ok:
  assumes "strict_mono (clock R)" "site_ok R s" "revoke_account R now p i s = Inr (a, t)"
  shows "site_ok R t \<and> upholds s t"
proof -
  let ?u = "modify_account i (\<lambda>a. a\<lparr>sa_revoked := Some now\<rparr>) s"
  have u: "site_ok R ?u" "upholds s ?u"
    using accounts_frame [OF assms(2), of "\<lambda>a. a\<lparr>sa_revoked := Some now\<rparr>"] by (simp_all add: account_later_def)
  from assms(3) obtain sv d where
    "t = ?u\<lparr>core := audit R sv ''service_account.revoked'' ''service_account'' i d (core ?u)\<rparr>"
    by (auto simp: revoke_account_def res_elim Let_def modify_account_def)
  with site_audited_ok [OF assms(1) u(1)] upholds_trans [OF u(2)] show ?thesis by metis
qed

section \<open>Provisioning\<close>

lemma create_user_ok:
  assumes "inj (uuid R)" "site_ok R s" "create_user R cfg now p s = Inr (u, t)"
  shows "site_ok R t \<and> upholds s t"
proof -
  from assms(3) have u: "iu_id u = next_id R (core s)" "user_fits u s"
    and t: "t = tick (s\<lparr>users := row_add u (users s)\<rparr>)"
    by (auto simp: create_user_def res_elim Let_def)
  have "\<not> user_clash u v" if "v \<in> set (users s)" for v
  proof -
    have "iu_id v \<noteq> iu_id u"
      using assms(2) that next_not_drawn [OF assms(1)] by (auto simp: site_ok_def users_ok_def u(1))
    with u(2) that show ?thesis by (simp add: user_fits_def)
  qed
  with add_user_ok [OF assms(1,2) u(1)] show ?thesis unfolding t by blast
qed

text \<open>Storing a changed row of a user that is there.\<close>

definition new_key :: "identity_user \<Rightarrow> site \<Rightarrow> bool" where
  "new_key u s \<longleftrightarrow> (\<forall>v \<in> set (users s). iu_issuer v = iu_issuer u \<longrightarrow> iu_subject v = iu_subject u \<longrightarrow> iu_id v = iu_id u)"

lemma user_fits_key: "user_fits u s \<Longrightarrow> new_key u s"
  by (auto simp: user_fits_def user_clash_def new_key_def)

lemma store_row_ok:
  assumes "site_ok R s" "old \<in> set (users s)" "user_later old u" "new_key u s"
    and "iu_active u \<or> (\<forall>b \<in> set (sessions s). bs_user b = iu_id old \<longrightarrow> bs_revoked b \<noteq> None)"
  shows "site_ok R (s\<lparr>users := row_modify iu_id (iu_id old) (\<lambda>_. u) (users s)\<rparr>) \<and>
    upholds s (s\<lparr>users := row_modify iu_id (iu_id old) (\<lambda>_. u) (users s)\<rparr>)"
proof -
  let ?t = "s\<lparr>users := row_modify iu_id (iu_id old) (\<lambda>_. u) (users s)\<rparr>"
  have ok: "users_ok R s" using assms(1) by (simp add: site_ok_def)
  then have di: "distinct (map iu_id (users s))"
    and dk: "distinct (map (\<lambda>u. (iu_issuer u, iu_subject u)) (users s))" by (simp_all add: users_ok_def)
  have id: "iu_id u = iu_id old" using assms(3) by (simp add: user_later_def)
  have only: "v = old" if "v \<in> set (users s)" "iu_id v = iu_id old" for v
    using find_key_unique [OF di that(1) assms(2) that(2)] .
  have ids: "map iu_id (users ?t) = map iu_id (users s)" by (auto simp: row_modify_def update_rows_def id)
  have "distinct (map (\<lambda>u. (iu_issuer u, iu_subject u)) (update_rows (\<lambda>v. iu_id v = iu_id old) (\<lambda>_. u) (users s)))"
    by (rule distinct_update_one [OF di dk, where x = "(iu_issuer u, iu_subject u)"])
      (use assms(4) id in \<open>auto simp: new_key_def\<close>)
  moreover have "\<forall>v \<in> set (users ?t). drawn R (core ?t) (iu_id v)"
    using ok id assms(2) by (auto simp: users_ok_def set_row_modify)
  ultimately have "users_ok R ?t" using di ids by (simp add: users_ok_def row_modify_def)
  moreover have g: "grows user_later (users s) (users ?t)"
    using grows_update [OF later_reflp(2), of "users s" "\<lambda>v. iu_id v = iu_id old" "\<lambda>_. u"] only assms(3)
    by (auto simp: row_modify_def)
  moreover have "sessions_ok ?t"
  proof -
    have "\<exists>v \<in> set (users ?t). iu_id v = bs_user b \<and> iu_issuer v = bs_issuer b \<and> (iu_active v \<or> bs_revoked b \<noteq> None)"
      if "b \<in> set (sessions s)" for b
    proof -
      from that assms(1) obtain v where v: "v \<in> set (users s)" "iu_id v = bs_user b" "iu_issuer v = bs_issuer b"
        "iu_active v \<or> bs_revoked b \<noteq> None"
        by (auto simp: site_ok_def sessions_ok_def)
      show ?thesis
      proof (cases "iu_id v = iu_id old")
        case True
        then have "v = old" using only v(1) by blast
        then have "iu_id u = bs_user b" "iu_issuer u = bs_issuer b" "iu_active u \<or> bs_revoked b \<noteq> None"
          using assms(3,5) that v by (auto simp: user_later_def)
        moreover have "u \<in> set (users ?t)" using assms(2) by (auto simp: set_row_modify)
        ultimately show ?thesis by blast
      next
        case False
        then have "v \<in> set (users ?t)" using v(1) by (force simp: set_row_modify)
        with v show ?thesis by blast
      qed
    qed
    with assms(1) show ?thesis by (simp add: site_ok_def sessions_ok_def)
  qed
  ultimately show ?thesis
    using assms(1) by (simp add: site_ok_def upholds_def grows_refl logins_ok_def accounts_ok_def)
qed

lemma store_user_cases:
  assumes "store_user now old u s = Inr (v, t)"
  shows "v = u\<lparr>iu_version := iu_version old + 1, iu_updated := now\<rparr>" "user_fits v s"
    "t = (let t = s\<lparr>users := row_modify iu_id (iu_id old) (\<lambda>_. v) (users s)\<rparr>
          in if iu_active old \<and> \<not> iu_active v then revoke_sessions now (iu_id old) t else t)"
  using assms by (auto simp: store_user_def res_elim Let_def)

text \<open>A deactivation and the revocation of the sessions commute.\<close>

lemma revoke_then_store: "revoke_all now is (s\<lparr>users := us\<rparr>) = (revoke_all now is s)\<lparr>users := us\<rparr>"
  by (simp add: revoke_all_def)

lemma revoked_users: "b \<in> set (sessions (revoke_all now is s)) \<Longrightarrow> bs_user b \<in> is \<Longrightarrow> bs_revoked b \<noteq> None"
  by (auto simp: revoke_all_def set_update_rows revoke_at_def split: if_splits)

lemma revoke_all_users [simp]: "users (revoke_all now is s) = users s"
  by (simp add: revoke_all_def)

lemma deactivate_ok:
  assumes "site_ok R s" "old \<in> set (users s)" "user_later old u" "new_key u s"
    and "t = revoke_all now {iu_id old} (s\<lparr>users := row_modify iu_id (iu_id old) (\<lambda>_. u) (users s)\<rparr>)"
  shows "site_ok R t \<and> upholds s t"
proof -
  let ?r = "revoke_all now {iu_id old} s"
  have r: "site_ok R ?r" "upholds s ?r" using revoke_all_ok [OF assms(1)] by blast+
  have "t = ?r\<lparr>users := row_modify iu_id (iu_id old) (\<lambda>_. u) (users ?r)\<rparr>"
    unfolding assms(5) revoke_then_store by simp
  moreover have "new_key u ?r" using assms(4) by (simp add: new_key_def)
  ultimately have "site_ok R t \<and> upholds ?r t"
    using store_row_ok [OF r(1) _ assms(3)] assms(2) revoked_users by (metis insertI1 revoke_all_users)
  with upholds_trans [OF r(2)] show ?thesis by blast
qed

lemma inactive_sessions:
  assumes "site_ok R s" "u \<in> set (users s)" "\<not> iu_active u" "b \<in> set (sessions s)" "bs_user b = iu_id u"
  shows "bs_revoked b \<noteq> None"
proof -
  from assms(1,4) obtain v where v: "v \<in> set (users s)" "iu_id v = bs_user b" "iu_active v \<or> bs_revoked b \<noteq> None"
    by (auto simp: site_ok_def sessions_ok_def)
  moreover have "v = u"
    using find_key_unique [of iu_id "users s" v u] assms(1,2,5) v by (simp add: site_ok_def users_ok_def)
  ultimately show ?thesis using assms(3) by simp
qed

lemma store_user_ok:
  assumes "site_ok R s" "old \<in> set (users s)" "iu_id u = iu_id old" "iu_issuer u = iu_issuer old"
    and "store_user now old u s = Inr (v, t)"
  shows "site_ok R t \<and> upholds s t"
proof -
  note v = store_user_cases [OF assms(5)]
  have later: "user_later old v" using assms(3,4) by (simp add: v(1) user_later_def)
  have key: "new_key v s" by (rule user_fits_key [OF v(2)])
  show ?thesis
  proof (cases "iu_active old \<and> \<not> iu_active v")
    case True
    then show ?thesis
      by (intro deactivate_ok [OF assms(1,2) later key]) (simp add: v(3) revoke_sessions_all)
  next
    case False
    then have "iu_active v \<or> (\<forall>b \<in> set (sessions s). bs_user b = iu_id old \<longrightarrow> bs_revoked b \<noteq> None)"
      using inactive_sessions [OF assms(1,2)] by blast
    moreover have "t = s\<lparr>users := row_modify iu_id (iu_id old) (\<lambda>_. v) (users s)\<rparr>"
      unfolding v(3) Let_def by (rule if_not_P [OF False])
    ultimately show ?thesis using store_row_ok [OF assms(1,2) later key] by blast
  qed
qed

lemma get_user_Some: "get_user i s = Inr u \<Longrightarrow> u \<in> set (users s) \<and> iu_id u = i"
  by (auto simp: get_user_def from_option_Inr dest: row_get_mem row_get_key)

lemma replace_user_ok:
  assumes "site_ok R s" "replace_user now i p s = Inr (u, t)"
  shows "site_ok R t \<and> upholds s t"
proof -
  from assms(2) obtain old where "get_user i s = Inr old" "store_user now old (replaced_user p old) s = Inr (u, t)"
    by (auto simp: replace_user_def res_elim)
  moreover have "iu_id (replaced_user p old) = iu_id old" "iu_issuer (replaced_user p old) = iu_issuer old"
    by (simp_all add: replaced_user_def)
  ultimately show ?thesis using store_user_ok [OF assms(1)] get_user_Some by metis
qed

lemma patch_user_row_keys:
  "patch_user_row R x u = Inr v \<Longrightarrow> iu_id v = iu_id u \<and> iu_issuer v = iu_issuer u \<and> iu_subject v = iu_subject u \<and>
     iu_external v = iu_external u"
  by (cases x) (auto simp: patch_user_row_def res_elim split: user_path.splits)

lemma patched_user_keys:
  assumes "fold_res (patch_user_row R) ops u = Inr v"
  shows "iu_id v = iu_id u \<and> iu_issuer v = iu_issuer u \<and> iu_subject v = iu_subject u \<and> iu_external v = iu_external u"
  by (rule fold_res_invariant [OF assms]) (simp, drule patch_user_row_keys, simp)

lemma patch_user_ok:
  assumes "site_ok R s" "patch_user R now i ops s = Inr (u, t)"
  shows "site_ok R t \<and> upholds s t"
proof -
  from assms(2) obtain old v where "get_user i s = Inr old" "fold_res (patch_user_row R) ops old = Inr v"
    "store_user now old v s = Inr (u, t)"
    by (auto simp: patch_user_def res_elim)
  with store_user_ok [OF assms(1)] get_user_Some patched_user_keys show ?thesis by metis
qed

lemma delete_user_ok:
  assumes "site_ok R s" "delete_user now i s = Inr t"
  shows "site_ok R t \<and> upholds s t"
proof -
  define f where "f = (\<lambda>u :: identity_user. u\<lparr>iu_active := False, iu_version := iu_version u + 1, iu_updated := now\<rparr>)"
  from assms(2) obtain old where u: "get_user i s = Inr old"
    and t: "t = revoke_all now {i} (s\<lparr>users := row_modify iu_id i f (users s)\<rparr>)"
    by (auto simp: delete_user_def res_elim revoke_sessions_all f_def)
  have old: "old \<in> set (users s)" "iu_id old = i" using get_user_Some [OF u] by blast+
  have ok: "users_ok R s" using assms(1) by (simp add: site_ok_def)
  have "v = old" if "v \<in> set (users s)" "iu_issuer v = iu_issuer old" "iu_subject v = iu_subject old" for v
    by (rule find_key_unique [of "\<lambda>u. (iu_issuer u, iu_subject u)" "users s"])
      (use ok old that in \<open>simp_all add: users_ok_def\<close>)
  then have "new_key (f old) s" by (auto simp: new_key_def f_def)
  moreover have "row_modify iu_id i f (users s) = row_modify iu_id i (\<lambda>_. f old) (users s)"
  proof -
    have "v = old" if "v \<in> set (users s)" "iu_id v = i" for v
      by (rule find_key_unique [of iu_id "users s"]) (use ok old that in \<open>simp_all add: users_ok_def\<close>)
    then show ?thesis by (auto simp: row_modify_def update_rows_def)
  qed
  moreover have "user_later old (f old)" by (simp add: f_def user_later_def)
  ultimately show ?thesis
    using deactivate_ok [OF assms(1) old(1)] t old(2) by metis
qed

text \<open>Groups and their members: nothing else changes but the sessions.\<close>

lemma replace_members_cases:
  assumes "replace_members g requested s = Inr (is, t)"
  shows "is = members_of g s \<union> set requested" "set requested \<subseteq> iu_id ` set (users s)"
    "t = s\<lparr>group_members := filter (\<lambda>m. gm_group m \<noteq> g) (group_members s) @
      map (\<lambda>i. \<lparr>gm_group = g, gm_user = i\<rparr>) (remdups requested)\<rparr>"
  using assms by (auto simp: replace_members_def res_elim)

definition regrouped :: "site \<Rightarrow> site \<Rightarrow> bool" where
  "regrouped s t \<longleftrightarrow> core t = core s \<and> users t = users s \<and> sessions t = sessions s \<and> logins t = logins s \<and>
     accounts t = accounts s"

lemma regrouped_ok: "site_ok R s \<Longrightarrow> regrouped s t \<Longrightarrow> site_ok R t \<and> upholds s t"
  by (rule site_frame) (simp_all add: regrouped_def grows_refl still_there_mem site_ok_def)

lemma regrouped_trans: "regrouped s t \<Longrightarrow> regrouped t u \<Longrightarrow> regrouped s u"
  by (simp add: regrouped_def)

lemma revoked_regroup_ok:
  assumes "site_ok R s" "regrouped s u" "t = revoke_all now is u"
  shows "site_ok R t \<and> upholds s t"
  using regrouped_ok [OF assms(1,2)] revoke_all_ok upholds_trans unfolding assms(3) by metis

lemma replace_members_regroups: "replace_members g is s = Inr (as, t) \<Longrightarrow> regrouped s t"
  using replace_members_cases(3) by (fastforce simp: regrouped_def)

lemma create_group_ok:
  assumes "site_ok R s" "create_group R cfg now p s = Inr (g, t)"
  shows "site_ok R t \<and> upholds s t"
proof -
  from assms(2) obtain as u where
    u: "replace_members (ig_id g) (sg_members p) (tick (s\<lparr>groups := row_add g (groups s)\<rparr>)) = Inr (as, u)"
    and t: "t = revoke_all now as u"
    by (auto simp: create_group_def res_elim Let_def)
  have "regrouped (tick s) (tick (s\<lparr>groups := row_add g (groups s)\<rparr>))" by (simp add: regrouped_def tick_def)
  then have "regrouped (tick s) u" using replace_members_regroups [OF u] regrouped_trans by blast
  then have "site_ok R t \<and> upholds (tick s) t" using revoked_regroup_ok [OF _ _ t] tick_ok [OF assms(1)] by blast
  with tick_ok [OF assms(1)] upholds_trans show ?thesis by blast
qed

lemma replace_group_cases:
  assumes "replace_group now i p s = Inr (g', t)"
  obtains g as u where "get_group i s = Inr g" "g' = replaced_group now p g" "group_fits g' s"
    "replace_members i (sg_members p) (s\<lparr>groups := row_modify ig_id i (\<lambda>_. g') (groups s)\<rparr>) = Inr (as, u)"
    "t = revoke_all now as u"
  using assms by (auto simp: replace_group_def res_elim Let_def)

lemma replace_group_ok:
  assumes "site_ok R s" "replace_group now i p s = Inr (g', t)"
  shows "site_ok R t \<and> upholds s t"
proof -
  from assms(2) obtain as u where
    u: "replace_members i (sg_members p) (s\<lparr>groups := row_modify ig_id i (\<lambda>_. g') (groups s)\<rparr>) = Inr (as, u)"
    and t: "t = revoke_all now as u"
    by (rule replace_group_cases)
  have "regrouped s (s\<lparr>groups := row_modify ig_id i (\<lambda>_. g') (groups s)\<rparr>)" by (simp add: regrouped_def)
  then have "regrouped s u" using replace_members_regroups [OF u] regrouped_trans by blast
  then show ?thesis by (rule revoked_regroup_ok [OF assms(1) _ t])
qed

lemma patch_group_row_regroups:
  "patch_group_row R x (g, as, s) = Inr (g', as', t) \<Longrightarrow> regrouped s t \<and> groups t = groups s \<and> ig_id g' = ig_id g \<and> as \<subseteq> as'"
  using replace_members_regroups replace_members_cases(3)
  by (cases x) (fastforce simp: patch_group_row_def res_elim regrouped_def split: group_path.splits)

lemma patched_group_regroups:
  "fold_res (patch_group_row R) ops (g, as, s) = Inr (g', as', t) \<Longrightarrow>
   regrouped s t \<and> groups t = groups s \<and> ig_id g' = ig_id g \<and> as \<subseteq> as'"
proof (induction ops arbitrary: g as s)
  case Nil
  then show ?case by (simp add: regrouped_def)
next
  case (Cons x ops)
  then obtain h bs u where x: "patch_group_row R x (g, as, s) = Inr (h, bs, u)"
    and rest: "fold_res (patch_group_row R) ops (h, bs, u) = Inr (g', as', t)" by (auto simp: res_elim)
  from patch_group_row_regroups [OF x] Cons.IH [OF rest] regrouped_trans show ?case by auto
qed

lemma patch_group_ok:
  assumes "site_ok R s" "patch_group R now i ops s = Inr (g, t)"
  shows "site_ok R t \<and> upholds s t"
proof -
  from assms(2) obtain h g' as u where
    u: "fold_res (patch_group_row R) ops (h, members_of i s, s) = Inr (g', as, u)"
    and t: "t = revoke_all now as (u\<lparr>groups := row_modify ig_id i (\<lambda>_. g) (groups u)\<rparr>)"
    by (auto simp: patch_group_def res_elim Let_def)
  have "regrouped s (u\<lparr>groups := row_modify ig_id i (\<lambda>_. g) (groups u)\<rparr>)"
    using patched_group_regroups [OF u] by (simp add: regrouped_def)
  then show ?thesis by (rule revoked_regroup_ok [OF assms(1) _ t])
qed

lemma delete_group_ok:
  assumes "site_ok R s" "delete_group now i s = Inr t"
  shows "site_ok R t \<and> upholds s t"
proof -
  let ?u = "s\<lparr>group_members := filter (\<lambda>m. gm_group m \<noteq> i) (group_members s), groups := filter (\<lambda>g. ig_id g \<noteq> i) (groups s)\<rparr>"
  have "t = revoke_all now (members_of i s) ?u" using assms(2) by (auto simp: delete_group_def res_elim)
  then show ?thesis by (rule revoked_regroup_ok [OF assms(1), rotated]) (simp add: regrouped_def)
qed

end
