(* ===== verification/Site.thy ===== *)
theory Site
  imports Access
begin

text \<open>
  Runs of a whole site: every operation of sign-in, provisioning and machine identities, and every
  step of its workspaces, in any order, and what holds of all of them.
\<close>

section \<open>Steps\<close>

inductive site_step :: "runtime \<Rightarrow> crypto \<Rightarrow> site \<Rightarrow> site \<Rightarrow> bool" for R C where
  InWorkspace: "workspace_step R (core s) c \<Longrightarrow> site_step R C s (s\<lparr>core := c\<rparr>)"
| Authenticate: "current_principal C cfg P now rq s = (r, t) \<Longrightarrow> site_step R C s t"
| StartLogin: "login C cfg P now st v n ret s = Inr (x, t) \<Longrightarrow> site_step R C s t"
| Callback: "callback R C cfg P now code st raw s = (q, t) \<Longrightarrow> site_step R C s t"
| Logout: "logout C cfg P now cookie s = (d, t) \<Longrightarrow> site_step R C s t"
| CreateWorkspace: "create_workspace R now p slug name s = Inr (w, t) \<Longrightarrow> site_step R C s t"
| CreateAccount: "create_account R C now p name rs scopes lifetime prefix secret salt s = Inr ((a, cred), t) \<Longrightarrow> site_step R C s t"
| RotateAccount: "rotate_account R C p i prefix secret salt s = Inr ((a, cred), t) \<Longrightarrow> site_step R C s t"
| RevokeAccount: "revoke_account R now p i s = Inr (a, t) \<Longrightarrow> site_step R C s t"
| CreateUser: "create_user R cfg now su s = Inr (u, t) \<Longrightarrow> site_step R C s t"
| ReplaceUser: "replace_user now i su s = Inr (u, t) \<Longrightarrow> site_step R C s t"
| PatchUser: "patch_user R now i ops s = Inr (u, t) \<Longrightarrow> site_step R C s t"
| DeleteUser: "delete_user now i s = Inr t \<Longrightarrow> site_step R C s t"
| CreateGroup: "create_group R cfg now sg s = Inr (g, t) \<Longrightarrow> site_step R C s t"
| ReplaceGroup: "replace_group now i sg s = Inr (g, t) \<Longrightarrow> site_step R C s t"
| PatchGroup: "patch_group R now i gops s = Inr (g, t) \<Longrightarrow> site_step R C s t"
| DeleteGroup: "delete_group now i s = Inr t \<Longrightarrow> site_step R C s t"

lemma site_step_ok:
  assumes "inj (uuid R)" "strict_mono (clock R)" "site_step R C s t" "site_ok R s"
  shows "site_ok R t \<and> upholds s t"
  using assms(3)
proof cases
  case (InWorkspace c)
  have "sound R (core s)" using assms(4) by (simp add: site_ok_def)
  with workspace_step_ok [OF assms(1,2) InWorkspace(2)] have "sound R c" "preserves (core s) c" by blast+
  from core_frame [OF assms(4) this] show ?thesis by (simp add: InWorkspace(1))
next
  case Authenticate
  then show ?thesis by (rule current_principal_ok [OF assms(4)])
next
  case StartLogin
  then show ?thesis by (rule login_ok [OF assms(4)])
next
  case Callback
  then show ?thesis by (rule callback_ok [OF assms(1,4)])
next
  case Logout
  then show ?thesis by (rule logout_ok [OF assms(4)])
next
  case CreateWorkspace
  then show ?thesis by (rule create_workspace_ok [OF assms(4)])
next
  case CreateAccount
  then show ?thesis by (rule create_account_ok [OF assms(1,2,4)])
next
  case RotateAccount
  then show ?thesis by (rule rotate_account_ok [OF assms(2,4)])
next
  case RevokeAccount
  then show ?thesis by (rule revoke_account_ok [OF assms(2,4)])
next
  case CreateUser
  then show ?thesis by (rule create_user_ok [OF assms(1,4)])
next
  case ReplaceUser
  then show ?thesis by (rule replace_user_ok [OF assms(4)])
next
  case PatchUser
  then show ?thesis by (rule patch_user_ok [OF assms(4)])
next
  case DeleteUser
  then show ?thesis by (rule delete_user_ok [OF assms(4)])
next
  case CreateGroup
  then show ?thesis by (rule create_group_ok [OF assms(4)])
next
  case ReplaceGroup
  then show ?thesis by (rule replace_group_ok [OF assms(4)])
next
  case PatchGroup
  then show ?thesis by (rule patch_group_ok [OF assms(4)])
next
  case DeleteGroup
  then show ?thesis by (rule delete_group_ok [OF assms(4)])
qed

lemma site_run_ok:
  assumes "inj (uuid R)" "strict_mono (clock R)" "(site_step R C)\<^sup>*\<^sup>* s t" "site_ok R s"
  shows "site_ok R t \<and> upholds s t"
  using assms(3)
proof (induction rule: rtranclp_induct)
  case base
  with assms(4) show ?case by simp
next
  case (step u t)
  with site_step_ok [OF assms(1,2) step(2)] show ?case using upholds_trans by blast
qed

section \<open>Sessions and logins that are over\<close>

lemma session_row:
  assumes "site_ok R s" "b \<in> set (sessions s)" "bs_token b = sha256 C raw"
  shows "find_session C raw s = Some b"
  unfolding find_session_def
  by (rule find_key) (use assms in \<open>simp_all add: site_ok_def sessions_ok_def\<close>)

lemma revoked_session_dead:
  assumes "site_ok R s" "b \<in> set (sessions s)" "bs_token b = sha256 C raw" "bs_revoked b \<noteq> None"
  shows "session_principal C now raw s = (None, s)"
  using session_row [OF assms(1-3)] assms(4) by (simp add: session_principal_def)

lemma revoked_session_stays_dead:
  assumes "inj (uuid R)" "strict_mono (clock R)" "(site_step R C)\<^sup>*\<^sup>* s t" "site_ok R s"
    and "b \<in> set (sessions s)" "bs_token b = sha256 C raw" "bs_revoked b \<noteq> None"
  shows "session_principal C now raw t = (None, t)"
proof -
  have t: "site_ok R t" "upholds s t" using site_run_ok [OF assms(1-4)] by blast+
  then obtain b' where "b' \<in> set (sessions t)" "session_later b b'"
    using grows_mem [OF _ assms(5), of session_later "sessions t"] by (auto simp: upholds_def)
  with revoked_session_dead [OF t(1)] assms(6,7) show ?thesis by (auto simp: session_later_def)
qed

lemma consumed_login_dead:
  assumes "site_ok R s" "l \<in> set (logins s)" "ol_state l = sha256 C st" "ol_consumed l \<noteq> None"
  shows "\<exists>e. callback R C cfg P now code st raw s = (Inl e, s)"
proof -
  have "row_get ol_state (sha256 C st) (logins s) = Some l"
    unfolding row_get_def by (rule find_key) (use assms in \<open>simp_all add: site_ok_def logins_ok_def\<close>)
  then have no: "pending_login C now st s \<noteq> Inr q" for q
    using assms(4) by (auto simp: pending_login_def res_elim)
  obtain r t where "callback R C cfg P now code st raw s = (r, t)"
    by (cases "callback R C cfg P now code st raw s")
  then show ?thesis by (cases rule: callback_cases) (use no \<open>callback R C cfg P now code st raw s = (r, t)\<close> in auto)
qed

lemma signed_in_login_consumed:
  assumes "inj (uuid R)" "site_ok R s" "callback R C cfg P now code st raw s = (Inr q, t)"
  shows "\<exists>l \<in> set (logins t). ol_state l = sha256 C st \<and> ol_consumed l \<noteq> None"
  using assms(3)
proof (cases rule: callback_cases)
  case (signed_in d l tokens q')
  let ?s = "consume now (ol_state l) s"
  from signed_in(1) have l: "row_get ol_state (sha256 C st) (logins s) = Some l"
    by (auto simp: pending_login_def res_elim)
  then have "\<exists>l' \<in> set (logins ?s). ol_state l' = sha256 C st \<and> ol_consumed l' \<noteq> None"
    using row_get_mem [OF l] row_get_key [OF l]
    by (intro bexI [of _ "l\<lparr>ol_consumed := Some now\<rparr>"]) (auto simp: consume_def set_row_modify)
  moreover have "upholds ?s t"
    using open_session_ok [OF assms(1) _ signed_in(3)] consume_ok [OF assms(2)] by blast
  ultimately show ?thesis
    using grows_mem [of login_later "logins ?s" "logins t"] by (fastforce simp: upholds_def login_later_def)
qed simp_all

section \<open>Sign-in\<close>

text \<open>The session of a successful callback, its user and the claims both rest on.\<close>

lemma admitted_user:
  assumes "admit_identity R cfg now c rs w s = Inr (i, rs', t)" "set rs = set all"
  shows "\<exists>u \<in> set (users t). iu_id u = i \<and> iu_active u \<and> iu_issuer u = the (oidc_issuer cfg) \<and> iu_subject u = cl_sub c \<and>
    w \<in> snd (entitlements u t) \<and> set rs' \<subseteq> set all \<and> (fst (entitlements u t) = {} \<or> set rs' \<subseteq> fst (entitlements u t))"
proof (cases "find_identity (the (oidc_issuer cfg)) (cl_sub c) s")
  case (Some u)
  from admit_known [OF Some assms(1)] find_identity_Some [OF Some] assms(2) show ?thesis
    by (intro bexI [of _ u]) auto
next
  case None
  let ?u = "new_identity R cfg now c rs w s"
  have "t = tick (s\<lparr>users := row_add ?u (users s)\<rparr>)" "i = iu_id ?u" "rs' = rs"
    using assms(1) None by (auto simp: admit_identity_def res_elim Let_def)
  then show ?thesis using assms(2)
    by (intro bexI [of _ ?u]) (auto simp: new_identity_def tick_def entitlements_def Let_def)
qed

lemma callback_users:
  assumes "callback R C cfg P now code st raw s = (Inr q, t)"
  shows "users t = users s \<or> (\<exists>x. users t = users s @ [x])"
  using assms
proof (cases rule: callback_cases)
  case (signed_in d l tokens q')
  from signed_in(3) obtain c a w i rs u where
    i: "admit_identity R cfg now c (token_roles a (or_default (oidc_client_id cfg) [])) w (consume now (ol_state l) s) = Inr (i, rs, u)"
    and t: "t = tick (u\<lparr>sessions := row_add (new_session R C cfg now raw i w rs (dget tokens ''id_token'') c u) (sessions u)\<rparr>)"
    by (rule open_session_cases)
  have "users u = users s \<or> (\<exists>x. users u = users s @ [x])"
    using i by (auto simp: admit_identity_def res_elim Let_def case_prod_beta tick_def consume_def row_add_def
        split: option.splits)
  then show ?thesis by (simp add: t tick_def)
qed simp_all

lemma signed_in_session:
  assumes "inj (uuid R)" "site_ok R s" "callback R C cfg P now code st raw s = (Inr q, t)"
  shows "\<exists>b u d x y c a. sessions t = sessions s @ [b] \<and> bs_token b = sha256 C raw \<and> bs_revoked b = None \<and>
    u \<in> set (users t) \<and> iu_id u = bs_user b \<and> iu_active u \<and> iu_issuer u = the (oidc_issuer cfg) \<and> iu_subject u = cl_sub c \<and>
    decode_id P d x = Some c \<and> decode_access P d y = Some a \<and> cl_sub a = cl_sub c \<and>
    claimed_workspace c = Some (bs_ws b) \<and> bs_ws b \<in> snd (entitlements u t) \<and>
    set (bs_roles b) \<subseteq> set (token_roles a (or_default (oidc_client_id cfg) [])) \<and>
    (fst (entitlements u t) = {} \<or> set (bs_roles b) \<subseteq> fst (entitlements u t)) \<and>
    bs_expires b = session_expiry cfg now c"
  using assms(3)
proof (cases rule: callback_cases)
  case (signed_in d l tokens q')
  let ?s = "consume now (ol_state l) s"
  have ok: "site_ok R ?s" using consume_ok [OF assms(2)] by blast
  from signed_in(3) obtain c a w i rs u where
    c: "id_claims P d (dget_or tokens ''id_token'' (JStr [])) (ol_nonce l) = Inr c"
    and a: "access_claims P d (dget_or tokens ''access_token'' (JStr [])) = Inr a" "cl_sub a = cl_sub c"
    and w: "claimed_workspace c = Some w"
    and i: "admit_identity R cfg now c (token_roles a (or_default (oidc_client_id cfg) [])) w ?s = Inr (i, rs, u)"
    and t: "t = tick (u\<lparr>sessions := row_add (new_session R C cfg now raw i w rs (dget tokens ''id_token'') c u) (sessions u)\<rparr>)"
    by (rule open_session_cases)
  let ?b = "new_session R C cfg now raw i w rs (dget tokens ''id_token'') c u"
  have "sessions u = sessions s" using admit_identity_ok [OF assms(1) ok i] by (simp add: consume_def)
  then have "sessions t = sessions s @ [?b]" by (simp add: t tick_def row_add_def)
  moreover obtain v where "v \<in> set (users u)" "iu_id v = i" "iu_active v" "iu_issuer v = the (oidc_issuer cfg)"
    "iu_subject v = cl_sub c" "w \<in> snd (entitlements v u)"
    "set rs \<subseteq> set (token_roles a (or_default (oidc_client_id cfg) []))"
    "fst (entitlements v u) = {} \<or> set rs \<subseteq> fst (entitlements v u)"
    using admitted_user [OF i refl] by blast
  moreover have "users t = users u" "entitlements v t = entitlements v u" for v
    by (simp_all add: t tick_def entitlements_def)
  moreover have "decode_id P d (dget_or tokens ''id_token'' (JStr [])) = Some c"
    using c by (auto simp: id_claims_def res_elim)
  moreover have "decode_access P d (dget_or tokens ''access_token'' (JStr [])) = Some a"
    using a(1) by (simp add: access_claims_def from_option_Inr)
  ultimately show ?thesis
    using a(2) w by (intro exI [of _ ?b] exI [of _ v] exI [of _ d] exI [of _ "dget_or tokens ''id_token'' (JStr [])"]
        exI [of _ "dget_or tokens ''access_token'' (JStr [])"] exI [of _ c] exI [of _ a]) (simp add: new_session_def)
qed simp_all

section \<open>Who a request acts for\<close>

lemma find_identity_row:
  assumes "users_ok R s" "u \<in> set (users s)"
  shows "find_identity (iu_issuer u) (iu_subject u) s = Some u"
proof -
  have "find (\<lambda>v. (iu_issuer v, iu_subject v) = (iu_issuer u, iu_subject u)) (users s) = Some u"
    by (rule find_key) (use assms in \<open>simp_all add: users_ok_def\<close>)
  then show ?thesis by (simp add: find_identity_def)
qed

lemma bearer_inactive:
  assumes "users_ok R s" "u \<in> set (users s)" "\<not> iu_active u" "bearer_principal cfg P token s = Inr p"
  shows "(pr_issuer p, pr_subject p) \<noteq> (iu_issuer u, iu_subject u)"
proof
  assume same: "(pr_issuer p, pr_subject p) = (iu_issuer u, iu_subject u)"
  from assms(4) obtain c w rs where p: "pr_issuer p = cl_iss c" "pr_subject p = cl_sub c"
    and id: "bearer_roles c w s = Inr rs"
    by (auto simp: bearer_principal_def res_elim)
  have "find_identity (cl_iss c) (cl_sub c) s = Some u"
    using find_identity_row [OF assms(1,2)] same p by simp
  with id assms(3) show False by (simp add: bearer_roles_def)
qed

lemma session_inactive:
  assumes "site_ok R s" "u \<in> set (users s)" "\<not> iu_active u" "session_principal C now raw s = (Some p, t)"
  shows "(pr_issuer p, pr_subject p) \<noteq> (iu_issuer u, iu_subject u)"
proof
  assume same: "(pr_issuer p, pr_subject p) = (iu_issuer u, iu_subject u)"
  from assms(4) obtain b v where b: "find_session C raw s = Some b" "row_get iu_id (bs_user b) (users s) = Some v" "iu_active v"
    and p: "pr_subject p = iu_subject v" "pr_issuer p = bs_issuer b"
    by (auto simp: session_principal_def split: option.splits if_splits)
  have ok: "users_ok R s" using assms(1) by (simp add: site_ok_def)
  have v: "v \<in> set (users s)" "iu_id v = bs_user b" using row_get_mem [OF b(2)] row_get_key [OF b(2)] by blast+
  have "b \<in> set (sessions s)" using b(1) by (auto simp: find_session_def dest: find_SomeD)
  then obtain v' where "v' \<in> set (users s)" "iu_id v' = bs_user b" "iu_issuer v' = bs_issuer b"
    using assms(1) by (auto simp: site_ok_def sessions_ok_def)
  moreover from this have "v' = v"
    using find_key_unique [of iu_id "users s" v' v] ok v by (simp add: users_ok_def)
  ultimately have "(iu_issuer v, iu_subject v) = (iu_issuer u, iu_subject u)" using same p by simp
  then have "v = u"
    using find_key_unique [of "\<lambda>u. (iu_issuer u, iu_subject u)" "users s" v u] ok v(1) assms(2) by (simp add: users_ok_def)
  with b(3) assms(3) show False by simp
qed

lemma current_inactive:
  assumes "site_ok R s" "u \<in> set (users s)" "\<not> iu_active u"
    and "iu_issuer u \<noteq> ''recordlane:service-account''" "iu_issuer u \<noteq> ''recordlane:loopback-demo''"
    and "current_principal C cfg P now rq s = (Inr p, t)"
  shows "(pr_issuer p, pr_subject p) \<noteq> (iu_issuer u, iu_subject u)"
proof -
  have ok: "users_ok R s" using assms(1) by (simp add: site_ok_def)
  consider (key) raw where "service_principal C cfg now raw s = (Some p, t)"
    | (bearer) token where "bearer_principal cfg P token s = Inr p"
    | (cookie) raw where "session_principal C now raw s = (Some p, t)"
    | (demo) "demo_principal cfg rq = Inr p"
    using assms(6) by (auto simp: current_principal_def Let_def split: option.splits if_splits prod.splits)
  then show ?thesis
  proof cases
    case key
    then have "pr_issuer p = ''recordlane:service-account''"
      by (auto simp: service_principal_def account_principal_def split: option.splits if_splits)
    with assms(4) show ?thesis by simp
  next
    case bearer
    then show ?thesis by (rule bearer_inactive [OF ok assms(2,3)])
  next
    case cookie
    then show ?thesis by (rule session_inactive [OF assms(1-3)])
  next
    case demo
    then have "pr_issuer p = ''recordlane:loopback-demo''" by (auto simp: demo_principal_def res_elim)
    with assms(5) show ?thesis by simp
  qed
qed

section \<open>Properties\<close>

text \<open>
  C1. Whatever happens on a site, in whatever order and by whomever (sign-ins, provisioning,
  service accounts, and in the workspaces observations, webhooks, proposals, decisions,
  configurations, simulations, sources, relationships, secrets, bundles, drafts of the assistant, jobs
  of delayed or crashed workers, relays killed half-way, reconciliations), it stays sound: identities,
  sessions, logins, credentials, ids and versions are unique, no deactivated identity has a live
  session, open memberships are as the objects say, an entity has at most one open approval, the audit
  chain is unbroken and at most one configuration is active. And nothing is undone: a revoked session and a consumed login stay so, accounts keep their roles and scopes, audit
  entries and event contents stay in place, closed tasks, approved versions, closed memberships,
  observations and both kinds of bans (between source objects and between records) stay as they are, and
  no version number decreases.
\<close>

theorem every_run_keeps_the_site_sound:
  assumes "inj (uuid R)" "strict_mono (clock R)" "(site_step R C)\<^sup>*\<^sup>* s t" "site_ok R s"
  shows "site_ok R t \<and> upholds s t"
  by (rule site_run_ok [OF assms])

text \<open>
  C5. A deactivated identity is locked out: no request is served in its name, whatever credential it
  brings, no sign-in opens a session for it, and the sessions it had are dead in every later state,
  even after it was activated again.
\<close>

theorem deprovisioned_users_are_locked_out:
  assumes "inj (uuid R)" "strict_mono (clock R)" "site_ok R s" "u \<in> set (users s)" "\<not> iu_active u"
    and "iu_issuer u \<noteq> ''recordlane:service-account''" "iu_issuer u \<noteq> ''recordlane:loopback-demo''"
  shows "(current_principal C cfg P now rq s = (Inr p, t) \<longrightarrow> (pr_issuer p, pr_subject p) \<noteq> (iu_issuer u, iu_subject u)) \<and>
    (callback R C cfg P now code st raw s = (Inr q, t) \<longrightarrow> (\<forall>b \<in> set (sessions t) - set (sessions s). bs_user b \<noteq> iu_id u)) \<and>
    (\<forall>b \<in> set (sessions s). bs_user b = iu_id u \<longrightarrow> (site_step R C)\<^sup>*\<^sup>* s v \<longrightarrow> bs_token b = sha256 C raw \<longrightarrow>
       session_principal C now raw v = (None, v))"
proof (intro conjI impI ballI)
  assume "current_principal C cfg P now rq s = (Inr p, t)"
  then show "(pr_issuer p, pr_subject p) \<noteq> (iu_issuer u, iu_subject u)" by (rule current_inactive [OF assms(3-7)])
next
  fix b assume c: "callback R C cfg P now code st raw s = (Inr q, t)" and b: "b \<in> set (sessions t) - set (sessions s)"
  from signed_in_session [OF assms(1,3) c] b obtain w where
    w: "w \<in> set (users t)" "iu_id w = bs_user b" "iu_active w" by auto
  have live: "bs_revoked b = None" using signed_in_session [OF assms(1,3) c] b by auto
  have t: "site_ok R t" "upholds s t" using callback_ok [OF assms(1,3) c] by blast+
  show "bs_user b \<noteq> iu_id u"
  proof
    assume same: "bs_user b = iu_id u"
    have "users t = users s \<or> (\<exists>x. users t = users s @ [x])" using callback_users [OF c] .
    then have "u \<in> set (users t)" using assms(4) by auto
    from inactive_sessions [OF t(1) this assms(5) _ same] b live show False by simp
  qed
next
  fix b assume "b \<in> set (sessions s)" "bs_user b = iu_id u" "(site_step R C)\<^sup>*\<^sup>* s v" "bs_token b = sha256 C raw"
  then show "session_principal C now raw v = (None, v)"
    using revoked_session_stays_dead [OF assms(1,2) _ assms(3)] inactive_sessions [OF assms(3-5)] by blast
qed

text \<open>
  C6. A login state signs in at most once: after a successful callback every later callback with
  the same state, by whomever and whenever, is refused and changes nothing.
\<close>

theorem logins_are_used_once:
  assumes "inj (uuid R)" "strict_mono (clock R)" "site_ok R s" "callback R C cfg P now code st raw s = (Inr q, t)"
    and "(site_step R C)\<^sup>*\<^sup>* t u"
  shows "\<exists>e. callback R C cfg' P' now' code' st raw' u = (Inl e, u)"
proof -
  have t: "site_ok R t" using callback_ok [OF assms(1,3,4)] by blast
  then have u: "site_ok R u" "upholds t u" using site_run_ok [OF assms(1,2,5)] by blast+
  obtain l where "l \<in> set (logins t)" "ol_state l = sha256 C st" "ol_consumed l \<noteq> None"
    using signed_in_login_consumed [OF assms(1,3,4)] by blast
  then obtain l' where "l' \<in> set (logins u)" "ol_state l' = sha256 C st" "ol_consumed l' \<noteq> None"
    using u(2) grows_mem [of login_later "logins t" "logins u" l] by (auto simp: upholds_def login_later_def)
  then show ?thesis by (rule consumed_login_dead [OF u(1)])
qed

text \<open>
  A sign-in adds one session, for an active identity with the subject of both tokens, in a workspace
  that is claimed and granted to it, with no role that the access token does not carry and none that is
  not granted when any is, and no longer than the id token and the configured lifetime allow.
\<close>

theorem sessions_carry_only_what_is_granted:
  assumes "inj (uuid R)" "site_ok R s" "callback R C cfg P now code st raw s = (Inr q, t)"
  shows "\<exists>b u d x y c a. sessions t = sessions s @ [b] \<and> bs_token b = sha256 C raw \<and>
    u \<in> set (users t) \<and> iu_id u = bs_user b \<and> iu_active u \<and> iu_subject u = cl_sub c \<and>
    decode_id P d x = Some c \<and> decode_access P d y = Some a \<and> cl_sub a = cl_sub c \<and>
    claimed_workspace c = Some (bs_ws b) \<and> bs_ws b \<in> snd (entitlements u t) \<and>
    set (bs_roles b) \<subseteq> set (token_roles a (or_default (oidc_client_id cfg) [])) \<and>
    (fst (entitlements u t) = {} \<or> set (bs_roles b) \<subseteq> fst (entitlements u t)) \<and>
    bs_expires b \<le> cl_exp c * 1000000 \<and> bs_expires b \<le> now + session_ttl cfg * 1000000"
proof -
  from signed_in_session [OF assms] obtain b u d x y c a where
    "sessions t = sessions s @ [b]" "bs_token b = sha256 C raw" "u \<in> set (users t)" "iu_id u = bs_user b" "iu_active u"
    "iu_subject u = cl_sub c" "decode_id P d x = Some c" "decode_access P d y = Some a" "cl_sub a = cl_sub c"
    "claimed_workspace c = Some (bs_ws b)" "bs_ws b \<in> snd (entitlements u t)"
    "set (bs_roles b) \<subseteq> set (token_roles a (or_default (oidc_client_id cfg) []))"
    "fst (entitlements u t) = {} \<or> set (bs_roles b) \<subseteq> fst (entitlements u t)"
    "bs_expires b = session_expiry cfg now c" by blast
  then show ?thesis
    by (intro exI [of _ b] exI [of _ u] exI [of _ d] exI [of _ x] exI [of _ y] exI [of _ c] exI [of _ a])
      (simp add: session_expiry_def)
qed

end
