(* ===== verification/Credentials.thy ===== *)
theory Credentials
  imports Site
begin

text \<open>
  Credentials from their issue to their use: service credentials and their parser, a login and the
  session it ends in, group changes and the sessions they end, and the pages of a SCIM listing. At the
  end a small site on which every property of the identity components is applied.
\<close>

section \<open>Service credentials\<close>

text \<open>
  What the parser relies on: a slug without a dot, a prefix without a dot or an underscore and a long
  secret, as the schema of a workspace and the generators of \<open>secrets\<close> make them.
\<close>

definition issuable :: "string \<Rightarrow> string \<Rightarrow> string \<Rightarrow> bool" where
  "issuable slug prefix secret \<longleftrightarrow> slug \<noteq> [] \<and> prefix \<noteq> [] \<and> CHR ''.'' \<notin> set slug \<and>
     CHR ''.'' \<notin> set prefix \<and> CHR ''_'' \<notin> set prefix \<and> 32 \<le> length secret"

lemma parse_issued:
  assumes "issuable slug prefix secret"
  shows "parse_credential (credential slug prefix secret) = Some (slug, prefix, secret)"
proof -
  have "cut CHR ''.'' (credential slug prefix secret) = Some (account_key @ slug @ CHR ''_'' # prefix, secret)"
    using assms cut_append [of "CHR ''.''" "account_key @ slug @ CHR ''_'' # prefix" secret]
    by (simp add: credential_def issuable_def account_key_def)
  then show ?thesis
    using assms cut_last_append [of "CHR ''_''" prefix slug]
    by (simp add: parse_credential_def issuable_def)
qed

text \<open>A credential that parses to an account's slug, prefix and secret is that account's.\<close>

lemma account_authenticates:
  assumes "accounts_ok R s" "a \<in> set (accounts s)" "parse_credential raw = Some (ws_slug w, sa_prefix a, secret)"
    and "w \<in> set (workspaces (core s))" "sa_ws a = ws_id w" "distinct (map ws_slug (workspaces (core s)))"
    and "scrypt C secret (sa_salt a) = sa_verifier a" "live_account now a" "\<not> postgresql cfg"
  shows "service_principal C cfg now raw s =
    (Some (account_principal a (sa_ws a)), modify_account (sa_id a) (\<lambda>a. a\<lparr>sa_used := Some now\<rparr>) s)"
proof -
  have "find (\<lambda>v. sees_workspace cfg (ws_slug w) v \<and> ws_slug v = ws_slug w) (workspaces (core s)) = Some w"
    using find_key [OF assms(6,4) refl] assms(9) by (simp add: sees_workspace_def)
  moreover have "find (\<lambda>q. sees_account cfg (ws_slug w) q \<and> sa_ws q = ws_id w \<and> sa_prefix q = sa_prefix a) (accounts s) = Some a"
  proof -
    have only: "q = a" if "q \<in> set (accounts s)" "sa_prefix q = sa_prefix a" for q
      using find_key_unique [of sa_prefix "accounts s" q a] assms(1,2) that by (simp add: accounts_ok_def)
    have "find (\<lambda>q. sees_account cfg (ws_slug w) q \<and> sa_ws q = ws_id w \<and> sa_prefix q = sa_prefix a) (accounts s) =
        find (\<lambda>q. sa_prefix q = sa_prefix a) (accounts s)"
      by (rule find_cong [OF refl]) (use only assms(5,9) in \<open>auto simp: sees_account_def\<close>)
    also have "\<dots> = Some a" by (rule find_key) (use assms(1,2) in \<open>simp_all add: accounts_ok_def\<close>)
    finally show ?thesis .
  qed
  ultimately show ?thesis using assms(3,5,7,8) by (simp add: service_principal_def)
qed

lemma no_account_no_principal:
  assumes "parse_credential raw = Some (slug, prefix, secret)" "prefix \<notin> sa_prefix ` set (accounts s)"
  shows "service_principal C cfg now raw s = (None, s)"
proof -
  have "find (\<lambda>a. P a \<and> sa_ws a = w \<and> sa_prefix a = prefix) (accounts s) = None" for P w
    using assms(2) by (auto simp: find_None_iff)
  with assms(1) show ?thesis by (simp add: service_principal_def split: option.split)
qed

lemma administer_workspace:
  assumes "administer p s = Inr sv" "distinct (map ws_id (workspaces s))"
  shows "\<exists>w \<in> set (workspaces s). ws_id w = wid sv \<and> slug_of sv s = ws_slug w"
proof -
  from assms(1) obtain w where w: "find (\<lambda>w. ws_id w = pr_ws p \<or> ws_slug w = pr_ws p) (workspaces s) = Some w"
    and sv: "wid sv = ws_id w"
    by (auto simp: administer_def open_service_def res_elim)
  then have "w \<in> set (workspaces s)" by (auto dest: find_SomeD)
  moreover have "row_get ws_id (wid sv) (workspaces s) = Some w"
    unfolding row_get_def by (rule find_key [OF assms(2) calculation]) (simp add: sv)
  ultimately show ?thesis using sv by (auto simp: slug_of_def)
qed

section \<open>From a login to its session\<close>

lemma login_completes:
  assumes "inj (uuid R)" "site_ok R s" "login C cfg P now st v n ret s = Inr (x, t)"
    and "metadata cfg P = Inr d" "fernet cfg = Inr k" "unseal C k (seal C k v) = Some v" "now' \<le> now + minutes 10"
    and "client_form cfg = Inr form" "exchange P code v form = Some (JObj tokens)"
    and "decode_id P d (dget_or tokens ''id_token'' (JStr [])) = Some c" "cl_nonce c = n"
    and "decode_access P d (dget_or tokens ''access_token'' (JStr [])) = Some a" "cl_sub a = cl_sub c"
    and "claimed_workspace c = Some w" "find_identity (the (oidc_issuer cfg)) (cl_sub c) s = Some u" "iu_active u"
    and "w \<in> snd (entitlements u s)" "sha256 C raw \<notin> bs_token ` set (sessions s)"
  shows "\<exists>age t'. callback R C cfg P now' code st raw t = (Inr (ret, age), t') \<and>
    (\<forall>now'' < session_expiry cfg now' c. \<exists>p. fst (session_principal C now'' raw t') = Some p \<and>
       pr_subject p = cl_sub c \<and> pr_issuer p = the (oidc_issuer cfg) \<and> pr_ws p = w)"
proof -
  define l where "l = \<lparr>ol_state = sha256 C st, ol_verifier = seal C k v, ol_nonce = n, ol_return = ret,
    ol_created = now, ol_consumed = None\<rparr>"
  have t: "t = s\<lparr>logins := row_add l (logins s)\<rparr>" and fresh: "sha256 C st \<notin> ol_state ` set (logins s)"
    using assms(3,4,5) by (auto simp: login_def res_elim l_def)
  have "row_get ol_state (sha256 C st) (logins s) = None"
    using fresh by (force simp: row_get_def find_None_iff)
  then have "pending_login C now' st t = Inr l"
    using assms(7) by (simp add: pending_login_def t row_get_def row_add_def find_append l_def)
  let ?s = "consume now' (ol_state l) t"
  have same: "users ?s = users s" "sessions ?s = sessions s" "find_identity i b ?s = find_identity i b s"
    "entitlements u ?s = entitlements u s" for i b
    by (simp_all add: consume_def t find_identity_def entitlements_def)
  have "\<exists>rs. admit_identity R cfg now' c (token_roles a (or_default (oidc_client_id cfg) [])) w ?s = Inr (iu_id u, rs, ?s)"
    using assms(15-17) by (simp add: admit_identity_def same case_prod_beta)
  then obtain rs where i: "admit_identity R cfg now' c (token_roles a (or_default (oidc_client_id cfg) [])) w ?s = Inr (iu_id u, rs, ?s)" ..
  let ?b = "new_session R C cfg now' raw (iu_id u) w rs (dget tokens ''id_token'') c ?s"
  let ?t = "tick (?s\<lparr>sessions := row_add ?b (sessions ?s)\<rparr>)"
  have nonce: "ol_nonce l = n" "ol_return l = ret" by (simp_all add: l_def)
  have b: "bs_token ?b = sha256 C raw" "bs_user ?b = iu_id u" "bs_revoked ?b = None" "bs_issuer ?b = the (oidc_issuer cfg)"
    "bs_ws ?b = w" "bs_expires ?b = session_expiry cfg now' c" by (simp_all add: new_session_def)
  have "open_session R C cfg P now' raw d l tokens ?s = Inr ((ret, max 0 ((bs_expires ?b - now') div 1000000)), ?t)"
    using assms(10-14,18) i b(1) by (simp add: open_session_def id_claims_def access_claims_def nonce same Let_def)
  then have signed: "callback R C cfg P now' code st raw t = (Inr (ret, max 0 ((bs_expires ?b - now') div 1000000)), ?t)"
    using \<open>pending_login C now' st t = Inr l\<close> assms(4-6,8,9) by (simp add: callback_def l_def as_dict_def)
  have "site_ok R t" by (rule conjunct1 [OF login_ok [OF assms(2,3)]])
  then have ok: "site_ok R ?t" using callback_ok [OF assms(1) _ signed] by blast
  have u: "u \<in> set (users s)" "iu_subject u = cl_sub c" using find_identity_Some [OF assms(15)] by blast+
  have "row_get iu_id (iu_id u) (users ?t) = Some u"
    unfolding row_get_def by (rule find_key) (use assms(2) u(1) same in \<open>simp_all add: site_ok_def users_ok_def tick_def\<close>)
  moreover have "find_session C raw ?t = Some ?b"
    by (rule session_row [OF ok _ b(1)]) (simp add: tick_def)
  ultimately show ?thesis
    using signed assms(16) u(2) b by (auto simp: session_principal_def)
qed

section \<open>Properties\<close>

text \<open>
  The credential shown when a service account is created authenticates exactly that account, with
  its workspace, roles and scopes, until it expires; what it may do is within its scopes, and these
  are within the permissions of its roles. (On a database without row-level security; see
  \<open>row_security_hides_service_accounts\<close>.)
\<close>

theorem issued_credentials_authenticate:
  assumes "inj (uuid R)" "strict_mono (clock R)" "site_ok R s" "\<not> postgresql cfg"
    and "distinct (map ws_id (workspaces (core s)))" "distinct (map ws_slug (workspaces (core s)))"
    and "create_account R C now p name rs scopes lifetime prefix secret salt s = Inr ((a, cred), t)"
    and "\<And>w. w \<in> set (workspaces (core s)) \<Longrightarrow> issuable (ws_slug w) prefix secret" "now' < now + days lifetime"
  shows "fst (service_principal C cfg now' cred t) = Some (account_principal a (sa_ws a)) \<and>
    pr_roles (account_principal a (sa_ws a)) = sorted_set rs \<and>
    (\<forall>x. allows (account_principal a (sa_ws a)) x \<longrightarrow> x \<in> set scopes \<or> ''*'' \<in> set scopes) \<and>
    (\<forall>x \<in> set scopes. x \<in> permissions_of rs \<or> ''*'' \<in> permissions_of rs)"
proof -
  have ok: "accounts_ok R t" using create_account_ok [OF assms(1-3,7)] by (simp add: site_ok_def)
  from assms(7) obtain sv d where sv: "administer p (core s) = Inr sv"
    and sc: "''*'' \<in> permissions_of rs \<or> set scopes \<subseteq> permissions_of rs"
    and a: "sa_ws a = wid sv" "sa_prefix a = prefix" "sa_salt a = salt" "sa_verifier a = scrypt C secret salt"
      "sa_roles a = sorted_set rs" "sa_scopes a = sorted_set scopes" "sa_expires a = now + days lifetime" "sa_revoked a = None"
    and cred: "cred = credential (slug_of sv (core s)) prefix secret"
    and t: "t = (tick s)\<lparr>accounts := row_add a (accounts s),
       core := audit R sv ''service_account.created'' ''service_account'' (sa_id a) d (core (tick s))\<rparr>"
    by (rule create_account_cases)
  from administer_workspace [OF sv assms(5)] obtain w where
    w: "w \<in> set (workspaces (core s))" "ws_id w = wid sv" "slug_of sv (core s) = ws_slug w" by blast
  have ws: "workspaces (core t) = workspaces (core s)" by (simp add: t tick_def frame_simps)
  have parse: "parse_credential cred = Some (ws_slug w, sa_prefix a, secret)"
    unfolding cred w(3) a(2) by (rule parse_issued [OF assms(8) [OF w(1)]])
  have live: "live_account now' a" using a(7,8) assms(9) by (simp add: live_account_def)
  have "service_principal C cfg now' cred t =
    (Some (account_principal a (sa_ws a)), modify_account (sa_id a) (\<lambda>a. a\<lparr>sa_used := Some now'\<rparr>) t)"
    by (rule account_authenticates [where w = w, OF ok _ parse]) (use w ws a live assms(4,6) in \<open>simp_all add: t\<close>)
  then show ?thesis using sc a(5,6) by (auto simp: allows_def account_principal_def)
qed

text \<open>
  Rotating a service account replaces its credential: the new one authenticates the account, revoked
  or not before, and every credential with the old prefix is refused from then on.
\<close>

theorem rotation_replaces_the_credential:
  assumes "strict_mono (clock R)" "site_ok R s"
    and "distinct (map ws_id (workspaces (core s)))" "distinct (map ws_slug (workspaces (core s)))"
    and "rotate_account R C p i prefix secret salt s = Inr ((a', cred), t)" "a \<in> set (accounts s)" "sa_id a = i"
    and "sa_prefix a \<noteq> prefix" "\<And>w. w \<in> set (workspaces (core s)) \<Longrightarrow> issuable (ws_slug w) prefix secret"
  shows "(\<not> postgresql cfg \<longrightarrow> now < sa_expires a \<longrightarrow>
      fst (service_principal C cfg now cred t) = Some (account_principal a (sa_ws a))) \<and>
    (\<forall>raw slug old. parse_credential raw = Some (slug, sa_prefix a, old) \<longrightarrow>
      service_principal C cfg now raw t = (None, t))"
proof -
  have ok: "accounts_ok R t" using rotate_account_ok [OF assms(1,2,5)] by (simp add: site_ok_def)
  from assms(5) obtain sv b d where sv: "administer p (core s) = Inr sv" and b: "b \<in> set (accounts s)" "sa_id b = i" "sa_ws b = wid sv"
    and a': "a' = (issue C prefix secret salt b)\<lparr>sa_version := sa_version b + 1, sa_revoked := None\<rparr>"
    and fits: "\<forall>q \<in> set (accounts s). sa_prefix q = prefix \<longrightarrow> sa_id q = i"
    and cred: "cred = credential (slug_of sv (core s)) prefix secret"
    and t: "t = (modify_account i (\<lambda>a. (issue C prefix secret salt a)\<lparr>sa_version := sa_version a + 1, sa_revoked := None\<rparr>) s)
       \<lparr>core := audit R sv ''service_account.rotated'' ''service_account'' i d (core s)\<rparr>"
    by (rule rotate_account_cases)
  have sok: "accounts_ok R s" using assms(2) by (simp add: site_ok_def)
  have ab: "b = a"
    using find_key_unique [of sa_id "accounts s" b a] sok b assms(6,7) by (simp add: accounts_ok_def)
  have acc: "accounts t = row_modify sa_id i (\<lambda>a. (issue C prefix secret salt a)\<lparr>sa_version := sa_version a + 1, sa_revoked := None\<rparr>) (accounts s)"
    by (simp add: t modify_account_def)
  have mem: "a' \<in> set (accounts t)" unfolding acc set_row_modify using b a' by (force simp: image_iff)
  from administer_workspace [OF sv assms(3)] obtain w where
    w: "w \<in> set (workspaces (core s))" "ws_id w = wid sv" "slug_of sv (core s) = ws_slug w" by blast
  have ws: "workspaces (core t) = workspaces (core s)" by (simp add: t frame_simps)
  have parse: "parse_credential cred = Some (ws_slug w, sa_prefix a', secret)"
    unfolding cred w(3) using parse_issued [OF assms(9) [OF w(1)]] by (simp add: a' issue_def)
  have new: "fst (service_principal C cfg now cred t) = Some (account_principal a (sa_ws a))"
    if "\<not> postgresql cfg" "now < sa_expires a"
  proof -
    have "live_account now a'" using that(2) by (simp add: a' ab issue_def live_account_def)
    then have "service_principal C cfg now cred t =
      (Some (account_principal a' (sa_ws a')), modify_account (sa_id a') (\<lambda>a. a\<lparr>sa_used := Some now\<rparr>) t)"
      by (intro account_authenticates [where w = w, OF ok mem parse]) (use w ws b that assms(4) in \<open>simp_all add: a' ab issue_def\<close>)
    then show ?thesis by (simp add: a' ab issue_def account_principal_def)
  qed
  have "sa_prefix a \<notin> sa_prefix ` set (accounts t)"
  proof
    assume "sa_prefix a \<in> sa_prefix ` set (accounts t)"
    then obtain q where q: "q \<in> set (accounts s)" "sa_id q \<noteq> i" "sa_prefix q = sa_prefix a"
      using assms(8) by (auto simp: acc set_row_modify issue_def split: if_splits)
    then have "q = a"
      using find_key_unique [of sa_prefix "accounts s" q a] sok assms(6) by (simp add: accounts_ok_def)
    with q(2) assms(7) show False by simp
  qed
  with new no_account_no_principal show ?thesis by blast
qed

text \<open>
  In PostgreSQL the lookup runs with the workspace's slug as the session's workspace, while the row
  security of the accounts compares the workspace's id: no service credential ever authenticates.
\<close>

lemma row_security_hides_service_accounts:
  assumes "postgresql cfg" "\<And>a. a \<in> set (accounts s) \<Longrightarrow> sa_ws a \<in> ws_id ` set (workspaces (core s))"
    and "\<And>v w. v \<in> set (workspaces (core s)) \<Longrightarrow> w \<in> set (workspaces (core s)) \<Longrightarrow> ws_id v \<noteq> ws_slug w"
  shows "service_principal C cfg now raw s = (None, s)"
proof (cases "parse_credential raw")
  case None
  then show ?thesis by (simp add: service_principal_def)
next
  case (Some x)
  obtain slug prefix secret where x: "x = (slug, prefix, secret)" by (cases x)
  show ?thesis
  proof (cases "find (\<lambda>w. sees_workspace cfg slug w \<and> ws_slug w = slug) (workspaces (core s))")
    case None
    with Some x show ?thesis by (simp add: service_principal_def)
  next
    case found: (Some w)
    then have w: "w \<in> set (workspaces (core s))" "ws_slug w = slug" by (auto dest: find_SomeD)
    have "find (\<lambda>a. sees_account cfg slug a \<and> sa_ws a = ws_id w \<and> sa_prefix a = prefix) (accounts s) = None"
      using assms(1) assms(3) [OF w(1) w(1)] w(2) by (auto simp: find_None_iff sees_account_def)
    with Some x found show ?thesis by (simp add: service_principal_def)
  qed
qed

text \<open>
  C7. A login that was started ends in a session: when the provider answers its callback within ten minutes
  with tokens for a provisioned, active identity, the browser is sent where the login said, and until the
  session expires its cookie makes the requests act for that identity in the claimed workspace.
\<close>

theorem started_logins_complete:
  assumes "inj (uuid R)" "site_ok R s" "login C cfg P now st v n ret s = Inr (x, t)"
    and "metadata cfg P = Inr d" "fernet cfg = Inr k" "unseal C k (seal C k v) = Some v" "now' \<le> now + minutes 10"
    and "client_form cfg = Inr form" "exchange P code v form = Some (JObj tokens)"
    and "decode_id P d (dget_or tokens ''id_token'' (JStr [])) = Some c" "cl_nonce c = n"
    and "decode_access P d (dget_or tokens ''access_token'' (JStr [])) = Some a" "cl_sub a = cl_sub c"
    and "claimed_workspace c = Some w" "find_identity (the (oidc_issuer cfg)) (cl_sub c) s = Some u" "iu_active u"
    and "w \<in> snd (entitlements u s)" "sha256 C raw \<notin> bs_token ` set (sessions s)"
  shows "\<exists>age t'. callback R C cfg P now' code st raw t = (Inr (ret, age), t') \<and>
    (\<forall>now'' < session_expiry cfg now' c. \<exists>p. fst (session_principal C now'' raw t') = Some p \<and>
       pr_subject p = cl_sub c \<and> pr_issuer p = the (oidc_issuer cfg) \<and> pr_ws p = w)"
  by (rule login_completes [OF assms])

text \<open>
  Replacing a group by SCIM is exact: its members are the requested ones, all of them known users, the
  members of the other groups stay, and every user who was or becomes a member has to sign in again while
  no other session ends.
\<close>

theorem replaced_groups_are_exact:
  assumes "replace_group now i p s = Inr (g, t)"
  shows "members_of i t = set (sg_members p) \<and> members_of i t \<subseteq> iu_id ` set (users t) \<and>
    (\<forall>j. j \<noteq> i \<longrightarrow> members_of j t = members_of j s) \<and>
    (\<forall>b \<in> set (sessions t). bs_user b \<in> members_of i s \<union> members_of i t \<longrightarrow> bs_revoked b \<noteq> None) \<and>
    filter (\<lambda>b. bs_user b \<notin> members_of i s \<union> members_of i t) (sessions t) =
      filter (\<lambda>b. bs_user b \<notin> members_of i s \<union> members_of i t) (sessions s)"
proof -
  from assms obtain as u where
    u: "replace_members i (sg_members p) (s\<lparr>groups := row_modify ig_id i (\<lambda>_. g) (groups s)\<rparr>) = Inr (as, u)"
    and t: "t = revoke_all now as u" by (rule replace_group_cases)
  note r = replace_members_cases [OF u]
  have ms: "group_members t = filter (\<lambda>m. gm_group m \<noteq> i) (group_members s) @
      map (\<lambda>j. \<lparr>gm_group = i, gm_user = j\<rparr>) (remdups (sg_members p))"
    by (simp add: t revoke_all_def r(3))
  have "{m \<in> set (group_members t). gm_group m = i} = (\<lambda>j. \<lparr>gm_group = i, gm_user = j\<rparr>) ` set (sg_members p)"
    by (auto simp: ms)
  then have mine: "members_of i t = set (sg_members p)" by (simp add: members_of_def image_image)
  have others: "members_of j t = members_of j s" if "j \<noteq> i" for j
    using that by (auto simp: members_of_def ms)
  have as: "as = members_of i s \<union> members_of i t" unfolding mine using r(1) by (simp add: members_of_def)
  have us: "users t = users s" by (simp add: t r(3))
  have "filter (\<lambda>b. bs_user b \<notin> as) (sessions t) = filter (\<lambda>b. bs_user b \<notin> as) (sessions s)"
    unfolding t revoke_all_def r(3)
    by (simp, rule filter_update_rows_disjoint) (auto simp: revoke_at_def)
  moreover have "\<forall>b \<in> set (sessions t). bs_user b \<in> as \<longrightarrow> bs_revoked b \<noteq> None"
    unfolding t using revoked_users by blast
  ultimately show ?thesis using mine others r(2) us unfolding as by simp
qed

lemma concat_pages: "concat (map (\<lambda>k. page xs (k * n + 1) n) [0..<m]) = take (m * n) xs"
proof (induction m)
  case 0
  then show ?case by simp
next
  case (Suc m)
  then show ?case by (simp add: page_def take_add add.commute [of n])
qed

text \<open>
  The pages of a SCIM listing are the listing: asked for one page after the other, a client gets every
  user that passes the filter once, in the order of the user names, and every page tells the true total.
\<close>

theorem scim_pages_cover_the_users:
  assumes "scim_filter e ''userName'' = Inr f" "length (users s) \<le> m * n"
  shows "\<exists>rows. mset rows = filter_mset (\<lambda>u. f \<in> {None, Some (iu_name u)}) (mset (users s)) \<and>
    sorted (map iu_name rows) \<and>
    (\<forall>start k. list_users e start k s = Inr (length rows, page rows start k)) \<and>
    concat (map (\<lambda>k. snd (projr (list_users e (k * n + 1) n s))) [0..<m]) = rows"
proof -
  define rows where "rows = filter (\<lambda>u. case f of None \<Rightarrow> True | Some x \<Rightarrow> iu_name u = x) (sort_key iu_name (users s))"
  have pages: "list_users e start k s = Inr (length rows, page rows start k)" for start k
    using assms(1) by (simp add: list_users_def rows_def Let_def)
  have "length rows \<le> length (users s)"
    unfolding rows_def by (metis length_filter_le length_sort)
  then have "concat (map (\<lambda>k. snd (projr (list_users e (k * n + 1) n s))) [0..<m]) = rows"
    using assms(2) unfolding pages by (simp add: concat_pages del: add_Suc_right One_nat_def)
  moreover have eq: "(\<lambda>u. case f of None \<Rightarrow> True | Some x \<Rightarrow> iu_name u = x) = (\<lambda>u. f \<in> {None, Some (iu_name u)})"
    by (cases f) auto
  have "mset rows = filter_mset (\<lambda>u. f \<in> {None, Some (iu_name u)}) (mset (users s))"
    unfolding rows_def eq by simp
  moreover have "sorted (map iu_name rows)" unfolding rows_def by (rule sorted_filter) simp
  ultimately show ?thesis using pages by blast
qed

section \<open>What the code does against its intent\<close>

text \<open>
  A patch that deactivates a user with the string \<open>"False"\<close>, as some providers send it, activates him:
  the value is converted with \<open>bool\<close>.
\<close>

lemma false_strings_activate:
  "patch_user_row R (PatchReplace, PathActive, JStr ''False'') u = Inr (u\<lparr>iu_active := True\<rparr>)"
  by (simp add: patch_user_row_def)

text \<open>
  A patch of a group that removes its members and then adds one puts the removed ones back, because the
  users affected so far are taken for the present members.
\<close>

lemma removed_members_return:
  assumes "members_of (ig_id g) s \<subseteq> iu_id ` set (users s)" "i \<in> iu_id ` set (users s)" "i \<noteq> []" "length i \<le> 36"
  shows "\<exists>as t. fold_res (patch_group_row R)
      [(PatchRemove, GroupMembers, JNull), (PatchAdd, GroupMembers, JList [JObj [(''value'', JStr i)]])]
      (g, members_of (ig_id g) s, s) = Inr (g, as, t) \<and>
    members_of (ig_id g) t = insert i (members_of (ig_id g) s)"
proof -
  have fin: "finite (members_of (ig_id g) s)" by (simp add: members_of_def)
  let ?s1 = "s\<lparr>group_members := filter (\<lambda>m. gm_group m \<noteq> ig_id g) (group_members s)\<rparr>"
  let ?new = "remdups (sorted_list_of_set (members_of (ig_id g) s) @ [i])"
  let ?s2 = "?s1\<lparr>group_members := filter (\<lambda>m. gm_group m \<noteq> ig_id g) (group_members ?s1) @
    map (\<lambda>j. \<lparr>gm_group = ig_id g, gm_user = j\<rparr>) ?new\<rparr>"
  have first: "patch_group_row R (PatchRemove, GroupMembers, JNull) (g, members_of (ig_id g) s, s) =
      Inr (g, members_of (ig_id g) s, ?s1)"
    by (simp add: patch_group_row_def patch_items_def replace_members_def)
  have "\<exists>as. patch_group_row R (PatchAdd, GroupMembers, JList [JObj [(''value'', JStr i)]])
      (g, members_of (ig_id g) s, ?s1) = Inr (g, as, ?s2)"
    using assms fin by (simp add: patch_group_row_def patch_items_def py_iter_def member_of_def dget_def replace_members_def)
  then obtain as where second: "patch_group_row R (PatchAdd, GroupMembers, JList [JObj [(''value'', JStr i)]])
      (g, members_of (ig_id g) s, ?s1) = Inr (g, as, ?s2)" ..
  have "{m \<in> set (group_members ?s2). gm_group m = ig_id g} = (\<lambda>j. \<lparr>gm_group = ig_id g, gm_user = j\<rparr>) ` set ?new"
    by auto
  then have "members_of (ig_id g) ?s2 = set ?new" unfolding members_of_def [of "ig_id g" ?s2] by (simp add: image_image)
  with first second fin show ?thesis by (intro exI [of _ as] exI [of _ ?s2]) (simp add: insert_commute)
qed

text \<open>A callback whose id token is refused leaves its state unused: it is rolled back.\<close>

lemma refused_tokens_leave_the_login:
  assumes "metadata cfg P = Inr d" "pending_login C now st s = Inr l" "fernet cfg = Inr k"
    and "unseal C k (ol_verifier l) = Some v" "client_form cfg = Inr form" "exchange P code v form = Some (JObj tokens)"
    and "decode_id P d (dget_or tokens ''id_token'' (JStr [])) = None"
  shows "callback R C cfg P now code st raw s = (Inl (HTTPException 401 ''invalid_id_token''), s)"
  using assms by (simp add: callback_def Let_def as_dict_def open_session_def id_claims_def)

section \<open>A small site\<close>

definition plain_crypto :: crypto where
  "plain_crypto = \<lparr>sha256 = (\<lambda>x. x), scrypt = (\<lambda>x y. x @ y), seal = (\<lambda>k x. x), unseal = (\<lambda>k x. Some x)\<rparr>"

definition office_settings :: settings where
  "office_settings = \<lparr>oidc_issuer = Some ''https://idp'', oidc_audience = Some ''recordlane'', oidc_client_id = Some ''web'',
     client_secret_file = None, client_secret = None, authorization_url = None, token_url = None, jwks_url = None,
     end_session_url = None, auto_provision = False, session_secret = Some ''key'', session_ttl = 28800, demo_mode = False,
     demo_reverse_proxy = False, postgresql = False, scim_token_file = None, scim_token = None\<rparr>"

definition office_claims :: "string \<Rightarrow> claims" where
  "office_claims who = \<lparr>cl_iss = ''https://idp'', cl_sub = who, cl_exp = 100, cl_nonce = ''nonce'', cl_workspace = OneWorkspace ''ops'',
     cl_roles = [''steward'', ''auditor''], cl_client_roles = (\<lambda>_. []), cl_user_name = None, cl_display = None\<rparr>"

definition office_metadata :: dict where
  "office_metadata = [(''issuer'', JStr ''https://idp''), (''authorization_endpoint'', JStr ''a''), (''token_endpoint'', JStr ''t''),
     (''jwks_uri'', JStr ''j'')]"

text \<open>A provider that answers every code with tokens for one subject.\<close>

definition office_provider :: "string \<Rightarrow> provider" where
  "office_provider who = \<lparr>discovery = Some (JObj office_metadata), decode_access = (\<lambda>_ _. Some (office_claims who)),
     decode_id = (\<lambda>_ _. Some (office_claims who)), exchange = (\<lambda>_ _ _. Some (JObj []))\<rparr>"

definition office_user :: "ident \<Rightarrow> string \<Rightarrow> bool \<Rightarrow> identity_user" where
  "office_user i who active = \<lparr>iu_id = i, iu_issuer = ''https://idp'', iu_subject = who, iu_external = Some who, iu_name = who,
     iu_display = None, iu_active = active, iu_roles = [''steward''], iu_workspaces = [''ops''], iu_version = 1, iu_updated = 0\<rparr>"

definition old_session :: browser_session where
  "old_session = \<lparr>bs_id = ''u4'', bs_token = ''old'', bs_user = ''u2'', bs_issuer = ''https://idp'', bs_ws = ''ops'',
     bs_roles = [''steward''], bs_hint = None, bs_expires = 10, bs_revoked = Some 3, bs_seen = 0\<rparr>"

definition office_group :: identity_group where
  "office_group = \<lparr>ig_id = ''u5'', ig_issuer = ''https://idp'', ig_external = ''g'', ig_name = ''Group'', ig_roles = [], ig_workspaces = [],
     ig_version = 1, ig_updated = 0\<rparr>"

definition office_account :: service_account where
  "office_account = \<lparr>sa_id = ''u7'', sa_ws = ''w1'', sa_name = ''etl'', sa_prefix = ''abc'', sa_verifier = ''v'', sa_salt = ''00'',
     sa_version = 1, sa_roles = [''read_only''], sa_scopes = [''read''], sa_expires = 1000, sa_revoked = None, sa_by = ''ana'',
     sa_used = None\<rparr>"

definition office_core :: db where
  "office_core = desk_db\<lparr>workspaces := [\<lparr>ws_id = ''w1'', ws_slug = ''ops'', ws_name = ''Operations''\<rparr>], ticks := Suc (ticks desk_db)\<rparr>"

definition office :: site where
  "office = \<lparr>core = office_core, users = [office_user ''u1'' ''ana'' True, office_user ''u2'' ''bob'' False], groups = [office_group],
     group_members = [\<lparr>gm_group = ''u5'', gm_user = ''u2''\<rparr>], sessions = [old_session], logins = [], accounts = [office_account]\<rparr>"

definition boss :: principal where
  "boss = \<lparr>pr_subject = ''ana'', pr_issuer = ''https://idp'', pr_ws = ''ops'', pr_roles = [''administrator''], pr_scopes = None\<rparr>"

definition long_secret :: string where
  "long_secret = replicate 32 (CHR ''s'')"

lemma office_ok: "site_ok ascii_runtime office"
proof -
  have "sound ascii_runtime office_core" using sound_workspaces [OF desk_sound office_core_def] by blast
  moreover have "drawn ascii_runtime office_core i" if "drawn ascii_runtime desk_db i" for i
    by (rule drawn_mono [OF that]) (simp add: office_core_def)
  ultimately show ?thesis
    using desk_ids
    by (simp add: site_ok_def users_ok_def sessions_ok_def logins_ok_def accounts_ok_def office_def office_user_def
        old_session_def office_account_def)
qed

lemma office_workspaces: "workspaces (core office) = [\<lparr>ws_id = ''w1'', ws_slug = ''ops'', ws_name = ''Operations''\<rparr>]"
  by (simp add: office_def office_core_def)

lemma office_metadata_read: "metadata office_settings (office_provider who) = Inr office_metadata"
  by (simp add: metadata_def office_settings_def office_provider_def office_metadata_def truthy_str_def as_dict_def dget_def
      override_key_def dkeys_def Let_def)

lemma office_login:
  "\<exists>x t. login plain_crypto office_settings (office_provider ''ana'') 5 ''state'' ''verifier'' ''nonce'' ''/'' office = Inr (x, t)"
  by (simp add: login_def office_metadata_read local_path_def fernet_def) (simp add: office_settings_def truthy_str_def office_def)

lemma office_facts:
  "fernet office_settings = Inr ''key''" "unseal plain_crypto ''key'' (seal plain_crypto ''key'' ''verifier'') = Some ''verifier''"
  "(6 :: int) \<le> 5 + minutes 10" "client_form office_settings = Inr None"
  "exchange (office_provider who) ''code'' ''verifier'' None = Some (JObj [])"
  "decode_id (office_provider who) d j = Some (office_claims who)" "cl_nonce (office_claims who) = ''nonce''"
  "decode_access (office_provider who) d j = Some (office_claims who)" "cl_sub (office_claims who) = cl_sub (office_claims who)"
  "claimed_workspace (office_claims who) = Some ''ops''"
  "find_identity (the (oidc_issuer office_settings)) (cl_sub (office_claims ''ana'')) office = Some (office_user ''u1'' ''ana'' True)"
  "iu_active (office_user ''u1'' ''ana'' True)" "''ops'' \<in> snd (entitlements (office_user ''u1'' ''ana'' True) office)"
  "sha256 plain_crypto ''cookie'' \<notin> bs_token ` set (sessions office)"
  by (simp_all add: fernet_def office_settings_def plain_crypto_def minutes_def client_form_def office_provider_def office_claims_def
      claimed_workspace_def truthy_str_def find_identity_def office_def office_user_def entitlements_def Let_def old_session_def)

lemma office_sign_in:
  "\<exists>x t age u. login plain_crypto office_settings (office_provider ''ana'') 5 ''state'' ''verifier'' ''nonce'' ''/'' office = Inr (x, t) \<and>
     site_ok ascii_runtime t \<and>
     callback ascii_runtime plain_crypto office_settings (office_provider ''ana'') 6 ''code'' ''state'' ''cookie'' t = (Inr (''/'', age), u)"
proof -
  obtain x t where l: "login plain_crypto office_settings (office_provider ''ana'') 5 ''state'' ''verifier'' ''nonce'' ''/'' office = Inr (x, t)"
    using office_login by blast
  from login_completes [OF ascii_uuid office_ok l office_metadata_read office_facts(1-6) office_facts(7) office_facts(8-14)]
  show ?thesis using l login_ok [OF office_ok l] by blast
qed

section \<open>Witnesses\<close>

text \<open>Bob, who is deactivated, tries his old cookie after Ana started a login.\<close>

theorem every_run_keeps_the_site_sound_witness:
  "\<exists>x t. login plain_crypto office_settings (office_provider ''ana'') 5 ''state'' ''verifier'' ''nonce'' ''/'' office = Inr (x, t) \<and>
     site_ok ascii_runtime t \<and> upholds office t"
proof -
  obtain x t where l: "login plain_crypto office_settings (office_provider ''ana'') 5 ''state'' ''verifier'' ''nonce'' ''/'' office = Inr (x, t)"
    using office_login by blast
  have "(site_step ascii_runtime plain_crypto)\<^sup>*\<^sup>* office t" by (rule r_into_rtranclp) (rule site_step.StartLogin [OF l])
  from every_run_keeps_the_site_sound [OF ascii_uuid ascii_clock this office_ok] l show ?thesis by blast
qed

theorem deprovisioned_users_are_locked_out_witness:
  "session_principal plain_crypto 7 ''old'' office = (None, office)"
proof -
  have bob: "office_user ''u2'' ''bob'' False \<in> set (users office)" "old_session \<in> set (sessions office)"
    by (simp_all add: office_def)
  have u: "\<not> iu_active (office_user ''u2'' ''bob'' False)"
    "iu_issuer (office_user ''u2'' ''bob'' False) \<noteq> ''recordlane:service-account''"
    "iu_issuer (office_user ''u2'' ''bob'' False) \<noteq> ''recordlane:loopback-demo''" by (simp_all add: office_user_def)
  show ?thesis
    using deprovisioned_users_are_locked_out [where C = plain_crypto and raw = "''old''" and now = 7 and v = office,
        OF ascii_uuid ascii_clock office_ok bob(1) u] bob(2)
    by (auto simp: old_session_def office_user_def plain_crypto_def)
qed

theorem logins_are_used_once_witness:
  "\<exists>t u age e. callback ascii_runtime plain_crypto office_settings (office_provider ''ana'') 6 ''code'' ''state'' ''cookie'' t = (Inr (''/'', age), u) \<and>
     callback ascii_runtime plain_crypto office_settings (office_provider ''ana'') 7 ''code'' ''state'' ''thief'' u = (Inl e, u)"
proof -
  obtain x t age u where t: "site_ok ascii_runtime t"
    "callback ascii_runtime plain_crypto office_settings (office_provider ''ana'') 6 ''code'' ''state'' ''cookie'' t = (Inr (''/'', age), u)"
    using office_sign_in by blast
  from logins_are_used_once [where raw' = "''thief''" and cfg' = office_settings and P' = "office_provider ''ana''" and
      now' = 7 and code' = "''code''", OF ascii_uuid ascii_clock t rtranclp.rtrancl_refl] t(2)
  show ?thesis by blast
qed

theorem sessions_carry_only_what_is_granted_witness:
  "\<exists>t u age b. callback ascii_runtime plain_crypto office_settings (office_provider ''ana'') 6 ''code'' ''state'' ''cookie'' t = (Inr (''/'', age), u) \<and>
     sessions u = sessions t @ [b] \<and> bs_expires b \<le> 100 * 1000000"
proof -
  obtain x t age u where t: "site_ok ascii_runtime t"
    "callback ascii_runtime plain_crypto office_settings (office_provider ''ana'') 6 ''code'' ''state'' ''cookie'' t = (Inr (''/'', age), u)"
    using office_sign_in by blast
  from sessions_carry_only_what_is_granted [OF ascii_uuid t] obtain b d y c where
    "sessions u = sessions t @ [b]" "decode_id (office_provider ''ana'') d y = Some c" "bs_expires b \<le> cl_exp c * 1000000" by blast
  moreover from this have "cl_exp c = 100" by (simp add: office_provider_def) (auto simp: office_claims_def)
  ultimately show ?thesis using t(2) by fastforce
qed

theorem started_logins_complete_witness:
  "\<exists>x t age u. login plain_crypto office_settings (office_provider ''ana'') 5 ''state'' ''verifier'' ''nonce'' ''/'' office = Inr (x, t) \<and>
     callback ascii_runtime plain_crypto office_settings (office_provider ''ana'') 6 ''code'' ''state'' ''cookie'' t = (Inr (''/'', age), u)"
proof -
  obtain x t where l: "login plain_crypto office_settings (office_provider ''ana'') 5 ''state'' ''verifier'' ''nonce'' ''/'' office = Inr (x, t)"
    using office_login by blast
  from started_logins_complete [OF ascii_uuid office_ok l office_metadata_read office_facts(1-14)] l
  show ?thesis by blast
qed

lemma boss_administers: "administer boss (core office) = Inr \<lparr>wid = ''w1'', subject = ''ana'', roles = [''administrator'']\<rparr>"
  by (simp add: administer_def open_service_def office_workspaces allows_def permissions_of_def role_permissions_def boss_def)

lemma office_issuable: "w \<in> set (workspaces (core office)) \<Longrightarrow> issuable (ws_slug w) ''def'' long_secret"
  by (simp add: office_workspaces issuable_def long_secret_def)

theorem issued_credentials_authenticate_witness:
  "\<exists>a cred t. create_account ascii_runtime plain_crypto 0 boss ''sync'' [''read_only''] [''read''] 30 ''def'' long_secret ''01'' office
       = Inr ((a, cred), t) \<and>
     fst (service_principal plain_crypto office_settings 5 cred t) = Some (account_principal a (sa_ws a))"
proof -
  have "\<exists>a cred t. create_account ascii_runtime plain_crypto 0 boss ''sync'' [''read_only''] [''read''] 30 ''def'' long_secret ''01'' office
       = Inr ((a, cred), t)"
    by (simp add: create_account_def boss_administers permissions_of_def role_permissions_def known_permissions_def Let_def)
      (simp add: office_def office_account_def)
  then obtain a cred t where c: "create_account ascii_runtime plain_crypto 0 boss ''sync'' [''read_only''] [''read''] 30 ''def'' long_secret ''01'' office
       = Inr ((a, cred), t)" by blast
  have "\<not> postgresql office_settings" "(5 :: int) < 0 + days 30" by (simp_all add: office_settings_def days_def)
  from issued_credentials_authenticate [OF ascii_uuid ascii_clock office_ok this(1) _ _ c office_issuable this(2)] c
  show ?thesis by (auto simp: office_workspaces)
qed

theorem rotation_replaces_the_credential_witness:
  "\<exists>a cred t. rotate_account ascii_runtime plain_crypto boss ''u7'' ''def'' long_secret ''01'' office = Inr ((a, cred), t) \<and>
     service_principal plain_crypto office_settings 5 (credential ''ops'' ''abc'' long_secret) t = (None, t)"
proof -
  have "\<exists>a cred t. rotate_account ascii_runtime plain_crypto boss ''u7'' ''def'' long_secret ''01'' office = Inr ((a, cred), t)"
    by (simp add: rotate_account_def boss_administers find_account_def Let_def) (simp add: office_def office_account_def)
  then obtain a cred t where r: "rotate_account ascii_runtime plain_crypto boss ''u7'' ''def'' long_secret ''01'' office = Inr ((a, cred), t)"
    by blast
  have acc: "office_account \<in> set (accounts office)" "sa_id office_account = ''u7''" "sa_prefix office_account \<noteq> ''def''"
    by (simp_all add: office_def office_account_def)
  have "parse_credential (credential ''ops'' ''abc'' long_secret) = Some (''ops'', sa_prefix office_account, long_secret)"
    using parse_issued [of "''ops''" "''abc''" long_secret] by (simp add: issuable_def long_secret_def office_account_def)
  with rotation_replaces_the_credential [OF ascii_clock office_ok _ _ r acc office_issuable] r
  show ?thesis by (auto simp: office_workspaces)
qed

theorem replaced_groups_are_exact_witness:
  "\<exists>g t. replace_group 9 ''u5'' \<lparr>sg_external = ''g'', sg_name = ''Group'', sg_members = [''u1''], sg_roles = [], sg_workspaces = []\<rparr> office
      = Inr (g, t) \<and> members_of ''u5'' t = {''u1''}"
proof -
  let ?p = "\<lparr>sg_external = ''g'', sg_name = ''Group'', sg_members = [''u1''], sg_roles = [], sg_workspaces = []\<rparr>"
  have "\<exists>g t. replace_group 9 ''u5'' ?p office = Inr (g, t)"
    by (simp add: replace_group_def get_group_def row_get_def replace_members_def group_fits_def replaced_group_def Let_def)
      (simp add: office_def office_user_def office_group_def)
  then obtain g t where r: "replace_group 9 ''u5'' ?p office = Inr (g, t)" by blast
  from replaced_groups_are_exact [OF r] r show ?thesis by auto
qed

theorem scim_pages_cover_the_users_witness:
  "\<exists>rows. length rows = 2 \<and> concat (map (\<lambda>k. snd (projr (list_users None (k * 1 + 1) 1 office))) [0..<2]) = rows"
proof -
  have "scim_filter None ''userName'' = Inr None" "length (users office) \<le> 2 * 1"
    by (simp_all add: scim_filter_def truthy_str_def office_def)
  from scim_pages_cover_the_users [OF this] obtain rows where
    r: "mset rows = filter_mset (\<lambda>u. None \<in> {None, Some (iu_name u)}) (mset (users office))"
    "concat (map (\<lambda>k. snd (projr (list_users None (k * 1 + 1) 1 office))) [0..<2]) = rows" by blast
  have "size (mset rows) = 2" unfolding r(1) by (simp add: office_def)
  with r(2) show ?thesis by auto
qed

end
