(* ===== verification/Boundary.thy ===== *)
theory Boundary
  imports Bundle
begin

text \<open>
  The sources of an installation over time. Whatever mixture of creation, replacement, connection
  tests and bundle imports runs, every source stays within the boundary that \<open>_validate_source\<close> of
  api/routes.py draws, and its key stays its own.
\<close>

section \<open>Imports keep the boundary\<close>

definition source_ids :: "runtime \<Rightarrow> db \<Rightarrow> bool" where
  "source_ids R s \<longleftrightarrow> distinct (map sc_id (sources s)) \<and> (\<forall>c \<in> set (sources s). \<exists>k < ticks s. sc_id c = uuid R k)"

definition sources_sound :: "runtime \<Rightarrow> parsers \<Rightarrow> db \<Rightarrow> bool" where
  "sources_sound R U s \<longleftrightarrow> sources_ok R U s \<and> source_ids R s"

lemma source_ids_later:
  "source_ids R s \<Longrightarrow> map sc_id (sources t) = map sc_id (sources s) \<Longrightarrow> ticks s \<le> ticks t \<Longrightarrow> source_ids R t"
proof -
  assume s: "source_ids R s" and m: "map sc_id (sources t) = map sc_id (sources s)" and le: "ticks s \<le> ticks t"
  have "sc_id ` set (sources t) = sc_id ` set (sources s)" using arg_cong [OF m, of set] by simp
  then have "\<exists>d \<in> set (sources s). sc_id c = sc_id d" if "c \<in> set (sources t)" for c using that by blast
  with s le m show ?thesis unfolding source_ids_def by (metis less_le_trans)
qed

lemma source_ids_add:
  assumes "source_ids R s" "inj (uuid R)" "sources t = row_add (new_source R sv f s) (sources s)" "ticks s < ticks t"
  shows "source_ids R t"
proof -
  have id: "sc_id (new_source R sv f s) = uuid R (ticks s)" by (simp add: new_source_def next_id_def)
  have "sc_id c \<noteq> uuid R (ticks s)" if "c \<in> set (sources s)" for c
    using assms(1,2) that unfolding source_ids_def by (metis injD less_irrefl)
  then have "uuid R (ticks s) \<notin> sc_id ` set (sources s)" by force
  moreover have "\<exists>k < ticks t. sc_id c = uuid R k" if "c \<in> set (sources t)" for c
    using that assms unfolding source_ids_def by (auto simp: id intro: less_trans)
  ultimately show ?thesis using assms(1,3) by (simp add: source_ids_def id row_add_def)
qed

lemma row_modify_ids:
  "(\<And>c. sc_id (f c) = sc_id c) \<Longrightarrow> map sc_id (row_modify sc_id i f cs) = map sc_id cs"
  by (induction cs) (simp_all add: row_modify_def)

lemma check_bundle_validates:
  assumes "check_bundle R U spec = Inr (ds, forms, docs)" "f \<in> set forms"
  shows "within_boundary R U f"
proof -
  from assms(1) obtain vs where "map_res (validate_source R U) forms = Inr vs"
    by (auto simp: check_bundle_def bind_res_Inr)
  from map_res_mem' [OF this assms(2)] obtain v where "validate_source R U f = Inr v" by blast
  then show ?thesis by (rule validated_within_boundary)
qed

lemma import_source_sound:
  assumes "import_source R sv replace f (n, s) = Inr (m, t)" "within_boundary R U f" "sources_sound R U s" "inj (uuid R)"
  shows "sources_sound R U t"
proof (cases "find_source sv (sf_key f) s")
  case None
  with assms(1) have t: "t = snd (add_source R sv f s)" by (simp add: import_source_def)
  then have rows: "sources t = row_add (new_source R sv f s) (sources s)" "ticks t = Suc (ticks s)"
    by (simp_all add: add_source_def Let_def)
  from assms(3) have ok: "sources_ok R U s" "source_ids R s" by (simp_all only: sources_sound_def)
  from sources_ok_add [OF ok(1) assms(2) None rows(1)] source_ids_add [OF ok(2) assms(4) rows(1)] rows(2)
  show ?thesis by (simp only: sources_sound_def)
next
  case (Some c)
  from assms(3) have ok: "sources_ok R U s" "source_ids R s" by (simp_all only: sources_sound_def)
  from find_source_Some [OF Some] have c: "c \<in> set (sources s)" "sc_ws c = wid sv" "sc_key c = sf_key f" by simp_all
  show ?thesis
  proof (cases "same_form f c")
    case True
    with assms Some show ?thesis by (simp add: import_source_def)
  next
    case False
    with assms(1) Some have t: "t = s\<lparr>sources := row_modify sc_id (sc_id c) (put_form f) (sources s)\<rparr>"
      by (auto simp: import_source_def res_elim)
    then have rows: "sources t = row_modify sc_id (sc_id c) (put_form f) (sources s)" "ticks t = ticks s" by simp_all
    have "sources_ok R U t"
    proof (rule sources_ok_change [OF ok(1) _ c(1) _ _ _ _ rows(1)])
      show "distinct (map sc_id (sources s))" using ok(2) by (simp only: source_ids_def)
      show "within_boundary R U (form_of (put_form f c))" using assms(2) by simp
      fix d assume "d \<in> set (sources s)" "sc_ws d = sc_ws c" "sc_key d = sc_key (put_form f c)"
      then show "sc_id d = sc_id c" using sources_ok_key [OF ok(1) _ c(1)] c(3) by simp
    qed simp_all
    moreover have "source_ids R t"
      by (rule source_ids_later [OF ok(2)]) (simp_all add: rows row_modify_ids)
    ultimately show ?thesis by (simp only: sources_sound_def)
  qed
qed

lemma import_sources_sound:
  assumes "fold_res (import_source R sv replace) forms (n, s) = Inr (m, t)" "sources_sound R U s" "inj (uuid R)"
    and "\<And>f. f \<in> set forms \<Longrightarrow> within_boundary R U f"
  shows "sources_sound R U t"
  using assms
proof (induction forms arbitrary: n s)
  case (Cons f forms)
  from Cons.prems(1) obtain k u where first: "import_source R sv replace f (n, s) = Inr (k, u)"
    and rest: "fold_res (import_source R sv replace) forms (k, u) = Inr (m, t)"
    by (auto simp: bind_res_Inr)
  have "sources_sound R U u"
    using Cons.prems(2-4) by (intro import_source_sound [OF first]) simp_all
  then show ?case using Cons.prems(3,4) by (intro Cons.IH [OF rest]) simp_all
qed simp

lemma create_domain_sources: "create_domain R sv k n m e s = Inr (d, t) \<Longrightarrow> sources t = sources s \<and> ticks s \<le> ticks t"
  by (auto simp: create_domain_def res_elim Let_def audit_frame)

lemma create_config_sources: "create_config R sv doc s = Inr (c, t) \<Longrightarrow> sources t = sources s \<and> ticks s \<le> ticks t"
  by (auto simp: create_config_def res_elim Let_def audit_frame)

lemma import_domain_sources:
  assumes "import_domain R sv replace item (n, s) = Inr (m, t)"
  shows "sources t = sources s \<and> ticks s \<le> ticks t"
proof -
  from assms obtain p d key where "compile_item R item = Inr p" "item_dict item = Inr d"
    "bind_res (dindex d ''key'') as_str = Inr key"
    by (auto simp: import_domain_def bind_res_Inr)
  with assms show ?thesis
    unfolding import_domain_def
    by (cases "find_domain sv key s") (auto simp: res_elim simp del: py_eq.simps split: if_splits dest: create_domain_sources)
qed

lemma import_configuration_sources:
  "import_configuration R sv doc (n, s) = Inr (m, t) \<Longrightarrow> sources t = sources s \<and> ticks s \<le> ticks t"
  by (auto simp: import_configuration_def res_elim simp del: py_eq.simps split: if_splits dest: create_config_sources)

lemma fold_res_sources:
  assumes "fold_res f xs (n, s) = Inr (m, t)"
    and "\<And>x n s m t. f x (n, s) = Inr (m, t) \<Longrightarrow> sources t = sources s \<and> ticks (s :: db) \<le> ticks (t :: db)"
  shows "sources t = sources s \<and> ticks s \<le> ticks t"
  using assms(1)
proof (induction xs arbitrary: n s)
  case (Cons x xs)
  then obtain k u where "f x (n, s) = Inr (k, u)" "fold_res f xs (k, u) = Inr (m, t)" by (auto simp: bind_res_Inr)
  from assms(2) [OF this(1)] Cons.IH [OF this(2)] show ?case by simp
qed simp

lemma sources_sound_later:
  assumes "sources_sound R U s" "sources t = sources s" "ticks s \<le> ticks t"
  shows "sources_sound R U t"
  using assms(1) unfolding sources_sound_def
proof (elim conjE, intro conjI)
  assume "sources_ok R U s" then show "sources_ok R U t" unfolding sources_ok_def assms(2) .
  assume "source_ids R s" then show "source_ids R t" by (rule source_ids_later) (simp_all only: assms(2,3))
qed

lemma catch_bundle_Inr [simp]: "catch_bundle r = Inr v \<longleftrightarrow> r = Inr v"
  by (simp add: catch_bundle_def split: sum.split err.split)

lemma import_bundle_steps:
  assumes "import_bundle R U sv replace bundle s = Inr (n, t)"
  obtains spec ds forms docs n1 s1 n2 s2 s3 where "check_bundle R U spec = Inr (ds, forms, docs)"
    "fold_res (import_domain R sv replace) ds (nothing_imported, s) = Inr (n1, s1)"
    "fold_res (import_source R sv replace) forms (n1, s1) = Inr (n2, s2)"
    "fold_res (import_configuration R sv) docs (n2, s2) = Inr (n, s3)"
    "t = audit R sv ''workspace_bundle.imported'' ''workspace'' (wid sv) (imported_json n) s3"
  using assms unfolding import_bundle_def res_elim catch_bundle_Inr split_paired_Ex prod.case sum.inject prod.inject
  by (elim exE conjE) (rule that, assumption+, simp only:, simp only:)

lemma import_bundle_sound:
  assumes "import_bundle R U sv replace bundle s = Inr (n, t)" "sources_sound R U s" "inj (uuid R)"
  shows "sources_sound R U t"
proof -
  from assms(1) obtain spec ds forms docs n1 s1 n2 s2 s3 where
      checked: "check_bundle R U spec = Inr (ds, forms, docs)"
    and d: "fold_res (import_domain R sv replace) ds (nothing_imported, s) = Inr (n1, s1)"
    and c: "fold_res (import_source R sv replace) forms (n1, s1) = Inr (n2, s2)"
    and f: "fold_res (import_configuration R sv) docs (n2, s2) = Inr (n, s3)"
    and t: "t = audit R sv ''workspace_bundle.imported'' ''workspace'' (wid sv) (imported_json n) s3"
    by (rule import_bundle_steps)
  have "sources s1 = sources s \<and> ticks s \<le> ticks s1"
    by (rule fold_res_sources [OF d]) (rule import_domain_sources)
  then have "sources_sound R U s1" by (elim conjE) (rule sources_sound_later [OF assms(2)])
  then have s2: "sources_sound R U s2"
    by (rule import_sources_sound [OF c _ assms(3) check_bundle_validates [OF checked]])
  have "sources s3 = sources s2 \<and> ticks s2 \<le> ticks s3"
    by (rule fold_res_sources [OF f]) (rule import_configuration_sources)
  then have "sources_sound R U s3" by (elim conjE) (rule sources_sound_later [OF s2])
  then show ?thesis unfolding t by (rule sources_sound_later) (simp_all add: audit_frame)
qed


section \<open>Every run\<close>

text \<open>
  What any other operation leaves of the sources: it may move a checkpoint or the time of the last
  ingestion, but not what the source was configured to be.
\<close>

definition configured :: "source_row \<Rightarrow> ident \<times> ident \<times> source_form" where
  "configured c = (sc_id c, sc_ws c, form_of c)"

inductive source_run :: "runtime \<Rightarrow> parsers \<Rightarrow> db \<Rightarrow> bool" for R :: runtime and U :: parsers where
  Start: "sources s = [] \<Longrightarrow> source_run R U s"
| Create: "source_run R U s \<Longrightarrow> create_source R U sv f s = Inr (c, t) \<Longrightarrow> source_run R U t"
| Replace: "source_run R U s \<Longrightarrow> replace_source R U sv key f s = Inr (c, t) \<Longrightarrow> source_run R U t"
| Test: "source_run R U s \<Longrightarrow> source_run R U (snd (test_source_connection R probe sv key s))"
| Import: "source_run R U s \<Longrightarrow> import_workspace_bundle R U p target replace bundle s = Inr (n, t) \<Longrightarrow>
    source_run R U t"
| Other: "source_run R U s \<Longrightarrow> map configured (sources t) = map configured (sources s) \<Longrightarrow> ticks s \<le> ticks t \<Longrightarrow>
    source_run R U t"

lemma configured_sound:
  assumes "sources_sound R U s" "map configured (sources t) = map configured (sources s)" "ticks s \<le> ticks t"
  shows "sources_sound R U t"
proof -
  from assms(1) have ok: "sources_ok R U s" "source_ids R s" by (simp_all only: sources_sound_def)
  have "configured ` set (sources t) = configured ` set (sources s)" using arg_cong [OF assms(2), of set] by simp
  then have old: "\<exists>d \<in> set (sources s). configured c = configured d" if "c \<in> set (sources t)" for c using that by blast
  have "sources_ok R U t"
  proof (rule sources_okI)
    fix c assume "c \<in> set (sources t)"
    from old [OF this] obtain d where "d \<in> set (sources s)" "configured c = configured d" by blast
    with sources_ok_boundary [OF ok(1)] show "within_boundary R U (form_of c)" by (simp add: configured_def)
  next
    fix c d assume "c \<in> set (sources t)" "d \<in> set (sources t)" and eq: "sc_ws c = sc_ws d" "sc_key c = sc_key d"
    with old obtain c' d' where c': "c' \<in> set (sources s)" "configured c = configured c'"
      and d': "d' \<in> set (sources s)" "configured d = configured d'" by blast
    then have "sc_ws c' = sc_ws d'" "sc_key c' = sc_key d'" using eq by (auto simp: configured_def form_of_def)
    from sources_ok_key [OF ok(1) c'(1) d'(1) this] c'(2) d'(2) show "sc_id c = sc_id d" by (simp add: configured_def)
  qed
  moreover have "map sc_id (sources t) = map sc_id (sources s)"
    by (rule map_factor [OF assms(2)]) (simp add: configured_def)
  then have "source_ids R t" by (rule source_ids_later [OF ok(2) _ assms(3)])
  ultimately show ?thesis by (simp only: sources_sound_def)
qed

lemma source_run_sound:
  assumes "source_run R U s" "inj (uuid R)"
  shows "sources_sound R U s"
  using assms(1)
proof (induction rule: source_run.induct)
  case (Start s)
  then show ?case by (simp add: sources_sound_def sources_ok_def source_ids_def)
next
  case (Create s sv f c t)
  then have ok: "sources_ok R U s" "source_ids R s" by (simp_all only: sources_sound_def)
  from Create.hyps(2) have rows: "sources t = row_add (new_source R sv f s) (sources s)" "ticks s < ticks t"
    by (auto simp: create_source_def res_elim add_source_def Let_def audit_frame)
  from create_source_ok [OF Create.hyps(2) ok(1)] source_ids_add [OF ok(2) assms(2) rows]
  show ?case by (simp only: sources_sound_def)
next
  case (Replace s sv key f c t)
  then have ok: "sources_ok R U s" "source_ids R s" by (simp_all only: sources_sound_def)
  then have ids: "distinct (map sc_id (sources s))" by (simp only: source_ids_def)
  from Replace.hyps(2) have "map sc_id (sources t) = map sc_id (sources s)" "ticks s \<le> ticks t"
    by (auto simp: replace_source_def res_elim Let_def audit_frame row_modify_ids)
  from replace_source_ok [OF Replace.hyps(2) ok(1) ids] source_ids_later [OF ok(2) this]
  show ?case by (simp only: sources_sound_def)
next
  case (Test s probe sv key)
  then have ok: "sources_ok R U s" "source_ids R s" by (simp_all only: sources_sound_def)
  then have ids: "distinct (map sc_id (sources s))" by (simp only: source_ids_def)
  have "map sc_id (sources (snd (test_source_connection R probe sv key s))) = map sc_id (sources s)"
    "ticks s \<le> ticks (snd (test_source_connection R probe sv key s))"
    by (auto simp: test_source_connection_def audit_frame row_modify_ids split: option.split sum.split)
  from test_source_ok [OF ok(1) ids] source_ids_later [OF ok(2) this] show ?case by (simp only: sources_sound_def)
next
  case (Import s p target replace b n t)
  then obtain sv where "import_bundle R U sv replace b s = Inr (n, t)"
    by (auto simp: import_workspace_bundle_def bind_res_Inr)
  from import_bundle_sound [OF this Import.IH assms(2)] show ?case .
next
  case (Other s t)
  from configured_sound [OF Other.IH Other.hyps(2,3)] show ?case .
qed

section \<open>Guarantees\<close>

text \<open>
  C36. Sources stay within their boundary. After any run of creations, replacements, connection tests
  and bundle imports, in any workspaces and between any other operations, every source has only the
  settings of its kind; a REST or OData URL names a host of its own allow list without credentials and
  is encrypted unless the host is loopback or the source allows private networks; files lie under
  /data, webhook secrets under /run/recordlane; an object URL starts with https:// (its host is not
  checked here), a PostgreSQL source names some secret reference; and no two sources of a workspace
  share a key.
\<close>

theorem sources_stay_within_boundary:
  assumes "source_run R U s" "inj (uuid R)"
  shows "(\<forall>c \<in> set (sources s). within_boundary R U (form_of c)) \<and>
    (\<forall>c \<in> set (sources s). \<forall>d \<in> set (sources s). sc_ws c = sc_ws d \<and> sc_key c = sc_key d \<longrightarrow> sc_id c = sc_id d)"
  using source_run_sound [OF assms] unfolding sources_sound_def sources_ok_def by (rule conjunct1)

lemma example_source_created:
  obtains c t where "create_source ascii_runtime example_parsers (example_service ''w'') (form_of example_source) empty_db = Inr (c, t)"
    "sc_key c = ''vendor-file''" "sources t = [c]"
proof -
  have "case create_source ascii_runtime example_parsers (example_service ''w'') (form_of example_source) empty_db of
      Inr (c, t) \<Rightarrow> sc_key c = ''vendor-file'' \<and> length (sources t) = 1 \<and> sc_key (hd (sources t)) = ''vendor-file''
    | Inl _ \<Rightarrow> False" by code_simp
  then obtain c t where ct: "create_source ascii_runtime example_parsers (example_service ''w'') (form_of example_source) empty_db = Inr (c, t)"
    "sc_key c = ''vendor-file''" by (auto split: sum.splits prod.splits)
  moreover from ct(1) have "sources t = [c]"
    by (auto simp: create_source_def res_elim add_source_def Let_def audit_frame row_add_def empty_db_def)
  ultimately show thesis by (rule that)
qed

theorem sources_stay_within_boundary_witness:
  "\<exists>c t. source_run ascii_runtime example_parsers t \<and> sources t = [c] \<and> sc_key c = ''vendor-file'' \<and>
     within_boundary ascii_runtime example_parsers (form_of c)"
proof -
  obtain c t where ct: "create_source ascii_runtime example_parsers (example_service ''w'') (form_of example_source) empty_db = Inr (c, t)"
    "sc_key c = ''vendor-file''" "sources t = [c]" by (rule example_source_created)
  have "source_run ascii_runtime example_parsers empty_db" by (rule source_run.Start) (simp add: empty_db_def)
  from source_run.Create [OF this ct(1)] have run: "source_run ascii_runtime example_parsers t" .
  from sources_stay_within_boundary [OF run ascii_uuid] ct(3) have "within_boundary ascii_runtime example_parsers (form_of c)" by simp
  with run ct show ?thesis by blast
qed

end
