(* ===== verification/Leases.thy ===== *)
theory Leases
  imports Jobs
begin

text \<open>
  What the durable jobs promise, as a board of leases: a job waits, is held by a worker under a fence,
  or is closed. The workers of jobs/worker.py, with their conditional updates on rows, refine it.
\<close>

section \<open>The board\<close>

datatype phase = Waiting int | Held string int | Closed job_status

record board =
  phases :: "ident \<Rightarrow> phase option"
  grants :: "(string \<times> ident \<times> int) set"
  finished :: "ident list"

definition put_phase :: "ident \<Rightarrow> phase \<Rightarrow> board \<Rightarrow> board" where
  "put_phase i p b = b\<lparr>phases := (phases b)(i \<mapsto> p)\<rparr>"

text \<open>What is done, by whom, to which job and under which fence.\<close>

datatype act = Claimed string ident int | Renewed string ident int | Begun string ident int
  | Committed string ident int | Dropped string ident int | Quiet

text \<open>
  A job that is not closed may be granted to anyone under the next fence. Only the worker that holds a
  granted fence finishes a job, gives it back or gives it up, and each of these acts names the worker
  and the fence it acts under. A late renewal, start or failure does nothing; a claim and a commit always
  do what they say. A job may be posted or withdrawn by others.
\<close>

inductive board_act :: "act \<Rightarrow> board \<Rightarrow> board \<Rightarrow> bool" where
  Post: "(\<And>i. phases b i \<noteq> None \<Longrightarrow> ps i = phases b i) \<Longrightarrow>
    (\<And>i. phases b i = None \<Longrightarrow> ps i = None \<or> (\<exists>n. ps i = Some (Waiting n))) \<Longrightarrow>
    board_act Quiet b (b\<lparr>phases := ps\<rparr>)"
| Grant: "phases b i = Some (Waiting n) \<or> phases b i = Some (Held v n) \<Longrightarrow>
    board_act (Claimed w i (n + 1)) b (put_phase i (Held w (n + 1)) b\<lparr>grants := insert (w, i, n + 1) (grants b)\<rparr>)"
| Withdraw: "phases b i = Some (Waiting n) \<or> phases b i = Some (Held v n) \<Longrightarrow>
    board_act Quiet b (put_phase i (Closed JobCancelled) b)"
| Finish: "(w, i, n) \<in> grants b \<Longrightarrow> phases b i = Some (Held w n) \<Longrightarrow>
    board_act (Committed w i n) b (put_phase i (Closed JobComplete) b\<lparr>finished := finished b @ [i]\<rparr>)"
| GiveBack: "(w, i, n) \<in> grants b \<Longrightarrow> phases b i = Some (Held w n) \<Longrightarrow>
    board_act (Dropped w i n) b (put_phase i (Waiting n) b)"
| GiveUp: "(w, i, n) \<in> grants b \<Longrightarrow> phases b i = Some (Held w n) \<Longrightarrow> l = Dropped w i n \<and> st = JobFailed \<or>
    l = Begun w i n \<and> st \<in> {JobFailed, JobCancelled} \<Longrightarrow> board_act l b (put_phase i (Closed st) b)"
| Stay: "l \<in> {Renewed w i n, Begun w i n, Dropped w i n, Quiet} \<Longrightarrow> board_act l b b"

inductive_cases committedE: "board_act (Committed w i n) b c"

text \<open>On the board a job is finished once, and what is closed stays closed.\<close>

definition board_ok :: "board \<Rightarrow> bool" where
  "board_ok b \<longleftrightarrow> distinct (finished b) \<and> (\<forall>i \<in> set (finished b). phases b i = Some (Closed JobComplete))"

lemma board_act_ok: "board_act l b c \<Longrightarrow> board_ok b \<Longrightarrow> board_ok c"
  by (induction rule: board_act.induct) (auto simp: board_ok_def put_phase_def)

lemma closed_stays: "board_act l b c \<Longrightarrow> phases b i = Some (Closed st) \<Longrightarrow> phases c i = Some (Closed st)"
  by (induction rule: board_act.induct) (auto simp: put_phase_def)

text \<open>A run with its acts.\<close>

inductive path :: "('l \<Rightarrow> 's \<Rightarrow> 's \<Rightarrow> bool) \<Rightarrow> 's \<Rightarrow> 'l list \<Rightarrow> 's \<Rightarrow> bool" for step where
  Here: "path step a [] a"
| Then: "path step a ls b \<Longrightarrow> step l b c \<Longrightarrow> path step a (ls @ [l]) c"

lemma board_path_ok: "path board_act b ls c \<Longrightarrow> board_ok b \<Longrightarrow> board_ok c"
  by (induction rule: path.induct) (auto intro: board_act_ok)

section \<open>The board of a fleet\<close>

definition phase_of :: "job \<Rightarrow> phase" where
  "phase_of j = (if terminal j then Closed (jb_status j)
     else case jb_owner j of None \<Rightarrow> Waiting (jb_lease j) | Some w \<Rightarrow> Held w (jb_lease j))"

definition phases_of :: "job list \<Rightarrow> ident \<Rightarrow> phase option" where
  "phases_of js i = map_option phase_of (row_get jb_id i js)"

definition board_of :: "fleet \<Rightarrow> board" where
  "board_of a = \<lparr>phases = phases_of (jobs (store a)), grants = claims a, finished = commits a\<rparr>"

lemma phases_of_row: "jobs_ok js \<Longrightarrow> j \<in> set js \<Longrightarrow> phases_of js (jb_id j) = Some (phase_of j)"
  using row_get_distinct [of jb_id js j] by (simp add: phases_of_def jobs_ok_def)

lemma row_get_update:
  assumes "\<And>j. jb_id (f j) = jb_id j"
  shows "row_get jb_id k (update_rows (\<lambda>j. jb_id j = i \<and> P j) f js) =
    (if k = i then map_option (\<lambda>j. if P j then f j else j) (row_get jb_id k js) else row_get jb_id k js)"
  by (induction js) (auto simp: row_get_def assms)

lemma phases_of_modify:
  assumes "\<And>j. jb_id (f j) = jb_id j" "row_get jb_id i js = Some j"
  shows "phases_of (row_modify jb_id i f js) = (phases_of js)(i \<mapsto> phase_of (f j))"
  using assms by (auto simp: phases_of_def row_get_modify fun_eq_iff)

lemma phases_of_update:
  assumes "\<And>j. jb_id (f j) = jb_id j" "row_get jb_id i js = Some j" "P j"
  shows "phases_of (update_rows (\<lambda>j. jb_id j = i \<and> P j) f js) = (phases_of js)(i \<mapsto> phase_of (f j))"
  using assms by (auto simp: phases_of_def row_get_update fun_eq_iff)

lemma phases_of_same:
  assumes "\<And>j. jb_id (f j) = jb_id j" "\<And>j. j \<in> set js \<Longrightarrow> P j \<Longrightarrow> phase_of (f j) = phase_of j"
  shows "phases_of (update_rows P f js) = phases_of js"
proof
  show "phases_of (update_rows P f js) i = phases_of js i" for i
    using assms(2) by (induction js) (auto simp: phases_of_def row_get_def assms(1))
qed

lemma phase_of_open:
  assumes "row_ok j" "\<not> terminal j"
  shows "phase_of j = Waiting (jb_lease j) \<or> (\<exists>v. phase_of j = Held v (jb_lease j))"
  using assms by (auto simp: phase_of_def split: option.split)

lemma phase_of_held: "row_ok j \<Longrightarrow> holds w f j \<Longrightarrow> phase_of j = Held w f"
  using holds_running [of j w f] by (auto simp: phase_of_def holds_def terminal_def)

section \<open>Every operation is an act on the board\<close>

text \<open>A row operation that only this row feels.\<close>

lemma board_of_modify:
  assumes "jobs t = row_modify jb_id i f (jobs (store a))" "\<And>j. jb_id (f j) = jb_id j"
    "row_get jb_id i (jobs (store a)) = Some j"
  shows "board_of (a\<lparr>store := t\<rparr>) = put_phase i (phase_of (f j)) (board_of a)"
  by (simp add: board_of_def put_phase_def assms(1) phases_of_modify [OF assms(2,3)])

lemma board_of_update:
  assumes "jobs t = update_rows (\<lambda>j. jb_id j = i \<and> P j) f (jobs (store a))" "\<And>j. jb_id (f j) = jb_id j"
    "row_get jb_id i (jobs (store a)) = Some j" "P j"
  shows "board_of (a\<lparr>store := t\<rparr>) = put_phase i (phase_of (f j)) (board_of a)"
  using phases_of_update [where f = f and P = P, OF assms(2,3,4)]
  by (simp add: board_of_def put_phase_def assms(1))

lemma board_of_same: "jobs t = jobs (store a) \<Longrightarrow> board_of (a\<lparr>store := t\<rparr>) = board_of a"
  by (simp add: board_of_def)

lemma phases_board_of [simp]:
  "phases (board_of a) = phases_of (jobs (store a))" "grants (board_of a) = claims a" "finished (board_of a) = commits a"
  by (simp_all add: board_of_def)

lemma claim_refines:
  assumes "jobs_ok (jobs (store a))" "claim_one w now (store a) = (c, t)"
  shows "(case c of None \<Rightarrow> board_act Quiet (board_of a) (board_of (a\<lparr>store := t\<rparr>))
    | Some (i, f) \<Rightarrow> board_act (Claimed w i f) (board_of a) (board_of (a\<lparr>store := t, claims := insert (w, i, f) (claims a)\<rparr>)))"
proof (cases "next_job now (store a)")
  case None
  with assms(2) show ?thesis by (auto simp: claim_one_def board_act.Stay)
next
  case (Some j)
  note j = next_job_Some [OF Some]
  have row: "row_get jb_id (jb_id j) (jobs (store a)) = Some j"
    using row_get_distinct [of jb_id "jobs (store a)" j] assms(1) j(1) by (simp add: jobs_ok_def)
  have "row_ok j" using assms(1) j(1) by (simp add: jobs_ok_def)
  moreover have "\<not> terminal j" using j(2) by (auto simp: claimable_def terminal_def)
  ultimately have free: "phases (board_of a) (jb_id j) = Some (Waiting (jb_lease j)) \<or>
      (\<exists>v. phases (board_of a) (jb_id j) = Some (Held v (jb_lease j)))"
    using phase_of_open [of j] phases_of_row [OF assms(1) j(1)] by auto
  show ?thesis
  proof (cases "jb_cancel j")
    case True
    then have c: "c = None" and t: "jobs t = row_modify jb_id (jb_id j) (release JobCancelled) (jobs (store a))"
      using assms(2) Some by (auto simp: claim_one_def modify_job_def)
    have "board_of (a\<lparr>store := t\<rparr>) = put_phase (jb_id j) (phase_of (release JobCancelled j)) (board_of a)"
      by (rule board_of_modify [OF t _ row]) (simp add: release_def)
    moreover have "phase_of (release JobCancelled j) = Closed JobCancelled"
      by (simp add: phase_of_def release_def terminal_def)
    ultimately show ?thesis using board_act.Withdraw free by (auto simp: c)
  next
    case False
    then have c: "c = Some (jb_id j, jb_lease j + 1)"
      and t: "jobs t = row_modify jb_id (jb_id j) (take_lease w now) (jobs (store a))"
      using assms(2) Some by (auto simp: claim_one_def modify_job_def)
    have "board_of (a\<lparr>store := t\<rparr>) = put_phase (jb_id j) (phase_of (take_lease w now j)) (board_of a)"
      by (rule board_of_modify [OF t _ row]) (simp add: take_lease_def)
    moreover have "phase_of (take_lease w now j) = Held w (jb_lease j + 1)"
      by (simp add: phase_of_def take_lease_def terminal_def)
    ultimately have "board_of (a\<lparr>store := t, claims := insert (w, jb_id j, jb_lease j + 1) (claims a)\<rparr>) =
        put_phase (jb_id j) (Held w (jb_lease j + 1)) (board_of a)
          \<lparr>grants := insert (w, jb_id j, jb_lease j + 1) (grants (board_of a))\<rparr>"
      by (simp add: board_of_def put_phase_def)
    then show ?thesis using board_act.Grant [of "board_of a" "jb_id j" "jb_lease j" _ w] free by (auto simp: c)
  qed
qed

lemma renew_refines:
  assumes "renew_lease w i f now (store a) = (ok, t)"
  shows "board_of (a\<lparr>store := t\<rparr>) = board_of a"
proof -
  have "jobs t = update_rows (\<lambda>j. jb_id j = i \<and> renewable w f j) (\<lambda>j. j\<lparr>jb_expires := Some (now + lease_time)\<rparr>) (jobs (store a))"
    using assms by (auto simp: renew_lease_def update_job_def)
  then have "phases_of (jobs t) = phases_of (jobs (store a))"
    by (simp only:) (rule phases_of_same, simp_all add: phase_of_def terminal_def split: option.split)
  then show ?thesis by (simp add: board_of_def)
qed

lemma cancel_refines:
  assumes "cancel_job R sv i (store a) = Inr t"
  shows "board_of (a\<lparr>store := t\<rparr>) = board_of a"
proof -
  from assms obtain k where "jobs t = row_modify jb_id k (\<lambda>j. j\<lparr>jb_cancel := True\<rparr>) (jobs (store a))"
    by (auto simp: cancel_job_def res_elim audit_frame modify_job_def)
  then have "phases_of (jobs t) = phases_of (jobs (store a))"
    by (simp only: row_modify_def) (rule phases_of_same, simp_all add: phase_of_def terminal_def split: option.split)
  then show ?thesis by (simp add: board_of_def)
qed

text \<open>What the holder of a fence does to its row.\<close>

lemma held_row:
  assumes "jobs_ok (jobs (store a))" "row_get jb_id i (jobs (store a)) = Some j" "holds w f j"
  shows "phases (board_of a) i = Some (Held w f)"
  using phases_of_row [OF assms(1) row_get_mem [OF assms(2)]] row_get_key [OF assms(2)]
    phase_of_held [OF _ assms(3)] row_get_mem [OF assms(2)] assms(1) by (auto simp: jobs_ok_def)

lemma begin_refines:
  assumes "jobs_ok (jobs (store a))" "(w, i, f) \<in> claims a" "begin_job H w i f (store a) = (b, t)"
  shows "board_act (Begun w i f) (board_of a) (board_of (a\<lparr>store := t\<rparr>))"
proof (cases "row_get jb_id i (jobs (store a))")
  case None
  with assms(3) show ?thesis by (auto simp: begin_job_def board_act.Stay)
next
  case (Some j)
  show ?thesis
  proof (cases "holds w f j")
    case False
    with assms(3) Some show ?thesis by (auto simp: begin_job_def board_act.Stay)
  next
    case True
    note held = held_row [OF assms(1) Some True]
    have "board_act (Begun w i f) (board_of a) (put_phase i (Closed st) (board_of a))" if "st \<in> {JobFailed, JobCancelled}" for st
      using board_act.GiveUp [of w i f "board_of a"] assms(2) held that by simp
    moreover have "board_of (a\<lparr>store := modify_job i (release JobCancelled) (store a)\<rparr>) =
        put_phase i (Closed JobCancelled) (board_of a)"
      using board_of_modify [of "modify_job i (release JobCancelled) (store a)" i "release JobCancelled" a j] Some
      by (simp add: modify_job_def release_def phase_of_def terminal_def)
    moreover have "board_of (a\<lparr>store := modify_job i (\<lambda>j. (release JobFailed j)
          \<lparr>jb_error := Some (''unknown_job_kind:'' @ jb_kind j)\<rparr>) (store a)\<rparr>) = put_phase i (Closed JobFailed) (board_of a)"
      using board_of_modify [of "modify_job i (\<lambda>j. (release JobFailed j)
          \<lparr>jb_error := Some (''unknown_job_kind:'' @ jb_kind j)\<rparr>) (store a)" i "\<lambda>j. (release JobFailed j)
          \<lparr>jb_error := Some (''unknown_job_kind:'' @ jb_kind j)\<rparr>" a j] Some
      by (simp add: modify_job_def release_def phase_of_def terminal_def)
    moreover have "board_act (Begun w i f) (board_of a) (board_of (a\<lparr>store := store a\<rparr>))" by (simp add: board_act.Stay)
    ultimately show ?thesis
      using assms(3) Some True by (auto simp: begin_job_def split: if_splits option.splits)
  qed
qed

lemma fail_refines:
  assumes "jobs_ok (jobs (store a))" "(w, i, f) \<in> claims a"
  shows "board_act (Dropped w i f) (board_of a) (board_of (a\<lparr>store := fail_job w i f e (store a)\<rparr>))"
proof (cases "row_get jb_id i (jobs (store a))")
  case None
  then show ?thesis by (simp add: fail_job_def board_act.Stay)
next
  case (Some j)
  show ?thesis
  proof (cases "holds w f j")
    case False
    with Some show ?thesis by (simp add: fail_job_def board_act.Stay)
  next
    case True
    note held = held_row [OF assms(1) Some True]
    have lease: "jb_lease j = f" using True by (simp add: holds_def)
    have "board_of (a\<lparr>store := fail_job w i f e (store a)\<rparr>) = put_phase i (phase_of (failed e j)) (board_of a)"
      using board_of_modify [of "modify_job i (failed e) (store a)" i "failed e" a j] Some True
      by (simp add: fail_job_def modify_job_def failed_def release_def)
    moreover have "phase_of (failed e j) = (if jb_attempts j \<ge> max_attempts then Closed JobFailed else Waiting f)"
      by (simp add: phase_of_def failed_def release_def terminal_def lease)
    ultimately show ?thesis
      using board_act.GiveUp [of w i f "board_of a" "Dropped w i f" JobFailed] board_act.GiveBack [of w i f "board_of a"] assms(2) held
      by simp
  qed
qed

lemma enqueue_refines:
  assumes "jobs t = jobs (store a) @ new" "jobs_ok (jobs t)" "\<forall>j \<in> set new. jb_status j = JobQueued"
  shows "board_act Quiet (board_of a) (board_of (a\<lparr>store := t\<rparr>))"
proof -
  have new: "phase_of j = Waiting (jb_lease j)" if "j \<in> set new" for j
  proof -
    from assms that have "row_ok j" "jb_status j = JobQueued" by (auto simp: jobs_ok_def)
    then show ?thesis by (cases "jb_owner j") (auto simp: phase_of_def terminal_def row_ok_def)
  qed
  have rows: "phases_of (jobs t) i = (case phases_of (jobs (store a)) i of None \<Rightarrow> phases_of new i | Some p \<Rightarrow> Some p)" for i
    by (auto simp: assms(1) phases_of_def row_get_def find_append split: option.split)
  have "phases_of new i = None \<or> (\<exists>n. phases_of new i = Some (Waiting n))" for i
    using new row_get_mem [of jb_id i new] by (cases "row_get jb_id i new") (auto simp: phases_of_def)
  then have "board_act Quiet (board_of a) (board_of a\<lparr>phases := phases_of (jobs t)\<rparr>)"
    by (intro board_act.Post) (auto simp: rows split: option.split)
  then show ?thesis by (simp add: board_of_def)
qed

section \<open>The acts of a fleet\<close>

text \<open>The steps of a fleet with the worker, the job and the fence of each.\<close>

inductive fleet_act :: "(string \<Rightarrow> handler option) \<Rightarrow> act \<Rightarrow> fleet \<Rightarrow> fleet \<Rightarrow> bool" for H where
  Claim: "claim_one w now (store a) = (Some (i, f), t) \<Longrightarrow>
    fleet_act H (Claimed w i f) a (a\<lparr>store := t, claims := insert (w, i, f) (claims a)\<rparr>)"
| Idle: "claim_one w now (store a) = (None, t) \<Longrightarrow> fleet_act H Quiet a (a\<lparr>store := t\<rparr>)"
| Renew: "(w, i, f) \<in> claims a \<Longrightarrow> renew_lease w i f now (store a) = (ok, t) \<Longrightarrow>
    fleet_act H (Renewed w i f) a (a\<lparr>store := t\<rparr>)"
| Start: "(w, i, f) \<in> claims a \<Longrightarrow> begin_job H w i f (store a) = (Ready j h, t) \<Longrightarrow>
    fleet_act H (Begun w i f) a (a\<lparr>store := t, running := insert (w, f, j, h) (running a)\<rparr>)"
| Settle: "(w, i, f) \<in> claims a \<Longrightarrow> begin_job H w i f (store a) = (b, t) \<Longrightarrow> b = NotOurs \<or> b = Settled \<Longrightarrow>
    fleet_act H (Begun w i f) a (a\<lparr>store := t\<rparr>)"
| Commit: "(w, f, j, h) \<in> running a \<Longrightarrow> finish_job w f lost j h (store a) = Inr t \<Longrightarrow>
    fleet_act H (Committed w (jb_id j) f) a (a\<lparr>store := t, commits := commits a @ [jb_id j]\<rparr>)"
| Abort: "(w, f, j, h) \<in> running a \<Longrightarrow>
    fleet_act H (Dropped w (jb_id j) f) a (a\<lparr>store := fail_job w (jb_id j) f e (store a)\<rparr>)"
| Cancel: "cancel_job R sv i (store a) = Inr t \<Longrightarrow> fleet_act H Quiet a (a\<lparr>store := t\<rparr>)"
| Enqueue: "jobs t = jobs (store a) @ new \<Longrightarrow> jobs_ok (jobs t) \<Longrightarrow> \<forall>j \<in> set new. jb_status j = JobQueued \<Longrightarrow>
    fleet_act H Quiet a (a\<lparr>store := t\<rparr>)"

lemma fleet_act_step: "fleet_act H l a b \<Longrightarrow> fleet_step H a b"
  by (induction rule: fleet_act.induct) (auto intro: fleet_step.intros)

lemma fleet_step_act: "fleet_step H a b \<Longrightarrow> \<exists>l. fleet_act H l a b"
proof (induction rule: fleet_step.induct)
  case (Claim w now a i f t)
  from fleet_act.Claim [OF Claim, where H = H] show ?case by (rule exI)
next
  case (Idle w now a t)
  from fleet_act.Idle [OF Idle, where H = H] show ?case by (rule exI)
next
  case (Renew w i f a now ok t)
  from fleet_act.Renew [OF Renew, where H = H] show ?case by (rule exI)
next
  case (Start w i f a j h t)
  from fleet_act.Start [OF Start] show ?case by (rule exI)
next
  case (Settle w i f a b t)
  from fleet_act.Settle [OF Settle] show ?case by (rule exI)
next
  case (Commit w f j h a lost t)
  from fleet_act.Commit [OF Commit, where H = H] show ?case by (rule exI)
next
  case (Abort w f j h a e)
  from fleet_act.Abort [OF Abort, where H = H] show ?case by (rule exI)
next
  case (Cancel R sv i a t)
  from fleet_act.Cancel [OF Cancel, where H = H] show ?case by (rule exI)
next
  case (Enqueue t a new)
  from fleet_act.Enqueue [OF Enqueue, where H = H] show ?case by (rule exI)
qed

lemma fleet_path_run: "path (fleet_act H) a ls b \<Longrightarrow> (fleet_step H)\<^sup>*\<^sup>* a b"
  by (induction rule: path.induct) (auto intro: rtranclp.rtrancl_into_rtrancl fleet_act_step)

lemma fleet_run_path:
  assumes "(fleet_step H)\<^sup>*\<^sup>* a b"
  shows "\<exists>ls. path (fleet_act H) a ls b"
  using assms
proof (induction rule: rtranclp_induct)
  case base
  show ?case by (rule exI [of _ "[]"], rule path.Here)
next
  case (step b c)
  then obtain ls where ls: "path (fleet_act H) a ls b" by blast
  obtain l where "fleet_act H l b c" using fleet_step_act [OF step.hyps(2)] by blast
  from path.Then [of "fleet_act H", OF ls this] show ?case by (rule exI)
qed

context quiet_handlers
begin

lemma finish_refines:
  assumes "jobs_ok (jobs (store a))" "H k = Some h" "(w, jb_id j, f) \<in> claims a" "finish_job w f lost j h (store a) = Inr t"
  shows "board_act (Committed w (jb_id j) f) (board_of a) (board_of (a\<lparr>store := t, commits := commits a @ [jb_id j]\<rparr>))"
proof -
  from finish_job_cases(2) [OF assms(4)] obtain r s1 where h: "h j (store a) = Inr (r, s1)"
    and u: "update_job (jb_id j) (\<lambda>j. holds w f j \<and> \<not> jb_cancel j) (completed (jb_payload j) r) s1 = (True, t)"
    by blast
  have js: "jobs s1 = jobs (store a)" by (rule keeps_jobs [OF assms(2) h])
  from update_job_one [OF u] obtain q where q: "q \<in> set (jobs (store a))" "jb_id q = jb_id j" "holds w f q" "\<not> jb_cancel q"
    by (auto simp: js)
  then have row: "row_get jb_id (jb_id j) (jobs (store a)) = Some q"
    using row_get_distinct [of jb_id "jobs (store a)" q] assms(1) by (simp add: jobs_ok_def)
  have "jobs t = update_rows (\<lambda>r. jb_id r = jb_id j \<and> holds w f r \<and> \<not> jb_cancel r) (completed (jb_payload j) r) (jobs (store a))"
    using u js by (auto simp: update_job_def)
  then have "board_of (a\<lparr>store := t\<rparr>) = put_phase (jb_id j) (phase_of (completed (jb_payload j) r q)) (board_of a)"
    by (rule board_of_update [OF _ _ row]) (simp_all add: completed_def release_def q)
  moreover have "phase_of (completed (jb_payload j) r q) = Closed JobComplete"
    by (simp add: phase_of_def completed_def release_def terminal_def)
  ultimately have "board_of (a\<lparr>store := t, commits := commits a @ [jb_id j]\<rparr>) =
      put_phase (jb_id j) (Closed JobComplete) (board_of a)\<lparr>finished := finished (board_of a) @ [jb_id j]\<rparr>"
    by (simp add: board_of_def put_phase_def)
  then show ?thesis
    using board_act.Finish [of w "jb_id j" f "board_of a"] held_row [OF assms(1) row q(3)] assms(3) by simp
qed

lemma fleet_act_refines: "fleet_act H l a b \<Longrightarrow> fleet_ok H a \<Longrightarrow> board_act l (board_of a) (board_of b)"
proof (induction rule: fleet_act.induct)
  case (Claim w now a i f t)
  then show ?case using claim_refines [OF _ Claim(1)] by (simp add: fleet_ok_def)
next
  case (Idle w now a t)
  then show ?case using claim_refines [OF _ Idle(1)] by (simp add: fleet_ok_def)
next
  case (Renew w i f a now ok t)
  then show ?case using renew_refines [OF Renew(2)] by (simp add: board_act.Stay)
next
  case (Start w i f a j h t)
  have same: "board_of (a\<lparr>store := t, running := insert (w, f, j, h) (running a)\<rparr>) = board_of (a\<lparr>store := t\<rparr>)"
    by (simp add: board_of_def)
  have "jobs_ok (jobs (store a))" using Start(3) by (simp add: fleet_ok_def)
  then show ?case unfolding same by (rule begin_refines [OF _ Start(1,2)])
next
  case (Settle w i f a b t)
  then show ?case using begin_refines [OF _ Settle(1,2)] by (simp add: fleet_ok_def)
next
  case (Commit w f j h a lost t)
  then have "jobs_ok (jobs (store a))" "H (jb_kind j) = Some h" "(w, jb_id j, f) \<in> claims a" by (auto simp: fleet_ok_def)
  from finish_refines [OF this Commit(2)] show ?case .
next
  case (Abort w f j h a e)
  then have "jobs_ok (jobs (store a))" "(w, jb_id j, f) \<in> claims a" by (auto simp: fleet_ok_def)
  then show ?case by (rule fail_refines)
next
  case (Cancel R sv i a t)
  then show ?case using cancel_refines [OF Cancel(1)] by (simp add: board_act.Stay)
next
  case (Enqueue t a new)
  then show ?case by (intro enqueue_refines)
qed

lemma fleet_path_refines:
  assumes "path (fleet_act H) a ls b" "fleet_ok H a"
  shows "path board_act (board_of a) ls (board_of b)"
  using assms
proof (induction rule: path.induct)
  case (Here a)
  show ?case by (rule path.Here)
next
  case (Then a ls b l c)
  from fleet_ok_run [OF fleet_path_run [OF Then.hyps(1)] Then.prems] have "fleet_ok H b" by simp
  from fleet_act_refines [OF Then.hyps(2) this] Then.IH [OF Then.prems] show ?case by (rule path.Then [rotated])
qed

end

section \<open>Guarantees\<close>

text \<open>
  C17. The workers refine the board of leases, act by act. Whatever a fleet does from a sound job table,
  with steps delayed, repeated and interleaved, its board goes through the same acts, by the same
  workers, on the same jobs and under the same fences: fences are granted in turn, a commit is made by
  the worker that holds the current fence of the job and by no other, a late renewal, start or failure
  changes nothing, and every job is finished at most once and stays closed.
\<close>

theorem workers_refine_the_board:
  assumes "jobs_ok (jobs s)" "path (fleet_act (handlers R)) (start_fleet s) ls a"
  shows "path board_act (board_of (start_fleet s)) ls (board_of a) \<and> board_ok (board_of a)"
proof -
  have run: "path board_act (board_of (start_fleet s)) ls (board_of a)"
    by (rule worker_handlers.fleet_path_refines [OF assms(2) fleet_ok_start [OF assms(1)]])
  have "board_ok (board_of (start_fleet s))" by (simp add: board_ok_def board_of_def start_fleet_def)
  from run board_path_ok [OF run this] show ?thesis by blast
qed

theorem workers_refine_the_board_witness:
  "\<exists>s ls a. path board_act (board_of (start_fleet s)) ls (board_of a) \<and>
     phases (board_of a) ''j'' = Some (Closed JobComplete) \<and> finished (board_of a) = [''j'']"
proof -
  obtain pin a where a: "(fleet_step (handlers ascii_runtime))\<^sup>*\<^sup>*
     (start_fleet (index_db\<lparr>jobs := [index_job pin]\<rparr>)) a" "commits a = [''j'']" using index_fleet by blast
  obtain ls where ls: "path (fleet_act (handlers ascii_runtime)) (start_fleet (index_db\<lparr>jobs := [index_job pin]\<rparr>)) ls a"
    using fleet_run_path [OF a(1)] by blast
  have "jobs_ok (jobs (index_db\<lparr>jobs := [index_job pin]\<rparr>))" using index_job_queued(1) by simp
  from workers_refine_the_board [OF this ls] a(2) show ?thesis
    by (intro exI [of _ "index_db\<lparr>jobs := [index_job pin]\<rparr>"] exI [of _ ls] exI [of _ a]) (auto simp: board_ok_def)
qed

text \<open>A commit on the board is the act of the holder of the fence.\<close>

lemma commits_are_by_the_holder:
  assumes "board_act (Committed w i n) b c"
  shows "phases b i = Some (Held w n) \<and> phases c i = Some (Closed JobComplete)"
  using assms by (cases rule: committedE) (auto simp: put_phase_def)

end
