(* ===== verification/Files.thy ===== *)
theory Files
  imports Samples
begin

text \<open>
  File exchange (connectors/files.py): writing rows as CSV with formulas disarmed, and reading CSV and
  JSON lines. The \<open>csv\<close> module is modelled as it runs here, in its default dialect: the writer's
  quoting, and the reader as the state machine of its C implementation with its field size limit,
  over text streams that leave line ends alone. \<open>json.loads\<close> and \<open>json.dumps\<close> are parameters; Parquet
  files are a third-party format and left out.
\<close>

section \<open>Cells\<close>

abbreviation (input) LF :: char where "LF \<equiv> CHR 0x0A"
abbreviation (input) CR :: char where "CR \<equiv> CHR 0x0D"
abbreviation (input) comma :: char where "comma \<equiv> CHR 0x2C"
abbreviation (input) quote :: char where "quote \<equiv> CHR 0x22"

definition max_cell :: nat where
  "max_cell = 1000000"

definition bounded_cell :: "json \<Rightarrow> json res" where
  "bounded_cell v = (case v of
     JStr s \<Rightarrow> bind_res (guard_res (length s \<le> max_cell) (PyError ''ValueError'')) (\<lambda>_. Inr v)
   | _ \<Rightarrow> Inr v)"

definition formula_chars :: "char set" where
  "formula_chars = {CHR ''='', CHR ''+'', CHR ''-'', CHR ''@'', CHR 0x09, CR}"

definition safe_csv_value :: "runtime \<Rightarrow> json \<Rightarrow> string" where
  "safe_csv_value R v =
     (let t = (if v = JNull then [] else py_str R v)
      in case t of [] \<Rightarrow> t | c # _ \<Rightarrow> if c \<in> formula_chars then CHR 0x27 # t else t)"

section \<open>Writing\<close>

definition special :: "char \<Rightarrow> bool" where
  "special c \<longleftrightarrow> c = comma \<or> c = quote \<or> c = CR \<or> c = LF"

fun double :: "string \<Rightarrow> string" where
  "double [] = []"
| "double (c # cs) = (if c = quote then quote # quote # double cs else c # double cs)"

definition csv_cell :: "string \<Rightarrow> string" where
  "csv_cell f = (if \<exists>c \<in> set f. special c then quote # double f @ [quote] else f)"

fun csv_cells :: "string list \<Rightarrow> string" where
  "csv_cells [] = []"
| "csv_cells [f] = csv_cell f"
| "csv_cells (f # fs) = csv_cell f @ comma # csv_cells fs"

text \<open>A row of one empty field is quoted, so that it is not a blank line.\<close>

definition csv_row :: "string list \<Rightarrow> string" where
  "csv_row fs = (if fs = [[]] then [quote, quote] else csv_cells fs) @ [CR, LF]"

definition write_csv :: "runtime \<Rightarrow> dict list \<Rightarrow> string \<times> nat" where
  "write_csv R rows =
     (case rows of
        [] \<Rightarrow> ([], 0)
      | first # _ \<Rightarrow>
          let names = dkeys first
          in (csv_row names @ concat (map (\<lambda>r. csv_row (map (\<lambda>k. safe_csv_value R (dget r k)) names)) rows), length rows))"

section \<open>Reading\<close>

datatype csv_state = StartRecord | StartField | InField | InQuoted | QuoteInQuoted | EatNewline

text \<open>The state, the characters of the field so far and the fields so far; \<open>None\<close> ends a line.\<close>

type_synonym machine = "csv_state \<times> string \<times> string list"

definition field_limit :: nat where
  "field_limit = 131072"

definition add_char :: "csv_state \<Rightarrow> char \<Rightarrow> string \<Rightarrow> string list \<Rightarrow> machine res" where
  "add_char st c f fs =
     bind_res (guard_res (length f < field_limit) (PyError ''Error'')) (\<lambda>_. Inr (st, f @ [c], fs))"

definition end_field :: "char option \<Rightarrow> string \<Rightarrow> string list \<Rightarrow> machine" where
  "end_field c f fs = (if c = None then StartRecord else EatNewline, [], fs @ [f])"

definition newline :: "char option \<Rightarrow> bool" where
  "newline c \<longleftrightarrow> c = None \<or> c = Some CR \<or> c = Some LF"

definition in_start_field :: "char option \<Rightarrow> string \<Rightarrow> string list \<Rightarrow> machine res" where
  "in_start_field c f fs =
     (if newline c then Inr (end_field c f fs)
      else if c = Some quote then Inr (InQuoted, f, fs)
      else if c = Some comma then Inr (StartField, [], fs @ [f])
      else add_char InField (the c) f fs)"

definition csv_step :: "machine \<Rightarrow> char option \<Rightarrow> machine res" where
  "csv_step m c =
     (case m of (st, f, fs) \<Rightarrow>
        (case st of
           StartRecord \<Rightarrow>
             if c = None then Inr (StartRecord, f, fs)
             else if newline c then Inr (EatNewline, f, fs)
             else in_start_field c f fs
         | StartField \<Rightarrow> in_start_field c f fs
         | InField \<Rightarrow>
             if newline c then Inr (end_field c f fs)
             else if c = Some comma then Inr (StartField, [], fs @ [f])
             else add_char InField (the c) f fs
         | InQuoted \<Rightarrow>
             if c = None then Inr (InQuoted, f, fs)
             else if c = Some quote then Inr (QuoteInQuoted, f, fs)
             else add_char InQuoted (the c) f fs
         | QuoteInQuoted \<Rightarrow>
             if c = Some quote then add_char InQuoted quote f fs
             else if c = Some comma then Inr (StartField, [], fs @ [f])
             else if newline c then Inr (end_field c f fs)
             else add_char InField (the c) f fs
         | EatNewline \<Rightarrow>
             if c = None then Inr (StartRecord, f, fs)
             else if newline c then Inr (EatNewline, f, fs)
             else Inl (PyError ''Error'')))"

definition fresh :: machine where
  "fresh = (StartRecord, [], [])"

definition finish :: "machine \<Rightarrow> string list list" where
  "finish m = (case m of (st, f, fs) \<Rightarrow> if f \<noteq> [] \<or> st = InQuoted then [fs @ [f]] else [])"

text \<open>A record is complete when the machine is at its start at the end of a line.\<close>

fun read_csv :: "machine \<Rightarrow> string \<Rightarrow> string list list \<times> err option" where
  "read_csv m [] = (finish m, None)"
| "read_csv m (c # cs) =
     (case csv_step m (Some c) of
        Inl e \<Rightarrow> ([], Some e)
      | Inr m1 \<Rightarrow>
          if c = LF \<or> cs = []
          then (case csv_step m1 None of
              Inl e \<Rightarrow> ([], Some e)
            | Inr (st, f, fs) \<Rightarrow>
                if st = StartRecord then (case read_csv fresh cs of (rs, e) \<Rightarrow> (fs # rs, e))
                else read_csv (st, f, fs) cs)
          else read_csv m1 cs)"

text \<open>
  \<open>csv.DictReader\<close>: the first row names the fields, blank rows are skipped, missing values are \<open>None\<close>
  and surplus ones stand under the key \<open>None\<close>, kept apart here.
\<close>

definition dict_row :: "string list \<Rightarrow> string list \<Rightarrow> dict \<times> string list" where
  "dict_row names vs =
     (fold (\<lambda>(k, v) d. AList.update k v d)
        (zip names (map JStr vs) @ map (\<lambda>k. (k, JNull)) (drop (length vs) names)) [],
      drop (length names) vs)"

definition bounded_row :: "dict \<times> string list \<Rightarrow> (dict \<times> string list) res" where
  "bounded_row r = bind_res (map_res (\<lambda>(k, v). bounded_cell v) (fst r)) (\<lambda>_. Inr r)"

fun yield_rows :: "('a \<Rightarrow> 'b res) \<Rightarrow> 'a list \<Rightarrow> err option \<Rightarrow> 'b list \<times> err option" where
  "yield_rows f [] e = ([], e)"
| "yield_rows f (x # xs) e =
     (case f x of Inl p \<Rightarrow> ([], Some p) | Inr y \<Rightarrow> (case yield_rows f xs e of (ys, p) \<Rightarrow> (y # ys, p)))"

definition iter_csv :: "string \<Rightarrow> (dict \<times> string list) list \<times> err option" where
  "iter_csv text =
     (case read_csv fresh text of
        ([], e) \<Rightarrow> ([], e)
      | (names # rows, e) \<Rightarrow> yield_rows bounded_row (map (dict_row names) (filter (\<lambda>r. r \<noteq> []) rows)) e)"

section \<open>JSON lines\<close>

definition jsonl_value :: "(string \<Rightarrow> json option) \<Rightarrow> string \<Rightarrow> dict res" where
  "jsonl_value loads line =
     bind_res (guard_res (length line \<le> max_cell * 4) (PyError ''ValueError'')) (\<lambda>_.
     bind_res (from_option (PyError ''ValueError'') (loads line)) (\<lambda>v.
     case v of JObj d \<Rightarrow> Inr d | _ \<Rightarrow> Inl (PyError ''ValueError'')))"

definition iter_jsonl :: "(string \<Rightarrow> json option) \<Rightarrow> string list \<Rightarrow> dict list \<times> err option" where
  "iter_jsonl loads ls = yield_rows (jsonl_value loads) ls None"

definition write_jsonl :: "(json \<Rightarrow> string) \<Rightarrow> dict list \<Rightarrow> string list \<times> nat" where
  "write_jsonl dumps rows = (map (\<lambda>d. dumps (JObj d) @ [LF]) rows, length rows)"

section \<open>The reader on written text\<close>

lemma read_plain:
  assumes "\<forall>c \<in> set f. \<not> special c" "length x + length f \<le> field_limit" "rest \<noteq> []"
  shows "read_csv (InField, x, fs) (f @ rest) = read_csv (InField, x @ f, fs) rest"
  using assms
proof (induction f arbitrary: x)
  case (Cons c f)
  then have "csv_step (InField, x, fs) (Some c) = Inr (InField, x @ [c], fs)"
    by (simp add: csv_step_def special_def newline_def add_char_def)
  with Cons show ?case by (simp add: special_def)
qed simp

lemma read_doubled:
  assumes "length x + length f \<le> field_limit" "rest \<noteq> []"
  shows "read_csv (InQuoted, x, fs) (double f @ rest) = read_csv (InQuoted, x @ f, fs) rest"
  using assms
proof (induction f arbitrary: x)
  case (Cons c f)
  have quoted: "csv_step (InQuoted, y, fs) None = Inr (InQuoted, y, fs)" for y
    by (simp add: csv_step_def)
  have ne: "double f @ rest \<noteq> []" using Cons.prems by simp
  show ?case
  proof (cases "c = quote")
    case True
    then have "csv_step (InQuoted, x, fs) (Some quote) = Inr (QuoteInQuoted, x, fs)"
      "csv_step (QuoteInQuoted, x, fs) (Some quote) = Inr (InQuoted, x @ [quote], fs)"
      using Cons.prems by (simp_all add: csv_step_def add_char_def)
    with True Cons ne show ?thesis by simp
  next
    case False
    then have "csv_step (InQuoted, x, fs) (Some c) = Inr (InQuoted, x @ [c], fs)"
      using Cons.prems by (simp add: csv_step_def add_char_def)
    with False Cons ne quoted show ?thesis by (cases "c = LF") simp_all
  qed
qed simp

text \<open>After a written cell the machine is about to end the field, wherever the cell began.\<close>

lemma read_cell:
  assumes "length f \<le> field_limit" "st = StartRecord \<and> f \<noteq> [] \<or> st = StartField" "rest \<noteq> []"
  shows "\<exists>m. m \<in> {InField, QuoteInQuoted, StartField} \<and> read_csv (st, [], fs) (csv_cell f @ rest) = read_csv (m, f, fs) rest"
proof (cases "\<exists>c \<in> set f. special c")
  case True
  have first: "csv_step (st, [], fs) (Some quote) = Inr (InQuoted, [], fs)"
    using assms(2) by (auto simp: csv_step_def in_start_field_def newline_def)
  have last: "csv_step (InQuoted, f, fs) (Some quote) = Inr (QuoteInQuoted, f, fs)"
    by (simp add: csv_step_def)
  have "read_csv (st, [], fs) (csv_cell f @ rest) = read_csv (InQuoted, [], fs) (double f @ quote # rest)"
    using True first by (simp add: csv_cell_def)
  also have "\<dots> = read_csv (InQuoted, f, fs) (quote # rest)"
    using read_doubled [of "[]" f "quote # rest" fs] assms(1) by simp
  also have "\<dots> = read_csv (QuoteInQuoted, f, fs) rest" using assms(3) last by simp
  finally show ?thesis by blast
next
  case False
  show ?thesis
  proof (cases f)
    case Nil
    with assms(2) show ?thesis by (auto simp: csv_cell_def)
  next
    case (Cons c g)
    with False have c: "c \<noteq> comma" "c \<noteq> quote" "c \<noteq> CR" "c \<noteq> LF" by (auto simp: special_def)
    have "csv_step (st, [], fs) (Some c) = Inr (InField, [c], fs)"
      using c assms(2) by (auto simp: csv_step_def in_start_field_def newline_def add_char_def field_limit_def)
    moreover have "csv_cell f = c # g" using False Cons by (simp add: csv_cell_def)
    ultimately have "read_csv (st, [], fs) (csv_cell f @ rest) = read_csv (InField, [c], fs) (g @ rest)"
      using assms(3) c(4) by simp
    also have "\<dots> = read_csv (InField, f, fs) rest"
      using read_plain [of g "[c]" rest fs] False assms(1,3) Cons by simp
    finally show ?thesis by blast
  qed
qed

lemma read_comma:
  assumes "m \<in> {InField, QuoteInQuoted, StartField}" "rest \<noteq> []"
  shows "read_csv (m, f, fs) (comma # rest) = read_csv (StartField, [], fs @ [f]) rest"
proof -
  have "csv_step (m, f, fs) (Some comma) = Inr (StartField, [], fs @ [f])"
    using assms(1) by (auto simp: csv_step_def in_start_field_def newline_def)
  with assms(2) show ?thesis by simp
qed

lemma read_row_end:
  assumes "m \<in> {InField, QuoteInQuoted, StartField}"
  shows "read_csv (m, f, fs) (CR # LF # rest) = (case read_csv fresh rest of (rs, e) \<Rightarrow> ((fs @ [f]) # rs, e))"
proof -
  have "csv_step (m, f, fs) (Some CR) = Inr (EatNewline, [], fs @ [f])"
    using assms by (auto simp: csv_step_def in_start_field_def newline_def end_field_def)
  moreover have "csv_step (EatNewline, [], fs @ [f]) (Some LF) = Inr (EatNewline, [], fs @ [f])"
    "csv_step (EatNewline, [], fs @ [f]) None = Inr (StartRecord, [], fs @ [f])"
    by (simp_all add: csv_step_def newline_def)
  ultimately show ?thesis by simp
qed

lemma read_cells:
  assumes "gs \<noteq> []" "\<forall>g \<in> set gs. length g \<le> field_limit" "st = StartRecord \<and> hd gs \<noteq> [] \<or> st = StartField"
  shows "read_csv (st, [], fs) (csv_cells gs @ CR # LF # rest) = (case read_csv fresh rest of (rs, e) \<Rightarrow> ((fs @ gs) # rs, e))"
  using assms
proof (induction gs arbitrary: st fs rule: csv_cells.induct)
  case (2 g)
  then obtain m where m: "m \<in> {InField, QuoteInQuoted, StartField}"
    "read_csv (st, [], fs) (csv_cell g @ CR # LF # rest) = read_csv (m, g, fs) (CR # LF # rest)"
    using read_cell [of g st "CR # LF # rest" fs] by auto
  with read_row_end [OF m(1)] show ?case by simp
next
  case (3 g h hs)
  let ?more = "csv_cells (h # hs) @ CR # LF # rest"
  from 3 obtain m where m: "m \<in> {InField, QuoteInQuoted, StartField}"
    "read_csv (st, [], fs) (csv_cell g @ comma # ?more) = read_csv (m, g, fs) (comma # ?more)"
    using read_cell [of g st "comma # ?more" fs] by auto
  have "read_csv (m, g, fs) (comma # ?more) = read_csv (StartField, [], fs @ [g]) ?more"
    by (rule read_comma [OF m(1)]) simp
  also have "\<dots> = (case read_csv fresh rest of (rs, e) \<Rightarrow> (((fs @ [g]) @ h # hs) # rs, e))"
    using 3 by (intro "3.IH") auto
  finally show ?case using m by simp
qed simp

lemma read_row:
  assumes "fs \<noteq> []" "\<forall>f \<in> set fs. length f \<le> field_limit"
  shows "read_csv fresh (csv_row fs @ rest) = (case read_csv fresh rest of (rs, e) \<Rightarrow> (fs # rs, e))"
proof (cases "fs = [[]]")
  case True
  have "csv_step fresh (Some quote) = Inr (InQuoted, [], [])" "csv_step (InQuoted, [], []) (Some quote) = Inr (QuoteInQuoted, [], [])"
    by (simp_all add: fresh_def csv_step_def in_start_field_def newline_def)
  with True read_row_end [of QuoteInQuoted "[]" "[]" rest] show ?thesis by (simp add: csv_row_def)
next
  case False
  show ?thesis
  proof (cases "hd fs = []")
    case True
    with False assms(1) obtain g gs where fs: "fs = [] # g # gs" by (metis list.collapse list.sel(1))
    let ?more = "csv_cells (g # gs) @ CR # LF # rest"
    have "csv_step fresh (Some comma) = Inr (StartField, [], [[]])"
      by (simp add: fresh_def csv_step_def in_start_field_def newline_def)
    then have "read_csv fresh (csv_row fs @ rest) = read_csv (StartField, [], [[]]) ?more"
      by (simp add: csv_row_def fs csv_cell_def)
    with read_cells [of "g # gs" StartField "[[]]" rest] assms(2) fs show ?thesis by simp
  next
    case nonempty: False
    with False have "csv_row fs @ rest = csv_cells fs @ CR # LF # rest" by (auto simp: csv_row_def)
    with read_cells [of fs StartRecord "[]" rest] nonempty assms show ?thesis by (simp add: fresh_def)
  qed
qed

lemma read_rows:
  assumes "\<forall>fs \<in> set rows. fs \<noteq> [] \<and> (\<forall>f \<in> set fs. length f \<le> field_limit)"
  shows "read_csv fresh (concat (map csv_row rows)) = (rows, None)"
  using assms
proof (induction rows)
  case Nil
  then show ?case by (simp add: finish_def fresh_def)
next
  case (Cons fs rows)
  with read_row [of fs "concat (map csv_row rows)"] show ?case by simp
qed

lemma fold_update_fresh:
  "distinct (map fst ps) \<Longrightarrow> fst ` set ps \<inter> fst ` set d = {} \<Longrightarrow>
   fold (\<lambda>(k, v) d. AList.update k v d) ps d = d @ ps"
proof (induction ps arbitrary: d)
  case (Cons p ps)
  obtain k v where p: "p = (k, v)" by (cases p)
  have "AList.update k v d = d @ [(k, v)]"
    using Cons.prems(2) p by (induction d) auto
  with Cons p show ?case by (auto simp: p)
qed simp

lemma dict_row_same_length:
  assumes "length vs = length names" "distinct names"
  shows "dict_row names vs = (zip names (map JStr vs), [])"
  using fold_update_fresh [of "zip names (map JStr vs)" "[]"] assms by (simp add: dict_row_def)

lemma yield_all: "(\<And>x. x \<in> set xs \<Longrightarrow> f x = Inr x) \<Longrightarrow> yield_rows f xs e = (xs, e)"
  by (induction xs) simp_all

lemma safe_csv_start: "safe_csv_value R v = c # t \<Longrightarrow> c \<notin> formula_chars"
  by (auto simp: safe_csv_value_def Let_def formula_chars_def split: list.splits if_splits)

section \<open>Guarantees\<close>

text \<open>
  C27. What is written as CSV reads back. Rows with one set of names, and no cell beyond the field limit of
  the reader, are read back in full and in order, with every value as the text that was written for it,
  whatever commas, quotes and line breaks it contains; and no value begins like a formula.
\<close>

theorem written_csv_reads_back:
  assumes "rows \<noteq> []" "dkeys (hd rows) = names" "names \<noteq> []" "distinct names" "\<forall>k \<in> set names. length k \<le> field_limit"
    and "\<forall>r \<in> set rows. \<forall>k \<in> set names. length (safe_csv_value R (dget r k)) \<le> field_limit"
  shows "iter_csv (fst (write_csv R rows)) =
      (map (\<lambda>r. (map (\<lambda>k. (k, JStr (safe_csv_value R (dget r k)))) names, [])) rows, None) \<and>
    (\<forall>v c t. safe_csv_value R v = c # t \<longrightarrow> c \<notin> formula_chars)"
proof (intro conjI allI impI)
  let ?cells = "\<lambda>r. map (\<lambda>k. safe_csv_value R (dget r k)) names"
  have written: "fst (write_csv R rows) = concat (map csv_row (names # map ?cells rows))"
    using assms(1,2) by (cases rows) (simp_all add: write_csv_def Let_def comp_def)
  have read: "read_csv fresh (fst (write_csv R rows)) = (names # map ?cells rows, None)"
    unfolding written by (rule read_rows) (use assms(3,5,6) in auto)
  have row: "dict_row names (?cells r) = (map (\<lambda>k. (k, JStr (safe_csv_value R (dget r k)))) names, [])" for r
    using dict_row_same_length [of "?cells r" names] assms(4) by (simp add: zip_map2 comp_def zip_same_conv_map)
  have cell: "bounded_cell (JStr (safe_csv_value R (dget r k))) = Inr (JStr (safe_csv_value R (dget r k)))"
    if "r \<in> set rows" "k \<in> set names" for r k
    using assms(6) that by (fastforce simp: bounded_cell_def max_cell_def field_limit_def guard_res_def)
  have "bounded_row (dict_row names (?cells r)) = Inr (dict_row names (?cells r))" if r: "r \<in> set rows" for r
  proof -
    have "\<exists>ys. map_res (\<lambda>(k, v). bounded_cell v) (map (\<lambda>k. (k, JStr (safe_csv_value R (dget r k)))) names) = Inr ys"
      by (rule map_res_total) (use cell [OF r] in auto)
    then show ?thesis by (auto simp: bounded_row_def row)
  qed
  then have "yield_rows bounded_row (map (dict_row names) (map ?cells rows)) None = (map (dict_row names) (map ?cells rows), None)"
    by (intro yield_all) auto
  moreover have "filter (\<lambda>r. r \<noteq> []) (map ?cells rows) = map ?cells rows"
    using assms(3) by (auto simp: filter_id_conv)
  ultimately show "iter_csv (fst (write_csv R rows)) =
      (map (\<lambda>r. (map (\<lambda>k. (k, JStr (safe_csv_value R (dget r k)))) names, [])) rows, None)"
    by (simp add: iter_csv_def read row)
qed (rule safe_csv_start)

text \<open>The names of the first row are written as they are.\<close>

lemma header_cells_are_not_disarmed: "fst (write_csv ascii_runtime [[(''=A1'', JNull)]]) = ''=A1'' @ [CR, LF, quote, quote, CR, LF]"
  by (simp add: write_csv_def Let_def dkeys_def csv_row_def csv_cell_def special_def safe_csv_value_def dget_def)

text \<open>
  The limit of a cell is never met: the reader of the standard library stops at its own smaller limit
  first, with an exception of its own.
\<close>

lemma cells_between_the_limits_are_refused:
  "iter_csv (replicate (Suc field_limit) (CHR ''a'')) = ([], Some (PyError ''Error''))"
proof -
  have first: "csv_step fresh (Some (CHR ''a'')) = Inr (InField, ''a'', [])"
    by (simp add: fresh_def csv_step_def in_start_field_def newline_def add_char_def field_limit_def)
  obtain n where n: "field_limit = Suc n" by (cases field_limit) (simp_all add: field_limit_def)
  have "replicate (Suc field_limit) (CHR ''a'') = CHR ''a'' # replicate n (CHR ''a'') @ ''a''"
    by (simp add: n replicate_append_same)
  moreover have "read_csv (InField, ''a'', []) (replicate n (CHR ''a'') @ ''a'') =
      read_csv (InField, ''a'' @ replicate n (CHR ''a''), []) ''a''"
    by (rule read_plain) (auto simp: special_def n)
  moreover have "csv_step (InField, ''a'' @ replicate n (CHR ''a''), []) (Some (CHR ''a'')) = Inl (PyError ''Error'')"
    by (simp add: csv_step_def newline_def add_char_def n guard_res_def)
  ultimately have "read_csv fresh (replicate (Suc field_limit) (CHR ''a'')) = ([], Some (PyError ''Error''))"
    using first by simp
  then show ?thesis by (simp add: iter_csv_def)
qed

text \<open>JSON lines read back when the encoder writes one line that the decoder reads.\<close>

lemma written_jsonl_reads_back:
  assumes "\<And>d. d \<in> set rows \<Longrightarrow> loads (dumps (JObj d) @ [LF]) = Some (JObj d) \<and> length (dumps (JObj d)) < max_cell * 4"
  shows "iter_jsonl loads (fst (write_jsonl dumps rows)) = (rows, None)"
proof -
  have "yield_rows (jsonl_value loads) (map (\<lambda>d. dumps (JObj d) @ [LF]) rows) None = (rows, None)"
    using assms by (induction rows) (simp_all add: jsonl_value_def guard_res_def Suc_le_eq)
  then show ?thesis by (simp add: iter_jsonl_def write_jsonl_def)
qed

theorem written_csv_reads_back_witness:
  "\<exists>out. write_csv ascii_runtime [[(''name'', JStr ''Acme, \"Ltd\"''), (''note'', JStr ''=1+1'')], [(''name'', JStr [LF])]] = out \<and>
     iter_csv (fst out) = ([([(''name'', JStr ''Acme, \"Ltd\"''), (''note'', JStr ([CHR 0x27] @ ''=1+1''))], []),
       ([(''name'', JStr [LF]), (''note'', JStr [])], [])], None)"
proof -
  let ?rows = "[[(''name'', JStr ''Acme, \"Ltd\"''), (''note'', JStr ''=1+1'')], [(''name'', JStr [LF])]] :: dict list"
  have "iter_csv (fst (write_csv ascii_runtime ?rows)) =
      (map (\<lambda>r. (map (\<lambda>k. (k, JStr (safe_csv_value ascii_runtime (dget r k)))) [''name'', ''note''], [])) ?rows, None) \<and>
    (\<forall>v c t. safe_csv_value ascii_runtime v = c # t \<longrightarrow> c \<notin> formula_chars)"
    by (rule written_csv_reads_back)
      (simp_all add: dkeys_def field_limit_def dget_def safe_csv_value_def py_str_def formula_chars_def)
  then show ?thesis
    by (simp add: dget_def safe_csv_value_def py_str_def formula_chars_def)
qed

end
