(* ===== verification/Paging.thy ===== *)
theory Paging
  imports Network
begin

text \<open>
  Reading a paginated HTTP or OData interface (\<open>PaginatedHttpConnector.read\<close> and
  \<open>ODataConnector.read_odata\<close> of connectors/http.py). A read gives the pages it yields, the requests it
  made, and the exception it ends with, if any. The code's own page limit bounds the recursion. The
  network is given for every moment: each page resolves the host for the check at one moment and sends
  its request at the next, when names may resolve otherwise.
\<close>

section \<open>Pages\<close>

record http_page =
  pg_items :: json
  pg_next :: json
  pg_complete :: bool

text \<open>\<open>payload["items"]\<close> is a TypeError on a list or a scalar, then a KeyError.\<close>

definition page_of :: "json \<Rightarrow> http_page res" where
  "page_of payload =
     (case payload of
        JObj d \<Rightarrow> bind_res (dindex d ''items'') (\<lambda>items.
          Inr \<lparr>pg_items = items, pg_next = dget d ''next_cursor'',
               pg_complete = truthy (dget_or d ''snapshot_complete'' (JBool (dget d ''next_cursor'' = JNull)))\<rparr>)
      | _ \<Rightarrow> Inl (PyError ''TypeError''))"

definition odata_page :: "json \<Rightarrow> http_page res" where
  "odata_page payload =
     bind_res (as_dict payload) (\<lambda>d.
     Inr \<lparr>pg_items = dget_or d ''value'' (JList []), pg_next = dget d ''@odata.nextLink'',
          pg_complete = (dget d ''@odata.nextLink'' = JNull)\<rparr>)"

section \<open>Reading\<close>

definition too_many :: err where
  "too_many = PyError ''RuntimeError''"

definition rstrip_slash :: "string \<Rightarrow> string" where
  "rstrip_slash s = rev (dropWhile (\<lambda>c. c = CHR ''/'') (rev s))"

definition page_url :: "network \<Rightarrow> connector \<Rightarrow> string \<Rightarrow> string" where
  "page_url N cn path =
     nt_join N (rstrip_slash (cn_base cn) @ ''/'') (dropWhile (\<lambda>c. c = CHR ''/'') path)"

fun read_pages ::
    "runtime \<Rightarrow> parsers \<Rightarrow> (nat \<Rightarrow> network) \<Rightarrow> connector \<Rightarrow> string \<Rightarrow> nat \<Rightarrow> nat \<Rightarrow> string list \<Rightarrow> json \<Rightarrow>
     http_page list \<times> json list \<times> err option" where
  "read_pages R U N cn url k 0 seen cursor = ([], [], Some too_many)"
| "read_pages R U N cn url k (Suc n) seen cursor =
     (case validate_url U (N k) cn url of
        Inl e \<Rightarrow> ([], [], Some e)
      | Inr _ \<Rightarrow>
          if py_str R cursor \<in> set seen then ([], [], Some (PyError ''RuntimeError''))
          else
            (case bind_res (nt_get (N (Suc k)) url cursor) page_of of
               Inl e \<Rightarrow> ([], [cursor], Some e)
             | Inr p \<Rightarrow>
                 if pg_next p = JNull then ([p], [cursor], None)
                 else (case read_pages R U N cn url (Suc (Suc k)) n (py_str R cursor # seen) (pg_next p) of
                   (ps, qs, e) \<Rightarrow> (p # ps, cursor # qs, e))))"

definition read_http ::
    "runtime \<Rightarrow> parsers \<Rightarrow> (nat \<Rightarrow> network) \<Rightarrow> connector \<Rightarrow> string \<Rightarrow> json \<Rightarrow> http_page list \<times> json list \<times> err option" where
  "read_http R U N cn path cursor = read_pages R U N cn (page_url (N 0) cn path) 0 (cn_max_pages cn) [] cursor"

text \<open>A next link that is not a string fails in the set of links seen or in \<open>urlparse\<close>.\<close>

fun odata_pages ::
    "parsers \<Rightarrow> (nat \<Rightarrow> network) \<Rightarrow> connector \<Rightarrow> nat \<Rightarrow> nat \<Rightarrow> string list \<Rightarrow> json \<Rightarrow>
     http_page list \<times> string list \<times> err option" where
  "odata_pages U N cn k 0 seen url = ([], [], Some too_many)"
| "odata_pages U N cn k (Suc n) seen url =
     (case url of
        JStr u \<Rightarrow>
          if u \<in> set seen then ([], [], Some (PyError ''RuntimeError''))
          else (case validate_url U (N k) cn u of
             Inl e \<Rightarrow> ([], [], Some e)
           | Inr _ \<Rightarrow>
               (case bind_res (nt_get (N (Suc k)) u JNull) odata_page of
                  Inl e \<Rightarrow> ([], [u], Some e)
                | Inr p \<Rightarrow>
                    if truthy (pg_next p)
                    then (case odata_pages U N cn (Suc (Suc k)) n (u # seen) (pg_next p) of
                      (ps, us, e) \<Rightarrow> (p # ps, u # us, e))
                    else ([p], [u], None)))
      | JList _ \<Rightarrow> ([], [], Some (PyError ''TypeError''))
      | JObj _ \<Rightarrow> ([], [], Some (PyError ''TypeError''))
      | _ \<Rightarrow> ([], [], Some (PyError ''AttributeError'')))"

definition read_odata ::
    "parsers \<Rightarrow> (nat \<Rightarrow> network) \<Rightarrow> connector \<Rightarrow> string \<Rightarrow> http_page list \<times> string list \<times> err option" where
  "read_odata U N cn path = odata_pages U N cn 0 (cn_max_pages cn) [] (JStr (page_url (N 0) cn path))"

section \<open>Whole reads\<close>

text \<open>The pages a server gives along a list of cursors, each naming the next.\<close>

fun page_chain :: "(nat \<Rightarrow> network) \<Rightarrow> string \<Rightarrow> nat \<Rightarrow> json list \<Rightarrow> http_page list \<Rightarrow> bool" where
  "page_chain N url k [] [] = True"
| "page_chain N url k (c # cs) (p # ps) =
     (bind_res (nt_get (N (Suc k)) url c) page_of = Inr p \<and>
      (case cs of [] \<Rightarrow> True | d # _ \<Rightarrow> pg_next p = d \<and> d \<noteq> JNull) \<and> page_chain N url (Suc (Suc k)) cs ps)"
| "page_chain N url k _ _ = False"

lemma page_chain_length: "page_chain N url k cs ps \<Longrightarrow> length ps = length cs"
  by (induction N url k cs ps rule: page_chain.induct) auto

lemma read_whole:
  assumes "page_chain N url k (c # cs) ps" "pg_next (last ps) = JNull" "\<And>i. validate_url U (N i) cn url = Inr ()"
    and "distinct (map (py_str R) (c # cs))" "set (map (py_str R) (c # cs)) \<inter> set seen = {}" "length (c # cs) \<le> n"
  shows "read_pages R U N cn url k n seen c = (ps, c # cs, None)"
  using assms
proof (induction cs arbitrary: c ps k n seen)
  case Nil
  then obtain p m where "ps = [p]" "n = Suc m" by (cases ps; cases n) (auto simp: neq_Nil_conv dest: page_chain_length)
  with Nil show ?case by auto
next
  case (Cons d cs)
  from Cons.prems(1) obtain p qs where ps: "ps = p # qs" by (cases ps) auto
  from Cons.prems(6) obtain m where n: "n = Suc m" by (cases n) auto
  from Cons.prems(1) have p: "bind_res (nt_get (N (Suc k)) url c) page_of = Inr p" "pg_next p = d" "d \<noteq> JNull"
    and rest: "page_chain N url (Suc (Suc k)) (d # cs) qs" by (simp_all add: ps)
  from page_chain_length [OF rest] have "qs \<noteq> []" by auto
  with Cons.prems(2) ps have last: "pg_next (last qs) = JNull" by simp
  have "read_pages R U N cn url (Suc (Suc k)) m (py_str R c # seen) d = (qs, d # cs, None)"
    by (rule Cons.IH [OF rest last Cons.prems(3)]) (use Cons.prems(4-6) n in auto)
  with p Cons.prems(3,5) show ?case by (simp add: n ps)
qed

text \<open>Whatever the server does, a read follows its cursors.\<close>

lemma read_follows:
  assumes "read_pages R U N cn url k n seen c = (ps, cs, e)"
  shows "length cs \<le> n \<and> length ps \<le> length cs \<and> distinct (map (py_str R) cs) \<and>
    set (map (py_str R) cs) \<inter> set seen = {} \<and> (cs \<noteq> [] \<longrightarrow> hd cs = c \<and> validate_url U (N k) cn url = Inr ()) \<and>
    page_chain N url k (take (length ps) cs) ps \<and>
    (e = None \<longrightarrow> ps \<noteq> [] \<and> length ps = length cs \<and> pg_next (last ps) = JNull)"
  using assms
proof (induction n arbitrary: k seen c ps cs e)
  case (Suc n)
  show ?case
  proof (cases "validate_url U (N k) cn url")
    case (Inr v)
    show ?thesis
    proof (cases "py_str R c \<in> set seen")
      case False
      show ?thesis
      proof (cases "bind_res (nt_get (N (Suc k)) url c) page_of")
        case (Inl x)
        with Suc.prems \<open>validate_url U (N k) cn url = Inr v\<close> False show ?thesis by auto
      next
        case (Inr p)
        show ?thesis
        proof (cases "pg_next p = JNull")
          case True
          with Suc.prems \<open>validate_url U (N k) cn url = Inr v\<close> False Inr show ?thesis by auto
        next
          case more: False
          obtain qs ds f where rest: "read_pages R U N cn url (Suc (Suc k)) n (py_str R c # seen) (pg_next p) = (qs, ds, f)"
            by (metis prod_cases3)
          with Suc.prems \<open>validate_url U (N k) cn url = Inr v\<close> False Inr more
          have eq: "ps = p # qs" "cs = c # ds" "e = f" by auto
          note IH = Suc.IH [OF rest]
          have "page_chain N url (Suc (Suc k)) (take (length qs) ds) qs" using IH by blast
          moreover have "(case take (length qs) ds of [] \<Rightarrow> True | d # _ \<Rightarrow> pg_next p = d \<and> d \<noteq> JNull)"
            using IH more by (cases ds; cases qs) auto
          ultimately have "page_chain N url k (take (length ps) cs) ps" using Inr eq by simp
          with IH eq False \<open>validate_url U (N k) cn url = Inr v\<close> show ?thesis by auto
        qed
      qed
    qed (use Suc.prems Inr in auto)
  qed (use Suc.prems in auto)
qed auto

lemma odata_follows:
  assumes "odata_pages U N cn k n seen url = (ps, us, e)"
  shows "length us \<le> n \<and> distinct us \<and> set us \<inter> set seen = {} \<and> length ps \<le> length us \<and>
    (\<forall>i < length us. validate_url U (N (k + 2 * i)) cn (us ! i) = Inr ()) \<and>
    (e = None \<longrightarrow> ps \<noteq> [] \<and> length ps = length us \<and> \<not> truthy (pg_next (last ps)))"
  using assms
proof (induction n arbitrary: k seen url ps us e)
  case (Suc n)
  show ?case
  proof (cases url)
    case (JStr u)
    show ?thesis
    proof (cases "u \<in> set seen \<or> (\<exists>x. validate_url U (N k) cn u = Inl x)")
      case True
      with Suc.prems JStr show ?thesis by (auto split: if_splits)
    next
      case False
      then obtain v where v: "validate_url U (N k) cn u = Inr v" "u \<notin> set seen" by (cases "validate_url U (N k) cn u") auto
      show ?thesis
      proof (cases "bind_res (nt_get (N (Suc k)) u JNull) odata_page")
        case (Inl x)
        with Suc.prems JStr v show ?thesis by auto
      next
        case (Inr p)
        show ?thesis
        proof (cases "truthy (pg_next p)")
          case False
          with Suc.prems JStr v Inr show ?thesis by auto
        next
          case True
          obtain qs ds f where rest: "odata_pages U N cn (Suc (Suc k)) n (u # seen) (pg_next p) = (qs, ds, f)"
            by (metis prod_cases3)
          with Suc.prems JStr v Inr True have eq: "ps = p # qs" "us = u # ds" "e = f" by auto
          note ih = Suc.IH [OF rest]
          have "validate_url U (N (k + 2 * i)) cn (us ! i) = Inr ()" if "i < length us" for i
          proof (cases i)
            case 0
            with v show ?thesis by (simp add: eq)
          next
            case (Suc j)
            with that have "j < length ds" by (simp add: eq)
            with ih have "validate_url U (N (Suc (Suc k) + 2 * j)) cn (ds ! j) = Inr ()" by blast
            moreover have "Suc (Suc k) + 2 * j = k + 2 * i" using Suc by simp
            ultimately show ?thesis using Suc by (simp add: eq del: add_Suc)
          qed
          with ih eq v show ?thesis by auto
        qed
      qed
    qed
  qed (use Suc.prems in auto)
qed auto

section \<open>Internal addresses\<close>

text \<open>The address ranges of loopback, link-local and private networks, as closed intervals.\<close>

definition internal_ranges4 :: "(32 word \<times> 32 word) list" where
  "internal_ranges4 =
     [(v4 10 0 0 0, v4 10 255 255 255), (v4 127 0 0 0, v4 127 255 255 255), (v4 169 254 0 0, v4 169 254 255 255),
      (v4 172 16 0 0, v4 172 31 255 255), (v4 192 168 0 0, v4 192 168 255 255)]"

definition internal4 :: "32 word \<Rightarrow> bool" where
  "internal4 a \<longleftrightarrow> (\<exists>(lo, hi) \<in> set internal_ranges4. lo \<le> a \<and> a \<le> hi)"

definition internal6 :: "128 word \<Rightarrow> bool" where
  "internal6 a \<longleftrightarrow> a = 1 \<or>
     (v6 [0xFC00, 0, 0, 0, 0, 0, 0, 0] \<le> a \<and> a \<le> v6 [0xFDFF, 0xFFFF, 0xFFFF, 0xFFFF, 0xFFFF, 0xFFFF, 0xFFFF, 0xFFFF]) \<or>
     (v6 [0xFE80, 0, 0, 0, 0, 0, 0, 0] \<le> a \<and> a \<le> v6 [0xFEBF, 0xFFFF, 0xFFFF, 0xFFFF, 0xFFFF, 0xFFFF, 0xFFFF, 0xFFFF])"

definition internal :: "address \<Rightarrow> bool" where
  "internal = by_version internal4 internal6"

lemma in_prefix_between:
  fixes a b c :: "'a::len word"
  assumes "b \<le> a" "a \<le> c" "unat c div 2 ^ (LENGTH('a) - n) = unat b div 2 ^ (LENGTH('a) - n)"
  shows "in_prefix a (b, n)"
proof -
  have "unat b div 2 ^ (LENGTH('a) - n) \<le> unat a div 2 ^ (LENGTH('a) - n)"
    "unat a div 2 ^ (LENGTH('a) - n) \<le> unat c div 2 ^ (LENGTH('a) - n)"
    using assms(1,2) by (auto simp: word_le_nat_alt intro: div_le_mono)
  with assms(3) have "unat a div 2 ^ (LENGTH('a) - n) = unat b div 2 ^ (LENGTH('a) - n)" by simp
  then have "unat (drop_bit (LENGTH('a) - n) a) = unat (drop_bit (LENGTH('a) - n) b)"
    by (subst (1 2) unat_drop_bit_eq) (simp add: drop_bit_eq_div)
  then show ?thesis unfolding in_prefix_def prod.case by (simp only: word_unat_eq_iff)
qed

lemma in_prefix_all [simp]: "in_prefix a (b, LENGTH('a)) \<longleftrightarrow> a = b" for a b :: "'a::len word"
  by (simp add: in_prefix_def)

lemma internal4_private: "internal4 a \<Longrightarrow> private4 a"
proof -
  assume "internal4 a"
  then have "(\<exists>n \<in> set private_networks4. in_prefix a n) \<and> a \<noteq> v4 192 0 0 9 \<and> a \<noteq> v4 192 0 0 10"
  proof (unfold internal4_def internal_ranges4_def, clarsimp, elim disjE conjE)
    assume "v4 10 0 0 0 \<le> a" "a \<le> v4 10 255 255 255"
    then show "(\<exists>n \<in> set private_networks4. in_prefix a n) \<and> a \<noteq> v4 192 0 0 9 \<and> a \<noteq> v4 192 0 0 10"
      using in_prefix_between [of "v4 10 0 0 0" a "v4 10 255 255 255" 8] by (auto simp: private_networks4_def v4_def)
  next
    assume "v4 127 0 0 0 \<le> a" "a \<le> v4 127 255 255 255"
    then show "(\<exists>n \<in> set private_networks4. in_prefix a n) \<and> a \<noteq> v4 192 0 0 9 \<and> a \<noteq> v4 192 0 0 10"
      using in_prefix_between [of "v4 127 0 0 0" a "v4 127 255 255 255" 8] by (auto simp: private_networks4_def v4_def)
  next
    assume "v4 169 254 0 0 \<le> a" "a \<le> v4 169 254 255 255"
    then show "(\<exists>n \<in> set private_networks4. in_prefix a n) \<and> a \<noteq> v4 192 0 0 9 \<and> a \<noteq> v4 192 0 0 10"
      using in_prefix_between [of "v4 169 254 0 0" a "v4 169 254 255 255" 16] by (auto simp: private_networks4_def v4_def)
  next
    assume "v4 172 16 0 0 \<le> a" "a \<le> v4 172 31 255 255"
    then show "(\<exists>n \<in> set private_networks4. in_prefix a n) \<and> a \<noteq> v4 192 0 0 9 \<and> a \<noteq> v4 192 0 0 10"
      using in_prefix_between [of "v4 172 16 0 0" a "v4 172 31 255 255" 12] by (auto simp: private_networks4_def v4_def)
  next
    assume "v4 192 168 0 0 \<le> a" "a \<le> v4 192 168 255 255"
    then show "(\<exists>n \<in> set private_networks4. in_prefix a n) \<and> a \<noteq> v4 192 0 0 9 \<and> a \<noteq> v4 192 0 0 10"
      using in_prefix_between [of "v4 192 168 0 0" a "v4 192 168 255 255" 16] by (auto simp: private_networks4_def v4_def)
  qed
  moreover have "in_prefix a (b, 32) \<longleftrightarrow> a = b" for b using in_prefix_all [of a b] by simp
  ultimately show ?thesis by (simp add: private4_def)
qed

text \<open>An address within a prefix of at least 16 bits starts with the first group of its base.\<close>

lemma in_prefix_top:
  fixes a b :: "128 word"
  assumes "in_prefix a (b, n)" "16 \<le> n" "n \<le> 128"
  shows "unat a div 2 ^ 112 = unat b div 2 ^ 112"
proof -
  have "drop_bit (n - 16) (drop_bit (128 - n) a) = drop_bit (n - 16) (drop_bit (128 - n) b)"
    using assms(1) by (simp add: in_prefix_def)
  then have "drop_bit 112 a = drop_bit 112 b" using assms(2,3) by simp
  then have "unat (drop_bit 112 a) = unat (drop_bit 112 b)" by simp
  then show ?thesis by (subst (asm) (1 2) unat_drop_bit_eq) (simp add: drop_bit_eq_div)
qed

lemma internal6_unsafe:
  assumes "internal6 a" "mapped a = None"
  shows "unsafe_address (V6 a)"
  using assms(1) unfolding internal6_def
proof (elim disjE conjE)
  assume "a = 1"
  then show ?thesis using assms(2) by (simp add: unsafe_address_def is_loopback_def by_version_def)
next
  assume lo: "v6 [0xFC00, 0, 0, 0, 0, 0, 0, 0] \<le> a"
    and hi: "a \<le> v6 [0xFDFF, 0xFFFF, 0xFFFF, 0xFFFF, 0xFFFF, 0xFFFF, 0xFFFF, 0xFFFF]"
  from in_prefix_between [OF lo hi, of 7] have "in_prefix a (v6 [0xFC00, 0, 0, 0, 0, 0, 0, 0], 7)" by (simp add: v6_def)
  moreover have "\<not> in_prefix a e" if "e \<in> set private_exceptions6" for e
  proof
    assume e: "in_prefix a e"
    from lo have "0xFC00 \<le> unat a div 2 ^ 112"
      using div_le_mono [of "unat (v6 [0xFC00, 0, 0, 0, 0, 0, 0, 0])" "unat a" "2 ^ 112"] by (simp add: word_le_nat_alt v6_def)
    moreover have "unat a div 2 ^ 112 = 0x2001"
      using that e in_prefix_top [of a "fst e" "snd e"] by (auto simp: private_exceptions6_def v6_def)
    ultimately show False by simp
  qed
  ultimately have "is_private (V6 a)"
    using assms(2) by (simp add: is_private_def by_version_def private_networks6_def)
  then show ?thesis by (simp add: unsafe_address_def)
next
  assume lo: "v6 [0xFE80, 0, 0, 0, 0, 0, 0, 0] \<le> a"
    and hi: "a \<le> v6 [0xFEBF, 0xFFFF, 0xFFFF, 0xFFFF, 0xFFFF, 0xFFFF, 0xFFFF, 0xFFFF]"
  from in_prefix_between [OF lo hi, of 10] have "is_link_local (V6 a)"
    using assms(2) by (simp add: is_link_local_def by_version_def v6_def)
  then show ?thesis by (simp add: unsafe_address_def)
qed

lemma internal_unsafe: "internal a \<Longrightarrow> unsafe_address a"
proof (cases a)
  case (V4 x)
  assume "internal a"
  with V4 internal4_private [of x] show ?thesis
    by (simp add: internal_def unsafe_address_def is_private_def by_version_def)
next
  case (V6 x)
  assume i: "internal a"
  show ?thesis
  proof (cases "mapped x")
    case None
    with i V6 internal6_unsafe [of x] show ?thesis by (simp add: internal_def by_version_def)
  next
    case (Some y)
    with i V6 internal4_private [of y] show ?thesis
      by (simp add: internal_def unsafe_address_def is_private_def by_version_def)
  qed
qed

lemma validate_url_Inr:
  assumes "validate_url U N cn url = Inr v"
  obtains p h found where "urlparse U url = Some p" "up_host p = Some h" "JStr h \<in> set (cn_hosts cn)"
    "up_scheme p \<in> {''http'', ''https''}" "\<not> truthy_str (up_user p)" "\<not> truthy_str (up_password p)"
    "nt_resolve N h (port_of p) = Inr found" "found \<noteq> []"
    "\<forall>a \<in> set found. \<not> metadata_address a \<and> (internal a \<longrightarrow> cn_private cn)"
proof -
  from assms obtain p found where p: "urlparse U url = Some p" "listed_destination p [''http'', ''https''] (cn_hosts cn)"
    and r: "nt_resolve N (the (up_host p)) (port_of p) = Inr found" "found \<noteq> []"
      "\<forall>a \<in> set found. \<not> metadata_address a \<and> (unsafe_address a \<longrightarrow> cn_private cn)"
    by (auto simp: validate_url_def check_resolution_def res_elim)
  from p(2) obtain h where h: "up_host p = Some h"
    by (cases "up_host p") (auto simp: listed_destination_def truthy_str_def)
  show thesis
    by (rule that [of p h found]) (use p r h internal_unsafe in \<open>auto simp: listed_destination_def\<close>)
qed

section \<open>Guarantees\<close>

text \<open>
  A read reaches every page. When the pages of a server form a chain from the first cursor to a page
  without a next one, with cursors that differ as text and no more pages than the limit, the read
  yields exactly these pages in their order, with one request for each, and ends without an error.
\<close>

theorem reads_reach_every_page:
  assumes "page_chain N (page_url (N 0) cn path) 0 (c # cs) ps" "pg_next (last ps) = JNull"
    and "\<And>i. validate_url U (N i) cn (page_url (N 0) cn path) = Inr ()" "distinct (map (py_str R) (c # cs))"
    and "length (c # cs) \<le> cn_max_pages cn"
  shows "read_http R U N cn path c = (ps, c # cs, None)"
  unfolding read_http_def by (rule read_whole) (use assms in auto)

text \<open>
  C28. OData reads are whole or fail, and stay where they may go. Whatever the server answers, the read
  ends after at most the limit of requests, never repeats a link, and ends without an error only
  after a page that names no next one, with a page for every request. Every link it follows, from
  whatever page it came, has a host of the allow list and no credentials, and when the link was checked
  its host resolved to no metadata address and, unless private networks are authorised, to no address of
  a loopback, link-local or private range, also not as an IPv4 address mapped into IPv6. Nothing is
  said of the address the request then connects to.
\<close>

theorem odata_reads_stay_on_allowed_hosts:
  assumes "read_odata U N cn path = (ps, us, e)"
  shows "length us \<le> cn_max_pages cn \<and> distinct us \<and>
    (e = None \<longrightarrow> ps \<noteq> [] \<and> length ps = length us \<and> \<not> truthy (pg_next (last ps))) \<and>
    (\<forall>i < length us. \<exists>p h found. urlparse U (us ! i) = Some p \<and> up_host p = Some h \<and> JStr h \<in> set (cn_hosts cn) \<and>
       \<not> truthy_str (up_user p) \<and> \<not> truthy_str (up_password p) \<and> nt_resolve (N (2 * i)) h (port_of p) = Inr found \<and>
       (\<forall>a \<in> set found. \<not> metadata_address a \<and> (internal a \<longrightarrow> cn_private cn)))"
proof -
  note follows = odata_follows [OF assms [unfolded read_odata_def]]
  have "\<exists>p h found. urlparse U (us ! i) = Some p \<and> up_host p = Some h \<and> JStr h \<in> set (cn_hosts cn) \<and>
       \<not> truthy_str (up_user p) \<and> \<not> truthy_str (up_password p) \<and> nt_resolve (N (2 * i)) h (port_of p) = Inr found \<and>
       (\<forall>a \<in> set found. \<not> metadata_address a \<and> (internal a \<longrightarrow> cn_private cn))" if "i < length us" for i
  proof -
    from follows that have "validate_url U (N (0 + 2 * i)) cn (us ! i) = Inr ()" by blast
    then have "validate_url U (N (2 * i)) cn (us ! i) = Inr ()" by simp
    then show ?thesis by (rule validate_url_Inr) (intro exI conjI; assumption)
  qed
  with follows show ?thesis by blast
qed

section \<open>Examples\<close>

definition vendor_url :: "string \<Rightarrow> url_parts option" where
  "vendor_url t = (if prefix_of ''https://v.io/'' t
     then Some \<lparr>up_scheme = ''https'', up_host = Some ''v.io'', up_user = None, up_password = None, up_port = None,
       up_query = [], up_fragment = []\<rparr> else None)"

definition vendor_parsers :: parsers where
  "vendor_parsers = \<lparr>urlparse = vendor_url, read_int = (\<lambda>_. None)\<rparr>"

definition vendor_connector :: connector where
  "vendor_connector = \<lparr>cn_base = ''https://v.io/'', cn_hosts = [JStr ''v.io''], cn_max_pages = 10, cn_private = False\<rparr>"

text \<open>A server of two pages, in both protocols.\<close>

definition vendor_network :: "address list \<Rightarrow> network" where
  "vendor_network found =
     \<lparr>nt_resolve = (\<lambda>_ _. Inr found), nt_join = (@),
      nt_get = (\<lambda>u c.
        if u = ''https://v.io/o'' then Inr (JObj [(''value'', JList [JInt 1]), (''@odata.nextLink'', JStr ''https://v.io/p'')])
        else if c = JNull then Inr (JObj [(''items'', JList [JInt 1]), (''next_cursor'', JStr ''b'')])
        else Inr (JObj [(''items'', JList [JInt 2])]))\<rparr>"

definition public_network :: network where
  "public_network = vendor_network [V4 (v4 93 184 216 34)]"

lemma public_address: "\<not> metadata_address (V4 (v4 93 184 216 34)) \<and> \<not> unsafe_address (V4 (v4 93 184 216 34))"
  by (simp add: unsafe_address_def metadata_address_def is_loopback_def is_link_local_def is_private_def is_reserved_def
      is_multicast_def by_version_def loopback4_def link_local4_def private4_def private_networks4_def reserved4_def
      multicast4_def in_prefix_def v4_def)

lemma vendor_validates:
  assumes "prefix_of ''https://v.io/'' u"
  shows "validate_url vendor_parsers public_network vendor_connector u = Inr ()"
  using assms public_address
  by (simp add: validate_url_def vendor_parsers_def vendor_url_def vendor_connector_def listed_destination_def truthy_str_def
      check_resolution_def public_network_def vendor_network_def guard_res_def)

theorem reads_reach_every_page_witness:
  "\<exists>ps. read_http ascii_runtime vendor_parsers (\<lambda>_. public_network) vendor_connector ''/items'' JNull = (ps, [JNull, JStr ''b''], None) \<and>
     map pg_items ps = [JList [JInt 1], JList [JInt 2]]"
proof -
  let ?url = "page_url public_network vendor_connector ''/items''"
  let ?ps = "[\<lparr>pg_items = JList [JInt 1], pg_next = JStr ''b'', pg_complete = False\<rparr>,
    \<lparr>pg_items = JList [JInt 2], pg_next = JNull, pg_complete = True\<rparr>]"
  have url: "?url = ''https://v.io/items''"
    by (simp add: page_url_def public_network_def vendor_network_def vendor_connector_def rstrip_slash_def)
  have "page_chain (\<lambda>_. public_network) ?url 0 [JNull, JStr ''b''] ?ps"
    unfolding url by (simp add: public_network_def vendor_network_def page_of_def dindex_def dget_def dget_or_def)
  moreover have "validate_url vendor_parsers public_network vendor_connector ?url = Inr ()"
    unfolding url by (rule vendor_validates) simp
  moreover have "distinct (map (py_str ascii_runtime) [JNull, JStr ''b''])" by (simp add: py_str_def)
  ultimately have "read_http ascii_runtime vendor_parsers (\<lambda>_. public_network) vendor_connector ''/items'' JNull = (?ps, [JNull, JStr ''b''], None)"
    by (intro reads_reach_every_page) (simp_all add: vendor_connector_def)
  then show ?thesis by (intro exI [of _ ?ps]) simp
qed

theorem odata_reads_stay_on_allowed_hosts_witness:
  "\<exists>ps us. read_odata vendor_parsers (\<lambda>_. public_network) vendor_connector ''o'' = (ps, us, None) \<and>
     us = [''https://v.io/o'', ''https://v.io/p''] \<and> (\<forall>i < 2. \<exists>p. urlparse vendor_parsers (us ! i) = Some p \<and> up_host p = Some ''v.io'')"
proof -
  have url: "page_url public_network vendor_connector ''o'' = ''https://v.io/o''"
    by (simp add: page_url_def public_network_def vendor_network_def vendor_connector_def rstrip_slash_def)
  have pages: "nt_get public_network ''https://v.io/o'' JNull =
      Inr (JObj [(''value'', JList [JInt 1]), (''@odata.nextLink'', JStr ''https://v.io/p'')])"
    "nt_get public_network ''https://v.io/p'' JNull = Inr (JObj [(''items'', JList [JInt 1]), (''next_cursor'', JStr ''b'')])"
    by (simp_all add: public_network_def vendor_network_def)
  let ?p = "\<lparr>pg_items = JList [JInt 1], pg_next = JStr ''https://v.io/p'', pg_complete = False\<rparr>"
  let ?q = "\<lparr>pg_items = JList [], pg_next = JNull, pg_complete = True\<rparr>"
  have "odata_pages vendor_parsers (\<lambda>_. public_network) vendor_connector k (Suc (Suc n)) [] (JStr ''https://v.io/o'') =
      ([?p, ?q], [''https://v.io/o'', ''https://v.io/p''], None)" for k n
    using vendor_validates [of "''https://v.io/o''"] vendor_validates [of "''https://v.io/p''"]
    by (simp add: pages odata_page_def as_dict_def dget_def dget_or_def)
  moreover have max: "cn_max_pages vendor_connector = Suc (Suc 8)" by (simp add: vendor_connector_def)
  ultimately have r: "read_odata vendor_parsers (\<lambda>_. public_network) vendor_connector ''o'' =
      ([?p, ?q], [''https://v.io/o'', ''https://v.io/p''], None)"
    unfolding read_odata_def url max by blast
  have "length [''https://v.io/o'', ''https://v.io/p''] = 2" by simp
  with odata_reads_stay_on_allowed_hosts [OF r] have "\<forall>i < 2. \<exists>p. urlparse vendor_parsers ([''https://v.io/o'', ''https://v.io/p''] ! i) = Some p \<and>
      up_host p = Some ''v.io''"
    by (fastforce simp: vendor_connector_def numeral_2_eq_2)
  with r show ?thesis by blast
qed

text \<open>
  The metadata address in its IPv6 form is none of the two that are refused, since \<open>in\<close> is false across
  versions: with private networks authorised, a host that resolves to it is let through.
\<close>

lemma mapped_metadata_address_passes:
  "check_resolution (vendor_network [V6 (v6 [0, 0, 0, 0, 0, 0xFFFF, 0xA9FE, 0xA9FE])]) True ''v.io'' 443 = Inr () \<and>
   mapped (v6 [0, 0, 0, 0, 0, 0xFFFF, 0xA9FE, 0xA9FE]) = Some (v4 169 254 169 254)"
  by (simp add: check_resolution_def vendor_network_def guard_res_def metadata_address_def v6_def mapped_def v4_def)

text \<open>
  Cursors are compared as text: the first request without a cursor is remembered as \<open>"None"\<close>, so a server
  whose second cursor is that word is reported as a loop.
\<close>

lemma cursor_none_is_taken_for_a_loop:
  assumes "bind_res (nt_get (N (Suc k)) url JNull) page_of = Inr p" "pg_next p = JStr ''None''"
    and "\<And>i. validate_url U (N i) cn url = Inr ()"
  shows "read_pages R U N cn url k (Suc (Suc n)) [] JNull = ([p], [JNull], Some (PyError ''RuntimeError''))"
  using assms by (simp add: py_str_def)

text \<open>An empty next link ends an OData read, and its last page is reported as incomplete.\<close>

lemma empty_next_link_ends_incomplete:
  assumes "nt_get (N (Suc k)) u JNull = Inr (JObj [(''value'', items), (''@odata.nextLink'', JStr [])])"
    and "validate_url U (N k) cn u = Inr v"
  shows "odata_pages U N cn k (Suc n) [] (JStr u) = ([\<lparr>pg_items = items, pg_next = JStr [], pg_complete = False\<rparr>], [u], None)"
  using assms by (simp add: odata_page_def as_dict_def dget_def dget_or_def)

text \<open>
  Rebinding: the host resolves to a public address for the check and to an internal one when the request
  is sent, and the read goes through.
\<close>

lemma rebinding_passes_the_check:
  "\<exists>N. nt_resolve (N 1) ''v.io'' 443 = Inr [V4 (v4 169 254 169 254)] \<and>
     (\<exists>p. odata_pages vendor_parsers N vendor_connector 0 (Suc 0) [] (JStr ''https://v.io/q'') = ([p], [''https://v.io/q''], None))"
proof -
  define N where "N = (\<lambda>k :: nat. if k = 0 then public_network
     else (vendor_network [V4 (v4 169 254 169 254)])\<lparr>nt_get := (\<lambda>_ _. Inr (JObj []))\<rparr>)"
  have "validate_url vendor_parsers (N 0) vendor_connector ''https://v.io/q'' = Inr ()"
    using vendor_validates [of "''https://v.io/q''"] by (simp add: N_def)
  moreover have "bind_res (nt_get (N (Suc 0)) ''https://v.io/q'' JNull) odata_page = Inr \<lparr>pg_items = JList [], pg_next = JNull, pg_complete = True\<rparr>"
    by (simp add: N_def odata_page_def as_dict_def dget_def dget_or_def)
  ultimately have "odata_pages vendor_parsers N vendor_connector 0 (Suc 0) [] (JStr ''https://v.io/q'') =
      ([\<lparr>pg_items = JList [], pg_next = JNull, pg_complete = True\<rparr>], [''https://v.io/q''], None)"
    by simp
  moreover have "nt_resolve (N 1) ''v.io'' 443 = Inr [V4 (v4 169 254 169 254)]" by (simp add: N_def vendor_network_def)
  ultimately show ?thesis by blast
qed

end
