(* ===== verification/Probes.thy ===== *)
theory Probes
  imports Paging Secrets
begin

text \<open>
  The probe of a connection test (the middle of \<open>test_source_connection\<close> in api/routes.py): for every
  kind of source what is resolved and checked before anything outside is touched. The database driver, a
  plain GET and the first bytes of a file are parameters.
\<close>

record prober =
  pb_database :: "string \<Rightarrow> unit res"
  pb_get :: "string \<Rightarrow> unit res"
  pb_data_root :: string
  pb_is_file :: "string \<Rightarrow> bool"
  pb_first_byte :: "string \<Rightarrow> unit res"

definition config_text :: "source_row \<Rightarrow> string \<Rightarrow> string res" where
  "config_text c k = bind_res (dindex (sc_config c) k) as_str"

definition config_hosts :: "source_row \<Rightarrow> json list res" where
  "config_hosts c = py_iter (dget_or (sc_config c) ''allowed_hosts'' (JList []))"

definition probe_database ::
    "parsers \<Rightarrow> network \<Rightarrow> outside \<Rightarrow> vault_settings \<Rightarrow> prober \<Rightarrow> secret_state \<Rightarrow> source_row \<Rightarrow> string res" where
  "probe_database U N X G Q s c =
     bind_res (config_text c ''secret_ref'') (\<lambda>ref.
     bind_res (resolve_secret U N X G (sc_ws c) s ref) (\<lambda>url.
     bind_res (new_database url) (\<lambda>_.
     bind_res (pb_database Q url) (\<lambda>_. Inr ''postgresql''))))"

definition probe_http :: "runtime \<Rightarrow> parsers \<Rightarrow> network \<Rightarrow> prober \<Rightarrow> source_row \<Rightarrow> string res" where
  "probe_http R U N Q c =
     bind_res (config_text c ''base_url'') (\<lambda>base.
     bind_res (config_hosts c) (\<lambda>hosts.
     bind_res (new_connector U N base hosts 10000 (truthy (dget (sc_config c) ''allow_private''))) (\<lambda>cn.
     let url = page_url N cn (py_str R (dget_or (sc_config c) ''test_path'' (JStr ''health'')))
     in bind_res (validate_url U N cn url) (\<lambda>_.
        bind_res (pb_get Q url) (\<lambda>_. Inr (sc_kind c))))))"

definition probe_file :: "outside \<Rightarrow> prober \<Rightarrow> source_row \<Rightarrow> string res" where
  "probe_file X Q c =
     bind_res (config_text c ''path'') (\<lambda>raw.
     bind_res (real_path X raw) (\<lambda>path.
     bind_res (guard_res (prefix_of (pb_data_root Q @ ''/'') path \<and> pb_is_file Q path) (PyError ''ValueError'')) (\<lambda>_.
     bind_res (pb_first_byte Q path) (\<lambda>_. Inr ''filesystem''))))"

definition probe_webhook :: "parsers \<Rightarrow> network \<Rightarrow> outside \<Rightarrow> vault_settings \<Rightarrow> secret_state \<Rightarrow> source_row \<Rightarrow> string res" where
  "probe_webhook U N X G s c =
     bind_res (config_text c ''secret_ref'') (\<lambda>ref.
     bind_res (resolve_secret U N X G (sc_ws c) s ref) (\<lambda>_. Inr ''signed_webhook''))"

definition probe_object :: "parsers \<Rightarrow> prober \<Rightarrow> source_row \<Rightarrow> string res" where
  "probe_object U Q c =
     bind_res (config_hosts c) (\<lambda>hosts.
     bind_res (config_text c ''object_url'') (\<lambda>url.
     bind_res (validate_object_url U hosts url) (\<lambda>_.
     bind_res (pb_get Q url) (\<lambda>_. Inr ''authorized_object_url''))))"

definition probe_kind ::
    "runtime \<Rightarrow> parsers \<Rightarrow> network \<Rightarrow> outside \<Rightarrow> vault_settings \<Rightarrow> prober \<Rightarrow> secret_state \<Rightarrow> source_row \<Rightarrow> string res" where
  "probe_kind R U N X G Q s c =
     (if sc_kind c = ''postgresql'' then probe_database U N X G Q s c
      else if sc_kind c \<in> {''rest'', ''odata''} then probe_http R U N Q c
      else if sc_kind c \<in> {''csv'', ''jsonl'', ''parquet''} then probe_file X Q c
      else if sc_kind c = ''webhook'' then probe_webhook U N X G s c
      else if sc_kind c \<in> {''s3'', ''azure_blob'', ''gcs''} then probe_object U Q c
      else Inl (PyError ''ValueError''))"

text \<open>Every exception becomes its class name.\<close>

definition class_of :: "err \<Rightarrow> string" where
  "class_of e = (case e of HTTPException _ _ \<Rightarrow> ''HTTPException'' | PolicyError _ \<Rightarrow> ''PolicyError''
     | PyError c \<Rightarrow> c | IntegrityError _ \<Rightarrow> ''IntegrityError'')"

definition probe_source ::
    "runtime \<Rightarrow> parsers \<Rightarrow> network \<Rightarrow> outside \<Rightarrow> vault_settings \<Rightarrow> prober \<Rightarrow> secret_state \<Rightarrow> source_row \<Rightarrow> string + string" where
  "probe_source R U N X G Q s c = map_sum class_of id (probe_kind R U N X G Q s c)"

definition test_connection ::
    "runtime \<Rightarrow> parsers \<Rightarrow> network \<Rightarrow> outside \<Rightarrow> vault_settings \<Rightarrow> prober \<Rightarrow> service \<Rightarrow> string \<Rightarrow> secret_state \<Rightarrow>
     string res \<times> secret_state" where
  "test_connection R U N X G Q sv key s =
     (let (r, t) = test_source_connection R (probe_source R U N X G Q s) sv key (ss_db s)
      in (r, s\<lparr>ss_db := t\<rparr>))"

text \<open>
  A REST or OData source is only called healthy after its own host and the host of the address under
  test were found on its list and outside the metadata addresses, and outside the internal networks
  unless the source allows private ones.
\<close>

lemma healthy_sources_are_listed:
  assumes "probe_source R U N X G Q s c = Inr protocol" "sc_kind c \<in> {''rest'', ''odata''}"
  obtains base hosts cn url p h found where "config_text c ''base_url'' = Inr base" "config_hosts c = Inr hosts"
    "new_connector U N base hosts 10000 (truthy (dget (sc_config c) ''allow_private'')) = Inr cn"
    "pb_get Q url = Inr ()" "urlparse U url = Some p" "up_host p = Some h" "JStr h \<in> set hosts" "nt_resolve N h (port_of p) = Inr found"
    "\<forall>a \<in> set found. \<not> metadata_address a \<and> (internal a \<longrightarrow> truthy (dget (sc_config c) ''allow_private''))"
proof -
  from assms have "probe_http R U N Q c = Inr protocol"
    by (cases "probe_kind R U N X G Q s c") (auto simp: probe_source_def probe_kind_def)
  then obtain base hosts cn where c: "config_text c ''base_url'' = Inr base" "config_hosts c = Inr hosts"
    "new_connector U N base hosts 10000 (truthy (dget (sc_config c) ''allow_private'')) = Inr cn"
    and v: "validate_url U N cn (page_url N cn (py_str R (dget_or (sc_config c) ''test_path'' (JStr ''health'')))) = Inr ()"
    and g: "pb_get Q (page_url N cn (py_str R (dget_or (sc_config c) ''test_path'' (JStr ''health'')))) = Inr ()"
    by (auto simp: probe_http_def res_elim Let_def)
  from c(3) have "cn_hosts cn = hosts" "cn_private cn = truthy (dget (sc_config c) ''allow_private'')"
    by (auto simp: new_connector_def res_elim)
  with v show thesis by (elim validate_url_Inr) (rule that [OF c g], simp_all)
qed

text \<open>A connection test changes the status of the source and the audit trail, and never a secret.\<close>

lemma connection_tests_keep_secrets: "ss_refs (snd (test_connection R U N X G Q sv key s)) = ss_refs s"
  by (simp add: test_connection_def split: prod.splits)

end
