(* ===== verification/Consumer.thy ===== *)
theory Consumer
  imports Publication Webhook "HOL-Library.Countable"
begin

text \<open>
  The other end of the publication: the consumer that the repository ships (the sink of
  demo_services.py), the request the relay sends it (publication/service.py) and the two together,
  over a network that loses requests and answers. SQLite's conversion of a value to a column, the JSON
  text of a payload and the shared secret of the consumer are parameters; the digest, the JSON parser
  and \<open>float\<close> are those of the webhooks.
\<close>

section \<open>The consumer\<close>

text \<open>A row of the table \<open>events\<close>, whose primary key is the event id.\<close>

record sink_row =
  sk_event :: json
  sk_entity :: json
  sk_version :: json
  sk_body :: string
  sk_received :: string

text \<open>What a TEXT and an INTEGER column store for a value; None when the driver cannot bind it.\<close>

record sink_tools =
  st_text :: "json \<Rightarrow> json option"
  st_integer :: "json \<Rightarrow> json option"
  st_dumps :: "dict \<Rightarrow> string"
  st_secret :: string

definition check_event ::
    "hook_tools \<Rightarrow> string \<Rightarrow> real \<Rightarrow> string \<Rightarrow> string option \<Rightarrow> string option \<Rightarrow> unit res" where
  "check_event W secret now body signature timestamp =
     bind_res (guard_res (truthy_str signature \<and> truthy_str timestamp) (HTTPException 401 ''signature required'')) (\<lambda>_.
     bind_res (from_option (HTTPException 401 ''invalid timestamp'') (hk_stamp W (the timestamp))) (\<lambda>t.
     bind_res (guard_res (fresh_stamp now t) (HTTPException 401 ''signature timestamp expired'')) (\<lambda>_.
     bind_res (guard_res (secret \<noteq> []) (HTTPException 401 ''invalid signature'')) (\<lambda>_.
     bind_res (guard_res (ascii (the signature)) (PyError ''TypeError'')) (\<lambda>_.
     guard_res (hk_hmac W secret (the timestamp) body = the signature) (HTTPException 401 ''invalid signature''))))))"

definition new_row :: "sink_tools \<Rightarrow> json \<Rightarrow> string \<Rightarrow> string \<Rightarrow> sink_row res" where
  "new_row Q payload body now =
     (case payload of
        JObj d \<Rightarrow>
          bind_res (dindex d ''event_id'') (\<lambda>i.
          case (st_text Q i, st_text Q (dget d ''entity_id''), st_integer Q (dget d ''entity_version'')) of
            (Some i', Some e, Some v) \<Rightarrow>
              Inr \<lparr>sk_event = i', sk_entity = e, sk_version = v, sk_body = body, sk_received = now\<rparr>
          | _ \<Rightarrow> Inl (PyError ''ProgrammingError''))
      | _ \<Rightarrow> Inl (PyError ''TypeError''))"

text \<open>\<open>INSERT OR IGNORE\<close>: a null in the key meets no other null.\<close>

definition insert_or_ignore :: "sink_row \<Rightarrow> sink_row list \<Rightarrow> sink_row list" where
  "insert_or_ignore r k =
     (if sk_event r \<noteq> JNull \<and> (\<exists>q \<in> set k. sk_event q = sk_event r) then k else row_add r k)"

definition receive_event ::
    "sink_tools \<Rightarrow> hook_tools \<Rightarrow> real \<Rightarrow> string \<Rightarrow> string \<Rightarrow> string option \<Rightarrow> string option \<Rightarrow> string option \<Rightarrow>
     sink_row list \<Rightarrow> dict res \<times> sink_row list" where
  "receive_event Q W now now_text body signature timestamp rehearse k =
     (case bind_res (from_option (PyError ''JSONDecodeError'') (hk_json W body)) (\<lambda>payload.
           bind_res (check_event W (st_secret Q) now body signature timestamp) (\<lambda>_.
           bind_res (new_row Q payload body now_text) (\<lambda>row. Inr (payload, row)))) of
        Inl e \<Rightarrow> (Inl e, k)
      | Inr (payload, row) \<Rightarrow>
          let k' = insert_or_ignore row k in
          (if rehearse = Some ''lost-response-after-commit''
           then Inl (HTTPException 504 ''simulated lost response after durable consumer commit'')
           else Inr [(''accepted'', JBool True),
                     (''business_effect'', JStr (if length k' > length k then ''inserted'' else ''deduplicated'')),
                     (''event_id'', (case payload of JObj d \<Rightarrow> dget d ''event_id'' | _ \<Rightarrow> JNull))], k'))"

definition event_receipt :: "ident \<Rightarrow> sink_row list \<Rightarrow> dict res" where
  "event_receipt i k =
     (case find (\<lambda>r. sk_event r = JStr i) k of
        None \<Rightarrow> Inl (HTTPException 404 ''event not found'')
      | Some r \<Rightarrow> Inr [(''event_id'', JStr i), (''entity_id'', sk_entity r), (''entity_version'', sk_version r),
                      (''received_at'', JStr (sk_received r))])"

text \<open>The status of an answer: an exception that nothing handles is a 500.\<close>

definition status_of :: "'a res \<Rightarrow> nat" where
  "status_of x = (case x of Inr _ \<Rightarrow> 200 | Inl (HTTPException c _) \<Rightarrow> c | Inl _ \<Rightarrow> 500)"

section \<open>The exchange\<close>

text \<open>
  What happens to one request: it passes and its answer comes back, it is lost and the relay sees what
  the client makes of that, or it arrives and the answer is lost. With it go the time stamp the relay
  writes (\<open>str(int(now))\<close>), the clock of the consumer and the header for its rehearsed failure.
\<close>

datatype wire = Through | Lost reply | Silent reply

record passage =
  ps_wire :: wire
  ps_stamp :: string
  ps_heard :: real
  ps_arrival :: string
  ps_rehearse :: "string option"

definition post_event ::
    "sink_tools \<Rightarrow> hook_tools \<Rightarrow> string \<Rightarrow> passage \<Rightarrow> outbox_event \<Rightarrow> sink_row list \<Rightarrow> reply \<times> sink_row list" where
  "post_event Q W secret p e k =
     (let body = st_dumps Q (ev_payload e);
          signature = hk_hmac W secret (ps_stamp p) body;
          (answer, k') = receive_event Q W (ps_heard p) (ps_arrival p) body (Some signature)
            (Some (ps_stamp p)) (ps_rehearse p) k
      in case ps_wire p of
           Through \<Rightarrow> (Answered (status_of answer), k')
         | Lost r \<Rightarrow> (r, k)
         | Silent r \<Rightarrow> (r, k'))"

type_synonym route = "outbox_event \<Rightarrow> passage"

definition deliver_event ::
    "runtime \<Rightarrow> publication \<Rightarrow> ident \<Rightarrow> sink_tools \<Rightarrow> hook_tools \<Rightarrow> string \<Rightarrow> route \<Rightarrow> outbox_event \<Rightarrow>
     db \<times> sink_row list \<Rightarrow> db \<times> sink_row list" where
  "deliver_event R cfg ws Q W secret path e st = (case st of (s, k) \<Rightarrow>
     let (r, k') = post_event Q W secret (path e) e k
     in (relay_event R cfg ws (\<lambda>_. r) e s, k'))"

definition deliver_events ::
    "runtime \<Rightarrow> publication \<Rightarrow> ident \<Rightarrow> sink_tools \<Rightarrow> hook_tools \<Rightarrow> string \<Rightarrow> route \<Rightarrow> db \<times> sink_row list \<Rightarrow>
     db \<times> sink_row list" where
  "deliver_events R cfg ws Q W secret path st =
     fold (deliver_event R cfg ws Q W secret path) (oldest (relayable ws) (fst st)) st"

text \<open>A relay that is killed after \<open>n\<close> events, or while the next one is on the wire.\<close>

definition deliver_killed ::
    "runtime \<Rightarrow> publication \<Rightarrow> ident \<Rightarrow> sink_tools \<Rightarrow> hook_tools \<Rightarrow> string \<Rightarrow> route \<Rightarrow> nat \<Rightarrow> bool \<Rightarrow>
     db \<times> sink_row list \<Rightarrow> db \<times> sink_row list" where
  "deliver_killed R cfg ws Q W secret path n mid st =
     (let es = oldest (relayable ws) (fst st);
          (t, k) = fold (deliver_event R cfg ws Q W secret path) (take n es) st
      in if mid \<and> n < length es
         then (relay_mark R cfg ws (es ! n) t, snd (post_event Q W secret (path (es ! n)) (es ! n) k))
         else (t, k))"

definition sink_receipt :: "sink_row list \<Rightarrow> outbox_event \<Rightarrow> receipt_reply" where
  "sink_receipt k e =
     (case event_receipt (ev_id e) k of
        Inr d \<Rightarrow> Receipt 200 (JObj d)
      | Inl (HTTPException c _) \<Rightarrow> Receipt c (JObj [(''detail'', JNull)])
      | Inl _ \<Rightarrow> Receipt 500 JNull)"

text \<open>What the network may not do: answer in the place of the consumer that the event was accepted.\<close>

definition honest :: "route \<Rightarrow> bool" where
  "honest path \<longleftrightarrow> (\<forall>e. case ps_wire (path e) of Through \<Rightarrow> True | Lost r \<Rightarrow> \<not> is_accepted r | Silent r \<Rightarrow> \<not> is_accepted r)"

definition honest_receipts :: "sink_row list \<Rightarrow> (outbox_event \<Rightarrow> receipt_reply) \<Rightarrow> bool" where
  "honest_receipts k reply \<longleftrightarrow> (\<forall>e. reply e = sink_receipt k e \<or> (\<exists>n. reply e = NoReply n) \<or>
     (\<exists>c doc. reply e = Receipt c doc \<and> c \<noteq> 404 \<and> \<not> accepted c))"

section \<open>What is relied upon\<close>

text \<open>
  SQLite stores a string in a TEXT column, a 64-bit integer in an INTEGER column and a null in both as
  they are; parsing the text of a dict gives back its members that are strings, integers or null.
\<close>

definition plain :: "json option \<Rightarrow> bool" where
  "plain v \<longleftrightarrow> (case v of None \<Rightarrow> True | Some JNull \<Rightarrow> True | Some (JStr _) \<Rightarrow> True | Some (JInt _) \<Rightarrow> True | _ \<Rightarrow> False)"

definition sends_back :: "sink_tools \<Rightarrow> hook_tools \<Rightarrow> dict \<Rightarrow> bool" where
  "sends_back Q W d \<longleftrightarrow> (\<exists>d'. hk_json W (st_dumps Q d) = Some (JObj d') \<and> (\<forall>k. plain (map_of d k) \<longrightarrow> map_of d' k = map_of d k))"

definition tools_ok :: "sink_tools \<Rightarrow> hook_tools \<Rightarrow> bool" where
  "tools_ok Q W \<longleftrightarrow> (\<forall>s. st_text Q (JStr s) = Some (JStr s)) \<and> st_text Q JNull = Some JNull \<and>
     (\<forall>i. \<bar>i\<bar> < 2 ^ 63 \<longrightarrow> st_integer Q (JInt i) = Some (JInt i)) \<and> st_integer Q JNull = Some JNull \<and>
     (\<forall>d. distinct (dkeys d) \<longrightarrow> sends_back Q W d)"

text \<open>What every event of the service carries: its own id, and an entity and a version if any.\<close>

definition presentable :: "outbox_event \<Rightarrow> bool" where
  "presentable e \<longleftrightarrow> distinct (dkeys (ev_payload e)) \<and> map_of (ev_payload e) ''event_id'' = Some (JStr (ev_id e)) \<and>
     (\<exists>x. dget (ev_payload e) ''entity_id'' = (case x of None \<Rightarrow> JNull | Some i \<Rightarrow> JStr i)) \<and>
     (\<exists>x. dget (ev_payload e) ''entity_version'' = (case x of None \<Rightarrow> JNull | Some v \<Rightarrow> JInt v) \<and> (\<forall>v. x = Some v \<longrightarrow> \<bar>v\<bar> < 2 ^ 63))"

text \<open>An event whose payload states its version, as approvals and merges do and splits do not.\<close>

definition versioned :: "outbox_event \<Rightarrow> bool" where
  "versioned e \<longleftrightarrow> dget (ev_payload e) ''entity_version'' = (case ev_version e of None \<Rightarrow> JNull | Some v \<Rightarrow> JInt v)"

section \<open>What the consumer stores\<close>

definition stores :: "sink_row \<Rightarrow> outbox_event \<Rightarrow> bool" where
  "stores r e \<longleftrightarrow> sk_event r = JStr (ev_id e) \<and> sk_version r = dget (ev_payload e) ''entity_version''"

abbreviation known :: "outbox_event \<Rightarrow> sink_row list \<Rightarrow> bool" where
  "known e k \<equiv> JStr (ev_id e) \<in> sk_event ` set k"

lemma same_content:
  assumes "event_content q = event_content e"
  shows "ev_id q = ev_id e" "ev_payload q = ev_payload e" "ev_version q = ev_version e" "ev_ws q = ev_ws e"
    "presentable q \<longleftrightarrow> presentable e" "stores r q \<longleftrightarrow> stores r e" "versioned q \<longleftrightarrow> versioned e"
  using assms by (simp_all add: event_content_def presentable_def stores_def versioned_def)

lemma new_row_stores:
  assumes "tools_ok Q W" "presentable e"
  shows "\<exists>payload row. hk_json W (st_dumps Q (ev_payload e)) = Some payload \<and> new_row Q payload body now = Inr row \<and> stores row e"
proof -
  from assms obtain d where d: "hk_json W (st_dumps Q (ev_payload e)) = Some (JObj d)"
    "\<And>k. plain (map_of (ev_payload e) k) \<Longrightarrow> map_of d k = map_of (ev_payload e) k"
    by (auto simp: tools_ok_def presentable_def sends_back_def)
  from assms(2) obtain x y where p: "map_of (ev_payload e) ''event_id'' = Some (JStr (ev_id e))"
    "dget (ev_payload e) ''entity_id'' = (case x of None \<Rightarrow> JNull | Some i \<Rightarrow> JStr i)"
    "dget (ev_payload e) ''entity_version'' = (case y of None \<Rightarrow> JNull | Some v \<Rightarrow> JInt v)"
    "\<forall>v. y = Some v \<longrightarrow> \<bar>v\<bar> < 2 ^ 63" by (auto simp: presentable_def)
  have same: "dget d k = dget (ev_payload e) k"
    if "dget (ev_payload e) k = JNull \<or> (\<exists>s. dget (ev_payload e) k = JStr s) \<or> (\<exists>i. dget (ev_payload e) k = JInt i)" for k
    using that d(2) [of k] by (auto simp: dget_def plain_def split: option.splits)
  have i: "dindex d ''event_id'' = Inr (JStr (ev_id e))" using d(2) [of "''event_id''"] p(1) by (simp add: dindex_def plain_def from_option_def)
  have en: "dget d ''entity_id'' = dget (ev_payload e) ''entity_id''" by (rule same) (use p(2) in \<open>auto split: option.splits\<close>)
  have ver: "dget d ''entity_version'' = dget (ev_payload e) ''entity_version''" by (rule same) (use p(3) in \<open>auto split: option.splits\<close>)
  have "st_text Q (dget d ''entity_id'') = Some (dget d ''entity_id'')"
    using assms(1) p(2) by (auto simp: en tools_ok_def split: option.splits)
  moreover have "st_integer Q (dget d ''entity_version'') = Some (dget (ev_payload e) ''entity_version'')"
    using assms(1) p(3,4) by (auto simp: ver tools_ok_def split: option.splits)
  ultimately show ?thesis
    using assms(1) d(1) i by (simp add: new_row_def tools_ok_def stores_def bind_res_def)
qed

text \<open>Whatever happens to a request, the table gains its event at most once, and an accepted one is in it.\<close>

lemma receive_cases:
  assumes "tools_ok Q W" "presentable e"
    "receive_event Q W now t (st_dumps Q (ev_payload e)) sig stamp sim k = (x, k')"
  shows "(k' = k \<or> (\<exists>row. k' = k @ [row] \<and> stores row e \<and> \<not> known e k)) \<and> (accepted (status_of x) \<longrightarrow> known e k')"
proof -
  obtain payload row where row: "hk_json W (st_dumps Q (ev_payload e)) = Some payload"
    "new_row Q payload (st_dumps Q (ev_payload e)) t = Inr row" "stores row e"
    using new_row_stores [OF assms(1,2)] by blast
  show ?thesis
  proof (cases "check_event W (st_secret Q) now (st_dumps Q (ev_payload e)) sig stamp")
    case (Inl err)
    then have "(\<exists>c. err = HTTPException 401 c) \<or> err = PyError ''TypeError''"
      by (auto simp: check_event_def bind_res_def guard_res_def from_option_def split: if_splits option.splits)
    then have "\<not> accepted (status_of (Inl err :: dict res))"
      by (auto simp: status_of_def accepted_def)
    with Inl assms(3) row(1) show ?thesis by (simp add: receive_event_def bind_res_def from_option_def)
  next
    case (Inr u)
    have k': "k' = insert_or_ignore row k"
      using assms(3) Inr row(1,2) by (auto simp: receive_event_def bind_res_def from_option_def Let_def split: if_splits)
    have "known e k'"
      using row(3) by (force simp: k' insert_or_ignore_def stores_def image_iff)
    then show ?thesis using row(3) by (auto simp: k' insert_or_ignore_def stores_def row_add_def)
  qed
qed

lemma post_cases:
  assumes "tools_ok Q W" "presentable e" "honest path" "post_event Q W secret (path e) e k = (r, k')"
  shows "k' = k \<or> (\<exists>row. k' = k @ [row] \<and> stores row e \<and> \<not> known e k)" "is_accepted r \<Longrightarrow> known e k'"
proof -
  obtain x j where x: "receive_event Q W (ps_heard (path e)) (ps_arrival (path e)) (st_dumps Q (ev_payload e))
      (Some (hk_hmac W secret (ps_stamp (path e)) (st_dumps Q (ev_payload e)))) (Some (ps_stamp (path e)))
      (ps_rehearse (path e)) k = (x, j)" by (metis surj_pair)
  note c = receive_cases [OF assms(1,2) x]
  from x assms(4) have r: "(r, k') = (case ps_wire (path e) of Through \<Rightarrow> (Answered (status_of x), j) | Lost r \<Rightarrow> (r, k) | Silent r \<Rightarrow> (r, j))"
    by (simp add: post_event_def Let_def)
  from r c show "k' = k \<or> (\<exists>row. k' = k @ [row] \<and> stores row e \<and> \<not> known e k)" by (auto split: wire.splits)
  have h: "case ps_wire (path e) of Through \<Rightarrow> True | Lost r \<Rightarrow> \<not> is_accepted r | Silent r \<Rightarrow> \<not> is_accepted r"
    using assms(3) by (simp add: honest_def)
  assume "is_accepted r"
  with r c h show "known e k'" by (auto simp: is_accepted_def split: wire.splits)
qed

section \<open>The invariant of the exchange\<close>

definition in_step :: "db \<Rightarrow> sink_row list \<Rightarrow> bool" where
  "in_step s k \<longleftrightarrow> distinct (map ev_id (events s)) \<and> (\<forall>e \<in> set (events s). presentable e) \<and>
     distinct (map sk_event k) \<and> (\<forall>r \<in> set k. \<exists>e \<in> set (events s). stores r e) \<and>
     (\<forall>e \<in> set (events s). ev_status e = EventDelivered \<longrightarrow> known e k)"

lemma in_step_related:
  assumes "in_step s k" "map ev_id (events t) = map ev_id (events s)"
    and "\<And>q. q \<in> set (events t) \<Longrightarrow> \<exists>e \<in> set (events s). event_content q = event_content e \<and>
      (ev_status q = EventDelivered \<longrightarrow> ev_status e = EventDelivered \<or> known e k')"
    and "k' = k \<or> (\<exists>row. k' = k @ [row] \<and> (\<exists>e \<in> set (events s). stores row e \<and> \<not> known e k))"
  shows "in_step t k'"
proof -
  have d: "distinct (map ev_id (events s))" and dt: "distinct (map ev_id (events t))" using assms(1,2) by (simp_all add: in_step_def)
  have "set k \<subseteq> set k'" using assms(4) by auto
  then have more: "known e k \<Longrightarrow> known e k'" for e by blast
  have kept: "\<exists>q \<in> set (events t). event_content q = event_content e" if "e \<in> set (events s)" for e
  proof -
    have "ev_id e \<in> set (map ev_id (events t))" unfolding assms(2) using that by simp
    then obtain q where q: "q \<in> set (events t)" "ev_id q = ev_id e" by auto
    then obtain e' where e': "e' \<in> set (events s)" "event_content q = event_content e'" using assms(3) by blast
    with q(2) same_content(1) have "e' = e" using find_key_unique [OF d e'(1) that] by metis
    with q e' show ?thesis by blast
  qed
  have rows: "\<exists>e \<in> set (events s). stores r e" if "r \<in> set k'" for r
    using that assms(1,4) by (auto simp: in_step_def)
  have "distinct (map sk_event k')"
    using assms(1,4) by (auto simp: in_step_def stores_def)
  moreover have "\<exists>q \<in> set (events t). stores r q" if "r \<in> set k'" for r
    using rows [OF that] kept same_content(6) by metis
  moreover have "presentable q \<and> (ev_status q = EventDelivered \<longrightarrow> known q k')" if "q \<in> set (events t)" for q
  proof -
    from assms(3) [OF that] obtain e where e: "e \<in> set (events s)" "event_content q = event_content e"
      "ev_status q = EventDelivered \<longrightarrow> ev_status e = EventDelivered \<or> known e k'" by blast
    have "presentable e" "ev_status e = EventDelivered \<longrightarrow> known e k" using assms(1) e(1) by (simp_all add: in_step_def)
    with e same_content(1,5) [OF e(2)] more show ?thesis by auto
  qed
  ultimately show ?thesis using dt by (simp add: in_step_def)
qed

lemma modified_rows:
  "q \<in> set (row_modify ev_id i f es) \<Longrightarrow> q \<in> set es \<or> (\<exists>e \<in> set es. ev_id e = i \<and> q = f e)"
  by (auto simp: row_modify_def update_rows_def split: if_splits)

lemma in_step_modified:
  assumes "in_step s k" "events t = row_modify ev_id i f (events s)" "\<And>q. event_content (f q) = event_content q"
    and "\<And>q. q \<in> set (events s) \<Longrightarrow> ev_id q = i \<Longrightarrow> ev_status (f q) = EventDelivered \<Longrightarrow> ev_status q = EventDelivered \<or> known q k'"
    and "k' = k \<or> (\<exists>row. k' = k @ [row] \<and> (\<exists>e \<in> set (events s). stores row e \<and> \<not> known e k))"
  shows "in_step t k'"
proof (rule in_step_related [OF assms(1) _ _ assms(5)])
  have "ev_id (f q) = ev_id q" for q using same_content(1) assms(3) by blast
  then show "map ev_id (events t) = map ev_id (events s)" by (simp add: assms(2) row_modify_def update_rows_def)
next
  fix q assume "q \<in> set (events t)"
  then consider "q \<in> set (events s)" | e where "e \<in> set (events s)" "ev_id e = i" "q = f e"
    using modified_rows assms(2) by metis
  then show "\<exists>e \<in> set (events s). event_content q = event_content e \<and>
      (ev_status q = EventDelivered \<longrightarrow> ev_status e = EventDelivered \<or> known e k')"
    by cases (use assms(3,4) in blast)+
qed

text \<open>The event in hand was read before the batch began; the store has a row of its content.\<close>

abbreviation stored :: "outbox_event \<Rightarrow> db \<Rightarrow> bool" where
  "stored e s \<equiv> \<exists>q \<in> set (events s). event_content q = event_content e"

lemma stored_presentable:
  assumes "stored e s" "in_step s k"
  shows "presentable e"
proof -
  from assms(1) obtain q where q: "q \<in> set (events s)" "event_content q = event_content e" by blast
  with assms(2) have "presentable q" by (simp add: in_step_def)
  with same_content(5) [OF q(2)] show ?thesis by blast
qed

lemma posted_row:
  assumes "in_step s k" "tools_ok Q W" "stored e s" "honest path" "post_event Q W secret (path e) e k = (r, k')"
  shows "k' = k \<or> (\<exists>row. k' = k @ [row] \<and> (\<exists>e \<in> set (events s). stores row e \<and> \<not> known e k))"
    and "\<And>q. ev_id q = ev_id e \<Longrightarrow> is_accepted r \<Longrightarrow> known q k'"
proof -
  note p = post_cases [OF assms(2) stored_presentable [OF assms(3,1)] assms(4,5)]
  from assms(3) obtain q where q: "q \<in> set (events s)" "event_content q = event_content e" by blast
  show "k' = k \<or> (\<exists>row. k' = k @ [row] \<and> (\<exists>e \<in> set (events s). stores row e \<and> \<not> known e k))"
  proof (cases "k' = k")
    case False
    then obtain row where row: "k' = k @ [row]" "stores row e" "\<not> known e k" using p(1) by blast
    then have "stores row q" "\<not> known q k" using same_content(1,6) [OF q(2)] by simp_all
    with row(1) q(1) show ?thesis by blast
  qed simp
  show "\<And>q. ev_id q = ev_id e \<Longrightarrow> is_accepted r \<Longrightarrow> known q k'" using p(2) by simp
qed

lemma modified_stored: "events t = row_modify ev_id i f (events s) \<Longrightarrow> (\<And>q. event_content (f q) = event_content q) \<Longrightarrow>
    stored e s \<Longrightarrow> stored e t"
proof -
  assume t: "events t = row_modify ev_id i f (events s)" "\<And>q. event_content (f q) = event_content q" and "stored e s"
  then obtain q where q: "q \<in> set (events s)" "event_content q = event_content e" by blast
  then have "(if ev_id q = i then f q else q) \<in> set (events t)" by (simp add: t(1) row_modify_def update_rows_def)
  with q(2) t(2) show "stored e t" by (metis (full_types))
qed

lemma deliver_event_step:
  assumes "in_step s k" "tools_ok Q W" "stored e s" "honest path"
    and "deliver_event R cfg ws Q W secret path e (s, k) = (t, k')"
  shows "in_step t k' \<and> (\<forall>e. stored e s \<longrightarrow> stored e t)"
proof -
  obtain r where p: "post_event Q W secret (path e) e k = (r, k')" "t = relay_event R cfg ws (\<lambda>_. r) e s"
    using assms(5) by (auto simp: deliver_event_def split: prod.splits)
  have ev: "events t = row_modify ev_id (ev_id e) (\<lambda>q. settle_event r (mark_event q)) (events s)"
    by (simp add: p(2) relay_event_events)
  have c: "event_content (settle_event r (mark_event q)) = event_content q" for q
    by (simp add: settle_event_def mark_event_def event_content_def)
  have st: "is_accepted r" if "ev_status (settle_event r (mark_event q)) = EventDelivered" for q
    using that by (auto simp: settle_event_def reply_status_def is_accepted_def split: reply.splits if_splits)
  have "in_step t k'"
    by (rule in_step_modified [OF assms(1) ev c _ posted_row(1) [OF assms(1-4) p(1)]])
      (use st posted_row(2) [OF assms(1-4) p(1)] in blast)
  with modified_stored [OF ev c] show ?thesis by blast
qed

lemma deliver_fold_step:
  assumes "in_step s k" "tools_ok Q W" "\<forall>e \<in> set es. stored e s" "honest path"
    and "fold (deliver_event R cfg ws Q W secret path) es (s, k) = (t, k')"
  shows "in_step t k' \<and> (\<forall>e. stored e s \<longrightarrow> stored e t)"
  using assms(1,3,5)
proof (induction es arbitrary: s k)
  case Nil
  then show ?case by simp
next
  case (Cons e es)
  obtain u j where u: "deliver_event R cfg ws Q W secret path e (s, k) = (u, j)" by (metis surj_pair)
  have "in_step u j \<and> (\<forall>e. stored e s \<longrightarrow> stored e u)"
    by (rule deliver_event_step [OF Cons.prems(1) assms(2) _ assms(4) u]) (use Cons.prems(2) in simp)
  with Cons.IH [of u j] Cons.prems(2,3) u show ?case by auto
qed

lemma deliver_killed_step:
  assumes "in_step s k" "tools_ok Q W" "honest path"
    and "deliver_killed R cfg ws Q W secret path n mid (s, k) = (t, k')"
  shows "in_step t k'"
proof -
  let ?es = "oldest (relayable ws) s"
  obtain u j where u: "fold (deliver_event R cfg ws Q W secret path) (take n ?es) (s, k) = (u, j)" by (metis surj_pair)
  have all: "\<forall>e \<in> set ?es. stored e s" using oldest_mem by blast
  then have "\<forall>e \<in> set (take n ?es). stored e s" by (blast dest: in_set_takeD)
  from deliver_fold_step [OF assms(1,2) this assms(3) u] have uj: "in_step u j" "\<And>e. stored e s \<Longrightarrow> stored e u" by blast+
  show ?thesis
  proof (cases "mid \<and> n < length ?es")
    case False
    with assms(4) u uj(1) show ?thesis by (auto simp: deliver_killed_def Let_def)
  next
    case True
    let ?e = "?es ! n"
    obtain r where p: "post_event Q W secret (path ?e) ?e j = (r, k')" and t: "t = relay_mark R cfg ws ?e u"
      using assms(4) True u by (cases "post_event Q W secret (path ?e) ?e j") (simp add: deliver_killed_def Let_def)
    have e: "stored ?e u" using True all uj(2) nth_mem by blast
    have ev: "events t = row_modify ev_id (ev_id ?e) mark_event (events u)" by (simp add: t relay_mark_events)
    show ?thesis
      by (rule in_step_modified [OF uj(1) ev _ _ posted_row(1) [OF uj(1) assms(2) e assms(3) p]])
        (simp_all add: mark_event_def event_content_def)
  qed
qed

text \<open>Reconciliation reads the table of the consumer and does not change it.\<close>

lemma receipt_known:
  assumes "honest_receipts k reply" "reply e = Receipt c (JObj d)" "accepted c"
  shows "known e k"
proof -
  have "sink_receipt k e = Receipt c (JObj d)"
    using assms unfolding honest_receipts_def by (metis receipt_reply.distinct(1) receipt_reply.inject(1))
  with assms(3) show ?thesis
    by (auto simp: sink_receipt_def event_receipt_def accepted_def find_Some_iff image_iff split: option.splits) (metis nth_mem)
qed

lemma list_all2_mem: "list_all2 P xs ys \<Longrightarrow> x \<in> set xs \<Longrightarrow> \<exists>y \<in> set ys. P x y"
  by (induction xs ys rule: list_all2_induct) auto

lemma reconciled_rows:
  assumes "distinct (map ev_id (events s))" "reconcile_events R cfg ws reply s = Inr (vs, t)" "q \<in> set (events t)"
  shows "q \<in> set (events s) \<or> (\<exists>e \<in> set (oldest (reconcilable ws) s). \<exists>v \<in> set vs. resolved reply v e q)"
proof -
  let ?es = "oldest (reconcilable ws) s"
  have sub: "set ?es \<subseteq> set (events s)" using oldest_mem by blast
  from reconcile_fold [OF assms(2) [unfolded reconcile_events_def] assms(1) distinct_oldest [OF assms(1)] sub]
  have f: "list_all2 (verdict_shown reply t) ?es vs" "map ev_id (events t) = map ev_id (events s)"
    "\<forall>e \<in> set (events s) - set ?es. e \<in> set (events t)" by simp_all
  have dt: "distinct (map ev_id (events t))" using f(2) assms(1) by simp
  have "ev_id q \<in> set (map ev_id (events t))" using assms(3) by simp
  then obtain e where e: "e \<in> set (events s)" "ev_id e = ev_id q" unfolding f(2) by auto
  show ?thesis
  proof (cases "e \<in> set ?es")
    case False
    with f(3) e(1) have "e \<in> set (events t)" by blast
    with find_key_unique [OF dt this assms(3)] e show ?thesis by simp
  next
    case True
    then obtain v e' where v: "v \<in> set vs" "e' \<in> set (events t)" "resolved reply v e e'"
      using list_all2_mem [OF f(1)] unfolding verdict_shown_def by blast
    have "event_content e' = event_content e" using v(3) by (simp add: resolved_def)
    then have "ev_id e' = ev_id e" by (rule same_content(1))
    with find_key_unique [OF dt v(2) assms(3)] e(2) have "e' = q" by simp
    with v True show ?thesis by blast
  qed
qed

lemma reconcile_step:
  assumes "in_step s k" "honest_receipts k reply" "reconcile_events R cfg ws reply s = Inr (vs, t)"
  shows "in_step t k"
proof (rule in_step_related [OF assms(1)])
  have d: "distinct (map ev_id (events s))" using assms(1) by (simp add: in_step_def)
  have sub: "set (oldest (reconcilable ws) s) \<subseteq> set (events s)" using oldest_mem by blast
  from reconcile_fold [OF assms(3) [unfolded reconcile_events_def] d distinct_oldest [OF d] sub]
  show "map ev_id (events t) = map ev_id (events s)" by simp
  fix q assume "q \<in> set (events t)"
  from reconciled_rows [OF d assms(3) this]
  show "\<exists>e \<in> set (events s). event_content q = event_content e \<and>
      (ev_status q = EventDelivered \<longrightarrow> ev_status e = EventDelivered \<or> known e k)"
  proof
    assume "\<exists>e \<in> set (oldest (reconcilable ws) s). \<exists>v \<in> set vs. resolved reply v e q"
    then obtain e v where e: "e \<in> set (events s)" "resolved reply v e q" using sub by blast
    then have "ev_status q = EventDelivered \<longrightarrow> ev_status e = EventDelivered \<or> known e k"
      using receipt_known [OF assms(2)] by (cases v) (auto simp: resolved_def)
    with e show ?thesis by (auto simp: resolved_def)
  qed blast
qed simp

section \<open>Runs of the exchange\<close>

text \<open>
  From an empty outbox: the service adds events, relays of any workspace deliver over any honest
  network and are killed anywhere, and reconciliations read receipts that may also fail to come.
\<close>

inductive exchange_run :: "runtime \<Rightarrow> sink_tools \<Rightarrow> hook_tools \<Rightarrow> string \<Rightarrow> db \<Rightarrow> sink_row list \<Rightarrow> bool"
  for R Q W secret where
  Start: "events s = [] \<Longrightarrow> exchange_run R Q W secret s []"
| Work: "exchange_run R Q W secret s k \<Longrightarrow> events t = events s @ es \<Longrightarrow>
    \<forall>e \<in> set es. ev_status e = EventPending \<and> presentable e \<Longrightarrow> distinct (map ev_id (events t)) \<Longrightarrow>
    exchange_run R Q W secret t k"
| Deliver: "exchange_run R Q W secret s k \<Longrightarrow> honest path \<Longrightarrow>
    deliver_killed R cfg ws Q W secret path n mid (s, k) = (t, k') \<Longrightarrow> exchange_run R Q W secret t k'"
| Resolve: "exchange_run R Q W secret s k \<Longrightarrow> honest_receipts k reply \<Longrightarrow>
    reconcile_events R cfg ws reply s = Inr (vs, t) \<Longrightarrow> exchange_run R Q W secret t k"

lemma run_in_step:
  assumes "tools_ok Q W" "exchange_run R Q W secret s k"
  shows "in_step s k"
  using assms(2)
proof induction
  case (Start s)
  then show ?case by (simp add: in_step_def)
next
  case (Work s k t es)
  then show ?case by (auto simp: in_step_def)
next
  case (Deliver s k path cfg ws n mid t k')
  from deliver_killed_step [OF Deliver.IH assms(1) Deliver.hyps(2,3)] show ?case .
next
  case (Resolve s k reply cfg ws vs t)
  from reconcile_step [OF Resolve.IH Resolve.hyps(2,3)] show ?case .
qed

section \<open>A network that works again\<close>

definition working :: "sink_tools \<Rightarrow> hook_tools \<Rightarrow> string \<Rightarrow> route \<Rightarrow> bool" where
  "working Q W secret path \<longleftrightarrow> secret \<noteq> [] \<and> st_secret Q = secret \<and>
     (\<forall>t b. hk_hmac W secret t b \<noteq> [] \<and> ascii (hk_hmac W secret t b)) \<and>
     (\<forall>e. ps_wire (path e) = Through \<and> ps_rehearse (path e) \<noteq> Some ''lost-response-after-commit'' \<and> ps_stamp (path e) \<noteq> [] \<and>
       (\<exists>t. hk_stamp W (ps_stamp (path e)) = Some t \<and> fresh_stamp (ps_heard (path e)) t))"

lemma working_honest: "working Q W secret path \<Longrightarrow> honest path"
  by (simp add: working_def honest_def)

lemma working_post:
  assumes "working Q W secret path" "tools_ok Q W" "presentable e"
  shows "fst (post_event Q W secret (path e) e k) = Answered 200"
proof -
  from assms(1) obtain t where w: "ps_wire (path e) = Through" "ps_rehearse (path e) \<noteq> Some ''lost-response-after-commit''"
    "ps_stamp (path e) \<noteq> []" "hk_stamp W (ps_stamp (path e)) = Some t" "fresh_stamp (ps_heard (path e)) t"
    "secret \<noteq> []" "st_secret Q = secret" "\<And>t b. hk_hmac W secret t b \<noteq> [] \<and> ascii (hk_hmac W secret t b)"
    unfolding working_def by metis
  obtain payload row where row: "hk_json W (st_dumps Q (ev_payload e)) = Some payload"
    "new_row Q payload (st_dumps Q (ev_payload e)) (ps_arrival (path e)) = Inr row"
    using new_row_stores [OF assms(2,3)] by blast
  show ?thesis
    using w row by (simp add: post_event_def receive_event_def check_event_def bind_res_def from_option_def guard_res_def
        truthy_str_def Let_def status_of_def)
qed

lemma working_fold:
  assumes "working Q W secret path" "tools_ok Q W" "\<forall>e \<in> set es. presentable e"
  shows "fst (fold (deliver_event R cfg ws Q W secret path) es (s, k)) = fold (relay_event R cfg ws (\<lambda>_. Answered 200)) es s"
  using assms(3)
proof (induction es arbitrary: s k)
  case Nil
  then show ?case by simp
next
  case (Cons e es)
  obtain k' where "post_event Q W secret (path e) e k = (Answered 200, k')"
    using working_post [OF assms(1,2)] Cons.prems by (metis list.set_intros(1) prod.collapse)
  then show ?case using Cons by (simp add: deliver_event_def)
qed

section \<open>Receipts of the consumer\<close>

definition agrees :: "sink_row list \<Rightarrow> outbox_event \<Rightarrow> bool" where
  "agrees k e \<longleftrightarrow> (\<forall>r \<in> set k. sk_event r = JStr (ev_id e) \<longrightarrow>
     sk_version r = (case ev_version e of None \<Rightarrow> JNull | Some v \<Rightarrow> JInt v))"

lemma run_agrees:
  assumes "in_step s k" "e \<in> set (events s)" "versioned e"
  shows "agrees k e"
  unfolding agrees_def
proof (intro ballI impI)
  fix r assume r: "r \<in> set k" "sk_event r = JStr (ev_id e)"
  then obtain q where q: "q \<in> set (events s)" "stores r q" using assms(1) by (auto simp: in_step_def)
  with r(2) have "ev_id q = ev_id e" by (simp add: stores_def)
  then have "q = e" using find_key_unique [of ev_id "events s" q e] assms(1,2) q(1) by (simp add: in_step_def)
  with q(2) assms(3) show "sk_version r = (case ev_version e of None \<Rightarrow> JNull | Some v \<Rightarrow> JInt v)"
    by (simp add: stores_def versioned_def)
qed

lemma sink_verdict:
  assumes "receipt_address cfg \<noteq> None"
  shows "\<exists>v t. reconcile_event R cfg (sink_receipt k) e (vs, s) = Inr (vs @ [v], t) \<and> (agrees k e \<longrightarrow> v \<noteq> Unresolved)"
proof (cases "find (\<lambda>r. sk_event r = JStr (ev_id e)) k")
  case None
  then show ?thesis using assms by (auto simp: reconcile_event_def sink_receipt_def event_receipt_def)
next
  case (Some r)
  then have r: "r \<in> set k" "sk_event r = JStr (ev_id e)" by (auto dest: find_SomeD)
  have "agrees k e \<Longrightarrow> receipt_matches e [(''event_id'', JStr (ev_id e)), (''entity_id'', sk_entity r),
      (''entity_version'', sk_version r), (''received_at'', JStr (sk_received r))]"
    using r by (auto simp: agrees_def receipt_matches_def dget_def split: option.split)
  then show ?thesis
    using Some assms by (auto simp: reconcile_event_def sink_receipt_def event_receipt_def accepted_def as_dict_def bind_res_def)
qed

lemma sink_verdicts:
  assumes "receipt_address cfg \<noteq> None"
  shows "\<exists>us t. fold_res (reconcile_event R cfg (sink_receipt k)) es (vs, s) = Inr (vs @ us, t) \<and>
    list_all2 (\<lambda>e v. agrees k e \<longrightarrow> v \<noteq> Unresolved) es us"
proof (induction es arbitrary: vs s)
  case Nil
  then show ?case by simp
next
  case (Cons e es)
  obtain v u where v: "reconcile_event R cfg (sink_receipt k) e (vs, s) = Inr (vs @ [v], u)" "agrees k e \<longrightarrow> v \<noteq> Unresolved"
    using sink_verdict [OF assms] by blast
  obtain us t where "fold_res (reconcile_event R cfg (sink_receipt k)) es (vs @ [v], u) = Inr ((vs @ [v]) @ us, t)"
    "list_all2 (\<lambda>e v. agrees k e \<longrightarrow> v \<noteq> Unresolved) es us" using Cons.IH by blast
  with v have "fold_res (reconcile_event R cfg (sink_receipt k)) (e # es) (vs, s) = Inr (vs @ (v # us), t) \<and>
      list_all2 (\<lambda>e v. agrees k e \<longrightarrow> v \<noteq> Unresolved) (e # es) (v # us)" by (simp add: bind_res_def)
  then show ?case by blast
qed

lemma list_all2_both: "list_all2 P xs ys \<Longrightarrow> list_all2 Q xs ys \<Longrightarrow> list_all2 (\<lambda>x y. P x y \<and> Q x y) xs ys"
  by (auto simp: list_all2_conv_all_nth)

lemma length_filter_mono: "(\<And>x. P x \<Longrightarrow> Q x) \<Longrightarrow> length (filter P xs) \<le> length (filter Q xs)"
  by (induction xs) auto

lemma oldest_all: "length (filter P (events s)) \<le> 100 \<Longrightarrow> set (oldest P s) = {e \<in> set (events s). P e}"
  by (simp add: oldest_def)

definition outstanding :: "ident \<Rightarrow> outbox_event \<Rightarrow> bool" where
  "outstanding ws e \<longleftrightarrow> ev_ws e = ws \<and> ev_status e \<notin> {EventDelivered, EventDead}"

text \<open>After the reconciliation every event whose version the consumer can confirm is settled or free to be sent.\<close>

lemma reconciled_event:
  assumes "in_step s k" "receipt_address cfg \<noteq> None" "length (filter (outstanding ws) (events s)) \<le> 100"
    and "reconcile_events R cfg ws (sink_receipt k) s = Inr (vs, t)" "e \<in> set (events s)" "outstanding ws e" "versioned e"
  shows "\<exists>q \<in> set (events t). event_content q = event_content e \<and> (relayable ws q \<or> ev_status q = EventDelivered)"
proof -
  let ?es = "oldest (reconcilable ws) s"
  have d: "distinct (map ev_id (events s))" using assms(1) by (simp add: in_step_def)
  have sub: "set ?es \<subseteq> set (events s)" using oldest_mem by blast
  note f = reconcile_fold [OF assms(4) [unfolded reconcile_events_def] d distinct_oldest [OF d] sub]
  show ?thesis
  proof (cases "ev_status e = EventReconcile")
    case False
    then have "e \<notin> set ?es" using oldest_mem by (fastforce simp: reconcilable_def)
    with f assms(5) have "e \<in> set (events t)" by blast
    moreover have "relayable ws e" using False assms(6) by (cases "ev_status e") (auto simp: relayable_def outstanding_def)
    ultimately show ?thesis by blast
  next
    case True
    have "length (filter (reconcilable ws) (events s)) \<le> length (filter (outstanding ws) (events s))"
      by (rule length_filter_mono) (auto simp: reconcilable_def outstanding_def)
    then have batch: "e \<in> set ?es" using oldest_all assms(3,5,6) True by (simp add: reconcilable_def outstanding_def)
    obtain us u where us: "fold_res (reconcile_event R cfg (sink_receipt k)) ?es ([], s) = Inr ([] @ us, u)"
      "list_all2 (\<lambda>e v. agrees k e \<longrightarrow> v \<noteq> Unresolved) ?es us" using sink_verdicts [OF assms(2)] by blast
    with assms(4) have "vs = us" by (simp add: reconcile_events_def)
    with f us(2) have "list_all2 (\<lambda>e v. verdict_shown (sink_receipt k) t e v \<and> (agrees k e \<longrightarrow> v \<noteq> Unresolved)) ?es vs"
      by (auto intro: list_all2_both)
    from list_all2_mem [OF this batch] obtain v q where q: "q \<in> set (events t)" "resolved (sink_receipt k) v e q" "v \<noteq> Unresolved"
      using run_agrees [OF assms(1,5,7)] by (auto simp: verdict_shown_def)
    then have c: "event_content q = event_content e" by (simp add: resolved_def)
    have "ev_ws q = ws" using same_content(4) [OF c] assms(6) by (simp add: outstanding_def)
    with q(2,3) have "relayable ws q \<or> ev_status q = EventDelivered"
      by (cases v) (auto simp: resolved_def relayable_def)
    with q(1) c show ?thesis by blast
  qed
qed

lemma reconciled_few:
  assumes "distinct (map ev_id (events s))" "length (filter (outstanding ws) (events s)) \<le> 100"
    and "reconcile_events R cfg ws reply s = Inr (vs, t)" "distinct (map ev_id (events t))"
  shows "length (filter (relayable ws) (events t)) \<le> 100"
proof -
  let ?a = "filter (relayable ws) (events t)" and ?b = "filter (outstanding ws) (events s)"
  have "ev_id q \<in> ev_id ` set ?b" if "q \<in> set ?a" for q
  proof -
    from that have q: "q \<in> set (events t)" "relayable ws q" by auto
    from reconciled_rows [OF assms(1,3) q(1)] show ?thesis
    proof
      assume "q \<in> set (events s)"
      moreover have "outstanding ws q" using q(2) by (auto simp: relayable_def outstanding_def)
      ultimately show ?thesis by simp
    next
      assume "\<exists>e \<in> set (oldest (reconcilable ws) s). \<exists>v \<in> set vs. resolved reply v e q"
      then obtain e v where e: "e \<in> set (oldest (reconcilable ws) s)" "resolved reply v e q" by blast
      then have "event_content q = event_content e" by (simp add: resolved_def)
      then have "ev_id q = ev_id e" by (rule same_content(1))
      moreover have "e \<in> set ?b" using oldest_mem [OF e(1)] by (auto simp: reconcilable_def outstanding_def)
      ultimately show ?thesis by simp
    qed
  qed
  then have "set (map ev_id ?a) \<subseteq> set (map ev_id ?b)" by auto
  moreover have "distinct (map ev_id ?a)" using assms(4) by (rule distinct_map_filter)
  moreover have "distinct (map ev_id ?b)" using assms(1) by (rule distinct_map_filter)
  ultimately have "length (map ev_id ?a) \<le> length (map ev_id ?b)"
    by (metis card_mono distinct_card finite_set)
  with assms(2) show ?thesis by simp
qed

lemma stored_once:
  assumes "in_step s k" "q \<in> set (events s)" "ev_status q = EventDelivered"
  shows "length (filter (\<lambda>r. stores r q) k) = 1"
proof -
  obtain r where r: "r \<in> set k" "sk_event r = JStr (ev_id q)" using assms by (auto simp: in_step_def image_iff)
  have d: "distinct (map sk_event k)" "distinct (map ev_id (events s))" using assms(1) by (simp_all add: in_step_def)
  have "stores x q \<longleftrightarrow> x = r" if "x \<in> set k" for x
  proof
    assume "stores x q"
    then have "sk_event x = sk_event r" using r(2) by (simp add: stores_def)
    then show "x = r" using find_key_unique [OF d(1) that r(1)] by blast
  next
    assume "x = r"
    obtain e where e: "e \<in> set (events s)" "stores r e" using assms(1) r(1) by (auto simp: in_step_def)
    then have "ev_id e = ev_id q" using r(2) by (simp add: stores_def)
    then have "e = q" using find_key_unique [OF d(2) e(1) assms(2)] by blast
    with e(2) \<open>x = r\<close> show "stores x q" by simp
  qed
  then have "filter (\<lambda>r. stores r q) k = filter (\<lambda>x. x = r) k" by (auto intro: filter_cong)
  moreover have "distinct k" using d(1) by (simp add: distinct_map)
  then have "length (filter (\<lambda>x. x = r) k) = 1" using r(1) by (simp add: distinct_length_filter Int_insert_left)
  ultimately show ?thesis by simp
qed

section \<open>Every event arrives once\<close>

text \<open>
  C12. Delivery is effectively once, end to end. Take any history of an outbox and its consumer in which
  requests and answers are lost, relays are killed and reconciliations fail, and let the network work
  again while at most 100 events of the workspace (the size of one batch) are outstanding: one
  reconciliation and one relay later, every event of the workspace that states its version and was not
  dead-lettered is delivered, and for every delivered event the consumer has exactly one row, with the
  version the event states. An event whose fifth attempt was refused or failed is a dead letter, and
  nothing is said of its delivery.
\<close>

theorem events_reach_the_consumer_once:
  assumes "tools_ok Q W" "exchange_run R Q W secret s k" "working Q W secret path" "receipt_address cfg \<noteq> None"
    and "length (filter (outstanding ws) (events s)) \<le> 100"
  shows "\<exists>vs u v k'. reconcile_events R cfg ws (sink_receipt k) s = Inr (vs, u) \<and>
    deliver_events R cfg ws Q W secret path (u, k) = (v, k') \<and>
    (\<forall>e \<in> set (events s). ev_ws e = ws \<and> ev_status e \<noteq> EventDead \<and> versioned e \<longrightarrow>
      (\<exists>q \<in> set (events v). event_content q = event_content e \<and> ev_status q = EventDelivered)) \<and>
    (\<forall>q \<in> set (events v). ev_status q = EventDelivered \<longrightarrow> length (filter (\<lambda>r. stores r q) k') = 1)"
proof -
  have ok: "in_step s k" by (rule run_in_step [OF assms(1,2)])
  then have d: "distinct (map ev_id (events s))" by (simp add: in_step_def)
  obtain vs u where u: "reconcile_events R cfg ws (sink_receipt k) s = Inr (vs, u)"
    using sink_verdicts [OF assms(4)] unfolding reconcile_events_def by blast
  have "honest_receipts k (sink_receipt k)" by (simp add: honest_receipts_def)
  from reconcile_step [OF ok this u] have uk: "in_step u k" .
  let ?es = "oldest (relayable ws) u"
  obtain v k' where v: "fold (deliver_event R cfg ws Q W secret path) ?es (u, k) = (v, k')" by (metis surj_pair)
  have du: "distinct (map ev_id (events u))" using uk by (simp add: in_step_def)
  have sub: "set ?es \<subseteq> set (events u)" using oldest_mem by blast
  then have "\<forall>e \<in> set ?es. stored e u" by blast
  from deliver_fold_step [OF uk assms(1) this working_honest [OF assms(3)] v] have vk: "in_step v k'" by blast
  have "\<forall>e \<in> set ?es. presentable e" using sub uk by (auto simp: in_step_def)
  from working_fold [OF assms(3,1) this, of R cfg ws u k] v
  have "v = fold (relay_event R cfg ws (\<lambda>_. Answered 200)) ?es u" by simp
  then have ev: "events v = map (\<lambda>e. if e \<in> set ?es then settle_event (Answered 200) (mark_event e) else e) (events u)"
    using relayed_events [OF du sub distinct_oldest [OF du]] by blast
  have all: "set ?es = {e \<in> set (events u). relayable ws e}"
    by (rule oldest_all [OF reconciled_few [OF d assms(5) u du]])
  have sent: "\<exists>q' \<in> set (events v). event_content q' = event_content q \<and> ev_status q' = EventDelivered"
    if "q \<in> set (events u)" "relayable ws q \<or> ev_status q = EventDelivered" for q
  proof (intro bexI conjI)
    let ?q = "if q \<in> set ?es then settle_event (Answered 200) (mark_event q) else q"
    show "?q \<in> set (events v)" unfolding ev using that(1) by simp
    show "event_content ?q = event_content q" by (simp add: settle_event_def mark_event_def event_content_def)
    show "ev_status ?q = EventDelivered"
      using that by (auto simp: all settle_event_def reply_status_def accepted_def)
  qed
  have "\<exists>q \<in> set (events v). event_content q = event_content e \<and> ev_status q = EventDelivered"
    if e: "e \<in> set (events s)" "ev_ws e = ws" "ev_status e \<noteq> EventDead" "versioned e" for e
  proof (cases "ev_status e = EventDelivered")
    case True
    then have "e \<notin> set (oldest (reconcilable ws) s)" using oldest_mem by (fastforce simp: reconcilable_def)
    moreover have "set (oldest (reconcilable ws) s) \<subseteq> set (events s)" using oldest_mem by blast
    ultimately have "e \<in> set (events u)"
      using reconcile_fold [OF u [unfolded reconcile_events_def] d distinct_oldest [OF d]] e(1) by blast
    with sent True show ?thesis by blast
  next
    case False
    then have "outstanding ws e" using e by (simp add: outstanding_def)
    from reconciled_event [OF ok assms(4,5) u e(1) this e(4)] obtain q where
      "q \<in> set (events u)" "event_content q = event_content e" "relayable ws q \<or> ev_status q = EventDelivered" by blast
    with sent [of q] show ?thesis by simp
  qed
  moreover have "deliver_events R cfg ws Q W secret path (u, k) = (v, k')" using v by (simp add: deliver_events_def)
  moreover have "\<forall>q \<in> set (events v). ev_status q = EventDelivered \<longrightarrow> length (filter (\<lambda>r. stores r q) k') = 1"
    using stored_once [OF vk] by blast
  ultimately show ?thesis using u by blast
qed

section \<open>The events of the service\<close>

text \<open>What an approval publishes states its version.\<close>

lemma approvals_are_versioned:
  assumes "approve_master R sv t n reason s = Inr u" "\<bar>n\<bar> < 2 ^ 63"
  shows "\<exists>e. events u = events s @ [e] \<and> ev_status e = EventPending \<and> presentable e \<and> versioned e"
proof -
  obtain d where d: "find_draft (rt_entity t) n s = Some d"
    using assms(1) by (auto simp: approve_master_def res_elim)
  moreover obtain en where "reviewed_entity sv t s = Some en"
    using assms(1) by (auto simp: approve_master_def Let_def res_elim)
  ultimately have u: "u = snd (add_event R sv (en_id en) (mv_version d) ''master.approved''
      (\<lambda>i tm. [(''event_id'', JStr i), (''workspace_id'', JStr (wid sv)),
               (''entity_id'', JStr (en_id en)), (''entity_version'', JInt (mv_version d)),
               (''origin'', JStr ''recordlane''), (''values'', JObj (mv_values d)),
               (''occurred_at'', JStr (isoformat R tm)), (''schema_version'', JStr ''1.0'')])
      (modify_entity (en_id en) (set_status ApprovedEntity)
        (s\<lparr>masters := row_modify mv_id (mv_id d) (approve_version sv reason) (masters s)\<rparr>)))"
    using assms(1) by (simp add: approve_master_def bind_res_def from_option_def Let_def)
  from d have n: "mv_version d = n" by (auto simp: find_draft_def dest: find_SomeD)
  have name: "\<exists>x. JStr i = (case x of None \<Rightarrow> JNull | Some i \<Rightarrow> JStr i)" for i by (rule exI [of _ "Some i"]) simp
  have number: "\<exists>x. JInt n = (case x of None \<Rightarrow> JNull | Some v \<Rightarrow> JInt v) \<and> (\<forall>v. x = Some v \<longrightarrow> \<bar>v\<bar> < 2 ^ 63)"
    using assms(2) by (intro exI [of _ "Some n"]) simp
  show ?thesis
    using name number by (simp add: u n add_event_def Let_def modify_entity_def row_add_def presentable_def versioned_def dkeys_def dget_def)
qed

text \<open>
  What a split publishes does not: it has a version of its own, but the payload names it
  \<open>new_entity_version\<close> and the consumer stores none. When the answer to such an event is lost, the receipt
  does not match its version and every reconciliation leaves it ambiguous, although it has arrived.
\<close>

lemma splits_state_no_version:
  assumes "apply_split R sv task en lp reason s = Inr t"
  shows "\<exists>e \<in> set (events t). ev_type e = ''identity.split'' \<and> ev_version e \<noteq> None \<and> \<not> versioned e \<and>
    dget (ev_payload e) ''entity_version'' = JNull"
  using assms by (auto simp: apply_split_def add_event_def add_task_def Let_def res_elim row_add_def versioned_def dget_def
      split: prod.splits)

lemma split_events_stay_ambiguous:
  assumes "in_step s k" "e \<in> set (events s)" "known e k" "receipt_address cfg \<noteq> None"
    and "dget (ev_payload e) ''entity_version'' = JNull" "ev_version e = Some n"
  shows "reconcile_event R cfg (sink_receipt k) e (vs, t) =
    Inr (vs @ [Unresolved], modify_event (ev_id e) (set_event_error (Some ''consumer_receipt_mismatch'')) t)"
proof -
  from assms(3) have "find (\<lambda>r. sk_event r = JStr (ev_id e)) k \<noteq> None" by (auto simp: find_None_iff)
  then obtain r where f: "find (\<lambda>r. sk_event r = JStr (ev_id e)) k = Some r" by blast
  then have r: "r \<in> set k" "sk_event r = JStr (ev_id e)" by (auto dest: find_SomeD)
  then obtain q where q: "q \<in> set (events s)" "stores r q" using assms(1) by (auto simp: in_step_def)
  with r(2) have "ev_id q = ev_id e" by (simp add: stores_def)
  then have "q = e" using find_key_unique [of ev_id "events s" q e] assms(1,2) q(1) by (simp add: in_step_def)
  with q(2) assms(5) have "sk_version r = JNull" by (simp add: stores_def)
  then show ?thesis
    using f assms(4,6) by (auto simp: reconcile_event_def sink_receipt_def event_receipt_def accepted_def as_dict_def bind_res_def
        receipt_matches_def dget_def)
qed

section \<open>Witness\<close>

text \<open>
  Tools that do what is asked of them: the text of a payload is the number of the list of its plain
  members, written in strokes.
\<close>

datatype flat = FlatNull | FlatString string | FlatInt int

instance flat :: countable
  by countable_datatype

definition unflat :: "flat \<Rightarrow> json" where
  "unflat v = (case v of FlatNull \<Rightarrow> JNull | FlatString s \<Rightarrow> JStr s | FlatInt i \<Rightarrow> JInt i)"

fun flatten :: "dict \<Rightarrow> (string \<times> flat) list" where
  "flatten [] = []"
| "flatten ((k, v) # d) =
     (case v of JNull \<Rightarrow> [(k, FlatNull)] | JStr s \<Rightarrow> [(k, FlatString s)] | JInt i \<Rightarrow> [(k, FlatInt i)] | _ \<Rightarrow> []) @ flatten d"

definition read_strokes :: "string \<Rightarrow> dict" where
  "read_strokes s = map (\<lambda>(k, v). (k, unflat v)) (from_nat (length s))"

definition stroke_sink :: sink_tools where
  "stroke_sink = \<lparr>st_text = Some, st_integer = Some, st_dumps = (\<lambda>d. replicate (to_nat (flatten d)) (CHR ''x'')), st_secret = ''key''\<rparr>"

definition stroke_tools :: hook_tools where
  "stroke_tools = \<lparr>hk_stamp = (\<lambda>_. Some (Seconds 0)), hk_hmac = (\<lambda>_ _ _. ''ok''), hk_sha = (\<lambda>s. s),
     hk_json = (\<lambda>s. Some (JObj (read_strokes s))), hk_file = (\<lambda>_. Inl (PyError ''OSError'')),
     hk_bool = (\<lambda>_. None), hk_time = (\<lambda>_. None)\<rparr>"

lemma flatten_keys: "fst ` set (flatten d) \<subseteq> fst ` set d"
  by (induction d rule: flatten.induct) (auto split: json.splits)

lemma flatten_lookup:
  "distinct (dkeys d) \<Longrightarrow> plain (map_of d k) \<Longrightarrow> map_of (map (\<lambda>(k, v). (k, unflat v)) (flatten d)) k = map_of d k"
proof (induction d rule: flatten.induct)
  case (2 j v d)
  have none: "map_of (map (\<lambda>(k, v). (k, unflat v)) (flatten d)) j = None"
    using 2(2) flatten_keys [of d] by (force simp: map_of_eq_None_iff dkeys_def)
  show ?case
  proof (cases "k = j")
    case True
    with 2(2,3) none show ?thesis by (auto simp: plain_def unflat_def split: json.splits)
  next
    case False
    with 2 show ?thesis by (auto simp: dkeys_def split: json.splits)
  qed
qed (simp add: dkeys_def)

lemma stroke_ok: "tools_ok stroke_sink stroke_tools"
  using flatten_lookup by (simp add: tools_ok_def sends_back_def stroke_sink_def stroke_tools_def read_strokes_def)

definition lost_answers :: route where
  "lost_answers = (\<lambda>_. \<lparr>ps_wire = Silent (Interrupted ''ReadTimeout''), ps_stamp = ''0'', ps_heard = 0, ps_arrival = ''t'', ps_rehearse = None\<rparr>)"

definition clear_wire :: route where
  "clear_wire = (\<lambda>_. \<lparr>ps_wire = Through, ps_stamp = ''0'', ps_heard = 0, ps_arrival = ''t'', ps_rehearse = None\<rparr>)"

lemma clear_working: "working stroke_sink stroke_tools ''key'' clear_wire"
  by (simp add: working_def stroke_sink_def stroke_tools_def clear_wire_def ascii_def fresh_stamp_def)

definition named_event :: "ident \<Rightarrow> int \<Rightarrow> outbox_event" where
  "named_event i v = (plain_event i v EventPending)\<lparr>ev_payload :=
     [(''event_id'', JStr i), (''entity_id'', JStr ''e1''), (''entity_version'', JInt v)]\<rparr>"

definition named_db :: db where
  "named_db = empty_db\<lparr>events := [named_event ''a'' 1, named_event ''b'' 2]\<rparr>"

lemma named_ok: "\<bar>v\<bar> < 2 ^ 63 \<Longrightarrow> presentable (named_event i v) \<and> versioned (named_event i v) \<and> ev_status (named_event i v) = EventPending"
  by (auto simp: presentable_def versioned_def named_event_def plain_event_def dkeys_def dget_def
      intro: exI [of _ "Some ''e1''"] exI [of _ "Some v"])

text \<open>Both events arrive, both answers are lost; the network recovers, and each is in the table once.\<close>

theorem events_reach_the_consumer_once_witness:
  "\<exists>s k vs u v k'.
     deliver_killed ascii_runtime plain_publication ''w1'' stroke_sink stroke_tools ''key'' lost_answers 1 True (named_db, []) = (s, k) \<and>
     reconcile_events ascii_runtime plain_publication ''w1'' (sink_receipt k) s = Inr (vs, u) \<and>
     deliver_events ascii_runtime plain_publication ''w1'' stroke_sink stroke_tools ''key'' clear_wire (u, k) = (v, k') \<and>
     (\<exists>q \<in> set (events v). ev_id q = ''a'' \<and> ev_status q = EventDelivered \<and> length (filter (\<lambda>r. stores r q) k') = 1)"
proof -
  obtain s k where sk: "deliver_killed ascii_runtime plain_publication ''w1'' stroke_sink stroke_tools ''key'' lost_answers 1 True
      (named_db, []) = (s, k)" by (metis surj_pair)
  have e0: "exchange_run ascii_runtime stroke_sink stroke_tools ''key'' empty_db []" by (rule Start) (simp add: empty_db_def)
  have e1: "exchange_run ascii_runtime stroke_sink stroke_tools ''key'' named_db []"
    by (rule Work [OF e0, where es = "[named_event ''a'' 1, named_event ''b'' 2]"])
      (use named_ok in \<open>simp_all add: named_db_def empty_db_def named_event_def plain_event_def\<close>)
  have "honest lost_answers" by (simp add: honest_def lost_answers_def is_accepted_def)
  from Deliver [OF e1 this sk] have run: "exchange_run ascii_runtime stroke_sink stroke_tools ''key'' s k" .
  have batch: "oldest (relayable ''w1'') named_db = [named_event ''a'' 1, named_event ''b'' 2]"
    by (simp add: oldest_def named_db_def relayable_def named_event_def plain_event_def)
  have post: "\<exists>k'. post_event stroke_sink stroke_tools ''key'' (lost_answers e) e k = (Interrupted ''ReadTimeout'', k')" for e k
    by (simp add: post_event_def Let_def lost_answers_def split: prod.split)
  then obtain k1 where k1: "post_event stroke_sink stroke_tools ''key'' (lost_answers (named_event ''a'' 1)) (named_event ''a'' 1) [] =
      (Interrupted ''ReadTimeout'', k1)" by blast
  have "s = relay_mark ascii_runtime plain_publication ''w1'' (named_event ''b'' 2)
      (relay_event ascii_runtime plain_publication ''w1'' (\<lambda>_. Interrupted ''ReadTimeout'') (named_event ''a'' 1) named_db)"
    using sk by (simp add: deliver_killed_def batch Let_def deliver_event_def k1)
  then have marked: "map (\<lambda>e. (event_content e, ev_status e)) (events s) =
      [(event_content (named_event ''a'' 1), EventReconcile), (event_content (named_event ''b'' 2), EventReconcile)]"
    by (simp add: relay_mark_events relay_event_events named_db_def row_modify_def update_rows_def named_event_def plain_event_def
        mark_event_def settle_event_def reply_status_def event_content_def)
  have "length (events s) = 2" using arg_cong [OF marked, of length] by simp
  then have few: "length (filter (outstanding ''w1'') (events s)) \<le> 100"
    using length_filter_le [of "outstanding ''w1''" "events s"] by linarith
  from marked obtain e where e: "e \<in> set (events s)" "event_content e = event_content (named_event ''a'' 1)" "ev_status e = EventReconcile"
    by (cases "events s") auto
  have "receipt_address plain_publication \<noteq> None" by (simp add: receipt_address_def plain_publication_def truthy_str_def)
  from events_reach_the_consumer_once [OF stroke_ok run clear_working this few]
  obtain vs u v k' where r: "reconcile_events ascii_runtime plain_publication ''w1'' (sink_receipt k) s = Inr (vs, u)"
    "deliver_events ascii_runtime plain_publication ''w1'' stroke_sink stroke_tools ''key'' clear_wire (u, k) = (v, k')"
    "\<And>e. e \<in> set (events s) \<Longrightarrow> ev_ws e = ''w1'' \<Longrightarrow> ev_status e \<noteq> EventDead \<Longrightarrow> versioned e \<Longrightarrow>
      \<exists>q \<in> set (events v). event_content q = event_content e \<and> ev_status q = EventDelivered"
    "\<And>q. q \<in> set (events v) \<Longrightarrow> ev_status q = EventDelivered \<Longrightarrow> length (filter (\<lambda>r. stores r q) k') = 1" by blast
  have "versioned e" "ev_ws e = ''w1''" "ev_id e = ''a''"
    using same_content(1,4,7) [OF e(2)] named_ok [of 1 "''a''"] by (simp_all add: named_event_def plain_event_def)
  with r(3) [OF e(1)] e(3) obtain q where q: "q \<in> set (events v)" "event_content q = event_content e" "ev_status q = EventDelivered"
    by auto
  with same_content(1) [OF q(2)] \<open>ev_id e = ''a''\<close> r(4) [OF q(1,3)] have "ev_id q = ''a''" by simp
  with q r sk show ?thesis by blast
qed

end
