(* ===== verification/Snapshots.thy ===== *)
theory Snapshots
  imports Ingestion
begin

text \<open>
  What a completed snapshot does to the source objects: the effect of \<open>MasteringService.ingest\<close> on
  the rows of \<open>source_objects\<close>, observation by observation, and the retirement of everything the run
  did not see.
\<close>

section \<open>Changes of one object\<close>

text \<open>The rows keep their places and keys; the row with the given id may change as \<open>P\<close> says, the others stay.\<close>

definition moved :: "ident \<Rightarrow> (source_object \<Rightarrow> source_object \<Rightarrow> bool) \<Rightarrow> db \<Rightarrow> db \<Rightarrow> bool" where
  "moved i P s t \<longleftrightarrow>
     list_all2 (\<lambda>x y. object_key y = object_key x \<and> (if ob_id x = i then P x y else y = x)) (objects s) (objects t)"

lemma object_key_id: "object_key y = object_key x \<Longrightarrow> ob_id y = ob_id x"
  by (simp add: object_key_def)

lemma moved_same: "objects t = objects s \<Longrightarrow> (\<And>x. P x x) \<Longrightarrow> moved i P s t"
  by (simp add: moved_def list_all2_same)

lemma moved_modify:
  "(\<And>x. object_key (f x) = object_key x \<and> P x (f x)) \<Longrightarrow> moved i P s (modify_object i f s)"
  by (simp add: moved_def modify_object_def row_modify_def update_rows_def list_all2_conv_all_nth)

lemma moved_trans:
  assumes "moved i P s t" "moved i Q t u" "\<And>x y z. P x y \<Longrightarrow> Q y z \<Longrightarrow> S x z"
  shows "moved i S s u"
  unfolding moved_def
  by (rule list_all2_trans [OF _ assms(1,2) [unfolded moved_def]])
    (auto dest: object_key_id intro: assms(3) split: if_splits)

lemma moved_mono: "moved i P s t \<Longrightarrow> (\<And>x y. P x y \<Longrightarrow> Q x y) \<Longrightarrow> moved i Q s t"
  unfolding moved_def by (erule list_all2_mono) auto

lemma moved_objects: "moved i P s t \<Longrightarrow> objects u = objects t \<Longrightarrow> moved i P s u"
  by (simp add: moved_def)

lemma list_all2_find:
  "list_all2 Q xs ys \<Longrightarrow> (\<And>x y. Q x y \<Longrightarrow> p y = p x) \<Longrightarrow> rel_option Q (find p xs) (find p ys)"
  by (induction rule: list_all2_induct) auto

lemma moved_find:
  assumes "moved i P s t"
  shows "rel_option (\<lambda>x y. object_key y = object_key x \<and> (if ob_id x = i then P x y else y = x))
    (find_object sv src dk loc s) (find_object sv src dk loc t)"
  unfolding find_object_def by (rule list_all2_find [OF assms [unfolded moved_def]]) (auto simp: object_key_def)

section \<open>One observation\<close>

lemma touch_objects: "touch_entity R sv e s = Inr t \<Longrightarrow> objects t = objects s"
  by (auto simp: touch_entity_def draft_entity_Inr frame_simps dest: draft_master_frame)

lemma draft_objects: "draft_entity R sv e s = Inr t \<Longrightarrow> objects t = objects s"
  by (auto simp: draft_entity_Inr dest: draft_master_frame)

lemma record_entity_objects [simp]: "objects (set_record_entity i e s) = objects s"
  by (simp add: set_record_entity_def)

definition numbered_by :: "incoming \<Rightarrow> source_object \<Rightarrow> source_object" where
  "numbered_by item b = b\<lparr>ob_sequence := in_sequence item, ob_effective := in_effective item\<rparr>"

definition retired_row :: "source_object \<Rightarrow> source_object" where
  "retired_row b = b\<lparr>ob_current := None, ob_retired := True\<rparr>"

definition gone :: "source_object \<Rightarrow> bool" where
  "gone b \<longleftrightarrow> ob_retired b \<and> ob_current b = None"

lemma retire_gone:
  assumes "retire_object R sv b rec s = Inr t"
  shows "moved (ob_id b) (\<lambda>x y. gone y) s t"
proof -
  let ?u = "modify_object (ob_id b) retired_row (set_record_entity (sr_id rec) (ob_entity b) s)"
  have "retired_row = (\<lambda>b. b\<lparr>ob_current := None, ob_retired := True\<rparr>)" by (simp add: retired_row_def fun_eq_iff)
  then have "t = ?u \<or> (\<exists>e. touch_entity R sv e ?u = Inr t)"
    using assms by (auto simp: retire_object_def Let_def split: option.splits if_splits)
  then have t: "objects t = objects ?u" using touch_objects by blast
  have "moved (ob_id b) (\<lambda>x y. gone y) (set_record_entity (sr_id rec) (ob_entity b) s) ?u"
    by (rule moved_modify) (simp add: retired_row_def gone_def object_key_def)
  then show ?thesis using t by (simp add: moved_def)
qed

lemma membership_moved: "moved ob (\<lambda>x y. ob_retired y = ob_retired x) s (set_membership R sv ob en reason s)"
proof -
  have "moved ob (\<lambda>x y. ob_retired y = ob_retired x) u (modify_object ob (\<lambda>b. b\<lparr>ob_entity := Some en\<rparr>) u)" for u
    by (rule moved_modify) (simp add: object_key_def)
  then have "moved ob (\<lambda>x y. ob_retired y = ob_retired x) s
      (open_membership R (wid sv) ob en reason (subject sv) (modify_object ob (\<lambda>b. b\<lparr>ob_entity := Some en\<rparr>) u))"
    if same: "objects u = objects s" for u
    using \<open>\<And>u. moved ob (\<lambda>x y. ob_retired y = ob_retired x) u (modify_object ob (\<lambda>b. b\<lparr>ob_entity := Some en\<rparr>) u)\<close> [of u]
    by (simp only: moved_def open_membership_def Let_def same) simp
  then show ?thesis
    by (simp add: set_membership_def Let_def moved_same close_membership_frame split: option.split)
qed

lemma admit_moved:
  assumes "admit_record R sv p b rec keys c s = Inr (c', t)"
  shows "moved (ob_id b) (\<lambda>x y. \<not> ob_retired y) s t"
proof -
  let ?u = "modify_object (ob_id b) (\<lambda>b. b\<lparr>ob_current := Some (sr_id rec), ob_retired := False\<rparr>) s"
  have u: "moved (ob_id b) (\<lambda>x y. \<not> ob_retired y) s ?u"
    by (rule moved_modify) (simp add: object_key_def)
  from admit_record_cases [OF assms] show ?thesis
  proof (elim exE conjE disjE)
    fix s1 e assume "s1 = ?u" "touch_entity R sv e (set_record_entity (sr_id rec) (Some e) s1) = Inr t"
    from touch_objects [OF this(2)] this(1) have "objects t = objects ?u" by simp
    with u show ?thesis by (rule moved_objects)
  next
    fix s1 e oc s2 assume s1: "s1 = ?u" and r: "resolve R sv p rec (ob_id b) keys s1 = Inr ((e, oc), s2)"
      and d: "draft_entity R sv e (set_record_entity (sr_id rec) (Some e)
        (set_membership R sv (ob_id b) e ''initial_resolution'' s2)) = Inr t"
    have "objects s2 = objects ?u" using resolve_frame(5) [OF r] s1 by simp
    from moved_trans [OF moved_objects [OF u this] membership_moved]
    have "moved (ob_id b) (\<lambda>x y. \<not> ob_retired y) s (set_membership R sv (ob_id b) e ''initial_resolution'' s2)" by simp
    then show ?thesis by (rule moved_objects) (simp add: draft_objects [OF d])
  qed
qed

lemma numbered_moved: "moved i (\<lambda>x y. ob_retired y = ob_retired x) s (modify_object i (numbered_by item) s)"
  by (rule moved_modify) (simp add: numbered_by_def object_key_def)

lemma apply_observation_moved:
  assumes "apply_observation R sv p fault n b item rec o' c s = Inr (c', t)"
  shows "moved (ob_id b) (\<lambda>x y. \<not> in_deleted item \<longrightarrow> ob_retired y \<longrightarrow> ob_retired x) s t" (is "moved _ ?P _ _")
    and "in_deleted item \<Longrightarrow> obs_errors o' = [] \<Longrightarrow> observation_is_current b item \<Longrightarrow>
      moved (ob_id b) (\<lambda>x y. gone y) s t"
proof -
  have num: "(\<lambda>b. b\<lparr>ob_sequence := in_sequence item, ob_effective := in_effective item\<rparr>) = numbered_by item"
    by (simp add: numbered_by_def fun_eq_iff)
  note cases = apply_observation_cases [OF assms, unfolded num]
  show "moved (ob_id b) ?P s t"
    using cases
  proof (elim disjE conjE)
    assume d: "in_deleted item" "retire_object R sv b rec (modify_object (ob_id b) (numbered_by item) s) = Inr t"
    from d(1) show ?thesis by (intro moved_trans [OF numbered_moved retire_gone [OF d(2)]]) simp
  next
    assume a: "admit_record R sv p b rec (obs_keys o') c (modify_object (ob_id b) (numbered_by item) s) = Inr (c', t)"
    show ?thesis by (rule moved_trans [OF numbered_moved admit_moved [OF a]]) simp
  qed (simp_all add: moved_same)
  assume "in_deleted item" "obs_errors o' = []" "observation_is_current b item"
  with cases have r: "retire_object R sv b rec (modify_object (ob_id b) (numbered_by item) s) = Inr t"
    by (elim disjE conjE) simp_all
  show "moved (ob_id b) (\<lambda>x y. gone y) s t" by (rule moved_trans [OF numbered_moved retire_gone [OF r]])
qed

lemma store_observation_moved:
  assumes "store_observation R sv src dk b item o' s = (rec, t)"
  shows "moved (ob_id b) (\<lambda>x y. ob_retired y = ob_retired x) s t"
proof -
  have "objects t = objects (modify_object (ob_id b) (\<lambda>b. b\<lparr>ob_latest := Some (sr_id rec)\<rparr>) s)"
    using assms by (auto simp: store_observation_def Let_def modify_object_def frame_simps)
  moreover have "moved (ob_id b) (\<lambda>x y. ob_retired y = ob_retired x) s
      (modify_object (ob_id b) (\<lambda>b. b\<lparr>ob_latest := Some (sr_id rec)\<rparr>) s)"
    by (rule moved_modify) (simp add: object_key_def)
  ultimately show ?thesis by (simp add: moved_def)
qed

lemma get_or_create_keeps:
  assumes "get_or_create_object R sv src dk loc s = (b, t)" "find_object sv' src' dk' loc' s = Some x"
  shows "find_object sv' src' dk' loc' t = Some x"
proof (cases "find_object sv src dk loc s")
  case (Some c)
  with assms show ?thesis by (simp add: get_or_create_object_def)
next
  case None
  with assms(1) have "objects t = objects s @ [b]"
    by (auto simp: get_or_create_object_def Let_def open_membership_def row_add_def split: option.splits)
  with assms(2) show ?thesis by (simp add: find_object_def find_append split: option.split)
qed

lemma find_object_Some:
  "find_object sv src dk loc s = Some b \<Longrightarrow>
   b \<in> set (objects s) \<and> ob_ws b = wid sv \<and> ob_source b = src \<and> ob_domain b = dk \<and> ob_local b = loc"
  unfolding find_object_def by (drule find_SomeD) simp

lemma store_ids: "store_ok R s \<Longrightarrow> distinct (map ob_id (objects s))"
  by (simp add: store_ok_def membership_ok_def members_def comp_def)

text \<open>An observation is a change of its own object, which it may have added.\<close>

lemma process_item_moved:
  assumes "inj (uuid R)" "store_ok R s" "process_item R sv p source dk fault (n, item) (c, s) = Inr (c', t)"
  obtains b s1 where "get_or_create_object R sv (sc_id source) dk (in_local item) s = (b, s1)"
    "find_object sv (sc_id source) dk (in_local item) s1 = Some b" "distinct (map ob_id (objects s1))"
    "moved (ob_id b) (\<lambda>x y. \<not> in_deleted item \<longrightarrow> ob_retired y \<longrightarrow> ob_retired x) s1 t"
    "find_observation sv (sc_id source) dk item s1 = None \<and> in_deleted item \<and> in_sequence item = None \<and>
       in_effective item = None \<longrightarrow> moved (ob_id b) (\<lambda>x y. gone y) s1 t"
proof -
  from process_item_cases [OF assms(3)] obtain b s1 where
    b: "get_or_create_object R sv (sc_id source) dk (in_local item) s = (b, s1)" and
    rest: "(find_observation sv (sc_id source) dk item s1 \<noteq> None \<and> t = s1) \<or>
      (\<exists>o' rec s2. observe R p b item s1 = Inr o' \<and> store_observation R sv (sc_id source) dk b item o' s1 = (rec, s2) \<and>
         apply_observation R sv p fault n b item rec o' c s2 = Inr (c', t))" by auto
  note ids = store_ids [OF store_ok_object [OF assms(1,2) b]]
  from rest show thesis
  proof (elim disjE exE conjE)
    assume "find_observation sv (sc_id source) dk item s1 \<noteq> None" "t = s1"
    then show thesis by (intro that [OF b get_or_create_object_finds [OF b] ids]) (auto simp: moved_same)
  next
    fix o' rec s2 assume o: "observe R p b item s1 = Inr o'"
      and st: "store_observation R sv (sc_id source) dk b item o' s1 = (rec, s2)"
      and a: "apply_observation R sv p fault n b item rec o' c s2 = Inr (c', t)"
    note m = moved_trans [OF store_observation_moved [OF st]]
    show thesis
    proof (rule that [OF b get_or_create_object_finds [OF b] ids m [OF apply_observation_moved(1) [OF a]]], simp, rule impI)
      assume "find_observation sv (sc_id source) dk item s1 = None \<and> in_deleted item \<and> in_sequence item = None \<and>
        in_effective item = None"
      then have "in_deleted item" "in_sequence item = None" "in_effective item = None" by simp_all
      moreover from this o have "obs_errors o' = []" by (auto simp: observe_def res_elim Let_def)
      ultimately show "moved (ob_id b) (\<lambda>x y. gone y) s1 t"
        by (intro m [OF apply_observation_moved(2) [OF a]]) (simp_all add: observation_is_current_def)
    qed
  qed
qed

lemma item_other_object:
  assumes "inj (uuid R)" "store_ok R s" "process_item R sv p source dk fault (n, item) (c, s) = Inr (c', t)"
    and "find_object sv' src' dk' loc' s = Some x" "(wid sv', src', dk', loc') \<noteq> (wid sv, sc_id source, dk, in_local item)"
  shows "find_object sv' src' dk' loc' t = Some x"
proof -
  obtain b s1 where b: "get_or_create_object R sv (sc_id source) dk (in_local item) s = (b, s1)"
    and own: "find_object sv (sc_id source) dk (in_local item) s1 = Some b" and ids: "distinct (map ob_id (objects s1))"
    and m: "moved (ob_id b) (\<lambda>x y. \<not> in_deleted item \<longrightarrow> ob_retired y \<longrightarrow> ob_retired x) s1 t"
    by (rule process_item_moved [OF assms(1-3)])
  have x: "find_object sv' src' dk' loc' s1 = Some x" by (rule get_or_create_keeps [OF b assms(4)])
  have "ob_id x \<noteq> ob_id b"
    using find_key_unique [OF ids, of x b] find_object_Some [OF x] find_object_Some [OF own] assms(5) by auto
  with moved_find [OF m, of sv' src' dk' loc'] x show ?thesis by (cases "find_object sv' src' dk' loc' t") auto
qed

lemma item_own_object:
  assumes "inj (uuid R)" "store_ok R s" "process_item R sv p source dk fault (n, item) (c, s) = Inr (c', t)"
    and "find_object sv (sc_id source) dk (in_local item) s = Some x"
  obtains y where "find_object sv (sc_id source) dk (in_local item) t = Some y" "ob_id y = ob_id x"
    "\<not> in_deleted item \<Longrightarrow> ob_retired y \<Longrightarrow> ob_retired x"
    "find_observation sv (sc_id source) dk item s = None \<Longrightarrow> in_deleted item \<Longrightarrow> in_sequence item = None \<Longrightarrow>
       in_effective item = None \<Longrightarrow> gone y"
proof -
  obtain b s1 where b: "get_or_create_object R sv (sc_id source) dk (in_local item) s = (b, s1)"
    and m: "moved (ob_id b) (\<lambda>x y. \<not> in_deleted item \<longrightarrow> ob_retired y \<longrightarrow> ob_retired x) s1 t"
      "find_observation sv (sc_id source) dk item s1 = None \<and> in_deleted item \<and> in_sequence item = None \<and>
       in_effective item = None \<longrightarrow> moved (ob_id b) (\<lambda>x y. gone y) s1 t"
    by (rule process_item_moved [OF assms(1-3)])
  from b assms(4) have s1: "s1 = s" "b = x" by (simp_all add: get_or_create_object_def)
  note m = m [unfolded s1]
  obtain y where y: "find_object sv (sc_id source) dk (in_local item) t = Some y" "object_key y = object_key x"
    "\<not> in_deleted item \<Longrightarrow> ob_retired y \<Longrightarrow> ob_retired x"
    using moved_find [OF m(1), of sv "sc_id source" dk "in_local item"] assms(4)
    by (cases "find_object sv (sc_id source) dk (in_local item) t") auto
  show thesis
  proof (rule that [OF y(1) object_key_id [OF y(2)] y(3)])
    assume "find_observation sv (sc_id source) dk item s = None" "in_deleted item" "in_sequence item = None"
      "in_effective item = None"
    then have "moved (ob_id x) (\<lambda>x y. gone y) s t" using m(2) by simp
    from moved_find [OF this, of sv "sc_id source" dk "in_local item"] assms(4) y(1) show "gone y" by simp
  qed
qed

text \<open>The versions a source has delivered for its objects.\<close>

definition versions_of :: "db \<Rightarrow> (string \<times> string) set" where
  "versions_of s = (\<lambda>r. (sr_local r, sr_version r)) ` set (records s)"

lemma item_versions:
  assumes "process_item R sv p source dk fault (n, item) (c, s) = Inr (c', t)"
  shows "versions_of t \<subseteq> insert (in_local item, in_version item) (versions_of s)"
proof -
  have key: "versions_of u = (\<lambda>(i, w, src, d, l, v). (l, v)) ` set (map record_key (records u))" for u
    by (simp add: versions_of_def record_key_def image_image)
  from process_item_cases [OF assms] obtain b s1 where
    b: "get_or_create_object R sv (sc_id source) dk (in_local item) s = (b, s1)" and
    rest: "t = s1 \<or> (\<exists>o' rec s2. store_observation R sv (sc_id source) dk b item o' s1 = (rec, s2) \<and>
         apply_observation R sv p fault n b item rec o' c s2 = Inr (c', t))" by blast
  have s1: "versions_of s1 = versions_of s" using get_or_create_object_frame(1) [OF b] by (simp add: versions_of_def)
  from rest show ?thesis
  proof (elim disjE exE conjE)
    fix o' rec s2 assume st: "store_observation R sv (sc_id source) dk b item o' s1 = (rec, s2)"
      and a: "apply_observation R sv p fault n b item rec o' c s2 = Inr (c', t)"
    have "versions_of t = versions_of s2" using same_keys_apply [OF a] by (simp add: key same_keys_def)
    moreover have "versions_of s2 = insert (in_local item, in_version item) (versions_of s1)"
      using store_observation_frame(11,12) [OF st] by (simp add: versions_of_def observation_record_def)
    ultimately show ?thesis using s1 by simp
  qed (use s1 in auto)
qed

lemma no_observation: "(in_local item, in_version item) \<notin> versions_of s \<Longrightarrow> find_observation sv src dk item s = None"
  unfolding find_observation_def versions_of_def by (force simp: find_None_iff)

section \<open>A list of observations\<close>

lemma items_other_object:
  assumes "inj (uuid R)" "store_ok R s" "fold_res (process_item R sv p source dk fault) xs (c, s) = Inr (c', t)"
    and "find_object sv' src' dk' loc' s = Some x"
    and "\<And>n item. (n, item) \<in> set xs \<Longrightarrow> (wid sv', src', dk', loc') \<noteq> (wid sv, sc_id source, dk, in_local item)"
  shows "find_object sv' src' dk' loc' t = Some x"
  using assms(2-5)
proof (induction xs arbitrary: c s)
  case Nil
  then show ?case by simp
next
  case (Cons y xs)
  obtain n item where y: "y = (n, item)" by (cases y)
  from Cons.prems(2) obtain d u where u: "process_item R sv p source dk fault (n, item) (c, s) = Inr (d, u)"
    "fold_res (process_item R sv p source dk fault) xs (d, u) = Inr (c', t)" by (auto simp: res_elim y)
  have "store_ok R u" using process_item_ok [OF assms(1) Cons.prems(1) u(1)] by blast
  moreover have "find_object sv' src' dk' loc' u = Some x"
    by (rule item_other_object [OF assms(1) Cons.prems(1) u(1) Cons.prems(3)]) (use Cons.prems(4) [of n item] y in simp)
  ultimately show ?case
  proof (rule Cons.IH [OF _ u(2)])
    fix m i assume "(m, i) \<in> set xs"
    then show "(wid sv', src', dk', loc') \<noteq> (wid sv, sc_id source, dk, in_local i)" by (intro Cons.prems(4) [of m i]) simp
  qed
qed

lemma items_own_object:
  assumes "inj (uuid R)" "store_ok R s" "fold_res (process_item R sv p source dk fault) xs (c, s) = Inr (c', t)"
    and "find_object sv (sc_id source) dk loc s = Some x"
  shows "\<exists>y. find_object sv (sc_id source) dk loc t = Some y \<and> ob_id y = ob_id x \<and>
    ((\<forall>item \<in> snd ` set xs. in_local item = loc \<longrightarrow> \<not> in_deleted item) \<longrightarrow> ob_retired y \<longrightarrow> ob_retired x)"
  using assms(2-4)
proof (induction xs arbitrary: c s x)
  case Nil
  then show ?case by simp
next
  case (Cons y xs)
  obtain n item where y: "y = (n, item)" by (cases y)
  from Cons.prems(2) obtain d u where u: "process_item R sv p source dk fault (n, item) (c, s) = Inr (d, u)"
    "fold_res (process_item R sv p source dk fault) xs (d, u) = Inr (c', t)" by (auto simp: res_elim y)
  have ok: "store_ok R u" using process_item_ok [OF assms(1) Cons.prems(1) u(1)] by blast
  obtain z where z: "find_object sv (sc_id source) dk loc u = Some z" "ob_id z = ob_id x"
    "(in_local item = loc \<longrightarrow> \<not> in_deleted item) \<longrightarrow> ob_retired z \<longrightarrow> ob_retired x"
  proof (cases "in_local item = loc")
    case True
    from item_own_object [OF assms(1) Cons.prems(1) u(1)] Cons.prems(3) show thesis
      using True that by metis
  next
    case False
    have "find_object sv (sc_id source) dk loc u = Some x"
      by (rule item_other_object [OF assms(1) Cons.prems(1) u(1) Cons.prems(3)]) (use False in auto)
    then show thesis by (rule that) simp_all
  qed
  from Cons.IH [OF ok u(2) z(1)] z(2,3) show ?case by (auto simp: y)
qed

lemma items_versions:
  "fold_res (process_item R sv p source dk fault) xs (c, s) = Inr (c', t) \<Longrightarrow>
   versions_of t \<subseteq> versions_of s \<union> (\<lambda>item. (in_local item, in_version item)) ` snd ` set xs"
proof (induction xs arbitrary: c s)
  case Nil
  then show ?case by simp
next
  case (Cons y xs)
  obtain n item where y: "y = (n, item)" by (cases y)
  from Cons.prems obtain d u where u: "process_item R sv p source dk fault (n, item) (c, s) = Inr (d, u)"
    "fold_res (process_item R sv p source dk fault) xs (d, u) = Inr (c', t)" by (auto simp: res_elim y)
  from Cons.IH [OF u(2)] item_versions [OF u(1)] show ?case by (auto simp: y)
qed

lemma items_ok:
  "inj (uuid R) \<Longrightarrow> fold_res (process_item R sv p source dk fault) xs (c, s) = Inr (c', t) \<Longrightarrow> store_ok R s \<Longrightarrow> store_ok R t"
proof (induction xs arbitrary: c s)
  case (Cons y xs)
  from Cons.prems(2) obtain d u where u: "process_item R sv p source dk fault y (c, s) = Inr (d, u)"
    "fold_res (process_item R sv p source dk fault) xs (d, u) = Inr (c', t)" by (auto simp: res_elim)
  from Cons.IH [OF Cons.prems(1) u(2)] process_item_ok [OF Cons.prems(1,3) u(1)] show ?case by blast
qed simp

text \<open>An implied deletion among others retires its object.\<close>

lemma implied_deletion_retires:
  assumes "inj (uuid R)" "store_ok R s" "fold_res (process_item R sv p source dk fault) xs (c, s) = Inr (c', t)"
    and "map snd xs = map (snapshot_delete ext) locals" "distinct locals" "loc \<in> set locals"
    and "find_object sv (sc_id source) dk loc s = Some x" "(loc, in_version (snapshot_delete ext loc)) \<notin> versions_of s"
  shows "\<exists>y. find_object sv (sc_id source) dk loc t = Some y \<and> ob_id y = ob_id x \<and> gone y"
  using assms(2-8)
proof (induction xs arbitrary: c s locals)
  case Nil
  then show ?case by simp
next
  case (Cons y xs)
  obtain n item where y: "y = (n, item)" by (cases y)
  from Cons.prems(3) obtain l ls where locals: "locals = l # ls" "item = snapshot_delete ext l"
    "map snd xs = map (snapshot_delete ext) ls" by (cases locals) (auto simp: y)
  from Cons.prems(2) obtain d u where u: "process_item R sv p source dk fault (n, item) (c, s) = Inr (d, u)"
    "fold_res (process_item R sv p source dk fault) xs (d, u) = Inr (c', t)" by (auto simp: res_elim y)
  have ok: "store_ok R u" using process_item_ok [OF assms(1) Cons.prems(1) u(1)] by blast
  have in_rest: "snd z \<in> snapshot_delete ext ` set ls" if "z \<in> set xs" for z
    using arg_cong [OF locals(3), of set] that by (auto simp: image_iff)
  show ?case
  proof (cases "l = loc")
    case True
    have item: "in_local item = loc" "in_deleted item" "in_sequence item = None" "in_effective item = None"
      "in_version item = in_version (snapshot_delete ext loc)"
      by (simp_all add: locals(2) snapshot_delete_def True)
    have none: "find_observation sv (sc_id source) dk item s = None"
      by (rule no_observation) (use Cons.prems(7) item in simp)
    obtain z where z: "find_object sv (sc_id source) dk loc u = Some z" "ob_id z = ob_id x" "gone z"
      using item_own_object [OF assms(1) Cons.prems(1) u(1), of x] Cons.prems(6) item none by metis
    have "find_object sv (sc_id source) dk loc t = Some z"
    proof (rule items_other_object [OF assms(1) ok u(2) z(1)])
      fix m i assume "(m, i) \<in> set xs"
      from in_rest [OF this] Cons.prems(4) locals(1) True
      show "(wid sv, sc_id source, dk, loc) \<noteq> (wid sv, sc_id source, dk, in_local i)" by (auto simp: snapshot_delete_def)
    qed
    with z(2,3) show ?thesis by blast
  next
    case False
    have item: "in_local item = l" by (simp add: locals(2) snapshot_delete_def)
    have "find_object sv (sc_id source) dk loc u = Some x"
      by (rule item_other_object [OF assms(1) Cons.prems(1) u(1) Cons.prems(6)]) (use False item in auto)
    moreover have "(loc, in_version (snapshot_delete ext loc)) \<notin> versions_of u"
      using item_versions [OF u(1)] Cons.prems(7) item False by auto
    moreover have "distinct ls" "loc \<in> set ls" using Cons.prems(4,5) locals(1) False by auto
    ultimately show ?thesis using Cons.IH [OF ok u(2) locals(3)] by blast
  qed
qed

section \<open>The whole call\<close>

lemma index_from_append: "index_from n (xs @ ys) = index_from n xs @ index_from (n + length xs) ys"
proof -
  have "[n..<n + (length xs + length ys)] = [n..<n + length xs] @ [n + length xs..<n + length xs + length ys]"
    using upt_add_eq_append [of n "n + length xs" "length ys"] by (simp add: add.assoc)
  then show ?thesis by (simp add: index_from_def)
qed

lemma snd_index_from [simp]: "map snd (index_from n xs) = xs"
  by (simp add: index_from_def)

definition in_scope :: "service \<Rightarrow> source_row \<Rightarrow> ingest_request \<Rightarrow> source_object \<Rightarrow> bool" where
  "in_scope sv source rq b \<longleftrightarrow> ob_ws b = wid sv \<and> ob_source b = sc_id source \<and> ob_domain b = rq_domain rq"

definition unseen :: "service \<Rightarrow> source_row \<Rightarrow> ingest_request \<Rightarrow> ingestion_run \<Rightarrow> source_object \<Rightarrow> bool" where
  "unseen sv source rq run b \<longleftrightarrow>
     in_scope sv source rq b \<and> \<not> ob_retired b \<and> ob_local b \<notin> set (seen_ids (Some run) (rq_records rq))"

text \<open>The key that the table keeps unique.\<close>

definition place :: "source_object \<Rightarrow> ident \<times> ident \<times> string \<times> string" where
  "place b = (ob_ws b, ob_source b, ob_domain b, ob_local b)"

lemma find_placed:
  assumes "distinct (map place (objects s))" "b \<in> set (objects s)" "wid w = ob_ws b"
  shows "find_object w (ob_source b) (ob_domain b) (ob_local b) s = Some b"
proof -
  have "find (\<lambda>r. place r = place b) (objects s) = Some b" by (rule find_key [OF assms(1,2) refl])
  then show ?thesis by (simp add: find_object_def place_def assms(3))
qed

lemma unseen_distinct:
  assumes "distinct (map place bs)"
  shows "distinct (map ob_local (filter (unseen sv source rq run) bs))"
  unfolding distinct_map
proof
  show "distinct (filter (unseen sv source rq run) bs)" using assms by (simp add: distinct_map)
  show "inj_on ob_local (set (filter (unseen sv source rq run) bs))"
    by (rule inj_onI) (use assms in \<open>auto simp: distinct_map inj_on_def unseen_def in_scope_def place_def\<close>)
qed

lemma completed_work:
  assumes "work_records sv (sc_id source) rq (Some run) s = Inr items" "rq_mode rq = FullExtraction" "rq_complete_snapshot rq"
  shows "items = rq_records rq @
    map (snapshot_delete (the (rq_run rq))) (map ob_local (filter (unseen sv source rq run) (objects s)))"
  using implied_deletions [OF assms(1)] assms(2,3)
  by (simp add: comp_def unseen_def [abs_def] in_scope_def conj_ac)

lemma completed_records:
  assumes inj: "inj (uuid R)" and ok: "store_ok R s" and places: "distinct (map place (objects s))"
    and step: "ingest_records R sv source domain rq (Some run) s = Inr (c, t)"
    and full: "rq_mode rq = FullExtraction" "rq_complete_snapshot rq"
    and new: "\<And>l. (l, in_version (snapshot_delete (the (rq_run rq)) l)) \<notin>
      versions_of s \<union> (\<lambda>x. (in_local x, in_version x)) ` set (rq_records rq)"
    and b: "b \<in> set (objects s)"
  shows "unseen sv source rq run b \<longrightarrow> (\<exists>y \<in> set (objects t). ob_id y = ob_id b \<and> gone y)"
    and "in_scope sv source rq b \<and> \<not> ob_retired b \<and> \<not> unseen sv source rq run b \<and>
      (\<forall>x \<in> set (rq_records rq). in_deleted x \<longrightarrow> in_local x \<noteq> ob_local b) \<longrightarrow>
      (\<exists>y \<in> set (objects t). ob_id y = ob_id b \<and> \<not> ob_retired y)"
    and "\<not> in_scope sv source rq b \<longrightarrow> b \<in> set (objects t)"
proof -
  let ?ext = "the (rq_run rq)" and ?locals = "map ob_local (filter (unseen sv source rq run) (objects s))"
    and ?look = "\<lambda>u. find_object sv (sc_id source) (rq_domain rq) (ob_local b) u"
  from ingest_records_Inr [OF step] obtain p items where
    items: "work_records sv (sc_id source) rq (Some run) s = Inr items" and
    fold: "fold_res (process_item R sv p source (rq_domain rq) (rq_fault_after rq)) (index_from 1 items) (no_counts, s) = Inr (c, t)"
    by blast
  let ?f = "process_item R sv p source (rq_domain rq) (rq_fault_after rq)"
    and ?xs = "index_from 1 (rq_records rq)"
    and ?ys = "index_from (1 + length (rq_records rq)) (map (snapshot_delete ?ext) ?locals)"
  from fold obtain d u where u: "fold_res ?f ?xs (no_counts, s) = Inr (d, u)" "fold_res ?f ?ys (d, u) = Inr (c, t)"
    unfolding completed_work [OF items full] index_from_append fold_res_append by (auto simp: res_elim)
  have oku: "store_ok R u" by (rule items_ok [OF inj u(1) ok])
  have xs: "snd ` set ?xs = set (rq_records rq)" by (simp add: set_map [symmetric] del: set_map)
  have vers: "(l, in_version (snapshot_delete ?ext l)) \<notin> versions_of u" for l
    using items_versions [OF u(1)] new [of l] unfolding xs by blast
  have ysloc: "in_local i \<in> set ?locals" if "(m, i) \<in> set ?ys" for m i
  proof -
    have "i \<in> snd ` set ?ys" using that by (rule image_eqI [rotated]) simp
    then have "i \<in> set (map snd ?ys)" by (simp only: set_map)
    then show ?thesis by (auto simp: snapshot_delete_def)
  qed
  show "unseen sv source rq run b \<longrightarrow> (\<exists>y \<in> set (objects t). ob_id y = ob_id b \<and> gone y)"
  proof
    assume un: "unseen sv source rq run b"
    then have "?look s = Some b" using find_placed [OF places b, of sv] by (simp add: unseen_def in_scope_def)
    from items_own_object [OF inj ok u(1) this] obtain x where x: "?look u = Some x" "ob_id x = ob_id b" by blast
    have "ob_local b \<in> set ?locals" using un b by auto
    from implied_deletion_retires [OF inj oku u(2) snd_index_from unseen_distinct [OF places] this x(1) vers] x(2)
    show "\<exists>y \<in> set (objects t). ob_id y = ob_id b \<and> gone y" using find_object_Some by fastforce
  qed
  show "in_scope sv source rq b \<and> \<not> ob_retired b \<and> \<not> unseen sv source rq run b \<and>
      (\<forall>x \<in> set (rq_records rq). in_deleted x \<longrightarrow> in_local x \<noteq> ob_local b) \<longrightarrow>
      (\<exists>y \<in> set (objects t). ob_id y = ob_id b \<and> \<not> ob_retired y)"
  proof (intro impI, elim conjE)
    assume scope: "in_scope sv source rq b" "\<not> ob_retired b" "\<not> unseen sv source rq run b"
      and named: "\<forall>x \<in> set (rq_records rq). in_deleted x \<longrightarrow> in_local x \<noteq> ob_local b"
    have "?look s = Some b" using find_placed [OF places b, of sv] scope(1) by (simp add: in_scope_def)
    from items_own_object [OF inj ok u(1) this] named scope(2) obtain x where
      x: "?look u = Some x" "ob_id x = ob_id b" "\<not> ob_retired x" unfolding xs by blast
    have "ob_local b \<notin> set ?locals"
    proof
      assume "ob_local b \<in> set ?locals"
      then have "ob_local b \<notin> set (seen_ids (Some run) (rq_records rq))" by (auto simp: unseen_def)
      with scope show False by (simp add: unseen_def)
    qed
    with ysloc have "?look t = Some x" by (intro items_other_object [OF inj oku u(2) x(1)]) auto
    with x(2,3) show "\<exists>y \<in> set (objects t). ob_id y = ob_id b \<and> \<not> ob_retired y" using find_object_Some by blast
  qed
  show "\<not> in_scope sv source rq b \<longrightarrow> b \<in> set (objects t)"
  proof
    assume out: "\<not> in_scope sv source rq b"
    let ?w = "sv\<lparr>wid := ob_ws b\<rparr>"
    have other: "(wid ?w, ob_source b, ob_domain b, ob_local b) \<noteq> (wid sv, sc_id source, rq_domain rq, l)" for l
      using out by (auto simp: in_scope_def)
    have "find_object ?w (ob_source b) (ob_domain b) (ob_local b) s = Some b" by (rule find_placed [OF places b]) simp
    from items_other_object [OF inj ok u(1) this] other
    have "find_object ?w (ob_source b) (ob_domain b) (ob_local b) u = Some b" by blast
    from items_other_object [OF inj oku u(2) this] other
    have "find_object ?w (ob_source b) (ob_domain b) (ob_local b) t = Some b" by blast
    from find_object_Some [OF this] show "b \<in> set (objects t)" by blast
  qed
qed

section \<open>Property\<close>

text \<open>
  C32. A completed snapshot retires exactly what its run did not see. After a call that completes a full
  run, every active object of the workspace, source and domain that the run never showed, on this page
  or an earlier one, is retired and has no current observation; every active object that it showed, and
  that no record of this page deletes, is still active; and the objects of other workspaces, sources
  and domains are as they were. The version the call gives its deletions must be new: a source that has
  delivered it before is taken to repeat it.
\<close>

theorem snapshots_retire_exactly_the_unseen:
  assumes "inj (uuid R)" "store_ok R s" "distinct (map place (objects s))"
    and "ingest R sv rq s = Inr (Ingested c k ri cp, t)" "find_source sv (rq_source rq) s = Some source"
    and "run_gate R sv (sc_id source) rq s = Inr (Proceed (Some run), s1)"
    and "rq_mode rq = FullExtraction" "rq_complete_snapshot rq"
    and "\<forall>r \<in> set (records s). sr_version r \<noteq> ''snapshot-delete:'' @ the (rq_run rq)"
    and "\<forall>x \<in> set (rq_records rq). in_version x \<noteq> ''snapshot-delete:'' @ the (rq_run rq)"
    and "b \<in> set (objects s)"
  shows "(unseen sv source rq run b \<longrightarrow> (\<exists>y \<in> set (objects t). ob_id y = ob_id b \<and> ob_retired y \<and> ob_current y = None)) \<and>
    (in_scope sv source rq b \<and> \<not> ob_retired b \<and> ob_local b \<in> set (seen_ids (Some run) (rq_records rq)) \<and>
       (\<forall>x \<in> set (rq_records rq). in_deleted x \<longrightarrow> in_local x \<noteq> ob_local b) \<longrightarrow>
       (\<exists>y \<in> set (objects t). ob_id y = ob_id b \<and> \<not> ob_retired y)) \<and>
    (\<not> in_scope sv source rq b \<longrightarrow> b \<in> set (objects t))"
proof -
  from ingest_cases [OF assms(4)] assms(5,6) obtain domain s2 s3 where
    recs: "ingest_records R sv source domain rq (Some run) s1 = Inr (c, s2)"
    and fin: "finish_source R source rq c s2 = Inr s3"
    and t: "t = audit R sv ''source.ingested'' ''source'' (sc_id source) (ingest_audit rq c) (finish_run R (Some run) rq c s3)"
    by auto
  note g = run_gate_frame [OF assms(6)]
  have ok: "store_ok R s1" by (rule store_ok_frame [OF assms(2)]) (use g in \<open>simp_all add: members_def\<close>)
  have obs: "objects s1 = objects s" "records s1 = records s" using g by simp_all
  have ot: "objects t = objects s2" using finish_frame [OF fin] by (simp add: t audit_frame finish_run_frame)
  have new: "(l, in_version (snapshot_delete (the (rq_run rq)) l)) \<notin>
      versions_of s1 \<union> (\<lambda>x. (in_local x, in_version x)) ` set (rq_records rq)" for l
    using assms(9,10) by (auto simp: versions_of_def obs snapshot_delete_def)
  note all = completed_records [OF assms(1) ok assms(3) [folded obs(1)] recs assms(7,8) new assms(11) [folded obs(1)]]
  have "\<exists>y \<in> set (objects t). ob_id y = ob_id b \<and> \<not> ob_retired y"
    if "in_scope sv source rq b" "\<not> ob_retired b" "ob_local b \<in> set (seen_ids (Some run) (rq_records rq))"
      "\<forall>x \<in> set (rq_records rq). in_deleted x \<longrightarrow> in_local x \<noteq> ob_local b"
    using all(2) that unfolding ot by (simp add: unseen_def)
  with all(1,3) show ?thesis unfolding ot gone_def by blast
qed

section \<open>Witness\<close>

text \<open>An object that a run without records does not see.\<close>

definition stock_db :: db where
  "stock_db = snd (get_or_create_object ascii_runtime demo_service ''s1'' ''supplier'' ''A'' plain_db)"

definition last_page :: ingest_request where
  "last_page = empty_page\<lparr>rq_mode := FullExtraction, rq_complete_snapshot := True, rq_run := Some ''r'',
     rq_source_complete := True\<rparr>"

definition stock_object :: source_object where
  "stock_object = new_object ascii_runtime demo_service ''s1'' ''supplier'' ''A'' plain_db"

definition stock_run :: ingestion_run where
  "stock_run = new_run ascii_runtime demo_service ''s1'' last_page ''r'' stock_db"

lemma stock_object_simps:
  "ob_id stock_object = ''u0''" "ob_ws stock_object = ''w1''" "ob_source stock_object = ''s1''"
  "ob_domain stock_object = ''supplier''" "ob_local stock_object = ''A''" "ob_entity stock_object = None"
  "ob_current stock_object = None" "\<not> ob_retired stock_object"
  by (simp_all add: stock_object_def new_object_def legacy_record_def plain_db_def empty_db_def Let_def next_id_def
      ascii_runtime_def demo_service_def digits_zero)

lemma stock_db_eq: "stock_db = plain_db\<lparr>objects := [stock_object], ticks := 1\<rparr>"
proof -
  have "objects plain_db = []" "ticks plain_db = 0" by (simp_all add: plain_db_def empty_db_def)
  then show ?thesis
    using stock_object_simps(6)
    by (simp add: stock_db_def get_or_create_object_def find_object_def Let_def row_add_def stock_object_def)
qed

lemma stock_ok: "store_ok ascii_runtime stock_db"
  using store_ok_object [OF ascii_uuid plain_db_ok(1)] by (metis stock_db_def prod.collapse)

lemma stock_policy:
  "\<exists>p. compile_policy ascii_runtime tax_definition = Inr p \<and>
     normalize ascii_runtime p [] = Inr [] \<and> (\<exists>ks. blocking_keys ascii_runtime p [] = Inr ks)"
proof -
  have "case compile_document ascii_runtime tax_definition of Inl _ \<Rightarrow> False
    | Inr p \<Rightarrow> (case normalize ascii_runtime p [] of Inl _ \<Rightarrow> False | Inr x \<Rightarrow> x = []) \<and>
        (case blocking_keys ascii_runtime p [] of Inl _ \<Rightarrow> False | Inr ks \<Rightarrow> True)"
    by code_simp
  then obtain p ks where p: "compile_document ascii_runtime tax_definition = Inr p"
    "normalize ascii_runtime p [] = Inr []" "blocking_keys ascii_runtime p [] = Inr ks"
    by (auto split: sum.splits)
  let ?q = "p\<lparr>checksum := canonical_hash ascii_runtime (policy_document p)\<rparr>"
  have "normalize R ?q d = normalize R p d" "blocking_keys R ?q d = blocking_keys R p d" for R d
    by (simp_all add: normalize_def attribute_of_def blocking_keys_def)
  with p show ?thesis by (simp add: compile_policy_def)
qed

lemma stock_gate:
  "run_gate ascii_runtime demo_service ''s1'' last_page stock_db =
     Inr (Proceed (Some stock_run), stock_db\<lparr>runs := [stock_run], ticks := 2\<rparr>)"
  by (simp add: run_gate_def last_page_def empty_page_def truthy_str_def open_run_def find_run_def stock_db_eq
      plain_db_def empty_db_def check_handoff_def row_add_def stock_run_def Let_def guard_res_def)

lemma stock_deletion:
  assumes "normalize R p [] = Inr []" "blocking_keys R p [] = Inr ks" "objects s = [stock_object]" "records s = []"
  shows "\<exists>c' t. process_item R demo_service p (demo_source ''s1'' ''crm'' 10) ''supplier'' None
    (1, snapshot_delete ''r'' ''A'') (c, s) = Inr (c', t)"
proof -
  let ?item = "snapshot_delete ''r'' ''A''"
  have "find_object demo_service ''s1'' ''supplier'' ''A'' s = Some stock_object"
    by (simp add: find_object_def assms(3) stock_object_simps demo_service_def)
  then have b: "get_or_create_object R demo_service ''s1'' ''supplier'' (in_local ?item) s = (stock_object, s)"
    by (simp add: get_or_create_object_def snapshot_delete_def)
  have "observed_values stock_object ?item s = []"
    by (simp add: observed_values_def snapshot_delete_def stock_object_simps dict_merge_def)
  then obtain o' where o': "observe R p stock_object ?item s = Inr o'" "obs_errors o' = []"
    using assms(1,2) by (simp add: observe_def snapshot_delete_def)
  have none: "find_observation demo_service ''s1'' ''supplier'' ?item s = None"
    by (simp add: find_observation_def assms(4))
  obtain rec s2 where s2: "store_observation R demo_service ''s1'' ''supplier'' stock_object ?item o' s = (rec, s2)"
    by fastforce
  have "\<exists>c' t. apply_observation R demo_service p None 1 stock_object ?item rec o' c s2 = Inr (c', t)"
    by (simp add: apply_observation_def o'(2) observation_is_current_def snapshot_delete_def retire_object_def
        stock_object_simps)
  with b none o'(1) s2 show ?thesis by (simp add: process_item_def demo_source_def)
qed

lemma stock_ingested:
  "\<exists>c k ri cp t. ingest ascii_runtime demo_service last_page stock_db = Inr (Ingested c k ri cp, t)"
proof -
  let ?s = "stock_db\<lparr>runs := [stock_run], ticks := 2\<rparr>" and ?source = "demo_source ''s1'' ''crm'' 10"
  obtain p ks where p: "compile_policy ascii_runtime tax_definition = Inr p"
    "normalize ascii_runtime p [] = Inr []" "blocking_keys ascii_runtime p [] = Inr ks"
    using stock_policy by blast
  have rows: "objects ?s = [stock_object]" "records ?s = []" by (simp_all add: stock_db_eq plain_db_def empty_db_def)
  have seen: "seen_ids (Some stock_run) (rq_records last_page) = []"
    by (simp add: seen_ids_def stock_run_def new_run_def last_page_def empty_page_def)
  have work: "work_records demo_service ''s1'' last_page (Some stock_run) ?s = Inr [snapshot_delete ''r'' ''A'']"
    unfolding work_records_def unseen_objects_def seen rows
    by (simp add: last_page_def empty_page_def stock_object_simps demo_service_def make_delete_def guard_res_def)
      (simp add: snapshot_delete_def)
  obtain c t where "process_item ascii_runtime demo_service p ?source ''supplier'' None (1, snapshot_delete ''r'' ''A'')
      (no_counts, ?s) = Inr (c, t)"
    using stock_deletion [OF p(2,3) rows] by blast
  with work p(1) have recs: "ingest_records ascii_runtime demo_service ?source demo_domain last_page (Some stock_run) ?s = Inr (c, t)"
    by (simp add: ingest_records_def demo_domain_def forbidden_fields_def index_from_def sorted_set_def guard_res_def
        demo_source_def) (simp add: last_page_def empty_page_def sorted_set_def)
  have src: "find_source demo_service (rq_source last_page) stock_db = Some ?source"
    "find_domain demo_service (rq_domain last_page) stock_db = Some demo_domain"
    by (simp_all add: find_source_def find_domain_def stock_db_eq plain_db_def demo_service_def last_page_def empty_page_def
        demo_source_def demo_domain_def)
  have gate: "run_gate ascii_runtime demo_service (sc_id ?source) last_page stock_db = Inr (Proceed (Some stock_run), ?s)"
    using stock_gate by (simp add: demo_source_def)
  obtain s3 where "finish_source ascii_runtime ?source last_page c t = Inr s3"
    by (simp add: finish_source_def demo_source_def dget_or_def py_int_def)
  with recs src gate show ?thesis by (simp add: ingest_def Let_def)
qed

theorem snapshots_retire_exactly_the_unseen_witness:
  "\<exists>c k ri cp t. ingest ascii_runtime demo_service last_page stock_db = Inr (Ingested c k ri cp, t) \<and>
     (\<exists>y \<in> set (objects t). ob_id y = ''u0'' \<and> ob_retired y \<and> ob_current y = None)"
proof -
  obtain c k ri cp t where i: "ingest ascii_runtime demo_service last_page stock_db = Inr (Ingested c k ri cp, t)"
    using stock_ingested by blast
  have src: "find_source demo_service (rq_source last_page) stock_db = Some (demo_source ''s1'' ''crm'' 10)"
    by (simp add: find_source_def stock_db_eq plain_db_def demo_service_def last_page_def empty_page_def demo_source_def)
  have gate: "run_gate ascii_runtime demo_service (sc_id (demo_source ''s1'' ''crm'' 10)) last_page stock_db =
      Inr (Proceed (Some stock_run), stock_db\<lparr>runs := [stock_run], ticks := 2\<rparr>)"
    using stock_gate by (simp add: demo_source_def)
  have rows: "objects stock_db = [stock_object]" "records stock_db = []" by (simp_all add: stock_db_eq plain_db_def empty_db_def)
  have "unseen demo_service (demo_source ''s1'' ''crm'' 10) last_page stock_run stock_object"
    by (simp add: unseen_def in_scope_def stock_object_simps demo_service_def demo_source_def last_page_def empty_page_def
        seen_ids_def stock_run_def new_run_def)
  with snapshots_retire_exactly_the_unseen [OF ascii_uuid stock_ok _ i src gate, of stock_object] rows
  have "\<exists>y \<in> set (objects t). ob_id y = ob_id stock_object \<and> ob_retired y \<and> ob_current y = None"
    by (simp add: last_page_def empty_page_def)
  with i stock_object_simps(1) show ?thesis by simp
qed

end
