(* ===== verification/Profile.thy ===== *)
theory Profile
  imports Views
begin

text \<open>
  The quality profile of a domain (\<open>quality_profile\<close> of api/routes.py): the latest observation of
  every source record, a bounded sample of them, and the counts of each readable attribute. A value
  is counted by its canonical JSON (\<open>json.dumps(value, sort_keys=True)\<close>).
\<close>

section \<open>The profiled population\<close>

definition same_source_record :: "source_record \<Rightarrow> source_record \<Rightarrow> bool" where
  "same_source_record r q \<longleftrightarrow> sr_source q = sr_source r \<and> sr_local q = sr_local r"

text \<open>\<open>row_number() OVER (PARTITION BY source_id, local_id ORDER BY observed_at DESC, id DESC) = 1\<close>\<close>

definition latest_observations :: "service \<Rightarrow> string \<Rightarrow> db \<Rightarrow> source_record list" where
  "latest_observations sv key s =
     (let rows = filter (\<lambda>r. sr_ws r = wid sv \<and> sr_domain r = key) (records s)
      in filter (\<lambda>r. \<forall>q \<in> set rows. same_source_record r q \<longrightarrow>
           (sr_observed q, sr_id q) \<le> (sr_observed r, sr_id r)) rows)"

definition profile_sample :: "service \<Rightarrow> string \<Rightarrow> nat \<Rightarrow> db \<Rightarrow> source_record list" where
  "profile_sample sv key n s = take n (sort_key sr_id (latest_observations sv key s))"

section \<open>One attribute\<close>

definition present_values :: "string \<Rightarrow> source_record list \<Rightarrow> json list" where
  "present_values key rows = filter (\<lambda>v. \<not> is_missing v) (map (\<lambda>r. dget (sr_original r) key) rows)"

text \<open>The distinct elements in the order of their first occurrence, and \<open>Counter.most_common(n)\<close>.\<close>

definition distinct_first :: "'a list \<Rightarrow> 'a list" where
  "distinct_first xs = rev (remdups (rev xs))"

definition most_common :: "nat \<Rightarrow> 'a list \<Rightarrow> ('a \<times> nat) list" where
  "most_common n xs = take n (sort_key (\<lambda>p. - int (snd p)) (map (\<lambda>x. (x, count_list xs x)) (distinct_first xs)))"

definition entity_values :: "string \<Rightarrow> ident \<Rightarrow> source_record list \<Rightarrow> json set" where
  "entity_values key i rows = set (map canon (present_values key (filter (\<lambda>r. sr_entity r = Some i) rows)))"

definition entities_of :: "source_record list \<Rightarrow> ident list" where
  "entities_of rows = remdups (concat (map (\<lambda>r. case sr_entity r of None \<Rightarrow> [] | Some i \<Rightarrow> [i]) rows))"

definition conflicting_entities :: "string \<Rightarrow> source_record list \<Rightarrow> nat" where
  "conflicting_entities key rows = length (filter (\<lambda>i. 1 < card (entity_values key i rows)) (entities_of rows))"

record field_profile =
  fp_field :: string
  fp_required :: bool
  fp_present :: nat
  fp_missing :: nat
  fp_completeness :: real
  fp_unique :: nat
  fp_conflicting :: nat
  fp_top :: "(json \<times> nat) list"

definition ratio :: "nat \<Rightarrow> nat \<Rightarrow> real" where
  "ratio a b = (if b = 0 then 1 else py_round 6 (real a / real b))"

definition profile_field :: "source_record list \<Rightarrow> dict \<Rightarrow> field_profile" where
  "profile_field rows attribute =
     (let key = text_of (dget attribute ''key'');
          present = present_values key rows;
          values = map canon present
      in \<lparr>fp_field = key,
          fp_required = truthy (dget attribute ''required''),
          fp_present = length present,
          fp_missing = length rows - length present,
          fp_completeness = ratio (length present) (length rows),
          fp_unique = length (distinct_first values),
          fp_conflicting = conflicting_entities key rows,
          fp_top = most_common 5 values\<rparr>)"

section \<open>The profile\<close>

record profile =
  pf_domain :: string
  pf_full :: bool
  pf_population :: nat
  pf_sample :: nat
  pf_freshest :: "time option"
  pf_required :: real
  pf_invalid :: nat
  pf_fields :: "field_profile list"

text \<open>The first domain by key when none is named.\<close>

definition profiled_domain :: "service \<Rightarrow> string option \<Rightarrow> db \<Rightarrow> domain_row option" where
  "profiled_domain sv dk s =
     (case sort_key dm_key (filter (\<lambda>d. dm_ws d = wid sv \<and>
        (case dk of None \<Rightarrow> True | Some k \<Rightarrow> k = [] \<or> dm_key d = k)) (domains s)) of
        [] \<Rightarrow> None | d # _ \<Rightarrow> Some d)"

definition profile_of :: "service \<Rightarrow> nat \<Rightarrow> db \<Rightarrow> domain_row \<Rightarrow> profile" where
  "profile_of sv n s d =
     (let rows = profile_sample sv (dm_key d) n s;
          total = length (latest_observations sv (dm_key d) s);
          readable = readable_fields sv (dm_key d) s;
          shown = filter (\<lambda>a. text_of (dget a ''key'') \<in> set readable) (attribute_rows (dm_definition d));
          fs = map (profile_field rows) shown;
          required = filter fp_required fs
      in \<lparr>pf_domain = dm_key d,
          pf_full = (total \<le> n),
          pf_population = total,
          pf_sample = length rows,
          pf_freshest = (if rows = [] then None else Some (Max (set (map sr_observed rows)))),
          pf_required = ratio (sum_list (map fp_present required)) (length rows * length required),
          pf_invalid = length (filter (\<lambda>r. sr_state r = Quarantine) rows),
          pf_fields = fs\<rparr>)"

definition quality_profile :: "service \<Rightarrow> string option \<Rightarrow> nat \<Rightarrow> db \<Rightarrow> profile res" where
  "quality_profile sv dk n s =
     bind_res (from_option (HTTPException 404 ''domain_not_found'') (profiled_domain sv dk s)) (\<lambda>d.
     Inr (profile_of sv n s d))"

section \<open>Counting\<close>

lemma distinct_first_simps [simp]:
  "set (distinct_first xs) = set xs" "distinct (distinct_first xs)"
  by (simp_all add: distinct_first_def)

lemma length_distinct_first: "length (distinct_first xs) = card (set xs)"
  by (metis distinct_card distinct_first_simps)

lemma sum_counts: "distinct ys \<Longrightarrow> set xs \<subseteq> set ys \<Longrightarrow> sum_list (map (count_list xs) ys) = length xs"
  by (simp add: sum_list_distinct_conv_sum_set sum_count_set)

lemma sum_list_take_le: "sum_list (take n xs) \<le> sum_list (xs :: nat list)"
  by (metis append_take_drop_id le_add1 sum_list_append)

lemma sum_list_sort_key: "sum_list (map f (sort_key g xs)) = sum_list (map f xs)" for f :: "'a \<Rightarrow> nat"
  by (metis mset_map mset_sort sum_mset_sum_list)

lemma most_common_sum: "sum_list (map snd (most_common n xs)) \<le> length xs"
proof -
  have "sum_list (map snd (most_common n xs)) \<le>
      sum_list (map snd (sort_key (\<lambda>p. - int (snd p)) (map (\<lambda>x. (x, count_list xs x)) (distinct_first xs))))"
    unfolding most_common_def take_map [symmetric] by (rule sum_list_take_le)
  also have "\<dots> = sum_list (map (count_list xs) (distinct_first xs))"
    by (simp add: sum_list_sort_key comp_def)
  also have "\<dots> = length xs" by (rule sum_counts) simp_all
  finally show ?thesis .
qed

lemma ratio_bounds: "a \<le> b \<Longrightarrow> 0 \<le> ratio a b \<and> ratio a b \<le> 1"
  by (cases "b = 0") (simp_all add: ratio_def py_round_bounds)

lemma length_present: "length (present_values key rows) \<le> length rows"
  unfolding present_values_def by (metis length_filter_le length_map)

lemma sum_le_product: "(\<And>x. x \<in> set xs \<Longrightarrow> f x \<le> n) \<Longrightarrow> sum_list (map f xs) \<le> n * length xs" for n :: nat
  by (induction xs) (auto intro: add_mono)

lemma latest_observations_subset:
  "r \<in> set (latest_observations sv key s) \<Longrightarrow> r \<in> set (records s) \<and> sr_ws r = wid sv \<and> sr_domain r = key"
  by (auto simp: latest_observations_def Let_def)

lemma latest_observation_unique:
  assumes "distinct (map sr_id (records s))" "r \<in> set (latest_observations sv key s)"
    "q \<in> set (latest_observations sv key s)" "same_source_record r q"
  shows "r = q"
proof -
  have "same_source_record q r" using assms(4) by (simp add: same_source_record_def)
  with assms(2-4) have "(sr_observed q, sr_id q) \<le> (sr_observed r, sr_id r)"
    "(sr_observed r, sr_id r) \<le> (sr_observed q, sr_id q)"
    by (auto simp: latest_observations_def Let_def)
  then have "sr_id r = sr_id q" by (simp add: less_eq_prod_def) force
  moreover from assms(2,3) have "r \<in> set (records s)" "q \<in> set (records s)"
    by (simp_all add: latest_observations_subset)
  ultimately show ?thesis using assms(1) by (simp add: distinct_map inj_on_def)
qed

lemma latest_observation_exists:
  assumes "r \<in> set (records s)" "sr_ws r = wid sv" "sr_domain r = key"
  shows "\<exists>q \<in> set (latest_observations sv key s). same_source_record r q"
proof -
  let ?G = "{q \<in> set (records s). sr_ws q = wid sv \<and> sr_domain q = key \<and> same_source_record r q}"
  let ?m = "Max ((\<lambda>q. (sr_observed q, sr_id q)) ` ?G)"
  have fin: "finite ?G" by simp
  from assms have ne: "?G \<noteq> {}" by (auto simp: same_source_record_def)
  then have "?m \<in> (\<lambda>q. (sr_observed q, sr_id q)) ` ?G" using fin by (intro Max_in) auto
  then obtain q where q: "q \<in> ?G" "?m = (sr_observed q, sr_id q)" by blast
  have "(sr_observed x, sr_id x) \<le> (sr_observed q, sr_id q)" if "x \<in> ?G" for x
    using Max_ge [of "(\<lambda>q. (sr_observed q, sr_id q)) ` ?G" "(sr_observed x, sr_id x)"] that fin q(2) by auto
  with q(1) show ?thesis by (intro bexI [of _ q]) (auto simp: latest_observations_def Let_def same_source_record_def)
qed

lemma population_counts_objects:
  assumes "distinct (map sr_id (records s))"
  shows "length (latest_observations sv key s) =
    card {(sr_source r, sr_local r) | r. r \<in> set (records s) \<and> sr_ws r = wid sv \<and> sr_domain r = key}"
proof -
  let ?L = "latest_observations sv key s" and ?f = "\<lambda>r. (sr_source r, sr_local r)"
  have "distinct (records s)" using assms by (simp add: distinct_map)
  then have "distinct ?L" by (simp add: latest_observations_def Let_def)
  moreover have "inj_on ?f (set ?L)"
    by (rule inj_onI) (auto intro: latest_observation_unique [OF assms] simp: same_source_record_def)
  ultimately have "length ?L = card (?f ` set ?L)" by (simp add: card_image distinct_card)
  also have "?f ` set ?L = {(sr_source r, sr_local r) | r. r \<in> set (records s) \<and> sr_ws r = wid sv \<and> sr_domain r = key}"
  proof
    show "?f ` set ?L \<subseteq> {(sr_source r, sr_local r) | r. r \<in> set (records s) \<and> sr_ws r = wid sv \<and> sr_domain r = key}"
      using latest_observations_subset by fastforce
    show "{(sr_source r, sr_local r) | r. r \<in> set (records s) \<and> sr_ws r = wid sv \<and> sr_domain r = key} \<subseteq> ?f ` set ?L"
    proof clarify
      fix r assume r: "r \<in> set (records s)" "sr_ws r = wid sv" "key = sr_domain r"
      with latest_observation_exists [of r s sv key] obtain q
        where "q \<in> set ?L" "same_source_record r q" by auto
      with r show "(sr_source r, sr_local r) \<in> ?f ` set (latest_observations sv (sr_domain r) s)"
        by (auto simp: same_source_record_def image_iff intro!: bexI [of _ q])
    qed
  qed
  finally show ?thesis .
qed

lemma profile_field_adds_up:
  "fp_present (profile_field rows a) + fp_missing (profile_field rows a) = length rows \<and>
   0 \<le> fp_completeness (profile_field rows a) \<and> fp_completeness (profile_field rows a) \<le> 1 \<and>
   fp_unique (profile_field rows a) \<le> fp_present (profile_field rows a) \<and>
   sum_list (map snd (fp_top (profile_field rows a))) \<le> fp_present (profile_field rows a)"
proof -
  let ?present = "present_values (text_of (dget a ''key'')) rows"
  have "card (set (map canon ?present)) \<le> length ?present" by (metis card_length length_map)
  moreover have "sum_list (map snd (most_common 5 (map canon ?present))) \<le> length ?present"
    using most_common_sum [of 5 "map canon ?present"] by simp
  ultimately show ?thesis
    using length_present [of "text_of (dget a ''key'')" rows] ratio_bounds [OF length_present]
    by (simp add: profile_field_def Let_def length_distinct_first)
qed

section \<open>Guarantees\<close>

text \<open>
  The numbers of a quality profile add up: the population is the number of source records of
  the domain, each counted once however often it was observed; the sample is the population or the
  limit; per attribute the present and missing values make up the sample, the distinct values and
  the counts of the most common ones stay within the present values, and every ratio is between 0
  and 1.
\<close>

theorem quality_profiles_add_up:
  assumes "distinct (map sr_id (records s))" "quality_profile sv dk n s = Inr p"
  shows "pf_population p = card {(sr_source r, sr_local r) | r. r \<in> set (records s) \<and>
      sr_ws r = wid sv \<and> sr_domain r = pf_domain p} \<and>
    pf_sample p = min n (pf_population p) \<and> (pf_full p \<longleftrightarrow> pf_sample p = pf_population p) \<and>
    pf_invalid p \<le> pf_sample p \<and> 0 \<le> pf_required p \<and> pf_required p \<le> 1 \<and>
    (\<forall>f \<in> set (pf_fields p). fp_present f + fp_missing f = pf_sample p \<and>
       0 \<le> fp_completeness f \<and> fp_completeness f \<le> 1 \<and> fp_unique f \<le> fp_present f \<and>
       sum_list (map snd (fp_top f)) \<le> fp_present f)"
proof -
  from assms(2) obtain d where p: "p = profile_of sv n s d"
    by (auto simp: quality_profile_def bind_res_Inr)
  let ?rows = "profile_sample sv (dm_key d) n s"
  have len: "length ?rows = min n (length (latest_observations sv (dm_key d) s))"
    by (simp add: profile_sample_def)
  have fields: "\<forall>f \<in> set (pf_fields p). fp_present f + fp_missing f = length ?rows \<and>
       0 \<le> fp_completeness f \<and> fp_completeness f \<le> 1 \<and> fp_unique f \<le> fp_present f \<and>
       sum_list (map snd (fp_top f)) \<le> fp_present f"
    unfolding p profile_of_def Let_def using profile_field_adds_up by simp
  then have "\<And>f. f \<in> set (filter fp_required (pf_fields p)) \<Longrightarrow> fp_present f \<le> length ?rows"
    by (metis le_add1 filter_is_subset subsetD)
  then have "sum_list (map fp_present (filter fp_required (pf_fields p))) \<le> length ?rows * length (filter fp_required (pf_fields p))"
    by (rule sum_le_product)
  then have "0 \<le> pf_required p \<and> pf_required p \<le> 1"
    using ratio_bounds by (simp add: p profile_of_def Let_def)
  moreover have "pf_invalid p \<le> length ?rows" by (simp add: p profile_of_def Let_def)
  moreover have "pf_population p = length (latest_observations sv (dm_key d) s)" "pf_sample p = length ?rows"
    "pf_domain p = dm_key d" "pf_full p \<longleftrightarrow> length (latest_observations sv (dm_key d) s) \<le> n"
    by (simp_all add: p profile_of_def Let_def)
  ultimately show ?thesis
    using fields len population_counts_objects [OF assms(1), of sv "dm_key d"] by auto
qed

section \<open>Witnesses\<close>

definition profiled_db :: db where
  "profiled_db = demo_db\<lparr>domains := [guarded_domain],
     records := [demo_record ''r1'' ''s1'' ''Acme'' 5,
                 (demo_record ''r2'' ''s1'' ''Old Acme'' 9)\<lparr>sr_local := ''r1'', sr_state := Superseded\<rparr>],
     objects := [demo_object ''o1'' ''r1'' ''s1'']\<rparr>"

theorem quality_profiles_add_up_witness:
  "\<exists>p. quality_profile steward_service None 10 profiled_db = Inr p \<and> pf_sample p = min 10 (pf_population p)"
proof -
  have ids: "distinct (map sr_id (records profiled_db))" by (simp add: profiled_db_def demo_record_def)
  have "profiled_domain steward_service None profiled_db = Some guarded_domain"
    by (simp add: profiled_domain_def profiled_db_def guarded_domain_def demo_domain_def steward_service_def)
  then have "quality_profile steward_service None 10 profiled_db = Inr (profile_of steward_service 10 profiled_db guarded_domain)"
    by (simp add: quality_profile_def)
  with quality_profiles_add_up [OF ids this] show ?thesis by blast
qed

text \<open>
  The profile is said to cover the current state, never obsolete observations. It takes the
  observation that arrived last instead: here a superseded one, which the source object does not
  have as its current record.
\<close>

lemma superseded_observations_are_profiled:
  "map sr_id (profile_sample steward_service ''supplier'' 10 profiled_db) = [''r2'']"
  "map ob_current (objects profiled_db) = [Some ''r1'']"
  "map sr_state (profile_sample steward_service ''supplier'' 10 profiled_db) = [Superseded]"
  by (simp_all add: profile_sample_def latest_observations_def profiled_db_def demo_record_def demo_object_def
      steward_service_def same_source_record_def less_eq_prod_def)

end
