(* ===== verification/Tenancy.thy ===== *)
theory Tenancy
  imports Profile Bundle Simulation Login Secrets
begin

text \<open>
  What a workspace shows: the remaining lists of api/routes.py (domains, sources, relationships,
  configurations, simulations, machine identities, the audit trail, the caller), and that no read endpoint shows anything of another
  workspace. Some lookups of the views are by id alone; for those it matters that the rows of a
  workspace refer to rows of their own.
\<close>

section \<open>Lists\<close>

definition list_sources :: "service \<Rightarrow> db \<Rightarrow> source_row list" where
  "list_sources sv s = sort_key sc_priority (filter (\<lambda>c. sc_ws c = wid sv) (sources s))"

definition list_domains :: "service \<Rightarrow> db \<Rightarrow> domain_row list" where
  "list_domains sv s = sort_key dm_name (filter (\<lambda>d. dm_ws d = wid sv) (domains s))"

definition list_relationships :: "service \<Rightarrow> db \<Rightarrow> relationship list" where
  "list_relationships sv s = filter (\<lambda>l. rl_ws l = wid sv) (relationships s)"

definition list_configurations :: "service \<Rightarrow> db \<Rightarrow> configuration list" where
  "list_configurations sv s = sort_key (\<lambda>c. - cv_version c) (filter (\<lambda>c. cv_ws c = wid sv) (configurations s))"

definition list_simulations :: "runtime \<Rightarrow> service \<Rightarrow> db \<Rightarrow> dict list" where
  "list_simulations R sv s =
     map (\<lambda>m. simulation_view R sv m s) (newest_all sm_created (filter (\<lambda>m. sm_ws m = wid sv) (simulations s)))"

definition list_audit :: "service \<Rightarrow> db \<Rightarrow> audit_entry list" where
  "list_audit sv s = newest au_created 200 (filter (\<lambda>a. au_ws a = wid sv) (audits s))"

text \<open>The view of a machine identity: neither its prefix nor its verifier and salt. Its \<open>created_at\<close> is a stamp.\<close>

record account_view =
  av_id :: ident
  av_name :: string
  av_roles :: "string list"
  av_scopes :: "string list"
  av_version :: int
  av_expires :: time
  av_revoked :: "time option"
  av_by :: string
  av_created :: time
  av_used :: "time option"

definition view_account :: "(ident \<Rightarrow> time) \<Rightarrow> service_account \<Rightarrow> account_view" where
  "view_account stamp a =
     \<lparr>av_id = sa_id a, av_name = sa_name a, av_roles = sa_roles a, av_scopes = sa_scopes a, av_version = sa_version a,
      av_expires = sa_expires a, av_revoked = sa_revoked a, av_by = sa_by a, av_created = stamp (sa_id a), av_used = sa_used a\<rparr>"

definition list_accounts :: "service \<Rightarrow> (ident \<Rightarrow> time) \<Rightarrow> site \<Rightarrow> account_view list" where
  "list_accounts sv stamp s =
     map (view_account stamp) (newest_all (\<lambda>a. stamp (sa_id a)) (filter (\<lambda>a. sa_ws a = wid sv) (accounts s)))"

text \<open>\<open>/me\<close> and \<open>/auth/session\<close>: the caller, its workspace and its roles.\<close>

definition me :: "principal \<Rightarrow> service \<Rightarrow> db \<Rightarrow> string \<times> string \<times> string list \<times> workspace option" where
  "me p sv s = (pr_subject p, pr_issuer p, pr_roles p, find (\<lambda>w. ws_id w = wid sv) (workspaces s))"

definition session_status :: "crypto \<Rightarrow> time \<Rightarrow> string \<Rightarrow> site \<Rightarrow> (string \<times> string \<times> string list) option \<times> site" where
  "session_status C now cookie s =
     (case session_principal C now cookie s of
        (p, t) \<Rightarrow> (map_option (\<lambda>p. (pr_subject p, pr_ws p, pr_roles p)) p, t))"

section \<open>Rows of one workspace\<close>

definition own :: "('r \<Rightarrow> ident) \<Rightarrow> service \<Rightarrow> 'r list \<Rightarrow> 'r list" where
  "own f sv rows = filter (\<lambda>r. f r = wid sv) rows"

definition same_tenant :: "service \<Rightarrow> db \<Rightarrow> db \<Rightarrow> bool" where
  "same_tenant sv s t \<longleftrightarrow>
     own ws_id sv (workspaces s) = own ws_id sv (workspaces t) \<and> own dm_ws sv (domains s) = own dm_ws sv (domains t) \<and>
     own sc_ws sv (sources s) = own sc_ws sv (sources t) \<and> own sr_ws sv (records s) = own sr_ws sv (records t) \<and>
     own en_ws sv (entities s) = own en_ws sv (entities t) \<and> own ob_ws sv (objects s) = own ob_ws sv (objects t) \<and>
     own ir_ws sv (runs s) = own ir_ws sv (runs t) \<and> own mh_ws sv (history s) = own mh_ws sv (history t) \<and>
     own mv_ws sv (masters s) = own mv_ws sv (masters t) \<and> own rt_ws sv (tasks s) = own rt_ws sv (tasks t) \<and>
     own lb_ws sv (object_bans s) = own lb_ws sv (object_bans t) \<and>
     own rl_ws sv (relationships s) = own rl_ws sv (relationships t) \<and>
     own cv_ws sv (configurations s) = own cv_ws sv (configurations t) \<and>
     own sm_ws sv (simulations s) = own sm_ws sv (simulations t) \<and> own ev_ws sv (events s) = own ev_ws sv (events t) \<and>
     own dv_ws sv (deliveries s) = own dv_ws sv (deliveries t) \<and> own rc_ws sv (receipts s) = own rc_ws sv (receipts t) \<and>
     own jb_ws sv (jobs s) = own jb_ws sv (jobs t) \<and> own au_ws sv (audits s) = own au_ws sv (audits t)"

text \<open>The lookups by id alone: masters of an entity, the current record of an object, the entity of an event.\<close>

definition homed :: "service \<Rightarrow> db \<Rightarrow> bool" where
  "homed sv s \<longleftrightarrow>
     (\<forall>e \<in> set (own en_ws sv (entities s)). \<forall>m \<in> set (masters s). mv_entity m = en_id e \<longrightarrow> mv_ws m = wid sv) \<and>
     (\<forall>b \<in> set (own ob_ws sv (objects s)). \<forall>r \<in> set (records s). ob_current b = Some (sr_id r) \<longrightarrow> sr_ws r = wid sv) \<and>
     (\<forall>v \<in> set (own ev_ws sv (events s)). \<forall>e \<in> set (entities s). ev_entity v = Some (en_id e) \<longrightarrow> en_ws e = wid sv)"

lemma filter_own: "(\<And>r. r \<in> set rows \<Longrightarrow> P r \<Longrightarrow> f r = wid sv) \<Longrightarrow> filter P rows = filter P (own f sv rows)"
  by (induction rows) (auto simp: own_def)

lemma find_own: "(\<And>r. r \<in> set rows \<Longrightarrow> P r \<Longrightarrow> f r = wid sv) \<Longrightarrow> find P rows = find P (own f sv rows)"
  by (induction rows) (auto simp: own_def)

lemma own_filter:
  "filter (\<lambda>r. f r = wid sv) rows = own f sv rows"
  "filter (\<lambda>r. f r = wid sv \<and> P r) rows = filter P (own f sv rows)"
  by (simp_all add: own_def conj_commute)

lemma own_find:
  "find (\<lambda>r. f r = wid sv \<and> P r) rows = find P (own f sv rows)"
  "find (\<lambda>r. P r \<and> f r = wid sv) rows = find P (own f sv rows)"
  "find (\<lambda>r. f r = wid sv) rows = find (\<lambda>_. True) (own f sv rows)"
  by (induction rows) (auto simp: own_def)

lemma own_mem: "r \<in> set (own f sv rows) \<longleftrightarrow> r \<in> set rows \<and> f r = wid sv"
  by (auto simp: own_def)

lemma same_tenantD:
  assumes "same_tenant sv s t"
  shows "own ws_id sv (workspaces s) = own ws_id sv (workspaces t)" "own dm_ws sv (domains s) = own dm_ws sv (domains t)"
    "own sc_ws sv (sources s) = own sc_ws sv (sources t)" "own sr_ws sv (records s) = own sr_ws sv (records t)"
    "own en_ws sv (entities s) = own en_ws sv (entities t)" "own ob_ws sv (objects s) = own ob_ws sv (objects t)"
    "own ir_ws sv (runs s) = own ir_ws sv (runs t)" "own mh_ws sv (history s) = own mh_ws sv (history t)"
    "own mv_ws sv (masters s) = own mv_ws sv (masters t)" "own rt_ws sv (tasks s) = own rt_ws sv (tasks t)"
    "own lb_ws sv (object_bans s) = own lb_ws sv (object_bans t)"
    "own rl_ws sv (relationships s) = own rl_ws sv (relationships t)"
    "own cv_ws sv (configurations s) = own cv_ws sv (configurations t)"
    "own sm_ws sv (simulations s) = own sm_ws sv (simulations t)" "own ev_ws sv (events s) = own ev_ws sv (events t)"
    "own dv_ws sv (deliveries s) = own dv_ws sv (deliveries t)" "own rc_ws sv (receipts s) = own rc_ws sv (receipts t)"
    "own jb_ws sv (jobs s) = own jb_ws sv (jobs t)" "own au_ws sv (audits s) = own au_ws sv (audits t)"
  using assms by (simp_all add: same_tenant_def)

section \<open>Views of rows of the workspace\<close>

lemma readable_tenant: "same_tenant sv s t \<Longrightarrow> readable_fields sv key s = readable_fields sv key t"
  by (simp add: readable_fields_def find_domain_def own_find same_tenantD)

lemma any_entity_tenant: "same_tenant sv s t \<Longrightarrow> any_entity sv i s = any_entity sv i t"
  by (simp add: any_entity_def own_find same_tenantD)

lemma task_view_tenant: "same_tenant sv s t \<Longrightarrow> task_view sv s q = task_view sv t q"
  by (simp add: task_view_def any_entity_tenant [of sv s t] readable_tenant [of sv s t] split: option.split)

lemma shown_master_tenant:
  assumes "same_tenant sv s t" "homed sv s" "homed sv t" "e \<in> set (own en_ws sv (entities s))"
  shows "shown_master (en_id e) s = shown_master (en_id e) t"
proof -
  have "filter (\<lambda>m. mv_entity m = en_id e) (masters u) = filter (\<lambda>m. mv_entity m = en_id e) (own mv_ws sv (masters u))"
    if "homed sv u" "e \<in> set (own en_ws sv (entities u))" for u
    by (rule filter_own) (use that in \<open>auto simp: homed_def\<close>)
  from this [OF assms(2,4)] this [OF assms(3)] assms(4)
  have "filter (\<lambda>m. mv_entity m = en_id e) (masters s) = filter (\<lambda>m. mv_entity m = en_id e) (masters t)"
    by (simp add: same_tenantD [OF assms(1)])
  then show ?thesis by (simp add: shown_master_def)
qed

lemma view_entity_tenant:
  assumes "same_tenant sv s t" "homed sv s" "homed sv t" "e \<in> set (own en_ws sv (entities s))"
  shows "view_entity sv s e = view_entity sv t e"
  by (simp add: view_entity_def shown_master_tenant [OF assms] readable_tenant [OF assms(1)] own_filter same_tenantD [OF assms(1)])

lemma object_view_tenant:
  assumes "same_tenant sv s t" "homed sv s" "homed sv t" "b \<in> set (own ob_ws sv (objects s))"
  shows "object_view sv s b = object_view sv t b"
proof -
  have "row_get sr_id i (records u) = row_get sr_id i (own sr_ws sv (records u))"
    if "homed sv u" "b \<in> set (own ob_ws sv (objects u))" "ob_current b = Some i" for u i
    unfolding row_get_def by (rule find_own) (use that in \<open>auto simp: homed_def\<close>)
  then have "row_get sr_id i (records s) = row_get sr_id i (records t)" if "ob_current b = Some i" for i
    using that assms same_tenantD [OF assms(1)] by metis
  then show ?thesis by (simp add: object_view_def readable_tenant [OF assms(1)] split: option.split)
qed

lemma event_view_tenant:
  assumes "same_tenant sv s t" "homed sv s" "homed sv t" "v \<in> set (own ev_ws sv (events s))"
  shows "event_view sv s v = event_view sv t v"
proof -
  have "row_get en_id i (entities u) = row_get en_id i (own en_ws sv (entities u))"
    if "homed sv u" "v \<in> set (own ev_ws sv (events u))" "ev_entity v = Some i" for u i
    unfolding row_get_def by (rule find_own) (use that in \<open>auto simp: homed_def\<close>)
  then have "row_get en_id i (entities s) = row_get en_id i (entities t)" if "ev_entity v = Some i" for i
    using that assms same_tenantD [OF assms(1)] by metis
  then show ?thesis by (simp add: event_view_def readable_tenant [OF assms(1)] split: option.split)
qed

section \<open>Nothing of another workspace shows\<close>

lemma newest_mem: "r \<in> set (newest t n rows) \<Longrightarrow> r \<in> set rows" "r \<in> set (newest_all t rows) \<Longrightarrow> r \<in> set rows"
  unfolding newest_def newest_all_def by (auto dest: in_set_takeD)

lemma map_same: "xs = ys \<Longrightarrow> (\<And>x. x \<in> set xs \<Longrightarrow> f x = g x) \<Longrightarrow> map f xs = map g ys"
  by auto

lemma lists_tenant:
  assumes "same_tenant sv s t"
  shows "list_sources sv s = list_sources sv t" "list_configurations sv s = list_configurations sv t"
    "list_simulations R sv s = list_simulations R sv t" "list_audit sv s = list_audit sv t"
    "list_domains sv s = list_domains sv t" "list_relationships sv s = list_relationships sv t"
    "source_records sv state n s = source_records sv state n t" "review_tasks sv stamp st s = review_tasks sv stamp st t"
    "overview sv s = overview sv t" "export_bundle sv s = export_bundle sv t" "me p sv s = me p sv t"
    "quality_profile sv dk n s = quality_profile sv dk n t"
proof -
  note eq = same_tenantD [OF assms] and read = readable_tenant [OF assms]
  show "list_sources sv s = list_sources sv t" "list_configurations sv s = list_configurations sv t" "list_audit sv s = list_audit sv t"
    "list_domains sv s = list_domains sv t" "list_relationships sv s = list_relationships sv t"
    by (simp_all add: list_sources_def list_configurations_def list_audit_def list_domains_def list_relationships_def own_filter eq)
  have "snapshot_hash R sv s = snapshot_hash R sv t"
    by (simp add: snapshot_hash_def snapshot_document_def own_filter eq)
  then show "list_simulations R sv s = list_simulations R sv t"
    by (simp add: list_simulations_def simulation_view_def fresh_simulation_def record_count_def own_filter eq)
  show "source_records sv state n s = source_records sv state n t" by (simp add: source_records_def own_filter eq read)
  show "review_tasks sv stamp st s = review_tasks sv stamp st t"
    by (simp add: review_tasks_def own_filter eq task_view_tenant [OF assms])
  show "overview sv s = overview sv t" by (simp add: overview_def own_filter eq)
  show "export_bundle sv s = export_bundle sv t"
    by (simp add: export_bundle_def bundle_spec_def own_domains_def own_sources_def own_configurations_def own_slug_def own_filter own_find eq)
  show "me p sv s = me p sv t" by (simp add: me_def own_find eq)
  have "latest_observations sv key s = latest_observations sv key t" for key
    by (simp add: latest_observations_def own_filter eq)
  then have "profile_of sv n s d = profile_of sv n t d" for d by (simp add: profile_of_def profile_sample_def read)
  moreover have "profiled_domain sv dk s = profiled_domain sv dk t" by (simp add: profiled_domain_def own_filter eq)
  ultimately show "quality_profile sv dk n s = quality_profile sv dk n t" by (simp add: quality_profile_def)
qed

lemma listed_own: "listed sv dk cursor s = filter (\<lambda>e. en_status e \<noteq> MergedEntity \<and>
       (case dk of None \<Rightarrow> True | Some d \<Rightarrow> en_domain e = d) \<and>
       (case cursor of None \<Rightarrow> True | Some c \<Rightarrow> c = [] \<or> c < en_id e)) (own en_ws sv (entities s))"
  unfolding listed_def by (rule own_filter(2))

lemma entities_tenant:
  assumes "same_tenant sv s t" "homed sv s" "homed sv t"
  shows "entities_page sv dk k cursor s = entities_page sv dk k cursor t"
    "recent_entities sv stamp dk n cursor s = recent_entities sv stamp dk n cursor t"
    "entity_detail sv stamp i s = entity_detail sv stamp i t"
proof -
  note eq = same_tenantD [OF assms(1)] and read = readable_tenant [OF assms(1)]
  have l: "listed sv dk cursor s = listed sv dk cursor t" by (simp add: listed_own eq)
  have view: "view_entity sv s e = view_entity sv t e" if "e \<in> set (listed sv dk cursor s)" for e
    by (rule view_entity_tenant [OF assms]) (use that in \<open>simp add: listed_own\<close>)
  let ?rows = "take (k + 1) (sort_key en_id (listed sv dk cursor t))"
  let ?shown = "if k < length ?rows then take k ?rows else ?rows"
  have mem: "e \<in> set (listed sv dk cursor s)" if "e \<in> set ?shown" for e
    using that unfolding l by (auto split: if_splits dest!: in_set_takeD)
  have "map (view_entity sv s) ?shown = map (view_entity sv t) ?shown"
    by (rule map_same [OF refl view]) (rule mem)
  then show "entities_page sv dk k cursor s = entities_page sv dk k cursor t"
    unfolding entities_page_def Let_def l by (rule arg_cong2 [where f = Pair, OF _ refl])
  have "map (view_entity sv s) (newest g n (listed sv dk cursor t)) = map (view_entity sv t) (newest g n (listed sv dk cursor t))" for g
    by (rule map_same [OF refl view]) (unfold l, rule newest_mem(1))
  then show "recent_entities sv stamp dk n cursor s = recent_entities sv stamp dk n cursor t"
    unfolding recent_entities_def l .
  have "detail_of sv stamp s e = detail_of sv stamp t e" for e
    unfolding detail_of_def own_filter eq read ..
  then show "entity_detail sv stamp i s = entity_detail sv stamp i t"
    by (simp add: entity_detail_def any_entity_tenant [OF assms(1)] split: option.split)
qed

lemma operations_tenant:
  assumes "same_tenant sv s t" "homed sv s" "homed sv t"
  shows "source_objects sv stamp dk n s = source_objects sv stamp dk n t" "operations sv stamp s = operations sv stamp t"
proof -
  note eq = same_tenantD [OF assms(1)]
  have "filter (\<lambda>b. ob_ws b = wid sv \<and> Q b) (objects s) = filter (\<lambda>b. ob_ws b = wid sv \<and> Q b) (objects t)" for Q
    by (simp add: own_filter eq)
  moreover have "object_view sv s b = object_view sv t b" if "b \<in> set (newest g n (filter (\<lambda>b. ob_ws b = wid sv \<and> Q b) (objects s)))" for g Q b
    by (rule object_view_tenant [OF assms]) (use newest_mem(1) [OF that] in \<open>simp add: own_def\<close>)
  ultimately show "source_objects sv stamp dk n s = source_objects sv stamp dk n t"
    unfolding source_objects_def by (intro map_same) auto
  have "event_view sv s v = event_view sv t v" if "v \<in> set (newest g m (own ev_ws sv (events s)))" for g m v
    by (rule event_view_tenant [OF assms newest_mem(1) [OF that]])
  then have "map (event_view sv s) (newest g m (own ev_ws sv (events s))) = map (event_view sv t) (newest g m (own ev_ws sv (events t)))" for g m
    using eq by (intro map_same) auto
  then show "operations sv stamp s = operations sv stamp t" by (simp add: operations_def own_filter eq)
qed

text \<open>
  C38. No read endpoint shows anything of another workspace. On two databases with the same rows of the
  caller's workspace, whatever the other workspaces hold, every list, page, detail, count, profile and
  export is the same, as long as the rows of the workspace refer to rows of its own: the masters of its
  entities, the current records of its objects and the entities of its events, which the code looks up
  by id alone. That the operations keep it so is not shown here. Machine identities and secrets, which
  are tables of their own in the model, need no such condition.
\<close>

theorem reads_stay_in_the_workspace:
  assumes "same_tenant sv s t" "homed sv s" "homed sv t"
    and "own sa_ws sv (accounts a) = own sa_ws sv (accounts b)" "own rf_ws sv (ss_refs x) = own rf_ws sv (ss_refs y)"
  shows "source_records sv state n s = source_records sv state n t \<and>
    source_objects sv stamp dk n s = source_objects sv stamp dk n t \<and>
    entities_page sv dk k cursor s = entities_page sv dk k cursor t \<and>
    recent_entities sv stamp dk n cursor s = recent_entities sv stamp dk n cursor t \<and>
    entity_detail sv stamp i s = entity_detail sv stamp i t \<and>
    review_tasks sv stamp st s = review_tasks sv stamp st t \<and>
    operations sv stamp s = operations sv stamp t \<and> overview sv s = overview sv t \<and>
    quality_profile sv dk n s = quality_profile sv dk n t \<and> export_bundle sv s = export_bundle sv t \<and>
    list_sources sv s = list_sources sv t \<and> list_configurations sv s = list_configurations sv t \<and>
    list_simulations R sv s = list_simulations R sv t \<and> list_audit sv s = list_audit sv t \<and>
    list_domains sv s = list_domains sv t \<and> list_relationships sv s = list_relationships sv t \<and> me p sv s = me p sv t \<and>
    list_accounts sv stamp a = list_accounts sv stamp b \<and> list_secrets sv x = list_secrets sv y"
  using lists_tenant [OF assms(1)] entities_tenant [OF assms(1-3)] operations_tenant [OF assms(1-3)] assms(4,5)
  by (simp add: list_accounts_def list_secrets_def own_filter)

text \<open>Nor do the credentials of a machine identity show: its list is the same whatever prefix, verifier and salt.\<close>

lemma credentials_do_not_show:
  assumes "list_all2 (\<lambda>a b. \<exists>p v x. b = a\<lparr>sa_prefix := p, sa_verifier := v, sa_salt := x\<rparr>) (accounts s) (accounts t)"
  shows "list_accounts sv stamp s = list_accounts sv stamp t"
  unfolding list_accounts_def
  by (rule list_all2_map_eq [OF list_all2_newest_all [OF list_all2_filter [OF assms]]]) (auto simp: view_account_def)

section \<open>Witness\<close>

definition neighbour_db :: db where
  "neighbour_db = demo_db\<lparr>entities := demo_entity ''e1'' # [(demo_entity ''e9'')\<lparr>en_ws := ''w2''\<rparr>],
     records := (demo_record ''r9'' ''s9'' ''Secret'' 9)\<lparr>sr_ws := ''w2''\<rparr> # records demo_db\<rparr>"

definition neighbour_secrets :: "ident \<Rightarrow> ident \<Rightarrow> secret_state" where
  "neighbour_secrets v w = \<lparr>ss_db = empty_db, ss_refs = map (\<lambda>u. \<lparr>rf_id = u, rf_ws = u, rf_name = ''erp'',
     rf_provider = ''vault_kv2'', rf_locator = ''kv/erp#token'', rf_value = None, rf_version = 1, rf_by = ''sofia''\<rparr>) [v, w]\<rparr>"

theorem reads_stay_in_the_workspace_witness:
  "records neighbour_db \<noteq> records demo_db \<and>
   source_records steward_service None 10 neighbour_db = source_records steward_service None 10 demo_db \<and>
   overview steward_service neighbour_db = overview steward_service demo_db \<and>
   list_secrets steward_service (neighbour_secrets ''w1'' ''w2'') = list_secrets steward_service (neighbour_secrets ''w1'' ''w3'')"
proof -
  have t: "same_tenant steward_service neighbour_db demo_db"
    by (simp add: same_tenant_def own_def neighbour_db_def demo_db_def empty_db_def demo_record_def demo_entity_def
        demo_object_def demo_domain_def steward_service_def)
  have h: "homed steward_service neighbour_db" "homed steward_service demo_db"
    by (auto simp: homed_def own_def neighbour_db_def demo_db_def empty_db_def demo_record_def demo_entity_def
        demo_object_def steward_service_def)
  have "length (records neighbour_db) \<noteq> length (records demo_db)" by (simp add: neighbour_db_def)
  then have "records neighbour_db \<noteq> records demo_db" by metis
  moreover have "own rf_ws steward_service (ss_refs (neighbour_secrets ''w1'' ''w2'')) =
      own rf_ws steward_service (ss_refs (neighbour_secrets ''w1'' ''w3''))"
    by (simp add: own_def neighbour_secrets_def steward_service_def)
  ultimately show ?thesis using reads_stay_in_the_workspace [OF t h refl] by blast
qed

end
