(* ===== verification/Migration.thy ===== *)
theory Migration
  imports Resolve Ingestion
begin

text \<open>
  The migration runner of operations/migrate.py: the ledger of applied revisions, the refusal of changed
  ones, and the one revision that moves data, which gives the observations of the alpha schema their
  stable source objects. The digest of a revision is a parameter, and so are the statements that only
  define tables, columns and row policies, as a change of the catalog (of any type \<open>'c\<close>) per revision,
  which may fail; a run is one transaction.
\<close>

section \<open>Stable source objects for observations\<close>

type_synonym object_key = "ident \<times> ident \<times> string \<times> string"

definition observation_key :: "source_record \<Rightarrow> object_key" where
  "observation_key r = (sr_ws r, sr_source r, sr_domain r, sr_local r)"

definition key_of_object :: "source_object \<Rightarrow> object_key" where
  "key_of_object b = (ob_ws b, ob_source b, ob_domain b, ob_local b)"

definition ordered_records :: "db \<Rightarrow> source_record list" where
  "ordered_records s =
     sort_key (\<lambda>r. (sr_ws r, sr_source r, sr_domain r, sr_local r, sr_observed r, sr_id r)) (records s)"

text \<open>A dict of lists keeps its keys in the order they were first seen.\<close>

definition first_seen :: "'a list \<Rightarrow> 'a list" where
  "first_seen xs = rev (remdups (rev xs))"

definition grouped :: "source_record list \<Rightarrow> (object_key \<times> source_record list) list" where
  "grouped rs = map (\<lambda>k. (k, filter (\<lambda>r. observation_key r = k) rs)) (first_seen (map observation_key rs))"

definition replay_document :: "runtime \<Rightarrow> source_record \<Rightarrow> json" where
  "replay_document R r =
     JObj [(''values'', JObj (sr_original r)), (''verification'', JObj (sr_verification r)),
           (''effective_from'', (case sr_effective r of None \<Rightarrow> JNull | Some t \<Rightarrow> JStr (datetime_str R t))),
           (''sequence'', JNull), (''update_mode'', JStr ''full''), (''deleted'', JBool (sr_state r = Deleted))]"

definition new_meta :: "runtime \<Rightarrow> ident \<Rightarrow> source_record \<Rightarrow> observation_meta" where
  "new_meta R i r =
     \<lparr>om_record = sr_id r, om_object = i, om_hash = canonical_hash R (replay_document R r),
      om_sequence = None, om_mode = FullUpdate\<rparr>"

definition add_meta :: "runtime \<Rightarrow> ident \<Rightarrow> source_record \<Rightarrow> db \<Rightarrow> db res" where
  "add_meta R i r s =
     bind_res (guard_res (sr_id r \<notin> om_record ` set (metas s)) (IntegrityError ''source_observation_meta'')) (\<lambda>_.
     Inr (s\<lparr>metas := metas s @ [new_meta R i r]\<rparr>))"

definition add_block :: "runtime \<Rightarrow> source_object \<Rightarrow> ident \<Rightarrow> string \<Rightarrow> db \<Rightarrow> db" where
  "add_block R b i k s =
     s\<lparr>blocks := blocks s @
         [\<lparr>cb_id = next_id R s, cb_ws = ob_ws b, cb_domain = ob_domain b, cb_object = ob_id b, cb_record = i, cb_key = k\<rparr>],
       ticks := Suc (ticks s)\<rparr>"

definition current_of :: "source_record list \<Rightarrow> source_record option" where
  "current_of versions =
     (case filter (\<lambda>r. sr_state r = Valid) versions of [] \<Rightarrow> None | us \<Rightarrow> Some (last us))"

definition legacy_object :: "ident \<Rightarrow> object_key \<Rightarrow> source_record list \<Rightarrow> source_object" where
  "legacy_object i k versions =
     (let recent = last versions; current = current_of versions
      in case k of (ws, source, domain, local) \<Rightarrow>
        \<lparr>ob_id = i, ob_ws = ws, ob_source = source, ob_domain = domain, ob_local = local,
         ob_entity = sr_entity (case current of Some c \<Rightarrow> c | None \<Rightarrow> recent),
         ob_current = map_option sr_id current, ob_latest = Some (sr_id recent), ob_sequence = None,
         ob_effective = (case current of Some c \<Rightarrow> sr_effective c | None \<Rightarrow> None),
         ob_retired = (current = None \<and> sr_state recent = Deleted)\<rparr>)"

definition add_membership :: "runtime \<Rightarrow> source_object \<Rightarrow> source_record \<Rightarrow> db \<Rightarrow> db" where
  "add_membership R b c s =
     (if truthy_str (sr_entity c) then
        s\<lparr>history := history s @
            [\<lparr>mh_id = next_id R s, mh_ws = ob_ws b, mh_object = ob_id b, mh_entity = the (sr_entity c),
              mh_from = next_time R s, mh_to = None, mh_reason = ''migration_from_alpha_observation'',
              mh_by = ''recordlane.migration''\<rparr>],
          ticks := Suc (ticks s)\<rparr>
      else s)"

definition index_current ::
    "runtime \<Rightarrow> ((ident \<times> string) \<times> compiled_policy) list \<Rightarrow> source_object \<Rightarrow> source_record \<Rightarrow> db \<Rightarrow> db res" where
  "index_current R policies b c s =
     bind_res (case map_of policies (ob_ws b, ob_domain b) of
         None \<Rightarrow> Inr [] | Some p \<Rightarrow> blocking_keys R p (sr_normalized c)) (\<lambda>keys.
     Inr (add_membership R b c (fold (add_block R b (sr_id c)) keys s)))"

definition backfill_object ::
    "runtime \<Rightarrow> object_key set \<Rightarrow> ((ident \<times> string) \<times> compiled_policy) list \<Rightarrow>
     object_key \<times> source_record list \<Rightarrow> db \<Rightarrow> db res" where
  "backfill_object R existing policies g s =
     (if fst g \<in> existing then Inr s
      else
        let b = legacy_object (next_id R s) (fst g) (snd g)
        in bind_res (fold_res (add_meta R (ob_id b)) (snd g) (s\<lparr>objects := objects s @ [b], ticks := Suc (ticks s)\<rparr>)) (\<lambda>s1.
           case current_of (snd g) of
             None \<Rightarrow> Inr s1
           | Some c \<Rightarrow> index_current R policies b c s1))"

definition domain_policies :: "runtime \<Rightarrow> db \<Rightarrow> ((ident \<times> string) \<times> compiled_policy) list res" where
  "domain_policies R s =
     bind_res (map_res (\<lambda>d. bind_res (compile_policy R (dm_definition d)) (\<lambda>p. Inr ((dm_ws d, dm_key d), p))) (domains s))
       (\<lambda>ps. Inr (rev ps))"

definition backfill :: "runtime \<Rightarrow> db \<Rightarrow> db res" where
  "backfill R s =
     bind_res (domain_policies R s) (\<lambda>policies.
     fold_res (backfill_object R (key_of_object ` set (objects s)) policies) (grouped (ordered_records s)) s)"

section \<open>The ledger\<close>

record 'c migration =
  mg_revision :: string
  mg_description :: string
  mg_apply :: "runtime \<Rightarrow> 'c \<times> db \<Rightarrow> ('c \<times> db) res"

definition mg_checksum :: "(string \<Rightarrow> string) \<Rightarrow> 'c migration \<Rightarrow> string" where
  "mg_checksum sha m = sha (mg_revision m @ '':'' @ mg_description m)"

type_synonym 'c ddl = "string \<Rightarrow> 'c \<Rightarrow> 'c res"

text \<open>A revision that only runs statements on the schema leaves the rows as they are.\<close>

definition ddl_step :: "'c ddl \<Rightarrow> string \<Rightarrow> runtime \<Rightarrow> 'c \<times> db \<Rightarrow> ('c \<times> db) res" where
  "ddl_step ddl revision R st = (case st of (c, s) \<Rightarrow> bind_res (ddl revision c) (\<lambda>c'. Inr (c', s)))"

definition identity_step :: "'c ddl \<Rightarrow> string \<Rightarrow> runtime \<Rightarrow> 'c \<times> db \<Rightarrow> ('c \<times> db) res" where
  "identity_step ddl revision R st =
     (case st of (c, s) \<Rightarrow> bind_res (ddl revision c) (\<lambda>c'. bind_res (backfill R s) (\<lambda>s'. Inr (c', s'))))"

definition migrations :: "'c ddl \<Rightarrow> 'c migration list" where
  "migrations ddl =
     [\<lparr>mg_revision = ''0001_alpha_baseline'', mg_description = ''initial modular-monolith schema'',
       mg_apply = (\<lambda>R s. Inr s)\<rparr>,
      \<lparr>mg_revision = ''0002_stable_source_identity'',
       mg_description = ''stable source objects, immutable observation metadata, indexed candidate blocks, '' @
         ''temporal membership, and durable cannot-link constraints'',
       mg_apply = identity_step ddl ''0002_stable_source_identity''\<rparr>,
      \<lparr>mg_revision = ''0003_browser_identity'',
       mg_description = ''OIDC PKCE transactions, opaque browser sessions, and SCIM identity lifecycle'',
       mg_apply = ddl_step ddl ''0003_browser_identity''\<rparr>,
      \<lparr>mg_revision = ''0004_workspace_rls'',
       mg_description = ''forced PostgreSQL row-level security for every workspace-owned table'',
       mg_apply = ddl_step ddl ''0004_workspace_rls''\<rparr>,
      \<lparr>mg_revision = ''0005_source_configuration'',
       mg_description = ''validated non-secret source connection configuration'',
       mg_apply = ddl_step ddl ''0005_source_configuration''\<rparr>,
      \<lparr>mg_revision = ''0006_publication_tracking'',
       mg_description = ''consumer-specific delivery attempts and verified publication receipts'',
       mg_apply = ddl_step ddl ''0006_publication_tracking''\<rparr>,
      \<lparr>mg_revision = ''0007_ingestion_runs'',
       mg_description = ''durable extraction checkpoints, completeness evidence, and snapshot handoff metadata'',
       mg_apply = ddl_step ddl ''0007_ingestion_runs''\<rparr>,
      \<lparr>mg_revision = ''0008_identity_groups'',
       mg_description = ''SCIM group provisioning and durable user membership'',
       mg_apply = ddl_step ddl ''0008_identity_groups''\<rparr>,
      \<lparr>mg_revision = ''0009_workspace_provisioning_rls'',
       mg_description = ''administrator-scoped workspace provisioning under forced row-level security'',
       mg_apply = ddl_step ddl ''0009_workspace_provisioning_rls''\<rparr>,
      \<lparr>mg_revision = ''0010_operational_security'',
       mg_description = ''scoped service identities and encrypted or external secret references'',
       mg_apply = ddl_step ddl ''0010_operational_security''\<rparr>]"

text \<open>Whether the workspaces table exists, the ledger if its table exists, the catalog and the rows.\<close>

record 'c schema_state =
  sm_baseline :: bool
  sm_ledger :: "(string \<times> string) list option"
  sm_tables :: 'c
  sm_rows :: db

definition schema_is_current :: "(string \<Rightarrow> string) \<Rightarrow> 'c migration list \<Rightarrow> 'c schema_state \<Rightarrow> bool" where
  "schema_is_current sha ms S \<longleftrightarrow>
     (case sm_ledger S of None \<Rightarrow> False | Some l \<Rightarrow> \<forall>m \<in> set ms. map_of l (mg_revision m) = Some (mg_checksum sha m))"

definition ledger_row :: "(string \<Rightarrow> string) \<Rightarrow> 'c migration \<Rightarrow> string \<times> string" where
  "ledger_row sha m = (mg_revision m, mg_checksum sha m)"

text \<open>
  One revision: what the run has read of the ledger, then the catalog and the rows, the ledger and what
  was applied.
\<close>

definition migrate_one ::
    "runtime \<Rightarrow> (string \<Rightarrow> string) \<Rightarrow> (string \<times> string) list \<Rightarrow> 'c migration \<Rightarrow>
     ('c \<times> db) \<times> (string \<times> string) list \<times> string list \<Rightarrow> (('c \<times> db) \<times> (string \<times> string) list \<times> string list) res" where
  "migrate_one R sha known m st =
     (case st of (s, l, applied) \<Rightarrow>
        case map_of known (mg_revision m) of
          Some c \<Rightarrow>
            if c \<noteq> [] then
              bind_res (guard_res (c = mg_checksum sha m) (PyError ''RuntimeError'')) (\<lambda>_. Inr st)
            else bind_res (mg_apply m R s) (\<lambda>_. Inl (IntegrityError ''schema_migrations''))
        | None \<Rightarrow>
            bind_res (mg_apply m R s) (\<lambda>t.
            Inr (t, l @ [ledger_row sha m], applied @ [mg_revision m])))"

text \<open>A database without the baseline gets all tables of the models first.\<close>

definition base_tables :: "'c ddl \<Rightarrow> 'c schema_state \<Rightarrow> 'c res" where
  "base_tables ddl S = (if sm_baseline S then Inr (sm_tables S) else ddl ''metadata'' (sm_tables S))"

definition migrate ::
    "runtime \<Rightarrow> (string \<Rightarrow> string) \<Rightarrow> 'c ddl \<Rightarrow> 'c migration list \<Rightarrow> 'c schema_state \<Rightarrow>
     (string list \<times> 'c schema_state) res" where
  "migrate R sha ddl ms S =
     bind_res (base_tables ddl S) (\<lambda>c0.
     let l = (case sm_ledger S of None \<Rightarrow> [] | Some l \<Rightarrow> l);
          (known, applied) =
            (if sm_baseline S \<and> l = [] then ([ledger_row sha (hd ms)], [mg_revision (hd ms)]) else (l, []))
      in bind_res (fold_res (migrate_one R sha known) ms ((c0, sm_rows S), known, applied)) (\<lambda>((c, s), l', now).
         Inr (now, \<lparr>sm_baseline = True, sm_ledger = Some l', sm_tables = c, sm_rows = s\<rparr>)))"

section \<open>What a run leaves\<close>

lemma migrate_one_Inr:
  assumes "migrate_one R sha known m (s, l, a) = Inr st"
  obtains (Known) "map_of known (mg_revision m) = Some (mg_checksum sha m)" "st = (s, l, a)"
    | (New) t where "mg_revision m \<notin> fst ` set known" "mg_apply m R s = Inr t"
      "st = (t, l @ [ledger_row sha m], a @ [mg_revision m])"
proof (cases "map_of known (mg_revision m)")
  case None
  moreover from None have "mg_revision m \<notin> fst ` set known" by (simp add: map_of_eq_None_iff)
  ultimately show thesis using assms New by (auto simp: migrate_one_def res_elim)
next
  case (Some c)
  then show thesis using assms Known by (auto simp: migrate_one_def res_elim split: if_splits)
qed

lemma run_migrations:
  assumes "fold_res (migrate_one R sha known) ms (s, l, a) = Inr (s', l', a')"
  shows "l' = l @ map (ledger_row sha) (filter (\<lambda>m. mg_revision m \<notin> fst ` set known) ms) \<and>
    a' = a @ map mg_revision (filter (\<lambda>m. mg_revision m \<notin> fst ` set known) ms) \<and>
    fold_res (\<lambda>m. mg_apply m R) (filter (\<lambda>m. mg_revision m \<notin> fst ` set known) ms) s = Inr s' \<and>
    (\<forall>m \<in> set ms. mg_revision m \<in> fst ` set known \<longrightarrow> map_of known (mg_revision m) = Some (mg_checksum sha m))"
  using assms
proof (induction ms arbitrary: s l a)
  case (Cons m ms)
  then obtain st where one: "migrate_one R sha known m (s, l, a) = Inr st"
    and rest: "fold_res (migrate_one R sha known) ms st = Inr (s', l', a')" by (auto simp: res_elim)
  from one show ?case
  proof (cases rule: migrate_one_Inr)
    case Known
    from Known(1) have "mg_revision m \<in> fst ` set known" by (metis map_of_SomeD fst_conv image_eqI)
    with Known Cons.IH rest show ?thesis by simp
  next
    case (New t)
    from Cons.IH [OF rest [unfolded New(3)]] New(1,2) show ?thesis by simp
  qed
qed simp

text \<open>When everything is on the ledger a run does nothing.\<close>

lemma run_current:
  assumes "\<And>m. m \<in> set ms \<Longrightarrow> map_of known (mg_revision m) = Some (mg_checksum sha m)" "\<And>x. sha x \<noteq> []"
  shows "fold_res (migrate_one R sha known) ms st = Inr st"
  using assms(1)
proof (induction ms)
  case (Cons m ms)
  have "migrate_one R sha known m st = Inr st"
    using Cons.prems assms(2) by (cases st) (simp add: migrate_one_def mg_checksum_def guard_res_def)
  with Cons show ?case by simp
qed simp

definition ledger_of :: "'c schema_state \<Rightarrow> (string \<times> string) list" where
  "ledger_of S = (case sm_ledger S of None \<Rightarrow> [] | Some l \<Rightarrow> l)"

definition missing :: "'c migration list \<Rightarrow> (string \<times> string) list \<Rightarrow> 'c migration list" where
  "missing ms l = filter (\<lambda>m. mg_revision m \<notin> fst ` set l) ms"

lemma migrate_Inr:
  assumes "migrate R sha ddl ms S = Inr (now, T)" "distinct (map mg_revision ms)" "ms \<noteq> []"
    and "\<And>st. mg_apply (hd ms) R st = Inr st"
  shows "sm_baseline T \<and> sm_ledger T = Some (ledger_of S @ map (ledger_row sha) (missing ms (ledger_of S))) \<and>
    now = map mg_revision (missing ms (ledger_of S)) \<and>
    (\<exists>c. base_tables ddl S = Inr c \<and>
      fold_res (\<lambda>m. mg_apply m R) (missing ms (ledger_of S)) (c, sm_rows S) = Inr (sm_tables T, sm_rows T)) \<and>
    (\<forall>m \<in> set ms. mg_revision m \<in> fst ` set (ledger_of S) \<longrightarrow> map_of (ledger_of S) (mg_revision m) = Some (mg_checksum sha m))"
proof (cases "sm_baseline S \<and> ledger_of S = []")
  case True
  from assms(1) True obtain c0 c s l' where c0: "base_tables ddl S = Inr c0" and
    run: "fold_res (migrate_one R sha [ledger_row sha (hd ms)]) ms
      ((c0, sm_rows S), [ledger_row sha (hd ms)], [mg_revision (hd ms)]) = Inr ((c, s), l', now)"
    and T: "T = \<lparr>sm_baseline = True, sm_ledger = Some l', sm_tables = c, sm_rows = s\<rparr>"
    by (auto simp: migrate_def ledger_of_def Let_def res_elim)
  from assms(3) obtain m rest where ms: "ms = m # rest" by (cases ms) auto
  have "filter (\<lambda>k. mg_revision k \<noteq> mg_revision m) rest = rest" using assms(2) ms by (auto simp: filter_id_conv) (metis image_eqI)
  with run_migrations [OF run] True T ms c0 assms(4) show ?thesis by (simp add: missing_def ledger_row_def)
next
  case False
  with assms(1) obtain c0 c s l' where c0: "base_tables ddl S = Inr c0" and
    run: "fold_res (migrate_one R sha (ledger_of S)) ms ((c0, sm_rows S), ledger_of S, []) = Inr ((c, s), l', now)"
    and T: "T = \<lparr>sm_baseline = True, sm_ledger = Some l', sm_tables = c, sm_rows = s\<rparr>"
    by (auto simp: migrate_def ledger_of_def Let_def res_elim)
  from run_migrations [OF run] T c0 show ?thesis by (simp add: missing_def)
qed

lemma migrated_current:
  assumes "migrate R sha ddl ms S = Inr (now, T)" "distinct (map mg_revision ms)" "ms \<noteq> []"
    and "\<And>st. mg_apply (hd ms) R st = Inr st"
  shows "schema_is_current sha ms T"
proof -
  from migrate_Inr [OF assms] have l: "sm_ledger T = Some (ledger_of S @ map (ledger_row sha) (missing ms (ledger_of S)))"
    and old: "\<And>m. m \<in> set ms \<Longrightarrow> mg_revision m \<in> fst ` set (ledger_of S) \<Longrightarrow>
      map_of (ledger_of S) (mg_revision m) = Some (mg_checksum sha m)" by auto
  have new: "map_of (map (ledger_row sha) ks) (mg_revision m) = Some (mg_checksum sha m)"
    if "m \<in> set ks" "distinct (map mg_revision ks)" for m ks
    using that
  proof (induction ks)
    case (Cons k ks)
    show ?case
    proof (cases "k = m")
      case False
      with Cons.prems have "m \<in> set ks" "mg_revision k \<noteq> mg_revision m" by auto
      with Cons show ?thesis by (simp add: ledger_row_def)
    qed (simp add: ledger_row_def)
  qed simp
  have "map_of (ledger_of S @ map (ledger_row sha) (missing ms (ledger_of S))) (mg_revision m) = Some (mg_checksum sha m)"
    if m: "m \<in> set ms" for m
  proof (cases "mg_revision m \<in> fst ` set (ledger_of S)")
    case True
    with old [OF m] show ?thesis
      by (auto simp: map_add_def missing_def ledger_row_def dest!: map_of_SomeD split: option.splits)
  next
    case False
    then have "map_of (ledger_of S) (mg_revision m) = None" by (simp add: map_of_eq_None_iff)
    moreover have "distinct (map mg_revision (missing ms (ledger_of S)))"
      using assms(2) by (simp add: missing_def distinct_map_filter)
    ultimately show ?thesis using new [of m "missing ms (ledger_of S)"] m False by (simp add: map_add_def missing_def)
  qed
  then show ?thesis by (simp add: schema_is_current_def l)
qed

lemma current_migrates_to_itself:
  assumes "schema_is_current sha ms S" "sm_baseline S" "ms \<noteq> []" "\<And>x. sha x \<noteq> []"
  shows "migrate R sha ddl ms S = Inr ([], S)"
proof -
  from assms(1) obtain l where l: "sm_ledger S = Some l"
    and all: "\<And>m. m \<in> set ms \<Longrightarrow> map_of l (mg_revision m) = Some (mg_checksum sha m)"
    by (auto simp: schema_is_current_def split: option.splits)
  have "l \<noteq> []" using all [of "hd ms"] assms(3) by auto
  moreover have "fold_res (migrate_one R sha l) ms ((sm_tables S, sm_rows S), l, []) = Inr ((sm_tables S, sm_rows S), l, [])"
    by (rule run_current) (use all assms(4) in auto)
  ultimately show ?thesis using assms(2) l by (simp add: migrate_def base_tables_def)
qed

section \<open>What the backfill leaves\<close>

lemma replay_document_payload:
  "replay_document R r = payload_document R
     \<lparr>in_local = sr_local r, in_version = sr_version r, in_values = sr_original r, in_verification = sr_verification r,
      in_effective = sr_effective r, in_sequence = None, in_mode = FullUpdate, in_deleted = (sr_state r = Deleted)\<rparr>"
  by (simp add: replay_document_def payload_document_def mode_name_def)

lemma key_of_legacy_object: "key_of_object (legacy_object i k vs) = k" "ob_id (legacy_object i k vs) = i"
  by (cases k; simp add: key_of_object_def legacy_object_def Let_def)+

lemma add_metas:
  "fold_res (add_meta R i) rs s = Inr t \<Longrightarrow> t = s\<lparr>metas := metas s @ map (new_meta R i) rs\<rparr>"
proof (induction rs arbitrary: s)
  case (Cons r rs)
  then obtain u where one: "add_meta R i r s = Inr u" and rest: "fold_res (add_meta R i) rs u = Inr t" by (auto simp: res_elim)
  from one have u: "u = s\<lparr>metas := metas s @ [new_meta R i r]\<rparr>" by (auto simp: add_meta_def res_elim)
  from Cons.IH [OF rest] show ?case unfolding u by simp
qed simp

lemma add_blocks: "\<exists>bs n. fold (add_block R b i) keys s = s\<lparr>blocks := blocks s @ bs, ticks := n\<rparr> \<and> ticks s \<le> n"
proof (induction keys arbitrary: s)
  case Nil
  show ?case by (intro exI [of _ "[]"] exI [of _ "ticks s"]) simp
next
  case (Cons k keys)
  obtain bs n where "fold (add_block R b i) keys (add_block R b i k s) =
      (add_block R b i k s)\<lparr>blocks := blocks (add_block R b i k s) @ bs, ticks := n\<rparr>" "ticks (add_block R b i k s) \<le> n"
    using Cons [of "add_block R b i k s"] by blast
  then have "fold (add_block R b i) (k # keys) s = s\<lparr>blocks := blocks s @
      (\<lparr>cb_id = next_id R s, cb_ws = ob_ws b, cb_domain = ob_domain b, cb_object = ob_id b, cb_record = i, cb_key = k\<rparr> # bs), ticks := n\<rparr> \<and>
      ticks s \<le> n"
    by (simp add: add_block_def)
  then show ?case by blast
qed

text \<open>What the backfill of a group changes: one object, a note for each observation, index and history.\<close>

lemma index_current_changes:
  assumes "index_current R policies b c s = Inr t"
  shows "\<exists>bs hs n. t = s\<lparr>blocks := blocks s @ bs, history := history s @ hs, ticks := n\<rparr> \<and> ticks s \<le> n"
proof -
  from assms obtain keys where t: "t = add_membership R b c (fold (add_block R b (sr_id c)) keys s)"
    by (auto simp: index_current_def res_elim)
  obtain bs n where u: "fold (add_block R b (sr_id c)) keys s = s\<lparr>blocks := blocks s @ bs, ticks := n\<rparr>" "ticks s \<le> n"
    using add_blocks by blast
  have "\<exists>hs k. add_membership R b c u = u\<lparr>history := history u @ hs, ticks := k\<rparr> \<and> ticks u \<le> k" for u
  proof (cases "truthy_str (sr_entity c)")
    case True
    then show ?thesis unfolding add_membership_def by (auto intro!: exI)
  next
    case False
    then show ?thesis unfolding add_membership_def by (intro exI [of _ "[]"] exI [of _ "ticks u"]) simp
  qed
  from this [of "s\<lparr>blocks := blocks s @ bs, ticks := n\<rparr>"] obtain hs k where
    h: "t = s\<lparr>blocks := blocks s @ bs, ticks := n\<rparr>\<lparr>history := history s @ hs, ticks := k\<rparr>" "n \<le> k"
    unfolding t u(1) by auto
  have "t = s\<lparr>blocks := blocks s @ bs, history := history s @ hs, ticks := k\<rparr>" unfolding h(1) by simp
  moreover have "ticks s \<le> k" using h(2) u(2) by simp
  ultimately show ?thesis by (intro exI conjI)
qed

definition backfills :: "runtime \<Rightarrow> (source_object \<times> source_record list) list \<Rightarrow> db \<Rightarrow> db \<Rightarrow> bool" where
  "backfills R os s t \<longleftrightarrow>
     (\<exists>bs hs n. t = s\<lparr>objects := objects s @ map fst os,
          metas := metas s @ concat (map (\<lambda>(b, rs). map (new_meta R (ob_id b)) rs) os),
          blocks := blocks s @ bs, history := history s @ hs, ticks := n\<rparr> \<and> ticks s \<le> n)"

lemma backfills_refl: "backfills R [] s s"
  unfolding backfills_def by (intro exI [of _ "[]"] exI [of _ "ticks s"]) simp

lemma backfills_trans:
  assumes "backfills R os s t" "backfills R os' t u"
  shows "backfills R (os @ os') s u"
proof -
  from assms(1) obtain bs hs n where t: "t = s\<lparr>objects := objects s @ map fst os,
          metas := metas s @ concat (map (\<lambda>(b, rs). map (new_meta R (ob_id b)) rs) os),
          blocks := blocks s @ bs, history := history s @ hs, ticks := n\<rparr>" "ticks s \<le> n"
    unfolding backfills_def by blast
  from assms(2) obtain bs' hs' n' where u: "u = t\<lparr>objects := objects t @ map fst os',
          metas := metas t @ concat (map (\<lambda>(b, rs). map (new_meta R (ob_id b)) rs) os'),
          blocks := blocks t @ bs', history := history t @ hs', ticks := n'\<rparr>" "ticks t \<le> n'"
    unfolding backfills_def by blast
  have "u = s\<lparr>objects := objects s @ map fst (os @ os'),
          metas := metas s @ concat (map (\<lambda>(b, rs). map (new_meta R (ob_id b)) rs) (os @ os')),
          blocks := blocks s @ (bs @ bs'), history := history s @ (hs @ hs'), ticks := n'\<rparr>"
    unfolding u(1) unfolding t(1) by simp
  moreover have "ticks s \<le> n'" using t u(2) by simp
  ultimately show ?thesis unfolding backfills_def by blast
qed

lemma backfill_object_new:
  assumes "backfill_object R existing policies (k, rs) s = Inr t" "k \<notin> existing"
  shows "backfills R [(legacy_object (next_id R s) k rs, rs)] s t"
proof -
  let ?b = "legacy_object (next_id R s) k rs"
  let ?s1 = "s\<lparr>objects := objects s @ [?b], ticks := Suc (ticks s)\<rparr>"
  from assms obtain s1 where m: "fold_res (add_meta R (ob_id ?b)) rs ?s1 = Inr s1"
    and r: "(case current_of rs of None \<Rightarrow> Inr s1 | Some c \<Rightarrow> index_current R policies ?b c s1) = Inr t"
    by (auto simp: backfill_object_def Let_def res_elim)
  have s1: "s1 = s\<lparr>objects := objects s @ [?b], ticks := Suc (ticks s), metas := metas s @ map (new_meta R (ob_id ?b)) rs\<rparr>"
    using add_metas [OF m] by simp
  have "\<exists>bs hs n. t = s1\<lparr>blocks := blocks s1 @ bs, history := history s1 @ hs, ticks := n\<rparr> \<and> ticks s1 \<le> n"
  proof (cases "current_of rs")
    case None
    with r show ?thesis by (intro exI [of _ "[]"] exI [of _ "ticks s1"]) simp
  next
    case (Some c)
    with r index_current_changes show ?thesis by simp
  qed
  then obtain bs hs n where t: "t = s1\<lparr>blocks := blocks s1 @ bs, history := history s1 @ hs, ticks := n\<rparr>" "ticks s1 \<le> n" by blast
  have "t = s\<lparr>objects := objects s @ map fst [(?b, rs)],
          metas := metas s @ concat (map (\<lambda>(b, rs). map (new_meta R (ob_id b)) rs) [(?b, rs)]),
          blocks := blocks s @ bs, history := history s @ hs, ticks := n\<rparr>"
    unfolding t(1) unfolding s1 by simp
  moreover have "ticks s \<le> n" using t(2) by (simp add: s1)
  ultimately show ?thesis unfolding backfills_def by blast
qed

lemma backfill_groups:
  assumes "fold_res (backfill_object R existing policies) gs s = Inr t"
  shows "\<exists>os. map (\<lambda>(b, rs). (key_of_object b, rs)) os = filter (\<lambda>g. fst g \<notin> existing) gs \<and> backfills R os s t"
  using assms
proof (induction gs arbitrary: s)
  case Nil
  then show ?case by (intro exI [of _ "[]"]) (simp add: backfills_refl)
next
  case (Cons g gs)
  then obtain u where u: "backfill_object R existing policies g s = Inr u"
    and rest: "fold_res (backfill_object R existing policies) gs u = Inr t" by (auto simp: res_elim)
  obtain os where os: "map (\<lambda>(b, rs). (key_of_object b, rs)) os = filter (\<lambda>g. fst g \<notin> existing) gs" "backfills R os u t"
    using Cons.IH [OF rest] by blast
  obtain k rs where g: "g = (k, rs)" by (cases g)
  show ?case
  proof (cases "k \<in> existing")
    case True
    with u g have "u = s" by (simp add: backfill_object_def)
    with os g True show ?thesis by auto
  next
    case False
    from backfills_trans [OF backfill_object_new [OF u [unfolded g] False] os(2)] os(1) g False
    show ?thesis by (intro exI [of _ "(legacy_object (next_id R s) k rs, rs) # os"]) (simp add: key_of_legacy_object)
  qed
qed

lemma grouped_keys:
  "distinct (map fst (grouped rs))" "fst ` set (grouped rs) = observation_key ` set rs"
  by (simp_all add: grouped_def first_seen_def comp_def image_image)

lemma grouped_rows: "(k, vs) \<in> set (grouped rs) \<Longrightarrow> vs = filter (\<lambda>r. observation_key r = k) rs"
  by (auto simp: grouped_def)

text \<open>Notes stay one for each observation.\<close>

lemma add_metas_distinct:
  "fold_res (add_meta R i) rs s = Inr t \<Longrightarrow> distinct (map om_record (metas s)) \<Longrightarrow> distinct (map om_record (metas t))"
proof (induction rs arbitrary: s)
  case (Cons r rs)
  then obtain u where one: "add_meta R i r s = Inr u" and rest: "fold_res (add_meta R i) rs u = Inr t" by (auto simp: res_elim)
  from one have "sr_id r \<notin> om_record ` set (metas s)" "metas u = metas s @ [new_meta R i r]" by (auto simp: add_meta_def res_elim)
  with Cons.prems(2) have "distinct (map om_record (metas u))" by (simp add: new_meta_def)
  with Cons.IH [OF rest] show ?case .
qed simp

lemma backfill_object_distinct:
  assumes "backfill_object R existing policies g s = Inr t" "distinct (map om_record (metas s))"
  shows "distinct (map om_record (metas t))"
proof (cases "fst g \<in> existing")
  case True
  with assms show ?thesis by (simp add: backfill_object_def)
next
  case False
  with assms(1) obtain b s1 where m: "fold_res (add_meta R (ob_id b)) (snd g) (s\<lparr>objects := objects s @ [b], ticks := Suc (ticks s)\<rparr>) = Inr s1"
    and r: "(case current_of (snd g) of None \<Rightarrow> Inr s1 | Some c \<Rightarrow> index_current R policies b c s1) = Inr t"
    by (auto simp: backfill_object_def Let_def res_elim)
  from add_metas_distinct [OF m] assms(2) have d: "distinct (map om_record (metas s1))" by simp
  show ?thesis
  proof (cases "current_of (snd g)")
    case None
    with r d show ?thesis by simp
  next
    case (Some c)
    with r have "index_current R policies b c s1 = Inr t" by simp
    from index_current_changes [OF this] d show ?thesis by auto
  qed
qed

definition as_sent :: "source_record \<Rightarrow> incoming" where
  "as_sent r = \<lparr>in_local = sr_local r, in_version = sr_version r, in_values = sr_original r, in_verification = sr_verification r,
      in_effective = sr_effective r, in_sequence = None, in_mode = FullUpdate, in_deleted = (sr_state r = Deleted)\<rparr>"

lemma noted_payload:
  assumes "new_meta R i r \<in> set (metas t)" "distinct (map om_record (metas t))"
  shows "same_payload R (as_sent r) r t"
proof -
  have "row_get om_record (om_record m) ms = Some m" if "m \<in> set ms" "distinct (map om_record ms)" for m :: observation_meta and ms
    using that by (induction ms) (auto simp: row_get_def)
  from this [OF assms] have "row_get om_record (sr_id r) (metas t) = Some (new_meta R i r)" by (simp add: new_meta_def)
  then show ?thesis
    by (simp add: same_payload_def payload_hash_def as_sent_def new_meta_def replay_document_payload)
qed

lemma backfill_Inr:
  assumes "backfill R s = Inr t"
  obtains os policies where "domain_policies R s = Inr policies"
    "map (\<lambda>(b, rs). (key_of_object b, rs)) os =
       filter (\<lambda>g. fst g \<notin> key_of_object ` set (objects s)) (grouped (ordered_records s))"
    "backfills R os s t"
    "distinct (map om_record (metas s)) \<Longrightarrow> distinct (map om_record (metas t))"
proof -
  from assms obtain policies where p: "domain_policies R s = Inr policies"
    and f: "fold_res (backfill_object R (key_of_object ` set (objects s)) policies) (grouped (ordered_records s)) s = Inr t"
    by (auto simp: backfill_def res_elim)
  have d: "distinct (map om_record (metas t))" if "distinct (map om_record (metas s))"
    using f that by (rule fold_res_invariant) (use backfill_object_distinct in blast)
  from backfill_groups [OF f] d show thesis by (elim exE conjE) (intro that [OF p])
qed

lemma backfills_parts:
  assumes "backfills R os s t"
  shows "objects t = objects s @ map fst os" "records t = records s" "domains t = domains s"
    "metas t = metas s @ concat (map (\<lambda>(b, rs). map (new_meta R (ob_id b)) rs) os)"
  using assms unfolding backfills_def by auto

lemma set_ordered_records [simp]: "set (ordered_records s) = set (records s)"
  by (simp add: ordered_records_def)

lemma backfilled_keys:
  assumes "map (\<lambda>(b, rs). (key_of_object b, rs)) os = filter (\<lambda>g. fst g \<notin> E) (grouped (ordered_records s))"
  shows "map key_of_object (map fst os) = filter (\<lambda>k. k \<notin> E) (map fst (grouped (ordered_records s)))"
proof -
  have "map key_of_object (map fst os) = map fst (map (\<lambda>(b, rs). (key_of_object b, rs)) os)" by (simp add: case_prod_unfold)
  then show ?thesis unfolding assms by (simp add: filter_map comp_def)
qed

lemma backfill_again:
  assumes "backfill R s = Inr t"
  shows "backfill R t = Inr t"
proof -
  obtain os policies where p: "domain_policies R s = Inr policies"
    and os: "map (\<lambda>(b, rs). (key_of_object b, rs)) os =
       filter (\<lambda>g. fst g \<notin> key_of_object ` set (objects s)) (grouped (ordered_records s))"
    and t: "backfills R os s t"
    using backfill_Inr [OF assms] .
  note parts = backfills_parts [OF t]
  have keys: "key_of_object ` set (objects t) = key_of_object ` set (objects s) \<union> observation_key ` set (records s)"
  proof -
    have "set (map key_of_object (map fst os)) = {k \<in> observation_key ` set (records s). k \<notin> key_of_object ` set (objects s)}"
      unfolding backfilled_keys [OF os] using grouped_keys(2) [of "ordered_records s"] by auto
    moreover have "key_of_object ` set (objects t) = key_of_object ` set (objects s) \<union> set (map key_of_object (map fst os))"
      unfolding parts(1) set_append image_Un set_map ..
    ultimately show ?thesis by blast
  qed
  have "domain_policies R t = Inr policies" using p by (simp add: domain_policies_def parts(3))
  moreover have "grouped (ordered_records t) = grouped (ordered_records s)" by (simp add: ordered_records_def parts(2))
  moreover have "fold_res (backfill_object R (key_of_object ` set (objects t)) policies) gs t = Inr t"
    if "fst ` set gs \<subseteq> observation_key ` set (records s)" for gs
    using that
  proof (induction gs)
    case (Cons g gs)
    then have "fst g \<in> key_of_object ` set (objects t)" unfolding keys by auto
    then have "backfill_object R (key_of_object ` set (objects t)) policies g t = Inr t" by (simp add: backfill_object_def)
    with Cons show ?case by simp
  qed simp
  ultimately show ?thesis using grouped_keys(2) [of "ordered_records s"] by (simp add: backfill_def)
qed

section \<open>What a migration promises\<close>

text \<open>What the revisions of the code do to the catalog and to the rows.\<close>

definition run_ddl :: "'c ddl \<Rightarrow> string list \<Rightarrow> 'c \<Rightarrow> 'c res" where
  "run_ddl ddl revisions c = fold_res ddl (filter (\<lambda>r. r \<noteq> ''0001_alpha_baseline'') revisions) c"

definition run_backfill :: "runtime \<Rightarrow> string list \<Rightarrow> db \<Rightarrow> db res" where
  "run_backfill R revisions s = (if ''0002_stable_source_identity'' \<in> set revisions then backfill R s else Inr s)"

lemma migration_effect:
  assumes "m \<in> set (migrations ddl)"
  shows "mg_apply m R (c, s) =
    bind_res (if mg_revision m = ''0001_alpha_baseline'' then Inr c else ddl (mg_revision m) c) (\<lambda>c'.
    bind_res (if mg_revision m = ''0002_stable_source_identity'' then backfill R s else Inr s) (\<lambda>s'. Inr (c', s')))"
  using assms by (auto simp: migrations_def ddl_step_def identity_step_def)

lemma migration_effects:
  assumes "set ms \<subseteq> set (migrations ddl)" "distinct (map mg_revision ms)"
    and "fold_res (\<lambda>m. mg_apply m R) ms (c, s) = Inr (c', s')"
  shows "run_ddl ddl (map mg_revision ms) c = Inr c' \<and> run_backfill R (map mg_revision ms) s = Inr s'"
  using assms
proof (induction ms arbitrary: c s)
  case Nil
  then show ?case by (simp add: run_ddl_def run_backfill_def)
next
  case (Cons m ms)
  from Cons.prems(1) have m: "m \<in> set (migrations ddl)" by simp
  from Cons.prems(3) obtain d u where
    d: "(if mg_revision m = ''0001_alpha_baseline'' then Inr c else ddl (mg_revision m) c) = Inr d" and
    u: "(if mg_revision m = ''0002_stable_source_identity'' then backfill R s else Inr s) = Inr u" and
    rest: "fold_res (\<lambda>m. mg_apply m R) ms (d, u) = Inr (c', s')"
    unfolding fold_res.simps migration_effect [OF m] bind_res_Inr by auto
  from Cons.IH [OF _ _ rest] Cons.prems(1,2)
  have "run_ddl ddl (map mg_revision ms) d = Inr c'" "run_backfill R (map mg_revision ms) u = Inr s'" by simp_all
  then show ?case using d u Cons.prems(2)
    by (auto simp: run_ddl_def run_backfill_def split: if_splits)
qed


text \<open>
  C21. The migration to stable identities gives every observation its object. A backfill that succeeds
  adds one object for each source key that has observations and no object, and a note that ties every
  such observation to it, so that the observation is recognised when its source sends it again; it
  keeps all objects and observations there were, and run again it changes nothing.
\<close>

theorem backfill_gives_every_observation_its_object:
  assumes "backfill R s = Inr t" "distinct (map key_of_object (objects s))" "distinct (map om_record (metas s))"
  shows "(\<exists>os. objects t = objects s @ os) \<and> records t = records s \<and> distinct (map key_of_object (objects t)) \<and>
    (\<forall>r \<in> set (records s). observation_key r \<notin> key_of_object ` set (objects s) \<longrightarrow>
      (\<exists>!b. b \<in> set (objects t) \<and> key_of_object b = observation_key r) \<and>
      (\<exists>b \<in> set (objects t). key_of_object b = observation_key r \<and> new_meta R (ob_id b) r \<in> set (metas t)) \<and>
      same_payload R (as_sent r) r t) \<and>
    backfill R t = Inr t"
proof -
  obtain os policies where p: "domain_policies R s = Inr policies"
    and os: "map (\<lambda>(b, rs). (key_of_object b, rs)) os =
       filter (\<lambda>g. fst g \<notin> key_of_object ` set (objects s)) (grouped (ordered_records s))"
    and t: "backfills R os s t" and d: "distinct (map om_record (metas t))"
    using backfill_Inr [OF assms(1)] assms(3) by metis
  note parts = backfills_parts [OF t]
  have keys: "map key_of_object (map fst os) = filter (\<lambda>k. k \<notin> key_of_object ` set (objects s)) (map fst (grouped (ordered_records s)))"
    by (rule backfilled_keys [OF os])
  have dist: "distinct (map key_of_object (objects t))"
  proof -
    have "set (map key_of_object (map fst os)) \<inter> set (map key_of_object (objects s)) = {}" unfolding keys by auto
    moreover have "distinct (map key_of_object (map fst os))" unfolding keys by (simp add: grouped_keys(1))
    ultimately show ?thesis using assms(2) unfolding parts(1) map_append distinct_append by blast
  qed
  have "(\<exists>!b. b \<in> set (objects t) \<and> key_of_object b = observation_key r) \<and>
      (\<exists>b \<in> set (objects t). key_of_object b = observation_key r \<and> new_meta R (ob_id b) r \<in> set (metas t)) \<and>
      same_payload R (as_sent r) r t"
    if r: "r \<in> set (records s)" "observation_key r \<notin> key_of_object ` set (objects s)" for r
  proof -
    have "observation_key r \<in> fst ` set (grouped (ordered_records s))" using r(1) by (simp add: grouped_keys(2))
    then obtain vs where vs: "(observation_key r, vs) \<in> set (grouped (ordered_records s))" by auto
    with r(2) have "(observation_key r, vs) \<in> set (map (\<lambda>(b, rs). (key_of_object b, rs)) os)" unfolding os by simp
    then obtain b where b: "(b, vs) \<in> set os" "key_of_object b = observation_key r" by auto
    have "r \<in> set vs" using grouped_rows [OF vs] r(1) by simp
    with b(1) have m: "new_meta R (ob_id b) r \<in> set (metas t)" by (force simp: parts(4))
    have bt: "b \<in> set (objects t)" using b(1) by (force simp: parts(1))
    have "c = b" if "c \<in> set (objects t)" "key_of_object c = observation_key r" for c
      using inj_onD [of key_of_object "set (objects t)" c b] dist that bt b(2) by (simp add: distinct_map)
    with bt b(2) m noted_payload [OF m d] show ?thesis by blast
  qed
  with dist parts(1,2) backfill_again [OF assms(1)] show ?thesis by blast
qed

section \<open>Edges of the backfill\<close>

text \<open>
  The current observation is the last valid one, also when a tombstone came after it: the deleted object
  comes back unretired.
\<close>

lemma deleted_objects_come_back:
  assumes "sr_state r = Valid" "sr_state q = Deleted"
  shows "ob_current (legacy_object i k [r, q]) = Some (sr_id r) \<and> \<not> ob_retired (legacy_object i k [r, q])"
  using assms by (cases k) (simp add: legacy_object_def current_of_def Let_def)

text \<open>
  An object without a valid observation takes the entity of its latest one, but no membership is
  recorded for it.
\<close>

lemma unlisted_members:
  assumes "sr_state r = Quarantine" "sr_entity r = Some e" "add_meta R (next_id R s) r (s\<lparr>objects := objects s @ [legacy_object (next_id R s) k [r]], ticks := Suc (ticks s)\<rparr>) = Inr t"
    "k \<notin> E"
  shows "backfill_object R E policies (k, [r]) s = Inr t \<and> history t = history s \<and>
    (\<exists>b \<in> set (objects t). ob_id b = next_id R s \<and> ob_entity b = Some e)"
proof -
  have t: "t = s\<lparr>objects := objects s @ [legacy_object (next_id R s) k [r]], ticks := Suc (ticks s), metas := metas s @ [new_meta R (next_id R s) r]\<rparr>"
    using assms(3) by (auto simp: add_meta_def res_elim)
  have "ob_entity (legacy_object (next_id R s) k [r]) = Some e"
    using assms(1,2) by (cases k) (simp add: legacy_object_def current_of_def Let_def)
  moreover have "backfill_object R E policies (k, [r]) s = Inr t"
    using assms by (simp add: backfill_object_def Let_def current_of_def key_of_legacy_object)
  ultimately show ?thesis by (simp add: t key_of_legacy_object)
qed

section \<open>Witnesses\<close>

definition alpha_schema :: "string list schema_state" where
  "alpha_schema = \<lparr>sm_baseline = True, sm_ledger = None, sm_tables = [], sm_rows = empty_db\<rparr>"

lemma empty_backfill: "backfill R empty_db = Inr empty_db"
  by (simp add: backfill_def domain_policies_def grouped_def first_seen_def ordered_records_def empty_db_def)

text \<open>Statements that note their revision in the catalog.\<close>

definition noted_ddl :: "string list ddl" where
  "noted_ddl r c = Inr (c @ [r])"

lemma alpha_migrates:
  "\<exists>now T. migrate ascii_runtime (\<lambda>x. CHR ''c'' # x) noted_ddl (migrations noted_ddl) alpha_schema = Inr (now, T) \<and>
     length now = 10"
  by (simp add: migrate_def alpha_schema_def migrations_def migrate_one_def ledger_row_def ddl_step_def identity_step_def
      base_tables_def noted_ddl_def empty_backfill) (simp add: mg_checksum_def)


definition alpha_db :: db where
  "alpha_db = empty_db\<lparr>records := [demo_record ''r1'' ''s1'' ''Acme'' 5]\<rparr>"

lemma alpha_backfilled: "\<exists>t. backfill ascii_runtime alpha_db = Inr t"
proof -
  have "domain_policies ascii_runtime alpha_db = Inr []" by (simp add: domain_policies_def alpha_db_def empty_db_def)
  moreover have "grouped (ordered_records alpha_db) = [(observation_key (demo_record ''r1'' ''s1'' ''Acme'' 5), [demo_record ''r1'' ''s1'' ''Acme'' 5])]"
    by (simp add: grouped_def first_seen_def ordered_records_def alpha_db_def)
  moreover have "objects alpha_db = []" "metas alpha_db = []" by (simp_all add: alpha_db_def empty_db_def)
  ultimately show ?thesis
    by (simp add: backfill_def backfill_object_def Let_def add_meta_def guard_res_def index_current_def split: option.splits)
qed

theorem backfill_gives_every_observation_its_object_witness:
  "\<exists>t b. backfill ascii_runtime alpha_db = Inr t \<and> b \<in> set (objects t) \<and> ob_local b = ''r1'' \<and>
     same_payload ascii_runtime (as_sent (demo_record ''r1'' ''s1'' ''Acme'' 5)) (demo_record ''r1'' ''s1'' ''Acme'' 5) t"
proof -
  let ?r = "demo_record ''r1'' ''s1'' ''Acme'' 5"
  obtain t where t: "backfill ascii_runtime alpha_db = Inr t" using alpha_backfilled by blast
  have "?r \<in> set (records alpha_db)" "objects alpha_db = []" "metas alpha_db = []" by (simp_all add: alpha_db_def empty_db_def)
  with backfill_gives_every_observation_its_object [OF t]
  obtain b where "b \<in> set (objects t)" "key_of_object b = observation_key ?r" "same_payload ascii_runtime (as_sent ?r) ?r t" by auto
  with t show ?thesis by (intro exI [of _ t] exI [of _ b]) (simp add: key_of_object_def observation_key_def demo_record_def)
qed

end
