(* ===== verification/Operations.thy ===== *)
theory Operations
  imports Assistant Migration Jobs
begin

text \<open>
  What guards a deployment: the preflight of production settings (settings.py), the request middleware,
  readiness and metrics (main.py). The table of metrics is the list of gauges it sets; rendering it, CORS
  and trusted hosts are the work of libraries.
\<close>

section \<open>Settings\<close>

record deployment = settings +
  environment :: string
  database_url :: string
  master_key_file :: "string option"
  metrics_token_file :: "string option"
  allowed_origins :: "string list"
  allowed_hosts :: "string list"
  outbound_enabled :: bool
  publication_url :: "string option"
  max_request_bytes :: int
  ai_part :: ai_settings

definition problem :: "bool \<Rightarrow> string \<Rightarrow> string list" where
  "problem b m = (if b then [m] else [])"

definition production_problems :: "deployment \<Rightarrow> string list" where
  "production_problems D =
     problem (demo_mode D) ''demo_mode must be disabled'' @
     problem (demo_reverse_proxy D) ''demo reverse-proxy trust must be disabled'' @
     problem (\<not> prefix_of ''postgresql'' (database_url D)) ''PostgreSQL is required'' @
     problem (\<not> truthy_str (oidc_issuer D) \<or> \<not> truthy_str (oidc_audience D) \<or> \<not> truthy_str (oidc_client_id D))
       ''OIDC issuer, audience, and browser client ID are required'' @
     problem (\<not> truthy_str (session_secret D) \<or> length (the (session_secret D)) < 32)
       ''a 32+ character session secret is required'' @
     problem (\<not> truthy_str (master_key_file D)) ''an external master key file is required'' @
     problem (\<not> truthy_str (scim_token_file D)) ''an external SCIM bearer token file is required'' @
     problem (\<not> truthy_str (metrics_token_file D)) ''an external metrics bearer token file is required'' @
     problem (allowed_origins D = [''*'']) ''wildcard CORS is forbidden'' @
     problem (allowed_hosts D = [] \<or> ''*'' \<in> set (allowed_hosts D)) ''explicit trusted hosts are required'' @
     problem (outbound_enabled D \<and> (\<not> truthy_str (publication_url D) \<or> \<not> prefix_of ''https://'' (the (publication_url D))))
       ''production publication requires an HTTPS destination'' @
     problem (ai_enabled (ai_part D) \<and> ai_provider (ai_part D) \<notin> {''local'', ''openai_responses''})
       ''AI provider must be local or openai_responses'' @
     (if ai_enabled (ai_part D) \<and> ai_provider (ai_part D) = ''openai_responses'' then
        problem (\<not> truthy_str (ai_model (ai_part D))) ''hosted AI requires an explicit model'' @
        problem (\<not> truthy_str (ai_key_file (ai_part D))) ''hosted AI requires an API key file''
      else [])"

definition secure_production :: "deployment \<Rightarrow> unit res" where
  "secure_production D =
     guard_res (environment D = ''production'' \<longrightarrow> production_problems D = []) (PyError ''ValueError'')"

section \<open>Requests\<close>

record response =
  re_status :: nat
  re_headers :: "(string \<times> string) list"
  re_body :: json

definition error_body :: "string \<Rightarrow> json" where
  "error_body code = JObj [(''detail'', JObj [(''code'', JStr code)])]"

text \<open>The declared length of a request, if any, refuses it before it is handled.\<close>

definition refuse_request :: "runtime \<Rightarrow> deployment \<Rightarrow> string option \<Rightarrow> response option" where
  "refuse_request R D declared =
     (if \<not> truthy_str declared then None
      else case parse_int R (the declared) of
        None \<Rightarrow> Some \<lparr>re_status = 400, re_headers = [], re_body = error_body ''invalid_content_length''\<rparr>
      | Some n \<Rightarrow>
          if max_request_bytes D < n then Some \<lparr>re_status = 413, re_headers = [], re_body = error_body ''request_too_large''\<rparr>
          else None)"

definition correlation_of :: "string \<Rightarrow> string option \<Rightarrow> string" where
  "correlation_of fresh given =
     (if \<not> truthy_str given \<or> 128 < length (the given) then fresh else the given)"

definition no_source :: string where
  "no_source = [CHR 0x27] @ ''none'' @ [CHR 0x27]"

definition security_headers :: "string \<Rightarrow> (string \<times> string) list" where
  "security_headers correlation =
     [(''X-Correlation-ID'', correlation), (''X-Content-Type-Options'', ''nosniff''), (''Referrer-Policy'', ''no-referrer''),
      (''Content-Security-Policy'', ''default-src '' @ no_source @ ''; frame-ancestors '' @ no_source)]"

definition handle_request ::
    "runtime \<Rightarrow> deployment \<Rightarrow> string \<Rightarrow> string option \<Rightarrow> string option \<Rightarrow> response \<Rightarrow> response" where
  "handle_request R D fresh declared given handled =
     (case refuse_request R D declared of
        Some r \<Rightarrow> r
      | None \<Rightarrow> handled\<lparr>re_headers := fold (\<lambda>(k, v). AList.update k v) (security_headers (correlation_of fresh given)) (re_headers handled)\<rparr>)"

section \<open>Readiness and metrics\<close>

definition ready :: "(string \<Rightarrow> string) \<Rightarrow> 'c migration list \<Rightarrow> 'c schema_state \<Rightarrow> unit res" where
  "ready sha ms S = guard_res (schema_is_current sha ms S) (HTTPException 503 ''schema_migration_required'')"

datatype gauge =
    SourceRecords string
  | ReviewBacklog string
  | OutboxBacklog string event_status
  | JobBacklog string job_status
  | IngestionRuns string run_status

text \<open>
  The runs that failed or were cancelled are counted too; no run ever has these states, so the model's
  states leave them out.
\<close>

definition workspace_gauges :: "db \<Rightarrow> workspace \<Rightarrow> (gauge \<times> nat) list" where
  "workspace_gauges s w =
     (SourceRecords (ws_slug w), length (filter (\<lambda>r. sr_ws r = ws_id w) (records s))) #
     (ReviewBacklog (ws_slug w), length (filter (\<lambda>t. rt_ws t = ws_id w \<and> rt_status t = OpenTask) (tasks s))) #
     map (\<lambda>st. (OutboxBacklog (ws_slug w) st, length (filter (\<lambda>e. ev_ws e = ws_id w \<and> ev_status e = st) (events s))))
       [EventPending, EventRetry, EventReconcile, EventDead] @
     map (\<lambda>st. (JobBacklog (ws_slug w) st, length (filter (\<lambda>j. jb_ws j = ws_id w \<and> jb_status j = st) (jobs s))))
       [JobQueued, JobRunning, JobRetry, JobFailed] @
     map (\<lambda>st. (IngestionRuns (ws_slug w) st, length (filter (\<lambda>r. ir_ws r = ws_id w \<and> ir_status r = st) (runs s))))
       [RunRunning, RunComplete]"

definition all_ascii :: "string \<Rightarrow> bool" where
  "all_ascii s \<longleftrightarrow> (\<forall>c \<in> set s. (of_char c :: nat) < 128)"

definition metrics_gate :: "(string \<Rightarrow> string res) \<Rightarrow> deployment \<Rightarrow> string option \<Rightarrow> unit res" where
  "metrics_gate file D authorization =
     (if truthy_str (metrics_token_file D) then
        bind_res (case file (the (metrics_token_file D)) of
            Inl (PyError c) \<Rightarrow> if c = ''OSError'' then Inl (HTTPException 503 ''metrics_secret_unavailable'') else Inl (PyError c)
          | r \<Rightarrow> r) (\<lambda>raw.
        let expected = strip raw;
            supplied = (if truthy_str authorization then strip_prefix ''Bearer '' (the authorization) else [])
        in bind_res (guard_res (supplied \<noteq> []) (HTTPException 401 ''invalid_metrics_token'')) (\<lambda>_.
           bind_res (guard_res (all_ascii supplied \<and> all_ascii expected) (PyError ''TypeError'')) (\<lambda>_.
           guard_res (supplied = expected) (HTTPException 401 ''invalid_metrics_token''))))
      else Inr ())"

definition metrics :: "(string \<Rightarrow> string res) \<Rightarrow> deployment \<Rightarrow> string option \<Rightarrow> db \<Rightarrow> (gauge \<times> nat) list res" where
  "metrics file D authorization s =
     bind_res (metrics_gate file D authorization) (\<lambda>_. Inr (concat (map (workspace_gauges s) (workspaces s))))"

section \<open>What a production deployment promises\<close>

lemma problem_none [simp]: "problem b m = [] \<longleftrightarrow> \<not> b"
  by (simp add: problem_def)

lemma secure_productionD:
  assumes "secure_production D = Inr ()" "environment D = ''production''"
  shows "\<not> demo_mode D" "\<not> demo_reverse_proxy D" "truthy_str (metrics_token_file D)"
    "prefix_of ''postgresql'' (database_url D)" "''*'' \<notin> set (allowed_hosts D)" "32 \<le> length (the (session_secret D))"
    "outbound_enabled D \<Longrightarrow> prefix_of ''https://'' (the (publication_url D))"
  using assms by (auto simp: secure_production_def res_elim production_problems_def)

definition carries_credential :: "request \<Rightarrow> bool" where
  "carries_credential rq \<longleftrightarrow>
     (\<exists>a. rq_authorization rq = Some a \<and> (prefix_of ''RecordlaneKey '' a \<or> prefix_of ''Bearer '' a)) \<or> truthy_str (rq_cookie rq)"

lemma uncredentialed_demo:
  assumes "\<not> carries_credential rq"
  shows "current_principal C cfg P now rq s = (demo_principal cfg rq, s)"
  using assms by (auto simp: current_principal_def carries_credential_def Let_def split: option.splits)

lemma metrics_token:
  assumes "metrics_gate file D authorization = Inr ()" "truthy_str (metrics_token_file D)"
  obtains raw a where "file (the (metrics_token_file D)) = Inr raw" "authorization = Some a"
    "strip_prefix ''Bearer '' a = strip raw" "strip raw \<noteq> []"
proof -
  from assms obtain raw where f: "file (the (metrics_token_file D)) = Inr raw"
    and s: "(if truthy_str authorization then strip_prefix ''Bearer '' (the authorization) else []) = strip raw" "strip raw \<noteq> []"
    by (auto simp: metrics_gate_def res_elim Let_def split: sum.splits err.splits if_splits)
  from s obtain a where "authorization = Some a" "strip_prefix ''Bearer '' a = strip raw"
    by (auto simp: truthy_str_def split: option.splits if_splits)
  with f s(2) show thesis by (intro that)
qed

text \<open>
  C23. Production acts on credentials alone. When the preflight accepts production settings, a request
  without a service key, a bearer token or a session cookie acts for nobody, whatever its other headers
  say, and changes nothing; and metrics are only read with the token of the configured file.
\<close>

theorem production_acts_on_credentials_alone:
  assumes "secure_production D = Inr ()" "environment D = ''production''"
  shows "(carries_credential rq \<or> current_principal C (settings.truncate D) P now rq s =
      (Inl (HTTPException 401 ''authentication_required''), s)) \<and>
    (metrics file D authorization (core s) = Inr rows \<longrightarrow>
      (\<exists>raw a. file (the (metrics_token_file D)) = Inr raw \<and> authorization = Some a \<and>
        strip_prefix ''Bearer '' a = strip raw \<and> strip raw \<noteq> []))"
proof (intro conjI disjCI impI)
  assume "current_principal C (settings.truncate D) P now rq s \<noteq> (Inl (HTTPException 401 ''authentication_required''), s)"
  moreover have "\<not> demo_mode (settings.truncate D)" using secure_productionD(1) [OF assms] by (simp add: settings.truncate_def)
  ultimately show "carries_credential rq" using uncredentialed_demo by (fastforce simp: demo_principal_def)
next
  assume "metrics file D authorization (core s) = Inr rows"
  then have "metrics_gate file D authorization = Inr ()" by (auto simp: metrics_def res_elim)
  from metrics_token [OF this secure_productionD(3) [OF assms]]
  show "\<exists>raw a. file (the (metrics_token_file D)) = Inr raw \<and> authorization = Some a \<and>
        strip_prefix ''Bearer '' a = strip raw \<and> strip raw \<noteq> []" by metis
qed

text \<open>Only the list that is exactly the wildcard is refused; a wildcard beside an origin passes.\<close>

lemma mixed_wildcard_origins_pass:
  "secure_production (D\<lparr>allowed_origins := [''https://a.example'', ''*'']\<rparr>) =
   secure_production (D\<lparr>allowed_origins := [''https://a.example'']\<rparr>)"
  by (simp add: secure_production_def production_problems_def)

text \<open>A request without a declared length, such as a chunked one, is never refused by its size.\<close>

lemma undeclared_lengths_pass: "refuse_request R D None = None"
  by (simp add: refuse_request_def truthy_str_def)

section \<open>Witness\<close>

definition production_deployment :: deployment where
  "production_deployment =
     \<lparr>oidc_issuer = Some ''https://id.example'', oidc_audience = Some ''recordlane'', oidc_client_id = Some ''web'',
      client_secret_file = None, client_secret = None, authorization_url = None, token_url = None, jwks_url = None,
      end_session_url = None, auto_provision = False, session_secret = Some ''0123456789abcdef0123456789abcdef'',
      session_ttl = 28800, demo_mode = False, demo_reverse_proxy = False, postgresql = True,
      scim_token_file = Some ''/run/scim'', scim_token = None, environment = ''production'', database_url = ''postgresql://db'',
      master_key_file = Some ''/run/key'', metrics_token_file = Some ''/run/metrics'', allowed_origins = [''https://a.example''],
      allowed_hosts = [''a.example''], outbound_enabled = False, publication_url = None, max_request_bytes = 10485760,
      ai_part = local_ai\<rparr>"

definition header_request :: request where
  "header_request = \<lparr>rq_authorization = None, rq_cookie = None, rq_host = Some ''127.0.0.1'', rq_user = Some ''root'',
     rq_role = Some ''administrator'', rq_workspace = Some ''demo''\<rparr>"

lemma production_accepted: "secure_production production_deployment = Inr ()" "environment production_deployment = ''production''"
  by (simp_all add: secure_production_def production_problems_def production_deployment_def truthy_str_def local_ai_def guard_res_def)

theorem production_acts_on_credentials_alone_witness:
  "\<forall>C P now s. current_principal C (settings.truncate production_deployment) P now header_request s =
     (Inl (HTTPException 401 ''authentication_required''), s)"
proof (intro allI)
  fix C P now s
  have "\<not> carries_credential header_request" by (simp add: carries_credential_def header_request_def truthy_str_def)
  with production_acts_on_credentials_alone [OF production_accepted, of header_request C P now s]
  show "current_principal C (settings.truncate production_deployment) P now header_request s =
     (Inl (HTTPException 401 ''authentication_required''), s)" by blast
qed

end
