(* ===== verification/Training.thy ===== *)
theory Training
  imports PolicyCompile
begin

text \<open>
  Fitting and judging the Fellegi-Sunter parameters of a policy on labelled pairs
  (matching/probabilistic.py). Floating-point sums and quotients are over the reals, the rounding of the
  results is Python's.
\<close>

section \<open>Agreement\<close>

definition agreement :: "runtime \<Rightarrow> json \<Rightarrow> json \<Rightarrow> json \<Rightarrow> bool res" where
  "agreement R left right comparator =
     (if is_missing left \<or> is_missing right then Inr False
      else if comparator = JStr ''exact'' then Inr (py_eq left right)
      else if comparator = JStr ''sequence_ratio'' then
        Inr (85 / 100 \<le> sequence_ratio (py_str R left) (py_str R right))
      else Inl (PyError ''ValueError''))"

definition pair_agreement :: "runtime \<Rightarrow> json \<Rightarrow> json \<Rightarrow> dict \<Rightarrow> bool res" where
  "pair_agreement R field comparator row =
     bind_res (bind_res (dindex row ''left'') as_dict) (\<lambda>left.
     bind_res (bind_res (dindex row ''right'') as_dict) (\<lambda>right.
     agreement R (jget left field) (jget right field) comparator))"

definition count_agreements :: "runtime \<Rightarrow> json \<Rightarrow> json \<Rightarrow> dict list \<Rightarrow> nat res" where
  "count_agreements R field comparator rows =
     bind_res (map_res (pair_agreement R field comparator) rows) (\<lambda>bs. Inr (length (filter (\<lambda>b. b) bs)))"

section \<open>Fitting\<close>

text \<open>Laplace smoothing; a quotient by 0 is a ZeroDivisionError.\<close>

definition smoothed :: "real \<Rightarrow> nat \<Rightarrow> nat \<Rightarrow> real res" where
  "smoothed w k n =
     bind_res (guard_res (real n + 2 * w \<noteq> 0) (PyError ''ZeroDivisionError'')) (\<lambda>_.
     Inr ((real k + w) / (real n + 2 * w)))"

definition fit_comparison :: "runtime \<Rightarrow> real \<Rightarrow> dict list \<Rightarrow> dict list \<Rightarrow> dict \<Rightarrow> dict res" where
  "fit_comparison R w matched unmatched comparison =
     bind_res (dindex comparison ''field'') (\<lambda>field.
     bind_res (dindex comparison ''comparator'') (\<lambda>comparator.
     bind_res (count_agreements R field comparator matched) (\<lambda>a.
     bind_res (count_agreements R field comparator unmatched) (\<lambda>b.
     bind_res (smoothed w a (length matched)) (\<lambda>m.
     bind_res (smoothed w b (length unmatched)) (\<lambda>u.
     bind_res (guard_res (u < m) (PyError ''ValueError'')) (\<lambda>_.
     Inr (dict_merge comparison
       [(''m_probability'', JFloat (py_round 6 m)), (''u_probability'', JFloat (py_round 6 u))]))))))))"

definition labelled :: "bool \<Rightarrow> dict list \<Rightarrow> dict list res" where
  "labelled b rows =
     bind_res (map_res (\<lambda>row. dindex row ''is_match'') rows) (\<lambda>labels.
     Inr (map fst (filter (\<lambda>(row, l). truthy l = b) (zip rows labels))))"

definition fit_parameters :: "runtime \<Rightarrow> real \<Rightarrow> dict list \<Rightarrow> dict list \<Rightarrow> dict list res" where
  "fit_parameters R w rows rules =
     bind_res (labelled True rows) (\<lambda>matched.
     bind_res (labelled False rows) (\<lambda>unmatched.
     bind_res (guard_res (matched \<noteq> [] \<and> unmatched \<noteq> []) (PyError ''ValueError'')) (\<lambda>_.
     map_res (fit_comparison R w matched unmatched) rules)))"

section \<open>Judging\<close>

record tally =
  true_positive :: nat
  false_positive :: nat
  true_negative :: nat
  false_negative :: nat
  squared_error :: real

definition tally_pair :: "runtime \<Rightarrow> compiled_policy \<Rightarrow> dict \<Rightarrow> tally \<Rightarrow> tally res" where
  "tally_pair R p row t =
     bind_res (bind_res (bind_res (dindex row ''left'') as_dict) (normalize R p)) (\<lambda>left.
     bind_res (bind_res (bind_res (dindex row ''right'') as_dict) (normalize R p)) (\<lambda>right.
     bind_res (compare_records R p left right) (\<lambda>result.
     bind_res (dindex row ''is_match'') (\<lambda>label.
     let predicted = 1 / 2 \<le> score result; actual = truthy label
     in Inr \<lparr>true_positive = true_positive t + (if predicted \<and> actual then 1 else 0),
             false_positive = false_positive t + (if predicted \<and> \<not> actual then 1 else 0),
             true_negative = true_negative t + (if \<not> predicted \<and> \<not> actual then 1 else 0),
             false_negative = false_negative t + (if \<not> predicted \<and> actual then 1 else 0),
             squared_error = squared_error t + (score result - (if actual then 1 else 0))\<^sup>2\<rparr>))))"

record evaluation =
  ev_pairs :: nat
  ev_tally :: tally
  ev_precision :: real
  ev_recall :: real
  ev_brier :: real

text \<open>\<open>a / (b or 1)\<close>\<close>

definition share :: "real \<Rightarrow> nat \<Rightarrow> real" where
  "share a n = a / real (if n = 0 then 1 else n)"

definition evaluate_policy :: "runtime \<Rightarrow> compiled_policy \<Rightarrow> dict list \<Rightarrow> evaluation res" where
  "evaluate_policy R p rows =
     bind_res (fold_res (tally_pair R p) rows
       \<lparr>true_positive = 0, false_positive = 0, true_negative = 0, false_negative = 0, squared_error = 0\<rparr>) (\<lambda>t.
     Inr \<lparr>ev_pairs = length rows, ev_tally = t,
       ev_precision = py_round 6 (share (real (true_positive t)) (true_positive t + false_positive t)),
       ev_recall = py_round 6 (share (real (true_positive t)) (true_positive t + false_negative t)),
       ev_brier = py_round 6 (share (squared_error t) (length rows))\<rparr>)"

section \<open>What the parameters satisfy\<close>

lemma smoothed_bounds:
  assumes "smoothed w k n = Inr x" "k \<le> n" "0 < w"
  shows "w / (real n + 2 * w) \<le> x" "x \<le> 1 - w / (real n + 2 * w)"
proof -
  have d: "0 < real n + 2 * w" using assms(3) by (simp add: add_nonneg_pos)
  from assms(1) have x: "x = (real k + w) / (real n + 2 * w)" by (auto simp: smoothed_def res_elim)
  show "w / (real n + 2 * w) \<le> x" unfolding x using d by (intro divide_right_mono) auto
  have "1 - w / (real n + 2 * w) = (real n + w) / (real n + 2 * w)" using d by (simp add: field_simps)
  then show "x \<le> 1 - w / (real n + 2 * w)" unfolding x using d assms(2) by (simp add: divide_right_mono)
qed

lemma count_agreements_le: "count_agreements R f c rows = Inr k \<Longrightarrow> k \<le> length rows"
  by (auto simp: count_agreements_def res_elim dest!: map_res_length intro: order_trans [OF length_filter_le])

lemma fit_comparison_Inr:
  assumes "fit_comparison R w matched unmatched c = Inr d"
  obtains m u a b where "d = dict_merge c [(''m_probability'', JFloat (py_round 6 m)), (''u_probability'', JFloat (py_round 6 u))]"
    "u < m" "smoothed w a (length matched) = Inr m" "smoothed w b (length unmatched) = Inr u"
    "a \<le> length matched" "b \<le> length unmatched"
proof -
  from assms obtain f g a b m u where ab: "count_agreements R f g matched = Inr a" "count_agreements R f g unmatched = Inr b"
    and mu: "smoothed w a (length matched) = Inr m" "smoothed w b (length unmatched) = Inr u" "u < m"
    and d: "d = dict_merge c [(''m_probability'', JFloat (py_round 6 m)), (''u_probability'', JFloat (py_round 6 u))]"
    by (auto simp: fit_comparison_def res_elim)
  from ab [THEN count_agreements_le] show thesis by (rule that [OF d mu(3,1,2)])
qed

lemma fitted_values:
  "map_of (dict_merge c [(''m_probability'', x), (''u_probability'', y)]) ''m_probability'' = Some x"
  "map_of (dict_merge c [(''m_probability'', x), (''u_probability'', y)]) ''u_probability'' = Some y"
  by (simp_all add: map_of_dict_merge)

text \<open>
  With Laplace smoothing by one, the difference of the two quotients is at least the inverse of the
  product of their denominators, so it survives the rounding when that product is less than a million.
\<close>

lemma quotient_gap:
  fixes a b n k :: nat
  assumes "(real b + 1) / (real k + 2) < (real a + 1) / (real n + 2)"
  shows "1 / ((real n + 2) * (real k + 2)) \<le> (real a + 1) / (real n + 2) - (real b + 1) / (real k + 2)"
proof -
  have "(real b + 1) * (real n + 2) < (real a + 1) * (real k + 2)" using assms by (simp add: divide_simps)
  then have "real ((b + 1) * (n + 2)) < real ((a + 1) * (k + 2))" by (simp add: algebra_simps)
  then have "(b + 1) * (n + 2) < (a + 1) * (k + 2)" by (simp only: of_nat_less_iff)
  then have "real ((b + 1) * (n + 2)) + 1 \<le> real ((a + 1) * (k + 2))" by linarith
  then have "1 \<le> (real a + 1) * (real k + 2) - (real b + 1) * (real n + 2)" by (simp add: algebra_simps)
  then have "1 / ((real n + 2) * (real k + 2)) \<le> ((real a + 1) * (real k + 2) - (real b + 1) * (real n + 2)) / ((real n + 2) * (real k + 2))"
    by (intro divide_right_mono) auto
  also have "\<dots> = (real a + 1) / (real n + 2) - (real b + 1) / (real k + 2)" by (simp add: field_simps)
  finally show ?thesis .
qed

lemma rounded_apart:
  assumes "1 / 10 ^ 6 < x - y"
  shows "py_round 6 y < py_round 6 x"
  using py_round_error [of 6 x] py_round_error [of 6 y] assms by linarith

text \<open>
  C22. Fitted parameters are parameters. What is fitted on labelled pairs, with one virtual pair of each
  outcome, has probabilities with 0 < u < m < 1 for every comparison, also after the rounding to six
  digits, when the product of the numbers of matched and unmatched pairs (two more each) is less than a
  million; these are the conditions under which a Fellegi-Sunter policy compiles.
\<close>

theorem fitted_parameters_are_valid:
  assumes "fit_parameters R 1 rows rules = Inr ds" "labelled True rows = Inr matched" "labelled False rows = Inr unmatched"
    and "(length matched + 2) * (length unmatched + 2) < 10 ^ 6" "d \<in> set ds"
  shows "\<exists>m u. map_of d ''m_probability'' = Some (JFloat m) \<and> map_of d ''u_probability'' = Some (JFloat u) \<and>
    0 < u \<and> u < m \<and> m < 1"
proof -
  let ?n = "length matched" and ?k = "length unmatched"
  from assms(1-3) have "map_res (fit_comparison R 1 matched unmatched) rules = Inr ds"
    by (auto simp: fit_parameters_def res_elim)
  from map_res_mem [OF this assms(5)] obtain c where "fit_comparison R 1 matched unmatched c = Inr d" by blast
  then obtain m u a b where d: "d = dict_merge c [(''m_probability'', JFloat (py_round 6 m)), (''u_probability'', JFloat (py_round 6 u))]"
    and lt: "u < m" and m: "smoothed 1 a ?n = Inr m" and u: "smoothed 1 b ?k = Inr u" and le: "a \<le> ?n" "b \<le> ?k"
    by (rule fit_comparison_Inr)
  have prod: "(real ?n + 2) * (real ?k + 2) < 10 ^ 6"
  proof -
    have "real ((?n + 2) * (?k + 2)) < real (10 ^ 6)" using assms(4) by (simp only: of_nat_less_iff)
    then show ?thesis by (simp add: algebra_simps)
  qed
  have "real ?n + 2 \<le> (real ?n + 2) * (real ?k + 2)" "real ?k + 2 \<le> (real ?n + 2) * (real ?k + 2)"
    by (simp_all add: algebra_simps)
  with prod have small: "real ?n + 2 < 10 ^ 6" "real ?k + 2 < 10 ^ 6" by linarith+
  have inv: "1 / 10 ^ 6 < 1 / (real l + 2)" if "real l + 2 < 10 ^ 6" for l :: nat
    using that by (intro divide_strict_left_mono) auto
  have mu: "m = (real a + 1) / (real ?n + 2)" "u = (real b + 1) / (real ?k + 2)"
    using m u by (auto simp: smoothed_def res_elim)
  have "1 / 10 ^ 6 < 1 / ((real ?n + 2) * (real ?k + 2))" using prod by (intro divide_strict_left_mono) auto
  with quotient_gap [of b ?k a ?n] lt have "1 / 10 ^ 6 < m - u" unfolding mu by linarith
  moreover have "1 / 10 ^ 6 < u - 0"
  proof -
    have "1 / (real ?k + 2) \<le> u" using smoothed_bounds(1) [OF u le(2)] by simp
    with inv [OF small(2)] show ?thesis by linarith
  qed
  moreover have "1 / 10 ^ 6 < 1 - m"
  proof -
    have "m \<le> 1 - 1 / (real ?n + 2)" using smoothed_bounds(2) [OF m le(1)] by simp
    with inv [OF small(1)] show ?thesis by linarith
  qed
  ultimately have "py_round 6 u < py_round 6 m" "py_round 6 0 < py_round 6 u" "py_round 6 m < py_round 6 1"
    by (simp_all only: rounded_apart)
  then show ?thesis by (auto simp: d fitted_values)
qed

text \<open>The four outcomes add up to the pairs, and precision and recall are shares.\<close>

lemma tallied:
  assumes "fold_res (tally_pair R p) rows t = Inr t'"
  shows "true_positive t' + false_positive t' + true_negative t' + false_negative t' =
    true_positive t + false_positive t + true_negative t + false_negative t + length rows"
  using assms
proof (induction rows arbitrary: t)
  case (Cons row rows)
  then obtain u where u: "tally_pair R p row t = Inr u" and rest: "fold_res (tally_pair R p) rows u = Inr t'"
    by (auto simp: res_elim)
  from u have "true_positive u + false_positive u + true_negative u + false_negative u =
      Suc (true_positive t + false_positive t + true_negative t + false_negative t)"
    by (auto simp: tally_pair_def res_elim Let_def)
  with Cons.IH [OF rest] show ?case by simp
qed simp

lemma share_bounds: "a \<le> n \<Longrightarrow> 0 \<le> share (real a) n \<and> share (real a) n \<le> 1"
  by (simp add: share_def)

lemma evaluations_add_up:
  assumes "evaluate_policy R p rows = Inr e"
  shows "true_positive (ev_tally e) + false_positive (ev_tally e) + true_negative (ev_tally e) + false_negative (ev_tally e) = ev_pairs e"
    and "0 \<le> ev_precision e \<and> ev_precision e \<le> 1 \<and> 0 \<le> ev_recall e \<and> ev_recall e \<le> 1"
proof -
  from assms obtain t where t: "fold_res (tally_pair R p) rows
       \<lparr>true_positive = 0, false_positive = 0, true_negative = 0, false_negative = 0, squared_error = 0\<rparr> = Inr t"
    and e: "e = \<lparr>ev_pairs = length rows, ev_tally = t,
       ev_precision = py_round 6 (share (real (true_positive t)) (true_positive t + false_positive t)),
       ev_recall = py_round 6 (share (real (true_positive t)) (true_positive t + false_negative t)),
       ev_brier = py_round 6 (share (squared_error t) (length rows))\<rparr>"
    by (auto simp: evaluate_policy_def res_elim)
  from tallied [OF t] show "true_positive (ev_tally e) + false_positive (ev_tally e) + true_negative (ev_tally e) + false_negative (ev_tally e) = ev_pairs e"
    by (simp add: e)
  show "0 \<le> ev_precision e \<and> ev_precision e \<le> 1 \<and> 0 \<le> ev_recall e \<and> ev_recall e \<le> 1"
    unfolding e by (simp add: py_round_bounds share_bounds)
qed

section \<open>Witness\<close>

definition labelled_pairs :: "dict list" where
  "labelled_pairs =
     [[(''left'', JObj [(''name'', JStr ''Acme'')]), (''right'', JObj [(''name'', JStr ''Acme'')]), (''is_match'', JBool True)],
      [(''left'', JObj [(''name'', JStr ''Acme'')]), (''right'', JObj [(''name'', JStr ''Orion'')]), (''is_match'', JBool False)]]"

definition name_rule :: dict where
  "name_rule = [(''field'', JStr ''name''), (''comparator'', JStr ''exact'')]"

lemma pairs_labelled: "labelled True labelled_pairs = Inr [hd labelled_pairs]" "labelled False labelled_pairs = Inr [last labelled_pairs]"
  by (simp_all add: labelled_def labelled_pairs_def dindex_def from_option_def)

lemma names_fitted: "\<exists>d. fit_parameters ascii_runtime 1 labelled_pairs [name_rule] = Inr [d]"
  by (simp add: fit_parameters_def pairs_labelled guard_res_def)
    (simp add: labelled_pairs_def name_rule_def fit_comparison_def dindex_def from_option_def count_agreements_def
      pair_agreement_def as_dict_def agreement_def jget_def is_missing_def smoothed_def guard_res_def dget_def)

theorem fitted_parameters_are_valid_witness:
  "\<exists>d m u. fit_parameters ascii_runtime 1 labelled_pairs [name_rule] = Inr [d] \<and>
     map_of d ''m_probability'' = Some (JFloat m) \<and> map_of d ''u_probability'' = Some (JFloat u) \<and> 0 < u \<and> u < m \<and> m < 1"
proof -
  obtain d where d: "fit_parameters ascii_runtime 1 labelled_pairs [name_rule] = Inr [d]" using names_fitted by blast
  from fitted_parameters_are_valid [OF d pairs_labelled, of d] d show ?thesis by auto
qed

end
