(* ===== verification/Spec2Isabelle.thy ===== *)
theory Spec2Isabelle
  imports Credentials Boundary Leases Files Probes Consumer Snapshots Tenancy Operations Training
begin

text \<open>
  A model of the Recordlane back end, the Python package under src/backend/src/recordlane. Recordlane
  masters records: sources send observations, observations of one thing are linked to an entity, the
  best values of an entity are drafted as a master record, people review what is sensitive, and approved
  masters are published as events. Every change is audited. The definitions are translated from the
  source, operation by operation and with its guards, errors and order of effects; the theorems state
  what the operations promise.

  \<^bold>\<open>How a state is modelled.\<close> The tables of models/tables.py are lists of rows in the order of
  insertion, one record type per class (Tables; Identity for people, sessions and service accounts;
  Secrets, Webhook, Migration and Consumer for the tables only they use). The record \<open>db\<close> holds the
  tables of a workspace database, \<open>site\<close> adds the identity tables. An operation takes a state and
  returns a result with the new state. An exception is the \<open>Inl\<close> of a result: \<open>HTTPException\<close> carries
  the status and the code of the answer, \<open>PyError\<close> names any other exception, \<open>PolicyError\<close> is the one
  of policy.py. A route that raises leaves the state as the transaction does: unchanged, but for what
  the code committed before, such as the expiry of a stale approval or the audit entry of a failed
  assistant. Dicts are association lists in insertion order, JSON values the datatype \<open>json\<close>, with
  Python's truth, equality and text of them in PyValue. Floats are reals, with Python's rounding where
  the code rounds; a decimal is a number, no number, or beyond the exponents that Python normalises. IP
  addresses are words of 32 and 128 bits.

  \<^bold>\<open>Parameters.\<close> What the code takes from libraries and from outside is an argument of the
  definitions: \<open>runtime\<close> (Unicode normal forms and case, regular expressions, number parsing, SHA-256 of
  a canonical document, the clock and fresh identifiers by their count), \<open>crypto\<close> and \<open>provider\<close> (hashes,
  token decoding and the identity provider), \<open>parsers\<close> and \<open>network\<close> (URLs, name resolution, HTTP
  answers), \<open>outside\<close> (files, environment, Vault, encryption), \<open>hook_tools\<close>, \<open>ai_tools\<close>, \<open>renderer\<close>,
  \<open>prober\<close>, the replies a publication receives and the statements of schema revisions, which change a
  catalog of any type. A name may resolve otherwise from one moment to the next: the paged reads take a
  \<open>network\<close> for every moment, elsewhere \<open>nt_resolve\<close> is what the check sees, and nothing is said of
  the address a request then connects to.
  A theorem that needs something of them says so, for instance that fresh identifiers differ or that what
  was encrypted decrypts; its witness instantiates them, mostly with \<open>ascii_runtime\<close> of Samples. The
  audit theorem assumes no law of the digest: it exhibits a collision among the entries instead.

  \<^bold>\<open>The clock.\<close> A reading of the clock inside the service is \<open>clock R n\<close>, where \<open>n\<close> counts the
  readings and identifiers drawn so far (\<open>ticks\<close>), so that two readings of one operation may differ. The
  identity, job, publication and webhook operations take the time of the request as an argument, and
  read it once.

  \<^bold>\<open>The policy engine\<close> (policy.py, matching/engine.py, matching/probabilistic.py). Difflib is the
  sequence matcher of the standard library, Policy the methods of \<open>CompiledPolicy\<close>, PolicyCompile the
  compiler from an untrusted document, Canonical the canonical document and that it compiles to
  itself, Training the fitting of its parameters. Policies that compile satisfy the restrictions of the
  compiler and fail on a record only for a decimal that overflows; pairs are kept apart exactly on hard
  conflicts.

  \<^bold>\<open>The mastering service\<close> (mastering/service.py). AuditTrail is \<open>audit\<close>, Membership the source
  objects and their history, Mastering survivorship and drafts, Resolve candidate search and linking,
  Ingestion \<open>ingest\<close> with runs and snapshots, Snapshots what a completed snapshot leaves, Correction links, merges and splits, Configuration domains
  and configuration versions, Simulation the simulation of a configuration, Review \<open>decide_task\<close> with
  its effects. Resolve rests on a matcher only through the locale \<open>pair_matcher\<close>, the tables share
  \<open>row_store\<close>, the audit trail is an instance of \<open>hash_chain\<close>. Guarantees holds the relation
  \<open>keeps\<close> of what no operation undoes, and Decisions what the review desk promises.

  \<^bold>\<open>Work in the background.\<close> Jobs is the claiming, leasing and finishing of jobs/worker.py as a fleet
  of workers that may be delayed, restarted and superseded; Remaster is the handler of its
  \<open>remaster_domain\<close> jobs; Leases is an abstract board of leases and the simulation by which the workers
  refine it, act by act, each act labelled with its worker, job and fence. Publication is the relay of publication/service.py, with the kill of a relay between two
  commits as a step, and the reconciliation by receipts. Handlers are used through \<open>quiet_handlers\<close>.
  Consumer is the receiving service of demo_services.py and the exchange of both over a network that
  loses requests and answers: delivery is effectively once, end to end.

  \<^bold>\<open>Runs of a workspace and of a site.\<close> \<open>workspace_step\<close> (Workspace) has one rule for every committed
  write of a workspace (those above, and sources, relationships, secrets, bundles, inbound events and
  assistant drafts below), by any principal and in any order; \<open>sound\<close> of Review (unique identifiers, memberships
  in step with their history, at most one open approval of an entity, unique versions, an intact audit
  trail, one active configuration) holds in every state it reaches. \<open>site_step\<close> (Site) adds sign-in,
  provisioning and credentials and runs workspace steps under the authority of a principal.

  \<^bold>\<open>Who may act\<close> (auth). Identity has roles, permissions, the four kinds of principal and
  \<open>open_service\<close>, which is \<open>service()\<close> of api/routes.py with its permission check: a route takes the
  opened service, the route's permission being an argument of \<open>open_service\<close> where the steps and theorems
  use it. Login is the OIDC login, callback and logout and the service accounts, Provisioning is SCIM,
  Access and Credentials hold their properties, from deprovisioning to row security.

  \<^bold>\<open>What is shown\<close> (api/routes.py). Views has the read routes with the attributes a caller may read
  and the keyset pages; the locale \<open>same_sight\<close> is two states that differ, within the columns the views
  filter, only in what a caller may not read, and in blocking keys, which no view filters; every view is
  shown to be the same on both, up to those keys. Profile is the quality profile, Bundle the
  export and import of a workspace, Tenancy the remaining lists and the isolation of the workspaces: no
  read endpoint depends on the rows of another one, as long as the rows of a workspace refer to its own.

  \<^bold>\<open>The borders\<close> (connectors, secrets, assistant). Sources validates and stores connections, Network
  has the allowlists and the address classes of Python 3.14's \<open>ipaddress\<close>, Paging the reads of HTTP and
  OData interfaces, Probes the connection tests, Boundary runs of all operations that touch a source.
  Files is the exchange of CSV and JSON lines with the state machine of the csv reader, Secrets the
  stored secrets and their resolution, Webhook the inbound events, Assistant the evidence, redaction and
  drafting of the governed assistant.

  \<^bold>\<open>Deployment.\<close> Migration is the runner of operations/migrate.py and its data migration to stable
  source objects; Operations is the preflight of settings.py and the middleware, readiness and metrics
  of main.py.

  \<^bold>\<open>Bounds.\<close> No definition needs fuel for a loop of unknown length: the recursions are structural or
  end by a measure. Pages of an interface are bounded by the code's own \<open>max_pages\<close>; the attempts of a
  job by \<open>max_attempts\<close> (5), candidates by 200, pairs of a simulation and the sizes of forms by the
  limits of the source. The theorem on fitted parameters has the bound on the number of labelled pairs
  that six digits need.

  \<^bold>\<open>Not modelled.\<close> Rendering to JSON and HTTP framing, cookies and the PKCE challenge of the
  redirect; the database drivers, streaming of object bytes and parquet (pure input and output through
  libraries); table definitions and the SQL of row policies, but for the predicate that decides which
  service accounts a request sees; engine and telemetry wiring (database.py, observability.py); demo
  data and the synthetic HTTP source; the polling loop around the worker; the
  scripts, the front end and the deployment files. Transactions are serial: two transactions whose
  reads and writes interleave appear only where the code splits its work over several commits (jobs,
  publication, sign-in, decisions).
\<close>

end
